(* ===== verification/Gate_Prelude.thy ===== *)
theory Gate_Prelude
  imports Complex_Main
begin

text \<open>
  Shared vocabulary of the Lingshu Gate development: Python strings as lists of code
  points, fallible computations as sums, tables of rows as lists, the generic lemmas the
  component theories rely on, and the interfaces (locales) that several components
  implement.
\<close>

named_theorems gate_defs \<open>definitions the component proofs unfold together\<close>

section \<open>Python strings\<close>

text \<open>
  A Python \<^verbatim>\<open>str\<close> is a sequence of Unicode code points.  ASCII literals of the source are
  written \<open>lit ''...''\<close>; \<open>lit\<close> is injective, so that comparing two literals never unfolds
  them.
\<close>

type_synonym pystr = "nat list"

definition lit :: "string \<Rightarrow> pystr" where
  "lit s = map of_char s"

lemma inj_lit: "inj lit"
proof (rule injI)
  fix s t assume "lit s = lit t"
  then show "s = t"
    unfolding lit_def by (metis inj_map_eq_map inj_of_char)
qed

lemma lit_eq_iff [simp]: "lit s = lit t \<longleftrightarrow> s = t"
  using inj_lit by (auto dest: injD)

lemma length_lit [simp]: "length (lit s) = length s"
  by (simp add: lit_def)

lemma lit_eq_Nil_iff [simp]: "lit s = [] \<longleftrightarrow> s = []" "[] = lit s \<longleftrightarrow> s = []"
  by (auto simp: lit_def)

text \<open>The code points \<^verbatim>\<open>str.isspace\<close> accepts, which \<^verbatim>\<open>str.strip()\<close> removes at both ends.\<close>

definition py_space :: "nat \<Rightarrow> bool" where
  "py_space c \<longleftrightarrow>
     9 \<le> c \<and> c \<le> 13 \<or> 28 \<le> c \<and> c \<le> 32 \<or> c = 133 \<or> c = 160 \<or> c = 5760
     \<or> 8192 \<le> c \<and> c \<le> 8202 \<or> c = 8232 \<or> c = 8233 \<or> c = 8239 \<or> c = 8287 \<or> c = 12288"

definition strip_by :: "(nat \<Rightarrow> bool) \<Rightarrow> pystr \<Rightarrow> pystr" where
  "strip_by p s = rev (dropWhile p (rev (dropWhile p s)))"

definition strip :: "pystr \<Rightarrow> pystr" where
  "strip = strip_by py_space"

definition starts_with :: "pystr \<Rightarrow> pystr \<Rightarrow> bool" where
  "starts_with s p \<longleftrightarrow> take (length p) s = p"

definition ends_with :: "pystr \<Rightarrow> pystr \<Rightarrow> bool" where
  "ends_with s p \<longleftrightarrow> starts_with (rev s) (rev p)"

lemma starts_with_iff: "starts_with s p \<longleftrightarrow> (\<exists>t. s = p @ t)"
  by (metis append_eq_conv_conj append_take_drop_id starts_with_def)

lemma ends_with_iff: "ends_with s p \<longleftrightarrow> (\<exists>t. s = t @ p)"
  unfolding ends_with_def starts_with_iff
  by (metis rev_append rev_rev_ident)

text \<open>\<^verbatim>\<open>s.split(sep)\<close> for a one-character separator: always at least one part.\<close>

fun split_on :: "nat \<Rightarrow> pystr \<Rightarrow> pystr list" where
  "split_on sep [] = [[]]"
| "split_on sep (c # cs) =
     (if c = sep then [] # split_on sep cs
      else (case split_on sep cs of
              [] \<Rightarrow> [[c]]
            | p # ps \<Rightarrow> (c # p) # ps))"

lemma split_on_not_Nil [simp]: "split_on sep s \<noteq> []"
  by (induction s) (auto split: list.splits)

fun join_with :: "pystr \<Rightarrow> pystr list \<Rightarrow> pystr" where
  "join_with sep [] = []"
| "join_with sep [p] = p"
| "join_with sep (p # ps) = p @ sep @ join_with sep ps"

lemma join_with_Cons:
  "ps \<noteq> [] \<Longrightarrow> join_with sep (p # ps) = p @ sep @ join_with sep ps"
  by (cases ps) auto

lemma join_split_on: "join_with [sep] (split_on sep s) = s"
proof (induction s)
  case (Cons c cs)
  show ?case
  proof (cases "split_on sep cs")
    case (Cons p ps)
    then show ?thesis
      using Cons.IH by (cases ps) auto
  qed simp
qed simp

text \<open>\<^verbatim>\<open>str(n)\<close> in decimal.\<close>

fun nat_str :: "nat \<Rightarrow> pystr" where
  "nat_str n = (if n < 10 then [48 + n] else nat_str (n div 10) @ [48 + n mod 10])"

declare nat_str.simps [simp del]

definition int_str :: "int \<Rightarrow> pystr" where
  "int_str i = (if i < 0 then 45 # nat_str (nat (- i)) else nat_str (nat i))"

lemma nat_str_ascii: "c \<in> set (nat_str n) \<Longrightarrow> 48 \<le> c \<and> c < 58"
proof (induction n rule: nat_str.induct)
  case (1 n)
  then show ?case
    by (cases "n < 10") (auto simp: nat_str.simps [of n])
qed

lemma int_str_ascii: "c \<in> set (int_str i) \<Longrightarrow> 32 \<le> c \<and> c < 128"
  by (auto simp: int_str_def split: if_splits dest!: nat_str_ascii)

section \<open>Fallible computations\<close>

text \<open>A computation that raises returns \<open>Inl error\<close>; \<open>bindR\<close> sequences two of them.\<close>

definition bindR :: "'e + 'a \<Rightarrow> ('a \<Rightarrow> 'e + 'b) \<Rightarrow> 'e + 'b" where
  "bindR m f = (case m of Inl e \<Rightarrow> Inl e | Inr x \<Rightarrow> f x)"

lemma bindR_simps [simp]: "bindR (Inl e) f = Inl e" "bindR (Inr x) f = f x"
  by (simp_all add: bindR_def)

lemma bindR_Inr_iff [simp]: "bindR m f = Inr y \<longleftrightarrow> (\<exists>x. m = Inr x \<and> f x = Inr y)"
  by (cases m) simp_all

lemma bindR_Inl_iff: "bindR m f = Inl e \<longleftrightarrow> m = Inl e \<or> (\<exists>x. m = Inr x \<and> f x = Inl e)"
  by (cases m) auto

lemma bindR_cong [fundef_cong]:
  "m = m' \<Longrightarrow> (\<And>x. m' = Inr x \<Longrightarrow> f x = f' x) \<Longrightarrow> bindR m f = bindR m' f'"
  by (cases m) auto

definition guardR :: "bool \<Rightarrow> 'e \<Rightarrow> 'e + unit" where
  "guardR c e = (if c then Inl e else Inr ())"

lemma guardR_Inr_iff [simp]: "guardR c e = Inr u \<longleftrightarrow> \<not> c"
  by (simp add: guardR_def)

lemma guardR_Inl_iff [simp]: "guardR c e = Inl e' \<longleftrightarrow> c \<and> e' = e"
  by (auto simp: guardR_def)

definition is_ok :: "'e + 'a \<Rightarrow> bool" where
  "is_ok r = (case r of Inl _ \<Rightarrow> False | Inr _ \<Rightarrow> True)"

lemma is_ok_simps [simp]: "is_ok (Inr x)" "\<not> is_ok (Inl e)"
  by (simp_all add: is_ok_def)

lemma is_ok_bindR: "is_ok (bindR m f) \<longleftrightarrow> (\<exists>x. m = Inr x \<and> is_ok (f x))"
  by (cases m) auto

lemma is_ok_iff: "is_ok m \<longleftrightarrow> (\<exists>x. m = Inr x)"
  by (cases m) auto

lemma not_is_ok_iff: "\<not> is_ok m \<longleftrightarrow> (\<exists>e. m = Inl e)"
  by (cases m) auto

section \<open>Tables of rows\<close>

text \<open>
  A database table is the list of its rows.  \<open>find_row\<close>, \<open>update_rows\<close> and \<open>delete_rows\<close> are
  \<^verbatim>\<open>SELECT ... LIMIT 1\<close>, \<^verbatim>\<open>UPDATE ... WHERE\<close> and \<^verbatim>\<open>DELETE ... WHERE\<close>.
\<close>

definition find_row :: "('r \<Rightarrow> bool) \<Rightarrow> 'r list \<Rightarrow> 'r option" where
  "find_row p rows = find p rows"

definition update_rows :: "('r \<Rightarrow> bool) \<Rightarrow> ('r \<Rightarrow> 'r) \<Rightarrow> 'r list \<Rightarrow> 'r list" where
  "update_rows p f rows = map (\<lambda>r. if p r then f r else r) rows"

definition delete_rows :: "('r \<Rightarrow> bool) \<Rightarrow> 'r list \<Rightarrow> 'r list" where
  "delete_rows p rows = filter (\<lambda>r. \<not> p r) rows"

lemma find_row_SomeD: "find_row p rows = Some r \<Longrightarrow> r \<in> set rows \<and> p r"
  by (auto simp: find_row_def find_Some_iff)

lemma find_row_None_iff: "find_row p rows = None \<longleftrightarrow> (\<forall>r \<in> set rows. \<not> p r)"
  by (auto simp: find_row_def find_None_iff)

lemma set_update_rows:
  "set (update_rows p f rows) = {r. r \<in> set rows \<and> \<not> p r} \<union> f ` {r. r \<in> set rows \<and> p r}"
  by (auto simp: update_rows_def)

lemma set_delete_rows [simp]: "set (delete_rows p rows) = {r. r \<in> set rows \<and> \<not> p r}"
  by (auto simp: delete_rows_def)

lemma map_update_rows:
  "(\<And>r. p r \<Longrightarrow> k (f r) = k r) \<Longrightarrow> map k (update_rows p f rows) = map k rows"
  by (auto simp: update_rows_def)

lemma distinct_delete_rows: "distinct (map k rows) \<Longrightarrow> distinct (map k (delete_rows p rows))"
  by (simp add: delete_rows_def distinct_map_filter)

lemma distinct_delete [simp]: "distinct rows \<Longrightarrow> distinct (delete_rows p rows)"
  by (simp add: delete_rows_def)

lemma image_key_delete [simp]: "k ` {r \<in> S. k r \<noteq> x} = k ` S - {x}"
  by auto

lemma image_update_rows: "(\<And>r. k (f r) = k r) \<Longrightarrow> k ` set (update_rows p f rows) = k ` set rows"
  by (metis map_update_rows list.set_map)

lemma update_rows_simps:
  "update_rows p f [] = []" "update_rows p f (x # xs) = (if p x then f x else x) # update_rows p f xs"
  by (simp_all add: update_rows_def)

lemma length_update_rows [simp]: "length (update_rows p f rows) = length rows"
  by (simp add: update_rows_def)

text \<open>With a unique key, the row found by its key is the only one with that key.\<close>

lemma unique_key_find:
  assumes "distinct (map k rows)" and "r \<in> set rows"
  shows "find_row (\<lambda>x. k x = k r) rows = Some r"
  using assms
proof (induction rows)
  case (Cons x xs)
  then show ?case
    by (cases "r = x") (force simp: find_row_def)+
qed (simp add: find_row_def)

lemma unique_key_eq:
  "distinct (map k rows) \<Longrightarrow> r \<in> set rows \<Longrightarrow> r' \<in> set rows \<Longrightarrow> k r = k r' \<Longrightarrow> r = r'"
  by (metis option.inject unique_key_find)

text \<open>A second unique column survives an update of the row with one key to an unused value.\<close>

lemma distinct_other_update:
  assumes "distinct (map k rows)" "distinct (map c rows)"
    and "\<And>r. r \<in> set rows \<Longrightarrow> k r \<noteq> t \<Longrightarrow> c r \<noteq> v" and "\<And>r. c (f r) = v"
  shows "distinct (map c (update_rows (\<lambda>r. k r = t) f rows))"
  using assms(1-3)
proof (induction rows)
  case (Cons x xs)
  have "k r \<noteq> t" if "r \<in> set xs" "k x = t" for r
    using Cons.prems(1) that by (auto simp: image_iff)
  note other = this
  then have same: "k x = t \<Longrightarrow> update_rows (\<lambda>r. k r = t) f xs = xs"
    unfolding update_rows_def by (intro map_idI) simp
  have tail: "distinct (map c (update_rows (\<lambda>r. k r = t) f xs))"
    using Cons by simp
  show ?case
  proof (cases "k x = t")
    case True
    have "v \<notin> c ` set xs" using Cons.prems(3) other True by (metis imageE list.set_intros(2))
    with True same tail show ?thesis by (simp add: update_rows_simps assms(4))
  next
    case False
    have "c x \<notin> c ` set (update_rows (\<lambda>r. k r = t) f xs)"
      using Cons.prems(2,3) False assms(4) by (force simp: set_update_rows image_iff)
    with False tail show ?thesis by (simp add: update_rows_simps)
  qed
qed (simp add: update_rows_def)

text \<open>Update the row with a given key, or append one: both unique columns stay unique.\<close>

lemma upsert_two_keys:
  assumes "distinct (map k rows)" "distinct (map c rows)"
    and new: "\<And>r. r \<in> set rows \<Longrightarrow> k r \<noteq> t \<Longrightarrow> c r \<noteq> v"
    and f: "\<And>r. k (f r) = k r" "\<And>r. c (f r) = v"
    and x: "k x = t" "c x = v"
    and rows': "rows' = (if t \<in> k ` set rows then update_rows (\<lambda>r. k r = t) f rows else rows @ [x])"
  shows "distinct (map k rows') \<and> distinct (map c rows') \<and> k ` set rows' = insert t (k ` set rows)"
proof (cases "t \<in> k ` set rows")
  case True
  then show ?thesis
    using assms(1) distinct_other_update [where k = k and c = c and t = t and v = v and f = f, OF assms(1,2) new f(2)]
    by (simp add: rows' map_update_rows [where k = k and f = f] image_update_rows [where k = k and f = f] f(1) insert_absorb)
next
  case False
  then have "c r \<noteq> v" if "r \<in> set rows" for r using new [OF that] that by blast
  then have "v \<notin> c ` set rows" by blast
  with False show ?thesis
    using assms(1,2) x by (simp add: rows')
qed

section \<open>Interfaces\<close>

subsection \<open>Tables with a unique key\<close>

text \<open>
  A table with a \<^verbatim>\<open>PRIMARY KEY\<close> or \<^verbatim>\<open>UNIQUE\<close> column and a row update that leaves that column
  alone.  The provider shows that its update keeps the key; the client gets the laws of
  reading back a row after an update, an insert and a delete.
\<close>

locale keyed_table =
  fixes key :: "'r \<Rightarrow> 'k"
    and upd :: "'a \<Rightarrow> 'r \<Rightarrow> 'r"
  assumes upd_key: "key (upd a r) = key r"
begin

lemma update_distinct:
  "distinct (map key rows) \<Longrightarrow> distinct (map key (update_rows p (upd a) rows))"
  by (simp add: map_update_rows upd_key)

lemma find_update_same:
  assumes "distinct (map key rows)" and "find_row (\<lambda>r. key r = k) rows = Some r"
  shows "find_row (\<lambda>r. key r = k) (update_rows (\<lambda>r. key r = k) (upd a) rows) = Some (upd a r)"
proof -
  from assms(2) have r: "r \<in> set rows" "key r = k"
    by (auto dest: find_row_SomeD)
  then have "upd a r \<in> set (update_rows (\<lambda>r. key r = k) (upd a) rows)"
    by (auto simp: set_update_rows)
  moreover have "distinct (map key (update_rows (\<lambda>r. key r = k) (upd a) rows))"
    using assms(1) by (rule update_distinct)
  ultimately show ?thesis
    using unique_key_find [of key _ "upd a r"] r(2) by (simp add: upd_key)
qed

lemma find_update_other:
  "k' \<noteq> k \<Longrightarrow>
   find_row (\<lambda>r. key r = k') (update_rows (\<lambda>r. key r = k) (upd a) rows) =
   find_row (\<lambda>r. key r = k') rows"
  by (induction rows) (auto simp: find_row_def update_rows_def upd_key)

lemma find_delete_same: "find_row (\<lambda>r. key r = k) (delete_rows (\<lambda>r. key r = k) rows) = None"
  by (simp add: find_row_None_iff)

lemma find_insert:
  "find_row (\<lambda>r. key r = key x) rows = None \<Longrightarrow>
   find_row (\<lambda>r. key r = key x) (rows @ [x]) = Some x"
  by (induction rows) (auto simp: find_row_def split: if_splits)

lemma insert_distinct:
  "distinct (map key rows) \<Longrightarrow> find_row (\<lambda>r. key r = key x) rows = None \<Longrightarrow>
   distinct (map key (rows @ [x]))"
  by (auto simp: find_row_None_iff)

end

subsection \<open>State machines with an invariant\<close>

text \<open>
  A component whose operations are labelled steps and an invariant its initial states
  satisfy and every step keeps: the invariant then holds in every state a run reaches.
\<close>

locale machine =
  fixes init :: "'s \<Rightarrow> bool"
    and step :: "'s \<Rightarrow> 'l \<Rightarrow> 's \<Rightarrow> bool"
    and inv :: "'s \<Rightarrow> bool"
  assumes inv_init: "init s \<Longrightarrow> inv s"
    and inv_step: "inv s \<Longrightarrow> step s l t \<Longrightarrow> inv t"
begin

inductive run :: "'s \<Rightarrow> 'l list \<Rightarrow> 's \<Rightarrow> bool" where
  run_Nil: "run s [] s"
| run_Cons: "step s l t \<Longrightarrow> run t ls u \<Longrightarrow> run s (l # ls) u"

lemma run_inv: "run s ls t \<Longrightarrow> inv s \<Longrightarrow> inv t"
  by (induction rule: run.induct) (auto intro: inv_step)

lemma run_from_init: "run s ls t \<Longrightarrow> init s \<Longrightarrow> inv t"
  by (blast intro: run_inv inv_init)

lemma run_append: "run s ks t \<Longrightarrow> run t ls u \<Longrightarrow> run s (ks @ ls) u"
  by (induction rule: run.induct) (auto intro: run_Cons)

end

end
