(* ===== verification/Json_Structure.thy ===== *)
theory Json_Structure
  imports Gate_Prelude
begin

text \<open>
  The bounded traversal of \<^verbatim>\<open>domain/tool_structure.py\<close>: \<^verbatim>\<open>_walk_json\<close> with its node, depth and
  byte budgets, the copy and freeze operations built on it, and the published tool
  structure.  The main lemmas relate the byte count of the traversal to the compact JSON
  text \<^verbatim>\<open>json.dumps(value, ensure_ascii=False, separators=(",", ":"))\<close> would produce.
\<close>

section \<open>Python values\<close>

text \<open>
  Floats are kept as exact values; Python compares an \<^verbatim>\<open>int\<close> with a \<^verbatim>\<open>float\<close> exactly, so a
  rational is enough for the finite ones.  The text \<^verbatim>\<open>repr\<close> gives a float is a parameter
  \<open>frepr\<close> of the definitions that use it.  \<open>PTuple\<close> and \<open>PProxy\<close> are the immutable
  \<^verbatim>\<open>tuple\<close> and \<^verbatim>\<open>MappingProxyType\<close>; \<open>POther\<close> is any object JSON does not know.
\<close>

datatype pyfloat = Finite rat | NegZero | PosInf | NegInf | NaN

datatype pyval =
    PNone
  | PBool bool
  | PInt int
  | PFloat pyfloat
  | PStr pystr
  | PList "pyval list"
  | PDict "(pyval \<times> pyval) list"
  | PTuple "pyval list"
  | PProxy "(pyval \<times> pyval) list"
  | POther

type_synonym dict = "(pyval \<times> pyval) list"

definition dict_get :: "dict \<Rightarrow> pystr \<Rightarrow> pyval option" where
  "dict_get d k = map_of d (PStr k)"

definition dict_get_none :: "dict \<Rightarrow> pystr \<Rightarrow> pyval" where
  "dict_get_none d k = (case dict_get d k of None \<Rightarrow> PNone | Some v \<Rightarrow> v)"

definition is_finite :: "pyfloat \<Rightarrow> bool" where
  "is_finite f = (case f of Finite _ \<Rightarrow> True | NegZero \<Rightarrow> True | _ \<Rightarrow> False)"

fun is_dict :: "pyval \<Rightarrow> bool" where
  "is_dict (PDict _) = True"
| "is_dict _ = False"

fun is_mapping :: "pyval \<Rightarrow> bool" where
  "is_mapping (PDict _) = True"
| "is_mapping (PProxy _) = True"
| "is_mapping _ = False"

section \<open>The bounded traversal\<close>

datatype walk_error =
    Complexity_limit   \<comment> \<open>\<^verbatim>\<open>tool_structure_complexity_limit\<close>\<close>
  | Size_limit         \<comment> \<open>\<^verbatim>\<open>tool_structure_size_limit\<close>\<close>
  | Non_json           \<comment> \<open>\<^verbatim>\<open>tool_structure_non_json\<close>\<close>
  | Int_text_limit     \<comment> \<open>CPython's own \<^verbatim>\<open>ValueError\<close> of \<^verbatim>\<open>str(int)\<close> above 4300 digits\<close>
  | Non_object         \<comment> \<open>\<^verbatim>\<open>tool_structure_non_object\<close>\<close>
  | Output_non_object  \<comment> \<open>\<^verbatim>\<open>tool_output_schema_non_object\<close>\<close>
  | Key_error          \<comment> \<open>a missing field of a subscripted dict\<close>

record limits =
  max_bytes :: int
  max_nodes :: int
  max_depth :: int

definition MAX_SCHEMA_BYTES :: int where "MAX_SCHEMA_BYTES = 128 * 1024"
definition MAX_SCHEMA_NODES :: int where "MAX_SCHEMA_NODES = 10000"
definition MAX_SCHEMA_DEPTH :: int where "MAX_SCHEMA_DEPTH = 64"
definition MAX_METADATA_BYTES :: int where "MAX_METADATA_BYTES = 256 * 1024"
definition MAX_TOOL_STRUCTURE_BYTES :: int where "MAX_TOOL_STRUCTURE_BYTES = 512 * 1024"

definition schema_limits :: limits where
  "schema_limits = \<lparr>max_bytes = MAX_SCHEMA_BYTES, max_nodes = MAX_SCHEMA_NODES, max_depth = MAX_SCHEMA_DEPTH\<rparr>"

fun bit_length :: "nat \<Rightarrow> int" where
  "bit_length n = (if n = 0 then 0 else 1 + bit_length (n div 2))"

declare bit_length.simps [simp del]

definition INT_MAX_STR_DIGITS :: nat where "INT_MAX_STR_DIGITS = 4300"

text \<open>The bytes one character of a string costs, \<open>None\<close> for a lone surrogate.\<close>

definition char_cost :: "nat \<Rightarrow> int option" where
  "char_cost c =
     (if c \<in> {34, 92, 8, 9, 10, 12, 13} then Some 2
      else if c < 32 then Some 6
      else if 55296 \<le> c \<and> c \<le> 57343 then None
      else Some (if c < 128 then 1 else if c < 2048 then 2 else if c < 65536 then 3 else 4))"

fun walk_chars :: "int \<Rightarrow> pystr \<Rightarrow> int \<Rightarrow> walk_error + int" where
  "walk_chars mb [] sz = Inr sz"
| "walk_chars mb (c # cs) sz =
     (case char_cost c of
        None \<Rightarrow> Inl Non_json
      | Some k \<Rightarrow> if sz + k > mb then Inl Size_limit else walk_chars mb cs (sz + k))"

definition sep_cost :: "'a list \<Rightarrow> int" where
  "sep_cost xs = max 0 (int (length xs) - 1)"

text \<open>
  The part of \<^verbatim>\<open>visit\<close> before the children: what the item adds to \<^verbatim>\<open>size\<close>.  Which types count
  as objects and arrays depends on \<open>imm\<close> (\<^verbatim>\<open>immutable\<close>).
\<close>

definition item_size :: "(pyfloat \<Rightarrow> pystr) \<Rightarrow> int \<Rightarrow> bool \<Rightarrow> pyval \<Rightarrow> int \<Rightarrow> walk_error + int" where
  "item_size frepr mb imm v sz =
     (case v of
        PDict kvs \<Rightarrow> Inr (sz + 2 + int (length kvs) + sep_cost kvs)
      | PProxy kvs \<Rightarrow> if imm then Inr (sz + 2 + int (length kvs) + sep_cost kvs) else Inl Non_json
      | PList xs \<Rightarrow> if imm then Inl Non_json else Inr (sz + 2 + sep_cost xs)
      | PTuple xs \<Rightarrow> if imm then Inr (sz + 2 + sep_cost xs) else Inl Non_json
      | PStr s \<Rightarrow> if int (length s) > mb then Inl Size_limit else walk_chars mb s (sz + 2)
      | PNone \<Rightarrow> Inr (sz + 4)
      | PBool b \<Rightarrow> Inr (sz + (if b then 4 else 5))
      | PInt i \<Rightarrow> if bit_length (nat \<bar>i\<bar>) > mb * 4 then Inl Size_limit
                  else if length (nat_str (nat \<bar>i\<bar>)) > INT_MAX_STR_DIGITS then Inl Int_text_limit
                  else Inr (sz + int (length (int_str i)))
      | PFloat f \<Rightarrow> if is_finite f then Inr (sz + int (length (frepr f))) else Inl Non_json
      | POther \<Rightarrow> Inl Non_json)"

definition enter :: "(pyfloat \<Rightarrow> pystr) \<Rightarrow> limits \<Rightarrow> bool \<Rightarrow> pyval \<Rightarrow> int \<Rightarrow> int \<times> int \<Rightarrow> walk_error + (int \<times> int)" where
  "enter frepr L imm v depth st =
     (case st of (nodes, sz) \<Rightarrow>
        if nodes + 1 > max_nodes L \<or> depth > max_depth L then Inl Complexity_limit
        else bindR (item_size frepr (max_bytes L) imm v sz)
          (\<lambda>sz1. if sz1 > max_bytes L then Inl Size_limit else Inr (nodes + 1, sz1)))"

text \<open>
  \<^verbatim>\<open>visit\<close>: the counters \<^verbatim>\<open>nodes\<close> and \<^verbatim>\<open>size\<close> are threaded; the result is the frozen copy when
  \<open>frz\<close> holds and \<^verbatim>\<open>None\<close> otherwise.
\<close>

function visit :: "(pyfloat \<Rightarrow> pystr) \<Rightarrow> limits \<Rightarrow> bool \<Rightarrow> bool \<Rightarrow> pyval \<Rightarrow> int \<Rightarrow> int \<times> int
      \<Rightarrow> walk_error + (int \<times> int) \<times> pyval"
  and visit_items :: "(pyfloat \<Rightarrow> pystr) \<Rightarrow> limits \<Rightarrow> bool \<Rightarrow> bool \<Rightarrow> dict \<Rightarrow> int \<Rightarrow> int \<times> int
      \<Rightarrow> walk_error + (int \<times> int) \<times> dict"
  and visit_elems :: "(pyfloat \<Rightarrow> pystr) \<Rightarrow> limits \<Rightarrow> bool \<Rightarrow> bool \<Rightarrow> pyval list \<Rightarrow> int \<Rightarrow> int \<times> int
      \<Rightarrow> walk_error + (int \<times> int) \<times> pyval list" where
  "visit fr L frz imm v depth st =
     bindR (enter fr L imm v depth st) (\<lambda>st1.
       (case v of
          PDict kvs \<Rightarrow>
            bindR (visit_items fr L frz imm kvs (depth + 1) st1) (\<lambda>(st2, ch).
              Inr (st2, if frz then PProxy ch else PNone))
        | PProxy kvs \<Rightarrow>
            bindR (visit_items fr L frz imm kvs (depth + 1) st1) (\<lambda>(st2, ch).
              Inr (st2, if frz then PProxy ch else PNone))
        | PList xs \<Rightarrow>
            bindR (visit_elems fr L frz imm xs (depth + 1) st1) (\<lambda>(st2, ch).
              Inr (st2, if frz then PTuple ch else PNone))
        | PTuple xs \<Rightarrow>
            bindR (visit_elems fr L frz imm xs (depth + 1) st1) (\<lambda>(st2, ch).
              Inr (st2, if frz then PTuple ch else PNone))
        | _ \<Rightarrow> Inr (st1, if frz then v else PNone)))"
| "visit_items fr L frz imm [] depth st = Inr (st, [])"
| "visit_items fr L frz imm ((k, c) # kvs) depth st =
     (case k of
        PStr s \<Rightarrow>
          bindR (visit fr L frz imm (PStr s) depth st) (\<lambda>(st1, _).
            bindR (visit fr L frz imm c depth st1) (\<lambda>(st2, r).
              bindR (visit_items fr L frz imm kvs depth st2) (\<lambda>(st3, rs).
                Inr (st3, (k, r) # rs))))
      | _ \<Rightarrow> Inl Non_json)"
| "visit_elems fr L frz imm [] depth st = Inr (st, [])"
| "visit_elems fr L frz imm (c # cs) depth st =
     bindR (visit fr L frz imm c depth st) (\<lambda>(st1, r).
       bindR (visit_elems fr L frz imm cs depth st1) (\<lambda>(st2, rs). Inr (st2, r # rs)))"
  by pat_completeness auto
termination
  by (relation "measure (\<lambda>x. case x of
        Inl (_, _, _, _, v, _, _) \<Rightarrow> size v
      | Inr (Inl (_, _, _, _, kvs, _, _)) \<Rightarrow> size_list (size_prod size size) kvs
      | Inr (Inr (_, _, _, _, xs, _, _)) \<Rightarrow> size_list size xs)") auto

declare visit.simps [simp del]

definition walk_json :: "(pyfloat \<Rightarrow> pystr) \<Rightarrow> limits \<Rightarrow> bool \<Rightarrow> bool \<Rightarrow> pyval \<Rightarrow> walk_error + int \<times> pyval" where
  "walk_json fr L frz imm v =
     bindR (visit fr L frz imm v 0 (0, 0)) (\<lambda>((_, sz), r). Inr (sz, r))"

definition checked_json_size :: "(pyfloat \<Rightarrow> pystr) \<Rightarrow> limits \<Rightarrow> pyval \<Rightarrow> walk_error + int" where
  "checked_json_size fr L v = bindR (walk_json fr L False False v) (\<lambda>(sz, _). Inr sz)"

definition freeze_json :: "(pyfloat \<Rightarrow> pystr) \<Rightarrow> limits \<Rightarrow> pyval \<Rightarrow> walk_error + int \<times> pyval" where
  "freeze_json fr L v = walk_json fr L True False v"

lemma size_pair_mem:
  "(k, c) \<in> set kvs \<Longrightarrow> size c < Suc (size_list (size_prod size size) kvs)"
  "(k, c) \<in> set kvs \<Longrightarrow> size k < Suc (size_list (size_prod size size) kvs)"
  by (induction kvs) auto

lemma size_elem_mem: "x \<in> set xs \<Longrightarrow> size x < Suc (size_list size xs)"
  by (induction xs) auto

function copy_json :: "pyval \<Rightarrow> pyval" where
  "copy_json v =
     (case v of
        PDict kvs \<Rightarrow> PDict (map (\<lambda>(k, c). (k, copy_json c)) kvs)
      | PProxy kvs \<Rightarrow> PDict (map (\<lambda>(k, c). (k, copy_json c)) kvs)
      | PTuple xs \<Rightarrow> PList (map copy_json xs)
      | _ \<Rightarrow> v)"
  by pat_completeness auto
termination
  by (relation "measure size") (auto dest: size_pair_mem size_elem_mem)

declare copy_json.simps [simp del]

definition copy_bounded_json :: "(pyfloat \<Rightarrow> pystr) \<Rightarrow> limits \<Rightarrow> pyval \<Rightarrow> walk_error + pyval" where
  "copy_bounded_json fr L v = bindR (freeze_json fr L v) (\<lambda>(_, frozen). Inr (copy_json frozen))"

section \<open>Published tool structure\<close>

record tool_definition =
  td_id :: pystr
  td_name :: pystr
  td_description :: pystr
  td_permission :: pystr
  td_source :: pystr
  td_input_schema :: pyval
  td_metadata :: pyval

record frozen_tool =
  fz_id :: pystr
  fz_name :: pystr
  fz_description :: pystr
  fz_permission :: pystr
  fz_source :: pystr
  fz_input_schema :: pyval
  fz_metadata :: pyval
  fz_byte_count :: int

definition field_envelope :: "tool_definition \<Rightarrow> dict" where
  "field_envelope d =
     [(PStr (lit ''id''), PStr (td_id d)), (PStr (lit ''name''), PStr (td_name d)),
      (PStr (lit ''description''), PStr (td_description d)),
      (PStr (lit ''permission''), PStr (td_permission d)), (PStr (lit ''source''), PStr (td_source d)),
      (PStr (lit ''input_schema''), td_input_schema d), (PStr (lit ''metadata''), td_metadata d)]"

definition metadata_limits :: limits where
  "metadata_limits = \<lparr>max_bytes = MAX_METADATA_BYTES, max_nodes = MAX_SCHEMA_NODES * 2,
     max_depth = MAX_SCHEMA_DEPTH + 1\<rparr>"

definition structure_limits :: limits where
  "structure_limits = \<lparr>max_bytes = MAX_TOOL_STRUCTURE_BYTES, max_nodes = MAX_SCHEMA_NODES * 3,
     max_depth = MAX_SCHEMA_DEPTH + 2\<rparr>"

definition check_tool_structure :: "(pyfloat \<Rightarrow> pystr) \<Rightarrow> dict \<Rightarrow> walk_error + int" where
  "check_tool_structure fr data =
     (case (dict_get data (lit ''input_schema''), dict_get data (lit ''metadata'')) of
        (Some (PDict schema), Some (PDict metadata)) \<Rightarrow>
          bindR (checked_json_size fr schema_limits (PDict schema)) (\<lambda>_.
          bindR (case dict_get metadata (lit ''outputSchema'') of
                   None \<Rightarrow> Inr 0
                 | Some (PDict out) \<Rightarrow> checked_json_size fr schema_limits (PDict out)
                 | Some _ \<Rightarrow> Inl Output_non_object) (\<lambda>_.
          bindR (checked_json_size fr metadata_limits (PDict metadata)) (\<lambda>_.
          checked_json_size fr structure_limits (PDict data))))
      | (Some (PDict _), Some _) \<Rightarrow> Inl Non_object
      | (Some (PDict _), None) \<Rightarrow> Inl Key_error
      | (Some _, _) \<Rightarrow> Inl Non_object
      | (None, _) \<Rightarrow> Inl Key_error)"

definition copy_definition :: "frozen_tool \<Rightarrow> tool_definition" where
  "copy_definition f =
     \<lparr>td_id = fz_id f, td_name = fz_name f, td_description = fz_description f,
      td_permission = fz_permission f, td_source = fz_source f,
      td_input_schema = copy_json (fz_input_schema f), td_metadata = copy_json (fz_metadata f)\<rparr>"

fun mapping_items :: "pyval \<Rightarrow> dict" where
  "mapping_items (PDict kvs) = kvs"
| "mapping_items (PProxy kvs) = kvs"
| "mapping_items _ = []"

definition freeze_tool_definition :: "(pyfloat \<Rightarrow> pystr) \<Rightarrow> tool_definition \<Rightarrow> walk_error + frozen_tool" where
  "freeze_tool_definition fr d =
     bindR (check_tool_structure fr (field_envelope d)) (\<lambda>_.
     bindR (freeze_json fr schema_limits (td_input_schema d)) (\<lambda>(input_bytes, input_schema).
     bindR (freeze_json fr metadata_limits (td_metadata d)) (\<lambda>(metadata_bytes, metadata).
     bindR (case dict_get (mapping_items metadata) (lit ''outputSchema'') of
              None \<Rightarrow> Inr ()
            | Some out \<Rightarrow>
                if \<not> is_mapping out then Inl Output_non_object
                else bindR (walk_json fr schema_limits False True out) (\<lambda>_. Inr ())) (\<lambda>_.
     bindR (checked_json_size fr (schema_limits\<lparr>max_bytes := MAX_TOOL_STRUCTURE_BYTES\<rparr>)
              (PDict (field_envelope (d\<lparr>td_input_schema := PNone, td_metadata := PNone\<rparr>)))) (\<lambda>header_bytes.
     (let byte_count = header_bytes + input_bytes + metadata_bytes - 8 in
      if byte_count > MAX_TOOL_STRUCTURE_BYTES then Inl Size_limit
      else Inr \<lparr>fz_id = td_id d, fz_name = td_name d, fz_description = td_description d,
                fz_permission = td_permission d, fz_source = td_source d,
                fz_input_schema = input_schema, fz_metadata = metadata,
                fz_byte_count = byte_count\<rparr>))))))"

section \<open>Reference measures of a value\<close>

definition children :: "pyval \<Rightarrow> pyval list" where
  "children v =
     (case v of
        PDict kvs \<Rightarrow> concat (map (\<lambda>(k, c). [k, c]) kvs)
      | PProxy kvs \<Rightarrow> concat (map (\<lambda>(k, c). [k, c]) kvs)
      | PList xs \<Rightarrow> xs
      | PTuple xs \<Rightarrow> xs
      | _ \<Rightarrow> [])"

lemma size_children: "c \<in> set (children v) \<Longrightarrow> size c < size v"
  by (cases v) (auto simp: children_def dest: size_pair_mem size_elem_mem)

definition plain_text :: "pystr \<Rightarrow> bool" where
  "plain_text s = list_all (\<lambda>c. char_cost c \<noteq> None) s"

definition text_cost :: "pystr \<Rightarrow> int" where
  "text_cost s = sum_list (map (\<lambda>c. the (char_cost c)) s)"

lemma plain_text_simps [simp]:
  "plain_text []" "plain_text (c # cs) \<longleftrightarrow> (\<exists>k. char_cost c = Some k) \<and> plain_text cs"
  by (auto simp: plain_text_def)

lemma text_cost_simps [simp]:
  "text_cost [] = 0" "text_cost (c # cs) = the (char_cost c) + text_cost cs"
  by (simp_all add: text_cost_def)

definition own_size :: "(pyfloat \<Rightarrow> pystr) \<Rightarrow> pyval \<Rightarrow> int" where
  "own_size fr v =
     (case v of
        PDict kvs \<Rightarrow> 2 + int (length kvs) + sep_cost kvs
      | PProxy kvs \<Rightarrow> 2 + int (length kvs) + sep_cost kvs
      | PList xs \<Rightarrow> 2 + sep_cost xs
      | PTuple xs \<Rightarrow> 2 + sep_cost xs
      | PStr s \<Rightarrow> 2 + text_cost s
      | PNone \<Rightarrow> 4
      | PBool b \<Rightarrow> if b then 4 else 5
      | PInt i \<Rightarrow> int (length (int_str i))
      | PFloat f \<Rightarrow> int (length (fr f))
      | POther \<Rightarrow> 0)"

definition is_str :: "pyval \<Rightarrow> bool" where
  "is_str v = (case v of PStr _ \<Rightarrow> True | _ \<Rightarrow> False)"

definition own_ok :: "bool \<Rightarrow> pyval \<Rightarrow> bool" where
  "own_ok imm v =
     (case v of
        PDict kvs \<Rightarrow> list_all (\<lambda>(k, _). is_str k) kvs
      | PProxy kvs \<Rightarrow> imm \<and> list_all (\<lambda>(k, _). is_str k) kvs
      | PList _ \<Rightarrow> \<not> imm
      | PTuple _ \<Rightarrow> imm
      | PStr s \<Rightarrow> plain_text s
      | PInt i \<Rightarrow> length (nat_str (nat \<bar>i\<bar>)) \<le> INT_MAX_STR_DIGITS
      | PFloat f \<Rightarrow> is_finite f
      | POther \<Rightarrow> False
      | _ \<Rightarrow> True)"

function node_count :: "pyval \<Rightarrow> int" where
  "node_count v = 1 + sum_list (map node_count (children v))"
  by pat_completeness auto
termination by (relation "measure size") (auto dest: size_children)

function text_size :: "(pyfloat \<Rightarrow> pystr) \<Rightarrow> pyval \<Rightarrow> int" where
  "text_size fr v = own_size fr v + sum_list (map (text_size fr) (children v))"
  by pat_completeness auto
termination by (relation "measure (size \<circ> snd)") (auto dest: size_children)

function json_ok :: "bool \<Rightarrow> pyval \<Rightarrow> bool" where
  "json_ok imm v \<longleftrightarrow> own_ok imm v \<and> list_all (json_ok imm) (children v)"
  by pat_completeness auto
termination by (relation "measure (size \<circ> snd)") (auto dest: size_children)

function within_depth :: "int \<Rightarrow> pyval \<Rightarrow> bool" where
  "within_depth d v \<longleftrightarrow> 0 \<le> d \<and> list_all (within_depth (d - 1)) (children v)"
  by pat_completeness auto
termination by (relation "measure (size \<circ> snd)") (auto dest: size_children)

function frozen :: "pyval \<Rightarrow> pyval" where
  "frozen v =
     (case v of
        PDict kvs \<Rightarrow> PProxy (map (\<lambda>(k, c). (k, frozen c)) kvs)
      | PProxy kvs \<Rightarrow> PProxy (map (\<lambda>(k, c). (k, frozen c)) kvs)
      | PList xs \<Rightarrow> PTuple (map frozen xs)
      | PTuple xs \<Rightarrow> PTuple (map frozen xs)
      | _ \<Rightarrow> v)"
  by pat_completeness auto
termination
  by (relation "measure size") (auto dest: size_pair_mem size_elem_mem)

declare node_count.simps [simp del] text_size.simps [simp del] json_ok.simps [simp del]
  within_depth.simps [simp del] frozen.simps [simp del]

section \<open>The traversal against the measures\<close>

lemma char_cost_pos: "char_cost c = Some k \<Longrightarrow> 0 < k"
  by (auto simp: char_cost_def split: if_splits)

lemma text_cost_length: "plain_text s \<Longrightarrow> int (length s) \<le> text_cost s"
  by (induction s) (force dest: char_cost_pos)+

lemma walk_chars_iff:
  "sz \<le> mb \<Longrightarrow> walk_chars mb s sz = Inr sz' \<longleftrightarrow> plain_text s \<and> sz' = sz + text_cost s \<and> sz' \<le> mb"
proof (induction s arbitrary: sz)
  case (Cons c cs)
  show ?case
  proof (cases "char_cost c")
    case (Some k)
    show ?thesis
    proof (cases "sz + k \<le> mb")
      case True
      then show ?thesis
        using Cons.IH [OF True] Some by auto
    next
      case False
      then show ?thesis
        using Some text_cost_length [of cs] by auto
    qed
  qed simp
qed auto

lemma walk_chars_over: "sz > mb \<Longrightarrow> walk_chars mb s sz = Inr sz' \<Longrightarrow> sz' > mb"
proof (induction s arbitrary: sz)
  case (Cons c cs)
  then show ?case
    by (auto split: option.splits if_splits dest: char_cost_pos)
qed simp

lemma bit_length_pow: "n < 2 ^ k \<Longrightarrow> bit_length n \<le> int k"
proof (induction k arbitrary: n)
  case 0
  then show ?case by (simp add: bit_length.simps)
next
  case (Suc k)
  then have "n div 2 < 2 ^ k" by auto
  then show ?case
    using Suc.IH [of "n div 2"] by (simp add: bit_length.simps [of n])
qed

lemma nat_str_bound: "n < 10 ^ length (nat_str n)"
proof (induction n rule: nat_str.induct)
  case (1 n)
  show ?case
  proof (cases "n < 10")
    case False
    with 1 have "n div 10 < 10 ^ length (nat_str (n div 10))" by simp
    then have "n < 10 * 10 ^ length (nat_str (n div 10))" by linarith
    then show ?thesis using False by (simp add: nat_str.simps [of n])
  qed (simp add: nat_str.simps [of n])
qed

lemma bit_length_digits: "bit_length n \<le> 4 * int (length (nat_str n))"
proof -
  let ?d = "length (nat_str n)"
  have "n < 10 ^ ?d" by (rule nat_str_bound)
  also have "(10::nat) ^ ?d \<le> 16 ^ ?d" by (rule power_mono) simp_all
  also have "(16::nat) ^ ?d = 2 ^ (4 * ?d)" by (simp add: power_mult)
  finally show ?thesis
    using bit_length_pow [of n "4 * ?d"] by simp
qed

lemma length_int_str: "length (nat_str (nat \<bar>i\<bar>)) \<le> length (int_str i)"
  by (simp add: int_str_def)

lemma own_size_nonneg: "own_ok imm v \<Longrightarrow> 0 \<le> own_size fr v"
  by (cases v) (auto simp: own_ok_def own_size_def sep_cost_def dest!: text_cost_length)

text \<open>Every check \<^verbatim>\<open>visit\<close> makes before its children, in one equivalence.\<close>

definition entry_ok :: "bool \<Rightarrow> pyval \<Rightarrow> bool" where
  "entry_ok imm v =
     (case v of
        PDict kvs \<Rightarrow> True
      | PProxy kvs \<Rightarrow> imm
      | _ \<Rightarrow> own_ok imm v)"

lemma enter_iff:
  assumes "0 \<le> s"
  shows "enter fr L imm v d (n, s) = Inr st \<longleftrightarrow>
     entry_ok imm v \<and> d \<le> max_depth L \<and> n + 1 \<le> max_nodes L \<and> s + own_size fr v \<le> max_bytes L
     \<and> st = (n + 1, s + own_size fr v)"
proof (cases v)
  case (PInt i)
  have "bit_length (nat \<bar>i\<bar>) \<le> 4 * int (length (int_str i))"
    using bit_length_digits [of "nat \<bar>i\<bar>"] length_int_str [of i] by linarith
  then show ?thesis
    using assms by (auto simp: enter_def item_size_def entry_ok_def own_ok_def own_size_def PInt)
next
  case (PStr cs)
  show ?thesis
  proof (cases "s + 2 \<le> max_bytes L")
    case True
    then show ?thesis
      using assms text_cost_length [of cs]
      by (auto simp: enter_def item_size_def entry_ok_def own_ok_def own_size_def PStr walk_chars_iff)
  next
    case False
    then have "enter fr L imm v d (n, s) \<noteq> Inr st"
      using walk_chars_over [of "max_bytes L" "s + 2" cs]
      by (auto simp: enter_def item_size_def PStr split: if_splits)
    moreover have "\<not> (plain_text cs \<and> s + (2 + text_cost cs) \<le> max_bytes L)"
      using False text_cost_length [of cs] by auto
    ultimately show ?thesis
      by (auto simp: entry_ok_def own_ok_def own_size_def PStr)
  qed
qed (auto simp: enter_def item_size_def entry_ok_def own_ok_def own_size_def)

lemma is_str_PStr: "is_str (PStr t)"
  by (simp add: is_str_def)

lemma node_count_pos: "0 < node_count v"
proof (induction v rule: node_count.induct)
  case (1 v)
  have "0 \<le> sum_list (map node_count (children v))"
    by (rule sum_list_nonneg) (use 1 in force)
  then show ?case by (simp add: node_count.simps [of v])
qed

lemma node_counts_nonneg: "0 \<le> sum_list (map node_count vs)"
  by (rule sum_list_nonneg) (use node_count_pos in \<open>force intro: less_imp_le\<close>)

lemma text_size_nonneg: "json_ok imm v \<Longrightarrow> 0 \<le> text_size fr v"
proof (induction v rule: node_count.induct)
  case (1 v)
  then have "own_ok imm v" "\<And>c. c \<in> set (children v) \<Longrightarrow> json_ok imm c"
    by (auto simp: json_ok.simps [of imm v] list_all_iff)
  with 1 have "0 \<le> sum_list (map (text_size fr) (children v))"
    by (intro sum_list_nonneg) auto
  with own_size_nonneg [OF \<open>own_ok imm v\<close>, of fr] show ?case
    by (simp add: text_size.simps [of fr v])
qed

lemma text_sizes_nonneg:
  "list_all (json_ok imm) vs \<Longrightarrow> 0 \<le> sum_list (map (text_size fr) vs)"
  by (rule sum_list_nonneg) (auto simp: list_all_iff text_size_nonneg)

text \<open>The budget of a list of values that are visited one after the other.\<close>

definition fits :: "(pyfloat \<Rightarrow> pystr) \<Rightarrow> limits \<Rightarrow> bool \<Rightarrow> pyval list \<Rightarrow> int \<Rightarrow> int \<Rightarrow> int \<Rightarrow> bool" where
  "fits fr L imm vs d n s \<longleftrightarrow>
     list_all (json_ok imm) vs \<and> list_all (within_depth (max_depth L - d)) vs
     \<and> n + sum_list (map node_count vs) \<le> max_nodes L
     \<and> s + sum_list (map (text_size fr) vs) \<le> max_bytes L"

lemma fits_Cons:
  "fits fr L imm (v # vs) d n s \<longleftrightarrow>
     fits fr L imm [v] d n s \<and> fits fr L imm vs d (n + node_count v) (s + text_size fr v)"
  using node_counts_nonneg [of vs] text_sizes_nonneg [of imm vs fr]
  by (auto simp: fits_def add.assoc)

definition kept :: "bool \<Rightarrow> pyval \<Rightarrow> pyval" where
  "kept frz v = (if frz then frozen v else PNone)"

definition visit_meets :: "(pyfloat \<Rightarrow> pystr) \<Rightarrow> limits \<Rightarrow> bool \<Rightarrow> bool \<Rightarrow> pyval \<Rightarrow> bool" where
  "visit_meets fr L frz imm v \<longleftrightarrow>
     (\<forall>d n s. 0 \<le> s \<longrightarrow>
        (if fits fr L imm [v] d n s
         then visit fr L frz imm v d (n, s) =
                Inr ((n + node_count v, s + text_size fr v), kept frz v)
         else \<not> is_ok (visit fr L frz imm v d (n, s))))"

lemma visit_meetsD:
  assumes "visit_meets fr L frz imm v" and "0 \<le> s"
  shows "fits fr L imm [v] d n s \<Longrightarrow> visit fr L frz imm v d (n, s) =
      Inr ((n + node_count v, s + text_size fr v), kept frz v)"
    and "\<not> fits fr L imm [v] d n s \<Longrightarrow> \<exists>e. visit fr L frz imm v d (n, s) = Inl e"
  using assms unfolding visit_meets_def is_ok_def
  by (simp, metis sum.case(2) sum.exhaust_sel)

lemma fits_nonneg: "fits fr L imm [v] d n s \<Longrightarrow> 0 \<le> s \<Longrightarrow> 0 \<le> s + text_size fr v"
  using text_size_nonneg [of imm v fr] by (auto simp: fits_def)

lemma visit_elems_spec:
  assumes "\<And>x. x \<in> set xs \<Longrightarrow> visit_meets fr L frz imm x"
    and "0 \<le> s" "n \<le> max_nodes L" "s \<le> max_bytes L"
  shows "if fits fr L imm xs d n s
     then visit_elems fr L frz imm xs d (n, s) =
            Inr ((n + sum_list (map node_count xs), s + sum_list (map (text_size fr) xs)),
                 map (kept frz) xs)
     else \<not> is_ok (visit_elems fr L frz imm xs d (n, s))"
  using assms
proof (induction xs arbitrary: n s)
  case Nil
  then show ?case by (simp add: fits_def)
next
  case (Cons x xs)
  have x: "visit_meets fr L frz imm x" using Cons.prems by simp
  show ?case
  proof (cases "fits fr L imm [x] d n s")
    case True
    let ?n = "n + node_count x" and ?s = "s + text_size fr x"
    have "0 \<le> ?s" "?n \<le> max_nodes L" "?s \<le> max_bytes L"
      using True Cons.prems(2) fits_nonneg by (auto simp: fits_def)
    then show ?thesis
      using Cons.IH [of ?s ?n] Cons.prems(1) visit_meetsD(1) [OF x Cons.prems(2) True]
      by (cases "fits fr L imm xs d ?n ?s")
        (auto simp: fits_Cons [of _ _ _ x xs] True add.assoc not_is_ok_iff)
  next
    case False
    then show ?thesis
      using visit_meetsD(2) [OF x Cons.prems(2) False] by (auto simp: fits_Cons [of _ _ _ x xs])
  qed
qed

lemma visit_items_spec:
  assumes "\<And>k c. (k, c) \<in> set kvs \<Longrightarrow> visit_meets fr L frz imm k \<and> visit_meets fr L frz imm c"
    and "0 \<le> s" "n \<le> max_nodes L" "s \<le> max_bytes L"
  shows "if fits fr L imm (concat (map (\<lambda>(k, c). [k, c]) kvs)) d n s \<and> list_all (\<lambda>(k, _). is_str k) kvs
     then visit_items fr L frz imm kvs d (n, s) =
            Inr ((n + sum_list (map node_count (concat (map (\<lambda>(k, c). [k, c]) kvs))),
                  s + sum_list (map (text_size fr) (concat (map (\<lambda>(k, c). [k, c]) kvs)))),
                 map (\<lambda>(k, c). (k, kept frz c)) kvs)
     else \<not> is_ok (visit_items fr L frz imm kvs d (n, s))"
  using assms
proof (induction kvs arbitrary: n s)
  case Nil
  then show ?case by (simp add: fits_def)
next
  case (Cons p kvs)
  obtain k c where p: "p = (k, c)" by fastforce
  have k: "visit_meets fr L frz imm k" and c: "visit_meets fr L frz imm c"
    using Cons.prems p by auto
  let ?n = "n + node_count k" and ?s = "s + text_size fr k"
  let ?cs = "concat (map (\<lambda>(k, c). [k, c]) kvs)"
  let ?n' = "?n + node_count c" and ?s' = "?s + text_size fr c"
  have split: "fits fr L imm (concat (map (\<lambda>(k, c). [k, c]) (p # kvs))) d n s \<longleftrightarrow>
      fits fr L imm [k] d n s \<and> fits fr L imm [c] d ?n ?s \<and> fits fr L imm ?cs d ?n' ?s'"
    by (simp add: p fits_Cons [of _ _ _ k "c # ?cs"] fits_Cons [of _ _ _ c ?cs])
  consider (key) "\<not> is_str k" | (k) "is_str k" "\<not> fits fr L imm [k] d n s"
    | (c) "is_str k" "fits fr L imm [k] d n s" "\<not> fits fr L imm [c] d ?n ?s"
    | (rest) "is_str k" "fits fr L imm [k] d n s" "fits fr L imm [c] d ?n ?s"
    by blast
  then show ?case
  proof cases
    case key
    then show ?thesis by (cases k) (auto simp: p is_str_def)
  next
    case k': k
    then obtain t where "k = PStr t" by (cases k) (auto simp: is_str_def)
    then show ?thesis
      using visit_meetsD(2) [OF k Cons.prems(2) k'(2)] k'(2) unfolding split by (auto simp: p)
  next
    case c': c
    then obtain t where t: "k = PStr t" by (cases k) (auto simp: is_str_def)
    have "0 \<le> ?s" using c'(2) Cons.prems(2) by (rule fits_nonneg)
    then show ?thesis
      using visit_meetsD(1) [OF k Cons.prems(2) c'(2)] visit_meetsD(2) [OF c _ c'(3)] c'(3)
      unfolding split by (auto simp: p t)
  next
    case rest
    then obtain t where t: "k = PStr t" by (cases k) (auto simp: is_str_def)
    have s: "0 \<le> ?s" using rest(2) Cons.prems(2) by (rule fits_nonneg)
    then have s': "0 \<le> ?s'" using rest(3) by (blast intro: fits_nonneg)
    have n': "?n' \<le> max_nodes L" "?s' \<le> max_bytes L"
      using rest(3) by (auto simp: fits_def)
    have "\<And>k c. (k, c) \<in> set kvs \<Longrightarrow> visit_meets fr L frz imm k \<and> visit_meets fr L frz imm c"
      using Cons.prems(1) by auto
    from Cons.IH [OF this s' n'] show ?thesis
      using rest visit_meetsD(1) [OF k Cons.prems(2) rest(2)] visit_meetsD(1) [OF c s rest(3)]
      unfolding split
      by (cases "fits fr L imm ?cs d ?n' ?s' \<and> list_all (\<lambda>(k, _). is_str k) kvs")
        (auto simp: p t not_is_ok_iff add.assoc is_str_PStr)
  qed
qed

lemma fits_single:
  "fits fr L imm [v] d n s \<longleftrightarrow>
     own_ok imm v \<and> d \<le> max_depth L \<and> fits fr L imm (children v) (d + 1) (n + 1) (s + own_size fr v)"
  by (auto simp: fits_def json_ok.simps [of imm v] within_depth.simps [of _ v] node_count.simps [of v]
      text_size.simps [of fr v] algebra_simps)

lemma fits_start: "fits fr L imm vs d n s \<Longrightarrow> n \<le> max_nodes L \<and> s \<le> max_bytes L"
  using node_counts_nonneg [of vs] text_sizes_nonneg [of imm vs fr] by (auto simp: fits_def)

lemma own_entry_ok: "own_ok imm v \<Longrightarrow> entry_ok imm v"
  by (cases v) (auto simp: own_ok_def entry_ok_def)

lemma enter_blocked:
  assumes "0 \<le> s" "\<not> (entry_ok imm v \<and> d \<le> max_depth L \<and> n + 1 \<le> max_nodes L \<and> s + own_size fr v \<le> max_bytes L)"
  shows "\<exists>e. enter fr L imm v d (n, s) = Inl e" "\<not> fits fr L imm [v] d n s"
proof -
  have "\<And>st. enter fr L imm v d (n, s) \<noteq> Inr st"
    using assms by (auto simp: enter_iff)
  then show "\<exists>e. enter fr L imm v d (n, s) = Inl e"
    by (metis sum.exhaust)
  show "\<not> fits fr L imm [v] d n s"
    using assms(2) fits_start [of fr L imm "children v"] own_entry_ok by (auto simp: fits_single)
qed

definition visit_body :: "(pyfloat \<Rightarrow> pystr) \<Rightarrow> limits \<Rightarrow> bool \<Rightarrow> bool \<Rightarrow> pyval \<Rightarrow> int \<Rightarrow> int \<times> int
    \<Rightarrow> walk_error + (int \<times> int) \<times> pyval" where
  "visit_body fr L frz imm v d st =
     (case v of
        PDict kvs \<Rightarrow> bindR (visit_items fr L frz imm kvs (d + 1) st) (\<lambda>(st2, ch).
          Inr (st2, if frz then PProxy ch else PNone))
      | PProxy kvs \<Rightarrow> bindR (visit_items fr L frz imm kvs (d + 1) st) (\<lambda>(st2, ch).
          Inr (st2, if frz then PProxy ch else PNone))
      | PList xs \<Rightarrow> bindR (visit_elems fr L frz imm xs (d + 1) st) (\<lambda>(st2, ch).
          Inr (st2, if frz then PTuple ch else PNone))
      | PTuple xs \<Rightarrow> bindR (visit_elems fr L frz imm xs (d + 1) st) (\<lambda>(st2, ch).
          Inr (st2, if frz then PTuple ch else PNone))
      | _ \<Rightarrow> Inr (st, if frz then v else PNone))"

lemma visit_unfold: "visit fr L frz imm v d st = bindR (enter fr L imm v d st) (visit_body fr L frz imm v d)"
  unfolding visit_body_def [abs_def] by (rule visit.simps)

lemma kept_containers:
  "kept frz (PDict kvs) = (if frz then PProxy (map (\<lambda>(k, c). (k, kept frz c)) kvs) else PNone)"
  "kept frz (PProxy kvs) = (if frz then PProxy (map (\<lambda>(k, c). (k, kept frz c)) kvs) else PNone)"
  "kept frz (PList xs) = (if frz then PTuple (map (kept frz) xs) else PNone)"
  "kept frz (PTuple xs) = (if frz then PTuple (map (kept frz) xs) else PNone)"
  by (auto simp: kept_def frozen.simps [of "PDict _"] frozen.simps [of "PProxy _"]
      frozen.simps [of "PList _"] frozen.simps [of "PTuple _"])

lemma visit_body_spec:
  assumes ch: "\<And>c. c \<in> set (children v) \<Longrightarrow> visit_meets fr L frz imm c"
    and "0 \<le> s" "n \<le> max_nodes L" "s \<le> max_bytes L" "entry_ok imm v"
  shows "if fits fr L imm (children v) (d + 1) n s \<and> own_ok imm v
     then visit_body fr L frz imm v d (n, s) =
            Inr ((n + sum_list (map node_count (children v)),
                  s + sum_list (map (text_size fr) (children v))), kept frz v)
     else \<not> is_ok (visit_body fr L frz imm v d (n, s))"
proof (cases v)
  case (PDict kvs)
  then have "\<And>k c. (k, c) \<in> set kvs \<Longrightarrow> visit_meets fr L frz imm k \<and> visit_meets fr L frz imm c"
    using ch by (force simp: children_def)
  from visit_items_spec [of kvs, OF this assms(2-4), where d = "d + 1"] show ?thesis
    using \<open>entry_ok imm v\<close> unfolding PDict
    by (auto simp: visit_body_def children_def own_ok_def entry_ok_def kept_containers not_is_ok_iff split: if_splits)
next
  case (PProxy kvs)
  then have "\<And>k c. (k, c) \<in> set kvs \<Longrightarrow> visit_meets fr L frz imm k \<and> visit_meets fr L frz imm c"
    using ch by (force simp: children_def)
  from visit_items_spec [of kvs, OF this assms(2-4), where d = "d + 1"] show ?thesis
    using \<open>entry_ok imm v\<close> unfolding PProxy
    by (auto simp: visit_body_def children_def own_ok_def entry_ok_def kept_containers not_is_ok_iff split: if_splits)
next
  case (PList xs)
  then have "\<And>x. x \<in> set xs \<Longrightarrow> visit_meets fr L frz imm x"
    using ch by (force simp: children_def)
  from visit_elems_spec [of xs, OF this assms(2-4), where d = "d + 1"] show ?thesis
    using \<open>entry_ok imm v\<close> unfolding PList
    by (auto simp: visit_body_def children_def own_ok_def entry_ok_def kept_containers not_is_ok_iff split: if_splits)
next
  case (PTuple xs)
  then have "\<And>x. x \<in> set xs \<Longrightarrow> visit_meets fr L frz imm x"
    using ch by (force simp: children_def)
  from visit_elems_spec [of xs, OF this assms(2-4), where d = "d + 1"] show ?thesis
    using \<open>entry_ok imm v\<close> unfolding PTuple
    by (auto simp: visit_body_def children_def own_ok_def entry_ok_def kept_containers not_is_ok_iff split: if_splits)
qed (use assms in \<open>auto simp: visit_body_def children_def fits_def own_ok_def entry_ok_def kept_def frozen.simps\<close>)

lemma visit_meets: "visit_meets fr L frz imm v"
proof (induction v rule: measure_induct_rule [of size])
  case (less v)
  then have ch: "\<And>c. c \<in> set (children v) \<Longrightarrow> visit_meets fr L frz imm c"
    by (simp add: size_children)
  show ?case
    unfolding visit_meets_def
  proof (intro allI impI)
    fix d n s :: int assume s: "0 \<le> s"
    let ?ok = "entry_ok imm v \<and> d \<le> max_depth L \<and> n + 1 \<le> max_nodes L \<and> s + own_size fr v \<le> max_bytes L"
    show "if fits fr L imm [v] d n s
      then visit fr L frz imm v d (n, s) = Inr ((n + node_count v, s + text_size fr v), kept frz v)
      else \<not> is_ok (visit fr L frz imm v d (n, s))"
    proof (cases ?ok)
      case True
      then have e: "enter fr L imm v d (n, s) = Inr (n + 1, s + own_size fr v)"
        using s by (simp add: enter_iff)
      show ?thesis
      proof (cases "0 \<le> s + own_size fr v")
        case nonneg: True
        show ?thesis
          using visit_body_spec [OF ch nonneg, where n = "n + 1" and d = d] True
          by (auto simp: visit_unfold e fits_single node_count.simps [of v] text_size.simps [of fr v] add.assoc)
      next
        case False
        then have "\<not> own_ok imm v" using own_size_nonneg [of imm v fr] s by auto
        with True have "\<exists>kvs. v = PDict kvs \<or> v = PProxy kvs"
          by (cases v) (auto simp: entry_ok_def own_ok_def)
        with False s show ?thesis by (auto simp: own_size_def sep_cost_def)
      qed
    next
      case False
      then show ?thesis
        using enter_blocked [OF s False] by (auto simp: visit_unfold)
    qed
  qed
qed

lemma checked_json_size_iff:
  "checked_json_size fr L v = Inr n \<longleftrightarrow>
     json_ok False v \<and> within_depth (max_depth L) v \<and> node_count v \<le> max_nodes L
     \<and> text_size fr v \<le> max_bytes L \<and> n = text_size fr v"
proof (cases "fits fr L False [v] 0 0 0")
  case True
  then show ?thesis
    using visit_meetsD(1) [OF visit_meets, of 0 fr L False v 0 0 False]
    by (auto simp: checked_json_size_def walk_json_def fits_def)
next
  case False
  then show ?thesis
    using visit_meetsD(2) [OF visit_meets, of 0 fr L False v 0 0 False]
    by (auto simp: checked_json_size_def walk_json_def fits_def)
qed

lemma freeze_json_iff:
  "freeze_json fr L v = Inr (n, r) \<longleftrightarrow> checked_json_size fr L v = Inr n \<and> r = frozen v"
proof (cases "fits fr L False [v] 0 0 0")
  case True
  then show ?thesis
    using visit_meetsD(1) [OF visit_meets, of 0 fr L False v 0 0 True]
    by (auto simp: freeze_json_def checked_json_size_iff walk_json_def fits_def kept_def)
next
  case False
  then show ?thesis
    using visit_meetsD(2) [OF visit_meets, of 0 fr L False v 0 0 True]
    by (auto simp: freeze_json_def checked_json_size_iff walk_json_def fits_def)
qed

lemma frozen_leaf:
  "frozen PNone = PNone" "frozen (PBool b) = PBool b" "frozen (PInt i) = PInt i"
  "frozen (PFloat f) = PFloat f" "frozen (PStr s) = PStr s" "frozen POther = POther"
  by (subst frozen.simps, simp)+

lemma copy_leaf:
  "copy_json PNone = PNone" "copy_json (PBool b) = PBool b" "copy_json (PInt i) = PInt i"
  "copy_json (PFloat f) = PFloat f" "copy_json (PStr s) = PStr s" "copy_json POther = POther"
  by (subst copy_json.simps, simp)+

lemma json_ok_child: "json_ok imm v \<Longrightarrow> c \<in> set (children v) \<Longrightarrow> json_ok imm c"
  by (simp add: json_ok.simps [of imm v] list_all_iff)

lemma copy_frozen: "json_ok False v \<Longrightarrow> copy_json (frozen v) = v"
proof (induction v rule: measure_induct_rule [of size])
  case (less v)
  then have ch: "copy_json (frozen c) = c" if "c \<in> set (children v)" for c
    using that by (meson json_ok_child size_children)
  show ?case
  proof (cases v)
    case (PDict kvs)
    then have "\<And>k c. (k, c) \<in> set kvs \<Longrightarrow> copy_json (frozen c) = c"
      using ch by (force simp: children_def)
    then show ?thesis
      by (auto simp: PDict frozen.simps [of "PDict kvs"] copy_json.simps [of "PProxy _"] intro: map_idI)
  next
    case (PList xs)
    then have "\<And>c. c \<in> set xs \<Longrightarrow> copy_json (frozen c) = c"
      using ch by (force simp: children_def)
    then show ?thesis
      by (auto simp: PList frozen.simps [of "PList xs"] copy_json.simps [of "PTuple _"] intro: map_idI)
  next
    case (PProxy kvs)
    with less.prems show ?thesis by (simp add: json_ok.simps [of False "PProxy kvs"] own_ok_def)
  next
    case (PTuple xs)
    with less.prems show ?thesis by (simp add: json_ok.simps [of False "PTuple xs"] own_ok_def)
  qed (simp_all add: frozen_leaf copy_leaf)
qed

section \<open>The compact JSON text\<close>

text \<open>
  Reference serializer: \<^verbatim>\<open>json.dumps(value, ensure_ascii=False, separators=(",", ":"))\<close> as a
  list of code points, and the length of its UTF-8 encoding.
\<close>

definition hex_digit :: "nat \<Rightarrow> nat" where
  "hex_digit n = (if n < 10 then 48 + n else 87 + n)"

definition escape_char :: "nat \<Rightarrow> pystr" where
  "escape_char c =
     (if c = 34 then [92, 34] else if c = 92 then [92, 92] else if c = 8 then [92, 98]
      else if c = 9 then [92, 116] else if c = 10 then [92, 110] else if c = 12 then [92, 102]
      else if c = 13 then [92, 114]
      else if c < 32 then [92, 117, 48, 48, hex_digit (c div 16), hex_digit (c mod 16)]
      else [c])"

definition json_string :: "pystr \<Rightarrow> pystr" where
  "json_string s = [34] @ concat (map escape_char s) @ [34]"

function json_text :: "(pyfloat \<Rightarrow> pystr) \<Rightarrow> pyval \<Rightarrow> pystr" where
  "json_text fr v =
     (case v of
        PNone \<Rightarrow> lit ''null''
      | PBool b \<Rightarrow> if b then lit ''true'' else lit ''false''
      | PInt i \<Rightarrow> int_str i
      | PFloat f \<Rightarrow> fr f
      | PStr s \<Rightarrow> json_string s
      | PList xs \<Rightarrow> [91] @ join_with [44] (map (json_text fr) xs) @ [93]
      | PTuple xs \<Rightarrow> [91] @ join_with [44] (map (json_text fr) xs) @ [93]
      | PDict kvs \<Rightarrow> [123] @ join_with [44] (map (\<lambda>(k, c). json_text fr k @ [58] @ json_text fr c) kvs) @ [125]
      | PProxy kvs \<Rightarrow> [123] @ join_with [44] (map (\<lambda>(k, c). json_text fr k @ [58] @ json_text fr c) kvs) @ [125]
      | POther \<Rightarrow> [])"
  by pat_completeness auto
termination
  by (relation "measure (size \<circ> snd)") (auto dest: size_pair_mem size_elem_mem)

declare json_text.simps [simp del]

definition utf8_width :: "nat \<Rightarrow> int" where
  "utf8_width c = (if c < 128 then 1 else if c < 2048 then 2 else if c < 65536 then 3 else 4)"

definition utf8_len :: "pystr \<Rightarrow> int" where
  "utf8_len s = sum_list (map utf8_width s)"

lemma utf8_len_simps [simp]:
  "utf8_len [] = 0" "utf8_len (c # s) = utf8_width c + utf8_len s" "utf8_len (s @ t) = utf8_len s + utf8_len t"
  by (simp_all add: utf8_len_def)

lemma utf8_len_ascii: "\<forall>c \<in> set s. c < 128 \<Longrightarrow> utf8_len s = int (length s)"
  by (induction s) (auto simp: utf8_width_def)

lemma utf8_len_join:
  "utf8_len (join_with [44] ps) = sum_list (map utf8_len ps) + sep_cost ps"
proof (induction ps)
  case (Cons p ps)
  then show ?case
    by (cases ps) (auto simp: sep_cost_def utf8_width_def)
qed (simp add: sep_cost_def)

lemma escape_char_cost: "char_cost c = Some k \<Longrightarrow> utf8_len (escape_char c) = k"
  by (auto simp: char_cost_def escape_char_def utf8_width_def hex_digit_def split: if_splits)

lemma json_string_cost: "plain_text s \<Longrightarrow> utf8_len (json_string s) = 2 + text_cost s"
proof -
  have "plain_text s \<Longrightarrow> utf8_len (concat (map escape_char s)) = text_cost s"
    by (induction s) (auto simp: escape_char_cost)
  then show "plain_text s \<Longrightarrow> ?thesis"
    by (simp add: json_string_def utf8_width_def)
qed

definition ascii_repr :: "(pyfloat \<Rightarrow> pystr) \<Rightarrow> bool" where
  "ascii_repr fr \<longleftrightarrow> (\<forall>f. \<forall>c \<in> set (fr f). c < 128)"

lemma utf8_len_pairs:
  "sum_list (map (\<lambda>(k, c). utf8_len (f k @ [58] @ f c)) kvs) =
     int (length kvs) + sum_list (map (\<lambda>v. utf8_len (f v)) (concat (map (\<lambda>(k, c). [k, c]) kvs)))"
  by (induction kvs) (auto simp: utf8_width_def)

lemma utf8_len_lit [simp]:
  "utf8_len (lit ''null'') = 4" "utf8_len (lit ''true'') = 4" "utf8_len (lit ''false'') = 5"
  by (simp_all add: lit_def utf8_width_def)

lemma json_text_children:
  assumes "own_ok imm v" "ascii_repr fr"
  shows "utf8_len (json_text fr v) = own_size fr v + sum_list (map (\<lambda>c. utf8_len (json_text fr c)) (children v))"
proof (cases v)
  case (PInt i)
  have "utf8_len (int_str i) = int (length (int_str i))"
    by (rule utf8_len_ascii) (auto dest: int_str_ascii)
  then show ?thesis by (simp add: PInt json_text.simps [of fr "PInt i"] own_size_def children_def)
next
  case (PFloat f)
  have "utf8_len (fr f) = int (length (fr f))"
    by (rule utf8_len_ascii) (use assms in \<open>auto simp: ascii_repr_def\<close>)
  then show ?thesis by (simp add: PFloat json_text.simps [of fr "PFloat f"] own_size_def children_def)
next
  case (PStr s)
  then show ?thesis
    using assms by (simp add: json_text.simps [of fr "PStr s"] own_size_def children_def own_ok_def json_string_cost)
next
  case (PList xs)
  show ?thesis
    by (simp add: PList json_text.simps [of fr "PList xs"] own_size_def children_def utf8_len_join
        utf8_width_def sep_cost_def comp_def)
next
  case (PTuple xs)
  show ?thesis
    by (simp add: PTuple json_text.simps [of fr "PTuple xs"] own_size_def children_def utf8_len_join
        utf8_width_def sep_cost_def comp_def)
next
  case (PDict kvs)
  show ?thesis
    using utf8_len_pairs [of "json_text fr" kvs]
    by (simp add: PDict json_text.simps [of fr "PDict kvs"] own_size_def children_def utf8_len_join
        utf8_width_def sep_cost_def comp_def case_prod_unfold)
next
  case (PProxy kvs)
  show ?thesis
    using utf8_len_pairs [of "json_text fr" kvs]
    by (simp add: PProxy json_text.simps [of fr "PProxy kvs"] own_size_def children_def utf8_len_join
        utf8_width_def sep_cost_def comp_def case_prod_unfold)
qed (use assms in \<open>auto simp: json_text.simps own_size_def children_def own_ok_def\<close>)

lemma text_size_json_text:
  assumes "ascii_repr fr"
  shows "json_ok imm v \<Longrightarrow> text_size fr v = utf8_len (json_text fr v)"
proof (induction v rule: measure_induct_rule [of size])
  case (less v)
  then have "\<And>c. c \<in> set (children v) \<Longrightarrow> text_size fr c = utf8_len (json_text fr c)"
    by (meson json_ok_child size_children)
  then have "sum_list (map (text_size fr) (children v)) = sum_list (map (\<lambda>c. utf8_len (json_text fr c)) (children v))"
    by (intro arg_cong [where f = sum_list] map_cong) simp_all
  moreover have "own_ok imm v" using less.prems by (simp add: json_ok.simps [of imm v])
  ultimately show ?case
    using json_text_children [OF _ assms, of imm v] by (simp add: text_size.simps [of fr v])
qed

lemma children_frozen:
  "own_ok False v \<Longrightarrow> children (frozen v) = map frozen (children v)"
proof (cases v)
  case (PDict kvs)
  have "own_ok False (PDict kvs) \<Longrightarrow> concat (map (\<lambda>(k, c). [k, frozen c]) kvs) = map frozen (concat (map (\<lambda>(k, c). [k, c]) kvs))"
    by (induction kvs) (auto simp: own_ok_def is_str_def frozen_leaf split: pyval.splits)
  then show "own_ok False v \<Longrightarrow> ?thesis"
    by (simp add: PDict frozen.simps [of "PDict kvs"] children_def case_prod_unfold comp_def)
qed (auto simp: children_def frozen_leaf frozen.simps [of "PList _"] own_ok_def)

lemma own_frozen:
  "own_ok False v \<Longrightarrow> own_ok True (frozen v) \<and> own_size fr (frozen v) = own_size fr v"
  by (cases v) (auto simp: own_ok_def own_size_def frozen_leaf sep_cost_def list_all_iff
      frozen.simps [of "PDict _"] frozen.simps [of "PList _"])

lemma frozen_measures:
  "json_ok False v \<Longrightarrow> json_ok True (frozen v) \<and> node_count (frozen v) = node_count v
     \<and> text_size fr (frozen v) = text_size fr v \<and> (within_depth d v \<longrightarrow> within_depth d (frozen v))"
proof (induction v arbitrary: d rule: measure_induct_rule [of size])
  case (less v)
  then have own: "own_ok False v" by (simp add: json_ok.simps [of False v])
  have IH: "json_ok True (frozen c) \<and> node_count (frozen c) = node_count c
     \<and> text_size fr (frozen c) = text_size fr c \<and> (within_depth d c \<longrightarrow> within_depth d (frozen c))"
    if "c \<in> set (children v)" for c d
    using less that by (meson json_ok_child size_children)
  then have "sum_list (map (node_count \<circ> frozen) (children v)) = sum_list (map node_count (children v))"
    "sum_list (map (text_size fr \<circ> frozen) (children v)) = sum_list (map (text_size fr) (children v))"
    by (intro arg_cong [where f = sum_list] map_cong; simp)+
  then show ?case
    using own_frozen [OF own, of fr] IH
    by (auto simp: json_ok.simps [of True "frozen v"] node_count.simps [of "frozen v"] node_count.simps [of v]
        text_size.simps [of fr "frozen v"] text_size.simps [of fr v] within_depth.simps [of d "frozen v"]
        within_depth.simps [of d v] children_frozen [OF own] list_all_iff)
qed

text \<open>Evaluation of the measures on concrete values.\<close>

named_theorems json_eval \<open>equations that evaluate the measures on constructor terms\<close>

lemma measures_leaf [json_eval]:
  "node_count PNone = 1" "node_count (PBool b) = 1" "node_count (PInt i) = 1" "node_count (PStr s) = 1"
  "text_size fr PNone = 4" "text_size fr (PBool b) = (if b then 4 else 5)"
  "text_size fr (PInt i) = int (length (int_str i))" "text_size fr (PStr s) = 2 + text_cost s"
  "json_ok imm PNone" "json_ok imm (PBool b)" "json_ok imm (PStr s) = plain_text s"
  "json_ok imm (PInt i) = (length (nat_str (nat \<bar>i\<bar>)) \<le> INT_MAX_STR_DIGITS)"
  "within_depth d PNone = (0 \<le> d)" "within_depth d (PBool b) = (0 \<le> d)"
  "within_depth d (PInt i) = (0 \<le> d)" "within_depth d (PStr s) = (0 \<le> d)"
  by (simp_all add: node_count.simps text_size.simps json_ok.simps within_depth.simps children_def
      own_size_def own_ok_def)

lemma measures_dict [json_eval]:
  "node_count (PDict kvs) = 1 + sum_list (map (\<lambda>(k, c). node_count k + node_count c) kvs)"
  "text_size fr (PDict kvs) = 2 + int (length kvs) + sep_cost kvs
     + sum_list (map (\<lambda>(k, c). text_size fr k + text_size fr c) kvs)"
  "json_ok imm (PDict kvs) \<longleftrightarrow> list_all (\<lambda>(k, c). is_str k \<and> json_ok imm k \<and> json_ok imm c) kvs"
  "within_depth d (PDict kvs) \<longleftrightarrow> 0 \<le> d \<and> list_all (\<lambda>(k, c). within_depth (d - 1) k \<and> within_depth (d - 1) c) kvs"
proof -
  have s: "sum_list (map (f :: pyval \<Rightarrow> int) (concat (map (\<lambda>(k, c). [k, c]) kvs))) = sum_list (map (\<lambda>(k, c). f k + f c) kvs)" for f
    by (induction kvs) auto
  show "node_count (PDict kvs) = 1 + sum_list (map (\<lambda>(k, c). node_count k + node_count c) kvs)"
    by (simp only: node_count.simps [of "PDict kvs"] children_def pyval.case s)
  show "text_size fr (PDict kvs) = 2 + int (length kvs) + sep_cost kvs
     + sum_list (map (\<lambda>(k, c). text_size fr k + text_size fr c) kvs)"
    by (simp only: text_size.simps [of fr "PDict kvs"] children_def own_size_def pyval.case s)
qed (auto simp: json_ok.simps [of imm "PDict kvs"] within_depth.simps [of d "PDict kvs"] children_def own_ok_def
    list_all_iff)

lemma measures_list [json_eval]:
  "node_count (PList xs) = 1 + sum_list (map node_count xs)"
  "text_size fr (PList xs) = 2 + sep_cost xs + sum_list (map (text_size fr) xs)"
  "json_ok False (PList xs) \<longleftrightarrow> list_all (json_ok False) xs"
  "within_depth d (PList xs) \<longleftrightarrow> 0 \<le> d \<and> list_all (within_depth (d - 1)) xs"
  by (simp_all add: node_count.simps [of "PList xs"] text_size.simps [of fr "PList xs"] json_ok.simps [of False "PList xs"]
      within_depth.simps [of d "PList xs"] children_def own_size_def own_ok_def)

lemmas [json_eval] = sep_cost_def is_str_def text_cost_def plain_text_def char_cost_def INT_MAX_STR_DIGITS_def
  int_str_def nat_str.simps

section \<open>Freezing a tool definition\<close>

text \<open>
  The frozen structure is published exactly when the envelope passes its checks: the
  second traversal over the immutable copy and the separately counted headers can fail
  only where the first pass already did.
\<close>

lemma walk_immutable:
  assumes "checked_json_size fr L v = Inr n"
  shows "walk_json fr L False True (frozen v) = Inr (n, PNone)"
proof -
  have "fits fr L True [frozen v] 0 0 0" "text_size fr (frozen v) = n"
    using assms frozen_measures [of v fr "max_depth L"] by (auto simp: checked_json_size_iff fits_def)
  then show ?thesis
    using visit_meetsD(1) [OF visit_meets, of 0 fr L True "frozen v" 0 0 False]
    by (simp add: walk_json_def kept_def)
qed

lemma dict_get_frozen:
  "dict_get (mapping_items (frozen (PDict kvs))) k = map_option frozen (dict_get kvs k)"
  by (induction kvs) (auto simp: dict_get_def frozen.simps [of "PDict _"])

lemma envelope_get [simp]:
  "dict_get (field_envelope d) (lit ''input_schema'') = Some (td_input_schema d)"
  "dict_get (field_envelope d) (lit ''metadata'') = Some (td_metadata d)"
  by (simp_all add: field_envelope_def dict_get_def)

lemma text_size_envelope:
  "text_size fr (PDict (field_envelope d)) =
     text_size fr (PDict (field_envelope (d\<lparr>td_input_schema := PNone, td_metadata := PNone\<rparr>)))
     + text_size fr (td_input_schema d) + text_size fr (td_metadata d) - 8"
proof -
  have "text_size fr PNone = 4"
    by (simp add: text_size.simps [of fr PNone] own_size_def children_def)
  then show ?thesis
    by (simp add: text_size.simps [of fr "PDict _"] field_envelope_def children_def own_size_def sep_cost_def)
qed

lemma leaf_node_count [simp]: "node_count (PStr s) = 1" "node_count PNone = 1"
  by (simp_all add: node_count.simps [of "PStr s"] node_count.simps [of PNone] children_def)

lemma leaf_within_depth [simp]:
  "within_depth d (PStr s) \<longleftrightarrow> 0 \<le> d" "within_depth d PNone \<longleftrightarrow> 0 \<le> d"
  by (simp_all add: within_depth.simps [of d "PStr s"] within_depth.simps [of d PNone] children_def)

lemma leaf_json_ok [simp]: "json_ok imm PNone" "json_ok imm (PStr s) \<longleftrightarrow> plain_text s"
  by (simp_all add: json_ok.simps [of imm PNone] json_ok.simps [of imm "PStr s"] own_ok_def children_def)

lemma object_text_size: "json_ok False (PDict kvs) \<Longrightarrow> 2 \<le> text_size fr (PDict kvs)"
  using text_sizes_nonneg [of False "children (PDict kvs)" fr]
  by (auto simp: json_ok.simps [of False "PDict kvs"] text_size.simps [of fr "PDict kvs"] own_size_def sep_cost_def)

lemma header_checks:
  assumes "checked_json_size fr structure_limits (PDict (field_envelope d)) = Inr n"
    and "n + 4 \<le> MAX_TOOL_STRUCTURE_BYTES" "is_dict (td_input_schema d)" "is_dict (td_metadata d)"
  shows "checked_json_size fr (schema_limits\<lparr>max_bytes := MAX_TOOL_STRUCTURE_BYTES\<rparr>)
     (PDict (field_envelope (d\<lparr>td_input_schema := PNone, td_metadata := PNone\<rparr>))) =
     Inr (text_size fr (PDict (field_envelope (d\<lparr>td_input_schema := PNone, td_metadata := PNone\<rparr>))))"
proof -
  let ?h = "PDict (field_envelope (d\<lparr>td_input_schema := PNone, td_metadata := PNone\<rparr>))"
  have ok: "json_ok False (PDict (field_envelope d))" and n: "text_size fr (PDict (field_envelope d)) = n"
    using assms by (auto simp: checked_json_size_iff)
  have "json_ok False (td_input_schema d)" "json_ok False (td_metadata d)" and hok: "json_ok False ?h"
    using ok by (auto simp: json_ok.simps [of False "PDict _"] field_envelope_def children_def own_ok_def is_str_def)
  then have "2 \<le> text_size fr (td_input_schema d)" "2 \<le> text_size fr (td_metadata d)"
    using assms(3,4) by (auto elim!: is_dict.elims simp: object_text_size)
  then have "text_size fr ?h \<le> MAX_TOOL_STRUCTURE_BYTES"
    using n assms(2) text_size_envelope [of fr d] by linarith
  moreover have "node_count ?h \<le> MAX_SCHEMA_NODES" "within_depth MAX_SCHEMA_DEPTH ?h"
    by (simp_all add: node_count.simps [of "PDict _"] within_depth.simps [of _ "PDict _"] field_envelope_def
        children_def MAX_SCHEMA_NODES_def MAX_SCHEMA_DEPTH_def)
  ultimately show ?thesis
    using hok by (simp add: checked_json_size_iff schema_limits_def)
qed

lemma check_tool_structure_iff:
  "check_tool_structure fr (field_envelope d) = Inr n \<longleftrightarrow>
     is_dict (td_input_schema d) \<and> is_dict (td_metadata d)
     \<and> is_ok (checked_json_size fr schema_limits (td_input_schema d))
     \<and> (\<forall>out. dict_get (mapping_items (td_metadata d)) (lit ''outputSchema'') = Some out \<longrightarrow>
          is_dict out \<and> is_ok (checked_json_size fr schema_limits out))
     \<and> is_ok (checked_json_size fr metadata_limits (td_metadata d))
     \<and> checked_json_size fr structure_limits (PDict (field_envelope d)) = Inr n"
proof (cases "is_dict (td_input_schema d) \<and> is_dict (td_metadata d)")
  case True
  then obtain s m where "td_input_schema d = PDict s" "td_metadata d = PDict m"
    by (auto elim!: is_dict.elims)
  then show ?thesis
    by (cases "dict_get m (lit ''outputSchema'')"; cases "the (dict_get m (lit ''outputSchema''))")
      (simp_all add: check_tool_structure_def is_ok_iff conj_ac)
next
  case False
  then show ?thesis
    by (auto simp: check_tool_structure_def split: pyval.splits)
qed

lemma freeze_tool_definition_sound:
  assumes "freeze_tool_definition fr d = Inr f"
  shows "copy_definition f = d \<and> check_tool_structure fr (field_envelope d) = Inr (fz_byte_count f)
     \<and> fz_byte_count f \<le> MAX_TOOL_STRUCTURE_BYTES"
proof -
  obtain n where n: "check_tool_structure fr (field_envelope d) = Inr n"
    using assms by (auto simp: freeze_tool_definition_def)
  from assms obtain ib mb hb where f:
    "checked_json_size fr schema_limits (td_input_schema d) = Inr ib"
    "checked_json_size fr metadata_limits (td_metadata d) = Inr mb"
    "hb = text_size fr (PDict (field_envelope (d\<lparr>td_input_schema := PNone, td_metadata := PNone\<rparr>)))"
    "f = \<lparr>fz_id = td_id d, fz_name = td_name d, fz_description = td_description d,
          fz_permission = td_permission d, fz_source = td_source d,
          fz_input_schema = frozen (td_input_schema d), fz_metadata = frozen (td_metadata d),
          fz_byte_count = hb + ib + mb - 8\<rparr>" "hb + ib + mb - 8 \<le> MAX_TOOL_STRUCTURE_BYTES"
    by (auto simp: freeze_tool_definition_def freeze_json_iff checked_json_size_iff Let_def split: if_splits)
  have "n = text_size fr (PDict (field_envelope d))"
    using n by (auto simp: check_tool_structure_iff checked_json_size_iff)
  with f n show ?thesis
    using text_size_envelope [of fr d] copy_frozen
    by (auto simp: copy_definition_def checked_json_size_iff)
qed

lemma freeze_tool_definition_complete:
  assumes "check_tool_structure fr (field_envelope d) = Inr n" and "n + 4 \<le> MAX_TOOL_STRUCTURE_BYTES"
  shows "\<exists>f. freeze_tool_definition fr d = Inr f"
proof -
  from assms(1) have chk: "is_dict (td_input_schema d)" "is_dict (td_metadata d)"
    "\<And>out. dict_get (mapping_items (td_metadata d)) (lit ''outputSchema'') = Some out \<Longrightarrow>
       is_dict out \<and> is_ok (checked_json_size fr schema_limits out)"
    and env: "checked_json_size fr structure_limits (PDict (field_envelope d)) = Inr n"
    by (auto simp: check_tool_structure_iff)
  from assms(1) obtain ib mb where b: "checked_json_size fr schema_limits (td_input_schema d) = Inr ib"
    "checked_json_size fr metadata_limits (td_metadata d) = Inr mb"
    by (auto simp: check_tool_structure_iff is_ok_def split: sum.splits)
  obtain m where m: "td_metadata d = PDict m" using chk(2) by (auto elim!: is_dict.elims)
  have out: "is_mapping (frozen v) \<and> walk_json fr schema_limits False True (frozen v) = Inr (text_size fr v, PNone)"
    if "dict_get m (lit ''outputSchema'') = Some v" for v
  proof -
    have "is_dict v" "is_ok (checked_json_size fr schema_limits v)"
      using chk(3) [of v] that m by auto
    then show ?thesis
      by (auto elim!: is_dict.elims simp: is_ok_def frozen.simps [of "PDict _"] checked_json_size_iff
          split: sum.splits intro: walk_immutable)
  qed
  have "n = text_size fr (PDict (field_envelope d))"
    "ib = text_size fr (td_input_schema d)" "mb = text_size fr (td_metadata d)"
    using env b by (auto simp: checked_json_size_iff)
  then have "text_size fr (PDict (field_envelope (d\<lparr>td_input_schema := PNone, td_metadata := PNone\<rparr>))) + ib + mb - 8
      \<le> MAX_TOOL_STRUCTURE_BYTES"
    using text_size_envelope [of fr d] assms(2) by linarith
  moreover have "freeze_json fr schema_limits (td_input_schema d) = Inr (ib, frozen (td_input_schema d))"
    "freeze_json fr metadata_limits (td_metadata d) = Inr (mb, frozen (PDict m))"
    using b m by (simp_all add: freeze_json_iff)
  ultimately show ?thesis
    using out assms(1) header_checks [OF env assms(2) chk(1,2)]
    by (auto simp: freeze_tool_definition_def dict_get_frozen Let_def split: option.splits)
qed

section \<open>Properties\<close>

text \<open>
  C13: the streaming size check is exact.  It accepts a value precisely when the value is plain
  JSON (finite numbers, string keys, no lone surrogates, no foreign containers) within the
  depth and node budgets whose compact UTF-8 serialisation fits the byte budget, and the size
  it returns is the number of bytes of that serialisation, although the text is never built.
  The copy made on the way is the value itself.  The hypothesis on \<open>fr\<close> is that
  \<^verbatim>\<open>float.__repr__\<close> yields ASCII.
\<close>

theorem checked_json_size_exact:
  assumes "ascii_repr fr"
  shows "(checked_json_size fr L v = Inr n \<longleftrightarrow>
      json_ok False v \<and> within_depth (max_depth L) v \<and> node_count v \<le> max_nodes L
      \<and> utf8_len (json_text fr v) \<le> max_bytes L \<and> n = utf8_len (json_text fr v))
    \<and> (copy_bounded_json fr L v = Inr w \<longleftrightarrow> is_ok (checked_json_size fr L v) \<and> w = v)"
proof -
  have t: "json_ok False v \<Longrightarrow> text_size fr v = utf8_len (json_text fr v)"
    by (rule text_size_json_text [OF assms])
  have "copy_bounded_json fr L v = Inr w \<longleftrightarrow> (\<exists>n. checked_json_size fr L v = Inr n) \<and> w = copy_json (frozen v)"
    by (auto simp: copy_bounded_json_def freeze_json_iff)
  moreover have "copy_json (frozen v) = v" if "checked_json_size fr L v = Inr n" for n
    using that copy_frozen by (auto simp: checked_json_size_iff)
  ultimately show ?thesis
    using t by (auto simp: checked_json_size_iff is_ok_iff)
qed

definition demo_object :: pyval where
  "demo_object = PDict [(PStr (lit ''a''), PList [PInt 12, PBool True, PNone]), (PStr (lit ''b''), PStr [233, 34])]"

theorem checked_json_size_exact_witness:
  "ascii_repr (\<lambda>_. []) \<and> checked_json_size (\<lambda>_. []) schema_limits demo_object = Inr 31
   \<and> copy_bounded_json (\<lambda>_. []) schema_limits demo_object = Inr demo_object"
proof -
  have a: "ascii_repr (\<lambda>_. [])" by (simp add: ascii_repr_def)
  have "checked_json_size (\<lambda>_. []) schema_limits demo_object = Inr 31"
    unfolding checked_json_size_iff
    by (simp add: demo_object_def json_eval lit_def nat_str.simps schema_limits_def MAX_SCHEMA_BYTES_def
        MAX_SCHEMA_NODES_def MAX_SCHEMA_DEPTH_def)
  with a show ?thesis
    using checked_json_size_exact [OF a, of schema_limits demo_object 31 demo_object] by simp
qed

text \<open>
  C19: freezing a tool definition.  When it succeeds, the immutable structure copies back to the
  definition it was given, its recorded byte count is exactly the size of the definition's
  JSON serialisation and stays within the 512 KiB budget, and the structure check passed.
  Conversely a definition that passes the structure check with four bytes to spare is always
  frozen: none of the later passes (the frozen output schema, the separately counted header)
  can refuse it.
\<close>

theorem freeze_tool_definition_exact:
  assumes "ascii_repr fr"
  shows "(case freeze_tool_definition fr d of
       Inr f \<Rightarrow> copy_definition f = d \<and> fz_byte_count f = utf8_len (json_text fr (PDict (field_envelope d)))
         \<and> fz_byte_count f \<le> 524288 \<and> is_ok (check_tool_structure fr (field_envelope d))
     | Inl _ \<Rightarrow> (\<forall>n. check_tool_structure fr (field_envelope d) = Inr n \<longrightarrow> 524288 < n + 4))"
proof (cases "freeze_tool_definition fr d")
  case (Inr f)
  from freeze_tool_definition_sound [OF this] have c: "copy_definition f = d"
    "check_tool_structure fr (field_envelope d) = Inr (fz_byte_count f)"
    "fz_byte_count f \<le> MAX_TOOL_STRUCTURE_BYTES" by auto
  then have "json_ok False (PDict (field_envelope d))" "fz_byte_count f = text_size fr (PDict (field_envelope d))"
    by (auto simp: check_tool_structure_iff checked_json_size_iff)
  with c Inr show ?thesis
    using text_size_json_text [OF assms, of False "PDict (field_envelope d)"]
    by (simp add: MAX_TOOL_STRUCTURE_BYTES_def)
next
  case (Inl e)
  then have "\<not> n + 4 \<le> MAX_TOOL_STRUCTURE_BYTES" if "check_tool_structure fr (field_envelope d) = Inr n" for n
    using freeze_tool_definition_complete [OF that] by auto
  with Inl show ?thesis by (auto simp: MAX_TOOL_STRUCTURE_BYTES_def)
qed

definition demo_tool :: tool_definition where
  "demo_tool = \<lparr>td_id = lit ''t'', td_name = lit ''n'', td_description = lit ''d'', td_permission = lit ''p'',
     td_source = lit ''s'', td_input_schema = PDict [(PStr (lit ''type''), PStr (lit ''object''))], td_metadata = PDict []\<rparr>"

lemma demo_tool_checked:
  "check_tool_structure fr (field_envelope demo_tool) = Inr 116"
proof -
  have "checked_json_size fr structure_limits (PDict (field_envelope demo_tool)) = Inr 116"
    unfolding checked_json_size_iff
    by (simp add: demo_tool_def field_envelope_def json_eval lit_def structure_limits_def
        MAX_TOOL_STRUCTURE_BYTES_def MAX_SCHEMA_NODES_def MAX_SCHEMA_DEPTH_def)
  moreover have "is_ok (checked_json_size fr schema_limits (td_input_schema demo_tool))"
    "is_ok (checked_json_size fr metadata_limits (td_metadata demo_tool))"
    unfolding is_ok_iff checked_json_size_iff
    by (simp_all add: demo_tool_def json_eval lit_def schema_limits_def metadata_limits_def
        MAX_SCHEMA_BYTES_def MAX_METADATA_BYTES_def MAX_SCHEMA_NODES_def MAX_SCHEMA_DEPTH_def)
  ultimately show ?thesis
    unfolding check_tool_structure_iff by (simp add: demo_tool_def dict_get_def)
qed

theorem freeze_tool_definition_exact_witness:
  "\<exists>f. freeze_tool_definition (\<lambda>_. []) demo_tool = Inr f \<and> copy_definition f = demo_tool
     \<and> fz_byte_count f = utf8_len (json_text (\<lambda>_. []) (PDict (field_envelope demo_tool)))"
proof -
  have a: "ascii_repr (\<lambda>_. [])" by (simp add: ascii_repr_def)
  show ?thesis
    using freeze_tool_definition_exact [OF a, of demo_tool] demo_tool_checked [of "\<lambda>_. []"]
    by (cases "freeze_tool_definition (\<lambda>_. []) demo_tool") auto
qed

end
