(* ===== verification/Request_Outcome.thy ===== *)
theory Request_Outcome
  imports Json_Structure
begin

text \<open>
  \<^verbatim>\<open>domain/mcp_request_outcome.py\<close> and \<^verbatim>\<open>application/request_recovery.py\<close>: the facts of a timed-out
  request, the bounded store of late replies, and the identity-bound receipts that let a
  caller read them.  Clock readings are arguments of the operations (rationals, in seconds).
\<close>

section \<open>Timeout facts\<close>

record timeout_details =
  transport :: pystr
  td_method :: pystr
  td_phase :: pystr
  td_request_handle :: "pystr option"
  td_generation :: "pystr option"
  timeout_seconds :: rat
  dispatch_state :: pystr
  business_request :: bool
  execution_state :: pystr
  execution_terminated :: bool
  recovery_supported :: bool
  recovery_scope :: pystr
  recovery_expires_after_seconds :: "rat option"

definition request_timeout :: "pystr \<Rightarrow> rat \<Rightarrow> pystr option \<Rightarrow> pystr option \<Rightarrow> pystr \<Rightarrow> pystr \<Rightarrow> bool
    \<Rightarrow> rat option \<Rightarrow> pystr option \<Rightarrow> bool option \<Rightarrow> timeout_details" where
  "request_timeout method secs handle generation channel dispatch supported expires phase business =
     (let b = (case business of None \<Rightarrow> method = lit ''tools/call'' | Some x \<Rightarrow> x);
          unknown = (b \<and> dispatch \<noteq> lit ''not_dispatched'') in
      \<lparr>transport = channel, td_method = method,
       td_phase = (case phase of Some p \<Rightarrow> if p = [] then lit ''downstream_response'' else p
                   | None \<Rightarrow> lit ''downstream_response''),
       td_request_handle = handle, td_generation = generation, timeout_seconds = secs,
       dispatch_state = dispatch, business_request = b,
       execution_state = (if unknown then lit ''unknown'' else lit ''not_started''),
       execution_terminated = False, recovery_supported = supported,
       recovery_scope = (if supported then lit ''current_process'' else lit ''none''),
       recovery_expires_after_seconds = (if supported then expires else None)\<rparr>)"

text \<open>
  \<^verbatim>\<open>find_request_timeout\<close> follows \<^verbatim>\<open>__cause__\<close> links.  Exception objects live in a heap: each
  identity has a flag (is it an \<^verbatim>\<open>McpRequestTimeout\<close>?) and its cause.  Chains may be cyclic;
  the \<^verbatim>\<open>seen\<close> set ends the loop.
\<close>

type_synonym exc_heap = "(nat \<times> bool \<times> nat option) list"

function find_request_timeout :: "exc_heap \<Rightarrow> nat set \<Rightarrow> nat option \<Rightarrow> nat option" where
  "find_request_timeout h seen cur =
     (case cur of
        None \<Rightarrow> None
      | Some e \<Rightarrow>
          if e \<in> seen then None
          else (case map_of h e of
                  None \<Rightarrow> None
                | Some (is_timeout, cause) \<Rightarrow>
                    if is_timeout then Some e else find_request_timeout h (insert e seen) cause))"
  by pat_completeness auto
termination
proof (relation "measure (\<lambda>(h, seen, cur). card (fst ` set h - seen))", goal_cases)
  case (2 h seen cur e a it cause)
  then have "e \<in> fst ` set h - seen"
    by (auto dest: map_of_SomeD intro: rev_image_eqI)
  then have "card (fst ` set h - insert e seen) < card (fst ` set h - seen)"
    by (intro psubset_card_mono) auto
  then show ?case by simp
qed simp

declare find_request_timeout.simps [simp del]

section \<open>The bounded store of late replies\<close>

datatype outcome_state = Waiting | Completed | Interrupted | Unavailable

record outcome =
  request_handle :: pystr
  connection_generation :: pystr
  request_id :: int
  out_method :: pystr
  expires_at :: rat
  state :: outcome_state
  response_json :: "pystr option"
  response_bytes :: int
  unavailable_reason :: "pystr option"

record outcome_store =
  max_entries :: nat
  max_response_bytes :: int
  ttl_seconds :: rat
  entries :: "outcome list"             \<comment> \<open>insertion order; the key is \<open>request_handle\<close>\<close>
  pending :: "(pystr \<times> int) \<rightharpoonup> pystr"
  used_bytes :: int                     \<comment> \<open>\<^verbatim>\<open>_response_bytes\<close>\<close>

definition new_store :: "nat \<Rightarrow> int \<Rightarrow> rat \<Rightarrow> unit + outcome_store" where
  "new_store n b ttl =
     (if n < 1 \<or> b < 1 \<or> ttl \<le> 0 then Inl ()
      else Inr \<lparr>max_entries = n, max_response_bytes = b, ttl_seconds = ttl, entries = [],
                pending = Map.empty, used_bytes = 0\<rparr>)"

definition find_entry :: "outcome_store \<Rightarrow> pystr \<Rightarrow> outcome option" where
  "find_entry s h = find_row (\<lambda>o'. request_handle o' = h) (entries s)"

definition remove_entry :: "pystr \<Rightarrow> outcome_store \<Rightarrow> outcome_store" where
  "remove_entry h s =
     (case find_entry s h of
        None \<Rightarrow> s
      | Some x \<Rightarrow>
          s\<lparr>entries := delete_rows (\<lambda>o'. request_handle o' = h) (entries s),
            pending := (pending s)((connection_generation x, request_id x) := None),
            used_bytes := used_bytes s - response_bytes x\<rparr>)"

definition purge :: "rat \<Rightarrow> outcome_store \<Rightarrow> outcome_store" where
  "purge now s =
     fold (\<lambda>x t. if expires_at x \<le> now then remove_entry (request_handle x) t else t) (entries s) s"

function evict :: "outcome_store \<Rightarrow> outcome_store" where
  "evict s =
     (if length (entries s) \<ge> max_entries s \<and> entries s \<noteq> []
      then evict (remove_entry (request_handle (hd (entries s))) s) else s)"
  by pat_completeness auto
termination
proof (relation "measure (\<lambda>s. length (entries s))", goal_cases)
  case (2 s)
  then obtain x xs where "entries s = x # xs" by (cases "entries s") auto
  then show ?case
    by (simp add: remove_entry_def find_entry_def find_row_def delete_rows_def le_imp_less_Suc)
qed simp

declare evict.simps [simp del]

text \<open>\<^verbatim>\<open>retain\<close> reads the clock for the purge and again for the expiry.\<close>

definition retain :: "rat \<Rightarrow> rat \<Rightarrow> pystr \<Rightarrow> pystr \<Rightarrow> int \<Rightarrow> pystr \<Rightarrow> outcome_store \<Rightarrow> outcome_store" where
  "retain now now' handle generation rid method s =
     (let s1 = purge now s;
          s2 = (if find_entry s1 handle \<noteq> None then remove_entry handle s1 else s1);
          s3 = evict s2
      in s3\<lparr>entries := entries s3 @ [\<lparr>request_handle = handle, connection_generation = generation,
              request_id = rid, out_method = method, expires_at = now' + ttl_seconds s3, state = Waiting,
              response_json = None, response_bytes = 0, unavailable_reason = None\<rparr>],
            pending := (pending s3)((generation, rid) \<mapsto> handle)\<rparr>)"

definition set_entry :: "pystr \<Rightarrow> (outcome \<Rightarrow> outcome) \<Rightarrow> outcome_store \<Rightarrow> outcome_store" where
  "set_entry h f s = s\<lparr>entries := update_rows (\<lambda>o'. request_handle o' = h) f (entries s)\<rparr>"

definition mark_unavailable :: "outcome \<Rightarrow> pystr \<Rightarrow> outcome_store \<Rightarrow> outcome_store" where
  "mark_unavailable x why s =
     (set_entry (request_handle x) (\<lambda>o'. o'\<lparr>response_json := None, response_bytes := 0,
         state := Unavailable, unavailable_reason := Some why\<rparr>) s)
       \<lparr>used_bytes := used_bytes s - response_bytes x\<rparr>"

definition outcome_limits :: "int \<Rightarrow> limits" where
  "outcome_limits b = \<lparr>max_bytes = b, max_nodes = 100000, max_depth = 64\<rparr>"

definition failure_reason :: "walk_error \<Rightarrow> pystr" where
  "failure_reason e =
     (case e of
        Size_limit \<Rightarrow> lit ''response_byte_limit''
      | Complexity_limit \<Rightarrow> lit ''response_complexity_limit''
      | _ \<Rightarrow> lit ''response_invalid_json'')"

text \<open>What \<^verbatim>\<open>complete\<close> stores for a reply: the text to keep, or the reason it is unavailable.\<close>

definition encode_reply :: "(pyfloat \<Rightarrow> pystr) \<Rightarrow> int \<Rightarrow> pyval \<Rightarrow> pystr + pystr" where
  "encode_reply fr room response =
     (if \<not> is_dict response then Inl (failure_reason Non_json)
      else (case checked_json_size fr (outcome_limits room) response of
              Inl e \<Rightarrow> Inl (failure_reason e)
            | Inr _ \<Rightarrow>
                (let encoded = json_text fr response in
                 if utf8_len encoded \<le> room then Inr encoded else Inl (lit ''response_byte_limit''))))"

definition complete :: "(pyfloat \<Rightarrow> pystr) \<Rightarrow> rat \<Rightarrow> pystr \<Rightarrow> int \<Rightarrow> pyval \<Rightarrow> outcome_store \<Rightarrow> outcome_store \<times> bool" where
  "complete fr now generation rid response s0 =
     (let s = purge now s0; key = (generation, rid) in
      case pending s key of
        None \<Rightarrow> (s, False)
      | Some h \<Rightarrow>
          (case find_entry s h of
             None \<Rightarrow> (s, False)
           | Some x \<Rightarrow>
               (let s1 = s\<lparr>pending := (pending s)(key := None)\<rparr> in
                case encode_reply fr (max_response_bytes s - used_bytes s) response of
                  Inl why \<Rightarrow> (mark_unavailable x why s1, True)
                | Inr encoded \<Rightarrow>
                    ((set_entry h (\<lambda>o'. o'\<lparr>response_json := Some encoded, response_bytes := utf8_len encoded,
                        state := Completed\<rparr>) s1)\<lparr>used_bytes := used_bytes s + utf8_len encoded\<rparr>, True))))"

definition interrupt_generation :: "rat \<Rightarrow> pystr \<Rightarrow> outcome_store \<Rightarrow> outcome_store" where
  "interrupt_generation now generation s0 =
     (let s = purge now s0;
          hit = (\<lambda>x. connection_generation x = generation \<and> state x = Waiting)
      in s\<lparr>entries := update_rows hit (\<lambda>x. x\<lparr>state := Interrupted,
              unavailable_reason := Some (lit ''connection_closed'')\<rparr>) (entries s),
           pending := (\<lambda>k. if \<exists>x \<in> set (entries s). hit x \<and> k = (generation, request_id x) then None
                           else pending s k)\<rparr>)"

record snapshot =
  sn_handle :: pystr
  sn_generation :: pystr
  sn_request_id :: int
  sn_method :: pystr
  sn_state :: outcome_state
  sn_response :: "pyval option"
  sn_reason :: "pystr option"
  sn_expires_after :: rat

definition get_outcome :: "(pystr \<Rightarrow> pyval option) \<Rightarrow> rat \<Rightarrow> rat \<Rightarrow> pystr \<Rightarrow> outcome_store
    \<Rightarrow> outcome_store \<times> snapshot option" where
  "get_outcome loads now now' h s0 =
     (let s = purge now s0 in
      case find_entry s h of
        None \<Rightarrow> (s, None)
      | Some x \<Rightarrow>
          (let resp = (case response_json x of None \<Rightarrow> None | Some t \<Rightarrow> loads t);
               s1 = (if response_json x \<noteq> None \<and> resp = None
                     then mark_unavailable x (lit ''response_snapshot_unavailable'') s else s);
               x1 = (case find_entry s1 h of Some y \<Rightarrow> y | None \<Rightarrow> x)
           in (s1, Some \<lparr>sn_handle = request_handle x1, sn_generation = connection_generation x1,
                 sn_request_id = request_id x1, sn_method = out_method x1, sn_state = state x1,
                 sn_response = resp, sn_reason = unavailable_reason x1,
                 sn_expires_after = max 0 (expires_at x1 - now')\<rparr>)))"

section \<open>Invariant\<close>

definition outcome_ok :: "outcome \<Rightarrow> bool" where
  "outcome_ok x \<longleftrightarrow>
     response_bytes x = (case response_json x of None \<Rightarrow> 0 | Some t \<Rightarrow> utf8_len t)
     \<and> (state x = Completed \<longleftrightarrow> response_json x \<noteq> None)
     \<and> (unavailable_reason x \<noteq> None \<longleftrightarrow> state x \<in> {Interrupted, Unavailable})"

definition pending_ok :: "outcome_store \<Rightarrow> bool" where
  "pending_ok s \<longleftrightarrow>
     (\<forall>k h. pending s k = Some h \<longrightarrow>
        (\<exists>x \<in> set (entries s). request_handle x = h \<and> (connection_generation x, request_id x) = k \<and> state x = Waiting))"

definition store_inv :: "outcome_store \<Rightarrow> bool" where
  "store_inv s \<longleftrightarrow>
     1 \<le> max_entries s \<and> distinct (map request_handle (entries s)) \<and> length (entries s) \<le> max_entries s
     \<and> used_bytes s = sum_list (map response_bytes (entries s)) \<and> used_bytes s \<le> max_response_bytes s
     \<and> (\<forall>x \<in> set (entries s). outcome_ok x) \<and> pending_ok s"

lemma utf8_len_nonneg: "0 \<le> utf8_len s"
  by (induction s) (auto simp: utf8_width_def)

lemma outcome_ok_bytes: "outcome_ok x \<Longrightarrow> 0 \<le> response_bytes x"
  by (auto simp: outcome_ok_def utf8_len_nonneg split: option.splits)

lemma entry_split:
  assumes "distinct (map request_handle xs)" "find_row (\<lambda>o'. request_handle o' = h) xs = Some x"
  shows "\<exists>pre post. xs = pre @ x # post \<and> request_handle x = h
     \<and> delete_rows (\<lambda>o'. request_handle o' = h) xs = pre @ post
     \<and> (\<forall>f. update_rows (\<lambda>o'. request_handle o' = h) f xs = pre @ f x # post)
     \<and> (\<forall>y \<in> set pre \<union> set post. request_handle y \<noteq> h)"
proof -
  from assms(2) have x: "x \<in> set xs" "request_handle x = h" by (auto dest: find_row_SomeD)
  then obtain pre post where xs: "xs = pre @ x # post" by (meson split_list)
  have ne: "request_handle y \<noteq> h" if "y \<in> set pre \<union> set post" for y
    using that assms(1) x(2) unfolding xs by (auto simp: image_iff)
  then have "delete_rows (\<lambda>o'. request_handle o' = h) xs = pre @ post"
    using x(2) by (auto simp: xs delete_rows_def filter_id_conv)
  moreover have "update_rows (\<lambda>o'. request_handle o' = h) f xs = pre @ f x # post" for f
  proof -
    have "map (\<lambda>o'. if request_handle o' = h then f o' else o') ys = ys" if "set ys \<subseteq> set pre \<union> set post" for ys
      using that ne by (intro map_idI) auto
    then show ?thesis using x(2) by (simp add: xs update_rows_def)
  qed
  ultimately show ?thesis
    using xs x(2) ne by blast
qed

lemma remove_entry_pending:
  assumes "pending_ok s" "distinct (map request_handle (entries s))"
  shows "pending_ok (remove_entry h s)"
proof (cases "find_entry s h")
  case (Some x)
  then have x: "x \<in> set (entries s)" "request_handle x = h"
    by (auto simp: find_entry_def dest: find_row_SomeD)
  show ?thesis
    unfolding pending_ok_def
  proof (intro allI impI)
    fix k h' assume p: "pending (remove_entry h s) k = Some h'"
    then have k: "k \<noteq> (connection_generation x, request_id x)" "pending s k = Some h'"
      by (auto simp: remove_entry_def Some split: if_splits)
    then obtain y where y: "y \<in> set (entries s)" "request_handle y = h'"
      "(connection_generation y, request_id y) = k" "state y = Waiting"
      using assms(1) unfolding pending_ok_def by blast
    then have "request_handle y \<noteq> h"
      using unique_key_eq [OF assms(2) y(1) x(1)] x(2) k(1) by auto
    with y show "\<exists>y \<in> set (entries (remove_entry h s)). request_handle y = h'
        \<and> (connection_generation y, request_id y) = k \<and> state y = Waiting"
      by (auto simp: remove_entry_def Some)
  qed
qed (simp add: remove_entry_def assms)

lemma remove_entry_inv:
  assumes inv: "store_inv s"
  shows "store_inv (remove_entry h s)"
proof (cases "find_entry s h")
  case (Some x)
  have d: "distinct (map request_handle (entries s))" using inv by (simp add: store_inv_def)
  from entry_split [OF d] Some obtain pre post where
    e: "entries s = pre @ x # post" "delete_rows (\<lambda>o'. request_handle o' = h) (entries s) = pre @ post"
    by (metis find_entry_def)
  have r: "entries (remove_entry h s) = pre @ post" "used_bytes (remove_entry h s) = used_bytes s - response_bytes x"
    "max_entries (remove_entry h s) = max_entries s" "max_response_bytes (remove_entry h s) = max_response_bytes s"
    by (simp_all add: remove_entry_def Some e(2))
  have "0 \<le> response_bytes x" using inv by (auto simp: store_inv_def e(1) intro: outcome_ok_bytes)
  moreover have "pending_ok (remove_entry h s)"
    using inv by (simp add: store_inv_def remove_entry_pending)
  ultimately show ?thesis
    using inv unfolding store_inv_def r e(1) by auto
qed (simp add: remove_entry_def inv)

lemma remove_entry_params [simp]:
  "max_entries (remove_entry h s) = max_entries s" "max_response_bytes (remove_entry h s) = max_response_bytes s"
  "ttl_seconds (remove_entry h s) = ttl_seconds s"
  by (auto simp: remove_entry_def split: option.splits)

lemma purge_inv: "store_inv s \<Longrightarrow> store_inv (purge now s)"
proof -
  have "store_inv t \<Longrightarrow> store_inv (fold (\<lambda>x t. if expires_at x \<le> now then remove_entry (request_handle x) t else t) xs t)" for xs t
    by (induction xs arbitrary: t) (auto simp: remove_entry_inv)
  then show "store_inv s \<Longrightarrow> ?thesis" by (simp add: purge_def)
qed

lemma evict_inv: "store_inv s \<Longrightarrow> store_inv (evict s) \<and> length (entries (evict s)) < max_entries (evict s)"
proof (induction s rule: evict.induct)
  case (1 s)
  show ?case
  proof (cases "length (entries s) \<ge> max_entries s \<and> entries s \<noteq> []")
    case True
    then show ?thesis
      using 1 by (simp add: evict.simps [of s] remove_entry_inv)
  next
    case False
    moreover have "1 \<le> max_entries s" using 1 by (simp add: store_inv_def)
    ultimately show ?thesis
      using 1 by (cases "entries s") (auto simp: evict.simps [of s])
  qed
qed

lemma purge_params [simp]:
  "max_entries (purge now s) = max_entries s" "max_response_bytes (purge now s) = max_response_bytes s"
  "ttl_seconds (purge now s) = ttl_seconds s"
proof -
  have "max_entries (fold (\<lambda>x t. if expires_at x \<le> now then remove_entry (request_handle x) t else t) xs t) = max_entries t
     \<and> max_response_bytes (fold (\<lambda>x t. if expires_at x \<le> now then remove_entry (request_handle x) t else t) xs t) = max_response_bytes t
     \<and> ttl_seconds (fold (\<lambda>x t. if expires_at x \<le> now then remove_entry (request_handle x) t else t) xs t) = ttl_seconds t" for xs t
    by (induction xs arbitrary: t) auto
  then show "max_entries (purge now s) = max_entries s" "max_response_bytes (purge now s) = max_response_bytes s"
    "ttl_seconds (purge now s) = ttl_seconds s"
    by (auto simp: purge_def)
qed

lemma evict_params [simp]:
  "max_entries (evict s) = max_entries s" "max_response_bytes (evict s) = max_response_bytes s"
  "ttl_seconds (evict s) = ttl_seconds s"
  by (induction s rule: evict.induct; subst evict.simps; simp)+

lemma remove_entry_handles:
  "request_handle ` set (entries (remove_entry h s)) = request_handle ` set (entries s) - {h}"
  by (auto simp: remove_entry_def find_entry_def find_row_None_iff split: option.splits)

lemma evict_handles: "request_handle ` set (entries (evict s)) \<subseteq> request_handle ` set (entries s)"
proof (induction s rule: evict.induct)
  case (1 s)
  then show ?case
    by (subst evict.simps) (auto simp: remove_entry_handles)
qed

lemma pending_ok_insert:
  assumes "pending_ok s" "state x = Waiting"
  shows "pending_ok (s\<lparr>entries := entries s @ [x],
    pending := (pending s)((connection_generation x, request_id x) \<mapsto> request_handle x)\<rparr>)"
  using assms unfolding pending_ok_def by simp

lemma retain_inv:
  assumes "store_inv s"
  shows "store_inv (retain now now' h g i m s)"
proof -
  let ?s1 = "purge now s"
  let ?s2 = "if find_entry ?s1 h \<noteq> None then remove_entry h ?s1 else ?s1"
  let ?s3 = "evict ?s2"
  have "store_inv ?s2" using assms by (simp add: purge_inv remove_entry_inv)
  note evict_inv [OF this]
  then have inv: "store_inv ?s3" and len: "length (entries ?s3) < max_entries ?s3"
    by blast+
  have "h \<notin> request_handle ` set (entries ?s2)"
    by (auto simp: remove_entry_handles find_entry_def find_row_None_iff)
  then have "h \<notin> request_handle ` set (entries ?s3)"
    using evict_handles [of ?s2] by blast
  moreover have "pending_ok ?s3" using inv by (simp add: store_inv_def)
  then have "pending_ok (retain now now' h g i m s)"
    unfolding retain_def Let_def
    using pending_ok_insert [of ?s3 "\<lparr>request_handle = h, connection_generation = g, request_id = i, out_method = m,
      expires_at = now' + ttl_seconds ?s3, state = Waiting, response_json = None, response_bytes = 0,
      unavailable_reason = None\<rparr>"] by simp
  ultimately show ?thesis
    using inv len unfolding store_inv_def retain_def Let_def by (auto simp: outcome_ok_def)
qed

text \<open>Replacing one entry: the invariant needs only facts about the new row.\<close>

lemma set_entry_inv:
  assumes inv: "store_inv s" and x: "find_entry s h = Some x"
    and f: "request_handle (f x) = h" "outcome_ok (f x)"
    and b: "b = used_bytes s - response_bytes x + response_bytes (f x)" "b \<le> max_response_bytes s"
    and q: "\<And>k h'. q k = Some h' \<Longrightarrow> pending s k = Some h' \<and> h' \<noteq> h"
  shows "store_inv ((set_entry h f (s\<lparr>pending := q\<rparr>))\<lparr>used_bytes := b\<rparr>)"
proof -
  have d: "distinct (map request_handle (entries s))" using inv by (simp add: store_inv_def)
  from entry_split [OF d] x obtain pre post where
    e: "entries s = pre @ x # post" "update_rows (\<lambda>o'. request_handle o' = h) f (entries s) = pre @ f x # post"
    "request_handle x = h"
    by (metis find_entry_def)
  let ?t = "(set_entry h f (s\<lparr>pending := q\<rparr>))\<lparr>used_bytes := b\<rparr>"
  have t: "entries ?t = pre @ f x # post" "used_bytes ?t = b" "max_entries ?t = max_entries s"
    "max_response_bytes ?t = max_response_bytes s" "pending ?t = q"
    by (simp_all add: set_entry_def e(2))
  have "pending_ok ?t"
    unfolding pending_ok_def t
  proof (intro allI impI)
    fix k h' assume "q k = Some h'"
    then have k: "pending s k = Some h'" "h' \<noteq> h" using q by auto
    moreover have "pending_ok s" using inv by (simp add: store_inv_def)
    ultimately obtain y where "y \<in> set (entries s)" "request_handle y = h'"
      "(connection_generation y, request_id y) = k" "state y = Waiting"
      unfolding pending_ok_def by blast
    then show "\<exists>y \<in> set (pre @ f x # post). request_handle y = h' \<and> (connection_generation y, request_id y) = k \<and> state y = Waiting"
      using k(2) by (auto simp: e(1,3))
  qed
  then show ?thesis
    using inv f b unfolding store_inv_def t e(1) by (auto simp: e(3))
qed

lemma encode_reply_Inr:
  assumes "encode_reply fr room v = Inr t"
  shows "t = json_text fr v \<and> utf8_len t \<le> room"
  using assms by (auto simp: encode_reply_def Let_def split: sum.splits if_splits)

lemma complete_inv: "store_inv s0 \<Longrightarrow> store_inv (fst (complete fr now g i v s0))"
proof -
  assume "store_inv s0"
  let ?s = "purge now s0"
  have inv: "store_inv ?s" using \<open>store_inv s0\<close> by (rule purge_inv)
  show ?thesis
  proof (cases "pending ?s (g, i)")
    case None
    then show ?thesis using inv by (simp add: complete_def Let_def)
  next
    case (Some h)
    have "pending_ok ?s" using inv by (simp add: store_inv_def)
    with Some obtain x where x: "x \<in> set (entries ?s)" "request_handle x = h"
      "connection_generation x = g" "request_id x = i" "state x = Waiting"
      unfolding pending_ok_def by blast
    have "distinct (map request_handle (entries ?s))" using inv by (simp add: store_inv_def)
    then have fx: "find_entry ?s h = Some x"
      using unique_key_find [of request_handle, OF _ x(1)] x(2) by (simp add: find_entry_def)
    have ok: "outcome_ok x" using inv x(1) by (simp add: store_inv_def)
    then have b0: "response_bytes x = 0" "response_json x = None" "unavailable_reason x = None"
      using x(5) by (auto simp: outcome_ok_def)
    have used: "used_bytes ?s \<le> max_response_bytes ?s" using inv by (simp add: store_inv_def)
    let ?q = "(pending ?s)((g, i) := None)"
    have q: "pending ?s k = Some h' \<and> h' \<noteq> h" if "?q k = Some h'" for k h'
    proof -
      have k: "k \<noteq> (g, i)" "pending ?s k = Some h'" using that by (auto split: if_splits)
      then obtain y where y: "y \<in> set (entries ?s)" "request_handle y = h'" "(connection_generation y, request_id y) = k"
        using \<open>pending_ok ?s\<close> unfolding pending_ok_def by blast
      have "h' \<noteq> h"
        using unique_key_eq [OF \<open>distinct (map request_handle (entries ?s))\<close> y(1) x(1)] x y k by auto
      with k show ?thesis by simp
    qed
    show ?thesis
    proof (cases "encode_reply fr (max_response_bytes ?s - used_bytes ?s) v")
      case (Inl why)
      have "store_inv ((set_entry h (\<lambda>o'. o'\<lparr>response_json := None, response_bytes := 0, state := Unavailable,
          unavailable_reason := Some why\<rparr>) (?s\<lparr>pending := ?q\<rparr>))\<lparr>used_bytes := used_bytes ?s - response_bytes x\<rparr>)"
        using x used b0 by (intro set_entry_inv [OF inv fx] q) (auto simp: outcome_ok_def)
      then show ?thesis
        using x by (simp add: complete_def Let_def Some fx Inl [simplified] mark_unavailable_def set_entry_def)
    next
      case (Inr t)
      have "store_inv ((set_entry h (\<lambda>o'. o'\<lparr>response_json := Some t, response_bytes := utf8_len t, state := Completed\<rparr>) (?s\<lparr>pending := ?q\<rparr>))
          \<lparr>used_bytes := used_bytes ?s + utf8_len t\<rparr>)"
        using x used b0 encode_reply_Inr [OF Inr]
        by (intro set_entry_inv [OF inv fx] q) (auto simp: outcome_ok_def)
      then show ?thesis
        by (simp add: complete_def Let_def Some fx Inr [simplified] set_entry_def)
    qed
  qed
qed

lemma interrupt_inv:
  assumes "store_inv s0"
  shows "store_inv (interrupt_generation now g s0)"
proof -
  let ?s = "purge now s0"
  let ?hit = "\<lambda>x. connection_generation x = g \<and> state x = Waiting"
  let ?f = "\<lambda>x. x\<lparr>state := Interrupted, unavailable_reason := Some (lit ''connection_closed'')\<rparr>"
  have inv: "store_inv ?s" using assms by (rule purge_inv)
  have "map response_bytes (update_rows ?hit ?f (entries ?s)) = map response_bytes (entries ?s)"
    "map request_handle (update_rows ?hit ?f (entries ?s)) = map request_handle (entries ?s)"
    by (simp_all add: map_update_rows)
  moreover have "outcome_ok y" if "y \<in> set (update_rows ?hit ?f (entries ?s))" for y
    using that inv by (auto simp: set_update_rows store_inv_def outcome_ok_def)
  moreover have "pending_ok (interrupt_generation now g s0)"
    unfolding pending_ok_def
  proof (intro allI impI)
    fix k h assume p: "pending (interrupt_generation now g s0) k = Some h"
    then have k: "pending ?s k = Some h" "\<And>x. x \<in> set (entries ?s) \<Longrightarrow> ?hit x \<Longrightarrow> k \<noteq> (g, request_id x)"
      by (auto simp: interrupt_generation_def Let_def split: if_splits)
    have "pending_ok ?s" using inv by (simp add: store_inv_def)
    with k(1) obtain y where y: "y \<in> set (entries ?s)" "request_handle y = h"
      "(connection_generation y, request_id y) = k" "state y = Waiting"
      unfolding pending_ok_def by blast
    then have "\<not> ?hit y" using k(2) by blast
    with y show "\<exists>x \<in> set (entries (interrupt_generation now g s0)). request_handle x = h
        \<and> (connection_generation x, request_id x) = k \<and> state x = Waiting"
      by (auto simp: interrupt_generation_def Let_def set_update_rows)
  qed
  ultimately show ?thesis
    using inv unfolding store_inv_def
    by (simp add: interrupt_generation_def Let_def)
qed

lemma get_outcome_inv:
  assumes "store_inv s0"
  shows "store_inv (fst (get_outcome loads now now' h s0))"
proof -
  let ?s = "purge now s0"
  have inv: "store_inv ?s" using assms by (rule purge_inv)
  show ?thesis
  proof (cases "find_entry ?s h")
    case (Some x)
    have x: "x \<in> set (entries ?s)" "request_handle x = h"
      using Some by (auto simp: find_entry_def dest: find_row_SomeD)
    then have ok: "outcome_ok x" using inv by (simp add: store_inv_def)
    show ?thesis
    proof (cases "\<exists>t. response_json x = Some t \<and> loads t = None")
      case True
      then obtain t where t: "response_json x = Some t" "loads t = None" by blast
      have done_x: "state x = Completed" using ok t by (simp add: outcome_ok_def)
      have q: "pending ?s k = Some h' \<and> h' \<noteq> h" if pk: "pending ?s k = Some h'" for k h'
      proof -
        have "pending_ok ?s" "distinct (map request_handle (entries ?s))" using inv by (simp_all add: store_inv_def)
        then obtain y where y: "y \<in> set (entries ?s)" "request_handle y = h'" "state y = Waiting"
          using pk unfolding pending_ok_def by blast
        have "h' \<noteq> h"
          using unique_key_eq [OF \<open>distinct (map request_handle (entries ?s))\<close> y(1) x(1)] x(2) y done_x by auto
        with pk show ?thesis by simp
      qed
      have "0 \<le> response_bytes x" "used_bytes ?s \<le> max_response_bytes ?s"
        using ok inv by (simp_all add: outcome_ok_bytes store_inv_def)
      then have "store_inv ((set_entry h (\<lambda>o'. o'\<lparr>response_json := None, response_bytes := 0, state := Unavailable,
          unavailable_reason := Some (lit ''response_snapshot_unavailable'')\<rparr>) (?s\<lparr>pending := pending ?s\<rparr>))
          \<lparr>used_bytes := used_bytes ?s - response_bytes x\<rparr>)"
        using x by (intro set_entry_inv [OF inv Some] q) (auto simp: outcome_ok_def)
      then show ?thesis
        using t x by (simp add: get_outcome_def Let_def Some mark_unavailable_def set_entry_def)
    next
      case False
      then show ?thesis
        using inv Some by (auto simp: get_outcome_def Let_def split: option.splits)
    qed
  next
    case None
    then show ?thesis using inv by (simp add: get_outcome_def Let_def)
  qed
qed

text \<open>The entries are a table keyed by their handle; replies change everything but the key.\<close>

definition settle :: "pystr option \<times> int \<times> outcome_state \<times> pystr option \<Rightarrow> outcome \<Rightarrow> outcome" where
  "settle r x = (case r of (j, b, st, w) \<Rightarrow>
     x\<lparr>response_json := j, response_bytes := b, state := st, unavailable_reason := w\<rparr>)"

interpretation outcome_table: keyed_table request_handle settle
  by unfold_locales (auto simp: settle_def split: prod.splits)

section \<open>What a purge and a late reply do\<close>

lemma entries_remove: "entries (remove_entry h s) = filter (\<lambda>x. request_handle x \<noteq> h) (entries s)"
  by (auto simp: remove_entry_def find_entry_def find_row_None_iff delete_rows_def filter_id_conv split: option.splits)

definition entry_key :: "outcome \<Rightarrow> pystr \<times> int" where
  "entry_key x = (connection_generation x, request_id x)"

lemma purge_fold:
  "entries (fold (\<lambda>x t. if expires_at x \<le> now then remove_entry (request_handle x) t else t) ys t) =
     filter (\<lambda>x. \<forall>y \<in> set ys. expires_at y \<le> now \<longrightarrow> request_handle y \<noteq> request_handle x) (entries t)"
  by (induction ys arbitrary: t) (auto simp: entries_remove conj_commute intro: filter_cong)

lemma purge_entries:
  assumes "distinct (map request_handle (entries s))"
  shows "entries (purge now s) = filter (\<lambda>x. now < expires_at x) (entries s)"
proof -
  have "(\<forall>y \<in> set (entries s). expires_at y \<le> now \<longrightarrow> request_handle y \<noteq> request_handle x) \<longleftrightarrow> now < expires_at x"
    if "x \<in> set (entries s)" for x
    using that unique_key_eq [OF assms] by (metis not_le)
  then show ?thesis
    unfolding purge_def purge_fold by (intro filter_cong refl) blast
qed

lemma remove_pending:
  "(\<forall>x \<in> set (entries t). entry_key x = k \<longrightarrow> request_handle x \<noteq> h) \<Longrightarrow> pending (remove_entry h t) k = pending t k"
  by (auto simp: remove_entry_def entry_key_def find_entry_def split: option.splits dest: find_row_SomeD)

lemma purge_pending:
  assumes "distinct (map request_handle (entries s))" "\<forall>x \<in> set (entries s). entry_key x = k \<longrightarrow> now < expires_at x"
  shows "pending (purge now s) k = pending s k"
proof -
  have "pending (fold (\<lambda>x t. if expires_at x \<le> now then remove_entry (request_handle x) t else t) ys t) k = pending t k"
    if "\<forall>x \<in> set (entries t). entry_key x = k \<longrightarrow> (\<forall>y \<in> set ys. expires_at y \<le> now \<longrightarrow> request_handle y \<noteq> request_handle x)" for ys t
    using that
  proof (induction ys arbitrary: t)
    case (Cons y ys)
    have "pending (remove_entry (request_handle y) t) k = pending t k" if "expires_at y \<le> now"
      using Cons.prems that by (intro remove_pending) auto
    then show ?case
      using Cons by (auto simp: entries_remove)
  qed simp
  moreover have "\<forall>x \<in> set (entries s). entry_key x = k \<longrightarrow>
      (\<forall>y \<in> set (entries s). expires_at y \<le> now \<longrightarrow> request_handle y \<noteq> request_handle x)"
    using assms(2) unique_key_eq [OF assms(1)] by (metis not_le)
  ultimately show ?thesis unfolding purge_def by blast
qed

lemma find_purge:
  assumes "distinct (map request_handle (entries s))" "find_entry s h = Some x" "now < expires_at x"
  shows "find_entry (purge now s) h = Some x"
proof -
  have x: "x \<in> set (entries s)" "request_handle x = h"
    using assms(2) by (auto simp: find_entry_def dest: find_row_SomeD)
  moreover have "distinct (map request_handle (entries (purge now s)))"
    using assms(1) by (simp add: purge_entries distinct_map_filter)
  ultimately show ?thesis
    using assms unique_key_find [of request_handle "entries (purge now s)" x]
    by (simp add: find_entry_def purge_entries)
qed

text \<open>The reply \<^verbatim>\<open>complete\<close> accepts is exactly the one whose text fits the remaining bytes.\<close>

lemma encode_reply_iff:
  assumes "ascii_repr fr"
  shows "encode_reply fr room v = Inr t \<longleftrightarrow>
     is_dict v \<and> is_ok (checked_json_size fr (outcome_limits room) v) \<and> t = json_text fr v"
proof -
  have "utf8_len (json_text fr v) \<le> room" if "checked_json_size fr (outcome_limits room) v = Inr n" for n
    using that text_size_json_text [OF assms, of False v] by (simp add: checked_json_size_iff outcome_limits_def)
  then show ?thesis
    by (auto simp: encode_reply_def is_ok_iff Let_def split: sum.splits)
qed

lemma find_retained:
  "find_entry (retain now now' h g i m s) h = Some \<lparr>request_handle = h, connection_generation = g, request_id = i,
     out_method = m, expires_at = now' + ttl_seconds s, state = Waiting, response_json = None, response_bytes = 0,
     unavailable_reason = None\<rparr>"
proof -
  let ?s1 = "purge now s"
  let ?s2 = "if find_entry ?s1 h \<noteq> None then remove_entry h ?s1 else ?s1"
  have "h \<notin> request_handle ` set (entries ?s2)"
    by (auto simp: remove_entry_handles find_entry_def find_row_None_iff)
  then have "h \<notin> request_handle ` set (entries (evict ?s2))"
    using evict_handles [of ?s2] by blast
  then have "find_row (\<lambda>o'. request_handle o' = h) (entries (evict ?s2)) = None"
    by (auto simp: find_row_None_iff)
  then show ?thesis
    using outcome_table.find_insert [of "\<lparr>request_handle = h, connection_generation = g, request_id = i, out_method = m,
      expires_at = now' + ttl_seconds ?s2, state = Waiting, response_json = None, response_bytes = 0,
      unavailable_reason = None\<rparr>" "entries (evict ?s2)"]
    by (simp add: retain_def Let_def find_entry_def split: if_splits)
qed

lemma find_set_entry:
  assumes "distinct (map request_handle (entries s))" "find_entry s h = Some x" "request_handle (f x) = h"
  shows "find_entry (set_entry h f s) h = Some (f x)"
proof -
  obtain pre post where "update_rows (\<lambda>o'. request_handle o' = h) f (entries s) = pre @ f x # post"
    "\<And>y. y \<in> set pre \<union> set post \<Longrightarrow> request_handle y \<noteq> h"
    using entry_split [OF assms(1)] assms(2) unfolding find_entry_def by blast
  moreover have "find (\<lambda>o'. request_handle o' = h) (pre @ f x # post) = Some (f x)"
    if "\<And>y. y \<in> set pre \<Longrightarrow> request_handle y \<noteq> h" for pre post
    using that assms(3) by (induction pre) auto
  ultimately show ?thesis
    by (simp add: find_entry_def find_row_def set_entry_def)
qed

lemma purge_pending_None: "pending s k = None \<Longrightarrow> pending (purge now s) k = None"
proof -
  have "pending t k = None \<Longrightarrow>
      pending (fold (\<lambda>x t. if expires_at x \<le> now then remove_entry (request_handle x) t else t) ys t) k = None" for ys t
    by (induction ys arbitrary: t) (auto simp: remove_entry_def split: option.splits)
  then show "pending s k = None \<Longrightarrow> ?thesis" by (simp add: purge_def)
qed

lemma evict_entries: "set (entries (evict s)) \<subseteq> set (entries s)"
proof (induction s rule: evict.induct)
  case (1 s)
  then show ?case
    by (subst evict.simps) (auto simp: entries_remove)
qed

lemma retain_entries: "set (entries (retain now now' h g i m s)) \<subseteq> set (entries s) \<union> {x. entry_key x = (g, i) \<and> request_handle x = h}"
proof -
  have "set (entries (evict (if find_entry (purge now s) h \<noteq> None then remove_entry h (purge now s) else purge now s)))
      \<subseteq> set (entries (purge now s))"
    using evict_entries by (fastforce simp: entries_remove split: if_splits)
  moreover have "set (entries (purge now s)) \<subseteq> set (entries s)"
    by (auto simp: purge_def purge_fold)
  ultimately show ?thesis
    by (auto simp: retain_def Let_def entry_key_def)
qed

lemma retain_pending: "pending (retain now now' h g i m s) (g, i) = Some h"
  by (simp add: retain_def Let_def)

lemma retain_params [simp]:
  "max_response_bytes (retain now now' h g i m s) = max_response_bytes s"
  "ttl_seconds (retain now now' h g i m s) = ttl_seconds s"
  by (auto simp: retain_def Let_def)

text \<open>The waiting entry of a retained request, seen by \<^verbatim>\<open>complete\<close> before it expires.\<close>

lemma retained_pending:
  assumes inv: "store_inv s" and fresh: "\<forall>x \<in> set (entries s). entry_key x \<noteq> (g, i)"
    and t: "now2 < now' + ttl_seconds s"
  shows "pending (purge now2 (retain now now' h g i m s)) (g, i) = Some h"
    and "\<exists>x. find_entry (purge now2 (retain now now' h g i m s)) h = Some x \<and> request_handle x = h \<and> expires_at x = now' + ttl_seconds s
        \<and> unavailable_reason x = None"
proof -
  let ?s1 = "retain now now' h g i m s"
  have d: "distinct (map request_handle (entries ?s1))"
    using retain_inv [OF inv] by (simp add: store_inv_def)
  let ?x = "\<lparr>request_handle = h, connection_generation = g, request_id = i, out_method = m,
      expires_at = now' + ttl_seconds s, state = Waiting, response_json = None, response_bytes = 0,
      unavailable_reason = None\<rparr>"
  have x: "find_entry ?s1 h = Some ?x" by (simp add: find_retained)
  then have "?x \<in> set (entries ?s1)" by (auto simp: find_entry_def dest: find_row_SomeD)
  then have "y = ?x" if "y \<in> set (entries ?s1)" "entry_key y = (g, i)" for y
    using that fresh retain_entries [of now now' h g i m s] unique_key_eq [OF d, of y ?x]
    by auto
  then have "\<forall>y \<in> set (entries ?s1). entry_key y = (g, i) \<longrightarrow> now2 < expires_at y"
    using t by fastforce
  then show "pending (purge now2 ?s1) (g, i) = Some h"
    using purge_pending [OF d] retain_pending [of now now' h g i m s] by simp
  show "\<exists>x. find_entry (purge now2 ?s1) h = Some x \<and> request_handle x = h \<and> expires_at x = now' + ttl_seconds s
      \<and> unavailable_reason x = None"
    using find_purge [OF d x] t by auto
qed

lemma complete_entry:
  assumes "distinct (map request_handle (entries (purge now s)))" "pending (purge now s) (g, i) = Some h"
    "find_entry (purge now s) h = Some x" "request_handle x = h"
  shows "snd (complete fr now g i v s)
     \<and> find_entry (fst (complete fr now g i v s)) h =
       Some (case encode_reply fr (max_response_bytes s - used_bytes (purge now s)) v of
               Inl why \<Rightarrow> x\<lparr>response_json := None, response_bytes := 0, state := Unavailable, unavailable_reason := Some why\<rparr>
             | Inr t \<Rightarrow> x\<lparr>response_json := Some t, response_bytes := utf8_len t, state := Completed\<rparr>)
     \<and> pending (fst (complete fr now g i v s)) (g, i) = None"
proof -
  let ?s1 = "(purge now s)\<lparr>pending := (pending (purge now s))((g, i) := None)\<rparr>"
  have s1: "distinct (map request_handle (entries ?s1))" "find_entry ?s1 h = Some x"
    using assms by (simp_all add: find_entry_def)
  have fe: "find_entry (t\<lparr>used_bytes := b\<rparr>) h = find_entry t h" for t b by (simp add: find_entry_def)
  show ?thesis
    using assms find_set_entry [OF s1]
    by (auto simp: complete_def Let_def mark_unavailable_def fe split: sum.splits) (simp_all add: set_entry_def)
qed

text \<open>
  C15: the life of a late reply.  A request retained under a fresh generation and id, whose
  reply arrives before the receipt expires, is settled exactly once: the reply is reported as
  taken, a later query before expiry shows the very response when it is an object within the
  remaining byte, node and depth budget and an \<open>Unavailable\<close> entry without response
  otherwise, and a second reply with the same id is refused.
\<close>

theorem late_reply_settled_once:
  assumes inv: "store_inv s" and ascii: "ascii_repr fr"
    and fresh: "\<forall>x \<in> set (entries s). (connection_generation x, request_id x) \<noteq> (g, i)"
    and t2: "t2 < t1' + ttl_seconds s" and t3: "t3 < t1' + ttl_seconds s"
    and loads: "loads (json_text fr v) = Some v"
  shows "let s1 = retain t1 t1' h g i m s;
             s2 = fst (complete fr t2 g i v s1);
             room = max_response_bytes s - used_bytes (purge t2 s1)
         in snd (complete fr t2 g i v s1)
            \<and> (\<exists>sn. snd (get_outcome loads t3 t3' h s2) = Some sn
                 \<and> (if is_dict v \<and> is_ok (checked_json_size fr (outcome_limits room) v)
                    then sn_state sn = Completed \<and> sn_response sn = Some v
                    else sn_state sn = Unavailable \<and> sn_response sn = None))
            \<and> \<not> snd (complete fr t4 g i w s2)"
proof -
  define s1 where "s1 = retain t1 t1' h g i m s"
  define s2 where "s2 = fst (complete fr t2 g i v s1)"
  define room where "room = max_response_bytes s - used_bytes (purge t2 s1)"
  have inv1: "store_inv s1" using inv by (simp add: s1_def retain_inv)
  have dp: "distinct (map request_handle (entries (purge t2 s1)))"
    using purge_inv [OF inv1] by (simp add: store_inv_def)
  have fresh': "\<forall>x \<in> set (entries s). entry_key x \<noteq> (g, i)" using fresh by (simp add: entry_key_def)
  obtain x where x: "pending (purge t2 s1) (g, i) = Some h" "find_entry (purge t2 s1) h = Some x"
    "request_handle x = h" "expires_at x = t1' + ttl_seconds s" "unavailable_reason x = None"
    using retained_pending [OF inv fresh' t2, of t1 h m] by (auto simp: s1_def)
  let ?y = "case encode_reply fr room v of
      Inl why \<Rightarrow> x\<lparr>response_json := None, response_bytes := 0, state := Unavailable, unavailable_reason := Some why\<rparr>
    | Inr t \<Rightarrow> x\<lparr>response_json := Some t, response_bytes := utf8_len t, state := Completed\<rparr>"
  have c: "snd (complete fr t2 g i v s1)" "find_entry s2 h = Some ?y" "pending s2 (g, i) = None"
    using complete_entry [OF dp x(1-3), of fr v] by (auto simp: s2_def room_def s1_def)
  have "distinct (map request_handle (entries s2))"
    using complete_inv [OF inv1] by (simp add: s2_def store_inv_def)
  then have fp: "find_entry (purge t3 s2) h = Some ?y"
    using c(2) t3 x(4) by (intro find_purge) (auto split: sum.splits)
  have "\<not> snd (complete fr t4 g i w s2)"
    using c(3) by (simp add: complete_def Let_def purge_pending_None)
  moreover have "\<exists>sn. snd (get_outcome loads t3 t3' h s2) = Some sn
      \<and> (if is_dict v \<and> is_ok (checked_json_size fr (outcome_limits room) v)
         then sn_state sn = Completed \<and> sn_response sn = Some v
         else sn_state sn = Unavailable \<and> sn_response sn = None)"
  proof (cases "encode_reply fr room v")
    case (Inl why)
    then have "\<not> (is_dict v \<and> is_ok (checked_json_size fr (outcome_limits room) v))"
      using encode_reply_iff [OF ascii, of room v] by force
    then show ?thesis using fp Inl by (simp add: get_outcome_def Let_def)
  next
    case (Inr t)
    then have "is_dict v \<and> is_ok (checked_json_size fr (outcome_limits room) v)" "t = json_text fr v"
      using encode_reply_iff [OF ascii, of room v] by auto
    then show ?thesis using fp Inr loads by (simp add: get_outcome_def Let_def)
  qed
  ultimately show ?thesis
    using c(1) by (simp add: Let_def s1_def s2_def room_def)
qed

section \<open>The store as a state machine\<close>

datatype store_op =
    Retain rat rat pystr pystr int pystr
  | Complete rat pystr int pyval
  | Interrupt rat pystr
  | Get rat rat pystr

fun store_exec :: "(pyfloat \<Rightarrow> pystr) \<Rightarrow> (pystr \<Rightarrow> pyval option) \<Rightarrow> store_op \<Rightarrow> outcome_store \<Rightarrow> outcome_store" where
  "store_exec fr loads (Retain t t' h g i m) s = retain t t' h g i m s"
| "store_exec fr loads (Complete t g i v) s = fst (complete fr t g i v s)"
| "store_exec fr loads (Interrupt t g) s = interrupt_generation t g s"
| "store_exec fr loads (Get t t' h) s = fst (get_outcome loads t t' h s)"

definition store_run :: "(pyfloat \<Rightarrow> pystr) \<Rightarrow> (pystr \<Rightarrow> pyval option) \<Rightarrow> store_op list \<Rightarrow> outcome_store \<Rightarrow> outcome_store" where
  "store_run fr loads ops s = fold (store_exec fr loads) ops s"

lemma store_exec_inv: "store_inv s \<Longrightarrow> store_inv (store_exec fr loads l s)"
  by (cases l) (simp_all add: retain_inv complete_inv interrupt_inv get_outcome_inv)

lemma new_store_inv: "new_store n b ttl = Inr s \<Longrightarrow> store_inv s"
  by (auto simp: new_store_def store_inv_def pending_ok_def split: if_splits)

interpretation outcome_machine: machine
  "\<lambda>s. \<exists>n b ttl. new_store n b ttl = Inr s" "\<lambda>s l t. t = store_exec fr loads l s" store_inv
  for fr :: "pyfloat \<Rightarrow> pystr" and loads :: "pystr \<Rightarrow> pyval option"
  by unfold_locales (auto simp: store_exec_inv new_store_inv)

lemma store_run_run: "outcome_machine.run fr loads s ops (store_run fr loads ops s)"
  by (induction ops arbitrary: s)
    (auto simp: store_run_def intro: outcome_machine.run_Nil outcome_machine.run_Cons)

lemma store_exec_params [simp]:
  "max_entries (store_exec fr loads l s) = max_entries s"
  "max_response_bytes (store_exec fr loads l s) = max_response_bytes s"
  by (cases l; auto simp: retain_def complete_def interrupt_generation_def get_outcome_def mark_unavailable_def
      set_entry_def Let_def split: option.splits sum.splits)+

lemma store_run_params:
  "max_entries (store_run fr loads ops s) = max_entries s \<and>
   max_response_bytes (store_run fr loads ops s) = max_response_bytes s"
  unfolding store_run_def by (induction ops arbitrary: s) auto

text \<open>
  C18: the store stays within its bounds.  After any sequence of \<^verbatim>\<open>retain\<close>, \<^verbatim>\<open>complete\<close>,
  \<^verbatim>\<open>interrupt_generation\<close> and \<^verbatim>\<open>get\<close>, with any clock readings and any replies, at most
  \<^verbatim>\<open>max_entries\<close> receipts are kept under distinct handles, the bytes counted are exactly the
  UTF-8 bytes of the responses kept, and they never exceed \<^verbatim>\<open>max_response_bytes\<close>.
\<close>

theorem outcome_store_bounded:
  assumes "new_store n b ttl = Inr s0"
  shows "let s = store_run fr loads ops s0 in
     length (entries s) \<le> n \<and> distinct (map request_handle (entries s))
     \<and> used_bytes s = (\<Sum>x\<leftarrow>entries s. case response_json x of None \<Rightarrow> 0 | Some t \<Rightarrow> utf8_len t)
     \<and> used_bytes s \<le> b"
proof -
  let ?s = "store_run fr loads ops s0"
  have inv: "store_inv ?s"
    using outcome_machine.run_from_init [OF store_run_run] assms by blast
  have "max_entries s0 = n" "max_response_bytes s0 = b"
    using assms by (auto simp: new_store_def split: if_splits)
  then have "max_entries ?s = n" "max_response_bytes ?s = b"
    using store_run_params by auto
  moreover have "sum_list (map response_bytes (entries ?s)) =
      (\<Sum>x\<leftarrow>entries ?s. case response_json x of None \<Rightarrow> 0 | Some t \<Rightarrow> utf8_len t)"
    using inv by (intro arg_cong [where f = sum_list] map_cong) (auto simp: store_inv_def outcome_ok_def)
  ultimately show ?thesis
    using inv by (simp add: store_inv_def Let_def)
qed

definition demo_store :: outcome_store where
  "demo_store = \<lparr>max_entries = 2, max_response_bytes = 100, ttl_seconds = 300, entries = [],
     pending = Map.empty, used_bytes = 0\<rparr>"

theorem outcome_store_bounded_witness:
  "length (entries (store_run (\<lambda>_. []) (\<lambda>_. None)
     [Retain 0 0 (lit ''h1'') (lit ''g'') 1 (lit ''tools/call''), Retain 1 1 (lit ''h2'') (lit ''g'') 2 (lit ''tools/call''),
      Retain 2 2 (lit ''h3'') (lit ''g'') 3 (lit ''tools/call'')] demo_store)) \<le> 2"
proof -
  have "new_store 2 100 300 = Inr demo_store" by (simp add: new_store_def demo_store_def)
  from outcome_store_bounded [OF this] show ?thesis by (simp add: Let_def)
qed

theorem late_reply_settled_once_witness:
  "\<exists>sn. snd (get_outcome (\<lambda>_. Some (PDict [])) 2 2 (lit ''h'')
      (fst (complete (\<lambda>_. []) 1 (lit ''g'') 7 (PDict []) (retain 0 0 (lit ''h'') (lit ''g'') 7 (lit ''m'') demo_store)))) = Some sn
     \<and> sn_response sn = (if sn_state sn = Completed then Some (PDict []) else None)"
proof -
  have inv: "store_inv demo_store"
    by (simp add: demo_store_def store_inv_def pending_ok_def)
  have "ascii_repr (\<lambda>_. [])" by (simp add: ascii_repr_def)
  from late_reply_settled_once [OF inv this, where g = "lit ''g''" and i = 7 and ?t1.0 = 0 and ?t1' = 0 and ?t2.0 = 1
      and ?t3.0 = 2 and ?t3' = 2 and ?t4.0 = 3 and v = "PDict []" and loads = "\<lambda>_. Some (PDict [])" and h = "lit ''h''"
      and m = "lit ''m''" and w = PNone]
  show ?thesis by (auto simp: demo_store_def Let_def split: if_splits)
qed

section \<open>Recognising a wrapped timeout\<close>

text \<open>The exceptions reachable through \<^verbatim>\<open>__cause__\<close>.\<close>

inductive caused_by :: "exc_heap \<Rightarrow> nat \<Rightarrow> nat \<Rightarrow> bool" for h where
  caused_self: "caused_by h e e"
| caused_step: "map_of h e = Some (b, Some c) \<Longrightarrow> caused_by h c d \<Longrightarrow> caused_by h e d"

lemma find_timeout_sound:
  "find_request_timeout h seen (Some e) = Some d \<Longrightarrow> caused_by h e d \<and> (\<exists>c. map_of h d = Some (True, c))"
proof (induction h seen "Some e" arbitrary: e rule: find_request_timeout.induct)
  case (1 h seen)
  from 1(2) obtain it cause where e: "e \<notin> seen" "map_of h e = Some (it, cause)"
    by (auto simp: find_request_timeout.simps [of h seen "Some e"] split: if_splits option.splits)
  show ?case
  proof (cases it)
    case True
    with e 1(2) show ?thesis
      by (auto simp: find_request_timeout.simps [of h seen "Some e"] intro: caused_self)
  next
    case False
    then have rec: "find_request_timeout h (insert e seen) cause = Some d"
      using e 1(2) by (simp add: find_request_timeout.simps [of h seen "Some e"])
    then obtain c where c: "cause = Some c"
      by (cases cause) (auto simp: find_request_timeout.simps [of _ _ None])
    have "caused_by h c d \<and> (\<exists>c. map_of h d = Some (True, c))"
      using 1(1) e c rec False by auto
    with e c show ?thesis by (auto intro: caused_step)
  qed
qed

definition no_timeout_closed :: "exc_heap \<Rightarrow> nat set \<Rightarrow> nat option \<Rightarrow> bool" where
  "no_timeout_closed h S cur \<longleftrightarrow>
     (\<forall>x \<in> S. \<forall>b c. map_of h x = Some (b, c) \<longrightarrow> \<not> b \<and> (\<forall>d. c = Some d \<longrightarrow> d \<in> S \<or> cur = Some d))"

lemma closed_no_timeout:
  "caused_by h x d \<Longrightarrow> no_timeout_closed h T None \<Longrightarrow> x \<in> T \<Longrightarrow> d \<in> T"
  by (induction rule: caused_by.induct) (auto simp: no_timeout_closed_def)

lemma find_timeout_None:
  "find_request_timeout h S cur = None \<Longrightarrow> no_timeout_closed h S cur \<Longrightarrow>
   \<exists>T. S \<subseteq> T \<and> (\<forall>e. cur = Some e \<longrightarrow> e \<in> T) \<and> no_timeout_closed h T None"
proof (induction h S cur rule: find_request_timeout.induct)
  case (1 h S cur)
  show ?case
  proof (cases cur)
    case None
    then show ?thesis using 1(3) by (auto simp: no_timeout_closed_def)
  next
    case (Some e)
    consider (seen) "e \<in> S" | (dangling) "e \<notin> S" "map_of h e = None"
      | (step) cause where "e \<notin> S" "map_of h e = Some (False, cause)" "find_request_timeout h (insert e S) cause = None"
      using 1(2) Some
      by (auto simp: find_request_timeout.simps [of h S "Some e"] split: if_splits option.splits)
    then show ?thesis
    proof cases
      case seen
      then show ?thesis using 1(3) Some by (intro exI [of _ S]) (auto simp: no_timeout_closed_def)
    next
      case dangling
      then show ?thesis using 1(3) Some by (intro exI [of _ "insert e S"]) (auto simp: no_timeout_closed_def)
    next
      case step
      have "no_timeout_closed h (insert e S) cause"
        using 1(3) Some step(2) by (auto simp: no_timeout_closed_def)
      then obtain T where "insert e S \<subseteq> T" "no_timeout_closed h T None"
        using 1(1) [OF Some step(1,2) refl _ step(3)] by auto
      then show ?thesis using Some by auto
    qed
  qed
qed

text \<open>
  \<^verbatim>\<open>find_request_timeout\<close> always returns, on cyclic chains too, and is exact: it yields a
  timeout only if that object is one and is reached from the error through explicit causes,
  and it yields nothing only if no timeout at all is reached that way.
\<close>

lemma find_request_timeout_exact:
  "case find_request_timeout h {} (Some e) of
     Some d \<Rightarrow> caused_by h e d \<and> (\<exists>c. map_of h d = Some (True, c))
   | None \<Rightarrow> \<not> (\<exists>d c. caused_by h e d \<and> map_of h d = Some (True, c))"
proof (cases "find_request_timeout h {} (Some e)")
  case (Some d)
  then show ?thesis using find_timeout_sound by simp
next
  case None
  then obtain T where T: "e \<in> T" "no_timeout_closed h T None"
    using find_timeout_None [of h "{}" "Some e"] by (auto simp: no_timeout_closed_def)
  have "\<not> (\<exists>d c. caused_by h e d \<and> map_of h d = Some (True, c))"
    using closed_no_timeout [OF _ T(2) T(1)] T(2) by (fastforce simp: no_timeout_closed_def)
  with None show ?thesis by simp
qed

section \<open>Identity-bound recovery receipts\<close>

record ('p, 'r) receipt =
  rc_handle :: pystr
  rc_principal :: 'p
  rc_tool_id :: pystr
  rc_revision :: pystr
  rc_reader :: 'r
  rc_created_at :: rat
  rc_expires_at :: rat

datatype recovery_error = Bad_ttl | Capacity_reached | Identity_capacity | Allocation_failed

definition MAX_RECOVERY_ENTRIES :: nat where "MAX_RECOVERY_ENTRIES = 128"
definition MAX_RECOVERY_ENTRIES_PER_PRINCIPAL :: nat where "MAX_RECOVERY_ENTRIES_PER_PRINCIPAL = 16"
definition MAX_RECOVERY_TTL_SECONDS :: rat where "MAX_RECOVERY_TTL_SECONDS = 300"

text \<open>\<^verbatim>\<open>isinstance(ttl, bool) or not math.isfinite(ttl) or ttl <= 0\<close> raises.\<close>

definition ttl_value :: "pyval \<Rightarrow> rat option" where
  "ttl_value v =
     (case v of
        PInt i \<Rightarrow> if 0 < i then Some (of_int i) else None
      | PFloat (Finite q) \<Rightarrow> if 0 < q then Some q else None
      | _ \<Rightarrow> None)"

definition expire_receipts :: "rat \<Rightarrow> ('p, 'r) receipt list \<Rightarrow> ('p, 'r) receipt list" where
  "expire_receipts now rs = delete_rows (\<lambda>r. rc_expires_at r \<le> now) rs"

text \<open>\<open>fresh\<close> are the handles \<^verbatim>\<open>secrets.token_urlsafe\<close> returns; at most three are tried.\<close>

definition retain_receipt :: "rat \<Rightarrow> pystr list \<Rightarrow> 'p \<Rightarrow> pystr \<Rightarrow> pystr \<Rightarrow> 'r \<Rightarrow> pyval \<Rightarrow> ('p, 'r) receipt list
    \<Rightarrow> recovery_error + ('p, 'r) receipt list \<times> pystr" where
  "retain_receipt now fresh who tool_id revn reader ttl rs0 =
     (case ttl_value ttl of
        None \<Rightarrow> Inl Bad_ttl
      | Some q \<Rightarrow>
          (let rs = expire_receipts now rs0 in
           if length rs \<ge> MAX_RECOVERY_ENTRIES then Inl Capacity_reached
           else if length (filter (\<lambda>r. rc_principal r = who) rs) \<ge> MAX_RECOVERY_ENTRIES_PER_PRINCIPAL
           then Inl Identity_capacity
           else (case find (\<lambda>h. h \<notin> rc_handle ` set rs) (take 3 fresh) of
                   None \<Rightarrow> Inl Allocation_failed
                 | Some h \<Rightarrow> Inr (rs @ [\<lparr>rc_handle = h, rc_principal = who, rc_tool_id = tool_id, rc_revision = revn,
                     rc_reader = reader, rc_created_at = now, rc_expires_at = now + min q MAX_RECOVERY_TTL_SECONDS\<rparr>], h))))"

definition get_receipt :: "rat \<Rightarrow> pystr \<Rightarrow> 'p \<Rightarrow> ('p, 'r) receipt list
    \<Rightarrow> ('p, 'r) receipt list \<times> ('p, 'r) receipt option" where
  "get_receipt now h who rs0 =
     (let rs = expire_receipts now rs0 in
      (rs, case find_row (\<lambda>r. rc_handle r = h) rs of
             None \<Rightarrow> None
           | Some r \<Rightarrow> if rc_principal r = who then Some r else None))"

definition discard_receipt :: "pystr \<Rightarrow> ('p, 'r) receipt list \<Rightarrow> ('p, 'r) receipt list" where
  "discard_receipt h rs = delete_rows (\<lambda>r. rc_handle r = h) rs"

definition receipts_ok :: "('p, 'r) receipt list \<Rightarrow> bool" where
  "receipts_ok rs \<longleftrightarrow> distinct (map rc_handle rs) \<and> length rs \<le> MAX_RECOVERY_ENTRIES
     \<and> (\<forall>p. length (filter (\<lambda>r. rc_principal r = p) rs) \<le> MAX_RECOVERY_ENTRIES_PER_PRINCIPAL)
     \<and> (\<forall>r \<in> set rs. rc_expires_at r \<le> rc_created_at r + MAX_RECOVERY_TTL_SECONDS)"

lemma length_filter_conj: "length (filter (\<lambda>x. p x \<and> q x) xs) \<le> length (filter q xs)"
  by (induction xs) auto

lemma receipts_ok_delete: "receipts_ok rs \<Longrightarrow> receipts_ok (delete_rows p rs)"
  unfolding receipts_ok_def delete_rows_def
  by (auto simp: distinct_map_filter intro: le_trans [OF length_filter_le] le_trans [OF length_filter_conj])

lemma find_receipt:
  assumes "distinct (map rc_handle rs)" "r \<in> set rs"
  shows "find_row (\<lambda>x. rc_handle x = rc_handle r) (expire_receipts now rs) =
     (if rc_expires_at r \<le> now then None else Some r)"
proof (cases "rc_expires_at r \<le> now")
  case True
  then show ?thesis
    using unique_key_eq [OF assms(1)] assms(2)
    by (fastforce simp: expire_receipts_def find_row_None_iff)
next
  case False
  then show ?thesis
    using assms unique_key_find [of rc_handle "expire_receipts now rs" r]
    by (simp add: expire_receipts_def distinct_delete_rows)
qed

text \<open>
  Receipts are bounded and bound to one identity.  Every successful \<^verbatim>\<open>retain\<close> keeps the
  store within its total and per-identity capacity under distinct handles; the receipt it
  returns is readable by the retaining identity exactly until its absolute expiry, at most
  300 seconds ahead, and by no other identity at any time.
\<close>

lemma recovery_receipt_bound:
  assumes ok: "receipts_ok rs"
    and kept: "retain_receipt now fresh who tool_id revn reader ttl rs = Inr (rs', h)"
  shows "receipts_ok rs'
     \<and> (\<forall>t other. other \<noteq> who \<longrightarrow> snd (get_receipt t h other rs') = None)
     \<and> (\<exists>q. ttl_value ttl = Some q
          \<and> (\<forall>t. snd (get_receipt t h who rs') \<noteq> None \<longleftrightarrow> t < now + min q 300))"
proof -
  let ?rs = "expire_receipts now rs"
  from kept obtain q where q: "ttl_value ttl = Some q" "length ?rs < MAX_RECOVERY_ENTRIES"
    "length (filter (\<lambda>r. rc_principal r = who) ?rs) < MAX_RECOVERY_ENTRIES_PER_PRINCIPAL"
    "find (\<lambda>h. h \<notin> rc_handle ` set ?rs) (take 3 fresh) = Some h"
    and rs': "rs' = ?rs @ [\<lparr>rc_handle = h, rc_principal = who, rc_tool_id = tool_id, rc_revision = revn,
       rc_reader = reader, rc_created_at = now, rc_expires_at = now + min q MAX_RECOVERY_TTL_SECONDS\<rparr>]"
    by (auto simp: retain_receipt_def Let_def split: option.splits if_splits)
  let ?r = "\<lparr>rc_handle = h, rc_principal = who, rc_tool_id = tool_id, rc_revision = revn,
       rc_reader = reader, rc_created_at = now, rc_expires_at = now + min q MAX_RECOVERY_TTL_SECONDS\<rparr>"
  have h: "h \<notin> rc_handle ` set ?rs" using q(4) by (auto simp: find_Some_iff)
  have "receipts_ok ?rs" using ok by (simp add: expire_receipts_def receipts_ok_delete)
  then have ok': "receipts_ok rs'"
    using h q(2,3) by (auto simp: receipts_ok_def rs')
  then have "distinct (map rc_handle rs')" "?r \<in> set rs'" by (auto simp: receipts_ok_def rs')
  note f = find_receipt [OF this]
  then show ?thesis
    using ok' q(1) by (auto simp: get_receipt_def Let_def MAX_RECOVERY_TTL_SECONDS_def not_le)
qed

lemma recovery_receipt_bound_witness:
  "\<exists>rs' h. retain_receipt 0 [lit ''t1''] (1::nat) (lit ''tool'') (lit ''rev'') () (PInt 60) [] = Inr (rs', h)
     \<and> snd (get_receipt 10 h (2::nat) rs') = None \<and> snd (get_receipt 10 h 1 rs') \<noteq> None"
proof -
  have e: "receipts_ok ([] :: (nat, unit) receipt list)" by (simp add: receipts_ok_def)
  have "\<exists>rs' h. retain_receipt 0 [lit ''t1''] (1::nat) (lit ''tool'') (lit ''rev'') () (PInt 60) [] = Inr (rs', h)"
    by (simp add: retain_receipt_def ttl_value_def expire_receipts_def delete_rows_def MAX_RECOVERY_ENTRIES_def
        MAX_RECOVERY_ENTRIES_PER_PRINCIPAL_def)
  then obtain rs' h where r: "retain_receipt 0 [lit ''t1''] (1::nat) (lit ''tool'') (lit ''rev'') () (PInt 60) [] = Inr (rs', h)"
    by blast
  from recovery_receipt_bound [OF e r] r show ?thesis
    by (auto simp: ttl_value_def)
qed

end
