(* ===== verification/Argument_Policy.thy ===== *)
theory Argument_Policy
  imports Json_Structure
begin

text \<open>
  \<^verbatim>\<open>argument_policy.py\<close> and \<^verbatim>\<open>argument_preparation.py\<close>: rules on the effective tool arguments, their
  validation, JSON-pointer lookup, the check at dispatch and the revisioned store.
\<close>

section \<open>Rules\<close>

datatype rule =
    EqualsRule (rule_id: pystr) (pointer: pystr) pyval
  | AllowedRule (rule_id: pystr) (pointer: pystr) "pyval list"
  | NumberRule (rule_id: pystr) (pointer: pystr) (minimum: "pyval option") (maximum: "pyval option")
  | PrefixRule (rule_id: pystr) (pointer: pystr) pystr

definition MAX_POLICY_BYTES :: int where "MAX_POLICY_BYTES = 65536"

definition alnum :: "nat \<Rightarrow> bool" where
  "alnum c \<longleftrightarrow> 48 \<le> c \<and> c \<le> 57 \<or> 65 \<le> c \<and> c \<le> 90 \<or> 97 \<le> c \<and> c \<le> 122"

text \<open>The pattern \<^verbatim>\<open>^[a-zA-Z0-9][a-zA-Z0-9_-]{0,63}$\<close>.\<close>

definition rule_id_ok :: "pystr \<Rightarrow> bool" where
  "rule_id_ok s =
     (case s of [] \<Rightarrow> False
      | c # cs \<Rightarrow> alnum c \<and> list_all (\<lambda>x. alnum x \<or> x = 95 \<or> x = 45) cs \<and> length cs \<le> 63)"

text \<open>\<^verbatim>\<open>re.search(r"~(?![01])", value)\<close>\<close>

fun bad_tilde :: "pystr \<Rightarrow> bool" where
  "bad_tilde [] = False"
| "bad_tilde [c] = (c = 126)"
| "bad_tilde (c # d # s) = (c = 126 \<and> d \<noteq> 48 \<and> d \<noteq> 49 \<or> bad_tilde (d # s))"

definition pointer_supported :: "pystr \<Rightarrow> bool" where
  "pointer_supported value \<longleftrightarrow> length value \<le> 512 \<and>
     \<not> (value \<noteq> [] \<and> \<not> starts_with value [47] \<or> bad_tilde value
        \<or> length (filter (\<lambda>c. c = 47) value) > 32 \<or> list_ex (\<lambda>c. c < 32) value)"

text \<open>Numbers are compared exactly, across \<^verbatim>\<open>int\<close> and \<^verbatim>\<open>float\<close>.\<close>

fun as_num :: "pyval \<Rightarrow> pyfloat" where
  "as_num (PInt i) = Finite (of_int i)"
| "as_num (PFloat f) = (if f = NegZero then Finite 0 else f)"
| "as_num _ = NaN"

fun is_number :: "pyval \<Rightarrow> bool" where
  "is_number (PInt _) = True"
| "is_number (PFloat _) = True"
| "is_number _ = False"

definition num_le :: "pyval \<Rightarrow> pyval \<Rightarrow> bool" where
  "num_le a b =
     (case as_num a of
        Finite x \<Rightarrow> (case as_num b of Finite y \<Rightarrow> x \<le> y | PosInf \<Rightarrow> True | _ \<Rightarrow> False)
      | NegInf \<Rightarrow> as_num b \<noteq> NaN
      | PosInf \<Rightarrow> as_num b = PosInf
      | _ \<Rightarrow> False)"

definition num_eq :: "pyval \<Rightarrow> pyval \<Rightarrow> bool" where
  "num_eq a b \<longleftrightarrow> num_le a b \<and> num_le b a"

definition finite_number :: "pyval \<Rightarrow> bool" where
  "finite_number v = (case v of PInt _ \<Rightarrow> True | PFloat f \<Rightarrow> is_finite f | _ \<Rightarrow> False)"

definition range_supported :: "pyval option \<Rightarrow> pyval option \<Rightarrow> bool" where
  "range_supported mn mx \<longleftrightarrow>
     \<not> (mn = None \<and> mx = None)
     \<and> (case mn of None \<Rightarrow> True | Some v \<Rightarrow> finite_number v)
     \<and> (case mx of None \<Rightarrow> True | Some v \<Rightarrow> finite_number v)
     \<and> (case (mn, mx) of (Some a, Some b) \<Rightarrow> num_le a b | _ \<Rightarrow> True)"

fun rule_ok :: "rule \<Rightarrow> bool" where
  "rule_ok (EqualsRule i p _) = (rule_id_ok i \<and> pointer_supported p)"
| "rule_ok (AllowedRule i p vs) =
     (rule_id_ok i \<and> pointer_supported p \<and> 1 \<le> length vs \<and> length vs \<le> 64)"
| "rule_ok (NumberRule i p mn mx) = (rule_id_ok i \<and> pointer_supported p \<and> range_supported mn mx)"
| "rule_ok (PrefixRule i p pre) =
     (rule_id_ok i \<and> pointer_supported p \<and> 1 \<le> length pre \<and> length pre \<le> 1024)"

section \<open>Validation of submitted rules\<close>

definition only_keys :: "dict \<Rightarrow> pystr list \<Rightarrow> bool" where
  "only_keys d ks \<longleftrightarrow> list_all (\<lambda>(k, _). k \<in> PStr ` set ks) d"

definition opt_number :: "pyval option \<Rightarrow> pyval option option" where
  "opt_number v =
     (case v of None \<Rightarrow> Some None
      | Some PNone \<Rightarrow> Some None
      | Some w \<Rightarrow> if is_number w then Some (Some w) else None)"

text \<open>
  The strict, extra-forbidding models behind \<^verbatim>\<open>TypeAdapter(list[Rule])\<close>, selected by
  \<^verbatim>\<open>operator\<close>.
\<close>

definition get_str :: "dict \<Rightarrow> pystr \<Rightarrow> pystr option" where
  "get_str d k = (case dict_get d k of Some (PStr s) \<Rightarrow> Some s | _ \<Rightarrow> None)"

definition get_list :: "dict \<Rightarrow> pystr \<Rightarrow> pyval list option" where
  "get_list d k = (case dict_get d k of Some (PList xs) \<Rightarrow> Some xs | _ \<Rightarrow> None)"

definition parse_body :: "dict \<Rightarrow> pystr \<Rightarrow> pystr \<Rightarrow> pystr \<Rightarrow> rule option" where
  "parse_body d i p op =
     (if op = lit ''equals'' \<and> only_keys d [lit ''id'', lit ''pointer'', lit ''operator'', lit ''value''] then
        map_option (EqualsRule i p) (dict_get d (lit ''value''))
      else if op = lit ''allowed_values'' \<and> only_keys d [lit ''id'', lit ''pointer'', lit ''operator'', lit ''values''] then
        map_option (AllowedRule i p) (get_list d (lit ''values''))
      else if op = lit ''number_range'' \<and>
        only_keys d [lit ''id'', lit ''pointer'', lit ''operator'', lit ''minimum'', lit ''maximum''] then
        Option.bind (opt_number (dict_get d (lit ''minimum''))) (\<lambda>mn.
          map_option (NumberRule i p mn) (opt_number (dict_get d (lit ''maximum''))))
      else if op = lit ''string_prefix'' \<and> only_keys d [lit ''id'', lit ''pointer'', lit ''operator'', lit ''prefix''] then
        map_option (PrefixRule i p) (get_str d (lit ''prefix''))
      else None)"

definition parse_rule :: "pyval \<Rightarrow> rule option" where
  "parse_rule v =
     (case v of
        PDict d \<Rightarrow>
          Option.bind (get_str d (lit ''id'')) (\<lambda>i.
          Option.bind (get_str d (lit ''pointer'')) (\<lambda>p.
          Option.bind (get_str d (lit ''operator'')) (\<lambda>op.
          Option.bind (parse_body d i p op) (\<lambda>r.
            if rule_ok r then Some r else None))))
      | _ \<Rightarrow> None)"

fun parse_rules :: "pyval list \<Rightarrow> rule list option" where
  "parse_rules [] = Some []"
| "parse_rules (v # vs) =
     (case (parse_rule v, parse_rules vs) of (Some r, Some rs) \<Rightarrow> Some (r # rs) | _ \<Rightarrow> None)"

definition none_or :: "pyval option \<Rightarrow> pyval" where
  "none_or v = (case v of None \<Rightarrow> PNone | Some w \<Rightarrow> w)"

fun dump_rule :: "rule \<Rightarrow> pyval" where
  "dump_rule (EqualsRule i p v) = PDict [(PStr (lit ''id''), PStr i), (PStr (lit ''pointer''), PStr p),
     (PStr (lit ''operator''), PStr (lit ''equals'')), (PStr (lit ''value''), v)]"
| "dump_rule (AllowedRule i p vs) = PDict [(PStr (lit ''id''), PStr i), (PStr (lit ''pointer''), PStr p),
     (PStr (lit ''operator''), PStr (lit ''allowed_values'')), (PStr (lit ''values''), PList vs)]"
| "dump_rule (NumberRule i p mn mx) = PDict [(PStr (lit ''id''), PStr i), (PStr (lit ''pointer''), PStr p),
     (PStr (lit ''operator''), PStr (lit ''number_range'')), (PStr (lit ''minimum''), none_or mn),
     (PStr (lit ''maximum''), none_or mx)]"
| "dump_rule (PrefixRule i p s) = PDict [(PStr (lit ''id''), PStr i), (PStr (lit ''pointer''), PStr p),
     (PStr (lit ''operator''), PStr (lit ''string_prefix'')), (PStr (lit ''prefix''), PStr s)]"

datatype policy_error = Policy_invalid | Revision_conflict

definition policy_limits :: limits where
  "policy_limits = \<lparr>max_bytes = MAX_POLICY_BYTES, max_nodes = 8192, max_depth = 24\<rparr>"

definition validate_rules :: "(pyfloat \<Rightarrow> pystr) \<Rightarrow> pyval \<Rightarrow> policy_error + rule list" where
  "validate_rules fr value =
     (case checked_json_size fr policy_limits value of
        Inl _ \<Rightarrow> Inl Policy_invalid
      | Inr _ \<Rightarrow>
          (case value of
             PList xs \<Rightarrow>
               (case parse_rules xs of
                  None \<Rightarrow> Inl Policy_invalid
                | Some parsed \<Rightarrow>
                    if length parsed > 64 \<or> card (set (map rule_id parsed)) \<noteq> length parsed
                    then Inl Policy_invalid else Inr parsed)
           | _ \<Rightarrow> Inl Policy_invalid))"

section \<open>Evaluation against the arguments\<close>

function same_json :: "pyval \<Rightarrow> pyval \<Rightarrow> bool" where
  "same_json left right =
     (case (left, right) of
        (PDict l, PDict r) \<Rightarrow>
          set (map fst l) = set (map fst r)
          \<and> list_all (\<lambda>(k, v). case map_of r k of Some w \<Rightarrow> same_json v w | None \<Rightarrow> False) l
      | (PList l, PList r) \<Rightarrow> length l = length r \<and> list_all (\<lambda>(a, b). same_json a b) (zip l r)
      | _ \<Rightarrow> if is_number left \<and> is_number right then num_eq left right else left = right)"
  by pat_completeness auto
termination
  by (relation "measure (size \<circ> fst)") (auto dest: size_pair_mem size_elem_mem dest!: set_zip_leftD)

declare same_json.simps [simp del]

text \<open>\<^verbatim>\<open>part.replace("~1", "/").replace("~0", "~")\<close>\<close>

fun replace2 :: "nat \<Rightarrow> nat \<Rightarrow> nat \<Rightarrow> pystr \<Rightarrow> pystr" where
  "replace2 a b r [] = []"
| "replace2 a b r [c] = [c]"
| "replace2 a b r (c # d # s) =
     (if c = a \<and> d = b then r # replace2 a b r s else c # replace2 a b r (d # s))"

definition unescape :: "pystr \<Rightarrow> pystr" where
  "unescape part = replace2 126 48 126 (replace2 126 49 47 part)"

definition digit :: "nat \<Rightarrow> bool" where
  "digit c \<longleftrightarrow> 48 \<le> c \<and> c \<le> 57"

definition index_key :: "pystr \<Rightarrow> bool" where
  "index_key key \<longleftrightarrow> key \<noteq> [] \<and> list_all digit key \<and> (key = lit ''0'' \<or> \<not> starts_with key (lit ''0''))
     \<and> length key \<le> 8"

definition dec_val :: "pystr \<Rightarrow> nat" where
  "dec_val s = foldl (\<lambda>n c. 10 * n + (c - 48)) 0 s"

text \<open>One step of the loop; \<open>None\<close> is \<^verbatim>\<open>_MISSING\<close>, which every later step keeps.\<close>

definition pointer_step :: "pyval \<Rightarrow> pystr \<Rightarrow> pyval option" where
  "pointer_step value key =
     (case value of
        PDict d \<Rightarrow> dict_get d key
      | PList xs \<Rightarrow>
          if index_key key \<and> dec_val key < length xs then Some (xs ! dec_val key) else None
      | _ \<Rightarrow> None)"

fun pointer_walk :: "pyval \<Rightarrow> pystr list \<Rightarrow> pyval option" where
  "pointer_walk value [] = Some value"
| "pointer_walk value (part # parts) =
     (case pointer_step value (unescape part) of
        None \<Rightarrow> None
      | Some v \<Rightarrow> pointer_walk v parts)"

definition at_pointer :: "pyval \<Rightarrow> pystr \<Rightarrow> pyval option" where
  "at_pointer arguments ptr = pointer_walk arguments (if ptr = [] then [] else tl (split_on 47 ptr))"

record argument_policy =
  enabled :: bool
  revision :: int
  rules :: "rule list"

definition no_policy :: argument_policy where
  "no_policy = \<lparr>enabled = False, revision = 0, rules = []\<rparr>"

record policy_denial =
  policy_revision :: int
  denied_rule :: "pystr option"
  denied_pointer :: "pystr option"
  reason :: pystr

definition rule_allows :: "rule \<Rightarrow> pyval \<Rightarrow> bool" where
  "rule_allows r value =
     (case r of
        EqualsRule _ _ v \<Rightarrow> same_json value v
      | AllowedRule _ _ vs \<Rightarrow> list_ex (\<lambda>c. same_json value c) vs
      | NumberRule _ _ mn mx \<Rightarrow>
          is_number value
          \<and> (case mn of None \<Rightarrow> True | Some m \<Rightarrow> num_le m value)
          \<and> (case mx of None \<Rightarrow> True | Some m \<Rightarrow> num_le value m)
      | PrefixRule _ _ p \<Rightarrow> (case value of PStr s \<Rightarrow> starts_with s p | _ \<Rightarrow> False))"

fun check_rules :: "int \<Rightarrow> rule list \<Rightarrow> pyval \<Rightarrow> policy_denial + unit" where
  "check_rules cur [] arguments = Inr ()"
| "check_rules cur (r # rs) arguments =
     (let value = at_pointer arguments (pointer r);
          allowed = (case value of None \<Rightarrow> False | Some v \<Rightarrow> rule_allows r v)
      in if \<not> allowed
         then Inl \<lparr>policy_revision = cur, denied_rule = Some (rule_id r), denied_pointer = Some (pointer r),
                   reason = (if value = None then lit ''value_missing'' else lit ''rule_not_satisfied'')\<rparr>
         else check_rules cur rs arguments)"

definition check_policy :: "argument_policy \<Rightarrow> pyval \<Rightarrow> policy_denial + unit" where
  "check_policy policy arguments =
     (if \<not> enabled policy then Inr () else check_rules (revision policy) (rules policy) arguments)"

section \<open>The policy store\<close>

text \<open>
  The row keeps the rules as text; \<open>loads\<close> stands for \<^verbatim>\<open>json.loads\<close> with the
  \<^verbatim>\<open>_unique_members\<close> hook, \<open>None\<close> when it raises.
\<close>

record policy_row =
  row_enabled :: int
  row_revision :: int
  row_rules_json :: pystr

record policy_event =
  ev_tool :: pystr
  ev_actor :: pystr
  ev_revision :: int
  ev_enabled :: bool
  ev_rule_count :: nat

record policy_db =
  policies :: "pystr \<rightharpoonup> policy_row"
  events :: "policy_event list"

record policy_write =
  expected_revision :: int
  w_enabled :: bool
  w_rules :: "rule list"

fun unique_members :: "(pystr \<times> pyval) list \<Rightarrow> pystr set \<Rightarrow> unit + dict" where
  "unique_members [] seen = Inr []"
| "unique_members ((k, v) # ps) seen =
     (if k \<in> seen then Inl ()
      else bindR (unique_members ps (insert k seen)) (\<lambda>r. Inr ((PStr k, v) # r)))"

definition current :: "(pyfloat \<Rightarrow> pystr) \<Rightarrow> (pystr \<Rightarrow> pyval option) \<Rightarrow> policy_db \<Rightarrow> pystr
    \<Rightarrow> policy_denial + argument_policy" where
  "current fr loads db tool_id =
     (case policies db tool_id of
        None \<Rightarrow> Inr no_policy
      | Some row \<Rightarrow>
          (let broken = Inl \<lparr>policy_revision = row_revision row, denied_rule = None, denied_pointer = None,
                             reason = lit ''stored_policy_invalid''\<rparr> in
           if row_enabled row \<notin> {0, 1} \<or> row_revision row < 1
              \<or> int (length (row_rules_json row)) > MAX_POLICY_BYTES then broken
           else (case loads (row_rules_json row) of
                   None \<Rightarrow> broken
                 | Some v \<Rightarrow>
                     (case validate_rules fr v of
                        Inl _ \<Rightarrow> broken
                      | Inr rs \<Rightarrow> Inr \<lparr>enabled = (row_enabled row = 1), revision = row_revision row, rules = rs\<rparr>))))"

definition policy_write_ok :: "(pyfloat \<Rightarrow> pystr) \<Rightarrow> policy_write \<Rightarrow> bool" where
  "policy_write_ok fr b \<longleftrightarrow>
     0 \<le> expected_revision b \<and> expected_revision b \<le> 2147483646 \<and> length (w_rules b) \<le> 64
     \<and> list_all rule_ok (w_rules b) \<and> is_ok (validate_rules fr (PList (map dump_rule (w_rules b))))"

definition save :: "(pyfloat \<Rightarrow> pystr) \<Rightarrow> policy_db \<Rightarrow> pystr \<Rightarrow> policy_write \<Rightarrow> pystr \<Rightarrow> (policy_error + unit)
    \<Rightarrow> policy_error + policy_db \<times> argument_policy" where
  "save fr db tool_id body actor_id authorize =
     bindR authorize (\<lambda>_.
       (let cur = (case policies db tool_id of None \<Rightarrow> 0 | Some row \<Rightarrow> row_revision row) in
        if cur \<noteq> expected_revision body then Inl Revision_conflict
        else Inr (db\<lparr>policies := (policies db)(tool_id \<mapsto>
                     \<lparr>row_enabled = (if w_enabled body then 1 else 0), row_revision = cur + 1,
                      row_rules_json = json_text fr (PList (map dump_rule (w_rules body)))\<rparr>),
                   events := events db @ [\<lparr>ev_tool = tool_id, ev_actor = actor_id, ev_revision = cur + 1,
                      ev_enabled = w_enabled body, ev_rule_count = length (w_rules body)\<rparr>]\<rparr>,
                  \<lparr>enabled = w_enabled body, revision = cur + 1, rules = w_rules body\<rparr>)))"

section \<open>Argument preparation\<close>

definition argument_limits :: limits where
  "argument_limits = \<lparr>max_bytes = 1048576, max_nodes = 8192, max_depth = 32\<rparr>"

datatype dispatch_rejected = Tool_arguments_invalid

definition owned_arguments :: "(pyfloat \<Rightarrow> pystr) \<Rightarrow> pyval \<Rightarrow> dispatch_rejected + pyval" where
  "owned_arguments fr arguments =
     (if \<not> is_dict arguments then Inl Tool_arguments_invalid
      else (case copy_bounded_json fr argument_limits arguments of
              Inl _ \<Rightarrow> Inl Tool_arguments_invalid
            | Inr v \<Rightarrow> Inr v))"

section \<open>Properties\<close>

definition rule_holds :: "pyval \<Rightarrow> rule \<Rightarrow> bool" where
  "rule_holds a x = (case at_pointer a (pointer x) of None \<Rightarrow> False | Some v \<Rightarrow> rule_allows x v)"

lemma check_rules_find:
  "check_rules r rs a =
     (case find (\<lambda>x. \<not> rule_holds a x) rs of
        None \<Rightarrow> Inr ()
      | Some x \<Rightarrow> Inl \<lparr>policy_revision = r, denied_rule = Some (rule_id x), denied_pointer = Some (pointer x),
          reason = (if at_pointer a (pointer x) = None then lit ''value_missing''
                    else lit ''rule_not_satisfied'')\<rparr>)"
  by (induction rs) (auto simp: rule_holds_def Let_def split: option.splits)

lemma opt_number_none_or:
  "(case x of None \<Rightarrow> True | Some v \<Rightarrow> finite_number v) \<Longrightarrow> opt_number (Some (none_or x)) = Some x"
  by (auto simp: opt_number_def none_or_def finite_number_def split: option.splits pyval.splits)

lemma dump_parse: "rule_ok r \<Longrightarrow> parse_rule (dump_rule r) = Some r"
  by (cases r) (auto simp: parse_rule_def parse_body_def get_str_def get_list_def dict_get_def only_keys_def
      range_supported_def opt_number_none_or)

lemma dump_parse_all: "list_all rule_ok rs \<Longrightarrow> parse_rules (map dump_rule rs) = Some rs"
  by (induction rs) (simp_all add: dump_parse)

lemma parse_rule_ok: "parse_rule v = Some r \<Longrightarrow> rule_ok r"
  by (auto simp: parse_rule_def split: pyval.splits if_splits bind_splits)

lemma parse_rules_ok: "parse_rules vs = Some rs \<Longrightarrow> list_all rule_ok rs"
  by (induction vs arbitrary: rs) (auto split: option.splits dest: parse_rule_ok)

lemma validate_rules_ok:
  assumes "validate_rules fr v = Inr rs"
  shows "list_all rule_ok rs \<and> length rs \<le> 64 \<and> distinct (map rule_id rs)"
proof -
  from assms obtain xs where "v = PList xs" "parse_rules xs = Some rs" "length rs \<le> 64"
    "card (set (map rule_id rs)) = length (map rule_id rs)"
    by (auto simp: validate_rules_def split: sum.splits pyval.splits option.splits if_splits)
  then show ?thesis
    using parse_rules_ok card_distinct by blast
qed

lemma validate_dump:
  "list_all rule_ok rs \<Longrightarrow> is_ok (validate_rules fr (PList (map dump_rule rs))) \<Longrightarrow>
   validate_rules fr (PList (map dump_rule rs)) = Inr rs"
  by (auto simp: validate_rules_def dump_parse_all split: sum.splits if_splits)

text \<open>JSON-pointer escaping (RFC 6901) and the lookup the policy does are inverse.\<close>

fun escape_token :: "pystr \<Rightarrow> pystr" where
  "escape_token [] = []"
| "escape_token (c # s) =
     (if c = 126 then [126, 48] else if c = 47 then [126, 49] else [c]) @ escape_token s"

lemma replace2_slash: "replace2 126 49 47 (escape_token s) = concat (map (\<lambda>c. if c = 126 then [126, 48] else [c]) s)"
proof (induction s)
  case (Cons c s)
  show ?case
  proof (cases "c = 126")
    case True
    then show ?thesis
      using Cons.IH by (cases "escape_token s") auto
  next
    case False
    then show ?thesis
      using Cons.IH by (cases "escape_token s") auto
  qed
qed simp

lemma replace2_tilde: "replace2 126 48 126 (concat (map (\<lambda>c. if c = 126 then [126, 48] else [c]) s)) = s"
proof (induction s)
  case (Cons c s)
  then show ?case
    by (cases "concat (map (\<lambda>c. if c = 126 then [126, 48] else [c]) s)") auto
qed simp

lemma unescape_escape: "unescape (escape_token s) = s"
  by (simp add: unescape_def replace2_slash replace2_tilde)

lemma escape_token_no_slash: "47 \<notin> set (escape_token s)"
  by (induction s) auto

lemma split_on_append: "sep \<notin> set p \<Longrightarrow> split_on sep (p @ sep # s) = p # split_on sep s"
  by (induction p) auto

lemma split_on_none: "sep \<notin> set p \<Longrightarrow> split_on sep p = [p]"
  by (induction p) auto

definition pointer_of :: "pystr list \<Rightarrow> pystr" where
  "pointer_of ks = concat (map (\<lambda>k. 47 # escape_token k) ks)"

fun nested_get :: "pyval \<Rightarrow> pystr list \<Rightarrow> pyval option" where
  "nested_get v [] = Some v"
| "nested_get v (k # ks) = (case pointer_step v k of None \<Rightarrow> None | Some w \<Rightarrow> nested_get w ks)"

lemma split_pointer_of: "ks \<noteq> [] \<Longrightarrow> tl (split_on 47 (pointer_of ks)) = map escape_token ks"
proof (induction ks)
  case (Cons k ks)
  show ?case
  proof (cases "ks = []")
    case True
    then show ?thesis by (simp add: pointer_of_def split_on_none escape_token_no_slash)
  next
    case False
    then obtain t where t: "pointer_of ks = 47 # t"
      by (cases ks) (auto simp: pointer_of_def)
    have "pointer_of (k # ks) = 47 # escape_token k @ pointer_of ks"
      by (simp add: pointer_of_def)
    then show ?thesis
      using Cons.IH [OF False] by (simp add: t split_on_append escape_token_no_slash)
  qed
qed simp

lemma pointer_walk_map: "pointer_walk v (map escape_token ks) = nested_get v ks"
  by (induction ks arbitrary: v) (auto simp: unescape_escape split: option.splits)

lemma length_le_utf8: "int (length s) \<le> utf8_len s"
  by (induction s) (auto simp: utf8_width_def)

text \<open>
  A pointer written with the escapes of RFC 6901 (\<^verbatim>\<open>~0\<close> for a tilde, \<^verbatim>\<open>~1\<close> for a slash)
  reaches exactly the member or element its path of keys names, whatever characters the keys
  contain.
\<close>

lemma at_pointer_escaped_path: "at_pointer arguments (pointer_of ks) = nested_get arguments ks"
proof (cases "ks = []")
  case True
  then show ?thesis by (simp add: at_pointer_def pointer_of_def)
next
  case False
  then have "pointer_of ks \<noteq> []" by (cases ks) (auto simp: pointer_of_def)
  then show ?thesis
    using split_pointer_of [OF False] by (simp add: at_pointer_def pointer_walk_map)
qed

section \<open>What the rules mean\<close>

text \<open>
  The meaning of a rule, stated without the evaluator: the JSON value a Python value stands for (one number type, booleans apart,
  objects as maps), the value a path of keys names inside another, and the condition each kind of rule puts on it.
\<close>

datatype json = JNull | JBool bool | JNum rat | JStr pystr | JArr "json list" | JObj "pystr \<Rightarrow> json option"

function json_of :: "pyval \<Rightarrow> json" where
  "json_of v =
     (case v of
        PBool b \<Rightarrow> JBool b
      | PInt i \<Rightarrow> JNum (of_int i)
      | PFloat f \<Rightarrow> JNum (case f of Finite q \<Rightarrow> q | _ \<Rightarrow> 0)
      | PStr s \<Rightarrow> JStr s
      | PList xs \<Rightarrow> JArr (map json_of xs)
      | PDict kvs \<Rightarrow> JObj (\<lambda>k. case map_of kvs (PStr k) of None \<Rightarrow> None | Some w \<Rightarrow> Some (json_of w))
      | _ \<Rightarrow> JNull)"
  by pat_completeness auto
termination
  by (relation "measure size") (auto dest: size_elem_mem size_pair_mem dest!: map_of_SomeD)

text \<open>The Python values that are JSON: finite floats, no tuples or proxies, and dictionaries with distinct string keys.\<close>

function is_json :: "pyval \<Rightarrow> bool" where
  "is_json v =
     (case v of
        PFloat f \<Rightarrow> is_finite f
      | PList xs \<Rightarrow> list_all is_json xs
      | PDict kvs \<Rightarrow> distinct (map fst kvs) \<and> list_all (\<lambda>(k, w). is_str k \<and> is_json w) kvs
      | PTuple _ \<Rightarrow> False | PProxy _ \<Rightarrow> False | POther \<Rightarrow> False
      | _ \<Rightarrow> True)"
  by pat_completeness auto
termination
  by (relation "measure size") (auto dest: size_elem_mem size_pair_mem)

declare json_of.simps [simp del] is_json.simps [simp del]

lemma json_of_eqs [simp]:
  "json_of PNone = JNull" "json_of (PBool b) = JBool b" "json_of (PInt i) = JNum (of_int i)" "json_of (PStr s) = JStr s"
  "json_of (PList xs) = JArr (map json_of xs)" "json_of (PDict kvs) = JObj (\<lambda>k. map_option json_of (map_of kvs (PStr k)))"
  "json_of (PFloat f) = JNum (case f of Finite q \<Rightarrow> q | _ \<Rightarrow> 0)"
  by (simp_all add: json_of.simps fun_eq_iff split: option.split)

lemma is_json_eqs [simp]:
  "is_json PNone" "is_json (PBool b)" "is_json (PInt i)" "is_json (PStr s)" "is_json (PFloat f) = is_finite f"
  "is_json (PList xs) = list_all is_json xs" "\<not> is_json (PTuple xs)" "\<not> is_json (PProxy kvs)" "\<not> is_json POther"
  "is_json (PDict kvs) \<longleftrightarrow> distinct (map fst kvs) \<and> list_all (\<lambda>(k, w). is_str k \<and> is_json w) kvs"
  by (simp_all add: is_json.simps)

text \<open>The source's comparison decides equality of the JSON values.\<close>

lemma same_object:
  assumes IH: "\<And>k v w. (k, v) \<in> set l \<Longrightarrow> is_json v \<Longrightarrow> is_json w \<Longrightarrow> same_json v w \<longleftrightarrow> json_of v = json_of w"
    and l: "is_json (PDict l)" and r: "is_json (PDict r)"
  shows "same_json (PDict l) (PDict r) \<longleftrightarrow> json_of (PDict l) = json_of (PDict r)"
proof -
  have key: "\<exists>s. k = PStr s" if "(k, v) \<in> set l \<or> (k, v) \<in> set r" for k v
    using that l r by (auto simp: list_all_iff is_str_def split: pyval.splits)
  have val: "is_json v" if "(k, v) \<in> set l \<or> (k, v) \<in> set r" for k v using that l r by (auto simp: list_all_iff)
  have dl: "map_of l k = Some v \<longleftrightarrow> (k, v) \<in> set l" and dr: "map_of r k = Some v \<longleftrightarrow> (k, v) \<in> set r" for k v
    using l r by (simp_all add: map_of_eq_Some_iff)
  have eq: "same_json (PDict l) (PDict r) \<longleftrightarrow> fst ` set l = fst ` set r
      \<and> (\<forall>(k, v) \<in> set l. case map_of r k of Some w \<Rightarrow> same_json v w | None \<Rightarrow> False)"
    by (simp add: same_json.simps [of "PDict l"] list_all_iff)
  show ?thesis
  proof
    assume same: "same_json (PDict l) (PDict r)"
    have "map_option json_of (map_of l (PStr k)) = map_option json_of (map_of r (PStr k))" for k
    proof (cases "map_of l (PStr k)")
      case None
      then have "map_of r (PStr k) = None" using same eq by (simp add: map_of_eq_None_iff)
      then show ?thesis using None by simp
    next
      case (Some v)
      then have mem: "(PStr k, v) \<in> set l" by (simp add: dl)
      then obtain w where w: "map_of r (PStr k) = Some w" "same_json v w" using same eq by (auto split: option.splits)
      then have "json_of v = json_of w" using IH [OF mem] val mem dr by blast
      then show ?thesis by (simp add: Some w)
    qed
    then show "json_of (PDict l) = json_of (PDict r)" by simp
  next
    assume "json_of (PDict l) = json_of (PDict r)"
    then have same: "map_option json_of (map_of l (PStr k)) = map_option json_of (map_of r (PStr k))" for k by (simp add: fun_eq_iff)
    have "fst ` set l = fst ` set r"
    proof (rule set_eqI)
      fix x
      show "x \<in> fst ` set l \<longleftrightarrow> x \<in> fst ` set r"
      proof (cases "\<exists>s. x = PStr s")
        case True
        then obtain s where x: "x = PStr s" by blast
        show ?thesis using same [of s] unfolding x by (metis map_of_eq_None_iff option.map_disc_iff)
      next
        case False
        then have "(x, v) \<notin> set l" "(x, v) \<notin> set r" for v using key [of x v] by blast+
        then show ?thesis by (metis imageE prod.collapse)
      qed
    qed
    moreover have "case map_of r k of Some w \<Rightarrow> same_json v w | None \<Rightarrow> False" if m: "(k, v) \<in> set l" for k v
    proof -
      obtain s where k: "k = PStr s" using key m by blast
      have "map_of l (PStr s) = Some v" using m by (simp add: dl k)
      then obtain w where w: "map_of r (PStr s) = Some w" "json_of v = json_of w"
        using same [of s] by (cases "map_of r (PStr s)") simp_all
      then have "same_json v w" using IH [OF m] val m dr by blast
      then show ?thesis by (simp add: k w)
    qed
    ultimately show "same_json (PDict l) (PDict r)" using eq by blast
  qed
qed

lemma same_json_iff: "is_json a \<Longrightarrow> is_json b \<Longrightarrow> same_json a b \<longleftrightarrow> json_of a = json_of b"
proof (induction "size a" arbitrary: a b rule: less_induct)
  case less
  show ?case
  proof (cases "\<exists>l r. a = PDict l \<and> b = PDict r")
    case True
    then obtain l r where ab: "a = PDict l" "b = PDict r" by blast
    show ?thesis unfolding ab
    proof (rule same_object)
      show "same_json v w \<longleftrightarrow> json_of v = json_of w" if "(k, v) \<in> set l" "is_json v" "is_json w" for k v w
        using less.hyps [of v w] that size_pair_mem [OF that(1)] by (simp add: ab)
    qed (use less.prems ab in simp_all)
  next
    case False
    note nodict = this
    show ?thesis
    proof (cases "\<exists>l r. a = PList l \<and> b = PList r")
      case True
      then obtain l r where ab: "a = PList l" "b = PList r" by blast
      have IH: "same_json (l ! i) (r ! i) \<longleftrightarrow> json_of (l ! i) = json_of (r ! i)" if "i < length l" "length l = length r" for i
        using less.hyps [of "l ! i" "r ! i"] less.prems size_elem_mem [of "l ! i" l] that by (simp add: ab list_all_length)
      have "same_json a b \<longleftrightarrow> length l = length r \<and> (\<forall>i < length l. same_json (l ! i) (r ! i))"
        by (auto simp: ab same_json.simps [of "PList l"] list_all_length)
      also have "\<dots> \<longleftrightarrow> map json_of l = map json_of r"
        using IH by (auto simp: list_eq_iff_nth_eq)
      finally show ?thesis by (simp add: ab)
    next
      case False
      then have "same_json a b \<longleftrightarrow> (if is_number a \<and> is_number b then num_eq a b else a = b)"
        unfolding same_json.simps [of a b] using nodict by (cases a; cases b) simp_all
      then show ?thesis using less.prems nodict False
        by (cases a; cases b) (auto simp: num_eq_def num_le_def is_finite_def split: pyfloat.splits)
    qed
  qed
qed

text \<open>The value that a path of reference tokens names: a member by its key, an element by the decimal text of its index, below ten to the eighth.\<close>

inductive path_value :: "pyval \<Rightarrow> pystr list \<Rightarrow> pyval \<Rightarrow> bool" where
  path_value_here: "path_value v [] v"
| path_value_member: "map_of kvs (PStr k) = Some v \<Longrightarrow> path_value v ks w \<Longrightarrow> path_value (PDict kvs) (k # ks) w"
| path_value_element: "n < length xs \<Longrightarrow> n < 10 ^ 8 \<Longrightarrow> path_value (xs ! n) ks w \<Longrightarrow> path_value (PList xs) (nat_str n # ks) w"

inductive_simps path_value_simps [simp]: "path_value v [] w" "path_value v (k # ks) w"

lemma dec_val_snoc: "dec_val (s @ [c]) = 10 * dec_val s + (c - 48)"
  by (simp add: dec_val_def)

lemma dec_val_nat_str [simp]: "dec_val (nat_str n) = n"
proof (induction n rule: nat_str.induct)
  case (1 n)
  show ?case
  proof (cases "n < 10")
    case True
    then show ?thesis using dec_val_snoc [of "[]"] by (simp add: nat_str.simps [of n] dec_val_def)
  next
    case False
    then show ?thesis using 1 by (simp add: nat_str.simps [of n] dec_val_snoc)
  qed
qed

lemma nat_str_inject [simp]: "nat_str m = nat_str n \<longleftrightarrow> m = n"
  by (metis dec_val_nat_str)

lemma length_nat_str: "n < 10 ^ Suc k \<Longrightarrow> length (nat_str n) \<le> Suc k"
proof (induction k arbitrary: n)
  case (Suc k)
  show ?case
  proof (cases "n < 10")
    case False
    have "n div 10 < 10 ^ Suc k" using Suc.prems by (simp add: less_mult_imp_div_less)
    from Suc.IH [OF this] False show ?thesis by (simp add: nat_str.simps [of n])
  qed (simp add: nat_str.simps [of n])
next
  case 0
  then show ?case by (simp add: nat_str.simps [of n])
qed

lemma nat_str_head: "0 < n \<Longrightarrow> \<exists>c s. nat_str n = c # s \<and> c \<noteq> 48"
proof (induction n rule: nat_str.induct)
  case (1 n)
  show ?case
  proof (cases "n < 10")
    case False
    then obtain c s where "nat_str (n div 10) = c # s" "c \<noteq> 48" using 1 by fastforce
    with False show ?thesis by (simp add: nat_str.simps [of n])
  qed (use 1 in \<open>simp add: nat_str.simps [of n]\<close>)
qed

lemma starts_with_zero: "starts_with s (lit ''0'') \<longleftrightarrow> (\<exists>t. s = 48 # t)"
  by (auto simp: starts_with_iff lit_def)

lemma digits_nat_str:
  assumes "list_all digit s" "s \<noteq> []" "s = [48] \<or> \<not> (\<exists>t. s = 48 # t)"
  shows "s = nat_str (dec_val s)"
  using assms
proof (induction s rule: rev_induct)
  case (snoc c s)
  obtain x where c: "c = 48 + x" "x < 10"
    using snoc.prems(1) le_Suc_ex [of 48 c] by (auto simp: digit_def)
  show ?case
  proof (cases "s = []")
    case True
    then show ?thesis using c by (simp add: dec_val_def nat_str.simps)
  next
    case False
    then have "\<not> (\<exists>t. s = 48 # t)" using snoc.prems(3) by (cases s) auto
    with False snoc.IH snoc.prems(1) have s: "s = nat_str (dec_val s)" by simp
    then have "dec_val s \<noteq> 0" using False \<open>\<not> (\<exists>t. s = 48 # t)\<close> by (metis add.right_neutral nat_str.simps zero_less_numeral)
    then have "\<not> dec_val (s @ [c]) < 10" "dec_val (s @ [c]) div 10 = dec_val s" "48 + dec_val (s @ [c]) mod 10 = c"
      using c by (simp_all add: dec_val_snoc)
    then show ?thesis using s by (simp add: nat_str.simps [of "dec_val (s @ [c])"])
  qed
qed simp

lemma index_key_iff: "index_key s \<longleftrightarrow> (\<exists>n < 10 ^ 8. s = nat_str n)"
proof
  assume i: "index_key s"
  then have "s = [48] \<or> \<not> (\<exists>t. s = 48 # t)" unfolding index_key_def starts_with_zero by (simp add: lit_def)
  with i have "s = nat_str (dec_val s)" by (intro digits_nat_str) (simp_all add: index_key_def)
  moreover from this i have "dec_val s < 10 ^ 8"
    using nat_str_bound [of "dec_val s"] power_increasing [of "length s" 8 "10::nat"] by (auto simp: index_key_def)
  ultimately show "\<exists>n < 10 ^ 8. s = nat_str n" by blast
next
  assume "\<exists>n < 10 ^ 8. s = nat_str n"
  then obtain n where n: "n < 10 ^ Suc 7" "s = nat_str n" by auto
  have "list_all digit s" using nat_str_ascii [of _ n] by (fastforce simp: n(2) list_all_iff digit_def)
  moreover have "length s \<le> 8" using length_nat_str [OF n(1)] by (simp add: n(2))
  moreover have "(s = lit ''0'' \<or> \<not> starts_with s (lit ''0'')) \<and> s \<noteq> []"
  proof (cases "n = 0")
    case True
    then show ?thesis by (simp add: n(2) nat_str.simps [of 0] lit_def)
  next
    case False
    then obtain c t where "s = c # t" "c \<noteq> 48" using nat_str_head [of n] n(2) by blast
    then show ?thesis by (simp add: starts_with_zero)
  qed
  ultimately show "index_key s" by (simp add: index_key_def)
qed

lemma pointer_step_path_value: "pointer_step v k = Some w \<longleftrightarrow> path_value v [k] w"
  by (cases v) (auto simp: pointer_step_def dict_get_def index_key_iff)

lemma nested_get_path_value: "nested_get v ks = Some w \<longleftrightarrow> path_value v ks w"
proof (induction ks arbitrary: v)
  case (Cons k ks)
  have "path_value v (k # ks) w \<longleftrightarrow> (\<exists>u. path_value v [k] u \<and> path_value u ks w)" by auto
  then show ?case using Cons by (auto simp: pointer_step_path_value [symmetric] simp del: path_value_simps split: option.splits)
qed auto

text \<open>Every pointer the rules admit is the escaped form of a path.\<close>

lemma bad_tilde_append: "bad_tilde t \<Longrightarrow> bad_tilde (s @ t)"
proof (induction s)
  case (Cons c s)
  then show ?case by (cases "s @ t") auto
qed simp

lemma bad_tilde_slash: "bad_tilde s \<Longrightarrow> bad_tilde (s @ 47 # t)"
  by (induction s rule: bad_tilde.induct) auto

lemma unescaped_token: "\<not> bad_tilde s \<Longrightarrow> 47 \<notin> set s \<Longrightarrow> \<exists>k. s = escape_token k"
proof (induction "length s" arbitrary: s rule: less_induct)
  case less
  show ?case
  proof (cases s)
    case Nil
    then show ?thesis by (intro exI [of _ "[]"]) simp
  next
    case (Cons c t)
    show ?thesis
    proof (cases "c = 126")
      case True
      then obtain d u where t: "t = d # u" "d = 48 \<or> d = 49" using less.prems(1) Cons by (cases t) auto
      have "\<not> bad_tilde u" using less.prems(1) bad_tilde_append [of u "[c, d]"] by (auto simp: Cons t(1))
      then obtain k where "u = escape_token k" using less.hyps [of u] less.prems(2) by (auto simp: Cons t(1))
      then show ?thesis using t True Cons by (intro exI [of _ "(if d = 48 then 126 else 47) # k"]) auto
    next
      case False
      have "\<not> bad_tilde t" using less.prems(1) bad_tilde_append [of t "[c]"] by (auto simp: Cons)
      then obtain k where "t = escape_token k" using less.hyps [of t] less.prems(2) by (auto simp: Cons)
      then show ?thesis using False Cons less.prems(2) by (intro exI [of _ "c # k"]) auto
    qed
  qed
qed

lemma pointer_is_path: "p = [] \<or> starts_with p [47] \<Longrightarrow> \<not> bad_tilde p \<Longrightarrow> \<exists>ks. p = pointer_of ks"
proof (induction "length p" arbitrary: p rule: less_induct)
  case less
  show ?case
  proof (cases "p = []")
    case True
    then show ?thesis by (intro exI [of _ "[]"]) (simp add: pointer_of_def)
  next
    case False
    then obtain q where p: "p = 47 # q" using less.prems(1) by (auto simp: starts_with_iff)
    define s t where "s = takeWhile (\<lambda>c. c \<noteq> 47) q" and "t = dropWhile (\<lambda>c. c \<noteq> 47) q"
    have q: "q = s @ t" by (simp add: s_def t_def)
    have t: "t = [] \<or> (\<exists>u. t = 47 # u)" by (cases t) (auto simp: t_def dropWhile_eq_Cons_conv)
    have s: "47 \<notin> set s" by (auto simp: s_def dest: set_takeWhileD)
    have "\<not> bad_tilde s" using less.prems(2) t bad_tilde_slash [of s] bad_tilde_append [of "s @ t" "[47]"] by (auto simp: p q)
    then obtain k where k: "s = escape_token k" using unescaped_token s by blast
    have "\<not> bad_tilde t" using less.prems(2) bad_tilde_append [of t "47 # s"] by (auto simp: p q)
    then obtain ks where "t = pointer_of ks" using less.hyps [of t] t by (auto simp: p q starts_with_iff)
    then show ?thesis using p q k by (intro exI [of _ "k # ks"]) (simp add: pointer_of_def)
  qed
qed

text \<open>What a pointer refers to, and when a value meets the condition of a rule.\<close>

definition refers :: "pyval \<Rightarrow> pystr \<Rightarrow> pyval \<Rightarrow> bool" where
  "refers v p w \<longleftrightarrow> (\<exists>ks. p = pointer_of ks \<and> path_value v ks w)"

fun meets :: "rule \<Rightarrow> pyval \<Rightarrow> bool" where
  "meets (EqualsRule _ _ v) w \<longleftrightarrow> json_of w = json_of v"
| "meets (AllowedRule _ _ vs) w \<longleftrightarrow> json_of w \<in> json_of ` set vs"
| "meets (NumberRule _ _ mn mx) w \<longleftrightarrow> (\<exists>q. json_of w = JNum q
     \<and> (\<forall>m l. mn = Some m \<and> json_of m = JNum l \<longrightarrow> l \<le> q) \<and> (\<forall>m u. mx = Some m \<and> json_of m = JNum u \<longrightarrow> q \<le> u))"
| "meets (PrefixRule _ _ p) w \<longleftrightarrow> (\<exists>t. json_of w = JStr (p @ t))"

fun rule_values :: "rule \<Rightarrow> pyval list" where
  "rule_values (EqualsRule _ _ v) = [v]"
| "rule_values (AllowedRule _ _ vs) = vs"
| "rule_values _ = []"

definition obeys :: "pyval \<Rightarrow> rule \<Rightarrow> bool" where
  "obeys v r \<longleftrightarrow> (\<exists>w. refers v (pointer r) w \<and> meets r w)"

lemma at_pointer_refers: "pointer_supported p \<Longrightarrow> at_pointer v p = Some w \<longleftrightarrow> refers v p w"
proof -
  assume "pointer_supported p"
  then obtain ks where "p = pointer_of ks" using pointer_is_path [of p] by (auto simp: pointer_supported_def)
  moreover have "at_pointer v p = Some w \<longleftrightarrow> path_value v ks w" if "p = pointer_of ks" for ks
    by (simp only: that at_pointer_escaped_path nested_get_path_value)
  ultimately show ?thesis unfolding refers_def by blast
qed

lemma path_value_is_json: "path_value v ks w \<Longrightarrow> is_json v \<Longrightarrow> is_json w"
  by (induction rule: path_value.induct) (auto simp: list_all_iff list_all_length dest: map_of_SomeD)

lemma number_json: "is_json w \<Longrightarrow> is_number w \<longleftrightarrow> (\<exists>q. json_of w = JNum q)"
  by (cases w) auto

lemma num_le_json: "finite_number a \<Longrightarrow> finite_number b \<Longrightarrow> num_le a b \<longleftrightarrow> (\<forall>x y. json_of a = JNum x \<and> json_of b = JNum y \<longrightarrow> x \<le> y)"
  by (cases a; cases b) (auto simp: finite_number_def num_le_def is_finite_def split: pyfloat.splits)

lemma rule_allows_meets:
  assumes w: "is_json w" and r: "rule_ok r" and vs: "list_all is_json (rule_values r)"
  shows "rule_allows r w \<longleftrightarrow> meets r w"
proof (cases r)
  case (EqualsRule i p v)
  then show ?thesis using w vs by (simp add: rule_allows_def same_json_iff)
next
  case (AllowedRule i p cs)
  then show ?thesis using w vs by (auto simp: rule_allows_def same_json_iff list_ex_iff list_all_iff)
next
  case (NumberRule i p mn mx)
  have fin: "is_number w \<Longrightarrow> finite_number w" using w by (cases w) (auto simp: finite_number_def)
  have b: "mn = Some m \<or> mx = Some m \<Longrightarrow> finite_number m" for m using r by (auto simp: NumberRule range_supported_def)
  show ?thesis using number_json [OF w] fin b
    by (cases mn; cases mx) (auto simp: NumberRule rule_allows_def num_le_json)
next
  case (PrefixRule i p pre)
  then show ?thesis using w by (cases w) (auto simp: rule_allows_def starts_with_iff)
qed

lemma rule_holds_obeys:
  assumes "is_json v" "rule_ok r" "list_all is_json (rule_values r)"
  shows "rule_holds v r \<longleftrightarrow> obeys v r" "at_pointer v (pointer r) = None \<longleftrightarrow> \<not> (\<exists>w. refers v (pointer r) w)"
proof -
  have p: "pointer_supported (pointer r)" using assms(2) by (cases r) auto
  have "rule_allows r w \<longleftrightarrow> meets r w" if "refers v (pointer r) w" for w
    using that rule_allows_meets [OF path_value_is_json assms(2,3)] assms(1) by (auto simp: refers_def)
  then have "rule_allows r w \<longleftrightarrow> meets r w" if "at_pointer v (pointer r) = Some w" for w
    using that at_pointer_refers [OF p, of v] by blast
  then show "rule_holds v r \<longleftrightarrow> obeys v r"
    unfolding rule_holds_def obeys_def at_pointer_refers [OF p, symmetric] by (cases "at_pointer v (pointer r)") auto
  show "at_pointer v (pointer r) = None \<longleftrightarrow> \<not> (\<exists>w. refers v (pointer r) w)"
    using at_pointer_refers [OF p, of v] by (metis not_Some_eq)
qed

lemma find_split: "find P xs = Some x \<longleftrightarrow> (\<exists>as bs. xs = as @ x # bs \<and> (\<forall>a \<in> set as. \<not> P a) \<and> P x)"
proof (induction xs)
  case (Cons y xs)
  show ?case
  proof (cases "P y")
    case True
    then show ?thesis by (auto simp: Cons_eq_append_conv)
  next
    case False
    have "(\<exists>as bs. y # xs = as @ x # bs \<and> (\<forall>a \<in> set as. \<not> P a) \<and> P x) \<longleftrightarrow> (\<exists>as bs. xs = as @ x # bs \<and> (\<forall>a \<in> set as. \<not> P a) \<and> P x)"
      (is "?l \<longleftrightarrow> ?r")
    proof
      assume ?l
      then obtain as bs where l: "y # xs = as @ x # bs" "\<forall>a \<in> set as. \<not> P a" "P x" by blast
      then obtain as' where "as = y # as'" using False by (cases as) auto
      with l show ?r by auto
    next
      assume ?r
      then obtain as bs where "xs = as @ x # bs" "\<forall>a \<in> set as. \<not> P a" "P x" by blast
      with False show ?l by (intro exI [of _ "y # as"] exI [of _ bs]) simp
    qed
    with False Cons show ?thesis by simp
  qed
qed simp

text \<open>
  C20: the check at dispatch means what the rules say.  For rules that passed validation and JSON arguments, a disabled policy admits every
  call; an enabled one admits the arguments exactly when each rule's pointer, read as an RFC 6901 path (\<^verbatim>\<open>~0\<close> for a tilde, \<^verbatim>\<open>~1\<close> for a slash,
  decimal indices without leading zeros), refers to a value in them that meets the rule: the same JSON value (integers and floats compared as
  numbers, a boolean never equal to a number, objects by their members in any order), one of the allowed values, a number within the
  bounds, or a string with the prefix.  Otherwise the call is denied, and the denial names the policy revision and the id and pointer of the \<^emph>\<open>first\<close>
  rule in stored order that is not met, telling a missing value from a rejected one.
\<close>
theorem check_policy_meaning:
  assumes args: "is_json arguments" and rules: "list_all rule_ok (rules policy)"
    and vals: "list_all (\<lambda>r. list_all is_json (rule_values r)) (rules policy)"
  shows "(check_policy policy arguments = Inr () \<longleftrightarrow> (enabled policy \<longrightarrow> (\<forall>r \<in> set (rules policy). obeys arguments r)))
    \<and> (\<forall>den. check_policy policy arguments = Inl den \<longleftrightarrow> enabled policy \<and> (\<exists>before r after.
          rules policy = before @ r # after \<and> (\<forall>b \<in> set before. obeys arguments b) \<and> \<not> obeys arguments r
          \<and> den = \<lparr>policy_revision = revision policy, denied_rule = Some (rule_id r), denied_pointer = Some (pointer r),
               reason = (if \<exists>w. refers arguments (pointer r) w then lit ''rule_not_satisfied'' else lit ''value_missing'')\<rparr>))"
proof -
  have o: "rule_holds arguments r \<longleftrightarrow> obeys arguments r" "at_pointer arguments (pointer r) = None \<longleftrightarrow> \<not> (\<exists>w. refers arguments (pointer r) w)"
    if "r \<in> set (rules policy)" for r
    using rule_holds_obeys [OF args] that rules vals by (simp_all add: list_all_iff)
  have f: "find (\<lambda>x. \<not> rule_holds arguments x) (rules policy) = find (\<lambda>x. \<not> obeys arguments x) (rules policy)"
    by (rule find_cong) (simp_all add: o(1))
  have mem: "find (\<lambda>x. \<not> obeys arguments x) (rules policy) = Some r \<Longrightarrow> r \<in> set (rules policy)" for r
    by (auto simp: find_split)
  have all: "find (\<lambda>x. \<not> obeys arguments x) (rules policy) = None \<longleftrightarrow> (\<forall>r \<in> set (rules policy). obeys arguments r)"
    by (auto simp: find_None_iff)
  show ?thesis
  proof (cases "find (\<lambda>x. \<not> obeys arguments x) (rules policy)")
    case None
    then show ?thesis using all by (auto simp: check_policy_def check_rules_find f)
  next
    case (Some r)
    have "\<not> (\<forall>r \<in> set (rules policy). obeys arguments r)" using all Some by simp
    moreover have "(\<exists>before q after. rules policy = before @ q # after \<and> (\<forall>b \<in> set before. obeys arguments b) \<and> \<not> obeys arguments q \<and> P q) \<longleftrightarrow> P r" for P
      using find_split [of "\<lambda>x. \<not> obeys arguments x" "rules policy"] Some by (metis option.inject)
    ultimately show ?thesis using o(2) [OF mem [OF Some]] by (auto simp: check_policy_def check_rules_find f Some)
  qed
qed

text \<open>
  A saved policy is the policy the next dispatch reads.  After a successful save of a
  valid body, \<^verbatim>\<open>current\<close> returns the very rules, switch and revision of the save, the
  revision is the expected one plus one, every other tool keeps its policy, and a second save
  that still expects the old revision is refused with a conflict.  The hypothesis on \<open>loads\<close>
  is that \<^verbatim>\<open>json.loads\<close> reads back the text \<^verbatim>\<open>json.dumps\<close> wrote.
\<close>

lemma save_then_current:
  assumes ok: "policy_write_ok fr body" and ascii: "ascii_repr fr"
    and saved: "save fr db tool body actor (Inr ()) = Inr (db', p)"
    and loads: "loads (json_text fr (PList (map dump_rule (w_rules body)))) = Some (PList (map dump_rule (w_rules body)))"
  shows "current fr loads db' tool = Inr p
     \<and> p = \<lparr>enabled = w_enabled body, revision = expected_revision body + 1, rules = w_rules body\<rparr>
     \<and> (\<forall>t. t \<noteq> tool \<longrightarrow> current fr loads db' t = current fr loads db t)
     \<and> save fr db' tool body actor' (Inr ()) = Inl Revision_conflict"
proof -
  let ?v = "PList (map dump_rule (w_rules body))"
  have valid: "validate_rules fr ?v = Inr (w_rules body)"
    using ok by (simp add: policy_write_ok_def validate_dump)
  then have "is_ok (checked_json_size fr policy_limits ?v)"
    by (auto simp: validate_rules_def is_ok_def split: sum.splits)
  then have "json_ok False ?v" "text_size fr ?v \<le> MAX_POLICY_BYTES"
    by (auto simp: is_ok_iff checked_json_size_iff policy_limits_def)
  then have len: "int (length (json_text fr ?v)) \<le> MAX_POLICY_BYTES"
    using length_le_utf8 [of "json_text fr ?v"] text_size_json_text [OF ascii, of False ?v] by linarith
  from saved have db': "policies db' = (policies db)(tool \<mapsto>
      \<lparr>row_enabled = (if w_enabled body then 1 else 0), row_revision = expected_revision body + 1,
       row_rules_json = json_text fr ?v\<rparr>)"
    and p: "p = \<lparr>enabled = w_enabled body, revision = expected_revision body + 1, rules = w_rules body\<rparr>"
    by (auto simp: save_def Let_def split: if_splits)
  have "current fr loads db' tool = Inr p"
    using ok len loads valid by (simp add: current_def db' p policy_write_ok_def)
  moreover have "\<forall>t. t \<noteq> tool \<longrightarrow> current fr loads db' t = current fr loads db t"
    by (simp add: current_def db')
  ultimately show ?thesis
    by (simp add: p save_def db')
qed

definition demo_repr :: "pyfloat \<Rightarrow> pystr" where
  "demo_repr f = lit ''0.5''"

definition demo_write :: policy_write where
  "demo_write = \<lparr>expected_revision = 0, w_enabled = True,
     w_rules = [EqualsRule (lit ''region'') (lit ''/target/region'') (PStr (lit ''eu'')),
                NumberRule (lit ''size'') (lit ''/count'') (Some (PInt 1)) (Some (PInt 10))]\<rparr>"

definition demo_text :: pyval where
  "demo_text = PList (map dump_rule (w_rules demo_write))"

definition demo_loads :: "pystr \<Rightarrow> pyval option" where
  "demo_loads s = (if s = json_text demo_repr demo_text then Some demo_text else None)"

definition empty_policies :: policy_db where
  "empty_policies = \<lparr>policies = Map.empty, events = []\<rparr>"

lemma demo_repr_ascii: "ascii_repr demo_repr"
  by (simp add: ascii_repr_def demo_repr_def lit_def)

lemma demo_rules_ok: "list_all rule_ok (w_rules demo_write)"
  by (simp add: demo_write_def rule_id_ok_def pointer_supported_def range_supported_def finite_number_def
      num_le_def alnum_def starts_with_def lit_def)

lemma demo_checked: "is_ok (checked_json_size demo_repr policy_limits (PList (map dump_rule (w_rules demo_write))))"
  by (simp add: is_ok_iff checked_json_size_iff demo_write_def policy_limits_def MAX_POLICY_BYTES_def none_or_def
      lit_def json_eval)

lemma demo_write_ok: "policy_write_ok demo_repr demo_write"
proof -
  have "validate_rules demo_repr (PList (map dump_rule (w_rules demo_write))) = Inr (w_rules demo_write)"
    using demo_checked
    by (auto simp: validate_rules_def is_ok_iff dump_parse_all [OF demo_rules_ok]) (simp_all add: demo_write_def)
  then show ?thesis
    using demo_rules_ok by (simp add: policy_write_ok_def) (simp add: demo_write_def)
qed

lemma save_then_current_witness:
  "\<exists>db' p. save demo_repr empty_policies (lit ''mcp.x'') demo_write (lit ''a'') (Inr ()) = Inr (db', p)
     \<and> current demo_repr demo_loads db' (lit ''mcp.x'') = Inr p \<and> enabled p"
proof -
  obtain db' p where s: "save demo_repr empty_policies (lit ''mcp.x'') demo_write (lit ''a'') (Inr ()) = Inr (db', p)"
    by (simp add: save_def empty_policies_def demo_write_def)
  have "demo_loads (json_text demo_repr (PList (map dump_rule (w_rules demo_write)))) =
      Some (PList (map dump_rule (w_rules demo_write)))"
    by (simp add: demo_loads_def demo_text_def)
  from save_then_current [where loads = demo_loads, OF demo_write_ok demo_repr_ascii s this, of "lit ''b''"] s show ?thesis
    by (simp add: demo_write_def)
qed

theorem check_policy_meaning_witness:
  "check_policy \<lparr>enabled = True, revision = 3, rules = [EqualsRule (lit ''r'') (lit ''/a~1b/1'') (PFloat (Finite 2))]\<rparr>
     (PDict [(PStr (lit ''a/b''), PList [PNone, PInt 2])]) = Inr ()"
proof -
  let ?r = "EqualsRule (lit ''r'') (lit ''/a~1b/1'') (PFloat (Finite 2))" and ?a = "PDict [(PStr (lit ''a/b''), PList [PNone, PInt 2])]"
  let ?p = "\<lparr>enabled = True, revision = 3, rules = [?r]\<rparr>"
  have ok: "is_json ?a" "list_all rule_ok (rules ?p)" "list_all (\<lambda>r. list_all is_json (rule_values r)) (rules ?p)"
    by (simp_all add: is_str_def rule_id_ok_def pointer_supported_def starts_with_def alnum_def is_finite_def lit_def)
  have "pointer ?r = pointer_of [lit ''a/b'', nat_str 1]" by (simp add: pointer_of_def lit_def nat_str.simps)
  moreover have "path_value ?a [lit ''a/b'', nat_str 1] (PInt 2)" by auto
  ultimately have "refers ?a (pointer ?r) (PInt 2)" unfolding refers_def by blast
  then have "obeys ?a ?r" unfolding obeys_def by (intro exI [of _ "PInt 2"]) simp
  with check_policy_meaning [OF ok] show ?thesis by simp
qed

end
