(* ===== verification/Dispatch_Lock.thy ===== *)
theory Dispatch_Lock
  imports Gate_Prelude "HOL-Library.AList"
begin

text \<open>
  \<^verbatim>\<open>domain/dispatch_lock.py\<close> and \<^verbatim>\<open>domain/operation_deadline.py\<close>: the reentrant lock with shared
  dispatch leases and exclusive mutations, as a transition system over threads, and the
  deadline-bounded acquisition built on it.  A region under \<^verbatim>\<open>with self._condition\<close> is one
  atomic step up to the point where it waits; the step of a waiting thread is the region from
  its wake-up to the next wait or return.
\<close>

section \<open>Lock state\<close>

type_synonym tid = nat

datatype phase = Running | Parked_write "rat option" | Parked_read

record lock_sys =
  writer :: "tid option"
  depth :: int
  readers :: "(tid \<times> int) list"
  waiting_writers :: int
  phase_of :: "tid \<Rightarrow> phase"       \<comment> \<open>where each thread is: in \<^verbatim>\<open>condition.wait\<close> or not\<close>
  signalled :: "tid \<Rightarrow> bool"       \<comment> \<open>waiting threads a \<^verbatim>\<open>notify_all\<close> has reached\<close>

datatype lock_error = Bad_arguments | Bad_timeout | Upgrade_refused | Not_owned

datatype lock_result = Granted | Refused | Parked

definition new_lock :: lock_sys where
  "new_lock = \<lparr>writer = None, depth = 0, readers = [], waiting_writers = 0,
     phase_of = (\<lambda>_. Running), signalled = (\<lambda>_. False)\<rparr>"

definition notify_all :: "lock_sys \<Rightarrow> lock_sys" where
  "notify_all s = s\<lparr>signalled := (\<lambda>u. phase_of s u \<noteq> Running)\<rparr>"

definition park :: "tid \<Rightarrow> phase \<Rightarrow> lock_sys \<Rightarrow> lock_sys" where
  "park t p s = s\<lparr>phase_of := (phase_of s)(t := p), signalled := (signalled s)(t := False)\<rparr>"

text \<open>The loop of \<^verbatim>\<open>acquire\<close> with its \<^verbatim>\<open>finally\<close> block.\<close>

definition finish_write :: "tid \<Rightarrow> lock_sys \<Rightarrow> lock_sys" where
  "finish_write t s =
     notify_all (s\<lparr>waiting_writers := waiting_writers s - 1, phase_of := (phase_of s)(t := Running)\<rparr>)"

definition write_loop :: "tid \<Rightarrow> bool \<Rightarrow> rat option \<Rightarrow> rat \<Rightarrow> lock_sys \<Rightarrow> lock_sys \<times> lock_result" where
  "write_loop t blocking deadline now s =
     (if writer s \<noteq> None \<or> readers s \<noteq> [] then
        (if \<not> blocking \<or> (case deadline of None \<Rightarrow> False | Some d \<Rightarrow> d - now \<le> 0)
         then (finish_write t s, Refused)
         else (park t (Parked_write deadline) s, Parked))
      else (finish_write t (s\<lparr>writer := Some t, depth := 1\<rparr>), Granted))"

definition acquire :: "tid \<Rightarrow> bool \<Rightarrow> rat \<Rightarrow> rat \<Rightarrow> rat \<Rightarrow> lock_sys \<Rightarrow> lock_error + lock_sys \<times> lock_result" where
  "acquire t blocking timeout now now' s =
     (if \<not> blocking \<and> timeout \<noteq> - 1 then Inl Bad_arguments
      else if timeout < 0 \<and> timeout \<noteq> - 1 then Inl Bad_timeout
      else
        (let deadline = (if timeout \<ge> 0 then Some (now + timeout) else None) in
         if writer s = Some t then Inr (s\<lparr>depth := depth s + 1\<rparr>, Granted)
         else if map_of (readers s) t \<noteq> None then Inl Upgrade_refused
         else Inr (write_loop t blocking deadline now' (s\<lparr>waiting_writers := waiting_writers s + 1\<rparr>))))"

definition release :: "tid \<Rightarrow> lock_sys \<Rightarrow> lock_error + lock_sys" where
  "release t s =
     (if writer s \<noteq> Some t then Inl Not_owned
      else (let s1 = s\<lparr>depth := depth s - 1\<rparr> in
            Inr (if depth s1 = 0 then notify_all (s1\<lparr>writer := None\<rparr>) else s1)))"

definition is_owned :: "tid \<Rightarrow> lock_sys \<Rightarrow> bool" where
  "is_owned t s \<longleftrightarrow> writer s = Some t \<or> map_of (readers s) t \<noteq> None"

text \<open>Entry to \<^verbatim>\<open>read_lock\<close> and its loop, then its exit.\<close>

definition must_wait_read :: "tid \<Rightarrow> lock_sys \<Rightarrow> bool" where
  "must_wait_read t s \<longleftrightarrow>
     writer s \<noteq> None \<and> writer s \<noteq> Some t
     \<or> waiting_writers s \<noteq> 0 \<and> map_of (readers s) t = None \<and> writer s \<noteq> Some t"

definition read_count :: "tid \<Rightarrow> lock_sys \<Rightarrow> int" where
  "read_count t s = (case map_of (readers s) t of None \<Rightarrow> 0 | Some n \<Rightarrow> n)"

definition read_enter :: "tid \<Rightarrow> lock_sys \<Rightarrow> lock_sys \<times> lock_result" where
  "read_enter t s =
     (if must_wait_read t s then (park t Parked_read s, Parked)
      else (s\<lparr>readers := AList.update t (read_count t s + 1) (readers s),
              phase_of := (phase_of s)(t := Running)\<rparr>, Granted))"

definition read_exit :: "tid \<Rightarrow> lock_sys \<Rightarrow> lock_sys option" where
  "read_exit t s =
     (case map_of (readers s) t of
        None \<Rightarrow> None
      | Some n \<Rightarrow>
          Some (notify_all (s\<lparr>readers := (if n - 1 \<noteq> 0 then AList.update t (n - 1) (readers s)
                                         else AList.delete t (readers s))\<rparr>)))"

definition wake :: "tid \<Rightarrow> rat \<Rightarrow> lock_sys \<Rightarrow> lock_sys \<times> lock_result" where
  "wake t now s =
     (case phase_of s t of
        Running \<Rightarrow> (s, Parked)
      | Parked_write d \<Rightarrow> write_loop t True d now s
      | Parked_read \<Rightarrow> read_enter t s)"

section \<open>The transition system\<close>

datatype lock_event = Acquire bool rat rat rat | Release | Read_enter | Read_exit | Wake rat

text \<open>
  A thread that is not waiting may call any operation; a call that raises changes nothing.
  A waiting thread resumes when it was notified or, with a timeout, when its deadline passed.
  \<^verbatim>\<open>read_lock\<close> is a context manager, so its exit runs only in a thread that entered it.
\<close>

inductive lock_step :: "lock_sys \<Rightarrow> tid \<times> lock_event \<Rightarrow> lock_sys \<Rightarrow> bool" where
  step_acquire: "phase_of s t = Running \<Longrightarrow> acquire t b timeout now now' s = Inr (s', r) \<Longrightarrow>
    lock_step s (t, Acquire b timeout now now') s'"
| step_acquire_error: "phase_of s t = Running \<Longrightarrow> acquire t b timeout now now' s = Inl e \<Longrightarrow>
    lock_step s (t, Acquire b timeout now now') s"
| step_release: "phase_of s t = Running \<Longrightarrow> release t s = Inr s' \<Longrightarrow> lock_step s (t, Release) s'"
| step_release_error: "phase_of s t = Running \<Longrightarrow> release t s = Inl e \<Longrightarrow> lock_step s (t, Release) s"
| step_read_enter: "phase_of s t = Running \<Longrightarrow> read_enter t s = (s', r) \<Longrightarrow> lock_step s (t, Read_enter) s'"
| step_read_exit: "phase_of s t = Running \<Longrightarrow> read_exit t s = Some s' \<Longrightarrow> lock_step s (t, Read_exit) s'"
| step_wake: "phase_of s t \<noteq> Running \<Longrightarrow>
    signalled s t \<or> (\<exists>d. phase_of s t = Parked_write (Some d) \<and> d \<le> now) \<Longrightarrow>
    wake t now s = (s', r) \<Longrightarrow> lock_step s (t, Wake now) s'"

inductive_cases lock_step_cases: "lock_step s l s'"

section \<open>Invariant\<close>

definition is_parked_write :: "phase \<Rightarrow> bool" where
  "is_parked_write p = (case p of Parked_write _ \<Rightarrow> True | _ \<Rightarrow> False)"

lemma is_parked_write_simps [simp]:
  "is_parked_write (Parked_write d)" "\<not> is_parked_write Running" "\<not> is_parked_write Parked_read"
  by (simp_all add: is_parked_write_def)

definition would_wait :: "tid \<Rightarrow> lock_sys \<Rightarrow> bool" where
  "would_wait t s =
     (case phase_of s t of
        Running \<Rightarrow> True
      | Parked_write _ \<Rightarrow> writer s \<noteq> None \<or> readers s \<noteq> []
      | Parked_read \<Rightarrow> must_wait_read t s)"

definition parked_writers :: "lock_sys \<Rightarrow> tid set" where
  "parked_writers s = {t. is_parked_write (phase_of s t)}"

definition lock_inv :: "lock_sys \<Rightarrow> bool" where
  "lock_inv s \<longleftrightarrow>
     (if writer s = None then depth s = 0 else 0 < depth s)
     \<and> (\<forall>t w. writer s = Some w \<longrightarrow> map_of (readers s) t \<noteq> None \<longrightarrow> t = w)
     \<and> (\<forall>t n. map_of (readers s) t = Some n \<longrightarrow> 0 < n)
     \<and> (\<forall>t. phase_of s t \<noteq> Running \<longrightarrow> \<not> is_owned t s)
     \<and> finite (parked_writers s) \<and> waiting_writers s = int (card (parked_writers s))
     \<and> (\<forall>t. \<not> signalled s t \<longrightarrow> would_wait t s)"

lemma parked_writers_simps [simp]:
  "parked_writers (finish_write t s) = parked_writers s - {t}"
  "parked_writers (park t (Parked_write d) s) = insert t (parked_writers s)"
  "parked_writers (park t Parked_read s) = parked_writers s - {t}"
  "parked_writers (notify_all s) = parked_writers s"
  "parked_writers (s\<lparr>writer := w\<rparr>) = parked_writers s"
  "parked_writers (s\<lparr>signalled := f\<rparr>) = parked_writers s"
  "parked_writers (s\<lparr>depth := i\<rparr>) = parked_writers s"
  "parked_writers (s\<lparr>readers := rs\<rparr>) = parked_writers s"
  "parked_writers (s\<lparr>waiting_writers := i\<rparr>) = parked_writers s"
  "parked_writers (s\<lparr>phase_of := (phase_of s)(t := Running)\<rparr>) = parked_writers s - {t}"
  by (auto simp: parked_writers_def finish_write_def notify_all_def park_def)

text \<open>The state inside \<^verbatim>\<open>acquire\<close>, between counting the waiting writer and its next wait or return.\<close>

definition entering :: "tid \<Rightarrow> lock_sys \<Rightarrow> bool" where
  "entering t s \<longleftrightarrow>
     (if writer s = None then depth s = 0 else 0 < depth s)
     \<and> (\<forall>u w. writer s = Some w \<longrightarrow> map_of (readers s) u \<noteq> None \<longrightarrow> u = w)
     \<and> (\<forall>u n. map_of (readers s) u = Some n \<longrightarrow> 0 < n)
     \<and> \<not> is_owned t s \<and> (\<forall>u. u \<noteq> t \<longrightarrow> phase_of s u \<noteq> Running \<longrightarrow> \<not> is_owned u s)
     \<and> finite (parked_writers s) \<and> waiting_writers s = int (card (parked_writers s - {t})) + 1
     \<and> (\<forall>u. u \<noteq> t \<longrightarrow> \<not> signalled s u \<longrightarrow> would_wait u s)"

lemma lock_inv_entering:
  assumes "lock_inv s" "phase_of s t = Running" "\<not> is_owned t s"
  shows "entering t (s\<lparr>waiting_writers := waiting_writers s + 1\<rparr>)"
proof -
  have "t \<notin> parked_writers s" using assms(2) by (simp add: parked_writers_def)
  then have "card (parked_writers s - {t}) = card (parked_writers s)" by simp
  moreover have "would_wait u (s\<lparr>waiting_writers := waiting_writers s + 1\<rparr>)" if "would_wait u s" for u
    using that assms(1) by (auto simp: would_wait_def must_wait_read_def lock_inv_def split: phase.splits)
  ultimately show ?thesis
    using assms by (auto simp: entering_def lock_inv_def is_owned_def parked_writers_def)
qed

lemma lock_inv_waking:
  assumes "lock_inv s" "phase_of s t = Parked_write d"
  shows "entering t s"
proof -
  have "t \<in> parked_writers s" "finite (parked_writers s)"
    using assms by (auto simp: parked_writers_def lock_inv_def)
  then have "int (card (parked_writers s - {t})) + 1 = int (card (parked_writers s))"
    using card_Suc_Diff1 [of "parked_writers s" t] by linarith
  then show ?thesis
    using assms unfolding entering_def lock_inv_def by simp
qed

lemma finish_write_frame [simp]:
  "writer (finish_write t s) = writer s" "depth (finish_write t s) = depth s"
  "readers (finish_write t s) = readers s" "waiting_writers (finish_write t s) = waiting_writers s - 1"
  "phase_of (finish_write t s) = (phase_of s)(t := Running)"
  "signalled (finish_write t s) u \<longleftrightarrow> u \<noteq> t \<and> phase_of s u \<noteq> Running"
  by (auto simp: finish_write_def notify_all_def)

lemma finish_write_inv: "entering t s \<Longrightarrow> lock_inv (finish_write t s)"
  by (auto simp: entering_def lock_inv_def is_owned_def would_wait_def split: phase.splits)

lemma grant_write_inv:
  "entering t s \<Longrightarrow> writer s = None \<Longrightarrow> readers s = [] \<Longrightarrow>
   lock_inv (finish_write t (s\<lparr>writer := Some t, depth := 1\<rparr>))"
  by (auto simp: entering_def lock_inv_def is_owned_def would_wait_def split: phase.splits)

lemma park_frame [simp]:
  "writer (park t p s) = writer s" "depth (park t p s) = depth s" "readers (park t p s) = readers s"
  "waiting_writers (park t p s) = waiting_writers s" "phase_of (park t p s) = (phase_of s)(t := p)"
  "signalled (park t p s) = (signalled s)(t := False)"
  by (simp_all add: park_def)

lemma park_write_inv:
  assumes e: "entering t s" and busy: "writer s \<noteq> None \<or> readers s \<noteq> []"
  shows "lock_inv (park t (Parked_write d) s)"
proof -
  have "would_wait u (park t (Parked_write d) s)" if "u \<noteq> t \<Longrightarrow> would_wait u s" for u
    using that busy by (cases "u = t") (auto simp: would_wait_def must_wait_read_def split: phase.splits)
  moreover have "int (card (insert t (parked_writers s))) = waiting_writers s"
    using e by (simp add: entering_def card.insert_remove)
  ultimately show ?thesis
    using e by (auto simp: entering_def lock_inv_def is_owned_def)
qed

lemma write_loop_inv: "entering t s \<Longrightarrow> lock_inv (fst (write_loop t b d now s))"
  by (simp add: write_loop_def finish_write_inv grant_write_inv park_write_inv)

lemma acquire_inv:
  "lock_inv s \<Longrightarrow> phase_of s t = Running \<Longrightarrow> acquire t b timeout now now' s = Inr (s', r) \<Longrightarrow> lock_inv s'"
proof (cases "writer s = Some t")
  case True
  moreover assume "lock_inv s" "acquire t b timeout now now' s = Inr (s', r)"
  ultimately show ?thesis
    by (auto simp: acquire_def lock_inv_def is_owned_def would_wait_def must_wait_read_def
        split: if_splits phase.splits)
next
  case False
  assume a: "lock_inv s" "phase_of s t = Running" "acquire t b timeout now now' s = Inr (s', r)"
  with False have "\<not> is_owned t s" "\<exists>d. s' = fst (write_loop t b d now' (s\<lparr>waiting_writers := waiting_writers s + 1\<rparr>))"
    by (auto simp: acquire_def is_owned_def Let_def split: if_splits) (metis fst_conv)+
  with a show ?thesis using lock_inv_entering write_loop_inv by blast
qed

lemma notify_all_frame [simp]:
  "writer (notify_all s) = writer s" "depth (notify_all s) = depth s" "readers (notify_all s) = readers s"
  "waiting_writers (notify_all s) = waiting_writers s" "phase_of (notify_all s) = phase_of s"
  "signalled (notify_all s) u \<longleftrightarrow> phase_of s u \<noteq> Running"
  by (simp_all add: notify_all_def)

lemma running_would_wait [simp]: "phase_of s t = Running \<Longrightarrow> would_wait t s"
  by (simp add: would_wait_def)

lemma release_inv: "lock_inv s \<Longrightarrow> release t s = Inr s' \<Longrightarrow> lock_inv s'"
  by (auto simp: release_def Let_def lock_inv_def is_owned_def would_wait_def must_wait_read_def
      split: if_splits phase.splits)

lemma read_exit_inv:
  assumes i: "lock_inv s" and x: "read_exit t s = Some s'"
  shows "lock_inv s'"
proof -
  obtain n rs where n: "map_of (readers s) t = Some n" "s' = notify_all (s\<lparr>readers := rs\<rparr>)"
    and rs: "map_of rs = (if n - 1 \<noteq> 0 then (map_of (readers s))(t \<mapsto> n - 1) else (map_of (readers s))(t := None))"
    using x by (auto simp: read_exit_def update_conv' delete_conv' split: option.splits if_splits)
  have "0 < n" "phase_of s t = Running" using n i by (auto simp: lock_inv_def is_owned_def)
  moreover have "map_of rs u \<noteq> None \<Longrightarrow> map_of (readers s) u \<noteq> None" for u
    using n(1) by (auto simp: rs split: if_splits)
  ultimately show ?thesis
    using i unfolding lock_inv_def n(2) is_owned_def by (auto simp: rs split: if_splits)
qed

lemma read_enter_inv:
  assumes i: "lock_inv s" and p: "\<not> is_parked_write (phase_of s t)"
  shows "lock_inv (fst (read_enter t s))"
proof (cases "must_wait_read t s")
  case True
  have "would_wait u (park t Parked_read s)" if "u = t \<or> would_wait u s" for u
    using that True by (cases "u = t") (auto simp: would_wait_def must_wait_read_def split: phase.splits)
  moreover have "parked_writers s - {t} = parked_writers s" using p by (auto simp: parked_writers_def)
  moreover have "\<not> is_owned t s"
    using True i by (cases "writer s"; cases "map_of (readers s) t") (auto simp: must_wait_read_def is_owned_def lock_inv_def)
  ultimately have "lock_inv (park t Parked_read s)"
    using i by (auto simp: lock_inv_def is_owned_def)
  with True show ?thesis by (simp add: read_enter_def)
next
  case False
  let ?s = "s\<lparr>readers := AList.update t (read_count t s + 1) (readers s), phase_of := (phase_of s)(t := Running)\<rparr>"
  have "would_wait u ?s" if "would_wait u s" for u
    using that by (cases "u = t")
      (auto simp: would_wait_def must_wait_read_def update_conv' split: phase.splits)
  moreover have "parked_writers ?s = parked_writers s" using p by (auto simp: parked_writers_def)
  moreover have "0 < read_count t s + 1"
    using i by (force simp: read_count_def lock_inv_def split: option.splits)
  ultimately have "lock_inv ?s"
    using i False by (auto simp: lock_inv_def is_owned_def must_wait_read_def update_conv')
  with False show ?thesis by (simp add: read_enter_def)
qed

lemma wake_inv: "lock_inv s \<Longrightarrow> lock_inv (fst (wake t now s))"
  by (cases "phase_of s t") (auto simp: wake_def read_enter_inv write_loop_inv lock_inv_waking)

lemma lock_step_inv: "lock_step s l s' \<Longrightarrow> lock_inv s \<Longrightarrow> lock_inv s'"
proof (induction rule: lock_step.induct)
  case (step_read_enter s t s' r)
  then show ?case using read_enter_inv [of s t] by simp
next
  case (step_wake s t now s' r)
  then show ?case using wake_inv [of s t now] by simp
qed (auto intro: acquire_inv release_inv read_exit_inv)

interpretation lock_machine: machine "\<lambda>s. s = new_lock" lock_step lock_inv
proof unfold_locales
  show "lock_inv s" if "s = new_lock" for s
    using that by (simp add: new_lock_def lock_inv_def is_owned_def would_wait_def parked_writers_def)
qed (rule lock_step_inv)

section \<open>Properties of the lock\<close>

lemma write_loop_granted:
  "snd (write_loop t b d now s) = Granted \<longleftrightarrow> writer s = None \<and> readers s = []"
  by (auto simp: write_loop_def)

lemma wake_granted:
  "phase_of s t \<noteq> Running \<Longrightarrow> \<not> would_wait t s \<Longrightarrow> snd (wake t now s) = Granted"
  by (auto simp: wake_def would_wait_def write_loop_granted read_enter_def split: phase.splits)

text \<open>
  C8: mutual exclusion.  In every state reachable by any interleaving of acquisitions (blocking,
  non-blocking, timed), releases, shared leases and wake-ups of any number of threads: while a
  thread holds the mutation lock, no other thread holds a dispatch lease; its reentrancy depth
  is positive; every lease count is positive; no waiting thread holds anything; and the count
  of waiting writers is exactly the number of threads waiting in \<^verbatim>\<open>acquire\<close>.
\<close>

theorem dispatch_lock_exclusion:
  assumes "lock_machine.run new_lock ls s"
  shows "(\<forall>w t. writer s = Some w \<longrightarrow> map_of (readers s) t \<noteq> None \<longrightarrow> t = w)
     \<and> (writer s = None \<longleftrightarrow> depth s = 0) \<and> 0 \<le> depth s
     \<and> (\<forall>t n. map_of (readers s) t = Some n \<longrightarrow> 0 < n)
     \<and> (\<forall>t. phase_of s t \<noteq> Running \<longrightarrow> \<not> is_owned t s)
     \<and> waiting_writers s = int (card {t. is_parked_write (phase_of s t)})"
proof -
  have "lock_inv s" using lock_machine.run_from_init [OF assms] by simp
  then show ?thesis
    unfolding lock_inv_def parked_writers_def [symmetric] by (auto split: if_splits)
qed

definition demo_acquired :: lock_sys where
  "demo_acquired = fst (write_loop 1 True None 0 (new_lock\<lparr>waiting_writers := 1\<rparr>))"

lemma demo_acquired_run: "lock_machine.run new_lock [(1, Acquire True (- 1) 0 0)] demo_acquired"
proof -
  have "acquire 1 True (- 1) 0 0 new_lock = Inr (demo_acquired, Granted)"
    by (simp add: acquire_def demo_acquired_def write_loop_def new_lock_def)
  then have "lock_step new_lock (1, Acquire True (- 1) 0 0) demo_acquired"
    by (rule step_acquire [rotated]) (simp add: new_lock_def)
  then show ?thesis by (blast intro: lock_machine.run_Cons lock_machine.run_Nil)
qed

theorem dispatch_lock_exclusion_witness:
  "writer demo_acquired = Some 1 \<and> waiting_writers demo_acquired = 0 \<and> depth demo_acquired \<noteq> 0"
proof -
  have w: "writer demo_acquired = Some 1" "waiting_writers demo_acquired = 0"
    by (simp_all add: demo_acquired_def write_loop_def new_lock_def)
  with dispatch_lock_exclusion [OF demo_acquired_run] show ?thesis by auto
qed

text \<open>
  C17: no lost wake-up and no deadlock.  In every reachable state, a waiting thread whose loop
  condition has become false has been notified and obtains its lease when it resumes.  Hence
  if threads wait while nobody holds a lease, one of them is notified and its resumption
  succeeds: the lock never comes to rest with threads parked on a free lock.
\<close>

theorem dispatch_lock_progress:
  assumes "lock_machine.run new_lock ls s"
  shows "(\<forall>t. phase_of s t \<noteq> Running \<longrightarrow> \<not> would_wait t s \<longrightarrow>
           signalled s t \<and> (\<forall>now. snd (wake t now s) = Granted))
     \<and> ((\<exists>t. phase_of s t \<noteq> Running) \<longrightarrow> writer s = None \<longrightarrow> readers s = [] \<longrightarrow>
           (\<exists>t. signalled s t \<and> phase_of s t \<noteq> Running \<and> (\<forall>now. snd (wake t now s) = Granted)))"
proof -
  have inv: "lock_inv s" using lock_machine.run_from_init [OF assms] by simp
  then have sig: "signalled s t" if "\<not> would_wait t s" for t
    using that by (auto simp: lock_inv_def)
  have "\<exists>t. phase_of s t \<noteq> Running \<and> \<not> would_wait t s"
    if free: "phase_of s u \<noteq> Running" "writer s = None" "readers s = []" for u
  proof (cases "\<exists>t d. phase_of s t = Parked_write d")
    case True
    then obtain t d where "phase_of s t = Parked_write d" by blast
    then show ?thesis using free by (intro exI [of _ t]) (simp add: would_wait_def)
  next
    case False
    then have "parked_writers s = {}"
      by (auto simp: parked_writers_def is_parked_write_def split: phase.splits)
    then have "waiting_writers s = 0" using inv by (simp add: lock_inv_def)
    moreover have "phase_of s u = Parked_read" using False free(1) by (cases "phase_of s u") auto
    ultimately show ?thesis using free by (intro exI [of _ u]) (simp add: would_wait_def must_wait_read_def)
  qed
  then show ?thesis using sig wake_granted by blast
qed

definition demo_contended :: lock_sys where
  "demo_contended = fst (write_loop 2 True None 0 (demo_acquired\<lparr>waiting_writers := 1\<rparr>))"

definition demo_released :: lock_sys where
  "demo_released = notify_all (demo_contended\<lparr>depth := 0, writer := None\<rparr>)"

lemmas demo_lock_defs = demo_released_def demo_contended_def demo_acquired_def write_loop_def new_lock_def

lemma demo_released_run:
  "lock_machine.run new_lock [(1, Acquire True (- 1) 0 0), (2, Acquire True (- 1) 0 0), (1, Release)] demo_released"
proof -
  have "acquire 2 True (- 1) 0 0 demo_acquired = Inr (demo_contended, Parked)" "phase_of demo_acquired 2 = Running"
    by (simp_all add: acquire_def demo_lock_defs)
  then have "lock_step demo_acquired (2, Acquire True (- 1) 0 0) demo_contended" by (blast intro: step_acquire)
  moreover have "release 1 demo_contended = Inr demo_released" "phase_of demo_contended 1 = Running"
    by (simp_all add: release_def demo_lock_defs)
  then have "lock_step demo_contended (1, Release) demo_released" by (blast intro: step_release)
  ultimately have "lock_machine.run demo_acquired [(2, Acquire True (- 1) 0 0), (1, Release)] demo_released"
    by (blast intro: lock_machine.run_Cons lock_machine.run_Nil)
  from lock_machine.run_append [OF demo_acquired_run this] show ?thesis by simp
qed

theorem dispatch_lock_progress_witness:
  "phase_of demo_released 2 = Parked_write None \<and> \<not> would_wait 2 demo_released
   \<and> signalled demo_released 2 \<and> snd (wake 2 5 demo_released) = Granted"
proof -
  have "phase_of demo_released 2 = Parked_write None" "\<not> would_wait 2 demo_released"
    by (simp_all add: demo_lock_defs would_wait_def)
  then show ?thesis using dispatch_lock_progress [OF demo_released_run] by auto
qed

text \<open>
  Shared leases and writer preference.  In every reachable state a thread that already holds
  a lease (shared or exclusive) is granted a nested shared lease at once, even while writers
  wait; a thread that holds none is made to wait as soon as a writer waits or another thread
  holds the mutation lock, and is granted the lease otherwise; and a reader that asks for the
  mutation lock is refused with an error instead of deadlocking on itself.
\<close>

lemma dispatch_lock_leases:
  assumes "lock_machine.run new_lock ls s"
  shows "(if is_owned t s then snd (read_enter t s) = Granted
          else snd (read_enter t s) = (if writer s \<noteq> None \<or> waiting_writers s \<noteq> 0 then Parked else Granted))
     \<and> (map_of (readers s) t \<noteq> None \<and> writer s \<noteq> Some t \<longrightarrow> acquire t True (- 1) now now' s = Inl Upgrade_refused)"
proof -
  have "lock_inv s" using lock_machine.run_from_init [OF assms] by simp
  then have "map_of (readers s) t \<noteq> None \<Longrightarrow> writer s = None \<or> writer s = Some t"
    by (cases "writer s") (auto simp: lock_inv_def)
  then show ?thesis
    by (cases "map_of (readers s) t"; cases "writer s")
      (auto simp: read_enter_def must_wait_read_def is_owned_def acquire_def)
qed

lemma dispatch_lock_leases_witness:
  "is_owned 1 demo_acquired \<and> snd (read_enter 1 demo_acquired) = Granted \<and> snd (read_enter 2 demo_acquired) = Parked"
proof -
  have "is_owned 1 demo_acquired" "\<not> is_owned 2 demo_acquired" "writer demo_acquired \<noteq> None"
    by (simp_all add: demo_acquired_def write_loop_def new_lock_def is_owned_def)
  then show ?thesis
    using dispatch_lock_leases [OF demo_acquired_run, of 1 0 0] dispatch_lock_leases [OF demo_acquired_run, of 2 0 0]
    by simp
qed

section \<open>Deadline-bounded acquisition\<close>

datatype op_error = Operation_cancelled | Deadline_exceeded

definition check_operation :: "bool option \<Rightarrow> rat \<Rightarrow> rat \<Rightarrow> op_error + unit" where
  "check_operation cancel now deadline =
     (if cancel = Some True then Inl Operation_cancelled
      else if now \<ge> deadline then Inl Deadline_exceeded
      else Inr ())"

text \<open>
  One round of \<^verbatim>\<open>operation_lock\<close> observes the cancel event, the clock for the check, the clock
  for the timeout, and what the timed \<^verbatim>\<open>acquire\<close> did: raise, as for a refused upgrade, or tell whether it succeeded.
\<close>

record attempt =
  seen_cancel :: "bool option"
  clock_check :: rat
  clock_wait :: rat
  acquired :: "lock_error + bool"

definition got_lock :: "attempt \<Rightarrow> bool" where
  "got_lock a \<longleftrightarrow> acquired a = Inr True"

datatype op_result = Entered | Failed op_error | Failed_released op_error | Lock_raised lock_error

definition wait_slice :: "rat \<Rightarrow> rat \<Rightarrow> rat" where
  "wait_slice deadline now = min (1 / 20) (max (deadline - now) (1 / 1000))"

text \<open>\<open>None\<close>: still waiting after these rounds.  \<open>Failed_released\<close>: the \<^verbatim>\<open>finally\<close> released the lock.\<close>

fun operation_lock :: "rat \<Rightarrow> attempt list \<Rightarrow> bool option \<times> rat \<Rightarrow> op_result option" where
  "operation_lock deadline [] fin = None"
| "operation_lock deadline (a # as) fin =
     (case check_operation (seen_cancel a) (clock_check a) deadline of
        Inl e \<Rightarrow> Some (Failed e)
      | Inr _ \<Rightarrow>
          (case acquired a of
             Inl x \<Rightarrow> Some (Lock_raised x)
           | Inr got \<Rightarrow>
               if got
               then (case check_operation (fst fin) (snd fin) deadline of
                       Inl e \<Rightarrow> Some (Failed_released e)
                     | Inr _ \<Rightarrow> Some Entered)
               else operation_lock deadline as fin))"

text \<open>The clock is monotonic and a failed timed acquisition lasts at least its timeout.\<close>

fun paced :: "rat \<Rightarrow> attempt list \<Rightarrow> bool" where
  "paced deadline (a # b # as) \<longleftrightarrow>
     clock_check a \<le> clock_wait a
     \<and> clock_wait a + wait_slice deadline (clock_wait a) \<le> clock_check b \<and> paced deadline (b # as)"
| "paced deadline _ \<longleftrightarrow> True"

lemma wait_slice_ge: "1 / 1000 \<le> wait_slice deadline now"
  by (simp add: wait_slice_def)

lemma operation_lock_rounds:
  "paced d (a # as) \<Longrightarrow> operation_lock d (a # as) fin = None \<Longrightarrow>
   clock_check a + of_nat (length as) / 1000 < d"
proof (induction as arbitrary: a)
  case Nil
  then show ?case by (auto simp: check_operation_def split: if_splits sum.splits)
next
  case (Cons b as)
  then have "clock_check b + of_nat (length as) / 1000 < d"
    by (auto split: sum.splits if_splits)
  moreover have "clock_check a + 1 / 1000 \<le> clock_check b"
    using Cons.prems(1) wait_slice_ge [of d "clock_wait a"] by auto
  ultimately show ?case by (simp add: field_simps)
qed

lemma operation_lock_entered:
  "operation_lock d as fin = Some Entered \<Longrightarrow>
   fst fin \<noteq> Some True \<and> snd fin < d \<and> (\<exists>a \<in> set as. got_lock a \<and> clock_check a < d)"
  by (induction as)
    (auto simp: check_operation_def got_lock_def not_le split: if_splits sum.splits)

text \<open>
  C21: bounded contention.  When failed timed acquisitions last at least their timeout, the loop
  of \<^verbatim>\<open>operation_lock\<close> ends within 1000 rounds per second of remaining budget (plus one),
  whatever the other threads do; and the body is entered only with the lock held, before the
  deadline and without a cancellation.
\<close>

theorem operation_lock_bounded:
  assumes "paced d (a # as)" and "1000 * (d - clock_check a) \<le> of_nat (length as)"
  shows "\<exists>r. operation_lock d (a # as) (cancel, now) = Some r
     \<and> (r = Entered \<longrightarrow> cancel \<noteq> Some True \<and> now < d \<and> (\<exists>x \<in> set (a # as). got_lock x))"
proof -
  have "\<not> clock_check a + of_nat (length as) / 1000 < d"
    using assms(2) by (simp add: field_simps)
  then have "operation_lock d (a # as) (cancel, now) \<noteq> None"
    using operation_lock_rounds [OF assms(1), of "(cancel, now)"] by blast
  then obtain r where "operation_lock d (a # as) (cancel, now) = Some r" by blast
  moreover from this have "r = Entered \<longrightarrow> cancel \<noteq> Some True \<and> now < d \<and> (\<exists>x \<in> set (a # as). got_lock x)"
    using operation_lock_entered [of d "a # as" "(cancel, now)"] by (cases "r = Entered") auto
  ultimately show ?thesis by blast
qed

theorem operation_lock_bounded_witness:
  "\<exists>r. operation_lock (1 / 1000)
        [\<lparr>seen_cancel = None, clock_check = 0, clock_wait = 0, acquired = Inr False\<rparr>,
         \<lparr>seen_cancel = None, clock_check = 1 / 100, clock_wait = 1 / 100, acquired = Inr False\<rparr>] (None, 1) = Some r"
proof -
  have "paced (1 / 1000)
        [\<lparr>seen_cancel = None, clock_check = 0, clock_wait = 0, acquired = Inr False\<rparr>,
         \<lparr>seen_cancel = None, clock_check = 1 / 100, clock_wait = 1 / 100, acquired = Inr False\<rparr>]"
    by (simp add: wait_slice_def)
  from operation_lock_bounded [OF this, of None 1] show ?thesis by (simp del: operation_lock.simps) blast
qed

end
