(* ===== verification/Access_Tables.thy ===== *)
theory Access_Tables
  imports Gate_Prelude "HOL-Library.List_Lexorder" "HOL-Library.Product_Lexorder"
begin

text \<open>
  The administration half of \<^verbatim>\<open>access_control.py\<close>: the tables of roles, control permissions,
  permission types and MCP resource grants, the seed data, and every operation that edits
  them.  A timestamp text is represented by the instant it denotes (\<open>At t\<close>), or \<open>Malformed\<close>
  when \<^verbatim>\<open>datetime.fromisoformat\<close> rejects it; \<^verbatim>\<open>iso_now()\<close> and \<^verbatim>\<open>uuid4()\<close> are arguments.
\<close>

section \<open>Rows and tables\<close>

datatype access = No_access | Read | Write | Unknown

fun access_rank :: "access \<Rightarrow> int" where
  "access_rank No_access = 0" | "access_rank Read = 1" | "access_rank Write = 2" | "access_rank Unknown = - 1"

fun access_name :: "access \<Rightarrow> pystr" where
  "access_name No_access = lit ''none''" | "access_name Read = lit ''read''"
| "access_name Write = lit ''write''" | "access_name Unknown = lit ''unknown''"

definition parse_access :: "pystr \<Rightarrow> access option" where
  "parse_access s = find (\<lambda>a. access_name a = s) [No_access, Read, Write, Unknown]"

datatype stamp = At rat | Malformed

datatype subject = User_subject | Role_subject

datatype class_status = Pending | Published | Stale

record permission_row =
  cp_id :: pystr
  cp_code :: pystr
  cp_name :: pystr
  cp_description :: pystr
  cp_created :: rat

record role_row =
  role_id :: pystr
  role_code :: pystr
  role_name :: pystr
  role_description :: pystr
  role_system :: bool
  role_enabled :: bool
  role_created :: rat
  role_updated :: rat

record ptype_row =
  pt_id :: pystr
  pt_code :: pystr
  pt_name :: pystr
  base_level :: access
  pt_description :: pystr
  pt_system :: bool
  pt_enabled :: bool
  pt_created :: rat
  pt_updated :: rat

record grant_row =
  grant_id :: pystr
  subject_type :: subject
  subject_id :: pystr
  g_server :: pystr
  g_tool :: pystr
  g_ptype :: pystr
  g_expires :: "stamp option"
  g_created_by :: pystr
  g_created :: rat
  g_updated :: rat

record access_db =
  user_ids :: "pystr list"
  control_permissions :: "permission_row list"
  roles :: "role_row list"
  role_permissions :: "(pystr \<times> pystr) list"
  user_roles :: "(pystr \<times> pystr) list"
  permission_types :: "ptype_row list"
  grants :: "grant_row list"

datatype access_error =
    Value_error            \<comment> \<open>\<^verbatim>\<open>ValueError\<close>\<close>
  | Key_missing            \<comment> \<open>\<^verbatim>\<open>KeyError\<close>\<close>
  | Integrity_error        \<comment> \<open>\<^verbatim>\<open>sqlite3.IntegrityError\<close>\<close>

section \<open>Seed data\<close>

definition CONTROL_PERMISSIONS :: "(pystr \<times> pystr \<times> pystr) list" where
  "CONTROL_PERMISSIONS =
     [(lit ''console.view'', [26597, 30475, 25511, 21046, 21488],
       [30331, 24405, 24182, 26597, 30475, 22522, 30784, 25511, 21046, 21488]),
      (lit ''users.manage'', [31649, 29702, 29992, 25143],
       [23457, 26680, 12289, 21551, 29992, 12289, 20572, 29992, 21644, 32500, 25252, 29992, 25143]),
      (lit ''roles.manage'', [31649, 29702, 35282, 33394],
       [32500, 25252, 35282, 33394, 19982, 25511, 21046, 38754, 26435, 38480]),
      (lit ''grants.manage'', [31649, 29702, 36164, 28304, 25480, 26435],
       [32500, 25252, 29992, 25143, 21644, 35282, 33394, 30340, 32, 77, 67, 80, 32, 25480, 26435]),
      (lit ''classifications.manage'', [31649, 29702, 24037, 20855, 20998, 31867],
       [20998, 26512, 12289, 30830, 35748, 24182, 21457, 24067, 32, 84, 111, 111, 108, 32, 35835, 20889, 20998, 31867]),
      (lit ''credentials.manage.self'', [31649, 29702, 20010, 20154, 20973, 25454],
       [32500, 25252, 33258, 24049, 30340, 32, 71, 97, 116, 101, 32, 65, 80, 73, 32, 84, 111, 107, 101, 110, 32, 19982, 19979, 28216, 32, 77, 67, 80, 32, 20973, 25454]),
      (lit ''credentials.manage.system'', [31649, 29702, 20849, 20139, 26381, 21153, 20973, 25454],
       [32500, 25252, 20849, 20139, 32, 77, 67, 80, 32, 26381, 21153, 31192, 23494, 65292, 20165, 40664, 35748, 31649, 29702, 21592, 25317, 26377]),
      (lit ''credentials.manage.all'', [31649, 29702, 20840, 37096, 20973, 25454],
       [26597, 30475, 24182, 21514, 38144, 20840, 37096, 29992, 25143, 32, 65, 80, 73, 32, 84, 111, 107, 101, 110, 65292, 19981, 35835, 21462, 29992, 25143, 19979, 28216, 31192, 23494]),
      (lit ''retention.manage'', [31649, 29702, 20445, 30041, 31574, 30053],
       [31649, 29702, 26085, 24535, 12289, 20107, 20214, 19982, 35843, 29992, 35760, 24405, 20445, 30041, 21644, 20869, 23481, 35760, 24405, 31574, 30053]),
      (lit ''audit.payload.read'', [26597, 30475, 35843, 29992, 20869, 23481],
       [35835, 21462, 32463, 36807, 33073, 25935, 21644, 38480, 38271, 30340, 20854, 20182, 29992, 25143, 35843, 29992, 20869, 23481]),
      (lit ''audit.read'', [26597, 30475, 35843, 29992, 23457, 35745],
       [26597, 35810, 32, 77, 67, 80, 32, 35843, 29992, 25480, 26435, 21644, 32467, 26524, 23457, 35745]),
      (lit ''tools.read'', [35835, 21462, 24037, 20855],
       [21457, 29616, 24182, 35843, 29992, 33719, 20934, 30340, 21482, 35835, 32, 77, 67, 80, 32, 84, 111, 111, 108]),
      (lit ''tools.invoke'', [35843, 29992, 20889, 24037, 20855],
       [35843, 29992, 33719, 20934, 30340, 20889, 20837, 32, 77, 67, 80, 32, 84, 111, 111, 108]),
      (lit ''observability.read.all'', [26597, 30475, 20840, 37096, 36816, 32500, 26085, 24535],
       [35835, 21462, 25152, 26377, 26381, 21153, 19982, 31995, 32479, 32423, 26085, 24535, 21644, 20107, 20214]),
      (lit ''operations.manage'', [31649, 29702, 36816, 34892, 24577],
       [31649, 29702, 32, 77, 67, 80, 32, 37197, 32622, 12289, 26381, 21153, 21644, 36816, 34892, 24577]),
      (lit ''system_settings.manage'', [31649, 29702, 31995, 32479, 35774, 32622],
       [31649, 29702, 20132, 20184, 32593, 32476, 37197, 32622, 65307, 19981, 25480, 20104, 32593, 32476, 35843, 29992, 26435, 38480]),
      (lit ''network.use'', [35843, 29992, 20132, 20184, 32593, 32476],
       [20351, 29992, 24050, 23457, 26597, 30340, 32, 71, 105, 116, 47, 20381, 36182, 32593, 32476, 65307, 19981, 25480, 20104, 37197, 32622, 26435, 38480]),
      (lit ''external_connections.manage'', [31649, 29702, 22806, 37096, 25509, 20837],
       [31649, 29702, 40664, 35748, 20851, 38381, 30340, 20849, 20139, 25509, 20837, 12289, 21463, 20449, 36523, 20221, 21644, 25480, 26435, 39564, 35777, 37197, 32622])]"

definition SYSTEM_ROLES :: "(pystr \<times> pystr \<times> pystr) list" where
  "SYSTEM_ROLES =
     [(lit ''admin'', [31649, 29702, 21592],
       [25317, 26377, 20840, 37096, 25511, 21046, 38754, 26435, 38480]),
      (lit ''operator'', [36816, 32500, 20154, 21592],
       [31649, 29702, 32, 77, 67, 80, 32, 36816, 34892, 24577, 24182, 35843, 29992, 33719, 20934, 24037, 20855]),
      (lit ''viewer'', [21482, 35835, 35266, 23519, 32773],
       [26597, 30475, 25511, 21046, 21488, 21644, 33719, 20934, 21482, 35835, 24037, 20855])]"

definition SYSTEM_PERMISSION_TYPES :: "(pystr \<times> pystr \<times> access \<times> pystr) list" where
  "SYSTEM_PERMISSION_TYPES =
     [(lit ''none'', [26080, 26435, 38480], No_access,
       [23436, 20840, 31105, 27490, 35775, 38382]),
      (lit ''read'', [21482, 35835], Read,
       [20801, 35768, 35843, 29992, 24050, 21457, 24067, 30340, 21482, 35835, 24037, 20855]),
      (lit ''write'', [35835, 20889], Write,
       [20801, 35768, 35843, 29992, 24050, 21457, 24067, 30340, 21482, 35835, 21644, 20889, 20837, 24037, 20855])]"

definition ROLE_PERMISSION_MAP :: "pystr \<Rightarrow> pystr list" where
  "ROLE_PERMISSION_MAP code =
     (if code = lit ''admin'' then map fst CONTROL_PERMISSIONS
      else if code = lit ''operator'' then
        [lit ''console.view'', lit ''credentials.manage.self'', lit ''audit.read'', lit ''tools.read'',
         lit ''tools.invoke'', lit ''operations.manage'']
      else if code = lit ''viewer'' then [lit ''console.view'', lit ''credentials.manage.self'', lit ''tools.read'']
      else [])"

text \<open>\<^verbatim>\<open>INSERT OR IGNORE\<close> on a table whose id and code are both unique.\<close>

definition insert_ignore :: "('r \<Rightarrow> pystr) \<Rightarrow> ('r \<Rightarrow> pystr) \<Rightarrow> 'r \<Rightarrow> 'r list \<Rightarrow> 'r list" where
  "insert_ignore rid code r rows =
     (if find_row (\<lambda>x. rid x = rid r \<or> code x = code r) rows = None then rows @ [r] else rows)"

definition seed_permission :: "rat \<Rightarrow> pystr \<times> pystr \<times> pystr \<Rightarrow> access_db \<Rightarrow> access_db" where
  "seed_permission now p db = (case p of (code, name, desc) \<Rightarrow>
     db\<lparr>control_permissions := insert_ignore cp_id cp_code
         \<lparr>cp_id = lit ''permission-'' @ code, cp_code = code, cp_name = name, cp_description = desc, cp_created = now\<rparr>
         (control_permissions db)\<rparr>)"

definition seed_link :: "pystr \<Rightarrow> pystr \<Rightarrow> access_db \<Rightarrow> access_db" where
  "seed_link rid code db =
     (case find_row (\<lambda>p. cp_code p = code) (control_permissions db) of
        None \<Rightarrow> db
      | Some p \<Rightarrow> db\<lparr>role_permissions := List.insert (rid, cp_id p) (role_permissions db)\<rparr>)"

definition seed_role :: "rat \<Rightarrow> pystr \<times> pystr \<times> pystr \<Rightarrow> access_db \<Rightarrow> access_db" where
  "seed_role now p db = (case p of (code, name, desc) \<Rightarrow>
     fold (seed_link (lit ''role-'' @ code)) (ROLE_PERMISSION_MAP code)
       (db\<lparr>roles := insert_ignore role_id role_code
          \<lparr>role_id = lit ''role-'' @ code, role_code = code, role_name = name, role_description = desc,
           role_system = True, role_enabled = True, role_created = now, role_updated = now\<rparr> (roles db)\<rparr>))"

definition seed_ptype :: "rat \<Rightarrow> pystr \<times> pystr \<times> access \<times> pystr \<Rightarrow> access_db \<Rightarrow> access_db" where
  "seed_ptype now p db = (case p of (code, name, level, desc) \<Rightarrow>
     db\<lparr>permission_types := insert_ignore pt_id pt_code
          \<lparr>pt_id = lit ''permission-type-'' @ code, pt_code = code, pt_name = name, base_level = level,
           pt_description = desc, pt_system = True, pt_enabled = True, pt_created = now, pt_updated = now\<rparr>
          (permission_types db)\<rparr>)"

definition seed_system_data :: "rat \<Rightarrow> access_db \<Rightarrow> access_db" where
  "seed_system_data now db =
     fold (seed_ptype now) SYSTEM_PERMISSION_TYPES
       (fold (seed_role now) SYSTEM_ROLES
         (fold (seed_permission now) CONTROL_PERMISSIONS db))"

definition empty_db :: "pystr list \<Rightarrow> access_db" where
  "empty_db users = \<lparr>user_ids = users, control_permissions = [], roles = [], role_permissions = [],
     user_roles = [], permission_types = [], grants = []\<rparr>"

section \<open>Text helpers\<close>

text \<open>
  \<^verbatim>\<open>str.lower\<close> as far as the ASCII filters of this module see it: of the code points outside
  ASCII only U+0130 and U+212A lower to text with ASCII letters.
\<close>

definition lower_char :: "nat \<Rightarrow> pystr" where
  "lower_char c = (if 65 \<le> c \<and> c \<le> 90 then [c + 32] else if c = 8490 then [107] else if c = 304 then [105, 775] else [c])"

definition lower :: "pystr \<Rightarrow> pystr" where
  "lower s = concat (map lower_char s)"

definition lower_alnum :: "nat \<Rightarrow> bool" where
  "lower_alnum c \<longleftrightarrow> 97 \<le> c \<and> c \<le> 122 \<or> 48 \<le> c \<and> c \<le> 57"

definition code_char :: "nat \<Rightarrow> bool" where
  "code_char c \<longleftrightarrow> lower_alnum c \<or> c = 95 \<or> c = 46 \<or> c = 45"

text \<open>\<^verbatim>\<open>re.sub(r"[^...]+", "-", s)\<close>: each maximal run of rejected characters becomes one dash.\<close>

function squeeze :: "(nat \<Rightarrow> bool) \<Rightarrow> pystr \<Rightarrow> pystr" where
  "squeeze p [] = []"
| "squeeze p (c # cs) =
     (if p c then c # squeeze p cs else 45 # squeeze p (dropWhile (\<lambda>x. \<not> p x) cs))"
  by pat_completeness auto
termination
  by (relation "measure (\<lambda>(p, s). length s)") (auto simp: le_imp_less_Suc length_dropWhile_le)

definition normalize_code :: "pystr \<Rightarrow> access_error + pystr" where
  "normalize_code value =
     (let normalized = strip_by (\<lambda>c. c = 45 \<or> c = 46) (squeeze code_char (lower (strip value))) in
      if normalized = [] then Inl Value_error else Inr normalized)"

text \<open>\<^verbatim>\<open>sorted({str(item).strip() for item in items if str(item).strip()})\<close>.\<close>

definition clean_codes :: "pystr list \<Rightarrow> pystr list" where
  "clean_codes xs = sort (remdups (filter (\<lambda>s. s \<noteq> []) (map strip xs)))"

section \<open>Roles\<close>

definition roles_for_user :: "access_db \<Rightarrow> pystr \<Rightarrow> pystr list" where
  "roles_for_user db uid =
     map role_code (sort_key (\<lambda>r. (\<not> role_system r, role_code r))
       (concat (map (\<lambda>(u, rid). if u = uid then filter (\<lambda>r. role_id r = rid \<and> role_enabled r) (roles db) else [])
         (user_roles db))))"

definition role_permission_codes :: "access_db \<Rightarrow> pystr \<Rightarrow> pystr list" where
  "role_permission_codes db rid =
     sort (concat (map (\<lambda>(r, pid). if r = rid
       then map cp_code (filter (\<lambda>p. cp_id p = pid) (control_permissions db)) else []) (role_permissions db)))"

definition permissions_for_user :: "access_db \<Rightarrow> pystr \<Rightarrow> pystr list" where
  "permissions_for_user db uid =
     sort (remdups (concat (map (\<lambda>(u, rid). if u = uid
       then concat (map (\<lambda>r. if role_id r = rid \<and> role_enabled r then role_permission_codes db rid else []) (roles db))
       else []) (user_roles db))))"

definition set_user_roles :: "access_db \<Rightarrow> pystr \<Rightarrow> pystr list \<Rightarrow> access_error + access_db" where
  "set_user_roles db uid role_codes =
     (let codes = clean_codes role_codes;
          rows = filter (\<lambda>r. role_code r \<in> set codes \<and> role_enabled r) (roles db)
      in if codes = [] then Inl Value_error
         else if length rows \<noteq> length codes then Inl Value_error
         else if uid \<notin> set (user_ids db) then Inl Integrity_error
         else Inr (db\<lparr>user_roles := delete_rows (\<lambda>(u, _). u = uid) (user_roles db)
                        @ map (\<lambda>r. (uid, role_id r)) rows\<rparr>))"

record role_view =
  rv_row :: role_row
  member_count :: nat
  rv_permissions :: "pystr list"

definition list_roles :: "access_db \<Rightarrow> role_view list" where
  "list_roles db =
     map (\<lambda>r. \<lparr>rv_row = r,
               member_count = length (remdups (map fst (filter (\<lambda>(_, rid). rid = role_id r) (user_roles db)))),
               rv_permissions = role_permission_codes db (role_id r)\<rparr>)
       (sort_key (\<lambda>r. (\<not> role_system r, role_name r)) (roles db))"

definition permission_id :: "access_db \<Rightarrow> pystr \<Rightarrow> pystr option" where
  "permission_id db code = map_option cp_id (find_row (\<lambda>p. cp_code p = code) (control_permissions db))"

definition edit_role :: "pystr \<times> pystr \<times> pystr \<times> bool \<times> rat \<Rightarrow> role_row \<Rightarrow> role_row" where
  "edit_role v r = (case v of (code, name, description, enabled, now) \<Rightarrow>
     r\<lparr>role_code := code, role_name := name, role_description := description, role_enabled := enabled,
       role_updated := now\<rparr>)"

text \<open>\<^verbatim>\<open>role_id or f"role-{uuid4()}"\<close>.\<close>

definition target_id :: "pystr \<Rightarrow> pystr \<Rightarrow> pystr option \<Rightarrow> pystr" where
  "target_id prefix uuid given =
     (case given of Some i \<Rightarrow> if i = [] then prefix @ uuid else i | None \<Rightarrow> prefix @ uuid)"

text \<open>The checks of \<^verbatim>\<open>save_role\<close> that raise \<^verbatim>\<open>ValueError\<close>.\<close>

definition role_refused :: "access_db \<Rightarrow> pystr \<Rightarrow> pystr \<Rightarrow> pystr \<Rightarrow> bool \<Rightarrow> pystr list \<Rightarrow> bool" where
  "role_refused db target code name enabled codes \<longleftrightarrow>
     name = []
     \<or> (case find_row (\<lambda>r. role_id r = target) (roles db) of
          None \<Rightarrow> False
        | Some r \<Rightarrow> role_system r \<and> (code \<noteq> role_code r \<or> \<not> enabled))
     \<or> find_row (\<lambda>r. role_code r = code \<and> role_id r \<noteq> target) (roles db) \<noteq> None
     \<or> (\<exists>c \<in> set codes. permission_id db c = None)"

definition write_role :: "rat \<Rightarrow> access_db \<Rightarrow> pystr \<Rightarrow> pystr \<Rightarrow> pystr \<Rightarrow> pystr \<Rightarrow> bool \<Rightarrow> pystr list \<Rightarrow> access_db" where
  "write_role now db target code name description enabled codes =
     db\<lparr>roles := (if find_row (\<lambda>r. role_id r = target) (roles db) \<noteq> None
          then update_rows (\<lambda>r. role_id r = target) (edit_role (code, name, description, enabled, now)) (roles db)
          else roles db @ [\<lparr>role_id = target, role_code = code, role_name = name, role_description = description,
                 role_system = False, role_enabled = enabled, role_created = now, role_updated = now\<rparr>]),
        role_permissions := delete_rows (\<lambda>(r, _). r = target) (role_permissions db)
          @ map (\<lambda>c. (target, the (permission_id db c))) codes\<rparr>"

definition save_role :: "rat \<Rightarrow> pystr \<Rightarrow> access_db \<Rightarrow> pystr \<Rightarrow> pystr \<Rightarrow> pystr \<Rightarrow> pystr list \<Rightarrow> pystr option \<Rightarrow> bool
    \<Rightarrow> access_error + access_db \<times> pystr" where
  "save_role now uuid db code0 name description permissions given enabled =
     bindR (normalize_code code0) (\<lambda>code.
     (let target = target_id (lit ''role-'') uuid given; codes = clean_codes permissions in
      if role_refused db target code (strip name) enabled codes then Inl Value_error
      else Inr (write_role now db target code (strip name) (strip description) enabled codes, target)))"

definition delete_role :: "access_db \<Rightarrow> pystr \<Rightarrow> access_error + access_db" where
  "delete_role db rid =
     (case find_row (\<lambda>r. role_id r = rid) (roles db) of
        None \<Rightarrow> Inl Key_missing
      | Some r \<Rightarrow>
          if role_system r then Inl Value_error
          else if \<exists>(u, x) \<in> set (user_roles db). x = rid then Inl Value_error
          else Inr (db\<lparr>roles := delete_rows (\<lambda>r. role_id r = rid) (roles db),
                       role_permissions := delete_rows (\<lambda>(r, _). r = rid) (role_permissions db)\<rparr>))"

definition list_control_permissions :: "access_db \<Rightarrow> permission_row list" where
  "list_control_permissions db = sort_key cp_code (control_permissions db)"

section \<open>Permission types\<close>

definition list_permission_types :: "access_db \<Rightarrow> (ptype_row \<times> nat) list" where
  "list_permission_types db =
     map (\<lambda>t. (t, length (filter (\<lambda>g. g_ptype g = pt_id t) (grants db))))
       (sort_key (\<lambda>t. (\<not> pt_system t, case base_level t of No_access \<Rightarrow> 0 :: nat | Read \<Rightarrow> 1 | _ \<Rightarrow> 2, pt_name t))
         (permission_types db))"

definition edit_ptype :: "pystr \<times> pystr \<times> access \<times> pystr \<times> bool \<times> rat \<Rightarrow> ptype_row \<Rightarrow> ptype_row" where
  "edit_ptype v t = (case v of (code, name, level, description, enabled, now) \<Rightarrow>
     t\<lparr>pt_code := code, pt_name := name, base_level := level, pt_description := description,
       pt_enabled := enabled, pt_updated := now\<rparr>)"

definition ptype_refused :: "access_db \<Rightarrow> pystr \<Rightarrow> pystr \<Rightarrow> pystr \<Rightarrow> access \<Rightarrow> bool \<Rightarrow> bool" where
  "ptype_refused db target code name level enabled \<longleftrightarrow>
     name = []
     \<or> (case find_row (\<lambda>t. pt_id t = target) (permission_types db) of
          None \<Rightarrow> False
        | Some t \<Rightarrow> pt_system t \<and> (code \<noteq> pt_code t \<or> level \<noteq> base_level t \<or> \<not> enabled))
     \<or> find_row (\<lambda>t. pt_code t = code \<and> pt_id t \<noteq> target) (permission_types db) \<noteq> None"

definition write_ptype :: "rat \<Rightarrow> access_db \<Rightarrow> pystr \<Rightarrow> pystr \<Rightarrow> pystr \<Rightarrow> access \<Rightarrow> pystr \<Rightarrow> bool \<Rightarrow> access_db" where
  "write_ptype now db target code name level description enabled =
     db\<lparr>permission_types := (if find_row (\<lambda>t. pt_id t = target) (permission_types db) \<noteq> None
          then update_rows (\<lambda>t. pt_id t = target) (edit_ptype (code, name, level, description, enabled, now)) (permission_types db)
          else permission_types db @ [\<lparr>pt_id = target, pt_code = code, pt_name = name, base_level = level,
                 pt_description = description, pt_system = False, pt_enabled = enabled,
                 pt_created = now, pt_updated = now\<rparr>])\<rparr>"

definition save_permission_type :: "rat \<Rightarrow> pystr \<Rightarrow> access_db \<Rightarrow> pystr \<Rightarrow> pystr \<Rightarrow> pystr \<Rightarrow> pystr \<Rightarrow> pystr option \<Rightarrow> bool
    \<Rightarrow> access_error + access_db \<times> pystr" where
  "save_permission_type now uuid db code0 name level description given enabled =
     bindR (normalize_code code0) (\<lambda>code.
     (let target = target_id (lit ''permission-type-'') uuid given in
      case parse_access level of
        None \<Rightarrow> Inl Value_error
      | Some lv \<Rightarrow>
          if lv = Unknown \<or> ptype_refused db target code (strip name) lv enabled then Inl Value_error
          else Inr (write_ptype now db target code (strip name) lv (strip description) enabled, target)))"

definition delete_permission_type :: "access_db \<Rightarrow> pystr \<Rightarrow> access_error + access_db" where
  "delete_permission_type db tid =
     (case find_row (\<lambda>t. pt_id t = tid) (permission_types db) of
        None \<Rightarrow> Inl Key_missing
      | Some t \<Rightarrow>
          if pt_system t then Inl Value_error
          else if \<exists>g \<in> set (grants db). g_ptype g = tid then Inl Value_error
          else Inr (db\<lparr>permission_types := delete_rows (\<lambda>t. pt_id t = tid) (permission_types db)\<rparr>))"

section \<open>Resource grants\<close>

record grant_view =
  gv_row :: grant_row
  gv_type :: ptype_row

text \<open>A filter argument that is \<^verbatim>\<open>None\<close> or empty selects everything.\<close>

definition selects :: "pystr option \<Rightarrow> pystr \<Rightarrow> bool" where
  "selects arg x \<longleftrightarrow> (case arg of None \<Rightarrow> True | Some a \<Rightarrow> a = [] \<or> x = a)"

fun subject_name :: "subject \<Rightarrow> pystr" where
  "subject_name User_subject = lit ''user''" | "subject_name Role_subject = lit ''role''"

definition list_grants :: "access_db \<Rightarrow> pystr option \<Rightarrow> pystr option \<Rightarrow> pystr option \<Rightarrow> grant_view list" where
  "list_grants db server stype sid =
     concat (map (\<lambda>g. map (\<lambda>t. \<lparr>gv_row = g, gv_type = t\<rparr>) (filter (\<lambda>t. pt_id t = g_ptype g) (permission_types db)))
       (sort_key (\<lambda>g. (g_server g, subject_name (subject_type g), subject_id g, g_tool g))
         (filter (\<lambda>g. selects server (g_server g) \<and> selects stype (subject_name (subject_type g))
            \<and> selects sid (subject_id g)) (grants db))))"

definition parse_subject :: "pystr \<Rightarrow> subject option" where
  "parse_subject s = (if s = lit ''user'' then Some User_subject else if s = lit ''role'' then Some Role_subject else None)"

definition edit_grant :: "pystr \<times> stamp option \<times> pystr \<times> rat \<Rightarrow> grant_row \<Rightarrow> grant_row" where
  "edit_grant v g = (case v of (ptype, expires, created_by, now) \<Rightarrow>
     g\<lparr>g_ptype := ptype, g_expires := expires, g_created_by := created_by, g_updated := now\<rparr>)"

definition grant_key :: "grant_row \<Rightarrow> subject \<times> pystr \<times> pystr \<times> pystr" where
  "grant_key g = (subject_type g, subject_id g, g_server g, g_tool g)"

definition write_grant :: "rat \<Rightarrow> pystr \<Rightarrow> access_db \<Rightarrow> subject \<times> pystr \<times> pystr \<times> pystr \<Rightarrow> pystr \<Rightarrow> pystr \<Rightarrow> stamp option
    \<Rightarrow> access_error + access_db \<times> pystr" where
  "write_grant now uuid db key ptype created_by expires =
     (case find_row (\<lambda>g. grant_key g = key) (grants db) of
        Some g \<Rightarrow>
          Inr (db\<lparr>grants := update_rows (\<lambda>x. grant_id x = grant_id g)
                              (edit_grant (ptype, expires, created_by, now)) (grants db)\<rparr>, grant_id g)
      | None \<Rightarrow>
          if find_row (\<lambda>g. grant_id g = uuid) (grants db) \<noteq> None then Inl Integrity_error
          else (case key of (st, sid, server, tool) \<Rightarrow>
            Inr (db\<lparr>grants := grants db @ [\<lparr>grant_id = uuid, subject_type = st, subject_id = sid, g_server = server,
                    g_tool = tool, g_ptype = ptype, g_expires = expires, g_created_by = created_by,
                    g_created = now, g_updated = now\<rparr>]\<rparr>, uuid)))"

definition save_grant :: "rat \<Rightarrow> pystr \<Rightarrow> access_db \<Rightarrow> pystr \<Rightarrow> pystr \<Rightarrow> pystr \<Rightarrow> pystr \<Rightarrow> pystr \<Rightarrow> pystr option \<Rightarrow> stamp option
    \<Rightarrow> access_error + access_db \<times> pystr" where
  "save_grant now uuid db stype sid server tcode created_by tool expires =
     (case parse_subject stype of
        None \<Rightarrow> Inl Value_error
      | Some st \<Rightarrow>
          if strip sid = [] \<or> strip server = [] then Inl Value_error
          else if (case st of User_subject \<Rightarrow> sid \<notin> set (user_ids db)
                   | Role_subject \<Rightarrow> find_row (\<lambda>r. role_id r = sid) (roles db) = None) then Inl Value_error
          else (case find_row (\<lambda>t. pt_code t = tcode \<and> pt_enabled t) (permission_types db) of
                  None \<Rightarrow> Inl Value_error
                | Some t \<Rightarrow>
                    write_grant now uuid db
                      (st, sid, strip server, case tool of None \<Rightarrow> [] | Some x \<Rightarrow> strip x) (pt_id t) created_by expires))"

definition delete_grant :: "access_db \<Rightarrow> pystr \<Rightarrow> access_error + access_db" where
  "delete_grant db gid =
     (if find_row (\<lambda>g. grant_id g = gid) (grants db) = None then Inl Key_missing
      else Inr (db\<lparr>grants := delete_rows (\<lambda>g. grant_id g = gid) (grants db)\<rparr>))"

section \<open>Well-formed tables\<close>

definition tables_ok :: "access_db \<Rightarrow> bool" where
  "tables_ok db \<longleftrightarrow>
     distinct (map role_id (roles db)) \<and> distinct (map role_code (roles db))
     \<and> distinct (map pt_id (permission_types db)) \<and> distinct (map pt_code (permission_types db))
     \<and> distinct (map cp_id (control_permissions db)) \<and> distinct (map cp_code (control_permissions db))
     \<and> distinct (user_roles db)
     \<and> (\<forall>(u, r) \<in> set (user_roles db). u \<in> set (user_ids db) \<and> r \<in> role_id ` set (roles db))
     \<and> distinct (role_permissions db)
     \<and> (\<forall>(r, p) \<in> set (role_permissions db). r \<in> role_id ` set (roles db) \<and> p \<in> cp_id ` set (control_permissions db))
     \<and> distinct (map grant_id (grants db)) \<and> distinct (map grant_key (grants db))
     \<and> (\<forall>g \<in> set (grants db). g_ptype g \<in> pt_id ` set (permission_types db))
     \<and> (\<forall>t \<in> set (permission_types db). base_level t \<noteq> Unknown)"

text \<open>The seeded roles and permission types, with the columns that carry their meaning.\<close>

definition system_ok :: "access_db \<Rightarrow> bool" where
  "system_ok db \<longleftrightarrow>
     (\<forall>p \<in> set SYSTEM_ROLES. \<exists>r \<in> set (roles db).
        role_id r = lit ''role-'' @ fst p \<and> role_code r = fst p \<and> role_system r \<and> role_enabled r)
     \<and> (\<forall>p \<in> set SYSTEM_PERMISSION_TYPES. \<exists>t \<in> set (permission_types db).
        pt_id t = lit ''permission-type-'' @ fst p \<and> pt_code t = fst p \<and> base_level t = fst (snd (snd p))
        \<and> pt_system t \<and> pt_enabled t)"

lemma edit_role_simps [simp]:
  "role_id (edit_role v r) = role_id r" "role_system (edit_role v r) = role_system r"
  "role_code (edit_role (code, name, d, en, now) r) = code" "role_enabled (edit_role (code, name, d, en, now) r) = en"
  by (auto simp: edit_role_def split: prod.splits)

lemma edit_ptype_simps [simp]:
  "pt_id (edit_ptype v t) = pt_id t" "pt_system (edit_ptype v t) = pt_system t"
  "pt_code (edit_ptype (code, name, lv, d, en, now) t) = code"
  "pt_enabled (edit_ptype (code, name, lv, d, en, now) t) = en"
  "base_level (edit_ptype (code, name, lv, d, en, now) t) = lv"
  by (auto simp: edit_ptype_def split: prod.splits)

lemma edit_grant_simps [simp]:
  "grant_id (edit_grant v g) = grant_id g" "grant_key (edit_grant v g) = grant_key g"
  "g_ptype (edit_grant (pt, e, c, now) g) = pt" "g_expires (edit_grant (pt, e, c, now) g) = e"
  by (auto simp: edit_grant_def grant_key_def split: prod.splits)

interpretation role_table: keyed_table role_id edit_role
  by unfold_locales simp

interpretation ptype_table: keyed_table pt_id edit_ptype
  by unfold_locales simp

interpretation grant_table: keyed_table grant_id edit_grant
  by unfold_locales simp

lemma set_user_roles_ok:
  assumes "tables_ok db" "set_user_roles db uid codes = Inr db'"
  shows "tables_ok db'"
proof -
  have *: "uid \<in> set (user_ids db)"
    "db' = db\<lparr>user_roles := delete_rows (\<lambda>(u, _). u = uid) (user_roles db)
       @ map (\<lambda>r. (uid, role_id r)) (filter (\<lambda>r. role_code r \<in> set (clean_codes codes) \<and> role_enabled r) (roles db))\<rparr>"
    using assms(2) by (auto simp: set_user_roles_def Let_def split: if_splits)
  have "distinct (map (\<lambda>r. (uid, role_id r)) (filter P (roles db)))" for P
    using assms(1) by (simp add: tables_ok_def distinct_map inj_on_def)
  then show ?thesis
    using assms(1) * by (auto simp: tables_ok_def delete_rows_def)
qed

lemma delete_role_ok:
  assumes "tables_ok db" "delete_role db rid = Inr db'"
  shows "tables_ok db'"
proof -
  have *: "\<forall>(u, x) \<in> set (user_roles db). x \<noteq> rid"
    "db' = db\<lparr>roles := delete_rows (\<lambda>r. role_id r = rid) (roles db),
        role_permissions := delete_rows (\<lambda>(r, _). r = rid) (role_permissions db)\<rparr>"
    using assms(2) by (auto simp: delete_role_def split: option.splits if_splits)
  then show ?thesis
    using assms(1) unfolding tables_ok_def by (auto simp: distinct_delete_rows)
qed

lemma delete_permission_type_ok:
  "tables_ok db \<Longrightarrow> delete_permission_type db tid = Inr db' \<Longrightarrow> tables_ok db'"
  by (auto simp: delete_permission_type_def tables_ok_def distinct_delete_rows split: option.splits if_splits)

lemma delete_grant_ok: "tables_ok db \<Longrightarrow> delete_grant db gid = Inr db' \<Longrightarrow> tables_ok db'"
  by (auto simp: delete_grant_def tables_ok_def distinct_delete_rows split: if_splits)

lemma set_clean_codes: "set (clean_codes xs) = {strip x | x. x \<in> set xs \<and> strip x \<noteq> []}"
  by (auto simp: clean_codes_def)

lemma distinct_clean_codes [simp]: "distinct (clean_codes xs)"
  by (simp add: clean_codes_def)

lemma permission_id_inj:
  assumes "tables_ok db" "permission_id db c = Some i" "permission_id db d = Some i"
  shows "c = d"
proof -
  obtain p q where "p \<in> set (control_permissions db)" "q \<in> set (control_permissions db)"
    "cp_code p = c" "cp_code q = d" "cp_id p = cp_id q"
    using assms(2,3) by (auto simp: permission_id_def dest!: find_row_SomeD)
  then show ?thesis
    using assms(1) unique_key_eq [of cp_id "control_permissions db" p q] by (auto simp: tables_ok_def)
qed

lemma permission_id_mem: "permission_id db c = Some i \<Longrightarrow> i \<in> cp_id ` set (control_permissions db)"
  by (auto simp: permission_id_def dest!: find_row_SomeD)

lemma find_id_None: "find_row (\<lambda>r. k r = t) rows \<noteq> None \<longleftrightarrow> t \<in> k ` set rows"
  by (force simp: find_row_None_iff)

lemma write_role_ok:
  assumes ok: "tables_ok db" and free: "\<not> role_refused db target code name en codes" and "distinct codes"
  shows "tables_ok (write_role now db target code name d en codes)"
proof -
  let ?db = "write_role now db target code name d en codes"
  let ?x = "\<lparr>role_id = target, role_code = code, role_name = name, role_description = d,
     role_system = False, role_enabled = en, role_created = now, role_updated = now\<rparr>"
  have perms: "permission_id db c \<noteq> None" if "c \<in> set codes" for c
    using free that by (auto simp: role_refused_def)
  have "distinct (map role_id (roles db))" "distinct (map role_code (roles db))"
    using ok by (simp_all add: tables_ok_def)
  then have ids: "distinct (map role_id (roles ?db)) \<and> distinct (map role_code (roles ?db))
      \<and> role_id ` set (roles ?db) = insert target (role_id ` set (roles db))"
    by (rule upsert_two_keys [where v = code and f = "edit_role (code, name, d, en, now)" and x = ?x])
      (use free in \<open>auto simp: role_refused_def find_row_None_iff write_role_def find_id_None\<close>)
  have "inj_on (\<lambda>c. (target, the (permission_id db c))) (set codes)"
  proof (rule inj_onI)
    fix c c' assume "c \<in> set codes" "c' \<in> set codes" "(target, the (permission_id db c)) = (target, the (permission_id db c'))"
    then obtain i where "permission_id db c = Some i" "permission_id db c' = Some i"
      using perms [of c] perms [of c'] by auto
    then show "c = c'" by (rule permission_id_inj [OF ok])
  qed
  then have "distinct (role_permissions ?db)"
    using ok assms(3) by (auto simp: write_role_def distinct_map tables_ok_def)
  moreover have "\<forall>(r, p) \<in> set (role_permissions ?db). r \<in> insert target (role_id ` set (roles db)) \<and> p \<in> cp_id ` set (control_permissions db)"
    using ok perms permission_id_mem [of db] by (force simp: write_role_def tables_ok_def)
  moreover have "user_ids ?db = user_ids db" "control_permissions ?db = control_permissions db"
    "user_roles ?db = user_roles db" "permission_types ?db = permission_types db" "grants ?db = grants db"
    by (simp_all add: write_role_def)
  ultimately show ?thesis
    using ok ids unfolding tables_ok_def by auto
qed

lemma write_ptype_ok:
  assumes ok: "tables_ok db" and free: "\<not> ptype_refused db target code name lv en" and lv: "lv \<noteq> Unknown"
  shows "tables_ok (write_ptype now db target code name lv d en)"
proof -
  let ?db = "write_ptype now db target code name lv d en"
  let ?x = "\<lparr>pt_id = target, pt_code = code, pt_name = name, base_level = lv, pt_description = d,
     pt_system = False, pt_enabled = en, pt_created = now, pt_updated = now\<rparr>"
  have "distinct (map pt_id (permission_types db))" "distinct (map pt_code (permission_types db))"
    using ok by (simp_all add: tables_ok_def)
  then have ids: "distinct (map pt_id (permission_types ?db)) \<and> distinct (map pt_code (permission_types ?db))
      \<and> pt_id ` set (permission_types ?db) = insert target (pt_id ` set (permission_types db))"
    by (rule upsert_two_keys [where v = code and f = "edit_ptype (code, name, lv, d, en, now)" and x = ?x])
      (use free in \<open>auto simp: ptype_refused_def find_row_None_iff write_ptype_def find_id_None\<close>)
  moreover have "\<forall>t \<in> set (permission_types ?db). base_level t \<noteq> Unknown"
    using ok lv by (auto simp: write_ptype_def tables_ok_def set_update_rows)
  moreover have "user_ids ?db = user_ids db" "control_permissions ?db = control_permissions db" "roles ?db = roles db"
    "user_roles ?db = user_roles db" "role_permissions ?db = role_permissions db" "grants ?db = grants db"
    by (simp_all add: write_ptype_def)
  ultimately show ?thesis
    using ok unfolding tables_ok_def by auto
qed

lemma save_role_ok:
  "tables_ok db \<Longrightarrow> save_role now uuid db code0 name d perms given en = Inr (db', target) \<Longrightarrow> tables_ok db'"
  by (auto simp: save_role_def Let_def write_role_ok split: if_splits)

lemma save_permission_type_ok:
  "tables_ok db \<Longrightarrow> save_permission_type now uuid db code0 name level d given en = Inr (db', target) \<Longrightarrow> tables_ok db'"
  by (auto simp: save_permission_type_def Let_def write_ptype_ok split: if_splits option.splits)

lemma write_grant_ok:
  assumes ok: "tables_ok db" and t: "ptype \<in> pt_id ` set (permission_types db)"
    and w: "write_grant now uuid db key ptype creator expires = Inr (db', gid)"
  shows "tables_ok db'"
proof (cases "find_row (\<lambda>g. grant_key g = key) (grants db)")
  case None
  then have "uuid \<notin> grant_id ` set (grants db)" "key \<notin> grant_key ` set (grants db)"
    using w find_id_None [of grant_id uuid "grants db"] find_id_None [of grant_key key "grants db"]
    by (auto simp: write_grant_def split: if_splits)
  with None w ok t show ?thesis
    by (auto simp: write_grant_def tables_ok_def grant_key_def split: prod.splits if_splits)
next
  case (Some h)
  with w ok t show ?thesis
    by (auto simp: write_grant_def tables_ok_def map_update_rows set_update_rows)
qed

lemma save_grant_ok:
  "tables_ok db \<Longrightarrow> save_grant now uuid db stype sid server tcode creator tool expires = Inr (db', gid) \<Longrightarrow> tables_ok db'"
  by (auto simp: save_grant_def split: option.splits if_splits dest!: find_row_SomeD intro: write_grant_ok)

section \<open>Seeding\<close>

lemma fold_seed_link:
  "\<exists>X. fold (seed_link rid) cs db = db\<lparr>role_permissions := X\<rparr>
     \<and> set X = set (role_permissions db) \<union> {(rid, i) | i c. c \<in> set cs \<and> permission_id db c = Some i}
     \<and> (distinct (role_permissions db) \<longrightarrow> distinct X)"
proof (induction cs arbitrary: db)
  case Nil
  show ?case by (intro exI [of _ "role_permissions db"]) simp
next
  case (Cons c cs)
  define db1 where "db1 = seed_link rid c db"
  have 1: "db1 = db\<lparr>role_permissions := role_permissions db1\<rparr>"
    "set (role_permissions db1) = set (role_permissions db) \<union> {(rid, i) | i. permission_id db c = Some i}"
    "distinct (role_permissions db) \<longrightarrow> distinct (role_permissions db1)"
    by (auto simp: db1_def seed_link_def permission_id_def split: option.splits)
  have 2: "permission_id db1 = permission_id db"
    by (subst 1(1)) (simp add: permission_id_def fun_eq_iff)
  obtain X where "fold (seed_link rid) cs db1 = db1\<lparr>role_permissions := X\<rparr>"
    "set X = set (role_permissions db1) \<union> {(rid, i) | i c. c \<in> set cs \<and> permission_id db c = Some i}"
    "distinct (role_permissions db1) \<longrightarrow> distinct X"
    using Cons.IH [of db1] unfolding 2 by blast
  moreover have "db1\<lparr>role_permissions := X\<rparr> = db\<lparr>role_permissions := X\<rparr>" by (subst 1(1)) simp
  ultimately show ?case
    using 1(2,3) by (intro exI [of _ X]) (auto simp flip: db1_def)
qed

lemma insert_ignore_distinct:
  "distinct (map rid rows) \<Longrightarrow> distinct (map code rows) \<Longrightarrow>
   distinct (map rid (insert_ignore rid code r rows)) \<and> distinct (map code (insert_ignore rid code r rows))"
  by (auto simp: insert_ignore_def find_row_None_iff)

lemma set_insert_ignore: "set rows \<subseteq> set (insert_ignore rid code r rows)"
  by (auto simp: insert_ignore_def)

lemma tables_ok_frames:
  "tables_ok db \<Longrightarrow> distinct (map cp_id cs) \<Longrightarrow> distinct (map cp_code cs) \<Longrightarrow>
     cp_id ` set (control_permissions db) \<subseteq> cp_id ` set cs \<Longrightarrow> tables_ok (db\<lparr>control_permissions := cs\<rparr>)"
  "tables_ok db \<Longrightarrow> distinct (map role_id rs) \<Longrightarrow> distinct (map role_code rs) \<Longrightarrow>
     role_id ` set (roles db) \<subseteq> role_id ` set rs \<Longrightarrow> tables_ok (db\<lparr>roles := rs\<rparr>)"
  "tables_ok db \<Longrightarrow> distinct (map pt_id ts) \<Longrightarrow> distinct (map pt_code ts) \<Longrightarrow>
     pt_id ` set (permission_types db) \<subseteq> pt_id ` set ts \<Longrightarrow> \<forall>t \<in> set ts. base_level t \<noteq> Unknown \<Longrightarrow>
     tables_ok (db\<lparr>permission_types := ts\<rparr>)"
  by (auto simp: tables_ok_def)

lemma image_insert_ignore: "rid ` set rows \<subseteq> rid ` set (insert_ignore rid code r rows)"
  by (rule image_mono [OF set_insert_ignore])

lemma seed_permission_ok: "tables_ok db \<Longrightarrow> tables_ok (seed_permission now p db)"
  using insert_ignore_distinct [of cp_id "control_permissions db" cp_code]
  by (cases p) (simp add: seed_permission_def tables_ok_frames(1) image_insert_ignore tables_ok_def [of db])

lemma seed_ptype_ok:
  assumes "tables_ok db" and "p \<in> set SYSTEM_PERMISSION_TYPES"
  shows "tables_ok (seed_ptype now p db)"
proof -
  obtain code name level d where p: "p = (code, name, level, d)" by (cases p) auto
  let ?t = "\<lparr>pt_id = lit ''permission-type-'' @ code, pt_code = code, pt_name = name, base_level = level,
           pt_description = d, pt_system = True, pt_enabled = True, pt_created = now, pt_updated = now\<rparr>"
  have "level \<noteq> Unknown" using assms(2) p by (auto simp: SYSTEM_PERMISSION_TYPES_def)
  moreover have "\<forall>t \<in> set (permission_types db). base_level t \<noteq> Unknown" using assms(1) by (simp add: tables_ok_def)
  ultimately have "\<forall>t \<in> set (insert_ignore pt_id pt_code ?t (permission_types db)). base_level t \<noteq> Unknown"
    by (auto simp: insert_ignore_def)
  then show ?thesis
    using assms(1) insert_ignore_distinct [of pt_id "permission_types db" pt_code ?t]
    by (simp add: p seed_ptype_def tables_ok_frames(3) image_insert_ignore tables_ok_def [of db])
qed

text \<open>
  A system role is seeded under its own id unless its code is taken; the tables the server
  starts from satisfy this at every start.
\<close>

lemma seed_role_ok:
  assumes ok: "tables_ok db" and own: "\<forall>r \<in> set (roles db). role_code r = fst p \<longrightarrow> role_id r = lit ''role-'' @ fst p"
  shows "tables_ok (seed_role now p db)"
proof -
  obtain code name d where p: "p = (code, name, d)" by (cases p) auto
  let ?r = "\<lparr>role_id = lit ''role-'' @ code, role_code = code, role_name = name, role_description = d,
           role_system = True, role_enabled = True, role_created = now, role_updated = now\<rparr>"
  let ?db = "db\<lparr>roles := insert_ignore role_id role_code ?r (roles db)\<rparr>"
  have db: "tables_ok ?db"
    using ok insert_ignore_distinct [of role_id "roles db" role_code ?r]
    by (intro tables_ok_frames(2)) (simp_all add: image_insert_ignore tables_ok_def [of db])
  have mem: "lit ''role-'' @ code \<in> role_id ` set (roles ?db)"
    using own by (force simp: insert_ignore_def find_row_None_iff p)
  obtain X where "fold (seed_link (lit ''role-'' @ code)) (ROLE_PERMISSION_MAP code) ?db = ?db\<lparr>role_permissions := X\<rparr>"
    "set X = set (role_permissions db) \<union> {(lit ''role-'' @ code, i) | i c. c \<in> set (ROLE_PERMISSION_MAP code) \<and> permission_id ?db c = Some i}"
    "distinct X"
    using fold_seed_link [of "lit ''role-'' @ code" "ROLE_PERMISSION_MAP code" ?db] ok by (auto simp: tables_ok_def)
  moreover have "tables_ok (?db\<lparr>role_permissions := X\<rparr>)"
    using db mem calculation(2,3) permission_id_mem [of ?db] unfolding tables_ok_def by fastforce
  ultimately show ?thesis by (simp add: seed_role_def p)
qed

definition reserved_ok :: "access_db \<Rightarrow> bool" where
  "reserved_ok db \<longleftrightarrow> (\<forall>p \<in> set SYSTEM_ROLES. \<forall>r \<in> set (roles db).
     role_code r = fst p \<longrightarrow> role_id r = lit ''role-'' @ fst p)"

lemma system_reserved:
  assumes "tables_ok db" "system_ok db"
  shows "reserved_ok db"
  unfolding reserved_ok_def
proof (intro ballI impI)
  fix p r assume p: "p \<in> set SYSTEM_ROLES" and r: "r \<in> set (roles db)" "role_code r = fst p"
  obtain s where "s \<in> set (roles db)" "role_id s = lit ''role-'' @ fst p" "role_code s = fst p"
    using assms(2) p unfolding system_ok_def by blast
  moreover from this have "r = s"
    using unique_key_eq [of role_code "roles db" r s] assms(1) r by (simp add: tables_ok_def)
  ultimately show "role_id r = lit ''role-'' @ fst p" by simp
qed

lemma seed_frames [simp]:
  "roles (seed_permission now p db) = roles db" "permission_types (seed_permission now p db) = permission_types db"
  "role_permissions (seed_permission now p db) = role_permissions db"
  "roles (seed_link rid c db) = roles db" "permission_types (seed_link rid c db) = permission_types db"
  "control_permissions (seed_link rid c db) = control_permissions db"
  "roles (seed_ptype now q db) = roles db" "role_permissions (seed_ptype now q db) = role_permissions db"
  "control_permissions (seed_ptype now q db) = control_permissions db"
  "permission_types (seed_role now p db) = permission_types db"
  "control_permissions (seed_role now p db) = control_permissions db"
proof -
  show "permission_types (seed_role now p db) = permission_types db"
    "control_permissions (seed_role now p db) = control_permissions db"
  proof -
    obtain code name d where p: "p = (code, name, d)" by (cases p) auto
    have "permission_types (fold (seed_link rid) cs x) = permission_types x
        \<and> control_permissions (fold (seed_link rid) cs x) = control_permissions x" for rid cs x
      using fold_seed_link [of rid cs x] by auto
    then show "permission_types (seed_role now p db) = permission_types db"
      "control_permissions (seed_role now p db) = control_permissions db"
      by (simp_all add: seed_role_def p)
  qed
qed (auto simp: seed_permission_def seed_link_def seed_ptype_def split: prod.splits option.splits)

lemma roles_seed_role:
  "roles (seed_role now (code, name, d) db) = insert_ignore role_id role_code
     \<lparr>role_id = lit ''role-'' @ code, role_code = code, role_name = name, role_description = d,
      role_system = True, role_enabled = True, role_created = now, role_updated = now\<rparr> (roles db)"
proof -
  have "roles (fold (seed_link rid) cs x) = roles x" for rid cs x
    using fold_seed_link [of rid cs x] by auto
  then show ?thesis by (simp add: seed_role_def)
qed

lemma fold_invariant:
  "P s \<Longrightarrow> (\<And>x s. x \<in> set xs \<Longrightarrow> P s \<Longrightarrow> P (f x s)) \<Longrightarrow> P (fold f xs s)"
  by (induction xs arbitrary: s) auto

lemma seed_ok:
  assumes "tables_ok db" "reserved_ok db"
  shows "tables_ok (seed_system_data now db)"
proof -
  have 1: "tables_ok (fold (seed_permission now) CONTROL_PERMISSIONS db) \<and> reserved_ok (fold (seed_permission now) CONTROL_PERMISSIONS db)"
    by (rule fold_invariant) (use assms in \<open>auto simp: seed_permission_ok reserved_ok_def\<close>)
  have 2: "tables_ok (fold (seed_role now) SYSTEM_ROLES x)" if "tables_ok x \<and> reserved_ok x" for x
  proof -
    have "tables_ok (seed_role now p y) \<and> reserved_ok (seed_role now p y)"
      if "p \<in> set SYSTEM_ROLES" "tables_ok y \<and> reserved_ok y" for p y
    proof -
      obtain code name d where p: "p = (code, name, d)" by (cases p) auto
      have "\<forall>r \<in> set (roles y). role_code r = fst p \<longrightarrow> role_id r = lit ''role-'' @ fst p"
        using that unfolding reserved_ok_def by blast
      moreover have "reserved_ok (seed_role now p y)"
        using that(2) by (auto simp: reserved_ok_def roles_seed_role p insert_ignore_def)
      ultimately show ?thesis using seed_role_ok that(2) by blast
    qed
    then have "tables_ok (fold (seed_role now) SYSTEM_ROLES x) \<and> reserved_ok (fold (seed_role now) SYSTEM_ROLES x)"
      by (rule fold_invariant [where P = "\<lambda>y. tables_ok y \<and> reserved_ok y", OF that])
    then show ?thesis ..
  qed
  show ?thesis
    unfolding seed_system_data_def
    by (rule fold_invariant [where P = tables_ok, OF 2 [OF 1]]) (rule seed_ptype_ok)
qed

lemma seed_keeps_rows:
  "set (roles db) \<subseteq> set (roles (seed_system_data now db))
   \<and> set (permission_types db) \<subseteq> set (permission_types (seed_system_data now db))"
proof -
  have "set (roles db) \<subseteq> set (roles x) \<and> set (permission_types db) \<subseteq> set (permission_types x) \<Longrightarrow>
     set (roles db) \<subseteq> set (roles (seed_role now p x)) \<and> set (permission_types db) \<subseteq> set (permission_types (seed_role now p x))" for x p
    by (cases p) (auto simp: roles_seed_role intro: subsetD [OF set_insert_ignore])
  moreover have "set (permission_types x) \<subseteq> set (permission_types (seed_ptype now q x))" for x q
    by (cases q) (simp add: seed_ptype_def set_insert_ignore)
  ultimately show ?thesis
    unfolding seed_system_data_def
    by (intro fold_invariant [where P = "\<lambda>x. set (roles db) \<subseteq> set (roles x) \<and> set (permission_types db) \<subseteq> set (permission_types x)"])
      (simp, simp, blast, simp, blast)
qed

section \<open>Administration as a state machine\<close>

datatype admin_op =
    Seed rat
  | Set_user_roles pystr "pystr list"
  | Save_role rat pystr pystr pystr pystr "pystr list" "pystr option" bool
  | Delete_role pystr
  | Save_permission_type rat pystr pystr pystr pystr pystr "pystr option" bool
  | Delete_permission_type pystr
  | Save_grant rat pystr pystr pystr pystr pystr pystr "pystr option" "stamp option"
  | Delete_grant pystr

definition committed :: "'s \<Rightarrow> 'e + 's \<Rightarrow> 's" where
  "committed db r = (case r of Inl _ \<Rightarrow> db | Inr db' \<Rightarrow> db')"

fun admin_exec :: "admin_op \<Rightarrow> access_db \<Rightarrow> access_db" where
  "admin_exec (Seed now) db = seed_system_data now db"
| "admin_exec (Set_user_roles uid codes) db = committed db (set_user_roles db uid codes)"
| "admin_exec (Save_role now uuid code name d perms given en) db =
     committed db (bindR (save_role now uuid db code name d perms given en) (\<lambda>(db', _). Inr db'))"
| "admin_exec (Delete_role rid) db = committed db (delete_role db rid)"
| "admin_exec (Save_permission_type now uuid code name level d given en) db =
     committed db (bindR (save_permission_type now uuid db code name level d given en) (\<lambda>(db', _). Inr db'))"
| "admin_exec (Delete_permission_type tid) db = committed db (delete_permission_type db tid)"
| "admin_exec (Save_grant now uuid stype sid server tcode creator tool expires) db =
     committed db (bindR (save_grant now uuid db stype sid server tcode creator tool expires) (\<lambda>(db', _). Inr db'))"
| "admin_exec (Delete_grant gid) db = committed db (delete_grant db gid)"

definition admin_run :: "admin_op list \<Rightarrow> access_db \<Rightarrow> access_db" where
  "admin_run ops db = fold admin_exec ops db"

lemma system_ok_mono:
  "system_ok db \<Longrightarrow> set (roles db) \<subseteq> set (roles db') \<Longrightarrow> set (permission_types db) \<subseteq> set (permission_types db') \<Longrightarrow>
   system_ok db'"
  unfolding system_ok_def by blast

lemma system_ok_keeps:
  assumes "system_ok db"
    and r: "\<And>r. r \<in> set (roles db) \<Longrightarrow> role_system r \<Longrightarrow> role_enabled r \<Longrightarrow>
       \<exists>r' \<in> set (roles db'). role_id r' = role_id r \<and> role_code r' = role_code r \<and> role_system r' \<and> role_enabled r'"
    and t: "\<And>t. t \<in> set (permission_types db) \<Longrightarrow> pt_system t \<Longrightarrow> pt_enabled t \<Longrightarrow>
       \<exists>t' \<in> set (permission_types db'). pt_id t' = pt_id t \<and> pt_code t' = pt_code t \<and> base_level t' = base_level t
         \<and> pt_system t' \<and> pt_enabled t'"
  shows "system_ok db'"
  unfolding system_ok_def
proof (intro conjI ballI)
  fix p assume "p \<in> set SYSTEM_ROLES"
  then obtain x where x: "x \<in> set (roles db)" "role_id x = lit ''role-'' @ fst p" "role_code x = fst p" "role_system x" "role_enabled x"
    using assms(1) unfolding system_ok_def by blast
  with r [OF x(1,4,5)]
  show "\<exists>r \<in> set (roles db'). role_id r = lit ''role-'' @ fst p \<and> role_code r = fst p \<and> role_system r \<and> role_enabled r"
    by auto
next
  fix p assume "p \<in> set SYSTEM_PERMISSION_TYPES"
  then obtain x where x: "x \<in> set (permission_types db)" "pt_id x = lit ''permission-type-'' @ fst p" "pt_code x = fst p"
    "base_level x = fst (snd (snd p))" "pt_system x" "pt_enabled x"
    using assms(1) unfolding system_ok_def by blast
  with t [OF x(1,5,6)]
  show "\<exists>t \<in> set (permission_types db'). pt_id t = lit ''permission-type-'' @ fst p \<and> pt_code t = fst p
      \<and> base_level t = fst (snd (snd p)) \<and> pt_system t \<and> pt_enabled t"
    by auto
qed

lemma write_role_system:
  assumes ok: "tables_ok db" "system_ok db" and free: "\<not> role_refused db target code name en codes"
  shows "system_ok (write_role now db target code name d en codes)"
proof -
  have "\<exists>r' \<in> set (roles (write_role now db target code name d en codes)).
      role_id r' = role_id r \<and> role_code r' = role_code r \<and> role_system r' \<and> role_enabled r'"
    if r: "r \<in> set (roles db)" "role_system r" "role_enabled r" for r
  proof (cases "role_id r = target")
    case True
    have f: "find_row (\<lambda>x. role_id x = target) (roles db) = Some r"
      using unique_key_find [of role_id "roles db" r] ok(1) r(1) True by (simp add: tables_ok_def)
    with free r have "code = role_code r" "en" by (auto simp: role_refused_def)
    moreover have "edit_role (code, name, d, en, now) r \<in> set (roles (write_role now db target code name d en codes))"
      using f r True by (auto simp: write_role_def set_update_rows)
    ultimately show ?thesis using r by (intro bexI) auto
  next
    case False
    then have "r \<in> set (roles (write_role now db target code name d en codes))"
      using r by (auto simp: write_role_def set_update_rows)
    with r show ?thesis by blast
  qed
  moreover have "permission_types (write_role now db target code name d en codes) = permission_types db"
    by (simp add: write_role_def)
  ultimately show ?thesis
    using ok(2) by (auto intro!: system_ok_keeps [of db])
qed

lemma write_ptype_system:
  assumes ok: "tables_ok db" "system_ok db" and free: "\<not> ptype_refused db target code name lv en"
  shows "system_ok (write_ptype now db target code name lv d en)"
proof -
  have "\<exists>t' \<in> set (permission_types (write_ptype now db target code name lv d en)).
      pt_id t' = pt_id t \<and> pt_code t' = pt_code t \<and> base_level t' = base_level t \<and> pt_system t' \<and> pt_enabled t'"
    if t: "t \<in> set (permission_types db)" "pt_system t" "pt_enabled t" for t
  proof (cases "pt_id t = target")
    case True
    have f: "find_row (\<lambda>x. pt_id x = target) (permission_types db) = Some t"
      using unique_key_find [of pt_id "permission_types db" t] ok(1) t(1) True by (simp add: tables_ok_def)
    with free t have "code = pt_code t" "lv = base_level t" "en" by (auto simp: ptype_refused_def)
    moreover have "edit_ptype (code, name, lv, d, en, now) t \<in> set (permission_types (write_ptype now db target code name lv d en))"
      using f t True by (auto simp: write_ptype_def set_update_rows)
    ultimately show ?thesis using t by (intro bexI) auto
  next
    case False
    then have "t \<in> set (permission_types (write_ptype now db target code name lv d en))"
      using t by (auto simp: write_ptype_def set_update_rows)
    with t show ?thesis by blast
  qed
  moreover have "roles (write_ptype now db target code name lv d en) = roles db"
    by (simp add: write_ptype_def)
  ultimately show ?thesis
    using ok(2) by (auto intro!: system_ok_keeps [of db])
qed

lemma write_grant_frame:
  "write_grant now uuid db key ptype creator expires = Inr (db', gid) \<Longrightarrow>
   roles db' = roles db \<and> permission_types db' = permission_types db"
  by (auto simp: write_grant_def split: option.splits if_splits prod.splits)

lemma delete_role_system:
  assumes "tables_ok db" "system_ok db" "delete_role db rid = Inr db'"
  shows "system_ok db'"
proof -
  obtain r where r: "find_row (\<lambda>r. role_id r = rid) (roles db) = Some r" "\<not> role_system r"
    and db': "roles db' = delete_rows (\<lambda>r. role_id r = rid) (roles db)" "permission_types db' = permission_types db"
    using assms(3) by (auto simp: delete_role_def split: option.splits if_splits)
  have "role_id s \<noteq> rid" if "s \<in> set (roles db)" "role_system s" for s
  proof
    assume "role_id s = rid"
    moreover have "distinct (map role_id (roles db))" using assms(1) by (simp add: tables_ok_def)
    ultimately have "s = r"
      using unique_key_eq [of role_id "roles db" s r] that(1) find_row_SomeD [OF r(1)] by simp
    with r(2) that(2) show False by simp
  qed
  note keep = this
  show ?thesis
  proof (rule system_ok_keeps [OF assms(2)])
    fix s assume s: "s \<in> set (roles db)" "role_system s" "role_enabled s"
    then show "\<exists>r' \<in> set (roles db'). role_id r' = role_id s \<and> role_code r' = role_code s \<and> role_system r' \<and> role_enabled r'"
      by (intro bexI [of _ s]) (simp_all add: db' keep)
  next
    fix s assume s: "s \<in> set (permission_types db)" "pt_system s" "pt_enabled s"
    then show "\<exists>t' \<in> set (permission_types db'). pt_id t' = pt_id s \<and> pt_code t' = pt_code s
        \<and> base_level t' = base_level s \<and> pt_system t' \<and> pt_enabled t'"
      by (intro bexI [of _ s]) (simp_all add: db')
  qed
qed

lemma delete_permission_type_system:
  assumes "tables_ok db" "system_ok db" "delete_permission_type db tid = Inr db'"
  shows "system_ok db'"
proof -
  obtain t where t: "find_row (\<lambda>t. pt_id t = tid) (permission_types db) = Some t" "\<not> pt_system t"
    and db': "permission_types db' = delete_rows (\<lambda>t. pt_id t = tid) (permission_types db)" "roles db' = roles db"
    using assms(3) by (auto simp: delete_permission_type_def split: option.splits if_splits)
  have "pt_id s \<noteq> tid" if "s \<in> set (permission_types db)" "pt_system s" for s
  proof
    assume "pt_id s = tid"
    moreover have "distinct (map pt_id (permission_types db))" using assms(1) by (simp add: tables_ok_def)
    ultimately have "s = t"
      using unique_key_eq [of pt_id "permission_types db" s t] that(1) find_row_SomeD [OF t(1)] by simp
    with t(2) that(2) show False by simp
  qed
  note keep = this
  show ?thesis
  proof (rule system_ok_keeps [OF assms(2)])
    fix s assume s: "s \<in> set (roles db)" "role_system s" "role_enabled s"
    then show "\<exists>r' \<in> set (roles db'). role_id r' = role_id s \<and> role_code r' = role_code s \<and> role_system r' \<and> role_enabled r'"
      by (intro bexI [of _ s]) (simp_all add: db')
  next
    fix s assume s: "s \<in> set (permission_types db)" "pt_system s" "pt_enabled s"
    then show "\<exists>t' \<in> set (permission_types db'). pt_id t' = pt_id s \<and> pt_code t' = pt_code s
        \<and> base_level t' = base_level s \<and> pt_system t' \<and> pt_enabled t'"
      by (intro bexI [of _ s]) (simp_all add: db' keep)
  qed
qed

lemma save_permission_type_system:
  "tables_ok db \<Longrightarrow> system_ok db \<Longrightarrow>
   save_permission_type now uuid db code0 name level d given en = Inr (db', target) \<Longrightarrow> system_ok db'"
  by (auto simp: save_permission_type_def Let_def write_ptype_system split: if_splits option.splits)

lemma save_role_system:
  "tables_ok db \<Longrightarrow> system_ok db \<Longrightarrow>
   save_role now uuid db code0 name d perms given en = Inr (db', target) \<Longrightarrow> system_ok db'"
  by (auto simp: save_role_def Let_def write_role_system split: if_splits)

lemma admin_exec_inv:
  assumes "tables_ok db \<and> system_ok db"
  shows "tables_ok (admin_exec a db) \<and> system_ok (admin_exec a db)"
proof (cases a)
  case (Seed now)
  then show ?thesis
    using assms seed_ok [OF _ system_reserved, of db now] system_ok_mono [of db "seed_system_data now db"] seed_keeps_rows [of db now]
    by simp
next
  case (Set_user_roles uid codes)
  have "roles db' = roles db \<and> permission_types db' = permission_types db" if "set_user_roles db uid codes = Inr db'" for db'
    using that by (auto simp: set_user_roles_def Let_def split: if_splits)
  with Set_user_roles assms show ?thesis
    using set_user_roles_ok system_ok_mono [of db] by (auto simp: committed_def split: sum.splits)
next
  case (Save_role now uuid code name d perms given en)
  then show ?thesis
    using assms save_role_ok [of db] save_role_system [of db]
    by (cases "save_role now uuid db code name d perms given en") (auto simp: committed_def)
next
  case (Delete_role rid)
  then show ?thesis
    using assms delete_role_ok [of db rid] delete_role_system [of db rid] by (simp add: committed_def split: sum.splits)
next
  case (Save_permission_type now uuid code name level d given en)
  then show ?thesis
    using assms save_permission_type_ok [of db] save_permission_type_system [of db]
    by (cases "save_permission_type now uuid db code name level d given en") (auto simp: committed_def)
next
  case (Delete_permission_type tid)
  then show ?thesis
    using assms delete_permission_type_ok [of db tid] delete_permission_type_system [of db tid]
    by (simp add: committed_def split: sum.splits)
next
  case (Save_grant now uuid stype sid server tcode creator tool expires)
  have "roles db' = roles db \<and> permission_types db' = permission_types db"
    if "save_grant now uuid db stype sid server tcode creator tool expires = Inr (db', gid)" for db' gid
    using that write_grant_frame by (auto simp: save_grant_def split: option.splits if_splits)
  with Save_grant assms show ?thesis
    using save_grant_ok system_ok_mono [of db] by (auto simp: committed_def split: sum.splits prod.splits)
next
  case (Delete_grant gid)
  have "roles db' = roles db \<and> permission_types db' = permission_types db" if "delete_grant db gid = Inr db'" for db'
    using that by (auto simp: delete_grant_def split: if_splits)
  with Delete_grant assms show ?thesis
    using delete_grant_ok system_ok_mono [of db] by (auto simp: committed_def split: sum.splits)
qed

lemma lit_append: "lit s @ lit t = lit (s @ t)"
  by (simp add: lit_def)

lemma roles_fold_seed:
  "roles (fold (seed_permission now) ps db) = roles db" "permission_types (fold (seed_permission now) ps db) = permission_types db"
  "roles (fold (seed_ptype now) qs db) = roles db" "permission_types (fold (seed_role now) ps db) = permission_types db"
  by (induction ps arbitrary: db, simp_all, induction qs arbitrary: db, simp_all)

lemma seeded_empty: "tables_ok (seed_system_data now (empty_db us)) \<and> system_ok (seed_system_data now (empty_db us))"
proof -
  have "tables_ok (empty_db us)" "reserved_ok (empty_db us)"
    by (simp_all add: empty_db_def tables_ok_def reserved_ok_def)
  moreover have "map role_id (roles (seed_system_data now (empty_db us))) = [lit ''role-admin'', lit ''role-operator'', lit ''role-viewer'']"
    "map role_code (roles (seed_system_data now (empty_db us))) = [lit ''admin'', lit ''operator'', lit ''viewer'']"
    "\<forall>r \<in> set (roles (seed_system_data now (empty_db us))). role_system r \<and> role_enabled r"
    by (simp_all add: seed_system_data_def roles_fold_seed SYSTEM_ROLES_def roles_seed_role insert_ignore_def find_row_def
        empty_db_def lit_append)
  moreover have "map pt_id (permission_types (seed_system_data now (empty_db us))) =
      [lit ''permission-type-none'', lit ''permission-type-read'', lit ''permission-type-write'']"
    "map pt_code (permission_types (seed_system_data now (empty_db us))) = [lit ''none'', lit ''read'', lit ''write'']"
    "map base_level (permission_types (seed_system_data now (empty_db us))) = [No_access, Read, Write]"
    "\<forall>t \<in> set (permission_types (seed_system_data now (empty_db us))). pt_system t \<and> pt_enabled t"
    by (simp_all add: seed_system_data_def roles_fold_seed SYSTEM_PERMISSION_TYPES_def seed_ptype_def insert_ignore_def find_row_def
        empty_db_def lit_append)
  ultimately show ?thesis
    by (auto simp: seed_ok system_ok_def SYSTEM_ROLES_def SYSTEM_PERMISSION_TYPES_def lit_append map_eq_Cons_conv)
qed

interpretation admin_machine: machine "\<lambda>db. \<exists>now us. db = seed_system_data now (empty_db us)"
  "\<lambda>db a db'. db' = admin_exec a db" "\<lambda>db. tables_ok db \<and> system_ok db"
proof unfold_locales
  show "tables_ok db \<and> system_ok db" if "\<exists>now us. db = seed_system_data now (empty_db us)" for db
    using that seeded_empty by auto
  show "tables_ok db' \<and> system_ok db'" if "tables_ok db \<and> system_ok db" "db' = admin_exec a db" for db a db'
    using that admin_exec_inv by simp
qed

lemma admin_run_run: "admin_machine.run db ops (admin_run ops db)"
  by (induction ops arbitrary: db)
    (auto simp: admin_run_def intro: admin_machine.run_Nil admin_machine.run_Cons)

text \<open>
  Administration keeps the access tables well formed.  After the first start and any sequence
  of administrative operations and restarts, with any arguments: role ids and codes, permission
  ids and codes, permission type ids and codes, grant ids and grant targets are unique; every
  assignment, role permission and grant refers to existing rows; no permission type has an
  undefined level; and the built-in roles and the three built-in levels are still present,
  enabled, with their original codes and levels.
\<close>

lemma admin_tables_invariant:
  "tables_ok (admin_run ops (seed_system_data now (empty_db us)))
   \<and> system_ok (admin_run ops (seed_system_data now (empty_db us)))"
  using admin_machine.run_from_init [OF admin_run_run] by blast

section \<open>Reading back what was written\<close>

lemma set_roles_for_user:
  "set (roles_for_user db uid) = {role_code r | r. r \<in> set (roles db) \<and> role_enabled r \<and> (uid, role_id r) \<in> set (user_roles db)}"
  by (force simp: roles_for_user_def split: if_splits)

lemma set_role_permission_codes:
  "set (role_permission_codes db rid) = {cp_code p | p. p \<in> set (control_permissions db) \<and> (rid, cp_id p) \<in> set (role_permissions db)}"
  by (force simp: role_permission_codes_def split: if_splits)

lemma set_permissions_for_user:
  "set (permissions_for_user db uid) = (\<Union>r \<in> {r \<in> set (roles db). role_enabled r \<and> (uid, role_id r) \<in> set (user_roles db)}.
     set (role_permission_codes db (role_id r)))"
proof -
  have "x \<in> set (permissions_for_user db uid) \<longleftrightarrow> (\<exists>(u, rid) \<in> set (user_roles db). u = uid
      \<and> (\<exists>r \<in> set (roles db). role_id r = rid \<and> role_enabled r \<and> x \<in> set (role_permission_codes db rid)))" for x
    by (auto simp: permissions_for_user_def split: if_splits; fastforce)
  then show ?thesis by (auto split: prod.splits)
qed

lemma roles_for_user_cong:
  "roles db' = roles db \<Longrightarrow> filter (\<lambda>(u, _). u = uid) (user_roles db') = filter (\<lambda>(u, _). u = uid) (user_roles db) \<Longrightarrow>
   roles_for_user db' uid = roles_for_user db uid"
proof -
  have "concat (map (\<lambda>(u, rid). if u = uid then f rid else []) xs) =
      concat (map (\<lambda>(u, rid). f rid) (filter (\<lambda>(u, _). u = uid) xs))" for f :: "pystr \<Rightarrow> role_row list" and xs
    by (induction xs) auto
  then show "roles db' = roles db \<Longrightarrow> filter (\<lambda>(u, _). u = uid) (user_roles db') = filter (\<lambda>(u, _). u = uid) (user_roles db) \<Longrightarrow> ?thesis"
    unfolding roles_for_user_def by simp
qed

text \<open>
  Role assignment.  When \<^verbatim>\<open>set_user_roles\<close> succeeds, the user's roles are exactly the
  requested codes (trimmed, blanks dropped), nobody else's roles change; and it refuses exactly
  when no code is given, a code does not name an enabled role, or the user does not exist.
\<close>

lemma set_user_roles_exact:
  assumes ok: "tables_ok db"
  shows "case set_user_roles db uid codes of
     Inr db' \<Rightarrow> set (roles_for_user db' uid) = set (clean_codes codes)
       \<and> (\<forall>u. u \<noteq> uid \<longrightarrow> roles_for_user db' u = roles_for_user db u)
   | Inl _ \<Rightarrow> clean_codes codes = [] \<or> uid \<notin> set (user_ids db)
       \<or> (\<exists>c \<in> set (clean_codes codes). \<forall>r \<in> set (roles db). role_code r = c \<longrightarrow> \<not> role_enabled r)"
proof -
  let ?cs = "clean_codes codes"
  let ?rows = "filter (\<lambda>r. role_code r \<in> set ?cs \<and> role_enabled r) (roles db)"
  have d: "distinct (map role_code ?rows)" using ok by (simp add: tables_ok_def distinct_map_filter)
  have sub: "set (map role_code ?rows) \<subseteq> set ?cs" by auto
  have len: "length ?rows = card (set (map role_code ?rows))" using distinct_card [OF d] by simp
  have all: "length ?rows = length ?cs \<longleftrightarrow> set (map role_code ?rows) = set ?cs"
    using sub card_subset_eq [of "set ?cs" "set (map role_code ?rows)"] len distinct_card [OF distinct_clean_codes, of codes] by auto
  show ?thesis
  proof (cases "set_user_roles db uid codes")
    case (Inl e)
    then have "?cs = [] \<or> length ?rows \<noteq> length ?cs \<or> uid \<notin> set (user_ids db)"
      by (auto simp: set_user_roles_def Let_def split: if_splits)
    moreover have "\<exists>c \<in> set ?cs. \<forall>r \<in> set (roles db). role_code r = c \<longrightarrow> \<not> role_enabled r" if "length ?rows \<noteq> length ?cs"
    proof -
      have "set (map role_code ?rows) \<noteq> set ?cs" using that all by simp
      with sub obtain c where "c \<in> set ?cs" "c \<notin> set (map role_code ?rows)" by blast
      then show ?thesis by (intro bexI [of _ c]) auto
    qed
    ultimately show ?thesis using Inl by auto
  next
    case (Inr db')
    then have rows: "set (map role_code ?rows) = set ?cs"
      and db': "db' = db\<lparr>user_roles := delete_rows (\<lambda>(u, _). u = uid) (user_roles db) @ map (\<lambda>r. (uid, role_id r)) ?rows\<rparr>"
      using all by (auto simp: set_user_roles_def Let_def split: if_splits)
    have mine: "(uid, role_id r) \<in> set (user_roles db') \<longleftrightarrow> r \<in> set ?rows" if "r \<in> set (roles db)" for r
    proof -
      have "distinct (map role_id (roles db))" using ok by (simp add: tables_ok_def)
      then have "role_id r = role_id q \<Longrightarrow> q \<in> set ?rows \<Longrightarrow> r = q" for q
        using that unique_key_eq [of role_id "roles db" r q] by simp
      then have "(uid, role_id r) \<in> set (map (\<lambda>r. (uid, role_id r)) ?rows) \<longleftrightarrow> r \<in> set ?rows" by auto
      then show ?thesis by (simp add: db')
    qed
    have "set (roles_for_user db' uid) = role_code ` set ?rows"
      unfolding set_roles_for_user using mine by (auto simp: db')
    moreover have "roles_for_user db' u = roles_for_user db u" if "u \<noteq> uid" for u
      using that by (intro roles_for_user_cong) (auto simp: db' delete_rows_def comp_def filter_map intro!: filter_cong)
    ultimately show ?thesis using Inr rows by simp
  qed
qed

lemma seed_roles_eval:
  "map (\<lambda>r. (role_id r, role_code r, role_enabled r)) (roles (seed_system_data now (empty_db us))) =
     [(lit ''role-admin'', lit ''admin'', True), (lit ''role-operator'', lit ''operator'', True), (lit ''role-viewer'', lit ''viewer'', True)]"
  by (simp add: seed_system_data_def roles_fold_seed SYSTEM_ROLES_def roles_seed_role insert_ignore_def find_row_def
      empty_db_def lit_append)

lemma user_ids_seed [simp]: "user_ids (seed_system_data now db) = user_ids db"
proof -
  have "user_ids (seed_permission now p x) = user_ids x" "user_ids (seed_ptype now q x) = user_ids x" for p q x
    by (simp_all add: seed_permission_def seed_ptype_def split: prod.splits)
  moreover have "user_ids (seed_role now p x) = user_ids x" for p x
  proof -
    have "user_ids (fold (seed_link rid) cs y) = user_ids y" for rid cs y
      using fold_seed_link [of rid cs y] by auto
    then show ?thesis by (simp add: seed_role_def split: prod.splits)
  qed
  ultimately show ?thesis
    unfolding seed_system_data_def by (intro fold_invariant [where P = "\<lambda>x. user_ids x = user_ids db"]) simp_all
qed

definition demo_db :: access_db where
  "demo_db = seed_system_data 0 (empty_db [lit ''u1'', lit ''u2''])"

lemma set_user_roles_exact_witness:
  "\<exists>db'. set_user_roles demo_db (lit ''u1'') [lit '' viewer '', []] = Inr db'
     \<and> set (roles_for_user db' (lit ''u1'')) = {lit ''viewer''}"
proof -
  have c: "clean_codes [lit '' viewer '', []] = [lit ''viewer'']"
    by (simp add: clean_codes_def strip_def strip_by_def lit_def py_space_def)
  have "map (\<lambda>r. (role_code r, role_enabled r)) (roles demo_db) = [(lit ''admin'', True), (lit ''operator'', True), (lit ''viewer'', True)]"
    using arg_cong [OF seed_roles_eval [of 0 "[lit ''u1'', lit ''u2'']"], of "map snd"] by (simp add: demo_db_def comp_def)
  then obtain a b d where "roles demo_db = [a, b, d]" "role_code a = lit ''admin''" "role_code b = lit ''operator''"
    "role_code d = lit ''viewer''" "role_enabled d"
    by (auto simp: map_eq_Cons_conv)
  moreover have "lit ''u1'' \<in> set (user_ids demo_db)" by (simp add: demo_db_def empty_db_def)
  ultimately obtain db' where "set_user_roles demo_db (lit ''u1'') [lit '' viewer '', []] = Inr db'"
    by (simp add: set_user_roles_def c Let_def)
  then show ?thesis
    using set_user_roles_exact [where db = demo_db and uid = "lit ''u1''" and codes = "[lit '' viewer '', []]"] seeded_empty c
    by (simp add: demo_db_def)
qed

lemma role_permission_codes_cong:
  "control_permissions db' = control_permissions db \<Longrightarrow>
   filter (\<lambda>(r, _). r = rid) (role_permissions db') = filter (\<lambda>(r, _). r = rid) (role_permissions db) \<Longrightarrow>
   role_permission_codes db' rid = role_permission_codes db rid"
proof -
  have "concat (map (\<lambda>(r, pid). if r = rid then f pid else []) xs) =
      concat (map (\<lambda>(r, pid). f pid) (filter (\<lambda>(r, _). r = rid) xs))" for f :: "pystr \<Rightarrow> pystr list" and xs
    by (induction xs) auto
  then show "control_permissions db' = control_permissions db \<Longrightarrow>
   filter (\<lambda>(r, _). r = rid) (role_permissions db') = filter (\<lambda>(r, _). r = rid) (role_permissions db) \<Longrightarrow> ?thesis"
    unfolding role_permission_codes_def by simp
qed

text \<open>
  Saving a role.  A successful \<^verbatim>\<open>save_role\<close> leaves the role with the normalised code, the
  trimmed name, the requested switch and exactly the requested permissions, whatever it had
  before; every other role and its permissions are untouched.
\<close>

lemma save_role_exact:
  assumes ok: "tables_ok db"
    and saved: "save_role now uuid db code0 name d perms given en = Inr (db', target)"
  shows "set (role_permission_codes db' target) = set (clean_codes perms)
     \<and> (\<forall>rid. rid \<noteq> target \<longrightarrow> role_permission_codes db' rid = role_permission_codes db rid)
     \<and> (\<exists>r \<in> set (roles db'). role_id r = target \<and> normalize_code code0 = Inr (role_code r)
          \<and> role_name r = strip name \<and> role_enabled r = en)
     \<and> (\<forall>r. role_id r \<noteq> target \<longrightarrow> (r \<in> set (roles db') \<longleftrightarrow> r \<in> set (roles db)))"
proof -
  from saved obtain code where code: "normalize_code code0 = Inr code"
    and free: "\<not> role_refused db target code (strip name) en (clean_codes perms)"
    and db': "db' = write_role now db target code (strip name) (strip d) en (clean_codes perms)"
    by (auto simp: save_role_def Let_def split: if_splits)
  have perms: "\<exists>p \<in> set (control_permissions db). permission_id db c = Some (cp_id p) \<and> cp_code p = c"
    if c: "c \<in> set (clean_codes perms)" for c
  proof -
    obtain p where p: "find_row (\<lambda>p. cp_code p = c) (control_permissions db) = Some p"
      using free c by (auto simp: role_refused_def permission_id_def)
    then show ?thesis
      using find_row_SomeD [OF p] by (intro bexI [of _ p]) (simp_all add: permission_id_def)
  qed
  have cp: "control_permissions db' = control_permissions db" by (simp add: db' write_role_def)
  have link: "(target, cp_id p) \<in> set (role_permissions db') \<longleftrightarrow> cp_code p \<in> set (clean_codes perms)"
    if "p \<in> set (control_permissions db)" for p
  proof -
    have "(target, cp_id p) \<in> set (role_permissions db') \<longleftrightarrow> (\<exists>c \<in> set (clean_codes perms). cp_id p = the (permission_id db c))"
      by (auto simp: db' write_role_def)
    also have "\<dots> \<longleftrightarrow> cp_code p \<in> set (clean_codes perms)"
    proof
      assume "\<exists>c \<in> set (clean_codes perms). cp_id p = the (permission_id db c)"
      then obtain c q where "c \<in> set (clean_codes perms)" "q \<in> set (control_permissions db)" "cp_code q = c" "cp_id p = cp_id q"
        using perms by force
      then show "cp_code p \<in> set (clean_codes perms)"
        using unique_key_eq [of cp_id "control_permissions db" p q] that ok by (auto simp: tables_ok_def)
    next
      assume c: "cp_code p \<in> set (clean_codes perms)"
      then obtain q where "q \<in> set (control_permissions db)" "permission_id db (cp_code p) = Some (cp_id q)" "cp_code q = cp_code p"
        using perms by blast
      moreover from this have "q = p"
        using unique_key_eq [of cp_code "control_permissions db" q p] that ok by (auto simp: tables_ok_def)
      ultimately show "\<exists>c \<in> set (clean_codes perms). cp_id p = the (permission_id db c)" using c by force
    qed
    finally show ?thesis .
  qed
  have "set (role_permission_codes db' target) = set (clean_codes perms)"
    unfolding set_role_permission_codes cp using link perms by force
  moreover have "role_permission_codes db' rid = role_permission_codes db rid" if "rid \<noteq> target" for rid
    using that by (intro role_permission_codes_cong)
      (auto simp: db' write_role_def delete_rows_def comp_def filter_map intro!: filter_cong)
  moreover have "\<exists>r \<in> set (roles db'). role_id r = target \<and> normalize_code code0 = Inr (role_code r)
          \<and> role_name r = strip name \<and> role_enabled r = en"
  proof (cases "find_row (\<lambda>r. role_id r = target) (roles db)")
    case None
    then show ?thesis by (auto simp: db' write_role_def code)
  next
    case (Some r)
    then have "edit_role (code, strip name, strip d, en, now) r \<in> set (roles db')" "role_id r = target"
      by (auto simp: db' write_role_def set_update_rows dest: find_row_SomeD)
    then show ?thesis by (intro bexI) (auto simp: code edit_role_def)
  qed
  moreover have "\<forall>r. role_id r \<noteq> target \<longrightarrow> (r \<in> set (roles db') \<longleftrightarrow> r \<in> set (roles db))"
    by (auto simp: db' write_role_def set_update_rows)
  ultimately show ?thesis by blast
qed

section \<open>Built-in permissions across restarts\<close>

definition perms_ok :: "access_db \<Rightarrow> bool" where
  "perms_ok db \<longleftrightarrow> (\<forall>p \<in> set (control_permissions db). cp_id p = lit ''permission-'' @ cp_code p)"

lemma fold_seed_permission:
  "perms_ok db \<Longrightarrow> perms_ok (fold (seed_permission now) ps db) \<and>
   cp_code ` set (control_permissions (fold (seed_permission now) ps db)) = cp_code ` set (control_permissions db) \<union> fst ` set ps"
proof (induction ps arbitrary: db)
  case (Cons p ps)
  obtain code name d where p: "p = (code, name, d)" by (cases p) auto
  have "perms_ok (seed_permission now p db) \<and>
      cp_code ` set (control_permissions (seed_permission now p db)) = insert code (cp_code ` set (control_permissions db))"
    using Cons.prems by (auto simp: perms_ok_def seed_permission_def p insert_ignore_def find_row_None_iff dest!: find_row_SomeD)
  with Cons.IH [of "seed_permission now p db"] show ?case by (auto simp: p)
qed simp

lemma fold_seed_role_ptype [simp]:
  "control_permissions (fold (seed_role now) ps db) = control_permissions db"
  "control_permissions (fold (seed_ptype now) qs db) = control_permissions db"
  "role_permissions (fold (seed_ptype now) qs db) = role_permissions db"
  by (induction ps arbitrary: db, simp_all, induction qs arbitrary: db, simp_all, induction qs arbitrary: db, simp_all)

lemma control_permissions_seed:
  "control_permissions (seed_system_data now db) = control_permissions (fold (seed_permission now) CONTROL_PERMISSIONS db)"
  by (simp add: seed_system_data_def)

lemma role_permissions_seed:
  "role_permissions (seed_system_data now db) =
   role_permissions (fold (seed_role now) SYSTEM_ROLES (fold (seed_permission now) CONTROL_PERMISSIONS db))"
  by (simp add: seed_system_data_def)

lemma permission_id_code:
  assumes "c \<in> cp_code ` set (control_permissions db)"
  shows "\<exists>p \<in> set (control_permissions db). cp_code p = c \<and> permission_id db c = Some (cp_id p)"
proof -
  obtain p where p: "find_row (\<lambda>p. cp_code p = c) (control_permissions db) = Some p"
    using assms find_id_None [of cp_code c "control_permissions db"] by auto
  then show ?thesis
    using find_row_SomeD [OF p] by (intro bexI [of _ p]) (simp_all add: permission_id_def)
qed

lemma role_permissions_seed_role:
  "set (role_permissions (seed_role now (code, name, d) db)) =
     set (role_permissions db) \<union> {(lit ''role-'' @ code, i) | i c. c \<in> set (ROLE_PERMISSION_MAP code) \<and> permission_id db c = Some i}"
proof -
  have "set (role_permissions (fold (seed_link rid) cs x)) =
      set (role_permissions x) \<union> {(rid, i) | i c. c \<in> set cs \<and> permission_id x c = Some i}" for rid cs x
    using fold_seed_link [of rid cs x] by auto
  then show ?thesis by (simp add: seed_role_def permission_id_def)
qed

lemma permission_id_seed_role [simp]: "permission_id (seed_role now p db) = permission_id db"
  by (simp add: permission_id_def fun_eq_iff)

lemma role_permissions_fold:
  "(code, name, d) \<in> set ps \<Longrightarrow> c \<in> set (ROLE_PERMISSION_MAP code) \<Longrightarrow> permission_id db c = Some i \<Longrightarrow>
   (lit ''role-'' @ code, i) \<in> set (role_permissions (fold (seed_role now) ps db))"
proof (induction ps arbitrary: db)
  case (Cons p ps)
  have mono: "set (role_permissions x) \<subseteq> set (role_permissions (fold (seed_role now) ps x))" for x
  proof (induction ps arbitrary: x)
    case (Cons q qs)
    obtain a b e where "q = (a, b, e)" by (cases q) auto
    then have "set (role_permissions x) \<subseteq> set (role_permissions (seed_role now q x))"
      by (simp add: role_permissions_seed_role)
    with Cons [of "seed_role now q x"] show ?case by simp
  qed simp
  show ?case
  proof (cases "p = (code, name, d)")
    case True
    then have "(lit ''role-'' @ code, i) \<in> set (role_permissions (seed_role now p db))"
      using Cons.prems by (auto simp: role_permissions_seed_role)
    with mono show ?thesis by auto
  next
    case False
    then show ?thesis using Cons by simp
  qed
qed simp

lemma admin_exec_perms: "perms_ok db \<Longrightarrow> perms_ok (admin_exec a db)"
proof -
  have "control_permissions (admin_exec a db) = control_permissions db" if "\<not> (\<exists>now. a = Seed now)"
    using that
    by (cases a) (simp_all add: committed_def set_user_roles_def save_role_def write_role_def delete_role_def save_permission_type_def
        write_ptype_def delete_permission_type_def save_grant_def write_grant_def delete_grant_def Let_def bindR_def
        split: sum.split option.split prod.split)
  moreover assume "perms_ok db"
  ultimately show ?thesis
    using fold_seed_permission by (cases "\<exists>now. a = Seed now") (auto simp: perms_ok_def control_permissions_seed)
qed

lemma admin_run_perms: "perms_ok db \<Longrightarrow> perms_ok (admin_run ops db)"
  unfolding admin_run_def by (rule fold_invariant [where P = perms_ok]) (auto simp: admin_exec_perms)

lemma role_map_known: "(code, name, d) \<in> set SYSTEM_ROLES \<Longrightarrow> set (ROLE_PERMISSION_MAP code) \<subseteq> fst ` set CONTROL_PERMISSIONS"
  by (auto simp: SYSTEM_ROLES_def ROLE_PERMISSION_MAP_def CONTROL_PERMISSIONS_def)

text \<open>
  Every start restores the built-in permission sets.  Whatever the administration did before
  (including removing permissions from a built-in role, which \<^verbatim>\<open>save_role\<close> accepts), after the
  next start each built-in role again holds at least the permissions of
  \<^verbatim>\<open>ROLE_PERMISSION_MAP\<close>: removals from a built-in role last only until the server restarts.
\<close>

lemma restart_restores_builtin_permissions:
  "list_all (\<lambda>(code, name, d).
     set (ROLE_PERMISSION_MAP code) \<subseteq>
     set (role_permission_codes (admin_run (ops @ [Seed now']) (seed_system_data now (empty_db us))) (lit ''role-'' @ code)))
     SYSTEM_ROLES"
proof -
  let ?db = "admin_run ops (seed_system_data now (empty_db us))"
  have "perms_ok (seed_system_data now (empty_db us))"
    using fold_seed_permission [of "empty_db us" now CONTROL_PERMISSIONS] by (simp add: perms_ok_def control_permissions_seed empty_db_def)
  then have ok: "perms_ok ?db" by (rule admin_run_perms)
  let ?p = "fold (seed_permission now') CONTROL_PERMISSIONS ?db"
  have run: "admin_run (ops @ [Seed now']) (seed_system_data now (empty_db us)) = seed_system_data now' ?db"
    by (simp add: admin_run_def)
  have "c \<in> set (role_permission_codes (seed_system_data now' ?db) (lit ''role-'' @ code))"
    if r: "(code, name, d) \<in> set SYSTEM_ROLES" and c: "c \<in> set (ROLE_PERMISSION_MAP code)" for code name d c
  proof -
    have "c \<in> cp_code ` set (control_permissions ?p)"
    proof -
      have "c \<in> fst ` set CONTROL_PERMISSIONS" using role_map_known [OF r] c by (rule subsetD)
      then show ?thesis using conjunct2 [OF fold_seed_permission [OF ok, of now' CONTROL_PERMISSIONS]] by simp
    qed
    then obtain p where p: "p \<in> set (control_permissions ?p)" "cp_code p = c" "permission_id ?p c = Some (cp_id p)"
      using permission_id_code by blast
    have "(lit ''role-'' @ code, cp_id p) \<in> set (role_permissions (seed_system_data now' ?db))"
      unfolding role_permissions_seed by (rule role_permissions_fold [OF r c p(3)])
    with p show ?thesis
      unfolding set_role_permission_codes control_permissions_seed by blast
  qed
  then show ?thesis unfolding run list_all_iff by blast
qed

text \<open>
  Grants of a deleted role survive it.  \<^verbatim>\<open>delete_role\<close> removes the role and its permissions but
  keeps every resource grant made to it; saving a role again under the same id (which the update
  route accepts for an unknown id) makes those grants effective again for its new members.
\<close>

lemma deleted_role_keeps_grants:
  assumes "delete_role db rid = Inr db1"
    and "save_role now uuid db1 code name d perms (Some rid) en = Inr (db2, target)" and "rid \<noteq> []"
  shows "target = rid \<and> grants db2 = grants db \<and> rid \<notin> role_id ` set (roles db1) \<and> rid \<in> role_id ` set (roles db2)"
proof -
  have 1: "grants db1 = grants db" "roles db1 = delete_rows (\<lambda>r. role_id r = rid) (roles db)"
    using assms(1) by (auto simp: delete_role_def split: option.splits if_splits)
  then have gone: "rid \<notin> role_id ` set (roles db1)" by auto
  have t: "target = rid" "\<exists>c n d' cs. db2 = write_role now db1 rid c n d' en cs"
    using assms(2,3) by (auto simp: save_role_def target_id_def Let_def split: if_splits)
  with gone 1 show ?thesis
    using find_id_None [of role_id rid "roles db1"] by (auto simp: write_role_def)
qed

definition demo_role :: "access_error + access_db \<times> pystr" where
  "demo_role = save_role 1 (lit ''a1'') demo_db (lit ''Ops Team'') (lit ''Ops'') [] [] None True"

lemma demo_role_code: "normalize_code (lit ''Ops Team'') = Inr (lit ''ops-team'')"
  by (simp add: normalize_code_def strip_def strip_by_def lit_def py_space_def lower_def lower_char_def code_char_def lower_alnum_def)

lemma demo_role_saved: "\<exists>db'. demo_role = Inr (db', lit ''role-a1'')"
proof -
  have "map (\<lambda>r. (role_id r, role_code r)) (roles demo_db) =
      [(lit ''role-admin'', lit ''admin''), (lit ''role-operator'', lit ''operator''), (lit ''role-viewer'', lit ''viewer'')]"
    using arg_cong [OF seed_roles_eval [of 0 "[lit ''u1'', lit ''u2'']"], of "map (\<lambda>(i, c, _). (i, c))"]
    by (simp add: demo_db_def comp_def)
  then obtain a b c where "roles demo_db = [a, b, c]" "role_id a = lit ''role-admin''" "role_code a = lit ''admin''"
    "role_id b = lit ''role-operator''" "role_code b = lit ''operator''" "role_id c = lit ''role-viewer''" "role_code c = lit ''viewer''"
    by (auto simp: map_eq_Cons_conv)
  moreover have "strip (lit ''Ops'') \<noteq> []" "clean_codes [] = []"
    by (simp_all add: strip_def strip_by_def lit_def py_space_def clean_codes_def)
  ultimately show ?thesis
    by (simp add: demo_role_def save_role_def demo_role_code target_id_def role_refused_def find_row_def lit_append Let_def)
qed

lemma save_role_exact_witness:
  "\<exists>db'. demo_role = Inr (db', lit ''role-a1'') \<and> set (role_permission_codes db' (lit ''role-a1'')) = {}
     \<and> (\<exists>r \<in> set (roles db'). role_id r = lit ''role-a1'' \<and> role_code r = lit ''ops-team'')"
proof -
  obtain db' where s: "demo_role = Inr (db', lit ''role-a1'')" using demo_role_saved by blast
  have "tables_ok demo_db" using seeded_empty by (simp add: demo_db_def)
  from save_role_exact [OF this s [unfolded demo_role_def]] s show ?thesis
    by (intro exI [of _ db']) (auto simp: demo_role_code clean_codes_def)
qed

lemma deleted_role_keeps_grants_witness:
  "\<exists>db db1 db2. delete_role db (lit ''role-a1'') = Inr db1
     \<and> save_role 2 [] db1 (lit ''Ops Team'') (lit ''Ops'') [] [] (Some (lit ''role-a1'')) True = Inr (db2, lit ''role-a1'')
     \<and> grants db2 = grants db"
proof -
  have roles: "map role_id (roles demo_db) = [lit ''role-admin'', lit ''role-operator'', lit ''role-viewer'']"
    "map role_code (roles demo_db) = [lit ''admin'', lit ''operator'', lit ''viewer'']"
    using arg_cong [OF seed_roles_eval [of 0 "[lit ''u1'', lit ''u2'']"], of "map fst"]
      arg_cong [OF seed_roles_eval [of 0 "[lit ''u1'', lit ''u2'']"], of "map (\<lambda>x. fst (snd x))"]
    by (simp_all add: demo_db_def comp_def)
  let ?x = "\<lparr>role_id = lit ''role-a1'', role_code = lit ''x'', role_name = lit ''x'', role_description = [], role_system = False,
     role_enabled = True, role_created = 0, role_updated = 0\<rparr>"
  let ?db = "demo_db\<lparr>roles := roles demo_db @ [?x], user_roles := []\<rparr>"
  let ?db1 = "demo_db\<lparr>roles := roles demo_db, user_roles := [], role_permissions := delete_rows (\<lambda>(r, _). r = lit ''role-a1'') (role_permissions demo_db)\<rparr>"
  obtain a b c where r: "roles demo_db = [a, b, c]" "role_id a = lit ''role-admin''" "role_code a = lit ''admin''"
    "role_id b = lit ''role-operator''" "role_code b = lit ''operator''" "role_id c = lit ''role-viewer''" "role_code c = lit ''viewer''"
    using roles by (auto simp: map_eq_Cons_conv)
  have 1: "delete_role ?db (lit ''role-a1'') = Inr ?db1"
    by (simp add: delete_role_def r find_row_def delete_rows_def)
  have "strip (lit ''Ops'') \<noteq> []" "clean_codes [] = []"
    by (simp_all add: strip_def strip_by_def lit_def py_space_def clean_codes_def)
  then obtain db2 where 2: "save_role 2 [] ?db1 (lit ''Ops Team'') (lit ''Ops'') [] [] (Some (lit ''role-a1'')) True = Inr (db2, lit ''role-a1'')"
    by (simp add: save_role_def demo_role_code target_id_def role_refused_def find_row_def r Let_def)
  have "grants db2 = grants ?db" using deleted_role_keeps_grants [OF 1 2] by simp
  with 1 2 show ?thesis by blast
qed

end
