(* ===== verification/Authorization_Policy.thy ===== *)
theory Authorization_Policy
  imports Json_Structure Access_Tables
begin

text \<open>
  \<^verbatim>\<open>mcp_authorization_policy.py\<close> and \<^verbatim>\<open>domain/oauth_management.py\<close>: the identity of an MCP server
  that a continuing authorization is bound to, the validation of bound policies and management
  targets, and the fingerprints of tools.  Digests, the clock format and the file system are
  parameters: \<open>sha256\<close> is \<^verbatim>\<open>hashlib.sha256(...).hexdigest()\<close> of the UTF-8 text, \<open>isoformat\<close> is
  \<^verbatim>\<open>datetime.isoformat\<close>, \<open>frepr\<close> is \<^verbatim>\<open>float.__repr__\<close>.
\<close>

record gate_env =
  sha256 :: "pystr \<Rightarrow> pystr"
  frepr :: "pyfloat \<Rightarrow> pystr"
  isoformat :: "rat \<Rightarrow> pystr"

section \<open>Canonical JSON\<close>

definition key_text :: "pyval \<Rightarrow> pystr" where
  "key_text v = (case v of PStr s \<Rightarrow> s | _ \<Rightarrow> [])"

text \<open>\<^verbatim>\<open>sort_keys=True\<close>: every object is written with its members in key order.\<close>

function sorted_json :: "pyval \<Rightarrow> pyval" where
  "sorted_json v =
     (case v of
        PDict kvs \<Rightarrow> PDict (sort_key (\<lambda>(k, _). key_text k) (map (\<lambda>(k, c). (k, sorted_json c)) kvs))
      | PProxy kvs \<Rightarrow> PDict (sort_key (\<lambda>(k, _). key_text k) (map (\<lambda>(k, c). (k, sorted_json c)) kvs))
      | PList xs \<Rightarrow> PList (map sorted_json xs)
      | PTuple xs \<Rightarrow> PList (map sorted_json xs)
      | _ \<Rightarrow> v)"
  by pat_completeness auto
termination
  by (relation "measure size") (auto dest: size_pair_mem size_elem_mem)

declare sorted_json.simps [simp del]

definition json_digest :: "gate_env \<Rightarrow> pyval \<Rightarrow> pystr" where
  "json_digest e v = sha256 e (json_text (frepr e) (sorted_json v))"

section \<open>Server identities\<close>

record identity_row =
  id_server :: pystr
  binding :: pystr
  target_digest :: "pystr option"
  file_path :: "pystr option"
  file_marker :: "pystr option"

datatype scope_error = Scope_unavailable | Scope_changed | Scope_limit | Invalid_policy

definition find_identity :: "identity_row list \<Rightarrow> pystr \<Rightarrow> identity_row option" where
  "find_identity ids server = find_row (\<lambda>r. id_server r = server) ids"

definition ensure_server_identity :: "pystr \<Rightarrow> identity_row list \<Rightarrow> pystr \<Rightarrow> identity_row list \<times> pystr" where
  "ensure_server_identity uuid ids server =
     (case find_identity ids server of
        Some r \<Rightarrow> (ids, binding r)
      | None \<Rightarrow> (ids @ [\<lparr>id_server = server, binding = uuid, target_digest = None, file_path = None, file_marker = None\<rparr>], uuid))"

text \<open>\<open>files path\<close> is the marker \<^verbatim>\<open>_file_marker\<close> computes for the file now, \<open>None\<close> on \<^verbatim>\<open>OSError\<close>.\<close>

definition server_binding :: "(pystr \<Rightarrow> pystr option) \<Rightarrow> identity_row list \<Rightarrow> pystr \<Rightarrow> scope_error + pystr" where
  "server_binding files ids server =
     (case find_identity ids server of
        None \<Rightarrow> Inl Scope_unavailable
      | Some r \<Rightarrow>
          (case file_path r of
             None \<Rightarrow> Inr (binding r)
           | Some p \<Rightarrow>
               if p = [] then Inr (binding r)
               else (case files p of
                       None \<Rightarrow> Inl Scope_unavailable
                     | Some cur \<Rightarrow> if Some cur \<noteq> file_marker r then Inl Scope_changed else Inr (binding r))))"

text \<open>The columns \<^verbatim>\<open>ON CONFLICT DO UPDATE\<close> writes.\<close>

definition rebind :: "pystr \<times> pystr \<times> pystr \<times> pystr \<Rightarrow> identity_row \<Rightarrow> identity_row" where
  "rebind v r = (case v of (b, digest, path, marker) \<Rightarrow>
     r\<lparr>binding := b, target_digest := Some digest, file_path := Some path, file_marker := Some marker\<rparr>)"

text \<open>\<open>path\<close> is the resolved path; a missing file raises \<^verbatim>\<open>OSError\<close>, here \<open>Scope_unavailable\<close>.\<close>

definition record_config_identity :: "gate_env \<Rightarrow> (pystr \<Rightarrow> pystr option) \<Rightarrow> pystr \<Rightarrow> identity_row list \<Rightarrow> pystr \<Rightarrow> pystr
    \<Rightarrow> pyval \<Rightarrow> bool \<Rightarrow> scope_error + identity_row list \<times> pystr" where
  "record_config_identity e files uuid ids server path target repl =
     (let digest = json_digest e target in
      case files path of
        None \<Rightarrow> Inl Scope_unavailable
      | Some marker \<Rightarrow>
          (case find_identity ids server of
             None \<Rightarrow> Inr (ids @ [\<lparr>id_server = server, binding = uuid, target_digest = Some digest,
                       file_path = Some path, file_marker = Some marker\<rparr>], uuid)
           | Some r \<Rightarrow>
               (let changed = (case target_digest r of None \<Rightarrow> False | Some old \<Rightarrow> old \<noteq> [] \<and> old \<noteq> digest);
                    b = (if repl \<or> changed then uuid else binding r)
                in Inr (update_rows (\<lambda>x. id_server x = server) (rebind (b, digest, path, marker)) ids, b))))"

section \<open>Bound server policies\<close>

record server_policy =
  sp_server :: pystr
  sp_access :: access
  sp_binding :: pystr

definition MAX_AUTHORIZATION_SERVERS :: nat where "MAX_AUTHORIZATION_SERVERS = 100"

definition id_char :: "nat \<Rightarrow> bool" where
  "id_char c \<longleftrightarrow> 65 \<le> c \<and> c \<le> 90 \<or> 97 \<le> c \<and> c \<le> 122 \<or> 48 \<le> c \<and> c \<le> 57 \<or> c = 95 \<or> c = 46 \<or> c = 45"

definition server_id_ok :: "pystr \<Rightarrow> bool" where
  "server_id_ok s \<longleftrightarrow> length s \<le> 512 \<and> s \<noteq> [] \<and> list_all id_char s"

definition policy_access :: "dict \<Rightarrow> access option" where
  "policy_access d = (case dict_get d (lit ''access'') of
     Some (PStr s) \<Rightarrow> if s = lit ''read'' then Some Read else if s = lit ''write'' then Some Write else None
   | _ \<Rightarrow> None)"

text \<open>The shape checks of one policy: its server and access.\<close>

definition parse_policy :: "pyval \<Rightarrow> (pystr \<times> access \<times> pyval option) option" where
  "parse_policy v =
     (case v of
        PDict d \<Rightarrow>
          if \<not> set (map fst d) \<subseteq> {PStr (lit ''server_id''), PStr (lit ''mode''), PStr (lit ''access''), PStr (lit ''server_binding'')}
             \<or> dict_get d (lit ''mode'') \<noteq> Some (PStr (lit ''continuous'')) then None
          else (case (policy_access d, dict_get d (lit ''server_id'')) of
                  (Some a, Some (PStr s)) \<Rightarrow> if server_id_ok s then Some (s, a, dict_get d (lit ''server_binding'')) else None
                | _ \<Rightarrow> None)
      | _ \<Rightarrow> None)"

fun bind_policies :: "(pystr \<Rightarrow> pystr option) \<Rightarrow> identity_row list \<Rightarrow> pystr set \<Rightarrow> pyval list \<Rightarrow> scope_error + server_policy list" where
  "bind_policies files ids seen [] = Inr []"
| "bind_policies files ids seen (p # ps) =
     (case parse_policy p of
        None \<Rightarrow> Inl Invalid_policy
      | Some (server, a, given) \<Rightarrow>
          if server \<in> seen then Inl Invalid_policy
          else bindR (server_binding files ids server) (\<lambda>b.
            if given \<noteq> None \<and> given \<noteq> Some (PStr b) then Inl Scope_changed
            else bindR (bind_policies files ids (insert server seen) ps) (\<lambda>rest.
                   Inr (\<lparr>sp_server = server, sp_access = a, sp_binding = b\<rparr> # rest))))"

definition bind_server_policies :: "(pystr \<Rightarrow> pystr option) \<Rightarrow> identity_row list \<Rightarrow> pyval \<Rightarrow> scope_error + server_policy list" where
  "bind_server_policies files ids v =
     (case v of
        PList ps \<Rightarrow>
          if length ps > MAX_AUTHORIZATION_SERVERS then Inl Scope_limit
          else bindR (bind_policies files ids {} ps) (\<lambda>r. Inr (sort_key sp_server r))
      | _ \<Rightarrow> Inl Scope_limit)"

text \<open>The dictionary form in which a bound policy is stored and passed around.\<close>

definition dump_policy :: "server_policy \<Rightarrow> pyval" where
  "dump_policy p = PDict [(PStr (lit ''server_id''), PStr (sp_server p)), (PStr (lit ''mode''), PStr (lit ''continuous'')),
     (PStr (lit ''access''), PStr (access_name (sp_access p))), (PStr (lit ''server_binding''), PStr (sp_binding p))]"

section \<open>Tool snapshots\<close>

text \<open>\<^verbatim>\<open>json.dumps([fingerprint, access, reviewed_at])\<close> with the default separators.\<close>

definition tool_snapshot :: "gate_env \<Rightarrow> pystr \<Rightarrow> access \<Rightarrow> rat option \<Rightarrow> pystr" where
  "tool_snapshot e fp a reviewed =
     sha256 e ([91] @ join_with (lit '', '') [json_string fp, json_string (access_name a),
       (case reviewed of None \<Rightarrow> lit ''null'' | Some t \<Rightarrow> json_string (isoformat e t))] @ [93])"

section \<open>Management tools\<close>

definition LEGACY_MANAGEMENT_TOOL_IDS :: "pystr list" where
  "LEGACY_MANAGEMENT_TOOL_IDS = map lit [''gate_mcp_config_plan'', ''gate_mcp_config_apply'', ''gate_mcp_config_status'', ''gate_mcp_config_cancel'']"

definition HTTP_MANAGEMENT_TOOL_IDS :: "pystr list" where
  "HTTP_MANAGEMENT_TOOL_IDS = map lit [''gate_http_mcp_test'', ''gate_http_mcp_plan'', ''gate_http_mcp_apply'', ''gate_http_mcp_status'', ''gate_http_mcp_cancel'']"

definition CREDENTIAL_MANAGEMENT_TOOL_IDS :: "pystr list" where
  "CREDENTIAL_MANAGEMENT_TOOL_IDS = map lit [''gate_credential_list'', ''gate_credential_get'', ''gate_credential_create'', ''gate_credential_update'', ''gate_credential_delete'']"

definition MANAGEMENT_TOOL_IDS :: "pystr list" where
  "MANAGEMENT_TOOL_IDS = LEGACY_MANAGEMENT_TOOL_IDS @ HTTP_MANAGEMENT_TOOL_IDS @ CREDENTIAL_MANAGEMENT_TOOL_IDS"

definition MANAGEMENT_READ_TOOLS :: "pystr list" where
  "MANAGEMENT_READ_TOOLS = map lit [''gate_mcp_config_plan'', ''gate_mcp_config_status'', ''gate_http_mcp_plan'', ''gate_http_mcp_status'', ''gate_credential_list'', ''gate_credential_get'']"

definition HTTP_MANAGEMENT_ACTIONS :: "pystr list" where
  "HTTP_MANAGEMENT_ACTIONS = map lit [''create'', ''update'', ''delete'', ''revoke_trust'', ''restore_trust'']"

definition CREDENTIAL_MANAGEMENT_ACTIONS :: "pystr list" where
  "CREDENTIAL_MANAGEMENT_ACTIONS = map lit [''credential.read'', ''credential.create'', ''credential.update'', ''credential.delete'']"

definition MANAGEMENT_ACTIONS :: "pystr list" where
  "MANAGEMENT_ACTIONS = HTTP_MANAGEMENT_ACTIONS @ CREDENTIAL_MANAGEMENT_ACTIONS @ [lit ''test'']"

definition management_tool_server :: "pystr \<Rightarrow> pystr" where
  "management_tool_server tool = (if tool \<in> set CREDENTIAL_MANAGEMENT_TOOL_IDS then lit ''gate_credentials'' else lit ''gate_mcp_configuration'')"

definition management_tool_permissions :: "pystr \<Rightarrow> pystr list" where
  "management_tool_permissions tool =
     (if tool \<in> set CREDENTIAL_MANAGEMENT_TOOL_IDS then [lit ''operations.manage'', lit ''credentials.manage.system'']
      else [lit ''operations.manage''])"

definition management_tool_actions :: "pystr \<Rightarrow> pystr list" where
  "management_tool_actions tool =
     (if tool = lit ''gate_http_mcp_test'' then [lit ''test'']
      else if tool \<in> set CREDENTIAL_MANAGEMENT_TOOL_IDS then CREDENTIAL_MANAGEMENT_ACTIONS
      else if tool \<in> set HTTP_MANAGEMENT_TOOL_IDS then HTTP_MANAGEMENT_ACTIONS
      else [lit ''create'', lit ''update''])"

text \<open>\<open>rebase\<close> stands for \<^verbatim>\<open>urlsplit\<close> followed by \<^verbatim>\<open>urlunsplit\<close> with the path \<^verbatim>\<open>/mcp/manage\<close>.\<close>

definition management_resource :: "(pystr \<Rightarrow> pystr) \<Rightarrow> pystr \<Rightarrow> pystr" where
  "management_resource rebase business = (if business = [] then [] else rebase business)"

definition dict_pop :: "pystr \<Rightarrow> dict \<Rightarrow> dict" where
  "dict_pop k d = filter (\<lambda>(x, _). x \<noteq> PStr k) d"

definition management_tool_snapshot :: "gate_env \<Rightarrow> tool_definition \<Rightarrow> pystr" where
  "management_tool_snapshot e d =
     json_digest e (PDict (field_envelope (d\<lparr>td_metadata := PDict (dict_pop (lit ''gate_access'') (mapping_items (td_metadata d)))\<rparr>)))"

definition target_id_ok :: "pystr \<Rightarrow> bool" where
  "target_id_ok s \<longleftrightarrow> (case s of [] \<Rightarrow> False
     | c # cs \<Rightarrow> id_char c \<and> c \<notin> {95, 46, 45} \<and> length cs \<le> 127 \<and> list_all id_char cs)"

definition MAX_MANAGEMENT_TARGETS :: nat where "MAX_MANAGEMENT_TARGETS = 1000"

fun action_texts :: "pyval list \<Rightarrow> pystr list option" where
  "action_texts [] = Some []"
| "action_texts (v # vs) =
     (case v of
        PStr s \<Rightarrow> if s \<in> set MANAGEMENT_ACTIONS then map_option (Cons s) (action_texts vs) else None
      | _ \<Rightarrow> None)"

fun parse_targets :: "dict \<Rightarrow> (pystr \<times> pystr list) list option" where
  "parse_targets [] = Some []"
| "parse_targets ((k, v) # kvs) =
     (case (k, v) of
        (PStr t, PList xs) \<Rightarrow>
          (case action_texts xs of
             None \<Rightarrow> None
           | Some acts \<Rightarrow>
               if \<not> target_id_ok t \<or> acts = [] \<or> \<not> distinct acts then None
               else map_option (Cons (t, sort acts)) (parse_targets kvs))
      | _ \<Rightarrow> None)"

definition normalize_management_targets :: "bool \<Rightarrow> pyval \<Rightarrow> unit + (pystr \<times> pystr list) list" where
  "normalize_management_targets allow_empty v =
     (case v of
        PDict kvs \<Rightarrow>
          if length kvs < (if allow_empty then 0 else 1) \<or> length kvs > MAX_MANAGEMENT_TARGETS then Inl ()
          else (case parse_targets kvs of None \<Rightarrow> Inl () | Some r \<Rightarrow> Inr (sort_key fst r))
      | _ \<Rightarrow> Inl ())"

definition dump_targets :: "(pystr \<times> pystr list) list \<Rightarrow> pyval" where
  "dump_targets r = PDict (map (\<lambda>(t, acts). (PStr t, PList (map PStr acts))) r)"

section \<open>Bound policies are stable\<close>

interpretation identity_table: keyed_table id_server rebind
  by unfold_locales (auto simp: rebind_def split: prod.splits)

definition bound_policy :: "(pystr \<Rightarrow> pystr option) \<Rightarrow> identity_row list \<Rightarrow> server_policy \<Rightarrow> bool" where
  "bound_policy files ids p \<longleftrightarrow>
     server_binding files ids (sp_server p) = Inr (sp_binding p) \<and> server_id_ok (sp_server p) \<and> sp_access p \<in> {Read, Write}"

lemma parse_policy_access: "parse_policy v = Some (s, a, g) \<Longrightarrow> server_id_ok s \<and> a \<in> {Read, Write}"
  by (auto simp: parse_policy_def policy_access_def split: pyval.splits if_splits option.splits)

lemma bind_policies_sound:
  "bind_policies files ids seen ps = Inr r \<Longrightarrow>
   (\<forall>p \<in> set r. bound_policy files ids p \<and> sp_server p \<notin> seen) \<and> distinct (map sp_server r) \<and> length r = length ps"
proof (induction files ids seen ps arbitrary: r rule: bind_policies.induct)
  case (2 files ids seen p ps)
  obtain server a given where p: "parse_policy p = Some (server, a, given)"
    using "2.prems" by (auto split: option.splits)
  obtain b rest where b: "server \<notin> seen" "server_binding files ids server = Inr b"
    "bind_policies files ids (insert server seen) ps = Inr rest"
    "r = \<lparr>sp_server = server, sp_access = a, sp_binding = b\<rparr> # rest"
    "\<not> (given \<noteq> None \<and> given \<noteq> Some (PStr b))"
    using "2.prems" p by (auto split: if_splits)
  note IH = "2.IH" [OF p refl refl b(1,2,5,3)]
  then show ?case
    using b p parse_policy_access [OF p] by (auto simp: bound_policy_def)
qed simp

lemma parse_dump_policy:
  "bound_policy files ids p \<Longrightarrow> parse_policy (dump_policy p) = Some (sp_server p, sp_access p, Some (PStr (sp_binding p)))"
  by (auto simp: bound_policy_def parse_policy_def dump_policy_def policy_access_def dict_get_def)

lemma bind_policies_dump:
  "\<forall>p \<in> set r. bound_policy files ids p \<and> sp_server p \<notin> seen \<Longrightarrow> distinct (map sp_server r) \<Longrightarrow>
   bind_policies files ids seen (map dump_policy r) = Inr r"
proof (induction r arbitrary: seen)
  case (Cons p r)
  then have "bind_policies files ids (insert (sp_server p) seen) (map dump_policy r) = Inr r"
    by (intro Cons.IH) (auto simp: image_iff)
  then show ?case
    using Cons.prems parse_dump_policy [of files ids p] by (simp add: bound_policy_def)
qed simp

text \<open>
  Binding server policies.  When binding succeeds the result is sorted by server, names no
  server twice, holds at most 100 entries, and every entry carries the server's current binding
  and a read or write level.  Binding the stored result again, with the same identities,
  returns it unchanged: bound policies are a fixed point of the validation.
\<close>

lemma bind_server_policies_fixpoint:
  assumes "bind_server_policies files ids v = Inr r"
  shows "sorted (map sp_server r) \<and> distinct (map sp_server r) \<and> length r \<le> 100
     \<and> (\<forall>p \<in> set r. server_binding files ids (sp_server p) = Inr (sp_binding p) \<and> sp_access p \<in> {Read, Write})
     \<and> bind_server_policies files ids (PList (map dump_policy r)) = Inr r"
proof -
  obtain ps q where q: "v = PList ps" "length ps \<le> MAX_AUTHORIZATION_SERVERS" "bind_policies files ids {} ps = Inr q" "r = sort_key sp_server q"
    using assms by (auto simp: bind_server_policies_def split: pyval.splits if_splits)
  from bind_policies_sound [OF q(3)] have s: "\<forall>p \<in> set r. bound_policy files ids p" "distinct (map sp_server r)" "length r = length ps"
    by (auto simp: q(4) distinct_map)
  have "sorted (map sp_server r)" by (simp add: q(4))
  then have "sort_key sp_server r = r" by (rule sort_key_id_if_sorted)
  moreover have "bind_policies files ids {} (map dump_policy r) = Inr r"
    using s by (intro bind_policies_dump) auto
  ultimately show ?thesis
    using s q by (auto simp: bind_server_policies_def bound_policy_def MAX_AUTHORIZATION_SERVERS_def)
qed

definition demo_ids :: "identity_row list" where
  "demo_ids = [\<lparr>id_server = lit ''b'', binding = lit ''2'', target_digest = None, file_path = None, file_marker = None\<rparr>,
     \<lparr>id_server = lit ''a'', binding = lit ''1'', target_digest = None, file_path = None, file_marker = None\<rparr>]"

definition demo_policies :: pyval where
  "demo_policies = PList
     [PDict [(PStr (lit ''server_id''), PStr (lit ''b'')), (PStr (lit ''mode''), PStr (lit ''continuous'')), (PStr (lit ''access''), PStr (lit ''read''))],
      PDict [(PStr (lit ''server_id''), PStr (lit ''a'')), (PStr (lit ''mode''), PStr (lit ''continuous'')), (PStr (lit ''access''), PStr (lit ''write''))]]"

lemma bind_server_policies_fixpoint_witness:
  "\<exists>r. bind_server_policies (\<lambda>_. None) demo_ids demo_policies = Inr r \<and> length r = 2
     \<and> bind_server_policies (\<lambda>_. None) demo_ids (PList (map dump_policy r)) = Inr r"
proof -
  have ok: "server_id_ok (lit ''a'')" "server_id_ok (lit ''b'')"
    by (simp_all add: server_id_ok_def lit_def id_char_def)
  obtain r where r: "bind_server_policies (\<lambda>_. None) demo_ids demo_policies = Inr r" "length r = 2"
    by (simp add: bind_server_policies_def demo_policies_def MAX_AUTHORIZATION_SERVERS_def parse_policy_def dict_get_def
        policy_access_def ok server_binding_def find_identity_def demo_ids_def find_row_def)
  with bind_server_policies_fixpoint [OF r(1)] show ?thesis by auto
qed

section \<open>Server identity across saves\<close>

lemma find_identity_rebind:
  assumes "distinct (map id_server ids)" "find_identity ids server = Some r"
  shows "find_identity (update_rows (\<lambda>x. id_server x = server) (rebind v) ids) server = Some (rebind v r)"
  using identity_table.find_update_same [OF assms(1)] assms(2) by (simp add: find_identity_def)

lemma find_identity_other:
  "other \<noteq> server \<Longrightarrow>
   find_identity (update_rows (\<lambda>x. id_server x = server) (rebind v) ids) other = find_identity ids other"
  by (simp add: find_identity_def identity_table.find_update_other)

lemma find_identity_append:
  "find_identity (ids @ [x]) server = (case find_identity ids server of Some r \<Rightarrow> Some r | None \<Rightarrow> if id_server x = server then Some x else None)"
  by (induction ids) (auto simp: find_identity_def find_row_def)

text \<open>
  A server keeps its identity across ordinary saves of its configuration and loses it when its
  target is replaced.  After recording, the server's binding is the one returned: a fresh one
  for a new server, on an explicit rebuild, or when the recorded target digest differs, and the
  old one otherwise.  It stays readable exactly while the file's marker is the recorded one, so
  a file changed behind Gate's back closes every authorization bound to it; other servers are
  not affected.
\<close>

lemma record_config_identity_exact:
  assumes "distinct (map id_server ids)" and "path \<noteq> []"
    and recorded: "record_config_identity e files uuid ids server path target repl = Inr (ids', b)"
  shows "b = (case find_identity ids server of
        None \<Rightarrow> uuid
      | Some r \<Rightarrow> if repl \<or> target_digest r \<notin> {None, Some [], Some (json_digest e target)} then uuid else binding r)
     \<and> (\<forall>files'. server_binding files' ids' server =
          (if files' path = None then Inl Scope_unavailable
           else if files' path \<noteq> files path then Inl Scope_changed else Inr b))
     \<and> (\<forall>other files'. other \<noteq> server \<longrightarrow> server_binding files' ids' other = server_binding files' ids other)"
proof -
  obtain marker where m: "files path = Some marker"
    using recorded by (cases "files path") (auto simp: record_config_identity_def Let_def)
  show ?thesis
  proof (cases "find_identity ids server")
    case None
    then have ids': "b = uuid" "ids' = ids @ [\<lparr>id_server = server, binding = uuid, target_digest = Some (json_digest e target),
        file_path = Some path, file_marker = Some marker\<rparr>]"
      using recorded m by (auto simp: record_config_identity_def Let_def)
    show ?thesis
      using None assms(2) m by (auto simp: ids' server_binding_def find_identity_append split: option.splits)
  next
    case (Some r)
    define b' where "b' = (if repl \<or> (case target_digest r of None \<Rightarrow> False | Some old \<Rightarrow> old \<noteq> [] \<and> old \<noteq> json_digest e target)
        then uuid else binding r)"
    have ids': "b = b'" "ids' = update_rows (\<lambda>x. id_server x = server) (rebind (b', json_digest e target, path, marker)) ids"
      using recorded m Some by (auto simp: record_config_identity_def Let_def b'_def)
    have "b' = (if repl \<or> target_digest r \<notin> {None, Some [], Some (json_digest e target)} then uuid else binding r)"
      by (auto simp: b'_def split: option.splits)
    moreover have "find_identity ids' server = Some (rebind (b', json_digest e target, path, marker) r)"
      unfolding ids' by (rule find_identity_rebind [OF assms(1) Some])
    then have "server_binding files' ids' server = (if files' path = None then Inl Scope_unavailable
           else if files' path \<noteq> files path then Inl Scope_changed else Inr b)" for files'
      using assms(2) m by (auto simp: server_binding_def rebind_def ids'(1) split: option.splits)
    moreover have "server_binding files' ids' other = server_binding files' ids other" if "other \<noteq> server" for other files'
      using that by (simp add: server_binding_def ids' find_identity_other)
    ultimately show ?thesis using Some ids' by auto
  qed
qed

definition demo_env :: gate_env where
  "demo_env = \<lparr>sha256 = (\<lambda>s. s), frepr = (\<lambda>_. lit ''0.5''), isoformat = (\<lambda>_. lit ''now'')\<rparr>"

lemma record_config_identity_exact_witness:
  "\<exists>ids' b. record_config_identity demo_env (\<lambda>_. Some (lit ''m'')) (lit ''new'') demo_ids (lit ''a'') (lit ''/f'') PNone False = Inr (ids', b)
     \<and> b = lit ''1'' \<and> server_binding (\<lambda>_. Some (lit ''tampered'')) ids' (lit ''a'') = Inl Scope_changed"
proof -
  have d: "distinct (map id_server demo_ids)" "lit ''/f'' \<noteq> []" by (simp_all add: demo_ids_def)
  obtain ids' b where r: "record_config_identity demo_env (\<lambda>_. Some (lit ''m'')) (lit ''new'') demo_ids (lit ''a'') (lit ''/f'') PNone False = Inr (ids', b)"
    by (simp add: record_config_identity_def Let_def find_identity_def find_row_def demo_ids_def)
  have "find_identity demo_ids (lit ''a'') = Some \<lparr>id_server = lit ''a'', binding = lit ''1'', target_digest = None, file_path = None, file_marker = None\<rparr>"
    by (simp add: find_identity_def find_row_def demo_ids_def)
  with record_config_identity_exact [OF d r] r show ?thesis by simp
qed

section \<open>Management targets\<close>

lemma action_texts_spec: "action_texts vs = Some acts \<Longrightarrow> vs = map PStr acts \<and> set acts \<subseteq> set MANAGEMENT_ACTIONS"
  by (induction vs arbitrary: acts) (auto split: pyval.splits if_splits)

lemma action_texts_map: "set acts \<subseteq> set MANAGEMENT_ACTIONS \<Longrightarrow> action_texts (map PStr acts) = Some acts"
  by (induction acts) auto

definition target_entry_ok :: "pystr \<times> pystr list \<Rightarrow> bool" where
  "target_entry_ok p \<longleftrightarrow> target_id_ok (fst p) \<and> snd p \<noteq> [] \<and> distinct (snd p) \<and> sorted (snd p) \<and> set (snd p) \<subseteq> set MANAGEMENT_ACTIONS"

lemma parse_targets_sound:
  "parse_targets kvs = Some r \<Longrightarrow> (\<forall>p \<in> set r. target_entry_ok p) \<and> length r = length kvs"
proof (induction kvs arbitrary: r)
  case (Cons kv kvs)
  obtain t xs where kv: "kv = (PStr t, PList xs)"
    using Cons.prems by (cases kv) (auto split: pyval.splits)
  obtain acts rest where a: "action_texts xs = Some acts" "target_id_ok t" "acts \<noteq> []" "distinct acts"
    "parse_targets kvs = Some rest" "r = (t, sort acts) # rest"
    using Cons.prems by (auto simp: kv split: option.splits if_splits)
  have "sort acts \<noteq> []" using a(3) by (metis set_empty set_sort)
  then show ?case
    using Cons.IH [OF a(5)] a action_texts_spec [OF a(1)] by (auto simp: target_entry_ok_def)
qed simp

lemma parse_targets_dump:
  "\<forall>p \<in> set r. target_entry_ok p \<Longrightarrow> parse_targets (map (\<lambda>(t, acts). (PStr t, PList (map PStr acts))) r) = Some r"
  by (induction r) (auto simp: target_entry_ok_def action_texts_map sorted_sort_id)

text \<open>
  Management targets.  A successful normalisation yields between one (or none, if allowed) and
  1000 targets in order, each with a well-formed id and a sorted, duplicate-free, non-empty list
  of known actions, and is idempotent on its own result.
\<close>

lemma normalize_management_targets_fixpoint:
  assumes "normalize_management_targets allow_empty v = Inr r"
  shows "sorted (map fst r) \<and> length r \<le> 1000 \<and> (allow_empty \<or> r \<noteq> []) \<and> list_all target_entry_ok r
     \<and> normalize_management_targets allow_empty (dump_targets r) = Inr r"
proof -
  obtain kvs q where q: "v = PDict kvs" "\<not> (length kvs < (if allow_empty then 0 else 1) \<or> length kvs > MAX_MANAGEMENT_TARGETS)"
    "parse_targets kvs = Some q" "r = sort_key fst q"
    using assms by (auto simp: normalize_management_targets_def split: pyval.splits if_splits option.splits)
  from parse_targets_sound [OF q(3)] have s: "\<forall>p \<in> set r. target_entry_ok p" "length r = length kvs"
    by (auto simp: q(4))
  have r: "sort_key fst r = r" "sorted (map fst r)"
    using sort_key_id_if_sorted [of fst r] by (simp_all add: q(4))
  then show ?thesis
    using s q(2) parse_targets_dump [OF s(1)]
    by (auto simp: normalize_management_targets_def dump_targets_def MAX_MANAGEMENT_TARGETS_def list_all_iff split: if_splits)
qed

lemma normalize_management_targets_fixpoint_witness:
  "\<exists>r. normalize_management_targets False (PDict [(PStr (lit ''srv''), PList [PStr (lit ''update''), PStr (lit ''create'')])]) = Inr r
     \<and> normalize_management_targets False (dump_targets r) = Inr r"
proof -
  have t: "target_id_ok (lit ''srv'')" by (simp add: target_id_ok_def lit_def id_char_def)
  obtain r where r: "normalize_management_targets False (PDict [(PStr (lit ''srv''), PList [PStr (lit ''update''), PStr (lit ''create'')])]) = Inr r"
    by (simp add: normalize_management_targets_def MAX_MANAGEMENT_TARGETS_def MANAGEMENT_ACTIONS_def HTTP_MANAGEMENT_ACTIONS_def t)
  with normalize_management_targets_fixpoint [OF r] show ?thesis by blast
qed

end
