(* ===== verification/Access_Classification.thy ===== *)
theory Access_Classification
  imports Authorization_Policy "HOL-Library.AList"
begin

text \<open>
  The tool classification half of \<^verbatim>\<open>access_control.py\<close>: fingerprints of tool definitions, the
  machine suggestion, synchronisation with the registry, reconciliation of one server, and the
  review operations that decide, confirm and publish an access level.  The column
  \<^verbatim>\<open>evidence_json\<close> is kept as the object it serialises.
\<close>

section \<open>Rows\<close>

record class_row =
  c_id :: pystr
  c_server :: pystr
  c_tool :: pystr
  c_name :: pystr
  fingerprint :: pystr
  suggested :: access
  effective :: access
  c_status :: class_status
  confidence :: rat
  c_source :: pystr
  destructive :: bool
  idempotent :: bool
  open_world :: bool
  evidence :: dict
  reviewed_by :: "pystr option"
  reviewed_at :: "rat option"
  c_created :: rat
  c_updated :: rat

record class_db =
  classifications :: "class_row list"
  identities :: "identity_row list"

type_synonym tool_key = "pystr \<times> pystr"

definition class_key :: "class_row \<Rightarrow> tool_key" where
  "class_key r = (c_server r, c_tool r)"

definition find_class :: "class_db \<Rightarrow> tool_key \<Rightarrow> class_row option" where
  "find_class db k = find_row (\<lambda>r. class_key r = k) (classifications db)"

section \<open>Tool definitions\<close>

definition meta_get :: "tool_definition \<Rightarrow> pystr \<Rightarrow> pyval" where
  "meta_get d k = dict_get_none (mapping_items (td_metadata d)) k"

definition server_id :: "tool_definition \<Rightarrow> pystr" where
  "server_id d =
     (case meta_get d (lit ''server_id'') of
        PStr v \<Rightarrow> if strip v \<noteq> [] then strip v else if td_source d \<noteq> [] then td_source d else lit ''builtin''
      | _ \<Rightarrow> if td_source d \<noteq> [] then td_source d else lit ''builtin'')"

definition tool_key_of :: "tool_definition \<Rightarrow> tool_key" where
  "tool_key_of d = (server_id d, td_id d)"

definition safe_annotations :: "tool_definition \<Rightarrow> dict" where
  "safe_annotations d =
     (case meta_get d (lit ''annotations'') of
        PDict v \<Rightarrow>
          concat (map (\<lambda>k. case dict_get v k of Some (PBool b) \<Rightarrow> [(PStr k, PBool b)] | _ \<Rightarrow> [])
            [lit ''readOnlyHint'', lit ''destructiveHint'', lit ''idempotentHint'', lit ''openWorldHint''])
      | _ \<Rightarrow> [])"

definition tool_fingerprint_payload :: "tool_definition \<Rightarrow> (pystr \<times> pyval) list" where
  "tool_fingerprint_payload d =
     [(lit ''id'', PStr (td_id d)), (lit ''name'', PStr (td_name d)), (lit ''description'', PStr (td_description d)),
      (lit ''permission'', PStr (td_permission d)), (lit ''source'', PStr (td_source d)),
      (lit ''input_schema'', td_input_schema d), (lit ''annotations'', PDict (safe_annotations d)),
      (lit ''required_control_permission'', meta_get d (lit ''required_control_permission'')),
      (lit ''output_schema'', meta_get d (lit ''outputSchema'')),
      (lit ''sensitive_input_fields'', meta_get d (lit ''sensitive_input_fields'')),
      (lit ''sensitive_output_fields'', meta_get d (lit ''sensitive_output_fields''))]"

definition tool_fingerprint :: "gate_env \<Rightarrow> tool_definition \<Rightarrow> pystr" where
  "tool_fingerprint e d = json_digest e (PDict (map (\<lambda>(k, v). (PStr k, v)) (tool_fingerprint_payload d)))"

definition tool_definition_snapshot :: "gate_env \<Rightarrow> tool_definition \<Rightarrow> dict" where
  "tool_definition_snapshot e d = map (\<lambda>(k, v). (PStr k, PStr (json_digest e v))) (tool_fingerprint_payload d)"

section \<open>Machine suggestion\<close>

definition READ_PATTERNS :: "pystr list" where
  "READ_PATTERNS = map lit [''get'', ''list'', ''query'', ''search'', ''read'', ''describe'', ''inspect'', ''status'', ''fetch'',
     ''find'', ''show'', ''check'', ''preview'']"

definition WRITE_PATTERNS :: "pystr list" where
  "WRITE_PATTERNS = map lit [''create'', ''update'', ''delete'', ''remove'', ''set'', ''save'', ''upload'', ''publish'', ''execute'',
     ''send'', ''add'', ''edit'', ''write'', ''start'', ''stop'', ''restart'', ''clear'', ''apply'', ''deploy'']"

definition DESTRUCTIVE_PATTERNS :: "pystr list" where
  "DESTRUCTIVE_PATTERNS = map lit [''delete'', ''remove'', ''drop'', ''destroy'', ''clear'', ''revoke'', ''disable'', ''stop'']"

text \<open>The non-empty parts of \<^verbatim>\<open>re.split(r"[^a-z0-9]+", text)\<close>: the maximal runs of kept characters.\<close>

function runs :: "(nat \<Rightarrow> bool) \<Rightarrow> pystr \<Rightarrow> pystr list" where
  "runs p [] = []"
| "runs p (c # cs) = (if p c then (c # takeWhile p cs) # runs p (dropWhile p cs) else runs p cs)"
  by pat_completeness auto
termination
  by (relation "measure (\<lambda>(p, s). length s)") (auto simp: le_imp_less_Suc length_dropWhile_le)

definition name_tokens :: "tool_definition \<Rightarrow> pystr list" where
  "name_tokens d = runs lower_alnum (lower (td_id d @ [32] @ td_name d))"

definition hits :: "pystr list \<Rightarrow> pystr list \<Rightarrow> pystr list" where
  "hits patterns tokens = sort (remdups (filter (\<lambda>t. t \<in> set patterns) tokens))"

record suggestion =
  sg_access :: access
  sg_confidence :: rat
  sg_source :: pystr
  sg_destructive :: bool
  sg_idempotent :: bool
  sg_open_world :: bool
  sg_evidence :: dict

definition annotated :: "dict \<Rightarrow> string \<Rightarrow> bool option" where
  "annotated a k = (case dict_get a (lit k) of Some (PBool b) \<Rightarrow> Some b | _ \<Rightarrow> None)"

text \<open>The decision table of \<^verbatim>\<open>_suggest_tool\<close>.\<close>

definition suggest_access :: "bool option \<Rightarrow> bool \<Rightarrow> bool \<Rightarrow> access \<times> rat \<times> pystr" where
  "suggest_access annotation reads writes =
     (if annotation = Some True \<and> \<not> writes then (Read, 88 / 100, lit ''annotation'')
      else if annotation = Some False \<and> writes \<and> \<not> reads then (Write, 86 / 100, lit ''annotation'')
      else if writes \<and> \<not> reads then (Write, 78 / 100, lit ''rule'')
      else if reads \<and> \<not> writes then (Read, 78 / 100, lit ''rule'')
      else if annotation = Some False \<and> \<not> reads then (Write, 62 / 100, lit ''annotation'')
      else (Unknown, 35 / 100, lit ''rule''))"

definition RULE_NOTE :: pystr where
  "RULE_NOTE = [26426, 22120, 32467, 26524, 20165, 20026, 24314, 35758, 65292, 20154, 24037, 21457, 24067, 21518, 25165,
     36827, 20837, 36816, 34892, 26102, 25480, 26435, 12290]"

definition suggest_tool :: "gate_env \<Rightarrow> tool_definition \<Rightarrow> suggestion" where
  "suggest_tool e d =
     (let ann = safe_annotations d; tokens = name_tokens d;
          read_hits = hits READ_PATTERNS tokens; write_hits = hits WRITE_PATTERNS tokens
      in case suggest_access (annotated ann ''readOnlyHint'') (read_hits \<noteq> []) (write_hits \<noteq> []) of
           (a, conf, src) \<Rightarrow>
             \<lparr>sg_access = a, sg_confidence = conf, sg_source = src,
              sg_destructive = (annotated ann ''destructiveHint'' = Some True \<or> hits DESTRUCTIVE_PATTERNS tokens \<noteq> []),
              sg_idempotent = (annotated ann ''idempotentHint'' = Some True),
              sg_open_world = (case annotated ann ''openWorldHint'' of Some b \<Rightarrow> b | None \<Rightarrow> td_source d = lit ''mcp''),
              sg_evidence =
                [(PStr (lit ''annotations''), PDict ann),
                 (PStr (lit ''definition_snapshot''), PDict (tool_definition_snapshot e d)),
                 (PStr (lit ''rule''), PDict [(PStr (lit ''read_hits''), PList (map PStr read_hits)),
                    (PStr (lit ''write_hits''), PList (map PStr write_hits)), (PStr (lit ''note''), PStr RULE_NOTE)])]\<rparr>)"

section \<open>Loading rows in batches\<close>

function chunks :: "nat \<Rightarrow> 'a list \<Rightarrow> 'a list list" where
  "chunks n xs = (if xs = [] \<or> n = 0 then [] else take n xs # chunks n (drop n xs))"
  by pat_completeness auto
termination
  by (relation "measure (\<lambda>(n, xs). length xs)") (auto simp: length_greater_0_conv)

declare chunks.simps [simp del]

definition load_classifications :: "class_db \<Rightarrow> tool_key list \<Rightarrow> tool_key \<rightharpoonup> class_row" where
  "load_classifications db keys =
     foldl (\<lambda>m batch. m ++ map_of (map (\<lambda>r. (class_key r, r)) (filter (\<lambda>r. class_key r \<in> set batch) (classifications db))))
       Map.empty (chunks 250 (sort (remdups keys)))"

section \<open>Synchronisation\<close>

definition dict_set :: "pystr \<Rightarrow> pyval \<Rightarrow> dict \<Rightarrow> dict" where
  "dict_set k v d = AList.update (PStr k) v d"

definition new_class_row :: "rat \<Rightarrow> pystr \<Rightarrow> tool_definition \<Rightarrow> pystr \<Rightarrow> suggestion \<Rightarrow> class_row" where
  "new_class_row now uuid d fp sg =
     \<lparr>c_id = uuid, c_server = server_id d, c_tool = td_id d, c_name = td_name d, fingerprint = fp,
      suggested = sg_access sg, effective = Unknown, c_status = Pending, confidence = sg_confidence sg,
      c_source = sg_source sg, destructive = sg_destructive sg, idempotent = sg_idempotent sg,
      open_world = sg_open_world sg, evidence = sg_evidence sg, reviewed_by = None, reviewed_at = None,
      c_created = now, c_updated = now\<rparr>"

text \<open>The two \<^verbatim>\<open>UPDATE\<close> statements of \<^verbatim>\<open>_synchronize_tools\<close>.\<close>

definition refresh_row :: "rat \<Rightarrow> tool_definition \<Rightarrow> suggestion \<Rightarrow> dict \<Rightarrow> class_row \<Rightarrow> class_row" where
  "refresh_row now d sg ev r =
     r\<lparr>c_name := td_name d, suggested := sg_access sg, confidence := sg_confidence sg, c_source := sg_source sg,
       destructive := sg_destructive sg, idempotent := sg_idempotent sg, open_world := sg_open_world sg,
       evidence := ev, c_updated := now\<rparr>"

definition invalidate_row :: "rat \<Rightarrow> tool_definition \<Rightarrow> pystr \<Rightarrow> suggestion \<Rightarrow> dict \<Rightarrow> class_row \<Rightarrow> class_row" where
  "invalidate_row now d fp sg ev r =
     (refresh_row now d sg ev r)\<lparr>fingerprint := fp, effective := Unknown, c_status := Stale\<rparr>"

definition invalidation :: "gate_env \<Rightarrow> rat \<Rightarrow> tool_definition \<Rightarrow> pystr \<Rightarrow> class_row \<Rightarrow> pyval" where
  "invalidation e now d fp r =
     (let previous = dict_get (evidence r) (lit ''definition_snapshot'');
          prev = (case previous of Some (PDict x) \<Rightarrow> Some x | _ \<Rightarrow> None);
          cur = tool_definition_snapshot e d
      in PDict
          [(PStr (lit ''reason''), PStr (lit ''tool_definition_changed'')), (PStr (lit ''at''), PStr (isoformat e now)),
           (PStr (lit ''previous_fingerprint''), PStr (fingerprint r)), (PStr (lit ''current_fingerprint''), PStr fp),
           (PStr (lit ''changed_fields''), PList (map PStr (sort (concat (map (\<lambda>(k, v).
              case prev of None \<Rightarrow> [] | Some x \<Rightarrow> if dict_get_none x (key_text k) \<noteq> v then [key_text k] else []) cur))))),
           (PStr (lit ''previous_definition_unrecorded''), PBool (prev = None)),
           (PStr (lit ''output_schema_recorded''), PBool (is_dict (meta_get d (lit ''outputSchema'')))),
           (PStr (lit ''previous_definition_snapshot''), (case prev of None \<Rightarrow> PNone | Some x \<Rightarrow> PDict x)),
           (PStr (lit ''current_definition_snapshot''), PDict cur)])"

text \<open>Evidence kept from the previous row of the same version.\<close>

definition carried_evidence :: "dict \<Rightarrow> dict \<Rightarrow> dict" where
  "carried_evidence old new =
     foldl (\<lambda>ev k. case dict_get old k of None \<Rightarrow> ev | Some v \<Rightarrow> dict_set k v ev) new [lit ''invalidation'', lit ''lifecycle'']"

definition set_class :: "pystr \<Rightarrow> (class_row \<Rightarrow> class_row) \<Rightarrow> class_db \<Rightarrow> class_db" where
  "set_class i f db = db\<lparr>classifications := update_rows (\<lambda>r. c_id r = i) f (classifications db)\<rparr>"

text \<open>
  One definition of the loop.  \<open>cache\<close> is the dictionary \<^verbatim>\<open>existing_rows\<close>; the insert is ignored
  when the key exists and raises when only the fresh id collides.
\<close>

definition sync_one :: "gate_env \<Rightarrow> rat \<Rightarrow> (tool_key \<Rightarrow> pystr) \<Rightarrow> tool_definition \<Rightarrow> class_db \<times> (tool_key \<rightharpoonup> class_row)
    \<Rightarrow> access_error + class_db \<times> (tool_key \<rightharpoonup> class_row)" where
  "sync_one e now uuid d st =
     (let db = fst st; cache = snd st; k = tool_key_of d; fp = tool_fingerprint e d; sg = suggest_tool e d;
          reload = (\<lambda>db'. Inr (db', case find_class db' k of None \<Rightarrow> cache | Some r \<Rightarrow> cache(k \<mapsto> r)))
      in case cache k of
           None \<Rightarrow>
             if find_class db k \<noteq> None then reload db
             else if find_row (\<lambda>r. c_id r = uuid k) (classifications db) \<noteq> None then Inl Integrity_error
             else reload (db\<lparr>classifications := classifications db @ [new_class_row now (uuid k) d fp sg]\<rparr>)
         | Some old \<Rightarrow>
             if fingerprint old = fp \<and> (c_status old = Published \<or> c_source old = lit ''manual'') then Inr (db, cache)
             else if fingerprint old \<noteq> fp then
               reload (set_class (c_id old) (invalidate_row now d fp sg
                 (dict_set (lit ''invalidation'') (invalidation e now d fp old) (sg_evidence sg))) db)
             else reload (set_class (c_id old) (refresh_row now d sg (carried_evidence (evidence old) (sg_evidence sg))) db))"

fun sync_all :: "gate_env \<Rightarrow> rat \<Rightarrow> (tool_key \<Rightarrow> pystr) \<Rightarrow> tool_definition list \<Rightarrow> class_db \<times> (tool_key \<rightharpoonup> class_row)
    \<Rightarrow> access_error + class_db \<times> (tool_key \<rightharpoonup> class_row)" where
  "sync_all e now uuid [] st = Inr st"
| "sync_all e now uuid (d # ds) st = bindR (sync_one e now uuid d st) (sync_all e now uuid ds)"

definition ensure_identities :: "(pystr \<Rightarrow> pystr) \<Rightarrow> pystr list \<Rightarrow> identity_row list \<Rightarrow> identity_row list" where
  "ensure_identities fresh servers ids =
     foldl (\<lambda>acc batch.
        (let present = map id_server (filter (\<lambda>r. id_server r \<in> set batch) acc) in
         foldl (\<lambda>a s. fst (ensure_server_identity (fresh s) a s)) acc (filter (\<lambda>s. s \<notin> set present) batch)))
       ids (chunks 250 servers)"

text \<open>\<open>_synchronize_tools\<close>: the whole call is one transaction.\<close>

definition synchronize :: "gate_env \<Rightarrow> rat \<Rightarrow> (tool_key \<Rightarrow> pystr) \<Rightarrow> (pystr \<Rightarrow> pystr) \<Rightarrow> tool_definition list \<Rightarrow> class_db
    \<Rightarrow> access_error + class_db" where
  "synchronize e now uuid fresh ds db =
     (let cache = load_classifications db (map tool_key_of ds);
          servers = sort (remdups (map server_id (filter (\<lambda>d. td_source d = lit ''mcp'') ds)));
          db1 = db\<lparr>identities := ensure_identities fresh servers (identities db)\<rparr>
      in bindR (sync_all e now uuid ds (db1, cache)) (\<lambda>(db', _). Inr db'))"

definition list_classifications :: "class_db \<Rightarrow> pystr option \<Rightarrow> class_status option \<Rightarrow> class_row list" where
  "list_classifications db server status =
     sort_key (\<lambda>r. (c_server r, c_name r))
       (filter (\<lambda>r. selects server (c_server r) \<and> (case status of None \<Rightarrow> True | Some s \<Rightarrow> c_status r = s)) (classifications db))"

section \<open>Reconciliation of one server\<close>

datatype reconcile_error = Rec_error access_error | Rec_mismatch "pystr list" | Rec_expanded

record reconcile_report =
  rep_unchanged :: "pystr list"
  rep_new :: "pystr list"
  rep_changed :: "pystr list"
  rep_reappeared :: "pystr list"
  rep_retired :: "pystr list"
  rep_needs_review :: "pystr list"

definition lifecycle_entry :: "gate_env \<Rightarrow> string \<Rightarrow> string \<Rightarrow> pystr \<Rightarrow> rat \<Rightarrow> pyval" where
  "lifecycle_entry e status why actor now =
     PDict [(PStr (lit ''status''), PStr (lit status)), (PStr (lit ''reason''), PStr (lit why)),
            (PStr (lit ''actor_id''), PStr actor), (PStr (lit ''at''), PStr (isoformat e now))]"

definition is_retired :: "class_row \<Rightarrow> bool" where
  "is_retired r = (case dict_get (evidence r) (lit ''lifecycle'') of
     Some (PDict l) \<Rightarrow> dict_get l (lit ''status'') = Some (PStr (lit ''retired'')) | _ \<Rightarrow> False)"

definition set_tool_class :: "pystr \<Rightarrow> pystr \<Rightarrow> (class_row \<Rightarrow> class_row) \<Rightarrow> class_db \<Rightarrow> class_db" where
  "set_tool_class server tool f db =
     db\<lparr>classifications := update_rows (\<lambda>r. c_server r = server \<and> c_tool r = tool) f (classifications db)\<rparr>"

definition retire_row :: "gate_env \<Rightarrow> pystr \<Rightarrow> rat \<Rightarrow> dict \<Rightarrow> class_row \<Rightarrow> class_row" where
  "retire_row e actor now ev r =
     r\<lparr>suggested := Unknown, effective := Unknown, c_status := Stale,
       evidence := dict_set (lit ''lifecycle'') (lifecycle_entry e ''retired'' ''missing_from_latest_tools_list'' actor now) ev,
       reviewed_at := None, c_updated := now\<rparr>"

definition reappear_row :: "gate_env \<Rightarrow> pystr \<Rightarrow> rat \<Rightarrow> dict \<Rightarrow> class_row \<Rightarrow> class_row" where
  "reappear_row e actor now ev r =
     r\<lparr>effective := Unknown, c_status := Stale,
       evidence := dict_set (lit ''lifecycle'') (lifecycle_entry e ''active'' ''reappeared_in_tools_list'' actor now) ev,
       reviewed_at := None, c_updated := now\<rparr>"

text \<open>Python dictionaries built from rows keep the last row of a key.\<close>

definition rows_by_tool :: "class_row list \<Rightarrow> pystr \<rightharpoonup> class_row" where
  "rows_by_tool rows = map_of (map (\<lambda>r. (c_tool r, r)) (rev rows))"

definition retire_all :: "gate_env \<Rightarrow> pystr \<Rightarrow> rat \<Rightarrow> pystr \<Rightarrow> (pystr \<rightharpoonup> class_row) \<Rightarrow> pystr list \<Rightarrow> class_db \<Rightarrow> class_db" where
  "retire_all e actor now server before tools db =
     foldl (\<lambda>acc t. set_tool_class server t (retire_row e actor now (evidence (the (before t)))) acc) db tools"

definition reappear_all :: "gate_env \<Rightarrow> pystr \<Rightarrow> rat \<Rightarrow> pystr \<Rightarrow> pystr list \<Rightarrow> class_db \<Rightarrow> class_db" where
  "reappear_all e actor now server tools db =
     foldl (\<lambda>acc t.
        (let ev = (case find_row (\<lambda>r. c_server r = server \<and> c_tool r = t) (classifications acc) of
                     Some r \<Rightarrow> evidence r | None \<Rightarrow> [])
         in set_tool_class server t (reappear_row e actor now ev) acc)) db tools"

definition effective_rank :: "(pystr \<rightharpoonup> class_row) \<Rightarrow> pystr \<Rightarrow> int" where
  "effective_rank m t = (case m t of Some r \<Rightarrow> access_rank (effective r) | None \<Rightarrow> - 1)"

definition retired_now :: "class_db \<Rightarrow> pystr \<Rightarrow> tool_definition list \<Rightarrow> pystr list" where
  "retired_now db server ds =
     (let listed = list_classifications db (Some server) None in
      sort (filter (\<lambda>t. t \<notin> set (remdups (map td_id ds)) \<and> \<not> is_retired (the (rows_by_tool listed t))) (remdups (map c_tool listed))))"

definition reappeared_now :: "class_db \<Rightarrow> pystr \<Rightarrow> tool_definition list \<Rightarrow> pystr list" where
  "reappeared_now db server ds =
     filter (\<lambda>t. case rows_by_tool (list_classifications db (Some server) None) t of Some r \<Rightarrow> is_retired r | None \<Rightarrow> False) (map td_id ds)"

text \<open>The table after synchronising, retiring the absent tools and resetting the ones that came back.\<close>

definition reconciled :: "gate_env \<Rightarrow> rat \<Rightarrow> class_db \<Rightarrow> pystr \<Rightarrow> tool_definition list \<Rightarrow> pystr \<Rightarrow> class_db \<Rightarrow> class_db" where
  "reconciled e now db server ds actor db1 =
     reappear_all e actor now server (reappeared_now db server ds)
       (retire_all e actor now server (rows_by_tool (list_classifications db (Some server) None)) (retired_now db server ds) db1)"

definition reconcile_server_tools :: "gate_env \<Rightarrow> rat \<Rightarrow> rat \<Rightarrow> (tool_key \<Rightarrow> pystr) \<Rightarrow> (pystr \<Rightarrow> pystr) \<Rightarrow> class_db \<Rightarrow> pystr
    \<Rightarrow> tool_definition list \<Rightarrow> pystr \<Rightarrow> reconcile_error + class_db \<times> reconcile_report" where
  "reconcile_server_tools e now now' uuid fresh db server ds actor =
     (let mismatched = sort (map td_id (filter (\<lambda>d. server_id d \<noteq> server) ds)) in
      if mismatched \<noteq> [] then Inl (Rec_mismatch mismatched)
      else
        (let before = rows_by_tool (list_classifications db (Some server) None) in
         case synchronize e now uuid fresh ds db of
           Inl err \<Rightarrow> Inl (Rec_error err)
         | Inr db1 \<Rightarrow>
             (let ids = remdups (map td_id ds); reappeared = reappeared_now db server ds;
                  db3 = reconciled e now' db server ds actor db1;
                  after = rows_by_tool (list_classifications db3 (Some server) None);
                  new = sort (filter (\<lambda>t. before t = None) ids);
                  changed = sort (filter (\<lambda>t. before t \<noteq> None \<and> fingerprint (the (before t)) \<noteq> fingerprint (the (after t))
                                     \<and> t \<notin> set reappeared) ids);
                  unchanged = sort (filter (\<lambda>t. t \<notin> set new \<and> t \<notin> set changed \<and> t \<notin> set reappeared) ids)
              in if \<exists>t \<in> set ids. effective_rank after t > effective_rank before t then Inl Rec_expanded
                 else Inr (db3, \<lparr>rep_unchanged = unchanged, rep_new = new, rep_changed = changed,
                        rep_reappeared = sort reappeared, rep_retired = retired_now db server ds,
                        rep_needs_review = sort (filter (\<lambda>t. c_status (the (after t)) \<noteq> Published) ids)\<rparr>))))"

section \<open>Review\<close>

definition decide_row :: "access \<times> bool \<times> bool \<times> pystr \<times> pystr \<times> rat \<Rightarrow> class_row \<Rightarrow> class_row" where
  "decide_row v r = (case v of (a, des, ide, note, reviewer, now) \<Rightarrow>
     r\<lparr>effective := a, c_status := Pending, c_source := lit ''manual'', destructive := des, idempotent := ide,
       evidence := dict_set (lit ''manual'') (PDict [(PStr (lit ''note''), PStr note), (PStr (lit ''reviewer_id''), PStr reviewer)]) (evidence r),
       reviewed_by := Some reviewer, reviewed_at := None, c_updated := now\<rparr>)"

definition set_classification :: "rat \<Rightarrow> class_db \<Rightarrow> pystr \<Rightarrow> pystr \<Rightarrow> pystr \<Rightarrow> bool \<Rightarrow> bool \<Rightarrow> pystr \<Rightarrow> pystr
    \<Rightarrow> access_error + class_db" where
  "set_classification now db server tool level des ide reviewer note =
     (case parse_access level of
        None \<Rightarrow> Inl Value_error
      | Some a \<Rightarrow>
          if a = No_access then Inl Value_error
          else (case find_class db (server, tool) of
                  None \<Rightarrow> Inl Key_missing
                | Some r \<Rightarrow> Inr (set_class (c_id r) (decide_row (a, des, ide, strip note, reviewer, now)) db)))"

datatype confirm_error = Confirm_value | Confirm_conflict

text \<open>\<^verbatim>\<open>str(item.get(key) or "").strip()\<close> for the fields of a confirmation item, which the route declares as texts.\<close>

definition text_field :: "dict \<Rightarrow> string \<Rightarrow> pystr" where
  "text_field d k = (case dict_get d (lit k) of Some (PStr s) \<Rightarrow> strip s | _ \<Rightarrow> [])"

fun confirm_targets :: "pyval list \<Rightarrow> (tool_key \<times> pystr) list \<Rightarrow> confirm_error + (tool_key \<times> pystr) list" where
  "confirm_targets [] acc = Inr acc"
| "confirm_targets (v # vs) acc =
     (case v of
        PDict d \<Rightarrow>
          (let s = text_field d ''server_id''; t = text_field d ''tool_id''; fp = text_field d ''expected_fingerprint'' in
           if s = [] \<or> t = [] \<or> fp = [] then Inl Confirm_value
           else if map_of acc (s, t) \<noteq> None \<and> map_of acc (s, t) \<noteq> Some fp then Inl Confirm_conflict
           else confirm_targets vs (AList.update (s, t) fp acc))
      | _ \<Rightarrow> Inl Confirm_value)"

fun confirm_rows :: "class_db \<Rightarrow> (tool_key \<times> pystr) list \<Rightarrow> confirm_error + class_row list" where
  "confirm_rows db [] = Inr []"
| "confirm_rows db ((k, fp) # ts) =
     (case find_class db k of
        None \<Rightarrow> Inl Confirm_conflict
      | Some r \<Rightarrow> if fingerprint r \<noteq> fp then Inl Confirm_conflict
                  else bindR (confirm_rows db ts) (\<lambda>rs. Inr (r # rs)))"

definition confirmed_access :: "class_row \<Rightarrow> (access \<times> string) option" where
  "confirmed_access r =
     (if effective r \<in> {Read, Write} then Some (effective r, ''effective'')
      else if suggested r \<in> {Read, Write} then Some (suggested r, ''suggested'')
      else None)"

definition confirm_row :: "access \<times> string \<times> bool \<times> pystr \<times> pystr \<times> rat \<Rightarrow> class_row \<Rightarrow> class_row" where
  "confirm_row v r = (case v of (a, origin, publish, note, reviewer, now) \<Rightarrow>
     r\<lparr>effective := a, c_status := (if publish then Published else Pending), c_source := lit ''manual'',
       evidence := dict_set (lit ''confirmation'')
         (PDict [(PStr (lit ''published_together''), PBool publish), (PStr (lit ''note''), PStr note),
            (PStr (lit ''reviewer_id''), PStr reviewer), (PStr (lit ''confirmed_from''), PStr (lit origin))]) (evidence r),
       reviewed_by := Some reviewer, reviewed_at := (if publish then Some now else None), c_updated := now\<rparr>)"

definition confirm_one :: "bool \<Rightarrow> pystr \<Rightarrow> pystr \<Rightarrow> rat \<Rightarrow> class_row \<Rightarrow> class_db \<times> tool_key list \<times> (tool_key \<times> pystr) list
    \<Rightarrow> class_db \<times> tool_key list \<times> (tool_key \<times> pystr) list" where
  "confirm_one publish note reviewer now r st =
     (case st of (db, confirmed, skipped) \<Rightarrow>
        if c_status r = Published then (db, confirmed, skipped @ [(class_key r, lit ''published'')])
        else (case confirmed_access r of
                None \<Rightarrow> (db, confirmed, skipped @ [(class_key r, lit ''unknown'')])
              | Some (a, origin) \<Rightarrow>
                  (set_class (c_id r) (confirm_row (a, origin, publish, note, reviewer, now)) db,
                   confirmed @ [class_key r], skipped)))"

record confirm_result =
  confirmed :: "tool_key list"
  skipped :: "(tool_key \<times> pystr) list"
  total_count :: nat

definition confirm_classifications :: "rat \<Rightarrow> class_db \<Rightarrow> pystr \<Rightarrow> pyval list \<Rightarrow> pystr \<Rightarrow> bool
    \<Rightarrow> confirm_error + class_db \<times> confirm_result" where
  "confirm_classifications now db reviewer items note publish =
     (if items = [] \<or> length items > 500 then Inl Confirm_value
      else bindR (confirm_targets items []) (\<lambda>targets.
           bindR (confirm_rows db targets) (\<lambda>rows.
           (case fold (confirm_one publish (strip note) reviewer now) rows (db, [], []) of
              (db', cs, ss) \<Rightarrow> Inr (db', \<lparr>confirmed = cs, skipped = ss, total_count = length targets\<rparr>)))))"

definition publish_row :: "pystr \<times> rat \<Rightarrow> class_row \<Rightarrow> class_row" where
  "publish_row v r = (case v of (reviewer, now) \<Rightarrow>
     r\<lparr>c_status := Published, reviewed_by := Some reviewer, reviewed_at := Some now, c_updated := now\<rparr>)"

definition publish_classifications :: "rat \<Rightarrow> class_db \<Rightarrow> pystr \<Rightarrow> pystr option \<Rightarrow> pystr list \<Rightarrow> class_db" where
  "publish_classifications now db reviewer server tools =
     (let ids = filter (\<lambda>t. t \<noteq> []) tools;
          rows = filter (\<lambda>r. effective r \<in> {Read, Write} \<and> selects server (c_server r) \<and> (ids = [] \<or> c_tool r \<in> set ids))
                   (classifications db)
      in fold (\<lambda>r acc. set_class (c_id r) (publish_row (reviewer, now)) acc) rows db)"

section \<open>Well-formed classifications\<close>

definition row_ok :: "class_row \<Rightarrow> bool" where
  "row_ok r \<longleftrightarrow> effective r \<noteq> No_access \<and> suggested r \<noteq> No_access \<and> (c_status r = Published \<longrightarrow> effective r \<in> {Read, Write})"

definition class_ok :: "class_db \<Rightarrow> bool" where
  "class_ok db \<longleftrightarrow> distinct (map c_id (classifications db)) \<and> distinct (map class_key (classifications db))
     \<and> (\<forall>r \<in> set (classifications db). row_ok r) \<and> distinct (map id_server (identities db))"

text \<open>A row update that leaves the id and the key alone and keeps the row well formed.\<close>

definition safe_edit :: "(class_row \<Rightarrow> class_row) \<Rightarrow> bool" where
  "safe_edit f \<longleftrightarrow> (\<forall>r. c_id (f r) = c_id r \<and> class_key (f r) = class_key r \<and> (row_ok r \<longrightarrow> row_ok (f r)))"

lemma set_class_ok: "class_ok db \<Longrightarrow> safe_edit f \<Longrightarrow> class_ok (set_class i f db)"
  by (auto simp: class_ok_def set_class_def safe_edit_def map_update_rows set_update_rows)

lemma set_tool_class_ok: "class_ok db \<Longrightarrow> safe_edit f \<Longrightarrow> class_ok (set_tool_class s t f db)"
  by (auto simp: class_ok_def set_tool_class_def safe_edit_def map_update_rows set_update_rows)

lemma find_class_mem: "find_class db k = Some r \<Longrightarrow> r \<in> set (classifications db) \<and> class_key r = k"
  unfolding find_class_def by (rule find_row_SomeD)

lemma find_class_iff:
  assumes "class_ok db"
  shows "find_class db k = Some r \<longleftrightarrow> r \<in> set (classifications db) \<and> class_key r = k"
proof
  show "find_class db k = Some r \<Longrightarrow> r \<in> set (classifications db) \<and> class_key r = k" by (rule find_class_mem)
next
  assume "r \<in> set (classifications db) \<and> class_key r = k"
  then show "find_class db k = Some r"
    using assms unique_key_find [of class_key "classifications db" r] by (simp add: find_class_def class_ok_def)
qed

lemma find_class_set:
  assumes ok: "class_ok db" and r: "find_class db k = Some r" and f: "safe_edit f"
  shows "find_class (set_class (c_id r) f db) k' = (if k' = k then Some (f r) else find_class db k')"
proof -
  have ok': "class_ok (set_class (c_id r) f db)" by (rule set_class_ok [OF ok f])
  have mem: "r \<in> set (classifications db)" "class_key r = k" using find_class_mem [OF r] by auto
  have only: "x = r" if "x \<in> set (classifications db)" "c_id x = c_id r" for x
    using that mem ok unique_key_eq [of c_id "classifications db" x r] by (simp add: class_ok_def)
  have rows: "x \<in> set (classifications (set_class (c_id r) f db)) \<longleftrightarrow>
      x = f r \<or> x \<in> set (classifications db) \<and> c_id x \<noteq> c_id r" for x
    using only mem(1) by (auto simp: set_class_def set_update_rows)
  have key: "class_key (f r) = k" using f mem by (simp add: safe_edit_def)
  show ?thesis
  proof (cases "find_class (set_class (c_id r) f db) k'")
    case None
    then have "\<forall>x \<in> set (classifications (set_class (c_id r) f db)). class_key x \<noteq> k'"
      by (simp add: find_class_def find_row_None_iff)
    then have "k' \<noteq> k" "\<forall>x \<in> set (classifications db). class_key x \<noteq> k'"
      using rows key mem only by metis+
    then have "find_class db k' = None" by (simp add: find_class_def find_row_None_iff)
    with None \<open>k' \<noteq> k\<close> show ?thesis by simp
  next
    case (Some x)
    then have x: "x \<in> set (classifications (set_class (c_id r) f db))" "class_key x = k'" using find_class_mem by auto
    show ?thesis
    proof (cases "k' = k")
      case True
      have "find_class (set_class (c_id r) f db) k = Some (f r)"
        using find_class_iff [OF ok', of k "f r"] rows key by simp
      with True show ?thesis by simp
    next
      case False
      with x rows key have "x \<in> set (classifications db)" by auto
      with x(2) ok have "find_class db k' = Some x" by (simp add: find_class_iff)
      with Some False show ?thesis by simp
    qed
  qed
qed

lemma set_tool_class_conv:
  assumes "class_ok db"
  shows "set_tool_class s t f db = (case find_class db (s, t) of None \<Rightarrow> db | Some r \<Rightarrow> set_class (c_id r) f db)"
proof (cases "find_class db (s, t)")
  case None
  then have "\<forall>r \<in> set (classifications db). \<not> (c_server r = s \<and> c_tool r = t)"
    by (auto simp: find_class_def find_row_None_iff class_key_def)
  then have "update_rows (\<lambda>r. c_server r = s \<and> c_tool r = t) f (classifications db) = classifications db"
    unfolding update_rows_def by (intro map_idI) auto
  then show ?thesis
    using None by (simp add: set_tool_class_def)
next
  case (Some r)
  have "(c_server x = s \<and> c_tool x = t) \<longleftrightarrow> c_id x = c_id r" if x: "x \<in> set (classifications db)" for x
    using find_class_mem [OF Some] x assms unique_key_eq [of c_id "classifications db" x r]
      unique_key_eq [of class_key "classifications db" x r]
    by (auto simp: class_ok_def class_key_def)
  then show ?thesis
    using Some by (simp add: set_tool_class_def set_class_def update_rows_def cong: map_cong)
qed

section \<open>Batched loading reads the table\<close>

lemma concat_chunks: "0 < n \<Longrightarrow> concat (chunks n xs) = xs"
  by (induction n xs rule: chunks.induct) (subst chunks.simps, auto)

lemma map_of_keyed: "map_of (map (\<lambda>r. (f r, r)) rows) k = find_row (\<lambda>r. f r = k) rows"
  by (induction rows) (auto simp: find_row_def)

lemma find_row_filter: "find_row (\<lambda>r. f r = k) (filter (\<lambda>r. f r \<in> S) rows) = (if k \<in> S then find_row (\<lambda>r. f r = k) rows else None)"
  by (induction rows) (auto simp: find_row_def)

lemma load_batches:
  "foldl (\<lambda>m batch. m ++ map_of (map (\<lambda>r. (class_key r, r)) (filter (\<lambda>r. class_key r \<in> set batch) (classifications db)))) m0 bs k =
     (if k \<in> set (concat bs) \<and> find_class db k \<noteq> None then find_class db k else m0 k)"
  by (induction bs arbitrary: m0)
    (auto simp: map_add_def map_of_keyed find_row_filter find_class_def split: option.splits)

lemma load_classifications_eq:
  "load_classifications db keys k = (if k \<in> set keys then find_class db k else None)"
  by (simp add: load_classifications_def load_batches concat_chunks)

text \<open>
  Loading the classifications of a list of tool keys in batches of 250 gives, for each listed key,
  exactly the row a lookup of that key finds, and nothing for the others.
\<close>
lemma load_classifications_exact:
  "load_classifications db keys = (\<lambda>k. if k \<in> set keys then find_class db k else None)"
  by (rule ext) (rule load_classifications_eq)

section \<open>Synchronisation refines a map of rows\<close>

definition sync_row :: "gate_env \<Rightarrow> rat \<Rightarrow> (tool_key \<Rightarrow> pystr) \<Rightarrow> tool_definition \<Rightarrow> class_row option \<Rightarrow> class_row" where
  "sync_row e now uuid d old =
     (let fp = tool_fingerprint e d; sg = suggest_tool e d in
      case old of
        None \<Rightarrow> new_class_row now (uuid (tool_key_of d)) d fp sg
      | Some r \<Rightarrow>
          if fingerprint r = fp \<and> (c_status r = Published \<or> c_source r = lit ''manual'') then r
          else if fingerprint r \<noteq> fp then
            invalidate_row now d fp sg (dict_set (lit ''invalidation'') (invalidation e now d fp r) (sg_evidence sg)) r
          else refresh_row now d sg (carried_evidence (evidence r) (sg_evidence sg)) r)"

lemma suggested_not_none: "sg_access (suggest_tool e d) \<noteq> No_access"
  by (auto simp: suggest_tool_def suggest_access_def Let_def split: if_splits prod.splits)

lemma safe_edits [simp]:
  "safe_edit (invalidate_row now d fp (suggest_tool e d) ev)"
  "safe_edit (refresh_row now d (suggest_tool e d) ev)"
  "safe_edit (retire_row e actor now ev)"
  "safe_edit (reappear_row e actor now ev)"
  "a \<noteq> No_access \<Longrightarrow> safe_edit (decide_row (a, des, ide, note, reviewer, now))"
  "a \<in> {Read, Write} \<Longrightarrow> safe_edit (confirm_row (a, origin, publish, note, reviewer, now))"
  using suggested_not_none [of e d]
  by (auto simp: safe_edit_def class_key_def row_ok_def invalidate_row_def refresh_row_def retire_row_def reappear_row_def
      decide_row_def confirm_row_def)

lemma new_class_row_simps [simp]:
  "class_key (new_class_row now u d fp sg) = tool_key_of d" "c_id (new_class_row now u d fp sg) = u"
  "effective (new_class_row now u d fp sg) = Unknown" "c_status (new_class_row now u d fp sg) = Pending"
  "fingerprint (new_class_row now u d fp sg) = fp"
  by (simp_all add: new_class_row_def class_key_def tool_key_of_def)

lemma append_class_ok:
  assumes "class_ok db" "row_ok x" "find_class db (class_key x) = None" "find_row (\<lambda>r. c_id r = c_id x) (classifications db) = None"
  shows "class_ok (db\<lparr>classifications := classifications db @ [x]\<rparr>)"
  using assms by (auto simp: class_ok_def find_class_def find_row_None_iff)

lemma find_class_append:
  assumes "find_class db (class_key x) = None"
  shows "find_class (db\<lparr>classifications := classifications db @ [x]\<rparr>) = (find_class db)(class_key x \<mapsto> x)"
proof
  fix k
  have "find_row p (rows @ [x]) = (case find_row p rows of None \<Rightarrow> if p x then Some x else None | Some r \<Rightarrow> Some r)" for p rows
    by (induction rows) (auto simp: find_row_def)
  then show "find_class (db\<lparr>classifications := classifications db @ [x]\<rparr>) k = ((find_class db)(class_key x \<mapsto> x)) k"
    using assms by (auto simp: find_class_def split: option.splits)
qed

lemma find_class_set_fun:
  assumes "class_ok db" "find_class db k = Some r" "safe_edit f"
  shows "find_class (set_class (c_id r) f db) = (find_class db)(k \<mapsto> f r)"
  using find_class_set [OF assms] by auto

lemma sync_one_refines:
  assumes ok: "class_ok db" and cache: "cache (tool_key_of d) = find_class db (tool_key_of d)"
    and run: "sync_one e now uuid d (db, cache) = Inr (db', cache')"
  defines "r' \<equiv> sync_row e now uuid d (find_class db (tool_key_of d))"
  shows "class_ok db'" "find_class db' = (find_class db)(tool_key_of d \<mapsto> r')" "cache' = cache(tool_key_of d \<mapsto> r')"
proof -
  let ?k = "tool_key_of d" and ?fp = "tool_fingerprint e d" and ?sg = "suggest_tool e d"
  have "class_ok db' \<and> find_class db' = (find_class db)(?k \<mapsto> r') \<and> cache' = cache(?k \<mapsto> r')"
  proof (cases "find_class db ?k")
    case None
    let ?x = "new_class_row now (uuid ?k) d ?fp ?sg"
    have x: "r' = ?x" by (simp add: r'_def None sync_row_def Let_def)
    have ok_x: "row_ok ?x" using suggested_not_none [of e d] by (simp add: row_ok_def new_class_row_def)
    have fresh: "find_row (\<lambda>r. c_id r = uuid ?k) (classifications db) = None"
      using run cache None by (auto simp: sync_one_def Let_def split: if_splits)
    have f: "find_class (db\<lparr>classifications := classifications db @ [?x]\<rparr>) = (find_class db)(?k \<mapsto> ?x)"
      using find_class_append [of db ?x] None by simp
    have "db' = db\<lparr>classifications := classifications db @ [?x]\<rparr> \<and> cache' = cache(?k \<mapsto> ?x)"
      using run cache None fresh f by (simp add: sync_one_def Let_def)
    then show ?thesis
      using append_class_ok [OF ok ok_x] None fresh f x by simp
  next
    case (Some old)
    have edit: "class_ok (set_class (c_id old) f db) \<and> find_class (set_class (c_id old) f db) = (find_class db)(?k \<mapsto> f old)"
      if "safe_edit f" for f
      using set_class_ok [OF ok that] find_class_set_fun [OF ok Some that] by simp
    show ?thesis
      using run cache Some ok edit [OF safe_edits(1)] edit [OF safe_edits(2)]
      by (auto simp: sync_one_def Let_def r'_def sync_row_def split: if_splits)
  qed
  then show "class_ok db'" "find_class db' = (find_class db)(?k \<mapsto> r')" "cache' = cache(?k \<mapsto> r')" by auto
qed

definition sync_map :: "gate_env \<Rightarrow> rat \<Rightarrow> (tool_key \<Rightarrow> pystr) \<Rightarrow> tool_definition list \<Rightarrow> (tool_key \<rightharpoonup> class_row) \<Rightarrow> tool_key \<rightharpoonup> class_row" where
  "sync_map e now uuid ds = fold (\<lambda>d m. m(tool_key_of d \<mapsto> sync_row e now uuid d (m (tool_key_of d)))) ds"

lemma sync_map_Cons:
  "sync_map e now uuid (d # ds) m = sync_map e now uuid ds (m(tool_key_of d \<mapsto> sync_row e now uuid d (m (tool_key_of d))))"
  by (simp add: sync_map_def)

lemma sync_all_refines:
  assumes "class_ok db" "\<And>d. d \<in> set ds \<Longrightarrow> cache (tool_key_of d) = find_class db (tool_key_of d)"
    and "sync_all e now uuid ds (db, cache) = Inr (db', cache')"
  shows "class_ok db' \<and> find_class db' = sync_map e now uuid ds (find_class db)"
  using assms
proof (induction ds arbitrary: db cache)
  case (Cons d ds)
  from Cons.prems(3) obtain db1 cache1 where one: "sync_one e now uuid d (db, cache) = Inr (db1, cache1)"
    and rest: "sync_all e now uuid ds (db1, cache1) = Inr (db', cache')" by auto
  have c: "cache (tool_key_of d) = find_class db (tool_key_of d)" using Cons.prems(2) by simp
  note step = sync_one_refines [OF Cons.prems(1) c one]
  have "cache1 (tool_key_of x) = find_class db1 (tool_key_of x)" if "x \<in> set ds" for x
    using Cons.prems(2) [of x] that by (simp add: step(2,3))
  from Cons.IH [OF step(1) this rest] show ?case by (simp only: sync_map_Cons step(2))
qed (simp add: sync_map_def)

lemma ensure_server_identity_distinct:
  "distinct (map id_server ids) \<Longrightarrow> distinct (map id_server (fst (ensure_server_identity uuid ids server)))"
  by (auto simp: ensure_server_identity_def find_identity_def find_row_None_iff split: option.splits)

lemma ensure_identities_distinct:
  "distinct (map id_server ids) \<Longrightarrow> distinct (map id_server (ensure_identities fresh servers ids))"
proof -
  have one: "distinct (map id_server a) \<Longrightarrow> distinct (map id_server (fst (ensure_server_identity i a s)))" for i a s
    by (rule ensure_server_identity_distinct)
  have many: "distinct (map id_server a) \<Longrightarrow>
      distinct (map id_server (foldl (\<lambda>a s. fst (ensure_server_identity (fresh s) a s)) a ss))" for a ss
    by (induction ss arbitrary: a) (simp_all add: one)
  have "distinct (map id_server a) \<Longrightarrow> distinct (map id_server (foldl (\<lambda>acc batch.
        (let present = map id_server (filter (\<lambda>r. id_server r \<in> set batch) acc) in
         foldl (\<lambda>a s. fst (ensure_server_identity (fresh s) a s)) acc (filter (\<lambda>s. s \<notin> set present) batch))) a bs))" for a bs
    by (induction bs arbitrary: a) (simp_all add: Let_def many)
  then show "distinct (map id_server ids) \<Longrightarrow> distinct (map id_server (ensure_identities fresh servers ids))"
    by (simp add: ensure_identities_def)
qed

lemma find_class_identities [simp]: "find_class (db\<lparr>identities := ids\<rparr>) = find_class db"
  by (rule ext) (simp add: find_class_def)

lemma synchronize_abs:
  assumes ok: "class_ok db" and run: "synchronize e now uuid fresh ds db = Inr db'"
  shows "class_ok db' \<and> find_class db' = sync_map e now uuid ds (find_class db)"
proof -
  let ?db = "db\<lparr>identities := ensure_identities fresh (sort (remdups (map server_id (filter (\<lambda>d. td_source d = lit ''mcp'') ds)))) (identities db)\<rparr>"
  obtain cache' where all: "sync_all e now uuid ds (?db, load_classifications db (map tool_key_of ds)) = Inr (db', cache')"
    using run by (auto simp: synchronize_def Let_def)
  have ok': "class_ok ?db" using ok ensure_identities_distinct by (simp add: class_ok_def)
  have cache: "load_classifications db (map tool_key_of ds) (tool_key_of d) = find_class ?db (tool_key_of d)" if "d \<in> set ds" for d
    using that by (simp add: load_classifications_eq)
  from sync_all_refines [OF ok' cache all] show ?thesis by simp
qed

text \<open>What one definition may do to a row: create it without access, leave it alone, refresh the suggestion or invalidate it.\<close>

lemma sync_row_cases:
  fixes e now uuid d old
  defines "r' \<equiv> sync_row e now uuid d old"
  shows "old = Some r' \<or> (c_status r' \<noteq> Published \<and> effective r' = Unknown)
     \<or> (c_status r' \<noteq> Published \<and> (\<exists>r. old = Some r \<and> c_status r = c_status r' \<and> effective r = effective r'))"
    and "fingerprint r' = tool_fingerprint e d"
  by (auto simp: r'_def sync_row_def Let_def invalidate_row_def refresh_row_def split: option.splits)

lemma access_rank_Unknown [simp]: "- 1 \<le> access_rank a"
  by (cases a) auto

definition row_rank :: "class_row option \<Rightarrow> int" where
  "row_rank x = (case x of None \<Rightarrow> - 1 | Some r \<Rightarrow> access_rank (effective r))"

lemma row_rank_bounds: "- 1 \<le> row_rank x" "effective r = Unknown \<Longrightarrow> row_rank (Some r) = - 1"
  by (auto simp: row_rank_def split: option.splits)

lemma sync_row_rank: "row_rank (Some (sync_row e now uuid d old)) \<le> row_rank old"
  using sync_row_cases(1) [of old e now uuid d] row_rank_bounds(1) [of old]
    row_rank_bounds(2) [of "sync_row e now uuid d old"] by (auto simp: row_rank_def split: option.splits)

lemma sync_map_tightens:
  fixes e now uuid ds and m :: "tool_key \<rightharpoonup> class_row"
  defines "m' \<equiv> sync_map e now uuid ds m"
  shows "row_rank (m' k) \<le> row_rank (m k)"
    and "m' k = Some r \<Longrightarrow> c_status r = Published \<Longrightarrow> m k = Some r \<and> (\<forall>d \<in> set ds. tool_key_of d = k \<longrightarrow> fingerprint r = tool_fingerprint e d)"
    and "k \<notin> tool_key_of ` set ds \<Longrightarrow> m' k = m k"
    and "d \<in> set ds \<Longrightarrow> m' (tool_key_of d) \<noteq> None"
proof -
  show "row_rank (m' k) \<le> row_rank (m k)" unfolding m'_def
  proof (induction ds arbitrary: m)
    case (Cons d ds)
    show ?case
      using Cons [of "m(tool_key_of d \<mapsto> sync_row e now uuid d (m (tool_key_of d)))"]
        sync_row_rank [of e now uuid d "m (tool_key_of d)"]
      by (cases "k = tool_key_of d") (simp_all add: sync_map_Cons fun_upd_def)
  qed (simp add: sync_map_def)
  show "m' k = Some r \<Longrightarrow> c_status r = Published \<Longrightarrow> m k = Some r \<and> (\<forall>d \<in> set ds. tool_key_of d = k \<longrightarrow> fingerprint r = tool_fingerprint e d)"
    unfolding m'_def
  proof (induction ds arbitrary: m)
    case (Cons d ds)
    note IH = Cons.IH [OF Cons.prems(1) [unfolded sync_map_Cons] Cons.prems(2)]
    show ?case
      using IH sync_row_cases(1) [of "m (tool_key_of d)" e now uuid d] sync_row_cases(2) [of e now uuid d "m (tool_key_of d)"] Cons.prems(2)
      by (cases "k = tool_key_of d") auto
  qed (simp add: sync_map_def)
  show "k \<notin> tool_key_of ` set ds \<Longrightarrow> m' k = m k" unfolding m'_def
    by (induction ds arbitrary: m) (auto simp: sync_map_Cons, simp add: sync_map_def)
  have keep: "x k \<noteq> None \<Longrightarrow> sync_map e now uuid ds x k \<noteq> None" for x k ds
    by (induction ds arbitrary: x) (auto simp: sync_map_Cons, simp add: sync_map_def)
  show "d \<in> set ds \<Longrightarrow> m' (tool_key_of d) \<noteq> None" unfolding m'_def
  proof (induction ds arbitrary: m)
    case (Cons x xs)
    then show ?case
      using keep [of "m(tool_key_of x \<mapsto> sync_row e now uuid x (m (tool_key_of x)))" "tool_key_of x" xs]
      by (cases "d = x") (simp_all add: sync_map_Cons)
  qed simp
qed

lemma set_tool_class_fun:
  assumes ok: "class_ok db" and f: "safe_edit f"
  shows "find_class (set_tool_class s t f db) k = (if k = (s, t) then map_option f (find_class db k) else find_class db k)"
  using find_class_set [OF ok _ f] by (auto simp: set_tool_class_conv [OF ok] split: option.splits)

section \<open>Reconciliation only tightens\<close>

text \<open>An edit that leaves the definition alone and takes the access away.\<close>

definition stale_edit :: "(class_row \<Rightarrow> class_row) \<Rightarrow> bool" where
  "stale_edit f \<longleftrightarrow> safe_edit f \<and> (\<forall>r. c_status (f r) = Stale \<and> effective (f r) = Unknown \<and> fingerprint (f r) = fingerprint r)"

definition staled :: "class_row option \<Rightarrow> class_row option \<Rightarrow> bool" where
  "staled old new = (case old of None \<Rightarrow> new = None
     | Some r \<Rightarrow> (case new of None \<Rightarrow> False
         | Some r' \<Rightarrow> c_status r' = Stale \<and> effective r' = Unknown \<and> fingerprint r' = fingerprint r))"

lemma staled_edit: "stale_edit f \<Longrightarrow> staled x (map_option f x)"
  by (auto simp: staled_def stale_edit_def split: option.splits)

lemma staled_trans: "staled x y \<Longrightarrow> staled y z \<Longrightarrow> staled x z"
  by (auto simp: staled_def split: option.splits)

lemma stale_edits [simp]:
  "stale_edit (retire_row e actor now ev)" "stale_edit (reappear_row e actor now ev)"
  by (simp_all add: stale_edit_def, simp_all add: retire_row_def reappear_row_def)

lemma stale_fold:
  fixes db s ts
  assumes "class_ok db" and F: "\<And>t acc. stale_edit (F t acc)"
  defines "db' \<equiv> foldl (\<lambda>acc t. set_tool_class s t (F t acc) acc) db ts"
  shows "class_ok db' \<and> (\<forall>k. if fst k = s \<and> snd k \<in> set ts then staled (find_class db k) (find_class db' k)
    else find_class db' k = find_class db k)"
  using assms(1) unfolding db'_def
proof (induction ts arbitrary: db)
  case (Cons t ts)
  let ?db1 = "set_tool_class s t (F t db) db"
  have safe: "safe_edit (F t db)" using F [of t db] by (simp add: stale_edit_def)
  have ok1: "class_ok ?db1" by (rule set_tool_class_ok [OF Cons.prems safe])
  have one: "if k = (s, t) then staled (find_class db k) (find_class ?db1 k) else find_class ?db1 k = find_class db k" for k
    using staled_edit [OF F [of t db]] by (simp add: set_tool_class_fun [OF Cons.prems safe])
  let ?db' = "foldl (\<lambda>acc t. set_tool_class s t (F t acc) acc) ?db1 ts"
  have IH: "class_ok ?db'" "if fst k = s \<and> snd k \<in> set ts then staled (find_class ?db1 k) (find_class ?db' k)
      else find_class ?db' k = find_class ?db1 k" for k
    using Cons.IH [OF ok1] by blast+
  have "if fst k = s \<and> snd k \<in> set (t # ts) then staled (find_class db k) (find_class ?db' k)
      else find_class ?db' k = find_class db k" for k
    using one [of k] IH(2) [of k] staled_trans [of "find_class db k" "find_class ?db1 k" "find_class ?db' k"]
    by (cases "k = (s, t)"; cases "snd k \<in> set ts"; cases k) auto
  with IH(1) show ?case by simp
qed simp

lemma rows_by_tool_mem: "rows_by_tool rows t = Some r \<Longrightarrow> r \<in> set rows \<and> c_tool r = t"
  unfolding rows_by_tool_def map_of_keyed by (auto dest: find_row_SomeD)

lemma rows_by_tool_None: "rows_by_tool rows t = None \<longleftrightarrow> t \<notin> c_tool ` set rows"
  unfolding rows_by_tool_def map_of_keyed by (auto simp: find_row_None_iff)

lemma list_server_rows:
  "s \<noteq> [] \<Longrightarrow> set (list_classifications db (Some s) None) = {r \<in> set (classifications db). c_server r = s}"
  by (auto simp: list_classifications_def selects_def)

lemma rows_by_tool_listed:
  assumes ok: "class_ok db" and s: "s \<noteq> []"
  shows "rows_by_tool (list_classifications db (Some s) None) t = find_class db (s, t)"
proof (cases "find_class db (s, t)")
  case None
  then have "rows_by_tool (list_classifications db (Some s) None) t = None"
    using s by (auto simp: rows_by_tool_None list_server_rows find_class_def find_row_None_iff class_key_def)
  with None show ?thesis by simp
next
  case (Some r)
  then have "r \<in> set (list_classifications db (Some s) None)" "c_tool r = t"
    using find_class_mem [OF Some] s by (auto simp: list_server_rows class_key_def)
  then obtain x where x: "rows_by_tool (list_classifications db (Some s) None) t = Some x"
    using rows_by_tool_None [of "list_classifications db (Some s) None" t] by (cases "rows_by_tool (list_classifications db (Some s) None) t") auto
  then have "x \<in> set (classifications db)" "class_key x = (s, t)"
    using rows_by_tool_mem [OF x] s by (auto simp: list_server_rows class_key_def)
  then have "find_class db (s, t) = Some x" using find_class_iff [OF ok, of "(s, t)" x] by simp
  with x show ?thesis by simp
qed

lemma server_id_nonempty: "server_id d \<noteq> []"
  by (auto simp: server_id_def split: pyval.splits)

text \<open>The state after the three phases: synchronise, retire, reappear.\<close>

lemma reconcile_phases:
  fixes actor now' server
  assumes ok: "class_ok db" and sync: "synchronize e now uuid fresh ds db = Inr db1"
  defines "db3 \<equiv> reconciled e now' db server ds actor db1"
  shows "class_ok db3"
    and "if fst k = server \<and> (snd k \<in> set (retired_now db server ds) \<or> snd k \<in> set (reappeared_now db server ds))
      then staled (find_class db1 k) (find_class db3 k) else find_class db3 k = find_class db1 k"
proof -
  let ?db2 = "retire_all e actor now' server (rows_by_tool (list_classifications db (Some server) None)) (retired_now db server ds) db1"
  have ok1: "class_ok db1" using synchronize_abs [OF ok sync] by simp
  note r = stale_fold [OF ok1, of "\<lambda>t acc. retire_row e actor now' (evidence (the (rows_by_tool (list_classifications db (Some server) None) t)))"
      server "retired_now db server ds", folded retire_all_def, OF stale_edits(1)]
  have ok2: "class_ok ?db2" using r by simp
  have two: "class_ok db3 \<and> (\<forall>k. if fst k = server \<and> snd k \<in> set (reappeared_now db server ds)
      then staled (find_class ?db2 k) (find_class db3 k) else find_class db3 k = find_class ?db2 k)"
    unfolding db3_def reconciled_def reappear_all_def Let_def
    by (rule stale_fold [OF ok2]) (rule stale_edits(2))
  show "class_ok db3" using two by simp
  show "if fst k = server \<and> (snd k \<in> set (retired_now db server ds) \<or> snd k \<in> set (reappeared_now db server ds))
      then staled (find_class db1 k) (find_class db3 k) else find_class db3 k = find_class db1 k"
    using conjunct2 [OF r, THEN spec, of k] conjunct2 [OF two, THEN spec, of k]
      staled_trans [of "find_class db1 k" "find_class ?db2 k" "find_class db3 k"]
    by (auto split: if_splits)
qed

lemma staled_rank: "staled x y \<Longrightarrow> row_rank y \<le> row_rank x"
  by (auto simp: staled_def row_rank_def split: option.splits)

lemma effective_rank_eq: "effective_rank m t = row_rank (m t)"
  by (simp add: effective_rank_def row_rank_def split: option.splits)

lemma reconciled_rank:
  assumes "class_ok db" "synchronize e now uuid fresh ds db = Inr db1"
  shows "row_rank (find_class (reconciled e now' db server ds actor db1) k) \<le> row_rank (find_class db k)"
proof -
  have "row_rank (find_class db1 k) \<le> row_rank (find_class db k)"
    using synchronize_abs [OF assms] sync_map_tightens(1) by metis
  then show ?thesis
    using reconcile_phases(2) [OF assms, of k server now' actor]
      staled_rank [of "find_class db1 k" "find_class (reconciled e now' db server ds actor db1) k"]
    by (auto split: if_splits)
qed

text \<open>The final comparison of \<^verbatim>\<open>reconcile_server_tools\<close> never finds an expansion.\<close>

lemma reconcile_not_expanded:
  assumes ok: "class_ok db" and ids: "\<forall>d \<in> set ds. server_id d = server" and sync: "synchronize e now uuid fresh ds db = Inr db1"
    and t: "t \<in> set (map td_id ds)"
  shows "effective_rank (rows_by_tool (list_classifications (reconciled e now' db server ds actor db1) (Some server) None)) t
    \<le> effective_rank (rows_by_tool (list_classifications db (Some server) None)) t"
proof -
  have "server \<noteq> []" using ids t server_id_nonempty by auto
  then show ?thesis
    unfolding effective_rank_eq
    using rows_by_tool_listed [OF reconcile_phases(1) [OF ok sync]] rows_by_tool_listed [OF ok] reconciled_rank [OF ok sync]
    by simp
qed

lemma reconcile_no_mismatch: "sort (map f (filter P ds)) = [] \<longleftrightarrow> (\<forall>d \<in> set ds. \<not> P d)"
  by (metis Nil_is_map_conv filter_empty_conv set_empty set_sort)

lemma reconcile_Inr:
  assumes ok: "class_ok db" and run: "reconcile_server_tools e now now' uuid fresh db server ds actor = Inr (db', rep)"
  obtains db1 where "synchronize e now uuid fresh ds db = Inr db1" "\<forall>d \<in> set ds. server_id d = server"
    "db' = reconciled e now' db server ds actor db1" "rep_retired rep = retired_now db server ds"
  using run by (auto simp: reconcile_server_tools_def Let_def reconcile_no_mismatch split: if_splits sum.splits)

lemma retired_now_set:
  assumes ok: "class_ok db" and s: "server \<noteq> []"
  shows "t \<in> set (retired_now db server ds) \<longleftrightarrow>
    t \<notin> td_id ` set ds \<and> (\<exists>r. find_class db (server, t) = Some r \<and> \<not> is_retired r)"
proof -
  have "t \<in> c_tool ` set (list_classifications db (Some server) None) \<longleftrightarrow> find_class db (server, t) \<noteq> None"
    using rows_by_tool_listed [OF ok s, of t] rows_by_tool_None [of "list_classifications db (Some server) None" t] by auto
  then show ?thesis
    by (auto simp: retired_now_def Let_def rows_by_tool_listed [OF ok s])
qed

lemma reappeared_now_set:
  assumes ok: "class_ok db" and s: "server \<noteq> []"
  shows "t \<in> set (reappeared_now db server ds) \<longleftrightarrow>
    t \<in> td_id ` set ds \<and> (\<exists>r. find_class db (server, t) = Some r \<and> is_retired r)"
  by (auto simp: reappeared_now_def rows_by_tool_listed [OF ok s] split: option.splits)

section \<open>Confirmation and publication\<close>

lemma confirm_targets_distinct:
  "confirm_targets vs acc = Inr ts \<Longrightarrow> distinct (map fst acc) \<Longrightarrow> distinct (map fst ts)"
  by (induction vs arbitrary: acc)
    (auto simp: Let_def distinct_update split: pyval.splits if_splits)

lemma confirm_rows_match:
  "confirm_rows db ts = Inr rows \<Longrightarrow>
   list_all2 (\<lambda>(k, fp) r. find_class db k = Some r \<and> fingerprint r = fp) ts rows"
  by (induction ts arbitrary: rows) (auto split: option.splits if_splits)

lemma confirm_rows_mismatch:
  "(k, fp) \<in> set ts \<Longrightarrow> map_option fingerprint (find_class db k) \<noteq> Some fp \<Longrightarrow> confirm_rows db ts = Inl Confirm_conflict"
  by (induction ts) (auto simp: bindR_Inl_iff split: option.splits)

text \<open>What confirming does to one row.\<close>

definition confirmed_row :: "bool \<Rightarrow> pystr \<Rightarrow> pystr \<Rightarrow> rat \<Rightarrow> class_row \<Rightarrow> class_row" where
  "confirmed_row publish note reviewer now r =
     (if c_status r = Published then r
      else case confirmed_access r of None \<Rightarrow> r
           | Some (a, origin) \<Rightarrow> confirm_row (a, origin, publish, note, reviewer, now) r)"

lemma confirmed_access_range: "confirmed_access r = Some (a, origin) \<Longrightarrow> a \<in> {Read, Write}"
  by (auto simp: confirmed_access_def split: if_splits)

lemma confirm_one_step:
  assumes ok: "class_ok db" and r: "find_class db k = Some r"
  shows "class_ok (fst (confirm_one publish note reviewer now r (db, cs, ss)))"
    and "find_class (fst (confirm_one publish note reviewer now r (db, cs, ss))) = (find_class db)(k \<mapsto> confirmed_row publish note reviewer now r)"
    and "snd (confirm_one publish note reviewer now r (db, cs, ss)) =
       (if c_status r = Published then (cs, ss @ [(k, lit ''published'')])
        else if confirmed_access r = None then (cs, ss @ [(k, lit ''unknown'')]) else (cs @ [k], ss))"
proof -
  have key: "class_key r = k" using find_class_mem [OF r] by simp
  have safe: "safe_edit (confirm_row (a, origin, publish, note, reviewer, now))" if "confirmed_access r = Some (a, origin)" for a origin
    using confirmed_access_range [OF that] by (rule safe_edits(6))
  show "class_ok (fst (confirm_one publish note reviewer now r (db, cs, ss)))"
    using ok set_class_ok [OF ok safe] by (auto simp: confirm_one_def split: option.splits)
  show "find_class (fst (confirm_one publish note reviewer now r (db, cs, ss))) = (find_class db)(k \<mapsto> confirmed_row publish note reviewer now r)"
    using r find_class_set_fun [OF ok r safe] by (auto simp: confirm_one_def confirmed_row_def split: option.splits)
  show "snd (confirm_one publish note reviewer now r (db, cs, ss)) =
       (if c_status r = Published then (cs, ss @ [(k, lit ''published'')])
        else if confirmed_access r = None then (cs, ss @ [(k, lit ''unknown'')]) else (cs @ [k], ss))"
    by (auto simp: confirm_one_def key split: option.splits)
qed

lemma confirm_fold:
  assumes "class_ok db" "distinct (map fst ts)" "list_all2 (\<lambda>(k, fp) r. find_class db k = Some r \<and> fingerprint r = fp) ts rows"
    and "fold (confirm_one publish note reviewer now) rows (db, cs, ss) = (db', cs', ss')"
  shows "class_ok db'
    \<and> find_class db' = (\<lambda>k. if k \<in> fst ` set ts then map_option (confirmed_row publish note reviewer now) (find_class db k) else find_class db k)
    \<and> length cs' + length ss' = length cs + length ss + length ts"
  using assms
proof (induction ts arbitrary: db cs ss rows)
  case (Cons x ts)
  obtain k fp where x: "x = (k, fp)" by (cases x)
  obtain r rest where rows: "rows = r # rest" using Cons.prems(3) by (cases rows) auto
  have r: "find_class db k = Some r" using Cons.prems(3) x rows by simp
  obtain db1 cs1 ss1 where st: "confirm_one publish note reviewer now r (db, cs, ss) = (db1, cs1, ss1)"
    by (cases "confirm_one publish note reviewer now r (db, cs, ss)")
  from confirm_one_step [OF Cons.prems(1) r, of publish "note" reviewer now cs ss]
  have step: "class_ok db1" "find_class db1 = (find_class db)(k \<mapsto> confirmed_row publish note reviewer now r)"
    "(cs1, ss1) = (if c_status r = Published then (cs, ss @ [(k, lit ''published'')])
        else if confirmed_access r = None then (cs, ss @ [(k, lit ''unknown'')]) else (cs @ [k], ss))"
    unfolding st fst_conv snd_conv by blast+
  have keep: "find_class db1 (fst y) = find_class db (fst y)" if "y \<in> set ts" for y
    using Cons.prems(2) that x by (auto simp: step(2))
  have "list_all2 (\<lambda>(k, fp) r. find_class db1 k = Some r \<and> fingerprint r = fp) ts rest"
  proof -
    have "list_all2 (\<lambda>(k, fp) r. find_class db k = Some r \<and> fingerprint r = fp) ts rest"
      using Cons.prems(3) rows by simp
    then show ?thesis
      using keep by (auto simp: list_all2_conv_all_nth split_beta)
  qed
  moreover have "fold (confirm_one publish note reviewer now) rest (db1, cs1, ss1) = (db', cs', ss')"
    using Cons.prems(4) rows st by simp
  moreover have "distinct (map fst ts)" using Cons.prems(2) by simp
  ultimately have IH: "class_ok db'" "length cs' + length ss' = length cs1 + length ss1 + length ts"
    "find_class db' = (\<lambda>k. if k \<in> fst ` set ts then map_option (confirmed_row publish note reviewer now) (find_class db1 k) else find_class db1 k)"
    using Cons.IH [OF step(1)] by blast+
  have "length cs1 + length ss1 = length cs + length ss + 1"
    using step(3) by (auto split: if_splits)
  moreover have "find_class db' =
      (\<lambda>y. if y \<in> fst ` set (x # ts) then map_option (confirmed_row publish note reviewer now) (find_class db y) else find_class db y)"
    unfolding IH(3) using Cons.prems(2) x r by (intro ext) (auto simp: step(2))
  ultimately show ?case using IH(1,2) by simp
qed simp

lemma confirm_Inr:
  assumes ok: "class_ok db" and run: "confirm_classifications now db reviewer items note publish = Inr (db', res)"
  obtains ts where "confirm_targets items [] = Inr ts" "0 < length items" "length items \<le> 500"
    "list_all (\<lambda>(k, fp). map_option fingerprint (find_class db k) = Some fp) ts"
    "class_ok db'"
    "find_class db' = (\<lambda>k. if k \<in> fst ` set ts then map_option (confirmed_row publish (strip note) reviewer now) (find_class db k) else find_class db k)"
    "length (confirmed res) + length (skipped res) = length ts" "total_count res = length ts"
proof -
  from run obtain ts rows where ts: "confirm_targets items [] = Inr ts" and rows: "confirm_rows db ts = Inr rows"
    and len: "items \<noteq> []" "length items \<le> 500"
    and out: "(case fold (confirm_one publish (strip note) reviewer now) rows (db, [], []) of
        (db', cs, ss) \<Rightarrow> (db', \<lparr>confirmed = cs, skipped = ss, total_count = length ts\<rparr>)) = (db', res)"
    by (auto simp: confirm_classifications_def split_beta split: if_splits)
  obtain cs ss where f: "fold (confirm_one publish (strip note) reviewer now) rows (db, [], []) = (db', cs, ss)"
    and res: "res = \<lparr>confirmed = cs, skipped = ss, total_count = length ts\<rparr>"
    using out by (cases "fold (confirm_one publish (strip note) reviewer now) rows (db, [], [])") auto
  have d: "distinct (map fst ts)" using confirm_targets_distinct [OF ts] by simp
  note m = confirm_rows_match [OF rows]
  have "list_all (\<lambda>(k, fp). map_option fingerprint (find_class db k) = Some fp) ts"
    using m by (auto simp: list_all_length list_all2_conv_all_nth split_beta)
  with that ts len confirm_fold [OF ok d m f] res show ?thesis by simp
qed

text \<open>Publishing edits rows that already carry an access level, one id each.\<close>

lemma publish_step:
  assumes ok: "class_ok db" and r: "find_class db k = Some r" and eff: "effective r \<in> {Read, Write}"
  shows "class_ok (set_class (c_id r) (publish_row v) db)"
    and "find_class (set_class (c_id r) (publish_row v) db) = (find_class db)(k \<mapsto> publish_row v r)"
proof -
  \<comment> \<open>On this row publication agrees with an edit that is safe everywhere.\<close>
  let ?f = "\<lambda>x. if effective x \<in> {Read, Write} then publish_row v x else x"
  have safe: "safe_edit ?f"
    by (auto simp: safe_edit_def row_ok_def publish_row_def class_key_def split: prod.splits)
  have mem: "r \<in> set (classifications db)" using find_class_mem [OF r] by simp
  have "x = r" if "x \<in> set (classifications db)" "c_id x = c_id r" for x
    using that mem ok unique_key_eq [of c_id "classifications db" x r] by (simp add: class_ok_def)
  then have "update_rows (\<lambda>x. c_id x = c_id r) (publish_row v) (classifications db) = update_rows (\<lambda>x. c_id x = c_id r) ?f (classifications db)"
    using eff unfolding update_rows_def by (intro map_cong refl) auto
  then have "set_class (c_id r) (publish_row v) db = set_class (c_id r) ?f db"
    by (simp add: set_class_def)
  then show "class_ok (set_class (c_id r) (publish_row v) db)"
    and "find_class (set_class (c_id r) (publish_row v) db) = (find_class db)(k \<mapsto> publish_row v r)"
    using set_class_ok [OF ok safe] find_class_set_fun [OF ok r safe] eff by simp_all
qed

lemma publish_fold:
  fixes v
  assumes "class_ok db" "distinct (map class_key rows)"
    and "\<forall>r \<in> set rows. find_class db (class_key r) = Some r \<and> effective r \<in> {Read, Write}"
  defines "db' \<equiv> fold (\<lambda>r acc. set_class (c_id r) (publish_row v) acc) rows db"
  shows "class_ok db' \<and> find_class db' = (\<lambda>k. if k \<in> class_key ` set rows then map_option (publish_row v) (find_class db k) else find_class db k)"
  using assms(1-3) unfolding db'_def
proof (induction rows arbitrary: db)
  case (Cons r rows)
  have r: "find_class db (class_key r) = Some r" "effective r \<in> {Read, Write}" using Cons.prems(3) by auto
  note step = publish_step [OF Cons.prems(1) r, of v]
  let ?db1 = "set_class (c_id r) (publish_row v) db"
  have "\<forall>x \<in> set rows. find_class ?db1 (class_key x) = Some x \<and> effective x \<in> {Read, Write}"
  proof
    fix x assume x: "x \<in> set rows"
    then have "class_key x \<noteq> class_key r" using Cons.prems(2) by (metis distinct.simps(2) image_eqI list.set_map list.simps(9))
    with x Cons.prems(3) show "find_class ?db1 (class_key x) = Some x \<and> effective x \<in> {Read, Write}" by (simp add: step(2))
  qed
  moreover have "distinct (map class_key rows)" using Cons.prems(2) by simp
  ultimately have IH: "class_ok (fold (\<lambda>r acc. set_class (c_id r) (publish_row v) acc) rows ?db1)"
    "find_class (fold (\<lambda>r acc. set_class (c_id r) (publish_row v) acc) rows ?db1) =
       (\<lambda>k. if k \<in> class_key ` set rows then map_option (publish_row v) (find_class ?db1 k) else find_class ?db1 k)"
    using Cons.IH [OF step(1)] by blast+
  have "find_class (fold (\<lambda>r acc. set_class (c_id r) (publish_row v) acc) (r # rows) db) =
      (\<lambda>k. if k \<in> class_key ` set (r # rows) then map_option (publish_row v) (find_class db k) else find_class db k)"
    using Cons.prems(2) r(1) by (intro ext) (auto simp: IH(2) step(2))
  with IH(1) show ?case by simp
qed simp

definition publishable :: "pystr option \<Rightarrow> pystr list \<Rightarrow> class_row \<Rightarrow> bool" where
  "publishable server tools r \<longleftrightarrow> effective r \<in> {Read, Write} \<and> selects server (c_server r)
     \<and> (filter (\<lambda>t. t \<noteq> []) tools = [] \<or> c_tool r \<in> set (filter (\<lambda>t. t \<noteq> []) tools))"

lemma publish_abs:
  fixes now reviewer server tools
  assumes ok: "class_ok db"
  defines "db' \<equiv> publish_classifications now db reviewer server tools"
  shows "class_ok db' \<and> find_class db' k =
    (case find_class db k of None \<Rightarrow> None | Some r \<Rightarrow> Some (if publishable server tools r then publish_row (reviewer, now) r else r))"
proof -
  let ?rows = "filter (publishable server tools) (classifications db)"
  have db': "db' = fold (\<lambda>r acc. set_class (c_id r) (publish_row (reviewer, now)) acc) ?rows db"
    unfolding db'_def publish_classifications_def Let_def publishable_def ..
  have d: "distinct (map class_key ?rows)" using ok by (simp add: class_ok_def distinct_map_filter)
  have f: "\<forall>r \<in> set ?rows. find_class db (class_key r) = Some r \<and> effective r \<in> {Read, Write}"
    using find_class_iff [OF ok] by (auto simp: publishable_def)
  have "k \<in> class_key ` set ?rows \<longleftrightarrow> (\<exists>r. find_class db k = Some r \<and> publishable server tools r)"
    using find_class_iff [OF ok, of k] by auto
  then show ?thesis
    using publish_fold [OF ok d f, of "(reviewer, now)", folded db'] by (auto split: option.splits)
qed

section \<open>Every operation keeps the table well formed\<close>

datatype class_op =
    Sync_op gate_env rat "tool_key \<Rightarrow> pystr" "pystr \<Rightarrow> pystr" "tool_definition list"
  | Reconcile_op gate_env rat rat "tool_key \<Rightarrow> pystr" "pystr \<Rightarrow> pystr" pystr "tool_definition list" pystr
  | Decide_op rat pystr pystr pystr bool bool pystr pystr
  | Confirm_op rat pystr "pyval list" pystr bool
  | Publish_op rat pystr "pystr option" "pystr list"

text \<open>A call that raises leaves the table as it was: it fails before its first write or inside one transaction.\<close>

definition kept :: "class_db \<Rightarrow> 'e + class_db \<Rightarrow> class_db" where
  "kept db r = (case r of Inl _ \<Rightarrow> db | Inr db' \<Rightarrow> db')"

fun class_exec :: "class_op \<Rightarrow> class_db \<Rightarrow> class_db" where
  "class_exec (Sync_op e now uuid fresh ds) db = kept db (synchronize e now uuid fresh ds db)"
| "class_exec (Reconcile_op e now now' uuid fresh server ds actor) db =
     kept db (bindR (reconcile_server_tools e now now' uuid fresh db server ds actor) (\<lambda>x. Inr (fst x)))"
| "class_exec (Decide_op now server tool level des ide reviewer n) db =
     kept db (set_classification now db server tool level des ide reviewer n)"
| "class_exec (Confirm_op now reviewer items n publish) db =
     kept db (bindR (confirm_classifications now db reviewer items n publish) (\<lambda>x. Inr (fst x)))"
| "class_exec (Publish_op now reviewer server tools) db = publish_classifications now db reviewer server tools"

definition class_run :: "class_op list \<Rightarrow> class_db \<Rightarrow> class_db" where
  "class_run ops db = fold class_exec ops db"

lemma kept_ok: "class_ok db \<Longrightarrow> (\<And>db'. r = Inr db' \<Longrightarrow> class_ok db') \<Longrightarrow> class_ok (kept db r)"
  by (cases r) (auto simp: kept_def)

lemma set_classification_ok:
  "class_ok db \<Longrightarrow> set_classification now db server tool level des ide reviewer n = Inr db' \<Longrightarrow> class_ok db'"
  by (auto simp: set_classification_def set_class_ok split: option.splits if_splits)

lemma reconcile_ok:
  "class_ok db \<Longrightarrow> reconcile_server_tools e now now' uuid fresh db server ds actor = Inr (db', rep) \<Longrightarrow> class_ok db'"
  using reconcile_phases(1) by (metis reconcile_Inr)

lemma confirm_ok: "class_ok db \<Longrightarrow> confirm_classifications now db reviewer items n publish = Inr (db', res) \<Longrightarrow> class_ok db'"
  by (metis confirm_Inr)

lemma class_exec_ok: "class_ok db \<Longrightarrow> class_ok (class_exec op db)"
proof (cases op)
  case (Sync_op e now uuid fresh ds)
  then show "class_ok db \<Longrightarrow> ?thesis" using synchronize_abs by (auto intro: kept_ok)
next
  case (Reconcile_op e now now' uuid fresh server ds actor)
  then show "class_ok db \<Longrightarrow> ?thesis"
    using reconcile_ok by (auto intro!: kept_ok)
next
  case (Decide_op now server tool level des ide reviewer n)
  then show "class_ok db \<Longrightarrow> ?thesis" using set_classification_ok by (auto intro: kept_ok)
next
  case (Confirm_op now reviewer items n publish)
  then show "class_ok db \<Longrightarrow> ?thesis" using confirm_ok by (auto intro!: kept_ok)
next
  case (Publish_op now reviewer server tools)
  then show "class_ok db \<Longrightarrow> ?thesis" using publish_abs by simp
qed

definition empty_classes :: class_db where
  "empty_classes = \<lparr>classifications = [], identities = []\<rparr>"

interpretation class_machine: machine "\<lambda>db. db = empty_classes" "\<lambda>db a db'. db' = class_exec a db" class_ok
proof unfold_locales
  show "class_ok db" if "db = empty_classes" for db using that by (simp add: empty_classes_def class_ok_def)
  show "class_ok db'" if "class_ok db" "db' = class_exec a db" for db a db' using that class_exec_ok by simp
qed

lemma class_run_run: "class_machine.run db ops (class_run ops db)"
  by (induction ops arbitrary: db) (auto simp: class_run_def intro: class_machine.run_Nil class_machine.run_Cons)

text \<open>
  From the empty table, any sequence of synchronisations, reconciliations, decisions, confirmations
  and publications, with any arguments and with failing calls in between, leaves at most one row per
  tool, and every published row carries read or write access.
\<close>
lemma classification_invariant:
  "class_ok (class_run ops empty_classes)
   \<and> list_all (\<lambda>r. effective r \<in> (if c_status r = Published then {Read, Write} else UNIV)) (classifications (class_run ops empty_classes))"
proof -
  have "class_ok (class_run ops empty_classes)"
    using class_machine.run_from_init [OF class_run_run] by blast
  then show ?thesis by (auto simp: class_ok_def row_ok_def list_all_iff)
qed

section \<open>Properties\<close>

definition demo_row :: class_row where
  "demo_row = \<lparr>c_id = lit ''row'', c_server = lit ''s'', c_tool = lit ''t'', c_name = lit ''T'', fingerprint = lit ''f'',
     suggested = Read, effective = Read, c_status = Pending, confidence = 0, c_source = lit ''manual'', destructive = False,
     idempotent = False, open_world = False, evidence = [], reviewed_by = None, reviewed_at = None, c_created = 0, c_updated = 0\<rparr>"

definition demo_classes :: class_db where
  "demo_classes = \<lparr>classifications = [demo_row], identities = []\<rparr>"

definition demo_definition :: tool_definition where
  "demo_definition = \<lparr>td_id = lit ''t'', td_name = lit ''T'', td_description = [], td_permission = lit ''read'',
     td_source = lit ''s'', td_input_schema = PNone, td_metadata = PNone\<rparr>"

lemma demo_classes_ok: "class_ok demo_classes" "find_class demo_classes (lit ''s'', lit ''t'') = Some demo_row"
  by (simp_all add: class_ok_def demo_classes_def row_ok_def demo_row_def find_class_def find_row_def class_key_def)

text \<open>
  C22: synchronisation refines a map from tools to rows.  On a well-formed table a successful call keeps
  it well formed and its lookup function becomes the fold, over the definitions in order, of
  the one-row update: insert a pending row without access, keep a published or manually decided row of
  the same definition, invalidate a row whose definition changed, refresh the suggestion
  otherwise.  The batched cache and the re-reads after each write never disagree with the table.
\<close>
theorem synchronize_refines:
  assumes "class_ok db" and "synchronize e now uuid fresh ds db = Inr db'"
  shows "class_ok db' \<and> find_class db' = sync_map e now uuid ds (find_class db)"
  using assms by (rule synchronize_abs)

lemma demo_sync:
  "synchronize demo_env 0 (\<lambda>_. lit ''u'') (\<lambda>s. s) [demo_definition] empty_classes =
     Inr \<lparr>classifications = [new_class_row 0 (lit ''u'') demo_definition (tool_fingerprint demo_env demo_definition)
        (suggest_tool demo_env demo_definition)], identities = []\<rparr>"
  by (simp add: synchronize_def Let_def demo_definition_def empty_classes_def load_classifications_eq find_class_def find_row_def
      sync_one_def ensure_identities_def chunks.simps)

theorem synchronize_refines_witness:
  "\<exists>db'. synchronize demo_env 0 (\<lambda>_. lit ''u'') (\<lambda>s. s) [demo_definition] empty_classes = Inr db'
     \<and> class_ok db' \<and> find_class db' = sync_map demo_env 0 (\<lambda>_. lit ''u'') [demo_definition] (find_class empty_classes)"
proof -
  have "class_ok empty_classes" by (simp add: class_ok_def empty_classes_def)
  from synchronize_refines [OF this demo_sync] demo_sync show ?thesis by blast
qed

text \<open>
  C12: synchronisation never grants anything.  A row published after the call is the very row that
  was published before it, and its fingerprint is that of every definition the call lists for the tool;
  no tool's effective access rises; every listed tool has a row; tools the call does not
  list keep theirs.
\<close>
theorem synchronize_only_tightens:
  assumes "class_ok db" and "synchronize e now uuid fresh ds db = Inr db'"
  shows "(\<forall>k r. find_class db' k = Some r \<and> c_status r = Published \<longrightarrow>
            find_class db k = Some r \<and> (\<forall>d \<in> set ds. tool_key_of d = k \<longrightarrow> fingerprint r = tool_fingerprint e d))
     \<and> (\<forall>k. row_rank (find_class db' k) \<le> row_rank (find_class db k))
     \<and> (\<forall>d \<in> set ds. find_class db' (tool_key_of d) \<noteq> None)
     \<and> (\<forall>k. k \<notin> tool_key_of ` set ds \<longrightarrow> find_class db' k = find_class db k)"
proof -
  note m = synchronize_abs [OF assms, THEN conjunct2]
  show ?thesis unfolding m
  proof (intro conjI allI impI ballI)
    fix k r assume "sync_map e now uuid ds (find_class db) k = Some r \<and> c_status r = Published"
    then have r: "sync_map e now uuid ds (find_class db) k = Some r" "c_status r = Published" by auto
    note p = sync_map_tightens(2) [OF r]
    show "find_class db k = Some r" using p by simp
    show "fingerprint r = tool_fingerprint e d" if "d \<in> set ds" "tool_key_of d = k" for d using p that by blast
  qed (rule sync_map_tightens(1,3,4); assumption)+
qed

theorem synchronize_only_tightens_witness:
  "\<exists>db'. synchronize demo_env 0 (\<lambda>_. lit ''u'') (\<lambda>s. s) [demo_definition] empty_classes = Inr db'
     \<and> row_rank (find_class db' (tool_key_of demo_definition)) \<le> row_rank (find_class empty_classes (tool_key_of demo_definition))
     \<and> find_class db' (tool_key_of demo_definition) \<noteq> None"
proof -
  have "class_ok empty_classes" by (simp add: class_ok_def empty_classes_def)
  note t = synchronize_only_tightens [OF this demo_sync]
  have "demo_definition \<in> set [demo_definition]" by simp
  with t demo_sync show ?thesis by blast
qed

text \<open>
  Reconciling one server only takes access away.  On a well-formed table the call never ends in
  the internal "expanded effective permissions" error.  When it succeeds, the rows of other servers
  are untouched; no tool's effective access rises; a row of the server that is published
  afterwards is unchanged, and either its tool was listed with the fingerprint of the row and was not
  retired, or its tool was absent and already marked retired; every other absent tool has lost its access.
\<close>
lemma reconcile_only_tightens:
  assumes ok: "class_ok db" and s: "server \<noteq> []"
  shows "case reconcile_server_tools e now now' uuid fresh db server ds actor of
     Inl err \<Rightarrow> err \<noteq> Rec_expanded
   | Inr (db', rep) \<Rightarrow>
       class_ok db'
       \<and> (\<forall>k. fst k \<noteq> server \<longrightarrow> find_class db' k = find_class db k)
       \<and> (\<forall>k. row_rank (find_class db' k) \<le> row_rank (find_class db k))
       \<and> (\<forall>t r. find_class db' (server, t) = Some r \<and> c_status r = Published \<longrightarrow>
             find_class db (server, t) = Some r
             \<and> (if t \<in> td_id ` set ds then \<not> is_retired r \<and> (\<exists>d \<in> set ds. td_id d = t \<and> fingerprint r = tool_fingerprint e d)
                else is_retired r))
       \<and> (\<forall>t \<in> set (rep_retired rep). \<exists>r. find_class db' (server, t) = Some r \<and> c_status r = Stale \<and> effective r = Unknown)"
proof (cases "reconcile_server_tools e now now' uuid fresh db server ds actor")
  case (Inl err)
  have "err \<noteq> Rec_expanded"
  proof
    assume "err = Rec_expanded"
    then obtain db1 t where "synchronize e now uuid fresh ds db = Inr db1" "\<forall>d \<in> set ds. server_id d = server" "t \<in> set (map td_id ds)"
      "effective_rank (rows_by_tool (list_classifications db (Some server) None)) t
        < effective_rank (rows_by_tool (list_classifications (reconciled e now' db server ds actor db1) (Some server) None)) t"
      using Inl by (auto simp: reconcile_server_tools_def Let_def reconcile_no_mismatch split: if_splits sum.splits)
    with reconcile_not_expanded [OF ok, of ds server e now uuid fresh db1 t now' actor] show False by simp
  qed
  with Inl show ?thesis by simp
next
  case (Inr x)
  obtain db' rep where x: "x = (db', rep)" by (cases x)
  obtain db1 where sync: "synchronize e now uuid fresh ds db = Inr db1" and ids: "\<forall>d \<in> set ds. server_id d = server"
    and db': "db' = reconciled e now' db server ds actor db1" and rep: "rep_retired rep = retired_now db server ds"
    using reconcile_Inr [OF ok Inr [unfolded x]] by metis
  note phase = reconcile_phases(2) [OF ok sync, of _ server now' actor, folded db']
  note abs = synchronize_abs [OF ok sync, THEN conjunct2]
  have keys: "tool_key_of d = (server, td_id d)" if "d \<in> set ds" for d using ids that by (simp add: tool_key_of_def)
  have listed: "k \<in> tool_key_of ` set ds \<longleftrightarrow> fst k = server \<and> snd k \<in> td_id ` set ds" for k
    using keys by (cases k) (force simp: image_iff)
  have sync_out: "find_class db1 k = find_class db k" if "k \<notin> tool_key_of ` set ds" for k
    unfolding abs by (rule sync_map_tightens(3) [OF that])
  have others: "\<forall>k. fst k \<noteq> server \<longrightarrow> find_class db' k = find_class db k"
  proof (intro allI impI)
    fix k :: tool_key assume k: "fst k \<noteq> server"
    then have "find_class db' k = find_class db1 k" using phase [of k] by simp
    then show "find_class db' k = find_class db k" using sync_out [of k] k listed by simp
  qed
  have published: "find_class db (server, t) = Some r
      \<and> (if t \<in> td_id ` set ds then \<not> is_retired r \<and> (\<exists>d \<in> set ds. td_id d = t \<and> fingerprint r = tool_fingerprint e d) else is_retired r)"
    if r: "find_class db' (server, t) = Some r" "c_status r = Published" for t r
  proof -
    have "\<not> staled (find_class db1 (server, t)) (find_class db' (server, t))"
      using r by (auto simp: staled_def split: option.splits)
    then have un: "t \<notin> set (retired_now db server ds)" "t \<notin> set (reappeared_now db server ds)" "find_class db1 (server, t) = Some r"
      using phase [of "(server, t)"] r(1) by (auto split: if_splits)
    have m: "sync_map e now uuid ds (find_class db) (server, t) = Some r" using un(3) abs by simp
    have same: "find_class db (server, t) = Some r" and fp: "\<And>d. d \<in> set ds \<Longrightarrow> tool_key_of d = (server, t) \<Longrightarrow> fingerprint r = tool_fingerprint e d"
      using sync_map_tightens(2) [OF m r(2)] by blast+
    show ?thesis
    proof (cases "t \<in> td_id ` set ds")
      case True
      then obtain d where d: "d \<in> set ds" "td_id d = t" by auto
      with fp [of d] keys have "fingerprint r = tool_fingerprint e d" by simp
      with True d same un(2) reappeared_now_set [OF ok s, of t ds] show ?thesis by auto
    next
      case False
      with same un(1) retired_now_set [OF ok s, of t ds] show ?thesis by auto
    qed
  qed
  have gone: "\<exists>r. find_class db' (server, t) = Some r \<and> c_status r = Stale \<and> effective r = Unknown" if "t \<in> set (rep_retired rep)" for t
  proof -
    have t: "t \<in> set (retired_now db server ds)" using that rep by simp
    then have "(server, t) \<notin> tool_key_of ` set ds" "find_class db (server, t) \<noteq> None"
      using retired_now_set [OF ok s, of t ds] listed by auto
    then have "find_class db1 (server, t) \<noteq> None" using sync_out by simp
    then show ?thesis using phase [of "(server, t)"] t by (auto simp: staled_def split: option.splits)
  qed
  show ?thesis
    unfolding Inr x
    using reconcile_phases(1) [OF ok sync, where server = server and now' = now' and actor = actor, folded db'] others
      reconciled_rank [OF ok sync, where server = server and now' = now' and actor = actor, folded db'] published gone
    unfolding sum.case prod.case by (intro conjI allI ballI impI) blast+
qed

lemma reconcile_only_tightens_witness:
  "\<exists>db' rep. reconcile_server_tools demo_env 0 1 (\<lambda>_. lit ''u'') (\<lambda>s. s) demo_classes (lit ''s'') [] (lit ''admin'') = Inr (db', rep)
     \<and> class_ok db' \<and> rep_retired rep = [lit ''t'']
     \<and> (\<exists>r. find_class db' (lit ''s'', lit ''t'') = Some r \<and> c_status r = Stale \<and> effective r = Unknown)"
proof -
  have sync: "synchronize demo_env 0 (\<lambda>_. lit ''u'') (\<lambda>s. s) [] demo_classes = Inr demo_classes"
    by (simp add: synchronize_def Let_def ensure_identities_def chunks.simps)
  have retired: "retired_now demo_classes (lit ''s'') [] = [lit ''t'']"
    by (simp add: retired_now_def Let_def list_classifications_def demo_classes_def demo_row_def selects_def rows_by_tool_def
        is_retired_def dict_get_def)
  obtain db' rep where run: "reconcile_server_tools demo_env 0 1 (\<lambda>_. lit ''u'') (\<lambda>s. s) demo_classes (lit ''s'') [] (lit ''admin'') = Inr (db', rep)"
    and rep: "rep_retired rep = [lit ''t'']"
    by (simp add: reconcile_server_tools_def sync Let_def retired)
  have "lit ''s'' \<noteq> []" by simp
  from reconcile_only_tightens [OF demo_classes_ok(1) this, where e = demo_env and now = 0 and now' = 1
      and uuid = "\<lambda>_. lit ''u''" and fresh = "\<lambda>s. s" and ds = "[]" and actor = "lit ''admin''"] run rep
  have "class_ok db'" "\<exists>r. find_class db' (lit ''s'', lit ''t'') = Some r \<and> c_status r = Stale \<and> effective r = Unknown" by auto
  with run rep show ?thesis by blast
qed

text \<open>
  Confirming is all or nothing and bound to the definitions the reviewer saw.  If the call succeeds,
  every requested tool has a row whose fingerprint is the expected one; afterwards each
  requested row that was not published and has a known access level carries that level (published when
  asked for), every other row is unchanged, and confirmed and skipped tools add up to the requests.
\<close>
lemma confirm_classifications_exact:
  assumes "class_ok db" and "confirm_classifications now db reviewer items n publish = Inr (db', res)"
  shows "\<exists>ts. confirm_targets items [] = Inr ts
     \<and> list_all (\<lambda>(k, fp). map_option fingerprint (find_class db k) = Some fp) ts
     \<and> class_ok db'
     \<and> (\<forall>k. find_class db' k = (if k \<in> fst ` set ts then map_option (confirmed_row publish (strip n) reviewer now) (find_class db k) else find_class db k))
     \<and> length (confirmed res) + length (skipped res) = length ts"
proof (rule confirm_Inr [OF assms])
  fix ts
  assume ts: "confirm_targets items [] = Inr ts" "list_all (\<lambda>(k, fp). map_option fingerprint (find_class db k) = Some fp) ts"
    "class_ok db'" "length (confirmed res) + length (skipped res) = length ts"
    and find: "find_class db' = (\<lambda>k. if k \<in> fst ` set ts then map_option (confirmed_row publish (strip n) reviewer now) (find_class db k) else find_class db k)"
  show ?thesis by (rule exI [of _ ts]) (simp only: ts find refl simp_thms)
qed

definition demo_confirmation :: pyval where
  "demo_confirmation = PDict [(PStr (lit ''server_id''), PStr (lit ''s'')), (PStr (lit ''tool_id''), PStr (lit ''t'')),
     (PStr (lit ''expected_fingerprint''), PStr (lit ''f''))]"

lemma confirm_classifications_exact_witness:
  "\<exists>db' res ts. confirm_classifications 1 demo_classes (lit ''rev'') [demo_confirmation] [] True = Inr (db', res)
     \<and> confirm_targets [demo_confirmation] [] = Inr ts \<and> length (confirmed res) + length (skipped res) = length ts
     \<and> map_option c_status (find_class db' (lit ''s'', lit ''t'')) = Some Published"
proof -
  have strips: "strip (lit ''s'') = lit ''s''" "strip (lit ''t'') = lit ''t''" "strip (lit ''f'') = lit ''f''"
    by (simp_all add: strip_def strip_by_def lit_def py_space_def)
  have ts: "confirm_targets [demo_confirmation] [] = Inr [((lit ''s'', lit ''t''), lit ''f'')]"
    by (simp add: demo_confirmation_def text_field_def dict_get_def strips)
  have rows: "confirm_rows demo_classes [((lit ''s'', lit ''t''), lit ''f'')] = Inr [demo_row]"
    by (simp add: demo_classes_ok(2)) (simp add: demo_row_def)
  obtain db' res where run: "confirm_classifications 1 demo_classes (lit ''rev'') [demo_confirmation] [] True = Inr (db', res)"
    by (cases "fold (confirm_one True (strip []) (lit ''rev'') 1) [demo_row] (demo_classes, [], [])")
      (simp add: confirm_classifications_def ts rows del: confirm_targets.simps confirm_rows.simps fold_simps)
  have status: "c_status (confirmed_row True (strip []) (lit ''rev'') 1 demo_row) = Published"
    by (simp add: confirmed_row_def confirmed_access_def demo_row_def confirm_row_def)
  from confirm_classifications_exact [OF demo_classes_ok(1) run] ts
  have "length (confirmed res) + length (skipped res) = 1" 
    "find_class db' (lit ''s'', lit ''t'') = map_option (confirmed_row True (strip []) (lit ''rev'') 1) (find_class demo_classes (lit ''s'', lit ''t''))"
    by auto
  with run ts status show ?thesis by (auto simp: demo_classes_ok(2))
qed

text \<open>
  A confirmation with one stale or unknown target changes nothing: if some requested fingerprint is not
  the one of the stored row, the whole call fails with a conflict.
\<close>
lemma confirm_conflict:
  assumes "confirm_targets items [] = Inr ts" "items \<noteq> []" "length items \<le> 500"
    and "(k, fp) \<in> set ts" "map_option fingerprint (find_class db k) \<noteq> Some fp"
  shows "confirm_classifications now db reviewer items n publish = Inl Confirm_conflict"
  using assms confirm_rows_mismatch [OF assms(4,5)] by (simp add: confirm_classifications_def)

lemma confirm_conflict_witness:
  "confirm_classifications 1 empty_classes (lit ''rev'') [demo_confirmation] [] True = Inl Confirm_conflict"
proof -
  have strips: "strip (lit ''s'') = lit ''s''" "strip (lit ''t'') = lit ''t''" "strip (lit ''f'') = lit ''f''"
    by (simp_all add: strip_def strip_by_def lit_def py_space_def)
  have ts: "confirm_targets [demo_confirmation] [] = Inr [((lit ''s'', lit ''t''), lit ''f'')]"
    by (simp add: demo_confirmation_def text_field_def dict_get_def strips)
  show ?thesis
    by (rule confirm_conflict [OF ts, where k = "(lit ''s'', lit ''t'')" and fp = "lit ''f''"])
      (simp_all add: empty_classes_def find_class_def find_row_def)
qed

text \<open>
  Publishing touches exactly the selected rows that carry read or write access: those become
  published by the reviewer, with their access level, fingerprint and suggestion unchanged; every other row,
  in particular every row of unknown access, stays as it was.
\<close>
lemma publish_classifications_exact:
  assumes "class_ok db"
  shows "find_class (publish_classifications now db reviewer server tools) k =
    (case find_class db k of None \<Rightarrow> None
     | Some r \<Rightarrow> Some (if publishable server tools r
         then r\<lparr>c_status := Published, reviewed_by := Some reviewer, reviewed_at := Some now, c_updated := now\<rparr> else r))"
  using publish_abs [OF assms, of now reviewer server tools k] by (simp add: publish_row_def split: option.splits)

lemma publish_classifications_exact_witness:
  "map_option c_status (find_class (publish_classifications 1 demo_classes (lit ''rev'') None []) (lit ''s'', lit ''t'')) = Some Published"
  unfolding publish_classifications_exact [OF demo_classes_ok(1)]
  by (simp add: demo_classes_ok(2)) (simp add: publishable_def demo_row_def selects_def)

end
