(* ===== verification/Access_Decision.thy ===== *)
theory Access_Decision
  imports Access_Classification
begin

text \<open>
  The runtime authorization half of \<^verbatim>\<open>access_control.py\<close>: who may see and call which tool.  The principal
  is the \<^verbatim>\<open>AuthPrincipal\<close> of \<^verbatim>\<open>auth.py\<close> (the fields the decisions read); the decision dictionaries become the record
  \<open>decision\<close>; the SQL joins over grants, permission types and roles are list comprehensions over the tables.
\<close>

section \<open>Principals\<close>

record principal =
  p_id :: pystr
  p_username :: pystr
  p_role :: pystr
  auth_type :: pystr
  p_roles :: "pystr list"
  p_permissions :: "pystr list"
  token_id :: "pystr option"
  token_mode :: pystr
  token_server_policies :: "(pystr \<times> pystr \<times> pystr) list"
  token_tool_snapshots :: "(pystr \<times> pystr) list"
  token_tool_bindings :: "(pystr \<times> pystr) list"
  token_rate :: int
  token_concurrency :: int
  p_scopes :: "pystr list"
  delegated_scopes :: "pystr list option"
  external_grant_id :: "pystr option"
  external_server_ids :: "pystr list"
  external_tool_ids :: "pystr list"
  external_access :: "pystr list"
  external_expires_at :: "stamp option"
  external_rate :: int
  external_concurrency :: int
  oauth_builtin :: bool
  oauth_issuer :: "pystr option"
  oauth_resource :: "pystr option"
  oauth_client_id :: "pystr option"
  oauth_family_id :: "pystr option"
  oauth_tool_snapshots :: "(pystr \<times> pystr) list"

definition effective_roles :: "principal \<Rightarrow> pystr list" where
  "effective_roles p = (if p_roles p = [] then [p_role p] else p_roles p)"

definition is_admin :: "principal \<Rightarrow> bool" where
  "is_admin p \<longleftrightarrow> p_role p = lit ''admin'' \<or> lit ''admin'' \<in> set (effective_roles p)"

text \<open>The scope sets that limit a principal: its token's scopes and the delegated scopes.\<close>

definition scope_limits :: "principal \<Rightarrow> pystr list list" where
  "scope_limits p =
     (if auth_type p \<in> {lit ''token'', lit ''oauth''} then [p_scopes p] else [])
     @ (case delegated_scopes p of None \<Rightarrow> [] | Some s \<Rightarrow> [s])"

definition has_control_permission :: "principal \<Rightarrow> pystr \<Rightarrow> bool" where
  "has_control_permission p code \<longleftrightarrow>
     (is_admin p \<or> code \<in> set (p_permissions p))
     \<and> list_all (\<lambda>s. lit ''*'' \<in> set s \<or> code \<in> set s) (scope_limits p)"

definition require_control_permission :: "principal \<Rightarrow> pystr \<Rightarrow> unit option" where
  "require_control_permission p code = (if has_control_permission p code then Some () else None)"

definition token_scope_allows :: "principal \<Rightarrow> access \<Rightarrow> bool" where
  "token_scope_allows p required =
     (let accepted = (if required = Read then [lit ''tools.read'', lit ''mcp.read'', lit ''mcp.write''] else [lit ''tools.invoke'', lit ''mcp.write''])
      in list_all (\<lambda>s. lit ''*'' \<in> set s \<or> list_ex (\<lambda>x. x \<in> set accepted) s) (scope_limits p))"

definition principal_control_allows :: "principal \<Rightarrow> pystr \<Rightarrow> bool" where
  "principal_control_allows p code \<longleftrightarrow> is_admin p \<or> lit ''*'' \<in> set (p_permissions p) \<or> code \<in> set (p_permissions p)"

definition is_expired :: "rat \<Rightarrow> stamp option \<Rightarrow> bool" where
  "is_expired now s = (case s of None \<Rightarrow> False | Some Malformed \<Rightarrow> True | Some (At t) \<Rightarrow> t \<le> now)"

text \<open>\<^verbatim>\<open>dict(pairs).get(key)\<close>: the last pair of a key counts.\<close>

definition pairs_get :: "(pystr \<times> 'v) list \<Rightarrow> pystr \<Rightarrow> 'v option" where
  "pairs_get xs k = map_of (rev xs) k"

section \<open>Grants\<close>

text \<open>The join of \<^verbatim>\<open>_effective_access_map\<close> and \<^verbatim>\<open>catalog_authorizer\<close>: enabled permission types, and subjects that are the user or one of its enabled roles.\<close>

definition user_role_ids :: "access_db \<Rightarrow> pystr \<Rightarrow> pystr list" where
  "user_role_ids db uid = [rid. (u, rid) \<leftarrow> user_roles db, u = uid, r \<leftarrow> roles db, role_id r = rid \<and> role_enabled r]"

definition applicable_grants :: "access_db \<Rightarrow> pystr \<Rightarrow> (grant_row \<times> access) list" where
  "applicable_grants db uid =
     [(g, base_level t). g \<leftarrow> grants db, t \<leftarrow> permission_types db, pt_id t = g_ptype g \<and> pt_enabled t
        \<and> (subject_type g = User_subject \<and> subject_id g = uid
           \<or> subject_type g = Role_subject \<and> subject_id g \<in> set (user_role_ids db uid))]"

type_synonym grant_target = "subject \<times> pystr \<times> pystr \<times> pystr"

text \<open>Rows read into the dictionary \<^verbatim>\<open>grants\<close> and the set \<^verbatim>\<open>role_ids\<close>, expired ones skipped.\<close>

definition live_rows :: "rat \<Rightarrow> (grant_row \<times> access) list \<Rightarrow> (grant_row \<times> access) list" where
  "live_rows now rows = filter (\<lambda>(g, l). \<not> is_expired now (g_expires g)) rows"

definition grant_dict :: "(grant_row \<times> access) list \<Rightarrow> grant_target \<rightharpoonup> access" where
  "grant_dict rows = map_of (map (\<lambda>(g, l). (grant_key g, l)) (rev rows))"

definition grant_roles :: "(grant_row \<times> access) list \<Rightarrow> pystr list" where
  "grant_roles rows = remdups (map (\<lambda>(g, l). subject_id g) (filter (\<lambda>(g, l). subject_type g = Role_subject) rows))"

text \<open>\<^verbatim>\<open>max(levels, key=rank)\<close>: the first level of the highest rank.\<close>

definition max_level :: "access list \<Rightarrow> access" where
  "max_level ls = (case ls of [] \<Rightarrow> No_access | l # rest \<Rightarrow> foldl (\<lambda>m x. if access_rank x > access_rank m then x else m) l rest)"

definition user_level :: "(grant_target \<rightharpoonup> access) \<Rightarrow> pystr \<Rightarrow> tool_key \<Rightarrow> access option" where
  "user_level m uid k =
     (case m (User_subject, uid, fst k, snd k) of Some l \<Rightarrow> Some l | None \<Rightarrow> m (User_subject, uid, fst k, []))"

definition role_level :: "(grant_target \<rightharpoonup> access) \<Rightarrow> tool_key \<Rightarrow> pystr \<Rightarrow> access option" where
  "role_level m k rid =
     (case m (Role_subject, rid, fst k, snd k) of Some l \<Rightarrow> Some l | None \<Rightarrow> m (Role_subject, rid, fst k, []))"

definition resolve_level :: "(grant_target \<rightharpoonup> access) \<Rightarrow> pystr list \<Rightarrow> pystr \<Rightarrow> tool_key \<Rightarrow> access" where
  "resolve_level m rids uid k =
     (case user_level m uid k of Some l \<Rightarrow> l | None \<Rightarrow> max_level (List.map_filter (role_level m k) rids))"

definition effective_access_map :: "rat \<Rightarrow> access_db \<Rightarrow> principal \<Rightarrow> tool_key list \<Rightarrow> tool_key \<rightharpoonup> access" where
  "effective_access_map now db p keys =
     (if is_admin p then map_of (map (\<lambda>k. (k, Write)) (remdups keys))
      else
        (let servers = sort (remdups (map fst keys));
             rows = concat (map (\<lambda>batch. live_rows now (filter (\<lambda>(g, l). g_server g \<in> set batch) (applicable_grants db (p_id p))))
                      (chunks 250 servers));
             m = grant_dict rows; rids = grant_roles rows
         in map_of (map (\<lambda>k. (k, resolve_level m rids (p_id p) k)) (remdups keys))))"

definition effective_access :: "rat \<Rightarrow> access_db \<Rightarrow> principal \<Rightarrow> tool_key \<Rightarrow> access" where
  "effective_access now db p k = the (effective_access_map now db p [k] k)"

definition authorized_server_ids :: "rat \<Rightarrow> access_db \<Rightarrow> principal \<Rightarrow> pystr list \<Rightarrow> pystr list" where
  "authorized_server_ids now db p servers =
     (let keys = map (\<lambda>s. (s, [])) (sort (remdups servers)); m = effective_access_map now db p keys
      in map fst (filter (\<lambda>k. the (m k) \<in> {Read, Write}) keys))"

text \<open>\<open>None\<close> is the \<^verbatim>\<open>AccessDeniedError\<close>, \<open>Some None\<close> explicit global access.\<close>

definition observability_server_ids :: "rat \<Rightarrow> access_db \<Rightarrow> principal \<Rightarrow> pystr list \<Rightarrow> pystr list option option" where
  "observability_server_ids now db p servers =
     (case require_control_permission p (lit ''operations.manage'') of
        None \<Rightarrow> None
      | Some () \<Rightarrow>
          if has_control_permission p (lit ''observability.read.all'') then Some None
          else Some (Some (authorized_server_ids now db p servers)))"

section \<open>Decisions\<close>

record decision =
  allowed :: bool
  reason :: pystr
  d_server :: pystr
  required_access :: access
  granted_access :: access
  d_status :: pystr

fun status_name :: "class_status \<Rightarrow> pystr" where
  "status_name Pending = lit ''pending''" | "status_name Published = lit ''published''" | "status_name Stale = lit ''stale''"

text \<open>
  The classification a decision reads: level, status, and, when the complete row was loaded, the
  fingerprint and the review time of the snapshot.
\<close>

record class_view =
  v_effective :: access
  v_status :: class_status
  v_version :: "(pystr \<times> rat option) option"

definition view_of :: "class_row \<Rightarrow> class_view" where
  "view_of r = \<lparr>v_effective = effective r, v_status = c_status r, v_version = Some (fingerprint r, reviewed_at r)\<rparr>"

definition published_view :: "class_view option \<Rightarrow> bool" where
  "published_view c = (case c of None \<Rightarrow> False | Some v \<Rightarrow> v_status v = Published \<and> v_effective v \<in> {Read, Write})"

definition view_status :: "class_view option \<Rightarrow> pystr" where
  "view_status c = (case c of None \<Rightarrow> lit ''missing'' | Some v \<Rightarrow> status_name (v_status v))"

definition view_access :: "class_view option \<Rightarrow> access" where
  "view_access c = (case c of None \<Rightarrow> Unknown | Some v \<Rightarrow> v_effective v)"

text \<open>The stored OAuth configuration the management branch reads; a missing row is a disabled configuration.\<close>

record oauth_config =
  oc_enabled :: bool
  oc_management :: bool
  oc_resource :: pystr
  oc_issuer :: "pystr option"

text \<open>
  What a decision reads beside its arguments: digests, current file markers, \<^verbatim>\<open>urlsplit\<close> with the management path, the
  time, server identities and the OAuth configuration.
\<close>

record decision_env =
  de_env :: gate_env
  de_files :: "pystr \<Rightarrow> pystr option"
  de_rebase :: "pystr \<Rightarrow> pystr"
  de_now :: rat
  de_ids :: "identity_row list"
  de_oauth :: oauth_config

definition binding_is :: "decision_env \<Rightarrow> pystr \<Rightarrow> pystr \<Rightarrow> bool" where
  "binding_is de server b = (case server_binding (de_files de) (de_ids de) server of Inl _ \<Rightarrow> False | Inr x \<Rightarrow> x = b)"

text \<open>\<open>_token_mcp_policy_allows\<close>: a continuous policy of the server decides; without one, an exact tool snapshot.\<close>

definition token_mcp_policy_allows :: "decision_env \<Rightarrow> principal \<Rightarrow> tool_definition \<Rightarrow> class_view option \<Rightarrow> bool" where
  "token_mcp_policy_allows de p d c =
     (case c of
        None \<Rightarrow> False
      | Some v \<Rightarrow>
          if \<not> published_view (Some v) then False
          else (case find (\<lambda>(s, b, a). s = server_id d) (token_server_policies p) of
                  Some (s, b, a) \<Rightarrow>
                    binding_is de (server_id d) b
                    \<and> (case parse_access a of None \<Rightarrow> False | Some l \<Rightarrow> access_rank (v_effective v) \<le> access_rank l)
                | None \<Rightarrow>
                    (case (pairs_get (token_tool_snapshots p) (td_id d), pairs_get (token_tool_bindings p) (td_id d)) of
                       (Some expected, Some b) \<Rightarrow>
                         b \<noteq> [] \<and> binding_is de (server_id d) b
                         \<and> (case v_version v of None \<Rightarrow> False
                             | Some (fp, rv) \<Rightarrow> tool_snapshot (de_env de) fp (v_effective v) rv = expected)
                     | _ \<Rightarrow> False)))"

definition is_management_resource :: "principal \<Rightarrow> bool" where
  "is_management_resource p = (case oauth_resource p of None \<Rightarrow> False | Some r \<Rightarrow> r \<noteq> [] \<and> ends_with r (lit ''/mcp/manage''))"

definition present :: "pystr option \<Rightarrow> bool" where
  "present x = (case x of None \<Rightarrow> False | Some s \<Rightarrow> s \<noteq> [])"

definition tool_requires :: "pystr \<Rightarrow> access" where
  "tool_requires tool = (if tool \<in> set MANAGEMENT_READ_TOOLS then Read else Write)"

definition external_live :: "decision_env \<Rightarrow> principal \<Rightarrow> bool" where
  "external_live de p \<longleftrightarrow> external_expires_at p \<noteq> None \<and> \<not> is_expired (de_now de) (external_expires_at p)"

text \<open>The management branch of an OAuth principal, condition by condition.\<close>

definition management_grant_allows :: "decision_env \<Rightarrow> principal \<Rightarrow> tool_definition \<Rightarrow> bool" where
  "management_grant_allows de p d \<longleftrightarrow>
     (let cfg = de_oauth de; delegated = (case delegated_scopes p of None \<Rightarrow> [] | Some s \<Rightarrow> s) in
      oc_enabled cfg \<and> oc_management cfg
      \<and> oauth_resource p = Some (management_resource (de_rebase de) (oc_resource cfg))
      \<and> oauth_issuer p = oc_issuer cfg
      \<and> lit ''admin'' \<in> set (p_roles p) \<and> lit ''operations.manage'' \<in> set (p_permissions p)
      \<and> present (external_grant_id p) \<and> present (oauth_family_id p) \<and> present (oauth_client_id p)
      \<and> external_live de p
      \<and> td_source d = lit ''builtin'' \<and> server_id d = management_tool_server (td_id d)
      \<and> td_id d \<in> set MANAGEMENT_TOOL_IDS \<and> td_id d \<in> set (external_tool_ids p)
      \<and> pairs_get (oauth_tool_snapshots p) (td_id d) = Some (management_tool_snapshot (de_env de) d)
      \<and> lit ''operations.manage'' \<in> set (p_scopes p)
      \<and> delegated_scopes p \<noteq> None \<and> lit ''operations.manage'' \<in> set delegated
      \<and> list_all (\<lambda>x. x \<in> set (p_scopes p) \<and> x \<in> set delegated \<and> x \<in> set (p_permissions p)) (management_tool_permissions (td_id d))
      \<and> (tool_requires (td_id d) = Read
         \<or> lit ''tools.invoke'' \<in> set (p_scopes p) \<and> lit ''tools.invoke'' \<in> set delegated \<and> lit ''tools.invoke'' \<in> set (p_permissions p)))"

definition external_grant_covers :: "decision_env \<Rightarrow> principal \<Rightarrow> tool_definition \<Rightarrow> access \<Rightarrow> bool" where
  "external_grant_covers de p d required \<longleftrightarrow>
     present (external_grant_id p) \<and> td_source d = lit ''mcp''
     \<and> server_id d \<in> set (external_server_ids p) \<and> td_id d \<in> set (external_tool_ids p)
     \<and> access_name required \<in> set (external_access p) \<and> external_live de p"

definition required_control_permission :: "tool_definition \<Rightarrow> pystr option" where
  "required_control_permission d =
     (case meta_get d (lit ''required_control_permission'') of
        PStr s \<Rightarrow> if strip s = [] then None else Some (strip s)
      | _ \<Rightarrow> None)"

definition extra_control_allowed :: "principal \<Rightarrow> tool_definition \<Rightarrow> bool" where
  "extra_control_allowed p d = (case required_control_permission d of None \<Rightarrow> True | Some c \<Rightarrow> has_control_permission p c)"

definition is_management_tool :: "tool_definition \<Rightarrow> bool" where
  "is_management_tool d \<longleftrightarrow> td_source d = lit ''builtin''
     \<and> td_id d \<in> set (HTTP_MANAGEMENT_TOOL_IDS @ CREDENTIAL_MANAGEMENT_TOOL_IDS) \<and> server_id d = management_tool_server (td_id d)"

definition management_control_allows :: "principal \<Rightarrow> tool_definition \<Rightarrow> bool" where
  "management_control_allows p d =
     (let perms = (if td_id d \<in> set CREDENTIAL_MANAGEMENT_TOOL_IDS then lit ''credentials.manage.system'' else lit ''operations.manage'')
                  # (if tool_requires (td_id d) = Write then [lit ''tools.invoke''] else [])
      in auth_type p = lit ''token'' \<and> lit ''admin'' \<in> set (effective_roles p)
         \<and> list_all (\<lambda>x. (x \<in> set (p_permissions p) \<or> lit ''*'' \<in> set (p_permissions p)) \<and> has_control_permission p x) perms)"

definition GROUP_MANAGEMENT_TOOL_IDS :: "pystr list" where
  "GROUP_MANAGEMENT_TOOL_IDS = map lit [''gate_mcp_group_list'', ''gate_mcp_group_get'', ''gate_mcp_group_save'', ''gate_mcp_group_delete'']"

definition is_group_tool :: "tool_definition \<Rightarrow> bool" where
  "is_group_tool d \<longleftrightarrow> td_source d = lit ''builtin'' \<and> server_id d = lit ''gate_mcp_groups''
     \<and> meta_get d (lit ''group_management_control_plane'') = PBool True"

definition group_allows :: "principal \<Rightarrow> tool_definition \<Rightarrow> access \<Rightarrow> bool" where
  "group_allows p d required \<longleftrightarrow>
     td_id d \<in> set GROUP_MANAGEMENT_TOOL_IDS \<and> auth_type p \<in> {lit ''session'', lit ''token''}
     \<and> lit ''admin'' \<in> set (effective_roles p) \<and> has_control_permission p (lit ''operations.manage'')
     \<and> token_scope_allows p required
     \<and> (required = Read \<or> has_control_permission p (lit ''tools.invoke''))"

definition is_classification_tool :: "tool_definition \<Rightarrow> bool" where
  "is_classification_tool d \<longleftrightarrow> meta_get d (lit ''classification_control_plane'') = PBool True
     \<and> required_control_permission d = Some (lit ''classifications.manage'')"

definition tool_permission :: "access \<Rightarrow> pystr" where
  "tool_permission required = (if required = Read then lit ''tools.read'' else lit ''tools.invoke'')"

definition missing_permission :: "pystr \<Rightarrow> pystr" where
  "missing_permission code = lit ''missing control permission: '' @ code"

text \<open>A decision of a control-plane branch: what is required is granted.\<close>

definition control_decision :: "bool \<Rightarrow> string \<Rightarrow> string \<Rightarrow> tool_definition \<Rightarrow> access \<Rightarrow> string \<Rightarrow> decision" where
  "control_decision ok yes no d required status =
     \<lparr>allowed = ok, reason = (if ok then lit yes else lit no), d_server = server_id d, required_access = required,
      granted_access = (if ok then required else No_access), d_status = lit status\<rparr>"

definition denied :: "pystr \<Rightarrow> tool_definition \<Rightarrow> access \<Rightarrow> access \<Rightarrow> class_view option \<Rightarrow> decision" where
  "denied why d required granted c =
     \<lparr>allowed = False, reason = why, d_server = server_id d, required_access = required, granted_access = granted, d_status = view_status c\<rparr>"

definition admin_decision :: "principal \<Rightarrow> tool_definition \<Rightarrow> class_view option \<Rightarrow> decision" where
  "admin_decision p d c =
     (let required = (if view_access c \<in> {Read, Write} then view_access c else Write);
          control = principal_control_allows p (tool_permission required);
          scope = token_scope_allows p required;
          extra = extra_control_allowed p d
      in \<lparr>allowed = (control \<and> scope \<and> extra),
          reason = (if \<not> control then missing_permission (tool_permission required)
                    else if \<not> scope then lit ''API token scope does not allow this operation''
                    else if \<not> extra then missing_permission (the (required_control_permission d))
                    else lit ''admin bypass''),
          d_server = server_id d, required_access = required, granted_access = Write, d_status = view_status c\<rparr>)"

definition grant_decision :: "principal \<Rightarrow> tool_definition \<Rightarrow> class_view option \<Rightarrow> access \<Rightarrow> decision" where
  "grant_decision p d c granted =
     (if \<not> published_view c then denied (lit ''tool classification is not published'') d Unknown granted c
      else
        (let required = view_access c in
         if \<not> principal_control_allows p (tool_permission required) then
           denied (missing_permission (tool_permission required)) d required granted c
         else if \<not> token_scope_allows p required then
           denied (lit ''API token scope does not allow this operation'') d required granted c
         else if \<not> extra_control_allowed p d then
           denied (missing_permission (the (required_control_permission d))) d required granted c
         else
           (let ok = access_rank required \<le> access_rank granted in
            \<lparr>allowed = ok, reason = (if ok then lit ''grant matched'' else access_name required @ lit '' access is required''),
             d_server = server_id d, required_access = required, granted_access = granted, d_status = view_status c\<rparr>)))"

text \<open>The branches after the credential-specific ones.\<close>

definition evaluate_tool :: "principal \<Rightarrow> tool_definition \<Rightarrow> class_view option \<Rightarrow> access \<Rightarrow> decision" where
  "evaluate_tool p d c granted =
     (if is_management_tool d then
        control_decision (management_control_allows p d) ''management control permission matched'' ''management control permission denied'' d
          (tool_requires (td_id d)) ''control_plane''
      else if is_group_tool d then
        (let required = (if td_permission d = lit ''read'' then Read else Write) in
         control_decision (group_allows p d required) ''group administration matched'' ''group administration denied'' d required ''control_plane'')
      else if is_classification_tool d then
        (let required = (if starts_with (td_permission d) (lit ''read'') then Read else Write);
             ok = has_control_permission p (lit ''classifications.manage'') \<and> token_scope_allows p required
         in \<lparr>allowed = ok,
             reason = (if ok then lit ''classification control-plane permission matched'' else missing_permission (lit ''classifications.manage'')),
             d_server = server_id d, required_access = required, granted_access = (if ok then Write else No_access), d_status = lit ''control_plane''\<rparr>)
      else if (auth_type p = lit ''oauth'' \<or> delegated_scopes p \<noteq> None) \<and> \<not> published_view c then
        denied (lit ''tool classification is not published'') d Unknown granted c
      else if is_admin p then admin_decision p d c
      else grant_decision p d c granted)"

definition independent_token :: "principal \<Rightarrow> bool" where
  "independent_token p \<longleftrightarrow> auth_type p = lit ''token'' \<and> token_mode p = lit ''independent''"

definition evaluate_policy :: "decision_env \<Rightarrow> principal \<Rightarrow> tool_definition \<Rightarrow> class_view option \<Rightarrow> access \<Rightarrow> decision" where
  "evaluate_policy de p d c granted =
     (if independent_token p \<and> td_source d = lit ''mcp'' \<and> \<not> token_mcp_policy_allows de p d c then
        denied (lit ''API token MCP authorization does not allow this tool'') d (view_access c) No_access c
      else if auth_type p = lit ''oauth'' \<and> oauth_builtin p \<and> is_management_resource p then
        control_decision (management_grant_allows de p d) ''management grant matched'' ''management grant does not allow this tool'' d
          (tool_requires (td_id d)) ''management_resource''
      else if auth_type p = lit ''oauth'' \<and> \<not> external_grant_covers de p d (view_access c) then
        denied (lit ''external authorization does not allow this tool'') d (view_access c) No_access c
      else evaluate_tool p d c granted)"

section \<open>Discovery\<close>

definition on_tables :: "decision_env \<Rightarrow> class_db \<Rightarrow> decision_env" where
  "on_tables de cdb = de\<lparr>de_ids := identities cdb\<rparr>"

definition evaluate :: "decision_env \<Rightarrow> access_db \<Rightarrow> class_db \<Rightarrow> principal \<Rightarrow> tool_definition \<Rightarrow> decision" where
  "evaluate de adb cdb p d =
     (let k = tool_key_of d in
      evaluate_policy (on_tables de cdb) p d (map_option view_of (load_classifications cdb [k] k)) (the (effective_access_map (de_now de) adb p [k] k)))"

definition with_gate_access :: "decision \<Rightarrow> tool_definition \<Rightarrow> tool_definition" where
  "with_gate_access dec d =
     d\<lparr>td_metadata := PDict (dict_set (lit ''gate_access'')
        (PDict [(PStr (lit ''required_access''), PStr (access_name (required_access dec))),
                (PStr (lit ''classification_status''), PStr (d_status dec))]) (mapping_items (td_metadata d)))\<rparr>"

definition visible_tools :: "decision_env \<Rightarrow> (tool_key \<Rightarrow> pystr) \<Rightarrow> (pystr \<Rightarrow> pystr) \<Rightarrow> access_db \<Rightarrow> class_db \<Rightarrow> principal \<Rightarrow> tool_definition list
    \<Rightarrow> access_error + class_db \<times> tool_definition list" where
  "visible_tools de uuid fresh adb cdb p ds =
     (if ds = [] then Inr (cdb, [])
      else bindR (synchronize (de_env de) (de_now de) uuid fresh ds cdb) (\<lambda>cdb'.
        (let keys = map tool_key_of ds; classes = load_classifications cdb' keys; m = effective_access_map (de_now de) adb p keys
         in Inr (cdb', concat (map (\<lambda>d.
              (let dec = evaluate_policy (on_tables de cdb') p d (map_option view_of (classes (tool_key_of d))) (the (m (tool_key_of d)))
               in if allowed dec then [with_gate_access dec d] else [])) ds)))))"

text \<open>
  \<open>visible_tool_contracts\<close> reads without synchronising: a row whose fingerprint is not the current one counts as missing.
\<close>

definition current_class :: "gate_env \<Rightarrow> (pystr \<rightharpoonup> pystr) option \<Rightarrow> tool_definition \<Rightarrow> class_row option \<Rightarrow> class_row option" where
  "current_class e fingerprints d c =
     (case c of None \<Rightarrow> None
      | Some r \<Rightarrow>
          (let current = (case fingerprints of None \<Rightarrow> Some (tool_fingerprint e d) | Some m \<Rightarrow> m (td_id d))
           in if Some (fingerprint r) = current then Some r else None))"

definition visible_tool_contracts :: "decision_env \<Rightarrow> access_db \<Rightarrow> class_db \<Rightarrow> principal \<Rightarrow> (pystr \<rightharpoonup> pystr) option \<Rightarrow> tool_definition list
    \<Rightarrow> (tool_definition \<times> class_row option) list" where
  "visible_tool_contracts de adb cdb p fingerprints ds =
     (let keys = map tool_key_of ds; classes = load_classifications cdb keys; m = effective_access_map (de_now de) adb p keys
      in concat (map (\<lambda>d.
           (let c = current_class (de_env de) fingerprints d (classes (tool_key_of d));
                dec = evaluate_policy (on_tables de cdb) p d (map_option view_of c) (the (m (tool_key_of d)));
                perm = tool_permission (required_access dec)
            in if allowed dec \<and> (lit ''*'' \<in> set (p_permissions p) \<or> perm \<in> set (p_permissions p)) then [(d, c)] else [])) ds))"

section \<open>Catalog search\<close>

text \<open>One candidate of the catalog query: columns of the index and the joined classification.\<close>

record catalog_item =
  ci_tool :: pystr
  ci_server :: pystr
  ci_source :: pystr
  ci_permission :: pystr
  ci_policy :: pystr
  ci_class :: "(access \<times> class_status) option"

definition catalog_definition :: "(pystr \<Rightarrow> dict) \<Rightarrow> catalog_item \<Rightarrow> tool_definition" where
  "catalog_definition loads i =
     \<lparr>td_id = ci_tool i, td_name = [], td_description = [], td_permission = ci_permission i, td_source = ci_source i,
      td_input_schema = PDict [], td_metadata = PDict (dict_set (lit ''server_id'') (PStr (ci_server i)) (loads (ci_policy i)))\<rparr>"

definition catalog_granted :: "rat \<Rightarrow> access_db \<Rightarrow> principal \<Rightarrow> tool_key \<Rightarrow> access" where
  "catalog_granted now adb p k =
     (let rows = live_rows now (applicable_grants adb (p_id p)); m = grant_dict rows
      in case user_level m (p_id p) k of Some l \<Rightarrow> l
         | None \<Rightarrow> max_level (map (\<lambda>r. case role_level m k r of None \<Rightarrow> No_access | Some l \<Rightarrow> l) (grant_roles rows)))"

definition catalog_class :: "class_db \<Rightarrow> principal \<Rightarrow> catalog_item \<Rightarrow> class_view option" where
  "catalog_class cdb p i =
     (if independent_token p \<and> pairs_get (token_tool_snapshots p) (ci_tool i) \<noteq> None
      then map_option view_of (load_classifications cdb [(ci_server i, ci_tool i)] (ci_server i, ci_tool i))
      else map_option (\<lambda>(a, s). \<lparr>v_effective = a, v_status = s, v_version = None\<rparr>) (ci_class i))"

type_synonym cache_key = "pystr \<times> pystr \<times> pystr \<times> pystr \<times> (access \<times> class_status) option \<times> access \<times> pystr option"

definition catalog_cache_key :: "catalog_item \<Rightarrow> access \<Rightarrow> cache_key" where
  "catalog_cache_key i granted =
     (ci_server i, ci_source i, ci_permission i, ci_policy i, ci_class i, granted, if ci_source i = lit ''builtin'' then Some (ci_tool i) else None)"

text \<open>One call of the closure \<^verbatim>\<open>authorize\<close> with its dictionary \<^verbatim>\<open>decisions\<close>.\<close>

definition authorize :: "decision_env \<Rightarrow> (pystr \<Rightarrow> dict) \<Rightarrow> access_db \<Rightarrow> class_db \<Rightarrow> principal \<Rightarrow> catalog_item \<Rightarrow> (cache_key \<rightharpoonup> bool)
    \<Rightarrow> bool \<times> (cache_key \<rightharpoonup> bool)" where
  "authorize de loads adb cdb p i cache =
     (if is_management_resource p then (False, cache)
      else if auth_type p = lit ''oauth'' \<and> (ci_source i \<noteq> lit ''mcp'' \<or> ci_tool i \<notin> set (external_tool_ids p) \<or> ci_server i \<notin> set (external_server_ids p))
      then (False, cache)
      else
        (let granted = catalog_granted (de_now de) adb p (ci_server i, ci_tool i); key = catalog_cache_key i granted;
             memo = (auth_type p \<noteq> lit ''oauth'' \<and> \<not> independent_token p)
         in case (if memo then cache key else None) of
              Some b \<Rightarrow> (b, cache)
            | None \<Rightarrow>
                (let ok = allowed (evaluate_policy (on_tables de cdb) p (catalog_definition loads i) (catalog_class cdb p i) granted)
                 in (ok, if memo then cache(key \<mapsto> ok) else cache))))"

fun authorize_all :: "decision_env \<Rightarrow> (pystr \<Rightarrow> dict) \<Rightarrow> access_db \<Rightarrow> class_db \<Rightarrow> principal \<Rightarrow> catalog_item list \<Rightarrow> (cache_key \<rightharpoonup> bool) \<Rightarrow> bool list" where
  "authorize_all de loads adb cdb p [] cache = []"
| "authorize_all de loads adb cdb p (i # is) cache =
     (case authorize de loads adb cdb p i cache of (b, cache') \<Rightarrow> b # authorize_all de loads adb cdb p is cache')"

section \<open>Delivery targets and token budgets\<close>

record invocation_context =
  cx_actor :: pystr
  cx_username :: pystr
  cx_auth_type :: pystr
  cx_roles :: "pystr list"
  cx_permissions :: "pystr list"
  cx_token :: "pystr option"
  cx_scopes :: "pystr list"
  cx_delegated :: "pystr list option"

definition context_principal :: "invocation_context \<Rightarrow> principal" where
  "context_principal c =
     \<lparr>p_id = cx_actor c, p_username = cx_username c, p_role = (case cx_roles c of [] \<Rightarrow> lit ''viewer'' | r # _ \<Rightarrow> r),
      auth_type = cx_auth_type c, p_roles = cx_roles c, p_permissions = cx_permissions c, token_id = cx_token c,
      token_mode = lit ''account'', token_server_policies = [], token_tool_snapshots = [], token_tool_bindings = [], token_rate = 0,
      token_concurrency = 0, p_scopes = cx_scopes c, delegated_scopes = cx_delegated c, external_grant_id = None,
      external_server_ids = [], external_tool_ids = [], external_access = [], external_expires_at = None, external_rate = 0,
      external_concurrency = 0, oauth_builtin = False, oauth_issuer = None, oauth_resource = None, oauth_client_id = None,
      oauth_family_id = None, oauth_tool_snapshots = []\<rparr>"

text \<open>\<open>None\<close> is the \<^verbatim>\<open>ValueError\<close> of an undefined level.\<close>

definition delivery_target_access :: "rat \<Rightarrow> access_db \<Rightarrow> invocation_context \<Rightarrow> pystr \<Rightarrow> pystr \<Rightarrow> bool option" where
  "delivery_target_access now adb c server level =
     (case parse_access level of
        None \<Rightarrow> None
      | Some a \<Rightarrow>
          if a \<notin> {Read, Write} then None
          else if cx_auth_type c = lit ''oauth'' then Some False
          else
            (let p = context_principal c in
             if \<not> token_scope_allows p a then Some False
             else if \<not> has_control_permission p (lit ''operations.manage'') then Some False
             else if lit ''admin'' \<in> set (cx_roles c) \<or> lit ''*'' \<in> set (cx_permissions c) then Some True
             else Some (access_rank a \<le> access_rank (effective_access now adb p (server, [])))))"

definition live_policies :: "decision_env \<Rightarrow> principal \<Rightarrow> (pystr \<times> pystr) list" where
  "live_policies de p =
     foldl (\<lambda>acc (s, b, a). if binding_is de s b then AList.update s a acc else acc) [] (token_server_policies p)"

definition level_rank :: "pystr option \<Rightarrow> int" where
  "level_rank x = (case x of None \<Rightarrow> 0 | Some s \<Rightarrow> (case parse_access s of None \<Rightarrow> 0 | Some a \<Rightarrow> access_rank a))"

definition reaches :: "principal \<Rightarrow> (pystr \<times> pystr) list \<Rightarrow> (tool_key \<rightharpoonup> access) \<Rightarrow> class_row \<Rightarrow> bool" where
  "reaches p policies m r \<longleftrightarrow>
     token_scope_allows p (effective r) \<and> principal_control_allows p (tool_permission (effective r))
     \<and> access_rank (effective r) \<le> access_rank (the (m (class_key r)))
     \<and> (pairs_get (token_tool_snapshots p) (c_tool r) \<noteq> None \<or> access_rank (effective r) \<le> level_rank (map_of policies (c_server r)))"

text \<open>The counting loop over batches of 250 rows, with its early exit.\<close>

fun count_rows :: "(class_row \<Rightarrow> bool) \<Rightarrow> class_row list \<Rightarrow> nat \<times> pystr list \<Rightarrow> (nat \<times> pystr list) option" where
  "count_rows ok [] st = Some st"
| "count_rows ok (r # rs) st =
     (if \<not> ok r then count_rows ok rs st
      else
        (let n = fst st + 1; servers = List.insert (c_server r) (snd st) in
         if n > 5000 \<or> length servers > 100 then None else count_rows ok rs (n, servers)))"

fun count_batches :: "rat \<Rightarrow> access_db \<Rightarrow> principal \<Rightarrow> (pystr \<times> pystr) list \<Rightarrow> class_row list list \<Rightarrow> nat \<times> pystr list \<Rightarrow> bool" where
  "count_batches now adb p policies [] st = True"
| "count_batches now adb p policies (b # bs) st =
     (case count_rows (reaches p policies (effective_access_map now adb p (map class_key b))) b st of
        None \<Rightarrow> False
      | Some st' \<Rightarrow> count_batches now adb p policies bs st')"

definition token_authorization_budget_valid :: "decision_env \<Rightarrow> access_db \<Rightarrow> class_db \<Rightarrow> principal \<Rightarrow> bool" where
  "token_authorization_budget_valid de adb cdb p =
     (if token_mode p \<noteq> lit ''independent'' then True
      else
        (let policies = live_policies (on_tables de cdb) p; selected = remdups (map fst (token_tool_snapshots p)) in
         if length selected > 5000 \<or> length policies > 100 then False
         else if policies = [] \<and> selected = [] then True
         else count_batches (de_now de) adb p policies
                (chunks 250 (filter (\<lambda>r. c_status r = Published \<and> effective r \<in> {Read, Write}
                   \<and> (c_server r \<in> set (map fst policies) \<or> c_tool r \<in> set selected)) (classifications cdb)))
                (0, [])))"

section \<open>Batched grants agree with the table\<close>

lemma map_of_key_filter: "map_of xs k = map_of (filter (\<lambda>x. fst x = k) xs) k"
  by (induction xs) auto

lemma concat_filter_batches:
  assumes "distinct (concat bs)" and P: "\<forall>x \<in> set xs. P x \<longrightarrow> f x = s"
  shows "filter P (concat (map (\<lambda>b. filter (\<lambda>x. f x \<in> set b) xs) bs)) = (if s \<in> set (concat bs) then filter P xs else [])"
  using assms(1)
proof (induction bs)
  case (Cons b bs)
  have one: "filter P (filter (\<lambda>x. f x \<in> set b) xs) = (if s \<in> set b then filter P xs else [])"
    using P by (auto simp: filter_empty_conv intro: filter_cong)
  have "s \<in> set b \<Longrightarrow> s \<notin> set (concat bs)" using Cons.prems by auto
  with Cons one show ?case by auto
qed simp

lemma distinct_concat_chunks: "0 < n \<Longrightarrow> distinct xs \<Longrightarrow> distinct (concat (chunks n xs))"
  by (simp add: concat_chunks)

definition all_live :: "rat \<Rightarrow> access_db \<Rightarrow> pystr \<Rightarrow> (grant_row \<times> access) list" where
  "all_live now db uid = live_rows now (applicable_grants db uid)"

definition batch_live :: "rat \<Rightarrow> access_db \<Rightarrow> pystr \<Rightarrow> pystr list \<Rightarrow> (grant_row \<times> access) list" where
  "batch_live now db uid servers =
     concat (map (\<lambda>batch. live_rows now (filter (\<lambda>(g, l). g_server g \<in> set batch) (applicable_grants db uid))) (chunks 250 servers))"

lemma batch_live_alt:
  "batch_live now db uid servers = concat (map (\<lambda>b. filter (\<lambda>x. g_server (fst x) \<in> set b) (all_live now db uid)) (chunks 250 servers))"
  by (simp add: batch_live_def all_live_def live_rows_def split_beta conj_commute)

lemma batch_live_filter:
  assumes "distinct servers" and "\<forall>x \<in> set (all_live now db uid). P x \<longrightarrow> g_server (fst x) = s" and "s \<in> set servers"
  shows "filter P (batch_live now db uid servers) = filter P (all_live now db uid)"
  unfolding batch_live_alt
  using concat_filter_batches [OF distinct_concat_chunks [OF _ assms(1), of 250] assms(2)] assms(3)
  by (simp add: concat_chunks)

lemma grant_dict_batch:
  assumes "distinct servers" "s \<in> set servers"
  shows "grant_dict (batch_live now db uid servers) (st, sid, s, t) = grant_dict (all_live now db uid) (st, sid, s, t)"
proof -
  let ?P = "\<lambda>x. grant_key (fst x) = (st, sid, s, t)"
  have "filter ?P (batch_live now db uid servers) = filter ?P (all_live now db uid)"
    by (rule batch_live_filter [OF assms(1) _ assms(2)]) (auto simp: grant_key_def)
  moreover have "grant_dict rows (st, sid, s, t) = map_of (map (\<lambda>(g, l). (grant_key g, l)) (rev (filter ?P rows))) (st, sid, s, t)" for rows
    unfolding grant_dict_def
    by (subst map_of_key_filter) (simp add: filter_map o_def split_beta rev_filter)
  ultimately show ?thesis by simp
qed

lemma grant_dict_mem: "grant_dict rows k \<noteq> None \<longleftrightarrow> (\<exists>g l. (g, l) \<in> set rows \<and> grant_key g = k)"
  unfolding grant_dict_def by (force simp: map_of_eq_None_iff image_iff)

lemma role_level_relevant:
  "role_level (grant_dict rows) k rid \<noteq> None \<Longrightarrow> rid \<in> set (grant_roles rows)"
  using grant_dict_mem [of rows "(Role_subject, rid, fst k, snd k)"] grant_dict_mem [of rows "(Role_subject, rid, fst k, [])"]
  by (force simp: role_level_def grant_roles_def grant_key_def split: option.splits)

text \<open>The maximum over a list of optional levels depends only on the set of levels.\<close>

lemma access_rank_inj: "access_rank a = access_rank b \<longleftrightarrow> a = b"
  by (cases a; cases b) auto

lemma foldl_max:
  "foldl (\<lambda>m x. if access_rank x > access_rank m then x else m) l ls \<in> insert l (set ls)
   \<and> (\<forall>x \<in> insert l (set ls). access_rank x \<le> access_rank (foldl (\<lambda>m x. if access_rank x > access_rank m then x else m) l ls))"
proof (induction ls arbitrary: l)
  case (Cons a ls)
  show ?case using Cons [of a] Cons [of l] by (auto split: if_splits)
qed simp

lemma max_level_spec:
  assumes "ls \<noteq> []"
  shows "max_level ls \<in> set ls" "x \<in> set ls \<Longrightarrow> access_rank x \<le> access_rank (max_level ls)"
proof -
  obtain l rest where ls: "ls = l # rest" using assms by (cases ls) auto
  note f = foldl_max [of l rest]
  show "max_level ls \<in> set ls" using conjunct1 [OF f] by (simp add: ls max_level_def)
  show "x \<in> set ls \<Longrightarrow> access_rank x \<le> access_rank (max_level ls)"
    using conjunct2 [OF f, THEN bspec, of x] by (simp add: ls max_level_def)
qed

lemma max_level_unique:
  assumes "m \<in> set ls" "\<And>x. x \<in> set ls \<Longrightarrow> access_rank x \<le> access_rank m"
  shows "max_level ls = m"
proof -
  have ne: "ls \<noteq> []" using assms(1) by auto
  have "access_rank (max_level ls) \<le> access_rank m" by (rule assms(2) [OF max_level_spec(1) [OF ne]])
  moreover have "access_rank m \<le> access_rank (max_level ls)" by (rule max_level_spec(2) [OF ne assms(1)])
  ultimately have "access_rank (max_level ls) = access_rank m" by (rule order_antisym)
  then show ?thesis by (simp only: access_rank_inj)
qed

lemma max_level_Nil [simp]: "max_level [] = No_access"
  by (simp add: max_level_def)

lemma max_level_cong:
  assumes "set ls = set ls'"
  shows "max_level ls = max_level ls'"
proof (cases "ls' = []")
  case False
  show ?thesis
    by (rule max_level_unique) (simp_all add: assms max_level_spec False)
qed (use assms in simp)

lemma set_map_filter: "set (List.map_filter f xs) = {y. \<exists>x \<in> set xs. f x = Some y}"
  by (force simp: List.map_filter_def)

lemma resolve_level_cong:
  assumes "\<And>st sid. m (st, sid, fst k, snd k) = m' (st, sid, fst k, snd k)" "\<And>st sid. m (st, sid, fst k, []) = m' (st, sid, fst k, [])"
    and "\<And>rid. role_level m k rid \<noteq> None \<Longrightarrow> rid \<in> set rids" "\<And>rid. role_level m' k rid \<noteq> None \<Longrightarrow> rid \<in> set rids'"
  shows "resolve_level m rids uid k = resolve_level m' rids' uid k"
proof -
  have r: "role_level m k rid = role_level m' k rid" for rid unfolding role_level_def assms(1,2) ..
  have u: "user_level m uid k = user_level m' uid k" unfolding user_level_def assms(1,2) ..
  have "set (List.map_filter (role_level m k) rids) = set (List.map_filter (role_level m' k) rids')"
    unfolding set_map_filter r using assms(3,4) [unfolded r] by blast
  from max_level_cong [OF this] show ?thesis
    unfolding resolve_level_def u by (simp split: option.split)
qed

lemma resolve_batch:
  assumes "distinct servers" "fst k \<in> set servers"
  shows "resolve_level (grant_dict (batch_live now db uid servers)) (grant_roles (batch_live now db uid servers)) uid k =
    resolve_level (grant_dict (all_live now db uid)) (grant_roles (all_live now db uid)) uid k"
  by (rule resolve_level_cong) (rule grant_dict_batch [OF assms] role_level_relevant; assumption?)+

lemma map_of_keys: "map_of (map (\<lambda>k. (k, f k)) ks) k = (if k \<in> set ks then Some (f k) else None)"
  by (induction ks) auto

lemma effective_access_map_resolve:
  "effective_access_map now db p keys k =
     (if k \<notin> set keys then None else if is_admin p then Some Write
      else Some (resolve_level (grant_dict (all_live now db (p_id p))) (grant_roles (all_live now db (p_id p))) (p_id p) k))"
proof -
  have "fst k \<in> set (sort (remdups (map fst keys)))" if "k \<in> set keys" using that by simp
  from resolve_batch [OF _ this] show ?thesis
    by (simp add: effective_access_map_def Let_def map_of_keys flip: batch_live_def)
qed

text \<open>Reference definition: look each target up in the tables, tool before server, user before roles.\<close>

definition level_at :: "rat \<Rightarrow> access_db \<Rightarrow> grant_target \<Rightarrow> access option" where
  "level_at now db k =
     (case find_row (\<lambda>g. grant_key g = k) (grants db) of
        None \<Rightarrow> None
      | Some g \<Rightarrow>
          if is_expired now (g_expires g) then None
          else (case find_row (\<lambda>t. pt_id t = g_ptype g) (permission_types db) of
                  None \<Rightarrow> None
                | Some t \<Rightarrow> if pt_enabled t then Some (base_level t) else None))"

definition subject_level :: "rat \<Rightarrow> access_db \<Rightarrow> subject \<Rightarrow> pystr \<Rightarrow> tool_key \<Rightarrow> access option" where
  "subject_level now db st sid k =
     (case level_at now db (st, sid, fst k, snd k) of Some l \<Rightarrow> Some l | None \<Rightarrow> level_at now db (st, sid, fst k, []))"

definition reference_access :: "rat \<Rightarrow> access_db \<Rightarrow> pystr \<Rightarrow> tool_key \<Rightarrow> access" where
  "reference_access now db uid k =
     (case subject_level now db User_subject uid k of
        Some l \<Rightarrow> l
      | None \<Rightarrow> max_level (List.map_filter (\<lambda>rid. subject_level now db Role_subject rid k) (user_role_ids db uid)))"

definition concerns :: "access_db \<Rightarrow> pystr \<Rightarrow> grant_target \<Rightarrow> bool" where
  "concerns db uid k \<longleftrightarrow> fst k = User_subject \<and> fst (snd k) = uid \<or> fst k = Role_subject \<and> fst (snd k) \<in> set (user_role_ids db uid)"

lemma all_live_mem:
  "(g, l) \<in> set (all_live now db uid) \<longleftrightarrow>
     g \<in> set (grants db) \<and> \<not> is_expired now (g_expires g) \<and> concerns db uid (grant_key g)
     \<and> (\<exists>t \<in> set (permission_types db). pt_id t = g_ptype g \<and> pt_enabled t \<and> base_level t = l)"
  by (auto simp: all_live_def live_rows_def applicable_grants_def concerns_def grant_key_def)

lemma grant_dict_SomeD: "grant_dict rows k = Some l \<Longrightarrow> \<exists>g. (g, l) \<in> set rows \<and> grant_key g = k"
  unfolding grant_dict_def by (drule map_of_SomeD) auto

lemma level_at_iff:
  assumes ok: "tables_ok db"
  shows "level_at now db k = Some l \<longleftrightarrow>
    (\<exists>g \<in> set (grants db). grant_key g = k \<and> \<not> is_expired now (g_expires g)
       \<and> (\<exists>t \<in> set (permission_types db). pt_id t = g_ptype g \<and> pt_enabled t \<and> base_level t = l))"
    (is "_ \<longleftrightarrow> ?R")
proof
  assume "level_at now db k = Some l"
  then show ?R
    by (auto simp: level_at_def split: option.splits if_splits dest!: find_row_SomeD)
next
  assume ?R
  then obtain g t where g: "g \<in> set (grants db)" "grant_key g = k" "\<not> is_expired now (g_expires g)"
    and t: "t \<in> set (permission_types db)" "pt_id t = g_ptype g" "pt_enabled t" "base_level t = l" by blast
  have "find_row (\<lambda>g. grant_key g = k) (grants db) = Some g"
    using unique_key_find [of grant_key "grants db" g] g ok by (simp add: tables_ok_def)
  moreover have "find_row (\<lambda>t. pt_id t = g_ptype g) (permission_types db) = Some t"
    using unique_key_find [of pt_id "permission_types db" t] t ok by (simp add: tables_ok_def)
  ultimately show "level_at now db k = Some l" using g t by (simp add: level_at_def)
qed

lemma grant_dict_level:
  assumes ok: "tables_ok db" and c: "concerns db uid k"
  shows "grant_dict (all_live now db uid) k = level_at now db k"
proof (cases "grant_dict (all_live now db uid) k")
  case None
  then have no: "\<not> (\<exists>g l. (g, l) \<in> set (all_live now db uid) \<and> grant_key g = k)"
    using grant_dict_mem by blast
  have "level_at now db k \<noteq> Some l" for l
    using no c unfolding level_at_iff [OF ok] all_live_mem by blast
  with None show ?thesis by (cases "level_at now db k") auto
next
  case (Some l)
  then obtain g where "(g, l) \<in> set (all_live now db uid)" "grant_key g = k" using grant_dict_SomeD by blast
  then have "level_at now db k = Some l" unfolding level_at_iff [OF ok] all_live_mem by blast
  with Some show ?thesis by simp
qed

lemma resolve_reference:
  assumes ok: "tables_ok db"
  shows "resolve_level (grant_dict (all_live now db uid)) (grant_roles (all_live now db uid)) uid k = reference_access now db uid k"
proof -
  let ?m = "grant_dict (all_live now db uid)"
  have u: "user_level ?m uid k = subject_level now db User_subject uid k"
    by (cases k) (simp add: user_level_def subject_level_def grant_dict_level [OF ok] concerns_def split: option.splits)
  have r: "role_level ?m k rid = subject_level now db Role_subject rid k" if "rid \<in> set (user_role_ids db uid)" for rid
    using that by (cases k) (simp add: role_level_def subject_level_def grant_dict_level [OF ok] concerns_def split: option.splits)
  have sub: "rid \<in> set (user_role_ids db uid)" if "rid \<in> set (grant_roles (all_live now db uid))" for rid
    using that by (auto simp: grant_roles_def all_live_mem concerns_def grant_key_def)
  have "set (List.map_filter (role_level ?m k) (grant_roles (all_live now db uid))) =
      set (List.map_filter (\<lambda>rid. subject_level now db Role_subject rid k) (user_role_ids db uid))"
    unfolding set_map_filter using r sub role_level_relevant [of "all_live now db uid" k] by force
  from max_level_cong [OF this] show ?thesis
    unfolding resolve_level_def reference_access_def u by (simp split: option.split)
qed

text \<open>
  The level a principal holds on a tool.  On well-formed tables the batched computation returns for
  each requested key, and only for those: write for administrators, and otherwise the level a direct
  lookup in the tables gives: the user's own grant on the tool, else on the whole server; without one,
  the highest level among the user's enabled roles, where a role's grant on the tool overrides its
  grant on the server; expired grants and disabled permission types do not count.
\<close>
lemma effective_access_map_exact:
  assumes "tables_ok db"
  shows "effective_access_map now db p keys k =
    (if k \<notin> set keys then None else if is_admin p then Some Write else Some (reference_access now db (p_id p) k))"
  by (simp add: effective_access_map_resolve resolve_reference [OF assms])

section \<open>When a call is allowed\<close>

definition business_tool :: "tool_definition \<Rightarrow> bool" where
  "business_tool d \<longleftrightarrow> \<not> is_management_tool d \<and> \<not> is_group_tool d \<and> \<not> is_classification_tool d"

definition management_principal :: "principal \<Rightarrow> bool" where
  "management_principal p \<longleftrightarrow> auth_type p = lit ''oauth'' \<and> oauth_builtin p \<and> is_management_resource p"

text \<open>What the credential itself must carry: the policy of an independent token, the grant behind an OAuth token.\<close>

definition credential_allows :: "decision_env \<Rightarrow> principal \<Rightarrow> tool_definition \<Rightarrow> class_view option \<Rightarrow> bool" where
  "credential_allows de p d c \<longleftrightarrow>
     (if independent_token p \<and> td_source d = lit ''mcp'' then token_mcp_policy_allows de p d c
      else if auth_type p = lit ''oauth'' then external_grant_covers de p d (view_access c) else True)"

lemmas decision_simps = control_decision_def denied_def Let_def

lemma independent_not_oauth: "independent_token p \<Longrightarrow> auth_type p \<noteq> lit ''oauth''"
  by (simp add: independent_token_def)

lemma allowed_denied [simp]: "\<not> allowed (denied why d r g c)"
  by (simp add: denied_def)

lemma allowed_control [simp]: "allowed (control_decision ok yes no d r st) = ok"
  by (simp add: control_decision_def)

lemma allowed_grant_decision:
  "allowed (grant_decision p d c g) \<longleftrightarrow>
     published_view c \<and> principal_control_allows p (tool_permission (view_access c)) \<and> token_scope_allows p (view_access c)
     \<and> extra_control_allowed p d \<and> access_rank (view_access c) \<le> access_rank g"
  by (simp add: grant_decision_def Let_def)

lemma allowed_evaluate_policy:
  "allowed (evaluate_policy de p d c g) \<longleftrightarrow>
     (if management_principal p then management_grant_allows de p d
      else credential_allows de p d c \<and> allowed (evaluate_tool p d c g))"
  using independent_not_oauth [of p]
  by (auto simp: evaluate_policy_def management_principal_def credential_allows_def)

lemma admin_control: "is_admin p \<Longrightarrow> principal_control_allows p code"
  by (simp add: principal_control_allows_def)

definition admin_level :: "class_view option \<Rightarrow> access" where
  "admin_level c = (if view_access c \<in> {Read, Write} then view_access c else Write)"

lemma allowed_admin_decision:
  "is_admin p \<Longrightarrow> allowed (admin_decision p d c) \<longleftrightarrow> token_scope_allows p (admin_level c) \<and> extra_control_allowed p d"
  by (simp add: admin_decision_def Let_def admin_control admin_level_def)

lemma allowed_business:
  "business_tool d \<Longrightarrow> allowed (evaluate_tool p d c g) \<longleftrightarrow>
     ((auth_type p = lit ''oauth'' \<or> delegated_scopes p \<noteq> None) \<longrightarrow> published_view c)
     \<and> (if is_admin p then token_scope_allows p (admin_level c) \<and> extra_control_allowed p d else allowed (grant_decision p d c g))"
  by (auto simp: evaluate_tool_def business_tool_def allowed_admin_decision)

text \<open>
  C3: exactly when a principal may use an ordinary tool.  An administrator needs its credential's
  own policy, the token scopes for the tool's level (write when the level is unknown) and the tool's
  extra control permission; under delegation the tool must also be published.  Anyone else needs a published
  classification, the control permission and token scopes for its level, the tool's extra control
  permission, and a grant of at least that level.
\<close>
theorem evaluate_allowed_iff:
  assumes "business_tool d" and "\<not> management_principal p"
  shows "allowed (evaluate_policy de p d c g) \<longleftrightarrow>
     credential_allows de p d c \<and> extra_control_allowed p d
     \<and> (if is_admin p
        then token_scope_allows p (admin_level c) \<and> (auth_type p = lit ''oauth'' \<or> delegated_scopes p \<noteq> None \<longrightarrow> published_view c)
        else published_view c \<and> principal_control_allows p (tool_permission (view_access c))
             \<and> token_scope_allows p (view_access c) \<and> access_rank (view_access c) \<le> access_rank g)"
  using assms by (auto simp: allowed_evaluate_policy allowed_business allowed_grant_decision)

definition demo_user :: principal where
  "demo_user = context_principal \<lparr>cx_actor = lit ''u1'', cx_username = lit ''u1'', cx_auth_type = lit ''session'', cx_roles = [lit ''viewer''],
     cx_permissions = [lit ''tools.read''], cx_token = None, cx_scopes = [], cx_delegated = None\<rparr>"

definition demo_decision_env :: decision_env where
  "demo_decision_env = \<lparr>de_env = demo_env, de_files = (\<lambda>_. None), de_rebase = (\<lambda>s. s), de_now = 0, de_ids = [],
     de_oauth = \<lparr>oc_enabled = False, oc_management = False, oc_resource = [], oc_issuer = None\<rparr>\<rparr>"

definition demo_view :: class_view where
  "demo_view = \<lparr>v_effective = Read, v_status = Published, v_version = None\<rparr>"

lemma demo_business: "business_tool demo_definition" "\<not> management_principal demo_user"
  by (simp_all add: business_tool_def is_management_tool_def is_group_tool_def is_classification_tool_def demo_definition_def meta_get_def
      dict_get_none_def dict_get_def management_principal_def demo_user_def context_principal_def)

theorem evaluate_allowed_iff_witness:
  "allowed (evaluate_policy demo_decision_env demo_user demo_definition (Some demo_view) Read)
   \<and> \<not> allowed (evaluate_policy demo_decision_env demo_user demo_definition (Some demo_view) No_access)"
  unfolding evaluate_allowed_iff [OF demo_business]
  by (simp add: credential_allows_def independent_token_def demo_user_def context_principal_def extra_control_allowed_def
      required_control_permission_def demo_definition_def meta_get_def dict_get_none_def dict_get_def is_admin_def effective_roles_def
      published_view_def demo_view_def principal_control_allows_def tool_permission_def view_access_def token_scope_allows_def scope_limits_def)

section \<open>Scopes are a ceiling\<close>

definition write_scoped :: "principal \<Rightarrow> bool" where
  "write_scoped p \<longleftrightarrow> list_all (\<lambda>s. lit ''*'' \<in> set s \<or> lit ''tools.invoke'' \<in> set s \<or> lit ''mcp.write'' \<in> set s) (scope_limits p)"

lemma token_scope_write: "token_scope_allows p Write \<longleftrightarrow> write_scoped p"
  by (auto simp: token_scope_allows_def write_scoped_def list_all_iff list_ex_iff Let_def)

lemma control_scope_write: "has_control_permission p (lit ''tools.invoke'') \<Longrightarrow> write_scoped p"
  by (auto simp: has_control_permission_def write_scoped_def list_all_iff)

lemma tool_requires_cases: "tool_requires t = Read \<or> tool_requires t = Write"
  by (simp add: tool_requires_def)

lemma management_grant_scope:
  "management_grant_allows de p d \<Longrightarrow> tool_requires (td_id d) = Write \<Longrightarrow> write_scoped p"
  by (auto simp: management_grant_allows_def Let_def write_scoped_def scope_limits_def split: option.splits)

lemma management_control_scope:
  "management_control_allows p d \<Longrightarrow> tool_requires (td_id d) = Write \<Longrightarrow> write_scoped p"
  by (auto simp: management_control_allows_def Let_def intro: control_scope_write)

lemma required_of:
  "required_access (control_decision ok yes no d r st) = r" "required_access (denied why d r g c) = r"
  "required_access (admin_decision p d c) = admin_level c"
  "required_access (grant_decision p d c g) = (if published_view c then view_access c else Unknown)"
  by (simp_all add: decision_simps admin_decision_def grant_decision_def admin_level_def)

lemma published_access: "published_view c \<Longrightarrow> view_access c = Read \<or> view_access c = Write"
  by (auto simp: published_view_def view_access_def split: option.splits)

lemma admin_level_cases: "admin_level c = Read \<or> admin_level c = Write"
  by (auto simp: admin_level_def)

lemma evaluate_tool_scope:
  assumes "allowed (evaluate_tool p d c g)"
  defines "r \<equiv> required_access (evaluate_tool p d c g)"
  shows "(r = Read \<or> r = Write) \<and> (r = Write \<longrightarrow> write_scoped p)"
proof -
  consider "is_management_tool d" | "\<not> is_management_tool d" "is_group_tool d"
    | "\<not> is_management_tool d" "\<not> is_group_tool d" "is_classification_tool d" | "business_tool d"
    unfolding business_tool_def by blast
  then show ?thesis
  proof cases
    case 1
    then show ?thesis
      using assms management_control_scope [of p d] tool_requires_cases [of "td_id d"] by (simp add: evaluate_tool_def required_of)
  next
    case 2
    then show ?thesis
      using assms by (auto simp: evaluate_tool_def required_of Let_def group_allows_def token_scope_write split: if_splits)
  next
    case 3
    then show ?thesis
      using assms by (auto simp: evaluate_tool_def Let_def token_scope_write split: if_splits)
  next
    case 4
    then have ok: "\<not> ((auth_type p = lit ''oauth'' \<or> delegated_scopes p \<noteq> None) \<and> \<not> published_view c)"
      using assms allowed_business by metis
    with 4 have ev: "evaluate_tool p d c g = (if is_admin p then admin_decision p d c else grant_decision p d c g)"
      by (auto simp: evaluate_tool_def business_tool_def)
    show ?thesis
    proof (cases "is_admin p")
      case True
      then show ?thesis
        using assms(1) admin_level_cases [of c] unfolding r_def ev
        by (auto simp: required_of allowed_admin_decision token_scope_write)
    next
      case False
      then show ?thesis
        using assms(1) published_access [of c] unfolding r_def ev
        by (auto simp: required_of allowed_grant_decision token_scope_write)
    qed
  qed
qed

text \<open>
  C4: scopes are a ceiling for everyone, administrators included.  Whatever the branch that allows a
  call, the access it requires is read or write, and when it is write every scope set that limits the
  principal (its token's scopes, its delegated scopes) contains the wildcard, tools.invoke or mcp.write.
\<close>
theorem write_needs_write_scope:
  assumes "allowed (evaluate_policy de p d c g)"
  shows "required_access (evaluate_policy de p d c g) \<in> {Read, Write}
    \<and> (required_access (evaluate_policy de p d c g) = Write \<longrightarrow> write_scoped p)"
proof (cases "management_principal p")
  case True
  then have "required_access (evaluate_policy de p d c g) = tool_requires (td_id d)" "management_grant_allows de p d"
    using assms independent_not_oauth [of p] allowed_evaluate_policy [of de p d c g]
    by (auto simp: evaluate_policy_def management_principal_def required_of)
  then show ?thesis using management_grant_scope tool_requires_cases by auto
next
  case False
  then have "evaluate_policy de p d c g = evaluate_tool p d c g" "allowed (evaluate_tool p d c g)"
    using assms independent_not_oauth [of p] allowed_evaluate_policy [of de p d c g]
    by (auto simp: evaluate_policy_def management_principal_def credential_allows_def)
  then show ?thesis using evaluate_tool_scope [of p d c g] by auto
qed

definition demo_admin :: principal where
  "demo_admin = demo_user\<lparr>p_role := lit ''admin'', auth_type := lit ''token'', p_scopes := [lit ''tools.invoke'']\<rparr>"

theorem write_needs_write_scope_witness:
  "allowed (evaluate_policy demo_decision_env demo_admin demo_definition None No_access)
   \<and> required_access (evaluate_policy demo_decision_env demo_admin demo_definition None No_access) = Write \<and> write_scoped demo_admin"
proof -
  have mp: "\<not> management_principal demo_admin" by (simp add: management_principal_def demo_admin_def)
  have level: "admin_level None = Write" by (simp add: admin_level_def view_access_def)
  have scope: "write_scoped demo_admin"
    by (simp add: write_scoped_def scope_limits_def demo_admin_def demo_user_def context_principal_def)
  have rest: "is_admin demo_admin" "\<not> independent_token demo_admin" "auth_type demo_admin \<noteq> lit ''oauth''" "delegated_scopes demo_admin = None"
    "extra_control_allowed demo_admin demo_definition"
    by (simp_all add: is_admin_def effective_roles_def demo_admin_def demo_user_def context_principal_def independent_token_def
        extra_control_allowed_def required_control_permission_def demo_definition_def meta_get_def dict_get_none_def dict_get_def)
  have a: "allowed (evaluate_policy demo_decision_env demo_admin demo_definition None No_access)"
    using mp rest scope by (simp add: allowed_evaluate_policy allowed_business demo_business(1) credential_allows_def level token_scope_write)
  have r: "required_access (evaluate_policy demo_decision_env demo_admin demo_definition None No_access) = Write"
    using rest mp demo_business(1) by (simp add: evaluate_policy_def evaluate_tool_def business_tool_def required_of level)
  from write_needs_write_scope [OF a] a r show ?thesis by simp
qed

section \<open>Discovery agrees with the decision\<close>

lemma effective_access_map_one:
  "k \<in> set keys \<Longrightarrow> effective_access_map now db p keys k = effective_access_map now db p [k] k"
  by (simp add: effective_access_map_resolve)

lemma visible_tools_eq:
  assumes "visible_tools de uuid fresh adb cdb p ds = Inr (cdb', vis)"
  shows "vis = map (\<lambda>d. with_gate_access (evaluate de adb cdb' p d) d) (filter (\<lambda>d. allowed (evaluate de adb cdb' p d)) ds)"
proof (cases "ds = []")
  case False
  have ev: "evaluate_policy (on_tables de cdb') p d (map_option view_of (load_classifications cdb' (map tool_key_of ds) (tool_key_of d)))
      (the (effective_access_map (de_now de) adb p (map tool_key_of ds) (tool_key_of d))) = evaluate de adb cdb' p d" if "d \<in> set ds" for d
    using that effective_access_map_one [of "tool_key_of d" "map tool_key_of ds"]
    by (simp add: evaluate_def Let_def load_classifications_eq)
  have "concat (map (\<lambda>d. let dec = evaluate_policy (on_tables de cdb') p d (map_option view_of (load_classifications cdb' (map tool_key_of ds) (tool_key_of d)))
      (the (effective_access_map (de_now de) adb p (map tool_key_of ds) (tool_key_of d))) in if allowed dec then [with_gate_access dec d] else []) xs)
    = map (\<lambda>d. with_gate_access (evaluate de adb cdb' p d) d) (filter (\<lambda>d. allowed (evaluate de adb cdb' p d)) xs)" if "set xs \<subseteq> set ds" for xs
    using that by (induction xs) (simp_all add: ev Let_def)
  with False assms show ?thesis by (auto simp: visible_tools_def Let_def)
qed (use assms in \<open>simp add: visible_tools_def\<close>)

lemma evaluate_grant_path:
  assumes ok: "tables_ok adb" and d: "business_tool d" "\<not> is_admin p" "\<not> management_principal p" and a: "allowed (evaluate de adb cdb p d)"
  shows "\<exists>r. find_class cdb (tool_key_of d) = Some r \<and> c_status r = Published
    \<and> access_rank (effective r) \<le> access_rank (reference_access (de_now de) adb (p_id p) (tool_key_of d))"
proof -
  have "allowed (grant_decision p d (map_option view_of (find_class cdb (tool_key_of d))) (reference_access (de_now de) adb (p_id p) (tool_key_of d)))"
    using a d by (simp add: evaluate_def Let_def load_classifications_eq allowed_evaluate_policy allowed_business
        effective_access_map_resolve resolve_reference [OF ok])
  then show ?thesis
    by (auto simp: allowed_grant_decision published_view_def view_of_def view_access_def split: option.splits)
qed

text \<open>
  C14: a tool list shows exactly what may be called.  After the synchronisation that precedes it, the visible tools are
  the listed definitions, in order, for which the call decision on the same tables says yes, each annotated with that
  decision.  For anyone but an administrator an ordinary tool in the list had, already before the call, a
  published classification of the definition as it is now, and the user holds at least its level.
\<close>
theorem visible_tools_exact:
  assumes ok: "class_ok cdb" "tables_ok adb" and run: "visible_tools de uuid fresh adb cdb p ds = Inr (cdb', vis)"
  shows "vis = map (\<lambda>d. with_gate_access (evaluate de adb cdb' p d) d) (filter (\<lambda>d. allowed (evaluate de adb cdb' p d)) ds)
    \<and> (\<forall>d \<in> set ds. business_tool d \<and> \<not> is_admin p \<and> \<not> management_principal p \<and> allowed (evaluate de adb cdb' p d) \<longrightarrow>
        (\<exists>r. find_class cdb (tool_key_of d) = Some r \<and> c_status r = Published \<and> fingerprint r = tool_fingerprint (de_env de) d
           \<and> access_rank (effective r) \<le> access_rank (reference_access (de_now de) adb (p_id p) (tool_key_of d))))"
proof (intro conjI ballI impI)
  show "vis = map (\<lambda>d. with_gate_access (evaluate de adb cdb' p d) d) (filter (\<lambda>d. allowed (evaluate de adb cdb' p d)) ds)"
    by (rule visible_tools_eq [OF run])
next
  fix d assume d: "d \<in> set ds" and h: "business_tool d \<and> \<not> is_admin p \<and> \<not> management_principal p \<and> allowed (evaluate de adb cdb' p d)"
  then obtain r where r: "find_class cdb' (tool_key_of d) = Some r" "c_status r = Published"
    "access_rank (effective r) \<le> access_rank (reference_access (de_now de) adb (p_id p) (tool_key_of d))"
    using evaluate_grant_path [OF ok(2)] by blast
  have sync: "synchronize (de_env de) (de_now de) uuid fresh ds cdb = Inr cdb'"
    using run d by (auto simp: visible_tools_def Let_def split: if_splits)
  have m: "sync_map (de_env de) (de_now de) uuid ds (find_class cdb) (tool_key_of d) = Some r"
    using synchronize_abs [OF ok(1) sync] r(1) by simp
  from sync_map_tightens(2) [OF m r(2)] d r
  show "\<exists>r. find_class cdb (tool_key_of d) = Some r \<and> c_status r = Published \<and> fingerprint r = tool_fingerprint (de_env de) d
      \<and> access_rank (effective r) \<le> access_rank (reference_access (de_now de) adb (p_id p) (tool_key_of d))"
    by blast
qed

theorem visible_tools_exact_witness:
  "\<exists>cdb'. visible_tools demo_decision_env (\<lambda>_. lit ''u'') (\<lambda>s. s) demo_db empty_classes demo_user [demo_definition] = Inr (cdb', [])"
proof -
  let ?r = "new_class_row 0 (lit ''u'') demo_definition (tool_fingerprint demo_env demo_definition) (suggest_tool demo_env demo_definition)"
  let ?db = "\<lparr>classifications = [?r], identities = []\<rparr>"
  have sync: "synchronize (de_env demo_decision_env) (de_now demo_decision_env) (\<lambda>_. lit ''u'') (\<lambda>s. s) [demo_definition] empty_classes = Inr ?db"
    using demo_sync by (simp add: demo_decision_env_def)
  obtain vis where run: "visible_tools demo_decision_env (\<lambda>_. lit ''u'') (\<lambda>s. s) demo_db empty_classes demo_user [demo_definition] = Inr (?db, vis)"
    by (simp add: visible_tools_def sync Let_def)
  have ok: "class_ok empty_classes" "tables_ok demo_db"
    using seeded_empty by (simp_all add: class_ok_def empty_classes_def demo_db_def)
  have "\<not> is_admin demo_user" by (simp add: is_admin_def effective_roles_def demo_user_def context_principal_def)
  then have "\<not> allowed (evaluate demo_decision_env demo_db ?db demo_user demo_definition)"
    using visible_tools_exact [OF ok run] demo_business by (auto simp: find_class_def empty_classes_def find_row_def)
  then have "vis = []" using visible_tools_exact [OF ok run] by simp
  with run show ?thesis by blast
qed

lemma seed_tables_untouched: "grants (seed_system_data now db) = grants db" "user_roles (seed_system_data now db) = user_roles db"
proof -
  have link: "grants (fold (seed_link rid) cs db) = grants db \<and> user_roles (fold (seed_link rid) cs db) = user_roles db" for rid cs db
    by (induction cs arbitrary: db) (auto simp: seed_link_def split: option.splits)
  have role: "grants (fold (seed_role now) ps db) = grants db \<and> user_roles (fold (seed_role now) ps db) = user_roles db" for ps db
    by (induction ps arbitrary: db) (auto simp: seed_role_def link)
  have perm: "grants (fold (seed_permission now) ps db) = grants db \<and> user_roles (fold (seed_permission now) ps db) = user_roles db" for ps db
    by (induction ps arbitrary: db) (auto simp: seed_permission_def)
  have ptype: "grants (fold (seed_ptype now) ps db) = grants db \<and> user_roles (fold (seed_ptype now) ps db) = user_roles db" for ps db
    by (induction ps arbitrary: db) (auto simp: seed_ptype_def)
  show "grants (seed_system_data now db) = grants db" "user_roles (seed_system_data now db) = user_roles db"
    by (simp_all add: seed_system_data_def role perm ptype)
qed

lemma effective_access_map_exact_witness:
  "effective_access_map 0 demo_db demo_user [(lit ''s'', lit ''t'')] (lit ''s'', lit ''t'') = Some No_access"
proof -
  have ok: "tables_ok demo_db" using seeded_empty by (simp add: demo_db_def)
  have "\<not> is_admin demo_user" by (simp add: is_admin_def effective_roles_def demo_user_def context_principal_def)
  moreover have "grants demo_db = []" "user_roles demo_db = []"
    by (simp_all add: demo_db_def seed_tables_untouched empty_db_def)
  ultimately show ?thesis
    by (simp add: effective_access_map_exact [OF ok] reference_access_def subject_level_def level_at_def find_row_def user_role_ids_def)
qed

section \<open>Catalog search agrees with the decision\<close>

lemma max_level_fill:
  assumes "\<And>x l. x \<in> set xs \<Longrightarrow> f x = Some l \<Longrightarrow> 0 \<le> access_rank l"
  shows "max_level (map (\<lambda>x. case f x of None \<Rightarrow> No_access | Some l \<Rightarrow> l) xs) = max_level (List.map_filter f xs)"
proof (cases "List.map_filter f xs = []")
  case True
  then have "set (List.map_filter f xs) = {}" by simp
  then have none: "f x = None" if "x \<in> set xs" for x
    using that unfolding set_map_filter by (cases "f x") auto
  then have all: "x = No_access" if "x \<in> set (map (\<lambda>x. case f x of None \<Rightarrow> No_access | Some l \<Rightarrow> l) xs)" for x
    using that by auto
  have "max_level (map (\<lambda>x. case f x of None \<Rightarrow> No_access | Some l \<Rightarrow> l) xs) = No_access"
  proof (cases "xs = []")
    case False
    then have "map (\<lambda>x. case f x of None \<Rightarrow> No_access | Some l \<Rightarrow> l) xs \<noteq> []" by simp
    from all [OF max_level_spec(1) [OF this]] show ?thesis .
  qed simp
  with True show ?thesis by simp
next
  case False
  let ?m = "max_level (List.map_filter f xs)"
  obtain x where x: "x \<in> set xs" "f x = Some ?m" using max_level_spec(1) [OF False] unfolding set_map_filter by auto
  show ?thesis
  proof (rule max_level_unique)
    show "?m \<in> set (map (\<lambda>x. case f x of None \<Rightarrow> No_access | Some l \<Rightarrow> l) xs)" using x by force
    fix y assume "y \<in> set (map (\<lambda>x. case f x of None \<Rightarrow> No_access | Some l \<Rightarrow> l) xs)"
    then obtain z where z: "z \<in> set xs" "y = (case f z of None \<Rightarrow> No_access | Some l \<Rightarrow> l)" by auto
    show "access_rank y \<le> access_rank ?m"
    proof (cases "f z")
      case None
      then show ?thesis using z assms [OF x] by simp
    next
      case (Some l)
      then have "l \<in> set (List.map_filter f xs)" using z(1) unfolding set_map_filter by auto
      from max_level_spec(2) [OF False this] z(2) Some show ?thesis by simp
    qed
  qed
qed

lemma role_level_known:
  assumes "tables_ok db" "role_level (grant_dict (all_live now db uid)) k rid = Some l"
  shows "0 \<le> access_rank l"
proof -
  obtain key where "grant_dict (all_live now db uid) key = Some l"
    using assms(2) by (auto simp: role_level_def split: option.splits)
  then obtain g where "(g, l) \<in> set (all_live now db uid)" using grant_dict_SomeD by blast
  then have "l \<noteq> Unknown" using assms(1) by (auto simp: all_live_mem tables_ok_def)
  then show ?thesis by (cases l) auto
qed

lemma catalog_granted_eq:
  assumes "tables_ok adb" "\<not> is_admin p"
  shows "catalog_granted now adb p k = the (effective_access_map now adb p [k] k)"
proof -
  have "max_level (map (\<lambda>r. case role_level (grant_dict (all_live now adb (p_id p))) k r of None \<Rightarrow> No_access | Some l \<Rightarrow> l) (grant_roles (all_live now adb (p_id p))))
      = max_level (List.map_filter (role_level (grant_dict (all_live now adb (p_id p))) k) (grant_roles (all_live now adb (p_id p))))"
    by (rule max_level_fill) (rule role_level_known [OF assms(1)])
  then show ?thesis
    using assms(2) by (simp add: catalog_granted_def Let_def effective_access_map_resolve resolve_level_def flip: all_live_def split: option.split)
qed

lemma admin_ignores_grant: "is_admin p \<Longrightarrow> allowed (evaluate_policy de p d c g) = allowed (evaluate_policy de p d c g')"
proof -
  assume "is_admin p"
  then have "allowed (evaluate_tool p d c g) = allowed (evaluate_tool p d c g')"
    by (cases "business_tool d") (simp_all add: allowed_business, auto simp: evaluate_tool_def business_tool_def)
  then show ?thesis by (simp add: allowed_evaluate_policy)
qed

lemma evaluate_catalog_granted:
  assumes "tables_ok adb"
  shows "allowed (evaluate_policy de p d c (catalog_granted now adb p k)) = allowed (evaluate_policy de p d c (the (effective_access_map now adb p [k] k)))"
  using catalog_granted_eq [OF assms] admin_ignores_grant by (cases "is_admin p") auto

lemma server_id_catalog: "strip (ci_server i) = ci_server i \<Longrightarrow> ci_server i \<noteq> [] \<Longrightarrow> server_id (catalog_definition loads i) = ci_server i"
  by (simp add: server_id_def meta_get_def catalog_definition_def dict_get_none_def dict_get_def dict_set_def update_conv')

text \<open>A tool that is not built in is judged without looking at its id.\<close>

lemma evaluate_tool_id:
  assumes "td_source d \<noteq> lit ''builtin''"
  shows "evaluate_tool p (d\<lparr>td_id := x\<rparr>) c g = evaluate_tool p d c g"
proof -
  have s: "server_id (d\<lparr>td_id := x\<rparr>) = server_id d" by (simp add: server_id_def meta_get_def split: pyval.split)
  have r: "required_control_permission (d\<lparr>td_id := x\<rparr>) = required_control_permission d" by (simp add: required_control_permission_def meta_get_def split: pyval.split)
  have e: "extra_control_allowed p (d\<lparr>td_id := x\<rparr>) = extra_control_allowed p d" by (simp add: extra_control_allowed_def r)
  have b: "is_management_tool (d\<lparr>td_id := x\<rparr>) = False" "is_group_tool (d\<lparr>td_id := x\<rparr>) = False" "is_management_tool d = False" "is_group_tool d = False"
    "is_classification_tool (d\<lparr>td_id := x\<rparr>) = is_classification_tool d"
    using assms by (simp_all add: is_management_tool_def is_group_tool_def is_classification_tool_def r meta_get_def)
  have ad: "admin_decision p (d\<lparr>td_id := x\<rparr>) c = admin_decision p d c" unfolding admin_decision_def s r e ..
  have dn: "denied why (d\<lparr>td_id := x\<rparr>) ra ga c = denied why d ra ga c" for why ra ga unfolding denied_def s ..
  have gd: "grant_decision p (d\<lparr>td_id := x\<rparr>) c g = grant_decision p d c g" unfolding grant_decision_def s r e dn ..
  show ?thesis unfolding evaluate_tool_def ad dn gd b s by simp
qed

lemma catalog_key_determines:
  assumes p: "auth_type p \<noteq> lit ''oauth''" "\<not> independent_token p" and k: "catalog_cache_key i g = catalog_cache_key j g'"
  shows "evaluate_policy de p (catalog_definition loads i) (catalog_class cdb p i) g =
    evaluate_policy de p (catalog_definition loads j) (catalog_class cdb p j) g'"
proof -
  have eq: "ci_server i = ci_server j" "ci_source i = ci_source j" "ci_permission i = ci_permission j" "ci_policy i = ci_policy j"
    "ci_class i = ci_class j" "g = g'"
    and tool: "(if ci_source i = lit ''builtin'' then Some (ci_tool i) else None) = (if ci_source j = lit ''builtin'' then Some (ci_tool j) else None)"
    using k unfolding catalog_cache_key_def prod.inject by blast+
  have c: "catalog_class cdb p i = catalog_class cdb p j" using p eq by (simp add: catalog_class_def)
  have d: "catalog_definition loads i = (catalog_definition loads j)\<lparr>td_id := ci_tool i\<rparr>" using eq by (simp add: catalog_definition_def)
  have "evaluate_tool p (catalog_definition loads i) c g = evaluate_tool p (catalog_definition loads j) c g" for c
  proof (cases "ci_source i = lit ''builtin''")
    case True
    then have "ci_tool i = ci_tool j" using tool eq(2) by simp
    then have "catalog_definition loads i = catalog_definition loads j" using eq by (simp add: catalog_definition_def)
    then show ?thesis by simp
  next
    case False
    then have "td_source (catalog_definition loads j) \<noteq> lit ''builtin''" using eq by (simp add: catalog_definition_def)
    from evaluate_tool_id [OF this] show ?thesis unfolding d .
  qed
  then show ?thesis using p c eq(6) by (simp add: evaluate_policy_def)
qed

definition catalog_verdict :: "decision_env \<Rightarrow> (pystr \<Rightarrow> dict) \<Rightarrow> access_db \<Rightarrow> class_db \<Rightarrow> principal \<Rightarrow> catalog_item \<Rightarrow> bool" where
  "catalog_verdict de loads adb cdb p i =
     (let k = (ci_server i, ci_tool i) in
      allowed (evaluate_policy (on_tables de cdb) p (catalog_definition loads i) (catalog_class cdb p i) (the (effective_access_map (de_now de) adb p [k] k))))"

definition item_ok :: "catalog_item \<Rightarrow> bool" where
  "item_ok i \<longleftrightarrow> ci_server i \<noteq> [] \<and> strip (ci_server i) = ci_server i"

definition cache_sound :: "decision_env \<Rightarrow> (pystr \<Rightarrow> dict) \<Rightarrow> access_db \<Rightarrow> class_db \<Rightarrow> principal \<Rightarrow> (cache_key \<rightharpoonup> bool) \<Rightarrow> bool" where
  "cache_sound de loads adb cdb p cache \<longleftrightarrow>
     (\<forall>key b. cache key = Some b \<longrightarrow>
        (auth_type p \<noteq> lit ''oauth'' \<and> \<not> independent_token p
         \<and> (\<forall>i g. catalog_cache_key i g = key \<longrightarrow>
               allowed (evaluate_policy (on_tables de cdb) p (catalog_definition loads i) (catalog_class cdb p i) g) = b)))"

lemma oauth_prefilter:
  assumes "item_ok i" "auth_type p = lit ''oauth''" "\<not> is_management_resource p"
    "ci_source i \<noteq> lit ''mcp'' \<or> ci_tool i \<notin> set (external_tool_ids p) \<or> ci_server i \<notin> set (external_server_ids p)"
  shows "\<not> allowed (evaluate_policy de p (catalog_definition loads i) c g)"
proof -
  have "server_id (catalog_definition loads i) = ci_server i" using assms(1) by (simp add: item_ok_def server_id_catalog)
  moreover have "td_source (catalog_definition loads i) = ci_source i" "td_id (catalog_definition loads i) = ci_tool i"
    by (simp_all add: catalog_definition_def)
  ultimately have "\<not> external_grant_covers de p (catalog_definition loads i) a" for a
    using assms(4) by (auto simp: external_grant_covers_def)
  then show ?thesis
    using assms(2,3) by (simp add: allowed_evaluate_policy management_principal_def credential_allows_def independent_token_def)
qed

lemma authorize_step:
  assumes ok: "tables_ok adb" "item_ok i" and cache: "cache_sound de loads adb cdb p cache" and run: "authorize de loads adb cdb p i cache = (b, cache')"
  shows "b = (\<not> is_management_resource p \<and> catalog_verdict de loads adb cdb p i) \<and> cache_sound de loads adb cdb p cache'"
proof (cases "is_management_resource p \<or> auth_type p = lit ''oauth'' \<and>
    (ci_source i \<noteq> lit ''mcp'' \<or> ci_tool i \<notin> set (external_tool_ids p) \<or> ci_server i \<notin> set (external_server_ids p))")
  case True
  then have "authorize de loads adb cdb p i cache = (False, cache)"
    by (cases "is_management_resource p") (simp_all only: authorize_def if_True if_False simp_thms)
  then have bc: "b = False" "cache' = cache" using run by simp_all
  have "\<not> catalog_verdict de loads adb cdb p i" if "\<not> is_management_resource p"
    using oauth_prefilter [OF ok(2) _ that] True that by (auto simp: catalog_verdict_def Let_def)
  then show ?thesis using bc cache by auto
next
  case False
  let ?g = "catalog_granted (de_now de) adb p (ci_server i, ci_tool i)"
  let ?v = "allowed (evaluate_policy (on_tables de cdb) p (catalog_definition loads i) (catalog_class cdb p i) ?g)"
  let ?memo = "auth_type p \<noteq> lit ''oauth'' \<and> \<not> independent_token p" and ?key = "catalog_cache_key i ?g"
  have v: "catalog_verdict de loads adb cdb p i = ?v"
    unfolding catalog_verdict_def Let_def evaluate_catalog_granted [OF ok(1), symmetric] ..
  have body: "authorize de loads adb cdb p i cache = (case (if ?memo then cache ?key else None) of Some b \<Rightarrow> (b, cache)
      | None \<Rightarrow> (?v, if ?memo then cache(?key \<mapsto> ?v) else cache))"
    unfolding authorize_def Let_def using False by (simp only: if_False if_True de_Morgan_disj)
  show ?thesis
  proof (cases "if ?memo then cache ?key else None")
    case None
    then have bc: "b = ?v" "cache' = (if ?memo then cache(?key \<mapsto> ?v) else cache)" using run body by auto
    have "cache_sound de loads adb cdb p (cache(?key \<mapsto> ?v))" if m: ?memo
      unfolding cache_sound_def
    proof (intro allI impI conjI)
      fix key b' assume h: "(cache(?key \<mapsto> ?v)) key = Some b'"
      show "auth_type p \<noteq> lit ''oauth''" "\<not> independent_token p" using m by auto
      fix j g assume j: "catalog_cache_key j g = key"
      show "allowed (evaluate_policy (on_tables de cdb) p (catalog_definition loads j) (catalog_class cdb p j) g) = b'"
      proof (cases "key = ?key")
        case True
        then have "b' = ?v" using h by simp
        moreover have "catalog_cache_key j g = ?key" using j True by simp
        ultimately show ?thesis using catalog_key_determines [OF conjunct1 [OF m] conjunct2 [OF m]] by metis
      next
        case False
        then have "cache key = Some b'" using h by simp
        with cache j show ?thesis unfolding cache_sound_def by blast
      qed
    qed
    then show ?thesis using bc v False cache by auto
  next
    case (Some b')
    then have m: ?memo "cache ?key = Some b'" by (auto split: if_splits)
    then have bc: "b = b'" "cache' = cache" using run body by auto
    have "?v = b'" using cache m(2) unfolding cache_sound_def by blast
    then show ?thesis using bc v False cache by auto
  qed
qed

text \<open>
  The catalog search authorizer, with its request-local memory of earlier answers, gives every candidate of
  a query exactly the verdict of the call decision with the principal's level computed anew, and denies
  everything to credentials of the management resource.
\<close>
lemma catalog_authorizer_exact:
  assumes "tables_ok adb" and "list_all item_ok is"
  shows "authorize_all de loads adb cdb p is Map.empty = map (\<lambda>i. \<not> is_management_resource p \<and> catalog_verdict de loads adb cdb p i) is"
proof -
  have "authorize_all de loads adb cdb p is cache = map (\<lambda>i. \<not> is_management_resource p \<and> catalog_verdict de loads adb cdb p i) is"
    if "cache_sound de loads adb cdb p cache" for cache
    using assms(2) that
  proof (induction "is" arbitrary: cache)
    case (Cons i "is")
    obtain b cache' where a: "authorize de loads adb cdb p i cache = (b, cache')" by (cases "authorize de loads adb cdb p i cache")
    from authorize_step [OF assms(1) _ Cons.prems(2) a] Cons a show ?case by simp
  qed simp
  moreover have "cache_sound de loads adb cdb p Map.empty" by (simp add: cache_sound_def)
  ultimately show ?thesis by blast
qed

definition demo_item :: catalog_item where
  "demo_item = \<lparr>ci_tool = lit ''t'', ci_server = lit ''s'', ci_source = lit ''mcp'', ci_permission = lit ''read'', ci_policy = [],
     ci_class = Some (Read, Published)\<rparr>"

lemma catalog_authorizer_exact_witness:
  "authorize_all demo_decision_env (\<lambda>_. []) demo_db empty_classes demo_user [demo_item, demo_item] Map.empty =
     [catalog_verdict demo_decision_env (\<lambda>_. []) demo_db empty_classes demo_user demo_item,
      catalog_verdict demo_decision_env (\<lambda>_. []) demo_db empty_classes demo_user demo_item]"
proof -
  have ok: "tables_ok demo_db" using seeded_empty by (simp add: demo_db_def)
  have items: "list_all item_ok [demo_item, demo_item]"
    by (simp add: item_ok_def demo_item_def strip_def strip_by_def lit_def py_space_def)
  have "\<not> is_management_resource demo_user" by (simp add: is_management_resource_def demo_user_def context_principal_def)
  with catalog_authorizer_exact [OF ok items, of demo_decision_env "\<lambda>_. []" empty_classes demo_user] show ?thesis by simp
qed

section \<open>Token budgets\<close>

definition within_budget :: "nat \<Rightarrow> pystr set \<Rightarrow> bool" where
  "within_budget n servers \<longleftrightarrow> n \<le> 5000 \<and> card servers \<le> 100"

lemma within_budget_mono: "within_budget n S \<Longrightarrow> m \<le> n \<Longrightarrow> T \<subseteq> S \<Longrightarrow> finite S \<Longrightarrow> within_budget m T"
  unfolding within_budget_def by (meson card_mono le_trans)

lemma count_rows_spec:
  assumes "distinct (snd st)" "within_budget (fst st) (set (snd st))"
  shows "case count_rows ok rs st of
      None \<Rightarrow> \<not> within_budget (fst st + length (filter ok rs)) (set (snd st) \<union> c_server ` set (filter ok rs))
    | Some st' \<Rightarrow> fst st' = fst st + length (filter ok rs) \<and> set (snd st') = set (snd st) \<union> c_server ` set (filter ok rs)
        \<and> distinct (snd st') \<and> within_budget (fst st') (set (snd st'))"
  using assms(1,2)
proof (induction rs arbitrary: st)
  case (Cons r rs)
  show ?case
  proof (cases "ok r")
    case True
    let ?st = "(fst st + 1, List.insert (c_server r) (snd st))"
    have d: "distinct (snd ?st)" using Cons.prems(1) by simp
    have len: "length (List.insert (c_server r) (snd st)) = card (set (snd ?st))"
      using distinct_card [OF d] by simp
    show ?thesis
    proof (cases "within_budget (fst ?st) (set (snd ?st))")
      case w: True
      then have step: "count_rows ok (r # rs) st = count_rows ok rs ?st"
        using True len by (simp add: within_budget_def)
      show ?thesis
        unfolding step using Cons.IH [OF d w] True by (cases "count_rows ok rs ?st") (simp, simp, metis)
    next
      case False
      then have none: "count_rows ok (r # rs) st = None"
        using True len by (auto simp: within_budget_def)
      have "\<not> within_budget (fst st + length (filter ok (r # rs))) (set (snd st) \<union> c_server ` set (filter ok (r # rs)))"
        using False within_budget_mono [where m = "fst ?st" and T = "set (snd ?st)"] True by fastforce
      then show ?thesis unfolding none option.case .
    qed
  next
    case False
    then have "filter ok (r # rs) = filter ok rs" "count_rows ok (r # rs) st = count_rows ok rs st" by simp_all
    then show ?thesis using Cons.IH [OF Cons.prems] by (simp only:)
  qed
qed simp

lemma reaches_cong: "the (m (class_key r)) = the (m' (class_key r)) \<Longrightarrow> reaches p ps m r = reaches p ps m' r"
  by (simp add: reaches_def)

definition reachable_row :: "rat \<Rightarrow> access_db \<Rightarrow> principal \<Rightarrow> (pystr \<times> pystr) list \<Rightarrow> class_row \<Rightarrow> bool" where
  "reachable_row now adb p ps r = reaches p ps (effective_access_map now adb p [class_key r]) r"

lemma batch_filter:
  "filter (reaches p ps (effective_access_map now adb p (map class_key b))) b = filter (reachable_row now adb p ps) b"
proof (rule filter_cong [OF refl])
  fix r assume "r \<in> set b"
  then show "reaches p ps (effective_access_map now adb p (map class_key b)) r = reachable_row now adb p ps r"
    unfolding reachable_row_def by (intro reaches_cong) (simp add: effective_access_map_resolve)
qed

lemma count_batches_spec:
  assumes "distinct (snd st)" "within_budget (fst st) (set (snd st))"
  shows "count_batches now adb p ps bs st \<longleftrightarrow>
    within_budget (fst st + length (filter (reachable_row now adb p ps) (concat bs)))
      (set (snd st) \<union> c_server ` set (filter (reachable_row now adb p ps) (concat bs)))"
  using assms
proof (induction bs arbitrary: st)
  case (Cons b bs)
  let ?ok = "reaches p ps (effective_access_map now adb p (map class_key b))"
  note spec = count_rows_spec [OF Cons.prems, of ?ok b, unfolded batch_filter]
  show ?case
  proof (cases "count_rows ?ok b st")
    case None
    then have "\<not> within_budget (fst st + length (filter (reachable_row now adb p ps) b)) (set (snd st) \<union> c_server ` set (filter (reachable_row now adb p ps) b))"
      using spec by simp
    then have "\<not> within_budget (fst st + length (filter (reachable_row now adb p ps) (concat (b # bs))))
        (set (snd st) \<union> c_server ` set (filter (reachable_row now adb p ps) (concat (b # bs))))"
      using within_budget_mono [where m = "fst st + length (filter (reachable_row now adb p ps) b)"
          and T = "set (snd st) \<union> c_server ` set (filter (reachable_row now adb p ps) b)"] by fastforce
    with None show ?thesis by simp
  next
    case (Some st')
    then have st': "fst st' = fst st + length (filter (reachable_row now adb p ps) b)"
      "set (snd st') = set (snd st) \<union> c_server ` set (filter (reachable_row now adb p ps) b)"
      "distinct (snd st')" "within_budget (fst st') (set (snd st'))" using spec unfolding Some option.case by blast+
    have set_eq: "set (snd st') \<union> c_server ` set (filter (reachable_row now adb p ps) (concat bs)) =
        set (snd st) \<union> c_server ` set (filter (reachable_row now adb p ps) (concat (b # bs)))" unfolding st'(2) by auto
    have "count_batches now adb p ps (b # bs) st = count_batches now adb p ps bs st'" by (simp add: Some)
    then show ?thesis
      unfolding Cons.IH [OF st'(3,4)] set_eq st'(1) by (simp add: add.assoc)
  qed
qed simp

text \<open>The published classifications an independent token's policies and selected tools name.\<close>

definition budget_rows :: "decision_env \<Rightarrow> class_db \<Rightarrow> principal \<Rightarrow> class_row list" where
  "budget_rows de cdb p =
     filter (\<lambda>r. c_status r = Published \<and> effective r \<in> {Read, Write}
        \<and> (c_server r \<in> set (map fst (live_policies (on_tables de cdb) p)) \<or> c_tool r \<in> set (map fst (token_tool_snapshots p))))
       (classifications cdb)"

text \<open>
  The budget of an independent token is checked exactly, batch by batch and with early exit: the token is valid
  if and only if it selects at most 5,000 tools and 100 live server policies and the published tools it really
  reaches (scopes, control permission, grant and policy level all sufficient) number at most 5,000 on
  at most 100 servers.  Other tokens have no such budget.
\<close>
lemma token_budget_exact:
  "token_authorization_budget_valid de adb cdb p \<longleftrightarrow>
     (if token_mode p = lit ''independent''
      then card (fst ` set (token_tool_snapshots p)) \<le> 5000 \<and> length (live_policies (on_tables de cdb) p) \<le> 100
       \<and> within_budget (length (filter (reachable_row (de_now de) adb p (live_policies (on_tables de cdb) p)) (budget_rows de cdb p)))
           (c_server ` set (filter (reachable_row (de_now de) adb p (live_policies (on_tables de cdb) p)) (budget_rows de cdb p)))
      else True)"
proof -
  let ?ps = "live_policies (on_tables de cdb) p" and ?sel = "remdups (map fst (token_tool_snapshots p))"
  have sel: "length ?sel = card (fst ` set (token_tool_snapshots p))" by (simp add: length_remdups_card_conv)
  have zero: "within_budget 0 {}" by (simp add: within_budget_def)
  have count: "count_batches (de_now de) adb p ?ps (chunks 250 (budget_rows de cdb p)) (0, []) \<longleftrightarrow>
      within_budget (length (filter (reachable_row (de_now de) adb p ?ps) (budget_rows de cdb p)))
        (c_server ` set (filter (reachable_row (de_now de) adb p ?ps) (budget_rows de cdb p)))"
    using count_batches_spec [of "(0, [])" "de_now de" adb p ?ps "chunks 250 (budget_rows de cdb p)"] zero by (simp add: concat_chunks)
  have none: "budget_rows de cdb p = []" if "?ps = []" "?sel = []"
    using that by (simp add: budget_rows_def filter_empty_conv)
  show ?thesis
    unfolding token_authorization_budget_valid_def Let_def using sel count none zero
    by (auto simp: budget_rows_def simp del: set_map)
qed

end
