(* ===== verification/Retention.thy ===== *)
theory Retention
  imports Json_Structure "HOL-Library.AList" "HOL-Library.List_Lexorder" "HOL-Library.Product_Lexorder"
begin

text \<open>
  \<^verbatim>\<open>retention_store.py\<close>: the revisioned retention policy, previews that confirm a shortening, cleanup jobs and
  the leased batches that delete expired rows.  Instants are rational seconds; the ISO texts the source compares are all
  in UTC, so that their order is the order of the instants.  \<open>None\<close> as a row's time is a text \<^verbatim>\<open>julianday\<close> rejects.
\<close>

section \<open>State\<close>

datatype table = Logs | Events | Invocation_audits

definition TABLES :: "table list" where
  "TABLES = [Logs, Events, Invocation_audits]"

datatype payload_mode = Metadata_only | Redacted

record policy_values =
  days :: "table \<Rightarrow> int"
  payload_mode :: payload_mode

record entry =
  en_id :: pystr
  en_created :: "rat option"

datatype job_state = Queued | Running | Retry | Succeeded | Cancelled | Failed

record job =
  j_id :: pystr
  j_revision :: int
  j_cutoffs :: "table \<Rightarrow> rat"
  j_state :: job_state
  j_counts :: "table \<Rightarrow> nat"
  j_created :: rat
  j_cancel :: bool
  j_attempts :: nat
  j_retry_at :: rat
  j_error :: "pystr option"
  j_actor :: pystr

record preview_data =
  pv_id :: pystr
  pv_revision :: int
  pv_policy :: policy_values
  pv_cutoffs :: "table \<Rightarrow> rat"
  pv_counts :: "table \<Rightarrow> nat"
  pv_expires :: rat
  pv_shortened :: "table list"

record retention =
  r_revision :: int
  r_policy :: policy_values
  r_jobs :: "job list"
  lease_owner :: "pystr option"
  lease_expires :: rat
  r_tables :: "table \<Rightarrow> entry list"
  r_previews :: "(pystr \<times> preview_data) list"

datatype retention_error = Value_invalid | Conflict string | Job_missing | Id_collision

section \<open>Policy\<close>

definition days_key :: "table \<Rightarrow> pystr" where
  "days_key t = (case t of Logs \<Rightarrow> lit ''logs_days'' | Events \<Rightarrow> lit ''events_days'' | Invocation_audits \<Rightarrow> lit ''invocation_audits_days'')"

definition days_field :: "dict \<Rightarrow> table \<Rightarrow> int option" where
  "days_field d t = (case dict_get d (days_key t) of Some (PInt n) \<Rightarrow> if 1 \<le> n \<and> n \<le> 3650 then Some n else None | _ \<Rightarrow> None)"

definition payload_field :: "dict \<Rightarrow> payload_mode option" where
  "payload_field d =
     (case dict_get d (lit ''payload_mode'') of
        Some (PStr s) \<Rightarrow> if s = lit ''metadata_only'' then Some Metadata_only else if s = lit ''redacted'' then Some Redacted else None
      | _ \<Rightarrow> None)"

definition validate :: "dict \<Rightarrow> retention_error + policy_values" where
  "validate d =
     (if fst ` set d \<noteq> {PStr (lit ''logs_days''), PStr (lit ''events_days''), PStr (lit ''invocation_audits_days''), PStr (lit ''payload_mode'')}
      then Inl Value_invalid
      else case (days_field d Logs, days_field d Events, days_field d Invocation_audits, payload_field d) of
             (Some a, Some b, Some c, Some m) \<Rightarrow>
               Inr \<lparr>days = (\<lambda>t. case t of Logs \<Rightarrow> a | Events \<Rightarrow> b | Invocation_audits \<Rightarrow> c), payload_mode = m\<rparr>
           | _ \<Rightarrow> Inl Value_invalid)"

definition shortens :: "policy_values \<Rightarrow> policy_values \<Rightarrow> table list" where
  "shortens new old = filter (\<lambda>t. days new t < days old t) TABLES"

definition save_policy :: "rat \<Rightarrow> retention \<Rightarrow> int \<Rightarrow> dict \<Rightarrow> pystr option \<Rightarrow> bool \<Rightarrow> retention_error + retention" where
  "save_policy now st expected d preview_id confirmed =
     bindR (validate d) (\<lambda>v.
       if r_revision st \<noteq> expected then Inl (Conflict ''policy_revision_changed'')
       else if shortens v (r_policy st) \<noteq> []
               \<and> (case map_of (r_previews st) (case preview_id of None \<Rightarrow> [] | Some i \<Rightarrow> i) of
                    None \<Rightarrow> True
                  | Some p \<Rightarrow> \<not> confirmed \<or> pv_revision p \<noteq> expected \<or> pv_policy p \<noteq> v \<or> pv_expires p \<le> now)
       then Inl (Conflict ''shortening_confirmation_required'')
       else Inr (st\<lparr>r_revision := r_revision st + 1, r_policy := v\<rparr>))"

section \<open>Preview and enqueue\<close>

definition expired :: "rat \<Rightarrow> entry \<Rightarrow> bool" where
  "expired cutoff r = (case en_created r of None \<Rightarrow> False | Some t \<Rightarrow> t < cutoff)"

definition cutoffs_at :: "rat \<Rightarrow> policy_values \<Rightarrow> table \<Rightarrow> rat" where
  "cutoffs_at instant v t = instant - 86400 * of_int (days v t)"

definition make_preview :: "rat \<Rightarrow> pystr \<Rightarrow> retention \<Rightarrow> policy_values \<Rightarrow> preview_data" where
  "make_preview instant uuid st v =
     \<lparr>pv_id = uuid, pv_revision = r_revision st, pv_policy = v, pv_cutoffs = cutoffs_at instant v,
      pv_counts = (\<lambda>t. length (filter (expired (cutoffs_at instant v t)) (r_tables st t))),
      pv_expires = instant + 300, pv_shortened = shortens v (r_policy st)\<rparr>"

text \<open>The bounded dictionary of previews: expired ones go, and the oldest one when 256 remain.\<close>

definition keep_preview :: "rat \<Rightarrow> preview_data \<Rightarrow> (pystr \<times> preview_data) list \<Rightarrow> (pystr \<times> preview_data) list" where
  "keep_preview instant p ps =
     (let live = filter (\<lambda>(k, x). pv_expires x > instant) ps;
          room = (if length live \<ge> 256 then tl live else live)
      in AList.update (pv_id p) p room)"

definition preview :: "rat \<Rightarrow> pystr \<Rightarrow> retention \<Rightarrow> dict option \<Rightarrow> retention_error + retention \<times> preview_data" where
  "preview instant uuid st d =
     bindR (case d of None \<Rightarrow> Inr (r_policy st) | Some x \<Rightarrow> validate x) (\<lambda>v.
       (let p = make_preview instant uuid st v
        in Inr (st\<lparr>r_previews := keep_preview instant p (r_previews st)\<rparr>, p)))"

definition active :: "job \<Rightarrow> bool" where
  "active j \<longleftrightarrow> j_state j \<in> {Queued, Running, Retry}"

definition new_job :: "pystr \<Rightarrow> preview_data \<Rightarrow> int \<Rightarrow> rat \<Rightarrow> pystr \<Rightarrow> job" where
  "new_job uuid p rev0 instant actor =
     \<lparr>j_id = uuid, j_revision = rev0, j_cutoffs = pv_cutoffs p, j_state = Queued, j_counts = (\<lambda>_. 0), j_created = instant,
      j_cancel = False, j_attempts = 0, j_retry_at = 0, j_error = None, j_actor = actor\<rparr>"

definition enqueue :: "rat \<Rightarrow> pystr \<Rightarrow> retention \<Rightarrow> pystr \<Rightarrow> int \<Rightarrow> pystr \<Rightarrow> retention_error + retention \<times> pystr" where
  "enqueue instant uuid st preview_id rev0 actor =
     (case map_of (r_previews st) preview_id of
        None \<Rightarrow> Inl (Conflict ''preview_expired_or_changed'')
      | Some p \<Rightarrow>
          if pv_expires p \<le> instant \<or> pv_revision p \<noteq> rev0 then Inl (Conflict ''preview_expired_or_changed'')
          else if r_revision st \<noteq> rev0 then Inl (Conflict ''policy_revision_changed'')
          else if r_policy st \<noteq> pv_policy p then Inl (Conflict ''save_policy_then_preview_again'')
          else if \<exists>j \<in> set (r_jobs st). active j then Inl (Conflict ''cleanup_already_active'')
          else if uuid \<in> j_id ` set (r_jobs st) then Inl Id_collision
          else Inr (st\<lparr>r_jobs := r_jobs st @ [new_job uuid p rev0 instant actor],
                       r_previews := AList.delete preview_id (r_previews st)\<rparr>, uuid))"

definition find_job :: "retention \<Rightarrow> pystr \<Rightarrow> job option" where
  "find_job st i = find_row (\<lambda>j. j_id j = i) (r_jobs st)"

definition update_jobs :: "(job \<Rightarrow> bool) \<Rightarrow> (job \<Rightarrow> job) \<Rightarrow> retention \<Rightarrow> retention" where
  "update_jobs p f st = st\<lparr>r_jobs := update_rows p f (r_jobs st)\<rparr>"

definition cancel :: "retention \<Rightarrow> pystr \<Rightarrow> retention \<times> (retention_error + job)" where
  "cancel st i =
     (let st' = update_jobs (\<lambda>j. j_id j = i \<and> active j) (\<lambda>j. j\<lparr>j_cancel := True, j_state := Cancelled\<rparr>) st
      in (st', case find_job st' i of None \<Rightarrow> Inl Job_missing | Some j \<Rightarrow> Inr j))"

section \<open>Batches\<close>

definition release_lease :: "retention \<Rightarrow> retention" where
  "release_lease st = st\<lparr>lease_owner := None, lease_expires := 0\<rparr>"

definition lease_blocks :: "retention \<Rightarrow> pystr \<Rightarrow> rat \<Rightarrow> bool" where
  "lease_blocks st owner now \<longleftrightarrow> lease_owner st \<notin> {None, Some owner} \<and> lease_expires st > now"

text \<open>\<^verbatim>\<open>ORDER BY created_at,id LIMIT 1\<close>.\<close>

definition due_job :: "retention \<Rightarrow> rat \<Rightarrow> job option" where
  "due_job st now =
     (case sort_key (\<lambda>j. (j_created j, j_id j)) (filter (\<lambda>j. active j \<and> j_retry_at j \<le> now) (r_jobs st)) of
        [] \<Rightarrow> None | j # _ \<Rightarrow> Some j)"

definition batch_ids :: "nat \<Rightarrow> rat \<Rightarrow> entry list \<Rightarrow> pystr list" where
  "batch_ids n cutoff rows = map en_id (take n (sort_key (\<lambda>r. (the (en_created r), en_id r)) (filter (expired cutoff) rows)))"

definition delete_batch :: "nat \<Rightarrow> rat \<Rightarrow> entry list \<Rightarrow> entry list" where
  "delete_batch n cutoff rows = filter (\<lambda>r. en_id r \<notin> set (batch_ids n cutoff rows)) rows"

text \<open>The loop over the tables stops at the first one that lost rows.\<close>

fun sweep :: "nat \<Rightarrow> job \<Rightarrow> table list \<Rightarrow> retention \<Rightarrow> retention" where
  "sweep n j [] st =
     release_lease (update_jobs (\<lambda>x. j_id x = j_id j) (\<lambda>x. x\<lparr>j_state := Succeeded\<rparr>) st)"
| "sweep n j (t # ts) st =
     (let rows = r_tables st t; rows' = delete_batch n (j_cutoffs j t) rows; gone = length rows - length rows'
      in if gone = 0 then sweep n j ts st
         else update_jobs (\<lambda>x. j_id x = j_id j) (\<lambda>x. x\<lparr>j_counts := (j_counts j)(t := j_counts j t + gone)\<rparr>)
                (st\<lparr>r_tables := (r_tables st)(t := rows')\<rparr>))"

definition start_batch :: "pystr \<Rightarrow> rat \<Rightarrow> job \<Rightarrow> retention \<Rightarrow> retention" where
  "start_batch owner now j st =
     update_jobs (\<lambda>x. j_id x = j_id j) (\<lambda>x. x\<lparr>j_state := Running, j_error := None\<rparr>)
       (st\<lparr>lease_owner := Some owner, lease_expires := now + 30\<rparr>)"

definition stop_job :: "job \<Rightarrow> retention \<Rightarrow> retention" where
  "stop_job j st =
     release_lease (update_jobs (\<lambda>x. j_id x = j_id j)
       (\<lambda>x. x\<lparr>j_state := Cancelled, j_error := Some (lit ''policy_changed_or_cancelled'')\<rparr>) st)"

definition run_batch :: "rat \<Rightarrow> retention \<Rightarrow> pystr \<Rightarrow> int \<Rightarrow> retention_error + retention \<times> pystr option" where
  "run_batch now st owner batch_size =
     (if \<not> (1 \<le> batch_size \<and> batch_size \<le> 1000) then Inl Value_invalid
      else if lease_blocks st owner now then Inr (st, None)
      else case due_job st now of
             None \<Rightarrow> Inr (if lease_owner st = Some owner then release_lease st else st, None)
           | Some j \<Rightarrow>
               if j_cancel j \<or> r_revision st \<noteq> j_revision j then Inr (stop_job j st, Some (j_id j))
               else Inr (sweep (nat batch_size) j TABLES (start_batch owner now j st), Some (j_id j)))"

definition retry_failure :: "rat \<Rightarrow> retention \<Rightarrow> pystr \<Rightarrow> retention" where
  "retry_failure now st owner =
     (if lease_blocks st owner now then st
      else release_lease
        (case due_job st now of
           None \<Rightarrow> st
         | Some j \<Rightarrow> update_jobs (\<lambda>x. j_id x = j_id j)
             (\<lambda>x. x\<lparr>j_attempts := j_attempts x + 1, j_state := (if j_attempts x \<ge> 2 then Failed else Retry),
                j_retry_at := now + 5, j_error := Some (lit ''cleanup_batch_failed'')\<rparr>) st))"

section \<open>Operations as steps\<close>

datatype retention_op =
    Save_op rat int dict "pystr option" bool
  | Preview_op rat pystr "dict option"
  | Enqueue_op rat pystr pystr int pystr
  | Cancel_op pystr
  | Batch_op rat pystr int
  | Retry_op rat pystr
  | Record_op table entry
  | Restart_op

text \<open>A call that raises keeps the state; \<open>Record_op\<close> is a new log, event or audit row, whose id is a primary key.\<close>

definition kept_by :: "retention \<Rightarrow> 'e + retention \<Rightarrow> retention" where
  "kept_by st r = (case r of Inl _ \<Rightarrow> st | Inr st' \<Rightarrow> st')"

fun retention_exec :: "retention_op \<Rightarrow> retention \<Rightarrow> retention" where
  "retention_exec (Save_op now expected d pid confirmed) st = kept_by st (save_policy now st expected d pid confirmed)"
| "retention_exec (Preview_op now uuid d) st = kept_by st (bindR (preview now uuid st d) (\<lambda>x. Inr (fst x)))"
| "retention_exec (Enqueue_op now uuid pid rev0 actor) st = kept_by st (bindR (enqueue now uuid st pid rev0 actor) (\<lambda>x. Inr (fst x)))"
| "retention_exec (Cancel_op i) st = fst (cancel st i)"
| "retention_exec (Batch_op now owner n) st = kept_by st (bindR (run_batch now st owner n) (\<lambda>x. Inr (fst x)))"
| "retention_exec (Retry_op now owner) st = retry_failure now st owner"
| "retention_exec (Record_op t r) st =
     (if en_id r \<in> en_id ` set (r_tables st t) then st else st\<lparr>r_tables := (r_tables st)(t := r_tables st t @ [r])\<rparr>)"
| "retention_exec Restart_op st = st\<lparr>r_previews := []\<rparr>"

definition retention_run :: "retention_op list \<Rightarrow> retention \<Rightarrow> retention" where
  "retention_run ops st = fold retention_exec ops st"

text \<open>The rows the migration inserts.\<close>

definition fresh_retention :: retention where
  "fresh_retention = \<lparr>r_revision = 1, r_policy = \<lparr>days = (\<lambda>_. 7), payload_mode = Metadata_only\<rparr>, r_jobs = [], lease_owner = None,
     lease_expires = 0, r_tables = (\<lambda>_. []), r_previews = []\<rparr>"

section \<open>Invariant\<close>

definition values_ok :: "policy_values \<Rightarrow> bool" where
  "values_ok v \<longleftrightarrow> (\<forall>t. 1 \<le> days v t \<and> days v t \<le> 3650)"

definition preview_ok :: "int \<Rightarrow> preview_data \<Rightarrow> bool" where
  "preview_ok revn p \<longleftrightarrow> pv_cutoffs p = cutoffs_at (pv_expires p - 300) (pv_policy p) \<and> values_ok (pv_policy p) \<and> pv_revision p \<le> revn"

definition one_active :: "job list \<Rightarrow> bool" where
  "one_active js \<longleftrightarrow> (\<forall>a \<in> set js. \<forall>b \<in> set js. active a \<and> active b \<longrightarrow> a = b)"

definition jobs_ok :: "int \<Rightarrow> job list \<Rightarrow> bool" where
  "jobs_ok revn js \<longleftrightarrow> distinct (map j_id js) \<and> one_active js \<and> (\<forall>j \<in> set js. j_revision j \<le> revn)"

definition retention_ok :: "retention \<Rightarrow> bool" where
  "retention_ok st \<longleftrightarrow>
     values_ok (r_policy st)
     \<and> length (r_previews st) \<le> 256 \<and> (\<forall>p \<in> snd ` set (r_previews st). preview_ok (r_revision st) p)
     \<and> jobs_ok (r_revision st) (r_jobs st)
     \<and> (\<forall>t. distinct (map en_id (r_tables st t)))"

lemma validate_ok: "validate d = Inr v \<Longrightarrow> values_ok v"
proof -
  assume "validate d = Inr v"
  then obtain a b c m where f: "days_field d Logs = Some a" "days_field d Events = Some b" "days_field d Invocation_audits = Some c"
    and v: "v = \<lparr>days = (\<lambda>t. case t of Logs \<Rightarrow> a | Events \<Rightarrow> b | Invocation_audits \<Rightarrow> c), payload_mode = m\<rparr>"
    by (auto simp: validate_def split: if_splits option.splits)
  have bounds: "days_field d t = Some n \<Longrightarrow> 1 \<le> n \<and> n \<le> 3650" for t n
    by (auto simp: days_field_def split: option.splits pyval.splits if_splits)
  show ?thesis
    using bounds [OF f(1)] bounds [OF f(2)] bounds [OF f(3)] by (simp add: values_ok_def v split: table.split)
qed

text \<open>A job edit that keeps id, revision, cutoffs and creation and activates nothing.\<close>

definition job_edit :: "job list \<Rightarrow> (job \<Rightarrow> bool) \<Rightarrow> (job \<Rightarrow> job) \<Rightarrow> bool" where
  "job_edit js p f \<longleftrightarrow> (\<forall>j \<in> set js. p j \<longrightarrow> j_id (f j) = j_id j \<and> j_revision (f j) = j_revision j \<and> j_cutoffs (f j) = j_cutoffs j
     \<and> j_created (f j) = j_created j \<and> (active (f j) \<longrightarrow> active j))"

lemma jobs_ok_update:
  assumes ok: "jobs_ok revn js" and e: "job_edit js p f"
  shows "jobs_ok revn (update_rows p f js)"
proof -
  let ?g = "\<lambda>j. if p j then f j else j"
  have g: "j_id (?g j) = j_id j" "j_revision (?g j) = j_revision j" "j_cutoffs (?g j) = j_cutoffs j" "j_created (?g j) = j_created j"
    "active (?g j) \<Longrightarrow> active j" if "j \<in> set js" for j
    using e that by (auto simp: job_edit_def split: if_splits)
  have "map j_id (update_rows p f js) = map j_id js"
    unfolding update_rows_def using g(1) by simp
  moreover have "one_active (update_rows p f js)"
    unfolding one_active_def update_rows_def set_map
  proof (intro ballI impI)
    fix a b assume "a \<in> ?g ` set js" "b \<in> ?g ` set js" and ab: "active a \<and> active b"
    then obtain x y where x: "x \<in> set js" "a = ?g x" and y: "y \<in> set js" "b = ?g y" by blast
    have "active x" "active y" using ab g(5) [OF x(1)] g(5) [OF y(1)] unfolding x(2) y(2) by blast+
    then have "x = y" using ok x(1) y(1) unfolding jobs_ok_def one_active_def by blast
    then show "a = b" unfolding x(2) y(2) by simp
  qed
  moreover have "\<forall>j \<in> set (update_rows p f js). j_revision j \<le> revn"
    unfolding update_rows_def set_map using ok g(2) by (metis (no_types, lifting) imageE jobs_ok_def)
  ultimately show ?thesis using ok by (simp add: jobs_ok_def)
qed

lemma sort_key_head: "sort_key f xs = y # ys \<Longrightarrow> y \<in> set xs"
  by (metis list.set_intros(1) set_sort)

lemma due_job_mem: "due_job st now = Some j \<Longrightarrow> j \<in> set (r_jobs st) \<and> active j \<and> j_retry_at j \<le> now"
  by (auto simp: due_job_def split: list.splits dest!: sort_key_head)

text \<open>Edits of the one job with the due job's id: it is that job, hence active already.\<close>

lemma due_job_edit:
  assumes "jobs_ok revn (r_jobs st)" "due_job st now = Some j"
    and "\<And>x. j_id (f x) = j_id x \<and> j_revision (f x) = j_revision x \<and> j_cutoffs (f x) = j_cutoffs x \<and> j_created (f x) = j_created x"
  shows "job_edit (r_jobs st) (\<lambda>x. j_id x = j_id j) f"
proof -
  have "active x" if "x \<in> set (r_jobs st)" "j_id x = j_id j" for x
    using due_job_mem [OF assms(2)] assms(1) that unique_key_eq [of j_id "r_jobs st" x j] by (auto simp: jobs_ok_def)
  then show ?thesis using assms(3) by (simp add: job_edit_def)
qed

lemma alist_update_bounds: "length (AList.update k v al) \<le> Suc (length al)" "snd ` set (AList.update k v al) \<subseteq> insert v (snd ` set al)"
  by (induction al) auto

lemma save_policy_ok: "retention_ok st \<Longrightarrow> save_policy now st expected d pid confirmed = Inr st' \<Longrightarrow> retention_ok st'"
proof -
  assume ok: "retention_ok st" and run: "save_policy now st expected d pid confirmed = Inr st'"
  obtain v where v: "values_ok v" "st' = st\<lparr>r_revision := r_revision st + 1, r_policy := v\<rparr>"
    using run validate_ok by (auto simp: save_policy_def split: if_splits)
  have "preview_ok (r_revision st + 1) p" if "preview_ok (r_revision st) p" for p using that by (simp add: preview_ok_def)
  with ok v(1) show ?thesis by (fastforce simp: v(2) retention_ok_def jobs_ok_def)
qed

lemma keep_preview_ok:
  assumes "length ps \<le> 256" "\<forall>x \<in> snd ` set ps. preview_ok revn x" "preview_ok revn p"
  shows "length (keep_preview now p ps) \<le> 256 \<and> (\<forall>x \<in> snd ` set (keep_preview now p ps). preview_ok revn x)"
proof -
  let ?live = "filter (\<lambda>(k, x). pv_expires x > now) ps"
  let ?room = "if length ?live \<ge> 256 then tl ?live else ?live"
  have "length ?live \<le> 256" using assms(1) by (rule le_trans [OF length_filter_le])
  then have len: "length ?room \<le> 255" by auto
  have tl: "set (tl xs) \<subseteq> set xs" for xs :: "(pystr \<times> preview_data) list" by (cases xs) auto
  have sub: "set ?room \<subseteq> set ps" using tl [of ?live] by auto
  have eq: "keep_preview now p ps = AList.update (pv_id p) p ?room" by (simp add: keep_preview_def Let_def)
  have "length (keep_preview now p ps) \<le> 256"
    unfolding eq using alist_update_bounds(1) [of "pv_id p" p ?room] len by linarith
  moreover have "preview_ok revn x" if "x \<in> snd ` set (keep_preview now p ps)" for x
  proof -
    have "x \<in> insert p (snd ` set ?room)" using that alist_update_bounds(2) [of "pv_id p" p ?room] unfolding eq by blast
    then show ?thesis using assms(2,3) sub by blast
  qed
  ultimately show ?thesis by blast
qed

lemma preview_step_ok: "retention_ok st \<Longrightarrow> preview now uuid st d = Inr (st', p) \<Longrightarrow> retention_ok st'"
proof -
  assume ok: "retention_ok st" and run: "preview now uuid st d = Inr (st', p)"
  obtain v where v: "values_ok v" "p = make_preview now uuid st v" "st' = st\<lparr>r_previews := keep_preview now p (r_previews st)\<rparr>"
    using run ok validate_ok by (cases d) (auto simp: preview_def Let_def retention_ok_def)
  have "preview_ok (r_revision st) p" using v(1) by (simp add: v(2) make_preview_def preview_ok_def)
  with ok keep_preview_ok [of "r_previews st" "r_revision st" p now] show ?thesis
    unfolding v(3) by (simp add: retention_ok_def)
qed

lemma map_of_preview_ok: "retention_ok st \<Longrightarrow> map_of (r_previews st) k = Some p \<Longrightarrow> preview_ok (r_revision st) p"
  using map_of_SomeD by (force simp: retention_ok_def)

lemma enqueue_ok: "retention_ok st \<Longrightarrow> enqueue now uuid st pid rev0 actor = Inr (st', i) \<Longrightarrow> retention_ok st'"
proof -
  assume ok: "retention_ok st" and run: "enqueue now uuid st pid rev0 actor = Inr (st', i)"
  obtain p where p: "map_of (r_previews st) pid = Some p" "now < pv_expires p" "r_revision st = rev0" "r_policy st = pv_policy p"
    and none: "\<forall>j \<in> set (r_jobs st). \<not> active j" "uuid \<notin> j_id ` set (r_jobs st)"
    and st': "st' = st\<lparr>r_jobs := r_jobs st @ [new_job uuid p rev0 now actor], r_previews := AList.delete pid (r_previews st)\<rparr>"
    using run by (auto simp: enqueue_def split: option.splits if_splits)
  have "jobs_ok (r_revision st) (r_jobs st @ [new_job uuid p rev0 now actor])"
    using ok none p(3) by (auto simp: retention_ok_def jobs_ok_def one_active_def) (auto simp: new_job_def)
  moreover have "length (AList.delete pid (r_previews st)) \<le> 256" "snd ` set (AList.delete pid (r_previews st)) \<subseteq> snd ` set (r_previews st)"
    using ok by (auto simp: retention_ok_def AList.delete_eq intro: le_trans [OF length_filter_le])
  moreover have "\<forall>x \<in> snd ` set (r_previews st). preview_ok (r_revision st) x" using ok by (simp add: retention_ok_def)
  ultimately have "\<forall>x \<in> snd ` set (AList.delete pid (r_previews st)). preview_ok (r_revision st) x" by blast
  then show ?thesis
    using ok \<open>jobs_ok _ (_ @ _)\<close> \<open>length (AList.delete _ _) \<le> 256\<close> unfolding st' by (simp add: retention_ok_def)
qed

lemma update_jobs_ok: "retention_ok st \<Longrightarrow> job_edit (r_jobs st) p f \<Longrightarrow> retention_ok (update_jobs p f st)"
  by (simp add: retention_ok_def update_jobs_def jobs_ok_update)

lemma release_lease_ok [simp]: "retention_ok (release_lease st) = retention_ok st"
  by (simp add: retention_ok_def release_lease_def)

lemma cancel_ok: "retention_ok st \<Longrightarrow> retention_ok (fst (cancel st i))"
  by (simp add: cancel_def Let_def update_jobs_ok job_edit_def active_def)

lemma distinct_delete_batch: "distinct (map en_id rows) \<Longrightarrow> distinct (map en_id (delete_batch n c rows))"
  by (simp add: delete_batch_def distinct_map_filter)

lemma sweep_ok:
  assumes "retention_ok st" "j \<in> set (r_jobs st)" "active j"
  shows "retention_ok (sweep n j ts st)"
  using assms
proof (induction ts)
  case Nil
  have "job_edit (r_jobs st) (\<lambda>x. j_id x = j_id j) (\<lambda>x. x\<lparr>j_state := Succeeded\<rparr>)" by (simp add: job_edit_def active_def)
  then show ?case using Nil update_jobs_ok by simp
next
  case (Cons t ts)
  let ?rows' = "delete_batch n (j_cutoffs j t) (r_tables st t)"
  have ok: "retention_ok (st\<lparr>r_tables := (r_tables st)(t := ?rows')\<rparr>)"
    using Cons.prems(1) distinct_delete_batch by (simp add: retention_ok_def)
  have edit: "job_edit (r_jobs (st\<lparr>r_tables := (r_tables st)(t := ?rows')\<rparr>)) (\<lambda>x. j_id x = j_id j) (\<lambda>x. x\<lparr>j_counts := c\<rparr>)" for c
    by (simp add: job_edit_def active_def)
  show ?case using update_jobs_ok [OF ok edit] Cons by (simp add: Let_def)
qed

lemma start_batch_ok:
  assumes "retention_ok st" "due_job st now = Some j"
  shows "retention_ok (start_batch owner now j st)"
proof -
  have ok: "retention_ok (st\<lparr>lease_owner := Some owner, lease_expires := now + 30\<rparr>)"
    using assms(1) by (simp add: retention_ok_def)
  have "job_edit (r_jobs st) (\<lambda>x. j_id x = j_id j) (\<lambda>x. x\<lparr>j_state := Running, j_error := None\<rparr>)"
    using assms by (intro due_job_edit) (auto simp: retention_ok_def)
  then show ?thesis
    unfolding start_batch_def using update_jobs_ok [OF ok] by simp
qed

lemma started_job:
  assumes "retention_ok st" "due_job st now = Some j"
  defines "j' \<equiv> j\<lparr>j_state := Running, j_error := None\<rparr>"
  shows "j' \<in> set (r_jobs (start_batch owner now j st))" "active j'"
    "sweep n j' ts st' = sweep n j ts st'"
proof -
  show "j' \<in> set (r_jobs (start_batch owner now j st))"
    using due_job_mem [OF assms(2)] by (auto simp: start_batch_def update_jobs_def set_update_rows j'_def)
  show "active j'" by (simp add: j'_def active_def)
  show "sweep n j' ts st' = sweep n j ts st'"
    by (induction ts) (simp_all add: j'_def Let_def)
qed

lemma run_batch_ok: "retention_ok st \<Longrightarrow> run_batch now st owner n = Inr (st', r) \<Longrightarrow> retention_ok st'"
proof -
  assume ok: "retention_ok st" and run: "run_batch now st owner n = Inr (st', r)"
  show ?thesis
  proof (cases "due_job st now")
    case None
    then show ?thesis using ok run by (auto simp: run_batch_def split: if_splits)
  next
    case (Some j)
    have "job_edit (r_jobs st) (\<lambda>x. j_id x = j_id j) (\<lambda>x. x\<lparr>j_state := Cancelled, j_error := Some (lit ''policy_changed_or_cancelled'')\<rparr>)"
      by (simp add: job_edit_def active_def)
    then have stop: "retention_ok (stop_job j st)" using update_jobs_ok [OF ok] by (simp add: stop_job_def)
    have "retention_ok (sweep (nat n) j TABLES (start_batch owner now j st))"
      using sweep_ok [OF start_batch_ok [OF ok Some] started_job(1,2) [OF ok Some]] started_job(3) [OF ok Some] by metis
    then show ?thesis using ok run Some stop by (auto simp: run_batch_def split: if_splits)
  qed
qed

lemma retry_failure_ok: "retention_ok st \<Longrightarrow> retention_ok (retry_failure now st owner)"
proof -
  assume ok: "retention_ok st"
  have edit: "retention_ok (update_jobs (\<lambda>x. j_id x = j_id j) (\<lambda>x. x\<lparr>j_attempts := j_attempts x + 1,
      j_state := (if j_attempts x \<ge> 2 then Failed else Retry), j_retry_at := now + 5, j_error := Some (lit ''cleanup_batch_failed'')\<rparr>) st)"
    if "due_job st now = Some j" for j
    using ok that by (intro update_jobs_ok due_job_edit) (auto simp: retention_ok_def)
  show ?thesis using ok edit by (auto simp: retry_failure_def split: option.splits)
qed

lemma kept_by_ok: "retention_ok st \<Longrightarrow> (\<And>st'. r = Inr st' \<Longrightarrow> retention_ok st') \<Longrightarrow> retention_ok (kept_by st r)"
  by (cases r) (auto simp: kept_by_def)

lemma retention_exec_ok: "retention_ok st \<Longrightarrow> retention_ok (retention_exec op st)"
proof (cases op)
  case (Save_op now expected d pid confirmed)
  then show "retention_ok st \<Longrightarrow> ?thesis" using save_policy_ok by (auto intro: kept_by_ok)
next
  case (Preview_op now uuid d)
  then show "retention_ok st \<Longrightarrow> ?thesis" using preview_step_ok by (auto intro!: kept_by_ok)
next
  case (Enqueue_op now uuid pid rev0 actor)
  then show "retention_ok st \<Longrightarrow> ?thesis" using enqueue_ok by (auto intro!: kept_by_ok)
next
  case (Cancel_op i)
  then show "retention_ok st \<Longrightarrow> ?thesis" using cancel_ok by simp
next
  case (Batch_op now owner n)
  then show "retention_ok st \<Longrightarrow> ?thesis" using run_batch_ok by (auto intro!: kept_by_ok)
next
  case (Retry_op now owner)
  then show "retention_ok st \<Longrightarrow> ?thesis" using retry_failure_ok by simp
next
  case (Record_op t r)
  then show "retention_ok st \<Longrightarrow> ?thesis" by (simp add: retention_ok_def)
next
  case Restart_op
  then show "retention_ok st \<Longrightarrow> ?thesis" by (simp add: retention_ok_def)
qed

interpretation retention_machine: machine "\<lambda>st. st = fresh_retention" "\<lambda>st op st'. st' = retention_exec op st" retention_ok
proof unfold_locales
  show "retention_ok st" if "st = fresh_retention" for st
    using that by (simp add: fresh_retention_def retention_ok_def values_ok_def jobs_ok_def one_active_def)
  show "retention_ok st'" if "retention_ok st" "st' = retention_exec op st" for st op st'
    using that retention_exec_ok by simp
qed

lemma retention_run_run: "retention_machine.run st ops (retention_run ops st)"
  by (induction ops arbitrary: st) (auto simp: retention_run_def intro: retention_machine.run_Nil retention_machine.run_Cons)

section \<open>What a batch deletes\<close>

lemma batch_ids_spec:
  fixes n cutoff
  assumes "distinct (map en_id rows)"
  defines "ids \<equiv> batch_ids n cutoff rows"
  shows "distinct ids" "length ids = min n (length (filter (expired cutoff) rows))" "set ids \<subseteq> en_id ` set (filter (expired cutoff) rows)"
proof -
  let ?old = "sort_key (\<lambda>r. (the (en_created r), en_id r)) (filter (expired cutoff) rows)"
  have ids: "ids = take n (map en_id ?old)" by (simp add: ids_def batch_ids_def take_map)
  have "inj_on en_id (set rows)" "distinct rows" using assms(1) by (simp_all add: distinct_map)
  then have "distinct (map en_id ?old)" by (simp add: distinct_map inj_on_subset [of en_id "set rows"])
  then show "distinct ids" unfolding ids by (rule distinct_take)
  show "length ids = min n (length (filter (expired cutoff) rows))" by (simp add: ids min.commute)
  have "set ids \<subseteq> set (map en_id ?old)" unfolding ids by (rule set_take_subset)
  then show "set ids \<subseteq> en_id ` set (filter (expired cutoff) rows)" by simp
qed

lemma delete_batch_mem:
  assumes "distinct (map en_id rows)" "x \<in> set rows" "x \<notin> set (delete_batch n cutoff rows)"
  shows "expired cutoff x"
proof -
  have "en_id x \<in> set (batch_ids n cutoff rows)" using assms(2,3) by (simp add: delete_batch_def)
  then obtain y where y: "y \<in> set rows" "expired cutoff y" "en_id y = en_id x" using batch_ids_spec(3) [OF assms(1)] by force
  then have "y = x" using unique_key_eq [OF assms(1) y(1) assms(2)] by simp
  with y show ?thesis by simp
qed

lemma length_delete_batch:
  assumes d: "distinct (map en_id rows)"
  shows "length rows - length (delete_batch n cutoff rows) = min n (length (filter (expired cutoff) rows))"
    "length (delete_batch n cutoff rows) \<le> length rows"
proof -
  let ?ids = "batch_ids n cutoff rows"
  let ?gone = "filter (\<lambda>r. en_id r \<in> set ?ids) rows"
  have dg: "distinct (map en_id ?gone)" using d by (rule distinct_map_filter)
  have "set (map en_id ?gone) = set ?ids" using batch_ids_spec(3) [OF d, of n cutoff] by auto
  then have "length ?gone = length ?ids"
    using distinct_card [OF dg] distinct_card [OF batch_ids_spec(1) [OF d, of n cutoff]] by (simp del: set_map)
  moreover have "length ?gone + length (delete_batch n cutoff rows) = length rows"
    unfolding delete_batch_def by (rule sum_length_filter_compl)
  ultimately show "length rows - length (delete_batch n cutoff rows) = min n (length (filter (expired cutoff) rows))"
    using batch_ids_spec(2) [OF d, of n cutoff] by linarith
  show "length (delete_batch n cutoff rows) \<le> length rows" by (simp add: delete_batch_def)
qed

lemma delete_batch_sub: "set (delete_batch n cutoff rows) \<subseteq> set rows"
  by (auto simp: delete_batch_def)

lemma delete_batch_card:
  assumes d: "distinct (map en_id rows)"
  shows "card (set rows - set (delete_batch n cutoff rows)) \<le> n"
proof -
  have dr: "distinct rows" "distinct (delete_batch n cutoff rows)"
    using d distinct_delete_batch [OF d] by (auto simp: distinct_map)
  have "card (set rows - set (delete_batch n cutoff rows)) = length rows - length (delete_batch n cutoff rows)"
    using card_Diff_subset [OF _ delete_batch_sub] distinct_card [OF dr(1)] distinct_card [OF dr(2)] by simp
  then show ?thesis using length_delete_batch(1) [OF d, of n cutoff] by simp
qed

lemma expired_delete_batch:
  assumes "distinct (map en_id rows)"
  shows "length (filter (expired cutoff) (delete_batch n cutoff rows)) = length (filter (expired cutoff) rows) - min n (length (filter (expired cutoff) rows))"
proof -
  have keep: "filter (\<lambda>r. \<not> expired cutoff r) (delete_batch n cutoff rows) = filter (\<lambda>r. \<not> expired cutoff r) rows"
    unfolding delete_batch_def filter_filter
    using delete_batch_mem [OF assms] by (intro filter_cong refl) (auto simp: delete_batch_def)
  have "length (filter (expired cutoff) xs) + length (filter (\<lambda>r. \<not> expired cutoff r) xs) = length xs" for xs
    by (rule sum_length_filter_compl)
  from this [of rows] this [of "delete_batch n cutoff rows"] arg_cong [OF keep, of length] length_delete_batch [OF assms, of n cutoff]
  show ?thesis by linarith
qed

definition pending :: "retention \<Rightarrow> job \<Rightarrow> nat" where
  "pending st j = sum_list (map (\<lambda>t. length (filter (expired (j_cutoffs j t)) (r_tables st t))) TABLES)"

text \<open>One sweep either shortens exactly one table by at most \<open>n\<close> expired rows, or finds nothing left and closes the job.\<close>

lemma sweep_cases:
  assumes "1 \<le> n" "\<And>t. distinct (map en_id (r_tables st t))"
  obtains (nothing) "\<And>t. t \<in> set ts \<Longrightarrow> filter (expired (j_cutoffs j t)) (r_tables st t) = []"
      "sweep n j ts st = release_lease (update_jobs (\<lambda>x. j_id x = j_id j) (\<lambda>x. x\<lparr>j_state := Succeeded\<rparr>) st)"
  | (deleted) t c where "t \<in> set ts" "filter (expired (j_cutoffs j t)) (r_tables st t) \<noteq> []"
      "sweep n j ts st = update_jobs (\<lambda>x. j_id x = j_id j) (\<lambda>x. x\<lparr>j_counts := c\<rparr>)
         (st\<lparr>r_tables := (r_tables st)(t := delete_batch n (j_cutoffs j t) (r_tables st t))\<rparr>)"
proof -
  have "(\<forall>t \<in> set ts. filter (expired (j_cutoffs j t)) (r_tables st t) = []) \<and>
        sweep n j ts st = release_lease (update_jobs (\<lambda>x. j_id x = j_id j) (\<lambda>x. x\<lparr>j_state := Succeeded\<rparr>) st)
      \<or> (\<exists>t \<in> set ts. \<exists>c. filter (expired (j_cutoffs j t)) (r_tables st t) \<noteq> [] \<and>
        sweep n j ts st = update_jobs (\<lambda>x. j_id x = j_id j) (\<lambda>x. x\<lparr>j_counts := c\<rparr>)
         (st\<lparr>r_tables := (r_tables st)(t := delete_batch n (j_cutoffs j t) (r_tables st t))\<rparr>))"
  proof (induction ts)
    case (Cons t ts)
    let ?old = "filter (expired (j_cutoffs j t)) (r_tables st t)"
    have gone: "length (r_tables st t) - length (delete_batch n (j_cutoffs j t) (r_tables st t)) = min n (length ?old)"
      by (rule length_delete_batch(1) [OF assms(2)])
    show ?case
    proof (cases "?old = []")
      case True
      then have "sweep n j (t # ts) st = sweep n j ts st" using gone by (simp add: Let_def)
      with Cons True show ?thesis by auto
    next
      case False
      then have ne: "length (r_tables st t) - length (delete_batch n (j_cutoffs j t) (r_tables st t)) \<noteq> 0" using assms(1) gone by simp
      have "sweep n j (t # ts) st = update_jobs (\<lambda>x. j_id x = j_id j)
          (\<lambda>x. x\<lparr>j_counts := (j_counts j)(t := j_counts j t + (length (r_tables st t) - length (delete_batch n (j_cutoffs j t) (r_tables st t))))\<rparr>)
          (st\<lparr>r_tables := (r_tables st)(t := delete_batch n (j_cutoffs j t) (r_tables st t))\<rparr>)"
        by (simp only: sweep.simps Let_def ne if_False)
      with False show ?thesis by (intro disjI2 bexI [of _ t] exI conjI) (assumption | simp)+
    qed
  qed simp
  then show thesis
  proof (elim disjE bexE exE conjE)
    assume none: "\<forall>t \<in> set ts. filter (expired (j_cutoffs j t)) (r_tables st t) = []"
      and res: "sweep n j ts st = release_lease (update_jobs (\<lambda>x. j_id x = j_id j) (\<lambda>x. x\<lparr>j_state := Succeeded\<rparr>) st)"
    show thesis by (rule that(1) [OF _ res]) (use none in blast)
  qed (erule (2) that(2))
qed

lemma start_batch_tables [simp]: "r_tables (start_batch owner now j st) = r_tables st"
  by (simp add: start_batch_def update_jobs_def)

lemma sweep_tables:
  assumes "1 \<le> n" "\<And>t. distinct (map en_id (r_tables st t))"
  shows "r_tables (sweep n j ts st) = r_tables st \<or>
    (\<exists>t. r_tables (sweep n j ts st) = (r_tables st)(t := delete_batch n (j_cutoffs j t) (r_tables st t)))"
  by (rule sweep_cases [OF assms, of ts j]) (auto simp: update_jobs_def release_lease_def)

section \<open>Where a job's cutoffs come from\<close>

text \<open>Every preview the store keeps was made by a preview call of the run, for the instant of that call.\<close>

definition previewed :: "retention_op list \<Rightarrow> pystr \<Rightarrow> preview_data \<Rightarrow> bool" where
  "previewed ops k p \<longleftrightarrow> (\<exists>instant d. Preview_op instant k d \<in> set ops
     \<and> pv_cutoffs p = cutoffs_at instant (pv_policy p) \<and> pv_expires p = instant + 300)"

lemma update_rows_previews [simp]:
  "r_previews (update_jobs q f st) = r_previews st" "r_previews (release_lease st) = r_previews st"
  "r_revision (update_jobs q f st) = r_revision st" "r_revision (release_lease st) = r_revision st"
  "r_policy (update_jobs q f st) = r_policy st" "r_policy (release_lease st) = r_policy st"
  by (simp_all add: update_jobs_def release_lease_def)

lemma sweep_keeps [simp]:
  "r_previews (sweep n j ts st) = r_previews st" "r_revision (sweep n j ts st) = r_revision st" "r_policy (sweep n j ts st) = r_policy st"
  by (induction ts) (simp_all add: Let_def)

lemma batch_keeps:
  assumes "run_batch now st owner n = Inr (st', r)"
  shows "r_previews st' = r_previews st" "r_revision st' = r_revision st" "r_policy st' = r_policy st"
  using assms by (auto simp: run_batch_def stop_job_def start_batch_def split: if_splits option.splits)

lemma retry_keeps [simp]:
  "r_previews (retry_failure now st owner) = r_previews st" "r_revision (retry_failure now st owner) = r_revision st"
  "r_policy (retry_failure now st owner) = r_policy st"
  by (simp_all add: retry_failure_def split: option.split)

lemma keep_preview_mem: "(k, x) \<in> set (keep_preview now p ps) \<Longrightarrow> (k, x) \<in> set ps \<or> k = pv_id p \<and> x = p"
proof -
  have upd: "(k, x) \<in> set (AList.update i v al) \<Longrightarrow> (k, x) \<in> set al \<or> k = i \<and> x = v" for i v and al :: "(pystr \<times> preview_data) list"
    by (induction al) (auto split: if_splits)
  have tl: "y \<in> set (tl xs) \<Longrightarrow> y \<in> set xs" for y and xs :: "(pystr \<times> preview_data) list" by (cases xs) auto
  assume "(k, x) \<in> set (keep_preview now p ps)"
  then show ?thesis unfolding keep_preview_def Let_def by (auto dest!: upd tl split: if_splits)
qed

lemma exec_previews:
  assumes "(k, p) \<in> set (r_previews (retention_exec op st))"
  shows "(k, p) \<in> set (r_previews st) \<or> previewed [op] k p"
proof (cases op)
  case (Preview_op instant uuid d)
  then show ?thesis using assms
    by (auto simp: kept_by_def preview_def Let_def previewed_def make_preview_def dest!: keep_preview_mem split: sum.splits)
next
  case (Enqueue_op now uuid pid rev0 actor)
  then show ?thesis using assms
    by (auto simp: kept_by_def enqueue_def AList.delete_eq split: option.splits if_splits)
next
  case (Batch_op now owner n)
  then show ?thesis using assms batch_keeps(1) by (cases "run_batch now st owner n") (auto simp: kept_by_def)
qed (use assms in \<open>auto simp: kept_by_def save_policy_def cancel_def Let_def split: sum.splits if_splits\<close>)

lemma run_previews: "(k, p) \<in> set (r_previews (retention_run ops fresh_retention)) \<Longrightarrow> previewed ops k p"
proof (induction ops rule: rev_induct)
  case (snoc op ops)
  then show ?case
    using exec_previews [of k p op "retention_run ops fresh_retention"] by (auto simp: retention_run_def previewed_def)
qed (simp add: retention_run_def fresh_retention_def)

text \<open>No operation changes the identity or the cutoffs of a job; only a successful \<^verbatim>\<open>enqueue\<close> adds one.\<close>

definition same_job :: "job \<Rightarrow> job \<Rightarrow> bool" where
  "same_job a b \<longleftrightarrow> j_id a = j_id b \<and> j_revision a = j_revision b \<and> j_cutoffs a = j_cutoffs b \<and> j_created a = j_created b"

definition jobs_from :: "job list \<Rightarrow> job list \<Rightarrow> bool" where
  "jobs_from js js' \<longleftrightarrow> (\<forall>j \<in> set js'. \<exists>i \<in> set js. same_job i j)"

lemma jobs_from_refl [simp]: "jobs_from js js"
  by (auto simp: jobs_from_def same_job_def)

lemma jobs_from_trans: "jobs_from a b \<Longrightarrow> jobs_from b c \<Longrightarrow> jobs_from a c"
  unfolding jobs_from_def same_job_def by metis

lemma jobs_from_update: "(\<And>j. same_job j (f j)) \<Longrightarrow> jobs_from (r_jobs st) (r_jobs (update_jobs q f st))"
  by (auto simp: jobs_from_def update_jobs_def set_update_rows same_job_def)

lemma release_lease_jobs [simp]: "r_jobs (release_lease st) = r_jobs st"
  by (simp add: release_lease_def)

lemma jobs_from_sweep: "jobs_from (r_jobs st) (r_jobs (sweep n j ts st))"
proof (induction ts)
  case (Cons t ts)
  have "jobs_from (r_jobs (st\<lparr>r_tables := x\<rparr>)) (r_jobs (update_jobs q (\<lambda>y. y\<lparr>j_counts := c\<rparr>) (st\<lparr>r_tables := x\<rparr>)))" for x q c
    by (rule jobs_from_update) (simp add: same_job_def)
  with Cons show ?case by (simp add: Let_def)
qed (simp add: jobs_from_update same_job_def)

lemma jobs_from_batch:
  assumes "run_batch now st owner n = Inr (st', r)"
  shows "jobs_from (r_jobs st) (r_jobs st')"
proof -
  have "jobs_from (r_jobs (st\<lparr>lease_owner := Some owner, lease_expires := now + 30\<rparr>)) (r_jobs (start_batch owner now j st))" for j
    unfolding start_batch_def by (rule jobs_from_update) (simp add: same_job_def)
  then have start: "jobs_from (r_jobs st) (r_jobs (start_batch owner now j st))" for j by simp
  have "jobs_from (r_jobs st) (r_jobs (stop_job j st))" for j by (simp add: stop_job_def jobs_from_update same_job_def)
  then show ?thesis
    using assms jobs_from_trans [OF start jobs_from_sweep] by (auto simp: run_batch_def split: if_splits option.splits)
qed

lemma exec_jobs:
  "jobs_from (r_jobs st) (r_jobs (retention_exec op st))
   \<or> (\<exists>now uuid pid rev0 actor p. op = Enqueue_op now uuid pid rev0 actor \<and> map_of (r_previews st) pid = Some p \<and> now < pv_expires p
        \<and> r_revision st = rev0 \<and> r_policy st = pv_policy p
        \<and> r_jobs (retention_exec op st) = r_jobs st @ [new_job uuid p rev0 now actor])"
proof (cases op)
  case (Enqueue_op now uuid pid rev0 actor)
  then show ?thesis by (auto simp: kept_by_def enqueue_def split: option.splits)
next
  case (Batch_op now owner n)
  then show ?thesis using jobs_from_batch by (cases "run_batch now st owner n") (auto simp: kept_by_def)
next
  case (Retry_op now owner)
  then show ?thesis by (simp add: retry_failure_def jobs_from_update same_job_def split: option.split)
qed (auto simp: kept_by_def save_policy_def preview_def Let_def cancel_def jobs_from_update same_job_def split: sum.splits if_splits)

text \<open>
  The confirmation behind a job: it was queued by an \<^verbatim>\<open>enqueue\<close> of the run, for a preview made by an earlier call, and it cuts off
  exactly where the policy then in force did at the instant of that preview, less than five minutes before.
\<close>

definition confirmed_job :: "retention_op list \<Rightarrow> job \<Rightarrow> bool" where
  "confirmed_job ops j \<longleftrightarrow> (\<exists>earlier later pid actor instant d st.
     ops = earlier @ Enqueue_op (j_created j) (j_id j) pid (j_revision j) actor # later
     \<and> Preview_op instant pid d \<in> set earlier \<and> j_created j < instant + 300
     \<and> st = retention_run earlier fresh_retention \<and> r_revision st = j_revision j \<and> j_cutoffs j = cutoffs_at instant (r_policy st))"

lemma confirmed_job_append: "confirmed_job ops j \<Longrightarrow> confirmed_job (ops @ ops') j"
  unfolding confirmed_job_def by fastforce

lemma confirmed_job_same: "same_job i j \<Longrightarrow> confirmed_job ops i \<Longrightarrow> confirmed_job ops j"
  by (simp add: confirmed_job_def same_job_def)

lemma run_jobs_confirmed: "j \<in> set (r_jobs (retention_run ops fresh_retention)) \<Longrightarrow> confirmed_job ops j"
proof (induction ops arbitrary: j rule: rev_induct)
  case (snoc op ops)
  let ?st = "retention_run ops fresh_retention"
  have step: "retention_run (ops @ [op]) fresh_retention = retention_exec op ?st" by (simp add: retention_run_def)
  have old: "confirmed_job (ops @ [op]) j" if "i \<in> set (r_jobs ?st)" "same_job i j" for i
    using confirmed_job_append [OF confirmed_job_same [OF that(2) snoc.IH [OF that(1)]]] .
  from exec_jobs [of ?st op] show ?case
  proof (elim disjE exE conjE)
    assume "jobs_from (r_jobs ?st) (r_jobs (retention_exec op ?st))"
    then show ?thesis using snoc.prems old unfolding step jobs_from_def by blast
  next
    fix now uuid pid rev0 actor p
    assume op: "op = Enqueue_op now uuid pid rev0 actor" and p: "map_of (r_previews ?st) pid = Some p" "now < pv_expires p"
      and now: "r_revision ?st = rev0" "r_policy ?st = pv_policy p"
      and jobs: "r_jobs (retention_exec op ?st) = r_jobs ?st @ [new_job uuid p rev0 now actor]"
    show ?thesis
    proof (cases "j \<in> set (r_jobs ?st)")
      case True
      then show ?thesis using old by (simp add: same_job_def)
    next
      case False
      then have j: "j = new_job uuid p rev0 now actor" using snoc.prems unfolding step jobs by simp
      obtain instant d where "Preview_op instant pid d \<in> set ops" "pv_cutoffs p = cutoffs_at instant (pv_policy p)" "pv_expires p = instant + 300"
        using run_previews [OF map_of_SomeD [OF p(1)]] by (auto simp: previewed_def)
      then show ?thesis using p(2) now unfolding confirmed_job_def op j
        by (intro exI [of _ ops] exI [of _ "[]"] exI [of _ pid] exI [of _ actor] exI [of _ instant] exI [of _ d] exI [of _ ?st]) (simp add: new_job_def)
    qed
  qed
qed (simp add: retention_run_def fresh_retention_def)

text \<open>The policy changes only together with its revision, so that the same revision is the same policy.\<close>

lemma exec_revision:
  "r_revision (retention_exec op st) = r_revision st \<and> r_policy (retention_exec op st) = r_policy st
   \<or> r_revision (retention_exec op st) = r_revision st + 1"
proof (cases op)
  case (Batch_op now owner n)
  then show ?thesis using batch_keeps(2,3) by (cases "run_batch now st owner n") (auto simp: kept_by_def)
qed (auto simp: kept_by_def save_policy_def preview_def enqueue_def Let_def cancel_def split: sum.splits option.splits)

lemma run_revision:
  "r_revision st \<le> r_revision (retention_run ops st)
   \<and> (r_revision (retention_run ops st) = r_revision st \<longrightarrow> r_policy (retention_run ops st) = r_policy st)"
proof (induction ops arbitrary: st)
  case (Cons op ops)
  have run: "retention_run (op # ops) st = retention_run ops (retention_exec op st)" by (simp add: retention_run_def)
  show ?case using Cons.IH [of "retention_exec op st"] exec_revision [of op st] unfolding run by auto
qed (simp add: retention_run_def)

lemma confirmed_current:
  assumes "confirmed_job ops j" "j_revision j = r_revision (retention_run ops fresh_retention)"
  shows "\<exists>instant pid d. Preview_op instant pid d \<in> set ops \<and> j_created j < instant + 300
    \<and> j_cutoffs j = cutoffs_at instant (r_policy (retention_run ops fresh_retention))"
proof -
  obtain earlier later pid actor instant d where c: "ops = earlier @ Enqueue_op (j_created j) (j_id j) pid (j_revision j) actor # later"
    "Preview_op instant pid d \<in> set earlier" "j_created j < instant + 300" "r_revision (retention_run earlier fresh_retention) = j_revision j"
    "j_cutoffs j = cutoffs_at instant (r_policy (retention_run earlier fresh_retention))"
    using assms(1) unfolding confirmed_job_def by blast
  have "retention_run ops fresh_retention = retention_run (Enqueue_op (j_created j) (j_id j) pid (j_revision j) actor # later)
      (retention_run earlier fresh_retention)" by (simp add: retention_run_def c(1))
  then have "r_policy (retention_run ops fresh_retention) = r_policy (retention_run earlier fresh_retention)"
    using run_revision [of "retention_run earlier fresh_retention" "Enqueue_op (j_created j) (j_id j) pid (j_revision j) actor # later"] assms(2) c(4) by simp
  with c show ?thesis by (metis Un_iff set_append)
qed

text \<open>
  C23: every reachable state of the retention store is well formed.  After any sequence of policy
  saves, previews, job requests, cancellations, batches, failures, new rows and restarts: retention stays between 1 and
  3,650 days, at most 256 previews are kept, row and job ids are unique, at most one cleanup job is active, and every
  job was queued for a preview that an earlier call of the sequence made less than five minutes before, with exactly the cutoffs of the policy
  in force when it was queued, counted back from the instant of that preview.
\<close>
theorem retention_invariant:
  "retention_ok (retention_run ops fresh_retention)
   \<and> (\<forall>j \<in> set (r_jobs (retention_run ops fresh_retention)). confirmed_job ops j)"
  using retention_machine.run_from_init [OF retention_run_run] run_jobs_confirmed by blast

text \<open>
  C11: cleanup respects the policy and the lease.  In every reachable state, a batch changes nothing while another owner holds an unexpired
  lease; otherwise it adds no rows and removes at most the requested number, all from tables swept for one active, uncancelled
  job of the current policy revision.  Each removed row was older than the current policy's retention for its table at the instant of a
  preview that had been made less than five minutes before the job was queued; hence, as long as no preview was made at an instant after
  the batch's own, it is older than that retention at the batch.
\<close>
theorem run_batch_respects_policy:
  assumes st: "st = retention_run ops fresh_retention" and run: "run_batch now st owner n = Inr (st', r)"
  shows "(lease_blocks st owner now \<longrightarrow> st' = st)
    \<and> (\<forall>t. set (r_tables st' t) \<subseteq> set (r_tables st t))
    \<and> (\<forall>t. card (set (r_tables st t) - set (r_tables st' t)) \<le> nat n)
    \<and> (\<forall>t x. x \<in> set (r_tables st t) - set (r_tables st' t) \<longrightarrow>
        (\<exists>j c instant pid d. j \<in> set (r_jobs st) \<and> active j \<and> \<not> j_cancel j \<and> j_revision j = r_revision st
           \<and> Preview_op instant pid d \<in> set ops \<and> j_created j < instant + 300
           \<and> en_created x = Some c \<and> c < instant - 86400 * of_int (days (r_policy st) t)
           \<and> ((\<forall>i k e. Preview_op i k e \<in> set ops \<longrightarrow> i \<le> now) \<longrightarrow> c < now - 86400 * of_int (days (r_policy st) t))))"
proof -
  have ok: "retention_ok st" using retention_machine.run_from_init [OF retention_run_run] st by blast
  have d: "distinct (map en_id (r_tables st t))" for t using ok by (simp add: retention_ok_def)
  have n: "1 \<le> n" using run by (auto simp: run_batch_def split: if_splits)
  show ?thesis
  proof (cases "r_tables st' = r_tables st")
    case True
    then show ?thesis using run n by (auto simp: run_batch_def split: if_splits)
  next
    case False
    then obtain j where j: "due_job st now = Some j" "\<not> j_cancel j" "r_revision st = j_revision j" "\<not> lease_blocks st owner now"
      and st': "st' = sweep (nat n) j TABLES (start_batch owner now j st)"
      using run by (auto simp: run_batch_def stop_job_def release_lease_def update_jobs_def split: if_splits option.splits)
    have one: "1 \<le> nat n" using n by simp
    have d': "distinct (map en_id (r_tables (start_batch owner now j st) t))" for t using d by simp
    from sweep_tables [OF one d', of j TABLES] False
    obtain t where t: "r_tables st' = (r_tables st)(t := delete_batch (nat n) (j_cutoffs j t) (r_tables st t))"
      unfolding st' by auto
    have mem: "j \<in> set (r_jobs st)" "active j" using due_job_mem [OF j(1)] by auto
    obtain instant pid e where i: "Preview_op instant pid e \<in> set ops" "j_created j < instant + 300" "j_cutoffs j = cutoffs_at instant (r_policy st)"
      using confirmed_current [OF run_jobs_confirmed] mem(1) j(3) unfolding st by metis
    have old: "\<exists>c. en_created x = Some c \<and> c < instant - 86400 * of_int (days (r_policy st) t)"
      if "x \<in> set (r_tables st t)" "x \<notin> set (delete_batch (nat n) (j_cutoffs j t) (r_tables st t))" for x
      using delete_batch_mem [OF d that] i(3) by (auto simp: expired_def cutoffs_at_def split: option.splits)
    have "\<exists>j c instant pid d. j \<in> set (r_jobs st) \<and> active j \<and> \<not> j_cancel j \<and> j_revision j = r_revision st
           \<and> Preview_op instant pid d \<in> set ops \<and> j_created j < instant + 300
           \<and> en_created x = Some c \<and> c < instant - 86400 * of_int (days (r_policy st) t)
           \<and> ((\<forall>i k e. Preview_op i k e \<in> set ops \<longrightarrow> i \<le> now) \<longrightarrow> c < now - 86400 * of_int (days (r_policy st) t))"
      if "x \<in> set (r_tables st t)" "x \<notin> set (delete_batch (nat n) (j_cutoffs j t) (r_tables st t))" for x
    proof -
      note o = old [OF that]
      obtain c where c: "en_created x = Some c" "c < instant - 86400 * of_int (days (r_policy st) t)" using o by blast
      have "c < now - 86400 * of_int (days (r_policy st) t)" if "\<forall>i k e. Preview_op i k e \<in> set ops \<longrightarrow> i \<le> now"
        using c(2) that i(1) by fastforce
      with c i(1,2) mem j(2) j(3) [symmetric] show ?thesis by blast
    qed
    then show ?thesis using j delete_batch_sub [of "nat n"] delete_batch_card [OF d [of t], of "nat n" "j_cutoffs j t"] unfolding t by auto
  qed
qed

definition demo_ops :: "retention_op list" where
  "demo_ops = [Record_op Events \<lparr>en_id = lit ''e'', en_created = Some 5\<rparr>, Preview_op 1000000 (lit ''p'') None,
     Enqueue_op 1000000 (lit ''j'') (lit ''p'') 1 (lit ''a'')]"

definition demo_retention :: retention where
  "demo_retention = fresh_retention\<lparr>r_jobs := [new_job (lit ''j'') (make_preview 1000000 (lit ''p'') fresh_retention (r_policy fresh_retention)) 1 1000000 (lit ''a'')],
     r_tables := (\<lambda>t. if t = Events then [\<lparr>en_id = lit ''e'', en_created = Some 5\<rparr>] else [])\<rparr>"

lemma demo_retention_run: "retention_run demo_ops fresh_retention = demo_retention"
  by (auto simp: retention_run_def demo_ops_def demo_retention_def kept_by_def preview_def enqueue_def make_preview_def keep_preview_def Let_def
      new_job_def fresh_retention_def)

lemma demo_retention_ok: "retention_ok demo_retention"
  using retention_machine.run_from_init [OF retention_run_run] demo_retention_run by metis

theorem retention_invariant_witness:
  "\<exists>j. j \<in> set (r_jobs (retention_run demo_ops fresh_retention)) \<and> active j \<and> confirmed_job demo_ops j"
proof -
  let ?j = "new_job (lit ''j'') (make_preview 1000000 (lit ''p'') fresh_retention (r_policy fresh_retention)) 1 1000000 (lit ''a'')"
  have "?j \<in> set (r_jobs (retention_run demo_ops fresh_retention))" unfolding demo_retention_run by (simp add: demo_retention_def)
  moreover have "active ?j" by (simp add: active_def new_job_def)
  ultimately show ?thesis using retention_invariant [of demo_ops] by blast
qed

theorem run_batch_respects_policy_witness:
  "\<exists>st' r x. run_batch 1000001 (retention_run demo_ops fresh_retention) (lit ''w'') 10 = Inr (st', r) \<and> r = Some (lit ''j'')
     \<and> x \<in> set (r_tables (retention_run demo_ops fresh_retention) Events) - set (r_tables st' Events)
     \<and> (\<exists>c. en_created x = Some c \<and> c < 1000001 - 86400 * 7)"
proof -
  let ?x = "\<lparr>en_id = lit ''e'', en_created = Some 5\<rparr>"
  obtain st' r where run: "run_batch 1000001 demo_retention (lit ''w'') 10 = Inr (st', r)" "r = Some (lit ''j'')" "r_tables st' Events = []"
    by (simp add: run_batch_def lease_blocks_def due_job_def demo_retention_def fresh_retention_def new_job_def active_def sort_key_def
        TABLES_def start_batch_def update_jobs_def delete_batch_def batch_ids_def expired_def make_preview_def cutoffs_at_def Let_def)
  note bound = run_batch_respects_policy [OF refl run(1) [folded demo_retention_run]]
  have x: "?x \<in> set (r_tables (retention_run demo_ops fresh_retention) Events) - set (r_tables st' Events)"
    unfolding demo_retention_run run(3) by (simp add: demo_retention_def)
  have pol: "days (r_policy (retention_run demo_ops fresh_retention)) t = 7" for t
    unfolding demo_retention_run by (simp add: demo_retention_def fresh_retention_def)
  have "\<forall>i k e. Preview_op i k e \<in> set demo_ops \<longrightarrow> i \<le> 1000001" by (auto simp: demo_ops_def)
  with bound x have "\<exists>c. en_created ?x = Some c \<and> c < 1000001 - 86400 * 7" unfolding pol by auto
  with run x show ?thesis unfolding demo_retention_run by blast
qed

section \<open>Cleanup terminates\<close>

text \<open>One owner runs batches at the given instants.\<close>

fun run_batches :: "rat list \<Rightarrow> pystr \<Rightarrow> int \<Rightarrow> retention \<Rightarrow> retention" where
  "run_batches [] owner n st = st"
| "run_batches (t # ts) owner n st = run_batches ts owner n (kept_by st (bindR (run_batch t st owner n) (\<lambda>x. Inr (fst x))))"

definition finished :: "retention \<Rightarrow> pystr \<Rightarrow> bool" where
  "finished st i = (case find_job st i of None \<Rightarrow> False | Some j \<Rightarrow> j_state j \<in> {Succeeded, Cancelled})"

lemma find_job_iff: "retention_ok st \<Longrightarrow> find_job st i = Some j \<longleftrightarrow> j \<in> set (r_jobs st) \<and> j_id j = i"
  using unique_key_find [of j_id "r_jobs st" j] by (auto simp: find_job_def retention_ok_def jobs_ok_def dest: find_row_SomeD)

lemma only_due:
  assumes ok: "retention_ok st" and j: "j \<in> set (r_jobs st)" "active j" "j_retry_at j \<le> now"
  shows "due_job st now = Some j"
proof -
  let ?due = "filter (\<lambda>x. active x \<and> j_retry_at x \<le> now) (r_jobs st)"
  have "distinct ?due" using ok by (auto simp: retention_ok_def jobs_ok_def distinct_map)
  moreover have "set ?due = {j}" using ok j unfolding retention_ok_def jobs_ok_def one_active_def by auto
  ultimately have "length ?due = 1" using distinct_card [of ?due] by simp
  then obtain y where y: "?due = [y]" by (auto simp: length_Suc_conv)
  then have "set ?due = {y}" by simp
  with \<open>set ?due = {j}\<close> y have "?due = [j]" by simp
  then show ?thesis by (simp add: due_job_def)
qed

lemma update_job_mem:
  assumes ok: "retention_ok st" and j: "j \<in> set (r_jobs st)"
  shows "f j \<in> set (r_jobs (update_jobs (\<lambda>x. j_id x = j_id j) f st))"
  using j by (auto simp: update_jobs_def set_update_rows)

lemma finishedI: "retention_ok st \<Longrightarrow> j \<in> set (r_jobs st) \<Longrightarrow> j_state j \<in> {Succeeded, Cancelled} \<Longrightarrow> finished st (j_id j)"
  using find_job_iff [of st "j_id j" j] by (simp add: finished_def)

lemma pending_delete:
  assumes d: "\<And>t. distinct (map en_id (r_tables st t))" and t: "t \<in> set TABLES" "filter (expired (j_cutoffs j t)) (r_tables st t) \<noteq> []" and n: "1 \<le> n"
    and tabs: "r_tables st' = (r_tables st)(t := delete_batch n (j_cutoffs j t) (r_tables st t))" and cut: "j_cutoffs j' = j_cutoffs j"
  shows "pending st' j' < pending st j"
proof -
  have less: "length (filter (expired (j_cutoffs j t)) (delete_batch n (j_cutoffs j t) (r_tables st t))) < length (filter (expired (j_cutoffs j t)) (r_tables st t))"
    using expired_delete_batch [OF d, of "j_cutoffs j t" n t] t(2) n by (cases "filter (expired (j_cutoffs j t)) (r_tables st t)") auto
  show ?thesis
    by (rule table.exhaust [of t]) (use less in \<open>simp_all add: pending_def TABLES_def tabs cut\<close>)
qed

lemma batch_progress:
  assumes ok: "retention_ok st" and j: "j \<in> set (r_jobs st)" "active j" "j_retry_at j \<le> now" and free: "\<not> lease_blocks st owner now" and n: "1 \<le> n" "n \<le> 1000"
  shows "\<exists>st' r. run_batch now st owner n = Inr (st', r) \<and>
    (finished st' (j_id j) \<or>
     (\<exists>j' \<in> set (r_jobs st'). j_id j' = j_id j \<and> active j' \<and> j_retry_at j' = j_retry_at j \<and> pending st' j' < pending st j \<and> lease_owner st' = Some owner))"
proof -
  have due: "due_job st now = Some j" by (rule only_due [OF ok j])
  have d: "distinct (map en_id (r_tables st t))" for t using ok by (simp add: retention_ok_def)
  show ?thesis
  proof (cases "j_cancel j \<or> r_revision st \<noteq> j_revision j")
    case True
    then have run: "run_batch now st owner n = Inr (stop_job j st, Some (j_id j))"
      using due free n by (simp add: run_batch_def)
    have ok': "retention_ok (stop_job j st)" by (rule run_batch_ok [OF ok run])
    have "j\<lparr>j_state := Cancelled, j_error := Some (lit ''policy_changed_or_cancelled'')\<rparr> \<in> set (r_jobs (stop_job j st))"
      using update_job_mem [OF ok j(1), of "\<lambda>x. x\<lparr>j_state := Cancelled, j_error := Some (lit ''policy_changed_or_cancelled'')\<rparr>"]
      by (simp add: stop_job_def release_lease_def)
    from finishedI [OF ok' this] run show ?thesis by auto
  next
    case False
    let ?st = "start_batch owner now j st" and ?j = "j\<lparr>j_state := Running, j_error := None\<rparr>"
    have run: "run_batch now st owner n = Inr (sweep (nat n) j TABLES ?st, Some (j_id j))"
      using due free n False by (simp add: run_batch_def)
    have ok': "retention_ok (sweep (nat n) j TABLES ?st)" by (rule run_batch_ok [OF ok run])
    have okst: "retention_ok ?st" by (rule start_batch_ok [OF ok due])
    have mem: "?j \<in> set (r_jobs ?st)" by (rule started_job(1) [OF ok due])
    have one: "1 \<le> nat n" using n by simp
    have d': "distinct (map en_id (r_tables ?st t))" for t using d by simp
    show ?thesis
    proof (rule sweep_cases [OF one d', of TABLES j])
      assume res: "sweep (nat n) j TABLES ?st = release_lease (update_jobs (\<lambda>x. j_id x = j_id j) (\<lambda>x. x\<lparr>j_state := Succeeded\<rparr>) ?st)"
      have "?j\<lparr>j_state := Succeeded\<rparr> \<in> set (r_jobs (sweep (nat n) j TABLES ?st))"
        using update_job_mem [OF okst mem, of "\<lambda>x. x\<lparr>j_state := Succeeded\<rparr>"] by (simp add: res release_lease_def)
      from finishedI [OF ok' this] run show ?thesis by auto
    next
      fix t c assume t: "t \<in> set TABLES" "filter (expired (j_cutoffs j t)) (r_tables ?st t) \<noteq> []"
        and res: "sweep (nat n) j TABLES ?st = update_jobs (\<lambda>x. j_id x = j_id j) (\<lambda>x. x\<lparr>j_counts := c\<rparr>)
          (?st\<lparr>r_tables := (r_tables ?st)(t := delete_batch (nat n) (j_cutoffs j t) (r_tables ?st t))\<rparr>)"
      let ?j' = "?j\<lparr>j_counts := c\<rparr>"
      have in': "?j' \<in> set (r_jobs (sweep (nat n) j TABLES ?st))"
        using mem by (force simp: res update_jobs_def set_update_rows)
      have tabs: "r_tables (sweep (nat n) j TABLES ?st) = (r_tables st)(t := delete_batch (nat n) (j_cutoffs j t) (r_tables st t))"
        by (simp add: res update_jobs_def)
      have cut: "j_cutoffs ?j' = j_cutoffs j" by simp
      have less: "pending (sweep (nat n) j TABLES ?st) ?j' < pending st j"
        by (rule pending_delete [OF d t(1) _ one tabs cut]) (use t(2) in simp)
      have lease: "lease_owner (sweep (nat n) j TABLES ?st) = Some owner"
        unfolding res by (simp add: update_jobs_def start_batch_def)
      have "j_id ?j' = j_id j \<and> active ?j' \<and> j_retry_at ?j' = j_retry_at j \<and> pending (sweep (nat n) j TABLES ?st) ?j' < pending st j
          \<and> lease_owner (sweep (nat n) j TABLES ?st) = Some owner"
        using less lease by (simp add: active_def)
      with in' run show ?thesis by blast
    qed
  qed
qed

lemma finished_stable:
  assumes ok: "retention_ok st" and none: "\<forall>j \<in> set (r_jobs st). \<not> active j"
  shows "r_jobs (run_batches ts owner n st) = r_jobs st"
  using assms
proof (induction ts arbitrary: st)
  case (Cons t ts)
  have "due_job st t = None" using Cons.prems(2) by (auto simp: due_job_def)
  then have eq: "r_jobs (kept_by st (bindR (run_batch t st owner n) (\<lambda>x. Inr (fst x)))) = r_jobs st"
    by (simp add: run_batch_def kept_by_def release_lease_def)
  have ok': "retention_ok (kept_by st (bindR (run_batch t st owner n) (\<lambda>x. Inr (fst x))))"
    using retention_exec_ok [OF Cons.prems(1), of "Batch_op t owner n"] by simp
  show ?case using Cons.IH [OF ok'] eq Cons.prems(2) by simp
qed simp

lemma finished_no_active:
  assumes ok: "retention_ok st" and j: "j \<in> set (r_jobs st)" "active j" and run: "run_batch now st owner n = Inr (st', r)" and f: "finished st' (j_id j)"
  shows "\<forall>x \<in> set (r_jobs st'). \<not> active x"
proof (rule ballI, rule notI)
  fix x assume x: "x \<in> set (r_jobs st')" "active x"
  have ok': "retention_ok st'" by (rule run_batch_ok [OF ok run])
  have ids: "j_id ` {y \<in> set (r_jobs st'). active y} \<subseteq> j_id ` {y \<in> set (r_jobs st). active y}"
  proof (cases "due_job st now")
    case None
    then show ?thesis using run by (auto simp: run_batch_def release_lease_def split: if_splits)
  next
    case (Some d)
    have d: "d \<in> set (r_jobs st)" "active d" using due_job_mem [OF Some] by auto
    have upd: "j_id ` {y \<in> set (update_rows (\<lambda>z. j_id z = j_id d) f js). active y} \<subseteq> insert (j_id d) (j_id ` {y \<in> set js. active y})"
      if "\<And>z. j_id (f z) = j_id z" for f js using that by (auto simp: set_update_rows)
    have sweep: "j_id ` {y \<in> set (r_jobs (sweep k d ts s0)). active y} \<subseteq> insert (j_id d) (j_id ` {y \<in> set (r_jobs s0). active y})" for k ts s0
      by (induction ts) (auto simp: update_jobs_def release_lease_def Let_def set_update_rows)
    have start: "j_id ` {y \<in> set (r_jobs (start_batch owner now d st)). active y} \<subseteq> insert (j_id d) (j_id ` {y \<in> set (r_jobs st). active y})"
      by (auto simp: start_batch_def update_jobs_def set_update_rows)
    have stop: "j_id ` {y \<in> set (r_jobs (stop_job d st)). active y} \<subseteq> insert (j_id d) (j_id ` {y \<in> set (r_jobs st). active y})"
      by (auto simp: stop_job_def release_lease_def update_jobs_def set_update_rows)
    have "j_id ` {y \<in> set (r_jobs st'). active y} \<subseteq> insert (j_id d) (j_id ` {y \<in> set (r_jobs st). active y})"
      using run Some stop subset_trans [OF sweep [of "nat n" TABLES "start_batch owner now d st"], of "insert (j_id d) (j_id ` {y \<in> set (r_jobs st). active y})"] start
      by (auto simp: run_batch_def split: if_splits)
    then show ?thesis using d by blast
  qed
  then obtain y where y: "y \<in> set (r_jobs st)" "active y" "j_id y = j_id x" using x by (smt (verit) imageE image_eqI mem_Collect_eq subsetD)
  then have "y = j" using ok j unfolding retention_ok_def jobs_ok_def one_active_def by blast
  then have "find_job st' (j_id j) = Some x" using find_job_iff [OF ok'] x y by simp
  with f x(2) show False by (auto simp: finished_def active_def)
qed

text \<open>
  C24: cleanup terminates.  When no other owner holds the lease, a worker that keeps running batches of 1 to 1,000 rows,
  at any instants after the job's retry time, ends the active job (succeeded, or cancelled because its policy changed) after at
  most one batch more than there were expired rows, as long as nothing else touches the store.
\<close>
theorem cleanup_terminates:
  assumes ok: "retention_ok st" and j: "j \<in> set (r_jobs st)" "active j" and n: "1 \<le> n" "n \<le> 1000"
    and free: "lease_owner st \<in> {None, Some owner}"
    and times: "list_all (\<lambda>t. j_retry_at j \<le> t) ts" and enough: "pending st j < length ts"
  shows "finished (run_batches ts owner n st) (j_id j)"
  using ok j free times enough
proof (induction ts arbitrary: st j)
  case (Cons t ts)
  have fr: "\<not> lease_blocks st owner t" using Cons.prems(4) by (auto simp: lease_blocks_def)
  have due: "j_retry_at j \<le> t" using Cons.prems(5) by simp
  obtain st' r where run: "run_batch t st owner n = Inr (st', r)"
    and out: "finished st' (j_id j) \<or> (\<exists>j' \<in> set (r_jobs st'). j_id j' = j_id j \<and> active j' \<and> j_retry_at j' = j_retry_at j
      \<and> pending st' j' < pending st j \<and> lease_owner st' = Some owner)"
    using batch_progress [OF Cons.prems(1-3) due fr n] by blast
  have step: "run_batches (t # ts) owner n st = run_batches ts owner n st'" by (simp add: run kept_by_def)
  have ok': "retention_ok st'" by (rule run_batch_ok [OF Cons.prems(1) run])
  show ?case
  proof (cases "finished st' (j_id j)")
    case True
    note none = finished_no_active [OF Cons.prems(1-3) run True]
    have "find_job (run_batches ts owner n st') (j_id j) = find_job st' (j_id j)"
      by (simp add: find_job_def finished_stable [OF ok' none])
    with True show ?thesis unfolding step by (simp add: finished_def)
  next
    case False
    then obtain j' where j': "j' \<in> set (r_jobs st')" "j_id j' = j_id j" "active j'" "j_retry_at j' = j_retry_at j"
      "pending st' j' < pending st j" "lease_owner st' = Some owner" using out by blast
    have "finished (run_batches ts owner n st') (j_id j')"
      using Cons.prems(5,6) j' by (intro Cons.IH [OF ok' j'(1,3)]) simp_all
    then show ?thesis unfolding step j'(2) .
  qed
qed simp

theorem cleanup_terminates_witness:
  "finished (run_batches [1000001, 1000002] (lit ''w'') 10 demo_retention) (lit ''j'')"
proof -
  let ?j = "new_job (lit ''j'') (make_preview 1000000 (lit ''p'') fresh_retention (r_policy fresh_retention)) 1 1000000 (lit ''a'')"
  have j: "?j \<in> set (r_jobs demo_retention)" "active ?j" by (simp_all add: demo_retention_def active_def new_job_def)
  have free: "lease_owner demo_retention \<in> {None, Some (lit ''w'')}" by (simp add: demo_retention_def fresh_retention_def)
  have times: "list_all (\<lambda>t. j_retry_at ?j \<le> t) [1000001, 1000002]" by (simp add: new_job_def)
  have enough: "pending demo_retention ?j < length [1000001, 1000002 :: rat]"
    by (simp add: pending_def TABLES_def demo_retention_def)
  show ?thesis
    using cleanup_terminates [OF demo_retention_ok j _ _ free times enough, of 10] by (simp add: new_job_def)
qed

end
