(* ===== verification/Tool_Registry.thy ===== *)
theory Tool_Registry
  imports Access_Classification "HOL-Library.AList" "HOL-Library.List_Lexorder"
begin

text \<open>
  \<^verbatim>\<open>registry.py\<close>: the registry of tools, its frozen structures, the tools kept as temporarily unavailable, the index of
  MCP tools by server instance and the notices to catalog listeners.  A Python dictionary is an association list in
  insertion order; a bucket of the index that is empty and one that is absent are the same.  \<open>'h\<close> is the type of handlers,
  and \<open>tr_serial\<close>, the registry revision that created a record, stands for the identity of the \<^verbatim>\<open>ToolRecord\<close> object.
\<close>

section \<open>State\<close>

record 'h tool_record =
  tr_definition :: tool_definition
  tr_handler :: 'h
  tr_contextual :: bool
  tr_preparer :: "(pyval \<Rightarrow> unit + pyval) option"
  tr_serial :: nat

record registry_snapshot =
  rs_structure :: frozen_tool
  rs_revision :: nat

record notice =
  nt_changes :: "(pystr \<times> tool_definition option) list"
  nt_retired :: "pystr list"

record 'h registry =
  tools :: "(pystr \<times> 'h tool_record) list"
  rg_revision :: nat
  structures :: "(pystr \<times> frozen_tool) list"
  unavailable :: "(pystr \<times> frozen_tool) list"
  mcp_index :: "pystr \<Rightarrow> (pystr \<times> registry_snapshot) list"
  mcp_revisions :: "pystr \<Rightarrow> nat"
  notices :: "notice list"

datatype registry_error =
    Structure_refused walk_error
  | Already_registered
  | Tool_not_found
  | Identity_changed
  | Metadata_mismatch
  | Source_mismatch
  | Duplicate_tool
  | Other_source "pystr list"
  | Snapshot_capacity

definition empty_registry :: "'h registry" where
  "empty_registry = \<lparr>tools = [], rg_revision = 0, structures = [], unavailable = [], mcp_index = (\<lambda>_. []),
     mcp_revisions = (\<lambda>_. 0), notices = []\<rparr>"

section \<open>The index of MCP tools\<close>

definition instance_of :: "tool_definition \<Rightarrow> pystr option" where
  "instance_of d =
     (if td_source d \<noteq> lit ''mcp'' then None
      else (case meta_get d (lit ''server_id'') of PStr s \<Rightarrow> Some s | _ \<Rightarrow> None))"

definition index_remove :: "'h tool_record \<Rightarrow> 'h registry \<Rightarrow> 'h registry" where
  "index_remove r g =
     (case instance_of (tr_definition r) of
        None \<Rightarrow> g
      | Some i \<Rightarrow> g\<lparr>mcp_revisions := (mcp_revisions g)(i := rg_revision g),
                   mcp_index := (mcp_index g)(i := AList.delete (td_id (tr_definition r)) (mcp_index g i))\<rparr>)"

definition index_add :: "'h tool_record \<Rightarrow> frozen_tool \<Rightarrow> 'h registry \<Rightarrow> 'h registry" where
  "index_add r f g =
     (case instance_of (tr_definition r) of
        None \<Rightarrow> g
      | Some i \<Rightarrow> g\<lparr>mcp_revisions := (mcp_revisions g)(i := rg_revision g),
                   mcp_index := (mcp_index g)(i := AList.update (td_id (tr_definition r))
                     \<lparr>rs_structure = f, rs_revision = rg_revision g\<rparr> (mcp_index g i))\<rparr>)"

definition index_change :: "'h tool_record option \<Rightarrow> ('h tool_record \<times> frozen_tool) option \<Rightarrow> 'h registry \<Rightarrow> 'h registry" where
  "index_change previous current g =
     (let g1 = (case previous of None \<Rightarrow> g | Some r \<Rightarrow> index_remove r g)
      in case current of None \<Rightarrow> g1 | Some (r, f) \<Rightarrow> index_add r f g1)"

text \<open>\<^verbatim>\<open>_notify_catalog\<close> with \<^verbatim>\<open>retired=None\<close> retires exactly the ids whose definition is \<^verbatim>\<open>None\<close>.\<close>

definition notify_catalog :: "(pystr \<times> tool_definition option) list \<Rightarrow> pystr list option \<Rightarrow> 'h registry \<Rightarrow> 'h registry" where
  "notify_catalog changes retired g =
     g\<lparr>notices := notices g @ [\<lparr>nt_changes = changes,
         nt_retired = (case retired of Some ids \<Rightarrow> ids | None \<Rightarrow> map fst (filter (\<lambda>c. snd c = None) changes))\<rparr>]\<rparr>"

text \<open>The call that seeds a new listener; the notices that follow are sent to it.\<close>

definition subscribe_catalog :: "'h registry \<Rightarrow> notice" where
  "subscribe_catalog g = \<lparr>nt_changes = map (\<lambda>(x, r). (x, Some (tr_definition r))) (tools g), nt_retired = []\<rparr>"

section \<open>Publication\<close>

definition new_record :: "'h tool_record \<Rightarrow> frozen_tool \<Rightarrow> nat \<Rightarrow> 'h tool_record" where
  "new_record r f serial = r\<lparr>tr_definition := copy_definition f, tr_serial := serial\<rparr>"

text \<open>The common tail of \<^verbatim>\<open>register\<close> and \<^verbatim>\<open>update_definition\<close>.\<close>

definition publish :: "'h tool_record \<Rightarrow> frozen_tool \<Rightarrow> 'h registry \<Rightarrow> 'h registry" where
  "publish template f g =
     (let g1 = g\<lparr>rg_revision := rg_revision g + 1\<rparr>;
          i = td_id (copy_definition f);
          current = new_record template f (rg_revision g1);
          g2 = index_change (map_of (tools g) i) (Some (current, f)) g1
      in notify_catalog [(i, Some (copy_definition f))] None
           (g2\<lparr>structures := AList.update i f (structures g2), tools := AList.update i current (tools g2)\<rparr>))"

definition register :: "(pyfloat \<Rightarrow> pystr) \<Rightarrow> bool \<Rightarrow> 'h tool_record \<Rightarrow> 'h registry \<Rightarrow> registry_error + 'h registry" where
  "register fr replace template g =
     (case freeze_tool_definition fr (tr_definition template) of
        Inl e \<Rightarrow> Inl (Structure_refused e)
      | Inr f \<Rightarrow>
          (let i = td_id (copy_definition f) in
           if map_of (tools g) i \<noteq> None \<and> \<not> replace then Inl Already_registered
           else Inr (let g1 = publish template f g in g1\<lparr>unavailable := AList.delete i (unavailable g1)\<rparr>)))"

text \<open>Python's \<^verbatim>\<open>==\<close> on JSON values: \<^verbatim>\<open>True\<close> and \<^verbatim>\<open>False\<close> are the numbers 1 and 0, objects compare without order.\<close>

fun py_num :: "pyval \<Rightarrow> rat option" where
  "py_num (PBool b) = Some (if b then 1 else 0)"
| "py_num (PInt i) = Some (of_int i)"
| "py_num (PFloat (Finite q)) = Some q"
| "py_num (PFloat NegZero) = Some 0"
| "py_num _ = None"

function py_eq :: "pyval \<Rightarrow> pyval \<Rightarrow> bool" where
  "py_eq left right =
     (case (left, right) of
        (PDict l, PDict r) \<Rightarrow>
          set (map fst l) = set (map fst r)
          \<and> list_all (\<lambda>(k, v). case map_of r k of Some w \<Rightarrow> py_eq v w | None \<Rightarrow> False) l
      | (PList l, PList r) \<Rightarrow> length l = length r \<and> list_all (\<lambda>(a, b). py_eq a b) (zip l r)
      | _ \<Rightarrow> (case (py_num left, py_num right) of (Some x, Some y) \<Rightarrow> x = y | _ \<Rightarrow> left = right))"
  by pat_completeness auto
termination
  by (relation "measure (size \<circ> fst)") (auto dest: size_pair_mem size_elem_mem dest!: set_zip_leftD)

declare py_eq.simps [simp del]

definition update_definition :: "(pyfloat \<Rightarrow> pystr) \<Rightarrow> tool_definition \<Rightarrow> 'h registry \<Rightarrow> registry_error + 'h registry" where
  "update_definition fr d g =
     (case freeze_tool_definition fr d of
        Inl e \<Rightarrow> Inl (Structure_refused e)
      | Inr f \<Rightarrow>
          (let owned = copy_definition f in
           case map_of (tools g) (td_id owned) of
             None \<Rightarrow> Inl Tool_not_found
           | Some previous \<Rightarrow>
               if td_source owned \<noteq> td_source (tr_definition previous)
                  \<or> list_ex (\<lambda>key. \<not> py_eq (meta_get owned key) (meta_get (tr_definition previous) key))
                      [lit ''server_id'', lit ''original_tool_name'']
               then Inl Identity_changed
               else Inr (publish previous f g)))"

section \<open>Removal and replacement\<close>

text \<open>A selection by metadata; every caller selects by a string, a server id.\<close>

record selector =
  sel_key :: pystr
  sel_value :: pystr
  sel_source :: "pystr option"

definition matches :: "selector \<Rightarrow> tool_definition \<Rightarrow> bool" where
  "matches s d \<longleftrightarrow> meta_get d (sel_key s) = PStr (sel_value s)
     \<and> (case sel_source s of None \<Rightarrow> True | Some src \<Rightarrow> td_source d = src)"

definition structure_matches :: "selector \<Rightarrow> frozen_tool \<Rightarrow> bool" where
  "structure_matches s f \<longleftrightarrow> dict_get_none (mapping_items (fz_metadata f)) (sel_key s) = PStr (sel_value s)
     \<and> (case sel_source s of None \<Rightarrow> True | Some src \<Rightarrow> fz_source f = src)"

definition selected_tools :: "selector \<Rightarrow> 'h registry \<Rightarrow> (pystr \<times> 'h tool_record) list" where
  "selected_tools s g = filter (\<lambda>(_, r). matches s (tr_definition r)) (tools g)"

definition selected_unavailable :: "selector \<Rightarrow> 'h registry \<Rightarrow> pystr list" where
  "selected_unavailable s g = map fst (filter (\<lambda>(_, f). structure_matches s f) (unavailable g))"

text \<open>The body of the removal loop; every registered tool has its structure (\<open>registry_ok\<close>).\<close>

definition remove_tool :: "bool \<Rightarrow> pystr \<times> 'h tool_record \<Rightarrow> 'h registry \<Rightarrow> 'h registry" where
  "remove_tool retire p g =
     (let i = fst p;
          g1 = (case map_of (structures g) i of
                  Some f \<Rightarrow> if \<not> retire then g\<lparr>unavailable := AList.update i f (unavailable g)\<rparr> else g
                | None \<Rightarrow> g);
          g2 = index_change (Some (snd p)) None (g1\<lparr>tools := AList.delete i (tools g1)\<rparr>)
      in g2\<lparr>structures := AList.delete i (structures g2)\<rparr>)"

definition unregister_by_metadata :: "selector \<Rightarrow> bool \<Rightarrow> 'h registry \<Rightarrow> 'h registry \<times> nat" where
  "unregister_by_metadata s retire g =
     (let removed = selected_tools s g;
          gone = (if retire then selected_unavailable s g else []);
          changed = remdups (map fst removed @ gone);
          g1 = (if changed \<noteq> [] then g\<lparr>rg_revision := rg_revision g + 1\<rparr> else g);
          g2 = fold (remove_tool retire) removed g1;
          g3 = (if retire then g2\<lparr>unavailable := fold AList.delete changed (unavailable g2)\<rparr> else g2)
      in (if changed \<noteq> []
          then notify_catalog (map (\<lambda>i. (i, None)) changed) (Some (if retire then changed else [])) g3
          else g3, length changed))"

text \<open>The replacement set with its frozen structures, checked before the registry is touched.\<close>

fun replacement_of :: "(pyfloat \<Rightarrow> pystr) \<Rightarrow> selector \<Rightarrow> 'h tool_record list \<Rightarrow> (pystr \<times> 'h tool_record \<times> frozen_tool) list
    \<Rightarrow> registry_error + (pystr \<times> 'h tool_record \<times> frozen_tool) list" where
  "replacement_of fr s [] acc = Inr acc"
| "replacement_of fr s (r # rs) acc =
     (case freeze_tool_definition fr (tr_definition r) of
        Inl e \<Rightarrow> Inl (Structure_refused e)
      | Inr f \<Rightarrow>
          (let d = copy_definition f in
           if meta_get d (sel_key s) \<noteq> PStr (sel_value s) then Inl Metadata_mismatch
           else if (case sel_source s of None \<Rightarrow> False | Some src \<Rightarrow> td_source d \<noteq> src) then Inl Source_mismatch
           else if map_of acc (td_id d) \<noteq> None then Inl Duplicate_tool
           else replacement_of fr s rs (acc @ [(td_id d, r, f)])))"

definition replace_conflicts :: "selector \<Rightarrow> 'h registry \<Rightarrow> pystr list \<Rightarrow> pystr list" where
  "replace_conflicts s g ids =
     sort (filter (\<lambda>i. i \<in> fst ` set (tools g) - fst ` set (selected_tools s g)
                     \<or> i \<in> fst ` set (unavailable g) - set (selected_unavailable s g)) ids)"

definition unlist_tool :: "pystr \<times> 'h tool_record \<Rightarrow> 'h registry \<Rightarrow> 'h registry" where
  "unlist_tool p g = (let g1 = index_change (Some (snd p)) None g in g1\<lparr>structures := AList.delete (fst p) (structures g1)\<rparr>)"

definition swap_in :: "selector \<Rightarrow> (pystr \<times> 'h tool_record \<times> frozen_tool) list \<Rightarrow> 'h registry \<Rightarrow> 'h registry" where
  "swap_in s rep g =
     (let removed = selected_tools s g;
          gone = selected_unavailable s g;
          g1 = g\<lparr>rg_revision := rg_revision g + 1\<rparr>;
          fresh = map (\<lambda>(i, r, f). (i, new_record r f (rg_revision g1), f)) rep;
          g2 = fold unlist_tool removed g1;
          g3 = fold (\<lambda>(i, r, f). index_change None (Some (r, f))) fresh g2;
          g4 = g3\<lparr>structures := fold (\<lambda>(i, r, f). AList.update i f) fresh (structures g3),
                  unavailable := fold AList.delete gone (unavailable g3),
                  tools := fold (\<lambda>(i, r, f). AList.update i r) fresh (filter (\<lambda>(_, r). \<not> matches s (tr_definition r)) (tools g3))\<rparr>;
          retired = filter (\<lambda>i. i \<notin> fst ` set rep) (remdups (map fst removed @ gone))
      in notify_catalog (map (\<lambda>i. (i, None)) retired @ map (\<lambda>(i, r, f). (i, Some (tr_definition r))) fresh) None g4)"

definition replace_by_metadata :: "(pyfloat \<Rightarrow> pystr) \<Rightarrow> selector \<Rightarrow> 'h tool_record list \<Rightarrow> 'h registry
    \<Rightarrow> registry_error + 'h registry \<times> nat \<times> nat" where
  "replace_by_metadata fr s recs g =
     bindR (replacement_of fr s recs []) (\<lambda>rep.
       (let conflicts = replace_conflicts s g (map fst rep) in
        if conflicts \<noteq> [] then Inl (Other_source conflicts)
        else Inr (swap_in s rep g, length (selected_tools s g), length rep)))"

section \<open>Reading\<close>

definition list_definitions :: "'h registry \<Rightarrow> tool_definition list" where
  "list_definitions g = map (\<lambda>(_, f). copy_definition f) (structures g)"

definition get_definition :: "'h registry \<Rightarrow> pystr \<Rightarrow> tool_definition option" where
  "get_definition g i = map_option copy_definition (map_of (structures g) i)"

text \<open>\<^verbatim>\<open>dict.fromkeys\<close> keeps the first occurrence of every id.\<close>

definition from_keys :: "'a list \<Rightarrow> 'a list" where
  "from_keys xs = rev (remdups (rev xs))"

definition get_definitions :: "'h registry \<Rightarrow> pystr list \<Rightarrow> tool_definition list" where
  "get_definitions g ids = List.map_filter (get_definition g) (from_keys ids)"

definition mcp_snapshot :: "'h registry \<Rightarrow> pystr list \<Rightarrow> int \<Rightarrow> registry_error + (pystr \<times> nat) list \<times> registry_snapshot list" where
  "mcp_snapshot g ids max_tools =
     (let instances = sort (remdups ids) in
      if int (sum_list (map (\<lambda>i. length (mcp_index g i)) instances)) > max_tools then Inl Snapshot_capacity
      else Inr (map (\<lambda>i. (i, mcp_revisions g i)) instances, concat (map (\<lambda>i. map snd (mcp_index g i)) instances)))"

definition mcp_snapshot_current :: "'h registry \<Rightarrow> (pystr \<times> nat) list \<Rightarrow> bool" where
  "mcp_snapshot_current g revisions = list_all (\<lambda>(i, r). mcp_revisions g i = r) revisions"

section \<open>Invariant\<close>

text \<open>The entry the index should have for tool \<open>x\<close> under instance \<open>i\<close>.\<close>

definition indexed :: "'h registry \<Rightarrow> pystr \<Rightarrow> pystr \<Rightarrow> registry_snapshot option" where
  "indexed g i x =
     (case map_of (tools g) x of
        None \<Rightarrow> None
      | Some r \<Rightarrow> if instance_of (tr_definition r) = Some i
                  then map_option (\<lambda>f. \<lparr>rs_structure = f, rs_revision = tr_serial r\<rparr>) (map_of (structures g) x) else None)"

definition definitions :: "'h registry \<Rightarrow> pystr \<rightharpoonup> tool_definition" where
  "definitions g x = map_option tr_definition (map_of (tools g) x)"

definition keys_ok :: "'h registry \<Rightarrow> bool" where
  "keys_ok g \<longleftrightarrow> distinct (map fst (tools g)) \<and> distinct (map fst (structures g)) \<and> distinct (map fst (unavailable g))
     \<and> (\<forall>i. distinct (map fst (mcp_index g i)))"

definition content_ok :: "'h registry \<Rightarrow> bool" where
  "content_ok g \<longleftrightarrow>
     (\<forall>x. map_option copy_definition (map_of (structures g) x) = definitions g x)
     \<and> (\<forall>x r. map_of (tools g) x = Some r \<longrightarrow> td_id (tr_definition r) = x \<and> tr_serial r \<le> rg_revision g)
     \<and> (\<forall>x. map_of (unavailable g) x \<noteq> None \<longrightarrow> map_of (tools g) x = None)"

definition index_ok :: "'h registry \<Rightarrow> bool" where
  "index_ok g \<longleftrightarrow> (\<forall>i x. map_of (mcp_index g i) x = indexed g i x) \<and> (\<forall>i. mcp_revisions g i \<le> rg_revision g)"

definition registry_ok :: "'h registry \<Rightarrow> bool" where
  "registry_ok g \<longleftrightarrow> keys_ok g \<and> content_ok g \<and> index_ok g"

lemma registry_ok_empty: "registry_ok empty_registry"
  by (simp add: registry_ok_def keys_ok_def content_ok_def index_ok_def empty_registry_def indexed_def definitions_def)

section \<open>What the primitive changes do\<close>

lemma index_remove_fields [simp]:
  "tools (index_remove r g) = tools g" "structures (index_remove r g) = structures g"
  "unavailable (index_remove r g) = unavailable g" "rg_revision (index_remove r g) = rg_revision g"
  "notices (index_remove r g) = notices g"
  "mcp_index (index_remove r g) i =
     (if instance_of (tr_definition r) = Some i then AList.delete (td_id (tr_definition r)) (mcp_index g i) else mcp_index g i)"
  "mcp_revisions (index_remove r g) i = (if instance_of (tr_definition r) = Some i then rg_revision g else mcp_revisions g i)"
  by (auto simp: index_remove_def split: option.splits)

lemma index_add_fields [simp]:
  "tools (index_add r f g) = tools g" "structures (index_add r f g) = structures g"
  "unavailable (index_add r f g) = unavailable g" "rg_revision (index_add r f g) = rg_revision g"
  "notices (index_add r f g) = notices g"
  "mcp_index (index_add r f g) i =
     (if instance_of (tr_definition r) = Some i
      then AList.update (td_id (tr_definition r)) \<lparr>rs_structure = f, rs_revision = rg_revision g\<rparr> (mcp_index g i) else mcp_index g i)"
  "mcp_revisions (index_add r f g) i = (if instance_of (tr_definition r) = Some i then rg_revision g else mcp_revisions g i)"
  by (auto simp: index_add_def split: option.splits)

lemma index_change_simps [simp]:
  "index_change (Some r) None g = index_remove r g" "index_change None (Some (r, f)) g = index_add r f g"
  "index_change None None g = g" "index_change (Some r) (Some (q, f)) g = index_add q f (index_remove r g)"
  by (simp_all add: index_change_def)

lemma notify_fields [simp]:
  "tools (notify_catalog c w g) = tools g" "structures (notify_catalog c w g) = structures g"
  "unavailable (notify_catalog c w g) = unavailable g" "rg_revision (notify_catalog c w g) = rg_revision g"
  "mcp_index (notify_catalog c w g) = mcp_index g" "mcp_revisions (notify_catalog c w g) = mcp_revisions g"
  by (simp_all add: notify_catalog_def)

lemma new_record_fields [simp]:
  "tr_definition (new_record r f n) = copy_definition f" "tr_serial (new_record r f n) = n"
  by (simp_all add: new_record_def)

lemma copy_definition_id [simp]: "td_id (copy_definition f) = fz_id f" "td_source (copy_definition f) = fz_source f"
  by (simp_all add: copy_definition_def)

lemma fold_delete: "fold AList.delete ks al = filter (\<lambda>e. fst e \<notin> set ks) al"
  by (induction ks arbitrary: al) (auto simp: AList.delete_eq filter_filter intro!: filter_cong)

lemma map_of_filter_key: "map_of (filter (\<lambda>e. P (fst e)) al) x = (if P x then map_of al x else None)"
  by (induction al) auto

lemma map_of_filter_keys [simp]: "map_of (filter (\<lambda>e. fst e \<notin> S) al) x = (if x \<in> S then None else map_of al x)"
  using map_of_filter_key [of "\<lambda>k. k \<notin> S" al x] by simp

lemma distinct_filter_keys [simp]: "distinct (map fst al) \<Longrightarrow> distinct (map fst (filter P al))"
  by (induction al) auto

text \<open>The instance under which record \<open>p\<close> is listed, and the fold that takes records off the index.\<close>

definition lists_under :: "pystr \<Rightarrow> pystr \<times> 'h tool_record \<Rightarrow> bool" where
  "lists_under i p \<longleftrightarrow> instance_of (tr_definition (snd p)) = Some i"

definition unlisted :: "pystr \<Rightarrow> (pystr \<times> 'h tool_record) list \<Rightarrow> pystr set" where
  "unlisted i ps = (\<lambda>p. td_id (tr_definition (snd p))) ` {p \<in> set ps. lists_under i p}"

lemma unlisted_simps [simp]:
  "unlisted i [] = {}"
  "unlisted i (p # ps) = (if lists_under i p then insert (td_id (tr_definition (snd p))) (unlisted i ps) else unlisted i ps)"
  by (auto simp: unlisted_def)

lemma remove_tool_fields [simp]:
  "tools (remove_tool b p g) = AList.delete (fst p) (tools g)" "structures (remove_tool b p g) = AList.delete (fst p) (structures g)"
  "rg_revision (remove_tool b p g) = rg_revision g" "notices (remove_tool b p g) = notices g"
  "mcp_index (remove_tool b p g) i =
     (if lists_under i p then AList.delete (td_id (tr_definition (snd p))) (mcp_index g i) else mcp_index g i)"
  "mcp_revisions (remove_tool b p g) i = (if lists_under i p then rg_revision g else mcp_revisions g i)"
  "unavailable (remove_tool b p g) =
     (case map_of (structures g) (fst p) of None \<Rightarrow> unavailable g
      | Some f \<Rightarrow> if b then unavailable g else AList.update (fst p) f (unavailable g))"
  by (auto simp: remove_tool_def Let_def lists_under_def split: option.splits)

lemma unlist_tool_fields [simp]:
  "tools (unlist_tool p g) = tools g" "structures (unlist_tool p g) = AList.delete (fst p) (structures g)"
  "rg_revision (unlist_tool p g) = rg_revision g" "notices (unlist_tool p g) = notices g"
  "mcp_index (unlist_tool p g) i =
     (if lists_under i p then AList.delete (td_id (tr_definition (snd p))) (mcp_index g i) else mcp_index g i)"
  "mcp_revisions (unlist_tool p g) i = (if lists_under i p then rg_revision g else mcp_revisions g i)"
  "unavailable (unlist_tool p g) = unavailable g"
  by (auto simp: unlist_tool_def Let_def lists_under_def)

lemma delete_filter: "AList.delete k (filter P al) = filter (\<lambda>e. fst e \<noteq> k \<and> P e) al"
  by (auto simp: AList.delete_eq intro!: filter_cong)

lemma filter_delete: "filter P (AList.delete k al) = filter (\<lambda>e. fst e \<noteq> k \<and> P e) al"
  by (auto simp: AList.delete_eq intro!: filter_cong)

lemma fold_remove_tool:
  "tools (fold (remove_tool b) ps g) = filter (\<lambda>e. fst e \<notin> fst ` set ps) (tools g)"
  "structures (fold (remove_tool b) ps g) = filter (\<lambda>e. fst e \<notin> fst ` set ps) (structures g)"
  "rg_revision (fold (remove_tool b) ps g) = rg_revision g" "notices (fold (remove_tool b) ps g) = notices g"
  "mcp_index (fold (remove_tool b) ps g) i = filter (\<lambda>e. fst e \<notin> unlisted i ps) (mcp_index g i)"
  "mcp_revisions (fold (remove_tool b) ps g) i = (if list_ex (lists_under i) ps then rg_revision g else mcp_revisions g i)"
  by (induction ps arbitrary: g) (auto simp: filter_delete intro!: filter_cong)

lemma fold_unlist_tool:
  "tools (fold unlist_tool ps g) = tools g"
  "structures (fold unlist_tool ps g) = filter (\<lambda>e. fst e \<notin> fst ` set ps) (structures g)"
  "rg_revision (fold unlist_tool ps g) = rg_revision g" "notices (fold unlist_tool ps g) = notices g"
  "unavailable (fold unlist_tool ps g) = unavailable g"
  "mcp_index (fold unlist_tool ps g) i = filter (\<lambda>e. fst e \<notin> unlisted i ps) (mcp_index g i)"
  "mcp_revisions (fold unlist_tool ps g) i = (if list_ex (lists_under i) ps then rg_revision g else mcp_revisions g i)"
  by (induction ps arbitrary: g) (auto simp: filter_delete intro!: filter_cong)

lemma fold_remove_unavailable:
  "unavailable (fold (remove_tool True) ps g) = unavailable g"
  by (induction ps arbitrary: g) (auto split: option.splits)

lemma fold_remove_keeps:
  assumes "distinct (map fst ps)"
  shows "map_of (unavailable (fold (remove_tool False) ps g)) x =
      (if x \<in> fst ` set ps \<and> map_of (structures g) x \<noteq> None then map_of (structures g) x else map_of (unavailable g) x)"
    and "distinct (map fst (unavailable g)) \<Longrightarrow> distinct (map fst (unavailable (fold (remove_tool False) ps g)))"
  using assms
  by (induction ps arbitrary: g) (auto simp: AList.update_conv' AList.delete_conv' AList.distinct_update split: option.splits)

lemma fold_update:
  assumes "distinct (map fst ps)"
  shows "map_of (fold (\<lambda>(i, r, f). AList.update i (h r f)) ps al) x =
      (case map_of ps x of Some (r, f) \<Rightarrow> Some (h r f) | None \<Rightarrow> map_of al x)"
  using assms
proof (induction ps arbitrary: al)
  case (Cons p ps)
  obtain a r f where p: "p = (a, r, f)" by (cases p)
  have "map_of ps a = None" using Cons.prems by (simp add: map_of_eq_None_iff p)
  with Cons show ?case by (auto simp: p AList.update_conv' split: option.splits)
qed simp

lemma fold_update_distinct:
  "distinct (map fst al) \<Longrightarrow> distinct (map fst (fold (\<lambda>(i, r, f). AList.update i (h r f)) ps al))"
  by (induction ps arbitrary: al) (auto simp: AList.distinct_update)

lemma fold_index_add:
  assumes "distinct (map fst ps)" "list_all (\<lambda>(x, r, f). td_id (tr_definition r) = x) ps"
  shows "map_of (mcp_index (fold (\<lambda>(x, r, f). index_change None (Some (r, f))) ps g) i) x =
      (case map_of ps x of
         Some (r, f) \<Rightarrow> if instance_of (tr_definition r) = Some i then Some \<lparr>rs_structure = f, rs_revision = rg_revision g\<rparr>
           else map_of (mcp_index g i) x
       | None \<Rightarrow> map_of (mcp_index g i) x)"
  using assms
proof (induction ps arbitrary: g)
  case (Cons p ps)
  obtain a r f where p: "p = (a, r, f)" by (cases p)
  have "map_of ps a = None" using Cons.prems by (simp add: map_of_eq_None_iff p)
  with Cons show ?case by (auto simp: p AList.update_conv' split: option.splits)
qed simp

lemma fold_index_add_distinct:
  "distinct (map fst (mcp_index g i)) \<Longrightarrow>
   distinct (map fst (mcp_index (fold (\<lambda>(x, r, f). index_change None (Some (r, f))) ps g) i))"
  by (induction ps arbitrary: g) (auto simp: AList.distinct_update)

lemma fold_index_add_fields:
  "tools (fold (\<lambda>(x, r, f). index_change None (Some (r, f))) ps g) = tools g"
  "structures (fold (\<lambda>(x, r, f). index_change None (Some (r, f))) ps g) = structures g"
  "unavailable (fold (\<lambda>(x, r, f). index_change None (Some (r, f))) ps g) = unavailable g"
  "rg_revision (fold (\<lambda>(x, r, f). index_change None (Some (r, f))) ps g) = rg_revision g"
  "notices (fold (\<lambda>(x, r, f). index_change None (Some (r, f))) ps g) = notices g"
  "mcp_revisions (fold (\<lambda>(x, r, f). index_change None (Some (r, f))) ps g) i =
     (if list_ex (\<lambda>(x, r, f). lists_under i (x, r)) ps then rg_revision g else mcp_revisions g i)"
  "\<not> list_ex (\<lambda>(x, r, f). lists_under i (x, r)) ps \<Longrightarrow>
     mcp_index (fold (\<lambda>(x, r, f). index_change None (Some (r, f))) ps g) i = mcp_index g i"
  by (induction ps arbitrary: g) (auto simp: lists_under_def)

section \<open>Every operation keeps the invariant\<close>

lemma registry_okD:
  assumes "registry_ok g"
  shows "distinct (map fst (tools g))" "distinct (map fst (structures g))" "distinct (map fst (unavailable g))"
    "distinct (map fst (mcp_index g i))" "map_option copy_definition (map_of (structures g) x) = map_option tr_definition (map_of (tools g) x)"
    "map_of (tools g) x = Some r \<Longrightarrow> td_id (tr_definition r) = x" "map_of (tools g) x = Some r \<Longrightarrow> tr_serial r \<le> rg_revision g"
    "map_of (unavailable g) x = Some f \<Longrightarrow> map_of (tools g) x = None" "map_of (mcp_index g i) x = indexed g i x"
    "mcp_revisions g i \<le> rg_revision g"
  using assms by (auto simp: registry_ok_def keys_ok_def content_ok_def index_ok_def definitions_def)

lemma registry_okI:
  assumes "distinct (map fst (tools g))" "distinct (map fst (structures g))" "distinct (map fst (unavailable g))"
    "\<And>i. distinct (map fst (mcp_index g i))"
    "\<And>x. map_option copy_definition (map_of (structures g) x) = map_option tr_definition (map_of (tools g) x)"
    "\<And>x r. map_of (tools g) x = Some r \<Longrightarrow> td_id (tr_definition r) = x \<and> tr_serial r \<le> rg_revision g"
    "\<And>x f. map_of (unavailable g) x = Some f \<Longrightarrow> map_of (tools g) x = None" "\<And>i x. map_of (mcp_index g i) x = indexed g i x"
    "\<And>i. mcp_revisions g i \<le> rg_revision g"
  shows "registry_ok g"
  using assms by (auto simp: registry_ok_def keys_ok_def content_ok_def index_ok_def definitions_def)

lemma publish_fields:
  "tools (publish t f g) = AList.update (fz_id f) (new_record t f (rg_revision g + 1)) (tools g)"
  "structures (publish t f g) = AList.update (fz_id f) f (structures g)"
  "unavailable (publish t f g) = unavailable g" "rg_revision (publish t f g) = rg_revision g + 1"
  by (simp_all add: publish_def Let_def copy_definition_def index_change_def split: option.splits)

text \<open>Where the previous record of a republished tool was listed.\<close>

definition was_under :: "'h registry \<Rightarrow> pystr \<Rightarrow> pystr \<Rightarrow> bool" where
  "was_under g x i \<longleftrightarrow> (\<exists>r. map_of (tools g) x = Some r \<and> instance_of (tr_definition r) = Some i)"

lemma publish_index:
  assumes "registry_ok g"
  shows "mcp_index (publish t f g) i =
      (let b = (if was_under g (fz_id f) i then AList.delete (fz_id f) (mcp_index g i) else mcp_index g i)
       in if instance_of (copy_definition f) = Some i
          then AList.update (fz_id f) \<lparr>rs_structure = f, rs_revision = rg_revision g + 1\<rparr> b else b)"
    and "mcp_revisions (publish t f g) i =
      (if was_under g (fz_id f) i \<or> instance_of (copy_definition f) = Some i then rg_revision g + 1 else mcp_revisions g i)"
proof -
  have i: "td_id (copy_definition f) = fz_id f" by (simp add: copy_definition_def)
  show "mcp_index (publish t f g) i =
      (let b = (if was_under g (fz_id f) i then AList.delete (fz_id f) (mcp_index g i) else mcp_index g i)
       in if instance_of (copy_definition f) = Some i
          then AList.update (fz_id f) \<lparr>rs_structure = f, rs_revision = rg_revision g + 1\<rparr> b else b)"
    using registry_okD(6) [OF assms, of "fz_id f"]
    by (cases "map_of (tools g) (fz_id f)") (simp_all add: publish_def Let_def i was_under_def)
  show "mcp_revisions (publish t f g) i =
      (if was_under g (fz_id f) i \<or> instance_of (copy_definition f) = Some i then rg_revision g + 1 else mcp_revisions g i)"
    by (cases "map_of (tools g) (fz_id f)") (simp_all add: publish_def Let_def i was_under_def)
qed

lemma publish_ok:
  assumes ok: "registry_ok g"
  shows "registry_ok ((publish t f g)\<lparr>unavailable := AList.delete (fz_id f) (unavailable g)\<rparr>)"
proof (rule registry_okI)
  note D = registry_okD [OF ok]
  let ?g = "(publish t f g)\<lparr>unavailable := AList.delete (fz_id f) (unavailable g)\<rparr>"
  have f: "td_id (copy_definition f) = fz_id f" by (simp add: copy_definition_def)
  show "distinct (map fst (tools ?g))" "distinct (map fst (structures ?g))"
    using D(1,2) by (simp_all add: publish_fields AList.distinct_update)
  show "distinct (map fst (unavailable ?g))" using D(3) by (simp add: AList.delete_eq)
  show "distinct (map fst (mcp_index ?g i))" for i
    using D(4) [of i] by (auto simp: publish_index [OF ok] Let_def AList.distinct_update AList.delete_eq)
  show "map_option copy_definition (map_of (structures ?g) x) = map_option tr_definition (map_of (tools ?g) x)" for x
    using D(5) by (simp add: publish_fields AList.update_conv')
  show "td_id (tr_definition r) = x \<and> tr_serial r \<le> rg_revision ?g" if "map_of (tools ?g) x = Some r" for x r
    using that D(6,7) by (auto simp: publish_fields AList.update_conv' f le_SucI split: if_splits)
  show "map_of (tools ?g) x = None" if "map_of (unavailable ?g) x = Some u" for x u
    using that D(8) by (auto simp: publish_fields AList.update_conv' AList.delete_conv' split: if_splits)
  show "mcp_revisions ?g i \<le> rg_revision ?g" for i
    using D(10) by (simp add: publish_index [OF ok] publish_fields le_SucI)
  show "map_of (mcp_index ?g i) x = indexed ?g i x" for i x
    using D(9) [of i x]
    by (cases "map_of (tools g) x")
      (auto simp: publish_index [OF ok] publish_fields Let_def AList.update_conv' AList.delete_conv' indexed_def was_under_def)
qed

lemma register_ok: "registry_ok g \<Longrightarrow> register fr replace t g = Inr g' \<Longrightarrow> registry_ok g'"
  using publish_ok by (auto simp: register_def Let_def copy_definition_def publish_fields split: sum.splits if_splits)

lemma update_definition_ok:
  assumes ok: "registry_ok g" and up: "update_definition fr d g = Inr g'"
  shows "registry_ok g'"
proof -
  from up obtain f previous where f: "map_of (tools g) (fz_id f) = Some previous" "g' = publish previous f g"
    by (auto simp: update_definition_def Let_def copy_definition_def split: sum.splits option.splits if_splits)
  then have "map_of (unavailable g) (fz_id f) = None"
    using registry_okD(8) [OF ok, of "fz_id f"] by (cases "map_of (unavailable g) (fz_id f)") auto
  then have "AList.delete (fz_id f) (unavailable g) = unavailable (publish previous f g)"
    by (auto simp: publish_fields AList.delete_eq filter_id_conv map_of_eq_None_iff intro: rev_image_eqI)
  with publish_ok [OF ok, of f previous] show ?thesis by (simp add: f(2))
qed

lemma notify_indexed [simp]: "indexed (notify_catalog c w h) = indexed h"
  by (intro ext) (simp add: indexed_def split: option.split)

lemma notify_ok [simp]: "registry_ok (notify_catalog c w h) = registry_ok h"
  by (simp add: registry_ok_def keys_ok_def content_ok_def index_ok_def definitions_def)

lemma map_of_selected:
  assumes "registry_ok g"
  shows "x \<in> fst ` set (selected_tools s g) \<longleftrightarrow> (\<exists>r. map_of (tools g) x = Some r \<and> matches s (tr_definition r))"
  using registry_okD(1) [OF assms] by (auto simp: selected_tools_def intro: rev_image_eqI)

lemma selected_distinct: "registry_ok g \<Longrightarrow> distinct (map fst (selected_tools s g))"
  by (simp add: selected_tools_def registry_okD)

lemma unlisted_selected:
  assumes "registry_ok g"
  shows "x \<in> unlisted i (selected_tools s g) \<longleftrightarrow>
    (\<exists>r. map_of (tools g) x = Some r \<and> matches s (tr_definition r) \<and> instance_of (tr_definition r) = Some i)"
proof -
  have "(x, r) \<in> set (tools g) \<longleftrightarrow> map_of (tools g) x = Some r" for x r
    using registry_okD(1) [OF assms] by simp
  moreover have "map_of (tools g) x = Some r \<Longrightarrow> td_id (tr_definition r) = x" for x r by (rule registry_okD(6) [OF assms])
  ultimately show ?thesis
    by (fastforce simp: unlisted_def selected_tools_def lists_under_def image_iff)
qed

text \<open>What the index should say after the selected tools are gone.\<close>

lemma indexed_after_removal:
  assumes ok: "registry_ok g"
    and t: "\<And>x. map_of (tools g') x = (if x \<in> fst ` set (selected_tools s g) then None else map_of (tools g) x)"
    and f: "\<And>x. map_of (structures g') x = (if x \<in> fst ` set (selected_tools s g) then None else map_of (structures g) x)"
    and ix: "mcp_index g' i = filter (\<lambda>e. fst e \<notin> unlisted i (selected_tools s g)) (mcp_index g i)"
  shows "map_of (mcp_index g' i) x = indexed g' i x"
proof -
  have "map_of (mcp_index g' i) x = (if x \<in> unlisted i (selected_tools s g) then None else indexed g i x)"
    by (simp add: ix registry_okD(9) [OF ok])
  then show ?thesis
    by (auto simp: indexed_def t f unlisted_selected [OF ok] map_of_selected [OF ok] split: option.splits)
qed

lemma unregister_ok:
  assumes ok: "registry_ok g"
  shows "registry_ok (fst (unregister_by_metadata s retire g))"
proof -
  note D = registry_okD [OF ok]
  let ?S = "selected_tools s g"
  let ?changed = "remdups (map fst ?S @ (if retire then selected_unavailable s g else []))"
  define g1 where "g1 = (if ?changed \<noteq> [] then g\<lparr>rg_revision := rg_revision g + 1\<rparr> else g)"
  define g2 where "g2 = fold (remove_tool retire) ?S g1"
  define g3 where "g3 = (if retire then g2\<lparr>unavailable := fold AList.delete ?changed (unavailable g2)\<rparr> else g2)"
  have g1: "tools g1 = tools g" "structures g1 = structures g" "unavailable g1 = unavailable g" "mcp_index g1 = mcp_index g"
    "mcp_revisions g1 = mcp_revisions g" "rg_revision g \<le> rg_revision g1" by (auto simp: g1_def)
  have f: "tools g3 = filter (\<lambda>e. fst e \<notin> fst ` set ?S) (tools g)" "structures g3 = filter (\<lambda>e. fst e \<notin> fst ` set ?S) (structures g)"
    "rg_revision g3 = rg_revision g1" "mcp_index g3 i = filter (\<lambda>e. fst e \<notin> unlisted i ?S) (mcp_index g i)"
    "mcp_revisions g3 i = (if list_ex (lists_under i) ?S then rg_revision g1 else mcp_revisions g i)" for i
    by (simp_all add: g3_def g2_def fold_remove_tool g1)
  have u: "distinct (map fst (unavailable g3)) \<and> (\<forall>x v. map_of (unavailable g3) x = Some v \<longrightarrow> map_of (tools g3) x = None)"
  proof (cases retire)
    case True
    have "unavailable g3 = fold AList.delete ?changed (unavailable g)"
      unfolding g3_def g2_def using True by (simp add: fold_remove_unavailable g1)
    then have "unavailable g3 = filter (\<lambda>e. fst e \<notin> set ?changed) (unavailable g)" by (simp only: fold_delete)
    then show ?thesis using D(3,8) by (auto simp: f split: if_splits)
  next
    case False
    then have "unavailable g3 = unavailable (fold (remove_tool False) ?S g1)" by (simp add: g3_def g2_def)
    then show ?thesis
      using D(3,8) fold_remove_keeps [OF selected_distinct [OF ok, of s], of g1] by (auto simp: f g1 split: if_splits)
  qed
  have "registry_ok g3"
  proof (rule registry_okI)
    show "map_of (mcp_index g3 i) x = indexed g3 i x" for i x
      by (rule indexed_after_removal [OF ok]) (simp_all add: f)
    show "mcp_revisions g3 i \<le> rg_revision g3" for i using D(10) [of i] g1(6) by (simp add: f)
    show "td_id (tr_definition r) = x \<and> tr_serial r \<le> rg_revision g3" if "map_of (tools g3) x = Some r" for x r
      using that D(6,7) [of x r] g1(6) by (auto simp: f split: if_splits)
  qed (use D u in \<open>auto simp: f split: if_splits\<close>)
  moreover have "fst (unregister_by_metadata s retire g) = (if ?changed \<noteq> []
      then notify_catalog (map (\<lambda>i. (i, None)) ?changed) (Some (if retire then ?changed else [])) g3 else g3)"
    unfolding unregister_by_metadata_def Let_def g3_def g2_def g1_def by simp
  ultimately show ?thesis by simp
qed

definition replaces :: "(pyfloat \<Rightarrow> pystr) \<Rightarrow> selector \<Rightarrow> pystr \<times> 'h tool_record \<times> frozen_tool \<Rightarrow> bool" where
  "replaces fr s e = (case e of (x, r, f) \<Rightarrow> x = fz_id f \<and> matches s (copy_definition f) \<and> freeze_tool_definition fr (tr_definition r) = Inr f)"

lemma replacement_of_spec:
  "replacement_of fr s recs acc = Inr rep \<Longrightarrow> distinct (map fst acc) \<Longrightarrow> list_all (replaces fr s) acc \<Longrightarrow>
   distinct (map fst rep) \<and> list_all (replaces fr s) rep \<and> map (\<lambda>e. fst (snd e)) rep = map (\<lambda>e. fst (snd e)) acc @ recs"
proof (induction recs arbitrary: acc)
  case (Cons r rs)
  from Cons.prems(1) obtain f where f: "freeze_tool_definition fr (tr_definition r) = Inr f"
    and ok: "meta_get (copy_definition f) (sel_key s) = PStr (sel_value s)" "\<not> (case sel_source s of None \<Rightarrow> False | Some src \<Rightarrow> td_source (copy_definition f) \<noteq> src)"
      "map_of acc (fz_id f) = None" and rest: "replacement_of fr s rs (acc @ [(fz_id f, r, f)]) = Inr rep"
    by (auto simp: Let_def simp del: not_None_eq split: sum.splits if_splits)
  have "matches s (copy_definition f)" using ok by (auto simp: matches_def split: option.splits)
  moreover have "fz_id f \<notin> fst ` set acc" using ok(3) by (simp add: map_of_eq_None_iff)
  ultimately have "distinct (map fst rep) \<and> list_all (replaces fr s) rep \<and> map (\<lambda>e. fst (snd e)) rep = map (\<lambda>e. fst (snd e)) (acc @ [(fz_id f, r, f)]) @ rs"
    using Cons.prems f by (intro Cons.IH [OF rest]) (auto simp: replaces_def)
  then show ?case by simp
qed simp

text \<open>A replacement whose ids belong to the selected tools or to no other tool.\<close>

lemma no_conflict:
  assumes "replace_conflicts s g ids = []" "x \<in> set ids"
  shows "x \<in> fst ` set (selected_tools s g) \<or> map_of (tools g) x = None"
    "x \<in> set (selected_unavailable s g) \<or> map_of (unavailable g) x = None"
proof -
  have "set (replace_conflicts s g ids) = {}" by (simp add: assms(1))
  then have "\<not> (x \<in> fst ` set (tools g) - fst ` set (selected_tools s g) \<or> x \<in> fst ` set (unavailable g) - set (selected_unavailable s g))"
    using assms(2) unfolding replace_conflicts_def by auto
  then show "x \<in> fst ` set (selected_tools s g) \<or> map_of (tools g) x = None"
    "x \<in> set (selected_unavailable s g) \<or> map_of (unavailable g) x = None"
    by (auto simp: map_of_eq_None_iff)
qed

definition fresh_of :: "nat \<Rightarrow> (pystr \<times> 'h tool_record \<times> frozen_tool) list \<Rightarrow> (pystr \<times> 'h tool_record \<times> frozen_tool) list" where
  "fresh_of n rep = map (\<lambda>(i, r, f). (i, new_record r f n, f)) rep"

lemma map_of_fresh: "map_of (fresh_of n rep) x = map_option (\<lambda>(r, f). (new_record r f n, f)) (map_of rep x)"
  by (induction rep) (auto simp: fresh_of_def)

lemma keys_fresh: "map fst (fresh_of n rep) = map fst rep"
  by (induction rep) (auto simp: fresh_of_def)

lemma fresh_ids: "list_all (replaces fr s) rep \<Longrightarrow> list_all (\<lambda>(x, r, f). td_id (tr_definition r) = x) (fresh_of n rep)"
  by (induction rep) (auto simp: fresh_of_def replaces_def copy_definition_def)

lemma map_of_unselected:
  assumes "registry_ok g"
  shows "map_of (filter (\<lambda>(_, r). \<not> matches s (tr_definition r)) (tools g)) x =
    (if x \<in> fst ` set (selected_tools s g) then None else map_of (tools g) x)"
proof -
  have "filter (\<lambda>(_, r). \<not> matches s (tr_definition r)) (tools g) = filter (\<lambda>e. fst e \<notin> fst ` set (selected_tools s g)) (tools g)"
  proof (rule filter_cong [OF refl])
    fix e assume "e \<in> set (tools g)"
    then have "map_of (tools g) (fst e) = Some (snd e)" using registry_okD(1) [OF assms] by simp
    then show "(case e of (_, r) \<Rightarrow> \<not> matches s (tr_definition r)) = (fst e \<notin> fst ` set (selected_tools s g))"
      using map_of_selected [OF assms, of "fst e" s] by (auto split: prod.splits)
  qed
  then show ?thesis by simp
qed

lemma swap_in_fields:
  fixes g :: "'h registry"
  assumes ok: "registry_ok g" and rep: "distinct (map fst rep)" "list_all (replaces fr s) rep"
  shows "map_of (tools (swap_in s rep g)) x =
      (case map_of rep x of Some (r, f) \<Rightarrow> Some (new_record r f (Suc (rg_revision g)))
       | None \<Rightarrow> if x \<in> fst ` set (selected_tools s g) then None else map_of (tools g) x)"
    and "map_of (structures (swap_in s rep g)) x =
      (case map_of rep x of Some (r, f) \<Rightarrow> Some f
       | None \<Rightarrow> if x \<in> fst ` set (selected_tools s g) then None else map_of (structures g) x)"
    and "unavailable (swap_in s rep g) = filter (\<lambda>e. fst e \<notin> set (selected_unavailable s g)) (unavailable g)"
    and "rg_revision (swap_in s rep g) = Suc (rg_revision g)"
    and "map_of (mcp_index (swap_in s rep g) i) x =
      (case map_of rep x of
         Some (r, f) \<Rightarrow> if instance_of (copy_definition f) = Some i then Some \<lparr>rs_structure = f, rs_revision = Suc (rg_revision g)\<rparr>
           else if x \<in> unlisted i (selected_tools s g) then None else indexed g i x
       | None \<Rightarrow> if x \<in> unlisted i (selected_tools s g) then None else indexed g i x)"
    and "mcp_revisions (swap_in s rep g) i =
      (if list_ex (lists_under i) (selected_tools s g) \<or> list_ex (\<lambda>(x, r, f). lists_under i (x, r)) (fresh_of (Suc (rg_revision g)) rep)
       then Suc (rg_revision g) else mcp_revisions g i)"
    and "\<not> list_ex (lists_under i) (selected_tools s g) \<Longrightarrow> \<not> list_ex (\<lambda>(x, r, f). lists_under i (x, r)) (fresh_of (Suc (rg_revision g)) rep)
       \<Longrightarrow> mcp_index (swap_in s rep g) i = mcp_index g i"
    and "distinct (map fst (tools (swap_in s rep g)))" "distinct (map fst (structures (swap_in s rep g)))"
    and "distinct (map fst (mcp_index (swap_in s rep g) i))"
proof -
  note D = registry_okD [OF ok]
  let ?F = "fresh_of (Suc (rg_revision g)) rep"
  let ?S = "selected_tools s g"
  let ?g2 = "fold unlist_tool ?S (g\<lparr>rg_revision := Suc (rg_revision g)\<rparr>)"
  let ?g3 = "fold (\<lambda>(i, r, f). index_change None (Some (r, f))) ?F ?g2"
  have F: "distinct (map fst ?F)" "list_all (\<lambda>(x, r, f). td_id (tr_definition r) = x) ?F"
    using rep(1) by (simp_all add: keys_fresh fresh_ids [OF rep(2)])
  have sw: "tools (swap_in s rep g) = fold (\<lambda>(i, r, f). AList.update i r) ?F (filter (\<lambda>(_, r). \<not> matches s (tr_definition r)) (tools g))"
    "structures (swap_in s rep g) = fold (\<lambda>(i, r, f). AList.update i f) ?F (structures ?g3)"
    "mcp_index (swap_in s rep g) = mcp_index ?g3" "mcp_revisions (swap_in s rep g) = mcp_revisions ?g3"
    "unavailable (swap_in s rep g) = fold AList.delete (selected_unavailable s g) (unavailable g)"
    "rg_revision (swap_in s rep g) = Suc (rg_revision g)"
    by (simp_all add: swap_in_def Let_def fresh_of_def fold_index_add_fields fold_unlist_tool)
  show "map_of (tools (swap_in s rep g)) x =
      (case map_of rep x of Some (r, f) \<Rightarrow> Some (new_record r f (Suc (rg_revision g)))
       | None \<Rightarrow> if x \<in> fst ` set ?S then None else map_of (tools g) x)"
    by (simp add: sw fold_update [OF F(1), of "\<lambda>r f. r"] map_of_fresh map_of_unselected [OF ok] split: option.split)
  show "map_of (structures (swap_in s rep g)) x =
      (case map_of rep x of Some (r, f) \<Rightarrow> Some f | None \<Rightarrow> if x \<in> fst ` set ?S then None else map_of (structures g) x)"
    by (simp add: sw fold_update [OF F(1), of "\<lambda>r f. f"] map_of_fresh fold_index_add_fields fold_unlist_tool split: option.split)
  show "unavailable (swap_in s rep g) = filter (\<lambda>e. fst e \<notin> set (selected_unavailable s g)) (unavailable g)"
    by (simp add: sw fold_delete)
  show "rg_revision (swap_in s rep g) = Suc (rg_revision g)" by (simp add: sw)
  show "map_of (mcp_index (swap_in s rep g) i) x =
      (case map_of rep x of
         Some (r, f) \<Rightarrow> if instance_of (copy_definition f) = Some i then Some \<lparr>rs_structure = f, rs_revision = Suc (rg_revision g)\<rparr>
           else if x \<in> unlisted i ?S then None else indexed g i x
       | None \<Rightarrow> if x \<in> unlisted i ?S then None else indexed g i x)"
    by (simp add: sw fold_index_add [OF F] map_of_fresh fold_unlist_tool D(9) split: option.split)
  show "mcp_revisions (swap_in s rep g) i = (if list_ex (lists_under i) ?S \<or> list_ex (\<lambda>(x, r, f). lists_under i (x, r)) ?F
       then Suc (rg_revision g) else mcp_revisions g i)"
    by (simp add: sw fold_index_add_fields fold_unlist_tool)
  show "mcp_index (swap_in s rep g) i = mcp_index g i"
    if "\<not> list_ex (lists_under i) ?S" "\<not> list_ex (\<lambda>(x, r, f). lists_under i (x, r)) ?F"
  proof -
    have "unlisted i ?S = {}" using that(1) by (auto simp: unlisted_def list_ex_iff)
    then show ?thesis by (simp add: sw fold_index_add_fields(7) [OF that(2)] fold_unlist_tool)
  qed
  show "distinct (map fst (tools (swap_in s rep g)))" "distinct (map fst (structures (swap_in s rep g)))"
    using fold_update_distinct [of "filter (\<lambda>(_, r). \<not> matches s (tr_definition r)) (tools g)" "\<lambda>r f. r" ?F]
      fold_update_distinct [of "structures ?g3" "\<lambda>r f. f" ?F] D(1,2) by (simp_all add: sw fold_index_add_fields fold_unlist_tool)
  show "distinct (map fst (mcp_index (swap_in s rep g) i))"
    using fold_index_add_distinct [of ?g2 i ?F] D(4) [of i] by (simp add: sw fold_unlist_tool)
qed

lemma swap_in_ok:
  assumes ok: "registry_ok g" and rep: "distinct (map fst rep)" "list_all (replaces fr s) rep"
    and free: "replace_conflicts s g (map fst rep) = []"
  shows "registry_ok (swap_in s rep g)"
proof (rule registry_okI)
  note D = registry_okD [OF ok] and W = swap_in_fields [OF ok rep]
  let ?g = "swap_in s rep g"
  have key: "fz_id f = x" if "map_of rep x = Some (r, f)" for x r f
    using rep(2) map_of_SomeD [OF that] by (auto simp: list_all_iff replaces_def)
  have free': "x \<in> fst ` set (selected_tools s g) \<or> map_of (tools g) x = None" "x \<in> set (selected_unavailable s g) \<or> map_of (unavailable g) x = None"
    if "map_of rep x = Some e" for x e
    using no_conflict [OF free, of x] that by (force dest: map_of_SomeD)+
  show "distinct (map fst (tools ?g))" "distinct (map fst (structures ?g))" "distinct (map fst (mcp_index ?g i))" for i
    by (rule W(8), rule W(9), rule W(10))
  show "distinct (map fst (unavailable ?g))" using D(3) by (simp add: W(3))
  show "map_option copy_definition (map_of (structures ?g) x) = map_option tr_definition (map_of (tools ?g) x)" for x
    using D(5) [of x] by (simp add: W(1,2) split: option.split)
  show "td_id (tr_definition r) = x \<and> tr_serial r \<le> rg_revision ?g" if "map_of (tools ?g) x = Some r" for x r
    using that D(6,7) [of x r] key [of x] by (auto simp: W(1,4) split: option.splits if_splits)
  show "map_of (tools ?g) x = None" if "map_of (unavailable ?g) x = Some u" for x u
  proof (cases "map_of rep x")
    case None
    then show ?thesis using that D(8) [of x u] by (simp add: W(1,3) split: if_splits)
  next
    case (Some e)
    then show ?thesis using that free'(2) [OF Some] by (auto simp: W(3) split: if_splits)
  qed
  show "mcp_revisions ?g i \<le> rg_revision ?g" for i using D(10) [of i] by (simp add: W(4,6) le_SucI)
  show "map_of (mcp_index ?g i) x = indexed ?g i x" for i x
  proof (cases "map_of rep x")
    case None
    then show ?thesis
      by (auto simp: W(1,2,5) indexed_def unlisted_selected [OF ok] map_of_selected [OF ok] split: option.splits)
  next
    case (Some e)
    obtain r f where e: "e = (r, f)" by (cases e)
    have "x \<in> unlisted i (selected_tools s g) \<or> indexed g i x = None"
      using free'(1) [OF Some] by (auto simp: unlisted_selected [OF ok] map_of_selected [OF ok] indexed_def split: if_splits)
    then show ?thesis by (auto simp: W(1,2,5) indexed_def Some e)
  qed
qed

lemma replace_ok:
  assumes ok: "registry_ok g" and run: "replace_by_metadata fr s recs g = Inr (g', n)"
  shows "registry_ok g'"
proof -
  from run obtain rep where rep: "replacement_of fr s recs [] = Inr rep" and free: "replace_conflicts s g (map fst rep) = []"
    and g': "g' = swap_in s rep g"
    by (auto simp: replace_by_metadata_def bindR_Inr_iff Let_def split: if_splits)
  have "distinct (map fst rep)" "list_all (replaces fr s) rep" using replacement_of_spec [OF rep] by auto
  with swap_in_ok [OF ok _ _ free] show ?thesis by (simp add: g')
qed

section \<open>What readers and listeners see\<close>

text \<open>A listener that applies the changes of every notice to its own table.\<close>

definition mirror :: "notice \<Rightarrow> (pystr \<rightharpoonup> tool_definition) \<Rightarrow> pystr \<rightharpoonup> tool_definition" where
  "mirror n m = fold (\<lambda>(x, c) m. m(x := c)) (nt_changes n) m"

text \<open>
  How a later registry relates to an earlier one: the revision of an instance grows whenever its bucket changes, and the
  notices in between turn the earlier definitions into the later ones.
\<close>

definition follows :: "'h registry \<Rightarrow> 'h registry \<Rightarrow> bool" where
  "follows g g' \<longleftrightarrow>
     (\<forall>i. mcp_revisions g i \<le> mcp_revisions g' i \<and> (mcp_revisions g' i = mcp_revisions g i \<longrightarrow> mcp_index g' i = mcp_index g i))
     \<and> (\<exists>ns. notices g' = notices g @ ns \<and> fold mirror ns (definitions g) = definitions g')"

lemma follows_refl: "follows g g"
  by (auto simp: follows_def intro: exI [of _ "[]"])

lemma follows_trans:
  assumes "follows g h" "follows h k"
  shows "follows g k"
proof -
  have "mcp_revisions g i \<le> mcp_revisions k i \<and> (mcp_revisions k i = mcp_revisions g i \<longrightarrow> mcp_index k i = mcp_index g i)" for i
  proof -
    have "mcp_revisions g i \<le> mcp_revisions h i" "mcp_revisions h i \<le> mcp_revisions k i"
      "mcp_revisions h i = mcp_revisions g i \<longrightarrow> mcp_index h i = mcp_index g i"
      "mcp_revisions k i = mcp_revisions h i \<longrightarrow> mcp_index k i = mcp_index h i"
      using assms by (simp_all add: follows_def)
    then show ?thesis by force
  qed
  moreover obtain ns ms where "notices h = notices g @ ns" "fold mirror ns (definitions g) = definitions h"
    "notices k = notices h @ ms" "fold mirror ms (definitions h) = definitions k"
    using assms by (auto simp: follows_def)
  then have "notices k = notices g @ (ns @ ms) \<and> fold mirror (ns @ ms) (definitions g) = definitions k" by simp
  ultimately show ?thesis unfolding follows_def by blast
qed

lemma fold_upd_map_of:
  "distinct (map fst cs) \<Longrightarrow> fold (\<lambda>(x, c) m. m(x := c)) cs m x = (case map_of cs x of Some c \<Rightarrow> c | None \<Rightarrow> m x)"
proof (induction cs arbitrary: m)
  case (Cons p cs)
  obtain a c where p: "p = (a, c)" by (cases p)
  have "map_of cs a = None" using Cons.prems by (simp add: map_of_eq_None_iff p)
  with Cons show ?case by (auto simp: p split: option.splits)
qed simp

lemma followsI:
  assumes "\<And>i. mcp_revisions g' i = rg_revision g + 1 \<or> mcp_revisions g' i = mcp_revisions g i \<and> mcp_index g' i = mcp_index g i"
    and "registry_ok g" and "notices g' = notices g @ [n]" and "distinct (map fst (nt_changes n))"
    and "\<And>x. (case map_of (nt_changes n) x of Some c \<Rightarrow> c | None \<Rightarrow> definitions g x) = definitions g' x"
  shows "follows g g'"
proof -
  have "mcp_revisions g i \<le> mcp_revisions g' i \<and> (mcp_revisions g' i = mcp_revisions g i \<longrightarrow> mcp_index g' i = mcp_index g i)" for i
    using assms(1) [of i] registry_okD(10) [OF assms(2), of i] by auto
  moreover have "fold mirror [n] (definitions g) = definitions g'"
    using assms(5) by (auto simp: mirror_def fold_upd_map_of [OF assms(4)])
  ultimately show ?thesis using assms(3) unfolding follows_def by blast
qed

lemma publish_follows:
  assumes ok: "registry_ok g"
  shows "follows g ((publish t f g)\<lparr>unavailable := u\<rparr>)"
proof (rule followsI [OF _ ok])
  let ?g = "(publish t f g)\<lparr>unavailable := u\<rparr>"
  show "mcp_revisions ?g i = rg_revision g + 1 \<or> mcp_revisions ?g i = mcp_revisions g i \<and> mcp_index ?g i = mcp_index g i" for i
    by (simp add: publish_index [OF ok])
  show "notices ?g = notices g @ [\<lparr>nt_changes = [(fz_id f, Some (copy_definition f))], nt_retired = []\<rparr>]"
    by (cases "map_of (tools g) (fz_id f)") (simp_all add: publish_def Let_def notify_catalog_def)
  show "(case map_of (nt_changes \<lparr>nt_changes = [(fz_id f, Some (copy_definition f))], nt_retired = []\<rparr>) x of Some c \<Rightarrow> c | None \<Rightarrow> definitions g x)
      = definitions ?g x" for x
    by (simp add: definitions_def publish_fields AList.update_conv')
qed simp

lemma register_follows: "registry_ok g \<Longrightarrow> register fr replace t g = Inr g' \<Longrightarrow> follows g g'"
  using publish_follows by (auto simp: register_def Let_def split: sum.splits if_splits)

lemma update_definition_follows:
  assumes ok: "registry_ok g" and up: "update_definition fr d g = Inr g'"
  shows "follows g g'"
proof -
  from up obtain f previous where "g' = publish previous f g"
    by (auto simp: update_definition_def Let_def split: sum.splits option.splits if_splits)
  then have "g' = (publish previous f g)\<lparr>unavailable := unavailable g'\<rparr>" by simp
  with publish_follows [OF ok] show ?thesis by metis
qed

lemma map_of_Nones: "map_of (map (\<lambda>i. (i, None)) xs) x = (if x \<in> set xs then Some None else None)"
  by (induction xs) auto

lemma not_unlisted: "\<not> list_ex (lists_under i) ps \<Longrightarrow> unlisted i ps = {}"
  by (auto simp: unlisted_def list_ex_iff)

lemma unregister_follows:
  assumes ok: "registry_ok g"
  shows "follows g (fst (unregister_by_metadata s retire g))"
proof -
  let ?S = "selected_tools s g"
  let ?changed = "remdups (map fst ?S @ (if retire then selected_unavailable s g else []))"
  let ?g = "fst (unregister_by_metadata s retire g)"
  show ?thesis
  proof (cases "?changed = []")
    case True
    then have "?S = []" by auto
    moreover have "fold AList.delete [] (unavailable g) = unavailable g" by simp
    ultimately have "?g = g" using True by (simp add: unregister_by_metadata_def Let_def)
    then show ?thesis by (simp add: follows_refl)
  next
    case False
    let ?n = "\<lparr>nt_changes = map (\<lambda>i. (i, None :: tool_definition option)) ?changed, nt_retired = (if retire then ?changed else [])\<rparr>"
    have g: "mcp_revisions ?g i = (if list_ex (lists_under i) ?S then rg_revision g + 1 else mcp_revisions g i)"
      "mcp_index ?g i = filter (\<lambda>e. fst e \<notin> unlisted i ?S) (mcp_index g i)"
      "tools ?g = filter (\<lambda>e. fst e \<notin> fst ` set ?S) (tools g)" "notices ?g = notices g @ [?n]" for i
      using False by (simp_all add: unregister_by_metadata_def Let_def fold_remove_tool notify_catalog_def)
    show ?thesis
    proof (rule followsI [OF _ ok g(4)])
      show "mcp_revisions ?g i = rg_revision g + 1 \<or> mcp_revisions ?g i = mcp_revisions g i \<and> mcp_index ?g i = mcp_index g i" for i
        by (simp add: g not_unlisted)
      show "distinct (map fst (nt_changes ?n))" by (simp add: comp_def)
      have gone: "map_of (tools g) x = None" if "x \<in> set (selected_unavailable s g)" for x
      proof -
        from that obtain f where "(x, f) \<in> set (unavailable g)" by (auto simp: selected_unavailable_def)
        then have "map_of (unavailable g) x = Some f" using registry_okD(3) [OF ok] by simp
        then show ?thesis by (rule registry_okD(8) [OF ok])
      qed
      have "x \<in> set ?changed \<longleftrightarrow> x \<in> fst ` set ?S \<or> retire \<and> x \<in> set (selected_unavailable s g)" for x by simp
      then show "(case map_of (nt_changes ?n) x of Some c \<Rightarrow> c | None \<Rightarrow> definitions g x) = definitions ?g x" for x
        using gone [of x] by (simp add: definitions_def g map_of_Nones del: set_remdups)
    qed
  qed
qed

lemma swap_in_notices:
  "notices (swap_in s rep g) = notices g @ [\<lparr>nt_changes =
     map (\<lambda>i. (i, None)) (filter (\<lambda>i. i \<notin> fst ` set rep) (remdups (map fst (selected_tools s g) @ selected_unavailable s g)))
       @ map (\<lambda>(i, r, f). (i, Some (copy_definition f))) rep,
     nt_retired = filter (\<lambda>i. i \<notin> fst ` set rep) (remdups (map fst (selected_tools s g) @ selected_unavailable s g))\<rparr>]"
proof -
  have "map fst (filter (\<lambda>c. snd c = None) (map (\<lambda>i. (i, None)) xs @ map (\<lambda>(i, r, f). (i, Some (copy_definition f))) rep)) = xs" for xs
    by (induction xs) (auto simp: filter_empty_conv)
  moreover have "notices (fold (\<lambda>x. index_change None (Some (snd x))) ps h) = notices h"
    for ps :: "(pystr \<times> 'a tool_record \<times> frozen_tool) list" and h :: "'a registry"
    by (induction ps arbitrary: h) auto
  ultimately show ?thesis
    by (simp add: swap_in_def Let_def notify_catalog_def fold_index_add_fields fold_unlist_tool comp_def case_prod_beta')
qed

lemma swap_in_follows:
  assumes ok: "registry_ok g" and rep: "distinct (map fst rep)" "list_all (replaces fr s) rep"
    and free: "replace_conflicts s g (map fst rep) = []"
  shows "follows g (swap_in s rep g)"
proof (rule followsI [OF _ ok swap_in_notices])
  note W = swap_in_fields [OF ok rep]
  let ?g = "swap_in s rep g"
  let ?gone = "filter (\<lambda>i. i \<notin> fst ` set rep) (remdups (map fst (selected_tools s g) @ selected_unavailable s g))"
  let ?changes = "map (\<lambda>i. (i, None :: tool_definition option)) ?gone @ map (\<lambda>(i, r, f). (i, Some (copy_definition f))) rep"
  show "mcp_revisions ?g i = rg_revision g + 1 \<or> mcp_revisions ?g i = mcp_revisions g i \<and> mcp_index ?g i = mcp_index g i" for i
    using W(6,7) [of i] by auto
  have keys: "map fst ?changes = ?gone @ map fst rep" by (simp add: comp_def case_prod_beta')
  have "distinct (?gone @ map fst rep)" using rep(1) by auto
  then show "distinct (map fst (nt_changes \<lparr>nt_changes = ?changes, nt_retired = ?gone\<rparr>))" by (simp only: keys notice.simps)
  have mr: "map_of (map (\<lambda>(i, r, f). (i, Some (copy_definition f))) rep) x = map_option (\<lambda>(r, f). Some (copy_definition f)) (map_of rep x)" for x
    by (induction rep) auto
  have gone: "map_of (tools g) x = None" if "x \<in> set (selected_unavailable s g)" for x
  proof -
    from that obtain f where "(x, f) \<in> set (unavailable g)" by (auto simp: selected_unavailable_def)
    then have "map_of (unavailable g) x = Some f" using registry_okD(3) [OF ok] by simp
    then show ?thesis by (rule registry_okD(8) [OF ok])
  qed
  have mem: "x \<in> fst ` set rep \<longleftrightarrow> map_of rep x \<noteq> None" for x by (simp add: map_of_eq_None_iff)
  have "x \<in> set ?gone \<longleftrightarrow> (x \<in> fst ` set (selected_tools s g) \<or> x \<in> set (selected_unavailable s g)) \<and> map_of rep x = None" for x
    using mem [of x] by auto
  then have mo: "map_of ?changes x = (case map_of rep x of Some (r, f) \<Rightarrow> Some (Some (copy_definition f))
      | None \<Rightarrow> if x \<in> fst ` set (selected_tools s g) \<or> x \<in> set (selected_unavailable s g) then Some None else None)" for x
    unfolding map_of_append map_add_def mr map_of_Nones by (simp split: option.split)
  show "(case map_of (nt_changes \<lparr>nt_changes = ?changes, nt_retired = ?gone\<rparr>) x of Some c \<Rightarrow> c | None \<Rightarrow> definitions g x) = definitions ?g x" for x
    using gone [of x] by (simp only: mo notice.simps) (auto simp: definitions_def W(1) split: option.splits if_splits)
qed

lemma replace_follows:
  assumes ok: "registry_ok g" and run: "replace_by_metadata fr s recs g = Inr (g', n)"
  shows "follows g g'"
proof -
  from run obtain rep where rep: "replacement_of fr s recs [] = Inr rep" and free: "replace_conflicts s g (map fst rep) = []"
    and g': "g' = swap_in s rep g"
    by (auto simp: replace_by_metadata_def bindR_Inr_iff Let_def split: if_splits)
  have "distinct (map fst rep)" "list_all (replaces fr s) rep" using replacement_of_spec [OF rep] by auto
  with swap_in_follows [OF ok _ _ free] show ?thesis by (simp add: g')
qed

section \<open>Operations as steps\<close>

datatype 'h registry_op =
    Register bool "'h tool_record"
  | Update tool_definition
  | Unregister selector bool
  | Replace selector "'h tool_record list"

definition changed_by :: "'h registry \<Rightarrow> registry_error + 'h registry \<Rightarrow> 'h registry" where
  "changed_by g r = (case r of Inl _ \<Rightarrow> g | Inr g' \<Rightarrow> g')"

fun registry_exec :: "(pyfloat \<Rightarrow> pystr) \<Rightarrow> 'h registry_op \<Rightarrow> 'h registry \<Rightarrow> 'h registry" where
  "registry_exec fr (Register replace t) g = changed_by g (register fr replace t g)"
| "registry_exec fr (Update d) g = changed_by g (update_definition fr d g)"
| "registry_exec fr (Unregister s retire) g = fst (unregister_by_metadata s retire g)"
| "registry_exec fr (Replace s recs) g = changed_by g (bindR (replace_by_metadata fr s recs g) (\<lambda>x. Inr (fst x)))"

definition registry_run :: "(pyfloat \<Rightarrow> pystr) \<Rightarrow> 'h registry_op list \<Rightarrow> 'h registry \<Rightarrow> 'h registry" where
  "registry_run fr ops g = fold (registry_exec fr) ops g"

lemma registry_exec_ok: "registry_ok g \<Longrightarrow> registry_ok (registry_exec fr op g) \<and> follows g (registry_exec fr op g)"
proof (cases op)
  case (Register b t)
  then show "registry_ok g \<Longrightarrow> ?thesis" using register_ok register_follows
    by (cases "register fr b t g") (auto simp: changed_by_def follows_refl)
next
  case (Update d)
  then show "registry_ok g \<Longrightarrow> ?thesis" using update_definition_ok update_definition_follows
    by (cases "update_definition fr d g") (auto simp: changed_by_def follows_refl)
next
  case (Unregister s b)
  then show "registry_ok g \<Longrightarrow> ?thesis" using unregister_ok unregister_follows by auto
next
  case (Replace s recs)
  then show "registry_ok g \<Longrightarrow> ?thesis" using replace_ok replace_follows
    by (cases "replace_by_metadata fr s recs g") (auto simp: changed_by_def follows_refl)
qed

interpretation registry_machine: machine "\<lambda>g. g = empty_registry" "\<lambda>g op g'. g' = registry_exec fr op g" registry_ok
  for fr :: "pyfloat \<Rightarrow> pystr"
  by unfold_locales (simp_all add: registry_ok_empty registry_exec_ok)

lemma registry_run_run: "registry_machine.run fr g ops (registry_run fr ops g)"
  by (induction ops arbitrary: g) (auto simp: registry_run_def intro: registry_machine.run.intros)

lemma registry_run_ok: "registry_ok (registry_run fr ops empty_registry)"
  using registry_machine.run_from_init [OF registry_run_run] by blast

lemma registry_run_follows: "registry_ok g \<Longrightarrow> follows g (registry_run fr ops g)"
proof (induction ops arbitrary: g)
  case (Cons op ops)
  have "follows g (registry_exec fr op g)" "registry_ok (registry_exec fr op g)" using registry_exec_ok [OF Cons.prems] by auto
  with Cons.IH [of "registry_exec fr op g"] show ?case by (auto simp: registry_run_def intro: follows_trans)
qed (simp add: registry_run_def follows_refl)

section \<open>Properties\<close>

text \<open>
  C10: every reachable registry is consistent.  After any sequence of registrations, updates, removals and replacements,
  ids are unique, the frozen structure of every tool copies back to its registered definition, no tool is both registered
  and unavailable, the index lists under every server instance exactly its MCP tools with the structure and revision of
  their current record, and no instance revision is ahead of the registry's.
\<close>
theorem registry_invariant: "registry_ok (registry_run fr ops empty_registry)"
  using registry_machine.run_from_init [OF registry_run_run] by blast

lemma map_of_ran: "distinct (map fst al) \<Longrightarrow> set (map snd al) = ran (map_of al)"
  by (simp add: ran_distinct)

lemma mcp_snapshot_stays_current_parts:
  assumes snap: "mcp_snapshot (registry_run fr ops empty_registry) ids n = Inr (revs, snap)"
  shows "set snap = {e. \<exists>i \<in> set ids. \<exists>x. indexed (registry_run fr ops empty_registry) i x = Some e}"
    and "mcp_snapshot_current (registry_run fr (ops @ later) empty_registry) revs \<Longrightarrow>
      mcp_snapshot (registry_run fr (ops @ later) empty_registry) ids n = Inr (revs, snap)"
proof -
  let ?g = "registry_run fr ops empty_registry" and ?h = "registry_run fr (ops @ later) empty_registry"
  have ok: "registry_ok ?g" by (rule registry_run_ok)
  have bucket: "set (map snd (mcp_index ?g i)) = {e. \<exists>x. indexed ?g i x = Some e}" for i
    unfolding map_of_ran [OF registry_okD(4) [OF ok]] ran_def by (simp add: registry_okD(9) [OF ok])
  show "set snap = {e. \<exists>i \<in> set ids. \<exists>x. indexed ?g i x = Some e}"
  proof -
    have "snap = concat (map (\<lambda>i. map snd (mcp_index ?g i)) (sort (remdups ids)))"
      using snap by (simp add: mcp_snapshot_def Let_def split: if_splits)
    then have "set snap = (\<Union>i \<in> set ids. set (map snd (mcp_index ?g i)))" by simp
    then show ?thesis unfolding bucket by blast
  qed
  assume cur: "mcp_snapshot_current ?h revs"
  have "follows ?g ?h" using registry_run_follows [OF ok, of fr later] by (simp add: registry_run_def)
  then have same: "mcp_revisions ?h i = mcp_revisions ?g i \<Longrightarrow> mcp_index ?h i = mcp_index ?g i" for i by (simp add: follows_def)
  have revs: "revs = map (\<lambda>i. (i, mcp_revisions ?g i)) (sort (remdups ids))"
    using snap by (simp add: mcp_snapshot_def Let_def split: if_splits)
  have "mcp_revisions ?h i = mcp_revisions ?g i" if "i \<in> set (sort (remdups ids))" for i
    using cur that by (auto simp: mcp_snapshot_current_def revs list_all_iff)
  with same have "\<And>i. i \<in> set (sort (remdups ids)) \<Longrightarrow> mcp_revisions ?h i = mcp_revisions ?g i \<and> mcp_index ?h i = mcp_index ?g i" by blast
  then have "map (\<lambda>i. (i, mcp_revisions ?h i)) (sort (remdups ids)) = map (\<lambda>i. (i, mcp_revisions ?g i)) (sort (remdups ids))"
    "map (\<lambda>i. map snd (mcp_index ?h i)) (sort (remdups ids)) = map (\<lambda>i. map snd (mcp_index ?g i)) (sort (remdups ids))"
    "map (\<lambda>i. length (mcp_index ?h i)) (sort (remdups ids)) = map (\<lambda>i. length (mcp_index ?g i)) (sort (remdups ids))"
    by (auto intro!: map_cong)
  then have "mcp_snapshot ?h ids n = mcp_snapshot ?g ids n" by (simp only: mcp_snapshot_def Let_def)
  then show "mcp_snapshot ?h ids n = Inr (revs, snap)" by (simp add: snap)
qed

text \<open>
  A snapshot of some instances lists exactly their registered MCP tools, and while the check of its revisions
  succeeds, whatever happened to the registry since, a new snapshot is the same.
\<close>
lemma mcp_snapshot_stays_current:
  assumes "mcp_snapshot (registry_run fr ops empty_registry) ids n = Inr (revs, snap)"
  shows "set snap = {e. \<exists>i \<in> set ids. \<exists>x. indexed (registry_run fr ops empty_registry) i x = Some e}
    \<and> (mcp_snapshot_current (registry_run fr (ops @ later) empty_registry) revs \<longrightarrow>
      mcp_snapshot (registry_run fr (ops @ later) empty_registry) ids n = Inr (revs, snap))"
  using mcp_snapshot_stays_current_parts [OF assms] by blast

definition demo_mcp :: tool_definition where
  "demo_mcp = demo_tool\<lparr>td_source := lit ''mcp'', td_metadata := PDict [(PStr (lit ''server_id''), PStr (lit ''s''))]\<rparr>"

definition demo_record :: "nat tool_record" where
  "demo_record = \<lparr>tr_definition = demo_mcp, tr_handler = 0, tr_contextual = False, tr_preparer = None, tr_serial = 0\<rparr>"

lemma demo_mcp_frozen: "\<exists>f. freeze_tool_definition fr demo_mcp = Inr f \<and> copy_definition f = demo_mcp \<and> fz_id f = lit ''t''"
proof -
  have size: "checked_json_size fr structure_limits (PDict (field_envelope demo_mcp)) = Inr 133"
    unfolding checked_json_size_iff
    by (simp add: demo_mcp_def demo_tool_def field_envelope_def json_eval lit_def structure_limits_def
        MAX_TOOL_STRUCTURE_BYTES_def MAX_SCHEMA_NODES_def MAX_SCHEMA_DEPTH_def)
  have "is_ok (checked_json_size fr schema_limits (td_input_schema demo_mcp))"
    "is_ok (checked_json_size fr metadata_limits (td_metadata demo_mcp))"
    unfolding is_ok_iff checked_json_size_iff
    by (simp_all add: demo_mcp_def demo_tool_def json_eval lit_def schema_limits_def metadata_limits_def
        MAX_SCHEMA_BYTES_def MAX_METADATA_BYTES_def MAX_SCHEMA_NODES_def MAX_SCHEMA_DEPTH_def)
  with size have "check_tool_structure fr (field_envelope demo_mcp) = Inr 133"
    unfolding check_tool_structure_iff by (simp add: demo_mcp_def demo_tool_def dict_get_def lit_def)
  from freeze_tool_definition_complete [OF this] obtain f where f: "freeze_tool_definition fr demo_mcp = Inr f"
    by (auto simp: MAX_TOOL_STRUCTURE_BYTES_def)
  have c: "copy_definition f = demo_mcp" using freeze_tool_definition_sound [OF f] by simp
  have "fz_id f = td_id (copy_definition f)" by simp
  also have "\<dots> = lit ''t''" unfolding c by (simp add: demo_mcp_def demo_tool_def)
  finally show ?thesis using f c by blast
qed

lemma mcp_snapshot_stays_current_witness:
  "\<exists>f. copy_definition f = demo_mcp \<and> mcp_snapshot (registry_run (\<lambda>_. [])
       ([Register False demo_record] @ [Unregister \<lparr>sel_key = lit ''server_id'', sel_value = lit ''other'', sel_source = None\<rparr> True])
       empty_registry) [lit ''s''] 5 = Inr ([(lit ''s'', 1)], [\<lparr>rs_structure = f, rs_revision = 1\<rparr>])"
proof -
  obtain f where f: "freeze_tool_definition (\<lambda>_. []) demo_mcp = Inr f" "copy_definition f = demo_mcp" "fz_id f = lit ''t''"
    using demo_mcp_frozen by blast
  have meta: "meta_get demo_mcp (lit ''server_id'') = PStr (lit ''s'')"
    by (simp add: meta_get_def demo_mcp_def dict_get_none_def dict_get_def)
  have inst: "instance_of demo_mcp = Some (lit ''s'')" by (simp add: instance_of_def meta) (simp add: demo_mcp_def)
  let ?g = "registry_run (\<lambda>_. []) [Register False demo_record] empty_registry"
  let ?later = "[Unregister \<lparr>sel_key = lit ''server_id'', sel_value = lit ''other'', sel_source = None\<rparr> True]"
  have reg: "register (\<lambda>_. []) False demo_record empty_registry = Inr ((publish demo_record f empty_registry)\<lparr>unavailable := []\<rparr>)"
    by (simp add: register_def Let_def demo_record_def f(1) publish_fields) (simp add: empty_registry_def)
  have g: "?g = (publish demo_record f empty_registry)\<lparr>unavailable := []\<rparr>"
    by (simp add: registry_run_def changed_by_def reg)
  have idx: "mcp_index ?g (lit ''s'') = [(lit ''t'', \<lparr>rs_structure = f, rs_revision = 1\<rparr>)]" "mcp_revisions ?g (lit ''s'') = 1"
    unfolding g by (simp_all add: publish_index [OF registry_ok_empty] f inst was_under_def Let_def) (simp_all add: empty_registry_def)
  have snap: "mcp_snapshot ?g [lit ''s''] 5 = Inr ([(lit ''s'', 1)], [\<lparr>rs_structure = f, rs_revision = 1\<rparr>])"
    by (simp add: mcp_snapshot_def idx)
  have t: "tools ?g = [(lit ''t'', new_record demo_record f 1)]" "unavailable ?g = []"
    unfolding g by (simp_all add: publish_fields f(3)) (simp add: empty_registry_def)
  have "fst (unregister_by_metadata \<lparr>sel_key = lit ''server_id'', sel_value = lit ''other'', sel_source = None\<rparr> True ?g) = ?g"
    by (simp add: unregister_by_metadata_def selected_tools_def selected_unavailable_def t matches_def f(2) meta)
  then have "registry_run (\<lambda>_. []) ([Register False demo_record] @ ?later) empty_registry = ?g" by (simp add: registry_run_def)
  then have "mcp_snapshot_current (registry_run (\<lambda>_. []) ([Register False demo_record] @ ?later) empty_registry) [(lit ''s'', 1)]"
    by (simp add: mcp_snapshot_current_def idx)
  from mcp_snapshot_stays_current [OF snap, THEN conjunct2, rule_format, OF this] f(2) show ?thesis by blast
qed

lemma mirror_subscribe:
  assumes "registry_ok g"
  shows "mirror (subscribe_catalog g) Map.empty = definitions g"
proof
  fix x
  have "map_of (map (\<lambda>(x, r). (x, Some (tr_definition r))) ts) x = map_option (\<lambda>r. Some (tr_definition r)) (map_of ts x)"
    for ts :: "(pystr \<times> 'a tool_record) list" by (induction ts) auto
  moreover have "distinct (map fst (map (\<lambda>(x, r). (x, Some (tr_definition r))) (tools g)))"
    using registry_okD(1) [OF assms] by (simp add: comp_def case_prod_beta')
  ultimately show "mirror (subscribe_catalog g) Map.empty x = definitions g x"
    by (simp add: mirror_def subscribe_catalog_def fold_upd_map_of definitions_def split: option.split)
qed

text \<open>
  C25: listeners follow the registry.  A listener that subscribes at any moment and applies its seed and every later notice
  to its own table has exactly the registry's current definitions, whatever happened in between.
\<close>
theorem listeners_follow_registry:
  "\<exists>ns. notices (registry_run fr (ops @ later) empty_registry) = notices (registry_run fr ops empty_registry) @ ns
     \<and> fold mirror (subscribe_catalog (registry_run fr ops empty_registry) # ns) Map.empty = definitions (registry_run fr (ops @ later) empty_registry)"
  using registry_run_follows [OF registry_run_ok, of fr ops fr later] mirror_subscribe [OF registry_run_ok, of fr ops]
  by (simp add: registry_run_def follows_def)

lemma replace_by_metadata_exact_parts:
  assumes ok: "registry_ok g" and run: "replace_by_metadata fr s recs g = Inr (g', removed, added)"
  shows "definitions g' x =
      (case find (\<lambda>r. td_id (tr_definition r) = x) recs of
         Some r \<Rightarrow> Some (tr_definition r)
       | None \<Rightarrow> (case definitions g x of None \<Rightarrow> None | Some d \<Rightarrow> if matches s d then None else Some d))"
    and "map_option tr_handler (map_of (tools g') x) =
      (case find (\<lambda>r. td_id (tr_definition r) = x) recs of
         Some r \<Rightarrow> Some (tr_handler r)
       | None \<Rightarrow> (case map_of (tools g) x of None \<Rightarrow> None | Some q \<Rightarrow> if matches s (tr_definition q) then None else Some (tr_handler q)))"
    and "removed = card {x. \<exists>d. definitions g x = Some d \<and> matches s d} \<and> added = length recs \<and> distinct (map (\<lambda>r. td_id (tr_definition r)) recs)"
    and "\<forall>r \<in> set recs. matches s (tr_definition r) \<and> (\<forall>d. definitions g (td_id (tr_definition r)) = Some d \<longrightarrow> matches s d)"
proof -
  from run obtain rep where rep: "replacement_of fr s recs [] = Inr rep" and free: "replace_conflicts s g (map fst rep) = []"
    and out: "g' = swap_in s rep g" "removed = length (selected_tools s g)" "added = length rep"
    by (auto simp: replace_by_metadata_def bindR_Inr_iff Let_def split: if_splits)
  have R: "distinct (map fst rep)" "list_all (replaces fr s) rep" "map (\<lambda>e. fst (snd e)) rep = recs"
    using replacement_of_spec [OF rep] by auto
  note W = swap_in_fields [OF ok R(1,2)]
  have copy: "copy_definition f = tr_definition r" if "(x, r, f) \<in> set rep" for x r f
    using that R(2) freeze_tool_definition_sound by (auto simp: list_all_iff replaces_def)
  have key: "td_id (tr_definition r) = x" "matches s (tr_definition r)" if "(x, r, f) \<in> set rep" for x r f
    using that R(2) copy [OF that] copy_definition_id(1) [of f] by (auto simp: list_all_iff replaces_def simp del: copy_definition_id)
  have fnd: "map_option fst (map_of es x) = find (\<lambda>r. td_id (tr_definition r) = x) (map (\<lambda>e. fst (snd e)) es)" if "set es \<subseteq> set rep" for es
    using that by (induction es) (auto dest: key(1))
  have find: "find (\<lambda>r. td_id (tr_definition r) = x) recs = map_option fst (map_of rep x)"
    using fnd [OF subset_refl] by (simp only: R(3))
  have sel: "x \<in> fst ` set (selected_tools s g) \<longleftrightarrow> (\<exists>d. definitions g x = Some d \<and> matches s d)" for x
    unfolding map_of_selected [OF ok] definitions_def by auto
  show "definitions g' x = (case find (\<lambda>r. td_id (tr_definition r) = x) recs of Some r \<Rightarrow> Some (tr_definition r)
       | None \<Rightarrow> (case definitions g x of None \<Rightarrow> None | Some d \<Rightarrow> if matches s d then None else Some d))"
    unfolding find using sel [of x] copy [OF map_of_SomeD [of rep x]]
    by (auto simp: definitions_def out(1) W(1) split: option.splits)
  show "map_option tr_handler (map_of (tools g') x) = (case find (\<lambda>r. td_id (tr_definition r) = x) recs of Some r \<Rightarrow> Some (tr_handler r)
       | None \<Rightarrow> (case map_of (tools g) x of None \<Rightarrow> None | Some q \<Rightarrow> if matches s (tr_definition q) then None else Some (tr_handler q)))"
    unfolding find using sel [of x]
    by (auto simp: definitions_def out(1) W(1) new_record_def split: option.splits)
  have "card (fst ` set (selected_tools s g)) = length (selected_tools s g)"
    using distinct_card [OF selected_distinct [OF ok, of s]] by simp
  moreover have "fst ` set (selected_tools s g) = {x. \<exists>d. definitions g x = Some d \<and> matches s d}" using sel by blast
  moreover have "map (\<lambda>r. td_id (tr_definition r)) recs = map fst rep"
    using key(1) by (auto simp: R(3) [symmetric])
  moreover have "length rep = length recs" using arg_cong [OF R(3), of length] by simp
  ultimately show "removed = card {x. \<exists>d. definitions g x = Some d \<and> matches s d} \<and> added = length recs
      \<and> distinct (map (\<lambda>r. td_id (tr_definition r)) recs)" using out R(1) by simp
  show "\<forall>r \<in> set recs. matches s (tr_definition r) \<and> (\<forall>d. definitions g (td_id (tr_definition r)) = Some d \<longrightarrow> matches s d)"
  proof
    fix r assume "r \<in> set recs"
    then obtain x f where e: "(x, r, f) \<in> set rep" unfolding R(3) [symmetric] by force
    then have "x \<in> set (map fst rep)" by force
    from no_conflict(1) [OF free this] have "\<forall>d. definitions g x = Some d \<longrightarrow> matches s d"
      using sel [of x] by (auto simp: definitions_def)
    then show "matches s (tr_definition r) \<and> (\<forall>d. definitions g (td_id (tr_definition r)) = Some d \<longrightarrow> matches s d)"
      using key [OF e] by simp
  qed
qed

text \<open>
  A replacement swaps exactly the selected tools.  When it is accepted, the definitions are afterwards the given ones
  and those the selection did not match, every given tool has its own handler, the counts are right, the given ids are
  distinct, and every given tool satisfies the selection and takes no id of a tool outside it.
\<close>
lemma replace_by_metadata_exact:
  assumes "registry_ok g" and "replace_by_metadata fr s recs g = Inr (g', removed, added)"
  shows "definitions g' x =
      (case find (\<lambda>r. td_id (tr_definition r) = x) recs of
         Some r \<Rightarrow> Some (tr_definition r)
       | None \<Rightarrow> (case definitions g x of None \<Rightarrow> None | Some d \<Rightarrow> if matches s d then None else Some d))
    \<and> map_option tr_handler (map_of (tools g') x) =
      (case find (\<lambda>r. td_id (tr_definition r) = x) recs of
         Some r \<Rightarrow> Some (tr_handler r)
       | None \<Rightarrow> (case map_of (tools g) x of None \<Rightarrow> None | Some q \<Rightarrow> if matches s (tr_definition q) then None else Some (tr_handler q)))
    \<and> removed = card {x. \<exists>d. definitions g x = Some d \<and> matches s d} \<and> added = length recs \<and> distinct (map (\<lambda>r. td_id (tr_definition r)) recs)
    \<and> (\<forall>r \<in> set recs. matches s (tr_definition r) \<and> (\<forall>d. definitions g (td_id (tr_definition r)) = Some d \<longrightarrow> matches s d))"
  using replace_by_metadata_exact_parts [OF assms] by blast

lemma replace_by_metadata_exact_witness:
  "\<exists>g'. replace_by_metadata (\<lambda>_. []) \<lparr>sel_key = lit ''server_id'', sel_value = lit ''s'', sel_source = Some (lit ''mcp'')\<rparr> [demo_record] empty_registry
      = Inr (g', 0, 1) \<and> definitions g' (lit ''t'') = Some demo_mcp \<and> definitions g' (lit ''u'') = None"
proof -
  let ?s = "\<lparr>sel_key = lit ''server_id'', sel_value = lit ''s'', sel_source = Some (lit ''mcp'')\<rparr>"
  obtain f where f: "freeze_tool_definition (\<lambda>_. []) demo_mcp = Inr f" "copy_definition f = demo_mcp" "fz_id f = lit ''t''"
    using demo_mcp_frozen by blast
  have m: "meta_get demo_mcp (lit ''server_id'') = PStr (lit ''s'')" "td_source demo_mcp = lit ''mcp''" "td_id demo_mcp = lit ''t''"
    by (simp_all add: meta_get_def demo_mcp_def demo_tool_def dict_get_none_def dict_get_def)
  have "replacement_of (\<lambda>_. []) ?s [demo_record] [] = Inr [(lit ''t'', demo_record, f)]"
    by (simp add: demo_record_def f m Let_def)
  moreover have "replace_conflicts ?s (empty_registry :: nat registry) [lit ''t''] = []" "selected_tools ?s (empty_registry :: nat registry) = []"
    by (simp_all add: replace_conflicts_def empty_registry_def selected_tools_def)
  ultimately obtain g' where g': "replace_by_metadata (\<lambda>_. []) ?s [demo_record] empty_registry = Inr (g', 0, 1)"
    by (simp add: replace_by_metadata_def)
  from replace_by_metadata_exact [OF registry_ok_empty g', of "lit ''t''", THEN conjunct1]
    replace_by_metadata_exact [OF registry_ok_empty g', of "lit ''u''", THEN conjunct1]
  have "definitions g' (lit ''t'') = Some demo_mcp" "definitions g' (lit ''u'') = None"
    by (simp_all add: demo_record_def m) (simp add: definitions_def empty_registry_def)
  with g' show ?thesis by blast
qed

end
