(* ===== verification/Call_Limits.thy ===== *)
theory Call_Limits
  imports Access_Decision "HOL-Library.Multiset"
begin

text \<open>
  The rate and concurrency limits of \<^verbatim>\<open>access_control.py\<close> (\<^verbatim>\<open>_acquire_external_invocation\<close>,
  \<^verbatim>\<open>_release_external_invocation\<close>).  The dictionaries of windows and of active calls are maps, a \<^verbatim>\<open>deque\<close> is a list with
  the oldest admission first, and a reading of \<^verbatim>\<open>monotonic\<close> is an argument.  The reference the code is compared with is the
  list of all admissions so far and the multiset of calls that were not released.  The source reads the clock just before it takes
  the lock, so that two concurrent calls may take the lock in the other order than their readings; the runs below are those whose
  readings come in the order of the lock.
\<close>

section \<open>The limiter\<close>

record limiter =
  windows :: "pystr \<rightharpoonup> rat list"
  active_calls :: "pystr \<rightharpoonup> int"

datatype limit_error = Limits_unavailable | Rate_exceeded | Concurrency_exceeded

definition empty_limiter :: limiter where
  "empty_limiter = \<lparr>windows = Map.empty, active_calls = Map.empty\<rparr>"

text \<open>The grant a call is counted under, its calls per minute and its concurrency; \<open>None\<close> for an unlimited credential.\<close>

definition call_limits :: "principal \<Rightarrow> (pystr \<times> int \<times> int) option" where
  "call_limits p =
     (if auth_type p = lit ''token'' then
        (if token_rate p = 0 \<and> token_concurrency p = 0 then None
         else Some (lit ''api-token:'' @ (case token_id p of None \<Rightarrow> lit ''None'' | Some i \<Rightarrow> i), token_rate p, token_concurrency p))
      else if auth_type p = lit ''oauth'' then
        Some (case external_grant_id p of None \<Rightarrow> [] | Some i \<Rightarrow> i, external_rate p, external_concurrency p)
      else None)"

definition active_count :: "limiter \<Rightarrow> pystr \<Rightarrow> int" where
  "active_count L k = (case active_calls L k of None \<Rightarrow> 0 | Some n \<Rightarrow> n)"

definition window_of :: "limiter \<Rightarrow> pystr \<Rightarrow> rat list" where
  "window_of L k = (case windows L k of None \<Rightarrow> [] | Some w \<Rightarrow> w)"

text \<open>The sweep over all windows: admissions older than a minute go, and a grant with nothing left is forgotten.\<close>

definition idle :: "rat \<Rightarrow> limiter \<Rightarrow> pystr \<Rightarrow> bool" where
  "idle now L k \<longleftrightarrow> windows L k \<noteq> None \<and> dropWhile (\<lambda>t. t \<le> now - 60) (window_of L k) = [] \<and> active_count L k = 0"

definition sweep_windows :: "rat \<Rightarrow> limiter \<Rightarrow> limiter" where
  "sweep_windows now L =
     \<lparr>windows = (\<lambda>k. if idle now L k then None else map_option (dropWhile (\<lambda>t. t \<le> now - 60)) (windows L k)),
      active_calls = (\<lambda>k. if idle now L k then None else active_calls L k)\<rparr>"

definition admit :: "rat \<Rightarrow> pystr \<Rightarrow> int \<Rightarrow> int \<Rightarrow> limiter \<Rightarrow> limiter \<times> (limit_error + pystr option)" where
  "admit now g rate concurrency L0 =
     (let L1 = sweep_windows now L0;
          L = L1\<lparr>windows := (windows L1)(g \<mapsto> window_of L1 g)\<rparr>
      in if int (length (window_of L g)) \<ge> rate then (L, Inl Rate_exceeded)
         else if active_count L g \<ge> concurrency then (L, Inl Concurrency_exceeded)
         else (L\<lparr>windows := (windows L)(g \<mapsto> window_of L g @ [now]), active_calls := (active_calls L)(g \<mapsto> active_count L g + 1)\<rparr>,
               Inr (Some g)))"

definition acquire_external_invocation :: "rat \<Rightarrow> principal \<Rightarrow> limiter \<Rightarrow> limiter \<times> (limit_error + pystr option)" where
  "acquire_external_invocation now p L =
     (case call_limits p of
        None \<Rightarrow> (L, Inr None)
      | Some (g, rate, concurrency) \<Rightarrow>
          if g = [] \<or> rate < 1 \<or> concurrency < 1 then (L, Inl Limits_unavailable) else admit now g rate concurrency L)"

text \<open>\<open>None\<close> is the \<^verbatim>\<open>KeyError\<close> of an unknown grant.\<close>

definition release_external_invocation :: "pystr option \<Rightarrow> limiter \<Rightarrow> limiter option" where
  "release_external_invocation lease L =
     (case lease of
        None \<Rightarrow> Some L
      | Some g \<Rightarrow> (case active_calls L g of None \<Rightarrow> None | Some n \<Rightarrow> Some (L\<lparr>active_calls := (active_calls L)(g \<mapsto> n - 1)\<rparr>)))"

section \<open>The reference\<close>

text \<open>All admissions (grant and time, oldest first), the calls not yet released, and the time of the last admission request.\<close>

record call_log =
  admitted :: "(pystr \<times> rat) list"
  held :: "pystr multiset"
  clock :: rat

definition empty_log :: call_log where
  "empty_log = \<lparr>admitted = [], held = {#}, clock = 0\<rparr>"

definition recent :: "rat \<Rightarrow> call_log \<Rightarrow> pystr \<Rightarrow> rat list" where
  "recent now l g = filter (\<lambda>t. now - 60 < t) (map snd (filter (\<lambda>e. fst e = g) (admitted l)))"

definition spec_acquire :: "rat \<Rightarrow> principal \<Rightarrow> call_log \<Rightarrow> limit_error + pystr option" where
  "spec_acquire now p l =
     (case call_limits p of
        None \<Rightarrow> Inr None
      | Some (g, rate, concurrency) \<Rightarrow>
          if g = [] \<or> rate < 1 \<or> concurrency < 1 then Inl Limits_unavailable
          else if int (length (recent now l g)) \<ge> rate then Inl Rate_exceeded
          else if int (count (held l) g) \<ge> concurrency then Inl Concurrency_exceeded
          else Inr (Some g))"

datatype limit_op = Acquire_op principal rat | Release_op pystr

text \<open>The clock never goes back, and a call releases only the lease it was given.\<close>

definition op_enabled :: "limit_op \<Rightarrow> call_log \<Rightarrow> bool" where
  "op_enabled a l = (case a of Acquire_op p now \<Rightarrow> clock l \<le> now | Release_op g \<Rightarrow> g \<in># held l)"

fun log_step :: "limit_op \<Rightarrow> call_log \<Rightarrow> call_log" where
  "log_step (Acquire_op p now) l =
     (case spec_acquire now p l of
        Inr (Some g) \<Rightarrow> \<lparr>admitted = admitted l @ [(g, now)], held = add_mset g (held l), clock = now\<rparr>
      | _ \<Rightarrow> l\<lparr>clock := now\<rparr>)"
| "log_step (Release_op g) l = l\<lparr>held := held l - {#g#}\<rparr>"

fun limit_step :: "limit_op \<Rightarrow> limiter \<Rightarrow> limiter option \<times> (limit_error + pystr option)" where
  "limit_step (Acquire_op p now) L = (case acquire_external_invocation now p L of (L', r) \<Rightarrow> (Some L', r))"
| "limit_step (Release_op g) L = (release_external_invocation (Some g) L, Inr None)"

text \<open>The calls in order; a step that is not enabled does not happen.\<close>

definition both_step :: "limit_op \<Rightarrow> limiter \<times> call_log \<Rightarrow> limiter \<times> call_log" where
  "both_step a s =
     (if op_enabled a (snd s) then (case fst (limit_step a (fst s)) of Some L \<Rightarrow> (L, log_step a (snd s)) | None \<Rightarrow> s) else s)"

definition both_run :: "limit_op list \<Rightarrow> limiter \<times> call_log" where
  "both_run ops = fold both_step ops (empty_limiter, empty_log)"

section \<open>Simulation\<close>

text \<open>How the limiter represents the log: the windows are exact for the time of the last sweep, and every held call is counted.\<close>

definition represents :: "limiter \<Rightarrow> call_log \<Rightarrow> bool" where
  "represents L l \<longleftrightarrow>
     sorted (map snd (admitted l)) \<and> (\<forall>e \<in> set (admitted l). snd e \<le> clock l)
     \<and> (\<exists>s \<le> clock l. \<forall>g. window_of L g = recent s l g)
     \<and> (\<forall>g. active_count L g = int (count (held l) g))"

lemma dropWhile_sorted: "sorted xs \<Longrightarrow> dropWhile (\<lambda>t. t \<le> c) xs = filter (\<lambda>t. c < t) xs" for c :: rat
proof (induction xs)
  case (Cons x xs)
  show ?case
  proof (cases "x \<le> c")
    case False
    then have "\<forall>t \<in> set xs. c < t" using Cons.prems by auto
    with False show ?thesis by (simp add: filter_id_conv)
  qed (use Cons in auto)
qed simp

lemma sorted_recent: "sorted (map snd (admitted l)) \<Longrightarrow> sorted (recent now l g)"
  unfolding recent_def by (intro sorted_wrt_filter sorted_filter)

lemma recent_later: "s \<le> now \<Longrightarrow> filter (\<lambda>t. now - 60 < t) (recent s l g) = recent now l g"
  unfolding recent_def by (auto intro!: filter_cong)

lemma window_sweep [simp]: "window_of (sweep_windows now L) k = dropWhile (\<lambda>t. t \<le> now - 60) (window_of L k)"
  by (auto simp: sweep_windows_def window_of_def idle_def simp del: dropWhile_eq_Nil_conv split: option.splits)

lemma active_sweep [simp]: "active_count (sweep_windows now L) k = active_count L k"
  by (auto simp: sweep_windows_def active_count_def idle_def split: option.splits)

lemma window_upd [simp]: "window_of (L\<lparr>windows := (windows L)(g \<mapsto> w)\<rparr>) k = (if k = g then w else window_of L k)"
  by (simp add: window_of_def)

lemma active_upd [simp]: "active_count (L\<lparr>active_calls := (active_calls L)(g \<mapsto> n)\<rparr>) k = (if k = g then n else active_count L k)"
  by (simp add: active_count_def)

lemma active_upd_both [simp]:
  "active_count (L\<lparr>windows := w, active_calls := (active_calls L)(g \<mapsto> n)\<rparr>) k = (if k = g then n else active_count L k)"
  by (simp add: active_count_def)

lemma fields_indep [simp]:
  "window_of (L\<lparr>active_calls := a\<rparr>) k = window_of L k" "active_count (L\<lparr>windows := w\<rparr>) k = active_count L k"
  by (simp_all add: window_of_def active_count_def)

lemma swept_window:
  assumes "represents L l" "clock l \<le> now"
  shows "window_of (sweep_windows now L) k = recent now l k"
proof -
  obtain s where s: "s \<le> clock l" "window_of L k = recent s l k" using assms(1) by (auto simp: represents_def)
  have "sorted (recent s l k)" using assms(1) by (intro sorted_recent) (simp add: represents_def)
  with s assms(2) show ?thesis by (simp add: dropWhile_sorted recent_later)
qed

lemma recent_snoc: "recent now (l\<lparr>admitted := admitted l @ [(g, now)]\<rparr>) k = recent now l k @ (if k = g then [now] else [])"
  by (simp add: recent_def)

lemma recent_indep [simp]: "recent now (l\<lparr>clock := c\<rparr>) k = recent now l k" "recent now (l\<lparr>held := h\<rparr>) k = recent now l k"
  by (simp_all add: recent_def)

lemma admit_spec:
  assumes rep: "represents L l" and now: "clock l \<le> now"
  shows "snd (admit now g rate concurrency L) =
      (if int (length (recent now l g)) \<ge> rate then Inl Rate_exceeded
       else if int (count (held l) g) \<ge> concurrency then Inl Concurrency_exceeded else Inr (Some g))"
    and "represents (fst (admit now g rate concurrency L))
      (case snd (admit now g rate concurrency L) of
         Inr (Some _) \<Rightarrow> l\<lparr>admitted := admitted l @ [(g, now)], held := add_mset g (held l), clock := now\<rparr> | _ \<Rightarrow> l\<lparr>clock := now\<rparr>)"
proof -
  note W = swept_window [OF rep now]
  have act: "active_count L k = int (count (held l) k)" for k using rep by (simp add: represents_def)
  have le: "e \<in> set (admitted l) \<Longrightarrow> snd e \<le> now" for e using rep now by (force simp: represents_def)
  have srt: "sorted (map snd (admitted l))" using rep by (simp add: represents_def)
  show 1: "snd (admit now g rate concurrency L) =
      (if int (length (recent now l g)) \<ge> rate then Inl Rate_exceeded
       else if int (count (held l) g) \<ge> concurrency then Inl Concurrency_exceeded else Inr (Some g))"
    by (simp add: admit_def Let_def W act del: window_sweep)
  have "sorted (map snd (admitted l @ [(g, now)]))" using srt le by (auto simp: sorted_append)
  then show "represents (fst (admit now g rate concurrency L))
      (case snd (admit now g rate concurrency L) of
         Inr (Some _) \<Rightarrow> l\<lparr>admitted := admitted l @ [(g, now)], held := add_mset g (held l), clock := now\<rparr> | _ \<Rightarrow> l\<lparr>clock := now\<rparr>)"
    unfolding 1 represents_def using srt le
    by (auto simp: admit_def Let_def W act recent_snoc simp del: window_sweep intro!: exI [of _ now])
qed

lemma represents_empty: "represents empty_limiter empty_log"
  by (auto simp: represents_def empty_limiter_def empty_log_def window_of_def active_count_def recent_def)

lemma acquire_spec:
  assumes rep: "represents L l" and now: "clock l \<le> now"
  shows "snd (acquire_external_invocation now p L) = spec_acquire now p l"
    and "represents (fst (acquire_external_invocation now p L)) (log_step (Acquire_op p now) l)"
proof -
  have later: "represents L (l\<lparr>clock := now\<rparr>)"
  proof -
    obtain s where s: "s \<le> clock l" "\<forall>g. window_of L g = recent s l g" using rep by (auto simp: represents_def)
    have "\<exists>s \<le> now. \<forall>g. window_of L g = recent s l g" using s now by (intro exI [of _ s]) simp
    moreover have "\<forall>e \<in> set (admitted l). snd e \<le> now" using rep now by (auto simp: represents_def intro: order_trans)
    ultimately show ?thesis using rep by (simp add: represents_def)
  qed
  have log: "\<lparr>admitted = a, held = h, clock = c\<rparr> = l\<lparr>admitted := a, held := h, clock := c\<rparr>" for a h c by simp
  show "snd (acquire_external_invocation now p L) = spec_acquire now p l"
    by (auto simp: acquire_external_invocation_def spec_acquire_def admit_spec(1) [OF rep now] split: option.splits)
  show "represents (fst (acquire_external_invocation now p L)) (log_step (Acquire_op p now) l)"
  proof (cases "call_limits p")
    case None
    then show ?thesis using later by (simp add: acquire_external_invocation_def spec_acquire_def)
  next
    case (Some x)
    obtain g rate conc where x: "x = (g, rate, conc)" by (cases x)
    show ?thesis
      using later admit_spec [OF rep now, of g rate conc]
      by (auto simp: acquire_external_invocation_def spec_acquire_def Some x log split: if_splits)
  qed
qed

lemma release_spec:
  assumes rep: "represents L l" and held: "g \<in># held l"
  obtains L' where "release_external_invocation (Some g) L = Some L'" "represents L' (log_step (Release_op g) l)"
proof -
  have act: "active_count L k = int (count (held l) k)" for k using rep by (simp add: represents_def)
  have "0 < count (held l) g" using held by simp
  with act [of g] obtain n where n: "active_calls L g = Some n" "n = int (count (held l) g)"
    by (cases "active_calls L g") (auto simp: active_count_def simp flip: count_greater_zero_iff)
  have "represents (L\<lparr>active_calls := (active_calls L)(g \<mapsto> n - 1)\<rparr>) (log_step (Release_op g) l)"
    using rep \<open>0 < count (held l) g\<close> by (auto simp: represents_def n(2) of_nat_diff)
  with that n(1) show thesis by (simp add: release_external_invocation_def)
qed

lemma both_run_represents: "both_run ops = (L, l) \<Longrightarrow> represents L l"
proof -
  have "case_prod represents (fold both_step ops s)" if "case_prod represents s" for s
    using that
  proof (induction ops arbitrary: s)
    case (Cons a ops)
    obtain L l where s: "s = (L, l)" by (cases s)
    have rep: "represents L l" using Cons.prems s by simp
    have "case_prod represents (both_step a s)"
    proof (cases a)
      case (Acquire_op p now)
      then show ?thesis using rep acquire_spec(2) [OF rep, of now p] by (auto simp: both_step_def s op_enabled_def split: prod.splits)
    next
      case (Release_op g)
      show ?thesis
      proof (cases "g \<in># held l")
        case True
        obtain L' where "release_external_invocation (Some g) L = Some L'" "represents L' (log_step (Release_op g) l)"
          by (rule release_spec [OF rep True])
        with True Release_op show ?thesis by (simp add: both_step_def s op_enabled_def)
      next
        case False
        with rep Release_op show ?thesis by (simp add: both_step_def s op_enabled_def)
      qed
    qed
    from Cons.IH [OF this] show ?case by simp
  qed simp
  from this [of "(empty_limiter, empty_log)"] have "case_prod represents (both_run ops)"
    by (simp add: both_run_def represents_empty)
  then show "both_run ops = (L, l) \<Longrightarrow> represents L l" by simp
qed

lemma call_limits_exact_parts:
  assumes run: "both_run ops = (L, l)" and now: "clock l \<le> now"
  shows "snd (acquire_external_invocation now p L) = spec_acquire now p l"
    and "snd (acquire_external_invocation now p L) = Inr (Some g) \<Longrightarrow>
      \<exists>rate concurrency. call_limits p = Some (g, rate, concurrency)
        \<and> int (length (recent now (log_step (Acquire_op p now) l) g)) \<le> rate
        \<and> int (count (held (log_step (Acquire_op p now) l)) g) \<le> concurrency"
    and "k \<in># held l \<Longrightarrow> release_external_invocation (Some k) L \<noteq> None"
proof -
  have rep: "represents L l" by (rule both_run_represents [OF run])
  show 1: "snd (acquire_external_invocation now p L) = spec_acquire now p l" by (rule acquire_spec(1) [OF rep now])
  show "\<exists>rate concurrency. call_limits p = Some (g, rate, concurrency)
        \<and> int (length (recent now (log_step (Acquire_op p now) l) g)) \<le> rate
        \<and> int (count (held (log_step (Acquire_op p now) l)) g) \<le> concurrency"
    if "snd (acquire_external_invocation now p L) = Inr (Some g)"
    using that unfolding 1 by (auto simp: spec_acquire_def recent_def split: option.splits if_splits)
  show "release_external_invocation (Some k) L \<noteq> None" if "k \<in># held l"
    using release_spec [OF rep that] by blast
qed

text \<open>
  C9: the limits on external calls are exact.  After any sequence of calls, the limiter, which forgets idle grants and old
  admissions, decides a request as the full history does: it is refused for its rate exactly when the grant already has
  that many admissions in the last sixty seconds, and for its concurrency exactly when that many of its calls are
  still running.  So a grant never has more admissions in a minute, or more running calls, than the admitted credential
  allows, and releasing a running call never fails.
\<close>
theorem call_limits_exact:
  assumes "both_run ops = (L, l)" and "clock l \<le> now"
  shows "snd (acquire_external_invocation now p L) = spec_acquire now p l
    \<and> (\<forall>g. snd (acquire_external_invocation now p L) = Inr (Some g) \<longrightarrow>
      (\<exists>rate concurrency. call_limits p = Some (g, rate, concurrency)
        \<and> int (length (recent now (log_step (Acquire_op p now) l) g)) \<le> rate
        \<and> int (count (held (log_step (Acquire_op p now) l)) g) \<le> concurrency))
    \<and> (\<forall>k. k \<in># held l \<longrightarrow> release_external_invocation (Some k) L \<noteq> None)"
  using call_limits_exact_parts [OF assms] by blast

theorem call_limits_exact_witness:
  "let p = demo_user\<lparr>auth_type := lit ''oauth'', external_grant_id := Some (lit ''g''), external_rate := 1, external_concurrency := 1\<rparr> in
   snd (acquire_external_invocation 5 p (fst (both_run [Acquire_op p 1]))) = Inl Rate_exceeded"
proof -
  let ?p = "demo_user\<lparr>auth_type := lit ''oauth'', external_grant_id := Some (lit ''g''), external_rate := 1, external_concurrency := 1\<rparr>"
  have lim: "call_limits ?p = Some (lit ''g'', 1, 1)" by (simp add: call_limits_def)
  obtain L l where r: "both_run [Acquire_op ?p 1] = (L, l)" by (rule prod.exhaust)
  have l: "l = \<lparr>admitted = [(lit ''g'', 1)], held = {#lit ''g''#}, clock = 1\<rparr>"
    using r by (auto simp: both_run_def both_step_def op_enabled_def empty_log_def spec_acquire_def lim recent_def split: prod.splits)
  have "snd (acquire_external_invocation 5 ?p L) = spec_acquire 5 ?p l"
    by (rule call_limits_exact [OF r, THEN conjunct1]) (simp add: l)
  then show ?thesis by (simp add: r Let_def) (simp add: l spec_acquire_def lim recent_def)
qed

end
