(* ===== verification/Tool_Invocation.thy ===== *)
theory Tool_Invocation
  imports Call_Limits Tool_Registry Argument_Policy Request_Outcome Retention
begin

text \<open>
  One tool call: \<^verbatim>\<open>AccessControlStore.invoke_tool\<close> with the callbacks it hands to the dispatcher, \<^verbatim>\<open>ToolRegistry.prepare\<close> and
  \<^verbatim>\<open>ToolRegistry.invoke\<close>, the recoverable timeout, the audit row, and \<^verbatim>\<open>request_status\<close>.  Everything a check reads (registry,
  tables, policies, the refreshed identity) may have been changed by other threads since the previous check, so that every check
  has its own \<open>world\<close>.  What a remote dispatcher does with the callbacks is a \<open>script\<close>, an arbitrary finite tree of
  guard calls, dispatch marks and recorded outputs that may react to the guard's verdict.
\<close>

section \<open>Errors and responses\<close>

record tool_error =
  te_code :: pystr
  te_message :: pystr
  te_retryable :: bool
  te_next_action :: pystr
  te_details :: dict

definition to_payload :: "tool_error \<Rightarrow> pyval" where
  "to_payload e =
     PDict [(PStr (lit ''error''), PDict [(PStr (lit ''code''), PStr (te_code e)), (PStr (lit ''message''), PStr (te_message e)),
       (PStr (lit ''retryable''), PBool (te_retryable e)), (PStr (lit ''next_action''), PStr (te_next_action e)),
       (PStr (lit ''details''), PDict (te_details e))])]"

text \<open>The subclasses of \<^verbatim>\<open>ToolExecutionError\<close> the call distinguishes.\<close>

datatype error_class = Execution | Dispatch_rejected | Policy_denied

record 'r timed_out =
  to_details :: timeout_details
  to_text :: pystr
  to_reader :: "'r option"

datatype 'r exc =
    Tool_exc error_class tool_error
  | Credential_exc pystr
  | Missing_tool pystr
  | Timeout_exc "'r timed_out"
  | Plain_exc pystr

definition rejected :: "string \<Rightarrow> string \<Rightarrow> 'r exc" where
  "rejected code message =
     Tool_exc Dispatch_rejected \<lparr>te_code = lit code, te_message = lit message, te_retryable = False, te_next_action = [], te_details = []\<rparr>"

definition opt_str :: "pystr option \<Rightarrow> pyval" where
  "opt_str v = (case v of None \<Rightarrow> PNone | Some s \<Rightarrow> PStr s)"

definition denial_details :: "policy_denial \<Rightarrow> dict" where
  "denial_details d =
     [(PStr (lit ''policy_revision''), PInt (policy_revision d)), (PStr (lit ''rule_id''), opt_str (denied_rule d)),
      (PStr (lit ''pointer''), opt_str (denied_pointer d)), (PStr (lit ''reason''), PStr (policy_denial.reason d))]"

definition policy_denied :: "policy_denial \<Rightarrow> 'r exc" where
  "policy_denied d =
     Tool_exc Policy_denied \<lparr>te_code = lit ''argument_policy_denied'',
       te_message = lit ''The effective tool arguments do not satisfy the current argument policy.'', te_retryable = False,
       te_next_action = lit ''Review the indicated rule and submit a new, explicitly authorized call.'', te_details = denial_details d\<rparr>"

record response =
  rs_ok :: bool
  rs_output :: pyval
  rs_error :: "pystr option"

text \<open>
  What the call needs of the language and of code outside the model: \<^verbatim>\<open>json.loads\<close>, \<^verbatim>\<open>str\<close> and \<^verbatim>\<open>repr\<close>, the schema
  validation worker, the redacting \<^verbatim>\<open>snapshot\<close>, and the validation of a handler's output against \<^verbatim>\<open>dict[str, Any]\<close> when
  the response model is built (\<open>Inl\<close> is the text of the \<^verbatim>\<open>ValidationError\<close>).
\<close>

record 'r call_env =
  ce_env :: gate_env
  ce_loads :: "pystr \<Rightarrow> pyval option"
  ce_str :: "pyval \<Rightarrow> pystr"
  ce_repr :: "pystr \<Rightarrow> pystr"
  ce_validate :: "pyval \<Rightarrow> pyval \<Rightarrow> 'r exc option"
  ce_snapshot :: "pyval \<Rightarrow> pystr list \<Rightarrow> pystr list \<Rightarrow> dict"
  ce_output :: "pyval \<Rightarrow> pystr + pyval"

section \<open>Timeouts\<close>

definition opt_seconds :: "rat option \<Rightarrow> pyval" where
  "opt_seconds v = (case v of None \<Rightarrow> PNone | Some q \<Rightarrow> PFloat (Finite q))"

definition details_dict :: "timeout_details \<Rightarrow> dict" where
  "details_dict t =
     [(PStr (lit ''transport''), PStr (transport t)), (PStr (lit ''method''), PStr (td_method t)), (PStr (lit ''phase''), PStr (td_phase t)),
      (PStr (lit ''request_handle''), opt_str (td_request_handle t)), (PStr (lit ''connection_generation''), opt_str (td_generation t)),
      (PStr (lit ''timeout_seconds''), PFloat (Finite (timeout_seconds t))), (PStr (lit ''dispatch_state''), PStr (dispatch_state t)),
      (PStr (lit ''business_request''), PBool (business_request t)), (PStr (lit ''execution_state''), PStr (execution_state t)),
      (PStr (lit ''execution_terminated''), PBool (execution_terminated t)), (PStr (lit ''recovery_supported''), PBool (recovery_supported t)),
      (PStr (lit ''recovery_scope''), PStr (recovery_scope t)),
      (PStr (lit ''recovery_expires_after_seconds''), opt_seconds (recovery_expires_after_seconds t))]"

definition mcp_timeout_error :: "'r timed_out \<Rightarrow> pystr option \<Rightarrow> pystr option \<Rightarrow> tool_error" where
  "mcp_timeout_error t handle why =
     (let d1 = dict_set (lit ''recovery_scope'') (PStr (case handle of Some h \<Rightarrow> if h \<noteq> [] then lit ''current_process'' else lit ''none'' | None \<Rightarrow> lit ''none''))
                 (dict_set (lit ''recovery_supported'') (PBool (handle \<noteq> None)) (details_dict (to_details t)));
          d2 = (case handle of
                  Some h \<Rightarrow> dict_set (lit ''poll_after_ms'') (PInt 1000) (dict_set (lit ''query_path'') (PStr (lit ''/v1/catalog/requests/status''))
                              (dict_set (lit ''request_handle'') (PStr h) d1))
                | None \<Rightarrow>
                    (let d = dict_set (lit ''recovery_expires_after_seconds'') PNone d1 in
                     case why of
                       Some r \<Rightarrow> if r \<noteq> [] then dict_set (lit ''recovery_unavailable_reason'') (PStr r) d else d
                     | None \<Rightarrow> d))
      in \<lparr>te_code = lit ''mcp_request_timeout'', te_message = to_text t, te_retryable = False,
          te_next_action = (case handle of
              Some h \<Rightarrow> if h \<noteq> [] then lit ''Query POST /v1/catalog/requests/status with this request_handle and the original credential; do not replay the operation.''
                        else lit ''Inspect the execution service before retrying; this timeout does not confirm termination.''
            | None \<Rightarrow> lit ''Inspect the execution service before retrying; this timeout does not confirm termination.''),
          te_details = d2\<rparr>)"

definition error_response :: "tool_error \<Rightarrow> response" where
  "error_response e = \<lparr>rs_ok = False, rs_output = to_payload e, rs_error = Some (te_message e)\<rparr>"

definition text_response :: "pystr \<Rightarrow> response" where
  "text_response t = \<lparr>rs_ok = False, rs_output = PDict [], rs_error = Some t\<rparr>"

section \<open>Identities\<close>

record auth_principal = principal +
  p_status :: pystr
  display_name :: pystr
  must_change_password :: bool
  token_revision :: int
  p_session_id :: "pystr option"
  oauth_token_expires_at :: int
  oauth_target_revision :: int
  oauth_subject :: "pystr option"
  oauth_audiences :: "pystr list"
  oauth_jwks_uri :: "pystr option"

definition normalized :: "auth_principal \<Rightarrow> auth_principal option" where
  "normalized p =
     (let roles = sort (remdups (effective_roles (principal.truncate p))) in
      if p_role p \<notin> set roles then None
      else Some (p\<lparr>p_role := (if lit ''admin'' \<in> set roles then lit ''admin'' else hd roles), p_roles := roles,
        p_permissions := sort (remdups (p_permissions p)), p_scopes := sort (remdups (p_scopes p)),
        delegated_scopes := map_option (\<lambda>s. sort (remdups s)) (delegated_scopes p),
        external_server_ids := sort (remdups (external_server_ids p)), external_tool_ids := sort (remdups (external_tool_ids p)),
        external_access := sort (remdups (external_access p)), oauth_audiences := sort (remdups (oauth_audiences p)),
        oauth_tool_snapshots := sort (remdups (oauth_tool_snapshots p))\<rparr>))"

definition same_invocation_principal :: "auth_principal \<Rightarrow> auth_principal \<Rightarrow> bool" where
  "same_invocation_principal left right \<longleftrightarrow> normalized left \<noteq> None \<and> normalized left = normalized right"

section \<open>Preparation\<close>

definition tool_definition_revision :: "gate_env \<Rightarrow> tool_definition \<Rightarrow> pystr" where
  "tool_definition_revision e d = json_digest e (PDict (field_envelope d))"

record 'h prepared =
  pr_record :: "'h tool_record"
  pr_revision :: pystr
  pr_arguments :: pyval
  pr_receipt :: pystr

definition arguments_invalid :: "'r exc" where
  "arguments_invalid = rejected ''tool_arguments_invalid'' ''Tool arguments must be a bounded finite JSON object.''"

definition own :: "gate_env \<Rightarrow> pyval \<Rightarrow> 'r exc + pyval" where
  "own e v = (case owned_arguments (frepr e) v of Inl _ \<Rightarrow> Inl arguments_invalid | Inr w \<Rightarrow> Inr w)"

definition prepare :: "gate_env \<Rightarrow> 'h registry \<Rightarrow> pystr \<Rightarrow> pyval \<Rightarrow> tool_definition option \<Rightarrow> 'r exc + 'h prepared" where
  "prepare e g tool_id arguments expected =
     (case map_of (tools g) tool_id of
        None \<Rightarrow> Inl (Missing_tool tool_id)
      | Some r \<Rightarrow>
          (let revn = tool_definition_revision e (tr_definition r) in
           if (case expected of None \<Rightarrow> False | Some d \<Rightarrow> revn \<noteq> tool_definition_revision e d)
           then Inl (rejected ''catalog_schema_revision_conflict'' ''The selected tool definition changed before preparation.'')
           else bindR (own e arguments) (\<lambda>effective.
             (let raw = json_text (frepr e) (sorted_json effective) in
              bindR (case tr_preparer r of
                       None \<Rightarrow> Inr effective
                     | Some f \<Rightarrow> (case f effective of
                                    Inl _ \<Rightarrow> Inl (rejected ''tool_arguments_invalid'' ''Check the tool's declared input fields and types.'')
                                  | Inr v \<Rightarrow> own e v)) (\<lambda>v.
              Inr \<lparr>pr_record = r, pr_revision = revn, pr_arguments = v, pr_receipt = raw\<rparr>)))))"

section \<open>The final check before dispatch\<close>

text \<open>
  What the checks read at one moment.  \<open>w_refreshed\<close> is \<open>None\<close> when no \<^verbatim>\<open>refresh_principal\<close> is configured and \<open>Some None\<close> when it
  raises; \<open>w_managed\<close> tells the servers whose credentials Gate manages; \<open>w_dispatch\<close> is what the optional \<^verbatim>\<open>dispatch_guard\<close> raises.
\<close>

record ('h, 'r) world =
  w_registry :: "'h registry"
  w_refreshed :: "auth_principal option option"
  w_managed :: "pystr \<Rightarrow> bool"
  w_env :: decision_env
  w_access :: access_db
  w_classes :: class_db
  w_policies :: policy_db
  w_dispatch :: "'r exc option"

definition truthy :: "pyval \<Rightarrow> bool" where
  "truthy v =
     (case v of PNone \<Rightarrow> False | PBool b \<Rightarrow> b | PInt i \<Rightarrow> i \<noteq> 0 | PFloat f \<Rightarrow> f \<noteq> Finite 0 \<and> f \<noteq> NegZero | PStr s \<Rightarrow> s \<noteq> []
      | PList xs \<Rightarrow> xs \<noteq> [] | PDict kvs \<Rightarrow> kvs \<noteq> [] | PTuple xs \<Rightarrow> xs \<noteq> [] | PProxy kvs \<Rightarrow> kvs \<noteq> [] | POther \<Rightarrow> True)"

text \<open>\<^verbatim>\<open>str(definition.metadata.get(key) or "")\<close>\<close>

definition meta_text :: "'r call_env \<Rightarrow> tool_definition \<Rightarrow> string \<Rightarrow> pystr" where
  "meta_text e d k =
     (let v = meta_get d (lit k) in
      if \<not> truthy v then [] else (case v of PStr s \<Rightarrow> s | _ \<Rightarrow> ce_str e v))"

definition managed_target :: "'r call_env \<Rightarrow> ('h, 'r) world \<Rightarrow> tool_definition \<Rightarrow> bool" where
  "managed_target e w d \<longleftrightarrow> td_source d = lit ''mcp'' \<and> w_managed w (meta_text e d ''server_id'')"

text \<open>The call as the callbacks see it.\<close>

record 'r call_context =
  cx_principal :: auth_principal
  cx_tool :: pystr
  cx_definition :: tool_definition
  cx_revision :: pystr
  cx_managed :: bool
  cx_validator :: "(pyval \<Rightarrow> 'r exc option) option"
  cx_record :: bool
  cx_sensitive :: "pystr list"

text \<open>One round of the loop in \<^verbatim>\<open>check_effective_arguments\<close>: everything up to reading the current argument policy.\<close>

definition guard_round :: "'r call_env \<Rightarrow> 'r call_context \<Rightarrow> ('h, 'r) world \<Rightarrow> 'r exc + argument_policy" where
  "guard_round e cx w =
     (case w_dispatch w of Some x \<Rightarrow> Inl x | None \<Rightarrow>
      (case (case w_refreshed w of None \<Rightarrow> Some (cx_principal cx) | Some r \<Rightarrow> r) of
         None \<Rightarrow> Inl (rejected ''tool_authorization_changed'' ''The calling identity is no longer available.'')
       | Some p \<Rightarrow>
           if \<not> same_invocation_principal p (cx_principal cx)
           then Inl (rejected ''tool_authorization_changed'' ''The calling authority changed before dispatch.'')
           else (case get_definition (w_registry w) (cx_tool cx) of
                   None \<Rightarrow> Inl (Missing_tool (cx_tool cx))
                 | Some d \<Rightarrow>
                     if \<not> cx_managed cx \<and> managed_target e w d
                     then Inl (rejected ''credential_target_changed''
                       ''This instance now requires managed credential dispatch; describe the tool again.'')
                     else if tool_definition_revision (ce_env e) d \<noteq> cx_revision cx
                     then Inl (rejected ''catalog_schema_revision_conflict'' ''The selected tool definition changed before dispatch.'')
                     else if \<not> allowed (evaluate (w_env w) (w_access w) (w_classes w) (principal.truncate p) d)
                     then Inl (rejected ''tool_authorization_changed'' ''The current authority does not allow this tool.'')
                     else (case current (frepr (ce_env e)) (ce_loads e) (w_policies w) (cx_tool cx) of
                             Inl denial \<Rightarrow> Inl (policy_denied denial)
                           | Inr policy \<Rightarrow> Inr policy))))"

definition validate_call :: "'r call_env \<Rightarrow> 'r call_context \<Rightarrow> pyval \<Rightarrow> 'r exc option" where
  "validate_call e cx v =
     (case cx_validator cx of Some f \<Rightarrow> f v | None \<Rightarrow> ce_validate e (td_input_schema (cx_definition cx)) v)"

text \<open>\<^verbatim>\<open>re.I\<close>: ASCII capitals and the four other code points Python folds to a letter of the pattern.\<close>

definition fold_case :: "nat \<Rightarrow> nat" where
  "fold_case c =
     (if 65 \<le> c \<and> c \<le> 90 then c + 32 else if c = 304 \<or> c = 305 then 105 else if c = 383 then 115 else if c = 8490 then 107 else c)"

fun contains_text :: "pystr \<Rightarrow> pystr \<Rightarrow> bool" where
  "contains_text [] p \<longleftrightarrow> p = []"
| "contains_text (c # s) p \<longleftrightarrow> starts_with (c # s) p \<or> contains_text s p"

definition sensitive_key :: "pystr \<Rightarrow> bool" where
  "sensitive_key k = list_ex (\<lambda>p. contains_text (map fold_case k) (lit p))
     [''password'', ''secret'', ''token'', ''credential'', ''authorization'', ''cookie'', ''apikey'', ''api_key'', ''api-key'']"

text \<open>The bytes \<^verbatim>\<open>json.dumps\<close> adds with its default separators, one per comma and colon.\<close>

definition own_gaps :: "pyval \<Rightarrow> int" where
  "own_gaps v = (case v of PDict kvs \<Rightarrow> int (length kvs) + sep_cost kvs | PList xs \<Rightarrow> sep_cost xs | _ \<Rightarrow> 0)"

function json_gaps :: "pyval \<Rightarrow> int" where
  "json_gaps v = own_gaps v + sum_list (map json_gaps (children v))"
  by pat_completeness auto
termination by (relation "measure size") (auto dest: size_children)

declare json_gaps.simps [simp del]

definition no_values :: dict where
  "no_values = [(PStr (lit ''values_recorded''), PBool False)]"

definition payload_summary :: "'r call_env \<Rightarrow> pyval \<Rightarrow> dict" where
  "payload_summary e v =
     [(PStr (lit ''argument_keys''), PList (map (\<lambda>k. PStr (if sensitive_key k then lit ''[REDACTED]'' else k)) (sort (map (key_text \<circ> fst) (mapping_items v))))),
      (PStr (lit ''payload_bytes''), PInt (utf8_len (json_text (frepr (ce_env e)) v) + json_gaps v)),
      (PStr (lit ''values_recorded''), PBool False)]"

definition sensitive_payload_fields :: "tool_definition \<Rightarrow> string \<Rightarrow> pystr list" where
  "sensitive_payload_fields d key =
     (case meta_get d (lit key) of
        PList vs \<Rightarrow> map (\<lambda>s. lower (strip s)) (filter (\<lambda>s. strip s \<noteq> []) (List.map_filter (\<lambda>v. case v of PStr s \<Rightarrow> Some s | _ \<Rightarrow> None) vs))
      | _ \<Rightarrow> [])"

text \<open>The variables the callbacks share with the call.\<close>

record call_state =
  guard_passed :: bool
  attempts :: nat
  schema_checked :: bool
  summary :: dict
  recorded_input :: "dict option"
  input_secrets :: "pystr list"
  recorded_outputs :: "dict list"

definition fresh_state :: call_state where
  "fresh_state = \<lparr>guard_passed = False, attempts = 0, schema_checked = False, summary = no_values, recorded_input = None,
     input_secrets = [], recorded_outputs = []\<rparr>"

definition secret_values :: "pystr list \<Rightarrow> pyval \<Rightarrow> pystr list" where
  "secret_values marked v =
     List.map_filter (\<lambda>(k, x). case x of PStr s \<Rightarrow> if lower (key_text k) \<in> set marked \<and> s \<noteq> [] then Some s else None | _ \<Rightarrow> None) (mapping_items v)"

definition pass_guard :: "'r call_env \<Rightarrow> 'r call_context \<Rightarrow> argument_policy \<Rightarrow> pyval \<Rightarrow> call_state \<Rightarrow> 'r exc option \<times> call_state" where
  "pass_guard e cx policy v st =
     (case check_policy policy v of
        Inl denial \<Rightarrow> (Some (policy_denied denial), st)
      | Inr _ \<Rightarrow>
          (let secrets = (if cx_record cx then secret_values (cx_sensitive cx) v else input_secrets st) in
           (None, st\<lparr>guard_passed := True,
              summary := (if enabled policy then dict_set (lit ''policy_revision'') (PInt (revision policy)) (payload_summary e v) else payload_summary e v),
              input_secrets := secrets,
              recorded_input := (if cx_record cx then Some (ce_snapshot e v (cx_sensitive cx) secrets) else recorded_input st)\<rparr>)))"

text \<open>\<^verbatim>\<open>check_effective_arguments\<close>: the loop runs once, or twice when the schema is checked in between (\<open>w2\<close> is read then).\<close>

definition check_effective_arguments :: "'r call_env \<Rightarrow> 'r call_context \<Rightarrow> ('h, 'r) world \<Rightarrow> ('h, 'r) world \<Rightarrow> pyval \<Rightarrow> call_state
    \<Rightarrow> 'r exc option \<times> call_state" where
  "check_effective_arguments e cx w1 w2 v st0 =
     (let st = st0\<lparr>guard_passed := False, recorded_input := None, input_secrets := [], recorded_outputs := [], summary := no_values\<rparr> in
      case checked_json_size (frepr (ce_env e)) argument_limits v of
        Inl _ \<Rightarrow> (Some (rejected ''tool_arguments_invalid'' ''Effective tool arguments exceeded the supported boundary.''), st)
      | Inr _ \<Rightarrow>
          (case guard_round e cx w1 of
             Inl x \<Rightarrow> (Some x, st)
           | Inr policy \<Rightarrow>
               if \<not> schema_checked st \<and> (cx_validator cx \<noteq> None \<or> enabled policy)
               then (case validate_call e cx v of
                       Some x \<Rightarrow> (Some x, st)
                     | None \<Rightarrow>
                         (case guard_round e cx w2 of
                            Inl x \<Rightarrow> (Some x, st\<lparr>schema_checked := True\<rparr>)
                          | Inr policy2 \<Rightarrow> pass_guard e cx policy2 v (st\<lparr>schema_checked := True\<rparr>)))
               else pass_guard e cx policy v st))"

section \<open>Dispatch\<close>

text \<open>What a dispatcher does with the callbacks; the worlds of a guard call are those its two rounds read.\<close>

datatype ('h, 'r) script =
    Finish "'r exc + response"
  | Guard pyval "('h, 'r) world" "('h, 'r) world" "'r exc option \<Rightarrow> ('h, 'r) script"
  | Started "('h, 'r) script"
  | Audit_output dict "('h, 'r) script"

primrec run_script :: "'r call_env \<Rightarrow> 'r call_context \<Rightarrow> ('h, 'r) script \<Rightarrow> call_state \<Rightarrow> ('r exc + response) \<times> call_state" where
  "run_script e cx (Finish r) = (\<lambda>st. (r, st))"
| "run_script e cx (Guard v w1 w2 k) = (\<lambda>st.
     (case check_effective_arguments e cx w1 w2 v st of (verdict, st') \<Rightarrow> run_script e cx (k verdict) st'))"
| "run_script e cx (Started s) = (\<lambda>st. run_script e cx s (st\<lparr>attempts := attempts st + 1\<rparr>))"
| "run_script e cx (Audit_output d s) = (\<lambda>st. run_script e cx s (st\<lparr>recorded_outputs := recorded_outputs st @ [d]\<rparr>))"

text \<open>What a handler's result becomes at the tool boundary of \<^verbatim>\<open>ToolRegistry.invoke\<close>.\<close>

definition exc_text :: "'r call_env \<Rightarrow> 'r exc \<Rightarrow> pystr" where
  "exc_text e x =
     (case x of Tool_exc _ t \<Rightarrow> te_message t | Credential_exc m \<Rightarrow> m | Missing_tool i \<Rightarrow> ce_repr e i | Timeout_exc t \<Rightarrow> to_text t | Plain_exc m \<Rightarrow> m)"

definition handler_response :: "'r call_env \<Rightarrow> 'r exc + pyval \<Rightarrow> response" where
  "handler_response e out =
     (case out of
        Inr v \<Rightarrow> (case ce_output e v of
                    Inl why \<Rightarrow> text_response why
                  | Inr w \<Rightarrow> \<lparr>rs_ok = True, rs_output = w, rs_error = None\<rparr>)
      | Inl (Tool_exc _ t) \<Rightarrow> error_response t
      | Inl (Timeout_exc t) \<Rightarrow> error_response (mcp_timeout_error t None (Some (lit ''authenticated_recovery_unavailable'')))
      | Inl x \<Rightarrow> text_response (exc_text e x))"

definition conflict :: "string \<Rightarrow> ('h, 'r) script" where
  "conflict message = Finish (Inl (rejected ''catalog_schema_revision_conflict'' message))"

text \<open>
  \<^verbatim>\<open>ToolRegistry.invoke\<close> with the arguments the call passes: the registry is read once under its lock (\<open>g1\<close>) and once more after
  the guard (\<open>g2\<close>); a record is identified by its serial.
\<close>

definition registry_invoke :: "'r call_env \<Rightarrow> pystr \<Rightarrow> 'h prepared \<Rightarrow> tool_definition \<Rightarrow> 'h registry \<Rightarrow> ('h, 'r) world \<Rightarrow> ('h, 'r) world
    \<Rightarrow> 'h registry \<Rightarrow> ('h \<Rightarrow> pyval \<Rightarrow> 'r exc + pyval) \<Rightarrow> ('h, 'r) script" where
  "registry_invoke e tool_id pr expected g1 w1 w2 g2 handle =
     (case map_of (tools g1) tool_id of
        None \<Rightarrow> Finish (Inl (Missing_tool tool_id))
      | Some r \<Rightarrow>
          if \<not> py_eq (PDict (field_envelope (tr_definition r))) (PDict (field_envelope expected))
          then conflict ''The selected registry record changed before dispatch.''
          else if tr_serial r \<noteq> tr_serial (pr_record pr) then conflict ''The selected executor changed before dispatch.''
          else Guard (pr_arguments pr) w1 w2 (\<lambda>verdict.
            case verdict of
              Some x \<Rightarrow> Finish (Inl x)
            | None \<Rightarrow>
                if (case map_of (tools g2) tool_id of None \<Rightarrow> True | Some q \<Rightarrow> tr_serial q \<noteq> tr_serial r)
                then conflict ''The selected executor changed during dispatch checks.''
                else Started (Finish (Inr (handler_response e (handle (tr_handler r) (pr_arguments pr)))))))"

section \<open>The call\<close>

datatype audit_outcome = Not_invoked | Success | Error

record audit =
  au_id :: pystr
  au_correlation :: pystr
  au_user :: pystr
  au_username :: pystr
  au_auth_type :: pystr
  au_token :: "pystr option"
  au_server :: pystr
  au_tool :: pystr
  au_required :: access
  au_granted :: access
  au_allow :: bool
  au_reason :: pystr
  au_outcome :: audit_outcome
  au_duration :: "int option"
  au_payload :: dict
  au_created :: rat

record stored_payload =
  sp_audit :: pystr
  sp_user :: pystr
  sp_input :: dict
  sp_output :: dict

record 'r gate =
  gt_classes :: class_db
  gt_limiter :: limiter
  gt_audits :: "audit list"
  gt_payloads :: "stored_payload list"
  gt_receipts :: "(auth_principal, 'r) receipt list"

record 'r call =
  c_principal :: auth_principal
  c_tool :: pystr
  c_arguments :: pyval
  c_correlation :: pystr
  c_expected :: "pystr option"
  c_validator :: "(pyval \<Rightarrow> 'r exc option) option"
  c_context :: bool

text \<open>
  The moments of one call, in order, with what is read or chosen at each.  \<open>sc_enter\<close> is what entering the optional dispatch context
  raises, \<open>sc_between\<close> what other sessions do to the classifications between the synchronisation and the decision,
  \<open>sc_remote\<close> the dispatch through the MCP runtime or the credential service, \<open>sc_meanwhile\<close> what other calls do to the
  shared state between admission and completion.
\<close>

record ('h, 'r) schedule =
  sc_registry :: "'h registry"
  sc_now :: rat
  sc_uuid :: "tool_key \<Rightarrow> pystr"
  sc_fresh :: "pystr \<Rightarrow> pystr"
  sc_between :: "class_db \<Rightarrow> class_db"
  sc_env :: decision_env
  sc_access :: access_db
  sc_payload_mode :: payload_mode
  sc_monotonic :: rat
  sc_prepare :: "('h, 'r) world"
  sc_enter :: "'r exc option"
  sc_runtime :: bool
  sc_remote :: "('h, 'r) script"
  sc_lookup :: "'h registry"
  sc_guard1 :: "('h, 'r) world"
  sc_guard2 :: "('h, 'r) world"
  sc_recheck :: "'h registry"
  sc_handle :: "'h \<Rightarrow> pyval \<Rightarrow> 'r exc + pyval"
  sc_meanwhile :: "'r gate \<Rightarrow> 'r gate"
  sc_late :: "('h, 'r) world"
  sc_recovery_now :: rat
  sc_handles :: "pystr list"
  sc_duration :: int
  sc_audit_id :: pystr
  sc_audit_now :: rat

datatype 'r call_result =
    Access_denied pystr access access
  | Raised "'r exc"
  | Sync_failed access_error
  | Answered response

definition record_invocation_audit :: "'r call \<Rightarrow> ('h, 'r) schedule \<Rightarrow> tool_definition \<Rightarrow> decision \<Rightarrow> audit_outcome \<Rightarrow> int option
    \<Rightarrow> dict \<Rightarrow> (dict \<times> dict) option \<Rightarrow> 'r gate \<Rightarrow> 'r gate" where
  "record_invocation_audit c s d dec out duration payload recorded g =
     g\<lparr>gt_audits := gt_audits g @ [\<lparr>au_id = sc_audit_id s, au_correlation = c_correlation c, au_user = p_id (c_principal c),
          au_username = p_username (c_principal c), au_auth_type = auth_type (c_principal c), au_token = token_id (c_principal c),
          au_server = d_server dec, au_tool = td_id d, au_required = required_access dec, au_granted = granted_access dec,
          au_allow = allowed dec, au_reason = decision.reason dec, au_outcome = out, au_duration = duration, au_payload = payload,
          au_created = sc_audit_now s\<rparr>],
       gt_payloads := gt_payloads g @ (case recorded of None \<Rightarrow> [] | Some (i, out) \<Rightarrow>
          [\<lparr>sp_audit = sc_audit_id s, sp_user = p_id (c_principal c), sp_input = i, sp_output = out\<rparr>])\<rparr>"

definition limit_reason :: "limit_error \<Rightarrow> pystr" where
  "limit_reason x =
     (case x of Limits_unavailable \<Rightarrow> lit ''external invocation limits are unavailable''
      | Rate_exceeded \<Rightarrow> lit ''external invocation rate limit exceeded''
      | Concurrency_exceeded \<Rightarrow> lit ''external invocation concurrency limit exceeded'')"

text \<open>Schema work that needs no file: whether the schema is already checked, or the error.\<close>

definition early_validation :: "'r call_env \<Rightarrow> 'r call_context \<Rightarrow> ('h, 'r) world \<Rightarrow> pyval \<Rightarrow> 'r exc + bool" where
  "early_validation e cx w v =
     (if dict_get (mapping_items v) (lit ''fileRef'') \<noteq> None then Inr False
      else (case cx_validator cx of
              Some f \<Rightarrow> (case f v of Some x \<Rightarrow> Inl x | None \<Rightarrow> Inr True)
            | None \<Rightarrow>
                (case current (frepr (ce_env e)) (ce_loads e) (w_policies w) (cx_tool cx) of
                   Inl denial \<Rightarrow> Inl (policy_denied denial)
                 | Inr policy \<Rightarrow>
                     if \<not> enabled policy then Inr False
                     else (case ce_validate e (td_input_schema (cx_definition cx)) v of Some x \<Rightarrow> Inl x | None \<Rightarrow> Inr True))))"

definition dispatch_script :: "'r call_env \<Rightarrow> ('h, 'r) schedule \<Rightarrow> 'r call_context \<Rightarrow> 'h prepared \<Rightarrow> ('h, 'r) script" where
  "dispatch_script e s cx pr =
     (let d = cx_definition cx in
      if \<not> cx_managed cx \<and> sc_enter s \<noteq> None then Finish (Inl (the (sc_enter s)))
      else if td_source d = lit ''mcp'' \<and> sc_runtime s
      then if meta_text e d ''server_id'' = [] \<or> meta_text e d ''original_tool_name'' = []
           then Finish (Inl (Plain_exc (lit ''MCP tool metadata is incomplete: '' @ cx_tool cx)))
           else sc_remote s
      else registry_invoke e (cx_tool cx) pr d (sc_lookup s) (sc_guard1 s) (sc_guard2 s) (sc_recheck s) (sc_handle s))"

definition dispatch :: "'r call_env \<Rightarrow> 'r call \<Rightarrow> ('h, 'r) schedule \<Rightarrow> tool_definition \<Rightarrow> ('r exc + response) \<times> call_state" where
  "dispatch e c s d =
     (case prepare (ce_env e) (w_registry (sc_prepare s)) (c_tool c) (c_arguments c) (Some d) of
        Inl x \<Rightarrow> (Inl x, fresh_state)
      | Inr pr \<Rightarrow>
          (let cx = \<lparr>cx_principal = c_principal c, cx_tool = c_tool c, cx_definition = d, cx_revision = pr_revision pr,
                     cx_managed = managed_target e (sc_prepare s) d, cx_validator = c_validator c,
                     cx_record = (sc_payload_mode s = Redacted), cx_sensitive = sensitive_payload_fields d ''sensitive_input_fields''\<rparr>
           in case early_validation e cx (sc_prepare s) (pr_arguments pr) of
                Inl x \<Rightarrow> (Inl x, fresh_state)
              | Inr checked \<Rightarrow> run_script e cx (dispatch_script e s cx pr) (fresh_state\<lparr>schema_checked := checked\<rparr>)))"

text \<open>\<^verbatim>\<open>_recoverable_timeout\<close>; an error of the receipt store other than its capacity leaves the handler (\<open>Inl\<close>).\<close>

definition recoverable_timeout :: "'r call_env \<Rightarrow> 'r call \<Rightarrow> ('h, 'r) schedule \<Rightarrow> tool_definition \<Rightarrow> bool \<Rightarrow> 'r timed_out
    \<Rightarrow> (auth_principal, 'r) receipt list \<Rightarrow> recovery_error + (auth_principal, 'r) receipt list \<times> tool_error" where
  "recoverable_timeout e c s d managed t rs =
     (let p = c_principal c; refused = Inr (rs, mcp_timeout_error t None (Some (lit ''recovery_not_supported_for_this_call''))) in
      if c_context c \<or> c_expected c \<noteq> None \<or> managed \<or> td_source d \<noteq> lit ''mcp'' \<or> \<not> sc_runtime s
         \<or> (auth_type p = lit ''oauth'' \<and> \<not> oauth_builtin p)
         \<or> transport (to_details t) \<noteq> lit ''stdio'' \<or> \<not> business_request (to_details t) \<or> \<not> recovery_supported (to_details t)
      then refused
      else (case to_reader t of
              None \<Rightarrow> refused
            | Some reader \<Rightarrow>
                (let ttl = (case recovery_expires_after_seconds (to_details t) of None \<Rightarrow> 300 | Some q \<Rightarrow> if q = 0 then 300 else q) in
                 case retain_receipt (sc_recovery_now s) (sc_handles s) p (td_id d) (tool_definition_revision (ce_env e) d) reader
                        (PFloat (Finite ttl)) rs of
                   Inr (rs', handle) \<Rightarrow> Inr (rs', mcp_timeout_error t (Some handle) None)
                 | Inl Capacity_reached \<Rightarrow> Inr (expire_receipts (sc_recovery_now s) rs, mcp_timeout_error t None (Some (lit ''recovery_capacity_reached'')))
                 | Inl Identity_capacity \<Rightarrow> Inr (expire_receipts (sc_recovery_now s) rs, mcp_timeout_error t None (Some (lit ''recovery_capacity_reached'')))
                 | Inl x \<Rightarrow> Inl x)))"

text \<open>The response to what the dispatch returned or raised, with what a denial adds to the audit.\<close>

record verdict =
  vd_response :: response
  vd_passed :: bool
  vd_reason :: pystr
  vd_details :: dict

definition settle_dispatch :: "'r call_env \<Rightarrow> call_state \<Rightarrow> 'r exc + response \<Rightarrow> verdict" where
  "settle_dispatch e st out =
     (case out of
        Inr r \<Rightarrow> \<lparr>vd_response = r, vd_passed = guard_passed st, vd_reason = lit ''catalog dispatch rejected'', vd_details = []\<rparr>
      | Inl (Tool_exc Execution t) \<Rightarrow>
          \<lparr>vd_response = error_response t, vd_passed = guard_passed st, vd_reason = lit ''catalog dispatch rejected'', vd_details = []\<rparr>
      | Inl (Tool_exc Dispatch_rejected t) \<Rightarrow>
          \<lparr>vd_response = error_response t, vd_passed = False, vd_reason = lit ''catalog dispatch rejected'', vd_details = []\<rparr>
      | Inl (Tool_exc Policy_denied t) \<Rightarrow>
          \<lparr>vd_response = error_response t, vd_passed = False, vd_reason = lit ''argument policy denied'', vd_details = te_details t\<rparr>
      | Inl x \<Rightarrow>
          \<lparr>vd_response = text_response (exc_text e x), vd_passed = guard_passed st, vd_reason = lit ''catalog dispatch rejected'', vd_details = []\<rparr>)"

definition response_value :: "response \<Rightarrow> pyval" where
  "response_value r = PDict [(PStr (lit ''ok''), PBool (rs_ok r)), (PStr (lit ''output''), rs_output r), (PStr (lit ''error''), opt_str (rs_error r))]"

text \<open>The audit at the end of a call that reached the dispatcher.\<close>

definition final_audit :: "'r call_env \<Rightarrow> 'r call \<Rightarrow> ('h, 'r) schedule \<Rightarrow> tool_definition \<Rightarrow> decision \<Rightarrow> call_state \<Rightarrow> verdict \<Rightarrow> 'r gate \<Rightarrow> 'r gate" where
  "final_audit e c s d dec st v g =
     (let passed = vd_passed v;
          dec' = (if passed then dec else dec\<lparr>allowed := False, decision.reason := vd_reason v\<rparr>);
          payload = (if passed then summary st
                     else dict_set (lit ''dispatch_attempts'') (PInt (int (attempts st))) (no_values @ vd_details v));
          recorded = (case (if passed then recorded_input st else None) of
                        None \<Rightarrow> None
                      | Some i \<Rightarrow> Some (i, case recorded_outputs st of
                            out # _ \<Rightarrow> out
                          | [] \<Rightarrow> ce_snapshot e (response_value (vd_response v)) (sensitive_payload_fields d ''sensitive_output_fields'') (input_secrets st)));
          out = (if \<not> passed \<and> attempts st = 0 then Not_invoked else if rs_ok (vd_response v) then Success else Error)
      in record_invocation_audit c s d dec' out (Some (max 0 (sc_duration s))) payload recorded g)"

definition finish_call :: "'r call_env \<Rightarrow> 'r call \<Rightarrow> ('h, 'r) schedule \<Rightarrow> tool_definition \<Rightarrow> decision \<Rightarrow> pystr option
    \<Rightarrow> ('r exc + response) \<times> call_state \<Rightarrow> 'r gate \<Rightarrow> 'r call_result \<times> 'r gate" where
  "finish_call e c s d dec lease run g =
     (case release_external_invocation lease (gt_limiter g) of
        None \<Rightarrow> (Raised (Plain_exc []), g)
      | Some L \<Rightarrow>
          (let g1 = g\<lparr>gt_limiter := L\<rparr>; out = fst run; st = snd run in
           case out of
             Inl (Credential_exc m) \<Rightarrow>
               (Access_denied m (required_access dec) (granted_access dec),
                record_invocation_audit c s d (dec\<lparr>allowed := False, decision.reason := m\<rparr>) Not_invoked (Some (max 0 (sc_duration s))) (summary st) None g1)
           | Inl (Timeout_exc t) \<Rightarrow>
               (case recoverable_timeout e c s d (managed_target e (sc_late s) d) t (gt_receipts g1) of
                  Inl x \<Rightarrow> (Raised (Plain_exc []), g1\<lparr>gt_receipts := (if x = Allocation_failed then expire_receipts (sc_recovery_now s) (gt_receipts g1) else gt_receipts g1)\<rparr>)
                | Inr (rs, err) \<Rightarrow>
                    (let v = \<lparr>vd_response = error_response err, vd_passed = guard_passed st, vd_reason = lit ''catalog dispatch rejected'', vd_details = []\<rparr>
                     in (Answered (vd_response v), final_audit e c s d dec st v (g1\<lparr>gt_receipts := rs\<rparr>))))
           | _ \<Rightarrow> (let v = settle_dispatch e st out in (Answered (vd_response v), final_audit e c s d dec st v g1))))"

definition invoke_tool :: "'r call_env \<Rightarrow> 'r call \<Rightarrow> ('h, 'r) schedule \<Rightarrow> 'r gate \<Rightarrow> 'r call_result \<times> 'r gate" where
  "invoke_tool e c s g =
     (case get_definition (sc_registry s) (c_tool c) of
        None \<Rightarrow> (Raised (Missing_tool (c_tool c)), g)
      | Some d \<Rightarrow>
          if (case c_expected c of None \<Rightarrow> False | Some r \<Rightarrow> tool_definition_revision (ce_env e) d \<noteq> r)
          then (Raised (Tool_exc Execution \<lparr>te_code = lit ''group_tool_contract_changed'',
                  te_message = lit ''The selected tool contract changed; describe it again.'', te_retryable = False, te_next_action = [], te_details = []\<rparr>), g)
          else (case synchronize (ce_env e) (sc_now s) (sc_uuid s) (sc_fresh s) [d] (gt_classes g) of
                  Inl x \<Rightarrow> (Sync_failed x, g)
                | Inr synced \<Rightarrow>
                    (let classes = sc_between s synced;
                         g1 = g\<lparr>gt_classes := classes\<rparr>;
                         dec = evaluate (sc_env s) (sc_access s) classes (principal.truncate (c_principal c)) d;
                         refuse = (\<lambda>why g'. (Access_denied why (required_access dec) (granted_access dec),
                           record_invocation_audit c s d (dec\<lparr>allowed := False, decision.reason := why\<rparr>) Not_invoked None no_values None g'))
                     in if \<not> allowed dec then refuse (decision.reason dec) g1
                        else (case acquire_external_invocation (sc_monotonic s) (principal.truncate (c_principal c)) (gt_limiter g1) of
                                (L, Inl x) \<Rightarrow> refuse (limit_reason x) (g1\<lparr>gt_limiter := L\<rparr>)
                              | (L, Inr lease) \<Rightarrow>
                                  finish_call e c s d dec lease (dispatch e c s d) (sc_meanwhile s (g1\<lparr>gt_limiter := L\<rparr>))))))"

section \<open>Reading a late response\<close>

text \<open>\<^verbatim>\<open>authorize\<close> inside \<^verbatim>\<open>request_status\<close>: any refusal or exception is the same \<^verbatim>\<open>request_outcome_unavailable\<close> (\<open>None\<close>).\<close>

definition recovery_authorize :: "'r call_env \<Rightarrow> auth_principal \<Rightarrow> pystr \<Rightarrow> ('h, 'r) world \<Rightarrow> rat \<Rightarrow> (auth_principal, 'r) receipt list
    \<Rightarrow> (auth_principal, 'r) receipt list \<times> (auth_principal, 'r) receipt option" where
  "recovery_authorize e p handle w now rs =
     (case (case w_refreshed w of None \<Rightarrow> Some p | Some r \<Rightarrow> r) of
        None \<Rightarrow> (rs, None)
      | Some cur \<Rightarrow>
          (case get_receipt now handle cur rs of
             (rs', None) \<Rightarrow> (rs', None)
           | (rs', Some r) \<Rightarrow>
               (rs', if cur \<noteq> p then None
                     else (case get_definition (w_registry w) (rc_tool_id r) of
                             None \<Rightarrow> None
                           | Some d \<Rightarrow>
                               if w_managed w (meta_text e d ''server_id'') \<or> tool_definition_revision (ce_env e) d \<noteq> rc_revision r
                                  \<or> \<not> allowed (evaluate (w_env w) (w_access w) (w_classes w) (principal.truncate cur) d)
                               then None else Some r))))"

record status_page =
  pg_handle :: pystr
  pg_tool :: pystr
  pg_state :: outcome_state
  pg_received :: bool
  pg_reconcile :: bool
  pg_reason :: "pystr option"
  pg_poll_ms :: "int option"
  pg_expires :: rat
  pg_text :: pystr
  pg_offset :: int
  pg_next :: int
  pg_more :: bool
  pg_total :: int

definition page_offset :: "pystr \<Rightarrow> int \<Rightarrow> int" where
  "page_offset text offset = min (max 0 offset) (int (length text))"

definition page_end :: "pystr \<Rightarrow> int \<Rightarrow> int \<Rightarrow> int" where
  "page_end text offset limit = min (int (length text)) (page_offset text offset + min (max 1 limit) 65536)"

definition status_text :: "'r call_env \<Rightarrow> snapshot \<Rightarrow> pystr" where
  "status_text e sn = (case sn_response sn of None \<Rightarrow> [] | Some PNone \<Rightarrow> [] | Some v \<Rightarrow> json_text (frepr (ce_env e)) v)"

definition make_status_page :: "'r call_env \<Rightarrow> pystr \<Rightarrow> (auth_principal, 'r) receipt \<Rightarrow> snapshot \<Rightarrow> int \<Rightarrow> int \<Rightarrow> status_page" where
  "make_status_page e handle r sn offset limit =
     (let text = status_text e sn;
          start = page_offset text offset; stop = page_end text offset limit
      in \<lparr>pg_handle = handle, pg_tool = rc_tool_id r, pg_state = sn_state sn, pg_received = (sn_state sn = Completed),
          pg_reconcile = (sn_state sn \<in> {Interrupted, Unavailable}), pg_reason = sn_reason sn,
          pg_poll_ms = (if sn_state sn = Waiting then Some 1000 else None), pg_expires = sn_expires_after sn,
          pg_text = take (nat (stop - start)) (drop (nat start) text), pg_offset = start, pg_next = stop,
          pg_more = (stop < int (length text)), pg_total = int (length text)\<rparr>)"

text \<open>\<open>read\<close> calls the retained reader; authority is checked before (\<open>w1\<close>, \<open>t1\<close>) and after (\<open>w2\<close>, \<open>t2\<close>) the reading.\<close>

definition request_status :: "'r call_env \<Rightarrow> ('r \<Rightarrow> snapshot option) \<Rightarrow> auth_principal \<Rightarrow> pystr \<Rightarrow> int \<Rightarrow> int \<Rightarrow> ('h, 'r) world \<Rightarrow> rat \<Rightarrow> ('h, 'r) world \<Rightarrow> rat
    \<Rightarrow> (auth_principal, 'r) receipt list \<Rightarrow> (auth_principal, 'r) receipt list \<times> status_page option" where
  "request_status e read p handle offset limit w1 t1 w2 t2 rs =
     (case recovery_authorize e p handle w1 t1 rs of
        (rs1, None) \<Rightarrow> (rs1, None)
      | (rs1, Some r) \<Rightarrow>
          (case read (rc_reader r) of
             None \<Rightarrow> (discard_receipt handle rs1, None)
           | Some sn \<Rightarrow>
               (case recovery_authorize e p handle w2 t2 rs1 of
                  (rs2, None) \<Rightarrow> (rs2, None)
                | (rs2, Some _) \<Rightarrow> (rs2, Some (make_status_page e handle r sn offset limit)))))"

section \<open>What the final check guarantees\<close>

text \<open>The conditions under which arguments \<open>v\<close> may be dispatched in world \<open>w\<close> under \<open>policy\<close>.\<close>

definition authorized_at :: "'r call_env \<Rightarrow> 'r call_context \<Rightarrow> ('h, 'r) world \<Rightarrow> pyval \<Rightarrow> argument_policy \<Rightarrow> bool" where
  "authorized_at e cx w v policy \<longleftrightarrow>
     w_dispatch w = None
     \<and> (\<exists>p d. (w_refreshed w = None \<and> p = cx_principal cx \<or> w_refreshed w = Some (Some p))
        \<and> same_invocation_principal p (cx_principal cx)
        \<and> get_definition (w_registry w) (cx_tool cx) = Some d
        \<and> (cx_managed cx \<or> \<not> managed_target e w d)
        \<and> tool_definition_revision (ce_env e) d = cx_revision cx
        \<and> allowed (evaluate (w_env w) (w_access w) (w_classes w) (principal.truncate p) d))
     \<and> current (frepr (ce_env e)) (ce_loads e) (w_policies w) (cx_tool cx) = Inr policy
     \<and> check_policy policy v = Inr ()
     \<and> is_ok (checked_json_size (frepr (ce_env e)) argument_limits v)"

lemma guard_round_ok:
  assumes "guard_round e cx w = Inr policy" "check_policy policy v = Inr ()" "checked_json_size (frepr (ce_env e)) argument_limits v = Inr n"
  shows "authorized_at e cx w v policy"
  using assms by (auto simp: guard_round_def authorized_at_def split: option.splits if_splits sum.splits)

lemma pass_guard_passed:
  assumes "pass_guard e cx policy v st = (x, st')"
  shows "x = None \<and> check_policy policy v = Inr () \<and> guard_passed st' \<and> attempts st' = attempts st
      \<or> x \<noteq> None \<and> st' = st"
  using assms by (auto simp: pass_guard_def Let_def split: sum.splits)

text \<open>
  Whether a guard call validates the schema, judged at its first reading, and the reading on which the guard decides: validation may
  wait, and everything is read again after it.
\<close>

definition validates :: "'r call_env \<Rightarrow> 'r call_context \<Rightarrow> call_state \<Rightarrow> ('h, 'r) world \<Rightarrow> bool" where
  "validates e cx st w \<longleftrightarrow> \<not> schema_checked st
     \<and> (cx_validator cx \<noteq> None
        \<or> (case current (frepr (ce_env e)) (ce_loads e) (w_policies w) (cx_tool cx) of Inl _ \<Rightarrow> False | Inr policy \<Rightarrow> enabled policy))"

definition last_reading :: "'r call_env \<Rightarrow> 'r call_context \<Rightarrow> call_state \<Rightarrow> ('h, 'r) world \<Rightarrow> ('h, 'r) world \<Rightarrow> ('h, 'r) world" where
  "last_reading e cx st w1 w2 = (if validates e cx st w1 then w2 else w1)"

lemma guard_round_current:
  "guard_round e cx w = Inr policy \<Longrightarrow> current (frepr (ce_env e)) (ce_loads e) (w_policies w) (cx_tool cx) = Inr policy"
  by (auto simp: guard_round_def split: option.splits if_splits sum.splits)

lemma guard_round_validates:
  "guard_round e cx w = Inr policy \<Longrightarrow> validates e cx st w \<longleftrightarrow> \<not> schema_checked st \<and> (cx_validator cx \<noteq> None \<or> enabled policy)"
  by (simp add: validates_def guard_round_current)

text \<open>The verdict of a guard call: it passes exactly on authorised arguments, and a refusal leaves nothing recorded.\<close>

lemma check_effective_verdict:
  assumes run: "check_effective_arguments e cx w1 w2 v st = (x, st')"
  shows "attempts st' = attempts st"
    and "guard_passed st' \<longleftrightarrow> x = None"
    and "x = None \<Longrightarrow> \<exists>policy. authorized_at e cx (last_reading e cx st w1 w2) v policy"
    and "x = None \<Longrightarrow> validates e cx st w1 \<Longrightarrow> validate_call e cx v = None"
    and "x \<noteq> None \<Longrightarrow> recorded_input st' = None \<and> summary st' = no_values \<and> recorded_outputs st' = []"
proof -
  note defs = check_effective_arguments_def Let_def
  show "attempts st' = attempts st"
    using run pass_guard_passed by (fastforce simp: defs split: sum.splits if_splits option.splits)
  show "guard_passed st' \<longleftrightarrow> x = None"
    using run by (auto simp: defs pass_guard_def split: sum.splits if_splits option.splits)
  show "\<exists>policy. authorized_at e cx (last_reading e cx st w1 w2) v policy" if "x = None"
    using run that
    by (auto simp: defs pass_guard_def last_reading_def guard_round_validates split: sum.splits if_splits option.splits dest: guard_round_ok)
  show "validate_call e cx v = None" if "x = None" "validates e cx st w1"
    using run that by (auto simp: defs guard_round_validates split: sum.splits if_splits option.splits)
  show "recorded_input st' = None \<and> summary st' = no_values \<and> recorded_outputs st' = []" if "x \<noteq> None"
    using run that by (auto simp: defs pass_guard_def split: sum.splits if_splits option.splits)
qed

text \<open>What the audit keeps of arguments that passed the check.\<close>

definition describes :: "'r call_env \<Rightarrow> 'r call_context \<Rightarrow> argument_policy \<Rightarrow> pyval \<Rightarrow> call_state \<Rightarrow> bool" where
  "describes e cx policy v st \<longleftrightarrow>
     summary st = (if enabled policy then dict_set (lit ''policy_revision'') (PInt (revision policy)) (payload_summary e v) else payload_summary e v)
     \<and> recorded_input st = (if cx_record cx then Some (ce_snapshot e v (cx_sensitive cx) (secret_values (cx_sensitive cx) v)) else None)"

lemma describes_fields [simp]:
  "describes e cx policy v (st\<lparr>attempts := n\<rparr>) = describes e cx policy v st"
  "describes e cx policy v (st\<lparr>recorded_outputs := rs\<rparr>) = describes e cx policy v st"
  by (simp_all add: describes_def)

text \<open>The last guard call a script makes: its arguments and the reading on which it decided.\<close>

primrec last_guard :: "'r call_env \<Rightarrow> 'r call_context \<Rightarrow> ('h, 'r) script \<Rightarrow> call_state \<Rightarrow> (pyval \<times> ('h, 'r) world) option
    \<Rightarrow> (pyval \<times> ('h, 'r) world) option" where
  "last_guard e cx (Finish r) = (\<lambda>st acc. acc)"
| "last_guard e cx (Guard v w1 w2 k) = (\<lambda>st acc.
     (case check_effective_arguments e cx w1 w2 v st of (verdict, st') \<Rightarrow>
        last_guard e cx (k verdict) st' (Some (v, last_reading e cx st w1 w2))))"
| "last_guard e cx (Started s) = (\<lambda>st. last_guard e cx s (st\<lparr>attempts := attempts st + 1\<rparr>))"
| "last_guard e cx (Audit_output d s) = (\<lambda>st. last_guard e cx s (st\<lparr>recorded_outputs := recorded_outputs st @ [d]\<rparr>))"

definition script_ok :: "'r call_env \<Rightarrow> 'r call_context \<Rightarrow> (pyval \<times> ('h, 'r) world) option \<Rightarrow> call_state \<Rightarrow> bool" where
  "script_ok e cx acc st \<longleftrightarrow>
     (if guard_passed st then \<exists>v w policy. acc = Some (v, w) \<and> authorized_at e cx w v policy \<and> describes e cx policy v st
      else recorded_input st = None \<and> summary st = no_values)"

lemma pass_guard_script_ok:
  assumes run: "pass_guard e cx policy v st = (x, st')"
    and round: "guard_round e cx w = Inr policy" "checked_json_size (frepr (ce_env e)) argument_limits v = Inr n"
    and clean: "\<not> guard_passed st" "recorded_input st = None" "summary st = no_values"
  shows "script_ok e cx (Some (v, w)) st'"
proof (cases "check_policy policy v")
  case (Inl d)
  then show ?thesis using run clean by (simp add: pass_guard_def script_ok_def split: if_splits)
next
  case (Inr u)
  have "authorized_at e cx w v policy" using guard_round_ok [OF round(1) _ round(2)] Inr by simp
  moreover have "guard_passed st'" "describes e cx policy v st'"
    using run Inr clean by (auto simp: pass_guard_def describes_def Let_def)
  ultimately show ?thesis unfolding script_ok_def by auto
qed

lemma check_effective_script_ok:
  fixes w1 w2 :: "('h, 'r) world"
  assumes run: "check_effective_arguments e cx w1 w2 v st = (x, st')"
  shows "script_ok e cx (Some (v, last_reading e cx st w1 w2)) st'"
proof -
  let ?st = "st\<lparr>guard_passed := False, recorded_input := None, input_secrets := [], recorded_outputs := [], summary := no_values\<rparr>"
  have clean: "script_ok e cx acc ?st" "script_ok e cx acc (?st\<lparr>schema_checked := True\<rparr>)" for acc :: "(pyval \<times> ('h, 'r) world) option"
    by (simp_all add: script_ok_def)
  show ?thesis
  proof (cases "checked_json_size (frepr (ce_env e)) argument_limits v")
    case (Inl y)
    then show ?thesis using run clean by (simp add: check_effective_arguments_def Let_def)
  next
    case (Inr n)
    note size = this
    show ?thesis
    proof (cases "guard_round e cx w1")
      case (Inl y)
      then show ?thesis using run clean size by (simp add: check_effective_arguments_def Let_def)
    next
      case (Inr policy)
      note r1 = this
      show ?thesis
      proof (cases "validates e cx st w1")
        case False
        then have "pass_guard e cx policy v ?st = (x, st')"
          using run size r1 by (simp add: check_effective_arguments_def Let_def guard_round_validates split: if_splits)
        then show ?thesis using False by (simp add: last_reading_def pass_guard_script_ok [OF _ r1 size])
      next
        case True
        then have two: "(case validate_call e cx v of Some y \<Rightarrow> (Some y, ?st)
            | None \<Rightarrow> (case guard_round e cx w2 of Inl y \<Rightarrow> (Some y, ?st\<lparr>schema_checked := True\<rparr>)
              | Inr policy2 \<Rightarrow> pass_guard e cx policy2 v (?st\<lparr>schema_checked := True\<rparr>))) = (x, st')"
          using run size r1 by (simp add: check_effective_arguments_def Let_def guard_round_validates split: if_splits)
        show ?thesis
        proof (cases "validate_call e cx v = None \<and> (\<exists>policy2. guard_round e cx w2 = Inr policy2)")
          case ok: True
          then obtain policy2 where r2: "guard_round e cx w2 = Inr policy2" by blast
          then have "pass_guard e cx policy2 v (?st\<lparr>schema_checked := True\<rparr>) = (x, st')" using two ok by simp
          then show ?thesis using True by (simp add: last_reading_def pass_guard_script_ok [OF _ r2 size])
        next
          case False
          then show ?thesis using two clean by (auto split: option.splits sum.splits)
        qed
      qed
    qed
  qed
qed

lemma script_ok_fields [simp]:
  "script_ok e cx acc (st\<lparr>attempts := n\<rparr>) = script_ok e cx acc st"
  "script_ok e cx acc (st\<lparr>recorded_outputs := rs\<rparr>) = script_ok e cx acc st"
  by (simp_all add: script_ok_def)

lemma run_script_ok:
  "run_script e cx s st = (out, st') \<Longrightarrow> script_ok e cx acc st \<Longrightarrow> script_ok e cx (last_guard e cx s st acc) st'"
proof (induction s arbitrary: st acc)
  case (Guard v w1 w2 k)
  obtain x st1 where g: "check_effective_arguments e cx w1 w2 v st = (x, st1)" by (rule prod.exhaust)
  from Guard.IH [of "k x" st1] Guard.prems(1) check_effective_script_ok [OF g] show ?case by (simp add: g)
qed simp_all

lemma script_ok_fresh: "script_ok e cx acc fresh_state" "script_ok e cx acc (fresh_state\<lparr>schema_checked := b\<rparr>)"
  by (simp_all add: script_ok_def fresh_state_def)

text \<open>
  The final check of a call: the last guard call its dispatch made was on the arguments \<open>v\<close>, they were authorised at the reading
  \<open>w\<close> on which that guard call decided, and the call's variables describe them.
\<close>

definition call_context_of :: "'r call_env \<Rightarrow> 'r call \<Rightarrow> ('h, 'r) schedule \<Rightarrow> tool_definition \<Rightarrow> 'h prepared \<Rightarrow> 'r call_context" where
  "call_context_of e c s d pr =
     \<lparr>cx_principal = c_principal c, cx_tool = c_tool c, cx_definition = d, cx_revision = pr_revision pr,
      cx_managed = managed_target e (sc_prepare s) d, cx_validator = c_validator c,
      cx_record = (sc_payload_mode s = Redacted), cx_sensitive = sensitive_payload_fields d ''sensitive_input_fields''\<rparr>"

definition finally_checked :: "'r call_env \<Rightarrow> 'r call \<Rightarrow> ('h, 'r) schedule \<Rightarrow> tool_definition \<Rightarrow> call_state \<Rightarrow> bool" where
  "finally_checked e c s d st \<longleftrightarrow>
     (\<exists>pr checked v w policy.
        prepare (ce_env e) (w_registry (sc_prepare s)) (c_tool c) (c_arguments c) (Some d) = (Inr pr :: 'r exc + 'h prepared)
        \<and> early_validation e (call_context_of e c s d pr) (sc_prepare s) (pr_arguments pr) = Inr checked
        \<and> last_guard e (call_context_of e c s d pr) (dispatch_script e s (call_context_of e c s d pr) pr) (fresh_state\<lparr>schema_checked := checked\<rparr>) None
            = Some (v, w)
        \<and> authorized_at e (call_context_of e c s d pr) w v policy
        \<and> describes e (call_context_of e c s d pr) policy v st)"

lemma dispatch_run:
  fixes s :: "('h, 'r) schedule"
  shows "dispatch e c s d =
     (case prepare (ce_env e) (w_registry (sc_prepare s)) (c_tool c) (c_arguments c) (Some d) :: 'r exc + 'h prepared of
        Inl x \<Rightarrow> (Inl x, fresh_state)
      | Inr pr \<Rightarrow>
          (case early_validation e (call_context_of e c s d pr) (sc_prepare s) (pr_arguments pr) of
             Inl x \<Rightarrow> (Inl x, fresh_state)
           | Inr checked \<Rightarrow> run_script e (call_context_of e c s d pr) (dispatch_script e s (call_context_of e c s d pr) pr)
               (fresh_state\<lparr>schema_checked := checked\<rparr>)))"
  unfolding dispatch_def call_context_of_def Let_def by (rule refl)

lemma dispatch_ok:
  fixes s :: "('h, 'r) schedule"
  assumes run: "dispatch e c s d = (out, st)" and passed: "guard_passed st"
  shows "finally_checked e c s d st"
proof (cases "prepare (ce_env e) (w_registry (sc_prepare s)) (c_tool c) (c_arguments c) (Some d) :: 'r exc + 'h prepared")
  case (Inl x)
  then show ?thesis using run passed by (auto simp: dispatch_run fresh_state_def)
next
  case (Inr pr)
  note pr = this
  let ?cx = "call_context_of e c s d pr"
  show ?thesis
  proof (cases "early_validation e ?cx (sc_prepare s) (pr_arguments pr)")
    case (Inl x)
    then show ?thesis using run pr passed by (auto simp: dispatch_run fresh_state_def)
  next
    case (Inr b)
    then have "run_script e ?cx (dispatch_script e s ?cx pr) (fresh_state\<lparr>schema_checked := b\<rparr>) = (out, st)"
      using run pr by (simp add: dispatch_run)
    from run_script_ok [OF this script_ok_fresh(2)] passed pr Inr show ?thesis
      unfolding script_ok_def finally_checked_def by auto
  qed
qed

section \<open>Properties\<close>

lemma builtin_dispatch_authorized_parts:
  assumes run: "run_script e cx (registry_invoke e tool_id pr expected g1 w1 w2 g2 handle) st = (out, st')"
    and started: "attempts st' \<noteq> attempts st"
  shows "(\<exists>policy. authorized_at e cx (last_reading e cx st w1 w2) (pr_arguments pr) policy)
      \<and> (validates e cx st w1 \<longrightarrow> validate_call e cx (pr_arguments pr) = None)"
    and "\<exists>r q. map_of (tools g1) tool_id = Some r \<and> map_of (tools g2) tool_id = Some q
      \<and> tr_serial r = tr_serial (pr_record pr) \<and> tr_serial q = tr_serial r
      \<and> out = Inr (handler_response e (handle (tr_handler r) (pr_arguments pr))) \<and> attempts st' = attempts st + 1"
proof -
  obtain r where r: "map_of (tools g1) tool_id = Some r"
    using run started by (cases "map_of (tools g1) tool_id") (auto simp: registry_invoke_def)
  have ok: "py_eq (PDict (field_envelope (tr_definition r))) (PDict (field_envelope expected))" "tr_serial r = tr_serial (pr_record pr)"
    using run started by (auto simp: registry_invoke_def r conflict_def split: if_splits)
  obtain x st1 where g: "check_effective_arguments e cx w1 w2 (pr_arguments pr) st = (x, st1)" by (rule prod.exhaust)
  note v = check_effective_verdict [OF g]
  have x: "x = None" using run started v(1) by (cases x) (auto simp: registry_invoke_def r ok g)
  with v(3,4) show "(\<exists>policy. authorized_at e cx (last_reading e cx st w1 w2) (pr_arguments pr) policy)
      \<and> (validates e cx st w1 \<longrightarrow> validate_call e cx (pr_arguments pr) = None)" by blast
  show "\<exists>r q. map_of (tools g1) tool_id = Some r \<and> map_of (tools g2) tool_id = Some q
      \<and> tr_serial r = tr_serial (pr_record pr) \<and> tr_serial q = tr_serial r
      \<and> out = Inr (handler_response e (handle (tr_handler r) (pr_arguments pr))) \<and> attempts st' = attempts st + 1"
    using run started v(1) by (cases "map_of (tools g2) tool_id") (auto simp: registry_invoke_def r ok g x conflict_def split: if_splits)
qed

text \<open>
  C1: a built-in handler runs only on a dispatch that is still authorised.  If \<^verbatim>\<open>ToolRegistry.invoke\<close> marks a dispatch as
  started, the final check had passed on exactly the arguments the handler receives, and it passed at the \<^emph>\<open>last\<close> reading: the
  one made after the schema validation when the check had to validate (and then the arguments had been found valid), the first one
  otherwise.  At that reading the optional dispatch guard did not object, the caller's authority was unchanged, the definition had
  the prepared revision, the decision still allowed the call, the current argument policy was satisfied and the arguments were
  within bounds; and the handler is that of the very record that was prepared, still registered after the check.
\<close>
theorem builtin_dispatch_authorized:
  assumes "run_script e cx (registry_invoke e tool_id pr expected g1 w1 w2 g2 handle) st = (out, st')"
    and "attempts st' \<noteq> attempts st"
  shows "(\<exists>policy. authorized_at e cx (last_reading e cx st w1 w2) (pr_arguments pr) policy)
    \<and> (validates e cx st w1 \<longrightarrow> validate_call e cx (pr_arguments pr) = None)
    \<and> (\<exists>r q. map_of (tools g1) tool_id = Some r \<and> map_of (tools g2) tool_id = Some q
      \<and> tr_serial r = tr_serial (pr_record pr) \<and> tr_serial q = tr_serial r
      \<and> out = Inr (handler_response e (handle (tr_handler r) (pr_arguments pr))) \<and> attempts st' = attempts st + 1)"
  using builtin_dispatch_authorized_parts [OF assms] by blast

text \<open>A dispatch that a guard or a revision check rejected.\<close>

definition rejection :: "'r exc + response \<Rightarrow> bool" where
  "rejection out = (case out of Inl (Tool_exc k _) \<Rightarrow> k \<noteq> Execution | _ \<Rightarrow> False)"

lemma settle_passed: "vd_passed (settle_dispatch e st out) \<longleftrightarrow> guard_passed st \<and> \<not> rejection out"
  by (auto simp: settle_dispatch_def rejection_def split: sum.splits exc.splits error_class.splits)

lemma settle_ok:
  "rs_ok (vd_response (settle_dispatch e st (Inl x))) = False" "vd_response (settle_dispatch e st (Inr r)) = r"
  by (simp_all add: settle_dispatch_def error_response_def text_response_def split: exc.splits error_class.splits)

text \<open>Why a call that reached its decision is denied rather than answered, if it is.\<close>

definition denial_reason :: "decision \<Rightarrow> limit_error + pystr option \<Rightarrow> 'r exc + response \<Rightarrow> pystr option" where
  "denial_reason dec adm out =
     (if \<not> allowed dec then Some (decision.reason dec)
      else (case adm of
              Inl x \<Rightarrow> Some (limit_reason x)
            | Inr _ \<Rightarrow> (case out of Inl (Credential_exc m) \<Rightarrow> Some m | _ \<Rightarrow> None)))"

text \<open>
  The audit row of a call, by the call's answer.  A denied call is recorded as denied, for the reason the caller is given.
  An answered call is recorded as allowed exactly when its last guard call passed and the dispatch was not
  rejected, as not invoked exactly when it was not allowed and nothing was started, and otherwise by the success of the answer.
\<close>

definition faithful_audit :: "'r call_env \<Rightarrow> 'r call \<Rightarrow> ('h, 'r) schedule \<Rightarrow> decision \<Rightarrow> tool_definition \<Rightarrow> 'r call_result \<Rightarrow> audit \<Rightarrow> bool" where
  "faithful_audit e c s dec d res a \<longleftrightarrow>
     au_id a = sc_audit_id s \<and> au_correlation a = c_correlation c \<and> au_user a = p_id (c_principal c) \<and> au_tool a = td_id d
     \<and> au_required a = required_access dec \<and> au_granted a = granted_access dec
     \<and> (case (res, dispatch e c s d) of
          (Access_denied why _ _, _) \<Rightarrow> \<not> au_allow a \<and> au_outcome a = Not_invoked \<and> au_reason a = why
        | (Answered r, (out, st)) \<Rightarrow>
            (au_allow a \<longleftrightarrow> guard_passed st \<and> \<not> rejection out)
            \<and> (au_outcome a = Not_invoked \<longleftrightarrow> \<not> au_allow a \<and> attempts st = 0)
            \<and> (au_outcome a = Success \<longleftrightarrow> (au_allow a \<or> attempts st \<noteq> 0) \<and> rs_ok r)
            \<and> (rs_ok r \<longrightarrow> out = Inr r)
            \<and> (au_allow a \<longrightarrow> allowed dec \<and> au_reason a = decision.reason dec \<and> au_payload a = summary st \<and> finally_checked e c s d st)
            \<and> (\<not> au_allow a \<longrightarrow> dict_get (au_payload a) (lit ''dispatch_attempts'') = Some (PInt (int (attempts st))))
        | _ \<Rightarrow> False)"

lemma dict_get_dict_set [simp]: "dict_get (dict_set k v d) k = Some v"
  by (induction d) (auto simp: dict_get_def dict_set_def)

lemma final_audit_faithful:
  assumes run: "dispatch e c s d = (out, st)" and dec: "allowed dec"
    and passed: "vd_passed v \<longleftrightarrow> guard_passed st \<and> \<not> rejection out" and ok: "rs_ok (vd_response v) \<longrightarrow> out = Inr (vd_response v)"
  shows "\<exists>a. gt_audits (final_audit e c s d dec st v g) = gt_audits g @ [a] \<and> faithful_audit e c s dec d (Answered (vd_response v)) a"
proof (cases "vd_passed v")
  case True
  then have "finally_checked e c s d st" using dispatch_ok [OF run] passed by blast
  with True dec passed ok show ?thesis
    by (simp add: final_audit_def record_invocation_audit_def Let_def faithful_audit_def run)
next
  case False
  with dec passed ok show ?thesis
    by (simp add: final_audit_def record_invocation_audit_def Let_def faithful_audit_def run)
qed

lemma audit_fields [simp]:
  "gt_limiter (record_invocation_audit c s d dec out dur pay rc g) = gt_limiter g"
  "gt_limiter (final_audit e c s d dec st v g) = gt_limiter g"
  by (simp_all add: record_invocation_audit_def final_audit_def Let_def)

lemma refusal_faithful:
  "\<exists>a. gt_audits (record_invocation_audit c s d (dec\<lparr>allowed := False, decision.reason := why\<rparr>) Not_invoked dur pay None g) = gt_audits g @ [a]
     \<and> faithful_audit e c s dec d (Access_denied why need granted) a"
  by (simp add: record_invocation_audit_def faithful_audit_def)

text \<open>The endings of an admitted call that leave no row: giving back the lease raises, or storing the receipt of a timed-out request does.\<close>

definition unrecorded :: "'r call_env \<Rightarrow> 'r call \<Rightarrow> ('h, 'r) schedule \<Rightarrow> tool_definition \<Rightarrow> pystr option \<Rightarrow> 'r gate \<Rightarrow> bool" where
  "unrecorded e c s d lease g \<longleftrightarrow>
     release_external_invocation lease (gt_limiter g) = None
     \<or> (\<exists>t x. fst (dispatch e c s d) = Inl (Timeout_exc t)
          \<and> recoverable_timeout e c s d (managed_target e (sc_late s) d) t (gt_receipts g) = Inl x)"

lemma finish_call_unrecorded:
  assumes "unrecorded e c s d lease g" "finish_call e c s d dec lease (dispatch e c s d) g = (res, g')"
  shows "gt_audits g' = gt_audits g \<and> (\<exists>x. res = Raised x)"
  using assms by (auto simp: unrecorded_def finish_call_def Let_def split: option.splits)

lemma finish_call_faithful:
  assumes run: "finish_call e c s d dec lease (dispatch e c s d) g = (res, g')" and dec: "allowed dec"
    and good: "\<not> unrecorded e c s d lease g"
  shows "(\<exists>a. gt_audits g' = gt_audits g @ [a] \<and> faithful_audit e c s dec d res a)
    \<and> (case denial_reason dec (Inr lease) (fst (dispatch e c s d)) of
         Some why \<Rightarrow> res = Access_denied why (required_access dec) (granted_access dec)
       | None \<Rightarrow> \<exists>r. res = Answered r)"
proof -
  obtain out st where disp: "dispatch e c s d = (out, st)" by (rule prod.exhaust)
  obtain L where L: "release_external_invocation lease (gt_limiter g) = Some L"
    using good by (cases "release_external_invocation lease (gt_limiter g)") (auto simp: unrecorded_def)
  let ?g = "g\<lparr>gt_limiter := L\<rparr>"
  note F = final_audit_faithful [OF disp dec]
  consider (cred) m where "out = Inl (Credential_exc m)" | (time) t where "out = Inl (Timeout_exc t)"
    | (rest) "\<forall>m. out \<noteq> Inl (Credential_exc m)" "\<forall>t. out \<noteq> Inl (Timeout_exc t)" by blast
  then show ?thesis
  proof cases
    case cred
    let ?a = "record_invocation_audit c s d (dec\<lparr>allowed := False, decision.reason := m\<rparr>) Not_invoked (Some (max 0 (sc_duration s))) (summary st) None ?g"
    have "res = Access_denied m (required_access dec) (granted_access dec)" "g' = ?a"
      using run by (simp_all add: finish_call_def disp L cred)
    with refusal_faithful [where c = c and s = s and d = d and dec = dec and why = m and dur = "Some (max 0 (sc_duration s))" and pay = "summary st"
        and g = ?g and e = e] dec show ?thesis by (simp add: denial_reason_def disp cred)
  next
    case time
    obtain rs err where rec: "recoverable_timeout e c s d (managed_target e (sc_late s) d) t (gt_receipts ?g) = Inr (rs, err)"
      using good by (cases "recoverable_timeout e c s d (managed_target e (sc_late s) d) t (gt_receipts ?g)")
        (auto simp: unrecorded_def disp time)
    let ?v = "\<lparr>vd_response = error_response err, vd_passed = guard_passed st, vd_reason = lit ''catalog dispatch rejected'', vd_details = []\<rparr>"
    have "res = Answered (vd_response ?v)" "g' = final_audit e c s d dec st ?v (?g\<lparr>gt_receipts := rs\<rparr>)"
      using run rec by (simp_all add: finish_call_def disp L time Let_def)
    with F [of ?v "?g\<lparr>gt_receipts := rs\<rparr>"] dec show ?thesis
      by (simp add: denial_reason_def disp time rejection_def error_response_def)
  next
    case rest
    let ?v = "settle_dispatch e st out"
    have "finish_call e c s d dec lease (dispatch e c s d) g = (Answered (vd_response ?v), final_audit e c s d dec st ?v ?g)"
    proof (cases out)
      case (Inl x)
      then show ?thesis using rest by (cases x) (simp_all add: finish_call_def disp L Let_def)
    qed (simp add: finish_call_def disp L Let_def)
    with run have "res = Answered (vd_response ?v)" "g' = final_audit e c s d dec st ?v ?g" by auto
    moreover have "rs_ok (vd_response ?v) \<longrightarrow> out = Inr (vd_response ?v)" by (cases out) (simp_all add: settle_ok)
    moreover have "denial_reason dec (Inr lease) out = None"
      using rest dec by (auto simp: denial_reason_def split: sum.splits exc.splits)
    ultimately show ?thesis using F [of ?v ?g, OF settle_passed] by (simp add: disp)
  qed
qed

lemma finish_call_release:
  assumes "finish_call e c s d dec lease run g = (res, g')" "release_external_invocation lease (gt_limiter g) = Some L"
  shows "gt_limiter g' = L"
  using assms by (auto simp: finish_call_def Let_def split: sum.splits exc.splits prod.splits)

lemma invoke_tool_body:
  assumes run: "invoke_tool e c s g = (res, g')"
    and d: "get_definition (sc_registry s) (c_tool c) = Some d"
    and same: "c_expected c = None \<or> c_expected c = Some (tool_definition_revision (ce_env e) d)"
    and sync: "synchronize (ce_env e) (sc_now s) (sc_uuid s) (sc_fresh s) [d] (gt_classes g) = Inr synced"
    and dec: "dec = evaluate (sc_env s) (sc_access s) (sc_between s synced) (principal.truncate (c_principal c)) d"
    and acq: "acquire_external_invocation (sc_monotonic s) (principal.truncate (c_principal c)) (gt_limiter g) = (L, r)"
  defines "refuse \<equiv> \<lambda>why h. (Access_denied why (required_access dec) (granted_access dec),
      record_invocation_audit c s d (dec\<lparr>allowed := False, decision.reason := why\<rparr>) Not_invoked None no_values None h)"
  shows "(res, g') = (if \<not> allowed dec then refuse (decision.reason dec) (g\<lparr>gt_classes := sc_between s synced\<rparr>)
      else (case r of Inl x \<Rightarrow> refuse (limit_reason x) (g\<lparr>gt_classes := sc_between s synced, gt_limiter := L\<rparr>)
            | Inr lease \<Rightarrow> finish_call e c s d dec lease (dispatch e c s d) (sc_meanwhile s (g\<lparr>gt_classes := sc_between s synced, gt_limiter := L\<rparr>))))"
  unfolding run [symmetric] refuse_def using same
  by (cases "allowed dec"; cases r) (auto simp: invoke_tool_def d sync Let_def acq dec [symmetric])

text \<open>The state in which a call that reached its decision is settled.\<close>

definition settled_in :: "('h, 'r) schedule \<Rightarrow> decision \<Rightarrow> class_db \<Rightarrow> limiter \<Rightarrow> limit_error + pystr option \<Rightarrow> 'r gate \<Rightarrow> 'r gate" where
  "settled_in s dec classes L adm g =
     (if \<not> allowed dec then g\<lparr>gt_classes := classes\<rparr>
      else (case adm of
              Inl _ \<Rightarrow> g\<lparr>gt_classes := classes, gt_limiter := L\<rparr>
            | Inr _ \<Rightarrow> sc_meanwhile s (g\<lparr>gt_classes := classes, gt_limiter := L\<rparr>)))"

lemma invoke_tool_audited_parts:
  fixes s :: "('h, 'r) schedule"
  assumes run: "invoke_tool e c s g = (res, g')"
    and d: "get_definition (sc_registry s) (c_tool c) = Some d"
    and same: "c_expected c = None \<or> c_expected c = Some (tool_definition_revision (ce_env e) d)"
    and sync: "synchronize (ce_env e) (sc_now s) (sc_uuid s) (sc_fresh s) [d] (gt_classes g) = Inr synced"
    and dec: "dec = evaluate (sc_env s) (sc_access s) (sc_between s synced) (principal.truncate (c_principal c)) d"
    and acq: "acquire_external_invocation (sc_monotonic s) (principal.truncate (c_principal c)) (gt_limiter g) = (L, adm)"
    and g0: "g0 = settled_in s dec (sc_between s synced) L adm g"
  shows "if \<exists>lease. allowed dec \<and> adm = Inr lease \<and> unrecorded e c s d lease g0
    then gt_audits g' = gt_audits g0 \<and> (\<exists>x. res = Raised x)
    else (\<exists>a. gt_audits g' = gt_audits g0 @ [a] \<and> faithful_audit e c s dec d res a)
      \<and> (case denial_reason dec adm (fst (dispatch e c s d)) of
           Some why \<Rightarrow> res = Access_denied why (required_access dec) (granted_access dec)
         | None \<Rightarrow> \<exists>r. res = Answered r)"
    and "allowed dec \<Longrightarrow> adm = Inr lease \<Longrightarrow> release_external_invocation lease (gt_limiter g0) = Some L' \<Longrightarrow> gt_limiter g' = L'"
proof -
  note body = invoke_tool_body [OF run d same sync dec acq]
  show "gt_limiter g' = L'" if "allowed dec" "adm = Inr lease" "release_external_invocation lease (gt_limiter g0) = Some L'"
    using body that by (auto simp: g0 settled_in_def dest!: finish_call_release [OF sym])
  show "if \<exists>lease. allowed dec \<and> adm = Inr lease \<and> unrecorded e c s d lease g0
    then gt_audits g' = gt_audits g0 \<and> (\<exists>x. res = Raised x)
    else (\<exists>a. gt_audits g' = gt_audits g0 @ [a] \<and> faithful_audit e c s dec d res a)
      \<and> (case denial_reason dec adm (fst (dispatch e c s d)) of
           Some why \<Rightarrow> res = Access_denied why (required_access dec) (granted_access dec)
         | None \<Rightarrow> \<exists>r. res = Answered r)"
  proof (cases "allowed dec \<and> (\<exists>lease. adm = Inr lease)")
    case True
    then obtain lease where lease: "adm = Inr lease" by blast
    have f: "finish_call e c s d dec lease (dispatch e c s d) g0 = (res, g')" using body True lease by (simp add: g0 settled_in_def)
    from finish_call_unrecorded [OF _ f] finish_call_faithful [OF f] True lease show ?thesis by auto
  next
    case False
    then show ?thesis using body
      by (cases adm) (auto simp: g0 settled_in_def denial_reason_def record_invocation_audit_def faithful_audit_def)
  qed
qed

text \<open>
  C2: every call that reaches its decision leaves exactly one audit row of its own, and the row tells the truth.  It names
  the caller and the tool.  A call denied by the decision, by the limits or for a missing credential is denied with that
  reason, and its row says denied, \<^verbatim>\<open>not_invoked\<close> and the same reason.  Any other call is answered; its row says \<^verbatim>\<open>allow\<close> exactly
  when the last guard call of the dispatch passed and the dispatch was not rejected afterwards, and then the arguments
  that the row summarises were authorised at the reading on which that guard call decided; it says
  \<^verbatim>\<open>not_invoked\<close> exactly when the call was not allowed and nothing was started, and otherwise \<^verbatim>\<open>success\<close> exactly when the answer is.
  The only endings without a row, both exceptions to the caller, are that giving back the lease or storing the receipt of a timed-out request raises;
  in every ending of an admitted call but the first the lease has been given back.
\<close>
theorem invoke_tool_audited:
  fixes s :: "('h, 'r) schedule"
  assumes run: "invoke_tool e c s g = (res, g')"
    and d: "get_definition (sc_registry s) (c_tool c) = Some d"
    and same: "c_expected c = None \<or> c_expected c = Some (tool_definition_revision (ce_env e) d)"
    and sync: "synchronize (ce_env e) (sc_now s) (sc_uuid s) (sc_fresh s) [d] (gt_classes g) = Inr synced"
    and dec: "dec = evaluate (sc_env s) (sc_access s) (sc_between s synced) (principal.truncate (c_principal c)) d"
    and acq: "acquire_external_invocation (sc_monotonic s) (principal.truncate (c_principal c)) (gt_limiter g) = (L, adm)"
    and g0: "g0 = settled_in s dec (sc_between s synced) L adm g"
  shows "(if \<exists>lease. allowed dec \<and> adm = Inr lease \<and> unrecorded e c s d lease g0
    then gt_audits g' = gt_audits g0 \<and> (\<exists>x. res = Raised x)
    else (\<exists>a. gt_audits g' = gt_audits g0 @ [a] \<and> faithful_audit e c s dec d res a)
      \<and> (case denial_reason dec adm (fst (dispatch e c s d)) of
           Some why \<Rightarrow> res = Access_denied why (required_access dec) (granted_access dec)
         | None \<Rightarrow> \<exists>r. res = Answered r))
    \<and> (\<forall>lease L'. allowed dec \<and> adm = Inr lease \<and> release_external_invocation lease (gt_limiter g0) = Some L' \<longrightarrow> gt_limiter g' = L')"
  using invoke_tool_audited_parts [OF assms] by blast

section \<open>A concrete call\<close>

definition demo_operator :: principal where
  "demo_operator = demo_user\<lparr>p_role := lit ''admin'', p_roles := [lit ''admin'']\<rparr>"

definition demo_caller :: auth_principal where
  "demo_caller = principal.extend demo_operator (auth_principal.fields (lit ''active'') [] False 0 None 0 0 None [] None)"

definition demo_call_env :: "unit call_env" where
  "demo_call_env = \<lparr>ce_env = demo_env, ce_loads = (\<lambda>_. None), ce_str = (\<lambda>_. []), ce_repr = (\<lambda>s. s), ce_validate = (\<lambda>_ _. None),
     ce_snapshot = (\<lambda>_ _ _. []), ce_output = (\<lambda>v. if is_dict v then Inr v else Inl (lit ''Input should be a valid dictionary''))\<rparr>"

definition demo_frozen :: frozen_tool where
  "demo_frozen = \<lparr>fz_id = lit ''t'', fz_name = lit ''T'', fz_description = [], fz_permission = lit ''read'', fz_source = lit ''s'',
     fz_input_schema = PNone, fz_metadata = PNone, fz_byte_count = 0\<rparr>"

definition demo_builtin :: "nat tool_record" where
  "demo_builtin = \<lparr>tr_definition = demo_definition, tr_handler = 7, tr_contextual = False, tr_preparer = None, tr_serial = 1\<rparr>"

definition demo_registry :: "nat registry" where
  "demo_registry = empty_registry\<lparr>tools := [(lit ''t'', demo_builtin)], structures := [(lit ''t'', demo_frozen)], rg_revision := 1\<rparr>"

definition demo_world :: "(nat, unit) world" where
  "demo_world = \<lparr>w_registry = demo_registry, w_refreshed = None, w_managed = (\<lambda>_. False), w_env = demo_decision_env, w_access = empty_db [],
     w_classes = empty_classes, w_policies = empty_policies, w_dispatch = None\<rparr>"

definition demo_context :: "unit call_context" where
  "demo_context = \<lparr>cx_principal = demo_caller, cx_tool = lit ''t'', cx_definition = demo_definition,
     cx_revision = tool_definition_revision demo_env demo_definition, cx_managed = False, cx_validator = None, cx_record = False, cx_sensitive = []\<rparr>"

lemma demo_caller_fields:
  "principal.truncate demo_caller = demo_operator" "same_invocation_principal demo_caller demo_caller" "p_id demo_caller = lit ''u1''"
  by (simp_all add: demo_caller_def principal.defs auth_principal.defs demo_operator_def demo_user_def context_principal_def
      same_invocation_principal_def normalized_def effective_roles_def)

lemma demo_allowed: "allowed (evaluate demo_decision_env adb cdb demo_operator demo_definition)"
proof -
  have rest: "is_admin demo_operator" "\<not> independent_token demo_operator" "auth_type demo_operator \<noteq> lit ''oauth''" "delegated_scopes demo_operator = None"
    "extra_control_allowed demo_operator demo_definition" "token_scope_allows demo_operator a" for a
    by (simp_all add: is_admin_def effective_roles_def demo_operator_def demo_user_def context_principal_def independent_token_def
        extra_control_allowed_def required_control_permission_def demo_definition_def meta_get_def dict_get_none_def dict_get_def
        token_scope_allows_def scope_limits_def)
  have "\<not> management_principal demo_operator" by (simp add: management_principal_def rest)
  with rest show ?thesis
    by (simp add: evaluate_def Let_def allowed_evaluate_policy allowed_business demo_business(1) credential_allows_def)
qed

lemma demo_get: "get_definition demo_registry (lit ''t'') = Some demo_definition"
  by (simp add: get_definition_def demo_registry_def copy_definition_def demo_frozen_def demo_definition_def copy_json.simps)

lemma demo_arguments:
  "checked_json_size fr argument_limits (PDict []) = Inr 2" "own demo_env (PDict []) = Inr (PDict [])"
proof -
  show c: "checked_json_size fr argument_limits (PDict []) = Inr 2" for fr
    unfolding checked_json_size_iff by (simp add: json_eval argument_limits_def)
  have "copy_bounded_json (frepr demo_env) argument_limits (PDict []) = Inr (PDict [])"
    using c [of "frepr demo_env"]
    by (auto simp: copy_bounded_json_def freeze_json_iff checked_json_size_iff copy_frozen)
  then show "own demo_env (PDict []) = Inr (PDict [])" by (simp add: own_def owned_arguments_def)
qed

lemma demo_managed: "\<not> managed_target e w demo_definition" and demo_tool_id: "td_id demo_definition = lit ''t''"
  by (simp_all add: managed_target_def demo_definition_def)

lemma demo_round:
  "guard_round demo_call_env (demo_context\<lparr>cx_validator := f\<rparr>) (demo_world\<lparr>w_managed := m\<rparr>) = Inr no_policy"
  by (simp add: guard_round_def demo_world_def demo_context_def demo_caller_fields demo_get demo_allowed demo_call_env_def
      demo_managed current_def empty_policies_def)

lemma demo_check:
  assumes "cx = demo_context\<lparr>cx_validator := f\<rparr>" "f = None \<or> f = Some (\<lambda>_. None)"
  shows "\<exists>st. check_effective_arguments demo_call_env cx (demo_world\<lparr>w_managed := m\<rparr>) (demo_world\<lparr>w_managed := m'\<rparr>) (PDict []) st0 = (None, st)
    \<and> attempts st = attempts st0"
proof -
  have "check_policy no_policy v = Inr ()" for v by (simp add: check_policy_def no_policy_def)
  moreover have "checked_json_size (frepr (ce_env demo_call_env)) argument_limits (PDict []) = Inr 2" by (rule demo_arguments)
  moreover have "\<not> enabled no_policy" by (simp add: no_policy_def)
  ultimately show ?thesis using assms
    by (auto simp: check_effective_arguments_def demo_round pass_guard_def Let_def validate_call_def)
qed

lemma demo_worlds: "demo_world\<lparr>w_managed := (\<lambda>_. False)\<rparr> = demo_world" "demo_context\<lparr>cx_validator := None\<rparr> = demo_context"
  by (simp_all add: demo_world_def demo_context_def)

theorem builtin_dispatch_authorized_witness:
  "validates demo_call_env (demo_context\<lparr>cx_validator := Some (\<lambda>_. None)\<rparr>) fresh_state (demo_world\<lparr>w_managed := (\<lambda>_. True)\<rparr>)
   \<and> (\<exists>policy. authorized_at demo_call_env (demo_context\<lparr>cx_validator := Some (\<lambda>_. None)\<rparr>) demo_world (PDict []) policy)"
proof -
  let ?cx = "demo_context\<lparr>cx_validator := Some (\<lambda>_. None)\<rparr>" and ?w1 = "demo_world\<lparr>w_managed := (\<lambda>_. True)\<rparr>"
  let ?pr = "\<lparr>pr_record = demo_builtin, pr_revision = [], pr_arguments = PDict [], pr_receipt = []\<rparr>"
  let ?s = "registry_invoke demo_call_env (lit ''t'') ?pr demo_definition demo_registry ?w1 demo_world demo_registry (\<lambda>_ _. Inr (PDict []))"
  have eq: "py_eq v v" if "v = PDict (field_envelope demo_definition)" for v
    unfolding that by (simp add: field_envelope_def demo_definition_def py_eq.simps)
  obtain st where st: "check_effective_arguments demo_call_env ?cx ?w1 demo_world (PDict []) fresh_state = (None, st)"
    "attempts st = attempts fresh_state" using demo_check [of ?cx _ "\<lambda>_. True" "\<lambda>_. False"] unfolding demo_worlds by blast
  have "run_script demo_call_env ?cx ?s fresh_state =
      (Inr (handler_response demo_call_env (Inr (PDict []))), st\<lparr>attempts := attempts st + 1\<rparr>)"
    by (simp add: registry_invoke_def demo_registry_def demo_builtin_def eq st)
  from builtin_dispatch_authorized [OF this, THEN conjunct1] st(2)
  have "\<exists>policy. authorized_at demo_call_env ?cx (last_reading demo_call_env ?cx fresh_state ?w1 demo_world) (PDict []) policy" by simp
  moreover have "validates demo_call_env ?cx fresh_state ?w1" by (simp add: validates_def fresh_state_def)
  ultimately show ?thesis by (simp add: last_reading_def)
qed

definition demo_call :: "unit call" where
  "demo_call = \<lparr>c_principal = demo_caller, c_tool = lit ''t'', c_arguments = PDict [], c_correlation = lit ''c'', c_expected = None,
     c_validator = None, c_context = False\<rparr>"

definition demo_schedule :: "(nat, unit) schedule" where
  "demo_schedule = \<lparr>sc_registry = demo_registry, sc_now = 0, sc_uuid = (\<lambda>_. lit ''u''), sc_fresh = (\<lambda>s. s), sc_between = (\<lambda>db. db),
     sc_env = demo_decision_env, sc_access = empty_db [], sc_payload_mode = Metadata_only, sc_monotonic = 0, sc_prepare = demo_world,
     sc_enter = None, sc_runtime = False, sc_remote = Finish (Inl (Plain_exc [])), sc_lookup = demo_registry, sc_guard1 = demo_world,
     sc_guard2 = demo_world, sc_recheck = demo_registry, sc_handle = (\<lambda>_ _. Inr (PDict [])), sc_meanwhile = (\<lambda>g. g), sc_late = demo_world,
     sc_recovery_now = 0, sc_handles = [], sc_duration = 5, sc_audit_id = lit ''a'', sc_audit_now = 0\<rparr>"

definition demo_gate :: "unit gate" where
  "demo_gate = \<lparr>gt_classes = empty_classes, gt_limiter = empty_limiter, gt_audits = [], gt_payloads = [], gt_receipts = []\<rparr>"

lemma demo_dispatch:
  "\<exists>st. dispatch demo_call_env demo_call demo_schedule demo_definition = (Inr (handler_response demo_call_env (Inr (PDict []))), st) \<and> guard_passed st"
proof -
  have pr: "prepare demo_env demo_registry (lit ''t'') (PDict []) (Some demo_definition) =
      (Inr \<lparr>pr_record = demo_builtin, pr_revision = tool_definition_revision demo_env demo_definition, pr_arguments = PDict [],
        pr_receipt = json_text (frepr demo_env) (sorted_json (PDict []))\<rparr> :: unit exc + nat prepared)"
    by (simp add: prepare_def Let_def demo_registry_def demo_builtin_def demo_arguments(2))
  let ?pr = "\<lparr>pr_record = demo_builtin, pr_revision = tool_definition_revision demo_env demo_definition, pr_arguments = PDict [],
        pr_receipt = json_text (frepr demo_env) (sorted_json (PDict []))\<rparr>"
  have fields: "sensitive_payload_fields demo_definition k = []" for k
    by (simp add: sensitive_payload_fields_def demo_definition_def meta_get_def dict_get_none_def dict_get_def)
  have cx: "\<lparr>cx_principal = c_principal demo_call, cx_tool = c_tool demo_call, cx_definition = demo_definition, cx_revision = pr_revision ?pr,
      cx_managed = managed_target demo_call_env (sc_prepare demo_schedule) demo_definition, cx_validator = c_validator demo_call,
      cx_record = (sc_payload_mode demo_schedule = Redacted), cx_sensitive = sensitive_payload_fields demo_definition ''sensitive_input_fields''\<rparr> = demo_context"
    by (simp add: demo_context_def demo_call_def demo_schedule_def demo_managed fields)
  have early: "early_validation demo_call_env demo_context demo_world (PDict []) = Inr False"
    by (simp add: early_validation_def demo_context_def dict_get_def current_def demo_world_def empty_policies_def no_policy_def)
  have eq: "py_eq v v" if "v = PDict (field_envelope demo_definition)" for v
    unfolding that by (simp add: field_envelope_def demo_definition_def py_eq.simps)
  obtain st where st: "check_effective_arguments demo_call_env demo_context demo_world demo_world (PDict []) (fresh_state\<lparr>schema_checked := False\<rparr>) = (None, st)"
    using demo_check [of demo_context None "\<lambda>_. False" "\<lambda>_. False"] unfolding demo_worlds by blast
  have script: "dispatch_script demo_call_env demo_schedule demo_context ?pr =
      registry_invoke demo_call_env (lit ''t'') ?pr demo_definition demo_registry demo_world demo_world demo_registry (\<lambda>_ _. Inr (PDict []))"
    by (simp add: dispatch_script_def demo_schedule_def demo_context_def)
  have "run_script demo_call_env demo_context (dispatch_script demo_call_env demo_schedule demo_context ?pr) (fresh_state\<lparr>schema_checked := False\<rparr>) =
      (Inr (handler_response demo_call_env (Inr (PDict []))), st\<lparr>attempts := attempts st + 1\<rparr>)"
    unfolding script by (simp add: registry_invoke_def eq st) (simp add: demo_registry_def demo_builtin_def eq st)
  moreover have "dispatch demo_call_env demo_call demo_schedule demo_definition =
      run_script demo_call_env demo_context (dispatch_script demo_call_env demo_schedule demo_context ?pr) (fresh_state\<lparr>schema_checked := False\<rparr>)"
  proof -
    have "prepare (ce_env demo_call_env) (w_registry (sc_prepare demo_schedule)) (c_tool demo_call) (c_arguments demo_call) (Some demo_definition)
        = (Inr ?pr :: unit exc + nat prepared)"
      using pr by (simp add: demo_call_env_def demo_schedule_def demo_world_def demo_call_def)
    moreover have "early_validation demo_call_env demo_context (sc_prepare demo_schedule) (pr_arguments ?pr) = Inr False"
      using early by (simp add: demo_schedule_def)
    ultimately show ?thesis unfolding dispatch_def Let_def by (simp only: sum.case cx)
  qed
  moreover have "guard_passed st" using check_effective_verdict(2) [OF st] by simp
  ultimately show ?thesis by simp
qed

theorem invoke_tool_audited_witness:
  "\<exists>r g' a. invoke_tool demo_call_env demo_call demo_schedule demo_gate = (Answered r, g') \<and> rs_ok r
     \<and> gt_audits g' = [a] \<and> au_user a = lit ''u1'' \<and> au_tool a = lit ''t'' \<and> au_allow a \<and> au_outcome a = Success"
proof -
  let ?dec = "\<lambda>cdb. evaluate demo_decision_env (empty_db []) cdb demo_operator demo_definition"
  obtain cdb where sync: "synchronize demo_env 0 (\<lambda>_. lit ''u'') (\<lambda>s. s) [demo_definition] empty_classes = Inr cdb" using demo_sync by blast
  obtain st where disp: "dispatch demo_call_env demo_call demo_schedule demo_definition = (Inr (handler_response demo_call_env (Inr (PDict []))), st)"
    and passed: "guard_passed st" using demo_dispatch by blast
  have lim: "acquire_external_invocation 0 demo_operator empty_limiter = (empty_limiter, Inr None)"
    by (simp add: acquire_external_invocation_def call_limits_def demo_operator_def demo_user_def context_principal_def)
  let ?v = "settle_dispatch demo_call_env st (Inr (handler_response demo_call_env (Inr (PDict []))))"
  have inv: "invoke_tool demo_call_env demo_call demo_schedule demo_gate = (Answered (vd_response ?v),
      final_audit demo_call_env demo_call demo_schedule demo_definition (?dec cdb) st ?v (demo_gate\<lparr>gt_classes := cdb, gt_limiter := empty_limiter\<rparr>))"
  proof -
    have f: "sc_registry demo_schedule = demo_registry" "sc_now demo_schedule = 0" "sc_uuid demo_schedule = (\<lambda>_. lit ''u'')"
      "sc_fresh demo_schedule = (\<lambda>s. s)" "sc_between demo_schedule = (\<lambda>db. db)" "sc_env demo_schedule = demo_decision_env"
      "sc_access demo_schedule = empty_db []" "sc_monotonic demo_schedule = 0" "sc_meanwhile demo_schedule = (\<lambda>g. g)"
      "c_tool demo_call = lit ''t''" "c_expected demo_call = None" "c_principal demo_call = demo_caller" "ce_env demo_call_env = demo_env"
      "gt_classes demo_gate = empty_classes" "gt_limiter demo_gate = empty_limiter"
      by (simp_all add: demo_schedule_def demo_call_def demo_call_env_def demo_gate_def)
    show ?thesis
      by (simp add: invoke_tool_def finish_call_def disp f Let_def demo_get sync demo_caller_fields demo_allowed lim release_external_invocation_def)
  qed
  let ?g0 = "demo_gate\<lparr>gt_classes := cdb, gt_limiter := empty_limiter\<rparr>" and ?d = "?dec cdb"
  have ok: "rs_ok (vd_response ?v)"
    by (simp add: settle_dispatch_def handler_response_def demo_call_env_def)
  have f: "sc_env demo_schedule = demo_decision_env" "sc_access demo_schedule = empty_db []" "sc_between demo_schedule cdb = cdb"
    "c_principal demo_call = demo_caller" by (simp_all add: demo_schedule_def demo_call_def)
  have g0: "?g0 = settled_in demo_schedule ?d (sc_between demo_schedule cdb) empty_limiter (Inr None) demo_gate"
    by (simp add: settled_in_def f demo_allowed) (simp add: demo_schedule_def)
  have "\<not> unrecorded demo_call_env demo_call demo_schedule demo_definition None ?g0"
    by (simp add: unrecorded_def release_external_invocation_def disp)
  moreover have "get_definition (sc_registry demo_schedule) (c_tool demo_call) = Some demo_definition"
    by (simp add: demo_schedule_def demo_call_def demo_get)
  note a = invoke_tool_audited [OF inv this _ _ _ _ g0, THEN conjunct1]
  ultimately obtain a where a: "gt_audits (final_audit demo_call_env demo_call demo_schedule demo_definition ?d st ?v ?g0) = gt_audits ?g0 @ [a]"
    "faithful_audit demo_call_env demo_call demo_schedule ?d demo_definition (Answered (vd_response ?v)) a"
    using sync lim by (auto simp: f demo_caller_fields demo_schedule_def demo_call_def demo_call_env_def demo_gate_def)
  have "au_user a = lit ''u1'' \<and> au_tool a = lit ''t'' \<and> au_allow a \<and> au_outcome a = Success"
    using a(2) ok passed by (simp add: faithful_audit_def disp f demo_caller_fields demo_tool_id rejection_def)
  with inv ok a(1) show ?thesis by (auto simp: demo_gate_def)
qed

section \<open>Late responses\<close>

lemma recovery_authorize_ok:
  assumes "recovery_authorize e p handle w now rs = (rs', Some r)"
  shows "(w_refreshed w = None \<or> w_refreshed w = Some (Some p)) \<and> r \<in> set rs \<and> rc_handle r = handle \<and> rc_principal r = p
    \<and> now < rc_expires_at r \<and> set rs' \<subseteq> set rs
    \<and> (\<exists>d. get_definition (w_registry w) (rc_tool_id r) = Some d \<and> tool_definition_revision (ce_env e) d = rc_revision r
        \<and> \<not> w_managed w (meta_text e d ''server_id'')
        \<and> allowed (evaluate (w_env w) (w_access w) (w_classes w) (principal.truncate p) d))"
proof -
  obtain cur where cur: "(case w_refreshed w of None \<Rightarrow> Some p | Some r \<Rightarrow> r) = Some cur"
    using assms by (cases "case w_refreshed w of None \<Rightarrow> Some p | Some r \<Rightarrow> r") (auto simp: recovery_authorize_def)
  obtain q where q: "get_receipt now handle cur rs = (rs', Some q)" "q = r" "cur = p"
    using assms by (auto simp: recovery_authorize_def cur split: prod.splits option.splits if_splits)
  have "r \<in> set (expire_receipts now rs)" "rc_handle r = handle" "rc_principal r = p" "rs' = expire_receipts now rs"
    using q find_row_SomeD by (auto simp: get_receipt_def Let_def split: option.splits if_splits dest!: find_row_SomeD)
  then have "r \<in> set rs" "now < rc_expires_at r" "set rs' \<subseteq> set rs" by (auto simp: expire_receipts_def delete_rows_def)
  moreover have "w_refreshed w = None \<or> w_refreshed w = Some (Some p)" using cur q(3) by (auto split: option.splits)
  moreover have "\<exists>d. get_definition (w_registry w) (rc_tool_id r) = Some d \<and> tool_definition_revision (ce_env e) d = rc_revision r
        \<and> \<not> w_managed w (meta_text e d ''server_id'') \<and> allowed (evaluate (w_env w) (w_access w) (w_classes w) (principal.truncate p) d)"
    using assms q by (auto simp: recovery_authorize_def cur split: option.splits if_splits)
  ultimately show ?thesis using \<open>rc_handle r = handle\<close> \<open>rc_principal r = p\<close> by blast
qed

text \<open>
  C16: a late response is shown only to the identity that made the call, and only while that identity may still use the
  tool.  When \<^verbatim>\<open>request_status\<close> returns a page, the handle is an unexpired receipt of exactly this caller, the page is a
  page of what the retained reader returned, and both before and after reading the caller's identity was current and
  unchanged, the tool had the definition it was called with, its server had no managed credentials, and the
  decision still allowed the call.
\<close>
theorem request_status_authorized:
  assumes "request_status e read p handle offset limit w1 t1 w2 t2 rs = (rs', Some page)"
  shows "\<exists>r sn. r \<in> set rs \<and> rc_handle r = handle \<and> rc_principal r = p \<and> t1 < rc_expires_at r
    \<and> read (rc_reader r) = Some sn \<and> page = make_status_page e handle r sn offset limit
    \<and> list_all (\<lambda>w. (w_refreshed w = None \<or> w_refreshed w = Some (Some p))
        \<and> (\<exists>q d. q \<in> set rs \<and> rc_handle q = handle \<and> get_definition (w_registry w) (rc_tool_id q) = Some d
             \<and> tool_definition_revision (ce_env e) d = rc_revision q \<and> \<not> w_managed w (meta_text e d ''server_id'')
             \<and> allowed (evaluate (w_env w) (w_access w) (w_classes w) (principal.truncate p) d))) [w1, w2]"
proof -
  obtain rs1 r where a1: "recovery_authorize e p handle w1 t1 rs = (rs1, Some r)"
    using assms by (auto simp: request_status_def split: prod.splits option.splits)
  obtain sn where sn: "read (rc_reader r) = Some sn" using assms a1 by (cases "read (rc_reader r)") (auto simp: request_status_def)
  obtain rs2 q where a2: "recovery_authorize e p handle w2 t2 rs1 = (rs2, Some q)"
    using assms by (auto simp: request_status_def a1 sn split: prod.splits option.splits)
  have page: "page = make_status_page e handle r sn offset limit" using assms by (simp add: request_status_def a1 sn a2)
  note A1 = recovery_authorize_ok [OF a1] and A2 = recovery_authorize_ok [OF a2]
  have "q \<in> set rs" using A1 A2 by blast
  with A1 A2 sn page show ?thesis by (intro exI [of _ r] exI [of _ sn]) auto
qed

text \<open>A caller that follows \<^verbatim>\<open>next_offset\<close> while \<^verbatim>\<open>has_more\<close> holds, at most \<open>n\<close> requests.\<close>

fun gather :: "nat \<Rightarrow> (int \<Rightarrow> status_page) \<Rightarrow> int \<Rightarrow> pystr" where
  "gather 0 f offset = []"
| "gather (Suc n) f offset = (let pg = f offset in pg_text pg @ (if pg_more pg then gather n f (pg_next pg) else []))"

lemma gather_pages:
  assumes f: "f = (\<lambda>offset. make_status_page e handle r sn offset limit)"
  shows "0 \<le> offset \<Longrightarrow> offset \<le> int (length (status_text e sn)) \<Longrightarrow> int (length (status_text e sn)) - offset < int n \<Longrightarrow>
    gather n f offset = drop (nat offset) (status_text e sn)"
proof (induction n arbitrary: offset)
  case (Suc n)
  let ?t = "status_text e sn"
  let ?stop = "page_end ?t offset limit"
  have start: "page_offset ?t offset = offset" using Suc.prems by (simp add: page_offset_def)
  have stop: "offset \<le> ?stop" "?stop \<le> int (length ?t)" "?stop < int (length ?t) \<Longrightarrow> offset < ?stop"
    using Suc.prems by (auto simp: page_end_def start)
  have pg: "pg_text (f offset) = take (nat (?stop - offset)) (drop (nat offset) ?t)" "pg_next (f offset) = ?stop"
    "pg_more (f offset) = (?stop < int (length ?t))"
    by (simp_all add: f make_status_page_def Let_def start)
  show ?case
  proof (cases "?stop < int (length ?t)")
    case True
    then have "gather n f ?stop = drop (nat ?stop) ?t" using Suc stop by (intro Suc.IH) auto
    moreover have "drop (nat ?stop) ?t = drop (nat (?stop - offset)) (drop (nat offset) ?t)"
      using stop Suc.prems(1) by (simp add: nat_diff_distrib)
    ultimately show ?thesis using True by (simp add: pg Let_def del: drop_drop)
  next
    case False
    then have "?stop = int (length ?t)" using stop by simp
    then show ?thesis by (simp add: pg Let_def)
  qed
qed simp

lemma status_pages_complete_parts:
  assumes "length (status_text e sn) < n"
  shows "gather n (\<lambda>offset. make_status_page e handle r sn offset limit) 0 = status_text e sn"
    and "length (pg_text (make_status_page e handle r sn offset limit)) \<le> 65536"
proof -
  show "gather n (\<lambda>offset. make_status_page e handle r sn offset limit) 0 = status_text e sn"
    using gather_pages [OF refl, of 0] assms by simp
  show "length (pg_text (make_status_page e handle r sn offset limit)) \<le> 65536"
    by (auto simp: make_status_page_def Let_def page_end_def min_def max_def)
qed

text \<open>
  The pages of a late response are the response.  Whatever page size a caller asks for, following the returned
  offsets from the start gives the serialised response exactly, after at most one request more than it has characters, and no
  page has more than 65,536 characters.
\<close>
lemma status_pages_complete:
  assumes "length (status_text e sn) < n"
  shows "gather n (\<lambda>offset. make_status_page e handle r sn offset limit) 0 = status_text e sn
    \<and> length (pg_text (make_status_page e handle r sn offset limit)) \<le> 65536"
  using status_pages_complete_parts [OF assms] by blast

definition demo_outcome :: snapshot where
  "demo_outcome = \<lparr>sn_handle = lit ''h'', sn_generation = lit ''g'', sn_request_id = 1, sn_method = lit ''tools/call'', sn_state = Completed,
     sn_response = Some (PList []), sn_reason = None, sn_expires_after = 5\<rparr>"

definition demo_receipt :: "(auth_principal, unit) receipt" where
  "demo_receipt = \<lparr>rc_handle = lit ''h'', rc_principal = demo_caller, rc_tool_id = lit ''t'',
     rc_revision = tool_definition_revision demo_env demo_definition, rc_reader = (), rc_created_at = 0, rc_expires_at = 300\<rparr>"

lemma status_pages_complete_witness:
  "gather 5 (\<lambda>offset. make_status_page demo_call_env (lit ''h'') demo_receipt demo_outcome offset 1) 0 = lit ''[]''"
proof -
  have t: "status_text demo_call_env demo_outcome = lit ''[]''" by (simp add: status_text_def demo_outcome_def lit_def json_text.simps)
  show ?thesis using status_pages_complete [of demo_call_env demo_outcome 5 "lit ''h''" demo_receipt 1] by (simp add: t lit_def)
qed

theorem request_status_authorized_witness:
  "\<exists>rs' page. request_status demo_call_env (\<lambda>_. Some demo_outcome) demo_caller (lit ''h'') 0 10 demo_world 1 demo_world 2 [demo_receipt] = (rs', Some page)
     \<and> (\<exists>r. r \<in> set [demo_receipt] \<and> page = make_status_page demo_call_env (lit ''h'') r demo_outcome 0 10)"
proof -
  have w: "w_refreshed demo_world = None" "w_registry demo_world = demo_registry" "w_managed demo_world = (\<lambda>_. False)" "w_env demo_world = demo_decision_env"
    by (simp_all add: demo_world_def)
  have a: "recovery_authorize demo_call_env demo_caller (lit ''h'') demo_world t [demo_receipt] = ([demo_receipt], Some demo_receipt)" if "t < 300" for t
  proof -
    have "get_receipt t (lit ''h'') demo_caller [demo_receipt] = ([demo_receipt], Some demo_receipt)"
      using that by (simp add: get_receipt_def expire_receipts_def delete_rows_def find_row_def demo_receipt_def)
    moreover have "rc_tool_id demo_receipt = lit ''t''" "rc_revision demo_receipt = tool_definition_revision (ce_env demo_call_env) demo_definition"
      by (simp_all add: demo_receipt_def demo_call_env_def)
    ultimately show ?thesis by (simp add: recovery_authorize_def w demo_get demo_caller_fields demo_allowed)
  qed
  have run: "request_status demo_call_env (\<lambda>_. Some demo_outcome) demo_caller (lit ''h'') 0 10 demo_world 1 demo_world 2 [demo_receipt] =
      ([demo_receipt], Some (make_status_page demo_call_env (lit ''h'') demo_receipt demo_outcome 0 10))"
    by (simp add: request_status_def a)
  from request_status_authorized [OF run] run show ?thesis by auto
qed

end
