(* ===== verification/OAuth_Tokens.thy ===== *)
theory OAuth_Tokens
  imports Access_Decision
begin

text \<open>
  The token half of \<^verbatim>\<open>oauth_server.py\<close> and the tables of \<^verbatim>\<open>oauth_store.py\<close>: configuration, signing keys, clients, grants,
  authorization codes, refresh-token families, and the exchange, rotation, replay detection, revocation and verification of
  tokens.  A transaction is a function on \<open>oauth_db\<close>; an exception inside it leaves the tables as they were.  \<^verbatim>\<open>int(time.time())\<close>
  and the random secrets are arguments.  Cryptography (RSA, Fernet, PyJWT, SHA-256) and \<^verbatim>\<open>urlsplit\<close> are the fields of
  \<open>oauth_env\<close>.  Deletions cascade as the schema declares.
\<close>

section \<open>Environment\<close>

record url =
  u_scheme :: pystr
  u_host :: pystr
  u_port :: "int option"
  u_username :: pystr
  u_password :: pystr
  u_path :: pystr
  u_query :: pystr
  u_query_keys :: "pystr list"
  u_fragment :: pystr

record jwt_header =
  jh_alg :: "pystr option"
  jh_typ :: "pystr option"
  jh_kid :: "pystr option"
  jh_keys :: "pystr list"

record key_row =
  k_kid :: pystr
  k_active :: bool
  k_retire :: "int option"
  k_created :: int

text \<open>
  \<open>oe_urlsplit\<close> is \<^verbatim>\<open>urlsplit\<close> with \<^verbatim>\<open>.port\<close> and \<^verbatim>\<open>parse_qsl\<close> of the query (\<open>None\<close> for \<^verbatim>\<open>ValueError\<close>, absent parts empty);
  \<open>oe_pkce\<close> the unpadded base64url SHA-256; \<open>oe_header\<close>, \<open>oe_untrusted\<close> and \<open>oe_decode\<close> are PyJWT's unverified header, unverified
  \<^verbatim>\<open>gid\<close> and verified decoding under a key, audience, issuer and time; \<open>oe_signs\<close> says that a stored private key decrypts and loads.
\<close>

record oauth_env =
  oe_hash :: "pystr \<Rightarrow> pystr"
  oe_pkce :: "pystr \<Rightarrow> pystr"
  oe_urlsplit :: "pystr \<Rightarrow> url option"
  oe_rebase :: "pystr \<Rightarrow> pystr"
  oe_header :: "pystr \<Rightarrow> jwt_header option"
  oe_untrusted :: "pystr \<Rightarrow> pystr option"
  oe_decode :: "key_row \<Rightarrow> pystr \<Rightarrow> pystr \<Rightarrow> pystr \<Rightarrow> int \<Rightarrow> dict option"
  oe_signs :: "key_row \<Rightarrow> bool"

record user_row =
  us_name :: pystr
  us_active :: bool
  us_must_change :: bool

record external_config =
  xc_enabled :: bool
  xc_resource :: pystr
  xc_issuers :: "pystr list"

text \<open>What the OAuth tables do not hold: settings, users, roles and the external connection.\<close>

record oauth_world =
  ow_auth_enabled :: bool
  ow_users :: "pystr \<Rightarrow> user_row option"
  ow_access :: access_db
  ow_external :: "external_config option"

datatype oauth_error = OAuth_error pystr int | No_role | Constraint_failed

definition oerr :: "string \<Rightarrow> oauth_error" where
  "oerr code = OAuth_error (lit code) 400"

definition CODE_TTL :: int where "CODE_TTL = 60"
definition ACCESS_TTL :: int where "ACCESS_TTL = 600"
definition REFRESH_TTL :: int where "REFRESH_TTL = 30 * 86400"
definition MAX_AUTHENTICATED_INTERACTIONS :: nat where "MAX_AUTHENTICATED_INTERACTIONS = 200"
definition MAX_USER_INTERACTIONS :: nat where "MAX_USER_INTERACTIONS = 5"
definition MAX_CLIENT_INTERACTIONS :: nat where "MAX_CLIENT_INTERACTIONS = 50"
definition MAX_AUTHENTICATED_COMPLETIONS :: nat where "MAX_AUTHENTICATED_COMPLETIONS = 3072"
definition MAX_ANONYMOUS_COMPLETIONS :: nat where "MAX_ANONYMOUS_COMPLETIONS = 1024"
definition MAX_USER_COMPLETIONS :: nat where "MAX_USER_COMPLETIONS = 64"

definition BUSINESS_SCOPES :: "pystr list" where
  "BUSINESS_SCOPES = map lit [''tools.read'', ''tools.invoke'']"

definition MANAGEMENT_SCOPES :: "pystr list" where
  "MANAGEMENT_SCOPES = map lit [''operations.manage'', ''tools.invoke'', ''credentials.manage.system'']"

definition SCOPES :: "pystr list" where
  "SCOPES = BUSINESS_SCOPES @ MANAGEMENT_SCOPES"

definition sorted_set :: "pystr list \<Rightarrow> pystr list" where
  "sorted_set xs = sort (remdups xs)"

definition scope_set :: "pystr \<Rightarrow> oauth_error + pystr list" where
  "scope_set v =
     (let values = split_on 32 v in
      if v = [] \<or> length v > 256 \<or> list_ex (\<lambda>x. x \<notin> set SCOPES) values then Inl (oerr ''invalid_scope'')
      else Inr (sorted_set values))"

section \<open>URLs\<close>

definition port_ok :: "int option \<Rightarrow> bool" where
  "port_ok p = (case p of None \<Rightarrow> True | Some n \<Rightarrow> 1 \<le> n \<and> n \<le> 65535)"

definition valid_callback :: "oauth_env \<Rightarrow> pystr \<Rightarrow> bool" where
  "valid_callback e v =
     (case oe_urlsplit e v of
        None \<Rightarrow> False
      | Some u \<Rightarrow> length v \<le> 2048 \<and> u_scheme u = lit ''https'' \<and> u_host u \<noteq> [] \<and> u_username u = [] \<and> u_password u = []
          \<and> u_fragment u = [] \<and> port_ok (u_port u)
          \<and> list_all (\<lambda>c. 33 \<le> c \<and> c \<le> 126 \<and> c \<noteq> 92 \<and> c \<noteq> 34 \<and> c \<noteq> 60 \<and> c \<noteq> 62) v
          \<and> 42 \<notin> set v \<and> list_all (\<lambda>k. k \<notin> lit ` {''code'', ''state'', ''iss'', ''error''}) (u_query_keys u))"

definition https_resource :: "oauth_env \<Rightarrow> pystr \<Rightarrow> bool" where
  "https_resource e v =
     (case oe_urlsplit e v of
        None \<Rightarrow> False
      | Some u \<Rightarrow> u_scheme u = lit ''https'' \<and> u_host u \<noteq> [] \<and> port_ok (u_port u) \<and> length v \<le> 2048
          \<and> \<not> list_ex py_space v \<and> u_username u = [] \<and> u_password u = [] \<and> u_query u = [] \<and> u_fragment u = [])"

definition url_path :: "oauth_env \<Rightarrow> pystr \<Rightarrow> pystr" where
  "url_path e v = (case oe_urlsplit e v of None \<Rightarrow> [] | Some u \<Rightarrow> u_path u)"

definition valid_issuer :: "oauth_env \<Rightarrow> pystr \<Rightarrow> bool" where
  "valid_issuer e v \<longleftrightarrow> valid_callback e v \<and> https_resource e v \<and> url_path e v = []"

section \<open>Tables\<close>

record oauth_config =
  cf_enabled :: bool
  cf_issuer :: pystr
  cf_resource :: pystr
  cf_revision :: int

record client_row =
  cl_id :: pystr
  cl_name :: pystr
  cl_redirects :: "pystr list"
  cl_scopes :: "pystr list"
  cl_secret_hash :: pystr
  cl_enabled :: bool
  cl_revision :: int
  cl_created :: int
  cl_resources :: "pystr list"

record granted_tool =
  gt_server :: pystr
  gt_access :: pystr
  gt_snapshot :: pystr
  gt_binding :: "pystr option"

record oauth_grant =
  og_id :: pystr
  og_user :: pystr
  og_client :: pystr
  og_resource :: pystr
  og_scopes :: "pystr list"
  og_tools :: "(pystr \<times> granted_tool) list"
  og_expires :: int
  og_rate :: int
  og_concurrency :: int
  og_revoked :: "int option"
  og_revision :: int
  og_created :: int
  og_targets :: "(pystr \<times> pystr list) list"
  og_target_revision :: int
  og_policies :: "server_policy list"

record code_row =
  co_hash :: pystr
  co_grant :: pystr
  co_client :: pystr
  co_redirect :: pystr
  co_resource :: pystr
  co_challenge :: pystr
  co_expires :: int
  co_consumed :: "int option"

record family_row =
  fm_id :: pystr
  fm_grant :: pystr
  fm_scopes :: "pystr list"
  fm_expires :: int
  fm_revoked :: "int option"

record refresh_row =
  rf_hash :: pystr
  rf_family :: pystr
  rf_consumed :: "int option"
  rf_created :: int

record interaction_row =
  in_hash :: pystr
  in_browser :: pystr
  in_csrf :: pystr
  in_grant :: pystr
  in_expires :: int
  in_completed :: bool
  in_user :: "pystr option"
  in_client :: pystr

record oauth_db =
  oa_config :: "oauth_config option"
  oa_management :: "(bool \<times> int) option"
  oa_clients :: "client_row list"
  oa_keys :: "key_row list"
  oa_interactions :: "interaction_row list"
  oa_grants :: "oauth_grant list"
  oa_codes :: "code_row list"
  oa_families :: "family_row list"
  oa_refresh :: "refresh_row list"

definition empty_oauth :: oauth_db where
  "empty_oauth = \<lparr>oa_config = None, oa_management = None, oa_clients = [], oa_keys = [], oa_interactions = [], oa_grants = [],
     oa_codes = [], oa_families = [], oa_refresh = []\<rparr>"

definition store_config :: "oauth_db \<Rightarrow> oauth_config" where
  "store_config db = (case oa_config db of
     None \<Rightarrow> \<lparr>cf_enabled = False, cf_issuer = [], cf_resource = [], cf_revision = 0\<rparr> | Some c \<Rightarrow> c)"

record management_view =
  mv_enabled :: bool
  mv_revision :: int
  mv_active :: bool
  mv_resource :: pystr

definition management_config :: "oauth_env \<Rightarrow> oauth_db \<Rightarrow> management_view" where
  "management_config e db =
     (let on = (case oa_management db of None \<Rightarrow> False | Some (b, _) \<Rightarrow> b) in
      \<lparr>mv_enabled = on, mv_revision = (case oa_management db of None \<Rightarrow> 0 | Some (_, n) \<Rightarrow> n),
       mv_active = (on \<and> cf_enabled (store_config db)), mv_resource = management_resource (oe_rebase e) (cf_resource (store_config db))\<rparr>)"

definition find_client :: "oauth_db \<Rightarrow> pystr \<Rightarrow> client_row option" where
  "find_client db cid = find_row (\<lambda>c. cl_id c = cid) (oa_clients db)"

definition find_grant :: "oauth_db \<Rightarrow> pystr \<Rightarrow> oauth_grant option" where
  "find_grant db gid = find_row (\<lambda>g. og_id g = gid) (oa_grants db)"

definition find_family :: "oauth_db \<Rightarrow> pystr \<Rightarrow> family_row option" where
  "find_family db fid = find_row (\<lambda>f. fm_id f = fid) (oa_families db)"

definition revoke_families :: "int \<Rightarrow> (family_row \<Rightarrow> bool) \<Rightarrow> oauth_db \<Rightarrow> oauth_db" where
  "revoke_families now p db =
     db\<lparr>oa_families := update_rows p (\<lambda>f. f\<lparr>fm_revoked := Some now\<rparr>) (oa_families db)\<rparr>"

definition live_family :: "family_row \<Rightarrow> bool" where
  "live_family f \<longleftrightarrow> fm_revoked f = None"

section \<open>Resource policies\<close>

record resource_policy =
  rp_kind :: pystr
  rp_scopes :: "pystr list"
  rp_management :: "int option"

definition ready_config :: "oauth_env \<Rightarrow> oauth_world \<Rightarrow> oauth_db \<Rightarrow> oauth_error + oauth_config" where
  "ready_config e w db =
     (let c = store_config db in
      if \<not> ow_auth_enabled w \<or> \<not> cf_enabled c \<or> \<not> valid_issuer e (cf_issuer c) then Inl (OAuth_error (lit ''oauth_disabled'') 404)
      else Inr c)"

definition resource_policy_of :: "oauth_env \<Rightarrow> oauth_world \<Rightarrow> oauth_db \<Rightarrow> pystr \<Rightarrow> oauth_error + resource_policy" where
  "resource_policy_of e w db resource =
     bindR (ready_config e w db) (\<lambda>c.
       if resource = cf_resource c then Inr \<lparr>rp_kind = lit ''business'', rp_scopes = BUSINESS_SCOPES, rp_management = None\<rparr>
       else if resource = management_resource (oe_rebase e) (cf_resource c) then
         (if \<not> mv_active (management_config e db) then Inl (OAuth_error (lit ''oauth_management_disabled'') 404)
          else Inr \<lparr>rp_kind = lit ''management'', rp_scopes = MANAGEMENT_SCOPES, rp_management = Some (mv_revision (management_config e db))\<rparr>)
       else Inl (oerr ''invalid_target''))"

section \<open>Users\<close>

definition build_principal :: "oauth_world \<Rightarrow> pystr \<Rightarrow> user_row \<Rightarrow> oauth_error + principal" where
  "build_principal w uid u =
     (let rs = roles_for_user (ow_access w) uid in
      if rs = [] then Inl No_role
      else Inr (context_principal \<lparr>cx_actor = uid, cx_username = us_name u, cx_auth_type = lit ''session'', cx_roles = rs,
        cx_permissions = permissions_for_user (ow_access w) uid, cx_token = None, cx_scopes = [], cx_delegated = None\<rparr>))"

definition management_owner :: "oauth_world \<Rightarrow> pystr \<Rightarrow> oauth_error + principal" where
  "management_owner w uid =
     (let refuse = Inl (OAuth_error (lit ''management_admin_required'') 403) in
      case ow_users w uid of
        None \<Rightarrow> refuse
      | Some u \<Rightarrow>
          if \<not> us_active u \<or> us_must_change u then refuse
          else if lit ''admin'' \<notin> set (roles_for_user (ow_access w) uid) then refuse
          else bindR (build_principal w uid u) (\<lambda>p.
            if lit ''admin'' \<notin> set (p_roles p) \<or> lit ''operations.manage'' \<notin> set (p_permissions p) then refuse else Inr p))"

section \<open>Configuration, keys and clients\<close>

definition has_active_key :: "oauth_db \<Rightarrow> bool" where
  "has_active_key db \<longleftrightarrow> list_ex k_active (oa_keys db)"

definition rotate_key :: "int \<Rightarrow> pystr \<Rightarrow> oauth_db \<Rightarrow> oauth_error + oauth_db" where
  "rotate_key now kid db =
     (let keys = delete_rows (\<lambda>k. \<not> k_active k \<and> (case k_retire k of None \<Rightarrow> False | Some t \<Rightarrow> t \<le> now)) (oa_keys db) in
      if length keys \<ge> 10 then Inl (OAuth_error (lit ''key_rotation_limit'') 429)
      else if kid \<in> k_kid ` set keys then Inl Constraint_failed
      else Inr (db\<lparr>oa_keys := update_rows k_active (\<lambda>k. k\<lparr>k_active := False, k_retire := Some (now + ACCESS_TTL)\<rparr>) keys
             @ [\<lparr>k_kid = kid, k_active = True, k_retire = None, k_created = now\<rparr>]\<rparr>))"

definition external_conflict :: "oauth_world \<Rightarrow> bool \<Rightarrow> pystr \<Rightarrow> pystr \<Rightarrow> oauth_error option" where
  "external_conflict w on issuer resource =
     (case ow_external w of
        None \<Rightarrow> None
      | Some x \<Rightarrow>
          if on \<and> xc_enabled x \<and> xc_resource x \<noteq> resource then Some (OAuth_error (lit ''resource_configuration_conflict'') 409)
          else if on \<and> xc_enabled x \<and> issuer \<in> set (xc_issuers x) then Some (OAuth_error (lit ''issuer_configuration_conflict'') 409)
          else None)"

text \<open>Disabling the server or moving it revokes every family and drops codes, interactions and the management switch.\<close>

definition shut_down :: "int \<Rightarrow> oauth_db \<Rightarrow> oauth_db" where
  "shut_down now db =
     (revoke_families now live_family db)\<lparr>oa_codes := [], oa_interactions := [],
        oa_management := (case oa_management db of Some (True, n) \<Rightarrow> Some (False, n + 1) | m \<Rightarrow> m)\<rparr>"

definition save_config :: "oauth_env \<Rightarrow> oauth_world \<Rightarrow> int \<Rightarrow> bool \<Rightarrow> pystr \<Rightarrow> pystr \<Rightarrow> int \<Rightarrow> oauth_db \<Rightarrow> oauth_error + oauth_db" where
  "save_config e w now on issuer resource revision db =
     (if \<not> valid_issuer e issuer \<or> \<not> https_resource e resource \<or> \<not> valid_callback e resource then Inl (oerr ''invalid_configuration'')
      else if url_path e resource \<noteq> lit ''/mcp'' then Inl (oerr ''resource_must_use_mcp_path'')
      else if on \<and> \<not> ow_auth_enabled w then Inl (OAuth_error (lit ''authentication_required'') 409)
      else
        (let old = store_config db; changed = (cf_issuer old \<noteq> issuer \<or> cf_resource old \<noteq> resource) in
         if cf_revision old \<noteq> revision then Inl (OAuth_error (lit ''revision_conflict'') 409)
         else if cf_enabled old \<and> changed then Inl (OAuth_error (lit ''disable_before_changing_urls'') 409)
         else if on \<and> \<not> has_active_key db then Inl (OAuth_error (lit ''signing_key_required'') 409)
         else (case external_conflict w on issuer resource of
                 Some x \<Rightarrow> Inl x
               | None \<Rightarrow> Inr ((if changed \<or> \<not> on then shut_down now db else db)
                   \<lparr>oa_config := Some \<lparr>cf_enabled = on, cf_issuer = issuer, cf_resource = resource, cf_revision = revision + 1\<rparr>\<rparr>))))"

text \<open>The families of the grants a condition selects.\<close>

definition grant_families :: "oauth_db \<Rightarrow> (oauth_grant \<Rightarrow> bool) \<Rightarrow> family_row \<Rightarrow> bool" where
  "grant_families db p f \<longleftrightarrow> list_ex (\<lambda>g. p g \<and> og_id g = fm_grant f) (oa_grants db)"

text \<open>\<open>actor\<close> is \<open>None\<close> without a principal, otherwise the user \<^verbatim>\<open>live_console_session\<close> confirms.\<close>

definition save_management_config :: "oauth_env \<Rightarrow> oauth_world \<Rightarrow> int \<Rightarrow> bool \<Rightarrow> int \<Rightarrow> pystr option option \<Rightarrow> oauth_db
    \<Rightarrow> oauth_error + oauth_db" where
  "save_management_config e w now on revision actor db =
     bindR (case actor of
              None \<Rightarrow> Inr ()
            | Some None \<Rightarrow> Inl (OAuth_error (lit ''session_required'') 403)
            | Some (Some uid) \<Rightarrow> bindR (management_owner w uid) (\<lambda>_. Inr ())) (\<lambda>_.
       let cur = management_config e db in
       if mv_revision cur \<noteq> revision then Inl (OAuth_error (lit ''revision_conflict'') 409)
       else bindR (if on then bindR (ready_config e w db) (\<lambda>_.
                     if has_active_key db then Inr () else Inl (OAuth_error (lit ''signing_key_required'') 409)) else Inr ()) (\<lambda>_.
         Inr ((if on then db
               else (revoke_families now (\<lambda>f. live_family f \<and> grant_families db (\<lambda>g. og_resource g = mv_resource cur) f) db)
                 \<lparr>oa_codes := delete_rows (\<lambda>c. co_resource c = mv_resource cur) (oa_codes db)\<rparr>)
              \<lparr>oa_management := Some (on, revision + 1)\<rparr>)))"

definition check_client_fields :: "oauth_env \<Rightarrow> pystr \<Rightarrow> pystr list \<Rightarrow> pystr list \<Rightarrow> pystr list \<Rightarrow> bool" where
  "check_client_fields e name redirects scopes resources \<longleftrightarrow>
     strip name \<noteq> [] \<and> length name \<le> 100 \<and> list_all (\<lambda>c. 32 \<le> c) name
     \<and> 1 \<le> length redirects \<and> length redirects \<le> 10 \<and> distinct redirects \<and> list_all (valid_callback e) redirects
     \<and> scopes \<noteq> [] \<and> set scopes \<subseteq> set SCOPES \<and> resources \<noteq> [] \<and> distinct resources
     \<and> set resources \<subseteq> {lit ''business'', lit ''management''}
     \<and> (lit ''operations.manage'' \<in> set scopes \<longleftrightarrow> lit ''management'' \<in> set resources)
     \<and> (lit ''credentials.manage.system'' \<in> set scopes \<longrightarrow> lit ''management'' \<in> set resources)"

record client_fields =
  cq_name :: pystr
  cq_redirects :: "pystr list"
  cq_scopes :: "pystr list"
  cq_resources :: "pystr list option"

definition create_client :: "oauth_env \<Rightarrow> int \<Rightarrow> pystr \<Rightarrow> pystr \<Rightarrow> client_fields \<Rightarrow> oauth_db \<Rightarrow> oauth_error + oauth_db" where
  "create_client e now cid secret q db =
     (let resources = (case cq_resources q of None \<Rightarrow> [lit ''business''] | Some r \<Rightarrow> r) in
      if \<not> check_client_fields e (cq_name q) (cq_redirects q) (cq_scopes q) resources then Inl (oerr ''invalid_client_configuration'')
      else if length (oa_clients db) \<ge> 100 then Inl (OAuth_error (lit ''client_limit'') 409)
      else if find_client db cid \<noteq> None then Inl Constraint_failed
      else Inr (db\<lparr>oa_clients := oa_clients db @ [\<lparr>cl_id = cid, cl_name = strip (cq_name q), cl_redirects = cq_redirects q,
        cl_scopes = sorted_set (cq_scopes q), cl_secret_hash = oe_hash e secret, cl_enabled = True, cl_revision = 1, cl_created = now,
        cl_resources = sort resources\<rparr>]\<rparr>))"

text \<open>The columns \<^verbatim>\<open>UPDATE gate_oauth_clients\<close> writes; \<open>rotated\<close> is the new secret, if any.\<close>

definition edit_client :: "oauth_env \<Rightarrow> client_fields \<times> bool \<times> pystr option \<times> pystr list \<Rightarrow> client_row \<Rightarrow> client_row" where
  "edit_client e v c = (case v of (q, on, rotated, resources) \<Rightarrow>
     c\<lparr>cl_name := strip (cq_name q), cl_redirects := cq_redirects q, cl_scopes := sorted_set (cq_scopes q), cl_enabled := on,
       cl_secret_hash := (case rotated of None \<Rightarrow> cl_secret_hash c | Some s \<Rightarrow> oe_hash e s), cl_resources := sort resources,
       cl_revision := cl_revision c + 1\<rparr>)"

definition update_client :: "oauth_env \<Rightarrow> int \<Rightarrow> pystr \<Rightarrow> int \<Rightarrow> bool \<Rightarrow> client_fields \<Rightarrow> pystr option \<Rightarrow> oauth_db \<Rightarrow> oauth_error + oauth_db" where
  "update_client e now cid revision on q rotated db =
     (case find_client db cid of
        None \<Rightarrow> Inl (OAuth_error (lit ''client_not_found'') 404)
      | Some c \<Rightarrow>
          if cl_revision c \<noteq> revision then Inl (OAuth_error (lit ''revision_conflict'') 409)
          else
            (let resources = (case cq_resources q of None \<Rightarrow> cl_resources c | Some r \<Rightarrow> r) in
             if \<not> check_client_fields e (cq_name q) (cq_redirects q) (cq_scopes q) resources then Inl (oerr ''invalid_client_configuration'')
             else Inr ((if \<not> on \<or> rotated \<noteq> None
                        then revoke_families now (\<lambda>f. grant_families db (\<lambda>g. og_client g = cid) f \<and> live_family f) db else db)
               \<lparr>oa_clients := update_rows (\<lambda>x. cl_id x = cid) (edit_client e (q, on, rotated, resources)) (oa_clients db),
                oa_codes := delete_rows (\<lambda>x. co_client x = cid) (oa_codes db)\<rparr>)))"

section \<open>Authorization requests\<close>

record auth_request =
  rq_client :: pystr
  rq_redirect :: pystr
  rq_resource :: pystr
  rq_scopes :: "pystr list"
  rq_challenge :: pystr
  rq_client_revision :: int
  rq_config_revision :: int
  rq_issuer :: pystr
  rq_management :: "int option"

definition pkce_char :: "nat \<Rightarrow> bool" where
  "pkce_char c \<longleftrightarrow> 65 \<le> c \<and> c \<le> 90 \<or> 97 \<le> c \<and> c \<le> 122 \<or> 48 \<le> c \<and> c \<le> 57 \<or> c = 45 \<or> c = 95"

definition challenge_ok :: "pystr \<Rightarrow> bool" where
  "challenge_ok s \<longleftrightarrow> length s = 43 \<and> list_all pkce_char s"

definition verifier_ok :: "pystr \<Rightarrow> bool" where
  "verifier_ok s \<longleftrightarrow> 43 \<le> length s \<and> length s \<le> 128 \<and> list_all (\<lambda>c. pkce_char c \<or> c = 46 \<or> c = 126) s"

definition param :: "(pystr \<rightharpoonup> pystr) \<Rightarrow> string \<Rightarrow> string \<Rightarrow> pystr" where
  "param ps k dflt = (case ps (lit k) of None \<Rightarrow> lit dflt | Some v \<Rightarrow> v)"

text \<open>The checks of \<^verbatim>\<open>start_authorization\<close> and the request its ticket seals.\<close>

definition start_authorization :: "oauth_env \<Rightarrow> oauth_world \<Rightarrow> (pystr \<rightharpoonup> pystr) \<Rightarrow> oauth_db \<Rightarrow> oauth_error + auth_request" where
  "start_authorization e w ps db =
     bindR (ready_config e w db) (\<lambda>config.
       case find_row (\<lambda>c. cl_id c = param ps ''client_id'' '''' \<and> cl_enabled c) (oa_clients db) of
         None \<Rightarrow> Inl (oerr ''invalid_client_or_redirect'')
       | Some c \<Rightarrow>
           (case ps (lit ''redirect_uri'') of
              None \<Rightarrow> Inl (oerr ''invalid_client_or_redirect'')
            | Some redirect \<Rightarrow>
                if redirect \<notin> set (cl_redirects c) then Inl (oerr ''invalid_client_or_redirect'')
                else bindR (scope_set (param ps ''scope'' ''tools.read'')) (\<lambda>scopes.
                  if ps (lit ''response_type'') \<noteq> Some (lit ''code'') \<or> ps (lit ''code_challenge_method'') \<noteq> Some (lit ''S256'')
                     \<or> \<not> challenge_ok (param ps ''code_challenge'' '''')
                  then Inl (oerr ''invalid_authorization_request'')
                  else bindR (resource_policy_of e w db (param ps ''resource'' '''')) (\<lambda>policy.
                    if \<not> set scopes \<subseteq> set (rp_scopes policy) \<or> rp_kind policy \<notin> set (cl_resources c)
                       \<or> (rp_kind policy = lit ''management'' \<and> lit ''operations.manage'' \<notin> set scopes)
                       \<or> \<not> set scopes \<subseteq> set (cl_scopes c)
                    then Inl (oerr ''invalid_scope'')
                    else Inr \<lparr>rq_client = cl_id c, rq_redirect = redirect, rq_resource = param ps ''resource'' '''', rq_scopes = scopes,
                      rq_challenge = param ps ''code_challenge'' '''', rq_client_revision = cl_revision c, rq_config_revision = cf_revision config,
                      rq_issuer = cf_issuer config, rq_management = rp_management policy\<rparr>))))"

definition cleanup_interactions :: "int \<Rightarrow> oauth_db \<Rightarrow> oauth_db" where
  "cleanup_interactions now db =
     (let old = (\<lambda>f. fm_expires f < now - ACCESS_TTL);
          gone = map fm_id (filter old (oa_families db))
      in db\<lparr>oa_interactions := delete_rows (\<lambda>i. in_expires i \<le> now) (oa_interactions db),
            oa_codes := delete_rows (\<lambda>c. co_expires c < now - ACCESS_TTL) (oa_codes db),
            oa_families := delete_rows old (oa_families db),
            oa_refresh := delete_rows (\<lambda>r. rf_family r \<in> set gone) (oa_refresh db)\<rparr>)"

definition sql_count :: "('a \<Rightarrow> bool) \<Rightarrow> 'a list \<Rightarrow> nat" where
  "sql_count p xs = length (filter p xs)"

definition admit_authenticated :: "int \<Rightarrow> pystr \<Rightarrow> pystr \<Rightarrow> oauth_db \<Rightarrow> oauth_error + oauth_db" where
  "admit_authenticated now uid cid db =
     (let db1 = cleanup_interactions now db; is = oa_interactions db1 in
      if sql_count (\<lambda>i. \<not> in_completed i) is \<ge> MAX_AUTHENTICATED_INTERACTIONS
         \<or> sql_count (\<lambda>i. \<not> in_completed i \<and> in_user i = Some uid) is \<ge> MAX_USER_INTERACTIONS
         \<or> sql_count (\<lambda>i. \<not> in_completed i \<and> in_client i = cid) is \<ge> MAX_CLIENT_INTERACTIONS
      then Inl (OAuth_error (lit ''authorization_capacity'') 429) else Inr db1)"

text \<open>\<open>row\<close> carries the hashes and the expiry of the interaction, stored or taken from the ticket.\<close>

definition complete_interaction :: "int \<Rightarrow> interaction_row \<Rightarrow> pystr \<Rightarrow> pystr option \<Rightarrow> pystr \<Rightarrow> oauth_db \<Rightarrow> oauth_error + oauth_db" where
  "complete_interaction now row cid user grant db =
     (let db1 = cleanup_interactions now db; is = oa_interactions db1;
          full = (if user \<noteq> None \<and> user \<noteq> Some []
                  then sql_count (\<lambda>i. in_completed i \<and> in_user i \<noteq> None) is \<ge> MAX_AUTHENTICATED_COMPLETIONS
                      \<or> sql_count (\<lambda>i. in_completed i \<and> in_user i = user) is \<ge> MAX_USER_COMPLETIONS
                  else sql_count (\<lambda>i. in_completed i \<and> in_user i = None) is \<ge> MAX_ANONYMOUS_COMPLETIONS)
      in if full then Inl (OAuth_error (lit ''authorization_capacity'') 429)
         else Inr (db1\<lparr>oa_interactions :=
           (if list_ex (\<lambda>i. in_hash i = in_hash row) is
            then update_rows (\<lambda>i. in_hash i = in_hash row) (\<lambda>i. i\<lparr>in_completed := True, in_grant := grant, in_user := user\<rparr>) is
            else is @ [row\<lparr>in_completed := True, in_grant := grant, in_user := user, in_client := cid\<rparr>])\<rparr>))"

record ticket =
  tp_purpose :: pystr
  tp_browser :: pystr
  tp_csrf :: pystr
  tp_expires :: int
  tp_request :: auth_request

text \<open>\<open>unseal\<close> is Fernet decryption with its time limit followed by \<^verbatim>\<open>json.loads\<close>; \<open>None\<close> for an invalid token.\<close>

definition open_ticket :: "oauth_env \<Rightarrow> (int \<Rightarrow> pystr \<Rightarrow> ticket option) \<Rightarrow> int \<Rightarrow> pystr \<Rightarrow> pystr \<Rightarrow> pystr option \<Rightarrow> oauth_error + ticket" where
  "open_ticket e unseal now interaction browser csrf =
     (let late = Inl (OAuth_error (lit ''authorization_expired'') 410) in
      if browser = [] \<or> length interaction < 40 \<or> length interaction > 16384 then late
      else (case unseal now interaction of
              None \<Rightarrow> late
            | Some t \<Rightarrow>
                if tp_purpose t \<noteq> lit ''authorization_v1'' \<or> tp_expires t \<le> now then late
                else if tp_browser t \<noteq> oe_hash e browser then Inl (OAuth_error (lit ''invalid_browser'') 403)
                else if csrf \<noteq> None \<and> csrf \<noteq> Some (tp_csrf t) then Inl (OAuth_error (lit ''invalid_csrf'') 403)
                else Inr t))"

definition interaction :: "oauth_env \<Rightarrow> oauth_world \<Rightarrow> (int \<Rightarrow> pystr \<Rightarrow> ticket option) \<Rightarrow> int \<Rightarrow> pystr \<Rightarrow> pystr \<Rightarrow> pystr option
    \<Rightarrow> oauth_db \<Rightarrow> oauth_error + interaction_row \<times> auth_request" where
  "interaction e w unseal now token browser csrf db =
     bindR (open_ticket e unseal now token browser csrf) (\<lambda>t.
     bindR (ready_config e w db) (\<lambda>config.
       let found = find_row (\<lambda>i. in_hash i = oe_hash e token) (oa_interactions db); rq = tp_request t in
       if (case found of None \<Rightarrow> False | Some i \<Rightarrow> in_expires i \<le> now) then Inl (OAuth_error (lit ''authorization_expired'') 410)
       else bindR (resource_policy_of e w db (rq_resource rq)) (\<lambda>policy.
         case find_row (\<lambda>c. cl_id c = rq_client rq \<and> cl_enabled c) (oa_clients db) of
           None \<Rightarrow> Inl (OAuth_error (lit ''authorization_changed'') 409)
         | Some c \<Rightarrow>
             if cl_revision c \<noteq> rq_client_revision rq \<or> cf_revision config \<noteq> rq_config_revision rq \<or> cf_issuer config \<noteq> rq_issuer rq
                \<or> rp_kind policy \<notin> set (cl_resources c) \<or> \<not> set (rq_scopes rq) \<subseteq> set (rp_scopes policy)
                \<or> rp_management policy \<noteq> rq_management rq
             then Inl (OAuth_error (lit ''authorization_changed'') 409)
             else Inr (case found of
                         Some i \<Rightarrow> i
                       | None \<Rightarrow> \<lparr>in_hash = oe_hash e token, in_browser = tp_browser t, in_csrf = oe_hash e (tp_csrf t), in_grant = [],
                           in_expires = tp_expires t, in_completed = False, in_user = None, in_client = []\<rparr>, rq))))"

definition release_interaction :: "oauth_env \<Rightarrow> oauth_world \<Rightarrow> (int \<Rightarrow> pystr \<Rightarrow> ticket option) \<Rightarrow> int \<Rightarrow> pystr \<Rightarrow> pystr \<Rightarrow> pystr
    \<Rightarrow> oauth_db \<Rightarrow> oauth_error + oauth_db" where
  "release_interaction e w unseal now token browser csrf db =
     bindR (interaction e w unseal now token browser (Some csrf) db) (\<lambda>_.
       Inr (db\<lparr>oa_interactions := delete_rows (\<lambda>i. in_hash i = oe_hash e token \<and> \<not> in_completed i) (oa_interactions db)\<rparr>))"

definition deny_consent :: "oauth_env \<Rightarrow> oauth_world \<Rightarrow> (int \<Rightarrow> pystr \<Rightarrow> ticket option) \<Rightarrow> int \<Rightarrow> pystr \<Rightarrow> pystr \<Rightarrow> pystr \<Rightarrow> pystr option
    \<Rightarrow> oauth_db \<Rightarrow> oauth_error + oauth_db" where
  "deny_consent e w unseal now token browser csrf user db =
     bindR (interaction e w unseal now token browser (Some csrf) db) (\<lambda>(row, rq).
       if in_completed row then Inl (OAuth_error (lit ''authorization_completed'') 409)
       else complete_interaction now row (rq_client rq) user [] db)"

record consent_input =
  cs_tools :: "(pystr \<times> granted_tool) list"
  cs_policies :: "server_policy list"
  cs_targets :: "(pystr \<times> pystr list) list"
  cs_days :: int
  cs_rate :: int
  cs_concurrency :: int

definition granted_scopes :: "bool \<Rightarrow> (pystr \<times> granted_tool) list \<Rightarrow> server_policy list \<Rightarrow> pystr list" where
  "granted_scopes management tools policies =
     (let tool_scope = (\<lambda>(_, t). if gt_access t = lit ''read'' then lit ''tools.read'' else lit ''tools.invoke'');
          business = map tool_scope tools @ (if policies \<noteq> [] then [lit ''tools.read''] else [])
            @ (if list_ex (\<lambda>p. sp_access p = Write) policies then [lit ''tools.invoke''] else [])
      in sorted_set (if management
           then [lit ''operations.manage''] @ (if lit ''tools.invoke'' \<in> set business then [lit ''tools.invoke''] else [])
             @ (if list_ex (\<lambda>(i, _). i \<in> set CREDENTIAL_MANAGEMENT_TOOL_IDS) tools then [lit ''credentials.manage.system''] else [])
           else business))"

text \<open>
  The last part of \<^verbatim>\<open>consent\<close>, from the tools and policies the current catalog confirmed: the limits, the granted scopes, the grant with
  its code, and the completed interaction.
\<close>

definition consent :: "oauth_env \<Rightarrow> oauth_world \<Rightarrow> (int \<Rightarrow> pystr \<Rightarrow> ticket option) \<Rightarrow> int \<Rightarrow> pystr \<Rightarrow> pystr \<Rightarrow> pystr \<Rightarrow> pystr \<Rightarrow> consent_input
    \<Rightarrow> pystr \<Rightarrow> pystr \<Rightarrow> oauth_db \<Rightarrow> oauth_error + oauth_db" where
  "consent e w unseal now token browser csrf user ci code gid db =
     (if (cs_tools ci = [] \<and> cs_policies ci = []) \<or> length (cs_tools ci) > 5000 \<or> \<not> distinct (map fst (cs_tools ci))
         \<or> \<not> (1 \<le> cs_days ci \<and> cs_days ci \<le> 30) \<or> \<not> (1 \<le> cs_rate ci \<and> cs_rate ci \<le> 10000)
         \<or> \<not> (1 \<le> cs_concurrency ci \<and> cs_concurrency ci \<le> 100)
      then Inl (oerr ''invalid_consent'')
      else bindR (interaction e w unseal now token browser (Some csrf) db) (\<lambda>(row, rq).
        if in_completed row then Inl (OAuth_error (lit ''authorization_completed'') 409)
        else bindR (resource_policy_of e w db (rq_resource rq)) (\<lambda>policy.
          let management = (rp_kind policy = lit ''management'');
              servers = remdups (map (\<lambda>(_, t). gt_server t) (cs_tools ci) @ map sp_server (cs_policies ci))
          in if length servers > 100 then Inl (oerr ''server_scope_limit'')
             else if sql_count (\<lambda>g. og_user g = user) (oa_grants db) \<ge> 1000 then Inl (OAuth_error (lit ''grant_limit'') 409)
             else if find_grant db gid \<noteq> None \<or> oe_hash e code \<in> co_hash ` set (oa_codes db) then Inl Constraint_failed
             else complete_interaction now row (rq_client rq) (Some user) gid
               (db\<lparr>oa_grants := oa_grants db @ [\<lparr>og_id = gid, og_user = user, og_client = rq_client rq, og_resource = rq_resource rq,
                     og_scopes = granted_scopes management (cs_tools ci) (cs_policies ci), og_tools = cs_tools ci,
                     og_expires = now + cs_days ci * 86400, og_rate = cs_rate ci, og_concurrency = cs_concurrency ci, og_revoked = None,
                     og_revision = 1, og_created = now, og_targets = (if management then cs_targets ci else []),
                     og_target_revision = (if management then 1 else 0), og_policies = cs_policies ci\<rparr>],
                   oa_codes := oa_codes db @ [\<lparr>co_hash = oe_hash e code, co_grant = gid, co_client = rq_client rq, co_redirect = rq_redirect rq,
                     co_resource = rq_resource rq, co_challenge = rq_challenge rq, co_expires = now + CODE_TTL, co_consumed = None\<rparr>]\<rparr>))))"

section \<open>Exchange, rotation, revocation and verification\<close>

definition authenticate_client :: "oauth_env \<Rightarrow> pystr \<Rightarrow> pystr \<Rightarrow> oauth_db \<Rightarrow> oauth_error + client_row" where
  "authenticate_client e cid secret db =
     (let row = find_client db cid; expected = (case row of None \<Rightarrow> replicate 64 48 | Some c \<Rightarrow> cl_secret_hash c);
          refuse = Inl (OAuth_error (lit ''invalid_client'') 401)
      in if expected \<noteq> oe_hash e secret \<or> secret = [] then refuse
         else (case row of None \<Rightarrow> refuse | Some c \<Rightarrow> if cl_enabled c then Inr c else refuse))"

definition active_grant :: "oauth_env \<Rightarrow> oauth_world \<Rightarrow> int \<Rightarrow> pystr \<Rightarrow> client_row \<Rightarrow> pystr \<Rightarrow> oauth_db \<Rightarrow> oauth_error + oauth_grant" where
  "active_grant e w now gid client resource db =
     bindR (resource_policy_of e w db resource) (\<lambda>policy.
       case find_grant db gid of
         None \<Rightarrow> Inl (oerr ''invalid_grant'')
       | Some g \<Rightarrow>
           (case ow_users w (og_user g) of
              None \<Rightarrow> Inl (oerr ''invalid_grant'')
            | Some u \<Rightarrow>
                if og_revoked g \<noteq> None \<or> og_expires g \<le> now \<or> \<not> us_active u \<or> us_must_change u \<or> og_client g \<noteq> cl_id client
                   \<or> og_resource g \<noteq> resource \<or> rp_kind policy \<notin> set (cl_resources client)
                then Inl (oerr ''invalid_grant'')
                else bindR (if rp_kind policy = lit ''management'' then
                              (if lit ''admin'' \<notin> set (roles_for_user (ow_access w) (og_user g))
                               then Inl (OAuth_error (lit ''management_admin_required'') 403)
                               else bindR (bindR (build_principal w (og_user g) u) (\<lambda>p. management_owner w (p_id p))) (\<lambda>_.
                                 if lit ''operations.manage'' \<notin> set (og_scopes g) \<inter> set (cl_scopes client)
                                 then Inl (oerr ''invalid_grant'') else Inr ()))
                            else Inr ()) (\<lambda>_.
                  if set (og_scopes g) \<inter> set (cl_scopes client) = {} then Inl (oerr ''invalid_grant'') else Inr g)))"

record claims =
  ct_iss :: pystr
  ct_sub :: pystr
  ct_aud :: pystr
  ct_client :: pystr
  ct_gid :: pystr
  ct_fid :: pystr
  ct_scopes :: "pystr list"
  ct_iat :: int
  ct_exp :: int

definition sign :: "oauth_env \<Rightarrow> int \<Rightarrow> oauth_grant \<Rightarrow> pystr \<times> int \<Rightarrow> pystr list \<Rightarrow> oauth_db \<Rightarrow> oauth_error + claims" where
  "sign e now g family scopes db =
     (let refuse = Inl (OAuth_error (lit ''signing_key_unavailable'') 503) in
      case find_row k_active (oa_keys db) of
        None \<Rightarrow> refuse
      | Some k \<Rightarrow>
          if \<not> oe_signs e k then refuse
          else Inr \<lparr>ct_iss = cf_issuer (store_config db), ct_sub = og_user g, ct_aud = og_resource g, ct_client = og_client g, ct_gid = og_id g,
            ct_fid = fst family, ct_scopes = scopes, ct_iat = now, ct_exp = min (now + ACCESS_TTL) (min (og_expires g) (snd family))\<rparr>)"

record token_request =
  tq_grant_type :: pystr
  tq_resource :: pystr
  tq_code :: pystr
  tq_redirect :: "pystr option"
  tq_verifier :: pystr
  tq_refresh :: pystr
  tq_scope :: "pystr option"

text \<open>
  The outcome of the branch of one grant type: \<open>Refused\<close> commits the tables and answers \<^verbatim>\<open>invalid_grant\<close>, \<open>Exchanged\<close> goes on to sign for
  a grant, a family (id and expiry) and scopes.
\<close>

datatype exchange = Refused oauth_db | Exchanged oauth_db oauth_grant "pystr \<times> int" "pystr list"

definition exchange_code :: "oauth_env \<Rightarrow> oauth_world \<Rightarrow> int \<Rightarrow> pystr \<Rightarrow> client_row \<Rightarrow> resource_policy \<Rightarrow> token_request \<Rightarrow> oauth_db
    \<Rightarrow> oauth_error + exchange" where
  "exchange_code e w now fid client policy q db =
     (let h = oe_hash e (tq_code q) in
      case find_row (\<lambda>c. co_hash c = h) (oa_codes db) of
        None \<Rightarrow> Inl (oerr ''invalid_grant'')
      | Some c \<Rightarrow>
          if co_client c \<noteq> cl_id client \<or> Some (co_redirect c) \<noteq> tq_redirect q \<or> co_resource c \<noteq> tq_resource q
             \<or> \<not> verifier_ok (tq_verifier q) \<or> oe_pkce e (tq_verifier q) \<noteq> co_challenge c
          then Inl (oerr ''invalid_grant'')
          else bindR (active_grant e w now (co_grant c) client (tq_resource q) db) (\<lambda>g.
            if co_consumed c \<noteq> None then Inr (Refused (revoke_families now (\<lambda>f. fm_grant f = og_id g \<and> live_family f) db))
            else if co_expires c \<le> now then Inl (oerr ''invalid_grant'')
            else if find_family db fid \<noteq> None then Inl Constraint_failed
            else
              (let scopes = sorted_set (filter (\<lambda>s. s \<in> set (cl_scopes client) \<and> s \<in> set (rp_scopes policy)) (og_scopes g));
                   expires = min (now + REFRESH_TTL) (og_expires g)
               in Inr (Exchanged (db\<lparr>oa_codes := update_rows (\<lambda>x. co_hash x = h \<and> co_consumed x = None) (\<lambda>x. x\<lparr>co_consumed := Some now\<rparr>) (oa_codes db),
                    oa_families := oa_families db @ [\<lparr>fm_id = fid, fm_grant = og_id g, fm_scopes = scopes, fm_expires = expires, fm_revoked = None\<rparr>]\<rparr>)
                    g (fid, expires) scopes))))"

definition MAX_FAMILY_TOKENS :: nat where "MAX_FAMILY_TOKENS = 10000"

definition exchange_refresh :: "oauth_env \<Rightarrow> oauth_world \<Rightarrow> int \<Rightarrow> client_row \<Rightarrow> resource_policy \<Rightarrow> token_request \<Rightarrow> oauth_db
    \<Rightarrow> oauth_error + exchange" where
  "exchange_refresh e w now client policy q db =
     (let h = oe_hash e (tq_refresh q) in
      case find_row (\<lambda>r. rf_hash r = h) (oa_refresh db) of
        None \<Rightarrow> Inl (oerr ''invalid_grant'')
      | Some r \<Rightarrow>
          (case find_family db (rf_family r) of
             None \<Rightarrow> Inl (oerr ''invalid_grant'')
           | Some f \<Rightarrow>
               bindR (active_grant e w now (fm_grant f) client (tq_resource q) db) (\<lambda>g.
                 let revoked = revoke_families now (\<lambda>x. fm_id x = fm_id f) db in
                 if rf_consumed r \<noteq> None then Inr (Refused revoked)
                 else if fm_revoked f \<noteq> None \<or> fm_expires f \<le> now then Inl (oerr ''invalid_grant'')
                 else
                   (let ceiling = filter (\<lambda>s. s \<in> set (og_scopes g) \<and> s \<in> set (cl_scopes client) \<and> s \<in> set (rp_scopes policy)) (fm_scopes f) in
                    bindR (case tq_scope q of None \<Rightarrow> Inr (sorted_set ceiling) | Some v \<Rightarrow> scope_set v) (\<lambda>scopes.
                      if \<not> set scopes \<subseteq> set ceiling \<or> scopes = [] \<or> (rp_kind policy = lit ''management'' \<and> lit ''operations.manage'' \<notin> set scopes)
                      then Inl (oerr ''invalid_scope'')
                      else if sql_count (\<lambda>x. rf_family x = fm_id f) (oa_refresh db) \<ge> MAX_FAMILY_TOKENS then Inr (Refused revoked)
                      else Inr (Exchanged (db\<lparr>oa_refresh := update_rows (\<lambda>x. rf_hash x = h) (\<lambda>x. x\<lparr>rf_consumed := Some now\<rparr>) (oa_refresh db),
                             oa_families := update_rows (\<lambda>x. fm_id x = fm_id f) (\<lambda>x. x\<lparr>fm_scopes := scopes\<rparr>) (oa_families db)\<rparr>)
                             g (fm_id f, fm_expires f) scopes))))))"

record token_reply =
  tr_claims :: claims
  tr_expires_in :: int
  tr_refresh :: pystr
  tr_scopes :: "pystr list"
  tr_resource :: pystr

definition token_transaction :: "oauth_env \<Rightarrow> oauth_world \<Rightarrow> int \<Rightarrow> pystr \<Rightarrow> pystr \<Rightarrow> pystr \<Rightarrow> pystr \<Rightarrow> token_request \<Rightarrow> oauth_db
    \<Rightarrow> oauth_error + oauth_db \<times> (oauth_error + token_reply)" where
  "token_transaction e w now refresh fid cid secret q db =
     bindR (ready_config e w db) (\<lambda>_.
     bindR (authenticate_client e cid secret db) (\<lambda>client.
     bindR (resource_policy_of e w db (tq_resource q)) (\<lambda>policy.
       if rp_kind policy \<notin> set (cl_resources client) then Inl (oerr ''invalid_target'')
       else bindR (if tq_grant_type q = lit ''authorization_code'' then exchange_code e w now fid client policy q db
                   else if tq_grant_type q = lit ''refresh_token'' then exchange_refresh e w now client policy q db
                   else Inl (oerr ''unsupported_grant_type'')) (\<lambda>x.
         case x of
           Refused db' \<Rightarrow> Inr (db', Inl (oerr ''invalid_grant''))
         | Exchanged db' g family scopes \<Rightarrow>
             bindR (sign e now g family scopes db') (\<lambda>ct.
               if oe_hash e refresh \<in> rf_hash ` set (oa_refresh db') then Inl Constraint_failed
               else Inr (db'\<lparr>oa_refresh := oa_refresh db' @ [\<lparr>rf_hash = oe_hash e refresh, rf_family = fst family, rf_consumed = None, rf_created = now\<rparr>]\<rparr>,
                      Inr \<lparr>tr_claims = ct, tr_expires_in = ct_exp ct - now, tr_refresh = refresh, tr_scopes = scopes, tr_resource = tq_resource q\<rparr>))))))"

definition token :: "oauth_env \<Rightarrow> oauth_world \<Rightarrow> int \<Rightarrow> pystr \<Rightarrow> pystr \<Rightarrow> pystr \<Rightarrow> pystr \<Rightarrow> token_request \<Rightarrow> oauth_db
    \<Rightarrow> oauth_db \<times> (oauth_error + token_reply)" where
  "token e w now refresh fid cid secret q db =
     (case token_transaction e w now refresh fid cid secret q db of Inl x \<Rightarrow> (db, Inl x) | Inr r \<Rightarrow> r)"

definition str_claim :: "dict \<Rightarrow> string \<Rightarrow> pystr option" where
  "str_claim d k = (case dict_get d (lit k) of Some (PStr s) \<Rightarrow> if 1 \<le> length s \<and> length s \<le> 256 then Some s else None | _ \<Rightarrow> None)"

definition int_claim :: "dict \<Rightarrow> string \<Rightarrow> int option" where
  "int_claim d k = (case dict_get d (lit k) of Some (PInt i) \<Rightarrow> Some i | _ \<Rightarrow> None)"

text \<open>The checks on the decoded claims; \<open>None\<close> is \<^verbatim>\<open>invalid_token\<close>.\<close>

definition read_claims :: "pystr \<Rightarrow> pystr \<Rightarrow> dict \<Rightarrow> claims option" where
  "read_claims resource issuer d =
     (case (str_claim d ''sub'', str_claim d ''client_id'', str_claim d ''gid'', str_claim d ''fid'', str_claim d ''jti'',
            int_claim d ''exp'', int_claim d ''iat'', int_claim d ''nbf'', dict_get d (lit ''scope'')) of
        (Some sub, Some cid, Some gid, Some fid, Some _, Some until, Some since, Some _, Some (PStr s)) \<Rightarrow>
          if dict_get d (lit ''aud'') \<noteq> Some (PStr resource) \<or> dict_get d (lit ''token_use'') \<noteq> Some (PStr (lit ''access''))
             \<or> until - since > ACCESS_TTL then None
          else (case scope_set s of
                  Inl _ \<Rightarrow> None
                | Inr scopes \<Rightarrow> Some \<lparr>ct_iss = issuer, ct_sub = sub, ct_aud = resource, ct_client = cid, ct_gid = gid, ct_fid = fid,
                    ct_scopes = scopes, ct_iat = since, ct_exp = until\<rparr>)
      | _ \<Rightarrow> None)"

definition claims_of :: "oauth_env \<Rightarrow> oauth_world \<Rightarrow> int \<Rightarrow> pystr \<Rightarrow> pystr option \<Rightarrow> oauth_db \<Rightarrow> oauth_error + claims" where
  "claims_of e w now tok expected db =
     (let refuse = Inl (OAuth_error (lit ''invalid_token'') 401) in
      bindR (ready_config e w db) (\<lambda>config.
      let resource = (case expected of Some r \<Rightarrow> if r = [] then cf_resource config else r | None \<Rightarrow> cf_resource config) in
      bindR (resource_policy_of e w db resource) (\<lambda>_.
        if tok = [] \<or> length tok > 16384 \<or> sql_count (\<lambda>c. c = 46) tok \<noteq> 2 then refuse
        else (case oe_header e tok of
                None \<Rightarrow> refuse
              | Some h \<Rightarrow>
                  if jh_alg h \<noteq> Some (lit ''RS256'') \<or> jh_typ h \<noteq> Some (lit ''at+jwt'')
                     \<or> list_ex (\<lambda>k. k \<in> lit ` {''jku'', ''jwk'', ''x5u'', ''crit''}) (jh_keys h) then refuse
                  else (case find_row (\<lambda>k. jh_kid h = Some (k_kid k) \<and> (k_active k \<or> (case k_retire k of None \<Rightarrow> False | Some t \<Rightarrow> t > now))) (oa_keys db) of
                          None \<Rightarrow> refuse
                        | Some k \<Rightarrow>
                            (case oe_decode e k tok resource (cf_issuer config) now of
                               None \<Rightarrow> refuse
                             | Some d \<Rightarrow> (case read_claims resource (cf_issuer config) d of None \<Rightarrow> refuse | Some ct \<Rightarrow> Inr ct)))))))"

record verified =
  vf_principal :: principal
  vf_grant :: oauth_grant
  vf_family :: family_row
  vf_scopes :: "pystr list"
  vf_expires :: int

text \<open>
  \<^verbatim>\<open>_verified_principal\<close> up to the tools of the grant.  The first tables are those of its transaction, \<open>w'\<close> and \<open>db'\<close> what the reads
  after the transaction see.
\<close>

definition verified_principal :: "oauth_env \<Rightarrow> oauth_world \<Rightarrow> oauth_world \<Rightarrow> int \<Rightarrow> claims \<Rightarrow> oauth_db \<Rightarrow> oauth_db \<Rightarrow> oauth_error + verified" where
  "verified_principal e w w' now ct db db' =
     (let bad = OAuth_error (lit ''invalid_token'') 401 in
      if ct_exp ct \<le> now then Inl bad
      else (case find_row (\<lambda>c. cl_id c = ct_client ct \<and> cl_enabled c) (oa_clients db) of
              None \<Rightarrow> Inl bad
            | Some client \<Rightarrow>
                bindR (active_grant e w now (ct_gid ct) client (ct_aud ct) db) (\<lambda>g.
                  case find_row (\<lambda>f. fm_id f = ct_fid ct \<and> fm_grant f = og_id g) (oa_families db) of
                    None \<Rightarrow> Inl bad
                  | Some f \<Rightarrow>
                      if ct_sub ct \<noteq> og_user g \<or> fm_revoked f \<noteq> None \<or> fm_expires f \<le> now then Inl bad
                      else (case ow_users w (og_user g) of
                              None \<Rightarrow> Inl bad
                            | Some u \<Rightarrow>
                                bindR (build_principal w' (og_user g) u) (\<lambda>p0.
                                bindR (resource_policy_of e w' db' (ct_aud ct)) (\<lambda>policy.
                                bindR (if rp_kind policy = lit ''management'' then management_owner w' (p_id p0)
                                       else if \<not> has_control_permission p0 (lit ''credentials.manage.self'') then Inl bad else Inr p0) (\<lambda>p.
                                  let scopes = sorted_set (filter (\<lambda>s. s \<in> set (og_scopes g) \<and> s \<in> set (cl_scopes client)
                                        \<and> s \<in> set (fm_scopes f) \<and> s \<in> set (rp_scopes policy)) (ct_scopes ct))
                                  in if rp_kind policy = lit ''management'' \<and> lit ''operations.manage'' \<notin> set scopes then Inl bad
                                     else Inr \<lparr>vf_principal = p, vf_grant = g, vf_family = f, vf_scopes = scopes,
                                            vf_expires = min (ct_exp ct) (og_expires g)\<rparr>)))))))"

definition verify :: "oauth_env \<Rightarrow> oauth_world \<Rightarrow> oauth_world \<Rightarrow> int \<Rightarrow> pystr \<Rightarrow> pystr option \<Rightarrow> oauth_db \<Rightarrow> oauth_db \<Rightarrow> oauth_error + verified" where
  "verify e w w' now tok expected db db' =
     bindR (claims_of e w now tok expected db) (\<lambda>ct. verified_principal e w w' now ct db db')"

definition revoke_token :: "oauth_env \<Rightarrow> oauth_world \<Rightarrow> int \<Rightarrow> pystr \<Rightarrow> pystr \<Rightarrow> pystr \<Rightarrow> oauth_db \<Rightarrow> oauth_error + oauth_db" where
  "revoke_token e w now tok cid secret db =
     bindR (ready_config e w db) (\<lambda>_.
     bindR (authenticate_client e cid secret db) (\<lambda>_.
       let ct = (if sql_count (\<lambda>c. c = 46) tok = 2 \<and> length tok \<le> 16384 then
                   (case oe_untrusted e tok of
                      None \<Rightarrow> None
                    | Some gid \<Rightarrow>
                        (case find_row (\<lambda>g. og_id g = gid \<and> og_client g = cid) (oa_grants db) of
                           None \<Rightarrow> None
                         | Some g \<Rightarrow> (case claims_of e w now tok (Some (og_resource g)) db of Inl _ \<Rightarrow> None | Inr ct \<Rightarrow> Some ct)))
                 else None);
           by_claims = (case ct of Some c \<Rightarrow> if ct_client c = cid then Some (ct_fid c) else None | None \<Rightarrow> None);
           family = (case by_claims of
                       Some f \<Rightarrow> Some f
                     | None \<Rightarrow>
                         (case find_row (\<lambda>r. rf_hash r = oe_hash e tok) (oa_refresh db) of
                            None \<Rightarrow> None
                          | Some r \<Rightarrow>
                              (case find_family db (rf_family r) of
                                 None \<Rightarrow> None
                               | Some f \<Rightarrow> (case find_grant db (fm_grant f) of
                                              None \<Rightarrow> None
                                            | Some g \<Rightarrow> if og_client g = cid then Some (rf_family r) else None))))
       in Inr (case family of None \<Rightarrow> db | Some fid \<Rightarrow> revoke_families now (\<lambda>f. fm_id f = fid \<and> live_family f) db)))"

definition edit_oauth_grant :: "(oauth_grant \<Rightarrow> oauth_grant) \<Rightarrow> oauth_grant \<Rightarrow> oauth_grant" where
  "edit_oauth_grant f g = (f g)\<lparr>og_id := og_id g, og_revision := og_revision g + 1\<rparr>"

definition retained_tools :: "oauth_grant \<Rightarrow> pystr list \<Rightarrow> (pystr \<times> granted_tool) list" where
  "retained_tools g ids = map (\<lambda>i. (i, the (map_of (og_tools g) i))) (remdups ids)"

definition narrow_grant :: "oauth_env \<Rightarrow> int \<Rightarrow> pystr \<Rightarrow> pystr \<Rightarrow> int \<Rightarrow> pystr list \<Rightarrow> int \<Rightarrow> int \<Rightarrow> int \<Rightarrow> bool \<Rightarrow> oauth_db \<Rightarrow> oauth_error + oauth_db" where
  "narrow_grant e now uid gid revision tools expires rate conc revoke db =
     (case find_row (\<lambda>g. og_id g = gid \<and> og_user g = uid) (oa_grants db) of
        None \<Rightarrow> Inl (OAuth_error (lit ''grant_not_found'') 404)
      | Some g \<Rightarrow>
          if og_revision g \<noteq> revision then Inl (OAuth_error (lit ''revision_conflict'') 409)
          else if \<not> revoke \<and> (og_revoked g \<noteq> None \<or> tools = [] \<or> \<not> set tools \<subseteq> fst ` set (og_tools g)
                  \<or> \<not> (now < expires \<and> expires \<le> og_expires g) \<or> \<not> (1 \<le> rate \<and> rate \<le> og_rate g)
                  \<or> \<not> (1 \<le> conc \<and> conc \<le> og_concurrency g)) then Inl (oerr ''grant_can_only_narrow'')
          else if revoke then
            Inr ((revoke_families now (\<lambda>f. fm_grant f = gid \<and> live_family f) db)
              \<lparr>oa_grants := update_rows (\<lambda>x. og_id x = gid)
                 (edit_oauth_grant (\<lambda>x. x\<lparr>og_revoked := (case og_revoked x of None \<Rightarrow> Some now | Some t \<Rightarrow> Some t)\<rparr>)) (oa_grants db)\<rparr>)
          else
            (let kept = retained_tools g tools; management = (og_resource g = mv_resource (management_config e db));
                 business = filter (\<lambda>s. s \<in> set (og_scopes g)) (granted_scopes False kept []);
                 scopes = (if management
                   then filter (\<lambda>s. s \<in> set (og_scopes g)) (sorted_set ([lit ''operations.manage'']
                     @ (if lit ''tools.invoke'' \<in> set business then [lit ''tools.invoke''] else [])
                     @ (if list_ex (\<lambda>(i, _). i \<in> set CREDENTIAL_MANAGEMENT_TOOL_IDS) kept then [lit ''credentials.manage.system''] else [])))
                   else business)
             in Inr (db\<lparr>oa_grants := update_rows (\<lambda>x. og_id x = gid)
                  (edit_oauth_grant (\<lambda>x. x\<lparr>og_tools := kept, og_scopes := scopes, og_expires := expires, og_rate := rate, og_concurrency := conc\<rparr>))
                  (oa_grants db)\<rparr>)))"

text \<open>
  The guarded updates with which \<^verbatim>\<open>update_scope\<close> and \<^verbatim>\<open>update_management_targets\<close> end; no row is changed unless the grant is unrevoked and at
  the expected revisions.
\<close>

definition commit_scope :: "pystr \<Rightarrow> pystr \<Rightarrow> int \<Rightarrow> (pystr \<times> granted_tool) list \<Rightarrow> server_policy list \<Rightarrow> int \<Rightarrow> int \<Rightarrow> int \<Rightarrow> oauth_db
    \<Rightarrow> oauth_error + oauth_db" where
  "commit_scope gid uid revision tools policies expires rate conc db =
     (let p = (\<lambda>g. og_id g = gid \<and> og_user g = uid \<and> og_revision g = revision \<and> og_revoked g = None) in
      if sql_count p (oa_grants db) \<noteq> 1 then Inl (OAuth_error (lit ''revision_conflict'') 409)
      else Inr (db\<lparr>oa_grants := update_rows p (edit_oauth_grant (\<lambda>g. g\<lparr>og_tools := tools, og_policies := policies, og_expires := expires,
             og_rate := rate, og_concurrency := conc\<rparr>)) (oa_grants db)\<rparr>))"

definition commit_targets :: "pystr \<Rightarrow> pystr \<Rightarrow> int \<Rightarrow> int \<Rightarrow> (pystr \<times> pystr list) list \<Rightarrow> oauth_db \<Rightarrow> oauth_error + oauth_db" where
  "commit_targets gid uid revision target_revision targets db =
     (let p = (\<lambda>g. og_id g = gid \<and> og_user g = uid \<and> og_revision g = revision \<and> og_target_revision g = target_revision \<and> og_revoked g = None) in
      if sql_count p (oa_grants db) \<noteq> 1 then Inl (OAuth_error (lit ''revision_conflict'') 409)
      else Inr (db\<lparr>oa_grants := update_rows p (edit_oauth_grant (\<lambda>g. g\<lparr>og_targets := targets, og_target_revision := og_target_revision g + 1\<rparr>))
             (oa_grants db)\<rparr>))"

section \<open>The server as a machine\<close>

text \<open>Every operation that changes the tables, with all its inputs; an operation that raises changes nothing.\<close>

datatype oauth_op =
    Rotate_key int pystr
  | Save_config oauth_world int bool pystr pystr int
  | Save_management oauth_world int bool int "pystr option option"
  | Create_client int pystr pystr client_fields
  | Update_client int pystr int bool client_fields "pystr option"
  | Admit int pystr pystr interaction_row
  | Release oauth_world "int \<Rightarrow> pystr \<Rightarrow> ticket option" int pystr pystr pystr
  | Deny oauth_world "int \<Rightarrow> pystr \<Rightarrow> ticket option" int pystr pystr pystr "pystr option"
  | Consent oauth_world "int \<Rightarrow> pystr \<Rightarrow> ticket option" int pystr pystr pystr pystr consent_input pystr pystr
  | Token oauth_world int pystr pystr pystr pystr token_request
  | Revoke oauth_world int pystr pystr pystr
  | Narrow int pystr pystr int "pystr list" int int int bool
  | Commit_scope pystr pystr int "(pystr \<times> granted_tool) list" "server_policy list" int int int
  | Commit_targets pystr pystr int int "(pystr \<times> pystr list) list"

text \<open>The transaction of \<^verbatim>\<open>consent_context\<close> that admits an authenticated interaction and stores its row.\<close>

definition admit_interaction :: "int \<Rightarrow> pystr \<Rightarrow> pystr \<Rightarrow> interaction_row \<Rightarrow> oauth_db \<Rightarrow> oauth_error + oauth_db" where
  "admit_interaction now uid cid row db =
     (let h = in_hash row; stored = find_row (\<lambda>i. in_hash i = h) (oa_interactions db) in
      if (case stored of Some i \<Rightarrow> in_completed i \<or> in_user i = Some uid | None \<Rightarrow> False) then Inr db
      else bindR (admit_authenticated now uid cid
                    (db\<lparr>oa_interactions := delete_rows (\<lambda>i. in_hash i = h) (oa_interactions db)\<rparr>)) (\<lambda>db1.
        Inr (db1\<lparr>oa_interactions := oa_interactions db1 @ [row\<lparr>in_user := Some uid, in_client := cid, in_completed := False, in_grant := []\<rparr>]\<rparr>)))"

definition settled :: "oauth_db \<Rightarrow> oauth_error + oauth_db \<Rightarrow> oauth_db" where
  "settled db r = (case r of Inl _ \<Rightarrow> db | Inr db' \<Rightarrow> db')"

fun oauth_exec :: "oauth_env \<Rightarrow> oauth_op \<Rightarrow> oauth_db \<Rightarrow> oauth_db" where
  "oauth_exec e (Rotate_key now kid) db = settled db (rotate_key now kid db)"
| "oauth_exec e (Save_config w now on issuer resource revision) db = settled db (save_config e w now on issuer resource revision db)"
| "oauth_exec e (Save_management w now on revision actor) db = settled db (save_management_config e w now on revision actor db)"
| "oauth_exec e (Create_client now cid secret q) db = settled db (create_client e now cid secret q db)"
| "oauth_exec e (Update_client now cid revision on q rotated) db = settled db (update_client e now cid revision on q rotated db)"
| "oauth_exec e (Admit now uid cid row) db = settled db (admit_interaction now uid cid row db)"
| "oauth_exec e (Release w unseal now tok browser csrf) db = settled db (release_interaction e w unseal now tok browser csrf db)"
| "oauth_exec e (Deny w unseal now tok browser csrf user) db = settled db (deny_consent e w unseal now tok browser csrf user db)"
| "oauth_exec e (Consent w unseal now tok browser csrf user ci code gid) db =
     settled db (consent e w unseal now tok browser csrf user ci code gid db)"
| "oauth_exec e (Token w now refresh fid cid secret q) db = fst (token e w now refresh fid cid secret q db)"
| "oauth_exec e (Revoke w now tok cid secret) db = settled db (revoke_token e w now tok cid secret db)"
| "oauth_exec e (Narrow now uid gid revision tools expires rate conc revoke) db =
     settled db (narrow_grant e now uid gid revision tools expires rate conc revoke db)"
| "oauth_exec e (Commit_scope gid uid revision tools policies expires rate conc) db =
     settled db (commit_scope gid uid revision tools policies expires rate conc db)"
| "oauth_exec e (Commit_targets gid uid revision target_revision targets) db =
     settled db (commit_targets gid uid revision target_revision targets db)"

definition oauth_run :: "oauth_env \<Rightarrow> oauth_op list \<Rightarrow> oauth_db \<Rightarrow> oauth_db" where
  "oauth_run e ops db = fold (oauth_exec e) ops db"

section \<open>What one operation may change\<close>

text \<open>
  A table may lose rows, change them within \<open>keep\<close>, and gain rows whose key is one of the secrets the operation brought.
\<close>

definition grows :: "('r \<Rightarrow> 'k) \<Rightarrow> ('r \<Rightarrow> 'r \<Rightarrow> bool) \<Rightarrow> 'k set \<Rightarrow> 'r list \<Rightarrow> 'r list \<Rightarrow> bool" where
  "grows key keep new rows rows' \<longleftrightarrow> (\<forall>r' \<in> set rows'. key r' \<in> new \<or> (\<exists>r \<in> set rows. key r' = key r \<and> keep r r'))"

definition keep_refresh :: "refresh_row \<Rightarrow> refresh_row \<Rightarrow> bool" where
  "keep_refresh r r' \<longleftrightarrow> rf_family r' = rf_family r \<and> (rf_consumed r \<noteq> None \<longrightarrow> rf_consumed r' \<noteq> None)"

definition keep_family :: "family_row \<Rightarrow> family_row \<Rightarrow> bool" where
  "keep_family f f' \<longleftrightarrow> fm_grant f' = fm_grant f \<and> fm_expires f' = fm_expires f \<and> set (fm_scopes f') \<subseteq> set (fm_scopes f)
     \<and> (fm_revoked f \<noteq> None \<longrightarrow> fm_revoked f' \<noteq> None)"

definition keep_code :: "code_row \<Rightarrow> code_row \<Rightarrow> bool" where
  "keep_code c c' \<longleftrightarrow> co_grant c' = co_grant c \<and> co_client c' = co_client c \<and> (co_consumed c \<noteq> None \<longrightarrow> co_consumed c' \<noteq> None)"

definition evolves :: "pystr set \<Rightarrow> pystr set \<Rightarrow> pystr set \<Rightarrow> oauth_db \<Rightarrow> oauth_db \<Rightarrow> bool" where
  "evolves R F C db db' \<longleftrightarrow> grows rf_hash keep_refresh R (oa_refresh db) (oa_refresh db')
     \<and> grows fm_id keep_family F (oa_families db) (oa_families db') \<and> grows co_hash keep_code C (oa_codes db) (oa_codes db')"

lemma keep_refl [simp]: "keep_refresh r r" "keep_family f f" "keep_code c c"
  by (simp_all add: keep_refresh_def keep_family_def keep_code_def)

lemma keep_trans:
  "keep_refresh r r' \<Longrightarrow> keep_refresh r' r'' \<Longrightarrow> keep_refresh r r''"
  "keep_family f f' \<Longrightarrow> keep_family f' f'' \<Longrightarrow> keep_family f f''"
  "keep_code c c' \<Longrightarrow> keep_code c' c'' \<Longrightarrow> keep_code c c''"
  by (auto simp: keep_refresh_def keep_family_def keep_code_def)

lemma grows_subset: "(\<And>r. keep r r) \<Longrightarrow> set rows' \<subseteq> set rows \<Longrightarrow> grows key keep new rows rows'"
  by (auto simp: grows_def)

lemma grows_update: "(\<And>r. keep r r) \<Longrightarrow> (\<And>r. r \<in> set rows \<Longrightarrow> p r \<Longrightarrow> key (f r) = key r \<and> keep r (f r)) \<Longrightarrow> grows key keep new rows (update_rows p f rows)"
  by (auto simp: grows_def set_update_rows)

lemma grows_insert: "grows key keep new rows rows' \<Longrightarrow> key x \<in> new \<Longrightarrow> grows key keep new rows (rows' @ [x])"
  by (auto simp: grows_def)

lemma grows_trans:
  assumes "\<And>a b c. keep a b \<Longrightarrow> keep b c \<Longrightarrow> keep a c" "grows key keep new rows rows'" "grows key keep new' rows' rows''"
  shows "grows key keep (new \<union> new') rows rows''"
  using assms unfolding grows_def by (metis (no_types, opaque_lifting) UnCI)

lemma evolves_trans: "evolves R F C db db' \<Longrightarrow> evolves R' F' C' db' db'' \<Longrightarrow> evolves (R \<union> R') (F \<union> F') (C \<union> C') db db''"
  unfolding evolves_def by (blast intro: grows_trans keep_trans)

lemma evolves_refl [simp]: "evolves R F C db db"
  by (simp add: evolves_def grows_subset)

lemma evolves_same:
  "oa_refresh db' = oa_refresh db \<Longrightarrow> oa_families db' = oa_families db \<Longrightarrow> set (oa_codes db') \<subseteq> set (oa_codes db) \<Longrightarrow> evolves R F C db db'"
  by (simp add: evolves_def grows_subset)

lemma revoke_families_simps [simp]:
  "oa_refresh (revoke_families now p db) = oa_refresh db" "oa_codes (revoke_families now p db) = oa_codes db"
  "oa_grants (revoke_families now p db) = oa_grants db" "oa_clients (revoke_families now p db) = oa_clients db"
  "oa_keys (revoke_families now p db) = oa_keys db" "oa_config (revoke_families now p db) = oa_config db"
  "oa_interactions (revoke_families now p db) = oa_interactions db" "oa_management (revoke_families now p db) = oa_management db"
  by (simp_all add: revoke_families_def)

lemma revoke_families_grows: "grows fm_id keep_family F (oa_families db) (oa_families (revoke_families now p db))"
  unfolding revoke_families_def by (simp, rule grows_update) (auto simp: keep_family_def)

lemma revoke_families_evolves [simp]: "evolves R F C db (revoke_families now p db)"
  by (simp add: evolves_def revoke_families_grows grows_subset)

lemma cleanup_fields [simp]:
  "oa_config (cleanup_interactions now db) = oa_config db" "oa_management (cleanup_interactions now db) = oa_management db"
  "oa_clients (cleanup_interactions now db) = oa_clients db" "oa_keys (cleanup_interactions now db) = oa_keys db"
  "oa_grants (cleanup_interactions now db) = oa_grants db"
  by (simp_all add: cleanup_interactions_def Let_def)

lemma cleanup_evolves: "evolves R F C db (cleanup_interactions now db)"
  by (auto simp: cleanup_interactions_def Let_def evolves_def intro!: grows_subset)

lemma complete_fields:
  assumes "complete_interaction now row cid user g db = Inr db'"
  shows "\<exists>is. db' = (cleanup_interactions now db)\<lparr>oa_interactions := is\<rparr>"
  using assms by (auto simp: complete_interaction_def Let_def split: if_splits)

lemma complete_evolves: "complete_interaction now row cid user g db = Inr db' \<Longrightarrow> evolves R F C db db'"
  using complete_fields [of now row cid user g db db'] cleanup_evolves [of R F C db now] by (auto simp: evolves_def)

text \<open>The two ways a branch of the exchange can end without an exception.\<close>

lemma exchange_codeE:
  assumes "exchange_code e w now fid client policy q db = Inr x"
  obtains (replay) c g where "find_row (\<lambda>c. co_hash c = oe_hash e (tq_code q)) (oa_codes db) = Some c" "co_client c = cl_id client"
      "active_grant e w now (co_grant c) client (tq_resource q) db = Inr g" "co_consumed c \<noteq> None"
      "x = Refused (revoke_families now (\<lambda>f. fm_grant f = og_id g \<and> live_family f) db)"
  | (new) c g scopes expires where "find_row (\<lambda>c. co_hash c = oe_hash e (tq_code q)) (oa_codes db) = Some c" "co_client c = cl_id client"
      "Some (co_redirect c) = tq_redirect q" "oe_pkce e (tq_verifier q) = co_challenge c" "now < co_expires c"
      "active_grant e w now (co_grant c) client (tq_resource q) db = Inr g" "co_consumed c = None" "find_family db fid = None"
      "scopes = sorted_set (filter (\<lambda>s. s \<in> set (cl_scopes client) \<and> s \<in> set (rp_scopes policy)) (og_scopes g))"
      "expires = min (now + REFRESH_TTL) (og_expires g)"
      "x = Exchanged (db\<lparr>oa_codes := update_rows (\<lambda>x. co_hash x = oe_hash e (tq_code q) \<and> co_consumed x = None) (\<lambda>x. x\<lparr>co_consumed := Some now\<rparr>) (oa_codes db),
         oa_families := oa_families db @ [\<lparr>fm_id = fid, fm_grant = og_id g, fm_scopes = scopes, fm_expires = expires, fm_revoked = None\<rparr>]\<rparr>)
         g (fid, expires) scopes"
proof -
  let ?h = "oe_hash e (tq_code q)"
  obtain c where c: "find_row (\<lambda>c. co_hash c = ?h) (oa_codes db) = Some c"
    using assms by (cases "find_row (\<lambda>c. co_hash c = ?h) (oa_codes db)") (simp_all add: exchange_code_def)
  have ok: "co_client c = cl_id client" "Some (co_redirect c) = tq_redirect q" "oe_pkce e (tq_verifier q) = co_challenge c"
    using assms by (simp_all add: exchange_code_def c split: if_splits)
  obtain g where g: "active_grant e w now (co_grant c) client (tq_resource q) db = Inr g"
    using assms by (cases "active_grant e w now (co_grant c) client (tq_resource q) db") (simp_all add: exchange_code_def c split: if_splits)
  show thesis
  proof (cases "co_consumed c = None")
    case True
    then have "now < co_expires c" "find_family db fid = None" using assms by (simp_all add: exchange_code_def c g Let_def split: if_splits)
    with True show thesis using assms by (intro new [OF c ok(1-3) _ g True _ refl refl]) (simp_all add: exchange_code_def c g Let_def split: if_splits)
  next
    case False
    with assms show thesis by (intro replay [OF c ok(1) g False]) (simp add: exchange_code_def c g Let_def split: if_splits)
  qed
qed

lemma exchange_refreshE:
  assumes "exchange_refresh e w now client policy q db = Inr x"
  obtains (refused) r f g where "find_row (\<lambda>r. rf_hash r = oe_hash e (tq_refresh q)) (oa_refresh db) = Some r"
      "find_family db (rf_family r) = Some f" "active_grant e w now (fm_grant f) client (tq_resource q) db = Inr g"
      "x = Refused (revoke_families now (\<lambda>x. fm_id x = fm_id f) db)"
  | (new) r f g scopes where "find_row (\<lambda>r. rf_hash r = oe_hash e (tq_refresh q)) (oa_refresh db) = Some r"
      "find_family db (rf_family r) = Some f" "active_grant e w now (fm_grant f) client (tq_resource q) db = Inr g"
      "rf_consumed r = None" "fm_revoked f = None" "now < fm_expires f" "scopes \<noteq> []" "set scopes \<subseteq> set (fm_scopes f) \<inter> set (og_scopes g) \<inter> set (cl_scopes client) \<inter> set (rp_scopes policy)"
      "sql_count (\<lambda>x. rf_family x = fm_id f) (oa_refresh db) < MAX_FAMILY_TOKENS"
      "x = Exchanged (db\<lparr>oa_refresh := update_rows (\<lambda>x. rf_hash x = oe_hash e (tq_refresh q)) (\<lambda>x. x\<lparr>rf_consumed := Some now\<rparr>) (oa_refresh db),
         oa_families := update_rows (\<lambda>x. fm_id x = fm_id f) (\<lambda>x. x\<lparr>fm_scopes := scopes\<rparr>) (oa_families db)\<rparr>)
         g (fm_id f, fm_expires f) scopes"
proof -
  let ?h = "oe_hash e (tq_refresh q)"
  obtain r where r: "find_row (\<lambda>r. rf_hash r = ?h) (oa_refresh db) = Some r"
    using assms by (cases "find_row (\<lambda>r. rf_hash r = ?h) (oa_refresh db)") (simp_all add: exchange_refresh_def)
  obtain f where f: "find_family db (rf_family r) = Some f"
    using assms by (cases "find_family db (rf_family r)") (simp_all add: exchange_refresh_def r)
  obtain g where g: "active_grant e w now (fm_grant f) client (tq_resource q) db = Inr g"
    using assms by (cases "active_grant e w now (fm_grant f) client (tq_resource q) db") (simp_all add: exchange_refresh_def r f)
  note body = assms [unfolded exchange_refresh_def Let_def r f option.case g bindR_simps]
  show thesis
  proof (cases "rf_consumed r = None")
    case True
    let ?c = "filter (\<lambda>s. s \<in> set (og_scopes g) \<and> s \<in> set (cl_scopes client) \<and> s \<in> set (rp_scopes policy)) (fm_scopes f)"
    from body True have live: "fm_revoked f = None" "now < fm_expires f" by (simp_all split: if_splits)
    obtain scopes where s: "(case tq_scope q of None \<Rightarrow> Inr (sorted_set ?c) | Some v \<Rightarrow> scope_set v) = Inr scopes"
      using body True live by (cases "case tq_scope q of None \<Rightarrow> Inr (sorted_set ?c) | Some v \<Rightarrow> scope_set v") simp_all
    have sc: "scopes \<noteq> []" "set scopes \<subseteq> set ?c" using body True live s by (simp_all split: if_splits)
    show thesis
    proof (cases "sql_count (\<lambda>x. rf_family x = fm_id f) (oa_refresh db) < MAX_FAMILY_TOKENS")
      case small: True
      show thesis by (rule new [OF r f g True live sc(1) _ small]) (use body True live s sc small in \<open>auto split: if_splits\<close>)
    next
      case False
      show thesis by (rule refused [OF r f g]) (use body True live s sc False in \<open>simp split: if_splits\<close>)
    qed
  next
    case False
    show thesis by (rule refused [OF r f g]) (use body False in simp)
  qed
qed

lemma consent_evolves:
  assumes "consent e w unseal now tok browser csrf user ci code gid db = Inr db'"
  shows "evolves {} {} {oe_hash e code} db db'"
proof -
  obtain db1 row cid where db1: "complete_interaction now row cid (Some user) gid db1 = Inr db'"
      "oa_refresh db1 = oa_refresh db" "oa_families db1 = oa_families db" "\<exists>x. oa_codes db1 = oa_codes db @ [x] \<and> co_hash x = oe_hash e code"
    using assms by (auto simp: consent_def Let_def split: if_splits prod.splits)
  then obtain x where x: "oa_codes db1 = oa_codes db @ [x]" "co_hash x \<in> {oe_hash e code}" by auto
  have "evolves {} {} {oe_hash e code} db db1"
    using x(2) by (simp add: evolves_def db1(2,3) x(1) grows_subset grows_insert)
  from evolves_trans [OF this complete_evolves [OF db1(1), of "{}" "{}" "{}"]] show ?thesis by simp
qed

lemma exchange_code_evolves:
  assumes "exchange_code e w now fid client policy q db = Inr x"
  shows "case x of Refused db' \<Rightarrow> evolves {} {} {} db db' | Exchanged db' g family scopes \<Rightarrow> evolves {} {fid} {} db db'"
  using assms
proof (cases rule: exchange_codeE)
  case (new c g scopes expires)
  have "grows co_hash keep_code {} (oa_codes db) (update_rows (\<lambda>x. co_hash x = oe_hash e (tq_code q) \<and> co_consumed x = None) (\<lambda>x. x\<lparr>co_consumed := Some now\<rparr>) (oa_codes db))"
    by (rule grows_update) (simp_all add: keep_code_def)
  with new(11) show ?thesis by (simp add: evolves_def grows_subset grows_insert)
qed simp

lemma exchange_refresh_evolves:
  assumes "exchange_refresh e w now client policy q db = Inr x" and uniq: "distinct (map fm_id (oa_families db))"
  shows "case x of Refused db' \<Rightarrow> evolves {} {} {} db db' | Exchanged db' g family scopes \<Rightarrow> evolves {} {} {} db db'"
  using assms(1)
proof (cases rule: exchange_refreshE)
  case (new r f g scopes)
  have f: "f \<in> set (oa_families db)" using new(2) by (auto simp: find_family_def dest: find_row_SomeD)
  have "grows fm_id keep_family {} (oa_families db) (update_rows (\<lambda>x. fm_id x = fm_id f) (\<lambda>x. x\<lparr>fm_scopes := scopes\<rparr>) (oa_families db))"
    using new(8) unique_key_eq [OF uniq _ f] by (intro grows_update) (auto simp: keep_family_def)
  moreover have "grows rf_hash keep_refresh {} (oa_refresh db) (update_rows (\<lambda>x. rf_hash x = oe_hash e (tq_refresh q)) (\<lambda>x. x\<lparr>rf_consumed := Some now\<rparr>) (oa_refresh db))"
    by (rule grows_update) (simp_all add: keep_refresh_def)
  ultimately show ?thesis using new(10) by (simp add: evolves_def grows_subset)
qed simp

text \<open>What a token request does when it answers: the branch it took and what it signed.\<close>

lemma tokenE:
  assumes "token e w now refresh fid cid secret q db = (db', r)"
  obtains (raised) x where "r = Inl x" "db' = db"
  | (refused) client policy where "authenticate_client e cid secret db = Inr client" "resource_policy_of e w db (tq_resource q) = Inr policy"
      "exchange_code e w now fid client policy q db = Inr (Refused db') \<or> exchange_refresh e w now client policy q db = Inr (Refused db')"
      "r = Inl (oerr ''invalid_grant'')"
  | (issued) client policy db1 g family scopes ct where "authenticate_client e cid secret db = Inr client"
      "resource_policy_of e w db (tq_resource q) = Inr policy"
      "tq_grant_type q = lit ''authorization_code'' \<and> exchange_code e w now fid client policy q db = Inr (Exchanged db1 g family scopes)
       \<or> tq_grant_type q = lit ''refresh_token'' \<and> exchange_refresh e w now client policy q db = Inr (Exchanged db1 g family scopes)"
      "sign e now g family scopes db1 = Inr ct" "oe_hash e refresh \<notin> rf_hash ` set (oa_refresh db1)"
      "db' = db1\<lparr>oa_refresh := oa_refresh db1 @ [\<lparr>rf_hash = oe_hash e refresh, rf_family = fst family, rf_consumed = None, rf_created = now\<rparr>]\<rparr>"
      "r = Inr \<lparr>tr_claims = ct, tr_expires_in = ct_exp ct - now, tr_refresh = refresh, tr_scopes = scopes, tr_resource = tq_resource q\<rparr>"
proof (cases "token_transaction e w now refresh fid cid secret q db")
  case (Inl x)
  then show thesis using assms by (intro raised [of x]) (simp_all add: token_def)
next
  case (Inr y)
  then have t: "token_transaction e w now refresh fid cid secret q db = Inr (db', r)" using assms by (simp add: token_def)
  obtain client policy where cp: "authenticate_client e cid secret db = Inr client" "resource_policy_of e w db (tq_resource q) = Inr policy"
    using t by (auto simp: token_transaction_def)
  let ?x = "if tq_grant_type q = lit ''authorization_code'' then exchange_code e w now fid client policy q db
     else if tq_grant_type q = lit ''refresh_token'' then exchange_refresh e w now client policy q db else Inl (oerr ''unsupported_grant_type'')"
  from t cp obtain x where x: "?x = Inr x" and body: "(case x of Refused db' \<Rightarrow> Inr (db', Inl (oerr ''invalid_grant''))
         | Exchanged db' g family scopes \<Rightarrow>
             bindR (sign e now g family scopes db') (\<lambda>ct.
               if oe_hash e refresh \<in> rf_hash ` set (oa_refresh db') then Inl Constraint_failed
               else Inr (db'\<lparr>oa_refresh := oa_refresh db' @ [\<lparr>rf_hash = oe_hash e refresh, rf_family = fst family, rf_consumed = None, rf_created = now\<rparr>]\<rparr>,
                      Inr \<lparr>tr_claims = ct, tr_expires_in = ct_exp ct - now, tr_refresh = refresh, tr_scopes = scopes, tr_resource = tq_resource q\<rparr>))) = Inr (db', r)"
    by (auto simp: token_transaction_def split: if_splits)
  show thesis
  proof (cases x)
    case (Refused db1)
    with body x show thesis by (intro refused [OF cp]) (simp_all split: if_splits)
  next
    case (Exchanged db1 g family scopes)
    with body obtain ct where ct: "sign e now g family scopes db1 = Inr ct" by auto
    show thesis by (rule issued [OF cp _ ct]) (use body x Exchanged ct in \<open>simp_all split: if_splits\<close>)
  qed
qed

lemma token_evolves:
  assumes "token e w now refresh fid cid secret q db = (db', r)" and uniq: "distinct (map fm_id (oa_families db))"
  shows "evolves {oe_hash e refresh} {fid} {} db db'"
  using assms(1)
proof (cases rule: tokenE)
  case (refused client policy)
  then have "evolves {} {} {} db db'"
    using exchange_code_evolves [of e w now fid client policy q db] exchange_refresh_evolves [OF _ uniq, of e w now client policy q] by fastforce
  from evolves_trans [OF this evolves_refl] show ?thesis by simp
next
  case (issued client policy db1 g family scopes ct)
  then have "evolves {} {fid} {} db db1"
    using exchange_code_evolves [of e w now fid client policy q db] exchange_refresh_evolves [OF _ uniq, of e w now client policy q]
      evolves_trans [OF _ evolves_refl, of "{}" "{}" "{}" db db1 "{}" "{fid}" "{}"] by fastforce
  moreover have "evolves {oe_hash e refresh} {} {} db1 db'"
    by (simp add: issued(6) evolves_def grows_subset grows_insert)
  ultimately show ?thesis by (metis evolves_trans insert_is_Un sup_bot.right_neutral sup_commute)
qed simp

definition op_refresh :: "oauth_env \<Rightarrow> oauth_op \<Rightarrow> pystr set" where
  "op_refresh e op = (case op of Token w now refresh fid cid secret q \<Rightarrow> {oe_hash e refresh} | _ \<Rightarrow> {})"

definition op_family :: "oauth_op \<Rightarrow> pystr set" where
  "op_family op = (case op of Token w now refresh fid cid secret q \<Rightarrow> {fid} | _ \<Rightarrow> {})"

definition op_code :: "oauth_env \<Rightarrow> oauth_op \<Rightarrow> pystr set" where
  "op_code e op = (case op of Consent w unseal now tok browser csrf user ci code gid \<Rightarrow> {oe_hash e code} | _ \<Rightarrow> {})"

lemma settled_evolves: "(\<And>db'. r = Inr db' \<Longrightarrow> evolves R F C db db') \<Longrightarrow> evolves R F C db (settled db r)"
  by (cases r) (simp_all add: settled_def)

lemma revoke_then_evolves:
  "oa_refresh db' = oa_refresh db \<Longrightarrow> oa_families db' = oa_families (revoke_families now p db) \<Longrightarrow> set (oa_codes db') \<subseteq> set (oa_codes db)
   \<Longrightarrow> evolves R F C db db'"
  by (simp add: evolves_def revoke_families_grows grows_subset)

lemma admit_evolves: "admit_interaction now uid cid row db = Inr db' \<Longrightarrow> evolves R F C db db'"
proof -
  assume "admit_interaction now uid cid row db = Inr db'"
  then consider "db' = db" | "\<exists>is is'. db' = (cleanup_interactions now (db\<lparr>oa_interactions := is\<rparr>))\<lparr>oa_interactions := is'\<rparr>"
    by (auto simp: admit_interaction_def admit_authenticated_def Let_def split: if_splits)
  then show ?thesis
  proof cases
    case 2
    then obtain "is" is' where "db' = (cleanup_interactions now (db\<lparr>oa_interactions := is\<rparr>))\<lparr>oa_interactions := is'\<rparr>" by blast
    with cleanup_evolves [of R F C "db\<lparr>oa_interactions := is\<rparr>" now] show ?thesis by (simp add: evolves_def)
  qed simp
qed

section \<open>Invariant\<close>

definition live_token :: "pystr \<Rightarrow> refresh_row \<Rightarrow> bool" where
  "live_token fid r \<longleftrightarrow> rf_family r = fid \<and> rf_consumed r = None"

text \<open>The keys of the tables and the references between them.\<close>

definition tables_linked :: "oauth_db \<Rightarrow> bool" where
  "tables_linked db \<longleftrightarrow>
     distinct (map cl_id (oa_clients db)) \<and> distinct (map og_id (oa_grants db)) \<and> distinct (map co_hash (oa_codes db))
     \<and> distinct (map fm_id (oa_families db)) \<and> distinct (map rf_hash (oa_refresh db)) \<and> distinct (map in_hash (oa_interactions db))
     \<and> co_grant ` set (oa_codes db) \<subseteq> og_id ` set (oa_grants db) \<and> fm_grant ` set (oa_families db) \<subseteq> og_id ` set (oa_grants db)
     \<and> rf_family ` set (oa_refresh db) \<subseteq> fm_id ` set (oa_families db)"

definition keys_ok :: "oauth_db \<Rightarrow> bool" where
  "keys_ok db \<longleftrightarrow> distinct (map k_kid (oa_keys db)) \<and> length (oa_keys db) \<le> 10 \<and> sql_count k_active (oa_keys db) \<le> 1
     \<and> (cf_enabled (store_config db) \<longrightarrow> has_active_key db)"

definition limits_ok :: "oauth_db \<Rightarrow> bool" where
  "limits_ok db \<longleftrightarrow> length (oa_clients db) \<le> 100 \<and> (\<forall>u. sql_count (\<lambda>g. og_user g = u) (oa_grants db) \<le> 1000)
     \<and> (\<forall>f. sql_count (live_token f) (oa_refresh db) \<le> 1) \<and> (\<forall>f. sql_count (\<lambda>r. rf_family r = f) (oa_refresh db) \<le> MAX_FAMILY_TOKENS)"

definition oauth_ok :: "oauth_db \<Rightarrow> bool" where
  "oauth_ok db \<longleftrightarrow> tables_linked db \<and> keys_ok db \<and> limits_ok db"

lemma sql_count_delete [simp]: "sql_count p (delete_rows q xs) \<le> sql_count p xs"
  unfolding sql_count_def delete_rows_def filter_filter by (induction xs) auto

lemma sql_count_append [simp]: "sql_count p (xs @ [x]) = sql_count p xs + (if p x then 1 else 0)"
  by (simp add: sql_count_def)

lemma sql_count_update: "(\<And>r. r \<in> set xs \<Longrightarrow> q r \<Longrightarrow> p (f r) = p r) \<Longrightarrow> sql_count p (update_rows q f xs) = sql_count p xs"
  unfolding sql_count_def by (induction xs) (auto simp: update_rows_simps update_rows_def)

lemma sql_count_update_le: "(\<And>r. r \<in> set xs \<Longrightarrow> q r \<Longrightarrow> p (f r) \<Longrightarrow> p r) \<Longrightarrow> sql_count p (update_rows q f xs) \<le> sql_count p xs"
  unfolding sql_count_def by (induction xs) (auto simp: update_rows_simps update_rows_def le_Suc_eq)

lemma sql_count_le_cong: "sql_count p xs \<le> n \<Longrightarrow> sql_count p (delete_rows q xs) \<le> n"
  using sql_count_delete order_trans by blast

lemma image_delete_subset: "k ` set rows \<subseteq> S \<Longrightarrow> k ` set (delete_rows p rows) \<subseteq> S"
  by auto

lemma revoke_families_ids [simp]:
  "map fm_id (oa_families (revoke_families now p db)) = map fm_id (oa_families db)"
  "fm_id ` set (oa_families (revoke_families now p db)) = fm_id ` set (oa_families db)"
  "fm_grant ` set (oa_families (revoke_families now p db)) = fm_grant ` set (oa_families db)"
  by (simp_all add: revoke_families_def map_update_rows image_update_rows)

lemma oauth_okD:
  assumes "oauth_ok db"
  shows "tables_linked db" "keys_ok db" "limits_ok db" "distinct (map fm_id (oa_families db))" "distinct (map rf_hash (oa_refresh db))"
    "distinct (map co_hash (oa_codes db))" "distinct (map og_id (oa_grants db))"
  using assms by (auto simp: oauth_ok_def tables_linked_def)

text \<open>Operations that only revoke families, shrink the codes or replace interactions.\<close>

lemma oauth_ok_shrink:
  assumes "oauth_ok db" and "db' = db\<lparr>oa_families := oa_families (revoke_families now p db), oa_codes := delete_rows q (oa_codes db),
      oa_interactions := ints, oa_management := m\<rparr>" and "distinct (map in_hash ints)"
  shows "oauth_ok db'"
proof -
  have "store_config db' = store_config db" "has_active_key db' = has_active_key db" by (simp_all add: assms(2) store_config_def has_active_key_def)
  then show ?thesis
    using assms(1,3) by (auto simp: assms(2) oauth_ok_def tables_linked_def keys_ok_def limits_ok_def distinct_delete_rows)
qed

lemma delete_none [simp]: "delete_rows (\<lambda>_. False) xs = xs"
  by (simp add: delete_rows_def)

lemma delete_all [simp]: "delete_rows (\<lambda>_. True) xs = []"
  by (simp add: delete_rows_def)

lemma revoke_families_ok: "oauth_ok db \<Longrightarrow> oauth_ok (revoke_families now p db)"
  by (rule oauth_ok_shrink [where q = "\<lambda>_. False" and m = "oa_management db" and ints = "oa_interactions db"])
    (auto simp: revoke_families_def oauth_ok_def tables_linked_def)

lemma rotate_key_ok:
  assumes ok: "oauth_ok db" and run: "rotate_key now kid db = Inr db'"
  shows "oauth_ok db'"
proof -
  define ks where "ks = delete_rows (\<lambda>k. \<not> k_active k \<and> (case k_retire k of None \<Rightarrow> False | Some t \<Rightarrow> t \<le> now)) (oa_keys db)"
  let ?new = "\<lparr>k_kid = kid, k_active = True, k_retire = None, k_created = now\<rparr>"
  have k: "length ks < 10" "kid \<notin> k_kid ` set ks"
    and db': "db' = db\<lparr>oa_keys := update_rows k_active (\<lambda>k. k\<lparr>k_active := False, k_retire := Some (now + ACCESS_TTL)\<rparr>) ks @ [?new]\<rparr>"
    using run by (auto simp: rotate_key_def ks_def [symmetric] Let_def split: if_splits)
  have "distinct (map k_kid ks)" using ok by (simp add: oauth_ok_def keys_ok_def ks_def distinct_delete_rows)
  moreover have "sql_count k_active (update_rows k_active (\<lambda>k. k\<lparr>k_active := False, k_retire := Some (now + ACCESS_TTL)\<rparr>) ks) = 0"
    by (auto simp: sql_count_def filter_empty_conv set_update_rows)
  ultimately show ?thesis
    using ok k by (auto simp: db' oauth_ok_def tables_linked_def keys_ok_def limits_ok_def map_update_rows image_update_rows has_active_key_def)
qed

lemma save_config_ok:
  assumes ok: "oauth_ok db" and run: "save_config e w now on issuer resource revision db = Inr db'"
  shows "oauth_ok db'"
proof -
  define db1 where "db1 = (if cf_issuer (store_config db) \<noteq> issuer \<or> cf_resource (store_config db) \<noteq> resource \<or> \<not> on then shut_down now db else db)"
  have key: "on \<Longrightarrow> has_active_key db"
    and db': "db' = db1\<lparr>oa_config := Some \<lparr>cf_enabled = on, cf_issuer = issuer, cf_resource = resource, cf_revision = revision + 1\<rparr>\<rparr>"
    using run by (auto simp: save_config_def db1_def Let_def split: if_splits option.splits)
  have "oauth_ok (shut_down now db)"
    by (rule oauth_ok_shrink [OF ok, where q = "\<lambda>_. True" and ints = "[]" and now = now and p = live_family]) (auto simp: shut_down_def revoke_families_def)
  then have "oauth_ok db1" using ok by (simp add: db1_def)
  moreover have "has_active_key db1 = has_active_key db" by (simp add: db1_def shut_down_def has_active_key_def)
  ultimately show ?thesis
    using key by (auto simp: db' oauth_ok_def tables_linked_def keys_ok_def limits_ok_def store_config_def has_active_key_def)
qed

lemma save_management_config_ok:
  assumes ok: "oauth_ok db" and run: "save_management_config e w now on revision actor db = Inr db'"
  shows "oauth_ok db'"
proof -
  let ?p = "\<lambda>f. live_family f \<and> grant_families db (\<lambda>g. og_resource g = mv_resource (management_config e db)) f"
  have "oa_families db' = oa_families (revoke_families now (\<lambda>f. \<not> on \<and> ?p f) db)" "oa_codes db' = delete_rows (\<lambda>c. \<not> on \<and> co_resource c = mv_resource (management_config e db)) (oa_codes db)"
    "db' = db\<lparr>oa_families := oa_families db', oa_codes := oa_codes db', oa_interactions := oa_interactions db, oa_management := oa_management db'\<rparr>"
    using run by (cases on; auto simp: save_management_config_def Let_def revoke_families_def update_rows_def split: if_splits option.splits)+
  moreover have "distinct (map in_hash (oa_interactions db))" using ok by (simp add: oauth_ok_def tables_linked_def)
  ultimately show ?thesis by (metis oauth_ok_shrink [OF ok])
qed

lemma create_client_ok:
  assumes ok: "oauth_ok db" and run: "create_client e now cid secret q db = Inr db'"
  shows "oauth_ok db'"
proof -
  obtain c where c: "db' = db\<lparr>oa_clients := oa_clients db @ [c]\<rparr>" "cl_id c = cid" "length (oa_clients db) < 100" "find_client db cid = None"
    using run by (auto simp: create_client_def Let_def split: if_splits)
  then have "cid \<notin> cl_id ` set (oa_clients db)" by (auto simp: find_client_def find_row_None_iff)
  with ok c show ?thesis
    by (auto simp: oauth_ok_def tables_linked_def keys_ok_def limits_ok_def store_config_def has_active_key_def)
qed

lemma update_client_ok:
  assumes ok: "oauth_ok db" and run: "update_client e now cid revision on q rotated db = Inr db'"
  shows "oauth_ok db'"
proof -
  obtain c resources where c: "db' = (if \<not> on \<or> rotated \<noteq> None
        then revoke_families now (\<lambda>f. grant_families db (\<lambda>g. og_client g = cid) f \<and> live_family f) db else db)
      \<lparr>oa_clients := update_rows (\<lambda>x. cl_id x = cid) (edit_client e (q, on, rotated, resources)) (oa_clients db),
       oa_codes := delete_rows (\<lambda>x. co_client x = cid) (oa_codes db)\<rparr>"
    using run by (auto simp: update_client_def Let_def split: if_splits option.splits)
  have "cl_id (edit_client e v x) = cl_id x" for v x by (simp add: edit_client_def split: prod.splits)
  with ok show ?thesis
    by (auto simp: c oauth_ok_def tables_linked_def keys_ok_def limits_ok_def store_config_def has_active_key_def map_update_rows
        image_update_rows distinct_delete_rows)
qed

lemma cleanup_ok: "oauth_ok db \<Longrightarrow> oauth_ok (cleanup_interactions now db)"
proof -
  assume ok: "oauth_ok db"
  have same: "store_config (cleanup_interactions now db) = store_config db" "has_active_key (cleanup_interactions now db) = has_active_key db"
    by (simp_all add: store_config_def has_active_key_def)
  have link: "rf_family r \<in> fm_id ` {f \<in> set (oa_families db). \<not> fm_expires f < now - ACCESS_TTL}"
    if "r \<in> set (oa_refresh db)" "rf_family r \<notin> fm_id ` {f \<in> set (oa_families db). fm_expires f < now - ACCESS_TTL}" for r
  proof -
    have "rf_family r \<in> fm_id ` set (oa_families db)" using ok that(1) by (simp add: oauth_ok_def tables_linked_def image_subset_iff)
    then obtain f where f: "rf_family r = fm_id f" "f \<in> set (oa_families db)" by (rule imageE)
    have "fm_id f \<in> fm_id ` {f \<in> set (oa_families db). fm_expires f < now - ACCESS_TTL}" if "fm_expires f < now - ACCESS_TTL"
      using f(2) that by (intro imageI) simp
    with that(2) f have "\<not> fm_expires f < now - ACCESS_TTL" by metis
    with f(2) show ?thesis unfolding f(1) by (intro imageI) simp
  qed
  have tabs: "oa_refresh (cleanup_interactions now db) =
      delete_rows (\<lambda>r. rf_family r \<in> fm_id ` {f \<in> set (oa_families db). fm_expires f < now - ACCESS_TTL}) (oa_refresh db)"
    "oa_families (cleanup_interactions now db) = delete_rows (\<lambda>f. fm_expires f < now - ACCESS_TTL) (oa_families db)"
    "oa_codes (cleanup_interactions now db) = delete_rows (\<lambda>c. co_expires c < now - ACCESS_TTL) (oa_codes db)"
    "oa_interactions (cleanup_interactions now db) = delete_rows (\<lambda>i. in_expires i \<le> now) (oa_interactions db)"
    by (simp_all add: cleanup_interactions_def Let_def)
  have "limits_ok (cleanup_interactions now db)" "keys_ok (cleanup_interactions now db)"
    using ok by (simp_all add: oauth_ok_def limits_ok_def keys_ok_def same tabs sql_count_le_cong)
  moreover have "tables_linked (cleanup_interactions now db)"
    using ok link by (simp add: oauth_ok_def tables_linked_def tabs distinct_delete_rows image_subset_iff)
  ultimately show ?thesis by (simp add: oauth_ok_def)
qed

lemma interactions_ok: "oauth_ok db \<Longrightarrow> distinct (map in_hash ints) \<Longrightarrow> oauth_ok (db\<lparr>oa_interactions := ints\<rparr>)"
  by (auto simp: oauth_ok_def tables_linked_def keys_ok_def limits_ok_def store_config_def has_active_key_def)

lemma interactions_distinct: "oauth_ok db \<Longrightarrow> distinct (map in_hash (oa_interactions db))"
  by (simp add: oauth_ok_def tables_linked_def)

lemma complete_ok:
  assumes ok: "oauth_ok db" and run: "complete_interaction now row cid user g db = Inr db'"
  shows "oauth_ok db'"
proof -
  let ?db1 = "cleanup_interactions now db"
  have ok1: "oauth_ok ?db1" by (rule cleanup_ok [OF ok])
  have "db' = ?db1\<lparr>oa_interactions := (if list_ex (\<lambda>i. in_hash i = in_hash row) (oa_interactions ?db1)
      then update_rows (\<lambda>i. in_hash i = in_hash row) (\<lambda>i. i\<lparr>in_completed := True, in_grant := g, in_user := user\<rparr>) (oa_interactions ?db1)
      else oa_interactions ?db1 @ [row\<lparr>in_completed := True, in_grant := g, in_user := user, in_client := cid\<rparr>])\<rparr>"
    using run by (auto simp: complete_interaction_def Let_def split: if_splits)
  moreover have "in_hash row \<notin> in_hash ` set (oa_interactions ?db1)" if "\<not> list_ex (\<lambda>i. in_hash i = in_hash row) (oa_interactions ?db1)"
    proof
    assume "in_hash row \<in> in_hash ` set (oa_interactions ?db1)"
    then obtain x where x: "in_hash row = in_hash x" "x \<in> set (oa_interactions ?db1)" by (rule imageE)
    from that have "\<forall>i \<in> set (oa_interactions ?db1). in_hash i \<noteq> in_hash row" by (simp add: list_ex_iff)
    from bspec [OF this x(2)] x(1) show False by simp
  qed
  ultimately show ?thesis
    using interactions_distinct [OF ok1]
    by (cases "list_ex (\<lambda>i. in_hash i = in_hash row) (oa_interactions ?db1)") (simp_all add: interactions_ok [OF ok1] map_update_rows)
qed

lemma admit_ok:
  assumes ok: "oauth_ok db" and run: "admit_interaction now uid cid row db = Inr db'"
  shows "oauth_ok db'"
proof (cases "db' = db")
  case False
  let ?d = "db\<lparr>oa_interactions := delete_rows (\<lambda>i. in_hash i = in_hash row) (oa_interactions db)\<rparr>"
  let ?d1 = "cleanup_interactions now ?d"
  have ok1: "oauth_ok ?d1" using interactions_distinct [OF ok] by (intro cleanup_ok interactions_ok [OF ok]) (simp add: distinct_delete_rows)
  have "db' = ?d1\<lparr>oa_interactions := oa_interactions ?d1 @ [row\<lparr>in_user := Some uid, in_client := cid, in_completed := False, in_grant := []\<rparr>]\<rparr>"
    using run False by (auto simp: admit_interaction_def admit_authenticated_def Let_def split: if_splits)
  moreover have "in_hash row \<notin> in_hash ` set (oa_interactions ?d1)" by (auto simp: cleanup_interactions_def Let_def)
  ultimately show ?thesis using interactions_distinct [OF ok1] by (auto intro!: interactions_ok [OF ok1])
qed (simp add: ok)

lemma consent_ok:
  assumes ok: "oauth_ok db" and run: "consent e w unseal now tok browser csrf user ci code gid db = Inr db'"
  shows "oauth_ok db'"
proof -
  obtain row cid g c where fin: "complete_interaction now row cid (Some user) gid (db\<lparr>oa_grants := oa_grants db @ [g], oa_codes := oa_codes db @ [c]\<rparr>) = Inr db'"
    and g: "og_id g = gid" "og_user g = user" "co_grant c = gid" "co_hash c = oe_hash e code" "find_grant db gid = None"
      "oe_hash e code \<notin> co_hash ` set (oa_codes db)" "sql_count (\<lambda>g. og_user g = user) (oa_grants db) < 1000"
    using run by (auto simp: consent_def Let_def split: if_splits prod.splits)
  have "gid \<notin> og_id ` set (oa_grants db)" using g(5) by (auto simp: find_grant_def find_row_None_iff)
  then have "oauth_ok (db\<lparr>oa_grants := oa_grants db @ [g], oa_codes := oa_codes db @ [c]\<rparr>)"
    using ok g by (auto simp: oauth_ok_def tables_linked_def keys_ok_def limits_ok_def store_config_def has_active_key_def)
  then show ?thesis by (rule complete_ok [OF _ fin])
qed

lemma grants_edit_ok:
  assumes "oauth_ok db" and "\<And>x. og_id (f x) = og_id x \<and> og_user (f x) = og_user x"
  shows "oauth_ok (db\<lparr>oa_grants := update_rows p f (oa_grants db)\<rparr>)"
  using assms by (auto simp: oauth_ok_def tables_linked_def keys_ok_def limits_ok_def store_config_def has_active_key_def map_update_rows
      image_update_rows sql_count_update)

lemma narrow_grant_ok:
  assumes ok: "oauth_ok db" and run: "narrow_grant e now uid gid revision tools expires rate conc revoke db = Inr db'"
  shows "oauth_ok db'"
proof (cases revoke)
  case True
  let ?d = "revoke_families now (\<lambda>f. fm_grant f = gid \<and> live_family f) db"
  obtain f where "db' = ?d\<lparr>oa_grants := update_rows (\<lambda>x. og_id x = gid) (edit_oauth_grant f) (oa_grants ?d)\<rparr>" "\<And>x. og_user (f x) = og_user x"
    using run True by (auto simp: narrow_grant_def Let_def split: if_splits option.splits)
  moreover from this have "oauth_ok (?d\<lparr>oa_grants := update_rows (\<lambda>x. og_id x = gid) (edit_oauth_grant f) (oa_grants ?d)\<rparr>)"
    by (intro grants_edit_ok revoke_families_ok ok) (simp add: edit_oauth_grant_def)
  ultimately show ?thesis by simp
next
  case False
  obtain f where "db' = db\<lparr>oa_grants := update_rows (\<lambda>x. og_id x = gid) (edit_oauth_grant f) (oa_grants db)\<rparr>" "\<And>x. og_user (f x) = og_user x"
    using run False by (auto simp: narrow_grant_def Let_def split: if_splits option.splits)
  then show ?thesis by (auto simp: edit_oauth_grant_def intro!: grants_edit_ok ok)
qed

lemma refused_ok:
  assumes "oauth_ok db" and "exchange_code e w now fid client policy q db = Inr (Refused db') \<or> exchange_refresh e w now client policy q db = Inr (Refused db')"
  shows "oauth_ok db'"
  using assms(2) by (elim disjE exchange_codeE exchange_refreshE) (auto intro: revoke_families_ok assms(1))

lemma active_grantE:
  assumes "active_grant e w now gid client resource db = Inr g"
  obtains policy u where "resource_policy_of e w db resource = Inr policy" "find_grant db gid = Some g" "ow_users w (og_user g) = Some u"
    "us_active u" "\<not> us_must_change u" "og_revoked g = None" "now < og_expires g" "og_client g = cl_id client" "og_resource g = resource"
    "rp_kind policy \<in> set (cl_resources client)" "set (og_scopes g) \<inter> set (cl_scopes client) \<noteq> {}"
proof -
  obtain policy where p: "resource_policy_of e w db resource = Inr policy" using assms by (auto simp: active_grant_def)
  obtain g0 where g0: "find_grant db gid = Some g0" using assms by (cases "find_grant db gid") (simp_all add: active_grant_def p)
  obtain u where u: "ow_users w (og_user g0) = Some u" using assms by (cases "ow_users w (og_user g0)") (simp_all add: active_grant_def p g0)
  note body = assms [unfolded active_grant_def p bindR_simps g0 option.case u]
  have ok: "og_revoked g0 = None" "now < og_expires g0" "us_active u" "\<not> us_must_change u" "og_client g0 = cl_id client" "og_resource g0 = resource"
    "rp_kind policy \<in> set (cl_resources client)"
    using body by (auto split: if_splits)
  then have "g0 = g" "set (og_scopes g0) \<inter> set (cl_scopes client) \<noteq> {}"
    using body by (cases "rp_kind policy = lit ''management''"; auto split: if_splits)+
  with ok p g0 u show thesis using that by blast
qed

lemma active_grant_found:
  assumes "active_grant e w now gid client resource db = Inr g"
  shows "og_id g = gid" "og_id g \<in> og_id ` set (oa_grants db)"
proof -
  have "find_grant db gid = Some g" using assms by (rule active_grantE)
  then have "g \<in> set (oa_grants db)" "og_id g = gid" by (auto simp: find_grant_def dest: find_row_SomeD)
  then show "og_id g = gid" "og_id g \<in> og_id ` set (oa_grants db)" by blast+
qed

lemma issue_by_code_ok:
  assumes ok: "oauth_ok db" and x: "exchange_code e w now fid client policy q db = Inr (Exchanged db1 g family scopes)"
    and fresh: "h \<notin> rf_hash ` set (oa_refresh db1)"
  shows "oauth_ok (db1\<lparr>oa_refresh := oa_refresh db1 @ [\<lparr>rf_hash = h, rf_family = fst family, rf_consumed = None, rf_created = now\<rparr>]\<rparr>)"
  using x
proof (cases rule: exchange_codeE)
  case (new c g' scopes' expires)
  have fid: "fid \<notin> fm_id ` set (oa_families db)" using new(8) by (auto simp: find_family_def find_row_None_iff)
  then have "rf_family r \<noteq> fid" if "r \<in> set (oa_refresh db)" for r
    using ok that by (auto simp: oauth_ok_def tables_linked_def image_subset_iff)
  then have none: "sql_count (live_token fid) (oa_refresh db) = 0" "sql_count (\<lambda>r. rf_family r = fid) (oa_refresh db) = 0"
    by (auto simp: sql_count_def filter_empty_conv live_token_def)
  have db1: "db1 = db\<lparr>oa_codes := update_rows (\<lambda>x. co_hash x = oe_hash e (tq_code q) \<and> co_consumed x = None) (\<lambda>x. x\<lparr>co_consumed := Some now\<rparr>) (oa_codes db),
         oa_families := oa_families db @ [\<lparr>fm_id = fid, fm_grant = og_id g', fm_scopes = scopes', fm_expires = expires, fm_revoked = None\<rparr>]\<rparr>"
    "fst family = fid" using new(11) by simp_all
  have g: "og_id g' \<in> og_id ` set (oa_grants db)" by (rule active_grant_found(2) [OF new(6)])
  have "tables_linked db" using ok by (simp add: oauth_ok_def)
  with fid fresh g have "tables_linked (db1\<lparr>oa_refresh := oa_refresh db1 @ [\<lparr>rf_hash = h, rf_family = fst family, rf_consumed = None, rf_created = now\<rparr>]\<rparr>)"
    by (auto simp: tables_linked_def db1 map_update_rows image_update_rows)
  moreover have "limits_ok (db1\<lparr>oa_refresh := oa_refresh db1 @ [\<lparr>rf_hash = h, rf_family = fst family, rf_consumed = None, rf_created = now\<rparr>]\<rparr>)"
    using ok none by (auto simp: oauth_ok_def limits_ok_def db1 live_token_def MAX_FAMILY_TOKENS_def)
  moreover have "keys_ok (db1\<lparr>oa_refresh := oa_refresh db1 @ [\<lparr>rf_hash = h, rf_family = fst family, rf_consumed = None, rf_created = now\<rparr>]\<rparr>)"
    using ok by (simp add: oauth_ok_def keys_ok_def db1 store_config_def has_active_key_def)
  ultimately show ?thesis by (simp add: oauth_ok_def)
qed simp

lemma consume_live_token:
  assumes d: "distinct (map rf_hash rows)" and r: "find_row (\<lambda>x. rf_hash x = h) rows = Some r" "rf_consumed r = None"
    and one: "sql_count (live_token (rf_family r)) rows \<le> 1"
  shows "sql_count (live_token (rf_family r)) (update_rows (\<lambda>x. rf_hash x = h) (\<lambda>x. x\<lparr>rf_consumed := Some now\<rparr>) rows) = 0"
proof -
  have mem: "r \<in> set (filter (live_token (rf_family r)) rows)" using r by (auto simp: live_token_def dest: find_row_SomeD)
  with one have single: "filter (live_token (rf_family r)) rows = [r]"
    by (cases "filter (live_token (rf_family r)) rows") (auto simp: sql_count_def)
  have "\<not> live_token (rf_family r) x" if "x \<in> set (update_rows (\<lambda>x. rf_hash x = h) (\<lambda>x. x\<lparr>rf_consumed := Some now\<rparr>) rows)" for x
  proof
    assume live: "live_token (rf_family r) x"
    from that have x: "x \<in> set rows \<and> rf_hash x \<noteq> h"
      unfolding set_update_rows by (elim UnE imageE CollectE conjE) (use live in \<open>simp_all add: live_token_def\<close>)
    then have "x \<in> set (filter (live_token (rf_family r)) rows)" using live by simp
    then have "x = r" unfolding single by simp
    with x find_row_SomeD [OF r(1)] show False by simp
  qed
  then show ?thesis by (simp add: sql_count_def filter_empty_conv)
qed

lemma issue_by_refresh_ok:
  assumes ok: "oauth_ok db" and x: "exchange_refresh e w now client policy q db = Inr (Exchanged db1 g family scopes)"
    and fresh: "h \<notin> rf_hash ` set (oa_refresh db1)"
  shows "oauth_ok (db1\<lparr>oa_refresh := oa_refresh db1 @ [\<lparr>rf_hash = h, rf_family = fst family, rf_consumed = None, rf_created = now\<rparr>]\<rparr>)"
  using x
proof (cases rule: exchange_refreshE)
  case (new r f g' scopes')
  let ?rows = "update_rows (\<lambda>x. rf_hash x = oe_hash e (tq_refresh q)) (\<lambda>x. x\<lparr>rf_consumed := Some now\<rparr>) (oa_refresh db)"
  have db1: "db1 = db\<lparr>oa_refresh := ?rows, oa_families := update_rows (\<lambda>x. fm_id x = fm_id f) (\<lambda>x. x\<lparr>fm_scopes := scopes'\<rparr>) (oa_families db)\<rparr>"
    "fst family = fm_id f" using new(10) by simp_all
  have f: "fm_id f = rf_family r" "fm_id f \<in> fm_id ` set (oa_families db)" using new(2) by (auto simp: find_family_def dest: find_row_SomeD)
  have lim: "sql_count (live_token i) (oa_refresh db) \<le> 1" "sql_count (\<lambda>r. rf_family r = i) (oa_refresh db) \<le> MAX_FAMILY_TOKENS" for i
    using ok by (simp_all add: oauth_ok_def limits_ok_def)
  have zero: "sql_count (live_token (fm_id f)) ?rows = 0"
    unfolding f(1) by (rule consume_live_token [OF oauth_okD(5) [OF ok] new(1,4) lim(1)])
  have le: "sql_count (live_token i) ?rows \<le> 1" for i
    by (rule order_trans [OF sql_count_update_le lim(1)]) (simp add: live_token_def)
  have same: "sql_count (\<lambda>r. rf_family r = i) ?rows = sql_count (\<lambda>r. rf_family r = i) (oa_refresh db)" for i
    by (rule sql_count_update) simp
  have "tables_linked db" using ok by (simp add: oauth_ok_def)
  with fresh f(2) have "tables_linked (db1\<lparr>oa_refresh := oa_refresh db1 @ [\<lparr>rf_hash = h, rf_family = fst family, rf_consumed = None, rf_created = now\<rparr>]\<rparr>)"
    by (auto simp: tables_linked_def db1 map_update_rows image_update_rows)
  moreover have "limits_ok (db1\<lparr>oa_refresh := oa_refresh db1 @ [\<lparr>rf_hash = h, rf_family = fst family, rf_consumed = None, rf_created = now\<rparr>]\<rparr>)"
    using ok zero le lim new(9) by (auto simp: oauth_ok_def limits_ok_def db1 same live_token_def)
  moreover have "keys_ok (db1\<lparr>oa_refresh := oa_refresh db1 @ [\<lparr>rf_hash = h, rf_family = fst family, rf_consumed = None, rf_created = now\<rparr>]\<rparr>)"
    using ok by (simp add: oauth_ok_def keys_ok_def db1 store_config_def has_active_key_def)
  ultimately show ?thesis by (simp add: oauth_ok_def)
qed simp

lemma token_ok:
  assumes ok: "oauth_ok db" and run: "token e w now refresh fid cid secret q db = (db', r)"
  shows "oauth_ok db'"
  using run
proof (cases rule: tokenE)
  case (refused client policy)
  then show ?thesis using refused_ok [OF ok] by blast
next
  case (issued client policy db1 g family scopes ct)
  from issued(3) show ?thesis
    unfolding issued(6) using issue_by_code_ok [OF ok _ issued(5)] issue_by_refresh_ok [OF ok _ issued(5)] by blast
qed (simp add: ok)

lemma revoke_token_ok: "oauth_ok db \<Longrightarrow> revoke_token e w now tok cid secret db = Inr db' \<Longrightarrow> oauth_ok db'"
  by (auto simp: revoke_token_def Let_def revoke_families_ok split: option.splits)

lemma settled_ok: "oauth_ok db \<Longrightarrow> (\<And>db'. r = Inr db' \<Longrightarrow> oauth_ok db') \<Longrightarrow> oauth_ok (settled db r)"
  by (cases r) (simp_all add: settled_def)

lemma release_ok: "oauth_ok db \<Longrightarrow> release_interaction e w unseal now tok browser csrf db = Inr db' \<Longrightarrow> oauth_ok db'"
  using interactions_distinct [of db] by (auto simp: release_interaction_def intro!: interactions_ok distinct_delete_rows)

lemma deny_ok: "oauth_ok db \<Longrightarrow> deny_consent e w unseal now tok browser csrf user db = Inr db' \<Longrightarrow> oauth_ok db'"
  by (auto simp: deny_consent_def split: prod.splits if_splits intro: complete_ok)

lemma commit_ok:
  "oauth_ok db \<Longrightarrow> commit_scope gid uid revision tools policies expires rate conc db = Inr db' \<Longrightarrow> oauth_ok db'"
  "oauth_ok db \<Longrightarrow> commit_targets gid uid revision target_revision targets db = Inr db' \<Longrightarrow> oauth_ok db'"
  by (auto simp: commit_scope_def commit_targets_def Let_def edit_oauth_grant_def split: if_splits intro!: grants_edit_ok)

lemmas oauth_op_ok = rotate_key_ok save_config_ok save_management_config_ok create_client_ok update_client_ok admit_ok release_ok deny_ok
  consent_ok revoke_token_ok narrow_grant_ok commit_ok

lemma oauth_exec_ok: "oauth_ok db \<Longrightarrow> oauth_ok (oauth_exec e op db)"
proof (cases op)
  case (Token w now refresh fid cid secret q)
  moreover assume "oauth_ok db"
  ultimately show ?thesis using token_ok [OF _ prod.collapse [symmetric]] by simp
qed (auto intro!: settled_ok elim: oauth_op_ok)

lemma empty_oauth_ok: "oauth_ok empty_oauth"
  by (simp add: oauth_ok_def tables_linked_def keys_ok_def limits_ok_def empty_oauth_def sql_count_def store_config_def)

interpretation oauth_machine: machine "\<lambda>db. db = empty_oauth" "\<lambda>db op db'. db' = oauth_exec e op db" oauth_ok
proof
  show "oauth_ok db" if "db = empty_oauth" for db using that empty_oauth_ok by simp
  show "oauth_ok db'" if "oauth_ok db" "db' = oauth_exec e a db" for db a db' using that oauth_exec_ok by simp
qed

lemma oauth_run_run: "oauth_machine.run e db ops (oauth_run e ops db)"
  by (induction ops arbitrary: db) (auto simp: oauth_run_def intro: oauth_machine.run_Nil oauth_machine.run_Cons)

lemma oauth_run_ok: "oauth_ok db \<Longrightarrow> oauth_ok (oauth_run e ops db)"
  by (rule oauth_machine.run_inv [OF oauth_run_run])

lemma oauth_exec_evolves:
  assumes "oauth_ok db"
  shows "evolves (op_refresh e op) (op_family op) (op_code e op) db (oauth_exec e op db)"
proof (cases op)
  case (Token w now refresh fid cid secret q)
  then show ?thesis
    using token_evolves [where db = db and e = e and w = w and now = now and refresh = refresh and fid = fid and cid = cid and secret = secret and q = q,
        OF prod.collapse [symmetric] oauth_okD(4) [OF assms]]
    by (simp add: op_refresh_def op_family_def op_code_def)
next
  case (Consent w unseal now tok browser csrf user ci code gid)
  then show ?thesis by (auto simp: op_refresh_def op_family_def op_code_def intro!: settled_evolves intro: consent_evolves)
next
  case (Save_config w now on issuer resource revision)
  then show ?thesis
    by (auto simp: save_config_def shut_down_def Let_def split: if_splits option.splits
        intro!: settled_evolves intro: evolves_same revoke_then_evolves [where now = now and p = live_family])
next
  case (Save_management w now on revision actor)
  show ?thesis unfolding Save_management oauth_exec.simps
    by (rule settled_evolves, rule revoke_then_evolves [where now = now and p = "\<lambda>f. \<not> on \<and> live_family f \<and> grant_families db (\<lambda>g. og_resource g = mv_resource (management_config e db)) f"])
      (cases on; auto simp: save_management_config_def Let_def revoke_families_def update_rows_def split: if_splits option.splits)+
next
  case (Update_client now cid revision on q rotated)
  then show ?thesis
    by (auto simp: update_client_def Let_def split: if_splits option.splits
        intro!: settled_evolves intro: evolves_same revoke_then_evolves [where now = now and p = "\<lambda>f. grant_families db (\<lambda>g. og_client g = cid) f \<and> live_family f"])
next
  case (Narrow now uid gid revision tools expires rate conc revoke)
  then show ?thesis
    by (auto simp: narrow_grant_def Let_def split: if_splits option.splits
        intro!: settled_evolves intro: evolves_same revoke_then_evolves [where now = now and p = "\<lambda>f. fm_grant f = gid \<and> live_family f"])
next
  case (Revoke w now tok cid secret)
  then show ?thesis by (auto simp: revoke_token_def Let_def split: option.splits intro!: settled_evolves)
qed (auto simp: rotate_key_def create_client_def release_interaction_def deny_consent_def commit_scope_def commit_targets_def Let_def
    split: if_splits prod.splits intro!: settled_evolves intro: evolves_same admit_evolves complete_evolves)

definition drawn_refresh :: "oauth_env \<Rightarrow> oauth_op list \<Rightarrow> pystr set" where
  "drawn_refresh e ops = (\<Union>op \<in> set ops. op_refresh e op)"

definition drawn_families :: "oauth_op list \<Rightarrow> pystr set" where
  "drawn_families ops = (\<Union>op \<in> set ops. op_family op)"

definition drawn_codes :: "oauth_env \<Rightarrow> oauth_op list \<Rightarrow> pystr set" where
  "drawn_codes e ops = (\<Union>op \<in> set ops. op_code e op)"

lemma oauth_run_evolves:
  "oauth_ok db \<Longrightarrow> evolves (drawn_refresh e ops) (drawn_families ops) (drawn_codes e ops) db (oauth_run e ops db)"
proof (induction ops arbitrary: db)
  case (Cons op ops)
  have "evolves (drawn_refresh e ops) (drawn_families ops) (drawn_codes e ops) (oauth_exec e op db) (oauth_run e ops (oauth_exec e op db))"
    by (rule Cons.IH [OF oauth_exec_ok [OF Cons.prems]])
  from evolves_trans [OF oauth_exec_evolves [OF Cons.prems, of e op] this] show ?case
    by (simp add: drawn_refresh_def drawn_families_def drawn_codes_def oauth_run_def)
qed (simp add: oauth_run_def)
section \<open>Properties\<close>

text \<open>
  C33: from empty tables, any sequence of operations, failing ones included, keeps the tables linked (unique keys, no dangling code, family or
  refresh token), at most one active signing key among at most ten, an active key whenever the server is enabled, at most a
  hundred clients and a thousand grants per user, and for every family at most one unused refresh token and
  at most ten thousand tokens in all.
\<close>
theorem oauth_store_invariant: "oauth_ok (oauth_run e ops empty_oauth)"
  using oauth_machine.run_from_init [OF oauth_run_run] by blast

definition credential :: "oauth_env \<Rightarrow> token_request \<Rightarrow> bool \<times> pystr" where
  "credential e q = (if tq_grant_type q = lit ''authorization_code'' then (True, oe_hash e (tq_code q)) else (False, oe_hash e (tq_refresh q)))"

text \<open>The secrets a sequence of operations draws, as the credentials they become.\<close>

definition drawn :: "oauth_env \<Rightarrow> oauth_op list \<Rightarrow> (bool \<times> pystr) set" where
  "drawn e ops = {(True, h) | h. h \<in> drawn_codes e ops} \<union> {(False, h) | h. h \<in> drawn_refresh e ops}"

definition spent :: "bool \<times> pystr \<Rightarrow> oauth_db \<Rightarrow> bool" where
  "spent c db = (if fst c then \<forall>x \<in> set (oa_codes db). co_hash x = snd c \<longrightarrow> co_consumed x \<noteq> None
     else \<forall>x \<in> set (oa_refresh db). rf_hash x = snd c \<longrightarrow> rf_consumed x \<noteq> None)"

lemma spent_run:
  assumes ok: "oauth_ok db" and s: "spent c db" and new: "c \<notin> drawn e ops"
  shows "spent c (oauth_run e ops db)"
proof -
  note ev = oauth_run_evolves [OF ok, of e ops, unfolded evolves_def]
  show ?thesis
  proof (cases "fst c")
    case True
    then have "snd c \<notin> drawn_codes e ops" using new by (cases c) (simp add: drawn_def)
    with True s ev show ?thesis by (fastforce simp: spent_def grows_def keep_code_def)
  next
    case False
    then have "snd c \<notin> drawn_refresh e ops" using new by (cases c) (simp add: drawn_def)
    with False s ev show ?thesis by (fastforce simp: spent_def grows_def keep_refresh_def)
  qed
qed

lemma spent_refused:
  assumes "spent (credential e q) db"
  shows "\<exists>x. snd (token e w now refresh fid cid secret q db) = Inl x"
proof -
  obtain db' r where t: "token e w now refresh fid cid secret q db = (db', r)" by (rule prod.exhaust)
  then show ?thesis
  proof (cases rule: tokenE)
    case (issued client policy db1 g family scopes ct)
    from issued(3) have False
    proof (elim disjE conjE)
      assume ty: "tq_grant_type q = lit ''authorization_code''" and x: "exchange_code e w now fid client policy q db = Inr (Exchanged db1 g family scopes)"
      from x show False by (cases rule: exchange_codeE) (use assms ty in \<open>auto simp: spent_def credential_def dest!: find_row_SomeD\<close>)
    next
      assume ty: "tq_grant_type q = lit ''refresh_token''" and x: "exchange_refresh e w now client policy q db = Inr (Exchanged db1 g family scopes)"
      from x show False by (cases rule: exchange_refreshE) (use assms ty in \<open>auto simp: spent_def credential_def dest!: find_row_SomeD\<close>)
    qed
    then show ?thesis ..
  qed (use t in auto)
qed

lemma issued_spends:
  assumes "token e w now refresh fid cid secret q db = (db', Inr reply)"
  shows "spent (credential e q) db'"
  using assms
proof (cases rule: tokenE)
  case (issued client policy db1 g family scopes ct)
  from issued(3) show ?thesis
  proof (elim disjE conjE)
    assume ty: "tq_grant_type q = lit ''authorization_code''" and x: "exchange_code e w now fid client policy q db = Inr (Exchanged db1 g family scopes)"
    from x show ?thesis by (cases rule: exchange_codeE) (auto simp: issued(6) spent_def credential_def ty set_update_rows)
  next
    assume ty: "tq_grant_type q = lit ''refresh_token''" and x: "exchange_refresh e w now client policy q db = Inr (Exchanged db1 g family scopes)"
    from x show ?thesis
    proof (cases rule: exchange_refreshE)
      case (new r f g' scopes')
      have "oe_hash e (tq_refresh q) \<in> rf_hash ` set (oa_refresh db1)"
      proof -
        have "oe_hash e (tq_refresh q) = rf_hash r" "r \<in> set (oa_refresh db)" using find_row_SomeD [OF new(1)] by simp_all
        then have "oe_hash e (tq_refresh q) \<in> rf_hash ` set (oa_refresh db)" by (rule image_eqI)
        with new(10) show ?thesis by (simp add: image_update_rows)
      qed
      with issued(5) have "oe_hash e refresh \<noteq> oe_hash e (tq_refresh q)" by metis
      with new(10) show ?thesis by (auto simp: issued(6) spent_def credential_def ty set_update_rows)
    qed simp
  qed
qed simp_all

text \<open>
  C32: authorization codes and refresh tokens work once.  If a token request is answered with tokens, then after any further
  operations that do not draw the same secret again, every request that presents the same code or refresh token, from any client and
  at any time, is refused.
\<close>
theorem credential_single_use:
  assumes "oauth_ok db" and "token e w now refresh fid cid secret q db = (db1, Inr reply)" and "credential e q \<notin> drawn e later"
    and "credential e q' = credential e q"
  shows "\<exists>x. snd (token e w' now' refresh' fid' cid' secret' q' (oauth_run e later db1)) = Inl x"
proof -
  have "spent (credential e q) (oauth_run e later db1)"
    by (rule spent_run [OF token_ok [OF assms(1,2)] issued_spends [OF assms(2)] assms(3)])
  then show ?thesis using spent_refused [of e q'] assms(4) by simp
qed

definition family_dead :: "pystr \<Rightarrow> oauth_db \<Rightarrow> bool" where
  "family_dead fid db \<longleftrightarrow> (\<forall>f \<in> set (oa_families db). fm_id f = fid \<longrightarrow> fm_revoked f \<noteq> None)"

lemma family_deadD: "family_dead fid db \<Longrightarrow> f \<in> set (oa_families db) \<Longrightarrow> fm_id f = fid \<Longrightarrow> fm_revoked f \<noteq> None"
  by (simp add: family_dead_def)

lemma family_dead_run:
  "oauth_ok db \<Longrightarrow> family_dead fid db \<Longrightarrow> fid \<notin> drawn_families ops \<Longrightarrow> family_dead fid (oauth_run e ops db)"
  using oauth_run_evolves [of db e ops] by (fastforce simp: family_dead_def evolves_def grows_def keep_family_def)

lemma dead_not_issued:
  assumes "family_dead fid db" and "token e w now refresh fid' cid secret q db = (db', Inr reply)" and "fid' \<noteq> fid"
  shows "ct_fid (tr_claims reply) \<noteq> fid"
  using assms(2)
proof (cases rule: tokenE)
  case (issued client policy db1 g family scopes ct)
  have c: "ct_fid (tr_claims reply) = fst family" using issued(4,7) by (auto simp: sign_def Let_def split: option.splits if_splits)
  from issued(3) show ?thesis
  proof (elim disjE conjE)
    assume x: "exchange_code e w now fid' client policy q db = Inr (Exchanged db1 g family scopes)"
    from x show ?thesis by (cases rule: exchange_codeE) (use c assms(3) in auto)
  next
    assume x: "exchange_refresh e w now client policy q db = Inr (Exchanged db1 g family scopes)"
    from x show ?thesis
      by (cases rule: exchange_refreshE) (use c assms(1) in \<open>auto simp: family_dead_def find_family_def dest!: find_row_SomeD\<close>)
  qed
qed simp_all

lemma find_family_id: "find_family db i = Some f \<Longrightarrow> fm_id f = i"
  by (auto simp: find_family_def dest: find_row_SomeD)

lemma verified_principalE:
  assumes "verified_principal e w w' now ct db db' = Inr v"
  obtains client g f policy where "find_row (\<lambda>c. cl_id c = ct_client ct \<and> cl_enabled c) (oa_clients db) = Some client"
    "active_grant e w now (ct_gid ct) client (ct_aud ct) db = Inr g"
    "find_row (\<lambda>f. fm_id f = ct_fid ct \<and> fm_grant f = og_id g) (oa_families db) = Some f" "fm_revoked f = None" "now < fm_expires f"
    "ct_sub ct = og_user g" "now < ct_exp ct" "resource_policy_of e w' db' (ct_aud ct) = Inr policy"
    "vf_grant v = g" "vf_family v = f" "set (vf_scopes v) = set (ct_scopes ct) \<inter> set (og_scopes g) \<inter> set (cl_scopes client) \<inter> set (fm_scopes f) \<inter> set (rp_scopes policy)"
proof -
  have t: "now < ct_exp ct" using assms by (simp add: verified_principal_def Let_def split: if_splits)
  obtain client where c: "find_row (\<lambda>c. cl_id c = ct_client ct \<and> cl_enabled c) (oa_clients db) = Some client"
    using assms t by (cases "find_row (\<lambda>c. cl_id c = ct_client ct \<and> cl_enabled c) (oa_clients db)") (simp_all add: verified_principal_def Let_def)
  obtain g where g: "active_grant e w now (ct_gid ct) client (ct_aud ct) db = Inr g"
    using assms t c by (cases "active_grant e w now (ct_gid ct) client (ct_aud ct) db") (simp_all add: verified_principal_def Let_def)
  obtain f where f: "find_row (\<lambda>f. fm_id f = ct_fid ct \<and> fm_grant f = og_id g) (oa_families db) = Some f"
    using assms t c g by (cases "find_row (\<lambda>f. fm_id f = ct_fid ct \<and> fm_grant f = og_id g) (oa_families db)") (simp_all add: verified_principal_def Let_def)
  have ok: "ct_sub ct = og_user g" "fm_revoked f = None" "now < fm_expires f"
    using assms t c g f by (simp_all add: verified_principal_def Let_def split: if_splits)
  obtain u where u: "ow_users w (og_user g) = Some u"
    using assms t c g f ok by (cases "ow_users w (og_user g)") (simp_all add: verified_principal_def Let_def)
  obtain p0 policy where p: "build_principal w' (og_user g) u = Inr p0" "resource_policy_of e w' db' (ct_aud ct) = Inr policy"
    using assms t c g f ok u by (auto simp: verified_principal_def Let_def)
  have "vf_grant v = g" "vf_family v = f" "vf_scopes v = sorted_set (filter (\<lambda>s. s \<in> set (og_scopes g) \<and> s \<in> set (cl_scopes client)
      \<and> s \<in> set (fm_scopes f) \<and> s \<in> set (rp_scopes policy)) (ct_scopes ct))"
    using assms t c g f ok u p by (auto simp: verified_principal_def Let_def split: if_splits)
  then show thesis using that [OF c g f ok(2,3,1) t p(2)] by (auto simp: sorted_set_def)
qed

lemma dead_not_verified: "family_dead (ct_fid ct) db \<Longrightarrow> \<exists>x. verified_principal e w w' now ct db db' = Inl x"
proof (cases "verified_principal e w w' now ct db db'")
  case (Inr v)
  assume "family_dead (ct_fid ct) db"
  from Inr show ?thesis
  proof (cases rule: verified_principalE)
    case (1 client g f policy)
    then show ?thesis using family_deadD [OF \<open>family_dead (ct_fid ct) db\<close>, of f] find_row_SomeD [OF 1(3)] by simp
  qed
qed simp

lemma revoke_families_dead: "family_dead fid (revoke_families now (\<lambda>x. fm_id x = fid) db)"
  unfolding family_dead_def revoke_families_def by (simp add: set_update_rows ball_Un)

text \<open>
  C31: replaying a refresh token ends its family.  When a consumed refresh token is presented by an authenticated client of a grant that
  is still active, the request is refused and the family is revoked in the committed tables; from then on, whatever happens (as long as
  the family's identifier is not drawn again), no request is answered with tokens of that family and no access token of it verifies.
\<close>
theorem refresh_replay_kills_family:
  assumes ok: "oauth_ok db" and cl: "ready_config e w db = Inr config" "authenticate_client e cid secret db = Inr client"
    and pol: "resource_policy_of e w db (tq_resource q) = Inr policy" "rp_kind policy \<in> set (cl_resources client)"
    and q: "tq_grant_type q = lit ''refresh_token''" "find_row (\<lambda>r. rf_hash r = oe_hash e (tq_refresh q)) (oa_refresh db) = Some r" "rf_consumed r \<noteq> None"
    and f: "find_family db (rf_family r) = Some f" "active_grant e w now (fm_grant f) client (tq_resource q) db = Inr g"
    and new: "fm_id f \<notin> drawn_families later" "fid' \<noteq> fm_id f"
  shows "\<exists>db1. token e w now refresh fid cid secret q db = (db1, Inl (oerr ''invalid_grant'')) \<and> family_dead (fm_id f) db1
    \<and> (\<forall>db2 reply. token e w1 now1 refresh' fid' cid' secret' q' (oauth_run e later db1) = (db2, Inr reply) \<longrightarrow> ct_fid (tr_claims reply) \<noteq> fm_id f)
    \<and> (\<forall>ct. ct_fid ct = fm_id f \<longrightarrow> (\<exists>x. verified_principal e w1 w2 now1 ct (oauth_run e later db1) db' = Inl x))"
proof -
  let ?db1 = "revoke_families now (\<lambda>x. fm_id x = fm_id f) db"
  have "exchange_refresh e w now client policy q db = Inr (Refused ?db1)" using q f by (simp add: exchange_refresh_def Let_def)
  then have t: "token e w now refresh fid cid secret q db = (?db1, Inl (oerr ''invalid_grant''))"
    using cl pol q(1) by (simp add: token_def token_transaction_def)
  have dead: "family_dead (fm_id f) ?db1" by (rule revoke_families_dead)
  have later: "family_dead (fm_id f) (oauth_run e later ?db1)"
    by (rule family_dead_run [OF revoke_families_ok [OF ok] dead new(1)])
  show ?thesis
    by (intro exI [of _ ?db1] conjI t dead allI impI dead_not_issued [OF later _ new(2)]) (use dead_not_verified later in fastforce)+
qed

text \<open>
  Scopes and lifetimes only shrink.  Issued tokens are for an enabled client and an unrevoked, unexpired grant of an active user for the
  requested resource; their scopes lie within the grant's, the client's and the resource's, and after a refresh within those the
  family had before; an access token lives at most ten minutes and never beyond its grant.  Verifying the token
  later yields a subset of the scopes it was issued with and needs the same grant and family, unrevoked.
\<close>
lemma token_scopes_bounded:
  assumes run: "token e w now refresh fid cid secret q db = (db', Inr reply)"
  shows "\<exists>client policy g. find_client db cid = Some client \<and> cl_enabled client \<and> resource_policy_of e w db (tq_resource q) = Inr policy
    \<and> find_grant db (ct_gid (tr_claims reply)) = Some g \<and> og_revoked g = None \<and> now < og_expires g \<and> og_client g = cid
    \<and> set (tr_scopes reply) \<subseteq> set (og_scopes g) \<inter> set (cl_scopes client) \<inter> set (rp_scopes policy)
    \<and> (tq_grant_type q = lit ''refresh_token'' \<longrightarrow> (\<exists>f. find_family db (ct_fid (tr_claims reply)) = Some f \<and> set (tr_scopes reply) \<subseteq> set (fm_scopes f)))
    \<and> ct_scopes (tr_claims reply) = tr_scopes reply \<and> ct_exp (tr_claims reply) \<le> now + 600 \<and> ct_exp (tr_claims reply) \<le> og_expires g
    \<and> (\<forall>w1 w2 now1 db1 db2 v. verified_principal e w1 w2 now1 (tr_claims reply) db1 db2 = Inr v \<longrightarrow>
         set (vf_scopes v) \<subseteq> set (tr_scopes reply) \<and> og_id (vf_grant v) = og_id g \<and> fm_revoked (vf_family v) = None)"
proof -
  from run obtain client policy db1 g family scopes ct where I: "authenticate_client e cid secret db = Inr client"
      "resource_policy_of e w db (tq_resource q) = Inr policy"
      "tq_grant_type q = lit ''authorization_code'' \<and> exchange_code e w now fid client policy q db = Inr (Exchanged db1 g family scopes)
       \<or> tq_grant_type q = lit ''refresh_token'' \<and> exchange_refresh e w now client policy q db = Inr (Exchanged db1 g family scopes)"
      "sign e now g family scopes db1 = Inr ct" "tr_claims reply = ct" "tr_scopes reply = scopes"
    by (cases rule: tokenE) auto
  have client: "find_client db cid = Some client" "cl_enabled client" "cl_id client = cid"
    using I(1) by (auto simp: authenticate_client_def Let_def find_client_def split: option.splits if_splits dest: find_row_SomeD)
  have ct: "ct_gid ct = og_id g" "ct_fid ct = fst family" "ct_scopes ct = scopes" "ct_exp ct \<le> now + 600" "ct_exp ct \<le> og_expires g"
    using I(4) by (auto simp: sign_def Let_def ACCESS_TTL_def split: option.splits if_splits)
  have ex: "\<exists>gid. active_grant e w now gid client (tq_resource q) db = Inr g \<and> set scopes \<subseteq> set (og_scopes g) \<inter> set (cl_scopes client) \<inter> set (rp_scopes policy)
      \<and> (tq_grant_type q = lit ''refresh_token'' \<longrightarrow> (\<exists>f. find_family db (fst family) = Some f \<and> set scopes \<subseteq> set (fm_scopes f)))"
    using I(3)
  proof (elim disjE conjE)
    assume ty: "tq_grant_type q = lit ''authorization_code''" and x: "exchange_code e w now fid client policy q db = Inr (Exchanged db1 g family scopes)"
    from x show ?thesis by (cases rule: exchange_codeE) (auto simp: ty sorted_set_def)
  next
    assume x: "exchange_refresh e w now client policy q db = Inr (Exchanged db1 g family scopes)"
    from x show ?thesis
    proof (cases rule: exchange_refreshE)
      case (new r f g' scopes')
      have "find_family db (fst family) = Some f" using new(2,10) find_family_id [OF new(2)] by simp
      moreover have "set scopes \<subseteq> set (og_scopes g) \<inter> set (cl_scopes client) \<inter> set (rp_scopes policy)" "set scopes \<subseteq> set (fm_scopes f)"
        using new(8,10) by auto
      ultimately show ?thesis using new(3,10) by auto
    qed simp
  qed
  then obtain gid where g: "active_grant e w now gid client (tq_resource q) db = Inr g" by blast
  have G: "find_grant db (og_id g) = Some g" "og_revoked g = None" "now < og_expires g" "og_client g = cid"
    using g by (cases rule: active_grantE; simp add: active_grant_found(1) [OF g] client(3))+
  have V: "set (vf_scopes v) \<subseteq> set scopes \<and> og_id (vf_grant v) = og_id g \<and> fm_revoked (vf_family v) = None"
    if "verified_principal e w1 w2 now1 ct db1 db2 = Inr v" for w1 w2 now1 db1 db2 v
    using that
  proof (cases rule: verified_principalE)
    case (1 client' g' f' policy')
    then show ?thesis using active_grant_found(1) [OF 1(2)] by (auto simp: ct(1,3))
  qed
  show ?thesis
    using I(2,5,6) client G ct ex V by (intro exI [of _ client] exI [of _ policy] exI [of _ g]) (simp add: ct)
qed

section \<open>Examples\<close>

definition demo_oauth :: oauth_env where
  "demo_oauth = \<lparr>oe_hash = (\<lambda>s. s), oe_pkce = (\<lambda>s. s),
     oe_urlsplit = (\<lambda>_. Some \<lparr>u_scheme = lit ''https'', u_host = lit ''gate'', u_port = None, u_username = [], u_password = [], u_path = [], u_query = [],
       u_query_keys = [], u_fragment = []\<rparr>),
     oe_rebase = (\<lambda>s. s @ lit ''/manage''), oe_header = (\<lambda>_. None), oe_untrusted = (\<lambda>_. None), oe_decode = (\<lambda>_ _ _ _ _. None), oe_signs = (\<lambda>_. True)\<rparr>"

definition demo_ow :: oauth_world where
  "demo_ow = \<lparr>ow_auth_enabled = True, ow_users = (\<lambda>_. Some \<lparr>us_name = lit ''u'', us_active = True, us_must_change = False\<rparr>),
     ow_access = empty_db [], ow_external = None\<rparr>"

definition demo_client :: client_row where
  "demo_client = \<lparr>cl_id = lit ''c'', cl_name = lit ''c'', cl_redirects = [], cl_scopes = [lit ''tools.read''], cl_secret_hash = lit ''s'', cl_enabled = True,
     cl_revision = 1, cl_created = 0, cl_resources = [lit ''business'']\<rparr>"

definition demo_oauth_grant :: oauth_grant where
  "demo_oauth_grant = \<lparr>og_id = lit ''g'', og_user = lit ''u'', og_client = lit ''c'', og_resource = lit ''r'', og_scopes = [lit ''tools.read''], og_tools = [],
     og_expires = 1000, og_rate = 1, og_concurrency = 1, og_revoked = None, og_revision = 1, og_created = 0, og_targets = [], og_target_revision = 0,
     og_policies = []\<rparr>"

text \<open>A server with one client, one grant and one family, whose only refresh token is unused or used.\<close>

definition demo_tables :: "int option \<Rightarrow> oauth_db" where
  "demo_tables used = empty_oauth\<lparr>oa_config := Some \<lparr>cf_enabled = True, cf_issuer = lit ''i'', cf_resource = lit ''r'', cf_revision = 1\<rparr>,
     oa_clients := [demo_client], oa_keys := [\<lparr>k_kid = lit ''k'', k_active = True, k_retire = None, k_created = 0\<rparr>], oa_grants := [demo_oauth_grant],
     oa_families := [\<lparr>fm_id = lit ''f'', fm_grant = lit ''g'', fm_scopes = [lit ''tools.read''], fm_expires = 1000, fm_revoked = None\<rparr>],
     oa_refresh := [\<lparr>rf_hash = lit ''t'', rf_family = lit ''f'', rf_consumed = used, rf_created = 0\<rparr>]\<rparr>"

definition demo_refresh :: token_request where
  "demo_refresh = \<lparr>tq_grant_type = lit ''refresh_token'', tq_resource = lit ''r'', tq_code = [], tq_redirect = None, tq_verifier = [], tq_refresh = lit ''t'',
     tq_scope = None\<rparr>"

lemma demo_tables_ok: "oauth_ok (demo_tables used)"
  by (simp add: oauth_ok_def tables_linked_def keys_ok_def limits_ok_def demo_tables_def empty_oauth_def sql_count_def store_config_def has_active_key_def
      demo_client_def demo_oauth_grant_def live_token_def MAX_FAMILY_TOKENS_def)

lemma demo_policy:
  "ready_config demo_oauth demo_ow (demo_tables used) = Inr \<lparr>cf_enabled = True, cf_issuer = lit ''i'', cf_resource = lit ''r'', cf_revision = 1\<rparr>"
  "authenticate_client demo_oauth (lit ''c'') (lit ''s'') (demo_tables used) = Inr demo_client"
  "resource_policy_of demo_oauth demo_ow (demo_tables used) (lit ''r'') = Inr \<lparr>rp_kind = lit ''business'', rp_scopes = BUSINESS_SCOPES, rp_management = None\<rparr>"
proof -
  have i: "valid_issuer demo_oauth (lit ''i'')"
    by (simp add: valid_issuer_def valid_callback_def https_resource_def url_path_def demo_oauth_def port_ok_def lit_def py_space_def)
  then show r: "ready_config demo_oauth demo_ow (demo_tables used) = Inr \<lparr>cf_enabled = True, cf_issuer = lit ''i'', cf_resource = lit ''r'', cf_revision = 1\<rparr>"
    by (simp add: ready_config_def store_config_def demo_tables_def demo_ow_def)
  show "resource_policy_of demo_oauth demo_ow (demo_tables used) (lit ''r'') = Inr \<lparr>rp_kind = lit ''business'', rp_scopes = BUSINESS_SCOPES, rp_management = None\<rparr>"
    by (simp add: resource_policy_of_def r)
  show "authenticate_client demo_oauth (lit ''c'') (lit ''s'') (demo_tables used) = Inr demo_client"
    by (simp add: authenticate_client_def find_client_def find_row_def demo_tables_def demo_client_def demo_oauth_def)
qed

lemma demo_rows:
  "find_row (\<lambda>r. rf_hash r = oe_hash demo_oauth (tq_refresh demo_refresh)) (oa_refresh (demo_tables used)) =
     Some \<lparr>rf_hash = lit ''t'', rf_family = lit ''f'', rf_consumed = used, rf_created = 0\<rparr>"
  "find_family (demo_tables used) (lit ''f'') = Some \<lparr>fm_id = lit ''f'', fm_grant = lit ''g'', fm_scopes = [lit ''tools.read''], fm_expires = 1000, fm_revoked = None\<rparr>"
  by (simp_all add: find_row_def demo_tables_def demo_oauth_def demo_refresh_def find_family_def)

lemma demo_active: "active_grant demo_oauth demo_ow 10 (lit ''g'') demo_client (lit ''r'') (demo_tables used) = Inr demo_oauth_grant"
proof -
  have g: "find_grant (demo_tables used) (lit ''g'') = Some demo_oauth_grant" by (simp add: find_grant_def find_row_def demo_tables_def demo_oauth_grant_def)
  have u: "ow_users demo_ow (og_user demo_oauth_grant) = Some \<lparr>us_name = lit ''u'', us_active = True, us_must_change = False\<rparr>" by (simp add: demo_ow_def)
  show ?thesis unfolding active_grant_def demo_policy(3) bindR_simps g option.case u by (simp add: demo_oauth_grant_def demo_client_def)
qed

lemma demo_issue:
  "\<exists>db1 reply. token demo_oauth demo_ow 10 (lit ''t2'') (lit ''f2'') (lit ''c'') (lit ''s'') demo_refresh (demo_tables None) = (db1, Inr reply)"
proof -
  have q: "tq_grant_type demo_refresh = lit ''refresh_token''" "tq_resource demo_refresh = lit ''r''" "tq_scope demo_refresh = None"
    by (simp_all add: demo_refresh_def)
  have "\<exists>db1. exchange_refresh demo_oauth demo_ow 10 demo_client \<lparr>rp_kind = lit ''business'', rp_scopes = BUSINESS_SCOPES, rp_management = None\<rparr> demo_refresh
      (demo_tables None) = Inr (Exchanged db1 demo_oauth_grant (lit ''f'', 1000) [lit ''tools.read'']) \<and> oa_keys db1 = oa_keys (demo_tables None)
      \<and> rf_hash ` set (oa_refresh db1) = {lit ''t''}"
    by (simp add: exchange_refresh_def Let_def demo_rows demo_active q)
      (simp add: demo_oauth_grant_def demo_client_def BUSINESS_SCOPES_def sorted_set_def sql_count_def MAX_FAMILY_TOKENS_def demo_tables_def image_update_rows)
  then obtain db1 where x: "exchange_refresh demo_oauth demo_ow 10 demo_client \<lparr>rp_kind = lit ''business'', rp_scopes = BUSINESS_SCOPES, rp_management = None\<rparr> demo_refresh
      (demo_tables None) = Inr (Exchanged db1 demo_oauth_grant (lit ''f'', 1000) [lit ''tools.read''])" "oa_keys db1 = oa_keys (demo_tables None)"
      "rf_hash ` set (oa_refresh db1) = {lit ''t''}" by blast
  have "\<exists>ct. sign demo_oauth 10 demo_oauth_grant (lit ''f'', 1000) [lit ''tools.read''] db1 = Inr ct"
    by (simp add: sign_def x(2) demo_tables_def find_row_def demo_oauth_def)
  then obtain ct where "sign demo_oauth 10 demo_oauth_grant (lit ''f'', 1000) [lit ''tools.read''] db1 = Inr ct" by blast
  moreover have "rp_kind \<lparr>rp_kind = lit ''business'', rp_scopes = BUSINESS_SCOPES, rp_management = None\<rparr> \<in> set (cl_resources demo_client)"
    by (simp add: demo_client_def)
  moreover have "oe_hash demo_oauth (lit ''t2'') = lit ''t2''" by (simp add: demo_oauth_def)
  ultimately show ?thesis by (simp add: token_def token_transaction_def demo_policy q x)
qed

theorem credential_single_use_witness:
  "\<exists>db1 reply x. token demo_oauth demo_ow 10 (lit ''t2'') (lit ''f2'') (lit ''c'') (lit ''s'') demo_refresh (demo_tables None) = (db1, Inr reply)
     \<and> snd (token demo_oauth demo_ow 20 (lit ''t3'') (lit ''f3'') (lit ''c'') (lit ''s'') demo_refresh db1) = Inl x"
proof -
  obtain db1 reply where t: "token demo_oauth demo_ow 10 (lit ''t2'') (lit ''f2'') (lit ''c'') (lit ''s'') demo_refresh (demo_tables None) = (db1, Inr reply)"
    using demo_issue by blast
  from credential_single_use [where later = "[]", OF demo_tables_ok t _ refl, of demo_ow 20 "lit ''t3''" "lit ''f3''" "lit ''c''" "lit ''s''"] t
  show ?thesis by (auto simp: drawn_def drawn_codes_def drawn_refresh_def oauth_run_def)
qed

lemma token_scopes_bounded_witness:
  "\<exists>db1 reply. token demo_oauth demo_ow 10 (lit ''t2'') (lit ''f2'') (lit ''c'') (lit ''s'') demo_refresh (demo_tables None) = (db1, Inr reply)
     \<and> ct_exp (tr_claims reply) \<le> 610"
proof -
  obtain db1 reply where t: "token demo_oauth demo_ow 10 (lit ''t2'') (lit ''f2'') (lit ''c'') (lit ''s'') demo_refresh (demo_tables None) = (db1, Inr reply)"
    using demo_issue by blast
  from token_scopes_bounded [OF t] have "ct_exp (tr_claims reply) \<le> 10 + 600" by blast
  with t show ?thesis by auto
qed

theorem refresh_replay_kills_family_witness:
  "\<exists>db1. token demo_oauth demo_ow 10 (lit ''t2'') (lit ''f2'') (lit ''c'') (lit ''s'') demo_refresh (demo_tables (Some 5)) = (db1, Inl (oerr ''invalid_grant''))
     \<and> family_dead (lit ''f'') db1"
proof -
  let ?f = "\<lparr>fm_id = lit ''f'', fm_grant = lit ''g'', fm_scopes = [lit ''tools.read''], fm_expires = 1000, fm_revoked = None\<rparr>"
  have q: "tq_grant_type demo_refresh = lit ''refresh_token''" "tq_resource demo_refresh = lit ''r''" by (simp_all add: demo_refresh_def)
  have pol: "resource_policy_of demo_oauth demo_ow (demo_tables (Some 5)) (tq_resource demo_refresh) = Inr \<lparr>rp_kind = lit ''business'', rp_scopes = BUSINESS_SCOPES, rp_management = None\<rparr>"
    "rp_kind \<lparr>rp_kind = lit ''business'', rp_scopes = BUSINESS_SCOPES, rp_management = None\<rparr> \<in> set (cl_resources demo_client)"
    by (simp_all add: q demo_policy demo_client_def)
  have f: "find_family (demo_tables (Some 5)) (rf_family \<lparr>rf_hash = lit ''t'', rf_family = lit ''f'', rf_consumed = Some 5, rf_created = 0\<rparr>) = Some ?f"
    "active_grant demo_oauth demo_ow 10 (fm_grant ?f) demo_client (tq_resource demo_refresh) (demo_tables (Some 5)) = Inr demo_oauth_grant"
    by (simp_all add: q demo_rows demo_active)
  from refresh_replay_kills_family [where later = "[]" and fid' = "lit ''f3''" and refresh = "lit ''t2''" and fid = "lit ''f2''" and ?w1.0 = demo_ow and ?now1.0 = 20
        and refresh' = "[]" and cid' = "[]" and secret' = "[]" and q' = demo_refresh and ?w2.0 = demo_ow and db' = empty_oauth,
      OF demo_tables_ok demo_policy(1,2) pol q(1) demo_rows(1) _ f]
  show ?thesis by (auto simp: drawn_families_def)
qed

end
