(* ===== verification/Tool_Namespace.thy ===== *)
theory Tool_Namespace
  imports Authorization_Policy "HOL-Library.Multiset"
begin

text \<open>
  \<^verbatim>\<open>protocol/tool_namespace.py\<close>: the public MCP names of tools.  \<open>public_tool_name\<close> projects a registry id to the characters and the length MCP
  allows; \<open>tool_namespace\<close> publishes a snapshot of definitions or refuses it when two ids project to one name.
  \<open>sha\<close> is \<^verbatim>\<open>sha256(...).hexdigest()\<close> of the UTF-8 id.
\<close>

section \<open>Names\<close>

definition MAX_TOOL_NAME_LENGTH :: nat where "MAX_TOOL_NAME_LENGTH = 128"

definition SYSTEM_DEBUG_TOOL_ID :: pystr where "SYSTEM_DEBUG_TOOL_ID = lit ''gate_system_debug''"

definition name_char :: "nat \<Rightarrow> bool" where
  "name_char c \<longleftrightarrow> 65 \<le> c \<and> c \<le> 90 \<or> 97 \<le> c \<and> c \<le> 122 \<or> 48 \<le> c \<and> c \<le> 57 \<or> c = 95 \<or> c = 45"

definition reserved_preference_name :: "pystr \<Rightarrow> bool" where
  "reserved_preference_name n \<longleftrightarrow> n = lit ''gate_result_read'' \<or> starts_with n (lit ''gate_pinned_'')"

text \<open>\<^verbatim>\<open>s.replace(".", "__")\<close>, then \<^verbatim>\<open>INVALID_TOOL_NAME.sub("_", ...)\<close>.\<close>

definition projected :: "pystr \<Rightarrow> pystr" where
  "projected s = map (\<lambda>c. if name_char c then c else 95) (concat (map (\<lambda>c. if c = 46 then [95, 95] else [c]) s))"

definition name_candidate :: "pystr \<Rightarrow> pystr" where
  "name_candidate s = (let c = strip_by (\<lambda>c. c = 95) (projected s) in if c = [] then lit ''gate_tool'' else c)"

definition public_tool_name :: "(pystr \<Rightarrow> pystr) \<Rightarrow> tool_definition \<Rightarrow> pystr" where
  "public_tool_name sha d =
     (if td_id d = SYSTEM_DEBUG_TOOL_ID then lit ''gate_system_debug''
      else (let candidate = name_candidate (td_id d) in
            if length candidate \<le> MAX_TOOL_NAME_LENGTH then candidate
            else (let digest = take 12 (sha (td_id d))
                  in take (MAX_TOOL_NAME_LENGTH - length digest - 2) candidate @ [95, 95] @ digest)))"

section \<open>Snapshots\<close>

record namespace =
  ns_entries :: "(pystr \<times> tool_definition) list"
  ns_by_name :: "pystr \<rightharpoonup> tool_definition"

datatype collision = Collision pystr pystr pystr

definition collision_error :: "pystr \<Rightarrow> pystr \<Rightarrow> pystr \<Rightarrow> collision" where
  "collision_error n a b = Collision n (min a b) (max a b)"

definition entry_order :: "tool_definition \<Rightarrow> bool \<times> pystr" where
  "entry_order d = (td_id d \<noteq> SYSTEM_DEBUG_TOOL_ID, td_id d)"

definition add_entry :: "pystr \<Rightarrow> tool_definition \<Rightarrow> namespace \<Rightarrow> namespace" where
  "add_entry n d ns = \<lparr>ns_entries = ns_entries ns @ [(n, d)], ns_by_name = (ns_by_name ns)(n \<mapsto> d)\<rparr>"

fun publish_all :: "(pystr \<Rightarrow> pystr) \<Rightarrow> tool_definition list \<Rightarrow> namespace \<Rightarrow> collision + namespace" where
  "publish_all sha [] ns = Inr ns"
| "publish_all sha (d # ds) ns =
     (let n = public_tool_name sha d in
      if reserved_preference_name n then Inl (collision_error n (td_id d) (lit ''reserved:authorization-preference''))
      else (case ns_by_name ns n of
              Some x \<Rightarrow> if td_id x \<noteq> td_id d then Inl (collision_error n (td_id x) (td_id d)) else publish_all sha ds (add_entry n d ns)
            | None \<Rightarrow> publish_all sha ds (add_entry n d ns)))"

definition tool_namespace :: "(pystr \<Rightarrow> pystr) \<Rightarrow> tool_definition list \<Rightarrow> collision + namespace" where
  "tool_namespace sha ds = publish_all sha (sort_key entry_order ds) \<lparr>ns_entries = [], ns_by_name = Map.empty\<rparr>"

definition resolve :: "namespace \<Rightarrow> pystr \<Rightarrow> tool_definition option" where
  "resolve ns n = ns_by_name ns n"

section \<open>Names are well formed\<close>

definition name_ok :: "pystr \<Rightarrow> bool" where
  "name_ok n \<longleftrightarrow> n \<noteq> [] \<and> length n \<le> MAX_TOOL_NAME_LENGTH \<and> list_all name_char n"

text \<open>What \<^verbatim>\<open>hexdigest\<close> promises: sixty-four lower-case hexadecimal digits.\<close>

definition hex_digest :: "(pystr \<Rightarrow> pystr) \<Rightarrow> bool" where
  "hex_digest sha \<longleftrightarrow> (\<forall>s. length (sha s) = 64 \<and> list_all (\<lambda>c. 48 \<le> c \<and> c \<le> 57 \<or> 97 \<le> c \<and> c \<le> 102) (sha s))"

lemma projected_chars: "list_all name_char (projected s)"
  by (auto simp: projected_def list_all_iff name_char_def)

lemma set_strip_by: "set (strip_by p s) \<subseteq> set s"
  unfolding strip_by_def by (metis (no_types, lifting) set_dropWhileD set_rev subsetI)

lemma name_candidate_ok: "name_candidate s \<noteq> []" "list_all name_char (name_candidate s)"
proof -
  show "name_candidate s \<noteq> []" by (simp add: name_candidate_def Let_def)
  have "list_all name_char (strip_by (\<lambda>c. c = 95) (projected s))"
    using projected_chars [of s] set_strip_by [of _ "projected s"] by (auto simp: list_all_iff)
  moreover have "list_all name_char (lit ''gate_tool'')" by (simp add: lit_def name_char_def)
  ultimately show "list_all name_char (name_candidate s)" by (simp add: name_candidate_def Let_def)
qed

text \<open>
  C35: every public tool name is a legal MCP name: it is not empty, has at most 128 characters, and only letters, digits, underscores and
  hyphens, whatever the registry id contains.
\<close>
theorem public_tool_name_ok:
  assumes "hex_digest sha"
  shows "name_ok (public_tool_name sha d)"
proof (cases "td_id d = SYSTEM_DEBUG_TOOL_ID \<or> length (name_candidate (td_id d)) \<le> MAX_TOOL_NAME_LENGTH")
  case True
  moreover have "name_ok (lit ''gate_system_debug'')" by (simp add: name_ok_def MAX_TOOL_NAME_LENGTH_def) (simp add: lit_def name_char_def)
  ultimately show ?thesis using name_candidate_ok [of "td_id d"] by (auto simp: public_tool_name_def name_ok_def Let_def)
next
  case False
  have "length (sha (td_id d)) = 64" "list_all name_char (sha (td_id d))"
    using assms by (fastforce simp: hex_digest_def list_all_iff name_char_def)+
  then have "list_all name_char (take 12 (sha (td_id d)))" "length (take 12 (sha (td_id d))) = 12"
    by (auto simp: list_all_iff dest: in_set_takeD)
  moreover have "list_all name_char (take n (name_candidate (td_id d)))" for n
    using name_candidate_ok(2) by (auto simp: list_all_iff dest: in_set_takeD)
  ultimately show ?thesis
    using False by (auto simp: public_tool_name_def name_ok_def Let_def MAX_TOOL_NAME_LENGTH_def name_char_def)
qed

definition plain_tool :: "pystr \<Rightarrow> tool_definition" where
  "plain_tool s = \<lparr>td_id = s, td_name = s, td_description = [], td_permission = lit ''read'', td_source = lit ''mcp'', td_input_schema = PNone, td_metadata = PNone\<rparr>"

theorem public_tool_name_ok_witness:
  "hex_digest (\<lambda>_. replicate 64 48) \<and> name_ok (public_tool_name (\<lambda>_. replicate 64 48) (plain_tool (97 # replicate 300 46)))"
proof -
  have "hex_digest (\<lambda>_. replicate 64 48)" by (simp add: hex_digest_def list_all_iff)
  with public_tool_name_ok show ?thesis by blast
qed

section \<open>Snapshots are unambiguous\<close>

lemma publish_all_Cons_iff:
  "publish_all sha (d # ds) ns = Inr ns' \<longleftrightarrow> \<not> reserved_preference_name (public_tool_name sha d)
     \<and> (\<forall>x. ns_by_name ns (public_tool_name sha d) = Some x \<longrightarrow> td_id x = td_id d)
     \<and> publish_all sha ds (add_entry (public_tool_name sha d) d ns) = Inr ns'"
  by (cases "ns_by_name ns (public_tool_name sha d)") (simp_all add: Let_def)

lemma add_entry_simps [simp]:
  "ns_entries (add_entry n d ns) = ns_entries ns @ [(n, d)]" "ns_by_name (add_entry n d ns) = (ns_by_name ns)(n \<mapsto> d)"
  by (simp_all add: add_entry_def)

lemma publish_all_entries: "publish_all sha ds ns = Inr ns' \<Longrightarrow> ns_entries ns' = ns_entries ns @ map (\<lambda>d. (public_tool_name sha d, d)) ds"
proof (induction ds arbitrary: ns)
  case (Cons a ds)
  have "publish_all sha ds (add_entry (public_tool_name sha a) a ns) = Inr ns'"
    using Cons.prems unfolding publish_all_Cons_iff by (elim conjE)
  from Cons.IH [OF this] show ?case by simp
qed simp

lemma publish_all_kept:
  "publish_all sha ds ns = Inr ns' \<Longrightarrow> ns_by_name ns n = Some d \<Longrightarrow> \<exists>x. ns_by_name ns' n = Some x \<and> td_id x = td_id d"
proof (induction ds arbitrary: ns d)
  case (Cons a ds)
  let ?ns = "add_entry (public_tool_name sha a) a ns"
  have step: "publish_all sha ds ?ns = Inr ns'" "\<And>x. ns_by_name ns (public_tool_name sha a) = Some x \<Longrightarrow> td_id x = td_id a"
    using Cons.prems(1) unfolding publish_all_Cons_iff by simp_all
  show ?case
  proof (cases "n = public_tool_name sha a")
    case True
    with step(2) Cons.prems(2) have "td_id d = td_id a" by (simp only:)
    moreover from True have "ns_by_name ?ns n = Some a" by simp
    ultimately show ?thesis using Cons.IH [OF step(1), of a] by (simp only:)
  next
    case False
    then show ?thesis using Cons.IH [OF step(1), of d] Cons.prems(2) by simp
  qed
qed simp

lemma publish_all_reads:
  "publish_all sha ds ns = Inr ns' \<Longrightarrow> d \<in> set ds \<Longrightarrow>
   \<not> reserved_preference_name (public_tool_name sha d) \<and> (\<exists>x. ns_by_name ns' (public_tool_name sha d) = Some x \<and> td_id x = td_id d)"
proof (induction ds arbitrary: ns)
  case (Cons a ds)
  let ?ns = "add_entry (public_tool_name sha a) a ns"
  have step: "\<not> reserved_preference_name (public_tool_name sha a)" "publish_all sha ds ?ns = Inr ns'"
    using Cons.prems(1) unfolding publish_all_Cons_iff by simp_all
  have "\<exists>x. ns_by_name ns' (public_tool_name sha a) = Some x \<and> td_id x = td_id a"
    by (rule publish_all_kept [OF step(2)]) simp
  with step Cons.IH [OF step(2)] Cons.prems(2) show ?case by (cases "d = a") simp_all
qed simp

lemma publish_all_members:
  "publish_all sha ds ns = Inr ns' \<Longrightarrow> ns_by_name ns' n = Some d \<Longrightarrow>
   ns_by_name ns n = Some d \<or> d \<in> set ds \<and> public_tool_name sha d = n"
proof (induction ds arbitrary: ns)
  case (Cons a ds)
  have "publish_all sha ds (add_entry (public_tool_name sha a) a ns) = Inr ns'"
    using Cons.prems(1) unfolding publish_all_Cons_iff by (elim conjE)
  from Cons.IH [OF this Cons.prems(2)] show ?case
  proof
    assume old: "ns_by_name (add_entry (public_tool_name sha a) a ns) n = Some d"
    show ?thesis
    proof (cases "n = public_tool_name sha a")
      case True
      with old have "d = a" by simp
      with True show ?thesis by simp
    qed (use old in simp)
  qed simp
qed simp

definition unambiguous :: "(pystr \<Rightarrow> pystr) \<Rightarrow> tool_definition set \<Rightarrow> bool" where
  "unambiguous sha S \<longleftrightarrow> (\<forall>d \<in> S. \<forall>d' \<in> S. public_tool_name sha d = public_tool_name sha d' \<longrightarrow> td_id d = td_id d')"

lemma unambiguousD: "unambiguous sha S \<Longrightarrow> d \<in> S \<Longrightarrow> d' \<in> S \<Longrightarrow> public_tool_name sha d = public_tool_name sha d' \<Longrightarrow> td_id d = td_id d'"
  unfolding unambiguous_def by blast

lemma publish_all_complete:
  assumes "\<And>n x. ns_by_name ns n = Some x \<Longrightarrow> public_tool_name sha x = n \<and> x \<in> S" and "set ds \<subseteq> S" and "unambiguous sha S"
    and "\<And>d. d \<in> set ds \<Longrightarrow> \<not> reserved_preference_name (public_tool_name sha d)"
  shows "\<exists>ns'. publish_all sha ds ns = Inr ns'"
  using assms
proof (induction ds arbitrary: ns)
  case (Cons d ds)
  let ?ns = "add_entry (public_tool_name sha d) d ns"
  have "public_tool_name sha x = n \<and> x \<in> S" if "ns_by_name ?ns n = Some x" for n x
  proof (cases "n = public_tool_name sha d")
    case True
    with that have "x = d" by simp
    with True Cons.prems(2) show ?thesis by simp
  next
    case False
    with that show ?thesis by (intro Cons.prems(1)) simp
  qed
  moreover have "set ds \<subseteq> S" using Cons.prems(2) by simp
  moreover have "\<not> reserved_preference_name (public_tool_name sha x)" if "x \<in> set ds" for x using Cons.prems(4) that by simp
  ultimately obtain ns' where ns': "publish_all sha ds ?ns = Inr ns'" using Cons.IH [of ?ns, OF _ _ Cons.prems(3)] by blast
  have "td_id x = td_id d" if "ns_by_name ns (public_tool_name sha d) = Some x" for x
    using unambiguousD [OF Cons.prems(3), of x d] Cons.prems(1) [OF that] Cons.prems(2) by simp
  moreover have "\<not> reserved_preference_name (public_tool_name sha d)" using Cons.prems(4) by simp
  ultimately show ?case using ns' unfolding publish_all_Cons_iff by blast
qed simp

lemma tool_namespace_iff:
  "(\<exists>ns. tool_namespace sha ds = Inr ns) \<longleftrightarrow>
     (\<forall>d \<in> set ds. \<not> reserved_preference_name (public_tool_name sha d)) \<and> unambiguous sha (set ds)"
proof
  assume "\<exists>ns. tool_namespace sha ds = Inr ns"
  then obtain ns where "publish_all sha (sort_key entry_order ds) \<lparr>ns_entries = [], ns_by_name = Map.empty\<rparr> = Inr ns" unfolding tool_namespace_def by blast
  note R = publish_all_reads [OF this, simplified]
  have "td_id d = td_id d'" if d: "d \<in> set ds" "d' \<in> set ds" "public_tool_name sha d = public_tool_name sha d'" for d d'
  proof -
    obtain x where x: "ns_by_name ns (public_tool_name sha d) = Some x" "td_id x = td_id d" using R [OF d(1)] by blast
    obtain y where y: "ns_by_name ns (public_tool_name sha d') = Some y" "td_id y = td_id d'" using R [OF d(2)] by blast
    from x(1) y(1) d(3) have "x = y" by (simp only: option.inject)
    with x(2) y(2) show ?thesis by (simp only:)
  qed
  then show "(\<forall>d \<in> set ds. \<not> reserved_preference_name (public_tool_name sha d)) \<and> unambiguous sha (set ds)"
    using R unfolding unambiguous_def by blast
next
  assume "(\<forall>d \<in> set ds. \<not> reserved_preference_name (public_tool_name sha d)) \<and> unambiguous sha (set ds)"
  then show "\<exists>ns. tool_namespace sha ds = Inr ns"
    unfolding tool_namespace_def by (intro publish_all_complete [where S = "set ds"]) simp_all
qed

lemma sort_key_unique:
  assumes "mset xs = mset ys" and "distinct (map f xs)"
  shows "sort_key f xs = sort_key f ys"
proof (rule map_inj_on)
  have "mset (map f (sort_key f xs)) = mset (map f (sort_key f ys))" using assms(1) by simp
  then show "map f (sort_key f xs) = map f (sort_key f ys)"
    by (metis properties_for_sort sorted_sort_key)
  show "inj_on f (set (sort_key f xs) \<union> set (sort_key f ys))"
    using assms mset_eq_setD [OF assms(1)] by (simp add: distinct_map)
qed

text \<open>
  C34: the published names are an unambiguous projection of the registry.  A snapshot is published exactly when no definition takes a
  reserved name and definitions with the same name have the same id; otherwise it is refused.  A published snapshot lists every
  definition once under its own name, in order; looking up a definition's name gives a definition with its id, and
  whatever a name resolves to is a definition of the snapshot with that name.  For distinct ids the outcome, names and errors alike,
  does not depend on the order of registration.
\<close>
theorem tool_namespace_exact:
  "((\<exists>ns. tool_namespace sha ds = Inr ns) \<longleftrightarrow>
      (\<forall>d \<in> set ds. \<not> reserved_preference_name (public_tool_name sha d)) \<and> unambiguous sha (set ds))
   \<and> (\<forall>ns. tool_namespace sha ds = Inr ns \<longrightarrow>
        ns_entries ns = map (\<lambda>d. (public_tool_name sha d, d)) (sort_key entry_order ds)
        \<and> (\<forall>d \<in> set ds. \<exists>x. resolve ns (public_tool_name sha d) = Some x \<and> td_id x = td_id d)
        \<and> (\<forall>n d. resolve ns n = Some d \<longrightarrow> d \<in> set ds \<and> public_tool_name sha d = n))
   \<and> (mset ds = mset ds' \<and> distinct (map td_id ds) \<longrightarrow> tool_namespace sha ds' = tool_namespace sha ds)"
proof (intro conjI allI impI tool_namespace_iff)
  fix ns assume ns: "tool_namespace sha ds = Inr ns"
  note ns = ns [unfolded tool_namespace_def]
  show "ns_entries ns = map (\<lambda>d. (public_tool_name sha d, d)) (sort_key entry_order ds)" using publish_all_entries [OF ns] by simp
  show "\<forall>d \<in> set ds. \<exists>x. resolve ns (public_tool_name sha d) = Some x \<and> td_id x = td_id d"
    using publish_all_reads [OF ns] by (simp add: resolve_def)
  show "d \<in> set ds" "public_tool_name sha d = n" if "resolve ns n = Some d" for n d
    using publish_all_members [OF ns, of n d] that by (simp_all add: resolve_def)
next
  assume same: "mset ds = mset ds' \<and> distinct (map td_id ds)"
  then have "distinct (map entry_order ds)" by (auto simp: distinct_map inj_on_def entry_order_def)
  with sort_key_unique [of ds ds' entry_order] same show "tool_namespace sha ds' = tool_namespace sha ds" by (simp add: tool_namespace_def)
qed

theorem tool_namespace_exact_witness:
  "(\<exists>ns. tool_namespace (\<lambda>_. []) [plain_tool (lit ''a.b''), plain_tool (lit ''a'')] = Inr ns
      \<and> (\<exists>x. resolve ns (lit ''a__b'') = Some x \<and> td_id x = lit ''a.b''))
   \<and> \<not> (\<exists>ns. tool_namespace (\<lambda>_. []) [plain_tool (lit ''a.b''), plain_tool (lit ''a__b'')] = Inr ns)
   \<and> tool_namespace (\<lambda>_. []) [plain_tool (lit ''a''), plain_tool (lit ''a.b'')] = tool_namespace (\<lambda>_. []) [plain_tool (lit ''a.b''), plain_tool (lit ''a'')]"
proof -
  have names: "public_tool_name (\<lambda>_. []) (plain_tool (lit ''a.b'')) = lit ''a__b''" "public_tool_name (\<lambda>_. []) (plain_tool (lit ''a'')) = lit ''a''"
    "public_tool_name (\<lambda>_. []) (plain_tool (lit ''a__b'')) = lit ''a__b''"
    "\<not> reserved_preference_name (lit ''a__b'')" "\<not> reserved_preference_name (lit ''a'')" "lit ''a__b'' \<noteq> lit ''a''" "lit ''a.b'' \<noteq> lit ''a''"
    "lit ''a.b'' \<noteq> lit ''a__b''"
    by code_simp+
  have ids: "td_id (plain_tool s) = s" for s by (simp add: plain_tool_def)
  note E = tool_namespace_exact [of "\<lambda>_. []"]
  have "\<exists>ns. tool_namespace (\<lambda>_. []) [plain_tool (lit ''a.b''), plain_tool (lit ''a'')] = Inr ns"
    using conjunct1 [OF E [of "[plain_tool (lit ''a.b''), plain_tool (lit ''a'')]"]] by (simp add: names ids unambiguous_def)
  then obtain ns where ns: "tool_namespace (\<lambda>_. []) [plain_tool (lit ''a.b''), plain_tool (lit ''a'')] = Inr ns" by blast
  moreover have "\<exists>x. resolve ns (lit ''a__b'') = Some x \<and> td_id x = lit ''a.b''"
    using bspec [OF conjunct1 [OF conjunct2 [OF mp [OF spec [OF conjunct1 [OF conjunct2 [OF E]]] ns]]], of "plain_tool (lit ''a.b'')"]
    by (simp add: names ids)
  moreover have "\<not> (\<exists>ns. tool_namespace (\<lambda>_. []) [plain_tool (lit ''a.b''), plain_tool (lit ''a__b'')] = Inr ns)"
    using conjunct1 [OF E [of "[plain_tool (lit ''a.b''), plain_tool (lit ''a__b'')]"]] by (simp add: names ids unambiguous_def)
  moreover have "tool_namespace (\<lambda>_. []) [plain_tool (lit ''a''), plain_tool (lit ''a.b'')] = tool_namespace (\<lambda>_. []) [plain_tool (lit ''a.b''), plain_tool (lit ''a'')]"
    using E [of "[plain_tool (lit ''a.b''), plain_tool (lit ''a'')]" "[plain_tool (lit ''a''), plain_tool (lit ''a.b'')]"] by (simp add: names ids)
  ultimately show ?thesis by blast
qed

end
