(* ===== verification/External_Identity.thy ===== *)
theory External_Identity
  imports OAuth_Tokens
begin

text \<open>
  External trust: \<^verbatim>\<open>external_connection.py\<close> (the trust configuration and its checks), \<^verbatim>\<open>external_jwt.py\<close> (the bearer verifier with
  its cache of pinned keys) and \<^verbatim>\<open>external_connection_store.py\<close> (configuration revisions, subject links and the users'
  delegations).  PyJWT, the RSA key loader and the JWKS download are parameters; time is an argument.
\<close>

section \<open>Trust configuration\<close>

record connection_config =
  ec_enabled :: bool
  ec_mode :: pystr
  ec_endpoint :: "pystr option"
  ec_canonical :: "pystr option"
  ec_tunnel :: "pystr option"
  ec_secret :: "pystr option"
  ec_issuers :: "pystr list"
  ec_jwks :: "(pystr \<times> pystr) list"
  ec_clients :: "pystr list"
  ec_mappings :: "(pystr \<times> pystr) list"

definition disabled_connection :: connection_config where
  "disabled_connection = \<lparr>ec_enabled = False, ec_mode = lit ''disabled'', ec_endpoint = None, ec_canonical = None, ec_tunnel = None,
     ec_secret = None, ec_issuers = [], ec_jwks = [], ec_clients = [], ec_mappings = []\<rparr>"

text \<open>An optional text that is \<^verbatim>\<open>None\<close> or empty counts as missing.\<close>

definition given :: "pystr option \<Rightarrow> bool" where
  "given v = (case v of None \<Rightarrow> False | Some s \<Rightarrow> s \<noteq> [])"

definition canonical_url :: "connection_config \<Rightarrow> pystr" where
  "canonical_url c = (if given (ec_canonical c) then the (ec_canonical c) else if given (ec_endpoint c) then the (ec_endpoint c) else [])"

definition validation_errors :: "(pystr \<Rightarrow> bool) \<Rightarrow> connection_config \<Rightarrow> pystr list" where
  "validation_errors https c =
     (if ec_mode c = lit ''disabled'' then [lit ''transport_not_configured'']
      else if ec_mode c = lit ''direct'' \<and> (\<not> given (ec_endpoint c) \<or> \<not> https (the (ec_endpoint c))) then [lit ''https_endpoint_required'']
      else if ec_mode c = lit ''secure_mcp_tunnel'' \<and> \<not> given (ec_tunnel c) then [lit ''tunnel_reference_required''] else [])
     @ (if ec_mode c = lit ''secure_mcp_tunnel'' \<and> \<not> given (ec_secret c) then [lit ''runtime_secret_reference_required''] else [])
     @ (if ec_issuers c = [] \<or> \<not> list_all https (ec_issuers c) then [lit ''trusted_issuer_required''] else [])
     @ (if ec_mappings c = [] \<or> \<not> list_all (\<lambda>(x, y). https x \<and> https y) (ec_mappings c) then [lit ''trusted_resource_mapping_required''] else [])
     @ (if distinct (map fst (ec_mappings c)) then [] else [lit ''ambiguous_resource_mapping''])
     @ (if canonical_url c = [] \<or> \<not> https (canonical_url c) \<or> list_ex (\<lambda>(_, y). y \<noteq> canonical_url c) (ec_mappings c)
        then [lit ''canonical_resource_required''] else [])
     @ (if ec_jwks c = [] \<or> \<not> distinct (map fst (ec_jwks c)) \<or> set (map fst (ec_jwks c)) \<noteq> set (ec_issuers c)
           \<or> \<not> list_all (\<lambda>(_, u). https u) (ec_jwks c) then [lit ''trusted_jwks_mapping_required''] else [])
     @ (if ec_clients c = [] \<or> length (ec_clients c) > 100 \<or> list_ex (\<lambda>x. x = [] \<or> length x > 256) (ec_clients c)
        then [lit ''trusted_client_required''] else [])
     @ (if length (ec_issuers c) > 20 \<or> length (ec_mappings c) > 20 then [lit ''too_many_trust_entries''] else [])"

definition canonical_resource :: "(pystr \<Rightarrow> bool) \<Rightarrow> connection_config \<Rightarrow> pyval \<Rightarrow> pystr option" where
  "canonical_resource https c audience =
     (if lit ''ambiguous_resource_mapping'' \<in> set (validation_errors https c) then None
      else map_option snd (find (\<lambda>(x, y). audience = PStr x \<and> https x \<and> https y) (ec_mappings c)))"

section \<open>Signing keys\<close>

record rsa_key =
  rk_modulus :: nat
  rk_exponent :: nat

text \<open>
  \<open>xe_url\<close> supplies \<^verbatim>\<open>urlsplit\<close>; \<open>xe_header\<close> and \<open>xe_unverified\<close> are PyJWT's unverified header and claims, \<open>xe_decode\<close> its verified decoding
  under a key, accepted audiences, an issuer and the time; \<open>xe_jwk\<close> is \<^verbatim>\<open>PyJWK.from_dict\<close> of an RSA entry, \<open>None\<close> when
  it raises.
\<close>

record ext_env =
  xe_url :: oauth_env
  xe_float :: "pyfloat \<Rightarrow> pystr"
  xe_header :: "pystr \<Rightarrow> dict option"
  xe_unverified :: "pystr \<Rightarrow> dict option"
  xe_decode :: "rsa_key \<Rightarrow> pystr \<Rightarrow> pystr list \<Rightarrow> pystr \<Rightarrow> rat \<Rightarrow> dict option"
  xe_jwk :: "dict \<Rightarrow> rsa_key option"

datatype ext_error =
    Jwt_error pystr         \<comment> \<open>\<^verbatim>\<open>ExternalJwtError\<close>\<close>
  | Identity_not_found      \<comment> \<open>\<^verbatim>\<open>ExternalIdentityNotFound\<close>\<close>
  | Revision_conflict       \<comment> \<open>\<^verbatim>\<open>DraftRevisionConflict\<close>\<close>
  | Not_found               \<comment> \<open>\<^verbatim>\<open>KeyError\<close>\<close>
  | Constraint_violated     \<comment> \<open>\<^verbatim>\<open>sqlite3.IntegrityError\<close>\<close>

definition jwt_error :: "string \<Rightarrow> ext_error" where
  "jwt_error s = Jwt_error (lit s)"

definition MAX_JWKS_BYTES :: int where "MAX_JWKS_BYTES = 256 * 1024"
definition JWKS_CACHE_SECONDS :: rat where "JWKS_CACHE_SECONDS = 300"
definition JWKS_REFRESH_INTERVAL :: rat where "JWKS_REFRESH_INTERVAL = 30"
definition MAX_TOKEN_BYTES :: nat where "MAX_TOKEN_BYTES = 16 * 1024"

text \<open>\<^verbatim>\<open>len(json.dumps(v).encode())\<close>: default separators, everything outside printable ASCII escaped.\<close>

definition ascii_cost :: "nat \<Rightarrow> int" where
  "ascii_cost c =
     (if c \<in> {34, 92, 8, 9, 10, 12, 13} then 2 else if 32 \<le> c \<and> c < 127 then 1 else if c < 65536 then 6 else 12)"

function dumps_len :: "(pyfloat \<Rightarrow> pystr) \<Rightarrow> pyval \<Rightarrow> int" where
  "dumps_len fr v =
     (case v of
        PNone \<Rightarrow> 4
      | PBool b \<Rightarrow> if b then 4 else 5
      | PInt i \<Rightarrow> int (length (int_str i))
      | PFloat f \<Rightarrow> int (length (fr f))
      | PStr s \<Rightarrow> 2 + sum_list (map ascii_cost s)
      | PList xs \<Rightarrow> 2 + sum_list (map (dumps_len fr) xs) + 2 * int (length xs - 1)
      | PTuple xs \<Rightarrow> 2 + sum_list (map (dumps_len fr) xs) + 2 * int (length xs - 1)
      | PDict kvs \<Rightarrow> 2 + sum_list (map (\<lambda>(k, c). dumps_len fr k + 2 + dumps_len fr c) kvs) + 2 * int (length kvs - 1)
      | PProxy kvs \<Rightarrow> 2 + sum_list (map (\<lambda>(k, c). dumps_len fr k + 2 + dumps_len fr c) kvs) + 2 * int (length kvs - 1)
      | POther \<Rightarrow> 0)"
  by pat_completeness auto
termination
  by (relation "measure (size \<circ> snd)") (auto dest: size_pair_mem size_elem_mem)

declare dumps_len.simps [simp del]

definition default_str :: "dict \<Rightarrow> string \<Rightarrow> string \<Rightarrow> pyval" where
  "default_str d k x = (case dict_get d (lit k) of None \<Rightarrow> PStr (lit x) | Some v \<Rightarrow> v)"

text \<open>Entries the loop skips: another key type, algorithm, use or set of operations.\<close>

definition skipped_key :: "dict \<Rightarrow> bool" where
  "skipped_key d \<longleftrightarrow> dict_get_none d (lit ''kty'') \<noteq> PStr (lit ''RSA'') \<or> default_str d ''alg'' ''RS256'' \<noteq> PStr (lit ''RS256'')
     \<or> default_str d ''use'' ''sig'' \<noteq> PStr (lit ''sig'')
     \<or> (case dict_get d (lit ''key_ops'') of None \<Rightarrow> False | Some v \<Rightarrow> v \<noteq> PList [PStr (lit ''verify'')])"

fun parse_key_items :: "ext_env \<Rightarrow> pyval list \<Rightarrow> (pystr \<times> rsa_key) list \<Rightarrow> ext_error + (pystr \<times> rsa_key) list" where
  "parse_key_items e [] keys = Inr keys"
| "parse_key_items e (v # vs) keys =
     (case v of
        PDict d \<Rightarrow>
          if skipped_key d then parse_key_items e vs keys
          else (case dict_get d (lit ''kid'') of
                  Some (PStr kid) \<Rightarrow>
                    if kid = [] \<or> length kid > 256 \<or> kid \<in> set (map fst keys) then Inl (jwt_error ''ambiguous trusted JWKS key id'')
                    else if list_ex (\<lambda>f. dict_get d (lit f) \<noteq> None) [''d'', ''p'', ''q'', ''dp'', ''dq'', ''qi'']
                      then Inl (jwt_error ''trusted JWKS must contain public keys only'')
                    else (case xe_jwk e d of
                            None \<Rightarrow> Inl (jwt_error ''trusted JWKS unavailable'')
                          | Some k \<Rightarrow> if bit_length (rk_modulus k) < 2048 then Inl (jwt_error ''unsafe trusted JWKS key'')
                                      else parse_key_items e vs (keys @ [(kid, k)]))
                | _ \<Rightarrow> Inl (jwt_error ''ambiguous trusted JWKS key id''))
      | _ \<Rightarrow> Inl (jwt_error ''invalid trusted JWKS''))"

definition parse_keys :: "ext_env \<Rightarrow> dict \<Rightarrow> ext_error + (pystr \<times> rsa_key) list" where
  "parse_keys e payload =
     (if dumps_len (xe_float e) (PDict payload) > MAX_JWKS_BYTES then Inl (jwt_error ''trusted JWKS exceeds size limit'')
      else (case dict_get payload (lit ''keys'') of
              Some (PList items) \<Rightarrow>
                if \<not> (1 \<le> length items \<and> length items \<le> 64) then Inl (jwt_error ''invalid trusted JWKS'')
                else bindR (parse_key_items e items []) (\<lambda>keys.
                       if keys = [] then Inl (jwt_error ''trusted JWKS has no supported signing keys'') else Inr keys)
            | _ \<Rightarrow> Inl (jwt_error ''invalid trusted JWKS'')))"

text \<open>\<open>None\<close> as the fetch time is \<^verbatim>\<open>float("-inf")\<close>: no keys were ever fetched.\<close>

record cached_keys =
  ck_keys :: "(pystr \<times> rsa_key) list"
  ck_fetched :: "rat option"
  ck_attempted :: rat

type_synonym key_cache = "(pystr \<times> pystr) \<rightharpoonup> cached_keys"

definition trusted_only :: "connection_config \<Rightarrow> key_cache \<Rightarrow> key_cache" where
  "trusted_only c cache = cache |` set (ec_jwks c)"

definition fresh_entry :: "rat \<Rightarrow> cached_keys \<Rightarrow> bool" where
  "fresh_entry now k = (case ck_fetched k of None \<Rightarrow> False | Some t \<Rightarrow> now - t < JWKS_CACHE_SECONDS)"

text \<open>
  \<^verbatim>\<open>_key\<close>.  \<open>busy\<close> says that the issuer's lock was not obtained in time; \<open>fetch\<close> is the download's outcome.  The third component of the
  result says whether the download was started.
\<close>

definition jwks_key :: "ext_env \<Rightarrow> rat \<Rightarrow> bool \<Rightarrow> (pystr \<Rightarrow> ext_error + dict) \<Rightarrow> connection_config \<Rightarrow> pystr \<Rightarrow> pystr \<Rightarrow> pystr \<Rightarrow> key_cache \<Rightarrow>
    (ext_error + rsa_key) \<times> key_cache \<times> bool" where
  "jwks_key e now busy fetch c issuer uri kid cache0 =
     (let pair = (issuer, uri); cache = trusted_only c cache0 in
      if busy then (Inl (jwt_error ''external key refresh busy''), cache, False)
      else
        (let entry = cache pair; fresh = (case entry of None \<Rightarrow> False | Some k \<Rightarrow> fresh_entry now k);
             known = (case entry of None \<Rightarrow> None | Some k \<Rightarrow> if fresh then map_of (ck_keys k) kid else None)
         in case known of
              Some key \<Rightarrow> (Inr key, cache, False)
            | None \<Rightarrow>
                if (case entry of None \<Rightarrow> False | Some k \<Rightarrow> now - ck_attempted k < JWKS_REFRESH_INTERVAL)
                then (Inl (jwt_error ''external key unavailable; retry later''), cache, False)
                else
                  (let marked = (case entry of
                                   Some k \<Rightarrow> if fresh then k\<lparr>ck_attempted := now\<rparr> else \<lparr>ck_keys = [], ck_fetched = None, ck_attempted = now\<rparr>
                                 | None \<Rightarrow> \<lparr>ck_keys = [], ck_fetched = None, ck_attempted = now\<rparr>)
                   in case bindR (fetch uri) (parse_keys e) of
                        Inl x \<Rightarrow> (Inl x, cache(pair \<mapsto> marked), True)
                      | Inr keys \<Rightarrow>
                          ((case map_of keys kid of None \<Rightarrow> Inl (jwt_error ''unknown external key id'') | Some key \<Rightarrow> Inr key),
                           cache(pair \<mapsto> \<lparr>ck_keys = keys, ck_fetched = Some now, ck_attempted = now\<rparr>), True))))"

section \<open>Bearer verification\<close>

record ext_identity =
  ei_issuer :: pystr
  ei_subject :: pystr
  ei_client :: pystr
  ei_audiences :: "pyval list"
  ei_scopes :: "pystr list"
  ei_expires :: rat
  ei_resource :: pystr
  ei_jwks :: pystr

definition header_ok :: "dict \<Rightarrow> bool" where
  "header_ok h \<longleftrightarrow> dict_get h (lit ''alg'') = Some (PStr (lit ''RS256''))
     \<and> default_str h ''typ'' ''JWT'' \<in> {PStr (lit ''JWT''), PStr (lit ''at+jwt'')}
     \<and> \<not> list_ex (\<lambda>f. dict_get h (lit f) \<noteq> None) [''jku'', ''x5u'', ''jwk'', ''crit'']"

definition access_claims :: "dict \<Rightarrow> dict \<Rightarrow> bool" where
  "access_claims h cl \<longleftrightarrow> dict_get_none cl (lit ''token_use'') \<in> {PNone, PStr (lit ''access'')}
     \<and> (dict_get h (lit ''typ'') = Some (PStr (lit ''at+jwt'')) \<or> dict_get cl (lit ''token_use'') = Some (PStr (lit ''access'')))"

definition audience_values :: "pyval \<Rightarrow> pyval list" where
  "audience_values v = (case v of PStr s \<Rightarrow> [PStr s] | PList xs \<Rightarrow> xs | PTuple xs \<Rightarrow> xs | PDict d \<Rightarrow> map fst d | _ \<Rightarrow> [])"

definition bound_client :: "dict \<Rightarrow> ext_error + pyval" where
  "bound_client cl =
     (let client = dict_get_none cl (lit ''client_id''); party = dict_get_none cl (lit ''azp'') in
      if client \<noteq> PNone \<and> party \<noteq> PNone \<and> client \<noteq> party then Inl (jwt_error ''external client binding mismatch'')
      else Inr (if client \<noteq> PNone then client else party))"

definition expiry_time :: "pyval \<Rightarrow> rat option" where
  "expiry_time v =
     (case (case v of PInt i \<Rightarrow> Some (of_int i) | PFloat (Finite r) \<Rightarrow> Some r | PFloat NegZero \<Rightarrow> Some 0 | _ \<Rightarrow> None) of
        None \<Rightarrow> None
      | Some t \<Rightarrow> if -62135596800 \<le> t \<and> t < 253402300800 then Some t else None)"

text \<open>The checks after PyJWT accepted the token.\<close>

definition identity_of :: "(pystr \<Rightarrow> bool) \<Rightarrow> connection_config \<Rightarrow> pystr \<Rightarrow> pystr \<Rightarrow> dict \<Rightarrow> dict \<Rightarrow> ext_error + ext_identity" where
  "identity_of https c issuer uri h cl =
     (if \<not> access_claims h cl then Inl (jwt_error ''external bearer is not an access token'')
      else (case dict_get cl (lit ''sub'') of
        Some (PStr subject) \<Rightarrow>
          if subject = [] \<or> length subject > 512 then Inl (jwt_error ''invalid external subject'')
          else (let auds = audience_values (dict_get_none cl (lit ''aud'')) in
            if auds = [] \<or> list_ex (\<lambda>a. canonical_resource https c a = None) auds then Inl (jwt_error ''external audience mapping mismatch'')
            else bindR (bound_client cl) (\<lambda>client.
              case client of
                PStr cid \<Rightarrow>
                  if cid = [] \<or> cid \<notin> set (ec_clients c) then Inl (jwt_error ''untrusted external client'')
                  else (case dict_get cl (lit ''scope'') of
                    Some (PStr scope) \<Rightarrow>
                      if length scope > 4096 \<or> list_ex (\<lambda>x. x < 32) scope then Inl (jwt_error ''invalid external scope'')
                      else (case expiry_time (dict_get_none cl (lit ''exp'')) of
                        None \<Rightarrow> Inl (jwt_error ''invalid external expiry'')
                      | Some t \<Rightarrow> Inr \<lparr>ei_issuer = issuer, ei_subject = subject, ei_client = cid, ei_audiences = auds,
                          ei_scopes = sorted_set (filter (\<lambda>s. s \<noteq> []) (split_on 32 scope)), ei_expires = t,
                          ei_resource = (case canonical_resource https c (hd auds) of None \<Rightarrow> [] | Some r \<Rightarrow> r), ei_jwks = uri\<rparr>)
                  | _ \<Rightarrow> Inl (jwt_error ''invalid external scope''))
              | _ \<Rightarrow> Inl (jwt_error ''untrusted external client'')))
      | _ \<Rightarrow> Inl (jwt_error ''invalid external subject'')))"

definition external_verify :: "ext_env \<Rightarrow> rat \<Rightarrow> rat \<Rightarrow> bool \<Rightarrow> (pystr \<Rightarrow> ext_error + dict) \<Rightarrow> connection_config \<Rightarrow> pystr \<Rightarrow> key_cache \<Rightarrow>
    (ext_error + ext_identity) \<times> key_cache" where
  "external_verify e now clock busy fetch c bearer cache =
     (let https = https_resource (xe_url e); invalid = jwt_error ''invalid external bearer'' in
      if \<not> ec_enabled c \<or> validation_errors https c \<noteq> [] then (Inl (jwt_error ''external authentication is disabled or unconfigured''), cache)
      else if bearer = [] \<or> length bearer > MAX_TOKEN_BYTES \<or> sql_count (\<lambda>x. x = 46) bearer \<noteq> 2 then (Inl invalid, cache)
      else (case xe_header e bearer of
        None \<Rightarrow> (Inl invalid, cache)
      | Some h \<Rightarrow>
          if \<not> header_ok h then (Inl (jwt_error ''unsupported external bearer header''), cache)
          else (case dict_get h (lit ''kid'') of
            Some (PStr kid) \<Rightarrow>
              if kid = [] \<or> length kid > 256 then (Inl (jwt_error ''invalid external bearer key id''), cache)
              else (case xe_unverified e bearer of
                None \<Rightarrow> (Inl invalid, cache)
              | Some raw \<Rightarrow>
                  (case dict_get raw (lit ''iss'') of
                    Some (PStr issuer) \<Rightarrow>
                      if issuer \<notin> set (ec_issuers c) then (Inl (jwt_error ''untrusted external issuer''), cache)
                      else (case map_of (rev (ec_jwks c)) issuer of
                        None \<Rightarrow> (Inl (jwt_error ''unconfigured external issuer''), cache)
                      | Some uri \<Rightarrow>
                          if uri = [] then (Inl (jwt_error ''unconfigured external issuer''), cache)
                          else (case jwks_key e clock busy fetch c issuer uri kid cache of
                            (Inl x, cache', _) \<Rightarrow> (Inl x, cache')
                          | (Inr key, cache', _) \<Rightarrow>
                              (case xe_decode e key bearer (map fst (ec_mappings c)) issuer now of
                                None \<Rightarrow> (Inl invalid, cache')
                              | Some cl \<Rightarrow> (identity_of https c issuer uri h cl, cache'))))
                  | _ \<Rightarrow> (Inl (jwt_error ''untrusted external issuer''), cache)))
          | _ \<Rightarrow> (Inl (jwt_error ''invalid external bearer key id''), cache))))"

section \<open>Configuration, subject links and delegations\<close>

record grant_payload =
  gp_enabled :: bool
  gp_client :: pystr
  gp_servers :: "pystr list"
  gp_tools :: "pystr list"
  gp_access :: "pystr list"
  gp_expires :: rat
  gp_rate :: int
  gp_concurrency :: int
  gp_version :: int

record ext_grant =
  eg_id :: pystr
  eg_user :: pystr
  eg_payload :: grant_payload
  eg_revision :: int
  eg_revoked :: "rat option"
  eg_created :: rat
  eg_updated :: rat

record subject_link =
  sl_id :: pystr
  sl_issuer :: pystr
  sl_subject :: pystr
  sl_user :: pystr
  sl_enabled :: bool
  sl_revision :: int
  sl_created :: rat
  sl_updated :: rat

record ext_db =
  xd_config :: "(connection_config \<times> int \<times> rat) option"
  xd_grants :: "ext_grant list"
  xd_links :: "subject_link list"

definition empty_ext :: ext_db where
  "empty_ext = \<lparr>xd_config = None, xd_grants = [], xd_links = []\<rparr>"

text \<open>The \<^verbatim>\<open>users\<close> table as the store reads it: the status of a user, \<open>None\<close> for an unknown id.\<close>

type_synonym user_status = "pystr \<rightharpoonup> pystr"

definition configuration :: "ext_db \<Rightarrow> connection_config" where
  "configuration db = (case xd_config db of None \<Rightarrow> disabled_connection | Some (c, _, _) \<Rightarrow> c)"

definition config_revision :: "ext_db \<Rightarrow> int" where
  "config_revision db = (case xd_config db of None \<Rightarrow> 0 | Some (_, r, _) \<Rightarrow> r)"

definition save_connection :: "rat \<Rightarrow> connection_config \<Rightarrow> int \<Rightarrow> ext_db \<Rightarrow> ext_error + ext_db" where
  "save_connection now c expected db =
     (if config_revision db \<noteq> expected then Inl Revision_conflict
      else Inr (db\<lparr>xd_config := Some (c, config_revision db + 1, now)\<rparr>))"

definition live_grant :: "rat \<Rightarrow> pystr \<Rightarrow> pystr \<Rightarrow> ext_grant \<Rightarrow> bool" where
  "live_grant now user client g \<longleftrightarrow> eg_user g = user \<and> eg_revoked g = None \<and> gp_enabled (eg_payload g)
     \<and> gp_client (eg_payload g) = client \<and> now < gp_expires (eg_payload g)"

text \<open>The default \<^verbatim>\<open>exclude_id=""\<close> excludes no row, because ids are never empty: it is \<open>None\<close> here.\<close>

definition check_unique_active_grant :: "rat \<Rightarrow> pystr \<Rightarrow> grant_payload \<Rightarrow> pystr option \<Rightarrow> ext_db \<Rightarrow> ext_error + unit" where
  "check_unique_active_grant now user p exclude db =
     guardR (gp_enabled p \<and> list_ex (\<lambda>g. Some (eg_id g) \<noteq> exclude \<and> live_grant now user (gp_client p) g) (xd_grants db)) Revision_conflict"

definition find_ext_grant :: "ext_db \<Rightarrow> pystr \<Rightarrow> pystr \<Rightarrow> ext_grant option" where
  "find_ext_grant db user gid = find_row (\<lambda>g. eg_id g = gid \<and> eg_user g = user) (xd_grants db)"

definition create_ext_grant :: "user_status \<Rightarrow> rat \<Rightarrow> pystr \<Rightarrow> pystr \<Rightarrow> grant_payload \<Rightarrow> ext_db \<Rightarrow> ext_error + ext_db" where
  "create_ext_grant us now gid user p db =
     bindR (check_unique_active_grant now user p None db) (\<lambda>_.
       if us user = None \<or> gid \<in> eg_id ` set (xd_grants db) then Inl Constraint_violated
       else Inr (db\<lparr>xd_grants := xd_grants db @ [\<lparr>eg_id = gid, eg_user = user, eg_payload = p, eg_revision = 1, eg_revoked = None,
              eg_created = now, eg_updated = now\<rparr>]\<rparr>))"

definition edit_ext_grant :: "grant_payload option \<times> rat \<Rightarrow> ext_grant \<Rightarrow> ext_grant" where
  "edit_ext_grant v g =
     (case v of
        (Some p, now) \<Rightarrow> g\<lparr>eg_payload := p, eg_revision := eg_revision g + 1, eg_updated := now\<rparr>
      | (None, now) \<Rightarrow> g\<lparr>eg_revoked := Some now, eg_revision := eg_revision g + 1, eg_updated := now\<rparr>)"

definition update_ext_grant :: "rat \<Rightarrow> pystr \<Rightarrow> pystr \<Rightarrow> grant_payload \<Rightarrow> int \<Rightarrow> ext_db \<Rightarrow> ext_error + ext_db" where
  "update_ext_grant now user gid p expected db =
     (case find_ext_grant db user gid of
        None \<Rightarrow> Inl Not_found
      | Some g \<Rightarrow>
          if eg_revoked g \<noteq> None then Inl Revision_conflict
          else if eg_revision g \<noteq> expected then Inl Revision_conflict
          else bindR (check_unique_active_grant now user p (Some gid) db) (\<lambda>_.
            Inr (db\<lparr>xd_grants := update_rows (\<lambda>x. eg_id x = gid \<and> eg_user x = user) (edit_ext_grant (Some p, now)) (xd_grants db)\<rparr>)))"

definition revoke_ext_grant :: "rat \<Rightarrow> pystr \<Rightarrow> pystr \<Rightarrow> ext_db \<Rightarrow> ext_error + ext_db" where
  "revoke_ext_grant now user gid db =
     (case find_ext_grant db user gid of
        None \<Rightarrow> Inl Not_found
      | Some _ \<Rightarrow> Inr (db\<lparr>xd_grants := update_rows (\<lambda>x. eg_id x = gid \<and> eg_user x = user \<and> eg_revoked x = None) (edit_ext_grant (None, now))
            (xd_grants db)\<rparr>))"

definition get_active_grant :: "rat \<Rightarrow> pystr \<Rightarrow> pystr \<Rightarrow> ext_db \<Rightarrow> ext_error + ext_grant" where
  "get_active_grant now user client db =
     (case filter (live_grant now user client) (sort_key (\<lambda>g. - eg_created g) (xd_grants db)) of
        [g] \<Rightarrow> Inr g
      | _ \<Rightarrow> Inl Identity_not_found)"

definition create_subject_link :: "user_status \<Rightarrow> rat \<Rightarrow> pystr \<Rightarrow> pystr \<Rightarrow> pystr \<Rightarrow> pystr \<Rightarrow> bool \<Rightarrow> ext_db \<Rightarrow> ext_error + ext_db" where
  "create_subject_link us now lid issuer subject user on db =
     (if us user = None \<or> lid \<in> sl_id ` set (xd_links db) \<or> (issuer, subject) \<in> (\<lambda>l. (sl_issuer l, sl_subject l)) ` set (xd_links db)
      then Inl Revision_conflict
      else Inr (db\<lparr>xd_links := xd_links db @ [\<lparr>sl_id = lid, sl_issuer = issuer, sl_subject = subject, sl_user = user, sl_enabled = on,
             sl_revision = 1, sl_created = now, sl_updated = now\<rparr>]\<rparr>))"

definition edit_link :: "bool \<times> rat \<Rightarrow> subject_link \<Rightarrow> subject_link" where
  "edit_link v l = (case v of (on, now) \<Rightarrow> l\<lparr>sl_enabled := on, sl_revision := sl_revision l + 1, sl_updated := now\<rparr>)"

definition update_subject_link :: "rat \<Rightarrow> pystr \<Rightarrow> bool \<Rightarrow> int \<Rightarrow> ext_db \<Rightarrow> ext_error + ext_db" where
  "update_subject_link now lid on expected db =
     (case find_row (\<lambda>l. sl_id l = lid) (xd_links db) of
        None \<Rightarrow> Inl Not_found
      | Some l \<Rightarrow>
          if sl_revision l \<noteq> expected then Inl Revision_conflict
          else Inr (db\<lparr>xd_links := update_rows (\<lambda>x. sl_id x = lid) (edit_link (on, now)) (xd_links db)\<rparr>))"

definition resolve_subject :: "user_status \<Rightarrow> pystr \<Rightarrow> pystr \<Rightarrow> ext_db \<Rightarrow> ext_error + pystr" where
  "resolve_subject us issuer subject db =
     (case find_row (\<lambda>l. sl_issuer l = issuer \<and> sl_subject l = subject \<and> sl_enabled l \<and> us (sl_user l) = Some (lit ''active'')) (xd_links db) of
        None \<Rightarrow> Inl Identity_not_found
      | Some l \<Rightarrow> Inr (sl_user l))"

definition has_active_subject :: "pystr \<Rightarrow> ext_db \<Rightarrow> bool" where
  "has_active_subject user db =
     list_ex (\<lambda>l. sl_enabled l \<and> sl_user l = user \<and> sl_issuer l \<in> set (ec_issuers (configuration db))) (xd_links db)"

text \<open>What keeps a delegation from being enabled.\<close>

definition activation_errors :: "(pystr \<Rightarrow> bool) \<Rightarrow> pystr \<Rightarrow> grant_payload \<Rightarrow> ext_db \<Rightarrow> pystr list" where
  "activation_errors https user p db =
     (let c = configuration db in
      validation_errors https c
      @ (if ec_enabled c then [] else [lit ''external_connection_disabled''])
      @ (if gp_client p \<in> set (ec_clients c) then [] else [lit ''client_not_allowed''])
      @ (if has_active_subject user db then [] else [lit ''subject_link_required'']))"

section \<open>The key cache is bounded and fresh\<close>

record key_req =
  kr_now :: rat
  kr_busy :: bool
  kr_fetch :: "pystr \<Rightarrow> ext_error + dict"
  kr_config :: connection_config
  kr_pair :: "pystr \<times> pystr"
  kr_kid :: pystr

definition answer :: "ext_env \<Rightarrow> key_req \<Rightarrow> key_cache \<Rightarrow> (ext_error + rsa_key) \<times> key_cache \<times> bool" where
  "answer e r cache = jwks_key e (kr_now r) (kr_busy r) (kr_fetch r) (kr_config r) (fst (kr_pair r)) (snd (kr_pair r)) (kr_kid r) cache"

text \<open>The requests with their answers and whether each downloaded keys.\<close>

fun key_trace :: "ext_env \<Rightarrow> key_req list \<Rightarrow> key_cache \<Rightarrow> (key_req \<times> (ext_error + rsa_key) \<times> bool) list" where
  "key_trace e [] cache = []"
| "key_trace e (r # rs) cache = (case answer e r cache of (res, cache', fetched) \<Rightarrow> (r, res, fetched) # key_trace e rs cache')"

definition download :: "ext_env \<Rightarrow> key_req \<Rightarrow> ext_error + (pystr \<times> rsa_key) list" where
  "download e r = bindR (kr_fetch r (snd (kr_pair r))) (parse_keys e)"

text \<open>The outcomes of a request: refused or answered from the cache, or a download that failed or succeeded.\<close>

lemma answer_cases:
  obtains (kept) res where "answer e r cache = (res, trusted_only (kr_config r) cache, False)"
      and "\<And>key. res = Inr key \<Longrightarrow> \<exists>k. cache (kr_pair r) = Some k \<and> kr_pair r \<in> set (ec_jwks (kr_config r)) \<and> fresh_entry (kr_now r) k \<and> map_of (ck_keys k) (kr_kid r) = Some key"
  | (failed) x k where "answer e r cache = (Inl x, (trusted_only (kr_config r) cache)(kr_pair r \<mapsto> k), True)" and "ck_attempted k = kr_now r"
      and "ck_fetched k \<noteq> None \<Longrightarrow> \<exists>k0. cache (kr_pair r) = Some k0 \<and> ck_fetched k = ck_fetched k0 \<and> ck_keys k = ck_keys k0"
      and "\<And>k0. trusted_only (kr_config r) cache (kr_pair r) = Some k0 \<Longrightarrow> JWKS_REFRESH_INTERVAL \<le> kr_now r - ck_attempted k0"
  | (renewed) res keys where "answer e r cache = (res, (trusted_only (kr_config r) cache)(kr_pair r \<mapsto> \<lparr>ck_keys = keys, ck_fetched = Some (kr_now r), ck_attempted = kr_now r\<rparr>), True)"
      and "download e r = Inr keys" and "\<And>key. res = Inr key \<Longrightarrow> map_of keys (kr_kid r) = Some key"
      and "\<And>k0. trusted_only (kr_config r) cache (kr_pair r) = Some k0 \<Longrightarrow> JWKS_REFRESH_INTERVAL \<le> kr_now r - ck_attempted k0"
proof -
  let ?c = "trusted_only (kr_config r) cache"
  note D = answer_def jwks_key_def Let_def download_def [symmetric]
  have restrict: "cache (kr_pair r) = Some k \<and> kr_pair r \<in> set (ec_jwks (kr_config r))" if "?c (kr_pair r) = Some k" for k
    using that by (auto simp: trusted_only_def restrict_map_def split: if_splits)
  show thesis
  proof (cases "kr_busy r")
    case True
    then show thesis by (intro kept [of "Inl (jwt_error ''external key refresh busy'')"]) (simp_all add: D)
  next
    case busy: False
    show thesis
    proof (cases "?c (kr_pair r)")
      case None
      show thesis
      proof (cases "download e r")
        case (Inl x)
        then show thesis using None busy
          by (intro failed [of x "\<lparr>ck_keys = [], ck_fetched = None, ck_attempted = kr_now r\<rparr>"]) (simp_all add: D)
      next
        case (Inr keys)
        then show thesis using None busy
          by (intro renewed [of "case map_of keys (kr_kid r) of None \<Rightarrow> Inl (jwt_error ''unknown external key id'') | Some key \<Rightarrow> Inr key" keys])
            (simp_all add: D split: option.splits)
      qed
    next
      case (Some k)
      note k = restrict [OF Some]
      consider (hit) key where "fresh_entry (kr_now r) k" "map_of (ck_keys k) (kr_kid r) = Some key"
        | (miss) "\<not> fresh_entry (kr_now r) k \<or> map_of (ck_keys k) (kr_kid r) = None" by fastforce
      then show thesis
      proof cases
        case hit
        then show thesis using Some busy k by (intro kept [of "Inr key"]) (simp_all add: D)
      next
        case miss
        then have known: "(if fresh_entry (kr_now r) k then map_of (ck_keys k) (kr_kid r) else None) = None" by auto
        show thesis
        proof (cases "kr_now r - ck_attempted k < JWKS_REFRESH_INTERVAL")
          case True
          then show thesis using Some busy known by (intro kept [of "Inl (jwt_error ''external key unavailable; retry later'')"]) (simp_all add: D)
        next
          case False
          define m where "m = (if fresh_entry (kr_now r) k then k\<lparr>ck_attempted := kr_now r\<rparr> else \<lparr>ck_keys = [], ck_fetched = None, ck_attempted = kr_now r\<rparr>)"
          show thesis
          proof (cases "download e r")
            case (Inl x)
            then show thesis using Some busy known False k
              by (intro failed [of x m]) (simp_all add: D m_def split: if_splits)
          next
            case (Inr keys)
            then show thesis using Some busy known False
              by (intro renewed [of "case map_of keys (kr_kid r) of None \<Rightarrow> Inl (jwt_error ''unknown external key id'') | Some key \<Rightarrow> Inr key" keys])
                (simp_all add: D split: option.splits)
          qed
        qed
      qed
    qed
  qed
qed

text \<open>What the cache holds was downloaded for the same pair in the recorded past.\<close>

definition cache_from :: "(rat \<times> (pystr \<times> pystr) \<times> (pystr \<times> rsa_key) list) set \<Rightarrow> key_cache \<Rightarrow> bool" where
  "cache_from H cache \<longleftrightarrow> (\<forall>p k t. cache p = Some k \<and> ck_fetched k = Some t \<longrightarrow> (t, p, ck_keys k) \<in> H)"

lemma cache_from_trusted: "cache_from H cache \<Longrightarrow> cache_from H (trusted_only c cache)"
  unfolding cache_from_def trusted_only_def restrict_map_def by (auto split: if_splits)

lemma cache_from_mono: "cache_from H cache \<Longrightarrow> H \<subseteq> H' \<Longrightarrow> cache_from H' cache"
  unfolding cache_from_def by blast

lemma cache_from_upd: "cache_from H cache \<Longrightarrow> (\<And>t. ck_fetched k = Some t \<Longrightarrow> (t, p, ck_keys k) \<in> H) \<Longrightarrow> cache_from H (cache(p \<mapsto> k))"
  unfolding cache_from_def by (auto split: if_splits)

definition downloads :: "ext_env \<Rightarrow> (key_req \<times> (ext_error + rsa_key) \<times> bool) list \<Rightarrow> (rat \<times> (pystr \<times> pystr) \<times> (pystr \<times> rsa_key) list) set" where
  "downloads e tr = (\<Union>(r, res, fetched) \<in> set tr. {(kr_now r, kr_pair r, keys) | keys. fetched \<and> download e r = Inr keys})"

lemma answer_sound:
  assumes "cache_from H cache" and "answer e r cache = (res, cache', fl)"
  shows "cache_from (H \<union> downloads e [(r, res, fl)]) cache'"
    and "res = Inr key \<Longrightarrow> \<exists>t keys. (t, kr_pair r, keys) \<in> H \<union> downloads e [(r, res, fl)] \<and> (t = kr_now r \<or> (t, kr_pair r, keys) \<in> H)
      \<and> kr_now r - t < JWKS_CACHE_SECONDS \<and> map_of keys (kr_kid r) = Some key"
proof -
  let ?H = "H \<union> downloads e [(r, res, fl)]"
  have base: "cache_from ?H (trusted_only (kr_config r) cache)"
    using cache_from_mono [OF cache_from_trusted [OF assms(1)]] by blast
  have "cache_from ?H cache' \<and> (res = Inr key \<longrightarrow> (\<exists>t keys. (t, kr_pair r, keys) \<in> ?H \<and> (t = kr_now r \<or> (t, kr_pair r, keys) \<in> H)
      \<and> kr_now r - t < JWKS_CACHE_SECONDS \<and> map_of keys (kr_kid r) = Some key))"
  proof (cases rule: answer_cases [of e r cache])
    case (kept res')
    then have same: "res' = res" "cache' = trusted_only (kr_config r) cache" using assms(2) by simp_all
    have "\<exists>t keys. (t, kr_pair r, keys) \<in> H \<and> kr_now r - t < JWKS_CACHE_SECONDS \<and> map_of keys (kr_kid r) = Some key" if answered: "res = Inr key"
    proof -
      obtain k where k: "cache (kr_pair r) = Some k" "fresh_entry (kr_now r) k" "map_of (ck_keys k) (kr_kid r) = Some key"
        using kept(2) same(1) answered by blast
      then obtain t where t: "ck_fetched k = Some t" "kr_now r - t < JWKS_CACHE_SECONDS" by (auto simp: fresh_entry_def split: option.splits)
      with k assms(1) have "(t, kr_pair r, ck_keys k) \<in> H" unfolding cache_from_def by blast
      with t k show ?thesis by blast
    qed
    with base same show ?thesis by blast
  next
    case (failed x k)
    have "(t, kr_pair r, ck_keys k) \<in> ?H" if fetched: "ck_fetched k = Some t" for t
    proof -
      obtain k0 where "cache (kr_pair r) = Some k0" "ck_fetched k0 = Some t" "ck_keys k = ck_keys k0" using failed(3) fetched by fastforce
      moreover from this(1,2) have "(t, kr_pair r, ck_keys k0) \<in> H" using assms(1) unfolding cache_from_def by blast
      ultimately show ?thesis by simp
    qed
    then have "cache_from ?H ((trusted_only (kr_config r) cache)(kr_pair r \<mapsto> k))" by (rule cache_from_upd [OF base])
    moreover have "cache' = (trusted_only (kr_config r) cache)(kr_pair r \<mapsto> k)" "res = Inl x" using assms(2) failed(1) by simp_all
    ultimately show ?thesis by blast
  next
    case (renewed res' keys)
    have new: "(kr_now r, kr_pair r, keys) \<in> ?H" using assms(2) renewed(1,2) unfolding downloads_def by auto
    have "cache_from ?H ((trusted_only (kr_config r) cache)(kr_pair r \<mapsto> \<lparr>ck_keys = keys, ck_fetched = Some (kr_now r), ck_attempted = kr_now r\<rparr>))"
      by (rule cache_from_upd [OF base]) (use new in simp)
    then have "cache_from ?H cache'" using assms(2) renewed(1) by (metis Pair_inject)
    moreover have "map_of keys (kr_kid r) = Some key" if "res = Inr key" using renewed(1,3) assms(2) that by simp
    moreover have "kr_now r - kr_now r < JWKS_CACHE_SECONDS" by (simp add: JWKS_CACHE_SECONDS_def)
    ultimately show ?thesis using new by blast
  qed
  then show "cache_from ?H cache'" "res = Inr key \<Longrightarrow> \<exists>t keys. (t, kr_pair r, keys) \<in> ?H \<and> (t = kr_now r \<or> (t, kr_pair r, keys) \<in> H)
      \<and> kr_now r - t < JWKS_CACHE_SECONDS \<and> map_of keys (kr_kid r) = Some key" by blast+
qed

lemma downloads_Cons: "downloads e (x # tr) = downloads e [x] \<union> downloads e tr"
  unfolding downloads_def by auto

lemma downloads_times: "(t, p, keys) \<in> downloads e [(r, res, fl)] \<Longrightarrow> t = kr_now r"
  unfolding downloads_def by auto

lemma key_trace_sound:
  assumes "cache_from H cache" and "(r, Inr key, fetched) \<in> set (key_trace e rs cache)" and "sorted (map kr_now rs)"
    and "\<And>t p ks. (t, p, ks) \<in> H \<Longrightarrow> t \<le> kr_now (hd rs)"
  shows "\<exists>t keys. (t, kr_pair r, keys) \<in> H \<union> downloads e (key_trace e rs cache) \<and> t \<le> kr_now r \<and> kr_now r - t < JWKS_CACHE_SECONDS
    \<and> map_of keys (kr_kid r) = Some key"
  using assms
proof (induction rs arbitrary: H cache)
  case (Cons a rs)
  obtain res cache' fl where ans: "answer e a cache = (res, cache', fl)" by (cases "answer e a cache")
  let ?H = "H \<union> downloads e [(a, res, fl)]"
  have trace: "key_trace e (a # rs) cache = (a, res, fl) # key_trace e rs cache'" by (simp add: ans)
  have all: "H \<union> downloads e (key_trace e (a # rs) cache) = ?H \<union> downloads e (key_trace e rs cache')"
    unfolding trace downloads_Cons [of e "(a, res, fl)" "key_trace e rs cache'"] by blast
  consider (now) "r = a" "res = Inr key" | (later) "(r, Inr key, fetched) \<in> set (key_trace e rs cache')"
    using Cons.prems(2) unfolding trace by auto
  then show ?case
  proof cases
    case now
    obtain t keys where t: "(t, kr_pair a, keys) \<in> ?H" "t = kr_now a \<or> (t, kr_pair a, keys) \<in> H" "kr_now a - t < JWKS_CACHE_SECONDS" "map_of keys (kr_kid a) = Some key"
      using answer_sound(2) [OF Cons.prems(1) ans now(2)] by blast
    have "t \<le> kr_now a" using t(2) Cons.prems(4) [of t "kr_pair a" keys] by auto
    with t all now(1) show ?thesis by blast
  next
    case later
    then have "rs \<noteq> []" by (cases rs) auto
    then have hd: "kr_now a \<le> kr_now (hd rs)" using Cons.prems(3) by (cases rs) auto
    have "t \<le> kr_now (hd rs)" if "(t, p, ks) \<in> ?H" for t p ks
      using that Cons.prems(4) [of t p ks] downloads_times [of t p ks e a res fl] hd by force
    then show ?thesis using Cons.IH [OF answer_sound(1) [OF Cons.prems(1) ans] later] Cons.prems(3) unfolding all by force
  qed
qed simp

text \<open>Downloads for one trusted pair are spaced by the refresh interval.\<close>

definition fetch_times :: "pystr \<times> pystr \<Rightarrow> (key_req \<times> (ext_error + rsa_key) \<times> bool) list \<Rightarrow> rat list" where
  "fetch_times p tr = map (\<lambda>(r, _). kr_now r) (filter (\<lambda>(r, _, fetched). fetched \<and> kr_pair r = p) tr)"

definition spaced :: "rat list \<Rightarrow> bool" where
  "spaced ts = sorted_wrt (\<lambda>s t. s + JWKS_REFRESH_INTERVAL \<le> t) ts"

lemma trusted_other: "p \<in> set (ec_jwks c) \<Longrightarrow> trusted_only c cache p = cache p"
  by (simp add: trusted_only_def)

lemma answer_marks:
  assumes "answer e r cache = (res, cache', fl)" and "p \<in> set (ec_jwks (kr_config r))"
  shows "if fl \<and> kr_pair r = p
    then (\<exists>k. cache' p = Some k \<and> ck_attempted k = kr_now r) \<and> (\<forall>k0. cache p = Some k0 \<longrightarrow> ck_attempted k0 + JWKS_REFRESH_INTERVAL \<le> kr_now r)
    else cache' p = cache p"
proof (cases rule: answer_cases [of e r cache])
  case (kept res')
  then show ?thesis using assms trusted_other [OF assms(2)] by simp
next
  case (failed x k)
  then show ?thesis using assms trusted_other [OF assms(2), of cache] by (auto simp: algebra_simps)
next
  case (renewed res' keys)
  then show ?thesis using assms trusted_other [OF assms(2), of cache] by (auto simp: algebra_simps)
qed

lemma fetch_times_Cons: "fetch_times p ((r, res, fl) # tr) = (if fl \<and> kr_pair r = p then [kr_now r] else []) @ fetch_times p tr"
  by (simp add: fetch_times_def)

lemma spaced_after:
  assumes "\<forall>r \<in> set rs. p \<in> set (ec_jwks (kr_config r))"
  shows "spaced (fetch_times p (key_trace e rs cache))
    \<and> (\<forall>k. cache p = Some k \<longrightarrow> (\<forall>t \<in> set (fetch_times p (key_trace e rs cache)). ck_attempted k + JWKS_REFRESH_INTERVAL \<le> t))"
  using assms
proof (induction rs arbitrary: cache)
  case Nil
  show ?case by (simp add: fetch_times_def spaced_def)
next
  case (Cons a rs)
  obtain res cache' fl where ans: "answer e a cache = (res, cache', fl)" by (cases "answer e a cache")
  have times: "fetch_times p (key_trace e (a # rs) cache) = (if fl \<and> kr_pair a = p then [kr_now a] else []) @ fetch_times p (key_trace e rs cache')"
    by (simp add: ans fetch_times_Cons)
  have IH: "spaced (fetch_times p (key_trace e rs cache'))"
    "\<And>k t. cache' p = Some k \<Longrightarrow> t \<in> set (fetch_times p (key_trace e rs cache')) \<Longrightarrow> ck_attempted k + JWKS_REFRESH_INTERVAL \<le> t"
    using Cons.IH [of cache'] Cons.prems by auto
  have marks: "if fl \<and> kr_pair a = p
    then (\<exists>k. cache' p = Some k \<and> ck_attempted k = kr_now a) \<and> (\<forall>k0. cache p = Some k0 \<longrightarrow> ck_attempted k0 + JWKS_REFRESH_INTERVAL \<le> kr_now a)
    else cache' p = cache p"
    by (rule answer_marks [OF ans]) (use Cons.prems in simp)
  show ?case
  proof (cases "fl \<and> kr_pair a = p")
    case True
    then obtain k where k: "cache' p = Some k" "ck_attempted k = kr_now a"
      and old: "\<And>k0. cache p = Some k0 \<Longrightarrow> ck_attempted k0 + JWKS_REFRESH_INTERVAL \<le> kr_now a" using marks by auto
    have later: "kr_now a + JWKS_REFRESH_INTERVAL \<le> t" if "t \<in> set (fetch_times p (key_trace e rs cache'))" for t
      using IH(2) [OF k(1) that] k(2) by simp
    have "0 \<le> JWKS_REFRESH_INTERVAL" by (simp add: JWKS_REFRESH_INTERVAL_def)
    then have "ck_attempted k0 + JWKS_REFRESH_INTERVAL \<le> t" if "cache p = Some k0" "t \<in> set (fetch_times p (key_trace e rs cache'))" for k0 t
      using old [OF that(1)] later [OF that(2)] by linarith
    then show ?thesis using IH(1) later old True unfolding times spaced_def by simp
  next
    case False
    then have same: "cache' p = cache p" using marks by simp
    have "fetch_times p (key_trace e (a # rs) cache) = fetch_times p (key_trace e rs cache')" using False times by simp
    then show ?thesis using IH unfolding same by simp
  qed
qed

definition strong_key :: "rsa_key \<Rightarrow> bool" where
  "strong_key k \<longleftrightarrow> \<not> bit_length (rk_modulus k) < 2048"

lemma parse_key_items_strong:
  "parse_key_items e vs keys = Inr ks \<Longrightarrow> \<forall>k \<in> set keys. strong_key (snd k) \<Longrightarrow> \<forall>k \<in> set ks. strong_key (snd k)"
proof (induction e vs keys rule: parse_key_items.induct)
  case (2 e v vs keys)
  show ?case
  proof (cases v)
    case (PDict d)
    show ?thesis
    proof (cases "skipped_key d")
      case True
      then show ?thesis using 2 PDict by simp
    next
      case False
      obtain kid k where k: "dict_get d (lit ''kid'') = Some (PStr kid)" "xe_jwk e d = Some k" "strong_key k" "parse_key_items e vs (keys @ [(kid, k)]) = Inr ks"
        and "\<not> (kid = [] \<or> length kid > 256 \<or> kid \<in> set (map fst keys))" "\<not> list_ex (\<lambda>f. dict_get d (lit f) \<noteq> None) [''d'', ''p'', ''q'', ''dp'', ''dq'', ''qi'']"
        using "2.prems"(1) False PDict by (simp add: strong_key_def split: option.splits pyval.splits if_splits)
      then show ?thesis using "2.IH"(2) [OF PDict False k(1) refl _ _ k(2) _ k(4)] "2.prems"(2) by (auto simp: strong_key_def)
    qed
  qed (use 2 in simp_all)
qed simp

lemma download_strong: "download e r = Inr keys \<Longrightarrow> map_of keys kid = Some key \<Longrightarrow> 2048 \<le> bit_length (rk_modulus key)"
proof -
  assume *: "download e r = Inr keys" "map_of keys kid = Some key"
  then obtain items where "parse_key_items e items [] = Inr keys"
    by (auto simp: download_def parse_keys_def split: if_splits option.splits pyval.splits)
  then show ?thesis using parse_key_items_strong [of e items "[]" keys] map_of_SomeD [OF *(2)] by (auto simp: strong_key_def)
qed

text \<open>
  The cache of external signing keys.  Whatever requests arrive, with a monotonic clock, a key that is handed out was downloaded for the
  same issuer and key location less than 300 seconds before and has at least 2048 bits; and for an issuer that stays trusted two downloads
  are never less than 30 seconds apart, so failing or unknown keys cannot be used to flood the issuer.
\<close>
lemma jwks_cache_bounded:
  assumes "sorted (map kr_now rs)"
  shows "(\<forall>r key fetched. (r, Inr key, fetched) \<in> set (key_trace e rs Map.empty) \<longrightarrow> 2048 \<le> bit_length (rk_modulus key)
      \<and> (\<exists>r' res keys. (r', res, True) \<in> set (key_trace e rs Map.empty) \<and> kr_pair r' = kr_pair r \<and> kr_now r' \<le> kr_now r
           \<and> kr_now r - kr_now r' < 300 \<and> download e r' = Inr keys \<and> map_of keys (kr_kid r) = Some key))
    \<and> ((\<forall>r \<in> set rs. p \<in> set (ec_jwks (kr_config r))) \<longrightarrow>
        sorted_wrt (\<lambda>s t. s + 30 \<le> t) (fetch_times p (key_trace e rs Map.empty)))"
proof (intro conjI allI impI)
  fix r key fetched assume "(r, Inr key, fetched) \<in> set (key_trace e rs Map.empty)"
  moreover have "cache_from {} Map.empty" by (simp add: cache_from_def)
  ultimately obtain t keys where "(t, kr_pair r, keys) \<in> downloads e (key_trace e rs Map.empty)" "t \<le> kr_now r"
    "kr_now r - t < 300" "map_of keys (kr_kid r) = Some key"
    using key_trace_sound [of "{}" Map.empty r key fetched e rs] assms by (auto simp: JWKS_CACHE_SECONDS_def)
  moreover from this(1) obtain r' res where "(r', res, True) \<in> set (key_trace e rs Map.empty)" "t = kr_now r'" "kr_pair r' = kr_pair r" "download e r' = Inr keys"
    unfolding downloads_def by (auto split: if_splits)
  ultimately show "2048 \<le> bit_length (rk_modulus key)" "\<exists>r' res keys. (r', res, True) \<in> set (key_trace e rs Map.empty) \<and> kr_pair r' = kr_pair r \<and> kr_now r' \<le> kr_now r
           \<and> kr_now r - kr_now r' < 300 \<and> download e r' = Inr keys \<and> map_of keys (kr_kid r) = Some key"
    using download_strong by blast+
next
  assume "\<forall>r \<in> set rs. p \<in> set (ec_jwks (kr_config r))"
  then show "sorted_wrt (\<lambda>s t. s + 30 \<le> t) (fetch_times p (key_trace e rs Map.empty))"
    using spaced_after [of rs p e Map.empty] by (simp add: spaced_def JWKS_REFRESH_INTERVAL_def)
qed

section \<open>What an accepted bearer proves\<close>

lemma validated:
  assumes "validation_errors https c = []"
  shows "list_all https (ec_issuers c)" "distinct (map fst (ec_mappings c))" "\<And>x y. (x, y) \<in> set (ec_mappings c) \<Longrightarrow> y = canonical_url c"
    "distinct (map fst (ec_jwks c))" "\<And>i u. (i, u) \<in> set (ec_jwks c) \<Longrightarrow> https u" "https (canonical_url c)"
    "list_all (\<lambda>x. x \<noteq> [] \<and> length x \<le> 256) (ec_clients c)"
proof -
  show "list_all https (ec_issuers c)" using assms by (simp add: validation_errors_def split: if_splits)
  show "distinct (map fst (ec_mappings c))" using assms by (simp add: validation_errors_def split: if_splits)
  show "distinct (map fst (ec_jwks c))" using assms by (simp add: validation_errors_def split: if_splits)
  have "\<not> list_ex (\<lambda>(_, y). y \<noteq> canonical_url c) (ec_mappings c)" and https: "https (canonical_url c)"
    using assms by (simp_all add: validation_errors_def split: if_splits)
  then show "\<And>x y. (x, y) \<in> set (ec_mappings c) \<Longrightarrow> y = canonical_url c" by (auto simp: list_ex_iff)
  show "https (canonical_url c)" by (rule https)
  have "list_all (\<lambda>(_, u). https u) (ec_jwks c)" using assms by (simp add: validation_errors_def split: if_splits)
  then show "\<And>i u. (i, u) \<in> set (ec_jwks c) \<Longrightarrow> https u" by (auto simp: list_all_iff)
  have "\<not> list_ex (\<lambda>x. x = [] \<or> length x > 256) (ec_clients c)" using assms by (simp add: validation_errors_def split: if_splits)
  then show "list_all (\<lambda>x. x \<noteq> [] \<and> length x \<le> 256) (ec_clients c)" by (auto simp: list_ex_iff list_all_iff)
qed

lemma canonical_resource_unique:
  assumes "validation_errors https c = []"
  shows "canonical_resource https c a \<noteq> None \<longleftrightarrow> (\<exists>x. a = PStr x \<and> (x, canonical_url c) \<in> set (ec_mappings c) \<and> https x)"
    and "canonical_resource https c a = Some r \<Longrightarrow> r = canonical_url c"
proof -
  let ?f = "find (\<lambda>(x, y). a = PStr x \<and> https x \<and> https y) (ec_mappings c)"
  have def: "canonical_resource https c a = map_option snd ?f" using assms by (simp add: canonical_resource_def)
  have some: "a = PStr x \<and> https x \<and> (x, y) \<in> set (ec_mappings c) \<and> y = canonical_url c" if "?f = Some (x, y)" for x y
  proof -
    from find_row_SomeD [OF that [folded find_row_def]] have "(x, y) \<in> set (ec_mappings c)" "a = PStr x" "https x" by simp_all
    with validated(3) [OF assms this(1)] show ?thesis by simp
  qed
  show "canonical_resource https c a \<noteq> None \<longleftrightarrow> (\<exists>x. a = PStr x \<and> (x, canonical_url c) \<in> set (ec_mappings c) \<and> https x)"
  proof
    assume "canonical_resource https c a \<noteq> None"
    then obtain x y where "?f = Some (x, y)" unfolding def by auto
    from some [OF this] show "\<exists>x. a = PStr x \<and> (x, canonical_url c) \<in> set (ec_mappings c) \<and> https x" by blast
  next
    assume "\<exists>x. a = PStr x \<and> (x, canonical_url c) \<in> set (ec_mappings c) \<and> https x"
    then obtain x where x: "a = PStr x" "(x, canonical_url c) \<in> set (ec_mappings c)" "https x" by blast
    have "?f \<noteq> None"
    proof
      assume "?f = None"
      from this [unfolded find_None_iff] x(2) have "\<not> (a = PStr x \<and> https x \<and> https (canonical_url c))" by blast
      with x validated(6) [OF assms] show False by simp
    qed
    then show "canonical_resource https c a \<noteq> None" unfolding def by simp
  qed
  assume "canonical_resource https c a = Some r"
  then obtain x where "?f = Some (x, r)" unfolding def by auto
  from some [OF this] show "r = canonical_url c" by blast
qed

lemma identity_ofD:
  assumes "identity_of https c issuer uri h cl = Inr i"
  shows "ei_issuer i = issuer" "ei_jwks i = uri" "access_claims h cl" "dict_get cl (lit ''sub'') = Some (PStr (ei_subject i))" "ei_subject i \<noteq> []"
    "ei_audiences i = audience_values (dict_get_none cl (lit ''aud''))" "ei_audiences i \<noteq> []"
    "list_all (\<lambda>a. canonical_resource https c a \<noteq> None) (ei_audiences i)" "bound_client cl = Inr (PStr (ei_client i))" "ei_client i \<in> set (ec_clients c)"
    "canonical_resource https c (hd (ei_audiences i)) = Some (ei_resource i)" "expiry_time (dict_get_none cl (lit ''exp'')) = Some (ei_expires i)"
    "\<exists>scope. dict_get cl (lit ''scope'') = Some (PStr scope) \<and> ei_scopes i = sorted_set (filter (\<lambda>s. s \<noteq> []) (split_on 32 scope))"
proof -
  have acc: "access_claims h cl" using assms by (simp add: identity_of_def split: if_splits)
  then obtain s where s: "dict_get cl (lit ''sub'') = Some (PStr s)" "s \<noteq> []" "\<not> 512 < length s"
    using assms by (simp add: identity_of_def split: option.splits pyval.splits if_splits)
  define auds where "auds = audience_values (dict_get_none cl (lit ''aud''))"
  have aud: "auds \<noteq> []" "\<not> list_ex (\<lambda>a. canonical_resource https c a = None) auds"
    using assms acc s by (simp_all add: identity_of_def Let_def auds_def split: if_splits)
  obtain client where client: "bound_client cl = Inr client"
    using assms acc s aud by (cases "bound_client cl") (simp_all add: identity_of_def Let_def auds_def)
  obtain cid where "client = PStr cid" and cid': "cid \<noteq> []" "cid \<in> set (ec_clients c)"
    using assms acc s aud client by (cases client) (simp_all add: identity_of_def Let_def auds_def split: if_splits)
  then have cid: "bound_client cl = Inr (PStr cid)" "cid \<noteq> []" "cid \<in> set (ec_clients c)" using client by simp_all
  obtain scope where scope: "dict_get cl (lit ''scope'') = Some (PStr scope)" "\<not> (length scope > 4096 \<or> list_ex (\<lambda>x. x < 32) scope)"
    using assms acc s aud cid by (simp add: identity_of_def Let_def auds_def split: if_splits pyval.splits option.splits)
  obtain t where t: "expiry_time (dict_get_none cl (lit ''exp'')) = Some t"
    using assms acc s aud cid scope by (simp add: identity_of_def Let_def auds_def split: if_splits option.splits)
  have i: "i = \<lparr>ei_issuer = issuer, ei_subject = s, ei_client = cid, ei_audiences = auds,
      ei_scopes = sorted_set (filter (\<lambda>s. s \<noteq> []) (split_on 32 scope)), ei_expires = t,
      ei_resource = (case canonical_resource https c (hd auds) of None \<Rightarrow> [] | Some r \<Rightarrow> r), ei_jwks = uri\<rparr>"
    using assms acc s aud cid scope t by (simp add: identity_of_def Let_def auds_def split: if_splits)
  have all: "list_all (\<lambda>a. canonical_resource https c a \<noteq> None) auds" using aud(2) by (simp add: list_all_iff list_ex_iff)
  then have "canonical_resource https c (hd auds) \<noteq> None" using aud(1) by (cases auds) auto
  then show "canonical_resource https c (hd (ei_audiences i)) = Some (ei_resource i)" unfolding i by auto
  show "ei_issuer i = issuer" "ei_jwks i = uri" "access_claims h cl" "dict_get cl (lit ''sub'') = Some (PStr (ei_subject i))" "ei_subject i \<noteq> []"
    "ei_audiences i = audience_values (dict_get_none cl (lit ''aud''))" "ei_audiences i \<noteq> []"
    "list_all (\<lambda>a. canonical_resource https c a \<noteq> None) (ei_audiences i)" "bound_client cl = Inr (PStr (ei_client i))" "ei_client i \<in> set (ec_clients c)"
    "expiry_time (dict_get_none cl (lit ''exp'')) = Some (ei_expires i)"
    "\<exists>scope. dict_get cl (lit ''scope'') = Some (PStr scope) \<and> ei_scopes i = sorted_set (filter (\<lambda>s. s \<noteq> []) (split_on 32 scope))"
    using acc s aud all cid scope t unfolding i by (simp_all add: auds_def)
qed

lemma external_verifyE:
  assumes "external_verify e now clock busy fetch c bearer cache = (Inr i, cache')"
  obtains h kid issuer uri key cl fl where "ec_enabled c" "validation_errors (https_resource (xe_url e)) c = []" "xe_header e bearer = Some h" "header_ok h"
    "issuer \<in> set (ec_issuers c)" "(issuer, uri) \<in> set (ec_jwks c)" "jwks_key e clock busy fetch c issuer uri kid cache = (Inr key, cache', fl)"
    "xe_decode e key bearer (map fst (ec_mappings c)) issuer now = Some cl" "identity_of (https_resource (xe_url e)) c issuer uri h cl = Inr i"
    "dict_get h (lit ''kid'') = Some (PStr kid)"
proof -
  note D = external_verify_def Let_def
  have cfg: "ec_enabled c" "validation_errors (https_resource (xe_url e)) c = []" using assms by (simp_all add: D split: if_splits)
  have shape: "\<not> (bearer = [] \<or> length bearer > MAX_TOKEN_BYTES \<or> sql_count (\<lambda>x. x = 46) bearer \<noteq> 2)" using assms cfg by (simp add: D split: if_splits)
  obtain h where h: "xe_header e bearer = Some h" "header_ok h" using assms cfg shape by (simp add: D split: if_splits option.splits)
  obtain kid where kid: "dict_get h (lit ''kid'') = Some (PStr kid)" "\<not> (kid = [] \<or> length kid > 256)"
    using assms cfg shape h by (simp add: D split: if_splits option.splits pyval.splits)
  obtain raw where raw: "xe_unverified e bearer = Some raw" using assms cfg shape h kid by (simp add: D split: option.splits)
  obtain issuer where issuer: "dict_get raw (lit ''iss'') = Some (PStr issuer)" "issuer \<in> set (ec_issuers c)"
    using assms cfg shape h kid raw by (simp add: D split: if_splits option.splits pyval.splits)
  obtain uri where uri: "map_of (rev (ec_jwks c)) issuer = Some uri" "uri \<noteq> []"
    using assms cfg shape h kid raw issuer by (simp add: D split: if_splits option.splits)
  obtain res cache1 fl where key: "jwks_key e clock busy fetch c issuer uri kid cache = (res, cache1, fl)"
    by (cases "jwks_key e clock busy fetch c issuer uri kid cache")
  obtain k where k: "res = Inr k" using assms cfg shape h kid raw issuer uri key by (cases res) (simp_all add: D)
  obtain cl where cl: "xe_decode e k bearer (map fst (ec_mappings c)) issuer now = Some cl"
    using assms cfg shape h kid raw issuer uri key k by (cases "xe_decode e k bearer (map fst (ec_mappings c)) issuer now") (simp_all add: D)
  have "identity_of (https_resource (xe_url e)) c issuer uri h cl = Inr i" "cache1 = cache'"
    using assms cfg shape h kid raw issuer uri key k cl by (simp_all add: D)
  moreover have "(issuer, uri) \<in> set (ec_jwks c)" using map_of_SomeD [OF uri(1)] by simp
  ultimately show thesis using that cfg h kid(1) issuer(2) key k cl by blast
qed

text \<open>The key of an accepted bearer is the one published under the key id of its header, in a fresh cache entry for the pinned location or in a download from it.\<close>

lemma jwks_key_source:
  assumes "jwks_key e clock busy fetch c issuer uri kid cache = (Inr key, cache', fl)" "(issuer, uri) \<in> set (ec_jwks c)"
  shows "(\<exists>k. cache (issuer, uri) = Some k \<and> fresh_entry clock k \<and> map_of (ck_keys k) kid = Some key)
    \<or> (\<exists>doc keys. fetch uri = Inr doc \<and> parse_keys e doc = Inr keys \<and> map_of keys kid = Some key)"
  using assms by (auto simp: jwks_key_def trusted_only_def Let_def bindR_Inr_iff split: if_splits option.splits sum.splits)

text \<open>The number of an expiry claim; a boolean is none.\<close>

definition claim_number :: "pyval \<Rightarrow> rat option" where
  "claim_number v = (case v of PInt i \<Rightarrow> Some (of_int i) | PFloat (Finite q) \<Rightarrow> Some q | PFloat NegZero \<Rightarrow> Some 0 | _ \<Rightarrow> None)"

text \<open>
  What PyJWT's documentation promises of a decoding with \<^verbatim>\<open>verify_exp\<close> and no leeway: when it returns claims, the integer part of a numeric
  \<^verbatim>\<open>exp\<close> lies after the current time.
\<close>

definition verifies_expiry :: "ext_env \<Rightarrow> bool" where
  "verifies_expiry e \<longleftrightarrow> (\<forall>key bearer auds issuer now cl v q. xe_decode e key bearer auds issuer now = Some cl
     \<and> dict_get cl (lit ''exp'') = Some v \<and> claim_number v = Some q \<longrightarrow> now < of_int (if q < 0 then \<lceil>q\<rceil> else \<lfloor>q\<rfloor>))"

lemma verifies_expiryD:
  assumes e: "verifies_expiry e" and now: "0 \<le> now" and cl: "xe_decode e key bearer auds issuer now = Some cl"
    and t: "expiry_time (dict_get_none cl (lit ''exp'')) = Some t"
  shows "\<exists>v. dict_get cl (lit ''exp'') = Some v \<and> claim_number v = Some t \<and> now < t"
proof -
  obtain v where v: "dict_get cl (lit ''exp'') = Some v"
    using t by (cases "dict_get cl (lit ''exp'')") (simp_all add: dict_get_none_def expiry_time_def)
  have q: "claim_number v = Some t"
    using t v unfolding dict_get_none_def expiry_time_def claim_number_def
    by (auto split: pyval.splits pyfloat.splits option.splits if_splits)
  have less: "now < of_int (if t < 0 then \<lceil>t\<rceil> else \<lfloor>t\<rfloor>)" using e cl v q unfolding verifies_expiry_def by blast
  have "now < t"
  proof (cases "t < 0")
    case True
    then have "of_int \<lceil>t\<rceil> \<le> (0 :: rat)" by (simp add: ceiling_le_zero)
    with less True now show ?thesis by simp
  next
    case False
    with less have "now < of_int \<lfloor>t\<rfloor>" by simp
    also have "of_int \<lfloor>t\<rfloor> \<le> t" by (rule of_int_floor_le)
    finally show ?thesis .
  qed
  with v q show ?thesis by blast
qed

text \<open>The client of the claims: \<^verbatim>\<open>client_id\<close> or \<^verbatim>\<open>azp\<close>, the same one when both are given.\<close>

lemma bound_clientD:
  assumes "bound_client cl = Inr (PStr x)"
  shows "dict_get_none cl (lit ''client_id'') \<in> {PNone, PStr x} \<and> dict_get_none cl (lit ''azp'') \<in> {PNone, PStr x}
    \<and> (dict_get cl (lit ''client_id'') = Some (PStr x) \<or> dict_get cl (lit ''azp'') = Some (PStr x))"
  using assms by (auto simp: bound_client_def Let_def dict_get_none_def split: if_splits option.splits)

text \<open>
  C30: an accepted external bearer proves its whole chain of trust.  The connection is enabled and completely configured; the header asks for RS256 and
  carries no key location or key of its own; the issuer is one of the trusted issuers, and the token decoded under the key
  published under the header's key id, in a fresh cache entry or in a download, at exactly the location pinned for that issuer;
  every audience is mapped to the connection's one canonical resource, which is the resource of the identity; the client is the one the
  signed claims name, the same in \<^verbatim>\<open>client_id\<close> and \<^verbatim>\<open>azp\<close> where both are given, and is on the allow list; the scopes are exactly the non-empty words of the
  signed scope claim; and the identity expires when the signed \<^verbatim>\<open>exp\<close> says, which is later than now.  The hypothesis on expiry is PyJWT's documented check.
\<close>
theorem external_identity_trusted:
  assumes run: "external_verify e now clock busy fetch c bearer cache = (Inr i, cache')"
    and pyjwt: "verifies_expiry e" and now: "0 \<le> now"
  shows "ec_enabled c \<and> validation_errors (https_resource (xe_url e)) c = []
    \<and> ei_issuer i \<in> set (ec_issuers c) \<and> (ei_issuer i, ei_jwks i) \<in> set (ec_jwks c) \<and> https_resource (xe_url e) (ei_jwks i)
    \<and> ei_resource i = canonical_url c \<and> ei_audiences i \<noteq> []
    \<and> (\<forall>a \<in> set (ei_audiences i). \<exists>x. a = PStr x \<and> (x, canonical_url c) \<in> set (ec_mappings c))
    \<and> ei_client i \<in> set (ec_clients c) \<and> ei_subject i \<noteq> [] \<and> now < ei_expires i
    \<and> (\<exists>h kid key cl scope v. xe_header e bearer = Some h \<and> dict_get h (lit ''alg'') = Some (PStr (lit ''RS256''))
         \<and> (\<forall>f \<in> {''jku'', ''x5u'', ''jwk'', ''crit''}. dict_get h (lit f) = None) \<and> dict_get h (lit ''kid'') = Some (PStr kid)
         \<and> ((\<exists>k. cache (ei_issuer i, ei_jwks i) = Some k \<and> fresh_entry clock k \<and> map_of (ck_keys k) kid = Some key)
            \<or> (\<exists>doc keys. fetch (ei_jwks i) = Inr doc \<and> parse_keys e doc = Inr keys \<and> map_of keys kid = Some key))
         \<and> xe_decode e key bearer (map fst (ec_mappings c)) (ei_issuer i) now = Some cl
         \<and> dict_get cl (lit ''sub'') = Some (PStr (ei_subject i)) \<and> dict_get cl (lit ''scope'') = Some (PStr scope)
         \<and> set (ei_scopes i) = set (split_on 32 scope) - {[]}
         \<and> dict_get_none cl (lit ''client_id'') \<in> {PNone, PStr (ei_client i)} \<and> dict_get_none cl (lit ''azp'') \<in> {PNone, PStr (ei_client i)}
         \<and> (dict_get cl (lit ''client_id'') = Some (PStr (ei_client i)) \<or> dict_get cl (lit ''azp'') = Some (PStr (ei_client i)))
         \<and> dict_get cl (lit ''exp'') = Some v \<and> claim_number v = Some (ei_expires i))"
  using run
proof (cases rule: external_verifyE)
  case (1 h kid issuer uri key cl fl)
  note I = identity_ofD [OF 1(9)]
  have res: "ei_resource i = canonical_url c" using canonical_resource_unique(2) [OF 1(2) I(11)] .
  have auds: "\<forall>a \<in> set (ei_audiences i). \<exists>x. a = PStr x \<and> (x, canonical_url c) \<in> set (ec_mappings c)"
    using I(8) canonical_resource_unique(1) [OF 1(2)] unfolding list_all_iff by blast
  obtain scope where scope: "dict_get cl (lit ''scope'') = Some (PStr scope)" "ei_scopes i = sorted_set (filter (\<lambda>s. s \<noteq> []) (split_on 32 scope))"
    using I(13) by blast
  from scope(2) have sc: "set (ei_scopes i) = set (split_on 32 scope) - {[]}" by (auto simp: sorted_set_def)
  have https: "https_resource (xe_url e) (ei_jwks i)" using validated(5) [OF 1(2,6)] I(2) by simp
  obtain v where v: "dict_get cl (lit ''exp'') = Some v" "claim_number v = Some (ei_expires i)" "now < ei_expires i"
    using verifies_expiryD [OF pyjwt now 1(8) I(12)] by blast
  have head: "dict_get h (lit ''alg'') = Some (PStr (lit ''RS256''))" "\<forall>f \<in> {''jku'', ''x5u'', ''jwk'', ''crit''}. dict_get h (lit f) = None"
    using 1(4) by (simp_all add: header_ok_def)
  note key = jwks_key_source [OF 1(7,6), folded I(1,2)] and client = bound_clientD [OF I(9)]
  have "\<exists>h kid key cl scope v. xe_header e bearer = Some h \<and> dict_get h (lit ''alg'') = Some (PStr (lit ''RS256''))
         \<and> (\<forall>f \<in> {''jku'', ''x5u'', ''jwk'', ''crit''}. dict_get h (lit f) = None) \<and> dict_get h (lit ''kid'') = Some (PStr kid)
         \<and> ((\<exists>k. cache (ei_issuer i, ei_jwks i) = Some k \<and> fresh_entry clock k \<and> map_of (ck_keys k) kid = Some key)
            \<or> (\<exists>doc keys. fetch (ei_jwks i) = Inr doc \<and> parse_keys e doc = Inr keys \<and> map_of keys kid = Some key))
         \<and> xe_decode e key bearer (map fst (ec_mappings c)) (ei_issuer i) now = Some cl
         \<and> dict_get cl (lit ''sub'') = Some (PStr (ei_subject i)) \<and> dict_get cl (lit ''scope'') = Some (PStr scope)
         \<and> set (ei_scopes i) = set (split_on 32 scope) - {[]}
         \<and> dict_get_none cl (lit ''client_id'') \<in> {PNone, PStr (ei_client i)} \<and> dict_get_none cl (lit ''azp'') \<in> {PNone, PStr (ei_client i)}
         \<and> (dict_get cl (lit ''client_id'') = Some (PStr (ei_client i)) \<or> dict_get cl (lit ''azp'') = Some (PStr (ei_client i)))
         \<and> dict_get cl (lit ''exp'') = Some v \<and> claim_number v = Some (ei_expires i)"
    by (intro exI [of _ h] exI [of _ kid] exI [of _ key] exI [of _ cl] exI [of _ scope] exI [of _ v] conjI)
      (use 1(3,8,10) head key client I(1,4) scope(1) sc v in simp_all)
  then show ?thesis using 1(1,2,5,6) I(1,2,5,7,10) res auds https v(3) by simp
qed

section \<open>Delegations are unambiguous\<close>

datatype ext_op =
    Save_connection connection_config int
  | Create_ext_grant user_status pystr pystr grant_payload
  | Update_ext_grant pystr pystr grant_payload int
  | Revoke_ext_grant pystr pystr
  | Create_link user_status pystr pystr pystr pystr bool
  | Update_link pystr bool int

lemma committed_simps [simp]: "committed s (Inl e) = s" "committed s (Inr t) = t"
  by (simp_all add: committed_def)

fun ext_exec :: "rat \<Rightarrow> ext_op \<Rightarrow> ext_db \<Rightarrow> ext_db" where
  "ext_exec now (Save_connection c r) db = committed db (save_connection now c r db)"
| "ext_exec now (Create_ext_grant us gid user p) db = committed db (create_ext_grant us now gid user p db)"
| "ext_exec now (Update_ext_grant user gid p r) db = committed db (update_ext_grant now user gid p r db)"
| "ext_exec now (Revoke_ext_grant user gid) db = committed db (revoke_ext_grant now user gid db)"
| "ext_exec now (Create_link us lid issuer subject user on) db = committed db (create_subject_link us now lid issuer subject user on db)"
| "ext_exec now (Update_link lid on r) db = committed db (update_subject_link now lid on r db)"

text \<open>The state of a run is the clock and the tables; a step never turns the clock back.\<close>

definition ext_step :: "rat \<times> ext_db \<Rightarrow> rat \<times> ext_op \<Rightarrow> rat \<times> ext_db \<Rightarrow> bool" where
  "ext_step s l t \<longleftrightarrow> fst s \<le> fst l \<and> t = (fst l, ext_exec (fst l) (snd l) (snd s))"

definition grants_ok :: "rat \<Rightarrow> ext_grant list \<Rightarrow> bool" where
  "grants_ok now gs \<longleftrightarrow> distinct (map eg_id gs)
     \<and> (\<forall>g \<in> set gs. \<forall>g' \<in> set gs. \<forall>user client. live_grant now user client g \<and> live_grant now user client g' \<longrightarrow> g = g')"

definition link_key :: "subject_link \<Rightarrow> pystr \<times> pystr" where
  "link_key l = (sl_issuer l, sl_subject l)"

definition ext_ok :: "rat \<times> ext_db \<Rightarrow> bool" where
  "ext_ok s \<longleftrightarrow> grants_ok (fst s) (xd_grants (snd s)) \<and> distinct (map sl_id (xd_links (snd s))) \<and> distinct (map link_key (xd_links (snd s)))"

lemma live_grant_later: "s \<le> t \<Longrightarrow> live_grant t user client g \<Longrightarrow> live_grant s user client g"
  unfolding live_grant_def by (metis order_le_less_trans)

lemma grants_ok_later: "grants_ok s gs \<Longrightarrow> s \<le> t \<Longrightarrow> grants_ok t gs"
  unfolding grants_ok_def using live_grant_later by blast

lemma grants_okD: "grants_ok now gs \<Longrightarrow> g \<in> set gs \<Longrightarrow> g' \<in> set gs \<Longrightarrow> live_grant now user client g \<Longrightarrow> live_grant now user client g' \<Longrightarrow> g = g'"
  unfolding grants_ok_def by blast

interpretation ext_grants: keyed_table eg_id edit_ext_grant
  by unfold_locales (simp add: edit_ext_grant_def split: prod.splits option.splits)

interpretation subject_links: keyed_table sl_id edit_link
  by unfold_locales (simp add: edit_link_def split: prod.splits)

lemma link_key_edit: "link_key (edit_link v l) = link_key l"
  by (simp add: link_key_def edit_link_def split: prod.splits)

lemma grants_ok_insert:
  assumes "grants_ok now gs" and "eg_id x \<notin> eg_id ` set gs" and "\<And>g user client. g \<in> set gs \<Longrightarrow> live_grant now user client g \<Longrightarrow> \<not> live_grant now user client x"
  shows "grants_ok now (gs @ [x])"
  unfolding grants_ok_def
proof (intro conjI ballI allI impI)
  show "distinct (map eg_id (gs @ [x]))" using assms(1,2) unfolding grants_ok_def by simp
  fix g g' user client
  assume "g \<in> set (gs @ [x])" "g' \<in> set (gs @ [x])" and live: "live_grant now user client g \<and> live_grant now user client g'"
  then consider "g \<in> set gs" "g' \<in> set gs" | "g = x" "g' = x" | "g = x" "g' \<in> set gs" | "g \<in> set gs" "g' = x" by auto
  then show "g = g'"
    by cases (use grants_okD [OF assms(1)] assms(3) live in blast)+
qed

text \<open>Replacing rows keeps the delegations unambiguous when a changed row is live only if no other row is.\<close>

lemma grants_ok_update:
  assumes ok: "grants_ok now gs"
    and other: "\<And>g g' user client. g \<in> set gs \<Longrightarrow> P g \<Longrightarrow> g' \<in> set gs \<Longrightarrow> eg_id g' \<noteq> eg_id g \<Longrightarrow> live_grant now user client (edit_ext_grant v g) \<Longrightarrow> \<not> live_grant now user client g' \<and> \<not> P g'"
  shows "grants_ok now (update_rows P (edit_ext_grant v) gs)"
  unfolding grants_ok_def
proof (intro conjI ballI allI impI)
  show "distinct (map eg_id (update_rows P (edit_ext_grant v) gs))" using ok ext_grants.update_distinct unfolding grants_ok_def by blast
  fix g g' user client
  assume g: "g \<in> set (update_rows P (edit_ext_grant v) gs)" and g': "g' \<in> set (update_rows P (edit_ext_grant v) gs)"
    and live: "live_grant now user client g \<and> live_grant now user client g'"
  obtain h where h: "h \<in> set gs" "g = (if P h then edit_ext_grant v h else h)" using g unfolding update_rows_def by auto
  obtain h' where h': "h' \<in> set gs" "g' = (if P h' then edit_ext_grant v h' else h')" using g' unfolding update_rows_def by auto
  have "h = h'"
  proof (rule ccontr)
    assume ne: "h \<noteq> h'"
    then have ids: "eg_id h \<noteq> eg_id h'" using ok h(1) h'(1) unique_key_eq [of eg_id gs h h'] unfolding grants_ok_def by blast
    show False
    proof (cases "P h")
      case True
      then show ?thesis using other [OF h(1) True h'(1)] ids live h(2) h'(2) by (auto split: if_splits)
    next
      case False
      show ?thesis
      proof (cases "P h'")
        case True
        then show ?thesis using other [OF h'(1) True h(1)] ids live h(2) h'(2) False by auto
      next
        case False'': False
        then show ?thesis using grants_okD [OF ok h(1) h'(1)] live h(2) h'(2) False ne by auto
      qed
    qed
  qed
  then show "g = g'" using h h' by simp
qed

lemma check_uniqueD:
  "check_unique_active_grant now user p exclude db = Inr u \<Longrightarrow> gp_enabled p \<Longrightarrow> g \<in> set (xd_grants db) \<Longrightarrow> Some (eg_id g) \<noteq> exclude \<Longrightarrow>
   \<not> live_grant now user (gp_client p) g"
  by (auto simp: check_unique_active_grant_def list_ex_iff)

lemma live_new:
  "live_grant now user client g \<Longrightarrow> gp_enabled (eg_payload g)" "live_grant now user client g \<Longrightarrow> user = eg_user g" "live_grant now user client g \<Longrightarrow> client = gp_client (eg_payload g)"
  by (simp_all add: live_grant_def)

lemma create_ext_grant_ok:
  assumes ok: "grants_ok now (xd_grants db)" and run: "create_ext_grant us now gid user p db = Inr db'"
  shows "grants_ok now (xd_grants db')"
proof -
  have u: "check_unique_active_grant now user p None db = Inr ()" "gid \<notin> eg_id ` set (xd_grants db)"
    and db': "xd_grants db' = xd_grants db @ [\<lparr>eg_id = gid, eg_user = user, eg_payload = p, eg_revision = 1, eg_revoked = None, eg_created = now, eg_updated = now\<rparr>]"
    using run by (auto simp: create_ext_grant_def split: if_splits)
  let ?x = "\<lparr>eg_id = gid, eg_user = user, eg_payload = p, eg_revision = 1, eg_revoked = None, eg_created = now, eg_updated = now\<rparr>"
  have "\<not> live_grant now usr client ?x" if g: "g \<in> set (xd_grants db)" "live_grant now usr client g" for g usr client
  proof
    assume x: "live_grant now usr client ?x"
    from live_new [OF x] have "gp_enabled p" "usr = user" "client = gp_client p" by simp_all
    then show False using check_uniqueD [OF u(1) _ g(1)] g(2) by simp
  qed
  then show ?thesis unfolding db' using grants_ok_insert [OF ok, of ?x] u(2) by simp
qed

lemma update_ext_grant_ok:
  assumes ok: "grants_ok now (xd_grants db)" and run: "update_ext_grant now user gid p expected db = Inr db'"
  shows "grants_ok now (xd_grants db')"
proof -
  have u: "check_unique_active_grant now user p (Some gid) db = Inr ()"
    and db': "xd_grants db' = update_rows (\<lambda>x. eg_id x = gid \<and> eg_user x = user) (edit_ext_grant (Some p, now)) (xd_grants db)"
    using run by (auto simp: update_ext_grant_def split: option.splits if_splits)
  show ?thesis unfolding db'
  proof (rule grants_ok_update [OF ok])
    fix g g' usr client
    assume g: "g \<in> set (xd_grants db)" "eg_id g = gid \<and> eg_user g = user" "g' \<in> set (xd_grants db)" "eg_id g' \<noteq> eg_id g"
      and live: "live_grant now usr client (edit_ext_grant (Some p, now) g)"
    from live_new [OF live] g(2) have "gp_enabled p" "usr = user" "client = gp_client p" by (simp_all add: edit_ext_grant_def)
    then show "\<not> live_grant now usr client g' \<and> \<not> (eg_id g' = gid \<and> eg_user g' = user)"
      using check_uniqueD [OF u _ g(3)] g(2,4) by simp
  qed
qed

lemma revoke_ext_grant_ok:
  assumes ok: "grants_ok now (xd_grants db)" and run: "revoke_ext_grant now user gid db = Inr db'"
  shows "grants_ok now (xd_grants db')"
proof -
  have db': "xd_grants db' = update_rows (\<lambda>x. eg_id x = gid \<and> eg_user x = user \<and> eg_revoked x = None) (edit_ext_grant (None, now)) (xd_grants db)"
    using run by (auto simp: revoke_ext_grant_def split: option.splits)
  show ?thesis unfolding db'
    by (rule grants_ok_update [OF ok]) (simp add: live_grant_def edit_ext_grant_def)
qed

lemma ext_exec_grants: "grants_ok now (xd_grants db) \<Longrightarrow> grants_ok now (xd_grants (ext_exec now op db))"
proof (cases op)
  case (Save_connection c r)
  assume "grants_ok now (xd_grants db)"
  then show ?thesis using Save_connection by (simp add: save_connection_def)
next
  case (Create_ext_grant us gid user p)
  assume ok: "grants_ok now (xd_grants db)"
  then show ?thesis using create_ext_grant_ok [OF ok] Create_ext_grant by (cases "create_ext_grant us now gid user p db") simp_all
next
  case (Update_ext_grant user gid p r)
  assume ok: "grants_ok now (xd_grants db)"
  then show ?thesis using update_ext_grant_ok [OF ok] Update_ext_grant by (cases "update_ext_grant now user gid p r db") simp_all
next
  case (Revoke_ext_grant user gid)
  assume ok: "grants_ok now (xd_grants db)"
  then show ?thesis using revoke_ext_grant_ok [OF ok] Revoke_ext_grant by (cases "revoke_ext_grant now user gid db") simp_all
next
  case (Create_link us lid issuer subject user on)
  assume "grants_ok now (xd_grants db)"
  then show ?thesis using Create_link by (simp add: create_subject_link_def)
next
  case (Update_link lid on r)
  assume "grants_ok now (xd_grants db)"
  then show ?thesis using Update_link by (simp add: update_subject_link_def split: option.split)
qed

lemma ext_exec_links:
  assumes "distinct (map sl_id (xd_links db))" "distinct (map link_key (xd_links db))"
  shows "distinct (map sl_id (xd_links (ext_exec now op db))) \<and> distinct (map link_key (xd_links (ext_exec now op db)))"
proof (cases op)
  case (Create_link us lid issuer subject user on)
  have key: "(\<lambda>l. (sl_issuer l, sl_subject l)) = link_key" by (simp add: fun_eq_iff link_key_def)
  show ?thesis using assms Create_link by (simp add: create_subject_link_def key) (simp add: link_key_def)
next
  case (Update_link lid on r)
  have "map link_key (update_rows P (edit_link v) rows) = map link_key rows" for P v rows by (rule map_update_rows) (rule link_key_edit)
  then show ?thesis using assms Update_link subject_links.update_distinct [OF assms(1)] by (simp add: update_subject_link_def split: option.split)
qed (use assms in \<open>simp_all add: save_connection_def create_ext_grant_def update_ext_grant_def revoke_ext_grant_def committed_def split: option.split sum.split if_split\<close>)

interpretation ext_machine: machine "\<lambda>s. snd s = empty_ext" ext_step ext_ok
proof
  show "ext_ok s" if "snd s = empty_ext" for s
    using that by (simp add: ext_ok_def empty_ext_def grants_ok_def)
  show "ext_ok t" if "ext_ok s" "ext_step s l t" for s l t
  proof -
    have le: "fst s \<le> fst l" and t: "t = (fst l, ext_exec (fst l) (snd l) (snd s))" using that(2) by (simp_all add: ext_step_def)
    have "grants_ok (fst l) (xd_grants (snd s))" using grants_ok_later [OF _ le] that(1) by (simp add: ext_ok_def)
    then show ?thesis using ext_exec_grants ext_exec_links that(1) unfolding t ext_ok_def by simp
  qed
qed

definition ext_run :: "(rat \<times> ext_op) list \<Rightarrow> ext_db \<Rightarrow> ext_db" where
  "ext_run ops db = fold (\<lambda>(now, op). ext_exec now op) ops db"

lemma ext_run_run: "sorted (t # map fst ops) \<Longrightarrow> ext_machine.run (t, db) ops (last (t # map fst ops), ext_run ops db)"
proof (induction ops arbitrary: t db)
  case Nil
  show ?case by (simp add: ext_run_def ext_machine.run_Nil)
next
  case (Cons l ops)
  have "ext_step (t, db) l (fst l, ext_exec (fst l) (snd l) db)" using Cons.prems by (simp add: ext_step_def)
  moreover have "ext_machine.run (fst l, ext_exec (fst l) (snd l) db) ops (last (fst l # map fst ops), ext_run ops (ext_exec (fst l) (snd l) db))"
    using Cons by simp
  ultimately show ?case by (auto simp: ext_run_def case_prod_unfold intro: ext_machine.run_Cons)
qed

lemma ext_run_ok:
  assumes "sorted (map fst ops @ [now])"
  shows "grants_ok now (xd_grants (ext_run ops empty_ext))" "distinct (map link_key (xd_links (ext_run ops empty_ext)))"
proof -
  define t where "t = (case ops of [] \<Rightarrow> now | l # _ \<Rightarrow> fst l)"
  have sorted: "sorted (t # map fst ops)" using assms by (cases ops) (simp_all add: t_def sorted_append)
  have "last (t # map fst ops) \<in> set (t # map fst ops)" by (rule last_in_set) simp
  then have le: "last (t # map fst ops) \<le> now" using assms by (cases ops) (auto simp: t_def sorted_append)
  have ok: "ext_ok (last (t # map fst ops), ext_run ops empty_ext)"
    using ext_machine.run_from_init [OF ext_run_run [OF sorted, of empty_ext]] by simp
  then show "distinct (map link_key (xd_links (ext_run ops empty_ext)))" by (simp add: ext_ok_def)
  show "grants_ok now (xd_grants (ext_run ops empty_ext))" using ok grants_ok_later [OF _ le] unfolding ext_ok_def by simp
qed

lemma filter_unique:
  assumes "distinct xs" and "\<And>x y. x \<in> set xs \<Longrightarrow> y \<in> set xs \<Longrightarrow> P x \<Longrightarrow> P y \<Longrightarrow> x = y"
  shows "filter P xs = [x] \<longleftrightarrow> x \<in> set xs \<and> P x"
proof
  assume "filter P xs = [x]"
  then have "x \<in> set (filter P xs)" by simp
  then show "x \<in> set xs \<and> P x" by simp
next
  assume x: "x \<in> set xs \<and> P x"
  then have "set (filter P xs) = {x}" using assms(2) by auto
  moreover have "distinct (filter P xs)" using assms(1) by simp
  ultimately show "filter P xs = [x]" by (cases "filter P xs"; cases "tl (filter P xs)") auto
qed

lemma get_active_grant_iff:
  assumes "grants_ok now (xd_grants db)"
  shows "get_active_grant now user client db = Inr g \<longleftrightarrow> g \<in> set (xd_grants db) \<and> live_grant now user client g"
proof -
  let ?xs = "sort_key (\<lambda>g. - eg_created g) (xd_grants db)"
  have "distinct (xd_grants db)" using assms unfolding grants_ok_def by (simp add: distinct_map)
  then have "filter (live_grant now user client) ?xs = [g] \<longleftrightarrow> g \<in> set ?xs \<and> live_grant now user client g"
    by (intro filter_unique) (use grants_okD [OF assms] in auto)
  moreover have "get_active_grant now user client db = Inr g \<longleftrightarrow> filter (live_grant now user client) ?xs = [g]"
    by (auto simp: get_active_grant_def split: list.split)
  ultimately show ?thesis by simp
qed

lemma resolve_subject_iff:
  assumes "distinct (map link_key (xd_links db))"
  shows "resolve_subject us issuer subject db = Inr user \<longleftrightarrow>
    (\<exists>l \<in> set (xd_links db). sl_issuer l = issuer \<and> sl_subject l = subject \<and> sl_enabled l \<and> sl_user l = user \<and> us user = Some (lit ''active''))"
proof -
  let ?P = "\<lambda>l. sl_issuer l = issuer \<and> sl_subject l = subject \<and> sl_enabled l \<and> us (sl_user l) = Some (lit ''active'')"
  have unique: "l = l'" if "l \<in> set (xd_links db)" "l' \<in> set (xd_links db)" "?P l" "?P l'" for l l'
    using unique_key_eq [OF assms that(1,2)] that(3,4) by (simp add: link_key_def)
  show ?thesis
  proof (cases "find_row ?P (xd_links db)")
    case None
    then have "\<forall>l \<in> set (xd_links db). \<not> ?P l" unfolding find_row_None_iff .
    then show ?thesis by (auto simp: resolve_subject_def None)
  next
    case (Some l)
    note l = find_row_SomeD [OF Some]
    then show ?thesis using Some unique [of l] by (auto simp: resolve_subject_def)
  qed
qed

text \<open>
  An external identity resolves to one delegation.  After any sequence of configuration, delegation and link operations with a clock that
  does not go back, a user never has two delegations that are live for the same client: looking one up succeeds exactly when a live one
  exists and gives that one, never the ambiguity error; and a subject resolves exactly to the active user of its enabled link.
\<close>
lemma active_grant_unambiguous:
  assumes "sorted (map fst ops @ [now])"
  shows "(get_active_grant now user client (ext_run ops empty_ext) = Inr g \<longleftrightarrow>
      g \<in> set (xd_grants (ext_run ops empty_ext)) \<and> live_grant now user client g)
    \<and> (resolve_subject us issuer subject (ext_run ops empty_ext) = Inr user \<longleftrightarrow>
      (\<exists>l \<in> set (xd_links (ext_run ops empty_ext)). sl_issuer l = issuer \<and> sl_subject l = subject \<and> sl_enabled l \<and> sl_user l = user
         \<and> us user = Some (lit ''active'')))"
  using get_active_grant_iff [OF ext_run_ok(1) [OF assms]] resolve_subject_iff [OF ext_run_ok(2) [OF assms]] by blast

section \<open>Examples\<close>

definition demo_payload :: "bool \<Rightarrow> grant_payload" where
  "demo_payload on = \<lparr>gp_enabled = on, gp_client = lit ''c'', gp_servers = [lit ''s''], gp_tools = [lit ''s.t''], gp_access = [lit ''read''],
     gp_expires = 100, gp_rate = 60, gp_concurrency = 1, gp_version = 1\<rparr>"

definition demo_ext_ops :: "(rat \<times> ext_op) list" where
  "demo_ext_ops = [(1, Create_ext_grant (\<lambda>_. Some (lit ''active'')) (lit ''g1'') (lit ''u'') (demo_payload True)),
     (2, Create_ext_grant (\<lambda>_. Some (lit ''active'')) (lit ''g2'') (lit ''u'') (demo_payload True))]"

text \<open>The second enabled delegation for the client is refused, and the first is found.\<close>

lemma active_grant_unambiguous_witness:
  "get_active_grant 3 (lit ''u'') (lit ''c'') (ext_run demo_ext_ops empty_ext) =
     Inr \<lparr>eg_id = lit ''g1'', eg_user = lit ''u'', eg_payload = demo_payload True, eg_revision = 1, eg_revoked = None, eg_created = 1, eg_updated = 1\<rparr>"
proof -
  let ?g = "\<lparr>eg_id = lit ''g1'', eg_user = lit ''u'', eg_payload = demo_payload True, eg_revision = 1, eg_revoked = None, eg_created = 1, eg_updated = 1\<rparr>"
  have "xd_grants (ext_run demo_ext_ops empty_ext) = [?g]"
    by (simp add: demo_ext_ops_def ext_run_def create_ext_grant_def empty_ext_def check_unique_active_grant_def guardR_def live_grant_def demo_payload_def)
  moreover have "live_grant 3 (lit ''u'') (lit ''c'') ?g" by (simp add: live_grant_def demo_payload_def)
  ultimately show ?thesis using active_grant_unambiguous [of demo_ext_ops 3 "lit ''u''" "lit ''c''" ?g] by (simp add: demo_ext_ops_def)
qed

lemma bit_length_power: "bit_length (2 ^ n) = int n + 1"
proof (induction n)
  case 0
  show ?case by (simp add: bit_length.simps [of "Suc 0"] bit_length.simps [of 0])
next
  case (Suc n)
  then show ?case by (simp add: bit_length.simps [of "2 * 2 ^ n"])
qed

definition demo_key :: rsa_key where
  "demo_key = \<lparr>rk_modulus = 2 ^ 2047, rk_exponent = 65537\<rparr>"

definition demo_jwks :: dict where
  "demo_jwks = [(PStr (lit ''keys''), PList [PDict [(PStr (lit ''kty''), PStr (lit ''RSA'')), (PStr (lit ''kid''), PStr (lit ''k''))]])]"

definition demo_claims :: dict where
  "demo_claims = [(PStr (lit ''sub''), PStr (lit ''s'')), (PStr (lit ''aud''), PStr (lit ''https://a'')), (PStr (lit ''client_id''), PStr (lit ''c'')),
     (PStr (lit ''scope''), PStr (lit ''tools.read'')), (PStr (lit ''exp''), PInt 100), (PStr (lit ''token_use''), PStr (lit ''access''))]"

definition demo_ext :: ext_env where
  "demo_ext = \<lparr>xe_url = demo_oauth, xe_float = (\<lambda>_. []),
     xe_header = (\<lambda>_. Some [(PStr (lit ''alg''), PStr (lit ''RS256'')), (PStr (lit ''kid''), PStr (lit ''k''))]),
     xe_unverified = (\<lambda>_. Some [(PStr (lit ''iss''), PStr (lit ''https://i''))]), xe_decode = (\<lambda>_ _ _ _ now. if now < 100 then Some demo_claims else None), xe_jwk = (\<lambda>_. Some demo_key)\<rparr>"

definition demo_connection :: connection_config where
  "demo_connection = disabled_connection\<lparr>ec_enabled := True, ec_mode := lit ''direct'', ec_endpoint := Some (lit ''https://r''), ec_issuers := [lit ''https://i''],
     ec_jwks := [(lit ''https://i'', lit ''https://k'')], ec_clients := [lit ''c''], ec_mappings := [(lit ''https://a'', lit ''https://r'')]\<rparr>"

lemma demo_https: "https_resource demo_oauth s \<longleftrightarrow> length s \<le> 2048 \<and> \<not> list_ex py_space s"
  by (simp add: https_resource_def demo_oauth_def port_ok_def)

lemma demo_urls: "https_resource demo_oauth (lit ''https://i'')" "https_resource demo_oauth (lit ''https://k'')" "https_resource demo_oauth (lit ''https://r'')"
  "https_resource demo_oauth (lit ''https://a'')"
  unfolding demo_https by (simp_all add: lit_def py_space_def)

lemma demo_valid: "validation_errors (https_resource demo_oauth) demo_connection = []"
  using demo_urls by (simp add: validation_errors_def demo_connection_def disabled_connection_def given_def canonical_url_def)

lemma demo_download: "parse_keys demo_ext demo_jwks = Inr [(lit ''k'', demo_key)]"
proof -
  have "dumps_len (\<lambda>_. []) (PDict demo_jwks) \<le> MAX_JWKS_BYTES"
    by (simp add: demo_jwks_def dumps_len.simps MAX_JWKS_BYTES_def) (simp add: lit_def ascii_cost_def)
  moreover have "\<not> bit_length (rk_modulus demo_key) < 2048" using bit_length_power [of 2047] by (simp add: demo_key_def)
  ultimately show ?thesis
    by (simp add: parse_keys_def demo_ext_def) (simp add: demo_jwks_def dict_get_def dict_get_none_def skipped_key_def default_str_def)
qed

definition demo_key_req :: key_req where
  "demo_key_req = \<lparr>kr_now = 5, kr_busy = False, kr_fetch = (\<lambda>_. Inr demo_jwks), kr_config = demo_connection, kr_pair = (lit ''https://i'', lit ''https://k''),
     kr_kid = lit ''k''\<rparr>"

lemma demo_answer:
  "jwks_key demo_ext 5 False (\<lambda>_. Inr demo_jwks) demo_connection (lit ''https://i'') (lit ''https://k'') (lit ''k'') Map.empty =
    (Inr demo_key, [(lit ''https://i'', lit ''https://k'') \<mapsto> \<lparr>ck_keys = [(lit ''k'', demo_key)], ck_fetched = Some 5, ck_attempted = 5\<rparr>], True)"
  by (simp add: jwks_key_def trusted_only_def demo_download)

lemma jwks_cache_bounded_witness:
  "(demo_key_req, Inr demo_key, True) \<in> set (key_trace demo_ext [demo_key_req] Map.empty) \<and> 2048 \<le> bit_length (rk_modulus demo_key)
   \<and> sorted_wrt (\<lambda>s t. s + 30 \<le> t) (fetch_times (lit ''https://i'', lit ''https://k'') (key_trace demo_ext [demo_key_req] Map.empty))"
proof -
  have mem: "(demo_key_req, Inr demo_key, True) \<in> set (key_trace demo_ext [demo_key_req] Map.empty)"
    by (simp add: answer_def demo_key_req_def demo_answer)
  have "\<forall>r \<in> set [demo_key_req]. (lit ''https://i'', lit ''https://k'') \<in> set (ec_jwks (kr_config r))" by (simp add: demo_key_req_def demo_connection_def)
  then show ?thesis using jwks_cache_bounded [of "[demo_key_req]" demo_ext "(lit ''https://i'', lit ''https://k'')"] mem by auto
qed

definition demo_identity :: ext_identity where
  "demo_identity = \<lparr>ei_issuer = lit ''https://i'', ei_subject = lit ''s'', ei_client = lit ''c'', ei_audiences = [PStr (lit ''https://a'')],
     ei_scopes = [lit ''tools.read''], ei_expires = 100, ei_resource = lit ''https://r'', ei_jwks = lit ''https://k''\<rparr>"

lemma demo_identity_of:
  "identity_of (https_resource demo_oauth) demo_connection (lit ''https://i'') (lit ''https://k'')
     [(PStr (lit ''alg''), PStr (lit ''RS256'')), (PStr (lit ''kid''), PStr (lit ''k''))] demo_claims = Inr demo_identity"
proof -
  have res: "canonical_resource (https_resource demo_oauth) demo_connection (PStr (lit ''https://a'')) = Some (lit ''https://r'')"
    unfolding canonical_resource_def demo_valid using demo_urls by (simp add: demo_connection_def)
  have scope: "\<not> list_ex (\<lambda>x. x < 32) (lit ''tools.read'')" "sorted_set (filter (\<lambda>s. s \<noteq> []) (split_on 32 (lit ''tools.read''))) = [lit ''tools.read'']"
    by (simp_all add: lit_def sorted_set_def)
  show ?thesis
    unfolding identity_of_def demo_identity_def
    using res scope by (simp add: demo_claims_def access_claims_def dict_get_def dict_get_none_def audience_values_def bound_client_def expiry_time_def demo_connection_def)
qed

lemma demo_fields:
  "xe_url demo_ext = demo_oauth" "xe_header demo_ext t = Some [(PStr (lit ''alg''), PStr (lit ''RS256'')), (PStr (lit ''kid''), PStr (lit ''k''))]"
  "xe_unverified demo_ext t = Some [(PStr (lit ''iss''), PStr (lit ''https://i''))]" "xe_decode demo_ext k t as i n = (if n < 100 then Some demo_claims else None)"
  "ec_enabled demo_connection" "ec_issuers demo_connection = [lit ''https://i'']" "ec_jwks demo_connection = [(lit ''https://i'', lit ''https://k'')]"
  by (simp_all add: demo_ext_def demo_connection_def)

theorem external_identity_trusted_witness:
  "\<exists>cache. external_verify demo_ext 5 5 False (\<lambda>_. Inr demo_jwks) demo_connection (lit ''a.b.c'') Map.empty = (Inr demo_identity, cache)
     \<and> ei_resource demo_identity = canonical_url demo_connection \<and> ei_client demo_identity \<in> set (ec_clients demo_connection) \<and> 5 < ei_expires demo_identity"
proof -
  have "sql_count (\<lambda>x. x = 46) (lit ''a.b.c'') = 2" by (simp add: lit_def sql_count_def)
  then have "\<exists>cache. external_verify demo_ext 5 5 False (\<lambda>_. Inr demo_jwks) demo_connection (lit ''a.b.c'') Map.empty = (Inr demo_identity, cache)"
    using demo_valid demo_answer demo_identity_of
    by (simp add: external_verify_def Let_def demo_fields header_ok_def default_str_def dict_get_def MAX_TOKEN_BYTES_def)
  moreover have "verifies_expiry demo_ext"
    unfolding verifies_expiry_def by (auto simp: demo_fields demo_claims_def dict_get_def claim_number_def split: if_splits)
  ultimately show ?thesis using external_identity_trusted [of demo_ext 5] by auto
qed

end
