(* ===== verification/Auth_Store.thy ===== *)
theory Auth_Store
  imports Tool_Invocation External_Identity
begin

text \<open>
  \<^verbatim>\<open>auth.py\<close> and \<^verbatim>\<open>application/console_session_security.py\<close>: users, passwords, console and consent sessions, personal API
  tokens, the authentication of requests, and the single-use tickets that protect console writes; with the user
  routes of \<^verbatim>\<open>access_routes.py\<close>.  An operation that runs in one SQL transaction returns \<open>error + result\<close>; one whose
  statements commit separately returns its outcome together with the tables it leaves.  Digests, PBKDF2, the parser of
  ISO timestamps and fresh random values are parameters.  A timestamp the code writes itself is a rational; one a
  client supplies stays text.
\<close>

section \<open>Rows\<close>

record user_rec =
  u_id :: pystr
  u_name :: pystr
  u_hash :: pystr
  u_display :: pystr
  u_status :: pystr
  u_must_change :: bool
  u_created :: rat
  u_updated :: rat

record session_row =
  se_id :: pystr
  se_user :: pystr
  se_hash :: pystr
  se_expires :: rat
  se_created :: rat
  se_purpose :: pystr

record api_token_row =
  ak_id :: pystr
  ak_user :: pystr
  ak_name :: pystr
  ak_hash :: pystr
  ak_prefix :: pystr
  ak_scopes :: "pystr list"
  ak_expires :: "pystr option"
  ak_revoked :: "rat option"
  ak_last_used :: "rat option"
  ak_created :: rat

record token_tool =
  tt_id :: pystr
  tt_name :: pystr
  tt_server :: pystr
  tt_server_name :: pyval
  tt_access :: access
  tt_snapshot :: pystr
  tt_binding :: pystr

record token_policy_row =
  ta_token :: pystr
  ta_revision :: int
  ta_mode :: pystr
  ta_policies :: "server_policy list"
  ta_tools :: "(pystr \<times> token_tool) list"
  ta_rate :: int
  ta_concurrency :: int

record csrf_row =
  cs_hash :: pystr
  cs_session :: pystr
  cs_user :: pystr
  cs_session_hash :: pystr
  cs_target :: pystr
  cs_digest :: pystr
  cs_expires :: int

record ticket_row =
  tk_hash :: pystr
  tk_user :: pystr
  tk_session :: pystr
  tk_target :: pystr
  tk_purpose :: pystr
  tk_binding :: pystr
  tk_digest :: pystr
  tk_expires :: int

text \<open>The protected file with the first administrator's random password: absent, present but refused or unreadable, or its two fields.\<close>

datatype cred_file = Cred_absent | Cred_invalid | Cred_file pystr pystr

record auth_db =
  au_users :: "user_rec list"
  au_sessions :: "session_row list"
  au_tokens :: "api_token_row list"
  au_policies :: "token_policy_row list"
  au_csrf :: "csrf_row list"
  au_tickets :: "ticket_row list"
  au_access :: access_db
  au_cred :: cred_file

datatype auth_error =
    Http int pystr          \<comment> \<open>\<^verbatim>\<open>HTTPException\<close>\<close>
  | Auth_value pystr        \<comment> \<open>\<^verbatim>\<open>ValueError\<close>\<close>
  | Auth_key                \<comment> \<open>\<^verbatim>\<open>KeyError\<close>\<close>
  | Auth_runtime            \<comment> \<open>\<^verbatim>\<open>RuntimeError\<close>\<close>
  | Auth_integrity          \<comment> \<open>\<^verbatim>\<open>sqlite3.IntegrityError\<close>\<close>
  | Csrf_error pystr int    \<comment> \<open>\<^verbatim>\<open>ConsoleCsrfError\<close>\<close>

record auth_env =
  ae_sha :: "pystr \<Rightarrow> pystr"
  ae_pbkdf2 :: "pystr \<Rightarrow> pystr \<Rightarrow> pystr"
  ae_iso :: "pystr \<Rightarrow> rat option"

record auth_settings =
  as_enabled :: bool
  as_ttl_hours :: int

abbreviation sorted_names :: "pystr list \<Rightarrow> pystr list" where
  "sorted_names xs \<equiv> sort (remdups xs)"

section \<open>Passwords and expiry\<close>

definition USER_STATUSES :: "pystr list" where
  "USER_STATUSES = [lit ''pending'', lit ''active'', lit ''disabled'']"

definition hash_password :: "auth_env \<Rightarrow> pystr \<Rightarrow> pystr option \<Rightarrow> pystr \<Rightarrow> pystr" where
  "hash_password e fresh salt password =
     (let s = (case salt of None \<Rightarrow> fresh | Some x \<Rightarrow> if x = [] then fresh else x)
      in lit ''pbkdf2_sha256$'' @ s @ [36] @ ae_pbkdf2 e password s)"

text \<open>\<^verbatim>\<open>s.split(sep, n)\<close>: at most \<open>n\<close> cuts, from the left.\<close>

fun split_max :: "nat \<Rightarrow> nat \<Rightarrow> pystr \<Rightarrow> pystr list" where
  "split_max sep 0 s = [s]"
| "split_max sep (Suc n) s =
     (case dropWhile (\<lambda>c. c \<noteq> sep) s of [] \<Rightarrow> [s] | _ # t \<Rightarrow> takeWhile (\<lambda>c. c \<noteq> sep) s # split_max sep n t)"

definition verify_password :: "auth_env \<Rightarrow> pystr \<Rightarrow> pystr \<Rightarrow> pystr \<Rightarrow> bool" where
  "verify_password e fresh password stored =
     (case split_max 36 2 stored of
        [algorithm, salt, digest] \<Rightarrow>
          if algorithm \<noteq> lit ''pbkdf2_sha256'' then False else hash_password e fresh (Some salt) password = stored
      | _ \<Rightarrow> False)"

definition DUMMY_PASSWORD_HASH :: pystr where
  "DUMMY_PASSWORD_HASH = lit ''pbkdf2_sha256$'' @ replicate 32 48 @ [36] @ replicate 64 48"

definition iso_expired :: "auth_env \<Rightarrow> rat \<Rightarrow> pystr option \<Rightarrow> bool" where
  "iso_expired e now v =
     (case v of
        None \<Rightarrow> False
      | Some s \<Rightarrow> if s = [] then False else (case ae_iso e s of None \<Rightarrow> True | Some t \<Rightarrow> t \<le> now))"

section \<open>Users\<close>

definition find_user :: "auth_db \<Rightarrow> pystr \<Rightarrow> user_rec option" where
  "find_user db uid = find_row (\<lambda>u. u_id u = uid) (au_users db)"

record user_view =
  uv_row :: user_rec
  uv_role :: pystr
  uv_roles :: "pystr list"

definition user_row_to_dict :: "auth_db \<Rightarrow> user_rec \<Rightarrow> user_view" where
  "user_row_to_dict db u =
     (let rs = roles_for_user (au_access db) (u_id u)
      in \<lparr>uv_row = u, uv_role = (case rs of [] \<Rightarrow> [] | r # _ \<Rightarrow> r), uv_roles = rs\<rparr>)"

definition get_user :: "auth_db \<Rightarrow> pystr \<Rightarrow> auth_error + user_view" where
  "get_user db uid = (case find_user db uid of None \<Rightarrow> Inl Auth_key | Some u \<Rightarrow> Inr (user_row_to_dict db u))"

definition list_users :: "auth_db \<Rightarrow> user_view list" where
  "list_users db = map (user_row_to_dict db) (sort_key (\<lambda>u. - u_created u) (au_users db))"

record new_user =
  nu_name :: pystr
  nu_password :: pystr
  nu_role :: pystr
  nu_status :: pystr
  nu_display :: pystr
  nu_must_change :: bool
  nu_weak :: bool

definition insert_user :: "auth_env \<Rightarrow> rat \<Rightarrow> pystr \<Rightarrow> pystr \<Rightarrow> new_user \<Rightarrow> auth_db \<Rightarrow> auth_error + auth_db" where
  "insert_user e now uid salt n db =
     (let username = strip (nu_name n);
          assigned = filter (\<lambda>r. role_code r = nu_role n) (roles (au_access db))
      in if username = [] then Inl (Auth_value (lit ''username is required''))
         else if length (nu_password n) < 8 \<and> \<not> nu_weak n then Inl (Auth_value (lit ''password must be at least 8 characters''))
         else if nu_status n \<notin> set USER_STATUSES then Inl (Auth_value (lit ''invalid user status: '' @ nu_status n))
         else if uid \<in> u_id ` set (au_users db) \<or> username \<in> u_name ` set (au_users db) then Inl Auth_integrity
         else if length assigned \<noteq> 1 then Inl Auth_runtime
         else Inr (db\<lparr>au_users := au_users db @ [\<lparr>u_id = uid, u_name = username, u_hash = hash_password e salt None (nu_password n),
                    u_display = strip (nu_display n), u_status = nu_status n, u_must_change = nu_must_change n, u_created = now, u_updated = now\<rparr>],
                  au_access := (au_access db)\<lparr>user_ids := user_ids (au_access db) @ [uid],
                    user_roles := user_roles (au_access db) @ map (\<lambda>r. (uid, role_id r)) assigned\<rparr>\<rparr>))"

definition create_user :: "auth_env \<Rightarrow> rat \<Rightarrow> pystr \<Rightarrow> pystr \<Rightarrow> new_user \<Rightarrow> auth_db \<Rightarrow> (auth_error + user_view) \<times> auth_db" where
  "create_user e now uid salt n db =
     (case insert_user e now uid salt n db of Inl x \<Rightarrow> (Inl x, db) | Inr db' \<Rightarrow> (get_user db' uid, db'))"

definition register_user :: "auth_env \<Rightarrow> rat \<Rightarrow> pystr \<Rightarrow> pystr \<Rightarrow> pystr \<Rightarrow> pystr \<Rightarrow> pystr \<Rightarrow> auth_db \<Rightarrow> (auth_error + user_view) \<times> auth_db" where
  "register_user e now uid salt username password display db =
     create_user e now uid salt \<lparr>nu_name = username, nu_password = password, nu_role = lit ''viewer'', nu_status = lit ''pending'',
       nu_display = display, nu_must_change = False, nu_weak = False\<rparr> db"

text \<open>Deleting sessions cascades to the console tickets of those sessions.\<close>

definition delete_sessions :: "(session_row \<Rightarrow> bool) \<Rightarrow> auth_db \<Rightarrow> auth_db" where
  "delete_sessions p db =
     db\<lparr>au_sessions := delete_rows p (au_sessions db),
        au_csrf := delete_rows (\<lambda>c. cs_session c \<in> se_id ` set (filter p (au_sessions db))) (au_csrf db)\<rparr>"

definition edit_user :: "pystr \<times> pystr \<times> rat \<Rightarrow> user_rec \<Rightarrow> user_rec" where
  "edit_user v u = (case v of (display, status, now) \<Rightarrow> u\<lparr>u_display := display, u_status := status, u_updated := now\<rparr>)"

definition update_user :: "rat \<Rightarrow> pystr \<Rightarrow> pystr option \<Rightarrow> pystr option \<Rightarrow> auth_db \<Rightarrow> (auth_error + user_view) \<times> auth_db" where
  "update_user now uid display status db =
     (case find_user db uid of
        None \<Rightarrow> (Inl Auth_key, db)
      | Some u \<Rightarrow>
          if (case status of None \<Rightarrow> False | Some s \<Rightarrow> s \<notin> set USER_STATUSES) then (Inl (Auth_value (lit ''invalid user status: '' @ the status)), db)
          else (let next_display = (case display of None \<Rightarrow> u_display u | Some d \<Rightarrow> strip d);
                    next_status = (case status of None \<Rightarrow> u_status u | Some s \<Rightarrow> s);
                    db1 = db\<lparr>au_users := update_rows (\<lambda>x. u_id x = uid) (edit_user (next_display, next_status, now)) (au_users db)\<rparr>;
                    db2 = (if next_status \<noteq> lit ''active'' then delete_sessions (\<lambda>s. se_user s = uid) db1 else db1)
                in (get_user db2 uid, db2)))"

text \<open>The other active users with the \<^verbatim>\<open>admin\<close> role, whether or not that role is enabled.\<close>

definition other_admins :: "auth_db \<Rightarrow> pystr \<Rightarrow> pystr list" where
  "other_admins db uid =
     remdups (map u_id (filter (\<lambda>u. u_status u = lit ''active'' \<and> u_id u \<noteq> uid
       \<and> list_ex (\<lambda>(x, rid). x = u_id u \<and> list_ex (\<lambda>r. role_id r = rid \<and> role_code r = lit ''admin'') (roles (au_access db)))
           (user_roles (au_access db))) (au_users db)))"

definition validate_admin_transition :: "auth_db \<Rightarrow> pystr \<Rightarrow> pystr option \<Rightarrow> pystr list option \<Rightarrow> auth_error + unit" where
  "validate_admin_transition db uid status rs =
     bindR (get_user db uid) (\<lambda>user.
       let current = uv_roles user;
           next_roles = (case rs of None \<Rightarrow> current | Some x \<Rightarrow> x);
           next_status = (case status of None \<Rightarrow> u_status (uv_row user) | Some s \<Rightarrow> s)
       in if lit ''admin'' \<notin> set current \<or> next_status = lit ''active'' \<and> lit ''admin'' \<in> set next_roles then Inr ()
          else if other_admins db uid = [] then Inl (Auth_value (lit ''the last active admin cannot be disabled or lose the admin role''))
          else Inr ())"

definition edit_password :: "pystr \<times> rat \<Rightarrow> user_rec \<Rightarrow> user_rec" where
  "edit_password v u = (case v of (h, now) \<Rightarrow> u\<lparr>u_hash := h, u_must_change := False, u_updated := now\<rparr>)"

definition change_password :: "auth_env \<Rightarrow> rat \<Rightarrow> pystr \<Rightarrow> pystr \<Rightarrow> pystr \<Rightarrow> auth_db \<Rightarrow> auth_error + auth_db" where
  "change_password e now salt uid password db =
     (if length password < 8 then Inl (Auth_value (lit ''password must be at least 8 characters''))
      else (case find_user db uid of
              None \<Rightarrow> Inl Auth_key
            | Some u \<Rightarrow>
                (let db1 = db\<lparr>au_users := update_rows (\<lambda>x. u_id x = uid) (edit_password (hash_password e salt None password, now)) (au_users db)\<rparr>;
                     db2 = delete_sessions (\<lambda>s. se_user s = uid) db1
                 in Inr (if u_name u = lit ''admin'' \<and> u_must_change u then db2\<lparr>au_cred := Cred_absent\<rparr> else db2))))"

section \<open>Principals\<close>

definition plain_principal :: "pystr \<Rightarrow> user_rec \<Rightarrow> pystr list \<Rightarrow> pystr list \<Rightarrow> pystr option \<Rightarrow> pystr list \<Rightarrow> auth_principal" where
  "plain_principal kind u rs perms tid scopes =
     \<lparr>p_id = u_id u, p_username = u_name u, p_role = hd rs, auth_type = kind, p_roles = rs, p_permissions = perms, token_id = tid,
      token_mode = lit ''account'', token_server_policies = [], token_tool_snapshots = [], token_tool_bindings = [], token_rate = 0,
      token_concurrency = 0, p_scopes = scopes, delegated_scopes = None, external_grant_id = None, external_server_ids = [], external_tool_ids = [],
      external_access = [], external_expires_at = None, external_rate = 0, external_concurrency = 0, oauth_builtin = False, oauth_issuer = None,
      oauth_resource = None, oauth_client_id = None, oauth_family_id = None, oauth_tool_snapshots = [], p_status = u_status u,
      display_name = u_display u, must_change_password = u_must_change u, token_revision = 0, p_session_id = None, oauth_token_expires_at = 0,
      oauth_target_revision = 0, oauth_subject = None, oauth_audiences = [], oauth_jwks_uri = None\<rparr>"

definition build_auth_principal :: "auth_db \<Rightarrow> user_rec \<Rightarrow> pystr \<Rightarrow> pystr option \<Rightarrow> pystr list \<Rightarrow> auth_error + auth_principal" where
  "build_auth_principal db u kind tid scopes =
     (let rs = roles_for_user (au_access db) (u_id u) in
      if rs = [] then Inl (Http 403 (lit ''No enabled role is assigned; contact an administrator''))
      else Inr (plain_principal kind u rs (permissions_for_user (au_access db) (u_id u)) tid scopes))"

definition disabled_principal :: auth_principal where
  "disabled_principal =
     plain_principal (lit ''disabled'') \<lparr>u_id = lit ''system'', u_name = lit ''auth-disabled'', u_hash = [], u_display = [], u_status = lit ''active'',
       u_must_change = False, u_created = 0, u_updated = 0\<rparr> [lit ''admin''] [lit ''*''] None []"

section \<open>Sessions\<close>

definition session_lifetime :: "auth_settings \<Rightarrow> pystr \<Rightarrow> rat" where
  "session_lifetime st purpose = (if purpose = lit ''oauth_consent'' then 1800 else of_int (as_ttl_hours st) * 3600)"

definition login :: "auth_env \<Rightarrow> auth_settings \<Rightarrow> rat \<Rightarrow> pystr \<Rightarrow> pystr \<Rightarrow> pystr \<Rightarrow> pystr \<Rightarrow> pystr \<Rightarrow> pystr \<Rightarrow> auth_db \<Rightarrow>
    (auth_error + auth_principal \<times> pystr \<times> rat) \<times> auth_db" where
  "login e st now salt tok sid username password purpose db =
     (if purpose \<notin> {lit ''console'', lit ''oauth_consent''} then (Inl (Auth_value (lit ''invalid session purpose'')), db)
      else
        (let row = find_row (\<lambda>u. u_name u = strip username) (au_users db);
             verified = verify_password e salt password (case row of None \<Rightarrow> DUMMY_PASSWORD_HASH | Some u \<Rightarrow> u_hash u)
         in case row of
              None \<Rightarrow> (Inl (Http 401 (lit ''invalid username or password'')), db)
            | Some u \<Rightarrow>
                if \<not> verified then (Inl (Http 401 (lit ''invalid username or password'')), db)
                else if u_status u = lit ''pending'' then (Inl (Http 403 (lit ''registration is pending approval'')), db)
                else if u_status u \<noteq> lit ''active'' then (Inl (Http 403 (lit ''user is disabled'')), db)
                else (case build_auth_principal db u (lit ''session'') None [] of
                        Inl x \<Rightarrow> (Inl x, db)
                      | Inr p \<Rightarrow>
                          (let expires = now + session_lifetime st purpose;
                               db1 = (if purpose = lit ''oauth_consent''
                                      then delete_sessions (\<lambda>s. se_purpose s = lit ''oauth_consent'' \<and> se_expires s \<le> now) db else db)
                           in if sid \<in> se_id ` set (au_sessions db1) \<or> ae_sha e tok \<in> se_hash ` set (au_sessions db1) then (Inl Auth_integrity, db1)
                              else (Inr (p\<lparr>p_session_id := Some sid\<rparr>, tok, expires),
                                    db1\<lparr>au_sessions := au_sessions db1 @ [\<lparr>se_id = sid, se_user = u_id u, se_hash = ae_sha e tok, se_expires = expires,
                                        se_created = now, se_purpose = purpose\<rparr>]\<rparr>)))))"

definition logout :: "auth_env \<Rightarrow> pystr option \<Rightarrow> pystr \<Rightarrow> auth_db \<Rightarrow> auth_db" where
  "logout e tok purpose db =
     (case tok of
        None \<Rightarrow> db
      | Some t \<Rightarrow> if t = [] then db else delete_sessions (\<lambda>s. se_hash s = ae_sha e t \<and> se_purpose s = purpose) db)"

definition principal_from_session :: "auth_env \<Rightarrow> rat \<Rightarrow> pystr \<Rightarrow> pystr \<Rightarrow> auth_db \<Rightarrow> auth_error + auth_principal option" where
  "principal_from_session e now tok purpose db =
     (case find_row (\<lambda>s. se_hash s = ae_sha e tok \<and> se_purpose s = purpose) (au_sessions db) of
        None \<Rightarrow> Inr None
      | Some s \<Rightarrow>
          (case find_user db (se_user s) of
             None \<Rightarrow> Inr None
           | Some u \<Rightarrow>
               if u_status u \<noteq> lit ''active'' \<or> se_expires s \<le> now then Inr None
               else bindR (build_auth_principal db u (lit ''session'') None []) (\<lambda>p. Inr (Some (p\<lparr>p_session_id := Some (se_id s)\<rparr>)))))"

section \<open>Personal API tokens\<close>

text \<open>Each ceiling without \<^verbatim>\<open>*\<close> narrows the scopes that may be asked for.\<close>

definition cap_scopes :: "pystr list \<Rightarrow> pystr list \<Rightarrow> pystr list" where
  "cap_scopes cap scopes =
     (if lit ''*'' \<in> set cap then scopes
      else if lit ''*'' \<in> set scopes then cap else filter (\<lambda>s. s \<in> set cap) scopes)"

definition allowed_scopes :: "principal \<Rightarrow> pystr list" where
  "allowed_scopes p =
     fold cap_scopes (scope_limits p)
       (p_permissions p @ (if p_role p = lit ''admin'' \<or> lit ''admin'' \<in> set (p_roles p) then [lit ''*''] else []))"

definition normalize_api_token_scopes :: "principal \<Rightarrow> pystr list \<Rightarrow> bool \<Rightarrow> auth_error + pystr list" where
  "normalize_api_token_scopes p scopes allow_default =
     (let cleaned = sorted_names (filter (\<lambda>s. s \<noteq> []) (map strip scopes)) in
      bindR (if cleaned \<noteq> [] then Inr cleaned else if allow_default then Inr [lit ''tools.read''] else Inl (Auth_value (lit ''at least one scope is required'')))
        (\<lambda>requested.
           let invalid = filter (\<lambda>s. s \<notin> set (allowed_scopes p)) requested
           in if invalid \<noteq> [] then Inl (Auth_value (lit ''scope exceeds user permissions: '' @ join_with (lit '', '') invalid)) else Inr requested))"

definition token_prefix :: "pystr \<Rightarrow> pystr" where
  "token_prefix tok = take 9 tok @ [8230]"

definition create_api_token :: "auth_env \<Rightarrow> rat \<Rightarrow> pystr \<Rightarrow> pystr \<Rightarrow> principal \<Rightarrow> pystr \<Rightarrow> pystr list \<Rightarrow> pystr option \<Rightarrow> auth_db \<Rightarrow>
    auth_error + (api_token_row \<times> pystr) \<times> auth_db" where
  "create_api_token e now random tid p name scopes expires db =
     (let label = (if strip name = [] then lit ''API Token'' else strip name); tok = lit ''lgt_'' @ random in
      bindR (normalize_api_token_scopes p scopes True) (\<lambda>requested.
        if p_id p \<notin> u_id ` set (au_users db) \<or> tid \<in> ak_id ` set (au_tokens db) \<or> ae_sha e tok \<in> ak_hash ` set (au_tokens db) then Inl Auth_integrity
        else (let row = \<lparr>ak_id = tid, ak_user = p_id p, ak_name = label, ak_hash = ae_sha e tok, ak_prefix = token_prefix tok, ak_scopes = requested,
                         ak_expires = expires, ak_revoked = None, ak_last_used = None, ak_created = now\<rparr>
              in Inr ((row, tok), db\<lparr>au_tokens := au_tokens db @ [row]\<rparr>))))"

definition find_token :: "auth_db \<Rightarrow> pystr \<Rightarrow> api_token_row option" where
  "find_token db tid = find_row (\<lambda>t. ak_id t = tid) (au_tokens db)"

datatype token_edit = Set_scopes "pystr list" | Set_revoked rat | Set_used rat

definition edit_token :: "token_edit \<Rightarrow> api_token_row \<Rightarrow> api_token_row" where
  "edit_token v t =
     (case v of Set_scopes s \<Rightarrow> t\<lparr>ak_scopes := s\<rparr> | Set_revoked now \<Rightarrow> t\<lparr>ak_revoked := Some now\<rparr> | Set_used now \<Rightarrow> t\<lparr>ak_last_used := Some now\<rparr>)"

definition set_token :: "pystr \<Rightarrow> token_edit \<Rightarrow> auth_db \<Rightarrow> auth_db" where
  "set_token tid v db = db\<lparr>au_tokens := update_rows (\<lambda>t. ak_id t = tid) (edit_token v) (au_tokens db)\<rparr>"

definition update_api_token_scopes :: "auth_env \<Rightarrow> rat \<Rightarrow> pystr \<Rightarrow> principal \<Rightarrow> pystr list \<Rightarrow> auth_db \<Rightarrow>
    auth_error + (pystr list \<times> pystr list) \<times> auth_db" where
  "update_api_token_scopes e now tid p scopes db =
     (case find_token db tid of
        None \<Rightarrow> Inl Auth_key
      | Some t \<Rightarrow>
          if find_user db (ak_user t) = None \<or> ak_user t \<noteq> p_id p then Inl Auth_key
          else if ak_revoked t \<noteq> None then Inl (Auth_value (lit ''revoked API token scopes cannot be updated''))
          else if iso_expired e now (ak_expires t) then Inl (Auth_value (lit ''expired API token scopes cannot be updated''))
          else bindR (normalize_api_token_scopes p scopes False) (\<lambda>requested.
                 Inr ((requested, ak_scopes t), set_token tid (Set_scopes requested) db)))"

definition revoke_api_token :: "rat \<Rightarrow> pystr \<Rightarrow> pystr option \<Rightarrow> auth_db \<Rightarrow> auth_error + auth_db" where
  "revoke_api_token now tid uid db =
     (case find_token db tid of
        None \<Rightarrow> Inl Auth_key
      | Some t \<Rightarrow>
          if (case uid of None \<Rightarrow> False | Some u \<Rightarrow> u \<noteq> [] \<and> ak_user t \<noteq> u) then Inl Auth_key
          else Inr (set_token tid (Set_revoked now) db))"

definition find_policy :: "auth_db \<Rightarrow> pystr option \<Rightarrow> token_policy_row option" where
  "find_policy db tid = find_row (\<lambda>r. Some (ta_token r) = tid) (au_policies db)"

definition with_policy :: "token_policy_row \<Rightarrow> auth_principal \<Rightarrow> auth_principal" where
  "with_policy r p =
     p\<lparr>token_mode := ta_mode r, token_revision := ta_revision r,
       token_server_policies := map (\<lambda>s. (sp_server s, sp_binding s, access_name (sp_access s))) (ta_policies r),
       token_tool_snapshots := map (\<lambda>(k, t). (k, tt_snapshot t)) (ta_tools r),
       token_tool_bindings := map (\<lambda>(k, t). (k, tt_binding t)) (ta_tools r),
       token_rate := ta_rate r, token_concurrency := ta_concurrency r\<rparr>"

text \<open>\<open>de\<close> and \<open>cdb\<close> are the clock, environment and classification tables the token budget reads.\<close>

definition apply_api_token_authorization :: "decision_env \<Rightarrow> class_db \<Rightarrow> auth_db \<Rightarrow> auth_principal \<Rightarrow> auth_error + auth_principal" where
  "apply_api_token_authorization de cdb db p =
     (case find_policy db (token_id p) of
        None \<Rightarrow> Inr p
      | Some r \<Rightarrow>
          (let current = with_policy r p in
           if token_mode current = lit ''independent'' \<and> \<not> token_authorization_budget_valid de (au_access db) cdb (principal.truncate current)
           then Inl (Http 403 (lit ''authorization_scope_limit'')) else Inr current))"

definition principal_from_api_token :: "auth_env \<Rightarrow> decision_env \<Rightarrow> class_db \<Rightarrow> rat \<Rightarrow> pystr \<Rightarrow> auth_db \<Rightarrow>
    (auth_error + auth_principal option) \<times> auth_db" where
  "principal_from_api_token e de cdb now tok db =
     (case find_row (\<lambda>t. ak_hash t = ae_sha e tok) (au_tokens db) of
        None \<Rightarrow> (Inr None, db)
      | Some t \<Rightarrow>
          (case find_user db (ak_user t) of
             None \<Rightarrow> (Inr None, db)
           | Some u \<Rightarrow>
               if u_status u \<noteq> lit ''active'' \<or> ak_revoked t \<noteq> None \<or> iso_expired e now (ak_expires t) then (Inr None, db)
               else (let db1 = set_token (ak_id t) (Set_used now) db in
                     (bindR (build_auth_principal db1 u (lit ''token'') (Some (ak_id t)) (ak_scopes t)) (\<lambda>p.
                      bindR (apply_api_token_authorization de cdb db1 p) (\<lambda>q. Inr (Some q))), db1))))"

section \<open>Authenticating a request\<close>

text \<open>A request: its path, the \<^verbatim>\<open>authorization\<close> header if one was sent, and the session cookie if any.\<close>

record http_request =
  rq_path :: pystr
  rq_authorization :: "pystr option"
  rq_cookie :: "pystr option"

definition bearer_token :: "http_request \<Rightarrow> pystr option" where
  "bearer_token rq =
     (let header = (case rq_authorization rq of None \<Rightarrow> [] | Some h \<Rightarrow> h) in
      if \<not> starts_with (lower header) (lit ''bearer '') then None
      else (let t = strip (tl (dropWhile (\<lambda>c. c \<noteq> 32) header)) in if t = [] then None else Some t))"

definition enforce_password_change :: "auth_principal \<Rightarrow> http_request \<Rightarrow> auth_error + auth_principal" where
  "enforce_password_change p rq =
     (if must_change_password p \<and> rq_path rq \<notin> {lit ''/v1/auth/me'', lit ''/v1/auth/password'', lit ''/v1/auth/logout''}
      then Inl (Http 403 (lit ''password change required'')) else Inr p)"

definition authenticate_request :: "auth_env \<Rightarrow> auth_settings \<Rightarrow> decision_env \<Rightarrow> class_db \<Rightarrow> rat \<Rightarrow> http_request \<Rightarrow> auth_db \<Rightarrow>
    (auth_error + auth_principal) \<times> auth_db" where
  "authenticate_request e st de cdb now rq db =
     (if rq_authorization rq \<noteq> None \<and> \<not> as_enabled st then (Inl (Http 401 (lit ''authorization credentials require Gate authentication'')), db)
      else if \<not> as_enabled st then (Inr disabled_principal, db)
      else if au_users db = [] then (Inl (Http 503 (lit ''authentication state is unavailable'')), db)
      else if rq_authorization rq \<noteq> None then
        (let invalid = Inl (Http 401 (lit ''invalid authorization credential'')) in
         case bearer_token rq of
           None \<Rightarrow> (invalid, db)
         | Some b \<Rightarrow>
             (case principal_from_api_token e de cdb now b db of
                (r, db') \<Rightarrow> (bindR r (\<lambda>found. case found of None \<Rightarrow> invalid | Some p \<Rightarrow> enforce_password_change p rq), db')))
      else
        (let required = Inl (Http 401 (lit ''authentication required'')) in
         case rq_cookie rq of
           None \<Rightarrow> (required, db)
         | Some t \<Rightarrow>
             if t = [] then (required, db)
             else (bindR (principal_from_session e now t (lit ''console'') db) (\<lambda>found.
                     case found of None \<Rightarrow> required | Some p \<Rightarrow> enforce_password_change p rq), db)))"

text \<open>
  What \<^verbatim>\<open>_authenticate_mcp_request\<close> consults besides the tables: the built-in OAuth server (\<open>None\<close> when absent: whether its management
  resource is active and which it is, its issuer, and its verifier for an optional expected resource), the unverified issuer of a bearer,
  and the external verifier (\<open>None\<close> when absent).
\<close>

record builtin_oauth =
  bo_management :: bool
  bo_resource :: pystr
  bo_issuer :: pystr
  bo_verify :: "pystr \<Rightarrow> pystr option \<Rightarrow> auth_error + auth_principal"

record mcp_auth =
  ma_builtin :: "builtin_oauth option"
  ma_issuer :: "pystr \<Rightarrow> pystr option"
  ma_external :: "ext_db option"
  ma_verify :: "(pystr \<Rightarrow> ext_error + ext_identity) option"

text \<open>\<^verbatim>\<open>except (OAuthError, ValueError, KeyError, PermissionError)\<close>: an \<^verbatim>\<open>HTTPException\<close> passes.\<close>

definition guarded :: "auth_error \<Rightarrow> auth_error + 'a \<Rightarrow> auth_error + 'a" where
  "guarded refusal r = (case r of Inl (Http code d) \<Rightarrow> Inl (Http code d) | Inl _ \<Rightarrow> Inl refusal | Inr x \<Rightarrow> Inr x)"

definition user_statuses :: "auth_db \<Rightarrow> user_status" where
  "user_statuses db uid = map_option u_status (find_user db uid)"

definition delegated_ceilings :: "pystr list \<Rightarrow> pystr list" where
  "delegated_ceilings access =
     (if lit ''read'' \<in> set access then [lit ''tools.read''] else []) @ (if lit ''write'' \<in> set access then [lit ''tools.invoke''] else [])"

definition external_principal :: "auth_principal \<Rightarrow> ext_identity \<Rightarrow> ext_grant \<Rightarrow> auth_principal" where
  "external_principal p i g =
     (let pl = eg_payload g in
      p\<lparr>delegated_scopes := Some (delegated_ceilings (gp_access pl)), external_grant_id := Some (eg_id g), external_server_ids := gp_servers pl,
        external_tool_ids := gp_tools pl, external_access := gp_access pl, external_expires_at := Some (At (min (ei_expires i) (gp_expires pl))),
        external_rate := gp_rate pl, external_concurrency := gp_concurrency pl, oauth_issuer := Some (ei_issuer i), oauth_subject := Some (ei_subject i),
        oauth_client_id := Some (ei_client i), oauth_audiences := map key_text (ei_audiences i), oauth_resource := Some (ei_resource i),
        oauth_jwks_uri := Some (ei_jwks i)\<rparr>)"

definition authenticate_external :: "rat \<Rightarrow> mcp_auth \<Rightarrow> http_request \<Rightarrow> pystr \<Rightarrow> auth_db \<Rightarrow> auth_error + auth_principal" where
  "authenticate_external now m rq bearer db =
     (let unavailable = Inl (Http 401 (lit ''external authentication is unavailable'')); invalid = Inl (Http 401 (lit ''invalid external authorization'')) in
      case (ma_verify m, ma_external m) of
        (Some vf, Some xdb) \<Rightarrow>
          if rq_path rq \<noteq> lit ''/mcp'' then unavailable
          else (case vf bearer of
            Inl _ \<Rightarrow> invalid
          | Inr i \<Rightarrow>
              (case bindR (resolve_subject (user_statuses db) (ei_issuer i) (ei_subject i) xdb) (\<lambda>uid.
                 bindR (get_active_grant now uid (ei_client i) xdb) (\<lambda>g. Inr (uid, g))) of
                Inl _ \<Rightarrow> invalid
              | Inr (uid, g) \<Rightarrow>
                  (case find_user db uid of
                     None \<Rightarrow> Inl (Http 401 (lit ''external identity is inactive''))
                   | Some u \<Rightarrow>
                       if u_status u \<noteq> lit ''active'' then Inl (Http 401 (lit ''external identity is inactive''))
                       else bindR (build_auth_principal db u (lit ''oauth'') None (ei_scopes i)) (\<lambda>p.
                              enforce_password_change (external_principal p i g) rq))))
      | _ \<Rightarrow> unavailable)"

definition authenticate_mcp_request :: "auth_env \<Rightarrow> auth_settings \<Rightarrow> decision_env \<Rightarrow> class_db \<Rightarrow> rat \<Rightarrow> mcp_auth \<Rightarrow> http_request \<Rightarrow> auth_db \<Rightarrow>
    (auth_error + auth_principal) \<times> auth_db" where
  "authenticate_mcp_request e st de cdb now m rq db =
     (let bearer = bearer_token rq;
          jwt = (case bearer of None \<Rightarrow> None | Some b \<Rightarrow> if sql_count (\<lambda>c. c = 46) b = 2 then Some b else None)
      in if rq_path rq = lit ''/mcp/manage'' then
           (case ma_builtin m of
              None \<Rightarrow> (Inl (Http 404 (lit ''OAuth management resource is disabled'')), db)
            | Some bo \<Rightarrow>
                if \<not> as_enabled st \<or> \<not> bo_management bo then (Inl (Http 404 (lit ''OAuth management resource is disabled'')), db)
                else (case jwt of
                        None \<Rightarrow> (Inl (Http 401 (lit ''management OAuth authorization required'')), db)
                      | Some b \<Rightarrow> (guarded (Http 401 (lit ''invalid management OAuth authorization'')) (bo_verify bo b (Some (bo_resource bo))), db)))
         else if (case ma_external m of None \<Rightarrow> False | Some x \<Rightarrow> ec_enabled (configuration x)) \<and> \<not> as_enabled st
           then (Inl (Http 503 (lit ''external authentication requires Gate authentication'')), db)
         else if rq_authorization rq = None then authenticate_request e st de cdb now rq db
         else if (case bearer of None \<Rightarrow> False | Some b \<Rightarrow> starts_with b (lit ''lgt_'')) \<and> as_enabled st then authenticate_request e st de cdb now rq db
         else (case jwt of
                 None \<Rightarrow> (Inl (Http 401 (lit ''unsupported authorization credential'')), db)
               | Some b \<Rightarrow>
                   (case (if length b \<le> 16384 then ma_builtin m else None) of
                      Some bo \<Rightarrow>
                        if (case ma_issuer m b of None \<Rightarrow> False | Some i \<Rightarrow> i \<noteq> [] \<and> i = bo_issuer bo)
                        then (if rq_path rq \<noteq> lit ''/mcp'' \<or> \<not> as_enabled st then (Inl (Http 401 (lit ''invalid OAuth authorization'')), db)
                              else (guarded (Http 401 (lit ''invalid OAuth authorization'')) (bo_verify bo b None), db))
                        else (if \<not> as_enabled st then Inl (Http 401 (lit ''external authentication is unavailable'')) else authenticate_external now m rq b db, db)
                    | None \<Rightarrow>
                        (if \<not> as_enabled st then Inl (Http 401 (lit ''external authentication is unavailable'')) else authenticate_external now m rq b db, db))))"

section \<open>Console tickets\<close>

definition live_console_session :: "auth_env \<Rightarrow> rat \<Rightarrow> auth_principal \<Rightarrow> pystr \<Rightarrow> auth_db \<Rightarrow> auth_error + auth_principal option" where
  "live_console_session e now p tok db =
     bindR (principal_from_session e now tok (lit ''console'') db) (\<lambda>found.
       case found of
         None \<Rightarrow> Inr None
       | Some cur \<Rightarrow>
           if auth_type p \<noteq> lit ''session'' \<or> p_id cur \<noteq> p_id p \<or> must_change_password cur
              \<or> p_session_id p \<noteq> None \<and> p_session_id p \<noteq> p_session_id cur then Inr None
           else Inr (Some cur))"

definition CSRF_TTL :: int where "CSRF_TTL = 300"
definition MAX_SESSION_CSRF :: nat where "MAX_SESSION_CSRF = 16"
definition MAX_CONSOLE_CSRF :: nat where "MAX_CONSOLE_CSRF = 4096"

definition current_session :: "auth_env \<Rightarrow> rat \<Rightarrow> auth_principal \<Rightarrow> pystr \<Rightarrow> auth_db \<Rightarrow> auth_error + auth_principal \<times> pystr" where
  "current_session e now p tok db =
     bindR (live_console_session e now p tok db) (\<lambda>found.
       case found of
         None \<Rightarrow> Inl (Csrf_error (lit ''session_required'') 403)
       | Some c \<Rightarrow> (case p_session_id c of None \<Rightarrow> Inl (Csrf_error (lit ''session_required'') 403)
                    | Some sid \<Rightarrow> if sid = [] then Inl (Csrf_error (lit ''session_required'') 403) else Inr (c, sid)))"

definition issue_csrf :: "auth_env \<Rightarrow> rat \<Rightarrow> pystr \<Rightarrow> auth_principal \<Rightarrow> pystr \<Rightarrow> pystr \<Rightarrow> pystr \<Rightarrow> auth_db \<Rightarrow> auth_error + int \<times> auth_db" where
  "issue_csrf e now secret p tok target digest db =
     bindR (current_session e now p tok db) (\<lambda>(c, sid).
       let t = \<lfloor>now\<rfloor>; rows = delete_rows (\<lambda>r. cs_expires r \<le> t) (au_csrf db) in
       if length rows \<ge> MAX_CONSOLE_CSRF \<or> sql_count (\<lambda>r. cs_session r = sid) rows \<ge> MAX_SESSION_CSRF then Inl (Csrf_error (lit ''csrf_capacity'') 429)
       else if ae_sha e secret \<in> cs_hash ` set rows then Inl Auth_integrity
       else Inr (t + CSRF_TTL, db\<lparr>au_csrf := rows @ [\<lparr>cs_hash = ae_sha e secret, cs_session = sid, cs_user = p_id c, cs_session_hash = ae_sha e tok,
              cs_target = target, cs_digest = digest, cs_expires = t + CSRF_TTL\<rparr>]\<rparr>))"

definition csrf_matches :: "auth_env \<Rightarrow> rat \<Rightarrow> auth_principal \<times> pystr \<Rightarrow> pystr \<Rightarrow> pystr \<Rightarrow> pystr \<Rightarrow> pystr \<Rightarrow> csrf_row \<Rightarrow> bool" where
  "csrf_matches e now cs tok secret target digest r \<longleftrightarrow> cs_hash r = ae_sha e secret \<and> cs_session r = snd cs \<and> cs_user r = p_id (fst cs)
     \<and> cs_session_hash r = ae_sha e tok \<and> cs_target r = target \<and> cs_digest r = digest \<and> cs_expires r > \<lfloor>now\<rfloor>"

definition consume_csrf :: "auth_env \<Rightarrow> rat \<Rightarrow> pystr \<Rightarrow> auth_principal \<Rightarrow> pystr \<Rightarrow> pystr \<Rightarrow> pystr \<Rightarrow> auth_db \<Rightarrow> auth_error + auth_db" where
  "consume_csrf e now secret p tok target digest db =
     bindR (current_session e now p tok db) (\<lambda>cs.
       if length secret \<noteq> 43 then Inl (Csrf_error (lit ''invalid_csrf'') 403)
       else if sql_count (csrf_matches e now cs tok secret target digest) (au_csrf db) \<noteq> 1 then Inl (Csrf_error (lit ''invalid_csrf'') 403)
       else Inr (db\<lparr>au_csrf := delete_rows (csrf_matches e now cs tok secret target digest) (au_csrf db)\<rparr>))"

section \<open>User routes\<close>

definition require_control :: "auth_principal \<Rightarrow> string \<Rightarrow> auth_error + unit" where
  "require_control p code = guardR (\<not> has_control_permission (principal.truncate p) (lit code)) (Http 403 (lit (''missing control permission: '' @ code)))"

definition set_roles :: "pystr \<Rightarrow> pystr list \<Rightarrow> auth_db \<Rightarrow> access_error + auth_db" where
  "set_roles uid codes db = bindR (set_user_roles (au_access db) uid codes) (\<lambda>a. Inr (db\<lparr>au_access := a\<rparr>))"

definition as_http :: "auth_error \<Rightarrow> auth_error" where
  "as_http x = (case x of Auth_value m \<Rightarrow> Http 400 m | Auth_key \<Rightarrow> Http 404 [] | y \<Rightarrow> y)"

text \<open>\<^verbatim>\<open>PATCH /v1/access/users/{user_id}\<close>: the check, the role change and the update are separate transactions.\<close>

definition patch_user :: "rat \<Rightarrow> auth_principal \<Rightarrow> pystr \<Rightarrow> pystr option \<Rightarrow> pystr option \<Rightarrow> pystr list option \<Rightarrow> auth_db \<Rightarrow>
    (auth_error + user_view) \<times> auth_db" where
  "patch_user now p uid display status rs db =
     (case require_control p ''users.manage'' of
        Inl x \<Rightarrow> (Inl x, db)
      | Inr _ \<Rightarrow>
          if (case status of None \<Rightarrow> False | Some s \<Rightarrow> s \<notin> set USER_STATUSES) then (Inl (Http 400 (lit ''invalid user status: '' @ the status)), db)
          else (case validate_admin_transition db uid status rs of
            Inl x \<Rightarrow> (Inl (as_http x), db)
          | Inr _ \<Rightarrow>
              (case (case rs of None \<Rightarrow> Inr db | Some codes \<Rightarrow> set_roles uid codes db) of
                 Inl Value_error \<Rightarrow> (Inl (Http 400 []), db)
               | Inl Key_missing \<Rightarrow> (Inl (Http 404 []), db)
               | Inl Integrity_error \<Rightarrow> (Inl Auth_integrity, db)
               | Inr db1 \<Rightarrow>
                   (case update_user now uid display status db1 of
                      (Inl x, db2) \<Rightarrow> (Inl (as_http x), db2)
                    | (Inr v, db2) \<Rightarrow> (Inr v, db2)))))"

text \<open>\<^verbatim>\<open>POST /v1/access/users\<close>: the account is created with the first role, then given all of them.\<close>

definition create_access_user :: "auth_env \<Rightarrow> rat \<Rightarrow> auth_principal \<Rightarrow> pystr \<Rightarrow> pystr \<Rightarrow> new_user \<Rightarrow> pystr list \<Rightarrow> auth_db \<Rightarrow>
    (auth_error + user_view) \<times> auth_db" where
  "create_access_user e now p uid salt n codes db =
     (case require_control p ''users.manage'' of
        Inl x \<Rightarrow> (Inl x, db)
      | Inr _ \<Rightarrow>
          if nu_status n \<notin> set USER_STATUSES then (Inl (Http 400 (lit ''invalid user status: '' @ nu_status n)), db)
          else (let wanted = sorted_names (filter (\<lambda>c. c \<noteq> []) (map strip codes));
                    enabled = map (role_code \<circ> rv_row) (filter (role_enabled \<circ> rv_row) (list_roles (au_access db)));
                    unknown = filter (\<lambda>c. c \<notin> set enabled) wanted
                in if wanted = [] then (Inl (Http 400 (lit ''at least one role is required'')), db)
                   else if unknown \<noteq> [] then (Inl (Http 400 (lit ''unknown or disabled role(s): '' @ join_with (lit '', '') unknown)), db)
                   else (case create_user e now uid salt (n\<lparr>nu_role := hd wanted, nu_weak := False\<rparr>) db of
                     (Inl (Auth_value m), db1) \<Rightarrow> (Inl (Http 400 m), db1)
                   | (Inl Auth_integrity, db1) \<Rightarrow>
                       (Inl (if strip (nu_name n) \<in> u_name ` set (au_users db) then Http 409 (lit ''username already exists'') else Auth_integrity), db1)
                   | (Inl x, db1) \<Rightarrow> (Inl x, db1)
                   | (Inr _, db1) \<Rightarrow>
                       (case set_roles uid wanted db1 of
                          Inl Value_error \<Rightarrow> (Inl (Http 400 []), db1)
                        | Inl Key_missing \<Rightarrow> (Inl Auth_key, db1)
                        | Inl Integrity_error \<Rightarrow> (Inl Auth_integrity, db1)
                        | Inr db2 \<Rightarrow> (get_user db2 uid, db2)))))"

text \<open>The routes of the signed-in user: registration, personal tokens and the password.\<close>

definition route_errors :: "auth_error + 'a \<Rightarrow> auth_error + 'a" where
  "route_errors r = (case r of Inl x \<Rightarrow> Inl (as_http x) | Inr y \<Rightarrow> Inr y)"

definition register_route :: "auth_env \<Rightarrow> auth_settings \<Rightarrow> rat \<Rightarrow> pystr \<Rightarrow> pystr \<Rightarrow> pystr \<Rightarrow> pystr \<Rightarrow> pystr \<Rightarrow> auth_db \<Rightarrow> (auth_error + user_view) \<times> auth_db" where
  "register_route e st now uid salt username password display db =
     (if \<not> as_enabled st then (Inl (Http 409 (lit ''authentication is disabled'')), db)
      else (case register_user e now uid salt username password display db of
              (Inl (Auth_value m), db1) \<Rightarrow> (Inl (Http 400 m), db1)
            | (Inl Auth_integrity, db1) \<Rightarrow>
                (Inl (if strip username \<in> u_name ` set (au_users db) then Http 409 (lit ''username already exists'') else Auth_integrity), db1)
            | r \<Rightarrow> r))"

definition self_service :: "auth_settings \<Rightarrow> auth_principal \<Rightarrow> auth_error + unit" where
  "self_service st p =
     (if \<not> as_enabled st then Inl (Http 409 (lit ''authentication is disabled'')) else require_control p ''credentials.manage.self'')"

record token_view =
  tv_row :: api_token_row
  tv_username :: pystr
  tv_discovery :: pystr
  tv_policy :: "token_policy_row option"

text \<open>\<open>discovery\<close> is the table of discovery modes of tokens, \<^verbatim>\<open>on_demand\<close> where it has no row.\<close>

definition list_api_tokens :: "(pystr \<rightharpoonup> pystr) \<Rightarrow> pystr option \<Rightarrow> auth_db \<Rightarrow> token_view list" where
  "list_api_tokens discovery uid db =
     map (\<lambda>t. \<lparr>tv_row = t, tv_username = (case find_user db (ak_user t) of None \<Rightarrow> [] | Some u \<Rightarrow> u_name u),
              tv_discovery = (case discovery (ak_id t) of None \<Rightarrow> lit ''on_demand'' | Some m \<Rightarrow> m), tv_policy = find_policy db (Some (ak_id t))\<rparr>)
       (sort_key (\<lambda>t. - ak_created t)
         (filter (\<lambda>t. find_user db (ak_user t) \<noteq> None \<and> (\<not> given uid \<or> uid = Some (ak_user t))) (au_tokens db)))"

definition list_personal_tokens :: "auth_settings \<Rightarrow> (pystr \<rightharpoonup> pystr) \<Rightarrow> auth_principal \<Rightarrow> auth_db \<Rightarrow> auth_error + token_view list" where
  "list_personal_tokens st discovery p db = bindR (self_service st p) (\<lambda>_. Inr (list_api_tokens discovery (Some (p_id p)) db))"

definition create_personal_token :: "auth_env \<Rightarrow> auth_settings \<Rightarrow> rat \<Rightarrow> pystr \<Rightarrow> pystr \<Rightarrow> auth_principal \<Rightarrow> pystr \<Rightarrow> pystr list \<Rightarrow> pystr option \<Rightarrow> auth_db \<Rightarrow>
    auth_error + (api_token_row \<times> pystr) \<times> auth_db" where
  "create_personal_token e st now random tid p name scopes expires db =
     bindR (self_service st p) (\<lambda>_. route_errors (create_api_token e now random tid (principal.truncate p) name scopes expires db))"

definition update_personal_token_scopes :: "auth_env \<Rightarrow> auth_settings \<Rightarrow> rat \<Rightarrow> pystr \<Rightarrow> auth_principal \<Rightarrow> pystr list \<Rightarrow> auth_db \<Rightarrow>
    auth_error + (pystr list \<times> pystr list) \<times> auth_db" where
  "update_personal_token_scopes e st now tid p scopes db =
     bindR (self_service st p) (\<lambda>_. route_errors (update_api_token_scopes e now tid (principal.truncate p) scopes db))"

definition revoke_personal_token :: "auth_settings \<Rightarrow> rat \<Rightarrow> pystr \<Rightarrow> auth_principal \<Rightarrow> auth_db \<Rightarrow> auth_error + auth_db" where
  "revoke_personal_token st now tid p db = bindR (self_service st p) (\<lambda>_. route_errors (revoke_api_token now tid (Some (p_id p)) db))"

definition change_password_route :: "auth_env \<Rightarrow> rat \<Rightarrow> pystr \<Rightarrow> auth_principal \<Rightarrow> pystr \<Rightarrow> auth_db \<Rightarrow> auth_error + auth_db" where
  "change_password_route e now salt p password db = route_errors (change_password e now salt (p_id p) password db)"

definition logout_route :: "auth_env \<Rightarrow> http_request \<Rightarrow> auth_db \<Rightarrow> auth_db" where
  "logout_route e rq db = logout e (rq_cookie rq) (lit ''console'') db"

section \<open>The first administrator\<close>

text \<open>
  What \<^verbatim>\<open>os.open\<close>, \<^verbatim>\<open>fstat\<close> and \<^verbatim>\<open>read\<close> report of the password file: not readable, or whether it is a regular file, its size, its
  permission bits and the bytes read (at most one more than the limit).  \<open>be_utf8\<close> decodes.
\<close>

datatype secret_file = Unreadable | Opened bool nat nat "nat list"

record boot_env =
  be_username :: pystr
  be_password :: pystr
  be_file :: pystr
  be_open :: "pystr \<Rightarrow> secret_file"
  be_utf8 :: "nat list \<Rightarrow> pystr option"

definition MAX_BOOTSTRAP_SECRET_BYTES :: nat where "MAX_BOOTSTRAP_SECRET_BYTES = 16 * 1024"

definition strip_newline :: "pystr \<Rightarrow> pystr" where
  "strip_newline s =
     (if ends_with s [13, 10] then take (length s - 2) s else if ends_with s [10] then take (length s - 1) s else s)"

definition read_bootstrap_password_file :: "boot_env \<Rightarrow> pystr \<Rightarrow> auth_error + pystr" where
  "read_bootstrap_password_file be path =
     (if \<not> starts_with path [47] then Inl (Auth_value (lit ''LINGSHU_GATE_BOOTSTRAP_PASSWORD_FILE must be an absolute path''))
      else (case be_open be path of
              Unreadable \<Rightarrow> Inl (Auth_value (lit ''cannot open bootstrap password file: '' @ path))
            | Opened regular bytes mode payload \<Rightarrow>
                if \<not> regular then Inl (Auth_value (lit ''bootstrap password file is not a regular file: '' @ path))
                else if bytes > MAX_BOOTSTRAP_SECRET_BYTES then Inl (Auth_value (lit ''bootstrap password file is too large''))
                else if odd (mode div 16) \<or> odd (mode div 2) then Inl (Auth_value (lit ''bootstrap password file must not be group/world writable''))
                else if length payload > MAX_BOOTSTRAP_SECRET_BYTES then Inl (Auth_value (lit ''bootstrap password file is too large''))
                else (case be_utf8 be payload of
                        None \<Rightarrow> Inl (Auth_value (lit ''bootstrap password file must contain UTF-8 text''))
                      | Some text \<Rightarrow>
                          (let password = strip_newline text in
                           if password = [] \<or> list_ex (\<lambda>c. c = 0 \<or> c = 13 \<or> c = 10) password
                             then Inl (Auth_value (lit ''bootstrap password file must contain exactly one non-empty line''))
                           else if length password < 8 then Inl (Auth_value (lit ''bootstrap password must be at least 8 characters''))
                           else Inr password))))"

definition configured_bootstrap_credentials :: "boot_env \<Rightarrow> auth_error + (pystr \<times> pystr) option" where
  "configured_bootstrap_credentials be =
     (let username = strip (be_username be); file = strip (be_file be) in
      if be_password be \<noteq> [] \<and> file \<noteq> [] then Inl (Auth_value (lit ''mutually exclusive''))
      else if (username \<noteq> []) \<noteq> (be_password be \<noteq> [] \<or> file \<noteq> []) then Inl (Auth_value (lit ''must be configured together''))
      else if username = [] then Inr None
      else bindR (if file \<noteq> [] then read_bootstrap_password_file be file else Inr (be_password be)) (\<lambda>password. Inr (Some (username, password))))"

definition load_or_create_initial_admin_credentials :: "pystr \<Rightarrow> auth_db \<Rightarrow> (auth_error + pystr \<times> pystr) \<times> auth_db" where
  "load_or_create_initial_admin_credentials random db =
     (case au_cred db of
        Cred_invalid \<Rightarrow> (Inl Auth_runtime, db)
      | Cred_file u p \<Rightarrow> if strip u = [] \<or> length p < 8 then (Inl Auth_runtime, db) else (Inr (strip u, p), db)
      | Cred_absent \<Rightarrow> (Inr (lit ''admin'', random), db\<lparr>au_cred := Cred_file (lit ''admin'') random\<rparr>))"

definition first_admin :: "pystr \<Rightarrow> pystr \<Rightarrow> new_user" where
  "first_admin username password = \<lparr>nu_name = username, nu_password = password, nu_role = lit ''admin'', nu_status = lit ''active'', nu_display = [],
     nu_must_change = True, nu_weak = False\<rparr>"

definition bootstrap_from_env :: "auth_env \<Rightarrow> auth_settings \<Rightarrow> boot_env \<Rightarrow> rat \<Rightarrow> pystr \<Rightarrow> pystr \<Rightarrow> pystr \<Rightarrow> auth_db \<Rightarrow> (auth_error + unit) \<times> auth_db" where
  "bootstrap_from_env e st be now uid salt random db =
     (if \<not> as_enabled st \<or> au_users db \<noteq> [] then (Inr (), db)
      else (case configured_bootstrap_credentials be of
              Inl x \<Rightarrow> (Inl x, db)
            | Inr (Some (u, p)) \<Rightarrow>
                (case insert_user e now uid salt (first_admin u p) db of
                   Inl x \<Rightarrow> (Inl x, db)
                 | Inr db' \<Rightarrow> (Inr (), db'\<lparr>au_cred := Cred_absent\<rparr>))
            | Inr None \<Rightarrow>
                (case load_or_create_initial_admin_credentials random db of
                   (Inl x, db1) \<Rightarrow> (Inl x, db1)
                 | (Inr (u, p), db1) \<Rightarrow>
                     (case insert_user e now uid salt (first_admin u p) db1 of Inl x \<Rightarrow> (Inl x, db1) | Inr db2 \<Rightarrow> (Inr (), db2)))))"

end
