(* ===== verification/Token_Authorization.thy ===== *)
theory Token_Authorization
  imports Auth_Store
begin

text \<open>
  \<^verbatim>\<open>token_authorizations.py\<close>: the independent scope and quota of a personal API token.  A change is previewed, which issues a ticket bound to
  the caller, the session, the catalog and the exact target, and then saved with that ticket in one transaction.  The digests of the
  catalog state and of the target (SHA-256 of canonical JSON) are parameters, as are the identifiers and secrets drawn.
  The audit event of a saved change is not part of the model.
\<close>

section \<open>The state of a token\<close>

record token_state =
  ts_revision :: int
  ts_mode :: pystr
  ts_scopes :: "pystr list"
  ts_tool_ids :: "pystr list"
  ts_policies :: "server_policy list"
  ts_tools :: "(pystr \<times> token_tool) list"
  ts_rate :: "int option"
  ts_concurrency :: "int option"
  ts_name :: pystr
  ts_expires :: "pystr option"

definition is_admin_role :: "auth_principal \<Rightarrow> bool" where
  "is_admin_role p \<longleftrightarrow> lit ''admin'' \<in> set (p_roles p) \<or> p_role p = lit ''admin''"

definition new_state :: "auth_principal \<Rightarrow> token_state" where
  "new_state p =
     \<lparr>ts_revision = 0, ts_mode = lit ''independent'',
      ts_scopes = (if is_admin_role p then sort (filter (\<lambda>s. s \<noteq> lit ''*'') (p_permissions p))
                   else if lit ''tools.read'' \<in> set (p_permissions p) then [lit ''tools.read''] else []),
      ts_tool_ids = [], ts_policies = [], ts_tools = [], ts_rate = Some 6000, ts_concurrency = Some 100, ts_name = [], ts_expires = None\<rparr>"

text \<open>\<^verbatim>\<open>authorization_data\<close> of the policy row, merged with the token's own columns.\<close>

definition stored_state :: "api_token_row \<Rightarrow> token_policy_row option \<Rightarrow> token_state" where
  "stored_state t row =
     (case row of
        None \<Rightarrow> \<lparr>ts_revision = 0, ts_mode = lit ''account'', ts_scopes = ak_scopes t, ts_tool_ids = [], ts_policies = [], ts_tools = [], ts_rate = None,
                 ts_concurrency = None, ts_name = ak_name t, ts_expires = ak_expires t\<rparr>
      | Some r \<Rightarrow> \<lparr>ts_revision = ta_revision r, ts_mode = ta_mode r, ts_scopes = ak_scopes t, ts_tool_ids = map fst (ta_tools r), ts_policies = ta_policies r,
                   ts_tools = ta_tools r, ts_rate = Some (ta_rate r), ts_concurrency = Some (ta_concurrency r), ts_name = ak_name t, ts_expires = ak_expires t\<rparr>)"

definition token_state_of :: "auth_env \<Rightarrow> rat \<Rightarrow> auth_principal \<Rightarrow> pystr \<Rightarrow> auth_db \<Rightarrow> auth_error + token_state" where
  "token_state_of e now p target db =
     (if target = lit ''new'' then Inr (new_state p)
      else (case find_row (\<lambda>t. ak_id t = target \<and> ak_user t = p_id p) (au_tokens db) of
              None \<Rightarrow> Inl (Http 404 (lit ''token_not_found''))
            | Some t \<Rightarrow>
                if ak_revoked t \<noteq> None \<or> iso_expired e now (ak_expires t) then Inl (Http 409 (lit ''token_authorization_unavailable''))
                else Inr (stored_state t (find_policy db (Some target)))))"

definition owner :: "auth_env \<Rightarrow> auth_settings \<Rightarrow> rat \<Rightarrow> auth_principal \<Rightarrow> pystr \<Rightarrow> auth_db \<Rightarrow> auth_error + auth_principal" where
  "owner e st now p session db =
     bindR (live_console_session e now p session db) (\<lambda>found.
       case found of
         None \<Rightarrow> Inl (Http 403 (lit ''session_required''))
       | Some c \<Rightarrow>
           if \<not> as_enabled st then Inl (Http 403 (lit ''session_required''))
           else bindR (require_control c ''credentials.manage.self'') (\<lambda>_. Inr c))"

section \<open>The catalog\<close>

record server_entry =
  sv_id :: pystr
  sv_name :: pyval
  sv_binding :: pystr
  sv_count :: nat

text \<open>The \<^verbatim>\<open>server_id\<close> metadata of an MCP tool, a string, or empty when it is missing.\<close>

definition meta_server :: "tool_definition \<Rightarrow> pystr" where
  "meta_server d = key_text (meta_get d (lit ''server_id''))"

definition gate_status :: "tool_definition \<Rightarrow> pyval" where
  "gate_status d = (case meta_get d (lit ''gate_access'') of PDict kvs \<Rightarrow> dict_get_none kvs (lit ''classification_status'') | _ \<Rightarrow> PNone)"

definition known_servers :: "pystr \<Rightarrow> server_entry list \<Rightarrow> bool" where
  "known_servers s servers \<longleftrightarrow> s \<in> sv_id ` set servers"

definition add_server :: "server_entry \<Rightarrow> server_entry list \<Rightarrow> server_entry list" where
  "add_server x servers = (if known_servers (sv_id x) servers then servers else servers @ [x])"

definition count_tool :: "pystr \<Rightarrow> server_entry list \<Rightarrow> server_entry list" where
  "count_tool s servers = update_rows (\<lambda>x. sv_id x = s) (\<lambda>x. x\<lparr>sv_count := sv_count x + 1\<rparr>) servers"

type_synonym token_catalog = "(pystr \<times> token_tool) list \<times> server_entry list"

fun catalog_tools :: "decision_env \<Rightarrow> class_db \<Rightarrow> tool_definition list \<Rightarrow> token_catalog \<Rightarrow> auth_error + token_catalog" where
  "catalog_tools de cdb [] cat = Inr cat"
| "catalog_tools de cdb (d # ds) (picked, servers) =
     (let s = meta_server d in
      if td_source d \<noteq> lit ''mcp'' \<or> s = [] then catalog_tools de cdb ds (picked, servers)
      else (case server_binding (de_files de) (de_ids de) s of
              Inl _ \<Rightarrow> catalog_tools de cdb ds (picked, servers)
            | Inr b \<Rightarrow>
                (let label = (let v = meta_get d (lit ''server_name'') in if truthy v then v else PStr s);
                     servers' = add_server \<lparr>sv_id = s, sv_name = label, sv_binding = b, sv_count = 0\<rparr> servers
                 in if length servers' > 100 then Inl (Http 409 (lit ''authorization_catalog_limit''))
                    else (case find_class cdb (s, td_id d) of
                            None \<Rightarrow> catalog_tools de cdb ds (picked, servers')
                          | Some c \<Rightarrow>
                              if c_status c \<noteq> Published \<or> effective c \<notin> {Read, Write} \<or> gate_status d \<noteq> PStr (lit ''published'')
                              then catalog_tools de cdb ds (picked, servers')
                              else (let item = \<lparr>tt_id = td_id d, tt_name = td_name d, tt_server = s, tt_server_name = label, tt_access = effective c,
                                        tt_snapshot = tool_snapshot (de_env de) (fingerprint c) (effective c) (reviewed_at c), tt_binding = b\<rparr>;
                                        picked' = AList.update (td_id d) item picked
                                    in if length picked' > 5000 then Inl (Http 409 (lit ''authorization_catalog_limit''))
                                       else catalog_tools de cdb ds (picked', count_tool s servers'))))))"

text \<open>
  The world around an edit: the decision environment, the fresh ids of synchronisation, the registry, the classification tables, and the two
  digests.
\<close>

record 'h edit_env =
  ed_env :: auth_env
  ed_settings :: auth_settings
  ed_decision :: decision_env
  ed_uuid :: "tool_key \<Rightarrow> pystr"
  ed_fresh :: "pystr \<Rightarrow> pystr"
  ed_registry :: "'h registry"
  ed_binding :: "token_state \<Rightarrow> token_catalog \<Rightarrow> pystr list \<Rightarrow> pystr list \<Rightarrow> pystr"
  ed_digest :: "token_state \<Rightarrow> pystr"

definition visible_catalog :: "'h edit_env \<Rightarrow> auth_db \<Rightarrow> class_db \<Rightarrow> auth_principal \<Rightarrow> tool_definition list \<Rightarrow> auth_error + class_db \<times> token_catalog" where
  "visible_catalog ed db cdb p ds =
     (case visible_tools (ed_decision ed) (ed_uuid ed) (ed_fresh ed) (au_access db) cdb (principal.truncate p) ds of
        Inl _ \<Rightarrow> Inl (Auth_value [])
      | Inr (cdb', visible) \<Rightarrow> bindR (catalog_tools (on_tables (ed_decision ed) cdb') cdb' visible ([], [])) (\<lambda>cat. Inr (cdb', cat)))"

text \<open>The definitions an existing authorization names: the selected tools and all tools of its continuous servers.\<close>

definition scope_definitions :: "'h registry \<Rightarrow> token_state \<Rightarrow> auth_error + tool_definition list" where
  "scope_definitions g s =
     (case mcp_snapshot g (map sp_server (ts_policies s)) 5000 of
        Inl _ \<Rightarrow> Inl (Http 409 (lit ''authorization_scope_limit''))
      | Inr (_, snaps) \<Rightarrow>
          (let all = get_definitions g (ts_tool_ids s) @ map (\<lambda>x. copy_definition (rs_structure x)) snaps;
               ds = map snd (fold (\<lambda>d m. AList.update (td_id d) d m) all [])
           in if length ds > 5000 then Inl (Http 409 (lit ''authorization_scope_limit'')) else Inr ds))"

text \<open>The second attempt of a limited editor runs in the same transaction, on the classifications the first one synchronised.\<close>

definition editor_catalog :: "'h edit_env \<Rightarrow> auth_db \<Rightarrow> class_db \<Rightarrow> auth_principal \<Rightarrow> token_state \<Rightarrow> pystr \<Rightarrow> auth_error + class_db \<times> token_catalog \<times> bool" where
  "editor_catalog ed db cdb p s target =
     (case visible_tools (ed_decision ed) (ed_uuid ed) (ed_fresh ed) (au_access db) cdb (principal.truncate p) (list_definitions (ed_registry ed)) of
        Inl _ \<Rightarrow> Inl (Auth_value [])
      | Inr (cdb', visible) \<Rightarrow>
          (case catalog_tools (on_tables (ed_decision ed) cdb') cdb' visible ([], []) of
             Inr cat \<Rightarrow> Inr (cdb', cat, False)
           | Inl x \<Rightarrow>
               if target = lit ''new'' \<or> x \<noteq> Http 409 (lit ''authorization_catalog_limit'') then Inl x
               else bindR (scope_definitions (ed_registry ed) s) (\<lambda>ds.
                 bindR (visible_catalog ed db cdb' p ds) (\<lambda>(cdb'', cat). Inr (cdb'', cat, True)))))"

text \<open>Subscribed servers that have no tool at the moment are added to the editor's list.\<close>

definition with_subscribed :: "token_state \<Rightarrow> token_catalog \<Rightarrow> token_catalog" where
  "with_subscribed s cat =
     (fst cat, snd cat @ map (\<lambda>p. \<lparr>sv_id = sp_server p, sv_name = PStr (sp_server p), sv_binding = sp_binding p, sv_count = 0\<rparr>)
        (filter (\<lambda>p. \<not> known_servers (sp_server p) (snd cat)) (ts_policies s)))"

section \<open>Tickets\<close>

definition issue_ticket :: "auth_env \<Rightarrow> int \<Rightarrow> pystr \<Rightarrow> auth_principal \<Rightarrow> pystr \<Rightarrow> pystr \<Rightarrow> pystr \<Rightarrow> pystr \<Rightarrow> pystr \<Rightarrow> auth_db \<Rightarrow> auth_error + auth_db" where
  "issue_ticket e now secret p session target purpose bound digest db =
     (let live = delete_rows (\<lambda>t. tk_expires t \<le> now) (au_tickets db);
          rows = (if purpose = lit ''confirmation''
                  then delete_rows (\<lambda>t. tk_user t = p_id p \<and> tk_session t = ae_sha e session \<and> tk_target t = target \<and> tk_purpose t = lit ''confirmation'') live
                  else live)
      in if length rows \<ge> 4096 \<or> sql_count (\<lambda>t. tk_user t = p_id p) rows \<ge> 32 then Inl (Http 429 (lit ''authorization_ticket_capacity''))
         else if ae_sha e secret \<in> tk_hash ` set rows then Inl Auth_integrity
         else Inr (db\<lparr>au_tickets := rows @ [\<lparr>tk_hash = ae_sha e secret, tk_user = p_id p, tk_session = ae_sha e session, tk_target = target, tk_purpose = purpose,
                tk_binding = bound, tk_digest = digest, tk_expires = now + 300\<rparr>]\<rparr>))"

definition ticket_matches :: "auth_env \<Rightarrow> int \<Rightarrow> auth_principal \<Rightarrow> pystr \<Rightarrow> pystr \<Rightarrow> pystr \<Rightarrow> pystr \<Rightarrow> pystr \<Rightarrow> pystr \<Rightarrow> ticket_row \<Rightarrow> bool" where
  "ticket_matches e now p session target purpose secret bound digest t \<longleftrightarrow> tk_hash t = ae_sha e secret \<and> tk_user t = p_id p
     \<and> tk_session t = ae_sha e session \<and> tk_target t = target \<and> tk_purpose t = purpose \<and> tk_binding t = bound \<and> tk_digest t = digest \<and> tk_expires t > now"

text \<open>An option ticket is only checked, a confirmation is deleted.\<close>

definition consume_ticket :: "auth_env \<Rightarrow> int \<Rightarrow> auth_principal \<Rightarrow> pystr \<Rightarrow> pystr \<Rightarrow> pystr \<Rightarrow> pystr \<Rightarrow> pystr \<Rightarrow> pystr \<Rightarrow> auth_db \<Rightarrow> auth_error + auth_db" where
  "consume_ticket e now p session target purpose secret bound digest db =
     (let m = ticket_matches e now p session target purpose secret bound digest in
      if purpose = lit ''options'' then
        (if list_ex m (au_tickets db) then Inr db else Inl (Http 403 (lit ''invalid_csrf'')))
      else if sql_count m (au_tickets db) = 1 then Inr (db\<lparr>au_tickets := delete_rows m (au_tickets db)\<rparr>)
      else Inl (if purpose = lit ''confirmation'' then Http 409 (lit ''authorization_confirmation_changed'') else Http 403 (lit ''invalid_csrf'')))"

definition options :: "'h edit_env \<Rightarrow> rat \<Rightarrow> pystr \<Rightarrow> auth_principal \<Rightarrow> pystr \<Rightarrow> pystr \<Rightarrow> auth_db \<Rightarrow> class_db \<Rightarrow>
    auth_error + (token_state \<times> token_catalog \<times> bool \<times> pystr) \<times> auth_db \<times> class_db" where
  "options ed now secret p0 session target db cdb =
     bindR (owner (ed_env ed) (ed_settings ed) now p0 session db) (\<lambda>p.
     bindR (token_state_of (ed_env ed) now p target db) (\<lambda>s.
     bindR (editor_catalog ed db cdb p s target) (\<lambda>(cdb', cat0, limited).
       let cat = with_subscribed s cat0; bound = ed_binding ed s cat (p_roles p) (p_permissions p) in
       bindR (issue_ticket (ed_env ed) \<lfloor>now\<rfloor> secret p session target (lit ''options'') bound [] db) (\<lambda>db'.
         Inr ((s, cat, limited, bound), db', cdb')))))"

section \<open>The target of a change\<close>

record token_change =
  tc_revision :: int
  tc_catalog :: pystr
  tc_mode :: pystr
  tc_scopes :: "pystr list"
  tc_tools :: "pystr list"
  tc_policies :: "(pystr \<times> access \<times> pystr option) list"
  tc_rate :: int
  tc_concurrency :: int
  tc_name :: "pystr option"
  tc_expires :: "pystr option"
  tc_ticket :: pystr

definition requested_policies :: "token_state \<Rightarrow> token_change \<Rightarrow> (pystr \<times> access \<times> pystr option) list" where
  "requested_policies s c =
     map (\<lambda>(server, a, b). (server, a,
            case b of Some x \<Rightarrow> Some x | None \<Rightarrow> map_option sp_binding (find (\<lambda>q. sp_server q = server) (rev (ts_policies s))))) (tc_policies c)"

definition policy_dict :: "pystr \<times> access \<times> pystr option \<Rightarrow> pyval" where
  "policy_dict q =
     (case q of (server, a, b) \<Rightarrow>
        PDict ([(PStr (lit ''server_id''), PStr server), (PStr (lit ''mode''), PStr (lit ''continuous'')), (PStr (lit ''access''), PStr (access_name a))]
          @ (case b of None \<Rightarrow> [] | Some x \<Rightarrow> [(PStr (lit ''server_binding''), PStr x)])))"

definition policy_triple :: "server_policy \<Rightarrow> pystr \<times> access \<times> pystr option" where
  "policy_triple q = (sp_server q, sp_access q, Some (sp_binding q))"

fun pick_tools :: "(pystr \<rightharpoonup> token_tool) \<Rightarrow> (pystr \<rightharpoonup> token_tool) \<Rightarrow> pystr list \<Rightarrow> auth_error + (pystr \<times> token_tool) list" where
  "pick_tools old cat [] = Inr []"
| "pick_tools old cat (k # ks) =
     (case (case old k of Some t \<Rightarrow> Some t | None \<Rightarrow> cat k) of
        None \<Rightarrow> Inl (Http 409 (lit ''tool_scope_changed''))
      | Some t \<Rightarrow> bindR (pick_tools old cat ks) (\<lambda>r. Inr ((k, t) # r)))"

definition scope_for :: "access \<Rightarrow> pystr" where
  "scope_for a = (if a = Read then lit ''tools.read'' else lit ''tools.invoke'')"

definition scope_covers :: "pystr list \<Rightarrow> access \<Rightarrow> bool" where
  "scope_covers scopes a \<longleftrightarrow> scope_for a \<in> set scopes \<or> lit ''*'' \<in> set scopes"

definition first_given :: "pystr option \<Rightarrow> pystr \<Rightarrow> pystr \<Rightarrow> pystr" where
  "first_given a b c = (if given a then the a else if b \<noteq> [] then b else c)"

text \<open>The result has the shape of a state: its revision is the one it was computed from.\<close>

definition change_target :: "'h edit_env \<Rightarrow> rat \<Rightarrow> class_db \<Rightarrow> auth_principal \<Rightarrow> token_state \<Rightarrow> (pystr \<times> token_tool) list \<Rightarrow> token_change \<Rightarrow> pystr \<Rightarrow> auth_error + token_state" where
  "change_target ed now cdb p s catalog c target =
     (if tc_revision c \<noteq> ts_revision s then Inl (Http 409 (lit ''revision_conflict''))
      else if tc_mode c = lit ''account'' \<and> (target = lit ''new'' \<or> ts_mode s \<noteq> lit ''account'') then Inl (Auth_value (lit ''account_mode_cannot_be_restored''))
      else bindR (normalize_api_token_scopes (principal.truncate p) (tc_scopes c) False) (\<lambda>scopes.
        if \<not> (1 \<le> tc_rate c \<and> tc_rate c \<le> 10000 \<and> 1 \<le> tc_concurrency c \<and> tc_concurrency c \<le> 100) then Inl (Auth_value (lit ''invalid_quota''))
        else
          (let requested = requested_policies s c;
               same = (sort_key fst requested = map policy_triple (ts_policies s))
           in bindR (if same then Inr (ts_policies s)
                     else (case bind_server_policies (de_files (ed_decision ed)) (identities cdb) (PList (map policy_dict requested)) of
                             Inl _ \<Rightarrow> Inl (Auth_value (lit ''server_scope'')) | Inr q \<Rightarrow> Inr q)) (\<lambda>policies.
             if length (tc_tools c) > 5000 \<or> \<not> distinct (tc_tools c) then Inl (Auth_value (lit ''invalid_tool_selection''))
             else if tc_mode c = lit ''account'' \<and> (tc_tools c \<noteq> [] \<or> policies \<noteq> []) then Inl (Auth_value (lit ''account_mode_has_no_independent_scope''))
             else
               (let quota_only = set (tc_tools c) = set (ts_tool_ids s) \<and> same \<and> tc_mode c = ts_mode s \<and> scopes = ts_scopes s
                in bindR (pick_tools (if quota_only then map_of (ts_tools s) else Map.empty) (map_of catalog) (tc_tools c)) (\<lambda>tools.
                  let continuous = map sp_server policies; servers = map (tt_server \<circ> snd) tools in
                  if list_ex (\<lambda>x. x \<in> set continuous) servers then Inl (Auth_value (lit ''server_scope_modes_conflict''))
                  else if length (remdups (continuous @ servers)) > 100 then Inl (Auth_value (lit ''server_scope_limit''))
                  else if list_ex (\<lambda>(_, t). \<not> scope_covers scopes (tt_access t)) tools then Inl (Auth_value (lit ''tool_scope_exceeds_function_permissions''))
                  else if list_ex (\<lambda>q. \<not> scope_covers scopes (sp_access q)) policies then Inl (Auth_value (lit ''server_scope_exceeds_function_permissions''))
                  else if list_ex (\<lambda>q. \<not> list_ex (\<lambda>(_, t). tt_server t = sp_server q) catalog
                             \<and> \<not> list_ex (\<lambda>r. sp_server r = sp_server q \<and> sp_binding r = sp_binding q) (ts_policies s)) policies
                    then Inl (Auth_value (lit ''server_scope_unavailable''))
                  else
                    (let expires = (if target = lit ''new'' then tc_expires c else ts_expires s) in
                     if given expires \<and> iso_expired (ed_env ed) now expires then Inl (Auth_value (lit ''invalid_expiration''))
                     else Inr \<lparr>ts_revision = ts_revision s, ts_mode = tc_mode c, ts_scopes = scopes, ts_tool_ids = sort (map fst tools), ts_policies = policies,
                            ts_tools = tools, ts_rate = Some (tc_rate c), ts_concurrency = Some (tc_concurrency c),
                            ts_name = strip (first_given (tc_name c) (ts_name s) (lit ''API Token'')), ts_expires = expires\<rparr>)))))))"

section \<open>Preview and save\<close>

definition same_dict :: "('k \<times> 'v) list \<Rightarrow> ('k \<times> 'v) list \<Rightarrow> bool" where
  "same_dict a b \<longleftrightarrow> set (map fst a) = set (map fst b) \<and> list_all (\<lambda>k. map_of a k = map_of b k) (map fst a)"

definition widens :: "token_state \<Rightarrow> token_state \<Rightarrow> bool" where
  "widens s t \<longleftrightarrow> ts_mode t \<noteq> ts_mode s \<or> ts_scopes t \<noteq> ts_scopes s \<or> \<not> same_dict (ts_tools t) (ts_tools s) \<or> ts_policies t \<noteq> ts_policies s"

definition policy_row :: "pystr \<Rightarrow> token_state \<Rightarrow> token_policy_row" where
  "policy_row tid t = \<lparr>ta_token = tid, ta_revision = ts_revision t + 1, ta_mode = ts_mode t, ta_policies = ts_policies t, ta_tools = ts_tools t,
     ta_rate = (case ts_rate t of None \<Rightarrow> 0 | Some r \<Rightarrow> r), ta_concurrency = (case ts_concurrency t of None \<Rightarrow> 0 | Some r \<Rightarrow> r)\<rparr>"

definition put_policy :: "token_policy_row \<Rightarrow> token_policy_row list \<Rightarrow> token_policy_row list" where
  "put_policy r rows = (if ta_token r \<in> ta_token ` set rows then update_rows (\<lambda>x. ta_token x = ta_token r) (\<lambda>_. r) rows else rows @ [r])"

definition store_change :: "auth_env \<Rightarrow> rat \<Rightarrow> pystr \<Rightarrow> pystr \<Rightarrow> auth_principal \<Rightarrow> pystr \<Rightarrow> token_state \<Rightarrow> auth_db \<Rightarrow> auth_error + pystr \<times> auth_db" where
  "store_change e now random uuid p target t db =
     (let fresh = target = lit ''new''; tid = (if fresh then uuid else target); secret = lit ''lgt_'' @ random in
      bindR (if fresh then
               (if p_id p \<notin> u_id ` set (au_users db) \<or> tid \<in> ak_id ` set (au_tokens db) \<or> ae_sha e secret \<in> ak_hash ` set (au_tokens db) then Inl Auth_integrity
                else Inr (db\<lparr>au_tokens := au_tokens db @ [\<lparr>ak_id = tid, ak_user = p_id p, ak_name = ts_name t, ak_hash = ae_sha e secret,
                       ak_prefix = token_prefix secret, ak_scopes = ts_scopes t, ak_expires = ts_expires t, ak_revoked = None, ak_last_used = None,
                       ak_created = now\<rparr>]\<rparr>))
             else Inr (db\<lparr>au_tokens := update_rows (\<lambda>x. ak_id x = tid \<and> ak_user x = p_id p \<and> ak_revoked x = None) (edit_token (Set_scopes (ts_scopes t))) (au_tokens db)\<rparr>))
        (\<lambda>db1. Inr (tid, db1\<lparr>au_policies := put_policy (policy_row tid t) (au_policies db1)\<rparr>)))"

datatype change_reply = Previewed token_state token_state | Saved pystr token_state

definition change :: "'h edit_env \<Rightarrow> rat \<Rightarrow> pystr \<Rightarrow> pystr \<Rightarrow> auth_principal \<Rightarrow> pystr \<Rightarrow> pystr \<Rightarrow> token_change \<Rightarrow> bool \<Rightarrow> auth_db \<Rightarrow> class_db \<Rightarrow>
    auth_error + change_reply \<times> auth_db \<times> class_db" where
  "change ed now random uuid p0 session target c commit db cdb =
     bindR (owner (ed_env ed) (ed_settings ed) now p0 session db) (\<lambda>p.
     bindR (token_state_of (ed_env ed) now p target db) (\<lambda>s.
     bindR (editor_catalog ed db cdb p s target) (\<lambda>(cdb', cat0, limited).
       let cat = with_subscribed s cat0; bound = ed_binding ed s cat (p_roles p) (p_permissions p) in
       if tc_catalog c \<noteq> bound then Inl (Http 409 (lit ''authorization_catalog_changed''))
       else bindR (change_target ed now cdb' p s (fst cat) c target) (\<lambda>t.
         if limited \<and> widens s t then Inl (Http 409 (lit ''authorization_catalog_limit''))
         else bindR (consume_ticket (ed_env ed) \<lfloor>now\<rfloor> p session target (if commit then lit ''confirmation'' else lit ''options'') (tc_ticket c) bound
                       (if commit then ed_digest ed t else []) db) (\<lambda>db1.
           if \<not> commit then
             bindR (issue_ticket (ed_env ed) \<lfloor>now\<rfloor> random p session target (lit ''confirmation'') bound (ed_digest ed t) db1) (\<lambda>db2.
               Inr (Previewed s t, db2, cdb'))
           else bindR (store_change (ed_env ed) now random uuid p target t db1) (\<lambda>(tid, db2). Inr (Saved tid t, db2, cdb')))))))"

end
