(* ===== verification/Auth_Runs.thy ===== *)
theory Auth_Runs
  imports Token_Authorization
begin

text \<open>
  The authentication tables as a machine: every operation of \<open>Auth_Store\<close> and \<open>Token_Authorization\<close> as a labelled step, the invariant of the tables, and
  what each operation keeps of it.
\<close>

section \<open>The invariant\<close>

definition users_ok :: "user_rec list \<Rightarrow> pystr list \<Rightarrow> bool" where
  "users_ok us ids \<longleftrightarrow> distinct (map u_id us) \<and> distinct (map u_name us) \<and> set ids = u_id ` set us \<and> (\<forall>u \<in> set us. u_status u \<in> set USER_STATUSES)"

definition sessions_ok :: "pystr set \<Rightarrow> session_row list \<Rightarrow> bool" where
  "sessions_ok U ss \<longleftrightarrow> distinct (map se_id ss) \<and> distinct (map se_hash ss)
     \<and> (\<forall>s \<in> set ss. se_user s \<in> U \<and> se_purpose s \<in> {lit ''console'', lit ''oauth_consent''})"

definition tokens_ok :: "pystr set \<Rightarrow> api_token_row list \<Rightarrow> bool" where
  "tokens_ok U ts \<longleftrightarrow> distinct (map ak_id ts) \<and> distinct (map ak_hash ts) \<and> (\<forall>t \<in> set ts. ak_user t \<in> U)"

definition policy_ok :: "token_policy_row \<Rightarrow> bool" where
  "policy_ok r \<longleftrightarrow> 1 \<le> ta_revision r \<and> 1 \<le> ta_rate r \<and> ta_rate r \<le> 10000 \<and> 1 \<le> ta_concurrency r \<and> ta_concurrency r \<le> 100"

definition policies_ok :: "pystr set \<Rightarrow> token_policy_row list \<Rightarrow> bool" where
  "policies_ok T rs \<longleftrightarrow> distinct (map ta_token rs) \<and> (\<forall>r \<in> set rs. ta_token r \<in> T \<and> policy_ok r)"

definition csrf_ok :: "pystr set \<Rightarrow> csrf_row list \<Rightarrow> bool" where
  "csrf_ok S cs \<longleftrightarrow> distinct (map cs_hash cs) \<and> length cs \<le> MAX_CONSOLE_CSRF \<and> (\<forall>sid. sql_count (\<lambda>c. cs_session c = sid) cs \<le> MAX_SESSION_CSRF)
     \<and> (\<forall>c \<in> set cs. cs_session c \<in> S)"

definition tickets_ok :: "ticket_row list \<Rightarrow> bool" where
  "tickets_ok ts \<longleftrightarrow> distinct (map tk_hash ts) \<and> length ts \<le> 4096 \<and> (\<forall>u. sql_count (\<lambda>t. tk_user t = u) ts \<le> 32)"

abbreviation user_set :: "auth_db \<Rightarrow> pystr set" where
  "user_set db \<equiv> u_id ` set (au_users db)"

definition auth_ok :: "auth_db \<Rightarrow> bool" where
  "auth_ok db \<longleftrightarrow> users_ok (au_users db) (user_ids (au_access db)) \<and> tables_ok (au_access db) \<and> system_ok (au_access db)
     \<and> sessions_ok (user_set db) (au_sessions db) \<and> tokens_ok (user_set db) (au_tokens db)
     \<and> policies_ok (ak_id ` set (au_tokens db)) (au_policies db) \<and> csrf_ok (se_id ` set (au_sessions db)) (au_csrf db) \<and> tickets_ok (au_tickets db)"

lemma auth_okI:
  assumes "users_ok (au_users db) (user_ids (au_access db))" "tables_ok (au_access db)" "system_ok (au_access db)" "sessions_ok (user_set db) (au_sessions db)"
    "tokens_ok (user_set db) (au_tokens db)" "policies_ok (ak_id ` set (au_tokens db)) (au_policies db)" "csrf_ok (se_id ` set (au_sessions db)) (au_csrf db)"
    "tickets_ok (au_tickets db)"
  shows "auth_ok db"
  using assms unfolding auth_ok_def by blast

lemma auth_okD:
  assumes "auth_ok db"
  shows "users_ok (au_users db) (user_ids (au_access db))" "tables_ok (au_access db)" "system_ok (au_access db)" "sessions_ok (user_set db) (au_sessions db)"
    "tokens_ok (user_set db) (au_tokens db)" "policies_ok (ak_id ` set (au_tokens db)) (au_policies db)" "csrf_ok (se_id ` set (au_sessions db)) (au_csrf db)"
    "tickets_ok (au_tickets db)"
  using assms unfolding auth_ok_def by blast+

text \<open>The tables keyed by an id, with the updates the code makes.\<close>

interpretation user_table: keyed_table u_id edit_user
  by unfold_locales (simp add: edit_user_def split: prod.splits)

interpretation user_names: keyed_table u_name edit_user
  by unfold_locales (simp add: edit_user_def split: prod.splits)

interpretation password_table: keyed_table u_id edit_password
  by unfold_locales (simp add: edit_password_def split: prod.splits)

interpretation password_names: keyed_table u_name edit_password
  by unfold_locales (simp add: edit_password_def split: prod.splits)

interpretation token_table: keyed_table ak_id edit_token
  by unfold_locales (simp add: edit_token_def split: token_edit.splits)

interpretation token_hashes: keyed_table ak_hash edit_token
  by unfold_locales (simp add: edit_token_def split: token_edit.splits)

lemma edit_token_simps [simp]: "ak_id (edit_token v t) = ak_id t" "ak_hash (edit_token v t) = ak_hash t" "ak_user (edit_token v t) = ak_user t"
  by (simp_all add: edit_token_def split: token_edit.splits)

lemma edit_user_simps [simp]: "u_id (edit_user v u) = u_id u" "u_name (edit_user v u) = u_name u" "u_id (edit_password w u) = u_id u" "u_name (edit_password w u) = u_name u"
  "u_status (edit_password w u) = u_status u" "u_status (edit_user (d, s, n) u) = s"
  by (simp_all add: edit_user_def edit_password_def split: prod.splits)

lemma find_userD: "find_user db uid = Some u \<Longrightarrow> u \<in> set (au_users db) \<and> u_id u = uid"
  unfolding find_user_def by (drule find_row_SomeD) simp

lemma find_user_iff:
  assumes "auth_ok db"
  shows "find_user db uid = Some u \<longleftrightarrow> u \<in> set (au_users db) \<and> u_id u = uid"
proof
  assume "u \<in> set (au_users db) \<and> u_id u = uid"
  then show "find_user db uid = Some u"
    using unique_key_find [of u_id "au_users db" u] auth_okD(1) [OF assms] unfolding find_user_def users_ok_def by auto
qed (rule find_userD)

section \<open>What each kind of change keeps\<close>

lemma sessions_ok_mono: "sessions_ok U ss \<Longrightarrow> U \<subseteq> V \<Longrightarrow> sessions_ok V ss"
  unfolding sessions_ok_def by blast

lemma tokens_ok_mono: "tokens_ok U ts \<Longrightarrow> U \<subseteq> V \<Longrightarrow> tokens_ok V ts"
  unfolding tokens_ok_def by blast

lemma policies_ok_mono: "policies_ok T rs \<Longrightarrow> T \<subseteq> V \<Longrightarrow> policies_ok V rs"
  unfolding policies_ok_def by blast

lemma sql_count_filter_le: "sql_count p (delete_rows q xs) \<le> sql_count p xs"
  unfolding sql_count_def delete_rows_def by (induction xs) auto

lemma csrf_ok_delete: "csrf_ok S cs \<Longrightarrow> (\<And>c. c \<in> set cs \<Longrightarrow> \<not> p c \<Longrightarrow> cs_session c \<in> S') \<Longrightarrow> csrf_ok S' (delete_rows p cs)"
proof -
  assume ok: "csrf_ok S cs" and keep: "\<And>c. c \<in> set cs \<Longrightarrow> \<not> p c \<Longrightarrow> cs_session c \<in> S'"
  have "length (delete_rows p cs) \<le> MAX_CONSOLE_CSRF" using ok length_filter_le [of "\<lambda>c. \<not> p c" cs] unfolding csrf_ok_def delete_rows_def by linarith
  moreover have "sql_count (\<lambda>c. cs_session c = sid) (delete_rows p cs) \<le> MAX_SESSION_CSRF" for sid
    using ok sql_count_filter_le [of "\<lambda>c. cs_session c = sid" p cs] le_trans unfolding csrf_ok_def by blast
  ultimately show ?thesis using ok keep unfolding csrf_ok_def by (simp add: distinct_delete_rows)
qed

lemma tickets_ok_delete: "tickets_ok ts \<Longrightarrow> tickets_ok (delete_rows p ts)"
proof -
  assume ok: "tickets_ok ts"
  have "length (delete_rows p ts) \<le> 4096" using ok length_filter_le [of "\<lambda>c. \<not> p c" ts] unfolding tickets_ok_def delete_rows_def by linarith
  moreover have "sql_count (\<lambda>c. tk_user c = u) (delete_rows p ts) \<le> 32" for u
    using ok sql_count_filter_le [of "\<lambda>c. tk_user c = u" p ts] le_trans unfolding tickets_ok_def by blast
  ultimately show ?thesis using ok unfolding tickets_ok_def by (simp add: distinct_delete_rows)
qed

lemma delete_sessions_simps [simp]:
  "au_users (delete_sessions p db) = au_users db" "au_tokens (delete_sessions p db) = au_tokens db" "au_policies (delete_sessions p db) = au_policies db"
  "au_access (delete_sessions p db) = au_access db" "au_tickets (delete_sessions p db) = au_tickets db" "au_cred (delete_sessions p db) = au_cred db"
  "au_sessions (delete_sessions p db) = delete_rows p (au_sessions db)"
  by (simp_all add: delete_sessions_def)

lemma delete_sessions_ok:
  assumes "auth_ok db"
  shows "auth_ok (delete_sessions p db)"
proof (rule auth_okI)
  note D = auth_okD [OF assms]
  show "sessions_ok (user_set (delete_sessions p db)) (au_sessions (delete_sessions p db))"
    using D(4) unfolding sessions_ok_def by (simp add: distinct_delete_rows)
  have "cs_session c \<in> se_id ` set (delete_rows p (au_sessions db))"
    if "c \<in> set (au_csrf db)" "cs_session c \<notin> se_id ` set (filter p (au_sessions db))" for c
  proof -
    have "cs_session c \<in> se_id ` set (au_sessions db)" using D(7) that(1) unfolding csrf_ok_def by blast
    then obtain s where "s \<in> set (au_sessions db)" "se_id s = cs_session c" by auto
    then show ?thesis using that(2) by (cases "p s") force+
  qed
  then have "csrf_ok (se_id ` set (delete_rows p (au_sessions db))) (delete_rows (\<lambda>c. cs_session c \<in> se_id ` set (filter p (au_sessions db))) (au_csrf db))"
    by (rule csrf_ok_delete [OF D(7)])
  then show "csrf_ok (se_id ` set (au_sessions (delete_sessions p db))) (au_csrf (delete_sessions p db))"
    unfolding delete_sessions_simps by (simp add: delete_sessions_def)
qed (use auth_okD [OF assms] in simp_all)

lemma set_token_simps [simp]:
  "au_users (set_token t v db) = au_users db" "au_sessions (set_token t v db) = au_sessions db" "au_policies (set_token t v db) = au_policies db"
  "au_access (set_token t v db) = au_access db" "au_tickets (set_token t v db) = au_tickets db" "au_csrf (set_token t v db) = au_csrf db"
  by (simp_all add: set_token_def)

lemma tokens_update_ok:
  "tokens_ok U ts \<Longrightarrow> tokens_ok U (update_rows P (edit_token v) ts)" "ak_id ` set (update_rows P (edit_token v) ts) = ak_id ` set ts"
proof -
  show "ak_id ` set (update_rows P (edit_token v) ts) = ak_id ` set ts" by (rule image_update_rows) simp
  assume ok: "tokens_ok U ts"
  have "ak_user t \<in> U" if "t \<in> set (update_rows P (edit_token v) ts)" for t
    using that ok unfolding tokens_ok_def set_update_rows by auto
  then show "tokens_ok U (update_rows P (edit_token v) ts)"
    using ok token_table.update_distinct token_hashes.update_distinct unfolding tokens_ok_def by blast
qed

lemma set_token_ok: "auth_ok db \<Longrightarrow> auth_ok (set_token t v db)"
  by (rule auth_okI) (use auth_okD [of db] tokens_update_ok in \<open>simp_all add: set_token_def\<close>)

lemma add_token_ok:
  assumes "auth_ok db" "ak_user x \<in> user_set db" "ak_id x \<notin> ak_id ` set (au_tokens db)" "ak_hash x \<notin> ak_hash ` set (au_tokens db)"
  shows "auth_ok (db\<lparr>au_tokens := au_tokens db @ [x]\<rparr>)"
proof (rule auth_okI)
  note D = auth_okD [OF assms(1)]
  show "tokens_ok (user_set (db\<lparr>au_tokens := au_tokens db @ [x]\<rparr>)) (au_tokens (db\<lparr>au_tokens := au_tokens db @ [x]\<rparr>))"
    using D(5) assms(2-4) unfolding tokens_ok_def by simp
  show "policies_ok (ak_id ` set (au_tokens (db\<lparr>au_tokens := au_tokens db @ [x]\<rparr>))) (au_policies (db\<lparr>au_tokens := au_tokens db @ [x]\<rparr>))"
    using policies_ok_mono [OF D(6)] by (simp add: subset_insertI)
qed (use auth_okD [OF assms(1)] in simp_all)

lemma users_edit_ok:
  assumes "auth_ok db" "us = update_rows P f (au_users db)" "\<And>u. u_id (f u) = u_id u" "\<And>u. u_name (f u) = u_name u"
    "\<And>u. u \<in> set (au_users db) \<Longrightarrow> P u \<Longrightarrow> u_status (f u) \<in> set USER_STATUSES"
  shows "auth_ok (db\<lparr>au_users := us\<rparr>)"
proof -
  have ids: "u_id ` set us = user_set db" unfolding assms(2) by (rule image_update_rows) (rule assms(3))
  have "map u_id us = map u_id (au_users db)" "map u_name us = map u_name (au_users db)" unfolding assms(2) using assms(3,4) by (auto simp: update_rows_def)
  moreover have "u_status u \<in> set USER_STATUSES" if "u \<in> set us" for u
    using that auth_okD(1) [OF assms(1)] assms(5) unfolding users_ok_def assms(2) set_update_rows by auto
  ultimately have "users_ok us (user_ids (au_access db))" using auth_okD(1) [OF assms(1)] ids unfolding users_ok_def by simp
  then show ?thesis by (intro auth_okI) (use auth_okD [OF assms(1)] ids in simp_all)
qed

lemma tables_ok_add_user:
  assumes "tables_ok a" "uid \<notin> set (user_ids a)" "r \<in> set (roles a)"
  shows "tables_ok (a\<lparr>user_ids := user_ids a @ [uid], user_roles := user_roles a @ [(uid, role_id r)]\<rparr>)"
proof -
  have "(uid, x) \<notin> set (user_roles a)" for x using assms(1,2) unfolding tables_ok_def by auto
  then show ?thesis using assms unfolding tables_ok_def by auto
qed

lemma insert_userE:
  assumes "insert_user e now uid salt n db = Inr db'"
  obtains r where "r \<in> set (roles (au_access db))" "role_code r = nu_role n" "uid \<notin> user_set db" "strip (nu_name n) \<notin> u_name ` set (au_users db)" "nu_status n \<in> set USER_STATUSES"
    "db' = db\<lparr>au_users := au_users db @ [\<lparr>u_id = uid, u_name = strip (nu_name n), u_hash = hash_password e salt None (nu_password n),
                    u_display = strip (nu_display n), u_status = nu_status n, u_must_change = nu_must_change n, u_created = now, u_updated = now\<rparr>],
            au_access := (au_access db)\<lparr>user_ids := user_ids (au_access db) @ [uid], user_roles := user_roles (au_access db) @ [(uid, role_id r)]\<rparr>\<rparr>"
proof -
  have len: "length (filter (\<lambda>r. role_code r = nu_role n) (roles (au_access db))) = 1"
    using assms by (simp add: insert_user_def Let_def split: if_splits)
  then obtain r where r: "filter (\<lambda>r. role_code r = nu_role n) (roles (au_access db)) = [r]" by (auto simp: length_Suc_conv)
  then have "r \<in> set (filter (\<lambda>r. role_code r = nu_role n) (roles (au_access db)))" by simp
  then have mem: "r \<in> set (roles (au_access db))" "role_code r = nu_role n" by simp_all
  show thesis
    by (rule that [OF mem]) (use assms r in \<open>simp_all add: insert_user_def Let_def split: if_splits\<close>)
qed

lemma insert_user_ok:
  assumes ok: "auth_ok db" and run: "insert_user e now uid salt n db = Inr db'"
  shows "auth_ok db'"
  using run
proof (cases rule: insert_userE)
  case (1 r)
  note D = auth_okD [OF ok]
  have new: "uid \<notin> set (user_ids (au_access db))" using 1(3) D(1) unfolding users_ok_def by simp
  show ?thesis
  proof (rule auth_okI)
    show "users_ok (au_users db') (user_ids (au_access db'))" using D(1) 1(3,4,5) unfolding users_ok_def 1(6) by simp
    show "tables_ok (au_access db')" using tables_ok_add_user [OF D(2) new 1(1)] unfolding 1(6) by simp
    show "system_ok (au_access db')" using D(3) unfolding system_ok_def 1(6) by simp
    show "sessions_ok (user_set db') (au_sessions db')" "tokens_ok (user_set db') (au_tokens db')"
      using sessions_ok_mono [OF D(4)] tokens_ok_mono [OF D(5)] unfolding 1(6) by (simp_all add: subset_insertI)
  qed (use D in \<open>simp_all add: 1(6)\<close>)
qed

section \<open>Each operation keeps the invariant\<close>

lemma create_user_ok: "auth_ok db \<Longrightarrow> auth_ok (snd (create_user e now uid salt n db))"
  by (cases "insert_user e now uid salt n db") (simp_all add: create_user_def insert_user_ok)

lemma cred_ok: "auth_ok (db\<lparr>au_cred := c\<rparr>) \<longleftrightarrow> auth_ok db"
  by (simp add: auth_ok_def)

lemma bootstrap_ok: "auth_ok db \<Longrightarrow> auth_ok (snd (bootstrap_from_env e st be now uid salt random db))"
proof -
  assume ok: "auth_ok db"
  have ins: "auth_ok (snd (case insert_user e now uid salt n x of Inl y \<Rightarrow> (Inl y, x) | Inr z \<Rightarrow> (Inr (), f z)))"
    if "auth_ok x" "\<And>z. auth_ok z \<Longrightarrow> auth_ok (f z)" for n x f
    using that insert_user_ok [OF that(1)] by (cases "insert_user e now uid salt n x") auto
  have load: "auth_ok (snd (load_or_create_initial_admin_credentials random db))"
    using ok by (simp add: load_or_create_initial_admin_credentials_def cred_ok split: cred_file.split)
  show ?thesis
  proof (cases "\<not> as_enabled st \<or> au_users db \<noteq> []")
    case True
    then show ?thesis using ok by (auto simp: bootstrap_from_env_def)
  next
    case False
    show ?thesis
    proof (cases "configured_bootstrap_credentials be")
      case (Inl x)
      then show ?thesis using ok False by (simp add: bootstrap_from_env_def)
    next
      case (Inr c)
      show ?thesis
      proof (cases c)
        case None
        obtain r db1 where l: "load_or_create_initial_admin_credentials random db = (r, db1)" by (cases "load_or_create_initial_admin_credentials random db")
        then show ?thesis using load False Inr None ins [of db1 "\<lambda>z. z"] by (cases r) (auto simp: bootstrap_from_env_def)
      next
        case (Some up)
        then show ?thesis using ok False Inr ins [OF ok, of "\<lambda>z. z\<lparr>au_cred := Cred_absent\<rparr>"]
          by (cases up) (simp add: bootstrap_from_env_def cred_ok)
      qed
    qed
  qed
qed

lemma update_user_ok: "auth_ok db \<Longrightarrow> auth_ok (snd (update_user now uid display status db))"
proof (cases "find_user db uid")
  case None
  assume "auth_ok db"
  then show ?thesis using None by (simp add: update_user_def)
next
  case (Some u)
  assume ok: "auth_ok db"
  show ?thesis
  proof (cases "case status of None \<Rightarrow> False | Some s \<Rightarrow> s \<notin> set USER_STATUSES")
    case True
    then show ?thesis using ok Some by (simp add: update_user_def)
  next
    case False
    define d s where "d = (case display of None \<Rightarrow> u_display u | Some d \<Rightarrow> strip d)" and "s = (case status of None \<Rightarrow> u_status u | Some s \<Rightarrow> s)"
    have "s \<in> set USER_STATUSES"
      using False find_userD [OF Some] auth_okD(1) [OF ok] unfolding users_ok_def s_def by (cases status) auto
    then have "auth_ok (db\<lparr>au_users := update_rows (\<lambda>x. u_id x = uid) (edit_user (d, s, now)) (au_users db)\<rparr>)"
      by (intro users_edit_ok [OF ok refl]) simp_all
    then show ?thesis using Some False delete_sessions_ok by (auto simp: update_user_def Let_def d_def [symmetric] s_def [symmetric])
  qed
qed

lemma change_password_ok: "auth_ok db \<Longrightarrow> change_password e now salt uid pw db = Inr db' \<Longrightarrow> auth_ok db'"
proof -
  assume ok: "auth_ok db" and run: "change_password e now salt uid pw db = Inr db'"
  define x where "x = db\<lparr>au_users := update_rows (\<lambda>x. u_id x = uid) (edit_password (hash_password e salt None pw, now)) (au_users db)\<rparr>"
  have "auth_ok x" unfolding x_def
    by (intro users_edit_ok [OF ok refl]) (use auth_okD(1) [OF ok] in \<open>auto simp: users_ok_def\<close>)
  then have "auth_ok (delete_sessions (\<lambda>s. se_user s = uid) x)" by (rule delete_sessions_ok)
  moreover have "db' \<in> {delete_sessions (\<lambda>s. se_user s = uid) x, (delete_sessions (\<lambda>s. se_user s = uid) x)\<lparr>au_cred := Cred_absent\<rparr>}"
    using run by (auto simp: change_password_def Let_def x_def split: if_splits option.splits)
  ultimately show ?thesis by (auto simp: cred_ok)
qed

lemma access_edit_ok:
  assumes "auth_ok db" "tables_ok a" "system_ok a" "user_ids a = user_ids (au_access db)"
  shows "auth_ok (db\<lparr>au_access := a\<rparr>)"
  by (rule auth_okI) (use auth_okD [OF assms(1)] assms(2-4) in simp_all)

lemma set_user_roles_frame: "set_user_roles a uid codes = Inr a' \<Longrightarrow> roles a' = roles a \<and> permission_types a' = permission_types a \<and> user_ids a' = user_ids a"
  by (auto simp: set_user_roles_def Let_def split: if_splits)

lemma set_roles_ok:
  assumes "auth_ok db" "set_roles uid codes db = Inr db'"
  shows "auth_ok db'"
proof -
  obtain a where a: "set_user_roles (au_access db) uid codes = Inr a" "db' = db\<lparr>au_access := a\<rparr>" using assms(2) by (auto simp: set_roles_def)
  note f = set_user_roles_frame [OF a(1)]
  have "tables_ok a" using set_user_roles_ok [OF auth_okD(2) [OF assms(1)] a(1)] .
  moreover have "system_ok a" using auth_okD(3) [OF assms(1)] f unfolding system_ok_def by simp
  ultimately show ?thesis unfolding a(2) using f by (intro access_edit_ok [OF assms(1)]) simp_all
qed

lemma patch_userE:
  obtains (same) r where "patch_user now p uid display status rs db = (r, db)"
  | (applied) db1 where "validate_admin_transition db uid status rs = Inr ()" "(case rs of None \<Rightarrow> Inr db | Some codes \<Rightarrow> set_roles uid codes db) = Inr db1"
      "snd (patch_user now p uid display status rs db) = snd (update_user now uid display status db1)"
proof -
  consider x where "require_control p ''users.manage'' = Inl x" | "require_control p ''users.manage'' = Inr ()" by (cases "require_control p ''users.manage''") auto
  then show thesis
  proof cases
    case 1
    then show thesis by (intro same) (simp add: patch_user_def)
  next
    case 2
    show thesis
    proof (cases "case status of None \<Rightarrow> False | Some s \<Rightarrow> s \<notin> set USER_STATUSES")
      case True
      then show thesis using 2 by (intro same) (simp add: patch_user_def)
    next
      case st: False
      show thesis
      proof (cases "validate_admin_transition db uid status rs")
        case (Inl x)
        then show thesis using 2 st by (intro same) (simp add: patch_user_def)
      next
        case v: (Inr y)
        show thesis
        proof (cases "case rs of None \<Rightarrow> Inr db | Some codes \<Rightarrow> set_roles uid codes db")
          case (Inl x)
          then show thesis using 2 st v by (cases x; intro same) (simp_all add: patch_user_def)
        next
          case (Inr db1)
          obtain r db2 where "update_user now uid display status db1 = (r, db2)" by (cases "update_user now uid display status db1")
          then show thesis using 2 st v Inr by (intro applied [of db1]) (cases r; simp add: patch_user_def)+
        qed
      qed
    qed
  qed
qed

lemma patch_user_ok: "auth_ok db \<Longrightarrow> auth_ok (snd (patch_user now p uid display status rs db))"
proof (cases rule: patch_userE [of now p uid display status rs db])
  case (same r)
  assume "auth_ok db"
  then show ?thesis using same by simp
next
  case (applied db1)
  assume ok: "auth_ok db"
  have "auth_ok db1" using applied(2) ok set_roles_ok [OF ok] by (cases rs) auto
  then show ?thesis unfolding applied(3) by (rule update_user_ok)
qed

lemma create_access_userE:
  obtains (same) r where "create_access_user e now p uid salt n codes db = (r, db)"
  | (made) r db1 m where "insert_user e now uid salt m db = Inr db1" "create_access_user e now p uid salt n codes db = (r, db1)"
  | (roles) r db1 db2 wanted m where "insert_user e now uid salt m db = Inr db1" "set_roles uid wanted db1 = Inr db2"
      "create_access_user e now p uid salt n codes db = (r, db2)"
proof -
  define wanted where "wanted = sorted_names (filter (\<lambda>c. c \<noteq> []) (map strip codes))"
  define m where "m = n\<lparr>nu_role := hd wanted, nu_weak := False\<rparr>"
  define unknown where "unknown = filter (\<lambda>c. c \<notin> set (map (role_code \<circ> rv_row) (filter (role_enabled \<circ> rv_row) (list_roles (au_access db))))) wanted"
  note d = create_access_user_def [of e now p uid salt n codes db, folded wanted_def, unfolded Let_def, folded unknown_def m_def]
  show thesis
  proof (cases "require_control p ''users.manage'' = Inr () \<and> nu_status n \<in> set USER_STATUSES \<and> wanted \<noteq> [] \<and> unknown = []")
    case False
    then have "snd (create_access_user e now p uid salt n codes db) = db"
      by (cases "require_control p ''users.manage''") (auto simp: d)
    then show thesis by (intro same [of "fst (create_access_user e now p uid salt n codes db)"]) (simp add: prod_eq_iff)
  next
    case True
    show thesis
    proof (cases "insert_user e now uid salt m db")
      case (Inl x)
      have "create_user e now uid salt m db = (Inl x, db)" using Inl by (simp add: create_user_def)
      then have "snd (create_access_user e now p uid salt n codes db) = db" using True by (cases x) (simp_all add: d)
      then show thesis by (intro same [of "fst (create_access_user e now p uid salt n codes db)"]) (simp add: prod_eq_iff)
    next
      case (Inr db1)
      then have "find_user db1 uid \<noteq> None" by (cases rule: insert_userE) (simp add: find_user_def find_row_None_iff)
      then have c: "create_user e now uid salt m db = (Inr (user_row_to_dict db1 (the (find_user db1 uid))), db1)"
        by (auto simp: create_user_def Inr get_user_def)
      show thesis
      proof (cases "set_roles uid wanted db1")
        case (Inl x)
        then have "snd (create_access_user e now p uid salt n codes db) = db1" using True c by (cases x) (simp_all add: d)
        then show thesis by (intro made [OF Inr, of "fst (create_access_user e now p uid salt n codes db)"]) (simp add: prod_eq_iff)
      next
        case db2: (Inr db2)
        then have "snd (create_access_user e now p uid salt n codes db) = db2" using True c by (simp add: d)
        then show thesis by (intro roles [OF Inr db2, of "fst (create_access_user e now p uid salt n codes db)"]) (simp add: prod_eq_iff)
      qed
    qed
  qed
qed

lemma create_access_user_ok: "auth_ok db \<Longrightarrow> auth_ok (snd (create_access_user e now p uid salt n codes db))"
  by (cases rule: create_access_userE [of e now p uid salt n codes db]) (auto dest: insert_user_ok set_roles_ok)

lemma add_session_ok:
  assumes "auth_ok db" "se_user x \<in> user_set db" "se_purpose x \<in> {lit ''console'', lit ''oauth_consent''}"
    "se_id x \<notin> se_id ` set (au_sessions db)" "se_hash x \<notin> se_hash ` set (au_sessions db)"
  shows "auth_ok (db\<lparr>au_sessions := au_sessions db @ [x]\<rparr>)"
proof (rule auth_okI)
  note D = auth_okD [OF assms(1)]
  show "sessions_ok (user_set (db\<lparr>au_sessions := au_sessions db @ [x]\<rparr>)) (au_sessions (db\<lparr>au_sessions := au_sessions db @ [x]\<rparr>))"
    using D(4) assms(2-5) unfolding sessions_ok_def by simp
  show "csrf_ok (se_id ` set (au_sessions (db\<lparr>au_sessions := au_sessions db @ [x]\<rparr>))) (au_csrf (db\<lparr>au_sessions := au_sessions db @ [x]\<rparr>))"
    using D(7) unfolding csrf_ok_def by simp
qed (use auth_okD [OF assms(1)] in simp_all)

lemma login_tables:
  obtains (same) r where "login e st now salt tok sid username password purpose db = (r, db)"
  | (swept) r q where "login e st now salt tok sid username password purpose db = (r, delete_sessions q db)"
  | (opened) u q expires db1 p where "u \<in> set (au_users db)" "u_name u = strip username" "verify_password e salt password (u_hash u)" "u_status u = lit ''active''"
      "purpose \<in> {lit ''console'', lit ''oauth_consent''}" "db1 = db \<or> db1 = delete_sessions q db"
      "sid \<notin> se_id ` set (au_sessions db1)" "ae_sha e tok \<notin> se_hash ` set (au_sessions db1)"
      "build_auth_principal db u (lit ''session'') None [] = Inr p"
      "login e st now salt tok sid username password purpose db = (Inr (p\<lparr>p_session_id := Some sid\<rparr>, tok, expires),
        db1\<lparr>au_sessions := au_sessions db1 @ [\<lparr>se_id = sid, se_user = u_id u, se_hash = ae_sha e tok, se_expires = expires, se_created = now, se_purpose = purpose\<rparr>]\<rparr>)"
proof -
  show thesis
  proof (cases "purpose \<in> {lit ''console'', lit ''oauth_consent''}")
    case False
    then show thesis using same by (simp add: login_def)
  next
    case pu: True
    show thesis
    proof (cases "find_row (\<lambda>u. u_name u = strip username) (au_users db)")
      case None
      then show thesis using pu same by (auto simp: login_def Let_def)
    next
      case (Some u)
      have u: "u \<in> set (au_users db)" "u_name u = strip username" using find_row_SomeD [OF Some] by simp_all
      show thesis
      proof (cases "verify_password e salt password (u_hash u) \<and> u_status u = lit ''active''")
        case False
        then have "snd (login e st now salt tok sid username password purpose db) = db" using pu Some by (auto simp: login_def Let_def)
        then show thesis by (intro same [of "fst (login e st now salt tok sid username password purpose db)"]) (simp add: prod_eq_iff)
      next
        case v: True
        show thesis
        proof (cases "build_auth_principal db u (lit ''session'') None []")
          case (Inl x)
          then show thesis using pu Some v same by (auto simp: login_def Let_def)
        next
          case (Inr p)
          define q :: "session_row \<Rightarrow> bool" where "q = (\<lambda>s. se_purpose s = lit ''oauth_consent'' \<and> se_expires s \<le> now)"
          define db1 where "db1 = (if purpose = lit ''oauth_consent'' then delete_sessions q db else db)"
          define x where "x = now + session_lifetime st purpose"
          note d = login_def [of e st now salt tok sid username password purpose db, unfolded Let_def, folded q_def, folded db1_def x_def]
          have db1: "db1 = db \<or> db1 = delete_sessions q db" by (simp add: db1_def)
          show thesis
          proof (cases "sid \<in> se_id ` set (au_sessions db1) \<or> ae_sha e tok \<in> se_hash ` set (au_sessions db1)")
            case True
            have "login e st now salt tok sid username password purpose db = (Inl Auth_integrity, db1)"
              using pu Some v Inr True by (auto simp: d)
            then show thesis using db1 same swept by metis
          next
            case False
            have "login e st now salt tok sid username password purpose db = (Inr (p\<lparr>p_session_id := Some sid\<rparr>, tok, x),
        db1\<lparr>au_sessions := au_sessions db1 @ [\<lparr>se_id = sid, se_user = u_id u, se_hash = ae_sha e tok, se_expires = x, se_created = now, se_purpose = purpose\<rparr>]\<rparr>)"
              using pu Some v Inr False by (auto simp: d)
            then show thesis using opened [OF u _ _ pu db1 _ _ Inr] v False by blast
          qed
        qed
      qed
    qed
  qed
qed

lemma login_ok: "auth_ok db \<Longrightarrow> auth_ok (snd (login e st now salt tok sid username password purpose db))"
proof (cases rule: login_tables [of e st now salt tok sid username password purpose db])
  case (opened u q expires db1 p)
  assume ok: "auth_ok db"
  then have "auth_ok db1" "au_users db1 = au_users db" using opened(6) delete_sessions_ok by auto
  then show ?thesis using opened(1,5,7,8) unfolding opened(10) snd_conv by (intro add_session_ok) simp_all
qed (simp_all add: delete_sessions_ok)

lemma logout_ok: "auth_ok db \<Longrightarrow> auth_ok (logout e tok purpose db)"
  by (simp add: logout_def delete_sessions_ok split: option.split)

lemma create_api_token_ok:
  "auth_ok db \<Longrightarrow> create_api_token e now random tid p name scopes expires db = Inr (r, db') \<Longrightarrow> auth_ok db'"
  by (auto simp: create_api_token_def Let_def intro!: add_token_ok split: if_splits)

lemma update_api_token_scopes_ok: "auth_ok db \<Longrightarrow> update_api_token_scopes e now tid p scopes db = Inr (r, db') \<Longrightarrow> auth_ok db'"
  by (auto simp: update_api_token_scopes_def set_token_ok split: option.splits if_splits)

lemma revoke_api_token_ok: "auth_ok db \<Longrightarrow> revoke_api_token now tid uid db = Inr db' \<Longrightarrow> auth_ok db'"
  by (auto simp: revoke_api_token_def set_token_ok split: option.splits if_splits)

lemma principal_from_api_token_tables: "snd (principal_from_api_token e de cdb now tok db) = db \<or> (\<exists>t. snd (principal_from_api_token e de cdb now tok db) = set_token t (Set_used now) db)"
  by (auto simp: principal_from_api_token_def Let_def split: option.split)

lemma authenticate_tables: "snd (authenticate_request e st de cdb now rq db) = db \<or> (\<exists>t. snd (authenticate_request e st de cdb now rq db) = set_token t (Set_used now) db)"
proof -
  have "snd (authenticate_request e st de cdb now rq db) = db \<or> (\<exists>b. snd (authenticate_request e st de cdb now rq db) = snd (principal_from_api_token e de cdb now b db))"
    by (simp add: authenticate_request_def Let_def split: option.split prod.split) (metis snd_conv)
  then show ?thesis using principal_from_api_token_tables by metis
qed

lemma authenticate_ok: "auth_ok db \<Longrightarrow> auth_ok (snd (authenticate_request e st de cdb now rq db))"
  using authenticate_tables [of e st de cdb now rq db] set_token_ok by metis

lemma principal_from_sessionD:
  assumes "principal_from_session e now tok purpose db = Inr (Some p)"
  obtains s u where "s \<in> set (au_sessions db)" "se_hash s = ae_sha e tok" "se_purpose s = purpose" "now < se_expires s" "find_user db (se_user s) = Some u"
    "u_status u = lit ''active''" "p_session_id p = Some (se_id s)" "p_id p = se_user s" "auth_type p = lit ''session''"
    "p_roles p = roles_for_user (au_access db) (se_user s)" "p_permissions p = permissions_for_user (au_access db) (se_user s)" "p_roles p \<noteq> []"
    "must_change_password p = u_must_change u"
proof -
  obtain s where s: "find_row (\<lambda>s. se_hash s = ae_sha e tok \<and> se_purpose s = purpose) (au_sessions db) = Some s"
    using assms by (auto simp: principal_from_session_def split: option.splits)
  note m = find_row_SomeD [OF s]
  obtain u where u: "find_user db (se_user s) = Some u" using assms s by (auto simp: principal_from_session_def split: option.splits)
  have id: "u_id u = se_user s" using find_userD [OF u] by simp
  have "u_status u = lit ''active'' \<and> now < se_expires s" using assms s u by (auto simp: principal_from_session_def split: if_splits)
  moreover have "p_session_id p = Some (se_id s) \<and> p_id p = se_user s \<and> auth_type p = lit ''session'' \<and> p_roles p = roles_for_user (au_access db) (se_user s)
      \<and> p_permissions p = permissions_for_user (au_access db) (se_user s) \<and> p_roles p \<noteq> [] \<and> must_change_password p = u_must_change u"
    using assms s u id by (auto simp: principal_from_session_def build_auth_principal_def plain_principal_def Let_def split: if_splits)
  ultimately show thesis using m u that [of s u] by blast
qed

lemma live_console_sessionD:
  assumes "live_console_session e now p tok db = Inr (Some c)"
  shows "principal_from_session e now tok (lit ''console'') db = Inr (Some c) \<and> p_id c = p_id p \<and> \<not> must_change_password c \<and> auth_type p = lit ''session''
    \<and> (p_session_id p = None \<or> p_session_id p = p_session_id c)"
proof -
  obtain f where f: "principal_from_session e now tok (lit ''console'') db = Inr f" using assms unfolding live_console_session_def by auto
  obtain d where "f = Some d" using assms f by (cases f) (simp_all add: live_console_session_def)
  then show ?thesis using assms f by (simp add: live_console_session_def split: if_splits)
qed

lemma current_sessionD:
  assumes "current_session e now p tok db = Inr (c, sid)"
  shows "principal_from_session e now tok (lit ''console'') db = Inr (Some c) \<and> p_session_id c = Some sid \<and> sid \<noteq> [] \<and> p_id c = p_id p \<and> \<not> must_change_password c
      \<and> auth_type p = lit ''session'' \<and> (p_session_id p = None \<or> p_session_id p = Some sid) \<and> sid \<in> se_id ` set (au_sessions db)"
proof -
  have f: "live_console_session e now p tok db = Inr (Some c)" "p_session_id c = Some sid" "sid \<noteq> []"
    using assms unfolding current_session_def by (auto split: option.split_asm if_split_asm)
  have c: "principal_from_session e now tok (lit ''console'') db = Inr (Some c)" "p_session_id c = Some sid" "sid \<noteq> []" "p_id c = p_id p" "\<not> must_change_password c"
      "auth_type p = lit ''session''" "p_session_id p = None \<or> p_session_id p = Some sid"
    using live_console_sessionD [OF f(1)] f(2,3) by auto
  from c(1) obtain s where "s \<in> set (au_sessions db)" "p_session_id c = Some (se_id s)" by (rule principal_from_sessionD)
  then show ?thesis using c by auto
qed

lemma csrf_ok_append:
  assumes "csrf_ok S rows" "length rows < MAX_CONSOLE_CSRF" "sql_count (\<lambda>r. cs_session r = cs_session x) rows < MAX_SESSION_CSRF"
    "cs_hash x \<notin> cs_hash ` set rows" "cs_session x \<in> S"
  shows "csrf_ok S (rows @ [x])"
  using assms unfolding csrf_ok_def sql_count_def by auto

lemma tickets_ok_append:
  assumes "tickets_ok rows" "length rows < 4096" "sql_count (\<lambda>r. tk_user r = tk_user x) rows < 32" "tk_hash x \<notin> tk_hash ` set rows"
  shows "tickets_ok (rows @ [x])"
  using assms unfolding tickets_ok_def sql_count_def by auto

lemma csrf_edit_ok: "auth_ok db \<Longrightarrow> csrf_ok (se_id ` set (au_sessions db)) cs \<Longrightarrow> auth_ok (db\<lparr>au_csrf := cs\<rparr>)"
  by (rule auth_okI) (use auth_okD [of db] in simp_all)

lemma tickets_edit_ok: "auth_ok db \<Longrightarrow> tickets_ok ts \<Longrightarrow> auth_ok (db\<lparr>au_tickets := ts\<rparr>)"
  by (rule auth_okI) (use auth_okD [of db] in simp_all)

lemma issue_csrfE:
  assumes "issue_csrf e now secret p tok target digest db = Inr (x, db')"
  obtains c sid rows where "current_session e now p tok db = Inr (c, sid)" "rows = delete_rows (\<lambda>r. cs_expires r \<le> \<lfloor>now\<rfloor>) (au_csrf db)"
    "length rows < MAX_CONSOLE_CSRF" "sql_count (\<lambda>r. cs_session r = sid) rows < MAX_SESSION_CSRF" "ae_sha e secret \<notin> cs_hash ` set rows"
    "db' = db\<lparr>au_csrf := rows @ [\<lparr>cs_hash = ae_sha e secret, cs_session = sid, cs_user = p_id c, cs_session_hash = ae_sha e tok,
              cs_target = target, cs_digest = digest, cs_expires = \<lfloor>now\<rfloor> + CSRF_TTL\<rparr>]\<rparr>" "x = \<lfloor>now\<rfloor> + CSRF_TTL"
proof -
  obtain c sid where c: "current_session e now p tok db = Inr (c, sid)" using assms by (auto simp: issue_csrf_def)
  show thesis
    by (rule that [OF c refl]) (use assms c in \<open>auto simp: issue_csrf_def Let_def not_le split: if_splits\<close>)
qed

lemma issue_csrf_ok: "auth_ok db \<Longrightarrow> issue_csrf e now secret p tok target digest db = Inr (x, db') \<Longrightarrow> auth_ok db'"
proof -
  assume ok: "auth_ok db" and run: "issue_csrf e now secret p tok target digest db = Inr (x, db')"
  from run show ?thesis
  proof (cases rule: issue_csrfE)
    case (1 c sid rows)
    have "sid \<in> se_id ` set (au_sessions db)" using current_sessionD [OF 1(1)] by simp
    moreover have "csrf_ok (se_id ` set (au_sessions db)) rows"
      unfolding 1(2) by (rule csrf_ok_delete [OF auth_okD(7) [OF ok]]) (use auth_okD(7) [OF ok] in \<open>simp add: csrf_ok_def\<close>)
    ultimately show ?thesis unfolding 1(6) using 1(3-5) by (intro csrf_edit_ok [OF ok] csrf_ok_append) simp_all
  qed
qed

lemma consume_csrfE:
  assumes "consume_csrf e now secret p tok target digest db = Inr db'"
  obtains c sid where "current_session e now p tok db = Inr (c, sid)" "sql_count (csrf_matches e now (c, sid) tok secret target digest) (au_csrf db) = 1"
    "db' = db\<lparr>au_csrf := delete_rows (csrf_matches e now (c, sid) tok secret target digest) (au_csrf db)\<rparr>" "length secret = 43"
  using assms by (auto simp: consume_csrf_def split: if_splits)

lemma consume_csrf_ok: "auth_ok db \<Longrightarrow> consume_csrf e now secret p tok target digest db = Inr db' \<Longrightarrow> auth_ok db'"
proof -
  assume ok: "auth_ok db" and run: "consume_csrf e now secret p tok target digest db = Inr db'"
  from run show ?thesis
  proof (cases rule: consume_csrfE)
    case (1 c sid)
    show ?thesis unfolding 1(3) by (intro csrf_edit_ok [OF ok] csrf_ok_delete [OF auth_okD(7) [OF ok]]) (use auth_okD(7) [OF ok] in \<open>simp add: csrf_ok_def\<close>)
  qed
qed

lemma issue_ticketE:
  assumes "issue_ticket e now secret p session target purpose bound digest db = Inr db'"
  obtains rows q where "rows = delete_rows q (au_tickets db)" "length rows < 4096" "sql_count (\<lambda>t. tk_user t = p_id p) rows < 32" "ae_sha e secret \<notin> tk_hash ` set rows"
    "db' = db\<lparr>au_tickets := rows @ [\<lparr>tk_hash = ae_sha e secret, tk_user = p_id p, tk_session = ae_sha e session, tk_target = target, tk_purpose = purpose,
                tk_binding = bound, tk_digest = digest, tk_expires = now + 300\<rparr>]\<rparr>"
proof -
  define q :: "ticket_row \<Rightarrow> bool" where "q = (\<lambda>t. tk_expires t \<le> now \<or> purpose = lit ''confirmation'' \<and> tk_user t = p_id p \<and> tk_session t = ae_sha e session
      \<and> tk_target t = target \<and> tk_purpose t = lit ''confirmation'')"
  define rows where "rows = (if purpose = lit ''confirmation'' then delete_rows (\<lambda>t. tk_user t = p_id p \<and> tk_session t = ae_sha e session \<and> tk_target t = target
       \<and> tk_purpose t = lit ''confirmation'') (delete_rows (\<lambda>t. tk_expires t \<le> now) (au_tickets db)) else delete_rows (\<lambda>t. tk_expires t \<le> now) (au_tickets db))"
  have "rows = delete_rows q (au_tickets db)" unfolding rows_def q_def delete_rows_def filter_filter by (auto intro!: filter_cong)
  then show thesis
    by (rule that) (use assms in \<open>simp_all add: issue_ticket_def Let_def rows_def [symmetric] not_le split: if_splits\<close>)
qed

lemma issue_ticket_ok: "auth_ok db \<Longrightarrow> issue_ticket e now secret p session target purpose bound digest db = Inr db' \<Longrightarrow> auth_ok db'"
proof -
  assume ok: "auth_ok db" and run: "issue_ticket e now secret p session target purpose bound digest db = Inr db'"
  from run show ?thesis
  proof (cases rule: issue_ticketE)
    case (1 rows q)
    have "tickets_ok rows" unfolding 1(1) by (rule tickets_ok_delete [OF auth_okD(8) [OF ok]])
    then show ?thesis unfolding 1(5) using 1(2-4) by (intro tickets_edit_ok [OF ok] tickets_ok_append) simp_all
  qed
qed

lemma consume_ticket_tables:
  assumes "consume_ticket e now p session target purpose secret bound digest db = Inr db'"
  shows "db' = db \<or> db' = db\<lparr>au_tickets := delete_rows (ticket_matches e now p session target purpose secret bound digest) (au_tickets db)\<rparr>"
  using assms by (auto simp: consume_ticket_def Let_def split: if_splits)

lemma consume_ticket_ok: "auth_ok db \<Longrightarrow> consume_ticket e now p session target purpose secret bound digest db = Inr db' \<Longrightarrow> auth_ok db'"
  using consume_ticket_tables [of e now p session target purpose secret bound digest db db'] tickets_edit_ok tickets_ok_delete [OF auth_okD(8) [of db]] by metis

lemma options_ok: "auth_ok db \<Longrightarrow> options ed now secret p0 session target db cdb = Inr (r, db', cdb') \<Longrightarrow> auth_ok db'"
  by (auto simp: options_def Let_def intro: issue_ticket_ok)

lemma pick_tools_keys: "pick_tools old cat ks = Inr r \<Longrightarrow> map fst r = ks"
  by (induction ks arbitrary: r) (auto split: option.splits)

lemma pick_tools_from: "pick_tools old cat ks = Inr r \<Longrightarrow> (k, x) \<in> set r \<Longrightarrow> old k = Some x \<or> old k = None \<and> cat k = Some x"
proof (induction ks arbitrary: r)
  case (Cons j js)
  obtain t r' where t: "(case old j of Some t \<Rightarrow> Some t | None \<Rightarrow> cat j) = Some t" "pick_tools old cat js = Inr r'" "r = (j, t) # r'"
    using Cons.prems(1) by (auto split: option.split_asm)
  show ?case
  proof (cases "(k, x) = (j, t)")
    case True
    then show ?thesis using t(1) by (cases "old j") auto
  next
    case False
    then show ?thesis using Cons.IH [OF t(2)] Cons.prems(2) t(3) by auto
  qed
qed simp

lemma ownerD:
  assumes "owner e st now p0 session db = Inr p"
  shows "live_console_session e now p0 session db = Inr (Some p) \<and> as_enabled st \<and> has_control_permission (principal.truncate p) (lit ''credentials.manage.self'')"
proof -
  obtain f where f: "live_console_session e now p0 session db = Inr f" using assms unfolding owner_def by auto
  obtain c where c: "f = Some c" using assms f by (cases f) (simp_all add: owner_def)
  have "as_enabled st \<and> c = p \<and> require_control c ''credentials.manage.self'' = Inr ()" using assms f c by (auto simp: owner_def split: if_splits)
  then show ?thesis using f c unfolding require_control_def by auto
qed

lemma token_state_ofD:
  assumes "token_state_of e now p target db = Inr s" "target \<noteq> lit ''new''"
  obtains t where "t \<in> set (au_tokens db)" "ak_id t = target" "ak_user t = p_id p" "ak_revoked t = None" "\<not> iso_expired e now (ak_expires t)"
    "s = stored_state t (find_policy db (Some target))"
proof -
  obtain t where t: "find_row (\<lambda>t. ak_id t = target \<and> ak_user t = p_id p) (au_tokens db) = Some t"
    using assms by (auto simp: token_state_of_def split: option.splits)
  show thesis by (rule that [of t]) (use find_row_SomeD [OF t] assms t in \<open>simp_all add: token_state_of_def split: if_splits\<close>)
qed

lemma token_state_revision:
  assumes "auth_ok db" "token_state_of e now p target db = Inr s"
  shows "0 \<le> ts_revision s"
proof (cases "target = lit ''new''")
  case True
  then show ?thesis using assms(2) by (auto simp: token_state_of_def new_state_def)
next
  case False
  from assms(2) False obtain t where s: "s = stored_state t (find_policy db (Some target))" by (rule token_state_ofD)
  show ?thesis
  proof (cases "find_policy db (Some target)")
    case (Some r)
    then have "r \<in> set (au_policies db)" unfolding find_policy_def by (blast dest: find_row_SomeD)
    then have "1 \<le> ta_revision r" using auth_okD(6) [OF assms(1)] unfolding policies_ok_def policy_ok_def by blast
    then show ?thesis by (simp add: s Some stored_state_def)
  qed (simp add: s stored_state_def)
qed

lemma change_targetD:
  assumes "change_target ed now cdb p s catalog c target = Inr t"
  obtains scopes where "tc_revision c = ts_revision s" "ts_revision t = ts_revision s" "ts_mode t = tc_mode c" "ts_rate t = Some (tc_rate c)" "ts_concurrency t = Some (tc_concurrency c)"
    "1 \<le> tc_rate c" "tc_rate c \<le> 10000" "1 \<le> tc_concurrency c" "tc_concurrency c \<le> 100"
    "normalize_api_token_scopes (principal.truncate p) (tc_scopes c) False = Inr scopes" "ts_scopes t = scopes"
    "tc_mode c = lit ''account'' \<longrightarrow> target \<noteq> lit ''new'' \<and> ts_mode s = lit ''account'' \<and> ts_tools t = [] \<and> ts_policies t = []"
    "\<forall>(k, x) \<in> set (ts_tools t). scope_covers scopes (tt_access x)" "\<forall>q \<in> set (ts_policies t). scope_covers scopes (sp_access q)"
    "\<forall>(k, x) \<in> set (ts_tools t). k \<in> set (tc_tools c) \<and> tt_server x \<notin> sp_server ` set (ts_policies t)"
proof -
  have rev: "tc_revision c = ts_revision s" and acc: "\<not> (tc_mode c = lit ''account'' \<and> (target = lit ''new'' \<or> ts_mode s \<noteq> lit ''account''))"
    using assms by (auto simp: change_target_def split: if_split_asm)
  obtain scopes where sc: "normalize_api_token_scopes (principal.truncate p) (tc_scopes c) False = Inr scopes"
    using assms rev acc by (auto simp: change_target_def split: if_split_asm)
  have quota: "1 \<le> tc_rate c \<and> tc_rate c \<le> 10000 \<and> 1 \<le> tc_concurrency c \<and> tc_concurrency c \<le> 100"
    using assms rev acc sc by (auto simp: change_target_def split: if_split_asm)
  define same where "same = (sort_key fst (requested_policies s c) = map policy_triple (ts_policies s))"
  note d = change_target_def [of ed now cdb p s catalog c target, unfolded Let_def, folded same_def]
  obtain policies where po: "(if same then Inr (ts_policies s)
      else (case bind_server_policies (de_files (ed_decision ed)) (identities cdb) (PList (map policy_dict (requested_policies s c))) of
              Inl _ \<Rightarrow> Inl (Auth_value (lit ''server_scope'')) | Inr q \<Rightarrow> Inr q)) = Inr policies"
    using assms rev acc sc quota unfolding d by auto
  define quota_only where "quota_only = (set (tc_tools c) = set (ts_tool_ids s) \<and> same \<and> tc_mode c = ts_mode s \<and> scopes = ts_scopes s)"
  have acc2: "\<not> (tc_mode c = lit ''account'' \<and> (tc_tools c \<noteq> [] \<or> policies \<noteq> []))" and sel: "\<not> (5000 < length (tc_tools c) \<or> \<not> distinct (tc_tools c))"
    using assms rev acc sc quota po unfolding d by (auto split: if_split_asm)
  obtain picked where pk: "pick_tools (if quota_only then map_of (ts_tools s) else Map.empty) (map_of catalog) (tc_tools c) = Inr picked"
    using assms rev acc sc quota po acc2 sel unfolding d quota_only_def by (auto split: if_split_asm)
  have keys: "map fst picked = tc_tools c" using pk by (rule pick_tools_keys)
  define expires where "expires = (if target = lit ''new'' then tc_expires c else ts_expires s)"
  have g: "\<not> list_ex (\<lambda>x. x \<in> set (map sp_server policies)) (map (tt_server \<circ> snd) picked)" "\<not> list_ex (\<lambda>(_, t). \<not> scope_covers scopes (tt_access t)) picked"
      "\<not> list_ex (\<lambda>q. \<not> scope_covers scopes (sp_access q)) policies"
      "t = \<lparr>ts_revision = ts_revision s, ts_mode = tc_mode c, ts_scopes = scopes, ts_tool_ids = sort (map fst picked), ts_policies = policies,
              ts_tools = picked, ts_rate = Some (tc_rate c), ts_concurrency = Some (tc_concurrency c),
              ts_name = strip (first_given (tc_name c) (ts_name s) (lit ''API Token'')), ts_expires = expires\<rparr>"
    using assms unfolding d expires_def [symmetric] quota_only_def [symmetric]
    by (simp_all only: rev acc sc quota po acc2 sel pk bindR_simps quota_only_def [symmetric] expires_def [symmetric] if_False not_True_eq_False if_True
        simp_thms split: if_split_asm) (simp_all split: if_split_asm)
  have mem: "k \<in> set (tc_tools c)" if "(k, x) \<in> set picked" for k x using that keys [symmetric] by force
  show thesis
    by (rule that [OF rev _ _ _ _ _ _ _ _ sc]) (use acc acc2 quota g mem keys in \<open>auto simp: list_ex_iff\<close>)
qed

lemma store_changeE:
  assumes "store_change e now random uuid p target t db = Inr (tid, db')"
  obtains (fresh) x where "target = lit ''new''" "tid = uuid" "p_id p \<in> user_set db" "uuid \<notin> ak_id ` set (au_tokens db)" "ae_sha e (lit ''lgt_'' @ random) \<notin> ak_hash ` set (au_tokens db)"
      "x = \<lparr>ak_id = uuid, ak_user = p_id p, ak_name = ts_name t, ak_hash = ae_sha e (lit ''lgt_'' @ random), ak_prefix = token_prefix (lit ''lgt_'' @ random),
            ak_scopes = ts_scopes t, ak_expires = ts_expires t, ak_revoked = None, ak_last_used = None, ak_created = now\<rparr>"
      "db' = db\<lparr>au_tokens := au_tokens db @ [x], au_policies := put_policy (policy_row tid t) (au_policies db)\<rparr>"
  | (old) "target \<noteq> lit ''new''" "tid = target"
      "db' = db\<lparr>au_tokens := update_rows (\<lambda>x. ak_id x = tid \<and> ak_user x = p_id p \<and> ak_revoked x = None) (edit_token (Set_scopes (ts_scopes t))) (au_tokens db),
              au_policies := put_policy (policy_row tid t) (au_policies db)\<rparr>"
proof (cases "target = lit ''new''")
  case True
  define x where "x = \<lparr>ak_id = uuid, ak_user = p_id p, ak_name = ts_name t, ak_hash = ae_sha e (lit ''lgt_'' @ random), ak_prefix = token_prefix (lit ''lgt_'' @ random),
            ak_scopes = ts_scopes t, ak_expires = ts_expires t, ak_revoked = None, ak_last_used = None, ak_created = now\<rparr>"
  show thesis
    by (rule fresh [OF True _ _ _ _ x_def]) (use assms True in \<open>auto simp: store_change_def Let_def x_def [symmetric] split: if_splits\<close>)
next
  case False
  then show thesis by (rule old) (use assms False in \<open>auto simp: store_change_def Let_def\<close>)
qed

lemma put_policy_set: "ta_token ` set (put_policy r rows) = insert (ta_token r) (ta_token ` set rows)"
  "x \<in> set (put_policy r rows) \<Longrightarrow> x = r \<or> x \<in> set rows"
proof -
  show "x \<in> set (put_policy r rows) \<Longrightarrow> x = r \<or> x \<in> set rows" by (auto simp: put_policy_def set_update_rows split: if_splits)
  show "ta_token ` set (put_policy r rows) = insert (ta_token r) (ta_token ` set rows)"
    by (auto simp: put_policy_def set_update_rows image_iff split: if_splits)
qed

lemma policies_ok_put:
  assumes "policies_ok T rows" "ta_token r \<in> T" "policy_ok r"
  shows "policies_ok T (put_policy r rows)"
proof -
  have "distinct (map ta_token (put_policy r rows))"
    using assms(1) unfolding put_policy_def policies_ok_def by (simp add: map_update_rows [of _ ta_token])
  then show ?thesis using assms put_policy_set(2) [of _ r rows] unfolding policies_ok_def by blast
qed

lemma policies_edit_ok: "auth_ok db \<Longrightarrow> policies_ok (ak_id ` set (au_tokens db)) ps \<Longrightarrow> auth_ok (db\<lparr>au_policies := ps\<rparr>)"
  by (rule auth_okI) (use auth_okD [of db] in simp_all)

lemma tokens_edit_ok: "auth_ok db \<Longrightarrow> auth_ok (db\<lparr>au_tokens := update_rows P (edit_token v) (au_tokens db)\<rparr>)"
  by (rule auth_okI) (use auth_okD [of db] tokens_update_ok in simp_all)

lemma store_change_ok:
  assumes ok: "auth_ok db" and run: "store_change e now random uuid p target t db = Inr (tid, db')"
    and pol: "policy_ok (policy_row tid t)" and known: "target \<noteq> lit ''new'' \<Longrightarrow> target \<in> ak_id ` set (au_tokens db)"
  shows "auth_ok db'"
  using run
proof (cases rule: store_changeE)
  case (fresh x)
  have "auth_ok (db\<lparr>au_tokens := au_tokens db @ [x]\<rparr>)" using fresh(3-5) by (intro add_token_ok [OF ok]) (simp_all add: fresh(6))
  then have "auth_ok ((db\<lparr>au_tokens := au_tokens db @ [x]\<rparr>)\<lparr>au_policies := put_policy (policy_row tid t) (au_policies db)\<rparr>)"
    using auth_okD(6) [of "db\<lparr>au_tokens := au_tokens db @ [x]\<rparr>"] pol
    by (intro policies_edit_ok policies_ok_put) (simp_all add: policy_row_def fresh(2,6))
  then show ?thesis by (simp add: fresh(7))
next
  case old
  define db1 where "db1 = db\<lparr>au_tokens := update_rows (\<lambda>x. ak_id x = tid \<and> ak_user x = p_id p \<and> ak_revoked x = None) (edit_token (Set_scopes (ts_scopes t))) (au_tokens db)\<rparr>"
  have ok1: "auth_ok db1" unfolding db1_def by (rule tokens_edit_ok [OF ok])
  have "tid \<in> ak_id ` set (au_tokens db1)" using known [OF old(1)] tokens_update_ok(2) by (simp add: db1_def old(2))
  then have "auth_ok (db1\<lparr>au_policies := put_policy (policy_row tid t) (au_policies db1)\<rparr>)"
    using auth_okD(6) [OF ok1] pol by (intro policies_edit_ok [OF ok1] policies_ok_put) (simp_all add: policy_row_def)
  then show ?thesis by (simp add: old(3) db1_def)
qed

lemma changeE:
  assumes "change ed now random uuid p0 session target c commit db cdb = Inr (r, db', cdb')"
  obtains (steps) p s cat limited bound t db1 where "owner (ed_env ed) (ed_settings ed) now p0 session db = Inr p" "token_state_of (ed_env ed) now p target db = Inr s"
      "bound = ed_binding ed s cat (p_roles p) (p_permissions p)" "tc_catalog c = bound" "change_target ed now cdb' p s (fst cat) c target = Inr t"
      "consume_ticket (ed_env ed) \<lfloor>now\<rfloor> p session target (if commit then lit ''confirmation'' else lit ''options'') (tc_ticket c) bound (if commit then ed_digest ed t else []) db = Inr db1"
      "\<not> commit \<Longrightarrow> r = Previewed s t \<and> issue_ticket (ed_env ed) \<lfloor>now\<rfloor> random p session target (lit ''confirmation'') bound (ed_digest ed t) db1 = Inr db'"
      "commit \<Longrightarrow> (\<exists>tid. r = Saved tid t \<and> store_change (ed_env ed) now random uuid p target t db1 = Inr (tid, db'))"
      "limited \<Longrightarrow> \<not> widens s t" "\<exists>cat0. editor_catalog ed db cdb p s target = Inr (cdb', cat0, limited) \<and> cat = with_subscribed s cat0"
proof -
  obtain p where p: "owner (ed_env ed) (ed_settings ed) now p0 session db = Inr p" using assms by (auto simp: change_def)
  obtain s where s: "token_state_of (ed_env ed) now p target db = Inr s" using assms p by (auto simp: change_def)
  obtain y where y: "editor_catalog ed db cdb p s target = Inr y" using assms p s by (auto simp: change_def)
  obtain cdb2 cat0 limited where y3: "y = (cdb2, cat0, limited)" by (cases y) auto
  define cat where "cat = with_subscribed s cat0"
  define bound where "bound = ed_binding ed s cat (p_roles p) (p_permissions p)"
  note d = assms [unfolded change_def Let_def p s y y3 bindR_simps prod.case, folded cat_def, folded bound_def]
  have b: "tc_catalog c = bound" using d by (simp split: if_split_asm)
  obtain t where t: "change_target ed now cdb2 p s (fst cat) c target = Inr t" using d b by auto
  have l: "\<not> (limited \<and> widens s t)" using d b t by (auto split: if_split_asm)
  obtain db1 where db1: "consume_ticket (ed_env ed) \<lfloor>now\<rfloor> p session target (if commit then lit ''confirmation'' else lit ''options'') (tc_ticket c) bound
      (if commit then ed_digest ed t else []) db = Inr db1" using d b t l by auto
  have cdb: "cdb2 = cdb'" using d b t l db1 by (cases commit) auto
  show thesis
  proof (rule steps [OF p s bound_def b t [unfolded cdb] db1])
    show "r = Previewed s t \<and> issue_ticket (ed_env ed) \<lfloor>now\<rfloor> random p session target (lit ''confirmation'') bound (ed_digest ed t) db1 = Inr db'" if "\<not> commit"
      using d b t l db1 that by auto
    show "\<exists>tid. r = Saved tid t \<and> store_change (ed_env ed) now random uuid p target t db1 = Inr (tid, db')" if "commit" using d b t l db1 that by auto
    show "\<not> widens s t" if limited using l that by simp
    show "\<exists>cat0. editor_catalog ed db cdb p s target = Inr (cdb', cat0, limited) \<and> cat = with_subscribed s cat0" using y y3 cdb cat_def by auto
  qed
qed

lemma change_ok:
  assumes ok: "auth_ok db" and run: "change ed now random uuid p0 session target c commit db cdb = Inr (r, db', cdb')"
  shows "auth_ok db'"
  using run
proof (cases rule: changeE)
  case (steps p s cat limited bound t db1)
  have ok1: "auth_ok db1" by (rule consume_ticket_ok [OF ok steps(6)])
  show ?thesis
  proof (cases commit)
    case False
    then show ?thesis using steps(7) issue_ticket_ok [OF ok1] by blast
  next
    case True
    obtain tid where st: "store_change (ed_env ed) now random uuid p target t db1 = Inr (tid, db')" using steps(8) [OF True] by blast
    have "policy_ok (policy_row tid t)" using steps(5)
      by (rule change_targetD) (use token_state_revision [OF ok steps(2)] in \<open>simp add: policy_ok_def policy_row_def\<close>)
    moreover have "target \<in> ak_id ` set (au_tokens db1)" if "target \<noteq> lit ''new''"
    proof -
      from steps(2) that obtain x where "x \<in> set (au_tokens db)" "ak_id x = target" by (rule token_state_ofD)
      moreover have "au_tokens db1 = au_tokens db" using consume_ticket_tables [OF steps(6)] by auto
      ultimately show ?thesis by force
    qed
    ultimately show ?thesis by (rule store_change_ok [OF ok1 st])
  qed
qed

section \<open>The machine\<close>

text \<open>
  A label is one request with its clock, its random draws and its other inputs.  An operation that raises leaves the tables it wrote before
  raising.  \<open>Access_admin\<close> is any administrative operation on roles, permission types and grants; the roles of a user only change through
  the user routes, as in \<^verbatim>\<open>access_routes.py\<close>.
\<close>

datatype 'h auth_op =
    Bootstrap boot_env rat pystr pystr pystr
  | Register rat pystr pystr pystr pystr pystr
  | Create_access_user rat auth_principal pystr pystr new_user "pystr list"
  | Patch_user rat auth_principal pystr "pystr option" "pystr option" "pystr list option"
  | Change_password rat pystr pystr pystr
  | Login rat pystr pystr pystr pystr pystr pystr
  | Logout "pystr option" pystr
  | Create_token rat pystr pystr principal pystr "pystr list" "pystr option"
  | Update_scopes rat pystr principal "pystr list"
  | Revoke_token rat pystr "pystr option"
  | Authenticate decision_env class_db rat http_request
  | Issue_csrf rat pystr auth_principal pystr pystr pystr
  | Consume_csrf rat pystr auth_principal pystr pystr pystr
  | Token_options "'h edit_env" rat pystr auth_principal pystr pystr class_db
  | Token_change "'h edit_env" rat pystr pystr auth_principal pystr pystr token_change bool class_db
  | Access_admin admin_op

definition snd_of :: "'a + 'b \<times> auth_db \<Rightarrow> auth_db \<Rightarrow> auth_db" where
  "snd_of r db = (case r of Inl _ \<Rightarrow> db | Inr (_, db') \<Rightarrow> db')"

definition mid_of :: "'a + 'b \<times> auth_db \<times> 'c \<Rightarrow> auth_db \<Rightarrow> auth_db" where
  "mid_of r db = (case r of Inl _ \<Rightarrow> db | Inr (_, db', _) \<Rightarrow> db')"

definition with_env :: "auth_env \<Rightarrow> auth_settings \<Rightarrow> 'h edit_env \<Rightarrow> 'h edit_env" where
  "with_env e st ed = ed\<lparr>ed_env := e, ed_settings := st\<rparr>"

fun user_roles_edit :: "admin_op \<Rightarrow> bool" where
  "user_roles_edit (Set_user_roles _ _) = True"
| "user_roles_edit _ = False"

fun auth_exec :: "auth_env \<Rightarrow> auth_settings \<Rightarrow> 'h auth_op \<Rightarrow> auth_db \<Rightarrow> auth_db" where
  "auth_exec e st (Bootstrap be now uid salt random) db = snd (bootstrap_from_env e st be now uid salt random db)"
| "auth_exec e st (Register now uid salt name pw display) db = snd (register_user e now uid salt name pw display db)"
| "auth_exec e st (Create_access_user now p uid salt n codes) db = snd (create_access_user e now p uid salt n codes db)"
| "auth_exec e st (Patch_user now p uid display status rs) db = snd (patch_user now p uid display status rs db)"
| "auth_exec e st (Change_password now salt uid pw) db = committed db (change_password e now salt uid pw db)"
| "auth_exec e st (Login now salt tok sid name pw purpose) db = snd (login e st now salt tok sid name pw purpose db)"
| "auth_exec e st (Logout tok purpose) db = logout e tok purpose db"
| "auth_exec e st (Create_token now random tid p name scopes expires) db = snd_of (create_api_token e now random tid p name scopes expires db) db"
| "auth_exec e st (Update_scopes now tid p scopes) db = snd_of (update_api_token_scopes e now tid p scopes db) db"
| "auth_exec e st (Revoke_token now tid uid) db = committed db (revoke_api_token now tid uid db)"
| "auth_exec e st (Authenticate de cdb now rq) db = snd (authenticate_request e st de cdb now rq db)"
| "auth_exec e st (Issue_csrf now secret p tok target digest) db = snd_of (issue_csrf e now secret p tok target digest db) db"
| "auth_exec e st (Consume_csrf now secret p tok target digest) db = committed db (consume_csrf e now secret p tok target digest db)"
| "auth_exec e st (Token_options ed now secret p session target cdb) db = mid_of (options (with_env e st ed) now secret p session target db cdb) db"
| "auth_exec e st (Token_change ed now random uuid p session target c commit cdb) db =
     mid_of (change (with_env e st ed) now random uuid p session target c commit db cdb) db"
| "auth_exec e st (Access_admin a) db = (if user_roles_edit a then db else db\<lparr>au_access := admin_exec a (au_access db)\<rparr>)"

definition auth_run :: "auth_env \<Rightarrow> auth_settings \<Rightarrow> 'h auth_op list \<Rightarrow> auth_db \<Rightarrow> auth_db" where
  "auth_run e st ops db = fold (auth_exec e st) ops db"

definition empty_auth :: "rat \<Rightarrow> auth_db" where
  "empty_auth now = \<lparr>au_users = [], au_sessions = [], au_tokens = [], au_policies = [], au_csrf = [], au_tickets = [],
     au_access = seed_system_data now (empty_db []), au_cred = Cred_absent\<rparr>"

lemma snd_of_cases: "P db \<Longrightarrow> (\<And>x db'. r = Inr (x, db') \<Longrightarrow> P db') \<Longrightarrow> P (snd_of r db)"
  by (auto simp: snd_of_def split: sum.split)

lemma mid_of_cases: "P db \<Longrightarrow> (\<And>x db' y. r = Inr (x, db', y) \<Longrightarrow> P db') \<Longrightarrow> P (mid_of r db)"
  by (auto simp: mid_of_def split: sum.split)

lemma committed_cases: "P db \<Longrightarrow> (\<And>db'. r = Inr db' \<Longrightarrow> P db') \<Longrightarrow> P (committed db r)"
  by (auto simp: committed_def split: sum.split)

lemma seed_user_frame: "user_ids (seed_system_data now a) = user_ids a \<and> user_roles (seed_system_data now a) = user_roles a"
proof -
  have f: "(\<And>x y. h (g x y) = h y) \<Longrightarrow> h (fold g xs y) = h y" for h :: "access_db \<Rightarrow> 'b" and g :: "'a \<Rightarrow> access_db \<Rightarrow> access_db" and xs y
    by (induction xs arbitrary: y) simp_all
  have l: "user_ids (seed_link rid x b) = user_ids b" "user_roles (seed_link rid x b) = user_roles b" for rid x b
    by (auto simp: seed_link_def split: option.split)
  have "user_ids (seed_permission now x b) = user_ids b" "user_roles (seed_permission now x b) = user_roles b"
    "user_ids (seed_ptype now y b) = user_ids b" "user_roles (seed_ptype now y b) = user_roles b" for x y b
    by (auto simp: seed_permission_def seed_ptype_def split: prod.split)
  moreover have "user_ids (seed_role now x b) = user_ids b" "user_roles (seed_role now x b) = user_roles b" for x b
    by (auto simp: seed_role_def f l split: prod.split)
  ultimately show ?thesis unfolding seed_system_data_def by (simp add: f)
qed

lemma save_permission_type_frame:
  assumes "save_permission_type now uuid db code name level d gid en = Inr (db', t)"
  shows "user_ids db' = user_ids db \<and> user_roles db' = user_roles db"
proof -
  obtain x where x: "normalize_code code = Inr x" using assms unfolding save_permission_type_def by auto
  obtain lv where "parse_access level = Some lv" using assms x by (cases "parse_access level") (auto simp: save_permission_type_def Let_def)
  then show ?thesis using assms x by (auto simp: save_permission_type_def Let_def write_ptype_def split: if_split_asm)
qed

lemma admin_frame: "\<not> user_roles_edit a \<Longrightarrow> user_ids (admin_exec a db) = user_ids db \<and> user_roles (admin_exec a db) = user_roles db"
proof (cases a)
  case (Save_role now uuid code name d perms gid en)
  then show ?thesis by (auto simp: committed_def save_role_def write_role_def Let_def split: sum.splits)
next
  case (Save_permission_type now uuid code name level d gid en)
  then show ?thesis using save_permission_type_frame [of now uuid db] by (auto simp: committed_def split: sum.split)
next
  case (Save_grant now uuid stype sid server tcode creator tool expires)
  then show ?thesis by (auto simp: committed_def save_grant_def write_grant_def Let_def split: sum.splits option.splits if_splits)
qed (auto simp: seed_user_frame committed_def delete_role_def delete_permission_type_def delete_grant_def split: sum.splits option.splits if_splits)

lemma auth_exec_ok: "auth_ok db \<Longrightarrow> auth_ok (auth_exec e st a db)"
proof (cases a)
  case (Access_admin x)
  assume ok: "auth_ok db"
  show ?thesis
  proof (cases "user_roles_edit x")
    case False
    have "auth_ok (db\<lparr>au_access := admin_exec x (au_access db)\<rparr>)"
      using admin_exec_inv [of "au_access db" x] auth_okD(2,3) [OF ok] admin_frame [OF False] by (intro access_edit_ok [OF ok]) simp_all
    then show ?thesis using Access_admin False by simp
  qed (use Access_admin ok in simp)
next
  case (Token_change ed now random uuid p session target c commit cdb)
  assume ok: "auth_ok db"
  show ?thesis unfolding Token_change auth_exec.simps using ok change_ok [OF ok] by (rule mid_of_cases [where P = auth_ok])
next
  case (Token_options ed now secret p session target cdb)
  assume ok: "auth_ok db"
  show ?thesis unfolding Token_options auth_exec.simps using ok options_ok [OF ok] by (rule mid_of_cases [where P = auth_ok])
qed (auto simp: register_user_def bootstrap_ok create_user_ok create_access_user_ok patch_user_ok login_ok logout_ok authenticate_ok
    intro!: committed_cases [where P = auth_ok] snd_of_cases [where P = auth_ok] intro: change_password_ok create_api_token_ok update_api_token_scopes_ok revoke_api_token_ok issue_csrf_ok consume_csrf_ok)

lemma empty_auth_ok: "auth_ok (empty_auth now)"
  using seeded_empty [of now "[]"] seed_user_frame [of now "empty_db []"]
  by (intro auth_okI) (simp_all add: empty_auth_def users_ok_def sessions_ok_def tokens_ok_def policies_ok_def csrf_ok_def tickets_ok_def sql_count_def empty_db_def)

interpretation auth_machine: machine "\<lambda>db. \<exists>now. db = empty_auth now" "\<lambda>db a db'. db' = auth_exec e st a db" auth_ok for e st
  by unfold_locales (auto simp: empty_auth_ok auth_exec_ok)

lemma auth_run_run: "auth_machine.run e st db ops (auth_run e st ops db)"
  by (induction ops arbitrary: db) (auto simp: auth_run_def intro: auth_machine.run_Nil auth_machine.run_Cons)

text \<open>
  C26: the authentication tables stay linked and bounded.  From the empty database of the first start, after any sequence of bootstraps, registrations,
  user creations and edits, password changes, logins, logouts, token creations, edits and revocations, authenticated requests, console and
  authorization tickets and role administration, with any inputs: user ids, user names, session and token digests are unique;
  every session and token belongs to an existing user, every authorization to an existing token, with a positive revision and quotas
  within 1..10000 and 1..100; console tickets belong to live sessions, at most 16 per session and 4096 in all; and a user holds at most 32
  authorization tickets, 4096 in all.
\<close>

theorem auth_tables_invariant: "auth_ok (auth_run e st ops (empty_auth now))"
  using auth_machine.run_from_init [OF auth_run_run] by blast

end
