(* ===== verification/Auth_Guarantees.thy ===== *)
theory Auth_Guarantees
  imports Auth_Runs
begin

text \<open>
  What the authentication tables guarantee over all runs: an active administrator remains, a revoked token stays dead, a token never has more than its
  creator, a request is only authenticated on live credentials, and an authorization is only changed with a confirmation of exactly that change.
\<close>

section \<open>An active administrator remains\<close>

definition active_admins :: "auth_db \<Rightarrow> pystr list" where
  "active_admins db = map u_id (filter (\<lambda>u. u_status u = lit ''active'' \<and> lit ''admin'' \<in> set (roles_for_user (au_access db) (u_id u))) (au_users db))"

definition holds_admin :: "auth_db \<Rightarrow> pystr \<Rightarrow> bool" where
  "holds_admin db x \<longleftrightarrow> (x, lit ''role-admin'') \<in> set (user_roles (au_access db))"

definition admin_ids :: "auth_db \<Rightarrow> pystr set" where
  "admin_ids db = {u_id u | u. u \<in> set (au_users db) \<and> u_status u = lit ''active'' \<and> holds_admin db (u_id u)}"

lemma admin_role:
  assumes "auth_ok db"
  obtains r where "r \<in> set (roles (au_access db))" "role_id r = lit ''role-admin''" "role_code r = lit ''admin''" "role_enabled r"
proof -
  have "(\<exists>x. (lit ''admin'', x) \<in> set SYSTEM_ROLES)" by (auto simp: SYSTEM_ROLES_def)
  then obtain x where "(lit ''admin'', x) \<in> set SYSTEM_ROLES" by blast
  then obtain r where "r \<in> set (roles (au_access db))" "role_id r = lit ''role-'' @ lit ''admin''" "role_code r = lit ''admin''" "role_enabled r"
    using auth_okD(3) [OF assms] unfolding system_ok_def by force
  then show thesis using that by (simp add: lit_append)
qed

lemma admin_code:
  assumes "auth_ok db"
  shows "lit ''admin'' \<in> set (roles_for_user (au_access db) x) \<longleftrightarrow> holds_admin db x"
proof -
  from assms obtain r where r: "r \<in> set (roles (au_access db))" "role_id r = lit ''role-admin''" "role_code r = lit ''admin''" "role_enabled r" by (rule admin_role)
  have "distinct (map role_code (roles (au_access db)))" using auth_okD(2) [OF assms] unfolding tables_ok_def by blast
  then have "q = r" if "q \<in> set (roles (au_access db))" "role_code q = lit ''admin''" for q using unique_key_eq [of role_code _ q r] that r by simp
  then show ?thesis unfolding set_roles_for_user holds_admin_def mem_Collect_eq using r by metis
qed

lemma active_admins_set: "auth_ok db \<Longrightarrow> set (active_admins db) = admin_ids db"
  by (auto simp: active_admins_def admin_ids_def admin_code)

lemma other_admins_set:
  assumes "auth_ok db"
  shows "set (other_admins db x) = admin_ids db - {x}"
proof -
  from assms obtain r where r: "r \<in> set (roles (au_access db))" "role_id r = lit ''role-admin''" "role_code r = lit ''admin''" "role_enabled r" by (rule admin_role)
  have "distinct (map role_code (roles (au_access db)))" using auth_okD(2) [OF assms] unfolding tables_ok_def by blast
  then have one: "q = r" if "q \<in> set (roles (au_access db))" "role_code q = lit ''admin''" for q using unique_key_eq [of role_code _ q r] that r by simp
  have "list_ex (\<lambda>(y, rid). y = z \<and> list_ex (\<lambda>r. role_id r = rid \<and> role_code r = lit ''admin'') (roles (au_access db))) (user_roles (au_access db)) \<longleftrightarrow> holds_admin db z" for z
  proof
    assume "list_ex (\<lambda>(y, rid). y = z \<and> list_ex (\<lambda>r. role_id r = rid \<and> role_code r = lit ''admin'') (roles (au_access db))) (user_roles (au_access db))"
    then obtain y rid q where "(y, rid) \<in> set (user_roles (au_access db))" "y = z" "q \<in> set (roles (au_access db))" "role_id q = rid" "role_code q = lit ''admin''"
      unfolding list_ex_iff by fast
    then show "holds_admin db z" using one r(2) unfolding holds_admin_def by metis
  next
    assume "holds_admin db z"
    then show "list_ex (\<lambda>(y, rid). y = z \<and> list_ex (\<lambda>r. role_id r = rid \<and> role_code r = lit ''admin'') (roles (au_access db))) (user_roles (au_access db))"
      using r(1-3) unfolding list_ex_iff holds_admin_def by fast
  qed
  then show ?thesis unfolding other_admins_def admin_ids_def by auto
qed

lemma admin_ids_mono:
  assumes "\<And>u. u \<in> set (au_users db) \<Longrightarrow> u_status u = lit ''active'' \<Longrightarrow> \<exists>v \<in> set (au_users db'). u_id v = u_id u \<and> u_status v = lit ''active''"
    and "\<And>x. x \<in> user_set db \<Longrightarrow> holds_admin db x \<Longrightarrow> holds_admin db' x"
  shows "admin_ids db \<subseteq> admin_ids db'"
proof
  fix x assume "x \<in> admin_ids db"
  then obtain u where u: "u \<in> set (au_users db)" "u_status u = lit ''active''" "holds_admin db (u_id u)" "x = u_id u" unfolding admin_ids_def by auto
  obtain v where v: "v \<in> set (au_users db')" "u_id v = u_id u" "u_status v = lit ''active''" using assms(1) [OF u(1,2)] by blast
  have "holds_admin db' (u_id u)" using assms(2) [OF _ u(3)] u(1) by blast
  then show "x \<in> admin_ids db'" using v u(4) unfolding admin_ids_def mem_Collect_eq by metis
qed

lemma admin_ids_same: "au_users db' = au_users db \<Longrightarrow> user_roles (au_access db') = user_roles (au_access db) \<Longrightarrow> admin_ids db' = admin_ids db"
  by (simp add: admin_ids_def holds_admin_def)

lemma insert_user_admins: "insert_user e now uid salt n db = Inr db' \<Longrightarrow> admin_ids db \<subseteq> admin_ids db'"
  by (erule insert_userE) (rule admin_ids_mono, auto simp: holds_admin_def)

lemma set_rolesE:
  assumes "set_roles uid codes db = Inr db'"
  obtains rows where "rows = filter (\<lambda>r. role_code r \<in> set (clean_codes codes) \<and> role_enabled r) (roles (au_access db))"
    "db' = db\<lparr>au_access := (au_access db)\<lparr>user_roles := delete_rows (\<lambda>(u, _). u = uid) (user_roles (au_access db)) @ map (\<lambda>r. (uid, role_id r)) rows\<rparr>\<rparr>"
  using assms by (auto simp: set_roles_def set_user_roles_def Let_def split: if_splits)

lemma set_roles_admins:
  assumes "set_roles uid codes db = Inr db'"
  shows "admin_ids db - {uid} \<subseteq> admin_ids db'" "au_users db' = au_users db" "x \<noteq> uid \<Longrightarrow> holds_admin db' x \<longleftrightarrow> holds_admin db x"
proof -
  show o: "x \<noteq> uid \<Longrightarrow> holds_admin db' x \<longleftrightarrow> holds_admin db x" for x using assms by (rule set_rolesE) (auto simp: holds_admin_def)
  show us: "au_users db' = au_users db" using assms by (rule set_rolesE) simp
  show "admin_ids db - {uid} \<subseteq> admin_ids db'" unfolding admin_ids_def us using o by blast
qed

lemma create_access_user_admins: "admin_ids db \<subseteq> admin_ids (snd (create_access_user e now p uid salt n codes db))"
proof (cases rule: create_access_userE [of e now p uid salt n codes db])
  case (roles r db1 db2 wanted m)
  have "uid \<notin> user_set db" using roles(1) by (rule insert_userE)
  then have "uid \<notin> admin_ids db" unfolding admin_ids_def by blast
  then show ?thesis using insert_user_admins [OF roles(1)] set_roles_admins(1) [OF roles(2)] roles(3) by auto
qed (auto dest: insert_user_admins)

lemma clean_codes_admin: "lit ''admin'' \<in> set codes \<Longrightarrow> lit ''admin'' \<in> set (clean_codes codes)"
  by (force simp: clean_codes_def strip_def strip_by_def lit_def py_space_def)

lemma set_roles_keeps_admin:
  assumes "auth_ok db" "set_roles uid codes db = Inr db'" "lit ''admin'' \<in> set codes"
  shows "holds_admin db' uid"
proof -
  from assms(1) obtain r where r: "r \<in> set (roles (au_access db))" "role_id r = lit ''role-admin''" "role_code r = lit ''admin''" "role_enabled r" by (rule admin_role)
  show ?thesis using assms(2) by (rule set_rolesE) (use r clean_codes_admin [OF assms(3)] in \<open>force simp: holds_admin_def\<close>)
qed

lemma update_user_users:
  assumes "find_user db uid = Some u" "\<not> (case status of None \<Rightarrow> False | Some s \<Rightarrow> s \<notin> set USER_STATUSES)"
  shows "au_users (snd (update_user now uid display status db)) = update_rows (\<lambda>x. u_id x = uid)
      (edit_user ((case display of None \<Rightarrow> u_display u | Some d \<Rightarrow> strip d), (case status of None \<Rightarrow> u_status u | Some s \<Rightarrow> s), now)) (au_users db)"
    "au_access (snd (update_user now uid display status db)) = au_access db"
  using assms by (simp_all add: update_user_def Let_def)

lemma update_user_admins:
  assumes "find_user db uid = Some u" "\<not> (case status of None \<Rightarrow> False | Some s \<Rightarrow> s \<notin> set USER_STATUSES)"
  shows "admin_ids (snd (update_user now uid display status db)) = (admin_ids db - {uid})
     \<union> (if (case status of None \<Rightarrow> u_status u | Some s \<Rightarrow> s) = lit ''active'' \<and> holds_admin db uid then {uid} else {})"
proof -
  have "u \<in> set (au_users db)" "u_id u = uid" using find_userD [OF assms(1)] by simp_all
  then show ?thesis
    unfolding admin_ids_def holds_admin_def update_user_users [OF assms] set_update_rows by (auto simp: image_iff) (metis edit_user_simps(1,6))+
qed

lemma find_user_status: "find_user db uid = Some u \<Longrightarrow> auth_ok db \<Longrightarrow> uid \<in> admin_ids db \<longleftrightarrow> u_status u = lit ''active'' \<and> holds_admin db uid"
proof -
  assume f: "find_user db uid = Some u" and ok: "auth_ok db"
  have "v = u" if "v \<in> set (au_users db)" "u_id v = uid" for v using that f find_user_iff [OF ok, of uid v] by simp
  then show ?thesis using find_userD [OF f] unfolding admin_ids_def by auto
qed

lemma validate_admin_transitionE:
  assumes "auth_ok db" "validate_admin_transition db uid status rs = Inr ()"
  obtains u where "find_user db uid = Some u"
    "admin_ids db \<subseteq> {uid} \<and> uid \<in> admin_ids db \<longrightarrow> (case status of None \<Rightarrow> u_status u | Some s \<Rightarrow> s) = lit ''active''
       \<and> (case rs of None \<Rightarrow> True | Some x \<Rightarrow> lit ''admin'' \<in> set x)"
proof -
  obtain u where u: "find_user db uid = Some u" using assms(2) by (auto simp: validate_admin_transition_def get_user_def split: option.splits)
  have id: "u_id u = uid" using find_userD [OF u] by simp
  have no: "other_admins db uid = []" if "admin_ids db \<subseteq> {uid}" using other_admins_set [OF assms(1), of uid] that by (metis Diff_eq_empty_iff set_empty)
  have mem: "lit ''admin'' \<in> set (roles_for_user (au_access db) uid)" if "uid \<in> admin_ids db"
    using that find_user_status [OF u assms(1)] admin_code [OF assms(1)] by simp
  show thesis
  proof (rule that [OF u], rule impI)
    assume "admin_ids db \<subseteq> {uid} \<and> uid \<in> admin_ids db"
    then show "(case status of None \<Rightarrow> u_status u | Some s \<Rightarrow> s) = lit ''active'' \<and> (case rs of None \<Rightarrow> True | Some x \<Rightarrow> lit ''admin'' \<in> set x)"
      using assms(2) no mem id u
      by (auto simp: validate_admin_transition_def get_user_def user_row_to_dict_def Let_def split: if_splits option.splits)
  qed
qed

lemma patch_user_admins:
  assumes ok: "auth_ok db" and some: "admin_ids db \<noteq> {}"
  shows "admin_ids (snd (patch_user now p uid display status rs db)) \<noteq> {}"
proof (cases rule: patch_userE [of now p uid display status rs db])
  case (same r)
  then show ?thesis using some by simp
next
  case (applied db1)
  from ok applied(1) obtain u where u: "find_user db uid = Some u"
    and last: "admin_ids db \<subseteq> {uid} \<and> uid \<in> admin_ids db \<longrightarrow> (case status of None \<Rightarrow> u_status u | Some s \<Rightarrow> s) = lit ''active'' \<and> (case rs of None \<Rightarrow> True | Some x \<Rightarrow> lit ''admin'' \<in> set x)"
    by (rule validate_admin_transitionE)
  have "au_users db1 = au_users db \<and> admin_ids db - {uid} \<subseteq> admin_ids db1"
  proof (cases rs)
    case None
    then show ?thesis using applied(2) by auto
  next
    case (Some codes)
    then have "set_roles uid codes db = Inr db1" using applied(2) by simp
    from set_roles_admins(1,2) [OF this] show ?thesis by blast
  qed
  then have users: "au_users db1 = au_users db" and other: "admin_ids db - {uid} \<subseteq> admin_ids db1" by simp_all
  have u1: "find_user db1 uid = Some u" using u users by (simp add: find_user_def)
  show ?thesis
  proof (cases "case status of None \<Rightarrow> False | Some s \<Rightarrow> s \<notin> set USER_STATUSES")
    case True
    then have "snd (patch_user now p uid display status rs db) = db" by (cases "require_control p ''users.manage''") (simp_all add: patch_user_def)
    then show ?thesis using some by simp
  next
    case False
    note eq = update_user_admins [OF u1 False, of now display]
    show ?thesis
    proof (cases "admin_ids db \<subseteq> {uid}")
      case True
      then have mine: "uid \<in> admin_ids db" using some by blast
      then have "holds_admin db uid" using find_user_status [OF u ok] by simp
      then have "holds_admin db1 uid" using last True mine applied(2) set_roles_keeps_admin [OF ok] by (cases rs) auto
      then show ?thesis unfolding applied(3) eq using last True mine by simp
    next
      case False
      then show ?thesis unfolding applied(3) eq using other by blast
    qed
  qed
qed

lemma login_frame: "au_users (snd (login e st now salt tok sid name pw purpose db)) = au_users db \<and> au_access (snd (login e st now salt tok sid name pw purpose db)) = au_access db"
  by (cases rule: login_tables [of e st now salt tok sid name pw purpose db]) auto

lemma store_change_frame: "store_change e now random uuid p target t db = Inr (tid, db') \<Longrightarrow> au_users db' = au_users db \<and> au_access db' = au_access db"
  by (erule store_changeE) auto

lemma issue_ticket_frame: "issue_ticket e now secret p session target purpose bound digest db = Inr db' \<Longrightarrow> au_users db' = au_users db \<and> au_access db' = au_access db"
  by (erule issue_ticketE) simp

lemma change_frame:
  assumes "change ed now random uuid p0 session target c commit db cdb = Inr (r, db', cdb')"
  shows "au_users db' = au_users db \<and> au_access db' = au_access db"
  using assms
proof (cases rule: changeE)
  case (steps p s cat limited bound t db1)
  have "au_users db1 = au_users db \<and> au_access db1 = au_access db" using consume_ticket_tables [OF steps(6)] by auto
  moreover have "au_users db' = au_users db1 \<and> au_access db' = au_access db1"
  proof (cases commit)
    case True
    then show ?thesis using steps(8) store_change_frame by blast
  next
    case False
    then show ?thesis using steps(7) issue_ticket_frame by blast
  qed
  ultimately show ?thesis by simp
qed

lemma auth_exec_frame:
  assumes "\<not> (\<exists>be now uid salt random. a = Bootstrap be now uid salt random)" "\<not> (\<exists>now uid salt name pw d. a = Register now uid salt name pw d)"
    "\<not> (\<exists>now p uid salt n codes. a = Create_access_user now p uid salt n codes)" "\<not> (\<exists>now p uid d s rs. a = Patch_user now p uid d s rs)"
    "\<not> (\<exists>now salt uid pw. a = Change_password now salt uid pw)"
  shows "au_users (auth_exec e st a db) = au_users db \<and> user_roles (au_access (auth_exec e st a db)) = user_roles (au_access db)"
proof (cases a)
  case (Access_admin x)
  then show ?thesis using admin_frame [of x "au_access db"] by simp
next
  case (Token_change ed now random uuid p session target c commit cdb)
  show ?thesis unfolding Token_change auth_exec.simps
    by (rule mid_of_cases [where P = "\<lambda>x. au_users x = au_users db \<and> user_roles (au_access x) = user_roles (au_access db)"]) (use change_frame in force)+
next
  case (Token_options ed now secret p session target cdb)
  show ?thesis unfolding Token_options auth_exec.simps
    by (rule mid_of_cases [where P = "\<lambda>x. au_users x = au_users db \<and> user_roles (au_access x) = user_roles (au_access db)"])
      (auto simp: options_def Let_def dest: issue_ticket_frame)
next
  case (Authenticate de cdb now rq)
  then show ?thesis using authenticate_tables [of e st de cdb now rq db] by auto
next
  case (Create_token now random tid p name scopes expires)
  then show ?thesis by (auto simp: snd_of_def create_api_token_def Let_def split: sum.splits if_splits)
next
  case (Update_scopes now tid p scopes)
  show ?thesis unfolding Update_scopes auth_exec.simps
    by (rule snd_of_cases [where P = "\<lambda>x. au_users x = au_users db \<and> user_roles (au_access x) = user_roles (au_access db)"])
      (auto simp: update_api_token_scopes_def split: option.splits if_splits)
next
  case (Issue_csrf now secret p tok target digest)
  show ?thesis unfolding Issue_csrf auth_exec.simps
    by (rule snd_of_cases [where P = "\<lambda>x. au_users x = au_users db \<and> user_roles (au_access x) = user_roles (au_access db)"]) (simp, erule issue_csrfE, simp)
next
  case (Consume_csrf now secret p tok target digest)
  show ?thesis unfolding Consume_csrf auth_exec.simps
    by (rule committed_cases [where P = "\<lambda>x. au_users x = au_users db \<and> user_roles (au_access x) = user_roles (au_access db)"]) (simp, erule consume_csrfE, simp)
next
  case (Revoke_token now tid uid)
  show ?thesis unfolding Revoke_token auth_exec.simps
    by (rule committed_cases [where P = "\<lambda>x. au_users x = au_users db \<and> user_roles (au_access x) = user_roles (au_access db)"])
      (auto simp: revoke_api_token_def split: option.splits if_splits)
qed (use assms login_frame in \<open>auto simp: logout_def split: option.split\<close>)

lemma bootstrap_admins: "admin_ids db \<subseteq> admin_ids (snd (bootstrap_from_env e st be now uid salt random db))"
proof (cases "au_users db = []")
  case True
  then show ?thesis by (simp add: admin_ids_def)
next
  case False
  then show ?thesis by (simp add: bootstrap_from_env_def)
qed

lemma change_password_admins: "change_password e now salt uid pw db = Inr db' \<Longrightarrow> admin_ids db \<subseteq> admin_ids db'"
proof (rule admin_ids_mono)
  assume run: "change_password e now salt uid pw db = Inr db'"
  have us: "au_users db' = update_rows (\<lambda>x. u_id x = uid) (edit_password (hash_password e salt None pw, now)) (au_users db)" and a: "au_access db' = au_access db"
    using run by (auto simp: change_password_def Let_def split: if_splits option.splits)
  show "holds_admin db x \<Longrightarrow> holds_admin db' x" for x by (simp add: holds_admin_def a)
  show "\<exists>v \<in> set (au_users db'). u_id v = u_id u \<and> u_status v = lit ''active''" if "u \<in> set (au_users db)" "u_status u = lit ''active''" for u
  proof (cases "u_id u = uid")
    case True
    then show ?thesis unfolding us set_update_rows using that
      by (intro bexI [of _ "edit_password (hash_password e salt None pw, now) u"]) simp_all
  next
    case False
    then show ?thesis unfolding us set_update_rows using that by blast
  qed
qed

lemma auth_exec_admins:
  assumes ok: "auth_ok db" and some: "admin_ids db \<noteq> {}"
  shows "admin_ids (auth_exec e st a db) \<noteq> {}"
proof (cases a)
  case (Bootstrap be now uid salt random)
  then show ?thesis using bootstrap_admins [of db e st be now uid salt random] some by auto
next
  case (Register now uid salt name pw d)
  show ?thesis unfolding Register auth_exec.simps register_user_def create_user_def
    using some by (auto split: sum.split dest: insert_user_admins)
next
  case (Create_access_user now p uid salt n codes)
  then show ?thesis using create_access_user_admins [of db e now p uid salt n codes] some by auto
next
  case (Patch_user now p uid d s rs)
  then show ?thesis using patch_user_admins [OF ok some] by simp
next
  case (Change_password now salt uid pw)
  show ?thesis unfolding Change_password auth_exec.simps committed_def using some by (auto split: sum.split dest: change_password_admins)
qed (use auth_exec_frame [of a e st db] admin_ids_same [of "auth_exec e st a db" db] some in simp_all)

lemma auth_run_admins: "auth_ok db \<Longrightarrow> admin_ids db \<noteq> {} \<Longrightarrow> admin_ids (auth_run e st ops db) \<noteq> {}"
proof (induction ops arbitrary: db)
  case (Cons a ops)
  then show ?case using auth_exec_ok auth_exec_admins by (simp add: auth_run_def) blast
qed (simp add: auth_run_def)

lemma auth_run_ok: "auth_ok db \<Longrightarrow> auth_ok (auth_run e st ops db)"
  using auth_machine.run_inv [OF auth_run_run] .

text \<open>
  C27: the gate is never left without an administrator.  Once the tables hold an active user with the \<^verbatim>\<open>admin\<close> role, they hold one after
  every further sequence of completed operations: no edit of users, roles or status, bootstrap or role administration removes the last one.
\<close>

theorem active_admin_remains:
  assumes "active_admins (auth_run e st ops (empty_auth now)) \<noteq> []"
  shows "active_admins (auth_run e st (ops @ later) (empty_auth now)) \<noteq> []"
proof -
  have ok: "auth_ok (auth_run e st ops (empty_auth now))" by (rule auth_run_ok [OF empty_auth_ok])
  have "admin_ids (auth_run e st ops (empty_auth now)) \<noteq> {}" using assms active_admins_set [OF ok] by (metis set_empty)
  then have "admin_ids (auth_run e st later (auth_run e st ops (empty_auth now))) \<noteq> {}" by (rule auth_run_admins [OF ok])
  then show ?thesis using active_admins_set [OF auth_run_ok [OF ok], of e st later] by (auto simp: auth_run_def)
qed

definition demo_auth_env :: auth_env where
  "demo_auth_env = \<lparr>ae_sha = (\<lambda>s. s), ae_pbkdf2 = (\<lambda>p s. p), ae_iso = (\<lambda>s. None)\<rparr>"

definition demo_settings :: auth_settings where
  "demo_settings = \<lparr>as_enabled = True, as_ttl_hours = 12\<rparr>"

definition demo_boot :: boot_env where
  "demo_boot = \<lparr>be_username = [], be_password = [], be_file = [], be_open = (\<lambda>p. Unreadable), be_utf8 = (\<lambda>b. None)\<rparr>"

definition demo_boot_op :: "unit auth_op" where
  "demo_boot_op = Bootstrap demo_boot 0 (lit ''u1'') (lit ''salt'') (lit ''long-password'')"

lemma seeded_roles:
  "map (\<lambda>r. (role_id r, role_code r, role_enabled r)) (roles (seed_system_data now (empty_db us)))
    = [(lit ''role-admin'', lit ''admin'', True), (lit ''role-operator'', lit ''operator'', True), (lit ''role-viewer'', lit ''viewer'', True)]"
  by (simp add: seed_system_data_def roles_fold_seed SYSTEM_ROLES_def roles_seed_role insert_ignore_def find_row_def empty_db_def lit_append)

lemma demo_boot_exec:
  obtains r1 r2 r3 where "roles (seed_system_data 0 (empty_db [])) = [r1, r2, r3]" "role_id r1 = lit ''role-admin''" "role_code r1 = lit ''admin''" "role_enabled r1"
    "role_code r2 = lit ''operator''" "role_code r3 = lit ''viewer''" "role_id r2 = lit ''role-operator''" "role_id r3 = lit ''role-viewer''"
    "auth_exec demo_auth_env demo_settings demo_boot_op (empty_auth 0) =
      (empty_auth 0)\<lparr>au_cred := Cred_file (lit ''admin'') (lit ''long-password''),
        au_users := [\<lparr>u_id = lit ''u1'', u_name = lit ''admin'', u_hash = hash_password demo_auth_env (lit ''salt'') None (lit ''long-password''), u_display = [],
          u_status = lit ''active'', u_must_change = True, u_created = 0, u_updated = 0\<rparr>],
        au_access := (seed_system_data 0 (empty_db []))\<lparr>user_ids := [lit ''u1''], user_roles := [(lit ''u1'', lit ''role-admin'')]\<rparr>\<rparr>"
proof -
  obtain r1 r2 r3 where r: "roles (seed_system_data 0 (empty_db [])) = [r1, r2, r3]" "role_id r1 = lit ''role-admin''" "role_code r1 = lit ''admin''" "role_enabled r1"
    "role_code r2 = lit ''operator''" "role_code r3 = lit ''viewer''" "role_id r2 = lit ''role-operator''" "role_id r3 = lit ''role-viewer''"
    using seeded_roles [of 0 "[]"] by (auto simp: map_eq_Cons_conv)
  have s: "strip (lit ''admin'') = lit ''admin''" "strip [] = []" by (simp_all add: strip_def strip_by_def lit_def py_space_def)
  have u: "user_ids (seed_system_data 0 (empty_db [])) = []" "user_roles (seed_system_data 0 (empty_db [])) = []"
    using seed_user_frame [of 0 "empty_db []"] by (simp_all add: empty_db_def)
  show thesis
    by (rule that [OF r]) (simp add: demo_boot_op_def bootstrap_from_env_def demo_settings_def empty_auth_def configured_bootstrap_credentials_def demo_boot_def
        Let_def s load_or_create_initial_admin_credentials_def insert_user_def first_admin_def r u USER_STATUSES_def empty_db_def [THEN arg_cong, of user_ids])
qed

lemma demo_boot_admins: "active_admins (auth_run demo_auth_env demo_settings [demo_boot_op] (empty_auth 0)) = [lit ''u1'']"
proof -
  obtain r1 r2 r3 where r: "roles (seed_system_data 0 (empty_db [])) = [r1, r2, r3]" "role_id r1 = lit ''role-admin''" "role_code r1 = lit ''admin''" "role_enabled r1"
    "role_code r2 = lit ''operator''" "role_code r3 = lit ''viewer''" "role_id r2 = lit ''role-operator''" "role_id r3 = lit ''role-viewer''"
    and x: "auth_exec demo_auth_env demo_settings demo_boot_op (empty_auth 0) =
      (empty_auth 0)\<lparr>au_cred := Cred_file (lit ''admin'') (lit ''long-password''),
        au_users := [\<lparr>u_id = lit ''u1'', u_name = lit ''admin'', u_hash = hash_password demo_auth_env (lit ''salt'') None (lit ''long-password''), u_display = [],
          u_status = lit ''active'', u_must_change = True, u_created = 0, u_updated = 0\<rparr>],
        au_access := (seed_system_data 0 (empty_db []))\<lparr>user_ids := [lit ''u1''], user_roles := [(lit ''u1'', lit ''role-admin'')]\<rparr>\<rparr>"
    by (rule demo_boot_exec)
  have "lit ''admin'' \<in> set (roles_for_user ((seed_system_data 0 (empty_db []))\<lparr>user_ids := [lit ''u1''], user_roles := [(lit ''u1'', lit ''role-admin'')]\<rparr>) (lit ''u1''))"
    unfolding set_roles_for_user mem_Collect_eq by (rule exI [of _ r1]) (simp add: r)
  then show ?thesis by (simp add: auth_run_def x active_admins_def)
qed

theorem active_admin_remains_witness:
  "active_admins (auth_run demo_auth_env demo_settings ([demo_boot_op] @ [Patch_user 1 disabled_principal (lit ''u1'') None (Some (lit ''disabled'')) None]) (empty_auth 0)) \<noteq> []"
  by (rule active_admin_remains) (simp add: demo_boot_admins)

text \<open>
  The check and the update of a PATCH are separate transactions.  When two requests that each disable one of the last two administrators
  are both checked before either is applied, both pass, and no administrator is left.
\<close>

lemma active_known: "auth_ok db \<Longrightarrow> x \<in> admin_ids db \<Longrightarrow> \<exists>u. find_user db x = Some u"
proof -
  assume ok: "auth_ok db" and x: "x \<in> admin_ids db"
  obtain u where "u \<in> set (au_users db)" "u_id u = x" using x unfolding admin_ids_def by auto
  then have "find_user db x = Some u" using find_user_iff [OF ok] by simp
  then show ?thesis ..
qed

lemma last_admin_race:
  assumes ok: "auth_ok db" and two: "set (active_admins db) = {a, b}" "a \<noteq> b"
  shows "validate_admin_transition db a (Some (lit ''disabled'')) None = Inr ()" "validate_admin_transition db b (Some (lit ''disabled'')) None = Inr ()"
    "active_admins (snd (update_user t2 b None (Some (lit ''disabled'')) (snd (update_user t1 a None (Some (lit ''disabled'')) db)))) = []"
proof -
  have ids: "admin_ids db = {a, b}" using active_admins_set [OF ok] two(1) by simp
  have v: "validate_admin_transition db x (Some (lit ''disabled'')) None = Inr ()" if "x \<in> {a, b}" for x
  proof -
    have "x \<in> admin_ids db" using that ids by simp
    from active_known [OF ok this] obtain u where "find_user db x = Some u" by blast
    moreover have "other_admins db x \<noteq> []" 
    proof -
      have "{a, b} - {x} \<noteq> {}" using that two(2) by auto
      then show ?thesis using other_admins_set [OF ok, of x] ids by (metis set_empty)
    qed
    ultimately show ?thesis by (simp add: validate_admin_transition_def get_user_def Let_def)
  qed
  show "validate_admin_transition db a (Some (lit ''disabled'')) None = Inr ()" "validate_admin_transition db b (Some (lit ''disabled'')) None = Inr ()"
    using v by simp_all
  define db1 where "db1 = snd (update_user t1 a None (Some (lit ''disabled'')) db)"
  have st: "\<not> (case Some (lit ''disabled'') of None \<Rightarrow> False | Some s \<Rightarrow> s \<notin> set USER_STATUSES)" by (simp add: USER_STATUSES_def)
  have off: "admin_ids (snd (update_user t x None (Some (lit ''disabled'')) y)) = admin_ids y - {x}" if "auth_ok y" "x \<in> admin_ids y" for t x y
  proof -
    from active_known [OF that] obtain u where "find_user y x = Some u" by blast
    from update_user_admins [OF this st, of t None] show ?thesis by simp
  qed
  have ok1: "auth_ok db1" unfolding db1_def by (rule update_user_ok [OF ok])
  have "admin_ids db1 = {b}" unfolding db1_def using off [OF ok, of a t1] ids two(2) by auto
  then have "admin_ids (snd (update_user t2 b None (Some (lit ''disabled'')) db1)) = {}" using off [OF ok1, of b t2] by simp
  then show "active_admins (snd (update_user t2 b None (Some (lit ''disabled'')) (snd (update_user t1 a None (Some (lit ''disabled'')) db)))) = []"
    using active_admins_set [OF update_user_ok [OF ok1]] unfolding db1_def by (metis set_empty)
qed

section \<open>Authenticated requests\<close>

lemma build_principalD:
  assumes "build_auth_principal db u kind tid scopes = Inr p"
  shows "p_id p = u_id u \<and> p_roles p = roles_for_user (au_access db) (u_id u) \<and> p_roles p \<noteq> [] \<and> p_permissions p = permissions_for_user (au_access db) (u_id u)
     \<and> auth_type p = kind \<and> token_id p = tid \<and> p_scopes p = scopes \<and> delegated_scopes p = None \<and> must_change_password p = u_must_change u
     \<and> token_mode p = lit ''account'' \<and> token_rate p = 0 \<and> token_concurrency p = 0 \<and> p_role p = hd (p_roles p)"
  using assms by (auto simp: build_auth_principal_def plain_principal_def Let_def split: if_splits)

lemma apply_authorizationD:
  assumes "apply_api_token_authorization de cdb db p = Inr q"
  shows "case find_policy db (token_id p) of None \<Rightarrow> q = p | Some r \<Rightarrow> q = with_policy r p
     \<and> (ta_mode r = lit ''independent'' \<longrightarrow> token_authorization_budget_valid de (au_access db) cdb (principal.truncate q))"
  using assms by (auto simp: apply_api_token_authorization_def with_policy_def Let_def split: option.splits if_splits)

lemma with_policy_simps [simp]:
  "p_id (with_policy r p) = p_id p" "p_roles (with_policy r p) = p_roles p" "p_permissions (with_policy r p) = p_permissions p" "auth_type (with_policy r p) = auth_type p"
  "token_id (with_policy r p) = token_id p" "p_scopes (with_policy r p) = p_scopes p" "must_change_password (with_policy r p) = must_change_password p"
  "token_mode (with_policy r p) = ta_mode r" "token_rate (with_policy r p) = ta_rate r" "token_concurrency (with_policy r p) = ta_concurrency r"
  "token_revision (with_policy r p) = ta_revision r"
  "token_server_policies (with_policy r p) = map (\<lambda>s. (sp_server s, sp_binding s, access_name (sp_access s))) (ta_policies r)"
  "token_tool_snapshots (with_policy r p) = map (\<lambda>(k, t). (k, tt_snapshot t)) (ta_tools r)"
  by (simp_all add: with_policy_def)

lemma find_policy_set_token [simp]: "find_policy (set_token t v db) k = find_policy db k"
  by (simp add: find_policy_def)

text \<open>The authorization a token principal carries is the stored one of its token, within its budget.\<close>

definition carries_policy :: "decision_env \<Rightarrow> class_db \<Rightarrow> auth_db \<Rightarrow> auth_principal \<Rightarrow> bool" where
  "carries_policy de cdb db p =
     (case find_policy db (token_id p) of
        None \<Rightarrow> token_mode p = lit ''account''
      | Some r \<Rightarrow> token_mode p = ta_mode r \<and> token_revision p = ta_revision r \<and> token_rate p = ta_rate r \<and> token_concurrency p = ta_concurrency r
          \<and> token_server_policies p = map (\<lambda>s. (sp_server s, sp_binding s, access_name (sp_access s))) (ta_policies r)
          \<and> token_tool_snapshots p = map (\<lambda>(k, t). (k, tt_snapshot t)) (ta_tools r)
          \<and> (ta_mode r = lit ''independent'' \<longrightarrow> token_authorization_budget_valid de (au_access db) cdb (principal.truncate p)))"

lemma principal_from_api_tokenD:
  assumes "fst (principal_from_api_token e de cdb now tok db) = Inr (Some p)"
  obtains t u where "t \<in> set (au_tokens db)" "ak_hash t = ae_sha e tok" "find_user db (ak_user t) = Some u" "u_status u = lit ''active''" "ak_revoked t = None"
    "\<not> iso_expired e now (ak_expires t)" "p_id p = ak_user t" "p_roles p = roles_for_user (au_access db) (ak_user t)" "p_roles p \<noteq> []"
    "p_permissions p = permissions_for_user (au_access db) (ak_user t)" "auth_type p = lit ''token''" "token_id p = Some (ak_id t)" "p_scopes p = ak_scopes t"
    "must_change_password p = u_must_change u" "carries_policy de cdb db p"
proof -
  obtain t where t: "find_row (\<lambda>t. ak_hash t = ae_sha e tok) (au_tokens db) = Some t"
    using assms by (auto simp: principal_from_api_token_def split: option.splits)
  note m = find_row_SomeD [OF t]
  obtain u where u: "find_user db (ak_user t) = Some u" using assms t by (auto simp: principal_from_api_token_def split: option.splits)
  have id: "u_id u = ak_user t" using find_userD [OF u] by simp
  define db1 where "db1 = set_token (ak_id t) (Set_used now) db"
  have c: "\<not> (u_status u \<noteq> lit ''active'' \<or> ak_revoked t \<noteq> None \<or> iso_expired e now (ak_expires t))"
    using assms t u by (auto simp: principal_from_api_token_def split: if_splits)
  then have "bindR (build_auth_principal db1 u (lit ''token'') (Some (ak_id t)) (ak_scopes t)) (\<lambda>p. bindR (apply_api_token_authorization de cdb db1 p) (\<lambda>q. Inr (Some q))) = Inr (Some p)"
    using assms t u by (simp add: principal_from_api_token_def Let_def db1_def)
  then obtain p0 where p0: "build_auth_principal db1 u (lit ''token'') (Some (ak_id t)) (ak_scopes t) = Inr p0" "apply_api_token_authorization de cdb db1 p0 = Inr p" by auto
  note b = build_principalD [OF p0(1)] and a = apply_authorizationD [OF p0(2)]
  have acc: "au_access db1 = au_access db" "find_policy db1 = find_policy db" by (simp_all add: db1_def fun_eq_iff)
  have "p_id p = p_id p0 \<and> p_roles p = p_roles p0 \<and> p_permissions p = p_permissions p0 \<and> auth_type p = auth_type p0 \<and> token_id p = token_id p0 \<and> p_scopes p = p_scopes p0
     \<and> must_change_password p = must_change_password p0" using a by (auto split: option.splits)
  moreover have "carries_policy de cdb db p"
  proof (cases "find_policy db (token_id p0)")
    case None
    then show ?thesis using a b unfolding acc carries_policy_def by simp
  next
    case (Some r)
    have p: "p = with_policy r p0" and q: "ta_mode r = lit ''independent'' \<longrightarrow> token_authorization_budget_valid de (au_access db) cdb (principal.truncate p)"
      using a [unfolded acc Some option.case] by blast+
    note f = with_policy_simps [of r p0, folded p]
    show ?thesis using q Some unfolding carries_policy_def f by simp
  qed
  ultimately show thesis using m u c b id acc(1) that [of t u] by metis
qed

lemma enforceD: "enforce_password_change p rq = Inr q \<Longrightarrow> q = p \<and> (must_change_password p \<longrightarrow> rq_path rq \<in> {lit ''/v1/auth/me'', lit ''/v1/auth/password'', lit ''/v1/auth/logout''})"
  by (simp add: enforce_password_change_def split: if_splits)

definition token_credential :: "auth_env \<Rightarrow> decision_env \<Rightarrow> class_db \<Rightarrow> rat \<Rightarrow> http_request \<Rightarrow> auth_db \<Rightarrow> auth_principal \<Rightarrow> bool" where
  "token_credential e de cdb now rq db p \<longleftrightarrow> (\<exists>b. bearer_token rq = Some b \<and> (\<exists>t \<in> set (au_tokens db). ak_hash t = ae_sha e b \<and> ak_user t = p_id p \<and> ak_revoked t = None
     \<and> \<not> iso_expired e now (ak_expires t) \<and> auth_type p = lit ''token'' \<and> token_id p = Some (ak_id t) \<and> p_scopes p = ak_scopes t)) \<and> carries_policy de cdb db p"

definition session_credential :: "auth_env \<Rightarrow> rat \<Rightarrow> http_request \<Rightarrow> auth_db \<Rightarrow> auth_principal \<Rightarrow> bool" where
  "session_credential e now rq db p \<longleftrightarrow> (\<exists>c. rq_cookie rq = Some c \<and> c \<noteq> [] \<and> (\<exists>s \<in> set (au_sessions db). se_hash s = ae_sha e c \<and> se_purpose s = lit ''console'' \<and> now < se_expires s
     \<and> se_user s = p_id p \<and> auth_type p = lit ''session'' \<and> p_session_id p = Some (se_id s)))"

text \<open>
  C5: with authentication on, a request is only authenticated as a user who is active and has an enabled role at that moment, with exactly that user's present
  roles and permissions.  With an \<^verbatim>\<open>Authorization\<close> header this needs an unrevoked, unexpired personal token of that user whose digest matches the
  bearer, and the principal carries that token's scopes and stored authorization, within its budget; the session cookie is never consulted.
  Without the header it needs an unexpired console session of that user.  A user who must change the password only reaches three paths.
\<close>

theorem request_authenticated:
  assumes "as_enabled st" "fst (authenticate_request e st de cdb now rq db) = Inr p"
  shows "\<exists>u. find_user db (p_id p) = Some u \<and> u_status u = lit ''active'' \<and> p_roles p = roles_for_user (au_access db) (p_id p) \<and> p_roles p \<noteq> []
     \<and> p_permissions p = permissions_for_user (au_access db) (p_id p)
     \<and> (u_must_change u \<longrightarrow> rq_path rq \<in> {lit ''/v1/auth/me'', lit ''/v1/auth/password'', lit ''/v1/auth/logout''})
     \<and> (if rq_authorization rq \<noteq> None then token_credential e de cdb now rq db p else session_credential e now rq db p)"
proof (cases "rq_authorization rq")
  case (Some h)
  obtain b where b: "bearer_token rq = Some b" using assms Some by (auto simp: authenticate_request_def Let_def split: option.splits if_splits)
  obtain r db' where r: "principal_from_api_token e de cdb now b db = (r, db')" by (cases "principal_from_api_token e de cdb now b db")
  have "bindR r (\<lambda>found. case found of None \<Rightarrow> Inl (Http 401 (lit ''invalid authorization credential'')) | Some p \<Rightarrow> enforce_password_change p rq) = Inr p"
    using assms Some b r by (simp add: authenticate_request_def Let_def split: if_splits)
  then obtain q where q: "r = Inr (Some q)" "enforce_password_change q rq = Inr p" by (cases r) (auto split: option.splits)
  note en = enforceD [OF q(2)]
  have "fst (principal_from_api_token e de cdb now b db) = Inr (Some p)" using r q(1) en by simp
  then show ?thesis
  proof (rule principal_from_api_tokenD)
    fix t u assume f: "t \<in> set (au_tokens db)" "ak_hash t = ae_sha e b" "find_user db (ak_user t) = Some u" "u_status u = lit ''active''" "ak_revoked t = None"
      "\<not> iso_expired e now (ak_expires t)" "p_id p = ak_user t" "p_roles p = roles_for_user (au_access db) (ak_user t)" "p_roles p \<noteq> []"
      "p_permissions p = permissions_for_user (au_access db) (ak_user t)" "auth_type p = lit ''token''" "token_id p = Some (ak_id t)" "p_scopes p = ak_scopes t"
      "must_change_password p = u_must_change u" "carries_policy de cdb db p"
    have "token_credential e de cdb now rq db p" unfolding token_credential_def using b f by metis
    then show ?thesis using f en Some by (intro exI [of _ u]) simp
  qed
next
  case None
  obtain c where c: "rq_cookie rq = Some c" "c \<noteq> []" using assms None by (auto simp: authenticate_request_def Let_def split: option.splits if_splits)
  have "bindR (principal_from_session e now c (lit ''console'') db)
      (\<lambda>found. case found of None \<Rightarrow> Inl (Http 401 (lit ''authentication required'')) | Some p \<Rightarrow> enforce_password_change p rq) = Inr p"
    using assms None c by (simp add: authenticate_request_def Let_def split: if_splits)
  then obtain q where q: "principal_from_session e now c (lit ''console'') db = Inr (Some q)" "enforce_password_change q rq = Inr p"
    by (cases "principal_from_session e now c (lit ''console'') db") (auto split: option.splits)
  note en = enforceD [OF q(2)]
  have "principal_from_session e now c (lit ''console'') db = Inr (Some p)" using q(1) en by simp
  then show ?thesis
  proof (rule principal_from_sessionD)
    fix s u assume f: "s \<in> set (au_sessions db)" "se_hash s = ae_sha e c" "se_purpose s = lit ''console''" "now < se_expires s" "find_user db (se_user s) = Some u"
      "u_status u = lit ''active''" "p_session_id p = Some (se_id s)" "p_id p = se_user s" "auth_type p = lit ''session''"
      "p_roles p = roles_for_user (au_access db) (se_user s)" "p_permissions p = permissions_for_user (au_access db) (se_user s)" "p_roles p \<noteq> []"
      "must_change_password p = u_must_change u"
    have "session_credential e now rq db p" unfolding session_credential_def using c f by metis
    then show ?thesis using f en None by (intro exI [of _ u]) simp
  qed
qed

definition demo_request :: http_request where
  "demo_request = \<lparr>rq_path = lit ''/v1/tools'', rq_authorization = Some (lit ''Bearer abc''), rq_cookie = None\<rparr>"

text \<open>The tables after the first start, with the password changed and a personal token.\<close>

definition demo_owner :: user_rec where
  "demo_owner = \<lparr>u_id = lit ''u1'', u_name = lit ''admin'', u_hash = [], u_display = [], u_status = lit ''active'', u_must_change = False, u_created = 0, u_updated = 0\<rparr>"

definition demo_api_token :: api_token_row where
  "demo_api_token = \<lparr>ak_id = lit ''t1'', ak_user = lit ''u1'', ak_name = lit ''API Token'', ak_hash = lit ''abc'', ak_prefix = [], ak_scopes = [lit ''tools.read''],
     ak_expires = None, ak_revoked = None, ak_last_used = None, ak_created = 0\<rparr>"

definition demo_auth :: auth_db where
  "demo_auth = (empty_auth 0)\<lparr>au_users := [demo_owner], au_tokens := [demo_api_token],
     au_access := (seed_system_data 0 (empty_db []))\<lparr>user_ids := [lit ''u1''], user_roles := [(lit ''u1'', lit ''role-admin'')]\<rparr>\<rparr>"

lemma demo_roles: "lit ''admin'' \<in> set (roles_for_user (au_access demo_auth) (lit ''u1''))"
proof -
  obtain r1 r2 r3 where r: "roles (seed_system_data 0 (empty_db [])) = [r1, r2, r3]" "role_id r1 = lit ''role-admin''" "role_code r1 = lit ''admin''" "role_enabled r1"
    by (rule demo_boot_exec)
  show ?thesis unfolding set_roles_for_user mem_Collect_eq demo_auth_def by (rule exI [of _ r1]) (simp add: r)
qed

lemma demo_bearer: "bearer_token demo_request = Some (lit ''abc'')"
  by (simp add: bearer_token_def demo_request_def Let_def starts_with_def lower_def lower_char_def strip_def strip_by_def lit_def py_space_def)

lemma demo_authenticated: "\<exists>p. fst (authenticate_request demo_auth_env demo_settings de cdb 1 demo_request demo_auth) = Inr p"
proof -
  have t: "find_row (\<lambda>t. ak_hash t = lit ''abc'') (au_tokens demo_auth) = Some demo_api_token" "find_user demo_auth (lit ''u1'') = Some demo_owner"
    by (simp_all add: find_row_def find_user_def demo_auth_def demo_api_token_def demo_owner_def)
  have s: "ae_sha demo_auth_env = (\<lambda>s. s)" "as_enabled demo_settings" "au_users demo_auth \<noteq> []" "rq_authorization demo_request \<noteq> None" "au_policies demo_auth = []"
    by (simp_all add: demo_auth_env_def demo_settings_def demo_auth_def demo_request_def empty_auth_def)
  have u: "u_status demo_owner = lit ''active''" "u_id demo_owner = lit ''u1''" "ak_user demo_api_token = lit ''u1''" "ak_revoked demo_api_token = None" "ak_expires demo_api_token = None" "\<not> u_must_change demo_owner"
    by (simp_all add: demo_owner_def demo_api_token_def)
  define db1 where "db1 = set_token (ak_id demo_api_token) (Set_used 1) demo_auth"
  have "roles_for_user (au_access demo_auth) (lit ''u1'') \<noteq> []" using demo_roles by auto
  then have "\<exists>p. build_auth_principal db1 demo_owner (lit ''token'') (Some (ak_id demo_api_token)) (ak_scopes demo_api_token) = Inr p"
    by (simp add: build_auth_principal_def Let_def db1_def u)
  then obtain p where p: "build_auth_principal db1 demo_owner (lit ''token'') (Some (ak_id demo_api_token)) (ak_scopes demo_api_token) = Inr p" by blast
  have a: "apply_api_token_authorization de cdb db1 p = Inr p"
    by (simp add: apply_api_token_authorization_def db1_def) (simp add: find_policy_def find_row_def s)
  have "principal_from_api_token demo_auth_env de cdb 1 (lit ''abc'') demo_auth = (Inr (Some p), db1)"
    using t u p a by (simp add: principal_from_api_token_def s iso_expired_def Let_def db1_def)
  moreover have "enforce_password_change p demo_request = Inr p" using build_principalD [OF p] u by (simp add: enforce_password_change_def)
  ultimately have "fst (authenticate_request demo_auth_env demo_settings de cdb 1 demo_request demo_auth) = Inr p"
    using s demo_bearer by (simp add: authenticate_request_def Let_def)
  then show ?thesis ..
qed

theorem request_authenticated_witness:
  "\<exists>p u. find_user demo_auth (p_id p) = Some u \<and> u_status u = lit ''active''
     \<and> fst (authenticate_request demo_auth_env demo_settings demo_decision_env demo_classes 1 demo_request demo_auth) = Inr p"
proof -
  obtain p where p: "fst (authenticate_request demo_auth_env demo_settings demo_decision_env demo_classes 1 demo_request demo_auth) = Inr p" using demo_authenticated by blast
  have "as_enabled demo_settings" by (simp add: demo_settings_def)
  from request_authenticated [OF this p] p show ?thesis by blast
qed

section \<open>Revoked tokens\<close>

text \<open>How the token table may evolve: no row is removed, identity and digest stay, and a revocation is final.\<close>

definition token_kept :: "auth_db \<Rightarrow> auth_db \<Rightarrow> bool" where
  "token_kept db db' \<longleftrightarrow> (\<forall>t \<in> set (au_tokens db). \<exists>t' \<in> set (au_tokens db'). ak_id t' = ak_id t \<and> ak_hash t' = ak_hash t \<and> ak_user t' = ak_user t \<and> (ak_revoked t \<noteq> None \<longrightarrow> ak_revoked t' \<noteq> None))"

lemma token_kept_refl [simp]: "token_kept db db"
  unfolding token_kept_def by blast

lemma token_kept_trans: "token_kept a b \<Longrightarrow> token_kept b c \<Longrightarrow> token_kept a c"
  unfolding token_kept_def by metis

lemma token_kept_same: "au_tokens db' = au_tokens db \<Longrightarrow> token_kept db db'"
  unfolding token_kept_def by auto

lemma token_kept_append: "au_tokens db' = au_tokens db @ ts \<Longrightarrow> token_kept db db'"
  unfolding token_kept_def by auto

lemma edit_token_revoked: "ak_revoked t \<noteq> None \<Longrightarrow> ak_revoked (edit_token v t) \<noteq> None"
  by (cases v) (simp_all add: edit_token_def)

lemma token_kept_update: "au_tokens db' = update_rows P (edit_token v) (au_tokens db) \<Longrightarrow> token_kept db db'"
  unfolding token_kept_def
proof
  fix t assume eq: "au_tokens db' = update_rows P (edit_token v) (au_tokens db)" and t: "t \<in> set (au_tokens db)"
  have "(if P t then edit_token v t else t) \<in> set (au_tokens db')" using t unfolding eq set_update_rows by auto
  moreover have "ak_revoked t \<noteq> None \<longrightarrow> ak_revoked (if P t then edit_token v t else t) \<noteq> None" using edit_token_revoked by auto
  ultimately show "\<exists>t' \<in> set (au_tokens db'). ak_id t' = ak_id t \<and> ak_hash t' = ak_hash t \<and> ak_user t' = ak_user t \<and> (ak_revoked t \<noteq> None \<longrightarrow> ak_revoked t' \<noteq> None)"
    by (intro bexI [of _ "if P t then edit_token v t else t"]) auto
qed

lemma token_kept_set: "token_kept db (set_token t v db)"
  by (rule token_kept_update) (simp add: set_token_def)

lemma user_ops_tokens:
  "insert_user e now uid salt n db = Inr db' \<Longrightarrow> au_tokens db' = au_tokens db" "set_roles uid codes db = Inr db' \<Longrightarrow> au_tokens db' = au_tokens db"
  "change_password e now salt uid pw db = Inr db' \<Longrightarrow> au_tokens db' = au_tokens db" "au_tokens (snd (update_user now uid d s db)) = au_tokens db"
  "au_tokens (snd (login e st now salt tok sid name pw purpose db)) = au_tokens db"
  "issue_ticket e t secret p session target purpose bound digest db = Inr db' \<Longrightarrow> au_tokens db' = au_tokens db"
proof -
  show "insert_user e now uid salt n db = Inr db' \<Longrightarrow> au_tokens db' = au_tokens db" by (erule insert_userE) simp
  show "set_roles uid codes db = Inr db' \<Longrightarrow> au_tokens db' = au_tokens db" by (erule set_rolesE) simp
  show "change_password e now salt uid pw db = Inr db' \<Longrightarrow> au_tokens db' = au_tokens db"
    by (auto simp: change_password_def Let_def split: if_splits option.splits)
  show "au_tokens (snd (update_user now uid d s db)) = au_tokens db" by (auto simp: update_user_def Let_def split: option.split)
  show "au_tokens (snd (login e st now salt tok sid name pw purpose db)) = au_tokens db"
    by (cases rule: login_tables [of e st now salt tok sid name pw purpose db]) auto
  show "issue_ticket e t secret p session target purpose bound digest db = Inr db' \<Longrightarrow> au_tokens db' = au_tokens db" by (erule issue_ticketE) simp
qed

lemma bootstrap_tokens: "au_tokens (snd (bootstrap_from_env e st be now uid salt random db)) = au_tokens db"
proof -
  have ins: "au_tokens (snd (case insert_user e now uid salt n x of Inl y \<Rightarrow> (Inl y, x) | Inr z \<Rightarrow> (Inr (), z))) = au_tokens x"
    "au_tokens (snd (case insert_user e now uid salt n x of Inl y \<Rightarrow> (Inl y, x) | Inr z \<Rightarrow> (Inr (), z\<lparr>au_cred := Cred_absent\<rparr>))) = au_tokens x" for n x
    by (cases "insert_user e now uid salt n x"; simp add: user_ops_tokens(1))+
  obtain r db1 where l: "load_or_create_initial_admin_credentials random db = (r, db1)" by (cases "load_or_create_initial_admin_credentials random db")
  have "au_tokens db1 = au_tokens db" using l by (auto simp: load_or_create_initial_admin_credentials_def split: cred_file.splits if_splits)
  then show ?thesis using ins l
    by (cases r; cases "configured_bootstrap_credentials be") (auto simp: bootstrap_from_env_def split: option.split)
qed

lemma change_kept:
  assumes "change ed now random uuid p0 session target c commit db cdb = Inr (r, db', cdb')"
  shows "token_kept db db'"
  using assms
proof (cases rule: changeE)
  case (steps p s cat limited bound t db1)
  have one: "token_kept db db1" using consume_ticket_tables [OF steps(6)] by (auto intro: token_kept_same)
  have "token_kept db1 db'"
  proof (cases commit)
    case True
    then obtain tid where "store_change (ed_env ed) now random uuid p target t db1 = Inr (tid, db')" using steps(8) by blast
    then show ?thesis
      by (cases rule: store_changeE)
        (auto intro: token_kept_append token_kept_update [of _ "\<lambda>x. ak_id x = tid \<and> ak_user x = p_id p \<and> ak_revoked x = None" "Set_scopes (ts_scopes t)"])
  next
    case False
    then show ?thesis using steps(7) user_ops_tokens(6) token_kept_same by blast
  qed
  with one show ?thesis by (rule token_kept_trans)
qed

lemma auth_exec_kept: "token_kept db (auth_exec e st a db)"
proof (cases a)
  case (Bootstrap be now uid salt random)
  then show ?thesis using bootstrap_tokens by (auto intro: token_kept_same)
next
  case (Register now uid salt name pw d)
  show ?thesis unfolding Register auth_exec.simps register_user_def create_user_def
    by (auto split: sum.split dest: user_ops_tokens(1) intro: token_kept_same)
next
  case (Create_access_user now p uid salt n codes)
  show ?thesis unfolding Create_access_user auth_exec.simps
    by (cases rule: create_access_userE [of e now p uid salt n codes db]) (auto dest!: user_ops_tokens(1,2) intro!: token_kept_same)
next
  case (Patch_user now p uid d s rs)
  show ?thesis unfolding Patch_user auth_exec.simps
  proof (cases rule: patch_userE [of now p uid d s rs db])
    case (applied db1)
    have "au_tokens db1 = au_tokens db" using applied(2) by (cases rs) (auto dest: user_ops_tokens(2))
    then show "token_kept db (snd (patch_user now p uid d s rs db))" by (intro token_kept_same) (simp add: applied(3) user_ops_tokens(4))
  qed simp
next
  case (Change_password now salt uid pw)
  show ?thesis unfolding Change_password auth_exec.simps
    by (rule committed_cases [where P = "token_kept db"]) (auto intro: token_kept_same user_ops_tokens(3))
next
  case (Login now salt tok sid name pw purpose)
  show ?thesis unfolding Login auth_exec.simps by (rule token_kept_same) (rule user_ops_tokens(5))
next
  case (Logout tok purpose)
  show ?thesis unfolding Logout auth_exec.simps by (rule token_kept_same) (simp add: logout_def split: option.split)
next
  case (Create_token now random tid p name scopes expires)
  show ?thesis unfolding Create_token auth_exec.simps
    by (rule snd_of_cases [where P = "token_kept db"]) (auto simp: create_api_token_def Let_def split: if_splits intro!: token_kept_append)
next
  case (Update_scopes now tid p scopes)
  show ?thesis unfolding Update_scopes auth_exec.simps
    by (rule snd_of_cases [where P = "token_kept db"]) (auto simp: update_api_token_scopes_def token_kept_set split: option.splits if_splits)
next
  case (Revoke_token now tid uid)
  show ?thesis unfolding Revoke_token auth_exec.simps
    by (rule committed_cases [where P = "token_kept db"]) (auto simp: revoke_api_token_def token_kept_set split: option.splits if_splits)
next
  case (Authenticate de cdb now rq)
  then show ?thesis using authenticate_tables [of e st de cdb now rq db] token_kept_set [of db] by auto
next
  case (Issue_csrf now secret p tok target digest)
  show ?thesis unfolding Issue_csrf auth_exec.simps
    by (rule snd_of_cases [where P = "token_kept db"]) (simp, erule issue_csrfE, simp add: token_kept_same)
next
  case (Consume_csrf now secret p tok target digest)
  show ?thesis unfolding Consume_csrf auth_exec.simps
    by (rule committed_cases [where P = "token_kept db"]) (simp, erule consume_csrfE, simp add: token_kept_same)
next
  case (Token_options ed now secret p session target cdb)
  show ?thesis unfolding Token_options auth_exec.simps
    by (rule mid_of_cases [where P = "token_kept db"]) (auto simp: options_def Let_def dest: user_ops_tokens(6) intro: token_kept_same)
next
  case (Token_change ed now random uuid p session target c commit cdb)
  show ?thesis unfolding Token_change auth_exec.simps
    by (rule mid_of_cases [where P = "token_kept db"]) (auto intro: change_kept)
next
  case (Access_admin x)
  then show ?thesis by (auto intro: token_kept_same)
qed

lemma auth_run_kept: "token_kept db (auth_run e st ops db)"
proof (induction ops arbitrary: db)
  case (Cons a ops)
  then show ?case using auth_exec_kept [of db e st a] by (simp add: auth_run_def) (metis token_kept_trans)
qed (simp add: auth_run_def)

lemma revoked_refused:
  assumes ok: "auth_ok db" and on: "as_enabled st" and b: "rq_authorization rq \<noteq> None" "bearer_token rq = Some b"
    and t: "t \<in> set (au_tokens db)" "ak_hash t = ae_sha e b" "ak_revoked t \<noteq> None"
  shows "authenticate_request e st de cdb now rq db = (Inl (Http 401 (lit ''invalid authorization credential'')), db)"
proof -
  have "find_row (\<lambda>x. ak_hash x = ae_sha e b) (au_tokens db) = Some t"
    using unique_key_find [of ak_hash "au_tokens db" t] t(1,2) auth_okD(5) [OF ok] unfolding tokens_ok_def by simp
  then have "principal_from_api_token e de cdb now b db = (Inr None, db)" using t(3) by (simp add: principal_from_api_token_def split: option.split)
  moreover have "au_users db \<noteq> []" using auth_okD(5) [OF ok] t(1) unfolding tokens_ok_def by auto
  ultimately show ?thesis using on b by (auto simp: authenticate_request_def Let_def)
qed

text \<open>
  C28: revoking a personal token is final.  Once \<^verbatim>\<open>revoke_api_token\<close> has returned, a request with that token is refused with 401 and changes nothing, whatever
  operations follow: token edits, new tokens, user edits, password changes or restarts.
\<close>

theorem revoked_token_stays_dead:
  assumes "revoke_api_token now tid uid (auth_run e st ops (empty_auth t0)) = Inr db" "find_token (auth_run e st ops (empty_auth t0)) tid = Some t"
    "as_enabled st" "rq_authorization rq \<noteq> None" "bearer_token rq = Some b" "ae_sha e b = ak_hash t"
  shows "authenticate_request e st de cdb later rq (auth_run e st more_ops db) = (Inl (Http 401 (lit ''invalid authorization credential'')), auth_run e st more_ops db)"
proof -
  have ok: "auth_ok db" using revoke_api_token_ok [OF auth_run_ok [OF empty_auth_ok] assms(1)] .
  have t: "t \<in> set (au_tokens (auth_run e st ops (empty_auth t0)))" "ak_id t = tid" using find_row_SomeD [OF assms(2) [unfolded find_token_def]] by simp_all
  have "db = set_token tid (Set_revoked now) (auth_run e st ops (empty_auth t0))" using assms(1,2) by (simp add: revoke_api_token_def split: if_splits)
  then have "edit_token (Set_revoked now) t \<in> set (au_tokens db)" using t by (auto simp: set_token_def set_update_rows)
  then obtain t' where t': "t' \<in> set (au_tokens (auth_run e st more_ops db))" "ak_hash t' = ak_hash t" "ak_revoked t' \<noteq> None"
    using auth_run_kept [of db e st more_ops] unfolding token_kept_def by (auto simp: edit_token_def)
  show ?thesis
    using revoked_refused [OF auth_run_ok [OF ok] assms(3-5) t'(1) _ t'(3)] t'(2) assms(6) by simp
qed

definition demo_creator :: principal where
  "demo_creator = demo_user\<lparr>p_id := lit ''u1'', p_permissions := [lit ''tools.read''], auth_type := lit ''session'', delegated_scopes := None\<rparr>"

definition demo_create_op :: "unit auth_op" where
  "demo_create_op = Create_token 1 (lit ''random'') (lit ''t1'') demo_creator (lit ''ci'') [] None"

lemma demo_normalize: "normalize_api_token_scopes demo_creator [] True = Inr [lit ''tools.read'']"
  by (simp add: normalize_api_token_scopes_def allowed_scopes_def scope_limits_def demo_creator_def Let_def)

definition demo_created :: api_token_row where
  "demo_created = \<lparr>ak_id = lit ''t1'', ak_user = lit ''u1'', ak_name = lit ''ci'', ak_hash = lit ''lgt_random'', ak_prefix = token_prefix (lit ''lgt_random''),
     ak_scopes = [lit ''tools.read''], ak_expires = None, ak_revoked = None, ak_last_used = None, ak_created = 1\<rparr>"

lemma demo_create_tokens: "au_tokens (auth_run demo_auth_env demo_settings [demo_boot_op, demo_create_op] (empty_auth 0)) = [demo_created]"
proof -
  obtain r1 r2 r3 where x: "auth_exec demo_auth_env demo_settings demo_boot_op (empty_auth 0) =
      (empty_auth 0)\<lparr>au_cred := Cred_file (lit ''admin'') (lit ''long-password''),
        au_users := [\<lparr>u_id = lit ''u1'', u_name = lit ''admin'', u_hash = hash_password demo_auth_env (lit ''salt'') None (lit ''long-password''), u_display = [],
          u_status = lit ''active'', u_must_change = True, u_created = 0, u_updated = 0\<rparr>],
        au_access := (seed_system_data 0 (empty_db []))\<lparr>user_ids := [lit ''u1''], user_roles := [(lit ''u1'', lit ''role-admin'')]\<rparr>\<rparr>"
    by (rule demo_boot_exec)
  have s: "strip (lit ''ci'') = lit ''ci''" by (simp add: strip_def strip_by_def lit_def py_space_def)
  have p: "p_id demo_creator = lit ''u1''" by (simp add: demo_creator_def)
  define db0 where "db0 = auth_exec demo_auth_env demo_settings demo_boot_op (empty_auth 0)"
  have d: "user_set db0 = {lit ''u1''}" "au_tokens db0 = []" unfolding db0_def x by (simp_all add: empty_auth_def)
  have h: "ae_sha demo_auth_env z = z" for z by (simp add: demo_auth_env_def)
  show ?thesis unfolding auth_run_def
    by (simp add: db0_def [symmetric] d h demo_create_op_def create_api_token_def demo_normalize s p snd_of_def demo_created_def lit_append Let_def)
qed

theorem revoked_token_stays_dead_witness:
  "\<exists>db. revoke_api_token 2 (lit ''t1'') None (auth_run demo_auth_env demo_settings [demo_boot_op, demo_create_op] (empty_auth 0)) = Inr db
     \<and> fst (authenticate_request demo_auth_env demo_settings demo_decision_env demo_classes 3 (demo_request\<lparr>rq_authorization := Some (lit ''Bearer lgt_random'')\<rparr>)
         (auth_run demo_auth_env demo_settings [demo_create_op] db)) = Inl (Http 401 (lit ''invalid authorization credential''))"
proof -
  have f: "find_token (auth_run demo_auth_env demo_settings [demo_boot_op, demo_create_op] (empty_auth 0)) (lit ''t1'') = Some demo_created"
    by (simp add: find_token_def demo_create_tokens find_row_def demo_created_def)
  have r: "revoke_api_token 2 (lit ''t1'') None (auth_run demo_auth_env demo_settings [demo_boot_op, demo_create_op] (empty_auth 0))
      = Inr (set_token (lit ''t1'') (Set_revoked 2) (auth_run demo_auth_env demo_settings [demo_boot_op, demo_create_op] (empty_auth 0)))"
    by (simp add: revoke_api_token_def f)
  have b: "bearer_token (demo_request\<lparr>rq_authorization := Some (lit ''Bearer lgt_random'')\<rparr>) = Some (lit ''lgt_random'')"
    by (simp add: bearer_token_def demo_request_def Let_def starts_with_def lower_def lower_char_def strip_def strip_by_def lit_def py_space_def)
  have "as_enabled demo_settings" "rq_authorization (demo_request\<lparr>rq_authorization := Some (lit ''Bearer lgt_random'')\<rparr>) \<noteq> None"
    "ae_sha demo_auth_env (lit ''lgt_random'') = ak_hash demo_created" by (simp_all add: demo_settings_def demo_auth_env_def demo_created_def)
  from revoked_token_stays_dead [OF r f this(1,2) b this(3), where more_ops = "[demo_create_op]"] r show ?thesis by simp
qed

section \<open>Scopes of a token\<close>

lemma cap_scopesD:
  assumes "s \<in> set (cap_scopes cap scopes)"
  shows "(lit ''*'' \<in> set cap \<or> s \<in> set cap) \<and> (lit ''*'' \<in> set scopes \<or> s \<in> set scopes)"
  using assms by (auto simp: cap_scopes_def split: if_splits)

lemma fold_cap_scopesD:
  "s \<in> set (fold cap_scopes caps scopes) \<Longrightarrow> (\<forall>cap \<in> set caps. lit ''*'' \<in> set cap \<or> s \<in> set cap) \<and> (lit ''*'' \<in> set scopes \<or> s \<in> set scopes)"
proof (induction caps arbitrary: scopes)
  case (Cons cap caps)
  have i: "(\<forall>c \<in> set caps. lit ''*'' \<in> set c \<or> s \<in> set c) \<and> (lit ''*'' \<in> set (cap_scopes cap scopes) \<or> s \<in> set (cap_scopes cap scopes))"
    using Cons.IH [of "cap_scopes cap scopes"] Cons.prems by simp
  then show ?case using cap_scopesD [of s cap scopes] cap_scopesD [of "lit ''*''" cap scopes] by auto
qed simp

lemma normalize_scopesD:
  assumes "normalize_api_token_scopes p scopes d = Inr granted" "s \<in> set granted"
  shows "\<forall>cap \<in> set (scope_limits p). lit ''*'' \<in> set cap \<or> s \<in> set cap"
proof -
  have "s \<in> set (allowed_scopes p)" using assms by (auto simp: normalize_api_token_scopes_def Let_def filter_empty_conv split: if_splits)
  then show ?thesis unfolding allowed_scopes_def using fold_cap_scopesD by blast
qed

text \<open>What the bearer of a token may do: the owner's roles and permissions, capped by the token's scopes.\<close>

definition as_token :: "pystr list \<Rightarrow> principal \<Rightarrow> principal" where
  "as_token scopes p = p\<lparr>auth_type := lit ''token'', p_scopes := scopes, delegated_scopes := None\<rparr>"

lemma as_token_limits: "scope_limits (as_token scopes p) = [scopes]"
  by (simp add: scope_limits_def as_token_def)

text \<open>
  C29: the function scopes of a new token never exceed those of the credential that creates it, be that a console session, another token or an OAuth grant with
  its own ceilings.  The token belongs to the caller's account; each of its scopes is within every ceiling the caller had; and whatever control permission or
  read or write function scope it gives with its owner's roles, the creating credential had as well.  This is about function scopes only: the restriction of a
  credential to particular tools and servers is no ceiling for the tokens it creates, as the lemma below shows.
\<close>

theorem token_no_escalation:
  assumes "create_api_token e now random tid p name scopes expires db = Inr ((row, tok), db')"
  shows "ak_user row = p_id p
     \<and> (\<forall>s \<in> set (ak_scopes row). \<forall>cap \<in> set (scope_limits p). lit ''*'' \<in> set cap \<or> s \<in> set cap)
     \<and> (has_control_permission (as_token (ak_scopes row) p) code \<longrightarrow> has_control_permission p code)
     \<and> (token_scope_allows (as_token (ak_scopes row) p) required \<longrightarrow> token_scope_allows p required)"
proof -
  have n: "normalize_api_token_scopes p scopes True = Inr (ak_scopes row)" and u: "ak_user row = p_id p"
    using assms by (auto simp: create_api_token_def Let_def split: if_splits)
  note cap = normalize_scopesD [OF n]
  have a: "is_admin (as_token (ak_scopes row) p) = is_admin p" "p_permissions (as_token (ak_scopes row) p) = p_permissions p"
    by (simp_all add: is_admin_def effective_roles_def as_token_def)
  have "has_control_permission p code" if "has_control_permission (as_token (ak_scopes row) p) code"
  proof -
    have h: "is_admin p \<or> code \<in> set (p_permissions p)" "lit ''*'' \<in> set (ak_scopes row) \<or> code \<in> set (ak_scopes row)"
      using that unfolding has_control_permission_def as_token_limits a by simp_all
    then have "\<forall>c \<in> set (scope_limits p). lit ''*'' \<in> set c \<or> code \<in> set c" using cap by blast
    then show ?thesis using h(1) unfolding has_control_permission_def list_all_iff by blast
  qed
  moreover have "token_scope_allows p required" if "token_scope_allows (as_token (ak_scopes row) p) required"
  proof -
    define accepted where "accepted = (if required = Read then [lit ''tools.read'', lit ''mcp.read'', lit ''mcp.write''] else [lit ''tools.invoke'', lit ''mcp.write''])"
    have "lit ''*'' \<in> set (ak_scopes row) \<or> (\<exists>x \<in> set (ak_scopes row). x \<in> set accepted)"
      using that unfolding token_scope_allows_def as_token_limits Let_def accepted_def [symmetric] by (simp add: list_ex_iff)
    then have "\<forall>c \<in> set (scope_limits p). lit ''*'' \<in> set c \<or> (\<exists>x \<in> set c. x \<in> set accepted)" using cap by blast
    then show ?thesis unfolding token_scope_allows_def Let_def accepted_def [symmetric] list_all_iff list_ex_iff .
  qed
  ultimately show ?thesis using u cap by blast
qed

theorem token_no_escalation_witness:
  "\<exists>row tok db'. create_api_token demo_auth_env 1 (lit ''random'') (lit ''t1'') demo_creator (lit ''ci'') [] None
       (auth_run demo_auth_env demo_settings [demo_boot_op] (empty_auth 0)) = Inr ((row, tok), db')
     \<and> (has_control_permission (as_token (ak_scopes row) demo_creator) (lit ''tools.read'') \<longrightarrow> has_control_permission demo_creator (lit ''tools.read''))"
proof -
  obtain row tok db' where c: "create_api_token demo_auth_env 1 (lit ''random'') (lit ''t1'') demo_creator (lit ''ci'') [] None
       (auth_run demo_auth_env demo_settings [demo_boot_op] (empty_auth 0)) = Inr ((row, tok), db')"
  proof (cases "create_api_token demo_auth_env 1 (lit ''random'') (lit ''t1'') demo_creator (lit ''ci'') [] None (auth_run demo_auth_env demo_settings [demo_boot_op] (empty_auth 0))")
    case (Inl x)
    then have "au_tokens (auth_run demo_auth_env demo_settings [demo_boot_op] (empty_auth 0)) = [demo_created]"
      using demo_create_tokens by (simp add: auth_run_def demo_create_op_def snd_of_def)
    moreover have "au_tokens (auth_run demo_auth_env demo_settings [demo_boot_op] (empty_auth 0)) = []"
      using bootstrap_tokens by (simp add: auth_run_def demo_boot_op_def) (simp add: empty_auth_def)
    ultimately show thesis by simp
  qed (use that in auto)
  from token_no_escalation [OF c] c show ?thesis by blast
qed

text \<open>
  The route that creates a token does not look at the mode of the credential that calls it.  A token restricted to an independent scope, when it may manage own
  credentials, can therefore create a token that follows the account, with the same function scopes but without the restriction to
  its own tools and servers and without its quotas.
\<close>

lemma minted_token_follows_account:
  assumes ok: "auth_ok db" and run: "create_personal_token e st now random tid p name scopes expires db = Inr ((row, tok), db')"
    and q: "fst (principal_from_api_token e de cdb later tok db') = Inr (Some q)"
  shows "token_mode q = lit ''account'' \<and> p_id q = p_id p"
proof -
  have c: "create_api_token e now random tid (principal.truncate p) name scopes expires db = Inr ((row, tok), db')"
    using run by (auto simp: create_personal_token_def route_errors_def split: sum.splits)
  have r: "ak_id row = tid" "tid \<notin> ak_id ` set (au_tokens db)" "au_policies db' = au_policies db" "au_tokens db' = au_tokens db @ [row]" "ak_hash row = ae_sha e tok" "ak_user row = p_id p"
    using c by (auto simp: create_api_token_def Let_def principal.defs split: if_splits)
  have ok': "auth_ok db'" using create_api_token_ok [OF ok c] .
  from q show ?thesis
  proof (rule principal_from_api_tokenD)
    fix t u assume t: "t \<in> set (au_tokens db')" "ak_hash t = ae_sha e tok" "token_id q = Some (ak_id t)" "carries_policy de cdb db' q" "p_id q = ak_user t"
    have "t = row" using unique_key_eq [of ak_hash "au_tokens db'" t row] t(1,2) r(4,5) auth_okD(5) [OF ok'] unfolding tokens_ok_def by simp
    moreover have "find_policy db' (Some tid) = None"
      using auth_okD(6) [OF ok] r(2) unfolding find_policy_def r(3) find_row_None_iff policies_ok_def by auto
    ultimately show ?thesis using t(3,4,5) r(1,6) unfolding carries_policy_def by simp
  qed
qed

section \<open>Changing a token's authorization\<close>

definition confirms :: "auth_env \<Rightarrow> int \<Rightarrow> auth_principal \<Rightarrow> pystr \<Rightarrow> pystr \<Rightarrow> token_change \<Rightarrow> pystr \<Rightarrow> ticket_row \<Rightarrow> bool" where
  "confirms e now p session target c digest k \<longleftrightarrow> tk_hash k = ae_sha e (tc_ticket c) \<and> tk_user k = p_id p \<and> tk_session k = ae_sha e session \<and> tk_target k = target
     \<and> tk_purpose k = lit ''confirmation'' \<and> tk_binding k = tc_catalog c \<and> tk_digest k = digest \<and> now < tk_expires k"

lemma find_replaced: "find_row (\<lambda>x. ta_token x = k) (update_rows (\<lambda>x. ta_token x = ta_token r) (\<lambda>_. r) rows)
    = (if k = ta_token r \<and> k \<in> ta_token ` set rows then Some r else find_row (\<lambda>x. ta_token x = k) rows)"
  unfolding find_row_def update_rows_def by (induction rows) auto

lemma find_appended: "find_row P (rows @ [r]) = (case find_row P rows of Some x \<Rightarrow> Some x | None \<Rightarrow> if P r then Some r else None)"
  unfolding find_row_def by (induction rows) auto

lemma find_put_policy: "find_row (\<lambda>x. ta_token x = k) (put_policy r rows) = (if k = ta_token r then Some r else find_row (\<lambda>x. ta_token x = k) rows)"
proof (cases "ta_token r \<in> ta_token ` set rows")
  case True
  show ?thesis unfolding put_policy_def if_P [OF True] find_replaced using True by metis
next
  case False
  have none: "find_row (\<lambda>x. ta_token x = ta_token r) rows = None" using False unfolding find_row_None_iff by (metis imageI)
  show ?thesis
  proof (cases "k = ta_token r")
    case True
    show ?thesis unfolding put_policy_def if_not_P [OF False] find_appended True none by simp
  next
    case other: False
    then show ?thesis unfolding put_policy_def if_not_P [OF False] find_appended by (cases "find_row (\<lambda>x. ta_token x = k) rows") auto
  qed
qed

lemma policy_row_token [simp]: "ta_token (policy_row tid t) = tid"
  by (simp add: policy_row_def)

lemma saved_policy:
  assumes "au_policies db' = put_policy (policy_row tid t) (au_policies db)"
  shows "find_policy db' (Some tid) = Some (policy_row tid t) \<and> (\<forall>k. k \<noteq> tid \<longrightarrow> find_policy db' (Some k) = find_policy db (Some k))"
  by (simp add: find_policy_def assms find_put_policy)

lemma confirmed_ticket:
  assumes ok: "auth_ok db" and run: "consume_ticket e now p session target (lit ''confirmation'') (tc_ticket c) (tc_catalog c) digest db = Inr db1"
  obtains k where "k \<in> set (au_tickets db)" "confirms e now p session target c digest k" "db1 = db\<lparr>au_tickets := delete_rows (\<lambda>x. tk_hash x = tk_hash k) (au_tickets db)\<rparr>"
proof -
  define m where "m = ticket_matches e now p session target (lit ''confirmation'') (tc_ticket c) (tc_catalog c) digest"
  have m: "sql_count m (au_tickets db) = 1" "db1 = db\<lparr>au_tickets := delete_rows m (au_tickets db)\<rparr>"
    using run by (auto simp: consume_ticket_def Let_def m_def [symmetric] split: if_splits)
  then have "filter m (au_tickets db) \<noteq> []" by (auto simp: sql_count_def)
  then obtain k where k: "k \<in> set (au_tickets db)" "m k" by (auto simp: filter_empty_conv)
  have c: "confirms e now p session target c digest k" using k(2) unfolding m_def ticket_matches_def confirms_def by simp
  have "m x \<longleftrightarrow> tk_hash x = tk_hash k" if "x \<in> set (au_tickets db)" for x
  proof
    assume "tk_hash x = tk_hash k"
    then have "x = k" using unique_key_eq [of tk_hash "au_tickets db" x k] that k(1) auth_okD(8) [OF ok] unfolding tickets_ok_def by blast
    then show "m x" using k(2) by simp
  next
    assume "m x"
    then show "tk_hash x = tk_hash k" using c unfolding m_def ticket_matches_def confirms_def by simp
  qed
  then have "delete_rows m (au_tickets db) = delete_rows (\<lambda>x. tk_hash x = tk_hash k) (au_tickets db)" unfolding delete_rows_def by (intro filter_cong) auto
  then show thesis using that [OF k(1) c] m(2) by simp
qed

text \<open>What a saved change leaves: the policy and the scopes of one token of the caller, everything else as before.\<close>

definition saved_as :: "auth_db \<Rightarrow> auth_db \<Rightarrow> pystr \<Rightarrow> pystr \<Rightarrow> token_state \<Rightarrow> bool" where
  "saved_as db db' uid tid t \<longleftrightarrow> find_policy db' (Some tid) = Some (policy_row tid t) \<and> (\<forall>k. k \<noteq> tid \<longrightarrow> find_policy db' (Some k) = find_policy db (Some k))
     \<and> (\<exists>x \<in> set (au_tokens db'). ak_id x = tid \<and> ak_user x = uid \<and> ak_scopes x = ts_scopes t \<and> ak_revoked x = None)
     \<and> {y \<in> set (au_tokens db'). ak_id y \<noteq> tid} = {y \<in> set (au_tokens db). ak_id y \<noteq> tid}
     \<and> au_users db' = au_users db \<and> au_sessions db' = au_sessions db \<and> au_access db' = au_access db \<and> au_csrf db' = au_csrf db"

lemma store_change_saved:
  assumes run: "store_change e now random uuid p target t db = Inr (tid, db')"
    and known: "target \<noteq> lit ''new'' \<Longrightarrow> \<exists>x \<in> set (au_tokens db). ak_id x = target \<and> ak_user x = p_id p \<and> ak_revoked x = None"
  shows "saved_as db db' (p_id p) tid t \<and> au_tickets db' = au_tickets db \<and> (target \<noteq> lit ''new'' \<longrightarrow> tid = target)"
  using run
proof (cases rule: store_changeE)
  case (fresh x)
  have "saved_as db db' (p_id p) tid t"
    unfolding saved_as_def using saved_policy [of db' tid t db] fresh(2,4) by (auto simp: fresh(6,7))
  then show ?thesis using fresh(1,7) by simp
next
  case old
  obtain x where x: "x \<in> set (au_tokens db)" "ak_id x = tid" "ak_user x = p_id p" "ak_revoked x = None" using known [OF old(1)] old(2) by blast
  define P :: "api_token_row \<Rightarrow> bool" where "P = (\<lambda>x. ak_id x = tid \<and> ak_user x = p_id p \<and> ak_revoked x = None)"
  define ts where "ts = update_rows P (edit_token (Set_scopes (ts_scopes t))) (au_tokens db)"
  have db': "db' = db\<lparr>au_tokens := ts, au_policies := put_policy (policy_row tid t) (au_policies db)\<rparr>" using old(3) unfolding ts_def P_def .
  have "edit_token (Set_scopes (ts_scopes t)) x \<in> set ts" unfolding ts_def set_update_rows P_def using x by auto
  moreover have "ak_scopes (edit_token (Set_scopes (ts_scopes t)) x) = ts_scopes t" "ak_revoked (edit_token (Set_scopes (ts_scopes t)) x) = None"
    using x(4) by (simp_all add: edit_token_def)
  ultimately have new: "\<exists>y \<in> set ts. ak_id y = tid \<and> ak_user y = p_id p \<and> ak_scopes y = ts_scopes t \<and> ak_revoked y = None"
    using x by (intro bexI [of _ "edit_token (Set_scopes (ts_scopes t)) x"]) simp_all
  have rest: "{y \<in> set ts. ak_id y \<noteq> tid} = {y \<in> set (au_tokens db). ak_id y \<noteq> tid}" unfolding ts_def set_update_rows P_def by auto
  have "saved_as db db' (p_id p) tid t"
    unfolding saved_as_def using saved_policy [of db' tid t db] new rest by (simp add: db')
  then show ?thesis using old(2) db' by simp
qed

text \<open>
  C6: an authorization changes only by an exact confirmation.  When saving a change succeeds, the caller has a live console session with the permission to manage
  own credentials, and the tables held an unexpired confirmation ticket with the presented secret, issued to this user and session for
  this token, this catalog and exactly this target.  The ticket is deleted, the policy of that one token becomes the
  target with the next revision and quotas within bounds, the token is the caller's, keeps no revocation and gets the target's scopes, and no other
  token, policy, user, session or role changes.
\<close>

theorem token_change_confirmed:
  assumes "auth_ok db" "change ed now random uuid p0 session target c True db cdb = Inr (r, db', cdb')"
  shows "\<exists>p t tid k. r = Saved tid t \<and> live_console_session (ed_env ed) now p0 session db = Inr (Some p)
     \<and> has_control_permission (principal.truncate p) (lit ''credentials.manage.self'') \<and> k \<in> set (au_tickets db)
     \<and> confirms (ed_env ed) \<lfloor>now\<rfloor> p0 session target c (ed_digest ed t) k \<and> au_tickets db' = delete_rows (\<lambda>x. tk_hash x = tk_hash k) (au_tickets db)
     \<and> saved_as db db' (p_id p0) tid t \<and> (target \<noteq> lit ''new'' \<longrightarrow> tid = target) \<and> ts_revision t = tc_revision c \<and> policy_ok (policy_row tid t)"
  using assms(2)
proof (cases rule: changeE)
  case (steps p s cat limited bound t db1)
  obtain tid where st: "r = Saved tid t" "store_change (ed_env ed) now random uuid p target t db1 = Inr (tid, db')" using steps(8) by blast
  have ow: "live_console_session (ed_env ed) now p0 session db = Inr (Some p)" "has_control_permission (principal.truncate p) (lit ''credentials.manage.self'')"
    using ownerD [OF steps(1)] by simp_all
  have id: "p_id p = p_id p0" using live_console_sessionD [OF ow(1)] by simp
  have "consume_ticket (ed_env ed) \<lfloor>now\<rfloor> p session target (lit ''confirmation'') (tc_ticket c) (tc_catalog c) (ed_digest ed t) db = Inr db1"
    using steps(6) unfolding steps(4) if_True .
  with assms(1) obtain k where k: "k \<in> set (au_tickets db)" "confirms (ed_env ed) \<lfloor>now\<rfloor> p session target c (ed_digest ed t) k"
      "db1 = db\<lparr>au_tickets := delete_rows (\<lambda>x. tk_hash x = tk_hash k) (au_tickets db)\<rparr>" by (rule confirmed_ticket)
  have known: "\<exists>x \<in> set (au_tokens db1). ak_id x = target \<and> ak_user x = p_id p \<and> ak_revoked x = None" if "target \<noteq> lit ''new''"
  proof -
    from steps(2) that obtain x where "x \<in> set (au_tokens db)" "ak_id x = target" "ak_user x = p_id p" "ak_revoked x = None" by (rule token_state_ofD)
    then show ?thesis unfolding k(3) by auto
  qed
  note sv = store_change_saved [OF st(2) known]
  have "saved_as db db' (p_id p0) tid t" using sv unfolding saved_as_def k(3) id by (simp add: find_policy_def)
  moreover have "confirms (ed_env ed) \<lfloor>now\<rfloor> p0 session target c (ed_digest ed t) k" using k(2) unfolding confirms_def id .
  moreover have "ts_revision t = tc_revision c \<and> policy_ok (policy_row tid t)" using steps(5)
    by (rule change_targetD) (use token_state_revision [OF assms(1) steps(2)] in \<open>simp add: policy_ok_def policy_row_def\<close>)
  moreover have "au_tickets db' = delete_rows (\<lambda>x. tk_hash x = tk_hash k) (au_tickets db)" using sv k(3) by simp
  ultimately show ?thesis using st(1) ow k(1) sv by (intro exI [of _ p] exI [of _ t] exI [of _ tid] exI [of _ k]) blast
qed

definition demo_session :: session_row where
  "demo_session = \<lparr>se_id = lit ''s1'', se_user = lit ''u1'', se_hash = lit ''cookie'', se_expires = 1000, se_created = 0, se_purpose = lit ''console''\<rparr>"

definition demo_ticket :: ticket_row where
  "demo_ticket = \<lparr>tk_hash = lit ''secret'', tk_user = lit ''u1'', tk_session = lit ''cookie'', tk_target = lit ''new'', tk_purpose = lit ''confirmation'',
     tk_binding = lit ''catalog'', tk_digest = lit ''digest'', tk_expires = 1000\<rparr>"

definition demo_editor :: auth_db where
  "demo_editor = demo_auth\<lparr>au_tokens := [], au_sessions := [demo_session], au_tickets := [demo_ticket]\<rparr>"

definition demo_edit :: "unit edit_env" where
  "demo_edit = \<lparr>ed_env = demo_auth_env, ed_settings = demo_settings, ed_decision = demo_decision_env, ed_uuid = (\<lambda>_. []), ed_fresh = (\<lambda>s. s),
     ed_registry = empty_registry, ed_binding = (\<lambda>_ _ _ _. lit ''catalog''), ed_digest = (\<lambda>_. lit ''digest'')\<rparr>"

definition demo_change :: token_change where
  "demo_change = \<lparr>tc_revision = 0, tc_catalog = lit ''catalog'', tc_mode = lit ''independent'', tc_scopes = [lit ''*''], tc_tools = [], tc_policies = [],
     tc_rate = 60, tc_concurrency = 5, tc_name = Some (lit ''ci''), tc_expires = None, tc_ticket = lit ''secret''\<rparr>"

definition demo_editing :: auth_principal where
  "demo_editing = plain_principal (lit ''session'') demo_owner (roles_for_user (au_access demo_auth) (lit ''u1''))
     (permissions_for_user (au_access demo_auth) (lit ''u1'')) None []"

lemma demo_auth_access: "tables_ok (au_access demo_auth) \<and> system_ok (au_access demo_auth)"
proof -
  obtain r1 r2 r3 where r: "roles (seed_system_data 0 (empty_db [])) = [r1, r2, r3]" "role_id r1 = lit ''role-admin''" by (rule demo_boot_exec)
  have s: "tables_ok (seed_system_data 0 (empty_db []))" "system_ok (seed_system_data 0 (empty_db []))" using seeded_empty by simp_all
  have u: "user_ids (seed_system_data 0 (empty_db [])) = []" "user_roles (seed_system_data 0 (empty_db [])) = []"
    using seed_user_frame [of 0 "empty_db []"] by (auto simp: empty_db_def)
  have a: "au_access demo_auth = (seed_system_data 0 (empty_db []))\<lparr>user_ids := user_ids (seed_system_data 0 (empty_db [])) @ [lit ''u1''],
      user_roles := user_roles (seed_system_data 0 (empty_db [])) @ [(lit ''u1'', role_id r1)]\<rparr>" unfolding u r(2) by (simp add: demo_auth_def)
  have "tables_ok (au_access demo_auth)" unfolding a by (rule tables_ok_add_user [OF s(1)]) (unfold u r(1), simp_all)
  moreover have "system_ok (au_access demo_auth)" using s(2) unfolding system_ok_def by (simp add: demo_auth_def)
  ultimately show ?thesis ..
qed

lemma demo_editor_ok: "auth_ok demo_editor"
proof (rule auth_okI)
  show "tables_ok (au_access demo_editor)" "system_ok (au_access demo_editor)" using demo_auth_access by (simp_all add: demo_editor_def)
qed (simp_all add: demo_editor_def demo_auth_def demo_owner_def empty_auth_def demo_session_def demo_ticket_def users_ok_def sessions_ok_def tokens_ok_def
    policies_ok_def csrf_ok_def tickets_ok_def sql_count_def USER_STATUSES_def)

lemma demo_live: "live_console_session demo_auth_env 10 demo_editing (lit ''cookie'') demo_editor = Inr (Some (demo_editing\<lparr>p_session_id := Some (lit ''s1'')\<rparr>))"
proof -
  have r: "roles_for_user (au_access demo_auth) (lit ''u1'') \<noteq> []" using demo_roles by auto
  have h: "ae_sha demo_auth_env z = z" for z by (simp add: demo_auth_env_def)
  have f: "find_row (\<lambda>s. se_hash s = lit ''cookie'' \<and> se_purpose s = lit ''console'') (au_sessions demo_editor) = Some demo_session"
    "find_user demo_editor (lit ''u1'') = Some demo_owner" "se_user demo_session = lit ''u1''" "u_status demo_owner = lit ''active''" "se_expires demo_session = 1000"
    "se_id demo_session = lit ''s1''" "u_id demo_owner = lit ''u1''" "au_access demo_editor = au_access demo_auth" "\<not> u_must_change demo_owner"
    by (simp_all add: demo_editor_def find_row_def find_user_def demo_session_def demo_owner_def demo_auth_def)
  have "build_auth_principal demo_editor demo_owner (lit ''session'') None [] = Inr demo_editing"
    by (simp add: build_auth_principal_def Let_def f r demo_editing_def)
  then have p: "principal_from_session demo_auth_env 10 (lit ''cookie'') (lit ''console'') demo_editor = Inr (Some (demo_editing\<lparr>p_session_id := Some (lit ''s1'')\<rparr>))"
    by (simp add: principal_from_session_def h f)
  show ?thesis unfolding live_console_session_def p by (simp add: demo_editing_def plain_principal_def f)
qed

lemma demo_owner_ok: "owner demo_auth_env demo_settings 10 demo_editing (lit ''cookie'') demo_editor = Inr (demo_editing\<lparr>p_session_id := Some (lit ''s1'')\<rparr>)"
proof -
  have "lit ''admin'' \<in> set (p_roles demo_editing)" using demo_roles by (simp add: demo_editing_def plain_principal_def)
  then have "has_control_permission (principal.truncate (demo_editing\<lparr>p_session_id := Some (lit ''s1'')\<rparr>)) (lit ''credentials.manage.self'')"
    by (auto simp: has_control_permission_def is_admin_def effective_roles_def scope_limits_def demo_editing_def plain_principal_def principal.defs)
  then show ?thesis unfolding owner_def demo_live by (simp add: demo_settings_def require_control_def)
qed

lemma demo_target:
  "\<exists>t. change_target demo_edit 10 demo_classes (demo_editing\<lparr>p_session_id := Some (lit ''s1'')\<rparr>) (new_state (demo_editing\<lparr>p_session_id := Some (lit ''s1'')\<rparr>)) [] demo_change (lit ''new'') = Inr t"
proof -
  have s: "strip (lit ''*'') = lit ''*''" by (simp add: strip_def strip_by_def lit_def py_space_def)
  have "lit ''admin'' \<in> set (p_roles demo_editing)" using demo_roles by (simp add: demo_editing_def plain_principal_def)
  then have n: "normalize_api_token_scopes (principal.truncate (demo_editing\<lparr>p_session_id := Some (lit ''s1'')\<rparr>)) [lit ''*''] False = Inr [lit ''*'']"
    by (simp add: normalize_api_token_scopes_def Let_def s allowed_scopes_def scope_limits_def demo_editing_def plain_principal_def principal.defs)
  define st where "st = new_state (demo_editing\<lparr>p_session_id := Some (lit ''s1'')\<rparr>)"
  have t: "ts_revision st = 0" "ts_policies st = []" "ts_tools st = []" "ts_tool_ids st = []" by (simp_all add: st_def new_state_def)
  have c: "tc_revision demo_change = 0" "tc_mode demo_change = lit ''independent''" "tc_scopes demo_change = [lit ''*'']" "tc_tools demo_change = []"
    "tc_policies demo_change = []" "tc_rate demo_change = 60" "tc_concurrency demo_change = 5" "tc_expires demo_change = None" by (simp_all add: demo_change_def)
  show ?thesis unfolding st_def [symmetric]
    by (simp add: change_target_def n t c requested_policies_def given_def Let_def)
qed

lemma demo_changed: "\<exists>r db' cdb'. change demo_edit 10 (lit ''random'') (lit ''t1'') demo_editing (lit ''cookie'') (lit ''new'') demo_change True demo_editor demo_classes = Inr (r, db', cdb')"
proof -
  define p where "p = demo_editing\<lparr>p_session_id := Some (lit ''s1'')\<rparr>"
  have e: "ed_env demo_edit = demo_auth_env" "ed_settings demo_edit = demo_settings" "ed_binding demo_edit x y z w = lit ''catalog''" "ed_digest demo_edit v = lit ''digest''"
    "ae_sha demo_auth_env g = g" for x y z w v g by (simp_all add: demo_edit_def demo_auth_env_def)
  have "editor_catalog demo_edit demo_editor demo_classes p (new_state p) (lit ''new'') = Inr (demo_classes, ([], []), False)"
    by (simp add: editor_catalog_def visible_catalog_def visible_tools_def demo_edit_def list_definitions_def empty_registry_def)
  moreover have w: "with_subscribed (new_state p) ([], []) = ([], [])" by (simp add: with_subscribed_def new_state_def)
  obtain t where "change_target demo_edit 10 demo_classes p (new_state p) [] demo_change (lit ''new'') = Inr t" using demo_target unfolding p_def by blast
  moreover have "owner demo_auth_env demo_settings 10 demo_editing (lit ''cookie'') demo_editor = Inr p" using demo_owner_ok unfolding p_def .
  moreover have "token_state_of demo_auth_env 10 p (lit ''new'') demo_editor = Inr (new_state p)" by (simp add: token_state_of_def)
  moreover have id: "p_id p = lit ''u1''" by (simp add: p_def demo_editing_def plain_principal_def demo_owner_def)
  have "consume_ticket demo_auth_env 10 p (lit ''cookie'') (lit ''new'') (lit ''confirmation'') (lit ''secret'') (lit ''catalog'') (lit ''digest'') demo_editor = Inr (demo_editor\<lparr>au_tickets := []\<rparr>)"
    by (simp add: consume_ticket_def Let_def ticket_matches_def demo_editor_def demo_ticket_def sql_count_def delete_rows_def id e)
  moreover have "\<exists>x db2. store_change demo_auth_env 10 (lit ''random'') (lit ''t1'') p (lit ''new'') t (demo_editor\<lparr>au_tickets := []\<rparr>) = Inr (x, db2)"
    by (simp add: store_change_def Let_def id demo_editor_def demo_auth_def demo_owner_def)
  moreover have "tc_catalog demo_change = lit ''catalog''" "tc_ticket demo_change = lit ''secret''" by (simp_all add: demo_change_def)
  ultimately show ?thesis by (auto simp: change_def e w)
qed

theorem token_change_confirmed_witness:
  "\<exists>t tid k. k \<in> set (au_tickets demo_editor) \<and> confirms demo_auth_env 10 demo_editing (lit ''cookie'') (lit ''new'') demo_change (lit ''digest'') k \<and> policy_ok (policy_row tid t)"
proof -
  obtain r db' cdb' where "change demo_edit 10 (lit ''random'') (lit ''t1'') demo_editing (lit ''cookie'') (lit ''new'') demo_change True demo_editor demo_classes = Inr (r, db', cdb')"
    using demo_changed by blast
  from token_change_confirmed [OF demo_editor_ok this] show ?thesis by (auto simp: demo_edit_def)
qed

section \<open>MCP requests\<close>

text \<open>An OAuth bearer accepted by the built-in server: on the management path for its management resource, on \<^verbatim>\<open>/mcp\<close> when it is the issuer.\<close>

definition builtin_accepts :: "mcp_auth \<Rightarrow> http_request \<Rightarrow> auth_principal \<Rightarrow> bool" where
  "builtin_accepts m rq p \<longleftrightarrow> (\<exists>bo b. ma_builtin m = Some bo \<and> bearer_token rq = Some b \<and> sql_count (\<lambda>c. c = 46) b = 2
     \<and> (rq_path rq = lit ''/mcp/manage'' \<and> bo_management bo \<and> bo_verify bo b (Some (bo_resource bo)) = Inr p
        \<or> rq_path rq = lit ''/mcp'' \<and> length b \<le> 16384 \<and> bo_issuer bo \<noteq> [] \<and> ma_issuer m b = Some (bo_issuer bo) \<and> bo_verify bo b None = Inr p))"

text \<open>A bearer of another issuer: a verified identity, linked to an active user with a live grant for its client.\<close>

definition external_accepts :: "rat \<Rightarrow> mcp_auth \<Rightarrow> http_request \<Rightarrow> auth_db \<Rightarrow> auth_principal \<Rightarrow> bool" where
  "external_accepts now m rq db p \<longleftrightarrow> (\<exists>b vf xdb i g u. rq_path rq = lit ''/mcp'' \<and> bearer_token rq = Some b \<and> sql_count (\<lambda>c. c = 46) b = 2
     \<and> ma_verify m = Some vf \<and> ma_external m = Some xdb \<and> vf b = Inr i
     \<and> (\<forall>bo. ma_builtin m = Some bo \<and> length b \<le> 16384 \<and> bo_issuer bo \<noteq> [] \<longrightarrow> ma_issuer m b \<noteq> Some (bo_issuer bo))
     \<and> resolve_subject (user_statuses db) (ei_issuer i) (ei_subject i) xdb = Inr (p_id p) \<and> get_active_grant now (p_id p) (ei_client i) xdb = Inr g
     \<and> find_user db (p_id p) = Some u \<and> u_status u = lit ''active'' \<and> \<not> u_must_change u \<and> p_roles p = roles_for_user (au_access db) (p_id p) \<and> p_roles p \<noteq> []
     \<and> external_grant_id p = Some (eg_id g) \<and> p_scopes p = ei_scopes i \<and> delegated_scopes p = Some (delegated_ceilings (gp_access (eg_payload g)))
     \<and> external_expires_at p = Some (At (min (ei_expires i) (gp_expires (eg_payload g)))))"

lemma guardedD: "guarded x r = Inr p \<Longrightarrow> r = Inr p"
  by (auto simp: guarded_def split: sum.splits auth_error.splits)

lemma authenticate_externalD:
  assumes "authenticate_external now m rq b db = Inr p"
  obtains vf xdb i g u where "rq_path rq = lit ''/mcp''" "ma_verify m = Some vf" "ma_external m = Some xdb" "vf b = Inr i"
    "resolve_subject (user_statuses db) (ei_issuer i) (ei_subject i) xdb = Inr (p_id p)" "get_active_grant now (p_id p) (ei_client i) xdb = Inr g"
    "find_user db (p_id p) = Some u" "u_status u = lit ''active''" "\<not> u_must_change u" "p_roles p = roles_for_user (au_access db) (p_id p)" "p_roles p \<noteq> []"
    "external_grant_id p = Some (eg_id g)" "p_scopes p = ei_scopes i" "delegated_scopes p = Some (delegated_ceilings (gp_access (eg_payload g)))"
    "external_expires_at p = Some (At (min (ei_expires i) (gp_expires (eg_payload g))))"
proof -
  obtain vf xdb where v: "ma_verify m = Some vf" "ma_external m = Some xdb"
    using assms by (auto simp: authenticate_external_def Let_def split: option.splits)
  have path: "rq_path rq = lit ''/mcp''" using assms v by (auto simp: authenticate_external_def Let_def split: if_splits)
  obtain i where i: "vf b = Inr i" using assms v path by (cases "vf b") (auto simp: authenticate_external_def)
  obtain uid where uid: "resolve_subject (user_statuses db) (ei_issuer i) (ei_subject i) xdb = Inr uid"
    using assms v path i by (cases "resolve_subject (user_statuses db) (ei_issuer i) (ei_subject i) xdb") (auto simp: authenticate_external_def)
  obtain g where g: "get_active_grant now uid (ei_client i) xdb = Inr g"
    using assms v path i uid by (cases "get_active_grant now uid (ei_client i) xdb") (auto simp: authenticate_external_def)
  obtain u where u: "find_user db uid = Some u" using assms v path i uid g by (cases "find_user db uid") (auto simp: authenticate_external_def)
  have act: "u_status u = lit ''active''" using assms v path i uid g u by (auto simp: authenticate_external_def split: if_splits)
  have "bindR (build_auth_principal db u (lit ''oauth'') None (ei_scopes i)) (\<lambda>p. enforce_password_change (external_principal p i g) rq) = Inr p"
    using assms v path i uid g u act by (simp add: authenticate_external_def)
  then obtain q where q: "build_auth_principal db u (lit ''oauth'') None (ei_scopes i) = Inr q" "enforce_password_change (external_principal q i g) rq = Inr p" by auto
  note b = build_principalD [OF q(1)] and en = enforceD [OF q(2)]
  have p: "p = external_principal q i g" using en by simp
  have f: "p_id p = p_id q" "p_roles p = p_roles q" "must_change_password p = must_change_password q" "p_scopes p = p_scopes q" "external_grant_id p = Some (eg_id g)"
    "delegated_scopes p = Some (delegated_ceilings (gp_access (eg_payload g)))" "external_expires_at p = Some (At (min (ei_expires i) (gp_expires (eg_payload g))))"
    by (simp_all add: p external_principal_def Let_def)
  have id: "p_id p = uid" using b f(1) find_userD [OF u] by simp
  have "\<not> u_must_change u" using en path b p f(3) by auto
  moreover have "p_roles p = roles_for_user (au_access db) (p_id p) \<and> p_roles p \<noteq> [] \<and> p_scopes p = ei_scopes i" using b f(2,4) id find_userD [OF u] by metis
  ultimately show thesis using that [OF path v i, of g u] uid [folded id] g [folded id] u [folded id] act f(5-7) by blast
qed

text \<open>
  C7: an MCP request is authenticated in one of three ways and never by falling back from one to another.  With authentication on, a principal is either what the
  built-in OAuth server verified for that very path and resource; or, without a header or with a personal token, and not on the management
  path, what ordinary authentication gives; or, on \<^verbatim>\<open>/mcp\<close> for a bearer of another issuer, an identity the external verifier
  accepted, linked to an active user with a live grant for its client, narrowed to that grant's access and expiry.
\<close>

theorem mcp_request_authenticated:
  assumes "as_enabled st" "fst (authenticate_mcp_request e st de cdb now m rq db) = Inr p"
  shows "builtin_accepts m rq p \<or> external_accepts now m rq db p
     \<or> rq_path rq \<noteq> lit ''/mcp/manage'' \<and> (rq_authorization rq = None \<or> (\<exists>b. bearer_token rq = Some b \<and> starts_with b (lit ''lgt_'')))
         \<and> fst (authenticate_request e st de cdb now rq db) = Inr p"
proof -
  define jwt where "jwt = (case bearer_token rq of None \<Rightarrow> None | Some b \<Rightarrow> if sql_count (\<lambda>c. c = 46) b = 2 then Some b else None)"
  note d = assms(2) [unfolded authenticate_mcp_request_def Let_def, folded jwt_def]
  have j: "bearer_token rq = Some b \<and> sql_count (\<lambda>c. c = 46) b = 2" if "jwt = Some b" for b
    using that unfolding jwt_def by (auto split: option.splits if_splits)
  show ?thesis
  proof (cases "rq_path rq = lit ''/mcp/manage''")
    case True
    obtain bo where bo: "ma_builtin m = Some bo" "bo_management bo" using d True assms(1) by (auto split: option.splits if_splits)
    obtain b where b: "jwt = Some b" using d True assms(1) bo by (auto split: option.splits)
    have "bo_verify bo b (Some (bo_resource bo)) = Inr p" using d True assms(1) bo b by (auto dest: guardedD)
    then have "builtin_accepts m rq p" unfolding builtin_accepts_def using True bo j [OF b] by metis
    then show ?thesis by blast
  next
    case path: False
    show ?thesis
    proof (cases "rq_authorization rq = None \<or> (\<exists>b. bearer_token rq = Some b \<and> starts_with b (lit ''lgt_''))")
      case True
      then have "fst (authenticate_request e st de cdb now rq db) = Inr p" using d path assms(1) by (auto split: option.splits if_splits)
      then show ?thesis using True path by blast
    next
      case False
      then have no: "rq_authorization rq \<noteq> None" "\<not> (case bearer_token rq of None \<Rightarrow> False | Some b \<Rightarrow> starts_with b (lit ''lgt_''))" by (auto split: option.splits)
      obtain b where b: "jwt = Some b" using d path assms(1) no by (auto split: option.splits)
      define mine where "mine = (\<exists>bo. ma_builtin m = Some bo \<and> length b \<le> 16384 \<and> bo_issuer bo \<noteq> [] \<and> ma_issuer m b = Some (bo_issuer bo))"
      show ?thesis
      proof (cases mine)
        case True
        then obtain bo where bo: "ma_builtin m = Some bo" "length b \<le> 16384" "bo_issuer bo \<noteq> []" "ma_issuer m b = Some (bo_issuer bo)" unfolding mine_def by blast
        have "rq_path rq = lit ''/mcp'' \<and> bo_verify bo b None = Inr p" using d path assms(1) no b bo by (auto split: if_splits dest: guardedD)
        then have "builtin_accepts m rq p" unfolding builtin_accepts_def using bo j [OF b] by metis
        then show ?thesis by blast
      next
        case other: False
        have "authenticate_external now m rq b db = Inr p"
        proof (cases "if length b \<le> 16384 then ma_builtin m else None")
          case None
          then show ?thesis using d path assms(1) no b by simp
        next
          case (Some bo)
          then have "ma_builtin m = Some bo" "length b \<le> 16384" by (auto split: if_splits)
          then have "\<not> (case ma_issuer m b of None \<Rightarrow> False | Some i \<Rightarrow> i \<noteq> [] \<and> i = bo_issuer bo)" using other unfolding mine_def by (auto split: option.splits)
          then show ?thesis using d path assms(1) no b Some by simp
        qed
        then have "external_accepts now m rq db p"
        proof (rule authenticate_externalD)
          fix vf xdb i g u
          assume f: "rq_path rq = lit ''/mcp''" "ma_verify m = Some vf" "ma_external m = Some xdb" "vf b = Inr i"
            "resolve_subject (user_statuses db) (ei_issuer i) (ei_subject i) xdb = Inr (p_id p)" "get_active_grant now (p_id p) (ei_client i) xdb = Inr g"
            "find_user db (p_id p) = Some u" "u_status u = lit ''active''" "\<not> u_must_change u" "p_roles p = roles_for_user (au_access db) (p_id p)" "p_roles p \<noteq> []"
            "external_grant_id p = Some (eg_id g)" "p_scopes p = ei_scopes i" "delegated_scopes p = Some (delegated_ceilings (gp_access (eg_payload g)))"
            "external_expires_at p = Some (At (min (ei_expires i) (gp_expires (eg_payload g))))"
          have "\<forall>bo. ma_builtin m = Some bo \<and> length b \<le> 16384 \<and> bo_issuer bo \<noteq> [] \<longrightarrow> ma_issuer m b \<noteq> Some (bo_issuer bo)" using other unfolding mine_def by blast
          then show ?thesis unfolding external_accepts_def using f j [OF b]
            by (intro exI [of _ b] exI [of _ vf] exI [of _ xdb] exI [of _ i] exI [of _ g] exI [of _ u]) blast
        qed
        then show ?thesis by blast
      qed
    qed
  qed
qed

theorem mcp_request_authenticated_witness:
  "\<exists>p. (let m = \<lparr>ma_builtin = Some \<lparr>bo_management = True, bo_resource = lit ''manage'', bo_issuer = lit ''gate'', bo_verify = (\<lambda>b r. Inr disabled_principal)\<rparr>,
              ma_issuer = (\<lambda>b. Some (lit ''gate'')), ma_external = None, ma_verify = None\<rparr>;
            rq = demo_request\<lparr>rq_path := lit ''/mcp/manage'', rq_authorization := Some (lit ''Bearer a.b.c'')\<rparr>
        in fst (authenticate_mcp_request demo_auth_env demo_settings demo_decision_env demo_classes 3 m rq demo_auth) = Inr p \<and> builtin_accepts m rq p)"
proof -
  define m where "m = \<lparr>ma_builtin = Some \<lparr>bo_management = True, bo_resource = lit ''manage'', bo_issuer = lit ''gate'', bo_verify = (\<lambda>b r. Inr disabled_principal)\<rparr>,
              ma_issuer = (\<lambda>b. Some (lit ''gate'')), ma_external = None, ma_verify = None\<rparr>"
  define rq where "rq = demo_request\<lparr>rq_path := lit ''/mcp/manage'', rq_authorization := Some (lit ''Bearer a.b.c'')\<rparr>"
  have b: "bearer_token rq = Some (lit ''a.b.c'')"
    by (simp add: rq_def bearer_token_def demo_request_def Let_def starts_with_def lower_def lower_char_def strip_def strip_by_def lit_def py_space_def)
  have dots: "sql_count (\<lambda>c. c = 46) (lit ''a.b.c'') = 2" unfolding sql_count_def lit_def by simp
  have a: "fst (authenticate_mcp_request demo_auth_env demo_settings demo_decision_env demo_classes 3 m rq demo_auth) = Inr disabled_principal"
    by (simp add: authenticate_mcp_request_def b Let_def) (simp add: rq_def m_def demo_settings_def guarded_def, rule dots)
  have "as_enabled demo_settings" "rq_path rq = lit ''/mcp/manage''" by (simp_all add: demo_settings_def rq_def)
  then have "builtin_accepts m rq disabled_principal" using mcp_request_authenticated [OF _ a] unfolding external_accepts_def by auto
  then show ?thesis unfolding Let_def m_def [symmetric] rq_def [symmetric] using a by blast
qed

end
