(* ===== verification/Node_Toolchain.thy ===== *)
theory Node_Toolchain
  imports Tool_Invocation
begin

text \<open>
  \<^verbatim>\<open>node_toolchain.py\<close>: which package manager, exact version and lockfile a Node project is built
  with.  The module only inspects: the project's \<^verbatim>\<open>package.json\<close> and the tool probe are values,
  the lockfiles are read through the fields of \<open>toolchain_env\<close>.  The lemmas show that an
  inspection without errors pins a supported exact version, a lockfile of the chosen manager
  that could be parsed, and the preparation the build plan later checks again.
\<close>

section \<open>Python values\<close>

text \<open>
  The exceptions the modules of the build pipeline can raise on ill-typed JSON.  \<^verbatim>\<open>str\<close> of a
  float or of a container is the parameter \<open>rp\<close>.
\<close>

datatype py_exc = Py_value_error pystr | Py_type_error | Py_key_error | Py_attribute_error

definition py_str :: "(pyval \<Rightarrow> pystr) \<Rightarrow> pyval \<Rightarrow> pystr" where
  "py_str rp v =
     (case v of PStr s \<Rightarrow> s | PNone \<Rightarrow> lit ''None'' | PBool b \<Rightarrow> if b then lit ''True'' else lit ''False''
      | PInt i \<Rightarrow> int_str i | _ \<Rightarrow> rp v)"

text \<open>\<^verbatim>\<open>str(v or default)\<close>, \<^verbatim>\<open>v or {}\<close> as the receiver of \<^verbatim>\<open>.get\<close>, and an object literal.\<close>

definition text_or :: "(pyval \<Rightarrow> pystr) \<Rightarrow> pyval \<Rightarrow> pystr \<Rightarrow> pystr" where
  "text_or rp v dflt = (if truthy v then py_str rp v else dflt)"

definition or_dict :: "pyval \<Rightarrow> py_exc + dict" where
  "or_dict v = (if \<not> truthy v then Inr [] else case v of PDict d \<Rightarrow> Inr d | _ \<Rightarrow> Inl Py_attribute_error)"

definition keyed :: "(string \<times> pyval) list \<Rightarrow> dict" where
  "keyed kvs = map (\<lambda>(k, v). (PStr (lit k), v)) kvs"

definition obj :: "(string \<times> pyval) list \<Rightarrow> pyval" where
  "obj kvs = PDict (keyed kvs)"

definition text_list :: "pystr list \<Rightarrow> pyval" where
  "text_list xs = PList (map PStr xs)"

definition remove_prefix :: "pystr \<Rightarrow> pystr \<Rightarrow> pystr" where
  "remove_prefix p s = (if starts_with s p then drop (length p) s else s)"

text \<open>
  \<^verbatim>\<open>\d\<close> matches every decimal digit of Unicode and \<^verbatim>\<open>int\<close> reads them; the table lists the zero of
  each decade (Unicode 14.0, Python 3.11).  \<^verbatim>\<open>int\<close> refuses others than 4300 digits.  \<open>py_int\<close> is only
  applied to non-empty texts of such digits.
\<close>

definition DECIMAL_ZEROS :: "nat list" where
  "DECIMAL_ZEROS =
     [48, 1632, 1776, 1984, 2406, 2534, 2662, 2790, 2918, 3046, 3174, 3302, 3430, 3558, 3664, 3792, 3872, 4160, 4240,
      6112, 6160, 6470, 6608, 6784, 6800, 6992, 7088, 7232, 7248, 42528, 43216, 43264, 43472, 43504, 43600, 44016,
      65296, 66720, 68912, 69734, 69872, 69942, 70096, 70384, 70736, 70864, 71248, 71360, 71472, 71904, 72016, 72784,
      73040, 73120, 92768, 92864, 93008, 120782, 120792, 120802, 120812, 120822, 123200, 123632, 125264, 130032]"

definition decimal :: "nat \<Rightarrow> nat option" where
  "decimal c = map_option (\<lambda>z. c - z) (find (\<lambda>z. z \<le> c \<and> c \<le> z + 9) DECIMAL_ZEROS)"

definition decimals :: "pystr \<Rightarrow> bool" where
  "decimals s \<longleftrightarrow> s \<noteq> [] \<and> list_all (\<lambda>c. decimal c \<noteq> None) s"

definition py_int :: "pystr \<Rightarrow> py_exc + nat" where
  "py_int s =
     (if length s > INT_MAX_STR_DIGITS then Inl (Py_value_error (lit ''Exceeds the limit (4300 digits) for integer string conversion''))
      else Inr (foldl (\<lambda>n c. 10 * n + (case decimal c of None \<Rightarrow> 0 | Some k \<Rightarrow> k)) 0 s))"

section \<open>Versions\<close>

definition LOCKS :: "(pystr \<times> pystr) list" where
  "LOCKS = [(lit ''package-lock.json'', lit ''npm''), (lit ''npm-shrinkwrap.json'', lit ''npm''),
            (lit ''pnpm-lock.yaml'', lit ''pnpm''), (lit ''yarn.lock'', lit ''yarn'')]"

definition SUPPORTED_MAJORS :: "pystr \<Rightarrow> nat list" where
  "SUPPORTED_MAJORS name =
     (case map_of [(lit ''npm'', [9, 10, 11]), (lit ''pnpm'', [8, 9, 10, 11]), (lit ''yarn'', [1])] name of
        None \<Rightarrow> [] | Some ms \<Rightarrow> ms)"

definition DEFAULT_VERSIONS :: "pystr \<rightharpoonup> pystr" where
  "DEFAULT_VERSIONS = map_of [(lit ''npm'', lit ''11.6.0''), (lit ''pnpm'', lit ''9.15.4''), (lit ''yarn'', lit ''1.22.22'')]"

definition INSTALL_COMMANDS :: "pystr \<rightharpoonup> pystr list" where
  "INSTALL_COMMANDS = map_of
     [(lit ''npm'', map lit [''npm'', ''ci'']), (lit ''pnpm'', map lit [''pnpm'', ''install'', ''--frozen-lockfile'']),
      (lit ''yarn'', map lit [''yarn'', ''install'', ''--frozen-lockfile''])]"

text \<open>\<^verbatim>\<open>VERSION.fullmatch\<close>: the three groups.\<close>

definition version_parts :: "pystr \<Rightarrow> (pystr \<times> pystr \<times> pystr) option" where
  "version_parts s =
     (case split_on 46 s of
        [a, b, c] \<Rightarrow> if decimals a \<and> decimals b \<and> decimals c then Some (a, b, c) else None
      | _ \<Rightarrow> None)"

definition supported_version :: "pystr \<Rightarrow> pystr \<Rightarrow> py_exc + bool" where
  "supported_version name version =
     (case version_parts version of
        None \<Rightarrow> Inr False
      | Some (a, b, c) \<Rightarrow> bindR (py_int a) (\<lambda>major.
          if major \<notin> set (SUPPORTED_MAJORS name) then Inr False
          else if name \<noteq> lit ''yarn'' then Inr True
          else bindR (py_int b) (\<lambda>minor. Inr (minor = 22))))"

definition node_requirement :: "pystr \<Rightarrow> pystr \<Rightarrow> pystr" where
  "node_requirement name version =
     (if name = lit ''pnpm'' \<and> version_parts version \<noteq> None \<and> starts_with version (lit ''11.'') then lit ''>=22.13''
      else lit ''verify_official_engines'')"

definition node_version_supported :: "pystr \<Rightarrow> pystr \<Rightarrow> pystr \<Rightarrow> py_exc + bool" where
  "node_version_supported name version node_version =
     (if node_requirement name version \<noteq> lit ''>=22.13'' then Inr True
      else case version_parts (remove_prefix (lit ''v'') node_version) of
        None \<Rightarrow> Inr False
      | Some (a, b, c) \<Rightarrow> bindR (py_int a) (\<lambda>x. bindR (py_int b) (\<lambda>y. bindR (py_int c) (\<lambda>z.
          Inr (x > 22 \<or> x = 22 \<and> (y > 13 \<or> y = 13 \<and> z \<ge> 0))))))"

section \<open>The saved override\<close>

record toolchain_override =
  ov_name :: pystr
  ov_version :: pystr
  ov_lockfile :: "pystr option"

definition NodeToolchainOverride :: "pystr \<Rightarrow> pystr \<Rightarrow> pystr option \<Rightarrow> py_exc + toolchain_override" where
  "NodeToolchainOverride name version lockfile =
     (if name \<notin> {lit ''npm'', lit ''pnpm'', lit ''yarn''} \<or> version_parts version = None \<or> length version > 32
         \<or> (case lockfile of None \<Rightarrow> False | Some l \<Rightarrow> map_of LOCKS l = None)
      then Inl (Py_value_error (lit ''validation error''))
      else bindR (supported_version name version) (\<lambda>ok.
        if \<not> ok then Inl (Py_value_error (lit ''Requested package manager version is unsupported''))
        else if (case lockfile of None \<Rightarrow> False | Some l \<Rightarrow> map_of LOCKS l \<noteq> Some name)
        then Inl (Py_value_error (lit ''Selected lockfile belongs to another package manager''))
        else Inr \<lparr>ov_name = name, ov_version = version, ov_lockfile = lockfile\<rparr>))"

section \<open>Preparation of an exact tool\<close>

definition hex_char :: "nat \<Rightarrow> bool" where
  "hex_char c \<longleftrightarrow> 48 \<le> c \<and> c \<le> 57 \<or> 65 \<le> c \<and> c \<le> 70 \<or> 97 \<le> c \<and> c \<le> 102"

text \<open>\<^verbatim>\<open>sha(224|256|384|512)\.([a-fA-F0-9]+)\<close> with the length of the digest.\<close>

definition integrity_ok :: "pystr \<Rightarrow> bool" where
  "integrity_ok s \<longleftrightarrow>
     list_ex (\<lambda>(p, bits). starts_with s (lit p) \<and> (let digest = drop 7 s in
         digest \<noteq> [] \<and> list_all hex_char digest \<and> length digest = bits div 4))
       [(''sha224.'', 224), (''sha256.'', 256), (''sha384.'', 384), (''sha512.'', 512)]"

definition preparation_object :: "pystr \<Rightarrow> pystr \<Rightarrow> pyval \<Rightarrow> pyval" where
  "preparation_object name version declared_integrity = obj
     [(''name'', PStr name), (''version'', PStr version), (''method'', PStr (lit ''official_distribution'')),
      (''official_metadata_url'', PStr (lit ''https://registry.npmjs.org/'' @ name @ lit ''/'' @ version)),
      (''integrity_policy'', PStr (lit ''verify_official_sha512_before_extract'')),
      (''declared_integrity'', declared_integrity),
      (''cache_key_fields'', text_list (map lit [''name'', ''version'', ''source_integrity''])),
      (''node_engine_policy'', PStr (lit ''verify_official_engines'')),
      (''node_requirement'', PStr (node_requirement name version)),
      (''unplanned_tool_downloads'', PBool False), (''corepack_required'', PBool False), (''execute_lifecycle'', PBool False),
      (''limits'', obj [(''timeout_seconds'', PInt 120), (''metadata_bytes'', PInt (1024 * 1024)),
         (''archive_bytes'', PInt (50 * 1024 * 1024)), (''expanded_bytes'', PInt (200 * 1024 * 1024)),
         (''files'', PInt 4000), (''retries'', PInt 0)])]"

definition tool_preparation :: "pystr \<Rightarrow> pystr \<Rightarrow> pyval \<Rightarrow> py_exc + pyval" where
  "tool_preparation name version declared_integrity =
     bindR (supported_version name version) (\<lambda>ok.
       if \<not> ok then Inl (Py_value_error (lit ''Unsupported package manager preparation''))
       else if truthy declared_integrity then
         (case declared_integrity of
            PStr s \<Rightarrow> if integrity_ok s then Inr (preparation_object name version declared_integrity)
                      else Inl (Py_value_error (lit ''Unsupported packageManager integrity pin''))
          | _ \<Rightarrow> Inl Py_type_error)
       else Inr (preparation_object name version declared_integrity))"

section \<open>The entry point of \<^verbatim>\<open>bin\<close>\<close>

text \<open>\<^verbatim>\<open>PurePosixPath\<close>: root, parts, text and suffix of a path (the suffix as in Python 3.11 to 3.13).\<close>

definition posix_root :: "pystr \<Rightarrow> pystr" where
  "posix_root s =
     (if starts_with s (lit ''//'') \<and> \<not> starts_with s (lit ''///'') then lit ''//''
      else if starts_with s (lit ''/'') then lit ''/'' else [])"

definition posix_parts :: "pystr \<Rightarrow> pystr list" where
  "posix_parts s = filter (\<lambda>p. p \<noteq> [] \<and> p \<noteq> lit ''.'') (split_on 47 s)"

definition as_posix :: "pystr \<Rightarrow> pystr" where
  "as_posix s = (let t = posix_root s @ join_with (lit ''/'') (posix_parts s) in if t = [] then lit ''.'' else t)"

definition path_suffix :: "pystr \<Rightarrow> pystr" where
  "path_suffix s =
     (let name = (if posix_parts s = [] then [] else last (posix_parts s));
          ending = rev (takeWhile (\<lambda>c. c \<noteq> 46) (rev name))
      in if ending \<noteq> [] \<and> length ending + 1 < length name then 46 # ending else [])"

definition node_bin_entrypoint :: "dict \<Rightarrow> pystr" where
  "node_bin_entrypoint package =
     (let raw = dict_get_none package (lit ''bin'');
          values = (case raw of PStr _ \<Rightarrow> [raw] | PDict d \<Rightarrow> map snd d | _ \<Rightarrow> [])
      in case values of
           PStr first # _ \<Rightarrow>
             if list_ex (\<lambda>v. v \<noteq> PStr first) values then []
             else (let value = remove_prefix (lit ''./'') first in
               if posix_root value \<noteq> [] \<or> starts_with value (lit ''-'') \<or> as_posix value \<noteq> value
                  \<or> lit ''..'' \<in> set (posix_parts value) \<or> lit ''.git'' \<in> set (posix_parts value)
                  \<or> 58 \<in> set value \<or> 92 \<in> set value \<or> list_ex (\<lambda>c. c < 32) value then []
               else if path_suffix value \<in> {lit ''.js'', lit ''.cjs'', lit ''.mjs''} then value else [])
         | _ \<Rightarrow> [])"

section \<open>Lockfiles\<close>

record toolchain_env =
  te_repr :: "pyval \<Rightarrow> pystr"
  te_symlink :: "pystr \<Rightarrow> bool"
  te_size :: "pystr \<Rightarrow> nat option"
  te_bytes :: "pystr \<Rightarrow> nat list option"
  te_json :: "nat list \<Rightarrow> pyval option"
  te_yaml :: "nat list \<Rightarrow> pyval option"
  te_sha256 :: "nat list \<Rightarrow> pystr"

definition is_infix :: "nat list \<Rightarrow> nat list \<Rightarrow> bool" where
  "is_infix p s \<longleftrightarrow> list_ex (\<lambda>i. starts_with (drop i s) p) [0..<Suc (length s)]"

definition lockfile_version :: "toolchain_env \<Rightarrow> pyval option \<Rightarrow> pystr option" where
  "lockfile_version e parsed =
     (case parsed of
        Some (PDict d) \<Rightarrow> Some (py_str (te_repr e) (case dict_get d (lit ''lockfileVersion'') of None \<Rightarrow> PStr [] | Some v \<Rightarrow> v))
      | _ \<Rightarrow> None)"

text \<open>
  \<^verbatim>\<open>_read_lockfile\<close>; every exception it can raise is in the list its callers catch, so the
  result is an option.
\<close>

definition lock_text_version :: "toolchain_env \<Rightarrow> nat list \<Rightarrow> pystr \<Rightarrow> pystr \<Rightarrow> pystr option" where
  "lock_text_version e content name version =
     (if name = lit ''npm'' then
        (case lockfile_version e (te_json e content) of
           None \<Rightarrow> None
         | Some v \<Rightarrow> if v \<in> {lit ''2'', lit ''3''} then Some v else None)
      else if name = lit ''pnpm'' then
        (case lockfile_version e (te_yaml e content) of
           None \<Rightarrow> None
         | Some v \<Rightarrow>
             (case py_int (hd (split_on 46 version)) of
                Inl _ \<Rightarrow> None
              | Inr major \<Rightarrow>
                  if major = 8 \<and> v \<notin> {lit ''6'', lit ''6.0''} \<or> major \<in> {9, 10, 11} \<and> v \<notin> {lit ''9'', lit ''9.0''}
                     \<or> major \<notin> {8, 9, 10, 11} then None
                  else Some v))
      else if is_infix (lit ''# yarn lockfile v1'') (take 2048 content) \<and> \<not> is_infix (lit ''__metadata:'') content
      then Some (lit ''1'') else None)"

definition read_lockfile :: "toolchain_env \<Rightarrow> pystr \<Rightarrow> pystr \<Rightarrow> pystr \<Rightarrow> (pystr \<times> pystr) option" where
  "read_lockfile e lockfile name version =
     (if te_symlink e lockfile then None
      else case te_size e lockfile of
        None \<Rightarrow> None
      | Some n \<Rightarrow> if n > 4 * 1024 * 1024 then None
          else case te_bytes e lockfile of
            None \<Rightarrow> None
          | Some content \<Rightarrow> map_option (\<lambda>v. (te_sha256 e content, v)) (lock_text_version e content name version))"

section \<open>Inspection\<close>

definition integrity_char :: "nat \<Rightarrow> bool" where
  "integrity_char c \<longleftrightarrow> alnum c \<or> c = 43 \<or> c = 47 \<or> c = 61"

text \<open>
  \<^verbatim>\<open>DECLARATION.fullmatch\<close>: name, version and the text after the first \<^verbatim>\<open>+\<close>.  Neither name nor
  version can hold \<^verbatim>\<open>@\<close> or \<^verbatim>\<open>+\<close>, so the match is unique.
\<close>

definition match_declaration :: "pystr \<Rightarrow> (pystr \<times> pystr \<times> pystr option) option" where
  "match_declaration s =
     (let name = takeWhile (\<lambda>c. c \<noteq> 64) s; rest = drop (Suc (length name)) s;
          version = takeWhile (\<lambda>c. c \<noteq> 43) rest; pin = drop (Suc (length version)) rest
      in if 64 \<notin> set s \<or> name \<notin> {lit ''npm'', lit ''pnpm'', lit ''yarn''} \<or> version_parts version = None then None
         else if 43 \<notin> set rest then Some (name, version, None)
         else if list_ex (\<lambda>p. starts_with pin (lit p)) [''sha224.'', ''sha256.'', ''sha384.'', ''sha512.'']
                 \<and> drop 7 pin \<noteq> [] \<and> list_all integrity_char (drop 7 pin)
         then Some (name, version, Some pin) else None)"

text \<open>\<^verbatim>\<open>LOCKS[lock]\<close> and \<^verbatim>\<open>DEFAULT_VERSIONS[name]\<close>, which are only looked up at their own keys.\<close>

definition the_default :: "'a \<Rightarrow> 'a option \<Rightarrow> 'a" where
  "the_default d x = (case x of None \<Rightarrow> d | Some v \<Rightarrow> v)"

definition lock_manager :: "pystr \<Rightarrow> pystr" where
  "lock_manager l = the_default [] (map_of LOCKS l)"

definition detected_lockfiles :: "pystr list \<Rightarrow> pystr list" where
  "detected_lockfiles files = sort (filter (\<lambda>l. l \<in> set files) (map fst LOCKS))"

text \<open>The first part of \<^verbatim>\<open>inspect_node_toolchain\<close>: which manager and which lockfile.\<close>

record manager_choice =
  mc_detected :: "pystr list"
  mc_matched :: "(pystr \<times> pystr \<times> pystr option) option"
  mc_integrity :: "pystr option"
  mc_name :: pystr
  mc_selected_by :: pystr
  mc_lockfile :: pystr
  mc_errors :: "pystr list"
  mc_warnings :: "pystr list"

definition when_true :: "bool \<Rightarrow> pystr \<Rightarrow> pystr list" where
  "when_true b message = (if b then [message] else [])"

definition declared_manager :: "toolchain_env \<Rightarrow> dict \<Rightarrow> (pystr \<times> pystr \<times> pystr option) option" where
  "declared_manager e package =
     (let declaration = dict_get_none package (lit ''packageManager'') in
      if declaration = PNone then None else match_declaration (py_str (te_repr e) declaration))"

definition chosen_name :: "toolchain_override option \<Rightarrow> (pystr \<times> pystr \<times> pystr option) option \<Rightarrow> pystr list \<Rightarrow> pystr" where
  "chosen_name ov matched managers =
     (case ov of
        Some o' \<Rightarrow> ov_name o'
      | None \<Rightarrow> (case matched of Some (n, _, _) \<Rightarrow> n | None \<Rightarrow> if length managers = 1 then hd managers else lit ''npm''))"

definition chosen_lockfile :: "toolchain_override option \<Rightarrow> pystr list \<Rightarrow> pystr" where
  "chosen_lockfile ov matching =
     (case Option.bind ov ov_lockfile of
        Some l \<Rightarrow> l
      | None \<Rightarrow> if lit ''npm-shrinkwrap.json'' \<in> set matching then lit ''npm-shrinkwrap.json''
                else if matching \<noteq> [] then hd matching else [])"

definition INEXACT :: pystr where
  "INEXACT = lit ''packageManager is not an exact supported declaration; an explicit project override is required''"

text \<open>The errors in the order in which they are appended.\<close>

definition selection_errors :: "toolchain_override option \<Rightarrow> bool \<Rightarrow> bool \<Rightarrow> pystr option \<Rightarrow> nat \<Rightarrow> pystr \<Rightarrow> pystr
      \<Rightarrow> pystr list \<Rightarrow> pystr list \<Rightarrow> pystr list" where
  "selection_errors ov declared exact declared_integrity managers name lockfile detected matching =
     when_true (\<exists>i\<in>set_option declared_integrity. \<not> integrity_ok i)
       (lit ''packageManager integrity must be a supported exact hexadecimal digest'')
     @ when_true (declared \<and> \<not> exact \<and> ov = None) INEXACT
     @ when_true (ov = None \<and> \<not> exact \<and> managers > 1)
         (lit ''Ambiguous dependency lockfiles: select a recommended project override'')
     @ when_true (lockfile \<noteq> [] \<and> lockfile \<notin> set detected)
         (lit ''Selected dependency lockfile does not exist in this project root'')
     @ when_true (name = lit ''npm'' \<and> lockfile = lit ''package-lock.json'' \<and> lit ''npm-shrinkwrap.json'' \<in> set matching)
         (lit ''npm uses npm-shrinkwrap.json when present; select its native precedence'')
     @ when_true (detected \<noteq> [] \<and> matching = [])
         (lit ''packageManager conflicts with the dependency lockfile; select an explicit project override'')"

definition select_manager :: "toolchain_env \<Rightarrow> dict \<Rightarrow> pystr list \<Rightarrow> toolchain_override option \<Rightarrow> manager_choice" where
  "select_manager e package files ov =
     (let detected = detected_lockfiles files;
          declared = (dict_get_none package (lit ''packageManager'') \<noteq> PNone);
          matched = declared_manager e package;
          pinned = (case matched of Some (_, _, pin) \<Rightarrow> pin | None \<Rightarrow> None);
          declared_integrity = (if ov = None then pinned else None);
          managers = remdups (map lock_manager detected);
          name = chosen_name ov matched managers;
          selected_by = (if ov \<noteq> None then lit ''project_override'' else if matched \<noteq> None then lit ''packageManager''
                         else if detected \<noteq> [] then lit ''lockfile'' else lit ''default_policy'');
          matching = filter (\<lambda>l. lock_manager l = name) detected;
          lockfile = chosen_lockfile ov matching;
          errors = selection_errors ov declared (matched \<noteq> None) declared_integrity (length managers) name lockfile detected matching;
          warnings =
            when_true (declared \<and> matched = None \<and> ov \<noteq> None) INEXACT
            @ when_true (\<exists>o'\<in>set_option ov. \<exists>(n, v, _)\<in>set_option matched. (ov_name o', ov_version o') \<noteq> (n, v))
                (lit ''Explicit saved project override takes precedence over packageManager'')
            @ when_true (ov \<noteq> None \<and> pinned \<noteq> None)
                (lit ''Explicit project override replaces the declared integrity pin; official distribution verification remains required'')
            @ when_true (length detected > 1 \<and> errors = [])
                (lit ''Selected '' @ lockfile @ lit ''; other lockfiles are preserved and are not consumed by this build'')
      in \<lparr>mc_detected = detected, mc_matched = matched, mc_integrity = declared_integrity, mc_name = name,
          mc_selected_by = selected_by, mc_lockfile = lockfile, mc_errors = errors, mc_warnings = warnings\<rparr>)"

text \<open>The second part: the exact version, and whether the tool must be prepared.\<close>

record version_choice =
  vc_observed :: pystr
  vc_version :: pystr
  vc_prepare :: bool
  vc_errors :: "pystr list"
  vc_warnings :: "pystr list"

definition observed_version :: "toolchain_env \<Rightarrow> bool \<Rightarrow> dict \<Rightarrow> pystr" where
  "observed_version e isolated tool =
     (if isolated then []
      else remove_prefix (lit ''v'') (strip (text_or (te_repr e) (dict_get_none tool (lit ''version'')) [])))"

definition pick_version :: "manager_choice \<Rightarrow> toolchain_override option \<Rightarrow> pystr \<Rightarrow> py_exc + pystr" where
  "pick_version mc ov observed =
     (case ov of
        Some o' \<Rightarrow> Inr (ov_version o')
      | None \<Rightarrow>
          (case mc_matched mc of
             Some (_, v, _) \<Rightarrow> Inr v
           | None \<Rightarrow> bindR (supported_version (mc_name mc) observed) (\<lambda>ok.
               if ok then Inr observed
               else case DEFAULT_VERSIONS (mc_name mc) of None \<Rightarrow> Inl Py_key_error | Some v \<Rightarrow> Inr v)))"

definition node_too_old :: "toolchain_env \<Rightarrow> manager_choice \<Rightarrow> dict \<Rightarrow> pystr \<Rightarrow> py_exc + bool" where
  "node_too_old e mc probed version =
     bindR (or_dict (dict_get_none probed (lit ''node''))) (\<lambda>node.
       bindR (node_version_supported (mc_name mc) version (text_or (te_repr e) (dict_get_none node (lit ''version'')) []))
         (\<lambda>ok. Inr (\<not> ok)))"

definition select_version :: "toolchain_env \<Rightarrow> manager_choice \<Rightarrow> dict \<Rightarrow> toolchain_override option \<Rightarrow> bool \<Rightarrow> py_exc + version_choice" where
  "select_version e mc probed ov isolated =
     bindR (or_dict (dict_get_none probed (mc_name mc))) (\<lambda>tool.
       let observed = observed_version e isolated tool in
       bindR (pick_version mc ov observed) (\<lambda>version.
       bindR (supported_version (mc_name mc) version) (\<lambda>ok.
       let errors1 = mc_errors mc @ when_true (\<not> ok)
             (lit ''Requested packageManager version is unknown or outside the supported range; no replacement is permitted'');
           warnings1 = mc_warnings mc @ when_true (ok \<and> ov = None \<and> mc_matched mc = None \<and> version \<noteq> observed)
             (lit ''No exact packageManager version is declared; the confirmed plan pins policy version '' @ mc_name mc @ lit ''@'' @ version);
           prepare = (isolated \<or> mc_integrity mc \<noteq> None \<or> \<not> truthy (dict_get_none tool (lit ''available'')) \<or> observed \<noteq> version);
           strict = (node_requirement (mc_name mc) version = lit ''>=22.13'')
       in bindR (if strict \<and> \<not> isolated \<and> \<not> prepare then node_too_old e mc probed version else Inr False) (\<lambda>old.
       let errors2 = errors1 @ when_true old
             (lit ''pnpm 11 requires Node >=22.13; provision a reviewed execution environment or explicitly select a compatible project override'');
           warnings2 = warnings1 @ when_true strict (lit ''pnpm 11 requires actual executor Node >=22.13; Node is not automatically upgraded'')
             @ when_true (prepare \<and> errors2 = [])
                 (lit ''Prepare '' @ mc_name mc @ lit ''@'' @ version
                  @ lit '' from its verified official distribution in the isolated executor; no host installation'')
       in Inr \<lparr>vc_observed = observed, vc_version = version, vc_prepare = prepare, vc_errors = errors2, vc_warnings = warnings2\<rparr>))))"

text \<open>The third part: the overrides to recommend, one per usable lockfile.\<close>

fun first_readable :: "toolchain_env \<Rightarrow> pystr \<Rightarrow> pystr \<Rightarrow> pystr list \<Rightarrow> py_exc + pyval list" where
  "first_readable e lock name [] = Inr []"
| "first_readable e lock name (candidate # rest) =
     bindR (supported_version name candidate) (\<lambda>ok.
       if ok \<and> read_lockfile e lock name candidate \<noteq> None
       then Inr [obj [(''name'', PStr name), (''version'', PStr candidate), (''lockfile'', PStr lock)]]
       else first_readable e lock name rest)"

definition choice_candidates :: "toolchain_env \<Rightarrow> dict \<Rightarrow> bool \<Rightarrow> pystr \<Rightarrow> py_exc + pystr list" where
  "choice_candidates e probed isolated name =
     bindR (if isolated then Inr [] else or_dict (dict_get_none probed name)) (\<lambda>tool.
       Inr (rev (remdups (rev ([observed_version e isolated tool, the_default [] (DEFAULT_VERSIONS name)]
                               @ (if name = lit ''pnpm'' then [lit ''8.15.9''] else []))))))"

fun recommend :: "toolchain_env \<Rightarrow> dict \<Rightarrow> bool \<Rightarrow> pystr list \<Rightarrow> pystr list \<Rightarrow> py_exc + pyval list" where
  "recommend e probed isolated detected [] = Inr []"
| "recommend e probed isolated detected (lock # locks) =
     (if lock = lit ''package-lock.json'' \<and> lit ''npm-shrinkwrap.json'' \<in> set detected
      then recommend e probed isolated detected locks
      else bindR (choice_candidates e probed isolated (lock_manager lock)) (\<lambda>candidates.
        bindR (first_readable e lock (lock_manager lock) candidates) (\<lambda>found.
          bindR (recommend e probed isolated detected locks) (\<lambda>others. Inr (found @ others)))))"

definition pin_value :: "pystr option \<Rightarrow> pyval" where
  "pin_value pin = (case pin of None \<Rightarrow> PNone | Some i \<Rightarrow> PStr i)"

definition override_value :: "toolchain_override option \<Rightarrow> pyval" where
  "override_value ov =
     (case ov of None \<Rightarrow> PNone
      | Some o' \<Rightarrow> obj [(''name'', PStr (ov_name o')), (''version'', PStr (ov_version o')), (''lockfile'', pin_value (ov_lockfile o'))])"

text \<open>The returned object.\<close>

definition toolchain_object :: "manager_choice \<Rightarrow> version_choice \<Rightarrow> toolchain_override option \<Rightarrow> bool \<Rightarrow> (pystr \<times> pystr) option
      \<Rightarrow> pystr list \<Rightarrow> pyval list \<Rightarrow> pyval \<Rightarrow> pyval" where
  "toolchain_object mc vc ov isolated lock errors choices preparation =
     (let requirement = node_requirement (mc_name mc) (vc_version vc) in obj
        [(''name'', PStr (mc_name mc)), (''version'', PStr (vc_version vc)),
         (''expected_version'', PStr (case mc_matched mc of Some (_, v, _) \<Rightarrow> v | None \<Rightarrow> [])),
         (''observed_version'', PStr (if version_parts (vc_observed vc) \<noteq> None then vc_observed vc else [])),
         (''selected_by'', PStr (mc_selected_by mc)),
         (''observation_scope'', PStr (if isolated then lit ''executor_cache_pending'' else lit ''local_host'')),
         (''node_requirement'', PStr requirement), (''project_override'', override_value ov),
         (''requires_prepare'', PBool (vc_prepare vc)), (''declared_integrity'', pin_value (mc_integrity mc)),
         (''preparation'', preparation), (''lockfile'', PStr (mc_lockfile mc)),
         (''lockfile_version'', PStr (case lock of Some (_, v) \<Rightarrow> v | None \<Rightarrow> [])),
         (''lockfile_sha256'', PStr (case lock of Some (d, _) \<Rightarrow> d | None \<Rightarrow> [])),
         (''detected_lockfiles'', text_list (mc_detected mc)), (''errors'', text_list errors),
         (''warnings'', text_list (vc_warnings vc)), (''recommended_choices'', PList (if errors \<noteq> [] then choices else [])),
         (''supported'', PBool (errors = [])),
         (''recommended_actions'', text_list
            (if errors = [] then []
             else if requirement = lit ''>=22.13''
             then [lit ''Provision actual Node >=22.13 in the reviewed executor; do not automatically change the pnpm 11 pin'']
             else [lit ''Select a supported exact manager and a matching committed lockfile; unsupported Yarn Berry is never converted to Classic'']))])"

definition inspect_node_toolchain ::
    "toolchain_env \<Rightarrow> dict \<Rightarrow> pystr list \<Rightarrow> dict \<Rightarrow> toolchain_override option \<Rightarrow> bool \<Rightarrow> py_exc + pyval" where
  "inspect_node_toolchain e package files probed ov isolated =
     (let mc = select_manager e package files ov; name = mc_name mc; lockfile = mc_lockfile mc in
      bindR (select_version e mc probed ov isolated) (\<lambda>vc.
      let lock = (if lockfile \<noteq> [] \<and> lockfile \<in> set (mc_detected mc) then read_lockfile e lockfile name (vc_version vc) else Some ([], []));
          errors = vc_errors vc @ when_true (lock = None)
            (lit ''Dependency lockfile format is invalid or unsupported for this manager version'')
      in bindR (recommend e probed isolated (mc_detected mc) (mc_detected mc)) (\<lambda>choices.
         bindR (if vc_prepare vc \<and> errors = [] then tool_preparation name (vc_version vc) (pin_value (mc_integrity mc)) else Inr PNone)
           (\<lambda>preparation. Inr (toolchain_object mc vc ov isolated lock errors choices preparation)))))"

section \<open>What an inspection promises\<close>

lemma dict_get_keyed [simp]: "dict_get (keyed kvs) (lit k) = map_of kvs k"
  by (induction kvs) (auto simp: dict_get_def keyed_def)

lemma dict_get_none_keyed [simp]:
  "dict_get_none (keyed kvs) (lit k) = (case map_of kvs k of None \<Rightarrow> PNone | Some v \<Rightarrow> v)"
  by (simp add: dict_get_none_def)

lemma or_dict_PDict [simp]: "or_dict (PDict d) = Inr d"
  by (simp add: or_dict_def truthy_def)

lemma truthy_keyed [simp]: "truthy (PDict (keyed kvs)) \<longleftrightarrow> kvs \<noteq> []"
  by (simp add: truthy_def keyed_def)

lemma when_true_Nil [simp]: "when_true b m = [] \<longleftrightarrow> \<not> b" "[] = when_true b m \<longleftrightarrow> \<not> b"
  by (auto simp: when_true_def)

text \<open>An override that passed validation.\<close>

definition override_ok :: "toolchain_override \<Rightarrow> bool" where
  "override_ok o' \<longleftrightarrow> NodeToolchainOverride (ov_name o') (ov_version o') (ov_lockfile o') = Inr o'"

lemma override_ok_facts:
  assumes "override_ok o'"
  shows "ov_name o' \<in> set (map lit [''npm'', ''pnpm'', ''yarn''])" "supported_version (ov_name o') (ov_version o') = Inr True"
    "\<And>l. ov_lockfile o' = Some l \<Longrightarrow> map_of LOCKS l = Some (ov_name o')"
  using assms unfolding override_ok_def NodeToolchainOverride_def by (auto split: if_splits option.splits)

lemma match_declaration_name:
  "match_declaration s = Some (name, version, pin) \<Longrightarrow> name \<in> set (map lit [''npm'', ''pnpm'', ''yarn''])"
  by (auto simp: match_declaration_def Let_def split: if_splits)

lemma LOCKS_manager: "l \<in> fst ` set LOCKS \<Longrightarrow> map_of LOCKS l = Some (lock_manager l) \<and> lock_manager l \<in> set (map lit [''npm'', ''pnpm'', ''yarn''])"
  by (auto simp: LOCKS_def lock_manager_def the_default_def)

lemma detected_lockfiles_iff [simp]: "l \<in> set (detected_lockfiles files) \<longleftrightarrow> l \<in> set files \<and> l \<in> fst ` set LOCKS"
  by (auto simp: detected_lockfiles_def)

lemma select_manager_fields:
  fixes files package ov e
  defines "detected \<equiv> detected_lockfiles files" and "matched \<equiv> declared_manager e package"
  defines "integrity \<equiv> (if ov = None then (case matched of Some (_, _, pin) \<Rightarrow> pin | None \<Rightarrow> None) else None)"
  defines "managers \<equiv> remdups (map lock_manager detected)"
  defines "name \<equiv> chosen_name ov matched managers"
  defines "matching \<equiv> filter (\<lambda>l. lock_manager l = name) detected"
  shows "mc_detected (select_manager e package files ov) = detected"
    and "mc_matched (select_manager e package files ov) = matched"
    and "mc_integrity (select_manager e package files ov) = integrity"
    and "mc_name (select_manager e package files ov) = name"
    and "mc_lockfile (select_manager e package files ov) = chosen_lockfile ov matching"
    and "mc_errors (select_manager e package files ov) = selection_errors ov (dict_get_none package (lit ''packageManager'') \<noteq> PNone)
      (matched \<noteq> None) integrity (length managers) name (chosen_lockfile ov matching) detected matching"
  unfolding assms select_manager_def Let_def manager_choice.simps by (rule refl)+

lemma managers_known: "m \<in> set (remdups (map lock_manager (detected_lockfiles files))) \<Longrightarrow> m \<in> set (map lit [''npm'', ''pnpm'', ''yarn''])"
proof -
  assume "m \<in> set (remdups (map lock_manager (detected_lockfiles files)))"
  then obtain l where "l \<in> set (detected_lockfiles files)" "m = lock_manager l"
    by (metis (no_types, lifting) imageE list.set_map set_remdups)
  then show ?thesis
    using LOCKS_manager [of l] by simp
qed

lemma select_manager_name:
  assumes "\<And>o'. ov = Some o' \<Longrightarrow> override_ok o'"
  shows "mc_name (select_manager e package files ov) \<in> set (map lit [''npm'', ''pnpm'', ''yarn''])"
proof (cases ov)
  case (Some o')
  then show ?thesis
    using override_ok_facts(1) [OF assms] by (simp add: select_manager_fields(4) chosen_name_def)
next
  case None
  have only: "length xs = 1 \<Longrightarrow> xs \<noteq> []" for xs :: "pystr list"
    by auto
  show ?thesis
  proof (cases "declared_manager e package")
    case None
    then show ?thesis
      unfolding select_manager_fields(4) chosen_name_def \<open>ov = None\<close>
      using managers_known [OF hd_in_set, of files] only [of "remdups (map lock_manager (detected_lockfiles files))"]
      by (simp only: option.case split: if_split) simp
  next
    case (Some t)
    then show ?thesis
      unfolding select_manager_fields(4) chosen_name_def \<open>ov = None\<close>
      using match_declaration_name by (cases t) (auto simp: declared_manager_def Let_def split: if_splits)
  qed
qed

lemma select_manager_lockfile:
  assumes "\<And>o'. ov = Some o' \<Longrightarrow> override_ok o'" and "mc_lockfile (select_manager e package files ov) \<noteq> []"
  shows "map_of LOCKS (mc_lockfile (select_manager e package files ov)) = Some (mc_name (select_manager e package files ov))"
proof -
  have own: "map_of LOCKS l = Some name" if "l \<in> set (filter (\<lambda>l. lock_manager l = name) (detected_lockfiles files))" for l name
    using that LOCKS_manager by auto
  show ?thesis
  proof (cases "Option.bind ov ov_lockfile")
    case (Some l)
    then obtain o' where "ov = Some o'" "ov_lockfile o' = Some l"
      by (cases ov) auto
    then show ?thesis
      using override_ok_facts(3) [OF assms(1)] by (simp add: select_manager_fields chosen_lockfile_def chosen_name_def)
  next
    case None
    define matching where "matching = filter (\<lambda>l. lock_manager l = mc_name (select_manager e package files ov)) (detected_lockfiles files)"
    have "mc_lockfile (select_manager e package files ov) = chosen_lockfile ov matching"
      unfolding matching_def select_manager_fields ..
    also have "\<dots> \<in> set matching"
      using assms(2) None hd_in_set [of matching] unfolding calculation chosen_lockfile_def by (auto split: if_splits)
    finally show ?thesis
      unfolding matching_def by (rule own)
  qed
qed

lemma select_manager_errors:
  assumes "mc_errors (select_manager e package files ov) = []"
  shows "mc_integrity (select_manager e package files ov) = Some i \<Longrightarrow> integrity_ok i"
    and "mc_lockfile (select_manager e package files ov) \<noteq> [] \<Longrightarrow> mc_lockfile (select_manager e package files ov) \<in> set files"
    and "ov = None \<Longrightarrow> detected_lockfiles files \<noteq> [] \<Longrightarrow> mc_lockfile (select_manager e package files ov) \<noteq> []"
proof -
  note errors = assms [unfolded select_manager_fields selection_errors_def append_is_Nil_conv when_true_Nil]
  show "mc_integrity (select_manager e package files ov) = Some i \<Longrightarrow> integrity_ok i"
    using errors unfolding select_manager_fields by auto
  show "mc_lockfile (select_manager e package files ov) \<noteq> [] \<Longrightarrow> mc_lockfile (select_manager e package files ov) \<in> set files"
    using errors unfolding select_manager_fields by auto
  have "[] \<notin> set (filter P (detected_lockfiles files))" for P
    by (auto simp: LOCKS_def)
  then have "filter P (detected_lockfiles files) \<noteq> [] \<Longrightarrow> hd (filter P (detected_lockfiles files)) \<noteq> []" for P
    by (metis hd_in_set)
  moreover have "detected_lockfiles files \<noteq> [] \<Longrightarrow> filter (\<lambda>l. lock_manager l = chosen_name ov (declared_manager e package)
      (remdups (map lock_manager (detected_lockfiles files)))) (detected_lockfiles files) \<noteq> []"
    using errors by blast
  ultimately show "ov = None \<Longrightarrow> detected_lockfiles files \<noteq> [] \<Longrightarrow> mc_lockfile (select_manager e package files ov) \<noteq> []"
    unfolding select_manager_fields chosen_lockfile_def by simp
qed

lemma select_version_facts:
  assumes "select_version e mc probed ov isolated = Inr vc" and "vc_errors vc = []"
  shows "mc_errors mc = []" and "supported_version (mc_name mc) (vc_version vc) = Inr True"
    and "\<exists>tool. or_dict (dict_get_none probed (mc_name mc)) = Inr tool
      \<and> vc_prepare vc = (isolated \<or> mc_integrity mc \<noteq> None \<or> \<not> truthy (dict_get_none tool (lit ''available''))
           \<or> observed_version e isolated tool \<noteq> vc_version vc)"
  using assms unfolding select_version_def Let_def bindR_Inr_iff by auto

text \<open>The fields of an inspection, from the choices behind it.\<close>

lemma inspect_fields:
  assumes "inspect_node_toolchain e package files probed ov isolated = Inr result"
  obtains vc m errors where "result = PDict m" "select_version e (select_manager e package files ov) probed ov isolated = Inr vc"
    "dict_get_none m (lit ''name'') = PStr (mc_name (select_manager e package files ov))"
    "dict_get m (lit ''version'') = Some (PStr (vc_version vc))"
    "dict_get_none m (lit ''lockfile'') = PStr (mc_lockfile (select_manager e package files ov))"
    "dict_get_none m (lit ''errors'') = text_list errors" "dict_get_none m (lit ''supported'') = PBool (errors = [])"
    "dict_get_none m (lit ''warnings'') = text_list (vc_warnings vc)"
    "dict_get_none m (lit ''requires_prepare'') = PBool (vc_prepare vc)"
    "dict_get_none m (lit ''declared_integrity'') = pin_value (mc_integrity (select_manager e package files ov))"
    "errors = [] \<Longrightarrow> vc_errors vc = []"
    "errors = [] \<Longrightarrow> vc_prepare vc \<Longrightarrow>
       tool_preparation (mc_name (select_manager e package files ov)) (vc_version vc)
         (pin_value (mc_integrity (select_manager e package files ov))) = Inr (dict_get_none m (lit ''preparation''))"
    "errors = [] \<Longrightarrow> mc_lockfile (select_manager e package files ov) \<noteq> [] \<Longrightarrow>
       mc_lockfile (select_manager e package files ov) \<in> set (detected_lockfiles files) \<Longrightarrow>
       \<exists>digest v. read_lockfile e (mc_lockfile (select_manager e package files ov)) (mc_name (select_manager e package files ov))
            (vc_version vc) = Some (digest, v) \<and> dict_get_none m (lit ''lockfile_sha256'') = PStr digest"
proof -
  let ?mc = "select_manager e package files ov"
  obtain vc where vc: "select_version e ?mc probed ov isolated = Inr vc"
    using assms unfolding inspect_node_toolchain_def Let_def bindR_Inr_iff by blast
  define lock where "lock = (if mc_lockfile ?mc \<noteq> [] \<and> mc_lockfile ?mc \<in> set (mc_detected ?mc)
    then read_lockfile e (mc_lockfile ?mc) (mc_name ?mc) (vc_version vc) else Some ([], []))"
  define errors where "errors = vc_errors vc
    @ when_true (lock = None) (lit ''Dependency lockfile format is invalid or unsupported for this manager version'')"
  obtain choices preparation where
    preparation: "(if vc_prepare vc \<and> errors = [] then tool_preparation (mc_name ?mc) (vc_version vc) (pin_value (mc_integrity ?mc)) else Inr PNone)
      = Inr preparation"
    and result: "result = toolchain_object ?mc vc ov isolated lock errors choices preparation"
    using assms unfolding inspect_node_toolchain_def Let_def vc bindR_simps lock_def [symmetric] errors_def [symmetric] bindR_Inr_iff Inr_inject
    by blast
  define fields where "fields = (case result of PDict d \<Rightarrow> d | _ \<Rightarrow> [])"
  show thesis
  proof (rule that [OF _ vc, of fields errors])
    show "errors = [] \<Longrightarrow> vc_errors vc = []"
      by (simp add: errors_def)
    show "\<exists>digest v. read_lockfile e (mc_lockfile ?mc) (mc_name ?mc) (vc_version vc) = Some (digest, v)
        \<and> dict_get_none fields (lit ''lockfile_sha256'') = PStr digest"
      if clean: "errors = []" and present: "mc_lockfile ?mc \<noteq> []" "mc_lockfile ?mc \<in> set (detected_lockfiles files)"
    proof -
      have same: "lock = read_lockfile e (mc_lockfile ?mc) (mc_name ?mc) (vc_version vc)"
        using present by (simp add: lock_def select_manager_fields(1))
      obtain digest v where found: "lock = Some (digest, v)"
        using clean unfolding errors_def by (cases lock) auto
      have "dict_get_none fields (lit ''lockfile_sha256'') = PStr digest"
        by (simp add: fields_def result toolchain_object_def Let_def obj_def found)
      then show ?thesis
        using same found by metis
    qed
  qed (use preparation in \<open>simp_all add: fields_def result toolchain_object_def Let_def obj_def\<close>)
qed

text \<open>
  C39: an inspection without errors pins everything a build needs.  The manager is npm, pnpm or
  yarn in a supported exact version; the lockfile, when there is one, lies in the project root,
  belongs to that manager, could be parsed for that version and is recorded with its digest;
  without an override a project with lockfiles always gets one.  A tool that needs no preparation
  is installed in exactly the pinned version, and for one that does the object holds the
  preparation of that name, version and integrity pin.
\<close>

theorem inspected_toolchain_pinned:
  assumes run: "inspect_node_toolchain e package files probed ov isolated = Inr (PDict m)"
    and saved: "\<forall>o'\<in>set_option ov. override_ok o'" and clean: "dict_get_none m (lit ''supported'') = PBool True"
  shows "\<exists>name version lockfile.
      dict_get_none m (lit ''name'') = PStr name \<and> dict_get_none m (lit ''version'') = PStr version
      \<and> dict_get_none m (lit ''lockfile'') = PStr lockfile
      \<and> name \<in> set (map lit [''npm'', ''pnpm'', ''yarn'']) \<and> supported_version name version = Inr True
      \<and> (lockfile \<noteq> [] \<longrightarrow> lockfile \<in> set files \<and> map_of LOCKS lockfile = Some name
           \<and> (\<exists>digest v. read_lockfile e lockfile name version = Some (digest, v)
                \<and> dict_get_none m (lit ''lockfile_sha256'') = PStr digest))
      \<and> (ov = None \<and> detected_lockfiles files \<noteq> [] \<longrightarrow> lockfile \<noteq> [])
      \<and> (if truthy (dict_get_none m (lit ''requires_prepare''))
         then tool_preparation name version (dict_get_none m (lit ''declared_integrity'')) = Inr (dict_get_none m (lit ''preparation''))
         else \<exists>tool. or_dict (dict_get_none probed name) = Inr tool \<and> truthy (dict_get_none tool (lit ''available''))
                \<and> observed_version e False tool = version)"
proof -
  let ?mc = "select_manager e package files ov"
  have saved': "override_ok o'" if "ov = Some o'" for o'
    using saved that by simp
  obtain vc errors where vc: "select_version e ?mc probed ov isolated = Inr vc"
    and fields: "dict_get_none m (lit ''name'') = PStr (mc_name ?mc)" "dict_get m (lit ''version'') = Some (PStr (vc_version vc))"
      "dict_get_none m (lit ''lockfile'') = PStr (mc_lockfile ?mc)"
      "dict_get_none m (lit ''requires_prepare'') = PBool (vc_prepare vc)"
      "dict_get_none m (lit ''declared_integrity'') = pin_value (mc_integrity ?mc)"
    and none: "vc_errors vc = []"
    and preparation: "vc_prepare vc \<Longrightarrow> tool_preparation (mc_name ?mc) (vc_version vc) (pin_value (mc_integrity ?mc))
        = Inr (dict_get_none m (lit ''preparation''))"
    and lock: "mc_lockfile ?mc \<noteq> [] \<Longrightarrow> mc_lockfile ?mc \<in> set (detected_lockfiles files) \<Longrightarrow>
       \<exists>digest v. read_lockfile e (mc_lockfile ?mc) (mc_name ?mc) (vc_version vc) = Some (digest, v)
         \<and> dict_get_none m (lit ''lockfile_sha256'') = PStr digest"
  proof (rule inspect_fields [OF run], goal_cases)
    case (1 vc m' errors)
    then have [simp]: "m' = m" "errors = []"
      using clean by simp_all
    show ?case
      by (rule 1(1)) (use 1(2-) in \<open>simp_all del: detected_lockfiles_iff\<close>)
  qed
  note version = select_version_facts [OF vc none]
  note select = select_manager_errors [OF version(1)]
  have owner: "mc_lockfile ?mc \<noteq> [] \<Longrightarrow> map_of LOCKS (mc_lockfile ?mc) = Some (mc_name ?mc)"
    by (rule select_manager_lockfile [OF saved'])
  then have listed: "mc_lockfile ?mc \<noteq> [] \<Longrightarrow> mc_lockfile ?mc \<in> set (detected_lockfiles files)"
    using select(2) by (auto dest!: map_of_SomeD intro: rev_image_eqI)
  have tool: "\<not> vc_prepare vc \<Longrightarrow> \<exists>tool. or_dict (dict_get_none probed (mc_name ?mc)) = Inr tool
      \<and> truthy (dict_get_none tool (lit ''available'')) \<and> observed_version e False tool = vc_version vc"
    using version(3) by auto
  show ?thesis
    by (rule exI [of _ "mc_name ?mc"], rule exI [of _ "vc_version vc"], rule exI [of _ "mc_lockfile ?mc"])
      (use fields select_manager_name [OF saved'] version(2) select(2,3) owner listed lock preparation tool
        in \<open>simp add: dict_get_none_def [of m "lit ''version''"] truthy_def\<close>)
qed

text \<open>A project that declares npm 10.9.0, which is installed, with a lockfile of version 3.\<close>

definition demo_project :: toolchain_env where
  "demo_project = \<lparr>te_repr = (\<lambda>_. []), te_symlink = (\<lambda>_. False), te_size = (\<lambda>_. Some 20), te_bytes = (\<lambda>_. Some [1, 2, 3]),
     te_json = (\<lambda>_. Some (obj [(''lockfileVersion'', PInt 3)])), te_yaml = (\<lambda>_. None), te_sha256 = (\<lambda>_. lit ''digest'')\<rparr>"

definition demo_package :: dict where
  "demo_package = keyed [(''packageManager'', PStr (lit ''npm@10.9.0''))]"

definition demo_files :: "pystr list" where
  "demo_files = map lit [''package.json'', ''package-lock.json'']"

definition demo_probe :: dict where
  "demo_probe = keyed [(''npm'', obj [(''available'', PBool True), (''version'', PStr (lit ''10.9.0''))])]"

lemma demo_version:
  "match_declaration (lit ''npm@10.9.0'') = Some (lit ''npm'', lit ''10.9.0'', None)"
  "supported_version (lit ''npm'') (lit ''10.9.0'') = Inr True"
  "observed_version demo_project False (keyed [(''available'', PBool True), (''version'', PStr (lit ''10.9.0''))]) = lit ''10.9.0''"
  "node_requirement (lit ''npm'') v = lit ''verify_official_engines''"
proof -
  have val: "text_or r (PStr (lit ''10.9.0'')) [] = lit ''10.9.0''" for r
    by (simp add: text_or_def truthy_def py_str_def)
  show "observed_version demo_project False (keyed [(''available'', PBool True), (''version'', PStr (lit ''10.9.0''))]) = lit ''10.9.0''"
    by (simp add: observed_version_def val) (simp add: lit_def remove_prefix_def starts_with_def strip_def strip_by_def py_space_def)
qed (simp_all add: match_declaration_def supported_version_def version_parts_def decimals_def decimal_def DECIMAL_ZEROS_def
      py_int_def INT_MAX_STR_DIGITS_def SUPPORTED_MAJORS_def node_requirement_def lit_def)

lemma demo_selection:
  "detected_lockfiles demo_files = [lit ''package-lock.json'']"
  "select_manager demo_project demo_package demo_files None =
     \<lparr>mc_detected = [lit ''package-lock.json''], mc_matched = Some (lit ''npm'', lit ''10.9.0'', None), mc_integrity = None,
      mc_name = lit ''npm'', mc_selected_by = lit ''packageManager'', mc_lockfile = lit ''package-lock.json'',
      mc_errors = [], mc_warnings = []\<rparr>"
proof -
  show det: "detected_lockfiles demo_files = [lit ''package-lock.json'']"
    by (simp add: detected_lockfiles_def demo_files_def LOCKS_def)
  show "select_manager demo_project demo_package demo_files None =
     \<lparr>mc_detected = [lit ''package-lock.json''], mc_matched = Some (lit ''npm'', lit ''10.9.0'', None), mc_integrity = None,
      mc_name = lit ''npm'', mc_selected_by = lit ''packageManager'', mc_lockfile = lit ''package-lock.json'',
      mc_errors = [], mc_warnings = []\<rparr>"
    by (simp add: select_manager_def Let_def det declared_manager_def demo_package_def py_str_def demo_version(1) chosen_name_def
        lock_manager_def LOCKS_def the_default_def chosen_lockfile_def selection_errors_def when_true_def)
qed

lemma demo_inspection:
  "\<exists>m. inspect_node_toolchain demo_project demo_package demo_files demo_probe None False = Inr (PDict m)
     \<and> dict_get_none m (lit ''supported'') = PBool True
     \<and> dict_get_none m (lit ''requires_prepare'') = PBool False \<and> dict_get_none m (lit ''lockfile'') = PStr (lit ''package-lock.json'')"
proof -
  have tool: "or_dict (dict_get_none demo_probe (lit ''npm'')) = Inr (keyed [(''available'', PBool True), (''version'', PStr (lit ''10.9.0''))])"
    by (simp add: demo_probe_def obj_def)
  have version: "select_version demo_project (select_manager demo_project demo_package demo_files None) demo_probe None False =
      Inr \<lparr>vc_observed = lit ''10.9.0'', vc_version = lit ''10.9.0'', vc_prepare = False, vc_errors = [], vc_warnings = []\<rparr>"
    by (simp add: select_version_def demo_selection tool Let_def demo_version pick_version_def when_true_def truthy_def)
  have lock: "read_lockfile demo_project (lit ''package-lock.json'') (lit ''npm'') (lit ''10.9.0'') = Some (lit ''digest'', lit ''3'')"
    by (simp add: read_lockfile_def lock_text_version_def lockfile_version_def demo_project_def obj_def py_str_def)
       (simp add: int_str_def nat_str.simps lit_def)
  have choices: "recommend demo_project demo_probe False [lit ''package-lock.json''] [lit ''package-lock.json''] =
      Inr [obj [(''name'', PStr (lit ''npm'')), (''version'', PStr (lit ''10.9.0'')), (''lockfile'', PStr (lit ''package-lock.json''))]]"
    by (simp add: lock_manager_def LOCKS_def the_default_def choice_candidates_def tool demo_version DEFAULT_VERSIONS_def lock)
  have "inspect_node_toolchain demo_project demo_package demo_files demo_probe None False =
      Inr (toolchain_object (select_manager demo_project demo_package demo_files None)
        \<lparr>vc_observed = lit ''10.9.0'', vc_version = lit ''10.9.0'', vc_prepare = False, vc_errors = [], vc_warnings = []\<rparr>
        None False (Some (lit ''digest'', lit ''3'')) []
        [obj [(''name'', PStr (lit ''npm'')), (''version'', PStr (lit ''10.9.0'')), (''lockfile'', PStr (lit ''package-lock.json''))]] PNone)"
    unfolding inspect_node_toolchain_def Let_def version bindR_simps
    unfolding demo_selection manager_choice.simps version_choice.simps choices bindR_simps
    by (simp add: lock when_true_def)
  then show ?thesis
    by (simp add: toolchain_object_def Let_def obj_def demo_selection(2))
qed

theorem inspected_toolchain_pinned_witness:
  "\<exists>m name version. inspect_node_toolchain demo_project demo_package demo_files demo_probe None False = Inr (PDict m)
     \<and> dict_get_none m (lit ''name'') = PStr name \<and> dict_get_none m (lit ''version'') = PStr version
     \<and> supported_version name version = Inr True \<and> map_of LOCKS (lit ''package-lock.json'') = Some name
     \<and> (\<exists>tool. or_dict (dict_get_none demo_probe name) = Inr tool \<and> observed_version demo_project False tool = version)"
proof -
  obtain m where run: "inspect_node_toolchain demo_project demo_package demo_files demo_probe None False = Inr (PDict m)"
    and m: "dict_get_none m (lit ''supported'') = PBool True" "dict_get_none m (lit ''requires_prepare'') = PBool False"
      "dict_get_none m (lit ''lockfile'') = PStr (lit ''package-lock.json'')"
    using demo_inspection by blast
  show ?thesis
    using inspected_toolchain_pinned [OF run _ m(1)] run m by (auto simp: truthy_def)
qed

section \<open>A version of too many digits\<close>

text \<open>
  A declared version with more than 4300 digits in a row matches the declaration pattern, and
  \<^verbatim>\<open>int\<close> then raises: the inspection fails with an exception instead of listing an error.
\<close>

lemma long_version_raises:
  assumes a: "set a \<subseteq> {48..57}" "length a > INT_MAX_STR_DIGITS"
    and package: "dict_get_none package (lit ''packageManager'') = PStr (lit ''npm@'' @ a @ lit ''.0.0'')"
    and tool: "or_dict (dict_get_none probed (lit ''npm'')) = Inr tool"
  shows "\<exists>message. inspect_node_toolchain e package files probed None isolated = Inl (Py_value_error message)"
proof -
  define v where "v = a @ lit ''.0.0''"
  have v: "v = a @ 46 # [48] @ 46 # [48]"
    by (simp add: v_def lit_def)
  have digit: "decimal c \<noteq> None" if "c \<in> {48..57}" for c
    using that by (auto simp: decimal_def DECIMAL_ZEROS_def)
  then have parts: "version_parts v = Some (a, [48], [48])"
    using a unfolding v version_parts_def
    by (subst split_on_append) (auto simp: decimals_def list_all_iff subset_iff)
  have plain: "takeWhile (\<lambda>c. c \<noteq> 43) v = v" "43 \<notin> set v"
    using a(1) unfolding v by (auto simp: takeWhile_eq_all_conv)
  have "match_declaration (lit ''npm@'' @ v) = Some (lit ''npm'', v, None)"
    using parts by (simp add: match_declaration_def lit_def Let_def plain)
  then have matched: "declared_manager e package = Some (lit ''npm'', v, None)"
    using package by (simp add: declared_manager_def py_str_def v_def)
  then have mc: "mc_matched (select_manager e package files None) = Some (lit ''npm'', v, None)"
    "mc_name (select_manager e package files None) = lit ''npm''"
    unfolding select_manager_fields by (simp_all add: chosen_name_def)
  have "supported_version (lit ''npm'') v = Inl (Py_value_error (lit ''Exceeds the limit (4300 digits) for integer string conversion''))"
    using a(2) by (simp add: supported_version_def parts py_int_def)
  then have "select_version e (select_manager e package files None) probed None isolated
      = Inl (Py_value_error (lit ''Exceeds the limit (4300 digits) for integer string conversion''))"
    by (simp add: select_version_def mc tool Let_def pick_version_def)
  then show ?thesis
    by (simp add: inspect_node_toolchain_def Let_def)
qed

end
