(* ===== verification/Build_Plan.thy ===== *)
theory Build_Plan
  imports Node_Toolchain
begin

text \<open>
  \<^verbatim>\<open>build_plan.py\<close>: the build plan compiled from a preflight result, its validation before a build
  is queued, the waves in which the executor runs the steps, and the server manifest made from
  the finished artifact.  Plans are JSON values, as they are stored and read back between the
  calls; every ill-typed field takes the branch or raises the exception the code has for it.
\<close>

section \<open>Compilation of a plan\<close>

definition IR_VERSION :: int where "IR_VERSION = 1"

definition ARTIFACT_IGNORE :: "pystr list" where
  "ARTIFACT_IGNORE = map lit [''.git'', ''.venv'', ''venv'', ''target'', ''__pycache__'']"

definition NODE_ENTRYPOINTS :: "pystr list" where
  "NODE_ENTRYPOINTS = map lit [''dist/index.js'', ''index.js'', ''src/index.js'']"

definition PYTHON_ENTRYPOINTS :: "pystr list" where
  "PYTHON_ENTRYPOINTS = map lit [''server.py'', ''main.py'', ''app.py'']"

text \<open>\<^verbatim>\<open>for x in (v or [])\<close>\<close>

definition iterate :: "pyval \<Rightarrow> py_exc + pyval list" where
  "iterate v =
     (if \<not> truthy v then Inr []
      else case v of
        PList xs \<Rightarrow> Inr xs | PTuple xs \<Rightarrow> Inr xs | PDict d \<Rightarrow> Inr (map fst d) | PProxy d \<Rightarrow> Inr (map fst d)
      | PStr s \<Rightarrow> Inr (map (\<lambda>c. PStr [c]) s) | _ \<Rightarrow> Inl Py_type_error)"

definition blocked :: "pystr \<Rightarrow> pyval \<Rightarrow> pyval list \<Rightarrow> (string \<times> pyval) list" where
  "blocked runtime project_root_dir messages =
     [(''ir_version'', PInt IR_VERSION), (''runtime'', PStr runtime), (''buildable'', PBool False),
      (''project_root_dir'', project_root_dir), (''steps'', PList []), (''artifact'', PNone), (''manifest'', PNone),
      (''warnings'', PList messages), (''notes'', PList [])]"

definition step :: "string \<Rightarrow> string \<Rightarrow> pyval list \<Rightarrow> pystr \<Rightarrow> string list \<Rightarrow> pyval" where
  "step step_id phase command why depends_on = obj
     [(''id'', PStr (lit step_id)), (''phase'', PStr (lit phase)), (''command'', PList command), (''reason'', PStr why),
      (''depends_on'', text_list (map lit depends_on))]"

definition plan_object :: "pystr \<Rightarrow> pyval \<Rightarrow> pyval list \<Rightarrow> pyval \<Rightarrow> pyval \<Rightarrow> pyval list \<Rightarrow> pyval" where
  "plan_object runtime project_root_dir steps manifest package_manager warnings = obj
     [(''ir_version'', PInt IR_VERSION), (''runtime'', PStr runtime), (''buildable'', PBool True),
      (''project_root_dir'', project_root_dir), (''steps'', PList steps),
      (''artifact'', obj [(''strategy'', PStr (lit ''copy_tree'')), (''ignore'', text_list ARTIFACT_IGNORE)]),
      (''manifest'', manifest), (''package_manager'', package_manager),
      (''warnings'', PList (warnings @ (if steps = [] then [PStr (lit ''No install/build step required for this project.'')] else []))),
      (''notes'', text_list [nat_str (length steps) @ lit '' build step(s); manifest entrypoint resolved ''
          @ (if steps \<noteq> [] then lit ''after build'' else lit ''after artifact packaging'') @ lit ''.''])]"

text \<open>
  The steps of a Node plan: each is added under its own condition, and depends on the last one
  added before it.
\<close>

definition node_steps :: "dict \<Rightarrow> pystr \<Rightarrow> bool \<Rightarrow> bool \<Rightarrow> bool \<Rightarrow> pystr \<Rightarrow> py_exc + pyval list" where
  "node_steps manager manager_name tooling install build why =
     bindR (if tooling then
              (case dict_get manager (lit ''version'') of
                 None \<Rightarrow> Inl Py_key_error
               | Some version \<Rightarrow> Inr [step ''node-toolchain'' ''prepare''
                   [PStr (lit ''gate-package-manager''), PStr (lit ''prepare''), PStr manager_name, version]
                   (lit ''Prepare the exact official tool in an executor-owned version/integrity cache; no lifecycle or global installation'') []])
            else Inr []) (\<lambda>prepared.
     bindR (if install then
              (case INSTALL_COMMANDS manager_name of
                 None \<Rightarrow> Inl Py_key_error
               | Some command \<Rightarrow> Inr [step ''node-install'' ''install'' (map PStr command) why
                   (if tooling then [''node-toolchain''] else [])])
            else Inr []) (\<lambda>installed.
     Inr (prepared @ installed
          @ (if build then [step ''node-build'' ''build'' [PStr manager_name, PStr (lit ''run''), PStr (lit ''build'')]
                              (lit ''scripts.build present'')
                              (if install then [''node-install''] else if tooling then [''node-toolchain''] else [])]
             else []))))"

definition node_manifest :: "dict \<Rightarrow> pyval list \<Rightarrow> pystr \<Rightarrow> pyval list \<Rightarrow> pyval" where
  "node_manifest metadata scripts manager_name steps = obj
     [(''launch_type'', PStr (lit ''managed_process'')), (''transport'', PStr (lit ''stdio'')), (''runtime'', PStr (lit ''node'')),
      (''start_script'', PBool (PStr (lit ''start'') \<in> set scripts)), (''package_manager'', PStr manager_name),
      (''entrypoint_candidates'', PList
         ((let v = dict_get_none metadata (lit ''node_bin_entrypoint'') in if truthy v then [v] else []) @ map PStr NODE_ENTRYPOINTS)),
      (''resolve_after_build'', PBool (steps \<noteq> []))]"

definition build_node_plan :: "(pyval \<Rightarrow> pystr) \<Rightarrow> dict \<Rightarrow> pyval \<Rightarrow> bool \<Rightarrow> bool \<Rightarrow> py_exc + pyval" where
  "build_node_plan rp metadata project_root_dir run_install run_build =
     (let scripts = (case dict_get_none metadata (lit ''package_scripts'') of PList xs \<Rightarrow> xs | _ \<Rightarrow> []);
          has_lock = truthy (dict_get_none metadata (lit ''has_package_lock''));
          install_required = (dict_get_none metadata (lit ''node_install_required'') = PBool True);
          install_reason = strip (text_or rp (dict_get_none metadata (lit ''node_install_reason'')) [])
      in bindR (or_dict (dict_get_none metadata (lit ''node_package_manager''))) (\<lambda>manager.
         let manager_name = text_or rp (dict_get_none manager (lit ''name'')) (lit ''npm'') in
         bindR (iterate (dict_get_none manager (lit ''errors''))) (\<lambda>manager_errors.
         let build = (run_build \<and> PStr (lit ''build'') \<in> set scripts);
             install = (run_install \<and> install_required);
             commands_required = (install \<or> build \<or> PStr (lit ''start'') \<in> set scripts)
         in if commands_required \<and> manager_errors \<noteq> [] then
              Inr (obj (blocked (lit ''node'') project_root_dir manager_errors
                @ [(''package_manager'', PDict manager),
                   (''recommended_choices'', let v = dict_get_none manager (lit ''recommended_choices'') in if truthy v then v else PList [])]))
            else if install \<and> \<not> truthy (dict_get_none manager (lit ''lockfile'')) then
              Inr (obj (blocked (lit ''node'') project_root_dir
                [PStr (lit ''Deterministic Node installation requires one supported lockfile.'')]))
            else bindR (iterate (dict_get_none manager (lit ''warnings''))) (\<lambda>manager_warnings.
              let tooling = (commands_required \<and> truthy (dict_get_none manager (lit ''requires_prepare'')));
                  why = (if install_reason \<noteq> [] then install_reason
                            else if has_lock then lit ''package-lock.json present''
                            else lit ''Node dependencies or install lifecycle scripts present'');
                  warnings = manager_warnings
                    @ (if install then [PStr (lit ''Dependency installation and scripts.build may execute project/dependency lifecycle code; confirmation authorizes these listed steps in the selected executor.'')]
                       else if run_install then [PStr (if install_reason \<noteq> [] then install_reason
                              else lit ''No Node dependencies or install lifecycle scripts detected; skipping dependency install.'')]
                       else [])
              in bindR (node_steps manager manager_name tooling install build why) (\<lambda>steps.
                 Inr (plan_object (lit ''node'') project_root_dir steps (node_manifest metadata scripts manager_name steps)
                   (dict_get_none metadata (lit ''node_package_manager'')) warnings))))))"

definition build_python_plan :: "(pyval \<Rightarrow> pystr) \<Rightarrow> dict \<Rightarrow> pyval \<Rightarrow> bool \<Rightarrow> pyval" where
  "build_python_plan rp metadata project_root_dir run_install =
     (let requirements = truthy (dict_get_none metadata (lit ''has_requirements''));
          steps = (if run_install \<and> requirements then [step ''python-install'' ''install''
                     (map (PStr \<circ> lit) [''python'', ''-m'', ''pip'', ''install'', ''-r'', ''requirements.txt''])
                     (lit ''requirements.txt present'') []] else []);
          warnings = (if run_install \<and> \<not> requirements
                      then [PStr (lit ''No requirements.txt found; skipping dependency install.'')] else []);
          manifest = obj
            [(''launch_type'', PStr (lit ''managed_process'')), (''transport'', PStr (lit ''stdio'')),
             (''runtime'', PStr (lit ''python'')), (''entrypoint_candidates'', text_list PYTHON_ENTRYPOINTS),
             (''python_entrypoint'', PStr (text_or rp (dict_get_none metadata (lit ''python_entrypoint'')) [])),
             (''resolve_after_build'', PBool (steps \<noteq> []))]
      in plan_object (lit ''python'') project_root_dir steps manifest PNone warnings)"

definition build_plan :: "(pyval \<Rightarrow> pystr) \<Rightarrow> dict \<Rightarrow> bool \<Rightarrow> bool \<Rightarrow> py_exc + pyval" where
  "build_plan rp preflight run_install run_build =
     (let runtime = text_or rp (dict_get_none preflight (lit ''runtime'')) (lit ''unknown'');
          metadata = (case dict_get_none preflight (lit ''metadata'') of PDict d \<Rightarrow> d | _ \<Rightarrow> []);
          project_root_dir = dict_get_none preflight (lit ''project_root_dir'')
      in if runtime = lit ''node'' then build_node_plan rp metadata project_root_dir run_install run_build
         else if runtime = lit ''python'' then Inr (build_python_plan rp metadata project_root_dir run_install)
         else Inr (obj (blocked runtime project_root_dir
           [PStr (lit ''Runtime '' @ [39] @ runtime @ [39]
              @ lit '' is not buildable by the local executor. Select runtime=node or runtime=python.'')])))"

text \<open>\<^verbatim>\<open>plan_commands\<close>\<close>

fun command_lists :: "pyval list \<Rightarrow> py_exc + pyval list list" where
  "command_lists [] = Inr []"
| "command_lists (s # rest) =
     (case s of
        PDict d \<Rightarrow>
          (let command = dict_get_none d (lit ''command'') in
           bindR (if truthy command then bindR (iterate command) (\<lambda>c. Inr [c]) else Inr []) (\<lambda>first.
             bindR (command_lists rest) (\<lambda>others. Inr (first @ others))))
      | _ \<Rightarrow> Inl Py_attribute_error)"

definition plan_commands :: "dict \<Rightarrow> py_exc + pyval list list" where
  "plan_commands plan = bindR (iterate (dict_get_none plan (lit ''steps''))) command_lists"

section \<open>Waves\<close>

definition step_dicts :: "pyval list \<Rightarrow> py_exc + dict list" where
  "step_dicts steps =
     (if list_all is_dict steps then Inr (map (\<lambda>s. case s of PDict d \<Rightarrow> d | _ \<Rightarrow> []) steps) else Inl Py_attribute_error)"

definition step_key :: "(pyval \<Rightarrow> pystr) \<Rightarrow> dict \<Rightarrow> pystr" where
  "step_key rp s = py_str rp (dict_get_none s (lit ''id''))"

text \<open>The dictionary \<^verbatim>\<open>id_to_index\<close>: the last step of an id wins.\<close>

definition id_to_index :: "(pyval \<Rightarrow> pystr) \<Rightarrow> dict list \<Rightarrow> pystr \<rightharpoonup> nat" where
  "id_to_index rp steps = map_of (rev (zip (map (step_key rp) steps) [0..<length steps]))"

fun resolve_names :: "(pyval \<Rightarrow> pystr) \<Rightarrow> (pystr \<rightharpoonup> nat) \<Rightarrow> pystr \<Rightarrow> pyval list \<Rightarrow> py_exc + nat list" where
  "resolve_names rp index owner [] = Inr []"
| "resolve_names rp index owner (dep # rest) =
     (case index (py_str rp dep) of
        None \<Rightarrow> Inl (Py_value_error (lit ''step '' @ [39] @ owner @ [39] @ lit '' depends on unknown step '' @ [39] @ py_str rp dep @ [39]))
      | Some i \<Rightarrow> bindR (resolve_names rp index owner rest) (\<lambda>others. Inr (i # others)))"

fun resolve_steps :: "(pyval \<Rightarrow> pystr) \<Rightarrow> (pystr \<rightharpoonup> nat) \<Rightarrow> dict list \<Rightarrow> py_exc + nat list list" where
  "resolve_steps rp index [] = Inr []"
| "resolve_steps rp index (s # rest) =
     bindR (iterate (dict_get_none s (lit ''depends_on''))) (\<lambda>names.
       bindR (resolve_names rp index (step_key rp s) names) (\<lambda>resolved.
         bindR (resolve_steps rp index rest) (\<lambda>others. Inr (resolved # others))))"

definition CYCLE :: py_exc where
  "CYCLE = Py_value_error (lit ''dependency cycle detected in build plan steps'')"

text \<open>The \<^verbatim>\<open>while remaining\<close> loop; the sets \<^verbatim>\<open>done\<close> and \<^verbatim>\<open>remaining\<close> are lists.\<close>

function wave_loop :: "nat list list \<Rightarrow> nat list \<Rightarrow> nat list \<Rightarrow> py_exc + nat list list" where
  "wave_loop deps past remaining =
     (if remaining = [] then Inr []
      else let ready = sort (filter (\<lambda>i. set (deps ! i) \<subseteq> set past) remaining) in
        if ready = [] then Inl CYCLE
        else bindR (wave_loop deps (past @ ready) (filter (\<lambda>i. i \<notin> set ready) remaining)) (\<lambda>waves.
          Inr (ready # waves)))"
  by pat_completeness auto
termination
proof (relation "measure (\<lambda>(deps, past, remaining). length remaining)", goal_cases)
  case (2 deps past remaining ready)
  then obtain i where "i \<in> set remaining" "i \<in> set ready"
    by (metis (no_types, lifting) list.set_intros(1) list.exhaust set_sort mem_Collect_eq set_filter)
  then show ?case
    by (auto intro!: length_filter_less)
qed simp

declare wave_loop.simps [simp del]

definition plan_waves :: "(pyval \<Rightarrow> pystr) \<Rightarrow> dict \<Rightarrow> py_exc + nat list list" where
  "plan_waves rp plan =
     bindR (iterate (dict_get_none plan (lit ''steps''))) (\<lambda>raw.
     bindR (step_dicts raw) (\<lambda>steps.
     bindR (resolve_steps rp (id_to_index rp steps) steps) (\<lambda>deps.
     wave_loop deps [] [0..<length steps])))"

section \<open>Validation\<close>

definition DETERMINISTIC_STEPS :: "pystr \<Rightarrow> pystr \<rightharpoonup> pystr \<times> pyval list" where
  "DETERMINISTIC_STEPS runtime =
     (if runtime = lit ''node'' then map_of
        [(lit ''node-toolchain'', (lit ''prepare'', [])),
         (lit ''node-install'', (lit ''install'', map (text_list \<circ> map lit)
            [[''npm'', ''ci''], [''pnpm'', ''install'', ''--frozen-lockfile''], [''yarn'', ''install'', ''--frozen-lockfile'']])),
         (lit ''node-build'', (lit ''build'', map (text_list \<circ> map lit)
            [[''npm'', ''run'', ''build''], [''pnpm'', ''run'', ''build''], [''yarn'', ''run'', ''build'']]))]
      else if runtime = lit ''python'' then map_of
        [(lit ''python-install'', (lit ''install'',
            [text_list (map lit [''python'', ''-m'', ''pip'', ''install'', ''-r'', ''requirements.txt''])]))]
      else Map.empty)"

definition DETERMINISTIC_STEP_SEQUENCES :: "pystr \<Rightarrow> pystr list list" where
  "DETERMINISTIC_STEP_SEQUENCES runtime =
     (if runtime = lit ''node'' then map (map lit)
        [[], [''node-install''], [''node-build''], [''node-install'', ''node-build''], [''node-toolchain''],
         [''node-toolchain'', ''node-install''], [''node-toolchain'', ''node-build''],
         [''node-toolchain'', ''node-install'', ''node-build'']]
      else if runtime = lit ''python'' then map (map lit) [[], [''python-install'']]
      else [])"

fun is_plist :: "pyval \<Rightarrow> bool" where
  "is_plist (PList _) = True"
| "is_plist _ = False"

text \<open>Membership of a set hashes the value; a list or an object raises.\<close>

fun hashable :: "pyval \<Rightarrow> bool" where
  "hashable (PList _) = False"
| "hashable (PDict _) = False"
| "hashable (PProxy _) = False"
| "hashable (PTuple xs) = list_all hashable xs"
| "hashable _ = True"

definition in_set :: "pyval \<Rightarrow> string list \<Rightarrow> py_exc + bool" where
  "in_set v names = (if hashable v then Inr (v \<in> set (map (PStr \<circ> lit) names)) else Inl Py_type_error)"

text \<open>\<^verbatim>\<open>command[0]\<close> of a truthy value.\<close>

definition first_item :: "pyval \<Rightarrow> py_exc + pyval" where
  "first_item v =
     (case v of
        PList (x # _) \<Rightarrow> Inr x | PTuple (x # _) \<Rightarrow> Inr x | PStr (c # _) \<Rightarrow> Inr (PStr [c])
      | PDict d \<Rightarrow> (case find (\<lambda>(k, _). py_eq k (PInt 0)) d of None \<Rightarrow> Inl Py_key_error | Some (_, x) \<Rightarrow> Inr x)
      | PProxy d \<Rightarrow> (case find (\<lambda>(k, _). py_eq k (PInt 0)) d of None \<Rightarrow> Inl Py_key_error | Some (_, x) \<Rightarrow> Inr x)
      | _ \<Rightarrow> Inl Py_type_error)"

text \<open>The test of the exact manager both the start script and every Node command need.\<close>

definition manager_supported :: "(pyval \<Rightarrow> pystr) \<Rightarrow> dict \<Rightarrow> py_exc + bool" where
  "manager_supported rp manager =
     supported_version (text_or rp (dict_get_none manager (lit ''name'')) []) (text_or rp (dict_get_none manager (lit ''version'')) [])"

definition version_errors :: "(pyval \<Rightarrow> pystr) \<Rightarrow> pyval \<Rightarrow> pystr list" where
  "version_errors rp version =
     (let other = lit ''ir_version '' @ py_str rp version @ lit '' is unsupported; expected '' @ int_str IR_VERSION in
      case version of
        PInt i \<Rightarrow> when_true (i \<noteq> IR_VERSION) other
      | PBool b \<Rightarrow> when_true ((if b then 1 else 0) \<noteq> IR_VERSION) other
      | _ \<Rightarrow> [lit ''ir_version missing or not an integer''])"

definition buildable_errors :: "(pyval \<Rightarrow> pystr) \<Rightarrow> dict \<Rightarrow> pystr \<Rightarrow> py_exc + pystr list" where
  "buildable_errors rp plan runtime =
     (let manifest = dict_get_none plan (lit ''manifest'');
          strategy = (case manifest of PDict d \<Rightarrow> d | _ \<Rightarrow> []);
          artifact = dict_get_none plan (lit ''artifact'');
          manager = (case dict_get_none plan (lit ''package_manager'') of PDict d \<Rightarrow> d | _ \<Rightarrow> []);
          early = when_true (runtime \<notin> {lit ''node'', lit ''python''}) (lit ''buildable plan has unsupported runtime: '' @ runtime)
            @ when_true (\<not> is_dict manifest) (lit ''buildable plan requires a manifest strategy'')
            @ when_true (case artifact of PDict a \<Rightarrow> \<not> truthy (dict_get_none a (lit ''strategy'')) | _ \<Rightarrow> True)
                (lit ''buildable plan requires artifact.strategy'')
      in if runtime = lit ''node'' \<and> truthy (dict_get_none strategy (lit ''start_script'')) then
           bindR (manager_supported rp manager) (\<lambda>ok.
             Inr (early @ when_true (\<not> ok \<or> \<not> py_eq (dict_get_none strategy (lit ''package_manager'')) (dict_get_none manager (lit ''name'')))
                    (lit ''Node start script requires a matching supported exact runtime toolchain'')))
         else Inr early)"

text \<open>The part of the loop over the steps that concerns the Node package manager.\<close>

definition expected_preparation :: "(pyval \<Rightarrow> pystr) \<Rightarrow> dict \<Rightarrow> py_exc + pyval" where
  "expected_preparation rp manager =
     (case tool_preparation (text_or rp (dict_get_none manager (lit ''name'')) []) (text_or rp (dict_get_none manager (lit ''version'')) [])
             (dict_get_none manager (lit ''declared_integrity'')) of
        Inl (Py_value_error _) \<Rightarrow> Inr PNone
      | r \<Rightarrow> r)"

definition node_step_errors :: "(pyval \<Rightarrow> pystr) \<Rightarrow> dict \<Rightarrow> pystr \<Rightarrow> dict \<Rightarrow> pystr \<Rightarrow> py_exc + pystr list" where
  "node_step_errors rp plan place s step_id =
     bindR (or_dict (dict_get_none plan (lit ''package_manager''))) (\<lambda>manager.
     let command = (let c = dict_get_none s (lit ''command'') in if truthy c then c else PList []);
         get = (\<lambda>k. dict_get_none manager (lit k))
     in bindR
       (if step_id = lit ''node-toolchain'' then
          bindR (expected_preparation rp manager) (\<lambda>expected.
            Inr (when_true (\<not> py_eq command (PList [PStr (lit ''gate-package-manager''), PStr (lit ''prepare''), get ''name'', get ''version'']))
                   (lit ''Tool preparation must match the selected exact manager/version'')
                 @ when_true (\<not> truthy (get ''requires_prepare'') \<or> \<not> py_eq (get ''preparation'') expected)
                     (lit ''Tool preparation does not match the generated official distribution policy'')))
        else if truthy command then
          bindR (first_item command) (\<lambda>first.
            Inr (when_true (\<not> py_eq first (get ''name'')) (place @ lit '' conflicts with the selected package manager'')))
        else Inr []) (\<lambda>errors.
     bindR (manager_supported rp manager) (\<lambda>ok.
       Inr (errors @ when_true (\<not> ok \<or> \<not> truthy (get ''supported'')) (lit ''Node command requires a supported exact package manager'')))))"

definition step_errors :: "(pyval \<Rightarrow> pystr) \<Rightarrow> dict \<Rightarrow> pystr \<Rightarrow> nat \<Rightarrow> pyval \<Rightarrow> py_exc + pystr list" where
  "step_errors rp plan runtime index raw =
     (let place = lit ''step['' @ nat_str index @ lit '']'' in
      case raw of
        PDict s \<Rightarrow>
          (let sid = dict_get_none s (lit ''id''); phase = dict_get_none s (lit ''phase'');
               command = dict_get_none s (lit ''command''); depends_on = dict_get_none s (lit ''depends_on'');
               step_id = text_or rp sid []
           in bindR (in_set phase [''prepare'', ''install'', ''build'']) (\<lambda>known_phase.
              let errors =
                when_true (\<not> truthy sid) (place @ lit '' missing id'')
                @ when_true (\<not> known_phase) (place @ lit '' has invalid phase: '' @ py_str rp phase)
                @ when_true (\<not> is_plist command \<or> \<not> truthy command) (place @ lit '' command must be a non-empty list'')
                @ when_true (depends_on \<noteq> PNone \<and> \<not> is_plist depends_on) (place @ lit '' depends_on must be a list'')
                @ (case DETERMINISTIC_STEPS runtime step_id of
                     None \<Rightarrow> [place @ lit '' is not generated for runtime '' @ runtime @ lit '': '' @ step_id]
                   | Some (allowed_phase, commands) \<Rightarrow>
                       when_true (phase \<noteq> PStr allowed_phase \<or> step_id \<noteq> lit ''node-toolchain'' \<and> command \<notin> set commands)
                         (place @ lit '' does not match the generated command for '' @ step_id))
              in bindR (if runtime = lit ''node'' then node_step_errors rp plan place s step_id else Inr []) (\<lambda>others.
                 Inr (errors @ others))))
      | _ \<Rightarrow> Inr [place @ lit '' is not an object''])"

fun steps_errors :: "(pyval \<Rightarrow> pystr) \<Rightarrow> dict \<Rightarrow> pystr \<Rightarrow> nat \<Rightarrow> pyval list \<Rightarrow> py_exc + pystr list" where
  "steps_errors rp plan runtime index [] = Inr []"
| "steps_errors rp plan runtime index (s # rest) =
     bindR (step_errors rp plan runtime index s) (\<lambda>first.
       bindR (steps_errors rp plan runtime (Suc index) rest) (\<lambda>others. Inr (first @ others)))"

text \<open>The dependencies the generator gives each step.\<close>

definition expected_dependencies :: "pystr list \<Rightarrow> pyval \<Rightarrow> py_exc + string list" where
  "expected_dependencies step_ids sid =
     (if sid = PStr (lit ''node-build'') \<and> lit ''node-install'' \<in> set step_ids then Inr [''node-install'']
      else bindR (in_set sid [''node-install'', ''node-build'']) (\<lambda>member.
        Inr (if member \<and> lit ''node-toolchain'' \<in> set step_ids then [''node-toolchain''] else [])))"

fun dependency_errors :: "(pyval \<Rightarrow> pystr) \<Rightarrow> pystr list \<Rightarrow> nat \<Rightarrow> dict list \<Rightarrow> py_exc + pystr list" where
  "dependency_errors rp step_ids index [] = Inr []"
| "dependency_errors rp step_ids index (s # rest) =
     (let sid = dict_get_none s (lit ''id'') in
      bindR (expected_dependencies step_ids sid) (\<lambda>expected.
        bindR (dependency_errors rp step_ids (Suc index) rest) (\<lambda>others.
          Inr (when_true (dict_get_none s (lit ''depends_on'') \<noteq> text_list (map lit expected))
                 (lit ''step['' @ nat_str index @ lit ''] has unexpected dependencies for '' @ py_str rp sid) @ others))))"

definition wave_errors :: "(pyval \<Rightarrow> pystr) \<Rightarrow> dict list \<Rightarrow> py_exc + pystr list" where
  "wave_errors rp steps =
     (case plan_waves rp [(PStr (lit ''steps''), PList (map PDict steps))] of
        Inl (Py_value_error message) \<Rightarrow> Inr [message]
      | Inl exc \<Rightarrow> Inl exc
      | Inr _ \<Rightarrow> Inr [])"

definition sequence_errors :: "(pyval \<Rightarrow> pystr) \<Rightarrow> dict \<Rightarrow> bool \<Rightarrow> pystr \<Rightarrow> dict list \<Rightarrow> py_exc + pystr list" where
  "sequence_errors rp plan buildable runtime steps =
     (let step_ids = map (\<lambda>s. text_or rp (dict_get_none s (lit ''id'')) []) steps;
          generated = when_true (buildable \<and> step_ids \<notin> set (DETERMINISTIC_STEP_SEQUENCES runtime))
            (lit ''step sequence is not generated for runtime '' @ runtime @ lit '': '' @ join_with (lit '', '') step_ids)
      in bindR (dependency_errors rp step_ids 0 steps) (\<lambda>deps.
         bindR (if runtime = lit ''node'' \<and> steps \<noteq> [] then or_dict (dict_get_none plan (lit ''package_manager'')) else Inr []) (\<lambda>manager.
         let missing = when_true (truthy (dict_get_none manager (lit ''requires_prepare'')) \<and> lit ''node-toolchain'' \<notin> set step_ids)
               (lit ''Required tool preparation is missing'')
         in bindR (wave_errors rp steps) (\<lambda>cyclic. Inr (generated @ deps @ missing @ cyclic)))))"

record plan_validation =
  pv_ok :: bool
  pv_errors :: "pystr list"
  pv_normalized :: "dict option"

definition validate_plan :: "(pyval \<Rightarrow> pystr) \<Rightarrow> pyval \<Rightarrow> py_exc + plan_validation" where
  "validate_plan rp raw =
     (case raw of
        PDict plan \<Rightarrow>
          (let buildable = truthy (dict_get_none plan (lit ''buildable''));
               runtime = text_or rp (dict_get_none plan (lit ''runtime'')) [];
               stored = dict_get_none plan (lit ''steps'');
               steps = (case stored of PList xs \<Rightarrow> xs | _ \<Rightarrow> []);
               e0 = version_errors rp (dict_get_none plan (lit ''ir_version''))
                 @ when_true (\<not> is_plist stored) (lit ''steps must be a list'')
           in bindR (if buildable then buildable_errors rp plan runtime else Inr []) (\<lambda>e1.
              bindR (steps_errors rp plan runtime 0 steps) (\<lambda>e2.
              bindR (case step_dicts steps of Inl _ \<Rightarrow> Inr [] | Inr ds \<Rightarrow> sequence_errors rp plan buildable runtime ds) (\<lambda>e3.
              let errors = e0 @ e1 @ e2 @ e3
              in Inr \<lparr>pv_ok = (errors = []), pv_errors = errors, pv_normalized = (if errors = [] then Some plan else None)\<rparr>))))
      | _ \<Rightarrow> Inr \<lparr>pv_ok = False, pv_errors = [lit ''plan is not an object''], pv_normalized = None\<rparr>)"

section \<open>The manifest of the finished artifact\<close>

text \<open>
  The artifact directory and the Unicode tables behind \<^verbatim>\<open>str.isalnum\<close> and \<^verbatim>\<open>str.lower\<close>:
  \<open>ar_inside\<close> tells whether a candidate resolves inside the directory, \<open>ar_symlink\<close> and \<open>ar_file\<close> what is
  there.
\<close>

record artifact_env =
  ar_repr :: "pyval \<Rightarrow> pystr"
  ar_dir :: pystr
  ar_inside :: "pystr \<Rightarrow> bool"
  ar_symlink :: "pystr \<Rightarrow> bool"
  ar_file :: "pystr \<Rightarrow> bool"
  ar_alnum :: "nat \<Rightarrow> bool"
  ar_lower :: "nat \<Rightarrow> pystr"

definition first_existing :: "artifact_env \<Rightarrow> pystr list \<Rightarrow> pystr option" where
  "first_existing e candidates =
     find (\<lambda>c. ar_inside e c \<and> \<not> ar_symlink e c \<and> ar_file e c \<and> \<not> starts_with c (lit ''-'')) candidates"

definition safe_id :: "artifact_env \<Rightarrow> pystr \<Rightarrow> pystr" where
  "safe_id e s =
     (let cleaned = strip_by (\<lambda>c. c \<in> {45, 46, 95})
            (concat (map (\<lambda>c. if ar_alnum e c \<or> c \<in> {45, 95, 46} then ar_lower e c else [45]) s))
      in if cleaned = [] then lit ''uploaded-mcp'' else cleaned)"

definition path_stem :: "pystr \<Rightarrow> pystr" where
  "path_stem s =
     (let name = (if posix_parts s = [] then [] else last (posix_parts s)) in
      take (length name - length (path_suffix s)) name)"

definition candidate_texts :: "artifact_env \<Rightarrow> dict \<Rightarrow> pystr list \<Rightarrow> pystr list" where
  "candidate_texts e strategy default_names =
     (case dict_get_none strategy (lit ''entrypoint_candidates'') of
        PList xs \<Rightarrow> map (py_str (ar_repr e)) xs
      | _ \<Rightarrow> default_names)"

definition launch_command :: "artifact_env \<Rightarrow> dict \<Rightarrow> dict \<Rightarrow> pystr \<Rightarrow> py_exc + pyval \<times> pyval list" where
  "launch_command e plan strategy runtime =
     (if runtime = lit ''node'' then
        (if truthy (dict_get_none strategy (lit ''start_script'')) then
           bindR (or_dict (dict_get_none plan (lit ''package_manager''))) (\<lambda>manager.
           bindR (manager_supported (ar_repr e) manager) (\<lambda>ok.
             if \<not> ok \<or> \<not> py_eq (dict_get_none strategy (lit ''package_manager'')) (dict_get_none manager (lit ''name''))
             then Inl (Py_value_error (lit ''Node start script requires a matching exact runtime toolchain''))
             else case dict_get manager (lit ''name'') of
               None \<Rightarrow> Inl Py_key_error
             | Some name \<Rightarrow> Inr (name, [PStr (lit ''run''), PStr (lit ''start'')])))
         else case first_existing e (candidate_texts e strategy NODE_ENTRYPOINTS) of
           None \<Rightarrow> Inl (Py_value_error (lit ''Node entrypoint not found: expected start script, dist/index.js, index.js, or src/index.js''))
         | Some entry \<Rightarrow>
             if entry = [] then Inl (Py_value_error (lit ''Node entrypoint not found: expected start script, dist/index.js, index.js, or src/index.js''))
             else Inr (PStr (lit ''node''), [PStr entry]))
      else if runtime = lit ''python'' then
        (let candidates = text_or (ar_repr e) (dict_get_none strategy (lit ''python_entrypoint'')) []
               # candidate_texts e strategy PYTHON_ENTRYPOINTS
         in case first_existing e (filter (\<lambda>c. c \<noteq> []) candidates) of
              None \<Rightarrow> Inl (Py_value_error (lit ''Python entrypoint not found: expected server.py, main.py, app.py, or analysis.python_entrypoint''))
            | Some entry \<Rightarrow> Inr (PStr (lit ''python''), [PStr entry]))
      else Inl (Py_value_error (lit ''Cannot finalize manifest for runtime: '' @ runtime)))"

definition RESTART_POLICY :: pyval where
  "RESTART_POLICY = obj
     [(''enabled'', PBool True), (''max_attempts'', PInt 3), (''delay_seconds'', PInt 5), (''backoff_multiplier'', PInt 2),
      (''max_delay_seconds'', PInt 60), (''restart_on_exit'', PBool True), (''reset_after_seconds'', PInt 300),
      (''exit_code_allowlist'', PList []), (''exit_code_blocklist'', PList [PInt 0]),
      (''health_check'', obj [(''enabled'', PBool False), (''method'', PStr (lit ''tools_list'')), (''interval_seconds'', PInt 30),
          (''timeout_seconds'', PInt 10), (''failure_threshold'', PInt 3)])]"

text \<open>The pinned manager recorded for a start script.\<close>

definition launch_toolchain :: "pyval \<Rightarrow> bool \<Rightarrow> py_exc + (string \<times> pyval) list" where
  "launch_toolchain package_manager script =
     (if truthy package_manager \<and> script then
        bindR (or_dict package_manager) (\<lambda>manager.
          case (dict_get manager (lit ''name''), dict_get manager (lit ''version'')) of
            (Some name, Some version) \<Rightarrow> Inr [(''toolchain'', obj [(''manager'', name), (''version'', version)])]
          | _ \<Rightarrow> Inl Py_key_error)
      else Inr [])"

definition manifest_object :: "artifact_env \<Rightarrow> pystr \<Rightarrow> pyval \<Rightarrow> pyval list \<Rightarrow> (string \<times> pyval) list \<Rightarrow> (string \<times> pyval) list \<Rightarrow> pyval" where
  "manifest_object e sid command args toolchain analysis = obj
     [(''id'', PStr sid), (''name'', PStr (lit ''Uploaded '' @ sid)), (''enabled'', PBool True),
      (''launch'', obj ([(''type'', PStr (lit ''managed_process'')), (''command'', command), (''args'', PList args),
         (''cwd'', PStr (ar_dir e))] @ toolchain)),
      (''transport'', obj [(''type'', PStr (lit ''stdio''))]), (''timeout_seconds'', PInt 120), (''auto_start'', PBool False),
      (''restart_policy'', RESTART_POLICY), (''analysis'', obj analysis)]"

definition finalize_manifest :: "artifact_env \<Rightarrow> dict \<Rightarrow> dict \<Rightarrow> pystr \<Rightarrow> py_exc + pyval" where
  "finalize_manifest e plan upload build_id =
     (let strategy = (case dict_get_none plan (lit ''manifest'') of PDict d \<Rightarrow> d | _ \<Rightarrow> []);
          runtime = text_or (ar_repr e) (dict_get_none plan (lit ''runtime'')) [];
          package_manager = dict_get_none plan (lit ''package_manager'');
          script = (runtime = lit ''node'' \<and> truthy (dict_get_none strategy (lit ''start_script'')));
          server_id = safe_id e (path_stem (text_or (ar_repr e) (dict_get_none upload (lit ''filename'')) (lit ''uploaded-mcp'')))
      in bindR (launch_command e plan strategy runtime) (\<lambda>(command, args).
         bindR (or_dict (dict_get_none upload (lit ''analysis''))) (\<lambda>analysis.
         bindR (launch_toolchain package_manager script) (\<lambda>toolchain.
         let source = dict_get_none analysis (lit ''git_source'')
         in Inr (manifest_object e server_id command args toolchain
              ([(''upload_id'', dict_get_none upload (lit ''id'')), (''build_id'', PStr build_id),
                (''detected_runtime'', PStr runtime), (''draft_source'', PStr (lit ''build_plan_ir''))]
               @ (if truthy source then [(''git_source'', source)] else [])
               @ (if truthy package_manager then [(''package_manager'', package_manager)] else [])))))))"

section \<open>The waves are a topological order\<close>

text \<open>Facts about the loop, for any dependency lists, by induction on its successful runs.\<close>

lemma wave_loop_Inr_induct [consumes 1, case_names empty wave]:
  assumes "wave_loop deps past remaining = Inr waves"
    and "\<And>past. P past [] []"
    and "\<And>past remaining ready rest. ready = sort (filter (\<lambda>i. set (deps ! i) \<subseteq> set past) remaining) \<Longrightarrow> ready \<noteq> [] \<Longrightarrow>
      P (past @ ready) (filter (\<lambda>i. i \<notin> set ready) remaining) rest \<Longrightarrow> P past remaining (ready # rest)"
  shows "P past remaining waves"
  using assms(1)
proof (induction "length remaining" arbitrary: past remaining waves rule: less_induct)
  case less
  define ready where "ready = sort (filter (\<lambda>i. set (deps ! i) \<subseteq> set past) remaining)"
  show ?case
  proof (cases "remaining = []")
    case True
    then show ?thesis
      using less(2) assms(2) by (simp add: wave_loop.simps)
  next
    case False
    obtain rest where ready: "ready \<noteq> []" and waves: "waves = ready # rest"
      and rest: "wave_loop deps (past @ ready) (filter (\<lambda>i. i \<notin> set ready) remaining) = Inr rest"
      using less(2) False unfolding wave_loop.simps [of deps past remaining] ready_def
      by (auto simp: Let_def split: if_splits)
    obtain i where "i \<in> set ready" "i \<in> set remaining"
      using ready unfolding ready_def
      by (metis (no_types, lifting) list.set_intros(1) list.exhaust set_sort mem_Collect_eq set_filter)
    then have "length (filter (\<lambda>i. i \<notin> set ready) remaining) < length remaining"
      by (auto intro: length_filter_less)
    then show ?thesis
      unfolding waves using less(1) rest assms(3) [OF ready_def ready] by blast
  qed
qed

lemma wave_loop_partition:
  assumes "wave_loop deps past remaining = Inr waves" and "distinct remaining"
  shows "distinct (concat waves) \<and> set (concat waves) = set remaining \<and> [] \<notin> set waves \<and> (\<forall>w\<in>set waves. sorted w)"
  using assms
proof (induction rule: wave_loop_Inr_induct)
  case (wave past remaining ready rest)
  have "set ready \<subseteq> set remaining" "distinct ready" "sorted ready"
    using wave by auto
  moreover have "distinct (concat rest) \<and> set (concat rest) = set (filter (\<lambda>i. i \<notin> set ready) remaining)
      \<and> [] \<notin> set rest \<and> (\<forall>w\<in>set rest. sorted w)"
    using wave by simp
  ultimately show ?case
    using wave(2) by auto
qed simp

lemma wave_loop_order:
  assumes "wave_loop deps past remaining = Inr waves" and "distinct remaining" and "k < length waves" and "i \<in> set (waves ! k)"
  shows "i \<in> set remaining \<and> set (deps ! i) \<subseteq> set past \<union> set (concat (take k waves))
    \<and> (0 < k \<longrightarrow> \<not> set (deps ! i) \<subseteq> set past \<union> set (concat (take (k - 1) waves)))"
  using assms
proof (induction arbitrary: k rule: wave_loop_Inr_induct)
  case (wave past remaining ready rest)
  show ?case
  proof (cases k)
    case 0
    then show ?thesis
      using wave by auto
  next
    case (Suc n)
    have ih: "i \<in> set remaining \<and> i \<notin> set ready \<and> set (deps ! i) \<subseteq> set (past @ ready) \<union> set (concat (take n rest))
        \<and> (0 < n \<longrightarrow> \<not> set (deps ! i) \<subseteq> set (past @ ready) \<union> set (concat (take (n - 1) rest)))"
      using wave(3) [of n] wave(4-6) Suc by simp
    then have "\<not> set (deps ! i) \<subseteq> set past"
      using wave(1) by auto
    with ih show ?thesis
      unfolding Suc by (cases n) (auto simp: Un_assoc)
  qed
qed simp

text \<open>The loop fails exactly when some of the remaining steps wait for each other.\<close>

lemma wave_loop_Inl:
  assumes "wave_loop deps past remaining = Inl exc" and "\<And>i. i \<in> set remaining \<Longrightarrow> set (deps ! i) \<subseteq> set past \<union> set remaining"
  shows "exc = CYCLE \<and> (\<exists>C \<subseteq> set remaining. C \<noteq> {} \<and> (\<forall>i\<in>C. \<exists>j\<in>C. j \<in> set (deps ! i)))"
  using assms
proof (induction deps past remaining rule: wave_loop.induct)
  case (1 deps past remaining)
  define ready where "ready = sort (filter (\<lambda>i. set (deps ! i) \<subseteq> set past) remaining)"
  have ne: "remaining \<noteq> []"
    using 1(2) by (auto simp: wave_loop.simps)
  show ?case
  proof (cases "ready = []")
    case True
    then have "set (filter (\<lambda>i. set (deps ! i) \<subseteq> set past) remaining) = {}"
      unfolding ready_def by (metis set_sort list.set(1))
    then have stuck: "\<forall>i\<in>set remaining. \<exists>j\<in>set (deps ! i). j \<notin> set past"
      by auto
    have "exc = CYCLE"
      using 1(2) ne True unfolding wave_loop.simps [of deps past remaining] ready_def by (simp add: Let_def)
    moreover have "\<forall>i\<in>set remaining. \<exists>j\<in>set remaining. j \<in> set (deps ! i)"
      using stuck 1(3) by blast
    ultimately show ?thesis
      using ne by (intro conjI exI [of _ "set remaining"]) auto
  next
    case False
    have run: "wave_loop deps (past @ ready) (filter (\<lambda>i. i \<notin> set ready) remaining) = Inl exc"
      using 1(2) ne False unfolding wave_loop.simps [of deps past remaining] ready_def
      by (simp add: Let_def bindR_Inl_iff)
    have "set (deps ! i) \<subseteq> set (past @ ready) \<union> set (filter (\<lambda>i. i \<notin> set ready) remaining)"
      if "i \<in> set (filter (\<lambda>i. i \<notin> set ready) remaining)" for i
      using 1(3) [of i] that by auto
    then have "exc = CYCLE \<and> (\<exists>C \<subseteq> set (filter (\<lambda>i. i \<notin> set ready) remaining). C \<noteq> {} \<and> (\<forall>i\<in>C. \<exists>j\<in>C. j \<in> set (deps ! i)))"
      using 1(1) [OF ne ready_def False run] by blast
    then show ?thesis
      by (meson filter_is_subset subset_trans)
  qed
qed

lemma wave_loop_no_cycle:
  assumes "wave_loop deps past remaining = Inr waves" and "C \<subseteq> set remaining" and "C \<inter> set past = {}"
    and "\<forall>i\<in>C. \<exists>j\<in>C. j \<in> set (deps ! i)"
  shows "C = {}"
  using assms
proof (induction rule: wave_loop_Inr_induct)
  case (wave past remaining ready rest)
  have "C \<inter> set ready = {}"
    using wave(1,5,6) by fastforce
  then show ?case
    using wave by auto
qed simp

text \<open>In a finite graph, a set whose members all have a successor in it is the same as a cycle.\<close>

lemma waiting_set_iff_cycle:
  fixes r :: "('a \<times> 'a) set"
  assumes "finite r"
  shows "(\<exists>C. C \<noteq> {} \<and> (\<forall>i\<in>C. \<exists>j\<in>C. (i, j) \<in> r)) \<longleftrightarrow> \<not> acyclic r"
proof
  assume "\<exists>C. C \<noteq> {} \<and> (\<forall>i\<in>C. \<exists>j\<in>C. (i, j) \<in> r)"
  then obtain C x where C: "x \<in> C" "\<forall>i\<in>C. \<exists>j\<in>C. (i, j) \<in> r"
    by blast
  show "\<not> acyclic r"
  proof
    assume "acyclic r"
    then have "wf (r\<inverse>)"
      using assms by (simp add: finite_acyclic_wf_converse)
    then obtain z where "z \<in> C" "\<And>y. (y, z) \<in> r\<inverse> \<Longrightarrow> y \<notin> C"
      using C(1) by (metis wfE_min)
    with C(2) show False
      by blast
  qed
next
  assume "\<not> acyclic r"
  then obtain i where i: "(i, i) \<in> r\<^sup>+"
    by (auto simp: acyclic_def)
  define C where "C = {x. (i, x) \<in> r\<^sup>* \<and> (x, i) \<in> r\<^sup>+}"
  have "\<exists>j\<in>C. (x, j) \<in> r" if mem: "x \<in> C" for x
  proof -
    obtain y where y: "(x, y) \<in> r" "(y, i) \<in> r\<^sup>*"
      using mem by (auto simp: C_def dest: tranclD)
    then have "y \<in> C"
      using mem i unfolding C_def by (auto intro: rtrancl_into_rtrancl rtrancl_trancl_trancl)
    with y show ?thesis
      by blast
  qed
  moreover have "i \<in> C"
    using i by (simp add: C_def)
  ultimately show "\<exists>C. C \<noteq> {} \<and> (\<forall>i\<in>C. \<exists>j\<in>C. (i, j) \<in> r)"
    by blast
qed
text \<open>
  The graph of a list of steps: \<open>depends\<close> relates a step to the step a name of its \<^verbatim>\<open>depends_on\<close> stands for;
  \<open>known_dependencies\<close> says that all these names stand for a step.
\<close>

definition depends :: "(pyval \<Rightarrow> pystr) \<Rightarrow> dict list \<Rightarrow> nat \<Rightarrow> nat \<Rightarrow> bool" where
  "depends rp steps i j \<longleftrightarrow> i < length steps \<and>
     (case iterate (dict_get_none (steps ! i) (lit ''depends_on'')) of
        Inl _ \<Rightarrow> False
      | Inr names \<Rightarrow> Some j \<in> (id_to_index rp steps \<circ> py_str rp) ` set names)"

definition known_dependencies :: "(pyval \<Rightarrow> pystr) \<Rightarrow> dict list \<Rightarrow> bool" where
  "known_dependencies rp steps \<longleftrightarrow>
     list_all (\<lambda>s. case iterate (dict_get_none s (lit ''depends_on'')) of
        Inl _ \<Rightarrow> False
      | Inr names \<Rightarrow> list_all (\<lambda>dep. id_to_index rp steps (py_str rp dep) \<noteq> None) names) steps"

lemma resolve_names_Inr:
  "resolve_names rp index owner names = Inr js \<longleftrightarrow>
   list_all (\<lambda>dep. index (py_str rp dep) \<noteq> None) names \<and> map Some js = map (index \<circ> py_str rp) names"
proof (induction names arbitrary: js)
  case (Cons dep rest)
  show ?case
  proof (cases "index (py_str rp dep)")
    case (Some i)
    then show ?thesis
      using Cons.IH by (cases js) auto
  qed simp
qed auto

lemma resolve_steps_Inr:
  "resolve_steps rp index steps = Inr deps \<longleftrightarrow>
   list_all2 (\<lambda>s js. \<exists>names. iterate (dict_get_none s (lit ''depends_on'')) = Inr names
     \<and> list_all (\<lambda>dep. index (py_str rp dep) \<noteq> None) names \<and> map Some js = map (index \<circ> py_str rp) names) steps deps"
proof (induction steps arbitrary: deps)
  case (Cons s rest)
  then show ?case
    by (cases deps) (auto simp: resolve_names_Inr)
qed auto

lemma resolve_steps_deps:
  assumes "resolve_steps rp (id_to_index rp steps) steps = Inr deps" and "i < length steps"
  shows "set (deps ! i) = {j. depends rp steps i j}"
proof -
  obtain names where names: "iterate (dict_get_none (steps ! i) (lit ''depends_on'')) = Inr names"
    "map Some (deps ! i) = map (id_to_index rp steps \<circ> py_str rp) names"
    using assms unfolding resolve_steps_Inr by (auto dest: list_all2_nthD)
  have "Some ` set (deps ! i) = (id_to_index rp steps \<circ> py_str rp) ` set names"
    using names(2) by (metis list.set_map)
  then show ?thesis
    using names(1) assms(2) unfolding depends_def by (auto simp: image_iff)
qed

lemma resolve_steps_ok:
  "(\<exists>deps. resolve_steps rp index steps = Inr deps) \<longleftrightarrow>
   list_all (\<lambda>s. case iterate (dict_get_none s (lit ''depends_on'')) of
        Inl _ \<Rightarrow> False
      | Inr names \<Rightarrow> list_all (\<lambda>dep. index (py_str rp dep) \<noteq> None) names) steps"
proof (induction steps)
  case (Cons s rest)
  have names: "(\<exists>js. resolve_names rp index owner names = Inr js) \<longleftrightarrow> list_all (\<lambda>dep. index (py_str rp dep) \<noteq> None) names"
    for owner names
    by (induction names) (auto split: option.splits)
  show ?case
    using Cons names [of "step_key rp s"] by (auto split: sum.splits)
qed simp

lemma id_to_index_Some: "id_to_index rp steps name = Some j \<Longrightarrow> j < length steps \<and> step_key rp (steps ! j) = name"
  unfolding id_to_index_def by (auto dest!: map_of_SomeD simp: set_zip)

lemma depends_less: "depends rp steps i j \<Longrightarrow> i < length steps \<and> j < length steps"
  by (auto simp: depends_def split: sum.splits dest!: id_to_index_Some sym [of "Some j"])

lemma finite_depends: "finite {(i, j). depends rp steps i j}"
proof (rule finite_subset)
  show "{(i, j). depends rp steps i j} \<subseteq> {..<length steps} \<times> {..<length steps}"
    using depends_less by fastforce
qed simp

lemma step_dicts_map [simp]: "step_dicts (map PDict steps) = Inr steps"
  by (simp add: step_dicts_def list_all_iff comp_def)

lemma iterate_PList [simp]: "iterate (PList xs) = Inr xs"
  by (simp add: iterate_def truthy_def)

lemma plan_waves_steps:
  "dict_get_none plan (lit ''steps'') = PList (map PDict steps) \<Longrightarrow>
   plan_waves rp plan = bindR (resolve_steps rp (id_to_index rp steps) steps) (\<lambda>deps. wave_loop deps [] [0..<length steps])"
  by (simp add: plan_waves_def)

lemma plan_waves_Inr_iff:
  assumes "dict_get_none plan (lit ''steps'') = PList (map PDict steps)"
  shows "is_ok (plan_waves rp plan) \<longleftrightarrow> known_dependencies rp steps \<and> acyclic {(i, j). depends rp steps i j}"
proof (cases "resolve_steps rp (id_to_index rp steps) steps")
  case (Inl exc)
  then have "\<not> known_dependencies rp steps"
    using resolve_steps_ok [of rp "id_to_index rp steps" steps] by (simp add: known_dependencies_def)
  then show ?thesis
    using Inl by (simp add: plan_waves_steps [OF assms])
next
  case (Inr deps)
  have known: "known_dependencies rp steps"
    using resolve_steps_ok [of rp "id_to_index rp steps" steps] Inr by (simp add: known_dependencies_def)
  have deps: "set (deps ! i) = {j. depends rp steps i j}" if "i < length steps" for i
    using resolve_steps_deps [OF Inr that] .
  have "is_ok (wave_loop deps [] [0..<length steps])
      \<longleftrightarrow> \<not> (\<exists>C \<subseteq> {..<length steps}. C \<noteq> {} \<and> (\<forall>i\<in>C. \<exists>j\<in>C. j \<in> set (deps ! i)))"
  proof (cases "wave_loop deps [] [0..<length steps]")
    case (Inl exc)
    have "set (deps ! i) \<subseteq> set [] \<union> set [0..<length steps]" if "i \<in> set [0..<length steps]" for i
      using deps depends_less that by fastforce
    from wave_loop_Inl [OF Inl this] Inl show ?thesis
      by (auto simp: atLeast0LessThan)
  next
    case (Inr waves)
    have "C = {}" if "C \<subseteq> {..<length steps}" "\<forall>i\<in>C. \<exists>j\<in>C. j \<in> set (deps ! i)" for C
      using wave_loop_no_cycle [OF Inr _ _ that(2)] that(1) by (simp add: atLeast0LessThan)
    then have "\<not> (\<exists>C \<subseteq> {..<length steps}. C \<noteq> {} \<and> (\<forall>i\<in>C. \<exists>j\<in>C. j \<in> set (deps ! i)))"
      by blast
    then show ?thesis
      using Inr by simp
  qed
  also have "\<dots> \<longleftrightarrow> \<not> (\<exists>C. C \<noteq> {} \<and> (\<forall>i\<in>C. \<exists>j\<in>C. (i, j) \<in> {(i, j). depends rp steps i j}))"
  proof -
    have "C \<subseteq> {..<length steps} \<and> (\<forall>i\<in>C. \<exists>j\<in>C. j \<in> set (deps ! i)) \<longleftrightarrow> (\<forall>i\<in>C. \<exists>j\<in>C. depends rp steps i j)" for C
    proof
      assume C: "C \<subseteq> {..<length steps} \<and> (\<forall>i\<in>C. \<exists>j\<in>C. j \<in> set (deps ! i))"
      then show "\<forall>i\<in>C. \<exists>j\<in>C. depends rp steps i j"
        using deps by blast
    next
      assume C: "\<forall>i\<in>C. \<exists>j\<in>C. depends rp steps i j"
      then have sub: "C \<subseteq> {..<length steps}"
        using depends_less by blast
      with C deps show "C \<subseteq> {..<length steps} \<and> (\<forall>i\<in>C. \<exists>j\<in>C. j \<in> set (deps ! i))"
        by blast
    qed
    note same = this
    have "(\<exists>C \<subseteq> {..<length steps}. C \<noteq> {} \<and> (\<forall>i\<in>C. \<exists>j\<in>C. j \<in> set (deps ! i)))
        \<longleftrightarrow> (\<exists>C. C \<noteq> {} \<and> (C \<subseteq> {..<length steps} \<and> (\<forall>i\<in>C. \<exists>j\<in>C. j \<in> set (deps ! i))))"
      by blast
    then show ?thesis
      unfolding same by simp
  qed
  also have "\<dots> \<longleftrightarrow> acyclic {(i, j). depends rp steps i j}"
    using waiting_set_iff_cycle [OF finite_depends] by blast
  finally show ?thesis
    using Inr known by (simp add: plan_waves_steps [OF assms])
qed

lemma plan_waves_order:
  assumes "dict_get_none plan (lit ''steps'') = PList (map PDict steps)" and "plan_waves rp plan = Inr waves"
    and "k < length waves" and "i \<in> set (waves ! k)"
  shows "(\<forall>j. depends rp steps i j \<longrightarrow> (\<exists>m<k. j \<in> set (waves ! m)))
    \<and> (0 < k \<longrightarrow> (\<exists>j. depends rp steps i j \<and> j \<in> set (waves ! (k - 1))))"
proof -
  obtain deps where deps: "resolve_steps rp (id_to_index rp steps) steps = Inr deps"
    and run: "wave_loop deps [] [0..<length steps] = Inr waves"
    using assms(2) by (auto simp: plan_waves_steps [OF assms(1)])
  have order: "i \<in> set [0..<length steps]" "set (deps ! i) \<subseteq> set (concat (take k waves))"
    "0 < k \<Longrightarrow> \<not> set (deps ! i) \<subseteq> set (concat (take (k - 1) waves))"
    using wave_loop_order [OF run _ assms(3,4)] by simp_all
  then have edges: "set (deps ! i) = {j. depends rp steps i j}"
    using resolve_steps_deps [OF deps] by simp
  have "\<exists>m<k. j \<in> set (waves ! m)" if j: "j \<in> set (concat (take k waves))" for j
  proof -
    obtain w where "w \<in> set (take k waves)" "j \<in> set w"
      using j by auto
    then show ?thesis
      by (auto simp: in_set_conv_nth [of w])
  qed
  moreover have "\<exists>j. depends rp steps i j \<and> j \<in> set (waves ! (k - 1))" if k: "0 < k"
  proof -
    have "take k waves = take (k - 1) waves @ [waves ! (k - 1)]"
      using k assms(3) by (metis One_nat_def Suc_diff_1 Suc_lessD take_Suc_conv_app_nth)
    then have "set (concat (take k waves)) = set (concat (take (k - 1) waves)) \<union> set (waves ! (k - 1))"
      by simp
    then show ?thesis
      using order(2) order(3) [OF k] edges by blast
  qed
  ultimately show ?thesis
    using order(2) edges by blast
qed

text \<open>
  C38: \<^verbatim>\<open>plan_waves\<close> succeeds on a list of steps exactly when every name in a \<^verbatim>\<open>depends_on\<close> stands
  for a step and the dependencies have no cycle.  Its waves then hold every step index once,
  each wave is non-empty and ascending, a step only depends on steps of earlier waves, and
  every step of a later wave depends on one of the wave just before it: no step runs later
  than it has to.
\<close>

theorem plan_waves_topological:
  assumes "dict_get_none plan (lit ''steps'') = PList (map PDict steps)"
  shows "(is_ok (plan_waves rp plan) \<longleftrightarrow> known_dependencies rp steps \<and> acyclic {(i, j). depends rp steps i j})
    \<and> (\<forall>waves. plan_waves rp plan = Inr waves \<longrightarrow>
         distinct (concat waves) \<and> set (concat waves) = {..<length steps}
         \<and> (\<forall>k<length waves. waves ! k \<noteq> [] \<and> sorted (waves ! k)
             \<and> (\<forall>i\<in>set (waves ! k). (\<forall>j. depends rp steps i j \<longrightarrow> (\<exists>m<k. j \<in> set (waves ! m)))
                  \<and> (0 < k \<longrightarrow> (\<exists>j. depends rp steps i j \<and> j \<in> set (waves ! (k - 1)))))))"
proof (intro conjI allI impI)
  fix waves assume run: "plan_waves rp plan = Inr waves"
  then obtain deps where "wave_loop deps [] [0..<length steps] = Inr waves"
    by (auto simp: plan_waves_steps [OF assms])
  from wave_loop_partition [OF this]
  have part: "distinct (concat waves)" "set (concat waves) = {..<length steps}" "[] \<notin> set waves" "\<forall>w\<in>set waves. sorted w"
    by (simp_all add: atLeast0LessThan)
  show "distinct (concat waves)" "set (concat waves) = {..<length steps}"
    using part by simp_all
  fix k assume k: "k < length waves"
  then have mem: "waves ! k \<in> set waves"
    by simp
  show "sorted (waves ! k)"
    using part(4) mem by blast
  show "waves ! k \<noteq> []"
    using part(3) mem by metis
  show "\<forall>i\<in>set (waves ! k). (\<forall>j. depends rp steps i j \<longrightarrow> (\<exists>m<k. j \<in> set (waves ! m)))
      \<and> (0 < k \<longrightarrow> (\<exists>j. depends rp steps i j \<and> j \<in> set (waves ! (k - 1))))"
    using plan_waves_order [OF assms run k] by blast
qed (rule plan_waves_Inr_iff [OF assms])

section \<open>Validated plans\<close>

lemma text_list_inject [simp]: "text_list xs = text_list ys \<longleftrightarrow> xs = ys"
  by (auto simp: text_list_def inj_map_eq_map inj_def)

lemma steps_errors_Nil:
  "steps_errors rp plan runtime n raws = Inr [] \<Longrightarrow> raw \<in> set raws \<Longrightarrow> \<exists>k. step_errors rp plan runtime k raw = Inr []"
  by (induction raws arbitrary: n) auto

lemma step_errors_Nil:
  assumes "step_errors rp plan runtime k raw = Inr []"
  obtains s allowed_phase commands where
    "raw = PDict s" "DETERMINISTIC_STEPS runtime (text_or rp (dict_get_none s (lit ''id'')) []) = Some (allowed_phase, commands)"
    "truthy (dict_get_none s (lit ''id''))" "dict_get_none s (lit ''phase'') = PStr allowed_phase"
    "text_or rp (dict_get_none s (lit ''id'')) [] \<noteq> lit ''node-toolchain'' \<Longrightarrow> dict_get_none s (lit ''command'') \<in> set commands"
    "truthy (dict_get_none s (lit ''command''))"
    "runtime = lit ''node'' \<Longrightarrow> \<exists>place. node_step_errors rp plan place s (text_or rp (dict_get_none s (lit ''id'')) []) = Inr []"
proof (cases raw)
  case (PDict s)
  show thesis
  proof (rule that [OF PDict])
    show "DETERMINISTIC_STEPS runtime (text_or rp (dict_get_none s (lit ''id'')) []) =
        Some (fst (the (DETERMINISTIC_STEPS runtime (text_or rp (dict_get_none s (lit ''id'')) []))),
              snd (the (DETERMINISTIC_STEPS runtime (text_or rp (dict_get_none s (lit ''id'')) []))))"
      using assms unfolding step_errors_def PDict by (auto simp: Let_def split: option.splits)
  qed (use assms in \<open>unfold step_errors_def PDict, auto simp: Let_def split: option.splits if_splits\<close>)
qed (use assms in \<open>simp_all add: step_errors_def Let_def\<close>)

lemma dependency_errors_Nil:
  "dependency_errors rp step_ids n steps = Inr [] \<Longrightarrow> s \<in> set steps \<Longrightarrow>
   \<exists>expected. expected_dependencies step_ids (dict_get_none s (lit ''id'')) = Inr expected
     \<and> dict_get_none s (lit ''depends_on'') = text_list (map lit expected)"
  by (induction steps arbitrary: n) (auto simp: Let_def)

lemma sequence_errors_Nil:
  assumes "sequence_errors rp plan b runtime steps = Inr []"
  shows "(b \<longrightarrow> map (\<lambda>s. text_or rp (dict_get_none s (lit ''id'')) []) steps \<in> set (DETERMINISTIC_STEP_SEQUENCES runtime))
    \<and> dependency_errors rp (map (\<lambda>s. text_or rp (dict_get_none s (lit ''id'')) []) steps) 0 steps = Inr []"
  using assms unfolding sequence_errors_def Let_def bindR_Inr_iff by auto

text \<open>What a valid plan that can be built is made of.\<close>

lemma validate_plan_ok:
  assumes "validate_plan rp (PDict plan) = Inr pv" and "pv_ok pv" and "truthy (dict_get_none plan (lit ''buildable''))"
  obtains steps where "dict_get_none plan (lit ''steps'') = PList (map PDict steps)"
    "text_or rp (dict_get_none plan (lit ''runtime'')) [] \<in> {lit ''node'', lit ''python''}"
    "map (\<lambda>s. text_or rp (dict_get_none s (lit ''id'')) []) steps
       \<in> set (DETERMINISTIC_STEP_SEQUENCES (text_or rp (dict_get_none plan (lit ''runtime'')) []))"
    "\<And>s. s \<in> set steps \<Longrightarrow> \<exists>k. step_errors rp plan (text_or rp (dict_get_none plan (lit ''runtime'')) []) k (PDict s) = Inr []"
    "dependency_errors rp (map (\<lambda>s. text_or rp (dict_get_none s (lit ''id'')) []) steps) 0 steps = Inr []"
proof -
  let ?runtime = "text_or rp (dict_get_none plan (lit ''runtime'')) []"
  obtain raws where raws: "dict_get_none plan (lit ''steps'') = PList raws"
    using assms(1,2) unfolding validate_plan_def
    by (cases "dict_get_none plan (lit ''steps'')") (auto simp: Let_def)
  have buildable: "buildable_errors rp plan ?runtime = Inr []" and steps: "steps_errors rp plan ?runtime 0 raws = Inr []"
    using assms raws unfolding validate_plan_def by (auto simp: Let_def split: sum.splits)
  have "\<exists>s. raw = PDict s" if "raw \<in> set raws" for raw
    using steps_errors_Nil [OF steps that] by (meson step_errors_Nil)
  then obtain ds where ds: "raws = map PDict ds"
    by (metis ex_map_conv)
  have seq: "sequence_errors rp plan True ?runtime ds = Inr []"
    using assms raws unfolding validate_plan_def ds by (auto simp: Let_def)
  note sequence = sequence_errors_Nil [OF seq]
  show thesis
  proof (rule that)
    show "dict_get_none plan (lit ''steps'') = PList (map PDict ds)"
      using raws ds by simp
    show "?runtime \<in> {lit ''node'', lit ''python''}"
      using buildable unfolding buildable_errors_def by (auto simp: Let_def split: if_splits)
    show "map (\<lambda>s. text_or rp (dict_get_none s (lit ''id'')) []) ds \<in> set (DETERMINISTIC_STEP_SEQUENCES ?runtime)"
      using sequence by simp
    show "dependency_errors rp (map (\<lambda>s. text_or rp (dict_get_none s (lit ''id'')) []) ds) 0 ds = Inr []"
      using sequence by simp
    show "\<exists>k. step_errors rp plan ?runtime k (PDict s) = Inr []" if "s \<in> set ds" for s
      using steps_errors_Nil [OF steps] that ds by simp
  qed
qed

text \<open>A chain of steps runs one step at a time.\<close>

lemma wave_loop_chain:
  assumes "\<And>i. i < n \<Longrightarrow> deps ! i = (if i = 0 then [] else [i - 1])"
  shows "m \<le> n \<Longrightarrow> wave_loop deps [0..<m] [m..<n] = Inr (map (\<lambda>i. [i]) [m..<n])"
proof (induction "n - m" arbitrary: m)
  case 0
  then show ?case
    by (simp add: wave_loop.simps)
next
  case (Suc d)
  then have m: "m < n"
    by simp
  have ready: "filter (\<lambda>i. set (deps ! i) \<subseteq> set [0..<m]) [m..<n] = [m]"
  proof -
    have "filter (\<lambda>i. set (deps ! i) \<subseteq> set [0..<m]) [Suc m..<n] = []"
      using assms by (auto simp: filter_empty_conv)
    moreover have "set (deps ! m) \<subseteq> set [0..<m]"
      using assms [OF m] by auto
    ultimately show ?thesis
      by (simp add: upt_conv_Cons [OF m])
  qed
  have later: "filter (\<lambda>i. i \<notin> set [m]) [m..<n] = [Suc m..<n]"
    by (simp add: upt_conv_Cons [OF m] filter_id_conv)
  have "wave_loop deps [0..<Suc m] [Suc m..<n] = Inr (map (\<lambda>i. [i]) [Suc m..<n])"
    using Suc(1) [of "Suc m"] Suc(2) m by linarith
  then show ?case
    unfolding wave_loop.simps [of deps "[0..<m]"] Let_def ready using later m
    by (simp add: upt_conv_Cons [OF m])
qed

lemma id_to_index_distinct:
  assumes "distinct (map (step_key rp) steps)" and "j < length steps"
  shows "id_to_index rp steps (step_key rp (steps ! j)) = Some j"
proof -
  have "map_of (rev (zip (map (step_key rp) steps) [0..<length steps])) = map_of (zip (map (step_key rp) steps) [0..<length steps])"
    using assms(1) by (subst map_of_inject_set) (simp_all add: rev_map [symmetric])
  then show ?thesis
    using map_of_zip_nth [of "map (step_key rp) steps" "[0..<length steps]" j] assms
    by (simp add: id_to_index_def)
qed

lemma plan_waves_chain:
  assumes steps: "dict_get_none plan (lit ''steps'') = PList (map PDict steps)" and keys: "distinct (map (step_key rp) steps)"
    and chain: "\<And>i. i < length steps \<Longrightarrow> dict_get_none (steps ! i) (lit ''depends_on'')
      = text_list (if i = 0 then [] else [step_key rp (steps ! (i - 1))])"
  shows "plan_waves rp plan = Inr (map (\<lambda>i. [i]) [0..<length steps])"
proof -
  define deps where "deps = map (\<lambda>i. if i = 0 then [] else [i - 1]) [0..<length steps]"
  have "resolve_steps rp (id_to_index rp steps) steps = Inr deps"
    unfolding resolve_steps_Inr list_all2_conv_all_nth
  proof (intro conjI allI impI)
    fix i assume i: "i < length steps"
    show "\<exists>names. iterate (dict_get_none (steps ! i) (lit ''depends_on'')) = Inr names
        \<and> list_all (\<lambda>dep. id_to_index rp steps (py_str rp dep) \<noteq> None) names
        \<and> map Some (deps ! i) = map (id_to_index rp steps \<circ> py_str rp) names"
    proof (cases i)
      case 0
      then show ?thesis
        using chain [OF i] i by (simp add: deps_def text_list_def)
    next
      case (Suc k)
      then show ?thesis
        using chain [OF i] i id_to_index_distinct [OF keys, of k] by (simp add: deps_def text_list_def py_str_def)
    qed
  qed (simp add: deps_def)
  moreover have "wave_loop deps [] [0..<length steps] = Inr (map (\<lambda>i. [i]) [0..<length steps])"
    using wave_loop_chain [of "length steps" deps 0] by (simp add: deps_def)
  ultimately show ?thesis
    by (simp add: plan_waves_steps [OF steps])
qed

text \<open>The identifiers of a generated sequence, and the chain they form.\<close>

lemma sequence_distinct: "step_ids \<in> set (DETERMINISTIC_STEP_SEQUENCES runtime) \<Longrightarrow> distinct step_ids"
  unfolding DETERMINISTIC_STEP_SEQUENCES_def by (auto split: if_splits)

lemma sequence_chain:
  assumes "step_ids \<in> set (DETERMINISTIC_STEP_SEQUENCES runtime)" and "i < length step_ids"
    and "expected_dependencies step_ids (PStr (step_ids ! i)) = Inr expected"
  shows "map lit expected = (if i = 0 then [] else [step_ids ! (i - 1)])"
  using assms unfolding DETERMINISTIC_STEP_SEQUENCES_def
  by (auto simp: expected_dependencies_def in_set_def less_Suc_eq numeral_2_eq_2 numeral_3_eq_3 split: if_splits)

lemma int_str_not_word: "c \<in> set (int_str i) \<Longrightarrow> c \<noteq> 110 \<and> c \<noteq> 112"
  by (auto simp: int_str_def split: if_splits dest: nat_str_ascii)

lemma step_id_text:
  assumes "text_or rp v [] = lit name" and "truthy v" and "rp v \<noteq> lit name"
    and "name \<in> {''node-toolchain'', ''node-install'', ''node-build'', ''python-install''}"
  shows "v = PStr (lit name)"
proof -
  have "110 \<in> set (lit name) \<or> 112 \<in> set (lit name)"
    using assms(4) by (auto simp: lit_def)
  then have "int_str i \<noteq> lit name" for i
    using int_str_not_word [of _ i] by metis
  moreover have "lit name \<noteq> lit ''None''" "lit name \<noteq> lit ''True''" "lit name \<noteq> lit ''False''"
    using assms(4) by auto
  ultimately show ?thesis
    using assms(1-3) by (auto simp: text_or_def py_str_def split: pyval.splits if_splits)
qed

lemma py_eq_PStr [simp]: "py_eq (PStr a) v \<longleftrightarrow> v = PStr a" "py_eq v (PStr a) \<longleftrightarrow> v = PStr a"
  by (auto simp: py_eq.simps split: pyval.splits option.splits pyfloat.splits)

text \<open>
  The specification of a step: its exact command, and for Node the pinned manager it belongs to.
\<close>

definition pinned_step :: "(pyval \<Rightarrow> pystr) \<Rightarrow> dict \<Rightarrow> pyval \<Rightarrow> pyval \<Rightarrow> bool" where
  "pinned_step rp manager sid command \<longleftrightarrow>
     manager_supported rp manager = Inr True \<and> truthy (dict_get_none manager (lit ''supported''))
     \<and> (sid = PStr (lit ''node-toolchain'')
          \<and> py_eq command (PList [PStr (lit ''gate-package-manager''), PStr (lit ''prepare''),
                dict_get_none manager (lit ''name''), dict_get_none manager (lit ''version'')])
          \<and> truthy (dict_get_none manager (lit ''requires_prepare''))
          \<and> (\<exists>expected. expected_preparation rp manager = Inr expected \<and> py_eq (dict_get_none manager (lit ''preparation'')) expected)
        \<or> (\<exists>n\<in>set (map lit [''npm'', ''pnpm'', ''yarn'']). dict_get_none manager (lit ''name'') = PStr n
            \<and> (sid = PStr (lit ''node-install'') \<and> (\<exists>c. INSTALL_COMMANDS n = Some c \<and> command = text_list c)
               \<or> sid = PStr (lit ''node-build'') \<and> command = text_list [n, lit ''run'', lit ''build''])))"

definition generated_step :: "(pyval \<Rightarrow> pystr) \<Rightarrow> dict \<Rightarrow> dict \<Rightarrow> bool" where
  "generated_step rp plan s \<longleftrightarrow>
     (let sid = dict_get_none s (lit ''id''); command = dict_get_none s (lit ''command'') in
      if text_or rp (dict_get_none plan (lit ''runtime'')) [] = lit ''node''
      then (\<exists>manager. or_dict (dict_get_none plan (lit ''package_manager'')) = Inr manager \<and> pinned_step rp manager sid command)
      else sid = PStr (lit ''python-install'')
        \<and> command = text_list (map lit [''python'', ''-m'', ''pip'', ''install'', ''-r'', ''requirements.txt'']))"

lemma node_step_errors_Nil:
  assumes "node_step_errors rp plan place s step_id = Inr []" and "truthy (dict_get_none s (lit ''command''))"
  obtains manager where "or_dict (dict_get_none plan (lit ''package_manager'')) = Inr manager"
    "manager_supported rp manager = Inr True" "truthy (dict_get_none manager (lit ''supported''))"
    "step_id = lit ''node-toolchain'' \<Longrightarrow>
       py_eq (dict_get_none s (lit ''command'')) (PList [PStr (lit ''gate-package-manager''), PStr (lit ''prepare''),
           dict_get_none manager (lit ''name''), dict_get_none manager (lit ''version'')])
       \<and> truthy (dict_get_none manager (lit ''requires_prepare''))
       \<and> (\<exists>expected. expected_preparation rp manager = Inr expected \<and> py_eq (dict_get_none manager (lit ''preparation'')) expected)"
    "step_id \<noteq> lit ''node-toolchain'' \<Longrightarrow>
       \<exists>x. first_item (dict_get_none s (lit ''command'')) = Inr x \<and> py_eq x (dict_get_none manager (lit ''name''))"
proof -
  obtain manager where manager: "or_dict (dict_get_none plan (lit ''package_manager'')) = Inr manager"
    using assms(1) unfolding node_step_errors_def by (auto simp: Let_def)
  show thesis
    by (rule that [OF manager])
      (use assms manager in \<open>auto simp: node_step_errors_def Let_def split: if_splits\<close>)
qed

lemma install_command_manager:
  assumes "command \<in> set (map (text_list \<circ> map lit)
      [[''npm'', ''ci''], [''pnpm'', ''install'', ''--frozen-lockfile''], [''yarn'', ''install'', ''--frozen-lockfile'']])"
    and "first_item command = Inr x" and "py_eq x v"
  shows "\<exists>n\<in>set (map lit [''npm'', ''pnpm'', ''yarn'']). v = PStr n \<and> (\<exists>c. INSTALL_COMMANDS n = Some c \<and> command = text_list c)"
  using assms by (auto simp: text_list_def first_item_def INSTALL_COMMANDS_def)

lemma build_command_manager:
  assumes "command \<in> set (map (text_list \<circ> map lit)
      [[''npm'', ''run'', ''build''], [''pnpm'', ''run'', ''build''], [''yarn'', ''run'', ''build'']])"
    and "first_item command = Inr x" and "py_eq x v"
  shows "\<exists>n\<in>set (map lit [''npm'', ''pnpm'', ''yarn'']). v = PStr n \<and> command = text_list [n, lit ''run'', lit ''build'']"
  using assms by (auto simp: text_list_def first_item_def)

lemma DETERMINISTIC_STEPS_cases:
  assumes "DETERMINISTIC_STEPS runtime step_id = Some (phase, commands)"
  obtains (node) name where "runtime = lit ''node''" "step_id = lit name" "name \<in> {''node-toolchain'', ''node-install'', ''node-build''}"
    | (python) "runtime = lit ''python''" "step_id = lit ''python-install''"
        "commands = [text_list (map lit [''python'', ''-m'', ''pip'', ''install'', ''-r'', ''requirements.txt''])]"
  using assms unfolding DETERMINISTIC_STEPS_def by (auto split: if_splits)

lemma valid_step_generated:
  assumes "step_errors rp plan (text_or rp (dict_get_none plan (lit ''runtime'')) []) k (PDict s) = Inr []"
    and "\<forall>v. rp v \<notin> set (map lit [''node-toolchain'', ''node-install'', ''node-build'', ''python-install''])"
  shows "generated_step rp plan s \<and> step_key rp s = text_or rp (dict_get_none s (lit ''id'')) []
    \<and> dict_get_none s (lit ''id'') = PStr (step_key rp s)"
proof -
  let ?runtime = "text_or rp (dict_get_none plan (lit ''runtime'')) []"
  let ?sid = "dict_get_none s (lit ''id'')" and ?command = "dict_get_none s (lit ''command'')"
  from assms(1) obtain allowed commands where
    known: "DETERMINISTIC_STEPS ?runtime (text_or rp ?sid []) = Some (allowed, commands)" and sid: "truthy ?sid"
    and command: "text_or rp ?sid [] \<noteq> lit ''node-toolchain'' \<Longrightarrow> ?command \<in> set commands" "truthy ?command"
    and node: "?runtime = lit ''node'' \<Longrightarrow> \<exists>place. node_step_errors rp plan place s (text_or rp ?sid []) = Inr []"
    by (elim step_errors_Nil) auto
  obtain name where name: "?sid = PStr (lit name)"
    using known
  proof (cases rule: DETERMINISTIC_STEPS_cases)
    case (node name)
    then show ?thesis
      using step_id_text [OF node(2) sid] assms(2) that by auto
  next
    case python
    then show ?thesis
      using step_id_text [OF python(2) sid] assms(2) that by auto
  qed
  have label: "text_or rp ?sid [] = lit name"
    using sid name by (simp add: text_or_def py_str_def)
  have "generated_step rp plan s"
  proof (cases "?runtime = lit ''node''")
    case True
    then obtain place where none: "node_step_errors rp plan place s (lit name) = Inr []"
      using node label by auto
    from node_step_errors_Nil [OF none command(2)] obtain manager where
      manager: "or_dict (dict_get_none plan (lit ''package_manager'')) = Inr manager"
        "manager_supported rp manager = Inr True" "truthy (dict_get_none manager (lit ''supported''))"
      and toolchain: "name = ''node-toolchain'' \<Longrightarrow> pinned_step rp manager ?sid ?command"
      and other: "name \<noteq> ''node-toolchain'' \<Longrightarrow> \<exists>x. first_item ?command = Inr x \<and> py_eq x (dict_get_none manager (lit ''name''))"
      using name by (simp only: pinned_step_def lit_eq_iff) metis
    have "pinned_step rp manager ?sid ?command"
    proof (cases "name = ''node-toolchain''")
      case False
      then have "(name = ''node-install'' \<and> ?command \<in> set (map (text_list \<circ> map lit)
            [[''npm'', ''ci''], [''pnpm'', ''install'', ''--frozen-lockfile''], [''yarn'', ''install'', ''--frozen-lockfile'']])
          \<or> name = ''node-build'' \<and> ?command \<in> set (map (text_list \<circ> map lit)
            [[''npm'', ''run'', ''build''], [''pnpm'', ''run'', ''build''], [''yarn'', ''run'', ''build'']]))"
        using known command True unfolding label DETERMINISTIC_STEPS_def by (auto split: if_splits)
      then show ?thesis
        using other [OF False] manager name install_command_manager [of ?command] build_command_manager [of ?command]
        unfolding pinned_step_def by metis
    qed (rule toolchain)
    with True manager show ?thesis
      by (auto simp: generated_step_def Let_def)
  next
    case False
    then show ?thesis
      using known command name unfolding label generated_step_def Let_def
      by (auto elim!: DETERMINISTIC_STEPS_cases)
  qed
  then show ?thesis
    using name label by (simp add: step_key_def py_str_def)
qed

text \<open>
  C36: a plan that validates and can be built runs fixed commands only.  Each of its steps is one
  of the generated ones: for Python the installation of \<^verbatim>\<open>requirements.txt\<close>, for Node the preparation
  of the pinned tool, its frozen installation or \<^verbatim>\<open>run build\<close>, with a package manager whose exact
  version is supported.  The steps run one after another, in the order of the list.
\<close>

theorem validated_plan_commands:
  assumes valid: "validate_plan rp (PDict plan) = Inr pv" "pv_ok pv" and buildable: "truthy (dict_get_none plan (lit ''buildable''))"
    and repr: "\<forall>v. rp v \<notin> set (map lit [''node-toolchain'', ''node-install'', ''node-build'', ''python-install''])"
  shows "\<exists>steps. dict_get_none plan (lit ''steps'') = PList (map PDict steps)
    \<and> text_or rp (dict_get_none plan (lit ''runtime'')) [] \<in> {lit ''node'', lit ''python''}
    \<and> (\<forall>s\<in>set steps. generated_step rp plan s)
    \<and> plan_waves rp plan = Inr (map (\<lambda>i. [i]) [0..<length steps])"
proof -
  obtain steps where steps: "dict_get_none plan (lit ''steps'') = PList (map PDict steps)"
    and runtime: "text_or rp (dict_get_none plan (lit ''runtime'')) [] \<in> {lit ''node'', lit ''python''}"
    and ids: "map (\<lambda>s. text_or rp (dict_get_none s (lit ''id'')) []) steps
       \<in> set (DETERMINISTIC_STEP_SEQUENCES (text_or rp (dict_get_none plan (lit ''runtime'')) []))"
    and each: "\<And>s. s \<in> set steps \<Longrightarrow> \<exists>k. step_errors rp plan (text_or rp (dict_get_none plan (lit ''runtime'')) []) k (PDict s) = Inr []"
    and deps: "dependency_errors rp (map (\<lambda>s. text_or rp (dict_get_none s (lit ''id'')) []) steps) 0 steps = Inr []"
    by (rule validate_plan_ok [OF valid buildable]) (rule that; assumption)
  have facts: "generated_step rp plan s \<and> step_key rp s = text_or rp (dict_get_none s (lit ''id'')) []
      \<and> dict_get_none s (lit ''id'') = PStr (step_key rp s)" if mem: "s \<in> set steps" for s
  proof -
    obtain k where "step_errors rp plan (text_or rp (dict_get_none plan (lit ''runtime'')) []) k (PDict s) = Inr []"
      using each [OF mem] by blast
    then show ?thesis
      by (rule valid_step_generated [OF _ repr])
  qed
  have keys: "map (\<lambda>s. text_or rp (dict_get_none s (lit ''id'')) []) steps = map (step_key rp) steps"
    by (rule map_cong [OF refl]) (metis facts)
  have "plan_waves rp plan = Inr (map (\<lambda>i. [i]) [0..<length steps])"
  proof (rule plan_waves_chain [OF steps])
    show "distinct (map (step_key rp) steps)"
      using sequence_distinct [OF ids] keys by simp
    fix i assume i: "i < length steps"
    then have s: "steps ! i \<in> set steps"
      by simp
    obtain expected where expected: "expected_dependencies (map (step_key rp) steps) (PStr (step_key rp (steps ! i))) = Inr expected"
      "dict_get_none (steps ! i) (lit ''depends_on'') = text_list (map lit expected)"
      using dependency_errors_Nil [OF deps s] unfolding keys by (metis facts [OF s])
    have "map lit expected = (if i = 0 then [] else [map (step_key rp) steps ! (i - 1)])"
      by (rule sequence_chain [OF ids [unfolded keys]]) (use i expected in simp_all)
    with expected(2) i show "dict_get_none (steps ! i) (lit ''depends_on'')
        = text_list (if i = 0 then [] else [step_key rp (steps ! (i - 1))])"
      by (simp split: if_splits)
  qed
  with steps runtime facts show ?thesis
    by blast
qed

section \<open>Generated plans validate\<close>

lemma steps_errors_all:
  "(\<And>raw k. raw \<in> set raws \<Longrightarrow> step_errors rp plan runtime k raw = Inr []) \<Longrightarrow> steps_errors rp plan runtime n raws = Inr []"
  by (induction raws arbitrary: n) auto

lemma dependency_errors_all:
  "(\<And>s. s \<in> set steps \<Longrightarrow> \<exists>expected. expected_dependencies step_ids (dict_get_none s (lit ''id'')) = Inr expected
     \<and> dict_get_none s (lit ''depends_on'') = text_list (map lit expected)) \<Longrightarrow>
   dependency_errors rp step_ids n steps = Inr []"
  by (induction steps arbitrary: n) (auto simp: Let_def when_true_def)

lemma py_eq_preparation: "py_eq (preparation_object name version (pin_value pin)) (preparation_object name version (pin_value pin))"
  by (cases pin) (simp_all add: preparation_object_def obj_def keyed_def text_list_def pin_value_def py_eq.simps)

lemma tool_preparation_refl: "tool_preparation name version (pin_value pin) = Inr p \<Longrightarrow> py_eq p p"
  using py_eq_preparation [of name version pin]
  by (auto simp: tool_preparation_def pin_value_def truthy_def split: if_splits option.splits)

lemma text_or_PStr [simp]: "text_or rp (PStr s) [] = s"
  by (simp add: text_or_def truthy_def py_str_def)

text \<open>What a Node plan needs of the inspected manager once it holds commands.\<close>

definition pinned_manager :: "dict \<Rightarrow> pystr \<Rightarrow> pystr \<Rightarrow> bool" where
  "pinned_manager m name version \<longleftrightarrow>
     dict_get_none m (lit ''name'') = PStr name \<and> name \<in> set (map lit [''npm'', ''pnpm'', ''yarn''])
     \<and> dict_get m (lit ''version'') = Some (PStr version) \<and> supported_version name version = Inr True
     \<and> truthy (dict_get_none m (lit ''supported''))
     \<and> (truthy (dict_get_none m (lit ''requires_prepare'')) \<longrightarrow>
          (\<exists>p. (\<forall>rp. expected_preparation rp m = Inr p) \<and> py_eq (dict_get_none m (lit ''preparation'')) p))"

lemma pinned_manager_supported: "pinned_manager m name version \<Longrightarrow> manager_supported rp m = Inr True"
  by (auto simp: pinned_manager_def manager_supported_def dict_get_none_def [of m "lit ''version''"])

lemma pinned_manager_preparation:
  assumes "dict_get_none m (lit ''name'') = PStr name" "dict_get m (lit ''version'') = Some (PStr version)"
    "dict_get_none m (lit ''declared_integrity'') = pin_value pin"
    "tool_preparation name version (pin_value pin) = Inr (dict_get_none m (lit ''preparation''))"
  shows "\<exists>p. (\<forall>rp. expected_preparation rp m = Inr p) \<and> py_eq (dict_get_none m (lit ''preparation'')) p"
  using assms tool_preparation_refl
  by (auto simp: expected_preparation_def dict_get_none_def [of m "lit ''version''"])

lemma toolchain_step_valid:
  assumes "pinned_manager m name version" and "truthy (dict_get_none m (lit ''requires_prepare''))"
    and "dict_get_none plan (lit ''package_manager'') = PDict m"
  shows "step_errors rp plan (lit ''node'') k (step ''node-toolchain'' ''prepare''
    [PStr (lit ''gate-package-manager''), PStr (lit ''prepare''), PStr name, PStr version] why []) = Inr []"
proof -
  have get: "dict_get_none m (lit ''name'') = PStr name" "dict_get_none m (lit ''version'') = PStr version"
    "truthy (dict_get_none m (lit ''supported''))"
    using assms(1) by (auto simp: pinned_manager_def dict_get_none_def)
  obtain p where preparation: "expected_preparation rp m = Inr p" "py_eq (dict_get_none m (lit ''preparation'')) p"
    using assms(1,2) by (auto simp: pinned_manager_def)
  have same: "py_eq (PList [PStr (lit ''gate-package-manager''), PStr (lit ''prepare''), PStr name, PStr version])
      (PList [PStr (lit ''gate-package-manager''), PStr (lit ''prepare''), PStr name, PStr version])"
    by (simp add: py_eq.simps)
  have "node_step_errors rp plan place (keyed kvs) (lit ''node-toolchain'') = Inr []"
    if "map_of kvs ''command'' = Some (PList [PStr (lit ''gate-package-manager''), PStr (lit ''prepare''), PStr name, PStr version])"
    for place kvs
    unfolding node_step_errors_def
    using that assms(2,3) get same pinned_manager_supported [OF assms(1)] preparation
    by (simp add: Let_def when_true_def truthy_def [of "PList _"])
  then show ?thesis
    by (simp add: step_errors_def step_def obj_def Let_def in_set_def truthy_def DETERMINISTIC_STEPS_def when_true_def text_list_def)
qed

lemma command_step_valid:
  assumes "pinned_manager m name version" and "dict_get_none plan (lit ''package_manager'') = PDict m"
    and "(sid, phase, command) \<in> {(''node-install'', ''install'', the (INSTALL_COMMANDS name)), (''node-build'', ''build'', [name, lit ''run'', lit ''build''])}"
  shows "step_errors rp plan (lit ''node'') k (step sid phase (map PStr command) why deps) = Inr []"
proof -
  have get: "dict_get_none m (lit ''name'') = PStr name" "truthy (dict_get_none m (lit ''supported''))"
    and name: "name \<in> {lit ''npm'', lit ''pnpm'', lit ''yarn''}"
    using assms(1) by (auto simp: pinned_manager_def)
  obtain rest where first: "command = name # rest"
    using name assms(3) by (auto simp: INSTALL_COMMANDS_def)
  have other: "sid \<noteq> ''node-toolchain''"
    using assms(3) by auto
  have "node_step_errors rp plan place (keyed kvs) (lit sid) = Inr []"
    if "map_of kvs ''command'' = Some (PList (map PStr command))" for place kvs
    unfolding node_step_errors_def assms(2) or_dict_PDict bindR_simps
    using that other get first pinned_manager_supported [OF assms(1)]
    by (simp add: Let_def when_true_def truthy_def [of "PList _"] first_item_def)
  moreover have "\<exists>commands. DETERMINISTIC_STEPS (lit ''node'') (lit sid) = Some (lit phase, commands) \<and> PList (map PStr command) \<in> set commands"
    using assms(3) name by (auto simp: DETERMINISTIC_STEPS_def INSTALL_COMMANDS_def text_list_def)
  moreover have "sid \<in> {''node-install'', ''node-build''}" "phase \<in> {''install'', ''build''}"
    using assms(3) by auto
  ultimately show ?thesis
    using first by (auto simp: step_errors_def step_def obj_def Let_def in_set_def truthy_def when_true_def text_list_def)
qed

lemma validate_plan_Nil:
  assumes "version_errors rp (dict_get_none plan (lit ''ir_version'')) = []"
    and "dict_get_none plan (lit ''steps'') = PList (map PDict steps)"
    and "truthy (dict_get_none plan (lit ''buildable'')) \<Longrightarrow> buildable_errors rp plan (text_or rp (dict_get_none plan (lit ''runtime'')) []) = Inr []"
    and "steps_errors rp plan (text_or rp (dict_get_none plan (lit ''runtime'')) []) 0 (map PDict steps) = Inr []"
    and "sequence_errors rp plan (truthy (dict_get_none plan (lit ''buildable''))) (text_or rp (dict_get_none plan (lit ''runtime'')) []) steps = Inr []"
  shows "\<exists>pv. validate_plan rp (PDict plan) = Inr pv \<and> pv_ok pv"
  using assms by (cases "truthy (dict_get_none plan (lit ''buildable''))") (simp_all add: validate_plan_def Let_def)

lemma expected_dependencies_PStr: "\<exists>expected. expected_dependencies step_ids (PStr x) = Inr expected"
  by (simp add: expected_dependencies_def in_set_def)

lemma sequence_errors_chain:
  assumes ids: "map (\<lambda>s. text_or rp (dict_get_none s (lit ''id'')) []) steps = map lit names"
    and strings: "\<And>s. s \<in> set steps \<Longrightarrow> dict_get_none s (lit ''id'') = PStr (step_key rp s)"
    and names: "map lit names \<in> set (DETERMINISTIC_STEP_SEQUENCES runtime)"
    and deps: "\<And>i. i < length steps \<Longrightarrow> dict_get_none (steps ! i) (lit ''depends_on'') = text_list (if i = 0 then [] else [lit (names ! (i - 1))])"
    and manager: "runtime = lit ''node'' \<Longrightarrow> steps \<noteq> [] \<Longrightarrow> \<exists>m. or_dict (dict_get_none plan (lit ''package_manager'')) = Inr m
        \<and> (truthy (dict_get_none m (lit ''requires_prepare'')) \<longrightarrow> ''node-toolchain'' \<in> set names)"
  shows "sequence_errors rp plan b runtime steps = Inr []"
proof -
  have len: "length steps = length names"
    using ids by (metis length_map)
  have "text_or rp (dict_get_none s (lit ''id'')) [] = step_key rp s" if "s \<in> set steps" for s
    using strings [OF that] by simp
  then have keys: "map (step_key rp) steps = map lit names"
    using ids by (metis (no_types, lifting) map_cong)
  have "wave_errors rp steps = Inr []"
  proof -
    have "plan_waves rp [(PStr (lit ''steps''), PList (map PDict steps))] = Inr (map (\<lambda>i. [i]) [0..<length steps])"
    proof (rule plan_waves_chain)
      show "distinct (map (step_key rp) steps)"
        unfolding keys by (rule sequence_distinct [OF names])
      fix i assume i: "i < length steps"
      have "step_key rp (steps ! (i - 1)) = lit (names ! (i - 1))"
        using i len nth_map [of "i - 1" steps "step_key rp"] nth_map [of "i - 1" names lit] keys by simp
      then show "dict_get_none (steps ! i) (lit ''depends_on'') = text_list (if i = 0 then [] else [step_key rp (steps ! (i - 1))])"
        using deps [OF i] by simp
    qed (simp add: dict_get_none_def dict_get_def)
    then show ?thesis
      by (simp add: wave_errors_def)
  qed
  moreover have "dependency_errors rp (map lit names) 0 steps = Inr []"
  proof (rule dependency_errors_all)
    fix s assume "s \<in> set steps"
    then obtain i where i: "i < length steps" "s = steps ! i"
      by (auto simp: in_set_conv_nth)
    then have sid: "dict_get_none s (lit ''id'') = PStr (map lit names ! i)"
      using strings [of s] keys nth_map [of i steps "step_key rp"] by simp
    obtain expected where expected: "expected_dependencies (map lit names) (PStr (map lit names ! i)) = Inr expected"
      using expected_dependencies_PStr by blast
    have "map lit expected = (if i = 0 then [] else [map lit names ! (i - 1)])"
      by (rule sequence_chain [OF names _ expected]) (use i len in simp)
    then show "\<exists>expected. expected_dependencies (map lit names) (dict_get_none s (lit ''id'')) = Inr expected
        \<and> dict_get_none s (lit ''depends_on'') = text_list (map lit expected)"
      using expected deps [OF i(1)] i len unfolding sid by auto
  qed
  moreover have "\<exists>m. (if runtime = lit ''node'' \<and> steps \<noteq> [] then or_dict (dict_get_none plan (lit ''package_manager'')) else Inr []) = Inr m
      \<and> \<not> (truthy (dict_get_none m (lit ''requires_prepare'')) \<and> lit ''node-toolchain'' \<notin> set (map lit names))"
    using manager by (auto simp: dict_get_none_def dict_get_def truthy_def)
  ultimately show ?thesis
    unfolding sequence_errors_def ids Let_def using names by auto
qed
lemma blocked_plan_valid:
  assumes "distinct (map fst (blocked runtime prd messages @ others))"
  shows "\<exists>pv. validate_plan rp (obj (blocked runtime prd messages @ others)) = Inr pv \<and> pv_ok pv"
  unfolding obj_def
proof (rule validate_plan_Nil [where steps = "[]"])
  show "sequence_errors rp (keyed (blocked runtime prd messages @ others))
      (truthy (dict_get_none (keyed (blocked runtime prd messages @ others)) (lit ''buildable'')))
      (text_or rp (dict_get_none (keyed (blocked runtime prd messages @ others)) (lit ''runtime'')) []) [] = Inr []"
    by (simp add: sequence_errors_def Let_def wave_errors_def plan_waves_def dict_get_none_def dict_get_def truthy_def
        step_dicts_def wave_loop.simps blocked_def keyed_def when_true_def)
qed (simp_all add: blocked_def version_errors_def IR_VERSION_def truthy_def when_true_def)

text \<open>The list of steps of a Node plan, by the three conditions.\<close>

lemma node_steps_pinned:
  assumes "P \<longrightarrow> dict_get m (lit ''version'') = Some version" and "I \<longrightarrow> INSTALL_COMMANDS name \<noteq> None"
  shows "node_steps m name P I B why = Inr
    ((if P then [step ''node-toolchain'' ''prepare'' [PStr (lit ''gate-package-manager''), PStr (lit ''prepare''), PStr name, version]
        (lit ''Prepare the exact official tool in an executor-owned version/integrity cache; no lifecycle or global installation'') []] else [])
     @ (if I then [step ''node-install'' ''install'' (map PStr (the (INSTALL_COMMANDS name))) why (if P then [''node-toolchain''] else [])] else [])
     @ (if B then [step ''node-build'' ''build'' (map PStr [name, lit ''run'', lit ''build'']) (lit ''scripts.build present'')
          (if I then [''node-install''] else if P then [''node-toolchain''] else [])] else []))"
  using assms by (auto simp: node_steps_def split: option.splits)

lemma node_plan_valid:
  assumes steps: "node_steps m name P I B why = Inr steps"
    and pinned: "P \<or> I \<or> B \<or> PStr (lit ''start'') \<in> set scripts \<Longrightarrow> pinned_manager m name version"
    and tool: "P \<Longrightarrow> truthy (dict_get_none m (lit ''requires_prepare''))"
      "truthy (dict_get_none m (lit ''requires_prepare'')) \<Longrightarrow> I \<or> B \<Longrightarrow> P"
  shows "\<exists>pv. validate_plan rp (plan_object (lit ''node'') prd steps (node_manifest metadata scripts name steps) (PDict m) warnings) = Inr pv
    \<and> pv_ok pv"
proof -
  define plan where "plan = (case plan_object (lit ''node'') prd steps (node_manifest metadata scripts name steps) (PDict m) warnings of
    PDict d \<Rightarrow> d | _ \<Rightarrow> [])"
  define ds where "ds = map (\<lambda>s. case s of PDict d \<Rightarrow> d | _ \<Rightarrow> []) steps"
  define names where "names = (if P then [''node-toolchain''] else []) @ (if I then [''node-install''] else []) @ (if B then [''node-build''] else [])"
  have plan: "plan_object (lit ''node'') prd steps (node_manifest metadata scripts name steps) (PDict m) warnings = PDict plan"
    by (simp add: plan_def plan_object_def obj_def)
  have get: "dict_get_none plan (lit ''package_manager'') = PDict m" "dict_get_none plan (lit ''runtime'') = PStr (lit ''node'')"
    "dict_get_none plan (lit ''steps'') = PList steps" "dict_get_none plan (lit ''ir_version'') = PInt IR_VERSION"
    "dict_get_none plan (lit ''manifest'') = node_manifest metadata scripts name steps"
    "\<exists>a. dict_get_none plan (lit ''artifact'') = PDict a \<and> truthy (dict_get_none a (lit ''strategy''))"
    by (simp_all add: plan_def plan_object_def obj_def truthy_def [of "PStr _"])
  obtain a where artifact: "dict_get_none plan (lit ''artifact'') = PDict a" "truthy (dict_get_none a (lit ''strategy''))"
    using get(6) by blast
  have version: "P \<longrightarrow> dict_get m (lit ''version'') = Some (PStr version)" and install: "I \<longrightarrow> INSTALL_COMMANDS name \<noteq> None"
    using pinned by (auto simp: pinned_manager_def INSTALL_COMMANDS_def)
  note list = steps [unfolded node_steps_pinned [OF version install] sum.inject, symmetric]
  have raws: "steps = map PDict ds"
    unfolding ds_def list by (simp add: step_def obj_def)
  show ?thesis
    unfolding plan
  proof (rule validate_plan_Nil)
    show "dict_get_none plan (lit ''steps'') = PList (map PDict ds)"
      using get raws by simp
    show "version_errors rp (dict_get_none plan (lit ''ir_version'')) = []"
      by (simp add: get version_errors_def when_true_def)
    have start: "PStr (lit ''start'') \<in> set scripts \<Longrightarrow> manager_supported rp m = Inr True \<and> dict_get_none m (lit ''name'') = PStr name"
    proof -
      assume "PStr (lit ''start'') \<in> set scripts"
      then have pm: "pinned_manager m name version"
        using pinned by simp
      then show ?thesis
        using pinned_manager_supported [OF pm] by (simp add: pinned_manager_def)
    qed
    show "buildable_errors rp plan (text_or rp (dict_get_none plan (lit ''runtime'')) []) = Inr []"
      using start artifact by (auto simp: get(1-5) buildable_errors_def Let_def node_manifest_def obj_def when_true_def truthy_def [of "PBool _"])
    have "step_errors rp plan (lit ''node'') k raw = Inr []" if raw: "raw \<in> set steps" for raw k
    proof -
      have "pinned_manager m name version"
        using raw pinned unfolding list by (auto split: if_splits)
      then show ?thesis
        using raw tool(1) toolchain_step_valid [OF _ _ get(1)] command_step_valid [OF _ get(1)] unfolding list
        by (auto simp del: list.map split: if_splits)
    qed
    then show "steps_errors rp plan (text_or rp (dict_get_none plan (lit ''runtime'')) []) 0 (map PDict ds) = Inr []"
      unfolding raws [symmetric] get by (simp add: steps_errors_all)
    show "sequence_errors rp plan (truthy (dict_get_none plan (lit ''buildable''))) (text_or rp (dict_get_none plan (lit ''runtime'')) []) ds = Inr []"
    proof (rule sequence_errors_chain [where names = names])
      show "map (\<lambda>s. text_or rp (dict_get_none s (lit ''id'')) []) ds = map lit names"
        unfolding ds_def list names_def by (simp add: step_def obj_def)
      show "\<And>s. s \<in> set ds \<Longrightarrow> dict_get_none s (lit ''id'') = PStr (step_key rp s)"
        unfolding ds_def list by (auto simp: step_def obj_def step_key_def py_str_def split: if_splits)
      show "map lit names \<in> set (DETERMINISTIC_STEP_SEQUENCES (text_or rp (dict_get_none plan (lit ''runtime'')) []))"
        unfolding get names_def by (simp add: DETERMINISTIC_STEP_SEQUENCES_def)
      show "dict_get_none (ds ! i) (lit ''depends_on'') = text_list (if i = 0 then [] else [lit (names ! (i - 1))])" if "i < length ds" for i
        using that unfolding ds_def list names_def
        by (auto simp: step_def obj_def less_Suc_eq nth_append split: if_splits)
      show "\<exists>m'. or_dict (dict_get_none plan (lit ''package_manager'')) = Inr m'
          \<and> (truthy (dict_get_none m' (lit ''requires_prepare'')) \<longrightarrow> ''node-toolchain'' \<in> set names)" if "ds \<noteq> []"
        using that tool(2) unfolding ds_def list names_def get by (auto split: if_splits)
    qed
  qed
qed

lemma inspected_manager:
  assumes run: "inspect_node_toolchain e package files probed ov isolated = Inr result"
    and saved: "\<forall>o'\<in>set_option ov. override_ok o'"
  obtains m name version errors warnings where "result = PDict m" "dict_get_none m (lit ''name'') = PStr name" "name \<noteq> []"
    "dict_get_none m (lit ''errors'') = text_list errors" "dict_get_none m (lit ''warnings'') = text_list warnings"
    "errors = [] \<Longrightarrow> pinned_manager m name version"
proof (rule inspect_fields [OF run], goal_cases)
  case (1 vc m errors)
  let ?mc = "select_manager e package files ov"
  have name: "mc_name ?mc \<in> set (map lit [''npm'', ''pnpm'', ''yarn''])"
    by (rule select_manager_name) (use saved in simp)
  have "pinned_manager m (mc_name ?mc) (vc_version vc)" if clean: "errors = []"
    unfolding pinned_manager_def
    using 1(4,5,8,10) pinned_manager_preparation [OF 1(4,5,11) 1(13) [OF clean]] select_version_facts(2) [OF 1(3) 1(12) [OF clean]] name clean
    by (auto simp: truthy_def)
  then show ?case
    using 1(2,4,7,9) name by (intro 1(1)) auto
qed

lemma python_plan_valid: "\<exists>pv. validate_plan rp (build_python_plan rp metadata prd run_install) = Inr pv \<and> pv_ok pv"
proof -
  define I where "I = (run_install \<and> truthy (dict_get_none metadata (lit ''has_requirements'')))"
  define ds where "ds = (if I then [keyed [(''id'', PStr (lit ''python-install'')), (''phase'', PStr (lit ''install'')),
    (''command'', PList (map (PStr \<circ> lit) [''python'', ''-m'', ''pip'', ''install'', ''-r'', ''requirements.txt''])),
    (''reason'', PStr (lit ''requirements.txt present'')), (''depends_on'', text_list (map lit []))]] else [])"
  define plan where "plan = (case build_python_plan rp metadata prd run_install of PDict d \<Rightarrow> d | _ \<Rightarrow> [])"
  have plan: "build_python_plan rp metadata prd run_install = PDict plan"
    by (simp add: plan_def build_python_plan_def plan_object_def obj_def Let_def)
  have get: "dict_get_none plan (lit ''runtime'') = PStr (lit ''python'')" "dict_get_none plan (lit ''steps'') = PList (map PDict ds)"
    "dict_get_none plan (lit ''ir_version'') = PInt IR_VERSION" "is_dict (dict_get_none plan (lit ''manifest''))"
    by (simp_all add: plan_def build_python_plan_def plan_object_def obj_def Let_def ds_def I_def step_def)
  obtain a where artifact: "dict_get_none plan (lit ''artifact'') = PDict a" "truthy (dict_get_none a (lit ''strategy''))"
    by (simp add: plan_def build_python_plan_def plan_object_def obj_def Let_def truthy_def [of "PStr _"])
  show ?thesis
    unfolding plan
  proof (rule validate_plan_Nil [OF _ get(2)])
    show "version_errors rp (dict_get_none plan (lit ''ir_version'')) = []"
      by (simp add: get version_errors_def when_true_def)
    show "buildable_errors rp plan (text_or rp (dict_get_none plan (lit ''runtime'')) []) = Inr []"
      using artifact by (simp add: get buildable_errors_def Let_def when_true_def)
    show "steps_errors rp plan (text_or rp (dict_get_none plan (lit ''runtime'')) []) 0 (map PDict ds) = Inr []"
      by (rule steps_errors_all)
        (auto simp: get ds_def step_errors_def Let_def in_set_def truthy_def when_true_def DETERMINISTIC_STEPS_def text_list_def comp_def)
    show "sequence_errors rp plan (truthy (dict_get_none plan (lit ''buildable''))) (text_or rp (dict_get_none plan (lit ''runtime'')) []) ds = Inr []"
      by (rule sequence_errors_chain [where names = "if I then [''python-install''] else []"])
        (auto simp: get ds_def DETERMINISTIC_STEP_SEQUENCES_def step_key_def py_str_def split: if_splits)
  qed
qed

lemma build_node_plan_valid:
  assumes run: "inspect_node_toolchain e package files probed ov isolated = Inr (dict_get_none metadata (lit ''node_package_manager''))"
    and saved: "\<forall>o'\<in>set_option ov. override_ok o'"
  shows "\<exists>plan pv. build_node_plan rp metadata prd run_install run_build = Inr plan \<and> validate_plan rp plan = Inr pv \<and> pv_ok pv"
proof -
  obtain m name version errors warnings where m: "dict_get_none metadata (lit ''node_package_manager'') = PDict m"
    and name: "dict_get_none m (lit ''name'') = PStr name" "name \<noteq> []" and errors: "dict_get_none m (lit ''errors'') = text_list errors"
    and warnings: "dict_get_none m (lit ''warnings'') = text_list warnings"
    and pinned: "errors = [] \<Longrightarrow> pinned_manager m name version"
    by (rule inspected_manager [OF run saved]) (rule that; assumption)
  define scripts where "scripts = (case dict_get_none metadata (lit ''package_scripts'') of PList xs \<Rightarrow> xs | _ \<Rightarrow> [])"
  define I where "I = (run_install \<and> dict_get_none metadata (lit ''node_install_required'') = PBool True)"
  define B where "B = (run_build \<and> PStr (lit ''build'') \<in> set scripts)"
  define used where "used = (I \<or> B \<or> PStr (lit ''start'') \<in> set scripts)"
  define P where "P = (used \<and> truthy (dict_get_none m (lit ''requires_prepare'')))"
  have manager_name: "text_or rp (PStr name) (lit ''npm'') = name"
    using name(2) by (simp add: text_or_def truthy_def py_str_def)
  consider (errors) "used \<and> errors \<noteq> []" | (lockfile) "\<not> (used \<and> errors \<noteq> [])" "I \<and> \<not> truthy (dict_get_none m (lit ''lockfile''))"
    | (steps) "\<not> (used \<and> errors \<noteq> [])" "\<not> (I \<and> \<not> truthy (dict_get_none m (lit ''lockfile'')))"
    by blast
  then show ?thesis
  proof cases
    case errors
    then show ?thesis
      using blocked_plan_valid
      by (simp add: build_node_plan_def Let_def scripts_def [symmetric] I_def [symmetric] B_def [symmetric] used_def [symmetric]
          m name manager_name \<open>dict_get_none m (lit ''errors'') = text_list errors\<close> text_list_def blocked_def)
  next
    case lockfile
    have "errors = []"
      using lockfile unfolding used_def by blast
    then show ?thesis
      using blocked_plan_valid [where others = "[]"] lockfile
      by (simp add: build_node_plan_def Let_def scripts_def [symmetric] I_def [symmetric] B_def [symmetric] used_def [symmetric]
          m name manager_name errors text_list_def blocked_def)
  next
    case steps
    define why where "why = (let install_reason = strip (text_or rp (dict_get_none metadata (lit ''node_install_reason'')) []) in
      if install_reason \<noteq> [] then install_reason
      else if truthy (dict_get_none metadata (lit ''has_package_lock'')) then lit ''package-lock.json present''
      else lit ''Node dependencies or install lifecycle scripts present'')"
    have pinned': "used \<Longrightarrow> pinned_manager m name version"
      using steps(1) pinned by blast
    have "P \<longrightarrow> dict_get m (lit ''version'') = Some (PStr version)" "I \<longrightarrow> INSTALL_COMMANDS name \<noteq> None"
      using pinned' by (auto simp: P_def used_def pinned_manager_def INSTALL_COMMANDS_def)
    from node_steps_pinned [OF this] obtain ss where ss: "node_steps m name P I B why = Inr ss"
      by blast
    obtain ws where plan: "build_node_plan rp metadata prd run_install run_build
        = Inr (plan_object (lit ''node'') prd ss (node_manifest metadata scripts name ss) (PDict m) ws)"
      using steps ss
      by (simp add: build_node_plan_def Let_def scripts_def [symmetric] I_def [symmetric] B_def [symmetric] used_def [symmetric]
          P_def [symmetric] why_def [unfolded Let_def, symmetric] m name manager_name errors warnings text_list_def)
    show ?thesis
      unfolding plan using node_plan_valid [OF ss, of scripts version rp prd metadata ws] pinned'
      by (auto simp: P_def used_def)
  qed
qed

text \<open>
  C37: the plan compiled from any preflight result whose package manager is the outcome of the
  inspection is accepted by the validation that guards the build, for every runtime and every
  choice of the install and build flags: the compiler never raises and never produces a plan the
  executor would refuse, whether it is blocked or can be built.
\<close>

theorem generated_plan_valid:
  assumes run: "inspect_node_toolchain e package files probed ov isolated = Inr manager"
    and saved: "\<forall>o'\<in>set_option ov. override_ok o'"
    and preflight: "dict_get_none preflight (lit ''metadata'') = PDict metadata"
      "dict_get_none metadata (lit ''node_package_manager'') = manager"
  shows "\<exists>plan pv. build_plan rp preflight run_install run_build = Inr plan \<and> validate_plan rp plan = Inr pv \<and> pv_ok pv"
proof -
  let ?runtime = "text_or rp (dict_get_none preflight (lit ''runtime'')) (lit ''unknown'')"
  consider "?runtime = lit ''node''" | "?runtime = lit ''python''" | "?runtime \<notin> {lit ''node'', lit ''python''}"
    by blast
  then show ?thesis
  proof cases
    case 1
    then show ?thesis
      using build_node_plan_valid [OF run [folded preflight(2)] saved] by (simp add: build_plan_def preflight Let_def)
  next
    case 2
    then show ?thesis
      using python_plan_valid by (simp add: build_plan_def preflight Let_def)
  next
    case 3
    then show ?thesis
      using blocked_plan_valid [where others = "[]"] by (simp add: build_plan_def Let_def blocked_def)
  qed
qed

text \<open>A preflight of the demonstration project with the scripts build and start.\<close>

definition demo_preflight :: "pyval \<Rightarrow> dict" where
  "demo_preflight manager = keyed [(''runtime'', PStr (lit ''node'')), (''project_root_dir'', PStr (lit ''/srv/project'')),
     (''metadata'', obj [(''package_scripts'', text_list (map lit [''build'', ''start''])), (''node_install_required'', PBool True),
        (''node_package_manager'', manager)])]"

theorem generated_plan_valid_witness:
  "\<exists>manager plan pv. inspect_node_toolchain demo_project demo_package demo_files demo_probe None False = Inr manager
     \<and> build_plan (\<lambda>_. []) (demo_preflight manager) True True = Inr plan \<and> validate_plan (\<lambda>_. []) plan = Inr pv \<and> pv_ok pv"
proof -
  obtain m where run: "inspect_node_toolchain demo_project demo_package demo_files demo_probe None False = Inr (PDict m)"
    using demo_inspection by blast
  have "\<exists>plan pv. build_plan (\<lambda>_. []) (demo_preflight (PDict m)) True True = Inr plan \<and> validate_plan (\<lambda>_. []) plan = Inr pv \<and> pv_ok pv"
    by (rule generated_plan_valid [OF run, where metadata = "keyed [(''package_scripts'', text_list (map lit [''build'', ''start''])),
        (''node_install_required'', PBool True), (''node_package_manager'', PDict m)]"]) (simp_all add: demo_preflight_def obj_def)
  with run show ?thesis
    by blast
qed

text \<open>The commands of a Python plan, for which the tool inspection does not matter.\<close>

theorem validated_plan_commands_witness:
  "\<exists>plan steps. build_python_plan (\<lambda>_. []) (keyed [(''has_requirements'', PBool True)]) PNone True = PDict plan
     \<and> dict_get_none plan (lit ''steps'') = PList (map PDict steps) \<and> length steps = 1
     \<and> (\<forall>s\<in>set steps. generated_step (\<lambda>_. []) plan s) \<and> plan_waves (\<lambda>_. []) plan = Inr [[0]]"
proof -
  define plan where "plan = (case build_python_plan (\<lambda>_. []) (keyed [(''has_requirements'', PBool True)]) PNone True of PDict d \<Rightarrow> d | _ \<Rightarrow> [])"
  have plan: "build_python_plan (\<lambda>_. []) (keyed [(''has_requirements'', PBool True)]) PNone True = PDict plan"
    by (simp add: plan_def build_python_plan_def plan_object_def obj_def Let_def)
  have buildable: "truthy (dict_get_none plan (lit ''buildable''))"
    by (simp add: plan_def build_python_plan_def plan_object_def obj_def Let_def truthy_def)
  have one: "dict_get_none plan (lit ''steps'') = PList raws \<Longrightarrow> length raws = 1" for raws
    by (auto simp: plan_def build_python_plan_def plan_object_def obj_def Let_def truthy_def)
  obtain pv where "validate_plan (\<lambda>_. []) (PDict plan) = Inr pv" "pv_ok pv"
    using python_plan_valid unfolding plan [symmetric] by blast
  from validated_plan_commands [OF this buildable] obtain steps where
    steps: "dict_get_none plan (lit ''steps'') = PList (map PDict steps)" "\<forall>s\<in>set steps. generated_step (\<lambda>_. []) plan s"
      "plan_waves (\<lambda>_. []) plan = Inr (map (\<lambda>i. [i]) [0..<length steps])"
    by auto
  with one [OF steps(1)] plan show ?thesis
    by auto
qed

text \<open>Two steps of which the second waits for the first.\<close>

definition demo_steps :: "dict list" where
  "demo_steps = [keyed [(''id'', PStr (lit ''b'')), (''depends_on'', text_list [lit ''a''])], keyed [(''id'', PStr (lit ''a''))]]"

theorem plan_waves_topological_witness:
  "plan_waves (\<lambda>_. []) (keyed [(''steps'', PList (map PDict demo_steps))]) = Inr [[1], [0]]
   \<and> acyclic {(i, j). depends (\<lambda>_. []) demo_steps i j}"
proof -
  have run: "plan_waves (\<lambda>_. []) (keyed [(''steps'', PList (map PDict demo_steps))]) = Inr [[1], [0]]"
    by (simp add: plan_waves_def demo_steps_def step_dicts_def id_to_index_def step_key_def py_str_def text_list_def
        iterate_def truthy_def wave_loop.simps Let_def upt_conv_Cons)
  then show ?thesis
    using plan_waves_topological [of "keyed [(''steps'', PList (map PDict demo_steps))]" demo_steps "\<lambda>_. []"] by simp
qed

section \<open>The launch command stays inside the artifact\<close>

lemma first_existing_Some:
  "first_existing e candidates = Some entry \<Longrightarrow>
   entry \<in> set candidates \<and> ar_inside e entry \<and> \<not> ar_symlink e entry \<and> ar_file e entry \<and> \<not> starts_with entry (lit ''-'')"
  by (auto simp: first_existing_def find_Some_iff)

lemma launch_command_cases:
  assumes "launch_command e plan strategy runtime = Inr (command, args)"
  obtains (script) manager where "runtime = lit ''node''" "truthy (dict_get_none strategy (lit ''start_script''))"
      "or_dict (dict_get_none plan (lit ''package_manager'')) = Inr manager" "manager_supported (ar_repr e) manager = Inr True"
      "dict_get manager (lit ''name'') = Some command" "args = [PStr (lit ''run''), PStr (lit ''start'')]"
  | (entry) entry where "runtime \<in> {lit ''node'', lit ''python''}" "command = PStr runtime" "args = [PStr entry]" "entry \<noteq> []"
      "ar_inside e entry" "\<not> ar_symlink e entry" "ar_file e entry" "\<not> starts_with entry (lit ''-'')"
proof (cases "runtime = lit ''node''")
  case node: True
  show thesis
  proof (cases "truthy (dict_get_none strategy (lit ''start_script''))")
    case True
    then obtain manager where "or_dict (dict_get_none plan (lit ''package_manager'')) = Inr manager"
      "manager_supported (ar_repr e) manager = Inr True" "dict_get manager (lit ''name'') = Some command"
      "args = [PStr (lit ''run''), PStr (lit ''start'')]"
      using assms unfolding launch_command_def by (auto simp: node split: if_splits option.splits)
    with True node show thesis
      by (intro script)
  next
    case False
    then obtain x where "first_existing e (candidate_texts e strategy NODE_ENTRYPOINTS) = Some x" "x \<noteq> []"
      "command = PStr (lit ''node'')" "args = [PStr x]"
      using assms unfolding launch_command_def by (auto simp: node split: if_splits option.splits)
    with node show thesis
      by (intro entry [of x]) (auto dest: first_existing_Some)
  qed
next
  case False
  define cs where "cs = text_or (ar_repr e) (dict_get_none strategy (lit ''python_entrypoint'')) [] # candidate_texts e strategy PYTHON_ENTRYPOINTS"
  from False obtain x where x: "first_existing e (filter (\<lambda>c. c \<noteq> []) cs) = Some x" "command = PStr runtime" "args = [PStr x]" "runtime = lit ''python''"
    using assms unfolding launch_command_def Let_def cs_def [symmetric] by (auto split: if_splits option.splits)
  with first_existing_Some [OF x(1)] show thesis
    by (intro entry [of x]) auto
qed

text \<open>
  C40: a manifest made from an artifact starts it in one of two ways.  Either the package manager
  of the plan, in a supported exact version that the manifest records, runs the start script, or
  \<^verbatim>\<open>node\<close> or \<^verbatim>\<open>python\<close> runs one file that exists in the artifact directory, is not a symbolic link,
  resolves inside the directory and cannot be read as an option.  The working directory is the
  artifact directory, and the server neither starts by itself nor restarts after exit code 0.
\<close>

theorem finalized_launch_contained:
  assumes "finalize_manifest e plan upload build_id = Inr manifest"
  shows "\<exists>m launch. manifest = PDict m \<and> dict_get_none m (lit ''launch'') = PDict launch
    \<and> dict_get_none launch (lit ''cwd'') = PStr (ar_dir e) \<and> dict_get_none m (lit ''auto_start'') = PBool False
    \<and> dict_get_none m (lit ''restart_policy'') = RESTART_POLICY
    \<and> ((\<exists>manager name version. or_dict (dict_get_none plan (lit ''package_manager'')) = Inr manager
           \<and> manager_supported (ar_repr e) manager = Inr True
           \<and> dict_get manager (lit ''name'') = Some name \<and> dict_get manager (lit ''version'') = Some version
           \<and> dict_get_none launch (lit ''command'') = name
           \<and> dict_get_none launch (lit ''args'') = text_list (map lit [''run'', ''start''])
           \<and> dict_get_none launch (lit ''toolchain'') = obj [(''manager'', name), (''version'', version)])
       \<or> (\<exists>runtime entry. runtime \<in> {lit ''node'', lit ''python''} \<and> dict_get_none launch (lit ''command'') = PStr runtime
           \<and> dict_get_none launch (lit ''args'') = PList [PStr entry] \<and> entry \<noteq> []
           \<and> ar_inside e entry \<and> \<not> ar_symlink e entry \<and> ar_file e entry \<and> \<not> starts_with entry (lit ''-'')))"
proof -
  define strategy where "strategy = (case dict_get_none plan (lit ''manifest'') of PDict d \<Rightarrow> d | _ \<Rightarrow> [])"
  let ?runtime = "text_or (ar_repr e) (dict_get_none plan (lit ''runtime'')) []"
  let ?script = "?runtime = lit ''node'' \<and> truthy (dict_get_none strategy (lit ''start_script''))"
  obtain command args toolchain sid analysis where
    launch: "launch_command e plan strategy ?runtime = Inr (command, args)"
    and toolchain: "launch_toolchain (dict_get_none plan (lit ''package_manager'')) ?script = Inr toolchain"
    and manifest: "manifest = manifest_object e sid command args toolchain analysis"
    using assms unfolding finalize_manifest_def Let_def strategy_def [symmetric] bindR_Inr_iff split_paired_Ex prod.case
    by (metis (no_types, lifting) sum.inject(2))
  define d where "d = keyed ([(''type'', PStr (lit ''managed_process'')), (''command'', command), (''args'', PList args),
    (''cwd'', PStr (ar_dir e))] @ toolchain)"
  have get: "\<exists>m. manifest = PDict m \<and> dict_get_none m (lit ''launch'') = PDict d \<and> dict_get_none m (lit ''auto_start'') = PBool False
      \<and> dict_get_none m (lit ''restart_policy'') = RESTART_POLICY"
    "dict_get_none d (lit ''cwd'') = PStr (ar_dir e)" "dict_get_none d (lit ''command'') = command" "dict_get_none d (lit ''args'') = PList args"
    by (simp_all add: manifest manifest_object_def obj_def d_def)
  have "(\<exists>manager name version. or_dict (dict_get_none plan (lit ''package_manager'')) = Inr manager
           \<and> manager_supported (ar_repr e) manager = Inr True
           \<and> dict_get manager (lit ''name'') = Some name \<and> dict_get manager (lit ''version'') = Some version
           \<and> dict_get_none d (lit ''command'') = name
           \<and> dict_get_none d (lit ''args'') = text_list (map lit [''run'', ''start''])
           \<and> dict_get_none d (lit ''toolchain'') = obj [(''manager'', name), (''version'', version)])
       \<or> (\<exists>runtime entry. runtime \<in> {lit ''node'', lit ''python''} \<and> dict_get_none d (lit ''command'') = PStr runtime
           \<and> dict_get_none d (lit ''args'') = PList [PStr entry] \<and> entry \<noteq> []
           \<and> ar_inside e entry \<and> \<not> ar_symlink e entry \<and> ar_file e entry \<and> \<not> starts_with entry (lit ''-''))"
    using launch
  proof (cases rule: launch_command_cases)
    case (script manager)
    then have "truthy (dict_get_none plan (lit ''package_manager''))"
      by (auto simp: or_dict_def dict_get_def split: if_splits)
    then obtain version where version: "dict_get manager (lit ''version'') = Some version"
      and tc: "toolchain = [(''toolchain'', obj [(''manager'', command), (''version'', version)])]"
      using toolchain script by (auto simp: launch_toolchain_def split: option.splits)
    have "dict_get_none d (lit ''toolchain'') = obj [(''manager'', command), (''version'', version)]"
      by (simp add: d_def tc)
    then show ?thesis
      using script version get(3,4) by (intro disjI1 exI [of _ manager] exI [of _ command] exI [of _ version]) (simp add: text_list_def)
  next
    case (entry entry)
    then show ?thesis
      using get(3,4) by (intro disjI2 exI [of _ ?runtime] exI [of _ entry]) simp
  qed
  with get(1,2) show ?thesis
    by blast
qed

text \<open>An artifact that holds only \<^verbatim>\<open>server.py\<close>.\<close>

definition demo_artifact :: artifact_env where
  "demo_artifact = \<lparr>ar_repr = (\<lambda>_. []), ar_dir = lit ''/srv/artifact'', ar_inside = (\<lambda>_. True), ar_symlink = (\<lambda>_. False),
     ar_file = (\<lambda>c. c = lit ''server.py''), ar_alnum = alnum, ar_lower = (\<lambda>c. [c])\<rparr>"

theorem finalized_launch_contained_witness:
  "\<exists>manifest m launch. finalize_manifest demo_artifact (keyed [(''runtime'', PStr (lit ''python'')), (''manifest'', obj [])]) [] (lit ''b1'') = Inr manifest
     \<and> manifest = PDict m \<and> dict_get_none m (lit ''launch'') = PDict launch \<and> dict_get_none launch (lit ''cwd'') = PStr (lit ''/srv/artifact'')"
proof -
  have "launch_command demo_artifact (keyed [(''runtime'', PStr (lit ''python'')), (''manifest'', obj [])]) (keyed []) (lit ''python'')
      = Inr (PStr (lit ''python''), [PStr (lit ''server.py'')])"
    by (simp add: launch_command_def Let_def candidate_texts_def PYTHON_ENTRYPOINTS_def first_existing_def demo_artifact_def
        text_or_def truthy_def) (simp add: lit_def starts_with_def)
  then obtain manifest where run:
    "finalize_manifest demo_artifact (keyed [(''runtime'', PStr (lit ''python'')), (''manifest'', obj [])]) [] (lit ''b1'') = Inr manifest"
    by (auto simp: finalize_manifest_def Let_def obj_def or_dict_def launch_toolchain_def dict_get_none_def [of "[]"] dict_get_def truthy_def)
  from finalized_launch_contained [OF run] run show ?thesis
    by (auto simp: demo_artifact_def)
qed

section \<open>An invalid integrity pin\<close>

text \<open>
  When the integrity pin of the manager is unusable, \<^verbatim>\<open>validate_plan\<close> expects no preparation at all,
  so a plan that prepares the tool without any preparation object is accepted.
\<close>

definition bad_pin_manager :: dict where
  "bad_pin_manager = keyed [(''name'', PStr (lit ''npm'')), (''version'', PStr (lit ''10.9.0'')), (''supported'', PBool True),
     (''requires_prepare'', PBool True), (''declared_integrity'', PStr (lit ''sha256.none'')), (''preparation'', PNone)]"

lemma invalid_pin_validates:
  "\<exists>steps pv. node_steps bad_pin_manager (lit ''npm'') True False False [] = Inr steps
     \<and> validate_plan rp (plan_object (lit ''node'') PNone steps (node_manifest [] [] (lit ''npm'') steps) (PDict bad_pin_manager) []) = Inr pv
     \<and> pv_ok pv \<and> dict_get_none bad_pin_manager (lit ''preparation'') = PNone"
proof -
  have bad: "\<not> integrity_ok (lit ''sha256.none'')"
    by (simp add: integrity_ok_def starts_with_def hex_char_def lit_def)
  then have none: "expected_preparation r bad_pin_manager = Inr PNone" for r
    by (simp add: expected_preparation_def bad_pin_manager_def tool_preparation_def demo_version(2) truthy_def)
  then have pinned: "pinned_manager bad_pin_manager (lit ''npm'') (lit ''10.9.0'')"
    by (simp add: pinned_manager_def demo_version(2)) (simp add: bad_pin_manager_def truthy_def py_eq.simps)
  obtain steps where steps: "node_steps bad_pin_manager (lit ''npm'') True False False [] = Inr steps"
    by (simp add: node_steps_def bad_pin_manager_def)
  then show ?thesis
    using node_plan_valid [OF steps pinned] by (simp add: bad_pin_manager_def truthy_def)
qed

end
