(* ===== verification/Spec2Isabelle.thy ===== *)
theory Spec2Isabelle
  imports Request_Outcome Argument_Policy Dispatch_Lock Access_Decision Retention Tool_Registry
    Tool_Invocation OAuth_Tokens Tool_Namespace External_Identity Auth_Store Token_Authorization Auth_Runs Auth_Guarantees
    Node_Toolchain Build_Plan
begin

text \<open>
  Verification library of Lingshu Gate, a gateway between MCP clients and the tools of MCP servers
  (\<^verbatim>\<open>src/src/lingshu_gate\<close>).  The gate keeps a registry of tools, classifies every tool as reading or
  writing, decides for each authenticated caller which tools are visible and callable, bounds and checks the
  arguments, dispatches the call, audits it, keeps the replies of timed-out requests for a while, and removes
  old records.  This library models that path and proves it correct.

  \<^bold>\<open>The parts and how they interact.\<close>  A call enters \<^verbatim>\<open>AccessControlStore.invoke_tool\<close>.  The tool's definition comes from
  the registry (\<^verbatim>\<open>registry.py\<close>), whose definitions are frozen under size limits (\<^verbatim>\<open>domain/tool_structure.py\<close>).  Its
  classification row is synchronised, then the decision reads roles, permission types and grants
  (\<^verbatim>\<open>access_control.py\<close>), server identities and continuous policies (\<^verbatim>\<open>mcp_authorization_policy.py\<close>) and the OAuth management
  targets (\<^verbatim>\<open>domain/oauth_management.py\<close>).  An allowed call is admitted under the credential's limits, prepared, and checked again
  immediately before dispatch against live authority and the tool's argument policy (\<^verbatim>\<open>argument_policy.py\<close>).  A response that
  comes after the deadline is retained (\<^verbatim>\<open>domain/mcp_request_outcome.py\<close>) and read back through a receipt bound to the
  caller (\<^verbatim>\<open>application/request_recovery.py\<close>).  Mutations of a server exclude calls to it through the dispatch lock
  (\<^verbatim>\<open>domain/dispatch_lock.py\<close>).  Audits and payloads are removed by retention jobs (\<^verbatim>\<open>retention_store.py\<close>).

  \<^bold>\<open>Theories.\<close>

  \<^item> \<^verbatim>\<open>Gate_Prelude\<close>: Python strings as lists of code points, fallible computations as sums (\<open>bindR\<close>), tables as lists
    of rows with the keyed-table interface (locale \<open>keyed_table\<close>), and the locale \<open>machine\<close> of transition systems whose runs
    keep an invariant.  Each component with state interprets these locales on its own definitions.
  \<^item> \<^verbatim>\<open>Json_Structure\<close>: Python values, their compact JSON text, the bounded traversal \<open>visit\<close>, freezing and copying, the
    structure check of tool definitions.  The streaming size is the length of the UTF-8 text, and a frozen definition copies
    back to the definition.
  \<^item> \<^verbatim>\<open>Argument_Policy\<close>: rules with JSON pointers, their validation, the revisioned store and the dispatch check, which is compared with the meaning
    of the rules over JSON values and RFC 6901 paths.
  \<^item> \<^verbatim>\<open>Request_Outcome\<close>: timeout facts, the search along exception causes (on heaps with cycles), the bounded store of
    late replies as a machine, and recovery receipts.
  \<^item> \<^verbatim>\<open>Dispatch_Lock\<close>: the reentrant shared/exclusive lock as a step relation over threads with waiting, notification and
    timeouts; exclusion, no lost wake-up, and the deadline-bounded acquisition.
  \<^item> \<^verbatim>\<open>Access_Tables\<close>: roles, control permissions, permission types, grants and their administration, with the seed data of each
    start.
  \<^item> \<^verbatim>\<open>Authorization_Policy\<close>: identities of servers across configuration saves, continuous server policies and management
    targets with their normalisation.
  \<^item> \<^verbatim>\<open>Access_Classification\<close>: fingerprints, the machine suggestion, synchronisation, reconciliation, review, confirmation and
    publication; synchronising and reconciling only ever tighten access.
  \<^item> \<^verbatim>\<open>Access_Decision\<close>: principals, effective grants and the decision with all its branches, discovery, the memoising catalog
    authorizer, delivery targets and token budgets.
  \<^item> \<^verbatim>\<open>Retention\<close>: policy, preview, confirmation, jobs, lease and deletion batches; every job's cutoffs are traced to the preview that confirmed them.
  \<^item> \<^verbatim>\<open>Tool_Registry\<close>: registration, update, removal and atomic replacement, the index of MCP tools by instance, and the notices
    to catalog listeners.
  \<^item> \<^verbatim>\<open>Call_Limits\<close>: the per-minute and concurrency limits, compared with the full history of calls.
  \<^item> \<^verbatim>\<open>Tool_Invocation\<close>: one whole call and the reading of a late response.  A handler runs only on arguments that the last reading of the final
    check authorised, and the audit row of a call says exactly how it ended; a timeout whose receipt cannot be stored is the one
    dispatched call without a row.
  \<^item> \<^verbatim>\<open>Tool_Namespace\<close>: the public names of tools, reserved names and collisions (\<^verbatim>\<open>protocol/tool_namespace.py\<close>).
  \<^item> \<^verbatim>\<open>OAuth_Tokens\<close>: the tables of the built-in OAuth server (\<^verbatim>\<open>oauth_server.py\<close>, \<^verbatim>\<open>oauth_store.py\<close>): clients, consent, codes,
    refresh-token families with replay detection, signing, verification, revocation and narrowing.
  \<^item> \<^verbatim>\<open>External_Identity\<close>: trust in other issuers (\<^verbatim>\<open>external_connection.py\<close>, \<^verbatim>\<open>external_jwt.py\<close>, \<^verbatim>\<open>external_connection_store.py\<close>): the checks
    of the configuration and of a bearer, the cache of pinned keys, subject links and delegations.
  \<^item> \<^verbatim>\<open>Auth_Store\<close>: users, passwords, sessions, personal tokens, the first administrator, the authentication of control and MCP requests,
    console tickets and the user and token routes (\<^verbatim>\<open>auth.py\<close>, \<^verbatim>\<open>console_session_security.py\<close>, \<^verbatim>\<open>access_routes.py\<close>).
  \<^item> \<^verbatim>\<open>Token_Authorization\<close>: the independent scope of a token, previewed and saved with tickets (\<^verbatim>\<open>token_authorizations.py\<close>).
  \<^item> \<^verbatim>\<open>Auth_Runs\<close>: all operations of the last two as one machine, with the invariant of the tables.  \<^verbatim>\<open>Auth_Guarantees\<close>: what holds over its runs:
    live credentials only, an administrator remains, revocation is final, new tokens stay within the function scopes of their creator, changes are confirmed;
    and two gaps, the race of two administrator edits and the account-mode token a restricted token can create.

  \<^item> \<^verbatim>\<open>Node_Toolchain\<close>: which package manager, exact version and lockfile an uploaded Node project is built with (\<^verbatim>\<open>node_toolchain.py\<close>);
    an inspection without errors pins all three.
  \<^item> \<^verbatim>\<open>Build_Plan\<close>: the plan compiled for an upload, its validation, the waves of its steps and the manifest of the artifact
    (\<^verbatim>\<open>build_plan.py\<close>).  Compiled plans validate, validated plans run fixed commands only, the waves are a topological order, and the
    launched file lies in the artifact.

  \<^bold>\<open>State and operations.\<close>  A Python object or SQL row is a record, an enumeration a datatype, a table the list of its rows in insertion
  order, a dictionary an association list in insertion order where order is observable and a map elsewhere.  Methods are
  functions from the state to a sum: \<open>Inl\<close> is the exception, and an SQL transaction that raises leaves the old state.
  Python integers are \<open>int\<close>, clocks and timestamps are rationals, and floats inside JSON values are abstract with their
  \<^verbatim>\<open>repr\<close> as a parameter.  What another thread does between two reads of a call is an argument of the call: the
  registry, tables and policies are read again at each point where the source reads them (records \<open>world\<close> and
  \<open>schedule\<close>), with unrelated values.

  \<^bold>\<open>Bounds, fuel and termination.\<close>  The traversals of JSON, the cause chain, cleanup jobs and the waiting loop of a deadline-bounded
  acquisition and the loop over the waves of a build plan are total functions with termination proofs or bounds that are theorems.  The only fuel is that of
  \<open>gather\<close>, a client following pages: its theorem gives the number that suffices.  The final check of a call loops at most
  twice, because the schema is validated once; the model unrolls the two rounds.

  \<^bold>\<open>Parameters.\<close>  Digests, PBKDF2, PyJWT, the JWKS download, the parser of ISO timestamps, random secrets, \<^verbatim>\<open>uuid4\<close>, the markers of credential files, \<^verbatim>\<open>urlsplit\<close>, \<^verbatim>\<open>json.loads\<close> of stored policies, the files and parsers of lockfiles, the artifact directory, the schema
  validator's worker process, pydantic's validation of a handler's output, the redacting snapshot, the remote dispatcher (an arbitrary script of callbacks) and tool
  handlers are arguments of the definitions.

  \<^bold>\<open>Not modelled.\<close>  Transports and subprocesses (\<^verbatim>\<open>mcp_runtime.py\<close>, \<^verbatim>\<open>mcp_http_client.py\<close>, \<^verbatim>\<open>mcp_stdio_client.py\<close>): sockets and
  processes.  The consent and login pages, the network part of the JWKS download and cryptography; credential encryption
  (\<^verbatim>\<open>credential_store.py\<close>).  The execution of builds and project delivery (\<^verbatim>\<open>build_deploy.py\<close>, \<^verbatim>\<open>project_delivery_mcp.py\<close>): containers, processes and file trees.
  The other HTTP routes and telemetry, which wrap the modelled operations.  SQL itself: the tables' uniqueness constraints are the
  well-formedness the invariants keep.
\<close>

end
